(* ===== verification/Tinc_Prelude.thy ===== *)
theory Tinc_Prelude
  imports Main "HOL-Library.Word" "HOL-Library.Char_ord" "HOL-Library.List_Lexorder"
    "HOL-Library.Multiset"
begin

text \<open>
  Shared vocabulary of the development: the machine types of the Rust source, slices and
  big-endian byte conversions, three-way comparison with the stable sort the code calls, and
  the collections of simplification rules the components extend.

  Strings are the UTF-8 byte sequences Rust stores (\<^typ>\<open>string\<close>, one \<^typ>\<open>char\<close> per
  byte); \<^verbatim>\<open>str::len\<close> is \<^const>\<open>length\<close>.  Buffers are lists of 8-bit words.  Signed
  integers (\<open>i32\<close>, \<open>i64\<close>) are \<^typ>\<open>int\<close> with the wrap-around or saturation of each
  operation written out; unsigned bit patterns (\<open>u32\<close> options, nonces, checksums) are words;
  sizes (\<open>usize\<close>) are \<^typ>\<open>nat\<close>.
\<close>

unbundle bit_operations_syntax

named_theorems tinc_defs \<open>definitions the component proofs unfold\<close>
named_theorems tinc_inv \<open>preservation lemmas of the component invariants\<close>

type_synonym byte = "8 word"
type_synonym u16 = "16 word"
type_synonym u32 = "32 word"

section \<open>Signed integers\<close>

text \<open>
  \<open>i32\<close> addition as the release profile compiles it: two's complement wrap-around.
\<close>

definition i32_wrap :: "int \<Rightarrow> int" where
  "i32_wrap x = (x + 2 ^ 31) mod 2 ^ 32 - 2 ^ 31"

definition i32_min :: int where "i32_min = - (2 ^ 31)"
definition i32_max :: int where "i32_max = 2 ^ 31 - 1"
definition i64_max :: int where "i64_max = 2 ^ 63 - 1"

definition in_i32 :: "int \<Rightarrow> bool" where
  "in_i32 x \<longleftrightarrow> i32_min \<le> x \<and> x \<le> i32_max"

lemma i32_wrap_range: "in_i32 (i32_wrap x)"
  by (simp add: in_i32_def i32_wrap_def i32_min_def i32_max_def)

lemma i32_wrap_lower: "- (2 ^ 31) \<le> i32_wrap x"
  by (simp add: i32_wrap_def)

lemma i32_wrap_upper: "i32_wrap x < 2 ^ 31"
  by (simp add: i32_wrap_def)

lemma i32_wrap_id: "in_i32 x \<Longrightarrow> i32_wrap x = x"
  by (simp add: in_i32_def i32_wrap_def i32_min_def i32_max_def)

section \<open>Slices and byte order\<close>

definition subslice :: "nat \<Rightarrow> nat \<Rightarrow> 'a list \<Rightarrow> 'a list" where
  "subslice i j xs = take (j - i) (drop i xs)"

definition copy_at :: "nat \<Rightarrow> 'a list \<Rightarrow> 'a list \<Rightarrow> 'a list" where
  "copy_at i src dst = take i dst @ src @ drop (i + length src) dst"

lemma length_subslice [simp]: "length (subslice i j xs) = min (j - i) (length xs - i)"
  by (simp add: subslice_def)

lemma nth_subslice: "i + k < length xs \<Longrightarrow> k < j - i \<Longrightarrow> subslice i j xs ! k = xs ! (i + k)"
  by (simp add: subslice_def)

lemma length_copy_at [simp]:
  "i + length src \<le> length dst \<Longrightarrow> length (copy_at i src dst) = length dst"
  by (simp add: copy_at_def)

lemma nth_copy_at:
  assumes "i + length src \<le> length dst" "k < length dst"
  shows "copy_at i src dst ! k =
    (if i \<le> k \<and> k < i + length src then src ! (k - i) else dst ! k)"
  using assms by (auto simp: copy_at_def nth_append)

lemma nth_copy_at_outside:
  assumes "i + length src \<le> length dst" "k < length dst" "k < i \<or> i + length src \<le> k"
  shows "copy_at i src dst ! k = dst ! k"
  using assms by (auto simp: nth_copy_at)

definition be16 :: "byte \<Rightarrow> byte \<Rightarrow> u16" where
  "be16 a b = of_nat (unat a * 256 + unat b)"

definition be16_bytes :: "u16 \<Rightarrow> byte list" where
  "be16_bytes w = [of_nat (unat w div 256), of_nat (unat w mod 256)]"

definition be32 :: "byte \<Rightarrow> byte \<Rightarrow> byte \<Rightarrow> byte \<Rightarrow> u32" where
  "be32 a b c d = of_nat (((unat a * 256 + unat b) * 256 + unat c) * 256 + unat d)"

definition be32_bytes :: "u32 \<Rightarrow> byte list" where
  "be32_bytes w = [of_nat (unat w div 16777216), of_nat (unat w div 65536 mod 256),
     of_nat (unat w div 256 mod 256), of_nat (unat w mod 256)]"

lemma unat_byte_less [simp]: "unat (a :: byte) < 256"
  using unsigned_less [of a, where ?'a = nat] by simp

lemma unat_byte_le [simp]: "unat (a :: byte) \<le> 255"
  using unat_byte_less [of a] by linarith

lemma unat_u16_less [simp]: "unat (a :: u16) < 65536"
  using unsigned_less [of a, where ?'a = nat] by simp

lemma unat_u32_less [simp]: "unat (a :: u32) < 4294967296"
  using unsigned_less [of a, where ?'a = nat] by simp

lemma unat_of_nat_byte: "n < 256 \<Longrightarrow> unat (of_nat n :: byte) = n"
  by (simp add: unat_of_nat take_bit_eq_mod)

lemma unat_of_nat_u16: "n < 65536 \<Longrightarrow> unat (of_nat n :: u16) = n"
  by (simp add: unat_of_nat take_bit_eq_mod)

lemma unat_of_nat_u32: "n < 4294967296 \<Longrightarrow> unat (of_nat n :: u32) = n"
  by (simp add: unat_of_nat take_bit_eq_mod)

lemma byte_eqI: "unat (a :: byte) = unat b \<Longrightarrow> a = b"
  by (rule unsigned_word_eqI)

lemma unat_be16: "unat (be16 a b) = unat a * 256 + unat b"
proof -
  have "unat a * 256 + unat b < 65536"
    using unat_byte_less [of a] unat_byte_less [of b] by linarith
  then show ?thesis unfolding be16_def by (rule unat_of_nat_u16)
qed

lemma length_be16_bytes [simp]: "length (be16_bytes w) = 2"
  by (simp add: be16_bytes_def)

lemma length_be32_bytes [simp]: "length (be32_bytes w) = 4"
  by (simp add: be32_bytes_def)

lemma be16_bytes_inverse: "be16 (be16_bytes w ! 0) (be16_bytes w ! 1) = w"
proof -
  have "unat w div 256 < 256" using unat_u16_less [of w] by linarith
  then have "unat (be16 (be16_bytes w ! 0) (be16_bytes w ! 1)) = unat w"
    unfolding unat_be16 be16_bytes_def by (simp add: unat_of_nat_byte del: of_nat_mod)
  then show ?thesis by (rule unsigned_word_eqI)
qed

lemma be16_bytes_be16 [simp]: "be16_bytes (be16 a b) = [a, b]"
proof -
  have "(unat a * 256 + unat b) div 256 = unat a" and "(unat a * 256 + unat b) mod 256 = unat b"
    using unat_byte_less [of b] by simp_all
  then show ?thesis by (simp add: be16_bytes_def unat_be16 del: of_nat_mod)
qed

lemma unat_be32:
  "unat (be32 a b c d) = ((unat a * 256 + unat b) * 256 + unat c) * 256 + unat d"
proof -
  have "((unat a * 256 + unat b) * 256 + unat c) * 256 + unat d < 4294967296"
    using unat_byte_less [of a] unat_byte_less [of b] unat_byte_less [of c]
      unat_byte_less [of d] by (simp del: unat_byte_less)
  then show ?thesis unfolding be32_def by (rule unat_of_nat_u32)
qed

lemma base256_digits: "((n div 16777216 * 256 + n div 65536 mod 256) * 256
    + n div 256 mod 256) * 256 + n mod 256 = (n :: nat)"
proof -
  have "n div 65536 = n div 256 div 256" and "n div 16777216 = n div 256 div 256 div 256"
    by (simp_all add: div_mult2_eq [symmetric])
  then show ?thesis by (simp only: div_mult_mod_eq)
qed

lemma be32_bytes_inverse:
  "be32 (be32_bytes w ! 0) (be32_bytes w ! 1) (be32_bytes w ! 2) (be32_bytes w ! 3) = w"
proof -
  have "unat w div 16777216 < 256" using unat_u32_less [of w] by linarith
  then have "unat (be32 (be32_bytes w ! 0) (be32_bytes w ! 1) (be32_bytes w ! 2) (be32_bytes w ! 3))
      = unat w"
    unfolding unat_be32 be32_bytes_def numeral_2_eq_2 numeral_3_eq_3
    by (simp add: unat_of_nat_byte base256_digits [simplified] del: of_nat_mod)
  then show ?thesis by (rule unsigned_word_eqI)
qed

section \<open>Results\<close>

text \<open>\<open>Result\<close> is a sum with the error on the left; \<open>and_then\<close> is the \<^verbatim>\<open>?\<close> operator.\<close>

definition and_then :: "'e + 'a \<Rightarrow> ('a \<Rightarrow> 'e + 'b) \<Rightarrow> 'e + 'b" where
  "and_then r f = (case r of Inl e \<Rightarrow> Inl e | Inr v \<Rightarrow> f v)"

definition ok_or :: "'e \<Rightarrow> 'a option \<Rightarrow> 'e + 'a" where
  "ok_or e r = (case r of None \<Rightarrow> Inl e | Some v \<Rightarrow> Inr v)"

definition map_ok :: "('a \<Rightarrow> 'b) \<Rightarrow> 'e + 'a \<Rightarrow> 'e + 'b" where
  "map_ok f r = (case r of Inl e \<Rightarrow> Inl e | Inr v \<Rightarrow> Inr (f v))"

definition map_err :: "('e \<Rightarrow> 'f) \<Rightarrow> 'e + 'a \<Rightarrow> 'f + 'a" where
  "map_err f r = (case r of Inl e \<Rightarrow> Inl (f e) | Inr v \<Rightarrow> Inr v)"

lemma and_then_simps [simp]: "and_then (Inl e) f = Inl e" "and_then (Inr v) f = f v"
  by (simp_all add: and_then_def)

lemma ok_or_simps [simp]: "ok_or e None = Inl e" "ok_or e (Some v) = Inr v"
  by (simp_all add: ok_or_def)

lemma map_ok_simps [simp]: "map_ok f (Inl e) = Inl e" "map_ok f (Inr v) = Inr (f v)"
  by (simp_all add: map_ok_def)

lemma map_err_simps [simp]: "map_err f (Inl e) = Inl (f e)" "map_err f (Inr v) = Inr v"
  by (simp_all add: map_err_def)

lemma and_then_Inr: "and_then r f = Inr w \<longleftrightarrow> (\<exists>v. r = Inr v \<and> f v = Inr w)"
  by (cases r) auto

lemma ok_or_Inr: "ok_or e r = Inr w \<longleftrightarrow> r = Some w"
  by (cases r) auto

lemma map_ok_Inr: "map_ok f r = Inr w \<longleftrightarrow> (\<exists>v. r = Inr v \<and> w = f v)"
  by (cases r) auto

lemma map_err_Inr: "map_err f r = Inr w \<longleftrightarrow> r = Inr w"
  by (cases r) auto

lemmas result_Inr = and_then_Inr ok_or_Inr map_ok_Inr map_err_Inr

end
