(* ===== verification/Rust_Order.thy ===== *)
theory Rust_Order
  imports Tinc_Prelude
begin

text \<open>
  \<^verbatim>\<open>std::cmp::Ordering\<close> and the stable \<^verbatim>\<open>slice::sort_by\<close> the subnet table, the
  configuration tree and the spanning tree call.  A comparison function that is a total
  preorder on a domain is the interface \<open>comparator\<close>; sortedness after insertion and sorting is
  proved once inside it.  The sort is insertion from the left, which is what any stable sort
  computes when the comparison is a total preorder (the only case in which Rust specifies the
  result).
\<close>

datatype ordering = Less | Equal | Greater

fun reverse_ordering :: "ordering \<Rightarrow> ordering" where
  "reverse_ordering Less = Greater"
| "reverse_ordering Equal = Equal"
| "reverse_ordering Greater = Less"

definition cmp :: "'a::linorder \<Rightarrow> 'a \<Rightarrow> ordering" where
  "cmp x y = (if x < y then Less else if x = y then Equal else Greater)"

definition then_with :: "ordering \<Rightarrow> ordering \<Rightarrow> ordering" where
  "then_with a b = (case a of Equal \<Rightarrow> b | _ \<Rightarrow> a)"

lemma reverse_ordering_twice [simp]: "reverse_ordering (reverse_ordering a) = a"
  by (cases a) auto

lemma reverse_ordering_eq [simp]:
  "reverse_ordering a = Less \<longleftrightarrow> a = Greater"
  "reverse_ordering a = Equal \<longleftrightarrow> a = Equal"
  "reverse_ordering a = Greater \<longleftrightarrow> a = Less"
  by (cases a; simp)+

lemma cmp_simps [simp]:
  "cmp x y = Equal \<longleftrightarrow> x = y"
  "cmp x y = Less \<longleftrightarrow> x < y"
  "cmp x y = Greater \<longleftrightarrow> y < x"
  "cmp x x = Equal"
  by (auto simp: cmp_def)

lemma cmp_swap: "cmp y x = reverse_ordering (cmp x y)"
  by (auto simp: cmp_def)

lemma then_with_simps [simp]:
  "then_with Equal b = b" "then_with Less b = Less" "then_with Greater b = Greater"
  by (simp_all add: then_with_def)

lemma then_with_eq:
  "then_with a b = Equal \<longleftrightarrow> a = Equal \<and> b = Equal"
  "then_with a b = Less \<longleftrightarrow> a = Less \<or> a = Equal \<and> b = Less"
  "then_with a b = Greater \<longleftrightarrow> a = Greater \<or> a = Equal \<and> b = Greater"
  by (cases a; simp)+

lemma reverse_then_with:
  "reverse_ordering (then_with a b) = then_with (reverse_ordering a) (reverse_ordering b)"
  by (cases a) auto

section \<open>Stable sorting\<close>

fun insert_by :: "('a \<Rightarrow> 'a \<Rightarrow> ordering) \<Rightarrow> 'a \<Rightarrow> 'a list \<Rightarrow> 'a list" where
  "insert_by c x [] = [x]"
| "insert_by c x (y # ys) = (if c y x = Greater then x # y # ys else y # insert_by c x ys)"

definition sort_by :: "('a \<Rightarrow> 'a \<Rightarrow> ordering) \<Rightarrow> 'a list \<Rightarrow> 'a list" where
  "sort_by c xs = fold (insert_by c) xs []"

definition sorted_by :: "('a \<Rightarrow> 'a \<Rightarrow> ordering) \<Rightarrow> 'a list \<Rightarrow> bool" where
  "sorted_by c = sorted_wrt (\<lambda>x y. c x y \<noteq> Greater)"

lemma mset_insert_by [simp]: "mset (insert_by c x xs) = add_mset x (mset xs)"
  by (induction xs) auto

lemma set_insert_by [simp]: "set (insert_by c x xs) = insert x (set xs)"
  by (metis mset_insert_by set_mset_mset set_mset_add_mset_insert)

lemma length_insert_by [simp]: "length (insert_by c x xs) = Suc (length xs)"
  by (induction xs) auto

lemma mset_fold_insert_by: "mset (fold (insert_by c) xs ys) = mset xs + mset ys"
  by (induction xs arbitrary: ys) auto

lemma mset_sort_by [simp]: "mset (sort_by c xs) = mset xs"
  by (simp add: sort_by_def mset_fold_insert_by)

lemma set_sort_by [simp]: "set (sort_by c xs) = set xs"
  by (metis mset_sort_by set_mset_mset)

lemma length_sort_by [simp]: "length (sort_by c xs) = length xs"
  by (metis mset_sort_by size_mset)

lemma insert_by_last: "\<forall>y \<in> set xs. c y x \<noteq> Greater \<Longrightarrow> insert_by c x xs = xs @ [x]"
  by (induction xs) auto

lemma sort_by_sorted: "sorted_by c xs \<Longrightarrow> sort_by c xs = xs"
proof (induction xs rule: rev_induct)
  case Nil
  then show ?case by (simp add: sort_by_def)
next
  case (snoc x xs)
  then have "sorted_by c xs" and "\<forall>y \<in> set xs. c y x \<noteq> Greater"
    by (auto simp: sorted_by_def sorted_wrt_append)
  with snoc.IH show ?case by (simp add: sort_by_def insert_by_last)
qed

text \<open>The pattern \<^verbatim>\<open>push; sort_by\<close> on a sorted vector is one insertion.\<close>

lemma sort_by_push: "sorted_by c xs \<Longrightarrow> sort_by c (xs @ [x]) = insert_by c x xs"
  using sort_by_sorted [of c xs] by (simp add: sort_by_def)

locale comparator =
  fixes c :: "'a \<Rightarrow> 'a \<Rightarrow> ordering" and D :: "'a \<Rightarrow> bool"
  assumes c_refl: "D x \<Longrightarrow> c x x = Equal"
    and c_swap: "D x \<Longrightarrow> D y \<Longrightarrow> c y x = reverse_ordering (c x y)"
    and c_trans: "D x \<Longrightarrow> D y \<Longrightarrow> D z \<Longrightarrow> c x y \<noteq> Greater \<Longrightarrow> c y z \<noteq> Greater \<Longrightarrow> c x z \<noteq> Greater"
begin

lemma not_greater_total: "D x \<Longrightarrow> D y \<Longrightarrow> c x y = Greater \<Longrightarrow> c y x \<noteq> Greater"
  by (simp add: c_swap [of x y])

lemma sorted_insert_by:
  assumes "sorted_by c xs" "\<forall>y \<in> set xs. D y" "D x"
  shows "sorted_by c (insert_by c x xs)"
  using assms
proof (induction xs)
  case Nil
  then show ?case by (simp add: sorted_by_def)
next
  case (Cons y ys)
  show ?case
  proof (cases "c y x = Greater")
    case True
    then have "c x y \<noteq> Greater" using Cons.prems not_greater_total by auto
    then have "c x z \<noteq> Greater" if "z \<in> set ys" for z
      using that Cons.prems c_trans [of x y z] by (auto simp: sorted_by_def)
    with True \<open>c x y \<noteq> Greater\<close> Cons.prems show ?thesis by (auto simp: sorted_by_def)
  next
    case False
    with Cons show ?thesis by (auto simp: sorted_by_def)
  qed
qed

lemma sorted_sort_by:
  assumes "\<forall>y \<in> set xs. D y"
  shows "sorted_by c (sort_by c xs)"
proof -
  have "sorted_by c (fold (insert_by c) xs ys)"
    if "sorted_by c ys" "\<forall>y \<in> set xs \<union> set ys. D y" for ys
    using that
    by (induction xs arbitrary: ys) (auto simp: sorted_insert_by)
  from this [of "[]"] assms show ?thesis by (simp add: sort_by_def sorted_by_def)
qed

text \<open>
  The first element with a property in a sorted vector is a least one with it.
\<close>

lemma find_least:
  assumes "sorted_by c xs" "\<forall>y \<in> set xs. D y" "find P xs = Some x"
  shows "x \<in> set xs \<and> P x \<and> (\<forall>y \<in> set xs. P y \<longrightarrow> c x y \<noteq> Greater)"
  using assms
proof (induction xs)
  case Nil
  then show ?case by simp
next
  case (Cons a xs)
  then show ?case
    by (cases "P a") (auto simp: sorted_by_def c_refl)
qed

end

text \<open>The derived order of a linearly ordered type, and lexicographic combination of keys.\<close>

interpretation derived_ord: comparator "cmp :: 'a::linorder \<Rightarrow> 'a \<Rightarrow> ordering" "\<lambda>_. True"
proof unfold_locales
  fix x y z :: 'a
  show "cmp y x = reverse_ordering (cmp x y)" by (rule cmp_swap)
  show "cmp x y \<noteq> Greater \<Longrightarrow> cmp y z \<noteq> Greater \<Longrightarrow> cmp x z \<noteq> Greater" by simp
qed simp

lemma comparator_key:
  fixes f :: "'a \<Rightarrow> 'b::linorder"
  assumes "\<And>x y. D x \<Longrightarrow> D y \<Longrightarrow> c x y = cmp (f x) (f y)"
  shows "comparator c D"
proof unfold_locales
  fix x y z
  show "D x \<Longrightarrow> c x x = Equal" by (simp add: assms)
  show "D x \<Longrightarrow> D y \<Longrightarrow> c y x = reverse_ordering (c x y)"
    using cmp_swap [of "f y" "f x"] by (simp add: assms)
  show "D x \<Longrightarrow> D y \<Longrightarrow> D z \<Longrightarrow> c x y \<noteq> Greater \<Longrightarrow> c y z \<noteq> Greater \<Longrightarrow> c x z \<noteq> Greater"
    by (simp add: assms)
qed

end
