(* ===== verification/Rust_Text.thy ===== *)
theory Rust_Text
  imports Rust_Order
begin

text \<open>
  The string operations of Rust's standard library that the source calls: character classes,
  \<^verbatim>\<open>split_whitespace\<close> (Unicode white space, in its UTF-8 encoding), \<^verbatim>\<open>split\<close>,
  \<^verbatim>\<open>split_once\<close>, \<^verbatim>\<open>from_str_radix\<close> / \<^verbatim>\<open>str::parse\<close> for
  integers, and the formatting of integers in decimal and hexadecimal.  The lemmas are the
  round trips between printing and parsing that the wire formats rest on.
\<close>

section \<open>Character classes\<close>

definition code :: "char \<Rightarrow> nat" where
  "code c = of_char c"

definition is_ascii_digit :: "char \<Rightarrow> bool" where
  "is_ascii_digit c \<longleftrightarrow> 48 \<le> code c \<and> code c \<le> 57"

definition is_ascii_alpha :: "char \<Rightarrow> bool" where
  "is_ascii_alpha c \<longleftrightarrow> (65 \<le> code c \<and> code c \<le> 90) \<or> (97 \<le> code c \<and> code c \<le> 122)"

definition is_ascii_alphanumeric :: "char \<Rightarrow> bool" where
  "is_ascii_alphanumeric c \<longleftrightarrow> is_ascii_digit c \<or> is_ascii_alpha c"

text \<open>\<^verbatim>\<open>u8::is_ascii_whitespace\<close>: space, tab, line feed, form feed, carriage return.\<close>

definition is_ascii_whitespace :: "char \<Rightarrow> bool" where
  "is_ascii_whitespace c \<longleftrightarrow> code c \<in> {32, 9, 10, 12, 13}"

text \<open>
  The length of the \<^verbatim>\<open>White_Space\<close> character at the head of a UTF-8 string, 0 if there
  is none: U+0009..U+000D, U+0020, U+0085, U+00A0, U+1680, U+2000..U+200A, U+2028, U+2029,
  U+202F, U+205F, U+3000.
\<close>

definition ws_len :: "string \<Rightarrow> nat" where
  "ws_len s = (case map code s of
      [] \<Rightarrow> 0
    | c # r \<Rightarrow>
        if c = 32 \<or> (9 \<le> c \<and> c \<le> 13) then 1
        else (case r of
            [] \<Rightarrow> 0
          | d # r' \<Rightarrow>
              if c = 0xC2 \<and> (d = 0x85 \<or> d = 0xA0) then 2
              else (case r' of
                  [] \<Rightarrow> 0
                | e # _ \<Rightarrow>
                    if (c = 0xE1 \<and> d = 0x9A \<and> e = 0x80)
                      \<or> (c = 0xE2 \<and> d = 0x80
                          \<and> ((0x80 \<le> e \<and> e \<le> 0x8A) \<or> e = 0xA8 \<or> e = 0xA9 \<or> e = 0xAF))
                      \<or> (c = 0xE2 \<and> d = 0x81 \<and> e = 0x9F)
                      \<or> (c = 0xE3 \<and> d = 0x80 \<and> e = 0x80)
                    then 3 else 0)))"

fun split_ws :: "string \<Rightarrow> nat \<Rightarrow> string \<Rightarrow> string list" where
  "split_ws cur k [] = (if cur = [] then [] else [cur])"
| "split_ws cur (Suc k) (c # s) = split_ws cur k s"
| "split_ws cur 0 (c # s) =
     (case ws_len (c # s) of
        0 \<Rightarrow> split_ws (cur @ [c]) 0 s
      | Suc n \<Rightarrow> (if cur = [] then [] else [cur]) @ split_ws [] n s)"

definition split_whitespace :: "string \<Rightarrow> string list" where
  "split_whitespace s = split_ws [] 0 s"

fun no_ws :: "string \<Rightarrow> bool" where
  "no_ws [] = True"
| "no_ws (c # s) = (ws_len (c # s) = 0 \<and> no_ws s)"

definition token :: "string \<Rightarrow> bool" where
  "token s \<longleftrightarrow> s \<noteq> [] \<and> no_ws s"

fun unwords :: "string list \<Rightarrow> string" where
  "unwords [] = []"
| "unwords [w] = w"
| "unwords (w # v # ws) = w @ '' '' @ unwords (v # ws)"

lemma ws_len_space: "ws_len (CHR '' '' # s) = 1"
  by (simp add: ws_len_def code_def)

lemma ws_len_append_space:
  assumes "s \<noteq> []" "ws_len s = 0"
  shows "ws_len (s @ CHR '' '' # r) = 0"
proof -
  have [simp]: "code CHR '' '' = 32" by (simp add: code_def)
  obtain c t where s: "s = c # t" using assms(1) by (cases s) auto
  show ?thesis
  proof (cases t)
    case Nil
    with assms s show ?thesis by (auto simp: ws_len_def split: if_splits list.splits)
  next
    case (Cons d u)
    then show ?thesis
      using assms(2) s by (cases u) (auto simp: ws_len_def split: if_splits)
  qed
qed

lemma split_ws_token:
  "no_ws s \<Longrightarrow> split_ws cur 0 (s @ CHR '' '' # r)
     = (if cur @ s = [] then [] else [cur @ s]) @ split_ws [] 0 r"
proof (induction s arbitrary: cur)
  case Nil
  then show ?case by (simp add: ws_len_space)
next
  case (Cons c s)
  then have "ws_len ((c # s) @ CHR '' '' # r) = 0" by (intro ws_len_append_space) auto
  with Cons show ?case by simp
qed

lemma split_ws_last: "no_ws s \<Longrightarrow> split_ws cur 0 s = (if cur @ s = [] then [] else [cur @ s])"
  by (induction s arbitrary: cur) auto

lemma split_whitespace_token_Cons:
  "token w \<Longrightarrow> split_whitespace (w @ CHR '' '' # r) = w # split_whitespace r"
  by (simp add: split_whitespace_def token_def split_ws_token)

lemma split_whitespace_token: "token w \<Longrightarrow> split_whitespace w = [w]"
  by (simp add: split_whitespace_def token_def split_ws_last)

lemma split_whitespace_unwords: "\<forall>w \<in> set ws. token w \<Longrightarrow> split_whitespace (unwords ws) = ws"
proof (induction ws rule: unwords.induct)
  case 1
  then show ?case by (simp add: split_whitespace_def)
next
  case (2 w)
  then show ?case by (simp add: split_whitespace_token)
next
  case (3 w v ws)
  then show ?case by (simp add: split_whitespace_token_Cons)
qed

text \<open>Plain ASCII words are tokens.\<close>

definition graphic :: "char \<Rightarrow> bool" where
  "graphic c \<longleftrightarrow> 33 \<le> code c \<and> code c \<le> 126"

lemma ws_len_graphic: "graphic c \<Longrightarrow> ws_len (c # s) = 0"
  by (auto simp: ws_len_def graphic_def split: list.splits)

lemma no_ws_graphic: "\<forall>c \<in> set s. graphic c \<Longrightarrow> no_ws s"
  by (induction s) (auto simp: ws_len_graphic)

lemma token_graphic: "s \<noteq> [] \<Longrightarrow> \<forall>c \<in> set s. graphic c \<Longrightarrow> token s"
  by (simp add: token_def no_ws_graphic)

lemma graphic_alnum: "is_ascii_alphanumeric c \<Longrightarrow> graphic c"
  by (auto simp: is_ascii_alphanumeric_def is_ascii_digit_def is_ascii_alpha_def graphic_def)

section \<open>Splitting and stripping\<close>

fun split_once :: "char \<Rightarrow> string \<Rightarrow> (string \<times> string) option" where
  "split_once c [] = None"
| "split_once c (x # xs) =
     (if x = c then Some ([], xs) else map_option (\<lambda>(a, b). (x # a, b)) (split_once c xs))"

fun split_on :: "char \<Rightarrow> string \<Rightarrow> string list" where
  "split_on c [] = [[]]"
| "split_on c (x # xs) =
     (if x = c then [] # split_on c xs
      else (case split_on c xs of [] \<Rightarrow> [[x]] | p # ps \<Rightarrow> (x # p) # ps))"

fun strip_prefix :: "string \<Rightarrow> string \<Rightarrow> string option" where
  "strip_prefix [] s = Some s"
| "strip_prefix (p # ps) [] = None"
| "strip_prefix (p # ps) (x # xs) = (if p = x then strip_prefix ps xs else None)"

lemma split_once_none: "c \<notin> set s \<Longrightarrow> split_once c s = None"
  by (induction s) auto

lemma split_once_append: "c \<notin> set a \<Longrightarrow> split_once c (a @ c # b) = Some (a, b)"
  by (induction a) auto

lemma split_on_not_Nil [simp]: "split_on c s \<noteq> []"
  by (induction s) (auto split: list.splits)

lemma split_on_none: "c \<notin> set s \<Longrightarrow> split_on c s = [s]"
  by (induction s) auto

lemma split_on_append: "c \<notin> set a \<Longrightarrow> split_on c (a @ c # b) = a # split_on c b"
  by (induction a) auto

section \<open>Digits\<close>

text \<open>\<^verbatim>\<open>char::to_digit\<close> and the digit characters of \<^verbatim>\<open>{}\<close> and \<^verbatim>\<open>{:x}\<close>.\<close>

definition to_digit :: "nat \<Rightarrow> char \<Rightarrow> nat option" where
  "to_digit radix c =
     (let n = code c;
          d = (if 48 \<le> n \<and> n \<le> 57 then Some (n - 48)
               else if 97 \<le> n \<and> n \<le> 122 then Some (n - 87)
               else if 65 \<le> n \<and> n \<le> 90 then Some (n - 55)
               else None)
      in case d of Some v \<Rightarrow> if v < radix then Some v else None | None \<Rightarrow> None)"

definition digit_char :: "nat \<Rightarrow> char" where
  "digit_char d = (if d < 10 then char_of (48 + d) else char_of (87 + d))"

fun radix_digits :: "nat \<Rightarrow> nat \<Rightarrow> nat list" where
  "radix_digits b n = (if b < 2 \<or> n < b then [n] else radix_digits b (n div b) @ [n mod b])"

declare radix_digits.simps [simp del]

definition show_radix :: "nat \<Rightarrow> nat \<Rightarrow> string" where
  "show_radix b n = map digit_char (radix_digits b n)"

definition show_nat :: "nat \<Rightarrow> string" where
  "show_nat n = show_radix 10 n"

definition show_hex :: "nat \<Rightarrow> string" where
  "show_hex n = show_radix 16 n"

definition show_int :: "int \<Rightarrow> string" where
  "show_int i = (if i < 0 then CHR ''-'' # show_nat (nat (- i)) else show_nat (nat i))"

fun parse_digits :: "nat \<Rightarrow> nat \<Rightarrow> string \<Rightarrow> nat option" where
  "parse_digits b acc [] = Some acc"
| "parse_digits b acc (c # s) =
     (case to_digit b c of None \<Rightarrow> None | Some d \<Rightarrow> parse_digits b (acc * b + d) s)"

text \<open>
  \<^verbatim>\<open>uN::from_str_radix\<close>: an optional plus sign, at least one digit, no overflow.
\<close>

definition parse_unsigned :: "nat \<Rightarrow> nat \<Rightarrow> string \<Rightarrow> nat option" where
  "parse_unsigned b hi s =
     (let ds = (case s of c # r \<Rightarrow> if c = CHR ''+'' then r else s | [] \<Rightarrow> [])
      in if ds = [] then None
         else (case parse_digits b 0 ds of
                 Some n \<Rightarrow> if n \<le> hi then Some n else None
               | None \<Rightarrow> None))"

text \<open>\<^verbatim>\<open>str::parse::<i32>\<close>: an optional sign, at least one digit, no overflow.\<close>

definition parse_i32 :: "string \<Rightarrow> int option" where
  "parse_i32 s =
     (let neg = (case s of c # _ \<Rightarrow> c = CHR ''-'' | [] \<Rightarrow> False);
          ds = (case s of c # r \<Rightarrow> if c = CHR ''+'' \<or> c = CHR ''-'' then r else s | [] \<Rightarrow> [])
      in if ds = [] then None
         else (case parse_digits 10 0 ds of
                 Some n \<Rightarrow> (let v = (if neg then - int n else int n)
                            in if in_i32 v then Some v else None)
               | None \<Rightarrow> None))"

lemma code_digit_char: "d < 16 \<Longrightarrow> code (digit_char d) = (if d < 10 then 48 + d else 87 + d)"
  by (simp add: digit_char_def code_def)

lemma to_digit_digit_char: "d < b \<Longrightarrow> b \<le> 16 \<Longrightarrow> to_digit b (digit_char d) = Some d"
  by (simp add: to_digit_def code_digit_char)

lemma radix_digits_less: "2 \<le> b \<Longrightarrow> \<forall>d \<in> set (radix_digits b n). d < b"
proof (induction b n rule: radix_digits.induct)
  case (1 b n)
  then show ?case by (subst radix_digits.simps) auto
qed

lemma radix_digits_not_Nil [simp]: "radix_digits b n \<noteq> []"
  by (subst radix_digits.simps) simp

lemma show_radix_not_Nil [simp]: "show_radix b n \<noteq> []"
  by (simp add: show_radix_def)

lemma parse_digits_append:
  "parse_digits b acc (s @ t) =
     (case parse_digits b acc s of None \<Rightarrow> None | Some a \<Rightarrow> parse_digits b a t)"
  by (induction s arbitrary: acc) (auto split: option.splits)

lemma parse_show_radix:
  assumes "2 \<le> b" "b \<le> 16"
  shows "parse_digits b 0 (show_radix b n) = Some n"
  using assms
proof (induction b n rule: radix_digits.induct)
  case (1 b n)
  show ?case
  proof (cases "n < b")
    case True
    with 1 show ?thesis
      by (simp add: show_radix_def radix_digits.simps [of b n] to_digit_digit_char)
  next
    case False
    with 1 have "parse_digits b 0 (show_radix b (n div b)) = Some (n div b)" by simp
    with False 1 show ?thesis
      by (simp add: show_radix_def radix_digits.simps [of b n] parse_digits_append
          to_digit_digit_char)
  qed
qed

lemma digit_char_alnum: "d < 16 \<Longrightarrow> is_ascii_alphanumeric (digit_char d)"
  by (auto simp: is_ascii_alphanumeric_def is_ascii_digit_def is_ascii_alpha_def code_digit_char)

lemma show_radix_graphic:
  assumes "2 \<le> b" "b \<le> 16"
  shows "\<forall>c \<in> set (show_radix b n). is_ascii_alphanumeric c"
proof -
  have "d < 16" if "d \<in> set (radix_digits b n)" for d
    using that radix_digits_less [of b n] assms by force
  then show ?thesis by (auto simp: show_radix_def intro: digit_char_alnum)
qed

lemma show_nat_digits: "\<forall>c \<in> set (show_nat n). is_ascii_digit c"
proof -
  have "d < 10" if "d \<in> set (radix_digits 10 n)" for d
    using that radix_digits_less [of 10 n] by simp
  then show ?thesis by (force simp: show_nat_def show_radix_def is_ascii_digit_def code_digit_char)
qed

lemma hd_show_radix:
  "2 \<le> b \<Longrightarrow> b \<le> 16 \<Longrightarrow> is_ascii_alphanumeric (hd (show_radix b n))"
  using show_radix_graphic [of b n] hd_in_set [OF show_radix_not_Nil [of b n]] by blast

lemma alnum_not_sign:
  "is_ascii_alphanumeric c \<Longrightarrow> c \<noteq> CHR ''+'' \<and> c \<noteq> CHR ''-''"
  by (auto simp: is_ascii_alphanumeric_def is_ascii_digit_def is_ascii_alpha_def code_def)

lemma alnum_not_separator:
  "is_ascii_alphanumeric c \<Longrightarrow>
    c \<noteq> CHR '':'' \<and> c \<noteq> CHR ''#'' \<and> c \<noteq> CHR ''/'' \<and> c \<noteq> CHR ''.'' \<and> c \<noteq> CHR '' ''"
  by (auto simp: is_ascii_alphanumeric_def is_ascii_digit_def is_ascii_alpha_def code_def)

lemma parse_unsigned_show:
  assumes "2 \<le> b" "b \<le> 16" "n \<le> hi"
  shows "parse_unsigned b hi (show_radix b n) = Some n"
proof -
  obtain c r where cr: "show_radix b n = c # r" by (cases "show_radix b n") auto
  have "c \<noteq> CHR ''+''"
    using hd_show_radix [OF assms(1,2), of n] alnum_not_sign by (auto simp: cr)
  then show ?thesis
    using parse_show_radix [OF assms(1,2), of n] assms(3)
    by (simp add: parse_unsigned_def cr)
qed

lemma parse_i32_show_nat: "n \<le> 2147483647 \<Longrightarrow> parse_i32 (show_nat n) = Some (int n)"
proof -
  assume n: "n \<le> 2147483647"
  obtain c r where cr: "show_nat n = c # r" unfolding show_nat_def by (cases "show_radix 10 n") auto
  have "c \<noteq> CHR ''+'' \<and> c \<noteq> CHR ''-''"
    using hd_show_radix [of 10 n] alnum_not_sign cr by (auto simp: show_nat_def)
  moreover have "parse_digits 10 0 (show_nat n) = Some n"
    using parse_show_radix [of 10 n] by (simp add: show_nat_def)
  ultimately show ?thesis
    using n by (simp add: parse_i32_def cr in_i32_def i32_min_def i32_max_def)
qed

lemma parse_i32_show_int:
  assumes "in_i32 i"
  shows "parse_i32 (show_int i) = Some i"
proof (cases "i < 0")
  case False
  with assms show ?thesis
    by (simp add: show_int_def parse_i32_show_nat in_i32_def i32_max_def nat_le_iff)
next
  case True
  moreover have "show_nat (nat (- i)) \<noteq> []" by (simp add: show_nat_def)
  moreover have "parse_digits 10 0 (show_nat (nat (- i))) = Some (nat (- i))"
    using parse_show_radix [of 10] by (simp add: show_nat_def)
  ultimately show ?thesis
    using assms by (simp add: show_int_def parse_i32_def)
qed

lemma graphic_show_nat: "\<forall>c \<in> set (show_nat n). graphic c"
  using show_radix_graphic [of 10 n] by (auto simp: show_nat_def graphic_alnum)

lemma graphic_show_hex: "\<forall>c \<in> set (show_hex n). graphic c"
  using show_radix_graphic [of 16 n] by (auto simp: show_hex_def graphic_alnum)

lemma graphic_show_int: "\<forall>c \<in> set (show_int i). graphic c"
proof -
  have "graphic CHR ''-''" by (simp add: graphic_def code_def)
  then show ?thesis using graphic_show_nat by (auto simp: show_int_def)
qed

lemma token_show_nat [simp]: "token (show_nat n)"
  by (rule token_graphic) (simp_all add: graphic_show_nat, simp add: show_nat_def)

lemma token_show_hex [simp]: "token (show_hex n)"
  by (rule token_graphic) (simp_all add: graphic_show_hex, simp add: show_hex_def)

lemma token_show_int [simp]: "token (show_int i)"
  by (rule token_graphic) (simp_all add: graphic_show_int, simp add: show_int_def show_nat_def)

end
