(* ===== verification/Utils.thy ===== *)
theory Utils
  imports Rust_Text
begin

text \<open>
  \<^verbatim>\<open>tinc-core/src/utils.rs\<close>: decimal and identifier checks, the constant-time memory
  comparison, and the hexadecimal and base64 codecs.  tinc's base64 puts the least significant
  six bits of a little-endian triplet first; triplets are 32-bit words, shifted and masked as
  the source does.
\<close>

section \<open>Text checks\<close>

definition int_to_str :: "int \<Rightarrow> string" where
  "int_to_str num = show_int num"

text \<open>The digit loop of \<^verbatim>\<open>is_decimal\<close>: \<open>None\<close> on \<open>i64\<close> overflow, else the rest.\<close>

fun decimal_digits :: "int \<Rightarrow> string \<Rightarrow> string option" where
  "decimal_digits v [] = Some []"
| "decimal_digits v (c # s) =
     (if is_ascii_digit c then
        (if v * 10 \<le> i64_max \<and> v * 10 + int (code c - 48) \<le> i64_max
         then decimal_digits (v * 10 + int (code c - 48)) s
         else None)
      else Some (c # s))"

definition skip_sign :: "string \<Rightarrow> string" where
  "skip_sign s = (case s of c # r \<Rightarrow> if c = CHR ''-'' \<or> c = CHR ''+'' then r else s | [] \<Rightarrow> [])"

definition is_decimal :: "string \<Rightarrow> bool" where
  "is_decimal s =
     (let ds = skip_sign (dropWhile is_ascii_whitespace s)
      in case decimal_digits 0 ds of None \<Rightarrow> False | Some r \<Rightarrow> r = [] \<and> ds \<noteq> [])"

definition string_eq :: "string option \<Rightarrow> string option \<Rightarrow> bool" where
  "string_eq a b \<longleftrightarrow> a = b"

definition check_id :: "string \<Rightarrow> bool" where
  "check_id name \<longleftrightarrow> name \<noteq> [] \<and> (\<forall>c \<in> set name. is_ascii_alphanumeric c \<or> c = CHR ''_'')"

text \<open>
  \<^verbatim>\<open>char::is_control\<close>: U+0000..U+001F and U+007F..U+009F, the latter in two UTF-8 bytes
  from 0x80 on.
\<close>

fun has_control :: "string \<Rightarrow> bool" where
  "has_control [] = False"
| "has_control (c # s) =
     (code c < 32 \<or> code c = 127
      \<or> (code c = 0xC2 \<and> (case s of d # _ \<Rightarrow> 0x80 \<le> code d \<and> code d \<le> 0x9F | [] \<Rightarrow> False))
      \<or> has_control s)"

definition check_netname :: "string \<Rightarrow> bool \<Rightarrow> bool" where
  "check_netname name strict \<longleftrightarrow>
     \<not> (name = [] \<or> hd name = CHR ''.'')
     \<and> \<not> has_control name
     \<and> (\<forall>c \<in> set name. c \<noteq> CHR ''/'' \<and> code c \<noteq> 92
          \<and> (strict \<longrightarrow> c \<notin> set '' $%<>:`\"|?*''))"

section \<open>Memory comparison\<close>

definition mem_eq :: "byte list \<Rightarrow> byte list \<Rightarrow> bool" where
  "mem_eq first second =
     (if length first \<noteq> length second then False
      else fold (\<lambda>(a, b) diff. diff OR (a XOR b)) (zip first second) 0 = 0)"

section \<open>Hexadecimal\<close>

definition hex_value :: "char \<Rightarrow> byte option" where
  "hex_value c =
     (let b = code c
      in if 48 \<le> b \<and> b \<le> 57 then Some (of_nat (b - 48))
         else if 97 \<le> b \<and> b \<le> 102 then Some (of_nat (b - 97 + 10))
         else if 65 \<le> b \<and> b \<le> 70 then Some (of_nat (b - 65 + 10))
         else None)"

fun hex_to_bin :: "string \<Rightarrow> nat \<Rightarrow> byte list" where
  "hex_to_bin (h # l # s) (Suc n) =
     (case hex_value h of
        None \<Rightarrow> []
      | Some high \<Rightarrow>
          (case hex_value l of
             None \<Rightarrow> []
           | Some low \<Rightarrow> (push_bit 4 high OR low) # hex_to_bin s n))"
| "hex_to_bin _ _ = []"

definition HEX :: string where
  "HEX = ''0123456789ABCDEF''"

definition bin_to_hex :: "byte list \<Rightarrow> string" where
  "bin_to_hex src = concat (map (\<lambda>b. [HEX ! unat (drop_bit 4 b), HEX ! unat (b AND 15)]) src)"

section \<open>Base64\<close>

definition BASE64_ORIGINAL :: string where
  "BASE64_ORIGINAL = ''ABCDEFGHIJKLMNOPQRSTUVWXYZabcdefghijklmnopqrstuvwxyz0123456789+/''"

definition BASE64_URLSAFE :: string where
  "BASE64_URLSAFE = ''ABCDEFGHIJKLMNOPQRSTUVWXYZabcdefghijklmnopqrstuvwxyz0123456789-_''"

fun b64encode_tinc_internal :: "byte list \<Rightarrow> string \<Rightarrow> string" where
  "b64encode_tinc_internal (a # b # c # src) alphabet =
     (let triplet = (ucast a :: u32) OR push_bit 8 (ucast b) OR push_bit 16 (ucast c)
      in [alphabet ! unat (triplet AND 63),
          alphabet ! unat (drop_bit 6 triplet AND 63),
          alphabet ! unat (drop_bit 12 triplet AND 63),
          alphabet ! unat (drop_bit 18 triplet)]
         @ b64encode_tinc_internal src alphabet)"
| "b64encode_tinc_internal [] alphabet = []"
| "b64encode_tinc_internal [a] alphabet =
     (let triplet = (ucast a :: u32)
      in [alphabet ! unat (triplet AND 63), alphabet ! unat (drop_bit 6 triplet)])"
| "b64encode_tinc_internal [a, b] alphabet =
     (let triplet = (ucast a :: u32) OR push_bit 8 (ucast b)
      in [alphabet ! unat (triplet AND 63),
          alphabet ! unat (drop_bit 6 triplet AND 63),
          alphabet ! unat (drop_bit 12 triplet)])"

definition b64encode_tinc :: "byte list \<Rightarrow> string" where
  "b64encode_tinc src = b64encode_tinc_internal src BASE64_ORIGINAL"

definition b64encode_tinc_urlsafe :: "byte list \<Rightarrow> string" where
  "b64encode_tinc_urlsafe src = b64encode_tinc_internal src BASE64_URLSAFE"

definition decode_base64_byte :: "char \<Rightarrow> byte option" where
  "decode_base64_byte c =
     (let b = code c
      in if 65 \<le> b \<and> b \<le> 90 then Some (of_nat (b - 65))
         else if 97 \<le> b \<and> b \<le> 122 then Some (of_nat (b - 97 + 26))
         else if 48 \<le> b \<and> b \<le> 57 then Some (of_nat (b - 48 + 52))
         else if c = CHR ''+'' \<or> c = CHR ''-'' then Some 62
         else if c = CHR ''/'' \<or> c = CHR ''_'' then Some 63
         else None)"

definition decode_base64_quad :: "char \<Rightarrow> char \<Rightarrow> char \<Rightarrow> char \<Rightarrow> u32 option" where
  "decode_base64_quad w x y z =
     (case (decode_base64_byte w, decode_base64_byte x, decode_base64_byte y, decode_base64_byte z)
      of (Some a, Some b, Some c, Some d) \<Rightarrow>
           Some (ucast a OR push_bit 6 (ucast b) OR push_bit 12 (ucast c) OR push_bit 18 (ucast d))
       | _ \<Rightarrow> None)"

fun b64decode_tinc :: "string \<Rightarrow> byte list option" where
  "b64decode_tinc (w # x # y # z # src) =
     (case decode_base64_quad w x y z of
        None \<Rightarrow> None
      | Some triplet \<Rightarrow>
          map_option ((@) [ucast (triplet AND 0xff), ucast (drop_bit 8 triplet AND 0xff),
                           ucast (drop_bit 16 triplet AND 0xff)])
            (b64decode_tinc src))"
| "b64decode_tinc [] = Some []"
| "b64decode_tinc [w] = None"
| "b64decode_tinc [w, x] =
     (case (decode_base64_byte w, decode_base64_byte x) of
        (Some a, Some b) \<Rightarrow>
          (let triplet = (ucast a :: u32) OR push_bit 6 (ucast b)
           in Some [ucast (triplet AND 0xff)])
      | _ \<Rightarrow> None)"
| "b64decode_tinc [w, x, y] =
     (case (decode_base64_byte w, decode_base64_byte x, decode_base64_byte y) of
        (Some a, Some b, Some c) \<Rightarrow>
          (let triplet = (ucast a :: u32) OR push_bit 6 (ucast b) OR push_bit 12 (ucast c)
           in Some [ucast (triplet AND 0xff), ucast (drop_bit 8 triplet AND 0xff)])
      | _ \<Rightarrow> None)"

section \<open>Memory comparison is equality\<close>

lemma or_eq_0: "a OR b = (0 :: byte) \<longleftrightarrow> a = 0 \<and> b = 0"
  by (auto simp: bit_eq_iff bit_simps)

lemma xor_eq_0: "a XOR b = (0 :: byte) \<longleftrightarrow> a = b"
  by (auto simp: bit_eq_iff bit_simps)

lemma fold_diff:
  "length xs = length ys \<Longrightarrow>
    fold (\<lambda>(a, b) diff. diff OR (a XOR b)) (zip xs ys) d = (0 :: byte) \<longleftrightarrow> d = 0 \<and> xs = ys"
  by (induction xs ys arbitrary: d rule: list_induct2) (auto simp: or_eq_0 xor_eq_0)

section \<open>Codec lemmas\<close>

lemma HEX_all: "map hex_value HEX = map (\<lambda>n. Some (of_nat n)) [0..<16]"
  by (simp add: HEX_def hex_value_def code_def upt_conv_Cons)

lemma hex_value_HEX: "n < 16 \<Longrightarrow> hex_value (HEX ! n) = Some (of_nat n)"
proof -
  assume n: "n < 16"
  have "length HEX = 16" by (simp add: HEX_def)
  with arg_cong [OF HEX_all, of "\<lambda>xs. xs ! n"] n show ?thesis by simp
qed

lemma alphabet_all:
  "map decode_base64_byte BASE64_ORIGINAL = map (\<lambda>n. Some (of_nat n)) [0..<64]"
  "map decode_base64_byte BASE64_URLSAFE = map (\<lambda>n. Some (of_nat n)) [0..<64]"
  by (simp_all add: BASE64_ORIGINAL_def BASE64_URLSAFE_def decode_base64_byte_def code_def
      upt_conv_Cons)

definition alphabet :: "string \<Rightarrow> bool" where
  "alphabet al \<longleftrightarrow> al = BASE64_ORIGINAL \<or> al = BASE64_URLSAFE"

lemma length_alphabet: "alphabet al \<Longrightarrow> length al = 64"
  by (auto simp: alphabet_def BASE64_ORIGINAL_def BASE64_URLSAFE_def)

lemma decode_alphabet:
  assumes "alphabet al" "n < 64"
  shows "decode_base64_byte (al ! n) = Some (of_nat n)"
proof -
  have "map decode_base64_byte al = map (\<lambda>n. Some (of_nat n)) [0..<64]"
    using assms(1) alphabet_all by (auto simp: alphabet_def)
  from arg_cong [OF this, of "\<lambda>xs. xs ! n"] assms show ?thesis by (simp add: length_alphabet)
qed

lemma decode_alphabet_word:
  assumes "alphabet al" "(w :: u32) < 64"
  shows "decode_base64_byte (al ! unat w) = Some (ucast w)"
proof -
  have "unat w < 64" using assms(2) by (simp add: word_less_nat_alt)
  then show ?thesis using decode_alphabet [OF assms(1)] by simp
qed

text \<open>The masks and shifts of a triplet, bit by bit.\<close>

lemma masks: "(63 :: u32) = mask 6" "(0xff :: u32) = mask 8"
  by (simp_all add: mask_eq_exp_minus_1)

lemma and_63_less: "(w :: u32) AND 63 < 64"
proof -
  have "unat (take_bit 6 w) < 64" by (simp add: unsigned_take_bit_eq take_bit_nat_less_exp [of 6, simplified])
  then show ?thesis by (simp add: masks word_less_nat_alt flip: take_bit_eq_mask)
qed

lemma bit_below: "(\<And>n. n < 8 \<Longrightarrow> bit (a :: byte) n = bit b n) \<Longrightarrow> a = b"
  by (rule bit_word_eqI) simp

lemma bit_byte_high [simp]: "8 \<le> n \<Longrightarrow> \<not> bit (a :: byte) n"
  by (auto dest: bit_imp_le_length)

lemma less_8: "n < 8 \<longleftrightarrow> n = 0 \<or> n = 1 \<or> n = 2 \<or> n = 3 \<or> n = 4 \<or> n = 5 \<or> n = 6 \<or> n = (7::nat)"
  by arith

definition sextet :: "nat \<Rightarrow> u32 \<Rightarrow> byte" where
  "sextet k t = ucast (drop_bit k t AND 63)"

lemma sextets_triplet:
  fixes a b c :: byte
  defines "t \<equiv> (ucast a :: u32) OR push_bit 8 (ucast b) OR push_bit 16 (ucast c)"
  defines "u \<equiv> (ucast (sextet 0 t) :: u32) OR push_bit 6 (ucast (sextet 6 t))
    OR push_bit 12 (ucast (sextet 12 t)) OR push_bit 18 (ucast (sextet 18 t))"
  shows "ucast (u AND 0xff) = a" "ucast (drop_bit 8 u AND 0xff) = b"
    "ucast (drop_bit 16 u AND 0xff) = c" "drop_bit 18 t = drop_bit 18 t AND 63"
proof -
  show "ucast (u AND 0xff) = a" "ucast (drop_bit 8 u AND 0xff) = b" "ucast (drop_bit 16 u AND 0xff) = c"
    unfolding t_def u_def masks sextet_def
    by (rule bit_below, unfold less_8, elim disjE; simp add: bit_simps)+
  show "drop_bit 18 t = drop_bit 18 t AND 63"
    unfolding t_def masks by (rule bit_word_eqI) (auto simp: bit_simps dest: bit_imp_le_length)
qed

lemma sextets_single:
  fixes a :: byte
  defines "t \<equiv> (ucast a :: u32)"
  defines "u \<equiv> (ucast (sextet 0 t) :: u32) OR push_bit 6 (ucast (sextet 6 t))"
  shows "ucast (u AND 0xff) = a" "drop_bit 6 t = drop_bit 6 t AND 63"
proof -
  show "ucast (u AND 0xff) = a"
    unfolding t_def u_def masks sextet_def
    by (rule bit_below, unfold less_8, elim disjE; simp add: bit_simps)+
  show "drop_bit 6 t = drop_bit 6 t AND 63"
    unfolding t_def masks by (rule bit_word_eqI) (auto simp: bit_simps dest: bit_imp_le_length)
qed

lemma sextets_pair:
  fixes a b :: byte
  defines "t \<equiv> (ucast a :: u32) OR push_bit 8 (ucast b)"
  defines "u \<equiv> (ucast (sextet 0 t) :: u32) OR push_bit 6 (ucast (sextet 6 t))
    OR push_bit 12 (ucast (sextet 12 t))"
  shows "ucast (u AND 0xff) = a" "ucast (drop_bit 8 u AND 0xff) = b"
    "drop_bit 12 t = drop_bit 12 t AND 63"
proof -
  show "ucast (u AND 0xff) = a" "ucast (drop_bit 8 u AND 0xff) = b"
    unfolding t_def u_def masks sextet_def
    by (rule bit_below, unfold less_8, elim disjE; simp add: bit_simps)+
  show "drop_bit 12 t = drop_bit 12 t AND 63"
    unfolding t_def masks by (rule bit_word_eqI) (auto simp: bit_simps dest: bit_imp_le_length)
qed

lemma decode_sextet:
  assumes "alphabet al"
  shows "decode_base64_byte (al ! unat (drop_bit k t AND 63)) = Some (sextet k t)"
proof -
  have "unat (drop_bit k t AND 63) < 64"
    using and_63_less [of "drop_bit k t"] by (simp add: word_less_nat_alt)
  then show ?thesis using decode_alphabet [OF assms] by (simp add: sextet_def)
qed

lemma decode_sextet_0: "alphabet al \<Longrightarrow> decode_base64_byte (al ! unat (t AND 63)) = Some (sextet 0 t)"
  using decode_sextet [of al 0 t] by simp

lemma b64decode_encode:
  assumes "alphabet al"
  shows "b64decode_tinc (b64encode_tinc_internal src al) = Some src"
proof -
  note decode = decode_sextet_0 [OF assms] decode_sextet [OF assms]
  have "al = al' \<Longrightarrow> b64decode_tinc (b64encode_tinc_internal src al') = Some src" for al'
  proof (induction src al' rule: b64encode_tinc_internal.induct)
    case (1 a b c src al')
    define t where "t = (ucast a :: u32) OR push_bit 8 (ucast b) OR push_bit 16 (ucast c)"
    have "b64encode_tinc_internal (a # b # c # src) al'
        = [al' ! unat (t AND 63), al' ! unat (drop_bit 6 t AND 63), al' ! unat (drop_bit 12 t AND 63),
           al' ! unat (drop_bit 18 t AND 63)] @ b64encode_tinc_internal src al'"
      using sextets_triplet(4) [of a b c]
      by (simp only: b64encode_tinc_internal.simps Let_def flip: t_def)
    then show ?case
      using 1 decode sextets_triplet(1-3) [of a b c, folded t_def]
      by (simp add: decode_base64_quad_def del: b64encode_tinc_internal.simps)
  next
    case (3 a al')
    define t where "t = (ucast a :: u32)"
    have "b64encode_tinc_internal [a] al' = [al' ! unat (t AND 63), al' ! unat (drop_bit 6 t AND 63)]"
      using sextets_single(2) [of a]
      by (simp only: b64encode_tinc_internal.simps Let_def flip: t_def)
    then show ?case
      using 3 decode sextets_single(1) [of a, folded t_def]
      by (simp del: b64encode_tinc_internal.simps)
  next
    case (4 a b al')
    define t where "t = (ucast a :: u32) OR push_bit 8 (ucast b)"
    have "b64encode_tinc_internal [a, b] al'
        = [al' ! unat (t AND 63), al' ! unat (drop_bit 6 t AND 63), al' ! unat (drop_bit 12 t AND 63)]"
      using sextets_pair(3) [of a b]
      by (simp only: b64encode_tinc_internal.simps Let_def flip: t_def)
    then show ?case
      using 4 decode sextets_pair(1,2) [of a b, folded t_def]
      by (simp del: b64encode_tinc_internal.simps)
  qed simp
  then show ?thesis by simp
qed

lemma hex_byte: "push_bit 4 (drop_bit 4 b) OR (b AND 15) = (b :: byte)"
proof -
  have "(15 :: byte) = mask 4" by (simp add: mask_eq_exp_minus_1)
  then show ?thesis by (simp only:) (rule bit_below, unfold less_8, elim disjE; simp add: bit_simps)
qed

lemma hex_nibbles: "unat (drop_bit 4 (b :: byte)) < 16" "unat (b AND 15) < 16"
proof -
  have "unat (drop_bit 4 b) = unat b div 16"
    by (simp only: unsigned_drop_bit_eq) (simp add: drop_bit_eq_div take_bit_eq_mod)
  then show "unat (drop_bit 4 b) < 16" using unat_byte_less [of b] by (simp del: unat_byte_less)
  have "b AND 15 = take_bit 4 b" by (simp add: take_bit_eq_mask mask_eq_exp_minus_1)
  then show "unat (b AND 15) < 16"
    by (simp add: unsigned_take_bit_eq take_bit_nat_less_exp [of 4, simplified])
qed

lemma hex_to_bin_to_hex: "length src \<le> n \<Longrightarrow> hex_to_bin (bin_to_hex src) n = src"
proof (induction src arbitrary: n)
  case Nil
  then show ?case by (simp add: bin_to_hex_def)
next
  case (Cons b src)
  then obtain m where "n = Suc m" "length src \<le> m" by (cases n) auto
  with Cons.IH [of m] show ?case
    using hex_nibbles [of b] by (simp add: bin_to_hex_def hex_value_HEX hex_byte)
qed

section \<open>Properties\<close>

text \<open>
  Decoding undoes both base64 encoders, for every input, so keys and digests printed in
  either alphabet are read back exactly.
\<close>

theorem b64_roundtrip:
  "b64decode_tinc (b64encode_tinc src) = Some src
   \<and> b64decode_tinc (b64encode_tinc_urlsafe src) = Some src"
  by (simp add: b64encode_tinc_def b64encode_tinc_urlsafe_def b64decode_encode alphabet_def)

text \<open>
  The decoder accepts exactly the strings of alphabet characters whose length is not one
  more than a multiple of four, and returns three bytes for every four characters; it never
  reads past its input.
\<close>

theorem b64decode_accepts:
  "(case b64decode_tinc s of
      Some bs \<Rightarrow> length bs = length s * 3 div 4 \<and> length s mod 4 \<noteq> 1
        \<and> (\<forall>c \<in> set s. decode_base64_byte c \<noteq> None)
    | None \<Rightarrow> length s mod 4 = 1 \<or> (\<exists>c \<in> set s. decode_base64_byte c = None))"
proof (induction s rule: b64decode_tinc.induct)
  case (1 w x y z src)
  have q: "decode_base64_quad w x y z = None
      \<longleftrightarrow> (\<exists>c \<in> {w, x, y, z}. decode_base64_byte c = None)"
    by (auto simp: decode_base64_quad_def split: option.splits)
  have l: "(length src + 4) * 3 div 4 = length src * 3 div 4 + 3" by simp
  show ?case
  proof (cases "decode_base64_quad w x y z")
    case None
    with q show ?thesis by auto
  next
    case (Some t)
    with 1 [OF Some] q l show ?thesis by (cases "b64decode_tinc src") (auto simp: algebra_simps)
  qed
qed (auto split: option.splits simp: Let_def)

theorem b64decode_accepts_witness:
  "(case b64decode_tinc ''AQID'' of Some bs \<Rightarrow> length bs = 3 | None \<Rightarrow> False)"
proof -
  have "\<forall>c \<in> set ''AQID''. decode_base64_byte c \<noteq> None" by code_simp
  with b64decode_accepts [of "''AQID''"] show ?thesis by (auto split: option.splits)
qed

text \<open>
  A byte string printed in hexadecimal and read back with room for its bytes is itself, and
  the constant-time comparison answers equality.
\<close>

theorem hex_roundtrip_mem_eq:
  "hex_to_bin (bin_to_hex src) (length src) = src \<and> (mem_eq src other \<longleftrightarrow> src = other)"
  using fold_diff [of src other 0] by (auto simp: hex_to_bin_to_hex mem_eq_def)

text \<open>Every 32-bit number printed by the source is decimal by its own test.\<close>

lemma decimal_digits_show:
  "\<forall>c \<in> set ds. is_ascii_digit c \<Longrightarrow> 0 \<le> v
    \<Longrightarrow> parse_digits 10 (nat v) ds = Some n \<Longrightarrow> int n \<le> i64_max \<Longrightarrow> decimal_digits v ds = Some []"
proof (induction ds arbitrary: v)
  case (Cons c ds)
  let ?d = "code c - 48"
  have c: "to_digit 10 c = Some ?d" using Cons.prems(1) by (auto simp: to_digit_def is_ascii_digit_def Let_def)
  have mono: "parse_digits 10 a ds = Some n \<Longrightarrow> a \<le> n" for a
  proof (induction ds arbitrary: a)
    case (Cons e ds)
    then obtain d where "parse_digits 10 (a * 10 + d) ds = Some n" by (auto split: option.splits)
    from Cons.IH [OF this] show ?case by simp
  qed simp
  have p: "parse_digits 10 (nat v * 10 + ?d) ds = Some n" using Cons.prems(3) c by simp
  have e: "nat (v * 10 + int ?d) = nat v * 10 + ?d" using Cons.prems(2) by simp
  have "int (nat v * 10 + ?d) \<le> i64_max" using mono [OF p] Cons.prems(4) by linarith
  then have "v * 10 + int ?d \<le> i64_max" using Cons.prems(2) by simp
  moreover from this have "v * 10 \<le> i64_max" by linarith
  ultimately show ?case using Cons.IH [of "v * 10 + int ?d"] Cons.prems p e by simp
qed simp

lemma is_decimal_int_to_str:
  assumes "in_i32 n"
  shows "is_decimal (int_to_str n)"
proof -
  have ws: "\<not> is_ascii_whitespace c" if "is_ascii_digit c" for c
    using that by (auto simp: is_ascii_digit_def is_ascii_whitespace_def)
  have m: "\<not> is_ascii_whitespace CHR ''-''" by (simp add: is_ascii_whitespace_def code_def)
  have digits: "decimal_digits 0 (show_nat k) = Some []" if "int k \<le> i64_max" for k
    using that parse_show_radix [of 10 k] show_nat_digits
    by (intro decimal_digits_show [of _ 0 k]) (auto simp: show_nat_def)
  have "show_nat k \<noteq> []" for k by (simp add: show_nat_def)
  moreover have "dropWhile is_ascii_whitespace (show_nat k) = show_nat k" for k
    using show_nat_digits [of k] ws by (cases "show_nat k") auto
  moreover have "skip_sign (show_nat k) = show_nat k" for k
    using hd_show_radix [of 10 k] alnum_not_sign
    by (cases "show_nat k") (auto simp: skip_sign_def show_nat_def)
  ultimately show ?thesis
    using digits [of "nat n"] digits [of "nat (- n)"] assms m
    by (auto simp: is_decimal_def int_to_str_def show_int_def skip_sign_def [of "_ # _"] in_i32_def
        i32_min_def i32_max_def i64_max_def)
qed

end
