(* ===== verification/Net_Addr.thy ===== *)
theory Net_Addr
  imports Rust_Text
begin

text \<open>
  \<^verbatim>\<open>std::net::Ipv4Addr\<close> and \<^verbatim>\<open>std::net::Ipv6Addr\<close> as the source uses them: their
  octets, the parser behind \<^verbatim>\<open>str::parse\<close> (dotted decimal without leading zeros, at most
  15 characters; colon-separated hexadecimal groups with one elision and an optional trailing
  dotted part) and \<^verbatim>\<open>Display\<close>.  Addresses are byte lists in network order, of length 4, 16
  and, for Ethernet addresses, 6.  The lemmas are the round trips printing / parsing.
\<close>

type_synonym mac_addr = "byte list"
type_synonym ipv4_addr = "byte list"
type_synonym ipv6_addr = "byte list"

section \<open>Parsing\<close>

definition read_number :: "nat \<Rightarrow> nat \<Rightarrow> bool \<Rightarrow> nat \<Rightarrow> string \<Rightarrow> (nat \<times> string) option" where
  "read_number b digits zero_prefix hi s =
     (let ds = takeWhile (\<lambda>c. to_digit b c \<noteq> None) s
      in if ds = [] \<or> digits < length ds
           \<or> (\<not> zero_prefix \<and> hd ds = CHR ''0'' \<and> 1 < length ds)
         then None
         else (case parse_digits b 0 ds of
                 Some n \<Rightarrow> if n \<le> hi then Some (n, drop (length ds) s) else None
               | None \<Rightarrow> None))"

definition read_separator :: "char \<Rightarrow> bool \<Rightarrow> string \<Rightarrow> string option" where
  "read_separator sep first s =
     (if first then Some s
      else (case s of c # r \<Rightarrow> if c = sep then Some r else None | [] \<Rightarrow> None))"

fun read_octets :: "bool \<Rightarrow> nat \<Rightarrow> string \<Rightarrow> (byte list \<times> string) option" where
  "read_octets first 0 s = Some ([], s)"
| "read_octets first (Suc n) s =
     (case read_separator CHR ''.'' first s of
        None \<Rightarrow> None
      | Some s1 \<Rightarrow>
          (case read_number 10 3 False 255 s1 of
             None \<Rightarrow> None
           | Some (v, s2) \<Rightarrow>
               map_option (\<lambda>(vs, r). (of_nat v # vs, r)) (read_octets False n s2)))"

definition parse_ipv4 :: "string \<Rightarrow> ipv4_addr option" where
  "parse_ipv4 s =
     (if 15 < length s then None
      else (case read_octets True 4 s of Some (octs, []) \<Rightarrow> Some octs | _ \<Rightarrow> None))"

fun read_groups :: "bool \<Rightarrow> nat \<Rightarrow> string \<Rightarrow> u16 list \<times> bool \<times> string" where
  "read_groups first 0 s = ([], False, s)"
| "read_groups first (Suc n) s =
     (case read_separator CHR '':'' first s of
        None \<Rightarrow> ([], False, s)
      | Some s1 \<Rightarrow>
          (case (if 1 \<le> n then read_octets True 4 s1 else None) of
             Some (octs, r) \<Rightarrow> ([be16 (octs ! 0) (octs ! 1), be16 (octs ! 2) (octs ! 3)], True, r)
           | None \<Rightarrow>
               (case read_number 16 4 True 65535 s1 of
                  None \<Rightarrow> ([], False, s)
                | Some (g, r) \<Rightarrow>
                    (case read_groups False n r of
                       (gs, v4, r') \<Rightarrow> (of_nat g # gs, v4, r')))))"

definition parse_segments :: "string \<Rightarrow> u16 list option" where
  "parse_segments s =
     (case read_groups True 8 s of (front, v4, r) \<Rightarrow>
        if length front = 8 then (if r = [] then Some front else None)
        else if v4 then None
        else (case r of
            c # d # r' \<Rightarrow>
              if c = CHR '':'' \<and> d = CHR '':'' then
                (case read_groups True (7 - length front) r' of (tail, _, r'') \<Rightarrow>
                   if r'' = []
                   then Some (front @ replicate (8 - length front - length tail) 0 @ tail)
                   else None)
              else None
          | _ \<Rightarrow> None))"

definition segment_bytes :: "u16 list \<Rightarrow> byte list" where
  "segment_bytes gs = concat (map be16_bytes gs)"

fun segments :: "byte list \<Rightarrow> u16 list" where
  "segments (a # b # bs) = be16 a b # segments bs"
| "segments _ = []"

definition parse_ipv6 :: "string \<Rightarrow> ipv6_addr option" where
  "parse_ipv6 s = map_option segment_bytes (parse_segments s)"

section \<open>Display\<close>

fun join :: "char \<Rightarrow> string list \<Rightarrow> string" where
  "join c [] = []"
| "join c [w] = w"
| "join c (w # v # ws) = w @ c # join c (v # ws)"

definition show_ipv4 :: "ipv4_addr \<Rightarrow> string" where
  "show_ipv4 a = join CHR ''.'' (map (\<lambda>b. show_nat (unat b)) a)"

definition show_groups :: "u16 list \<Rightarrow> string" where
  "show_groups gs = join CHR '':'' (map (\<lambda>g. show_hex (unat g)) gs)"

fun longest_zeros :: "nat \<Rightarrow> nat \<times> nat \<Rightarrow> nat \<times> nat \<Rightarrow> u16 list \<Rightarrow> nat \<times> nat" where
  "longest_zeros i cur best [] = best"
| "longest_zeros i cur best (g # gs) =
     (if g = 0 then
        (let cur' = ((if snd cur = 0 then i else fst cur), Suc (snd cur))
         in longest_zeros (Suc i) cur' (if snd best < snd cur' then cur' else best) gs)
      else longest_zeros (Suc i) (0, 0) best gs)"

definition show_segments :: "u16 list \<Rightarrow> string" where
  "show_segments gs =
     (case longest_zeros 0 (0, 0) (0, 0) gs of (st, n) \<Rightarrow>
        if 1 < n then show_groups (take st gs) @ ''::'' @ show_groups (drop (st + n) gs)
        else show_groups gs)"

definition show_ipv6 :: "ipv6_addr \<Rightarrow> string" where
  "show_ipv6 a =
     (if take 12 a = replicate 10 0 @ [0xFF, 0xFF] then ''::ffff:'' @ show_ipv4 (drop 12 a)
      else show_segments (segments a))"

text \<open>Ethernet addresses print as six two-digit hexadecimal octets.\<close>

definition show_hex2 :: "byte \<Rightarrow> string" where
  "show_hex2 b = [digit_char (unat b div 16), digit_char (unat b mod 16)]"

section \<open>Round trips\<close>

lemma length_radix_digits:
  "2 \<le> b \<Longrightarrow> n < b ^ k \<Longrightarrow> 0 < k \<Longrightarrow> length (radix_digits b n) \<le> k"
proof (induction b n arbitrary: k rule: radix_digits.induct)
  case (1 b n)
  show ?case
  proof (cases "n < b")
    case True
    with 1 show ?thesis by (simp add: radix_digits.simps [of b n])
  next
    case False
    then obtain k' where k: "k = Suc k'" "0 < k'"
      using 1 by (cases k; cases "k - 1") (auto simp: not_less)
    have "n div b < b ^ k'" using 1 k by (simp add: less_mult_imp_div_less mult.commute)
    with 1 False k have "length (radix_digits b (n div b)) \<le> k'" by simp
    with False 1 k show ?thesis by (simp add: radix_digits.simps [of b n])
  qed
qed

lemma hd_radix_digits: "2 \<le> b \<Longrightarrow> hd (radix_digits b n) = 0 \<Longrightarrow> n < b"
proof (induction b n rule: radix_digits.induct)
  case (1 b n)
  show ?case
  proof (rule ccontr)
    assume n: "\<not> n < b"
    with 1 have "radix_digits b n = radix_digits b (n div b) @ [n mod b]"
      by (subst radix_digits.simps) simp
    then have hd: "hd (radix_digits b (n div b)) = 0" using 1 by simp
    have "n div b < b" using 1 n hd by simp
    then have "hd (radix_digits b (n div b)) = n div b" by (subst radix_digits.simps) simp
    with hd have "n div b = 0" by simp
    with n 1 show False by (simp add: div_eq_0_iff)
  qed
qed

lemma digit_char_0: "d < 16 \<Longrightarrow> digit_char d = CHR ''0'' \<longleftrightarrow> d = 0"
proof -
  assume d: "d < 16"
  have "code CHR ''0'' = 48" by (simp add: code_def)
  then have "digit_char d = CHR ''0'' \<Longrightarrow> d = 0" using code_digit_char [OF d] by (auto split: if_splits)
  moreover have "digit_char 0 = CHR ''0''" by code_simp
  ultimately show ?thesis by auto
qed

lemma read_number_show:
  assumes "2 \<le> b" "b \<le> 16" "n \<le> hi" "n < b ^ k" "0 < k"
    and r: "r = [] \<or> to_digit b (hd r) = None"
  shows "read_number b k z hi (show_radix b n @ r) = Some (n, r)"
proof -
  have "to_digit b (digit_char d) \<noteq> None" if "d \<in> set (radix_digits b n)" for d
    using that radix_digits_less [of b n] assms by (simp add: to_digit_digit_char)
  then have "takeWhile (\<lambda>c. to_digit b c \<noteq> None) (show_radix b n @ r) = show_radix b n"
    using r by (cases r) (auto simp: show_radix_def takeWhile_append)
  moreover have "length (show_radix b n) \<le> k"
    using assms by (simp add: show_radix_def length_radix_digits)
  moreover have "\<not> (hd (show_radix b n) = CHR ''0'' \<and> 1 < length (show_radix b n))"
  proof
    assume *: "hd (show_radix b n) = CHR ''0'' \<and> 1 < length (show_radix b n)"
    have "hd (radix_digits b n) < 16"
      using radix_digits_less [of b n] hd_in_set [OF radix_digits_not_Nil [of b n]] assms(1,2)
      by fastforce
    moreover have "hd (show_radix b n) = digit_char (hd (radix_digits b n))"
      by (simp add: show_radix_def hd_map)
    ultimately have "n < b" 
      using * assms(1) hd_radix_digits [of b n] digit_char_0 [of "hd (radix_digits b n)"] by metis
    then have "length (show_radix b n) = 1" by (simp add: show_radix_def radix_digits.simps [of b n])
    with * show False by simp
  qed
  ultimately show ?thesis
    using parse_show_radix [OF assms(1,2), of n] assms(3) by (simp add: read_number_def Let_def)
qed

lemma to_digit_punct [simp]: "to_digit b CHR ''.'' = None" "to_digit b CHR '':'' = None"
  by (simp_all add: to_digit_def code_def)

lemma read_byte_show:
  "r = [] \<or> to_digit 10 (hd r) = None
    \<Longrightarrow> read_number 10 3 z 255 (show_nat (unat (x :: byte)) @ r) = Some (unat x, r)"
proof -
  assume r: "r = [] \<or> to_digit 10 (hd r) = None"
  have "unat x < 10 ^ 3" using unat_byte_less [of x] by (simp del: unat_byte_less)
  then show ?thesis unfolding show_nat_def using r by (intro read_number_show) simp_all
qed

lemma hd_concat_sep:
  "to_digit b c = None \<Longrightarrow> r = [] \<or> to_digit b (hd r) = None
    \<Longrightarrow> concat (map (\<lambda>x. c # f x) xs) @ r = [] \<or> to_digit b (hd (concat (map (\<lambda>x. c # f x) xs) @ r)) = None"
  by (cases xs) auto

lemma read_octets_show:
  assumes "r = [] \<or> to_digit 10 (hd r) = None"
  shows "read_octets False (length a) (concat (map (\<lambda>b. CHR ''.'' # show_nat (unat b)) a) @ r)
    = Some (a, r)"
proof (induction a)
  case Nil
  then show ?case by simp
next
  case (Cons x a)
  then show ?case
    using read_byte_show [OF hd_concat_sep [OF to_digit_punct(1) assms,
        of "\<lambda>b. show_nat (unat b)" a], of False x]
    by (simp add: read_separator_def)
qed

lemma join_concat: "join c (w # ws) = w @ concat (map ((#) c) ws)"
  by (induction ws arbitrary: w) auto

lemma read_octets_show_ipv4:
  assumes "length a = 4" "r = [] \<or> to_digit 10 (hd r) = None"
  shows "read_octets True 4 (show_ipv4 a @ r) = Some (a, r)"
proof -
  obtain x b where a: "a = x # b" "length b = 3" using assms(1) by (cases a) auto
  let ?s = "concat (map (\<lambda>b. CHR ''.'' # show_nat (unat b)) b) @ r"
  have s: "show_ipv4 a @ r = show_nat (unat x) @ ?s"
    by (simp add: show_ipv4_def a(1) join_concat comp_def)
  have "read_number 10 3 False 255 (show_nat (unat x) @ ?s) = Some (unat x, ?s)"
    by (rule read_byte_show [OF hd_concat_sep [OF to_digit_punct(1) assms(2)]])
  moreover have "read_octets False 3 ?s = Some (b, r)"
    using read_octets_show [OF assms(2), of b] a(2) by simp
  moreover have "(4::nat) = Suc 3" by simp
  ultimately show ?thesis
    by (simp only: s read_octets.simps) (simp add: read_separator_def a)
qed

lemma parse_show_ipv4:
  assumes "length a = 4"
  shows "parse_ipv4 (show_ipv4 a) = Some a"
proof -
  have l: "length (show_nat (unat x)) \<le> 3" for x :: byte
  proof -
    have "unat x < 10 ^ 3" using unat_byte_less [of x] by (simp del: unat_byte_less)
    then show ?thesis by (simp add: show_nat_def show_radix_def length_radix_digits)
  qed
  obtain w x y z where a: "a = [w, x, y, z]"
    using assms by (auto simp: numeral_eq_Suc length_Suc_conv)
  have "length (show_ipv4 a) \<le> 15"
    using l [of w] l [of x] l [of y] l [of z] by (simp add: a show_ipv4_def)
  then show ?thesis using read_octets_show_ipv4 [OF assms, of "[]"] by (simp add: parse_ipv4_def)
qed

lemma octets_ipv4_chars:
  "c \<in> set (show_ipv4 a) \<Longrightarrow> is_ascii_digit c \<or> c = CHR ''.''"
  using show_nat_digits by (cases a) (auto simp: show_ipv4_def join_concat split: if_splits)

lemma dropWhile_not_dot:
  assumes "CHR ''.'' \<notin> set w" "x = [] \<or> hd x = CHR '':''"
  shows "dropWhile (\<lambda>c. to_digit 10 c \<noteq> None) (w @ x) = []
    \<or> hd (dropWhile (\<lambda>c. to_digit 10 c \<noteq> None) (w @ x)) \<noteq> CHR ''.''"
  using assms(1)
proof (induction w)
  case Nil
  then show ?case using assms(2) by (cases x) auto
qed auto

text \<open>A group of hexadecimal digits is not the start of a dotted address.\<close>

lemma read_octets_hex:
  assumes "CHR ''.'' \<notin> set w" "x = [] \<or> hd x = CHR '':''"
  shows "read_octets True 4 (w @ x) = None"
proof (cases "read_number 10 3 False 255 (w @ x)")
  case None
  then show ?thesis by (simp add: numeral_eq_Suc read_separator_def)
next
  case (Some p)
  obtain v s where p: "p = (v, s)" by (cases p)
  let ?ds = "takeWhile (\<lambda>c. to_digit 10 c \<noteq> None) (w @ x)"
  have s: "s = drop (length ?ds) (w @ x)"
    using Some by (auto simp: p read_number_def Let_def split: if_splits option.splits)
  have "s = dropWhile (\<lambda>c. to_digit 10 c \<noteq> None) (w @ x)"
    unfolding s by (metis dropWhile_eq_drop)
  then have "s = [] \<or> hd s \<noteq> CHR ''.''"
    using dropWhile_not_dot [OF assms] by simp
  then have "read_separator CHR ''.'' False s = None"
    by (cases s) (auto simp: read_separator_def)
  then show ?thesis using Some by (simp add: p numeral_eq_Suc read_separator_def [of _ True])
qed

lemma show_hex_no_dot: "CHR ''.'' \<notin> set (show_hex n)" "CHR '':'' \<notin> set (show_hex n)"
  using show_radix_graphic [of 16 n]
  by (auto simp: show_hex_def is_ascii_alphanumeric_def is_ascii_digit_def is_ascii_alpha_def code_def)

lemma read_group_show:
  "r = [] \<or> to_digit 16 (hd r) = None
    \<Longrightarrow> read_number 16 4 z 65535 (show_hex (unat (g :: u16)) @ r) = Some (unat g, r)"
proof -
  assume r: "r = [] \<or> to_digit 16 (hd r) = None"
  have "unat g < 16 ^ 4" "unat g \<le> 65535"
    using unat_u16_less [of g] by (simp_all del: unat_u16_less)
  then show ?thesis unfolding show_hex_def using r by (intro read_number_show) simp_all
qed

section \<open>IPv6 round trip\<close>

lemma read_group_none:
  "read_number 16 4 True 65535 [] = None" "read_number 16 4 True 65535 (CHR '':'' # s) = None"
  by (simp_all add: read_number_def)

lemma read_octets_none:
  "read_octets True 4 (CHR '':'' # s) = None" "read_octets True 4 [] = None"
  by (simp_all add: read_number_def numeral_eq_Suc read_separator_def)

definition elided :: "string \<Rightarrow> bool" where
  "elided r \<longleftrightarrow> r = [] \<or> (\<exists>r'. r = CHR '':'' # CHR '':'' # r')"

lemma elided_hd: "elided r \<Longrightarrow> r = [] \<or> hd r = CHR '':''"
  by (auto simp: elided_def)

lemma hd_groups: "elided r \<Longrightarrow>
    concat (map (\<lambda>g. CHR '':'' # f g) gs) @ r = []
    \<or> hd (concat (map (\<lambda>g. CHR '':'' # f g) gs) @ r) = CHR '':''"
  using elided_hd by (cases gs) auto

lemma read_groups_stop: "elided r \<Longrightarrow> read_groups False n r = ([], False, r)"
  by (cases n) (auto simp: elided_def read_separator_def read_group_none read_octets_none)

lemma read_groups_one:
  assumes "r = [] \<or> hd r = CHR '':''"
  shows "read_groups True (Suc n) (show_hex (unat g) @ r)
    = (case read_groups False n r of (gs, v4, r') \<Rightarrow> (g # gs, v4, r'))"
proof -
  have "r = [] \<or> to_digit 16 (hd r) = None" using assms by auto
  then show ?thesis
    using read_octets_hex [OF show_hex_no_dot(1) assms, of "unat g"] read_group_show [of r True g]
    by (simp add: read_separator_def)
qed

lemma read_groups_colon:
  "read_groups False (Suc n) (CHR '':'' # s)
    = (case read_groups True (Suc n) s of (gs, v4, r) \<Rightarrow>
         if gs = [] then (gs, v4, CHR '':'' # s) else (gs, v4, r))"
  by (auto simp: read_separator_def split: option.splits prod.splits)

lemma read_groups_rest:
  "length gs \<le> n \<Longrightarrow> elided r \<Longrightarrow>
    read_groups False n (concat (map (\<lambda>g. CHR '':'' # show_hex (unat g)) gs) @ r) = (gs, False, r)"
proof (induction gs arbitrary: n)
  case Nil
  then show ?case by (simp add: read_groups_stop)
next
  case (Cons g gs)
  then obtain m where n: "n = Suc m" "length gs \<le> m" by (cases n) auto
  have "read_groups True (Suc m) (show_hex (unat g)
      @ concat (map (\<lambda>g. CHR '':'' # show_hex (unat g)) gs) @ r) = (g # gs, False, r)"
    using Cons.IH [OF n(2)] Cons.prems(2)
    by (simp add: read_groups_one [OF hd_groups] del: read_groups.simps)
  then show ?case by (simp add: n(1) read_groups_colon del: read_groups.simps)
qed

lemma read_groups_show:
  assumes "length gs \<le> n" "elided r"
  shows "read_groups True n (show_groups gs @ r) = (gs, False, r)"
proof (cases gs)
  case Nil
  with assms show ?thesis
    by (cases n) (auto simp: elided_def show_groups_def read_separator_def read_group_none
        read_octets_none)
next
  case (Cons g gs')
  then obtain m where n: "n = Suc m" "length gs' \<le> m" using assms by (cases n) auto
  show ?thesis
    using read_groups_rest [OF n(2) assms(2)]
    by (simp add: n Cons show_groups_def join_concat comp_def
        read_groups_one [OF hd_groups [OF assms(2)]] del: read_groups.simps)
qed

lemma longest_zeros_run:
  assumes "xs = pre @ gs" "i = length pre"
    and "snd cur = 0 \<or> fst cur + snd cur = i" "\<forall>j < snd cur. xs ! (fst cur + j) = 0"
    and "fst best + snd best \<le> i" "\<forall>j < snd best. xs ! (fst best + j) = 0"
    and "longest_zeros i cur best gs = (st, n)"
  shows "st + n \<le> length xs \<and> (\<forall>j < n. xs ! (st + j) = 0)"
  using assms
proof (induction i cur best gs arbitrary: pre rule: longest_zeros.induct)
  case (1 i cur best)
  then show ?case by auto
next
  case (2 i cur best g gs)
  have len: "xs = (pre @ [g]) @ gs" "Suc i = length (pre @ [g])" using "2.prems" by simp_all
  have g: "xs ! i = g" using "2.prems"(1,2) by simp
  show ?case
  proof (cases "g = 0")
    case False
    with "2.IH"(2) [OF False len] "2.prems" show ?thesis by simp
  next
    case True
    define cur' where "cur' = ((if snd cur = 0 then i else fst cur), Suc (snd cur))"
    have c: "fst cur' + snd cur' = Suc i" using "2.prems"(3) by (auto simp: cur'_def)
    have z: "\<forall>j < snd cur'. xs ! (fst cur' + j) = 0"
      using "2.prems"(3,4) g True by (auto simp: cur'_def less_Suc_eq)
    let ?b = "if snd best < snd cur' then cur' else best"
    have "fst ?b + snd ?b \<le> Suc i" "\<forall>j < snd ?b. xs ! (fst ?b + j) = 0"
      using c z "2.prems"(5,6) by auto
    moreover have "longest_zeros (Suc i) cur' ?b gs = (st, n)"
      using "2.prems"(7) True by (simp add: Let_def flip: cur'_def)
    ultimately show ?thesis
      using "2.IH"(1) [OF True cur'_def len] c z by blast
  qed
qed

lemma split_zeros:
  assumes "st + n \<le> length xs" "\<forall>j < n. xs ! (st + j) = 0"
  shows "take st xs @ replicate n 0 @ drop (st + n) xs = xs"
proof -
  have "take n (drop st xs) = replicate n 0"
    using assms by (intro nth_equalityI) auto
  then have "take st xs @ take n (drop st xs) @ drop n (drop st xs)
    = take st xs @ replicate n 0 @ drop (st + n) xs" by (simp add: add.commute)
  then show ?thesis by (metis append_take_drop_id)
qed

lemma parse_show_segments:
  assumes "length gs = 8"
  shows "parse_segments (show_segments gs) = Some gs"
proof -
  obtain st n where run: "longest_zeros 0 (0, 0) (0, 0) gs = (st, n)"
    by (cases "longest_zeros 0 (0, 0) (0, 0) gs")
  have z: "st + n \<le> length gs" "\<forall>j < n. gs ! (st + j) = 0"
    using longest_zeros_run [OF _ _ _ _ _ _ run, of gs "[]"] by simp_all
  show ?thesis
  proof (cases "1 < n")
    case False
    then show ?thesis
      using read_groups_show [of gs 8 "[]"] assms
      by (simp add: show_segments_def run parse_segments_def elided_def)
  next
    case True
    let ?r = "CHR '':'' # CHR '':'' # show_groups (drop (st + n) gs)"
    have "read_groups True 8 (show_groups (take st gs) @ ?r) = (take st gs, False, ?r)"
      using z assms by (intro read_groups_show) (auto simp: elided_def)
    moreover have "read_groups True (7 - st) (show_groups (drop (st + n) gs))
        = (drop (st + n) gs, False, [])"
      using read_groups_show [of "drop (st + n) gs" "7 - st" "[]"] True z assms
      by (auto simp: elided_def)
    moreover have "st + n \<le> 8" "length (take st gs) = st" using z assms by auto
    moreover have "8 - st - (8 - (st + n)) = n" using calculation(3) by simp
    ultimately show ?thesis
      using True split_zeros [OF z] assms
      by (simp add: show_segments_def run parse_segments_def)
  qed
qed

lemma segment_bytes_segments: "even (length a) \<Longrightarrow> segment_bytes (segments a) = a"
  by (induction a rule: segments.induct) (auto simp: segment_bytes_def)

lemma length_segments: "length (segments a) = length a div 2"
  by (induction a rule: segments.induct) auto

lemma length_segment_bytes: "length (segment_bytes gs) = 2 * length gs"
  by (induction gs) (auto simp: segment_bytes_def)

lemma length_4: "length a = 4 \<Longrightarrow> \<exists>w x y z. a = [w, x, y, z]"
  by (auto simp: numeral_eq_Suc length_Suc_conv)

lemma parse_mapped:
  assumes "length a = 4"
  shows "parse_segments (''::ffff:'' @ show_ipv4 a)
    = Some (replicate 5 0 @ [0xFFFF, be16 (a ! 0) (a ! 1), be16 (a ! 2) (a ! 3)])"
proof -
  have "digit_char 15 = CHR ''f''" by code_simp
  then have f: "''ffff'' = show_hex (unat (0xFFFF :: u16))"
    by (simp add: show_hex_def show_radix_def radix_digits.simps)
  have "read_groups True 8 (''::ffff:'' @ show_ipv4 a) = ([], False, ''::ffff:'' @ show_ipv4 a)"
    using read_groups_show [of "[]" 8 "''::ffff:'' @ show_ipv4 a"]
    by (simp add: show_groups_def elided_def del: read_groups.simps)
  moreover have "read_groups False (Suc 5) (CHR '':'' # show_ipv4 a)
      = ([be16 (a ! 0) (a ! 1), be16 (a ! 2) (a ! 3)], True, [])"
    using read_octets_show_ipv4 [OF assms, of "[]"]
    by (simp only: read_groups.simps) (simp add: read_separator_def)
  then have "read_groups True (Suc 6) (''ffff'' @ CHR '':'' # show_ipv4 a)
      = ([0xFFFF, be16 (a ! 0) (a ! 1), be16 (a ! 2) (a ! 3)], True, [])"
    using read_groups_one [of "CHR '':'' # show_ipv4 a" 6 "0xFFFF"]
    unfolding f by (simp del: read_groups.simps)
  ultimately show ?thesis by (simp add: parse_segments_def flip: numeral_eq_Suc)
qed

lemma parse_show_ipv6:
  assumes "length a = 16"
  shows "parse_ipv6 (show_ipv6 a) = Some a"
proof (cases "take 12 a = replicate 10 0 @ [0xFF, 0xFF]")
  case True
  have d: "length (drop 12 a) = 4" using assms by simp
  then obtain w x y z where v: "drop 12 a = [w, x, y, z]"
    using length_4 by blast
  have "be16_bytes 0xFFFF = [0xFF, 0xFF]" "be16_bytes 0 = [0, 0]"
    by (simp_all add: be16_bytes_def)
  then have "segment_bytes (replicate 5 0 @ [0xFFFF, be16 w x, be16 y z])
      = (replicate 10 0 @ [0xFF, 0xFF]) @ [w, x, y, z]"
    by (simp add: segment_bytes_def numeral_eq_Suc)
  also have "\<dots> = a" using True v by (metis append_take_drop_id)
  finally show ?thesis
    using parse_mapped [OF d] True by (simp add: parse_ipv6_def show_ipv6_def v)
next
  case False
  then show ?thesis
    using parse_show_segments [of "segments a"] assms
    by (simp add: parse_ipv6_def show_ipv6_def length_segments segment_bytes_segments)
qed

end
