(* ===== verification/Subnet.thy ===== *)
theory Subnet
  imports Net_Addr "HOL-Library.Product_Lexorder"
begin

text \<open>
  \<^verbatim>\<open>tinc-core/src/subnet.rs\<close>: subnets, their order, prefix matching, the subnet table and
  the textual form.  An index out of range, which panics in Rust, is \<open>None\<close> in the mask
  operations; the lemmas show it does not occur for a prefix length within the address.  The
  table is the vector the source keeps sorted by \<^verbatim>\<open>compare_tinc\<close>.
\<close>

section \<open>Data\<close>

definition DEFAULT_WEIGHT :: int where "DEFAULT_WEIGHT = 10"
definition MAX_NET_STR :: nat where "MAX_NET_STR = 64"

datatype subnet_kind =
    Mac mac_addr
  | Ipv4 ipv4_addr nat
  | Ipv6 ipv6_addr nat

record subnet =
  sn_kind :: subnet_kind
  sn_weight :: int
  sn_owner :: "string option"
  sn_expires :: "int option"

datatype address_family = Fam_Ipv4 | Fam_Ipv6

datatype subnet_parse_error =
    SubnetEmpty
  | SubnetTooLong
  | InvalidWeight
  | InvalidPrefix
  | PrefixNotAllowed address_family
  | InvalidAddress

definition weighted :: "subnet_kind \<Rightarrow> int \<Rightarrow> subnet" where
  "weighted k w = \<lparr>sn_kind = k, sn_weight = w, sn_owner = None, sn_expires = None\<rparr>"

definition with_owner :: "string \<Rightarrow> subnet \<Rightarrow> subnet" where
  "with_owner name s = s\<lparr>sn_owner := Some name\<rparr>"

definition with_expiry :: "int \<Rightarrow> subnet \<Rightarrow> subnet" where
  "with_expiry t s = s\<lparr>sn_expires := Some t\<rparr>"

definition validate_prefix :: "nat \<Rightarrow> nat \<Rightarrow> subnet_parse_error + unit" where
  "validate_prefix prefix_len hi = (if hi < prefix_len then Inl InvalidPrefix else Inr ())"

definition mac_subnet :: "mac_addr \<Rightarrow> subnet" where
  "mac_subnet a = weighted (Mac a) DEFAULT_WEIGHT"

definition ipv4_subnet :: "ipv4_addr \<Rightarrow> nat \<Rightarrow> subnet_parse_error + subnet" where
  "ipv4_subnet a p = (case validate_prefix p 32 of
     Inl e \<Rightarrow> Inl e | Inr _ \<Rightarrow> Inr (weighted (Ipv4 a p) DEFAULT_WEIGHT))"

definition ipv6_subnet :: "ipv6_addr \<Rightarrow> nat \<Rightarrow> subnet_parse_error + subnet" where
  "ipv6_subnet a p = (case validate_prefix p 128 of
     Inl e \<Rightarrow> Inl e | Inr _ \<Rightarrow> Inr (weighted (Ipv6 a p) DEFAULT_WEIGHT))"

text \<open>The addresses have the length of their type and the prefix lies within them.\<close>

fun wf_kind :: "subnet_kind \<Rightarrow> bool" where
  "wf_kind (Mac a) = (length a = 6)"
| "wf_kind (Ipv4 a p) = (length a = 4 \<and> p \<le> 32)"
| "wf_kind (Ipv6 a p) = (length a = 16 \<and> p \<le> 128)"

definition wf_subnet :: "subnet \<Rightarrow> bool" where
  "wf_subnet s \<longleftrightarrow> wf_kind (sn_kind s) \<and> in_i32 (sn_weight s)"

section \<open>Masks\<close>

definition partial_mask :: "nat \<Rightarrow> byte" where
  "partial_mask bits = push_bit (8 - bits) 255"

fun cmp_full_bytes :: "byte list \<Rightarrow> byte list \<Rightarrow> nat \<Rightarrow> int option" where
  "cmp_full_bytes a b 0 = Some 0"
| "cmp_full_bytes (x # a) (y # b) (Suc n) =
     (let result = int (unat x) - int (unat y)
      in if result \<noteq> 0 then Some result else cmp_full_bytes a b n)"
| "cmp_full_bytes _ _ (Suc n) = None"

definition mask_cmp :: "byte list \<Rightarrow> byte list \<Rightarrow> nat \<Rightarrow> int option" where
  "mask_cmp a b mask_len =
     (let full_bytes = mask_len div 8
      in case cmp_full_bytes a b full_bytes of
           None \<Rightarrow> None
         | Some result \<Rightarrow>
             if result \<noteq> 0 then Some result
             else (let partial_bits = mask_len mod 8;
                       m = partial_mask partial_bits
                   in if partial_bits = 0 then Some 0
                      else if full_bytes < length a \<and> full_bytes < length b
                      then Some (int (unat (a ! full_bytes AND m)) - int (unat (b ! full_bytes AND m)))
                      else None))"

definition mask_bytes :: "byte list \<Rightarrow> nat \<Rightarrow> byte list option" where
  "mask_bytes bytes mask_len =
     (let index = mask_len div 8; partial_bits = mask_len mod 8
      in if partial_bits \<noteq> 0 then
           (if index < length bytes
            then Some (take index bytes @ [bytes ! index AND partial_mask partial_bits]
                       @ replicate (length bytes - (index + 1)) 0)
            else None)
         else if index \<le> length bytes
         then Some (take index bytes @ replicate (length bytes - index) 0)
         else None)"

definition mask_copy :: "byte list \<Rightarrow> nat \<Rightarrow> byte list option" where
  "mask_copy src mask_len = mask_bytes src mask_len"

definition mask_check :: "byte list \<Rightarrow> nat \<Rightarrow> bool option" where
  "mask_check bytes mask_len =
     (let index = mask_len div 8; partial_bits = mask_len mod 8
      in if partial_bits \<noteq> 0 then
           (if index < length bytes
            then Some (if bytes ! index AND NOT (partial_mask partial_bits) \<noteq> 0 then False
                       else (\<forall>b \<in> set (drop (index + 1) bytes). b = 0))
            else None)
         else if index \<le> length bytes then Some (\<forall>b \<in> set (drop index bytes). b = 0)
         else None)"

definition matches_mac :: "subnet \<Rightarrow> mac_addr \<Rightarrow> bool" where
  "matches_mac s address = (case sn_kind s of Mac m \<Rightarrow> m = address | _ \<Rightarrow> False)"

definition matches_ipv4 :: "subnet \<Rightarrow> ipv4_addr \<Rightarrow> bool" where
  "matches_ipv4 s address =
     (case sn_kind s of Ipv4 a p \<Rightarrow> mask_cmp address a p = Some 0 | _ \<Rightarrow> False)"

definition matches_ipv6 :: "subnet \<Rightarrow> ipv6_addr \<Rightarrow> bool" where
  "matches_ipv6 s address =
     (case sn_kind s of Ipv6 a p \<Rightarrow> mask_cmp address a p = Some 0 | _ \<Rightarrow> False)"

definition has_canonical_mask :: "subnet \<Rightarrow> bool option" where
  "has_canonical_mask s =
     (case sn_kind s of
        Mac _ \<Rightarrow> Some True
      | Ipv4 a p \<Rightarrow> mask_check a p
      | Ipv6 a p \<Rightarrow> mask_check a p)"

section \<open>Order\<close>

definition type_order :: "subnet \<Rightarrow> nat" where
  "type_order s = (case sn_kind s of Mac _ \<Rightarrow> 0 | Ipv4 _ _ \<Rightarrow> 1 | Ipv6 _ _ \<Rightarrow> 2)"

definition compare_common ::
  "byte list \<times> int \<times> string option \<Rightarrow> byte list \<times> int \<times> string option \<Rightarrow> ordering" where
  "compare_common x y =
     (case (x, y) of ((a_bytes, a_weight, a_owner), (b_bytes, b_weight, b_owner)) \<Rightarrow>
        (case cmp a_bytes b_bytes of
           Equal \<Rightarrow>
             (let result = cmp a_weight b_weight
              in if result \<noteq> Equal then result
                 else (case (a_owner, b_owner) of
                         (Some ao, Some bo) \<Rightarrow> cmp ao bo
                       | _ \<Rightarrow> result))
         | result \<Rightarrow> result))"

definition compare_ip_common ::
  "nat \<Rightarrow> nat \<Rightarrow> byte list \<times> int \<times> string option \<Rightarrow> byte list \<times> int \<times> string option \<Rightarrow> ordering" where
  "compare_ip_common a_prefix b_prefix x y =
     (case cmp b_prefix a_prefix of
        Equal \<Rightarrow> compare_common x y
      | result \<Rightarrow> result)"

text \<open>
  The last branch is \<^verbatim>\<open>unreachable!\<close> in the source: subnets of equal type order have the
  same variant.
\<close>

definition compare_tinc :: "subnet \<Rightarrow> subnet \<Rightarrow> ordering" where
  "compare_tinc s t =
     (case cmp (type_order s) (type_order t) of
        Equal \<Rightarrow>
          (case (sn_kind s, sn_kind t) of
             (Mac a, Mac b) \<Rightarrow>
               compare_common (a, sn_weight s, sn_owner s) (b, sn_weight t, sn_owner t)
           | (Ipv4 a a_prefix, Ipv4 b b_prefix) \<Rightarrow>
               compare_ip_common a_prefix b_prefix
                 (a, sn_weight s, sn_owner s) (b, sn_weight t, sn_owner t)
           | (Ipv6 a a_prefix, Ipv6 b b_prefix) \<Rightarrow>
               compare_ip_common a_prefix b_prefix
                 (a, sn_weight s, sn_owner s) (b, sn_weight t, sn_owner t)
           | _ \<Rightarrow> Equal)
      | result \<Rightarrow> result)"

section \<open>Masks compare bit prefixes\<close>

text \<open>The bits of an address, most significant first.\<close>

definition byte_bits :: "byte \<Rightarrow> bool list" where
  "byte_bits b = map (\<lambda>i. bit b (7 - i)) [0..<8]"

definition addr_bits :: "byte list \<Rightarrow> bool list" where
  "addr_bits bs = concat (map byte_bits bs)"

lemma length_byte_bits [simp]: "length (byte_bits b) = 8"
  by (simp add: byte_bits_def)

lemma addr_bits_Cons: "addr_bits (b # bs) = byte_bits b @ addr_bits bs"
  by (simp add: addr_bits_def)

lemma length_addr_bits [simp]: "length (addr_bits bs) = 8 * length bs"
  by (induction bs) (simp_all add: addr_bits_def)

lemma take_byte_bits: "k \<le> 8 \<Longrightarrow>
  take k (byte_bits a) = take k (byte_bits b) \<longleftrightarrow> (\<forall>i < k. bit a (7 - i) = bit b (7 - i))"
  by (auto simp: byte_bits_def take_map list_eq_iff_nth_eq)

lemma byte_bits_inject: "byte_bits a = byte_bits b \<longleftrightarrow> a = b"
proof
  assume "byte_bits a = byte_bits b"
  then have *: "bit a (7 - i) = bit b (7 - i)" if "i < 8" for i
    using that take_byte_bits [of 8 a b] by simp
  show "a = b"
  proof (rule bit_word_eqI)
    fix n assume "n < LENGTH(8)"
    then have "n = 7 - (7 - n)" "7 - n < 8" by simp_all
    then show "bit a n = bit b n" using * [of "7 - n"] by metis
  qed
qed simp

lemma bit_partial_mask: "bit (partial_mask k) n \<longleftrightarrow> 8 - k \<le> n \<and> n < 8"
proof -
  have m: "(255 :: byte) = mask 8" by (simp add: mask_eq_exp_minus_1)
  show ?thesis unfolding partial_mask_def m by (auto simp: bit_simps)
qed

lemma masked_eq:
  assumes "k \<le> 8"
  shows "a AND partial_mask k = b AND partial_mask k
    \<longleftrightarrow> take k (byte_bits a) = take k (byte_bits b)" (is "?l \<longleftrightarrow> ?r")
proof -
  have "?l \<longleftrightarrow> (\<forall>n. 8 - k \<le> n \<and> n < 8 \<longrightarrow> bit a n = bit b n)"
    by (auto simp: bit_eq_iff bit_simps bit_partial_mask)
  also have "\<dots> \<longleftrightarrow> (\<forall>i < k. bit a (7 - i) = bit b (7 - i))"
  proof (rule iffI; intro allI impI)
    fix i assume "\<forall>n. 8 - k \<le> n \<and> n < 8 \<longrightarrow> bit a n = bit b n" "i < k"
    moreover have "8 - k \<le> 7 - i \<and> 7 - i < 8" using \<open>i < k\<close> by linarith
    ultimately show "bit a (7 - i) = bit b (7 - i)" by blast
  next
    fix n assume *: "\<forall>i < k. bit a (7 - i) = bit b (7 - i)" "8 - k \<le> n \<and> n < 8"
    then have "7 - n < k" "7 - (7 - n) = n" by auto
    with * show "bit a n = bit b n" by metis
  qed
  finally show ?thesis using take_byte_bits [OF assms] by simp
qed

lemma unat_diff_0: "int (unat (a :: byte)) - int (unat b) = 0 \<longleftrightarrow> a = b"
proof -
  have "int (unat a) - int (unat b) = 0 \<longleftrightarrow> unat a = unat b" by linarith
  then show ?thesis using byte_eqI [of a b] by metis
qed

lemma cmp_full_bytes_eq:
  "n \<le> length a \<Longrightarrow> n \<le> length b \<Longrightarrow>
    \<exists>r. cmp_full_bytes a b n = Some r \<and> (r = 0 \<longleftrightarrow> take n a = take n b)"
proof (induction a b n rule: cmp_full_bytes.induct)
  case (2 x a y b n)
  show ?case
  proof (cases "x = y")
    case True
    with 2 show ?thesis by (simp add: Let_def)
  next
    case False
    then have "int (unat x) - int (unat y) \<noteq> 0" using unat_diff_0 by blast
    with False show ?thesis by (simp add: Let_def)
  qed
qed auto

lemma take_addr_bits:
  assumes "k < 8" "n < length a" "n < length b"
  shows "take (8 * n + k) (addr_bits a) = take (8 * n + k) (addr_bits b)
    \<longleftrightarrow> take n a = take n b \<and> take k (byte_bits (a ! n)) = take k (byte_bits (b ! n))"
  using assms
proof (induction n arbitrary: a b)
  case 0
  then show ?case by (cases a; cases b) (auto simp: addr_bits_Cons)
next
  case (Suc n)
  then obtain x a' y b' where ab: "a = x # a'" "b = y # b'" by (cases a; cases b) auto
  have "8 * Suc n + k - 8 = 8 * n + k" by simp
  then have "take (8 * Suc n + k) (byte_bits z @ addr_bits zs) = byte_bits z @ take (8 * n + k) (addr_bits zs)" for z zs
    by simp
  then show ?case
    using Suc ab byte_bits_inject [of x y] by (auto simp: addr_bits_Cons)
qed

lemma take_addr_bits_whole:
  "n \<le> length a \<Longrightarrow> n \<le> length b \<Longrightarrow>
    take (8 * n) (addr_bits a) = take (8 * n) (addr_bits b) \<longleftrightarrow> take n a = take n b"
proof (induction n arbitrary: a b)
  case (Suc n)
  then obtain x a' y b' where ab: "a = x # a'" "b = y # b'" by (cases a; cases b) auto
  have "take (8 * Suc n) (byte_bits z @ addr_bits zs) = byte_bits z @ take (8 * n) (addr_bits zs)" for z zs
    by simp
  then show ?case
    using Suc ab byte_bits_inject [of x y] by (auto simp: addr_bits_Cons)
qed simp

lemma mask_cmp_prefix:
  assumes "n \<le> 8 * length a" "n \<le> 8 * length b"
  shows "\<exists>r. mask_cmp a b n = Some r
    \<and> (r = 0 \<longleftrightarrow> take n (addr_bits a) = take n (addr_bits b))"
proof -
  define m k where "m = n div 8" and "k = n mod 8"
  have n: "n = 8 * m + k" "k < 8" by (simp_all add: m_def k_def)
  have m: "m \<le> length a" "m \<le> length b" using assms n by linarith+
  obtain r where r: "cmp_full_bytes a b m = Some r" "r = 0 \<longleftrightarrow> take m a = take m b"
    using cmp_full_bytes_eq [OF m] by blast
  show ?thesis
  proof (cases "k = 0")
    case True
    with n m r show ?thesis
      by (auto simp: mask_cmp_def Let_def take_addr_bits_whole simp flip: m_def k_def)
  next
    case False
    with n assms have m': "m < length a" "m < length b" by linarith+
    have "take n (addr_bits a) = take n (addr_bits b)
        \<longleftrightarrow> r = 0 \<and> a ! m AND partial_mask k = b ! m AND partial_mask k"
      using take_addr_bits [OF n(2) m'] masked_eq [of k] n r(2) by auto
    with False m' r(1) show ?thesis
      using unat_diff_0 [of "a ! m AND partial_mask k" "b ! m AND partial_mask k"]
      by (auto simp: mask_cmp_def Let_def simp flip: m_def k_def)
  qed
qed

lemma mask_cmp_zero:
  "n \<le> 8 * length a \<Longrightarrow> n \<le> 8 * length b \<Longrightarrow>
    mask_cmp a b n = Some 0 \<longleftrightarrow> take n (addr_bits a) = take n (addr_bits b)"
  using mask_cmp_prefix [of n a b] by auto

text \<open>What a subnet promises to match: its family and the leading bits of the address.\<close>

definition covers :: "subnet \<Rightarrow> byte list \<Rightarrow> bool" where
  "covers s a =
     (case sn_kind s of
        Mac m \<Rightarrow> a = m
      | Ipv4 b p \<Rightarrow> length a = 4 \<and> take p (addr_bits a) = take p (addr_bits b)
      | Ipv6 b p \<Rightarrow> length a = 16 \<and> take p (addr_bits a) = take p (addr_bits b))"

definition sn_prefix :: "subnet \<Rightarrow> nat" where
  "sn_prefix s = (case sn_kind s of Mac _ \<Rightarrow> 0 | Ipv4 _ p \<Rightarrow> p | Ipv6 _ p \<Rightarrow> p)"

definition sn_bytes :: "subnet \<Rightarrow> byte list" where
  "sn_bytes s = (case sn_kind s of Mac a \<Rightarrow> a | Ipv4 a _ \<Rightarrow> a | Ipv6 a _ \<Rightarrow> a)"

lemma matches_ipv4_covers:
  "wf_subnet s \<Longrightarrow> length a = 4 \<Longrightarrow> matches_ipv4 s a \<longleftrightarrow> type_order s = 1 \<and> covers s a"
  by (auto simp: matches_ipv4_def covers_def type_order_def wf_subnet_def mask_cmp_zero
      split: subnet_kind.splits)

lemma matches_ipv6_covers:
  "wf_subnet s \<Longrightarrow> length a = 16 \<Longrightarrow> matches_ipv6 s a \<longleftrightarrow> type_order s = 2 \<and> covers s a"
  by (auto simp: matches_ipv6_def covers_def type_order_def wf_subnet_def mask_cmp_zero
      split: subnet_kind.splits)

lemma matches_mac_covers: "matches_mac s a \<longleftrightarrow> type_order s = 0 \<and> covers s a"
  by (auto simp: matches_mac_def covers_def type_order_def split: subnet_kind.splits)

section \<open>The order of the table\<close>

definition owned :: "subnet \<Rightarrow> bool" where
  "owned s \<longleftrightarrow> sn_owner s \<noteq> None"

text \<open>
  On owned subnets the comparison is the lexicographic order of type, descending prefix
  length, address, weight and owner.
\<close>

definition subnet_key :: "subnet \<Rightarrow> nat \<times> int \<times> byte list \<times> int \<times> string" where
  "subnet_key s = (type_order s, - int (sn_prefix s), sn_bytes s, sn_weight s, the (sn_owner s))"

lemma cmp_pair: "cmp (a, b) (c, d) = then_with (cmp a c) (cmp b d)"
  by (auto simp: cmp_def then_with_def)

lemma cmp_neg: "cmp (- int a) (- int b) = cmp b a"
  by (auto simp: cmp_def)

lemma case_then_with: "(case a of Less \<Rightarrow> Less | Equal \<Rightarrow> b | Greater \<Rightarrow> Greater) = then_with a b"
  by (cases a) auto

lemma cmp_then: "(if x \<noteq> y then cmp x y else b) = then_with (cmp x y) b"
  by (auto simp: cmp_def)

lemma cmp_numbers [simp]:
  "cmp (0 :: nat) (Suc 0) = Less" "cmp (Suc 0) (0 :: nat) = Greater" "cmp (0 :: nat) 2 = Less"
  "cmp 2 (0 :: nat) = Greater" "cmp (Suc 0) 2 = Less" "cmp 2 (Suc 0) = Greater"
  by (simp_all add: cmp_def)

lemma compare_common_owned:
  "compare_common (a, w, Some p) (b, v, Some q) = cmp (a, w, p) (b, v, q)"
  by (simp add: compare_common_def cmp_pair Let_def case_then_with cmp_then)

lemma compare_tinc_key:
  "owned s \<Longrightarrow> owned t \<Longrightarrow> compare_tinc s t = cmp (subnet_key s) (subnet_key t)"
  by (cases "sn_kind s"; cases "sn_kind t")
    (auto simp: owned_def compare_tinc_def compare_ip_common_def compare_common_owned subnet_key_def
      type_order_def sn_prefix_def sn_bytes_def cmp_pair cmp_neg case_then_with)

interpretation subnet_ord: comparator compare_tinc owned
  by (rule comparator_key) (rule compare_tinc_key)

lemma subnet_key_eq:
  "owned s \<Longrightarrow> owned t \<Longrightarrow> subnet_key s = subnet_key t
    \<longleftrightarrow> sn_kind s = sn_kind t \<and> sn_weight s = sn_weight t \<and> sn_owner s = sn_owner t"
  by (cases "sn_kind s"; cases "sn_kind t")
    (auto simp: owned_def subnet_key_def type_order_def sn_prefix_def sn_bytes_def)

lemma compare_tinc_equal:
  "owned s \<Longrightarrow> owned t \<Longrightarrow> compare_tinc s t = Equal
    \<longleftrightarrow> sn_kind s = sn_kind t \<and> sn_weight s = sn_weight t \<and> sn_owner s = sn_owner t"
  using subnet_key_eq [of s t] by (simp add: compare_tinc_key)

lemma compare_tinc_prefix:
  assumes "owned s" "owned t" "compare_tinc s t \<noteq> Greater" "type_order s = type_order t"
  shows "sn_prefix t \<le> sn_prefix s"
    and "sn_prefix s = sn_prefix t \<Longrightarrow> sn_bytes s = sn_bytes t \<Longrightarrow> sn_weight s \<le> sn_weight t"
  using assms by (auto simp: compare_tinc_key subnet_key_def)

section \<open>The table\<close>

type_synonym subnet_table = "subnet list"

definition table_add :: "subnet \<Rightarrow> subnet_table \<Rightarrow> subnet_table" where
  "table_add s t = sort_by compare_tinc (t @ [s])"

definition lookup_exact :: "subnet_table \<Rightarrow> subnet \<Rightarrow> subnet option" where
  "lookup_exact t s = find (\<lambda>candidate. compare_tinc candidate s = Equal) t"

definition table_add_unique :: "subnet \<Rightarrow> subnet_table \<Rightarrow> bool \<times> subnet_table" where
  "table_add_unique s t =
     (if lookup_exact t s \<noteq> None then (False, t) else (True, table_add s t))"

definition lookup_owner_subnet :: "subnet_table \<Rightarrow> string \<Rightarrow> subnet \<Rightarrow> subnet option" where
  "lookup_owner_subnet t name s = lookup_exact t (s\<lparr>sn_owner := Some name\<rparr>)"

text \<open>\<^verbatim>\<open>lookup_owner_subnet_mut\<close>: an update of the entry it would return.\<close>

fun update_first :: "('a \<Rightarrow> bool) \<Rightarrow> ('a \<Rightarrow> 'a) \<Rightarrow> 'a list \<Rightarrow> 'a list" where
  "update_first P f [] = []"
| "update_first P f (x # xs) = (if P x then f x # xs else x # update_first P f xs)"

definition update_owner_subnet ::
  "subnet_table \<Rightarrow> string \<Rightarrow> subnet \<Rightarrow> (subnet \<Rightarrow> subnet) \<Rightarrow> subnet_table" where
  "update_owner_subnet t name s f =
     update_first (\<lambda>candidate. compare_tinc candidate (s\<lparr>sn_owner := Some name\<rparr>) = Equal) f t"

text \<open>\<^verbatim>\<open>position\<close> followed by \<^verbatim>\<open>Vec::remove\<close>.\<close>

fun remove_first :: "('a \<Rightarrow> bool) \<Rightarrow> 'a list \<Rightarrow> 'a option \<times> 'a list" where
  "remove_first P [] = (None, [])"
| "remove_first P (x # xs) =
     (if P x then (Some x, xs) else (case remove_first P xs of (r, ys) \<Rightarrow> (r, x # ys)))"

definition table_remove :: "subnet \<Rightarrow> subnet_table \<Rightarrow> subnet option \<times> subnet_table" where
  "table_remove s t = remove_first (\<lambda>candidate. compare_tinc candidate s = Equal) t"

definition remove_owner_subnet ::
  "string \<Rightarrow> subnet \<Rightarrow> subnet_table \<Rightarrow> subnet option \<times> subnet_table" where
  "remove_owner_subnet name s t = table_remove (s\<lparr>sn_owner := Some name\<rparr>) t"

definition owner_subnets :: "subnet_table \<Rightarrow> string \<Rightarrow> subnet list" where
  "owner_subnets t name = filter (\<lambda>s. sn_owner s = Some name) t"

definition remove_owner :: "string \<Rightarrow> subnet_table \<Rightarrow> subnet list \<times> subnet_table" where
  "remove_owner name t = partition (\<lambda>s. sn_owner s = Some name) t"

definition remove_expired_owner_subnets ::
  "string \<Rightarrow> int \<Rightarrow> subnet_table \<Rightarrow> subnet list \<times> subnet_table" where
  "remove_expired_owner_subnets name now t =
     partition (\<lambda>s. sn_owner s = Some name
       \<and> (case sn_expires s of Some e \<Rightarrow> e < now | None \<Rightarrow> False)) t"

definition lookup_mac :: "subnet_table \<Rightarrow> mac_addr \<Rightarrow> subnet option" where
  "lookup_mac t a = find (\<lambda>s. matches_mac s a) t"

definition lookup_ipv4 :: "subnet_table \<Rightarrow> ipv4_addr \<Rightarrow> subnet option" where
  "lookup_ipv4 t a = find (\<lambda>s. matches_ipv4 s a) t"

definition lookup_ipv6 :: "subnet_table \<Rightarrow> ipv6_addr \<Rightarrow> subnet option" where
  "lookup_ipv6 t a = find (\<lambda>s. matches_ipv6 s a) t"

section \<open>Masking clears the host bits\<close>

lemma addr_bits_append: "addr_bits (xs @ ys) = addr_bits xs @ addr_bits ys"
  by (simp add: addr_bits_def)

lemma addr_bits_inject: "length a = length b \<Longrightarrow> addr_bits a = addr_bits b \<longleftrightarrow> a = b"
proof (induction a b rule: list_induct2)
  case (Cons x xs y ys)
  then show ?case using byte_bits_inject [of x y] by (simp add: addr_bits_Cons)
qed simp

lemma addr_bits_zero: "addr_bits (replicate k 0) = replicate (8 * k) False"
proof (induction k)
  case (Suc k)
  have "byte_bits 0 = replicate 8 False" by (simp add: byte_bits_def map_replicate_const)
  with Suc show ?case by (simp add: addr_bits_Cons flip: replicate_add)
qed (simp add: addr_bits_def)

lemma byte_bits_masked:
  "k \<le> 8 \<Longrightarrow> byte_bits (b AND partial_mask k) = take k (byte_bits b) @ replicate (8 - k) False"
  by (rule nth_equalityI)
    (auto simp: byte_bits_def nth_append bit_simps bit_partial_mask)

lemma take_addr_bits_split:
  "k < 8 \<Longrightarrow> m < length b \<Longrightarrow>
    take (8 * m + k) (addr_bits b) = addr_bits (take m b) @ take k (byte_bits (b ! m))"
proof -
  assume k: "k < 8" "m < length b"
  then have "b = take m b @ b ! m # drop (Suc m) b" by (simp add: id_take_nth_drop)
  then have "addr_bits b = addr_bits (take m b) @ byte_bits (b ! m) @ addr_bits (drop (Suc m) b)"
    by (metis addr_bits_append addr_bits_Cons)
  then show ?thesis using k by (simp add: min_def)
qed

lemma take_addr_bits_take: "m \<le> length b \<Longrightarrow> take (8 * m) (addr_bits b) = addr_bits (take m b)"
proof -
  assume "m \<le> length b"
  moreover have "addr_bits b = addr_bits (take m b) @ addr_bits (drop m b)"
    by (metis addr_bits_append append_take_drop_id)
  ultimately show ?thesis by (simp add: min_def)
qed

lemma mask_bytes_bits:
  assumes "n \<le> 8 * length b"
  shows "\<exists>b'. mask_bytes b n = Some b' \<and> length b' = length b
    \<and> addr_bits b' = take n (addr_bits b) @ replicate (8 * length b - n) False"
proof -
  define m k where "m = n div 8" and "k = n mod 8"
  have n: "n = 8 * m + k" "k < 8" by (simp_all add: m_def k_def)
  have m: "m \<le> length b" using assms n by linarith
  show ?thesis
  proof (cases "k = 0")
    case True
    with n m show ?thesis
      by (simp add: mask_bytes_def Let_def addr_bits_append addr_bits_zero take_addr_bits_take
          diff_mult_distrib2 flip: m_def k_def)
  next
    case False
    with n assms have m': "m < length b" by linarith
    have "8 * length b - n = (8 - k) + 8 * (length b - (m + 1))" using n m' by linarith
    then have "replicate (8 * length b - n) False
        = replicate (8 - k) False @ replicate (8 * (length b - (m + 1))) False"
      by (simp only: replicate_add)
    with False n(2) m' show ?thesis
      by (simp add: mask_bytes_def Let_def addr_bits_append addr_bits_Cons addr_bits_zero n(1)
          take_addr_bits_split byte_bits_masked flip: m_def k_def)
  qed
qed

lemma and_not_zero: "(x :: byte) AND NOT m = 0 \<longleftrightarrow> x AND m = x"
  by (auto simp: bit_eq_iff bit_simps)

lemma replicate_zero: "replicate (length xs) 0 = xs \<longleftrightarrow> (\<forall>x \<in> set xs. x = 0)"
  by (induction xs) auto

lemma mask_check_bytes:
  assumes "n \<le> 8 * length b"
  shows "mask_check b n = Some (mask_bytes b n = Some b)"
proof -
  define m k where "m = n div 8" and "k = n mod 8"
  have n: "n = 8 * m + k" "k < 8" by (simp_all add: m_def k_def)
  have m: "m \<le> length b" using assms n by linarith
  have z: "take j b @ replicate (length b - j) 0 = b \<longleftrightarrow> (\<forall>x \<in> set (drop j b). x = 0)" if "j \<le> length b" for j
  proof -
    have "take j b @ replicate (length b - j) 0 = b \<longleftrightarrow> replicate (length b - j) 0 = drop j b"
      by (metis append_take_drop_id same_append_eq)
    then show ?thesis using replicate_zero [of "drop j b"] by simp
  qed
  show ?thesis
  proof (cases "k = 0")
    case True
    with m z [OF m] show ?thesis
      by (simp add: mask_check_def mask_bytes_def Let_def flip: m_def k_def)
  next
    case False
    with n assms have m': "m < length b" by linarith
    have b: "b = take m b @ b ! m # drop (Suc m) b" using m' by (simp add: id_take_nth_drop)
    have len: "length (drop (Suc m) b) = length b - Suc m" by simp
    have "take m b @ x # replicate (length b - Suc m) 0 = b
        \<longleftrightarrow> x = b ! m \<and> replicate (length b - Suc m) 0 = drop (Suc m) b" for x
    proof -
      have "take m b @ x # r = b \<longleftrightarrow> x # r = b ! m # drop (Suc m) b" for r
        by (subst (2) b) (rule same_append_eq)
      then show ?thesis by simp
    qed
    moreover have "replicate (length b - Suc m) 0 = drop (Suc m) b
        \<longleftrightarrow> (\<forall>x \<in> set (drop (Suc m) b). x = 0)"
      using replicate_zero [of "drop (Suc m) b"] by simp
    ultimately show ?thesis
      using False m' by (auto simp: mask_check_def mask_bytes_def Let_def and_not_zero
          simp flip: m_def k_def)
  qed
qed

section \<open>Properties of masks and lookups\<close>

text \<open>
  Comparing two addresses under a prefix length that lies within them never indexes out of
  range, and is zero exactly when their leading bits agree; clearing the host bits keeps those
  bits and zeroes the rest, and the canonical check says that nothing was to clear.
\<close>

theorem mask_operations:
  assumes "n \<le> 8 * length a" "n \<le> 8 * length b"
  shows "mask_cmp a b n \<noteq> None
    \<and> (mask_cmp a b n = Some 0 \<longleftrightarrow> take n (addr_bits a) = take n (addr_bits b))
    \<and> (\<exists>c. mask_copy b n = Some c \<and> mask_cmp c b n = Some 0 \<and> mask_check c n = Some True
         \<and> mask_check b n = Some (c = b))"
proof -
  obtain c where c: "mask_bytes b n = Some c" "length c = length b"
    "addr_bits c = take n (addr_bits b) @ replicate (8 * length b - n) False"
    using mask_bytes_bits [OF assms(2)] by blast
  have n: "n \<le> 8 * length c" using assms c by simp
  obtain d where d: "mask_bytes c n = Some d" "length d = length c"
    "addr_bits d = take n (addr_bits c) @ replicate (8 * length c - n) False"
    using mask_bytes_bits [OF n] by blast
  have "addr_bits d = addr_bits c" using d(3) c assms(2) by simp
  then have "d = c" using addr_bits_inject [OF d(2)] by simp
  then have "mask_check c n = Some True" using mask_check_bytes [OF n] d(1) by simp
  moreover have "mask_cmp c b n = Some 0"
    using mask_cmp_zero [OF n assms(2)] c(3) assms(2) by simp
  moreover have "mask_check b n = Some (c = b)" using mask_check_bytes [OF assms(2)] c(1) by simp
  ultimately show ?thesis
    using c(1) mask_cmp_zero [OF assms] mask_cmp_prefix [OF assms] by (auto simp: mask_copy_def)
qed

theorem mask_operations_witness:
  "mask_cmp [10, 1, 2, 3] [10, 1, 3, 0] 23 \<noteq> None
   \<and> (\<exists>c. mask_copy [10, 1, 3, 0] 23 = Some c \<and> mask_check c 23 = Some True)"
  using mask_operations [of 23 "[10, 1, 2, 3]" "[10, 1, 3, 0]"] by auto

definition table_ok :: "subnet_table \<Rightarrow> bool" where
  "table_ok t \<longleftrightarrow> sorted_by compare_tinc t \<and> (\<forall>s \<in> set t. owned s \<and> wf_subnet s)"

definition table_unique :: "subnet_table \<Rightarrow> bool" where
  "table_unique t \<longleftrightarrow> distinct (map subnet_key t)"

lemma find_none: "find P xs = None \<longleftrightarrow> (\<forall>x \<in> set xs. \<not> P x)"
  by (auto simp: find_None_iff)

lemma lookup_best:
  assumes "table_ok t" "find P t = Some s" "\<forall>x \<in> set t. P x \<longleftrightarrow> type_order x = k \<and> covers x a"
  shows "s \<in> set t \<and> type_order s = k \<and> covers s a
    \<and> (\<forall>x \<in> set t. type_order x = k \<and> covers x a \<longrightarrow> sn_prefix x \<le> sn_prefix s
         \<and> (sn_kind x = sn_kind s \<longrightarrow> sn_weight s \<le> sn_weight x))"
proof -
  have *: "s \<in> set t \<and> P s \<and> (\<forall>x \<in> set t. P x \<longrightarrow> compare_tinc s x \<noteq> Greater)"
    using subnet_ord.find_least [of t P s] assms(1,2) by (auto simp: table_ok_def)
  have o: "\<forall>x \<in> set t. owned x" using assms(1) by (auto simp: table_ok_def)
  have "sn_prefix x \<le> sn_prefix s \<and> (sn_kind x = sn_kind s \<longrightarrow> sn_weight s \<le> sn_weight x)"
    if "x \<in> set t" "type_order x = k" "covers x a" for x
  proof -
    have c: "compare_tinc s x \<noteq> Greater" "type_order s = type_order x"
      using * that assms(3) by auto
    show ?thesis
      using compare_tinc_prefix [OF _ _ c] * o that(1)
      by (auto simp: sn_prefix_def sn_bytes_def)
  qed
  with * assms(3) show ?thesis by blast
qed

lemma lookup_best_case:
  assumes "table_ok t" "\<forall>x \<in> set t. P x \<longleftrightarrow> type_order x = k \<and> covers x a"
  shows "case find P t of
      None \<Rightarrow> \<forall>s \<in> set t. \<not> (type_order s = k \<and> covers s a)
    | Some s \<Rightarrow> s \<in> set t \<and> type_order s = k \<and> covers s a
        \<and> (\<forall>x \<in> set t. type_order x = k \<and> covers x a \<longrightarrow> sn_prefix x \<le> sn_prefix s
             \<and> (sn_kind x = sn_kind s \<longrightarrow> sn_weight s \<le> sn_weight x))"
proof (cases "find P t")
  case None
  show ?thesis unfolding None using None assms(2) by (simp add: find_none)
next
  case (Some s)
  then show ?thesis using lookup_best [OF assms(1) Some assms(2)] by simp
qed


definition demo_table :: subnet_table where
  "demo_table = table_add (with_owner ''b'' (weighted (Ipv4 [10, 0, 0, 0] 8) 10))
     (table_add (with_owner ''a'' (weighted (Ipv4 [10, 1, 0, 0] 16) 10)) [])"

lemma demo_table_ok: "table_ok demo_table"
proof -
  have d: "demo_table = [with_owner ''a'' (weighted (Ipv4 [10, 1, 0, 0] 16) 10),
      with_owner ''b'' (weighted (Ipv4 [10, 0, 0, 0] 8) 10)]"
    by (simp add: demo_table_def table_add_def sort_by_def compare_tinc_key owned_def subnet_key_def
        with_owner_def weighted_def type_order_def sn_prefix_def sn_bytes_def)
  show ?thesis unfolding d
    by (simp add: table_ok_def sorted_by_def compare_tinc_key owned_def subnet_key_def with_owner_def
        weighted_def type_order_def sn_prefix_def sn_bytes_def wf_subnet_def in_i32_def i32_min_def
        i32_max_def)
qed


text \<open>Every operation keeps the table sorted, owned and well formed.\<close>

lemma table_add_insert: "table_ok t \<Longrightarrow> table_add s t = insert_by compare_tinc s t"
  by (simp add: table_add_def table_ok_def sort_by_push)

lemma table_ok_add [tinc_inv]: "table_ok t \<Longrightarrow> owned s \<Longrightarrow> wf_subnet s \<Longrightarrow> table_ok (table_add s t)"
  by (auto simp: table_add_insert) (auto simp: table_ok_def subnet_ord.sorted_insert_by)

lemma table_ok_filter: "table_ok t \<Longrightarrow> table_ok (filter P t)"
  by (auto simp: table_ok_def sorted_by_def sorted_wrt_filter)

lemma table_ok_add_unique [tinc_inv]:
  "table_ok t \<Longrightarrow> owned s \<Longrightarrow> wf_subnet s \<Longrightarrow> table_ok (snd (table_add_unique s t))"
  by (simp add: table_add_unique_def table_ok_add)

lemma table_ok_remove_owner [tinc_inv]: "table_ok t \<Longrightarrow> table_ok (snd (remove_owner name t))"
  by (simp add: remove_owner_def partition_filter2 comp_def table_ok_filter)

lemma table_ok_remove_expired [tinc_inv]:
  "table_ok t \<Longrightarrow> table_ok (snd (remove_expired_owner_subnets name now t))"
  by (simp add: remove_expired_owner_subnets_def partition_filter2 comp_def table_ok_filter)

lemma remove_first_cases:
  "(\<exists>ys x zs. xs = ys @ x # zs \<and> P x \<and> (\<forall>y \<in> set ys. \<not> P y) \<and> remove_first P xs = (Some x, ys @ zs))
   \<or> (\<forall>x \<in> set xs. \<not> P x) \<and> remove_first P xs = (None, xs)"
proof (induction xs)
  case (Cons a xs)
  show ?case
  proof (cases "P a")
    case True
    then show ?thesis by (intro disjI1 exI [of _ "[]"]) auto
  next
    case False
    with Cons show ?thesis
      by (elim disjE exE conjE) (intro disjI1 exI [of _ "a # _"], auto)
  qed
qed simp

lemma table_ok_remove [tinc_inv]: "table_ok t \<Longrightarrow> table_ok (snd (table_remove s t))"
  using remove_first_cases [of t "\<lambda>candidate. compare_tinc candidate s = Equal"]
  by (auto simp: table_remove_def table_ok_def sorted_by_def sorted_wrt_append)

lemma table_ok_remove_owner_subnet [tinc_inv]:
  "table_ok t \<Longrightarrow> table_ok (snd (remove_owner_subnet name s t))"
  by (simp add: remove_owner_subnet_def table_ok_remove)

lemma key_in_table: "table_ok t \<Longrightarrow> owned s \<Longrightarrow> lookup_exact t s \<noteq> None
    \<longleftrightarrow> subnet_key s \<in> subnet_key ` set t"
  by (simp add: lookup_exact_def find_none table_ok_def compare_tinc_key image_iff) metis

lemma mset_keys: "distinct (map f xs) \<longleftrightarrow> distinct (map f ys)" if "mset xs = mset ys"
  using that by (metis mset_map mset_eq_imp_distinct_iff)

lemma table_remove_keys:
  assumes "table_ok t" "table_unique t" "owned s"
  shows "subnet_key ` set (snd (table_remove s t)) = subnet_key ` set t - {subnet_key s}
    \<and> table_unique (snd (table_remove s t))"
proof -
  have eq: "compare_tinc x s = Equal \<longleftrightarrow> subnet_key x = subnet_key s" if "x \<in> set t" for x
    using that assms by (auto simp: table_ok_def compare_tinc_key)
  from remove_first_cases [of t "\<lambda>candidate. compare_tinc candidate s = Equal"]
  show ?thesis
  proof (elim disjE exE conjE)
    fix ys x zs
    assume x: "t = ys @ x # zs" "compare_tinc x s = Equal"
      and r: "remove_first (\<lambda>candidate. compare_tinc candidate s = Equal) t = (Some x, ys @ zs)"
    have "subnet_key x = subnet_key s" using eq x by simp
    then show ?thesis using assms(2) r x by (auto simp: table_remove_def table_unique_def)
  next
    assume "\<forall>x \<in> set t. compare_tinc x s \<noteq> Equal"
      and "remove_first (\<lambda>candidate. compare_tinc candidate s = Equal) t = (None, t)"
    then show ?thesis using eq assms(2) by (auto simp: table_remove_def)
  qed
qed

lemma table_unique_add [tinc_inv]:
  assumes "table_ok t" "table_unique t" "owned s"
  shows "table_unique (snd (table_add_unique s t))"
  using key_in_table [OF assms(1,3)] assms(2) mset_keys [of "table_add s t" "s # t" subnet_key]
  by (auto simp: table_add_unique_def table_unique_def table_add_def)

lemma table_unique_filter: "table_unique t \<Longrightarrow> table_unique (filter P t)"
  by (simp add: table_unique_def distinct_map_filter)

lemma snd_remove_owner: "snd (remove_owner name t) = filter (\<lambda>s. sn_owner s \<noteq> Some name) t"
  by (simp add: remove_owner_def partition_filter2 comp_def)

text \<open>
  Starting from a sorted table of owned, well-formed subnets without duplicates, adding a
  subnet succeeds exactly when no entry compares equal to it, after which an exact lookup
  finds it; adding, removing one subnet, removing an owner and expiring keep the table
  sorted and free of duplicates, and a removal leaves exactly the entries that do not belong
  to the owner (or whose time has not passed).
\<close>

theorem table_operations:
  assumes t: "table_ok t" "table_unique t" and s: "owned s" "wf_subnet s"
  shows "(fst (table_add_unique s t) \<longleftrightarrow> subnet_key s \<notin> subnet_key ` set t)
    \<and> subnet_key ` set (snd (table_add_unique s t)) = insert (subnet_key s) (subnet_key ` set t)
    \<and> lookup_exact (snd (table_add_unique s t)) s \<noteq> None
    \<and> table_ok (snd (table_add_unique s t)) \<and> table_unique (snd (table_add_unique s t))
    \<and> table_ok (snd (table_remove s t)) \<and> table_unique (snd (table_remove s t))
    \<and> subnet_key ` set (snd (table_remove s t)) = subnet_key ` set t - {subnet_key s}
    \<and> set (snd (remove_owner name t)) = {x \<in> set t. sn_owner x \<noteq> Some name}
    \<and> set (fst (remove_owner name t)) = {x \<in> set t. sn_owner x = Some name}
    \<and> table_ok (snd (remove_owner name t)) \<and> table_unique (snd (remove_owner name t))
    \<and> table_ok (snd (remove_expired_owner_subnets name now t))
    \<and> set (snd (remove_expired_owner_subnets name now t))
        = {x \<in> set t. sn_owner x = Some name \<longrightarrow> (\<forall>e. sn_expires x = Some e \<longrightarrow> now \<le> e)}"
proof -
  have add: "set (table_add s t) = insert s (set t)" by (simp add: table_add_def)
  have ok: "table_ok (snd (table_add_unique s t))" using t(1) s by (rule table_ok_add_unique)
  have keys: "subnet_key ` set (snd (table_add_unique s t)) = insert (subnet_key s) (subnet_key ` set t)"
    using key_in_table [OF t(1) s(1)] add by (auto simp: table_add_unique_def)
  have uniq: "table_unique (snd (table_add_unique s t))" using t s(1) by (rule table_unique_add)
  have rem: "subnet_key ` set (snd (table_remove s t)) = subnet_key ` set t - {subnet_key s}
      \<and> table_unique (snd (table_remove s t))"
    using table_remove_keys [OF t s(1)] .
  have own: "table_unique (snd (remove_owner name t))"
    using t(2) by (simp add: snd_remove_owner table_unique_filter)
  have exp: "set (snd (remove_expired_owner_subnets name now t))
        = {x \<in> set t. sn_owner x = Some name \<longrightarrow> (\<forall>e. sn_expires x = Some e \<longrightarrow> now \<le> e)}"
    by (auto simp: remove_expired_owner_subnets_def partition_filter2 comp_def not_less split: option.splits)
  show ?thesis
    using ok keys uniq rem own exp key_in_table [OF ok s(1)] key_in_table [OF t(1) s(1)] t(1)
      table_ok_remove [OF t(1)] table_ok_remove_owner [OF t(1)] table_ok_remove_expired [OF t(1)]
    by (intro conjI) (auto simp: table_add_unique_def remove_owner_def partition_filter2 partition_filter1 comp_def)
qed

theorem table_operations_witness:
  "lookup_exact (snd (table_add_unique (with_owner ''c'' (mac_subnet [1, 2, 3, 4, 5, 6])) demo_table))
     (with_owner ''c'' (mac_subnet [1, 2, 3, 4, 5, 6])) \<noteq> None"
proof -
  have "table_unique demo_table"
    by (simp add: table_unique_def demo_table_def table_add_def sort_by_def compare_tinc_key owned_def
        subnet_key_def with_owner_def weighted_def type_order_def sn_prefix_def sn_bytes_def)
  moreover have "owned (with_owner ''c'' (mac_subnet [1, 2, 3, 4, 5, 6]))"
    "wf_subnet (with_owner ''c'' (mac_subnet [1, 2, 3, 4, 5, 6]))"
    by (simp_all add: owned_def with_owner_def wf_subnet_def mac_subnet_def weighted_def DEFAULT_WEIGHT_def
        in_i32_def i32_min_def i32_max_def)
  ultimately show ?thesis using table_operations [OF demo_table_ok] by blast
qed

text \<open>
  On subnets without an owner the comparison is not an order: an ownerless subnet compares
  equal to two subnets of different owners which do not compare equal to each other, so a
  table that holds one is not sorted by any total preorder.
\<close>

theorem compare_tinc_not_transitive:
  "\<exists>a b c. compare_tinc a b = Equal \<and> compare_tinc b c = Equal \<and> compare_tinc a c = Less
     \<and> sn_owner b = None"
proof -
  let ?s = "weighted (Ipv4 [10, 0, 0, 0] 8) 10"
  have "compare_tinc (with_owner ''a'' ?s) ?s = Equal" "compare_tinc ?s (with_owner ''b'' ?s) = Equal"
    by (simp_all add: compare_tinc_def compare_ip_common_def compare_common_def with_owner_def
        weighted_def type_order_def)
  moreover have "compare_tinc (with_owner ''a'' ?s) (with_owner ''b'' ?s) = Less"
    by (simp add: compare_tinc_key owned_def with_owner_def weighted_def subnet_key_def type_order_def
        sn_prefix_def sn_bytes_def)
  moreover have "sn_owner ?s = None" by (simp add: weighted_def)
  ultimately show ?thesis by blast
qed

section \<open>Textual form\<close>

definition show_mac :: "mac_addr \<Rightarrow> string" where
  "show_mac a = join CHR '':'' (map show_hex2 a)"

definition show_subnet :: "subnet \<Rightarrow> string" where
  "show_subnet s =
     (case sn_kind s of
        Mac a \<Rightarrow> show_mac a
      | Ipv4 a p \<Rightarrow> show_ipv4 a @ (if p \<noteq> 32 then CHR ''/'' # show_nat p else [])
      | Ipv6 a p \<Rightarrow> show_ipv6 a @ (if p \<noteq> 128 then CHR ''/'' # show_nat p else []))
     @ (if sn_weight s \<noteq> DEFAULT_WEIGHT then CHR ''#'' # show_int (sn_weight s) else [])"

fun parse_mac_octets :: "string list \<Rightarrow> byte list option" where
  "parse_mac_octets [] = Some []"
| "parse_mac_octets (part # parts) =
     (if part = [] \<or> 2 < length part then None
      else (case parse_unsigned 16 255 part of
              None \<Rightarrow> None
            | Some v \<Rightarrow> map_option ((#) (of_nat v)) (parse_mac_octets parts)))"

definition parse_mac_addr :: "string \<Rightarrow> mac_addr option" where
  "parse_mac_addr s =
     (let parts = split_on CHR '':'' s
      in if length parts \<noteq> 6 then None else parse_mac_octets parts)"

definition parse_c_i32 :: "string \<Rightarrow> subnet_parse_error \<Rightarrow> subnet_parse_error + int" where
  "parse_c_i32 s err =
     (if s = [] then Inl err
      else let trimmed_start = dropWhile is_ascii_whitespace s
           in if trimmed_start = [] then Inl err
              else if \<exists>c \<in> set trimmed_start. is_ascii_whitespace c then Inl err
              else (case parse_i32 trimmed_start of None \<Rightarrow> Inl err | Some v \<Rightarrow> Inr v))"

definition i32_to_prefix :: "int \<Rightarrow> nat \<Rightarrow> subnet_parse_error + nat" where
  "i32_to_prefix prefix_len hi =
     (if prefix_len < 0 then Inl InvalidPrefix
      else if 255 < prefix_len then Inl InvalidPrefix
      else (case validate_prefix (nat prefix_len) hi of
              Inl e \<Rightarrow> Inl e | Inr _ \<Rightarrow> Inr (nat prefix_len)))"

definition parse_subnet_address ::
  "string \<Rightarrow> int option \<Rightarrow> int \<Rightarrow> subnet_parse_error + subnet" where
  "parse_subnet_address address prefix w =
     (case parse_mac_addr address of
        Some mac \<Rightarrow>
          if prefix \<noteq> None then Inl (PrefixNotAllowed Fam_Ipv4) else Inr (weighted (Mac mac) w)
      | None \<Rightarrow>
      (case parse_ipv4 address of
         Some a \<Rightarrow>
           (case i32_to_prefix (case prefix of Some p \<Rightarrow> p | None \<Rightarrow> 32) 32 of
              Inl e \<Rightarrow> Inl e | Inr p \<Rightarrow> Inr (weighted (Ipv4 a p) w))
       | None \<Rightarrow>
       (case parse_ipv6 address of
          Some a \<Rightarrow>
            (case i32_to_prefix (case prefix of Some p \<Rightarrow> p | None \<Rightarrow> 128) 128 of
               Inl e \<Rightarrow> Inl e | Inr p \<Rightarrow> Inr (weighted (Ipv6 a p) w))
        | None \<Rightarrow> Inl InvalidAddress)))"

definition parse_subnet :: "string \<Rightarrow> subnet_parse_error + subnet" where
  "parse_subnet s =
     (if s = [] then Inl SubnetEmpty
      else if MAX_NET_STR \<le> length s then Inl SubnetTooLong
      else
        (case (case split_once CHR ''#'' s of
                 Some (address, w) \<Rightarrow>
                   (case parse_c_i32 w InvalidWeight of Inl e \<Rightarrow> Inl e | Inr v \<Rightarrow> Inr (address, v))
               | None \<Rightarrow> Inr (s, DEFAULT_WEIGHT)) of
           Inl e \<Rightarrow> Inl e
         | Inr (address_and_prefix, w) \<Rightarrow>
             (case (case split_once CHR ''/'' address_and_prefix of
                      Some (address, p) \<Rightarrow>
                        (case parse_c_i32 p InvalidPrefix of
                           Inl e \<Rightarrow> Inl e | Inr v \<Rightarrow> Inr (address, Some v))
                    | None \<Rightarrow> Inr (address_and_prefix, None)) of
                Inl e \<Rightarrow> Inl e
              | Inr (address, prefix) \<Rightarrow> parse_subnet_address address prefix w)))"

section \<open>Parsing what was printed\<close>

lemma parse_c_i32_show: "in_i32 i \<Longrightarrow> parse_c_i32 (show_int i) e = Inr i"
proof -
  assume i: "in_i32 i"
  have ws: "\<not> is_ascii_whitespace c" if "c \<in> set (show_int i)" for c
    using that graphic_show_int by (fastforce simp: graphic_def is_ascii_whitespace_def)
  have "show_int i \<noteq> []" by (simp add: show_int_def show_nat_def)
  moreover from this have "dropWhile is_ascii_whitespace (show_int i) = show_int i"
    using ws by (cases "show_int i") auto
  ultimately show ?thesis using ws parse_i32_show_int [OF i] by (simp add: parse_c_i32_def Let_def)
qed

lemma show_hex2_parse: "parse_unsigned 16 255 (show_hex2 b) = Some (unat b)"
proof -
  have h: "unat b div 16 < 16" "unat b mod 16 < 16" using unat_byte_less [of b] by (simp_all del: unat_byte_less)
  have "digit_char (unat b div 16) \<noteq> CHR ''+''"
    using alnum_not_sign digit_char_alnum [OF h(1)] by blast
  then show ?thesis
    using h by (simp add: show_hex2_def parse_unsigned_def to_digit_digit_char)
qed

lemma split_on_join:
  "ws \<noteq> [] \<Longrightarrow> \<forall>w \<in> set ws. c \<notin> set w \<Longrightarrow> split_on c (join c ws) = ws"
  by (induction c ws rule: join.induct) (auto simp: split_on_none split_on_append)

lemma hex2_no_colon: "CHR '':'' \<notin> set (show_hex2 b)" "CHR ''#'' \<notin> set (show_hex2 b)" "CHR ''/'' \<notin> set (show_hex2 b)"
proof -
  have "is_ascii_alphanumeric c" if "c \<in> set (show_hex2 b)" for c
    using that unat_byte_less [of b] by (auto simp: show_hex2_def intro!: digit_char_alnum simp del: unat_byte_less)
  then show "CHR '':'' \<notin> set (show_hex2 b)" "CHR ''#'' \<notin> set (show_hex2 b)" "CHR ''/'' \<notin> set (show_hex2 b)"
    using alnum_not_separator by blast+
qed

lemma parse_show_mac: "length a = 6 \<Longrightarrow> parse_mac_addr (show_mac a) = Some a"
proof -
  assume l: "length a = 6"
  have "parse_mac_octets (map show_hex2 bs) = Some bs" for bs
    using show_hex2_parse by (induction bs) (auto simp: show_hex2_def)
  moreover have "split_on CHR '':'' (show_mac a) = map show_hex2 a"
    unfolding show_mac_def using l hex2_no_colon by (intro split_on_join) auto
  ultimately show ?thesis using l by (simp add: parse_mac_addr_def)
qed

text \<open>A printed IPv4 or IPv6 address is not taken for a MAC address, nor IPv6 for IPv4.\<close>

lemma ipv4_chars: "c \<in> set (show_ipv4 a) \<Longrightarrow> c \<noteq> CHR '':'' \<and> c \<noteq> CHR ''#'' \<and> c \<noteq> CHR ''/''"
  using octets_ipv4_chars [of c a] alnum_not_separator [of c] by (auto simp: is_ascii_alphanumeric_def)

lemma show_ipv4_not_mac: "parse_mac_addr (show_ipv4 a) = None"
proof -
  have "CHR '':'' \<notin> set (show_ipv4 a)" using ipv4_chars by blast
  from split_on_none [OF this] show ?thesis by (simp add: parse_mac_addr_def)
qed

lemma split_on_two: "[] \<in> set (tl (split_on c (a @ c # c # b)))"
proof (induction a)
  case (Cons x a)
  then show ?case by (cases "split_on c (a @ c # c # b)") auto
qed simp

lemma parse_mac_octets_empty: "[] \<in> set ps \<Longrightarrow> parse_mac_octets ps = None"
  by (induction ps) (auto split: option.splits)

lemma elided_not_mac: "parse_mac_addr (a @ CHR '':'' # CHR '':'' # b) = None"
  using parse_mac_octets_empty [OF list.set_sel(2) [OF split_on_not_Nil split_on_two [of "CHR '':''" a b]]]
  by (simp add: parse_mac_addr_def Let_def)

lemma show_ipv6_not_mac:
  assumes "length a = 16"
  shows "parse_mac_addr (show_ipv6 a) = None"
proof (cases "take 12 a = replicate 10 0 @ [0xFF, 0xFF]")
  case True
  then show ?thesis using elided_not_mac [of "[]" "''ffff:'' @ show_ipv4 (drop 12 a)"]
    by (simp add: show_ipv6_def)
next
  case False
  obtain st n where run: "longest_zeros 0 (0, 0) (0, 0) (segments a) = (st, n)"
    by (cases "longest_zeros 0 (0, 0) (0, 0) (segments a)")
  have "split_on CHR '':'' (show_groups (segments a)) = map (\<lambda>g. show_hex (unat g)) (segments a)"
    unfolding show_groups_def using assms length_segments [of a] show_hex_no_dot
    by (intro split_on_join) auto
  then have "parse_mac_addr (show_groups (segments a)) = None"
    using assms by (simp add: parse_mac_addr_def length_segments)
  then show ?thesis
    using False run elided_not_mac by (simp add: show_ipv6_def show_segments_def)
qed

lemma read_octets_no_colon:
  "read_octets f n s = Some (vs, []) \<Longrightarrow> CHR '':'' \<notin> set s"
proof (induction f n s arbitrary: vs rule: read_octets.induct)
  case (1 f s)
  then show ?case by simp
next
  case (2 first n s)
  from "2.prems" obtain s1 v s2 ws where *: "read_separator CHR ''.'' first s = Some s1"
    "read_number 10 3 False 255 s1 = Some (v, s2)" "read_octets False n s2 = Some (ws, [])"
    by (auto split: option.splits)
  have "CHR '':'' \<notin> set s2" using "2.IH" [OF * (1) *(2)] *(3) by simp
  moreover have "s1 = takeWhile (\<lambda>c. to_digit 10 c \<noteq> None) s1 @ s2"
  proof -
    have "s2 = drop (length (takeWhile (\<lambda>c. to_digit 10 c \<noteq> None) s1)) s1"
      using *(2) by (auto simp: read_number_def Let_def split: if_splits option.splits)
    then show ?thesis by (metis append_take_drop_id takeWhile_eq_take)
  qed
  moreover have "CHR '':'' \<notin> set (takeWhile (\<lambda>c. to_digit 10 c \<noteq> None) s1)"
    by (auto dest: set_takeWhileD)
  ultimately have "CHR '':'' \<notin> set s1" by (metis Un_iff set_append)
  with *(1) show ?case by (auto simp: read_separator_def split: if_splits list.splits)
qed

lemma colon_not_ipv4: "CHR '':'' \<in> set s \<Longrightarrow> parse_ipv4 s = None"
  using read_octets_no_colon by (auto simp: parse_ipv4_def split: option.splits list.splits)

lemma show_ipv6_colon: "length a = 16 \<Longrightarrow> CHR '':'' \<in> set (show_ipv6 a)"
proof -
  assume l: "length a = 16"
  obtain g h gs where s: "segments a = g # h # gs"
    using l length_segments [of a] by (cases "segments a"; cases "tl (segments a)") auto
  have "CHR '':'' \<in> set (show_groups (segments a))" by (simp add: s show_groups_def)
  then have "CHR '':'' \<in> set (show_segments (segments a))"
    by (cases "longest_zeros 0 (0, 0) (0, 0) (segments a)")
      (auto simp: show_segments_def)
  then show ?thesis by (simp add: show_ipv6_def)
qed

lemma show_ipv6_chars:
  "c \<in> set (show_ipv6 a) \<Longrightarrow> is_ascii_alphanumeric c \<or> c = CHR '':'' \<or> c = CHR ''.''"
proof -
  have h: "is_ascii_alphanumeric d" if "d \<in> set (show_hex n)" for d n
    using that show_radix_graphic [of 16 n] by (auto simp: show_hex_def)
  have g: "is_ascii_alphanumeric d \<or> d = CHR '':''" if "d \<in> set (show_groups gs)" for d gs
    using that h by (cases gs) (auto simp: show_groups_def join_concat split: if_splits)
  have f: "is_ascii_alphanumeric CHR ''f''" by (simp add: is_ascii_alphanumeric_def is_ascii_alpha_def code_def)
  show "c \<in> set (show_ipv6 a) \<Longrightarrow> is_ascii_alphanumeric c \<or> c = CHR '':'' \<or> c = CHR ''.''"
    using octets_ipv4_chars [of c "drop 12 a"] g f
    by (auto simp: show_ipv6_def show_segments_def is_ascii_alphanumeric_def split: if_splits prod.splits)
qed

lemma length_show_nat: "n < 10 ^ k \<Longrightarrow> 0 < k \<Longrightarrow> length (show_nat n) \<le> k"
  by (simp add: show_nat_def show_radix_def length_radix_digits)

lemma length_show_int: "in_i32 i \<Longrightarrow> length (show_int i) \<le> 11"
proof -
  assume i: "in_i32 i"
  then have "nat i < 10 ^ 10" "nat (- i) < 10 ^ 10"
    by (auto simp: in_i32_def i32_min_def i32_max_def)
  then show ?thesis
    using length_show_nat [of "nat i" 10] length_show_nat [of "nat (- i)" 10] by (simp add: show_int_def)
qed

lemma length_show_groups: "length (show_groups gs) \<le> 5 * length gs"
proof -
  have "length (show_hex (unat g)) \<le> 4" for g :: u16
  proof -
    have "unat g < 16 ^ 4" using unat_u16_less [of g] by (simp del: unat_u16_less)
    then show ?thesis by (simp add: show_hex_def show_radix_def length_radix_digits)
  qed
  then have "length (concat (map (\<lambda>g. CHR '':'' # show_hex (unat (g :: u16))) gs)) \<le> 5 * length gs"
    by (induction gs) (auto simp: le_Suc_eq intro: add_mono)
  moreover have "length (show_groups gs) \<le> length (concat (map (\<lambda>g. CHR '':'' # show_hex (unat (g :: u16))) gs))"
    by (cases gs) (auto simp: show_groups_def join_concat comp_def)
  ultimately show ?thesis by linarith
qed

lemma length_show_ipv4: "length a = 4 \<Longrightarrow> length (show_ipv4 a) \<le> 15"
  using parse_show_ipv4 [of a] by (auto simp: parse_ipv4_def split: if_splits)

lemma length_show_ipv6:
  assumes "length a = 16"
  shows "length (show_ipv6 a) \<le> 42"
proof (cases "take 12 a = replicate 10 0 @ [0xFF, 0xFF]")
  case True
  then show ?thesis using length_show_ipv4 [of "drop 12 a"] assms by (simp add: show_ipv6_def)
next
  case False
  obtain st n where run: "longest_zeros 0 (0, 0) (0, 0) (segments a) = (st, n)"
    by (cases "longest_zeros 0 (0, 0) (0, 0) (segments a)")
  have "st + n \<le> length (segments a)"
    using longest_zeros_run [OF _ _ _ _ _ _ run, of "segments a" "[]"] by simp
  then have "5 * length (take st (segments a)) + 5 * length (drop (st + n) (segments a)) \<le> 40"
    using assms by (simp add: length_segments)
  then have "length (show_groups (take st (segments a))) + length (show_groups (drop (st + n) (segments a))) \<le> 40"
    using length_show_groups [of "take st (segments a)"] length_show_groups [of "drop (st + n) (segments a)"]
    by linarith
  moreover have "length (show_groups (segments a)) \<le> 40"
    using length_show_groups [of "segments a"] assms by (simp add: length_segments)
  ultimately show ?thesis using False run by (simp add: show_ipv6_def show_segments_def)
qed

text \<open>The parser on an address, an optional prefix and an optional weight.\<close>

lemma parse_subnet_parts:
  assumes a: "a \<noteq> []" "CHR ''/'' \<notin> set a" "CHR ''#'' \<notin> set a" "length a \<le> 42"
    and p: "p < 1000" and w: "in_i32 w"
  shows "parse_subnet (a @ (if with_p then CHR ''/'' # show_nat p else [])
      @ (if w \<noteq> DEFAULT_WEIGHT then CHR ''#'' # show_int w else []))
    = parse_subnet_address a (if with_p then Some (int p) else None) w" (is "parse_subnet ?s = _")
proof -
  let ?ap = "a @ (if with_p then CHR ''/'' # show_nat p else [])"
  have np: "CHR ''#'' \<notin> set (show_nat p)"
    using show_nat_digits [of p] alnum_not_separator by (auto simp: is_ascii_alphanumeric_def)
  have len: "length ?s < 64"
    using a(4) length_show_nat [of p 3] p length_show_int [OF w] by auto
  have h: "CHR ''#'' \<notin> set ?ap" using a(3) np by auto
  have "split_once CHR ''#'' ?s
      = (if w \<noteq> DEFAULT_WEIGHT then Some (?ap, show_int w) else None)"
    using split_once_append [OF h, of "show_int w"] split_once_none [OF h] by simp
  moreover have "split_once CHR ''/'' ?ap = (if with_p then Some (a, show_nat p) else None)"
    using split_once_append [OF a(2)] split_once_none [OF a(2)] by simp
  moreover have "parse_c_i32 (show_nat p) InvalidPrefix = Inr (int p)"
    using parse_c_i32_show [of "int p"] p
    by (simp add: show_int_def in_i32_def i32_min_def i32_max_def)
  moreover have "?s \<noteq> []" using a(1) by simp
  ultimately show ?thesis
    using len parse_c_i32_show [OF w]
    by (simp add: parse_subnet_def MAX_NET_STR_def split: if_splits)
qed

lemma length_read_octets: "read_octets f n s = Some (vs, r) \<Longrightarrow> length vs = n"
  by (induction f n s arbitrary: vs r rule: read_octets.induct) (auto split: option.splits)

lemma length_read_groups: "read_groups f n s = (gs, v, r) \<Longrightarrow> length gs \<le> n"
proof (induction f n s arbitrary: gs v r rule: read_groups.induct)
  case (2 first n s)
  show ?case
  proof (cases "read_separator CHR '':'' first s")
    case None
    with 2 show ?thesis by simp
  next
    case (Some s1)
    show ?thesis
    proof (cases "if 1 \<le> n then read_octets True 4 s1 else None")
      case None
      with 2 Some show ?thesis by (auto split: option.splits prod.splits)
    next
      case (Some o4)
      with 2 \<open>read_separator CHR '':'' first s = Some s1\<close> show ?thesis
        by (auto split: option.splits prod.splits if_splits)
    qed
  qed
qed simp

lemma length_parse_segments: "parse_segments s = Some gs \<Longrightarrow> length gs = 8"
proof -
  assume *: "parse_segments s = Some gs"
  obtain front v r where f: "read_groups True 8 s = (front, v, r)" by (cases "read_groups True 8 s")
  have l: "length front \<le> 8" using length_read_groups [OF f] .
  show ?thesis
  proof (cases "length front = 8")
    case True
    with * f show ?thesis by (simp add: parse_segments_def split: if_splits)
  next
    case False
    with * f obtain r' tail v' where t: "read_groups True (7 - length front) r' = (tail, v', [])"
      "gs = front @ replicate (8 - length front - length tail) 0 @ tail"
      by (auto simp: parse_segments_def split: if_splits list.splits prod.splits)
    then show ?thesis using length_read_groups [OF t(1)] l False by simp
  qed
qed

lemma length_parse_mac_octets: "parse_mac_octets ps = Some a \<Longrightarrow> length a = length ps"
  by (induction ps arbitrary: a) (auto split: if_splits option.splits)

lemma parsed_lengths:
  "parse_mac_addr s = Some a \<Longrightarrow> length a = 6"
  "parse_ipv4 s = Some a \<Longrightarrow> length a = 4"
  "parse_ipv6 s = Some a \<Longrightarrow> length a = 16"
  using length_parse_mac_octets length_read_octets length_parse_segments
  by (auto simp: parse_mac_addr_def Let_def parse_ipv4_def parse_ipv6_def length_segment_bytes
      split: if_splits option.splits list.splits prod.splits)

lemma i32_to_prefix_ok: "i32_to_prefix p hi = Inr n \<Longrightarrow> n \<le> hi"
  by (auto simp: i32_to_prefix_def validate_prefix_def split: if_splits)

lemma i32_to_prefix_int: "n \<le> hi \<Longrightarrow> hi \<le> 255 \<Longrightarrow> i32_to_prefix (int n) hi = Inr n"
  by (simp add: i32_to_prefix_def validate_prefix_def)

lemma parse_c_i32_range: "parse_c_i32 s e = Inr v \<Longrightarrow> in_i32 v"
  by (auto simp: parse_c_i32_def parse_i32_def Let_def split: if_splits option.splits)

lemma in_i32_default: "in_i32 DEFAULT_WEIGHT"
  by (simp add: DEFAULT_WEIGHT_def in_i32_def i32_min_def i32_max_def)

lemma parse_subnet_address_ok:
  "parse_subnet_address a p w = Inr s \<Longrightarrow> in_i32 w \<Longrightarrow> wf_subnet s \<and> sn_owner s = None \<and> sn_expires s = None"
  using parsed_lengths i32_to_prefix_ok
  by (auto simp: parse_subnet_address_def wf_subnet_def weighted_def
      split: option.splits if_splits sum.splits)

lemma parse_subnet_ok:
  assumes "parse_subnet x = Inr s"
  shows "length x < MAX_NET_STR \<and> wf_subnet s \<and> sn_owner s = None \<and> sn_expires s = None"
proof -
  obtain a p w where "parse_subnet_address a p w = Inr s" "in_i32 w" "length x < MAX_NET_STR"
    using assms in_i32_default
    by (auto simp: parse_subnet_def not_le split: if_splits sum.splits option.splits
        dest!: parse_c_i32_range)
  then show ?thesis using parse_subnet_address_ok by blast
qed

text \<open>
  What the subnet parser accepts is shorter than its limit and well formed: an address of
  the right length, a prefix within it, a weight of 32 bits, no owner and no expiry.
\<close>

theorem parse_subnet_sound:
  assumes "parse_subnet x = Inr s"
  shows "length x < MAX_NET_STR \<and> wf_subnet s \<and> sn_owner s = None \<and> sn_expires s = None"
  using assms by (rule parse_subnet_ok)

theorem parse_subnet_sound_witness:
  "length ''10.0.0.0/8'' < MAX_NET_STR \<and> wf_subnet (weighted (Ipv4 [10, 0, 0, 0] 8) 10)"
proof -
  have "parse_subnet ''10.0.0.0/8'' = Inr (weighted (Ipv4 [10, 0, 0, 0] 8) 10)"
    by code_simp
  from parse_subnet_sound [OF this] show ?thesis by simp
qed

lemma parse_show_subnet_text:
  assumes "wf_subnet s"
  shows "parse_subnet (show_subnet s) = Inr (weighted (sn_kind s) (sn_weight s))"
proof (cases "sn_kind s")
  case (Mac a)
  then have l: "length a = 6" and w: "in_i32 (sn_weight s)" using assms by (auto simp: wf_subnet_def)
  obtain x y where a: "a = x # y" using l by (cases a) auto
  have "CHR ''/'' \<notin> set (show_mac a)" "CHR ''#'' \<notin> set (show_mac a)"
    using hex2_no_colon by (auto simp: a show_mac_def join_concat)
  moreover have "length (concat (map (\<lambda>b. CHR '':'' # show_hex2 b) y)) = 3 * length y"
    by (induction y) (auto simp: show_hex2_def)
  then have "length (show_mac a) \<le> 42" "show_mac a \<noteq> []"
    using l by (simp_all add: a show_mac_def join_concat comp_def show_hex2_def)
  ultimately show ?thesis
    using parse_subnet_parts [of "show_mac a" 0 "sn_weight s" False] w Mac parse_show_mac [OF l]
    by (simp add: show_subnet_def parse_subnet_address_def)
next
  case (Ipv4 a p)
  then have l: "length a = 4" "p \<le> 32" and w: "in_i32 (sn_weight s)" using assms by (auto simp: wf_subnet_def)
  have "show_ipv4 a \<noteq> []" using l(1) by (cases a) (auto simp: show_ipv4_def join_concat show_nat_def)
  moreover have "CHR ''/'' \<notin> set (show_ipv4 a)" "CHR ''#'' \<notin> set (show_ipv4 a)"
    using ipv4_chars by blast+
  ultimately show ?thesis
    using parse_subnet_parts [of "show_ipv4 a" p "sn_weight s" "p \<noteq> 32"] w Ipv4 l
      parse_show_ipv4 [OF l(1)] show_ipv4_not_mac length_show_ipv4 [OF l(1)]
      i32_to_prefix_int [OF l(2)] i32_to_prefix_int [of 32 32]
    by (auto simp: show_subnet_def parse_subnet_address_def split: if_splits)
next
  case (Ipv6 a p)
  then have l: "length a = 16" "p \<le> 128" and w: "in_i32 (sn_weight s)" using assms by (auto simp: wf_subnet_def)
  have "show_ipv6 a \<noteq> []" using show_ipv6_colon [OF l(1)] by auto
  moreover have "CHR ''/'' \<notin> set (show_ipv6 a)" "CHR ''#'' \<notin> set (show_ipv6 a)"
    using show_ipv6_chars alnum_not_separator by blast+
  ultimately show ?thesis
    using parse_subnet_parts [of "show_ipv6 a" p "sn_weight s" "p \<noteq> 128"] w Ipv6 l
      parse_show_ipv6 [OF l(1)] show_ipv6_not_mac [OF l(1)] length_show_ipv6 [OF l(1)]
      colon_not_ipv4 [OF show_ipv6_colon [OF l(1)]] i32_to_prefix_int [OF l(2)] i32_to_prefix_int [of 128 128]
    by (auto simp: show_subnet_def parse_subnet_address_def split: if_splits)
qed

text \<open>
  The parser reads back every well-formed subnet the program prints: MAC, IPv4 and IPv6
  (with its compressed and IPv4-mapped forms), with or without prefix and weight.
\<close>

theorem parse_show_subnet:
  assumes "wf_subnet s"
  shows "parse_subnet (show_subnet s) = Inr (weighted (sn_kind s) (sn_weight s))"
  using assms by (rule parse_show_subnet_text)

theorem parse_show_subnet_witness:
  "parse_subnet (show_subnet (weighted (Ipv4 [10, 0, 0, 0] 8) 20)) = Inr (weighted (Ipv4 [10, 0, 0, 0] 8) 20)"
  using parse_show_subnet [of "weighted (Ipv4 [10, 0, 0, 0] 8) 20"]
  by (simp add: wf_subnet_def weighted_def in_i32_def i32_min_def i32_max_def)

end
