(* ===== verification/Rust_Map.thy ===== *)
theory Rust_Map
  imports Rust_Order
begin

text \<open>
  \<^verbatim>\<open>std::collections::BTreeMap\<close> (and \<^verbatim>\<open>BTreeSet\<close>, a map to unit) as the key-sorted
  association list its iterators walk.  The locale \<open>key_store\<close> states what the graph, the
  request cache and the connection tables rely on; it is interpreted on the model of the map
  below.
\<close>

type_synonym ('k, 'v) btree = "('k \<times> 'v) list"

definition bt_ok :: "('k::linorder, 'v) btree \<Rightarrow> bool" where
  "bt_ok m \<longleftrightarrow> sorted_wrt (<) (map fst m)"

definition bt_get :: "('k::linorder, 'v) btree \<Rightarrow> 'k \<Rightarrow> 'v option" where
  "bt_get m k = map_of m k"

definition bt_contains :: "('k::linorder, 'v) btree \<Rightarrow> 'k \<Rightarrow> bool" where
  "bt_contains m k = (bt_get m k \<noteq> None)"

fun bt_insert :: "'k::linorder \<Rightarrow> 'v \<Rightarrow> ('k, 'v) btree \<Rightarrow> ('k, 'v) btree" where
  "bt_insert k v [] = [(k, v)]"
| "bt_insert k v ((k', v') # m) =
     (if k < k' then (k, v) # (k', v') # m
      else if k = k' then (k, v) # m
      else (k', v') # bt_insert k v m)"

definition bt_remove :: "'k::linorder \<Rightarrow> ('k, 'v) btree \<Rightarrow> ('k, 'v) btree" where
  "bt_remove k m = filter (\<lambda>(k', _). k' \<noteq> k) m"

text \<open>\<^verbatim>\<open>values_mut\<close>, \<^verbatim>\<open>get_mut\<close> and \<^verbatim>\<open>retain\<close>.\<close>

definition bt_map :: "('v \<Rightarrow> 'v) \<Rightarrow> ('k::linorder, 'v) btree \<Rightarrow> ('k, 'v) btree" where
  "bt_map f m = map (\<lambda>(k, v). (k, f v)) m"

definition bt_adjust :: "'k::linorder \<Rightarrow> ('v \<Rightarrow> 'v) \<Rightarrow> ('k, 'v) btree \<Rightarrow> ('k, 'v) btree" where
  "bt_adjust k f m = map (\<lambda>(k', v). (k', if k' = k then f v else v)) m"

definition bt_retain :: "('k \<Rightarrow> 'v \<Rightarrow> bool) \<Rightarrow> ('k::linorder, 'v) btree \<Rightarrow> ('k, 'v) btree" where
  "bt_retain P m = filter (\<lambda>(k, v). P k v) m"

definition bt_keys :: "('k::linorder, 'v) btree \<Rightarrow> 'k list" where
  "bt_keys m = map fst m"

definition bt_values :: "('k::linorder, 'v) btree \<Rightarrow> 'v list" where
  "bt_values m = map snd m"

section \<open>Lookup laws\<close>

lemma bt_get_empty [simp]: "bt_get [] k = None"
  by (simp add: bt_get_def)

lemma bt_contains_iff: "bt_contains m k \<longleftrightarrow> (\<exists>v. bt_get m k = Some v)"
  by (simp add: bt_contains_def)

lemma bt_ok_Nil [simp]: "bt_ok []"
  by (simp add: bt_ok_def)

lemma bt_ok_Cons: "bt_ok ((k, v) # m) \<longleftrightarrow> (\<forall>k' \<in> fst ` set m. k < k') \<and> bt_ok m"
  by (simp add: bt_ok_def)

lemma bt_ok_distinct: "bt_ok m \<Longrightarrow> distinct (map fst m)"
  by (simp add: bt_ok_def strict_sorted_iff)

lemma bt_get_Some_iff: "bt_ok m \<Longrightarrow> bt_get m k = Some v \<longleftrightarrow> (k, v) \<in> set m"
  by (simp add: bt_get_def bt_ok_distinct)

lemma bt_get_in_set: "bt_get m k = Some v \<Longrightarrow> (k, v) \<in> set m"
  by (simp add: bt_get_def map_of_SomeD)

lemma bt_contains_keys: "bt_contains m k \<longleftrightarrow> k \<in> fst ` set m"
  by (simp add: bt_contains_def bt_get_def map_of_eq_None_iff)

lemma bt_get_insert: "bt_ok m \<Longrightarrow> bt_get (bt_insert k v m) k' = (if k' = k then Some v else bt_get m k')"
proof (induction k v m rule: bt_insert.induct)
  case (2 k v k1 v1 m)
  then have "bt_get m k = None" if "k < k1"
    using that by (auto simp: bt_ok_Cons bt_get_def map_of_eq_None_iff)
  with 2 show ?case by (auto simp: bt_get_def bt_ok_Cons)
qed (simp add: bt_get_def)

lemma keys_bt_insert [simp]: "fst ` set (bt_insert k v m) = insert k (fst ` set m)"
  by (induction k v m rule: bt_insert.induct) auto

lemma bt_ok_insert: "bt_ok m \<Longrightarrow> bt_ok (bt_insert k v m)"
  by (induction k v m rule: bt_insert.induct) (auto simp: bt_ok_Cons dest: order.strict_trans)

lemma bt_get_retain:
  assumes "bt_ok m"
  shows "bt_get (bt_retain P m) k =
    (case bt_get m k of Some v \<Rightarrow> if P k v then Some v else None | None \<Rightarrow> None)"
  using assms
proof (induction m)
  case Nil
  then show ?case by (simp add: bt_retain_def)
next
  case (Cons a m)
  obtain k1 v1 where a: "a = (k1, v1)" by (cases a)
  have "bt_get m k1 = None" "bt_get (bt_retain P m) k1 = None"
    using Cons.prems by (auto simp: a bt_ok_Cons bt_get_def bt_retain_def map_of_eq_None_iff)
  with Cons show ?case by (auto simp: a bt_get_def bt_retain_def bt_ok_Cons)
qed

lemma bt_ok_retain: "bt_ok m \<Longrightarrow> bt_ok (bt_retain P m)"
  by (induction m) (auto simp: bt_ok_Cons bt_retain_def)

lemma bt_remove_retain: "bt_remove k m = bt_retain (\<lambda>k' _. k' \<noteq> k) m"
  by (simp add: bt_remove_def bt_retain_def)

lemma bt_get_remove: "bt_ok m \<Longrightarrow> bt_get (bt_remove k m) k' = (if k' = k then None else bt_get m k')"
  by (simp add: bt_remove_retain bt_get_retain split: option.splits)

lemma bt_ok_remove: "bt_ok m \<Longrightarrow> bt_ok (bt_remove k m)"
  by (simp add: bt_remove_retain bt_ok_retain)

lemma keys_bt_map [simp]: "map fst (bt_map f m) = map fst m"
  by (auto simp: bt_map_def)

lemma keys_bt_adjust [simp]: "map fst (bt_adjust k f m) = map fst m"
  by (auto simp: bt_adjust_def)

lemma bt_ok_map [simp]: "bt_ok (bt_map f m) = bt_ok m"
  by (simp add: bt_ok_def)

lemma bt_ok_adjust [simp]: "bt_ok (bt_adjust k f m) = bt_ok m"
  by (simp add: bt_ok_def)

lemma bt_get_map [simp]: "bt_get (bt_map f m) k = map_option f (bt_get m k)"
  by (induction m) (auto simp: bt_map_def bt_get_def)

lemma bt_get_adjust:
  "bt_get (bt_adjust k f m) k' = (if k' = k then map_option f (bt_get m k') else bt_get m k')"
  by (induction m) (auto simp: bt_adjust_def bt_get_def)

lemma bt_contains_map [simp]: "bt_contains (bt_map f m) k = bt_contains m k"
  by (simp add: bt_contains_def)

lemma bt_contains_adjust [simp]: "bt_contains (bt_adjust k' f m) k = bt_contains m k"
  by (simp add: bt_contains_def bt_get_adjust)

lemma bt_contains_same_keys: "map fst m = map fst m' \<Longrightarrow> bt_contains m k = bt_contains m' k"
  unfolding bt_contains_keys by (metis list.set_map)

lemma bt_values_mem: "bt_ok m \<Longrightarrow> v \<in> set (bt_values m) \<longleftrightarrow> (\<exists>k. bt_get m k = Some v)"
  by (force simp: bt_values_def bt_get_Some_iff)

lemma bt_keys_mem: "k \<in> set (bt_keys m) \<longleftrightarrow> bt_contains m k"
  by (simp add: bt_keys_def bt_contains_keys)

lemma distinct_bt_keys: "bt_ok m \<Longrightarrow> distinct (bt_keys m)"
  by (simp add: bt_keys_def bt_ok_distinct)

section \<open>The interface\<close>

locale key_store =
  fixes none :: "'m" and put :: "'k \<Rightarrow> 'v \<Rightarrow> 'm \<Rightarrow> 'm" and drop_key :: "'k \<Rightarrow> 'm \<Rightarrow> 'm"
    and look :: "'m \<Rightarrow> 'k \<Rightarrow> 'v option" and ok :: "'m \<Rightarrow> bool"
  assumes ok_none: "ok none"
    and look_none: "look none k = None"
    and ok_put: "ok m \<Longrightarrow> ok (put k v m)"
    and look_put: "ok m \<Longrightarrow> look (put k v m) k' = (if k' = k then Some v else look m k')"
    and ok_drop: "ok m \<Longrightarrow> ok (drop_key k m)"
    and look_drop: "ok m \<Longrightarrow> look (drop_key k m) k' = (if k' = k then None else look m k')"
begin

lemma dom_put: "ok m \<Longrightarrow> dom (look (put k v m)) = insert k (dom (look m))"
  by (auto simp: dom_def look_put)

lemma dom_drop: "ok m \<Longrightarrow> dom (look (drop_key k m)) = dom (look m) - {k}"
  by (auto simp: dom_def look_drop)

lemma ok_put_all: "ok m \<Longrightarrow> ok (fold (\<lambda>(k, v). put k v) kvs m)"
  by (induction kvs arbitrary: m) (auto simp: ok_put)

lemma dom_put_all:
  "ok m \<Longrightarrow> dom (look (fold (\<lambda>(k, v). put k v) kvs m)) = fst ` set kvs \<union> dom (look m)"
proof (induction kvs arbitrary: m)
  case (Cons kv kvs)
  obtain k v where "kv = (k, v)" by (cases kv)
  with Cons.IH [of "put k v m"] Cons.prems show ?case by (simp add: ok_put dom_put)
qed simp

lemma put_keeps: "ok m \<Longrightarrow> look m k' = Some w \<Longrightarrow> look m k = None \<Longrightarrow> look (put k v m) k' = Some w"
  by (auto simp: look_put)

end

interpretation btree: key_store "[]" bt_insert bt_remove bt_get bt_ok
  by unfold_locales (simp_all add: bt_ok_insert bt_get_insert bt_ok_remove bt_get_remove)

lemma dom_bt_get: "dom (bt_get m) = fst ` set m"
  by (simp add: bt_get_def [abs_def] dom_map_of_conv_image_fst)

lemma bt_contains_insert: "bt_ok m \<Longrightarrow> bt_contains (bt_insert k v m) k' \<longleftrightarrow> k' = k \<or> bt_contains m k'"
  by (simp add: bt_contains_def bt_get_insert)

lemma bt_contains_remove: "bt_ok m \<Longrightarrow> bt_contains (bt_remove k m) k' \<longleftrightarrow> k' \<noteq> k \<and> bt_contains m k'"
  by (simp add: bt_contains_def bt_get_remove)

lemmas btree_simps = bt_get_insert bt_get_remove bt_get_adjust bt_get_retain
  bt_ok_insert bt_ok_remove bt_ok_retain bt_contains_insert bt_contains_remove

end
