(* ===== verification/Mesh_Graph.thy ===== *)
theory Mesh_Graph
  imports Rust_Map
begin

text \<open>
  \<^verbatim>\<open>tinc-core/src/graph.rs\<close>: the mesh of nodes and directed edges each daemon keeps, with
  the operations that change it and the three passes that recompute routes.  An edge counts
  only when its reverse is present.  The node identifier is the head of a SHA-512 digest, which
  is the parameter \<open>H\<close>.  Signed 32-bit sums of distances and weights wrap as in a release
  build.
\<close>

section \<open>Data\<close>

definition OPTION_INDIRECT :: u32 where "OPTION_INDIRECT = 0x0001"
definition OPTION_TCPONLY :: u32 where "OPTION_TCPONLY = 0x0002"
definition OPTION_PMTU_DISCOVERY :: u32 where "OPTION_PMTU_DISCOVERY = 0x0004"
definition OPTION_CLAMP_MSS :: u32 where "OPTION_CLAMP_MSS = 0x0008"
definition MIN_MTU :: nat where "MIN_MTU = 512"
definition DEFAULT_MTU :: nat where "DEFAULT_MTU = 1518"
definition NODE_ID_LEN :: nat where "NODE_ID_LEN = 6"

definition option_version :: "u32 \<Rightarrow> byte" where
  "option_version options = ucast (drop_bit 24 options)"

type_synonym node_id = "byte list"

definition NODE_ID_NULL :: node_id where "NODE_ID_NULL = replicate NODE_ID_LEN 0"

definition id_from_name :: "(string \<Rightarrow> byte list) \<Rightarrow> string \<Rightarrow> node_id" where
  "id_from_name H name = take NODE_ID_LEN (H name)"

record edge_endpoint =
  ep_address :: string
  ep_port :: string

datatype edge_key = EdgeKey (ek_from: string) (ek_to: string)

instantiation edge_key :: linorder
begin

definition less_eq_edge_key :: "edge_key \<Rightarrow> edge_key \<Rightarrow> bool" where
  "less_eq_edge_key a b \<longleftrightarrow> ek_from a < ek_from b \<or> ek_from a = ek_from b \<and> ek_to a \<le> ek_to b"

definition less_edge_key :: "edge_key \<Rightarrow> edge_key \<Rightarrow> bool" where
  "less_edge_key a b \<longleftrightarrow> ek_from a < ek_from b \<or> ek_from a = ek_from b \<and> ek_to a < ek_to b"

instance
  by standard (auto simp: less_eq_edge_key_def less_edge_key_def edge_key.expand)

end

definition key_reverse :: "edge_key \<Rightarrow> edge_key" where
  "key_reverse k = EdgeKey (ek_to k) (ek_from k)"

record node_status =
  st_valid_key :: bool
  st_waiting_for_key :: bool
  st_visited :: bool
  st_reachable :: bool
  st_indirect :: bool
  st_sptps :: bool
  st_udp_confirmed :: bool
  st_send_locally :: bool
  st_udp_packet :: bool
  st_valid_key_in :: bool
  st_has_address :: bool
  st_ping_sent :: bool

definition status_default :: node_status where
  "status_default = \<lparr>st_valid_key = False, st_waiting_for_key = False, st_visited = False,
     st_reachable = False, st_indirect = False, st_sptps = False, st_udp_confirmed = False,
     st_send_locally = False, st_udp_packet = False, st_valid_key_in = False,
     st_has_address = False, st_ping_sent = False\<rparr>"

record route_state =
  rt_distance :: "int option"
  rt_weighted :: "int option"
  rt_next_hop :: "string option"
  rt_previous_edge :: "edge_key option"
  rt_via :: "string option"

definition route_default :: route_state where
  "route_default = \<lparr>rt_distance = None, rt_weighted = None, rt_next_hop = None,
     rt_previous_edge = None, rt_via = None\<rparr>"

record node =
  n_name :: string
  n_id :: node_id
  n_status :: node_status
  n_last_state_change :: int
  n_route :: route_state
  n_options :: u32
  n_mtu :: nat
  n_min_mtu :: nat
  n_max_mtu :: nat
  n_mtu_probes :: int
  n_udp_address :: "edge_endpoint option"

definition node_new :: "(string \<Rightarrow> byte list) \<Rightarrow> string \<Rightarrow> node" where
  "node_new H name =
     \<lparr>n_name = name, n_id = id_from_name H name, n_status = status_default, n_last_state_change = 0,
      n_route = route_default, n_options = 0, n_mtu = DEFAULT_MTU, n_min_mtu = 0,
      n_max_mtu = DEFAULT_MTU, n_mtu_probes = 0, n_udp_address = None\<rparr>"

definition set_reachable :: "bool \<Rightarrow> node \<Rightarrow> node" where
  "set_reachable r n = n\<lparr>n_status := (n_status n)\<lparr>st_reachable := r\<rparr>\<rparr>"

definition with_mtu :: "nat \<Rightarrow> node \<Rightarrow> node" where
  "with_mtu m n = n\<lparr>n_mtu := m, n_min_mtu := m, n_max_mtu := m\<rparr>"

record edge =
  e_from :: string
  e_to :: string
  e_address :: "edge_endpoint option"
  e_local_address :: "edge_endpoint option"
  e_options :: u32
  e_weight :: int

definition edge_new :: "string \<Rightarrow> string \<Rightarrow> int \<Rightarrow> edge" where
  "edge_new f t w = \<lparr>e_from = f, e_to = t, e_address = None, e_local_address = None,
     e_options = 0, e_weight = w\<rparr>"

definition edge_key_of :: "edge \<Rightarrow> edge_key" where
  "edge_key_of e = EdgeKey (e_from e) (e_to e)"

datatype graph_error = DuplicateNode string | MissingNode string | DuplicateEdge edge_key

datatype edge_mutation = Inserted | Updated | Unchanged

record reachability_changes =
  became_reachable :: "string list"
  became_unreachable :: "string list"

record graph =
  g_myself :: string
  g_nodes :: "(string, node) btree"
  g_edges :: "(edge_key, edge) btree"
  g_mst :: "(edge_key, unit) btree"

section \<open>Operations\<close>

definition graph_new :: "(string \<Rightarrow> byte list) \<Rightarrow> string \<Rightarrow> graph" where
  "graph_new H name = \<lparr>g_myself = name, g_nodes = bt_insert name (node_new H name) [],
     g_edges = [], g_mst = []\<rparr>"

definition mst_neighbors :: "graph \<Rightarrow> string \<Rightarrow> string list" where
  "mst_neighbors g name = map ek_to (filter (\<lambda>k. ek_from k = name) (bt_keys (g_mst g)))"

definition graph_node :: "graph \<Rightarrow> string \<Rightarrow> node option" where
  "graph_node g name = bt_get (g_nodes g) name"

definition node_by_id :: "graph \<Rightarrow> node_id \<Rightarrow> node option" where
  "node_by_id g i = find (\<lambda>n. n_id n = i) (bt_values (g_nodes g))"

definition graph_edge :: "graph \<Rightarrow> string \<Rightarrow> string \<Rightarrow> edge option" where
  "graph_edge g f t = bt_get (g_edges g) (EdgeKey f t)"

text \<open>\<^verbatim>\<open>node_mut\<close>: an update of one node in place.\<close>

definition node_mut :: "string \<Rightarrow> (node \<Rightarrow> node) \<Rightarrow> graph \<Rightarrow> graph" where
  "node_mut name f g = g\<lparr>g_nodes := bt_adjust name f (g_nodes g)\<rparr>"

definition add_node :: "node \<Rightarrow> graph \<Rightarrow> graph_error + graph" where
  "add_node n g =
     (if bt_contains (g_nodes g) (n_name n) then Inl (DuplicateNode (n_name n))
      else Inr (g\<lparr>g_nodes := bt_insert (n_name n) n (g_nodes g)\<rparr>))"

definition add_reachable_node :: "(string \<Rightarrow> byte list) \<Rightarrow> string \<Rightarrow> graph \<Rightarrow> graph_error + graph" where
  "add_reachable_node H name g = add_node (set_reachable True (node_new H name)) g"

definition ensure_node :: "(string \<Rightarrow> byte list) \<Rightarrow> string \<Rightarrow> graph \<Rightarrow> bool \<times> graph" where
  "ensure_node H name g =
     (if bt_contains (g_nodes g) name then (False, g)
      else (True, g\<lparr>g_nodes := bt_insert name (node_new H name) (g_nodes g)\<rparr>))"

definition add_edge :: "edge \<Rightarrow> graph \<Rightarrow> graph_error + graph" where
  "add_edge e g =
     (if \<not> bt_contains (g_nodes g) (e_from e) then Inl (MissingNode (e_from e))
      else if \<not> bt_contains (g_nodes g) (e_to e) then Inl (MissingNode (e_to e))
      else let key = edge_key_of e
           in if bt_contains (g_edges g) key then Inl (DuplicateEdge key)
              else Inr (g\<lparr>g_edges := bt_insert key e (g_edges g)\<rparr>))"

definition upsert_edge :: "edge \<Rightarrow> graph \<Rightarrow> graph_error + (edge_mutation \<times> graph)" where
  "upsert_edge e g =
     (if \<not> bt_contains (g_nodes g) (e_from e) then Inl (MissingNode (e_from e))
      else if \<not> bt_contains (g_nodes g) (e_to e) then Inl (MissingNode (e_to e))
      else let key = edge_key_of e
           in case bt_get (g_edges g) key of
                Some existing \<Rightarrow>
                  if existing = e then Inr (Unchanged, g)
                  else Inr (Updated, g\<lparr>g_edges := bt_adjust key (\<lambda>_. e) (g_edges g)\<rparr>)
              | None \<Rightarrow> Inr (Inserted, g\<lparr>g_edges := bt_insert key e (g_edges g)\<rparr>))"

definition remove_edge :: "string \<Rightarrow> string \<Rightarrow> graph \<Rightarrow> edge option \<times> graph" where
  "remove_edge f t g =
     (let key = EdgeKey f t
      in (bt_get (g_edges g) key,
          g\<lparr>g_mst := bt_remove key (g_mst g), g_edges := bt_remove key (g_edges g)\<rparr>))"

text \<open>The edges leave the map in the order of their keys.\<close>

definition remove_edges_from :: "string \<Rightarrow> graph \<Rightarrow> edge list \<times> graph" where
  "remove_edges_from f g =
     (let keys = filter (\<lambda>k. ek_from k = f) (bt_keys (g_edges g));
          mst = fold bt_remove keys (g_mst g)
      in case fold (\<lambda>k (removed, es).
             ((case bt_get es k of Some e \<Rightarrow> removed @ [e] | None \<Rightarrow> removed), bt_remove k es))
           keys ([], g_edges g) of
         (removed, es) \<Rightarrow> (removed, g\<lparr>g_mst := mst, g_edges := es\<rparr>))"

definition has_edge_to :: "graph \<Rightarrow> string \<Rightarrow> bool" where
  "has_edge_to g t \<longleftrightarrow> (\<exists>k \<in> set (bt_keys (g_edges g)). ek_to k = t)"

definition remove_node :: "string \<Rightarrow> graph \<Rightarrow> node option \<times> graph" where
  "remove_node name g =
     (if name = g_myself g then (None, g)
      else (bt_get (g_nodes g) name,
            g\<lparr>g_edges := bt_retain (\<lambda>k _. ek_from k \<noteq> name \<and> ek_to k \<noteq> name) (g_edges g),
              g_mst := bt_retain (\<lambda>k _. ek_from k \<noteq> name \<and> ek_to k \<noteq> name) (g_mst g),
              g_nodes := bt_remove name (g_nodes g)\<rparr>))"

text \<open>When the second edge is refused the first one stays.\<close>

definition connect_bidirectional ::
  "string \<Rightarrow> string \<Rightarrow> int \<Rightarrow> u32 \<Rightarrow> u32 \<Rightarrow> graph \<Rightarrow> (graph_error + unit) \<times> graph" where
  "connect_bidirectional a b w ab_options ba_options g =
     (case add_edge ((edge_new a b w)\<lparr>e_options := ab_options\<rparr>) g of
        Inl err \<Rightarrow> (Inl err, g)
      | Inr g1 \<Rightarrow>
          (case add_edge ((edge_new b a w)\<lparr>e_options := ba_options\<rparr>) g1 of
             Inl err \<Rightarrow> (Inl err, g1)
           | Inr g2 \<Rightarrow> (Inr (), g2)))"

definition has_reverse_edge :: "graph \<Rightarrow> edge \<Rightarrow> bool" where
  "has_reverse_edge g e = bt_contains (g_edges g) (key_reverse (edge_key_of e))"

definition outgoing_edges :: "graph \<Rightarrow> string \<Rightarrow> edge list" where
  "outgoing_edges g f = filter (\<lambda>e. e_from e = f) (bt_values (g_edges g))"

section \<open>Shortest paths\<close>

record route_source =
  rs_indirect :: bool
  rs_distance :: int
  rs_weighted :: int
  rs_next_hop :: string
  rs_via :: string

definition route_source_state :: "graph \<Rightarrow> string \<Rightarrow> route_source option" where
  "route_source_state g name =
     (case graph_node g name of
        None \<Rightarrow> None
      | Some n \<Rightarrow>
          (let r = n_route n
           in case (rt_distance r, rt_weighted r, rt_next_hop r, rt_via r) of
                (Some d, Some w, Some h, Some v) \<Rightarrow>
                  Some \<lparr>rs_indirect = st_indirect (n_status n), rs_distance = d, rs_weighted = w,
                    rs_next_hop = h, rs_via = v\<rparr>
              | _ \<Rightarrow> None))"

definition should_keep_existing_route :: "node \<Rightarrow> bool \<Rightarrow> int \<Rightarrow> int \<Rightarrow> bool" where
  "should_keep_existing_route n indirect new_distance new_weighted \<longleftrightarrow>
     st_visited (n_status n)
     \<and> (\<not> st_indirect (n_status n) \<or> indirect)
     \<and> (rt_distance (n_route n) \<noteq> Some new_distance
        \<or> (case rt_weighted (n_route n) of Some current \<Rightarrow> current \<le> new_weighted | None \<Rightarrow> False))"

text \<open>The node written by one relaxation, given the node it replaces.\<close>

definition relaxed_node ::
  "string \<Rightarrow> route_source \<Rightarrow> edge \<Rightarrow> bool \<Rightarrow> int \<Rightarrow> int \<Rightarrow> node \<Rightarrow> node" where
  "relaxed_node myself src e indirect new_distance new_weighted n =
     (let update_next_hop = (\<not> st_visited (n_status n)
            \<or> (rt_distance (n_route n) = Some new_distance
               \<and> (case rt_weighted (n_route n) of Some current \<Rightarrow> new_weighted < current
                  | None \<Rightarrow> False)));
          next_hop = (if update_next_hop
            then Some (if rs_next_hop src = myself then e_to e else rs_next_hop src)
            else rt_next_hop (n_route n));
          weighted_distance = (if update_next_hop then Some new_weighted else rt_weighted (n_route n));
          via = (if indirect then Some (rs_via src) else Some (e_to e))
      in n\<lparr>n_status := (n_status n)\<lparr>st_visited := True, st_indirect := indirect\<rparr>,
           n_route := \<lparr>rt_distance = Some new_distance, rt_weighted = weighted_distance,
             rt_next_hop = next_hop, rt_previous_edge = Some (edge_key_of e), rt_via = via\<rparr>,
           n_options := e_options e\<rparr>)"

text \<open>The body of the loop over the outgoing edges: the graph and the queue it leaves.\<close>

definition sssp_edge :: "route_source \<Rightarrow> edge \<Rightarrow> graph \<times> string list \<Rightarrow> graph \<times> string list" where
  "sssp_edge src e gq =
     (case gq of (g, queue) \<Rightarrow>
        if e_to e = g_myself g \<or> \<not> has_reverse_edge g e then (g, queue)
        else
          (let new_distance = i32_wrap (rs_distance src + 1);
               new_weighted = i32_wrap (rs_weighted src + e_weight e);
               indirect = (rs_indirect src \<or> e_options e AND OPTION_INDIRECT \<noteq> 0)
           in case graph_node g (e_to e) of
                None \<Rightarrow> (g, queue)
              | Some to_node \<Rightarrow>
                  if should_keep_existing_route to_node indirect new_distance new_weighted
                  then (g, queue)
                  else (node_mut (e_to e)
                          (relaxed_node (g_myself g) src e indirect new_distance new_weighted) g,
                        queue @ [e_to e])))"

partial_function (option) sssp_loop :: "graph \<Rightarrow> string list \<Rightarrow> graph option" where
  "sssp_loop g queue =
     (case queue of
        [] \<Rightarrow> Some g
      | name # rest \<Rightarrow>
          (case route_source_state g name of
             None \<Rightarrow> sssp_loop g rest
           | Some src \<Rightarrow>
               (let gq = fold (sssp_edge src) (outgoing_edges g name) (g, rest)
                in sssp_loop (fst gq) (snd gq))))"

declare sssp_loop.simps [code]

definition sssp_reset_node :: "node \<Rightarrow> node" where
  "sssp_reset_node n =
     n\<lparr>n_status := (n_status n)\<lparr>st_visited := False, st_indirect := True\<rparr>,
       n_route := route_default\<rparr>"

definition sssp_root_node :: "string \<Rightarrow> node \<Rightarrow> node" where
  "sssp_root_node myself n =
     n\<lparr>n_status := (n_status n)\<lparr>st_visited := True, st_indirect := False\<rparr>,
       n_route := (n_route n)\<lparr>rt_next_hop := Some myself, rt_via := Some myself,
         rt_distance := Some 0, rt_weighted := Some 0\<rparr>\<rparr>"

definition sssp_init :: "graph \<Rightarrow> graph" where
  "sssp_init g =
     node_mut (g_myself g) (sssp_root_node (g_myself g))
       (g\<lparr>g_nodes := bt_map sssp_reset_node (g_nodes g)\<rparr>)"

text \<open>\<open>None\<close> would be a search that does not end; \<open>sssp_bfs_reaches\<close> rules it out.\<close>

definition sssp_bfs :: "graph \<Rightarrow> graph option" where
  "sssp_bfs g =
     (if bt_contains (g_nodes g) (g_myself g) then sssp_loop (sssp_init g) [g_myself g]
      else Some (g\<lparr>g_nodes := bt_map sssp_reset_node (g_nodes g)\<rparr>))"

section \<open>Reachability changes\<close>

definition reconcile_node :: "bool \<Rightarrow> int \<Rightarrow> node \<Rightarrow> node" where
  "reconcile_node experimental now n =
     (if st_visited (n_status n) = st_reachable (n_status n) then n
      else
        (let n = n\<lparr>n_status := (n_status n)\<lparr>st_reachable := st_visited (n_status n)\<rparr>,
               n_last_state_change := now\<rparr>;
             n = (if experimental \<and> 2 \<le> option_version (n_options n)
                  then n\<lparr>n_status := (n_status n)\<lparr>st_sptps := True\<rparr>\<rparr> else n);
             n = n\<lparr>n_status := (n_status n)\<lparr>st_valid_key := False\<rparr>\<rparr>;
             n = (if st_sptps (n_status n)
                  then n\<lparr>n_status := (n_status n)\<lparr>st_waiting_for_key := False\<rparr>\<rparr> else n);
             n = n\<lparr>n_status := (n_status n)\<lparr>st_udp_confirmed := False\<rparr>\<rparr>
         in if \<not> st_reachable (n_status n)
            then n\<lparr>n_status := status_default, n_options := 0, n_udp_address := None\<rparr>
            else n))"

definition node_change :: "node \<Rightarrow> reachability_changes \<Rightarrow> reachability_changes" where
  "node_change n c =
     (if st_visited (n_status n) = st_reachable (n_status n) then c
      else if st_visited (n_status n) then c\<lparr>became_reachable := became_reachable c @ [n_name n]\<rparr>
      else c\<lparr>became_unreachable := became_unreachable c @ [n_name n]\<rparr>)"

definition reconcile_reachability_at :: "bool \<Rightarrow> int \<Rightarrow> graph \<Rightarrow> reachability_changes \<times> graph" where
  "reconcile_reachability_at experimental now g =
     (fold node_change (bt_values (g_nodes g)) \<lparr>became_reachable = [], became_unreachable = []\<rparr>,
      g\<lparr>g_nodes := bt_map (reconcile_node experimental now) (g_nodes g)\<rparr>)"

section \<open>Minimum spanning tree\<close>

definition compare_weight :: "edge \<Rightarrow> edge \<Rightarrow> ordering" where
  "compare_weight l r =
     then_with (cmp (e_weight l) (e_weight r))
       (then_with (cmp (e_from l) (e_from r)) (cmp (e_to l) (e_to r)))"

definition weight_sorted_edges :: "graph \<Rightarrow> edge list" where
  "weight_sorted_edges g = sort_by compare_weight (bt_values (g_edges g))"

definition both_visited :: "string set \<Rightarrow> edge \<Rightarrow> bool" where
  "both_visited visited e \<longleftrightarrow> e_from e \<in> visited \<and> e_to e \<in> visited"

text \<open>Edges not yet inside the tree: their number bounds the restarts of the sweep.\<close>

definition open_edges :: "string set \<Rightarrow> edge list \<Rightarrow> nat" where
  "open_edges visited edges = length (filter (\<lambda>e. \<not> both_visited visited e) edges)"

lemma length_filter_less:
  "x \<in> set xs \<Longrightarrow> Q x \<Longrightarrow> \<not> P x \<Longrightarrow> (\<And>y. P y \<Longrightarrow> Q y)
    \<Longrightarrow> length (filter P xs) < length (filter Q xs)"
proof (induction xs)
  case (Cons a xs)
  have "length (filter P ys) \<le> length (filter Q ys)" for ys
    using Cons.prems(4) by (induction ys) auto
  from this [of xs] Cons show ?case by (auto simp: less_Suc_eq_le)
qed simp

lemma open_edges_accept:
  "e \<in> set edges \<Longrightarrow> (e_from e \<in> V) \<noteq> (e_to e \<in> V)
    \<Longrightarrow> open_edges (insert (e_to e) (insert (e_from e) V)) edges < open_edges V edges"
  unfolding open_edges_def by (rule length_filter_less) (auto simp: both_visited_def)

function kruskal_loop ::
  "graph \<Rightarrow> edge list \<Rightarrow> nat \<Rightarrow> bool \<Rightarrow> string set \<Rightarrow> (edge_key, unit) btree \<Rightarrow> (edge_key, unit) btree" where
  "kruskal_loop g edges index skipped visited mst =
     (if index < length edges then
        (let e = edges ! index;
             from_visited = (e_from e \<in> visited);
             to_visited = (e_to e \<in> visited)
         in if \<not> has_reverse_edge g e \<or> from_visited = to_visited
            then kruskal_loop g edges (index + 1) True visited mst
            else
              (let visited = insert (e_to e) (insert (e_from e) visited);
                   mst = bt_insert (key_reverse (edge_key_of e)) () (bt_insert (edge_key_of e) () mst)
               in if skipped then kruskal_loop g edges 0 False visited mst
                  else kruskal_loop g edges (index + 1) skipped visited mst))
      else mst)"
  by pat_completeness auto
termination
proof (relation "(\<lambda>(g, edges, index, skipped, visited, mst). open_edges visited edges)
    <*mlex*> measure (\<lambda>(g, edges, index, skipped, visited, mst). length edges - index)")
  show "wf ((\<lambda>(g, edges, index, skipped, visited, mst). open_edges visited edges)
    <*mlex*> measure (\<lambda>(g, edges, index, skipped, visited, mst). length edges - index))"
    by (rule wf_mlex) simp
qed (auto simp: mlex_iff intro: open_edges_accept)

declare kruskal_loop.simps [simp del]

definition mst_kruskal :: "graph \<Rightarrow> graph" where
  "mst_kruskal g =
     (let edges = weight_sorted_edges g
      in case find (\<lambda>e. case graph_node g (e_from e) of
                          Some n \<Rightarrow> st_reachable (n_status n) | None \<Rightarrow> False) edges of
           None \<Rightarrow> g\<lparr>g_mst := []\<rparr>
         | Some start \<Rightarrow> g\<lparr>g_mst := kruskal_loop g edges 0 False {e_from start} []\<rparr>)"

end
