(* ===== verification/Protocol.thy ===== *)
theory Protocol
  imports Utils Subnet Mesh_Graph
begin

text \<open>
  \<^verbatim>\<open>tinc-core/src/protocol.rs\<close>: the meta protocol's requests, the messages they carry,
  the line format (one line of white-space separated fields that starts with the request
  number), the parsers with their errors, and the cache of past requests that stops flooding.
\<close>

section \<open>Requests\<close>

datatype request =
    ReqId | ReqMetaKey | ReqChallenge | ReqChallengeReply | ReqAck | ReqStatus | ReqError
  | ReqTerminateRequest | ReqPing | ReqPong | ReqAddSubnet | ReqDeleteSubnet | ReqAddEdge
  | ReqDeleteEdge | ReqKeyChanged | ReqRequestKey | ReqAnswerKey | ReqPacket | ReqControl
  | ReqRequestPublicKey | ReqAnswerPublicKey | ReqSptpsPacket | ReqUdpInfo | ReqMtuInfo

definition LAST_GUARDIAN :: int where "LAST_GUARDIAN = 24"

fun request_number :: "request \<Rightarrow> int" where
  "request_number ReqId = 0"
| "request_number ReqMetaKey = 1"
| "request_number ReqChallenge = 2"
| "request_number ReqChallengeReply = 3"
| "request_number ReqAck = 4"
| "request_number ReqStatus = 5"
| "request_number ReqError = 6"
| "request_number ReqTerminateRequest = 7"
| "request_number ReqPing = 8"
| "request_number ReqPong = 9"
| "request_number ReqAddSubnet = 10"
| "request_number ReqDeleteSubnet = 11"
| "request_number ReqAddEdge = 12"
| "request_number ReqDeleteEdge = 13"
| "request_number ReqKeyChanged = 14"
| "request_number ReqRequestKey = 15"
| "request_number ReqAnswerKey = 16"
| "request_number ReqPacket = 17"
| "request_number ReqControl = 18"
| "request_number ReqRequestPublicKey = 19"
| "request_number ReqAnswerPublicKey = 20"
| "request_number ReqSptpsPacket = 21"
| "request_number ReqUdpInfo = 22"
| "request_number ReqMtuInfo = 23"

fun request_name :: "request \<Rightarrow> string" where
  "request_name ReqId = ''ID''"
| "request_name ReqMetaKey = ''METAKEY''"
| "request_name ReqChallenge = ''CHALLENGE''"
| "request_name ReqChallengeReply = ''CHAL_REPLY''"
| "request_name ReqAck = ''ACK''"
| "request_name ReqStatus = ''STATUS''"
| "request_name ReqError = ''ERROR''"
| "request_name ReqTerminateRequest = ''TERMREQ''"
| "request_name ReqPing = ''PING''"
| "request_name ReqPong = ''PONG''"
| "request_name ReqAddSubnet = ''ADD_SUBNET''"
| "request_name ReqDeleteSubnet = ''DEL_SUBNET''"
| "request_name ReqAddEdge = ''ADD_EDGE''"
| "request_name ReqDeleteEdge = ''DEL_EDGE''"
| "request_name ReqKeyChanged = ''KEY_CHANGED''"
| "request_name ReqRequestKey = ''REQ_KEY''"
| "request_name ReqAnswerKey = ''ANS_KEY''"
| "request_name ReqPacket = ''PACKET''"
| "request_name ReqControl = ''CONTROL''"
| "request_name ReqRequestPublicKey = ''REQ_PUBKEY''"
| "request_name ReqAnswerPublicKey = ''ANS_PUBKEY''"
| "request_name ReqSptpsPacket = ''SPTPS_PACKET''"
| "request_name ReqUdpInfo = ''UDP_INFO''"
| "request_name ReqMtuInfo = ''MTU_INFO''"

definition has_handler :: "request \<Rightarrow> bool" where
  "has_handler r \<longleftrightarrow> r \<noteq> ReqStatus \<and> r \<noteq> ReqError \<and> r \<noteq> ReqRequestPublicKey \<and> r \<noteq> ReqAnswerPublicKey"

record request_entry =
  re_request :: request
  re_name :: string
  re_has_handler :: bool

definition entry :: "request \<Rightarrow> request_entry" where
  "entry r = \<lparr>re_request = r, re_name = request_name r, re_has_handler = has_handler r\<rparr>"

definition request_from_number :: "int \<Rightarrow> request option" where
  "request_from_number n =
     (if n = 0 then Some ReqId
      else if n = 1 then Some ReqMetaKey
      else if n = 2 then Some ReqChallenge
      else if n = 3 then Some ReqChallengeReply
      else if n = 4 then Some ReqAck
      else if n = 5 then Some ReqStatus
      else if n = 6 then Some ReqError
      else if n = 7 then Some ReqTerminateRequest
      else if n = 8 then Some ReqPing
      else if n = 9 then Some ReqPong
      else if n = 10 then Some ReqAddSubnet
      else if n = 11 then Some ReqDeleteSubnet
      else if n = 12 then Some ReqAddEdge
      else if n = 13 then Some ReqDeleteEdge
      else if n = 14 then Some ReqKeyChanged
      else if n = 15 then Some ReqRequestKey
      else if n = 16 then Some ReqAnswerKey
      else if n = 17 then Some ReqPacket
      else if n = 18 then Some ReqControl
      else if n = 19 then Some ReqRequestPublicKey
      else if n = 20 then Some ReqAnswerPublicKey
      else if n = 21 then Some ReqSptpsPacket
      else if n = 22 then Some ReqUdpInfo
      else if n = 23 then Some ReqMtuInfo
      else None)"

definition REQUESTS :: "request_entry list" where
  "REQUESTS = map entry
     [ReqId, ReqMetaKey, ReqChallenge, ReqChallengeReply, ReqAck, ReqStatus, ReqError,
      ReqTerminateRequest, ReqPing, ReqPong, ReqAddSubnet, ReqDeleteSubnet, ReqAddEdge,
      ReqDeleteEdge, ReqKeyChanged, ReqRequestKey, ReqAnswerKey, ReqPacket, ReqControl,
      ReqRequestPublicKey, ReqAnswerPublicKey, ReqSptpsPacket, ReqUdpInfo, ReqMtuInfo]"

definition get_request_entry :: "int \<Rightarrow> request_entry option" where
  "get_request_entry n = map_option entry (request_from_number n)"

section \<open>Messages\<close>

record id_message =
  id_name :: string
  id_protocol_major :: int
  id_protocol_minor :: "int option"

record metakey_message =
  mk_cipher :: int
  mk_digest :: int
  mk_mac_length :: int
  mk_compression :: int
  mk_key :: string

datatype ack_message =
    AckConnection string int u32
  | AckPayload string
  | AckControl int int

record subnet_message =
  sm_nonce :: u32
  sm_owner :: string
  sm_subnet :: subnet

record edge_address =
  ea_address :: string
  ea_port :: string

record add_edge_message =
  ae_nonce :: u32
  ae_edge :: edge
  ae_address :: string
  ae_port :: string
  ae_local :: "edge_address option"

record delete_edge_message =
  de_nonce :: u32
  de_from :: string
  de_to :: string

record key_changed_message =
  kc_nonce :: u32
  kc_origin :: string

record request_key_extension =
  rx_request :: int
  rx_payload :: "string option"

record request_key_message =
  rk_from :: string
  rk_to :: string
  rk_extension :: "request_key_extension option"

record answer_key_message =
  ak_from :: string
  ak_to :: string
  ak_key :: string
  ak_cipher :: int
  ak_digest :: int
  ak_mac_length :: nat
  ak_compression :: int
  ak_address :: "edge_address option"

record udp_info_message =
  ui_from :: string
  ui_to :: string
  ui_endpoint :: edge_address

record mtu_info_message =
  mi_from :: string
  mi_to :: string
  mi_mtu :: nat

datatype meta_message =
    MsgId id_message
  | MsgMetaKey metakey_message
  | MsgChallenge string
  | MsgChallengeReply string
  | MsgAck ack_message
  | MsgTerminateRequest
  | MsgPing
  | MsgPong
  | MsgAddSubnet subnet_message
  | MsgDeleteSubnet subnet_message
  | MsgAddEdge add_edge_message
  | MsgDeleteEdge delete_edge_message
  | MsgKeyChanged key_changed_message
  | MsgRequestKey request_key_message
  | MsgAnswerKey answer_key_message
  | MsgTcpPacket nat
  | MsgSptpsTcpPacket nat
  | MsgUdpInfo udp_info_message
  | MsgMtuInfo mtu_info_message

fun message_request :: "meta_message \<Rightarrow> request" where
  "message_request (MsgId _) = ReqId"
| "message_request (MsgMetaKey _) = ReqMetaKey"
| "message_request (MsgChallenge _) = ReqChallenge"
| "message_request (MsgChallengeReply _) = ReqChallengeReply"
| "message_request (MsgAck _) = ReqAck"
| "message_request MsgTerminateRequest = ReqTerminateRequest"
| "message_request MsgPing = ReqPing"
| "message_request MsgPong = ReqPong"
| "message_request (MsgAddSubnet _) = ReqAddSubnet"
| "message_request (MsgDeleteSubnet _) = ReqDeleteSubnet"
| "message_request (MsgAddEdge _) = ReqAddEdge"
| "message_request (MsgDeleteEdge _) = ReqDeleteEdge"
| "message_request (MsgKeyChanged _) = ReqKeyChanged"
| "message_request (MsgRequestKey _) = ReqRequestKey"
| "message_request (MsgAnswerKey _) = ReqAnswerKey"
| "message_request (MsgTcpPacket _) = ReqPacket"
| "message_request (MsgSptpsTcpPacket _) = ReqSptpsPacket"
| "message_request (MsgUdpInfo _) = ReqUdpInfo"
| "message_request (MsgMtuInfo _) = ReqMtuInfo"

section \<open>Printing\<close>

definition show_hex_u32 :: "u32 \<Rightarrow> string" where
  "show_hex_u32 w = show_hex (unat w)"

definition show_version :: "id_message \<Rightarrow> string" where
  "show_version m = show_int (id_protocol_major m) @ CHR ''.'' #
     show_int (case id_protocol_minor m of Some v \<Rightarrow> v | None \<Rightarrow> 0)"

definition show_endpoint :: "edge_address option \<Rightarrow> string list" where
  "show_endpoint e = (case e of Some a \<Rightarrow> [ea_address a, ea_port a] | None \<Rightarrow> [])"

fun message_fields :: "meta_message \<Rightarrow> string list" where
  "message_fields (MsgId m) = [id_name m, show_version m]"
| "message_fields (MsgMetaKey m) =
     [show_int (mk_cipher m), show_int (mk_digest m), show_int (mk_mac_length m),
      show_int (mk_compression m), mk_key m]"
| "message_fields (MsgChallenge d) = [d]"
| "message_fields (MsgChallengeReply d) = [d]"
| "message_fields (MsgAck (AckConnection port w opts)) = [port, show_int w, show_hex_u32 opts]"
| "message_fields (MsgAck (AckPayload p)) = [p]"
| "message_fields (MsgAck (AckControl v pid)) = [show_int v, show_int pid]"
| "message_fields MsgTerminateRequest = []"
| "message_fields MsgPing = []"
| "message_fields MsgPong = []"
| "message_fields (MsgAddSubnet m) =
     [show_hex_u32 (sm_nonce m), sm_owner m, show_subnet (sm_subnet m)]"
| "message_fields (MsgDeleteSubnet m) =
     [show_hex_u32 (sm_nonce m), sm_owner m, show_subnet (sm_subnet m)]"
| "message_fields (MsgAddEdge m) =
     [show_hex_u32 (ae_nonce m), e_from (ae_edge m), e_to (ae_edge m), ae_address m, ae_port m,
      show_hex_u32 (e_options (ae_edge m)), show_int (e_weight (ae_edge m))]
     @ show_endpoint (ae_local m)"
| "message_fields (MsgDeleteEdge m) = [show_hex_u32 (de_nonce m), de_from m, de_to m]"
| "message_fields (MsgKeyChanged m) = [show_hex_u32 (kc_nonce m), kc_origin m]"
| "message_fields (MsgRequestKey m) =
     [rk_from m, rk_to m]
     @ (case rk_extension m of
          Some x \<Rightarrow> show_int (rx_request x)
            # (case rx_payload x of Some p \<Rightarrow> [p] | None \<Rightarrow> [])
        | None \<Rightarrow> [])"
| "message_fields (MsgAnswerKey m) =
     [ak_from m, ak_to m, ak_key m, show_int (ak_cipher m), show_int (ak_digest m),
      show_nat (ak_mac_length m), show_int (ak_compression m)]
     @ show_endpoint (ak_address m)"
| "message_fields (MsgTcpPacket n) = [show_nat n]"
| "message_fields (MsgSptpsTcpPacket n) = [show_nat n]"
| "message_fields (MsgUdpInfo m) =
     [ui_from m, ui_to m, ea_address (ui_endpoint m), ea_port (ui_endpoint m)]"
| "message_fields (MsgMtuInfo m) = [mi_from m, mi_to m, show_nat (mi_mtu m)]"

text \<open>\<^verbatim>\<open>Display for MetaMessage\<close>: the number and the fields, one space between them.\<close>

definition show_meta_message :: "meta_message \<Rightarrow> string" where
  "show_meta_message m =
     unwords (show_int (request_number (message_request m)) # message_fields m)"

section \<open>Request lines\<close>

datatype request_line_error =
    BogusData
  | UnknownRequest int
  | UnhandledRequest request

record request_line =
  rl_request :: request
  rl_raw :: string
  rl_arguments :: string

text \<open>\<^verbatim>\<open>saturating_mul\<close> and \<^verbatim>\<open>saturating_add\<close> on \<open>i64\<close>; the operands are not negative.\<close>

definition sat64 :: "int \<Rightarrow> int" where
  "sat64 x = min i64_max x"

fun atoi_digits :: "int \<Rightarrow> string \<Rightarrow> int \<times> string" where
  "atoi_digits v [] = (v, [])"
| "atoi_digits v (c # s) =
     (if is_ascii_digit c then atoi_digits (sat64 (sat64 (v * 10) + int (code c - 48))) s
      else (v, c # s))"

text \<open>
  The number at the head of a line and what follows it (the slice from \<^verbatim>\<open>end_index\<close>);
  zero only counts when the line starts with the digit.
\<close>

definition atoi_dispatch_prefix :: "string \<Rightarrow> (int \<times> string) option" where
  "atoi_dispatch_prefix s =
     (let s1 = dropWhile is_ascii_whitespace s;
          negative = (case s1 of c # _ \<Rightarrow> c = CHR ''-'' | [] \<Rightarrow> False);
          s2 = skip_sign s1
      in case atoi_digits 0 s2 of (v, rest) \<Rightarrow>
           (let v = (if negative then - v else v);
                number = max i32_min (min i32_max v)
            in if number \<noteq> 0 \<or> (case s of c # _ \<Rightarrow> c = CHR ''0'' | [] \<Rightarrow> False)
               then Some (number, rest) else None))"

definition parse_request_line :: "string \<Rightarrow> request_line_error + request_line" where
  "parse_request_line raw =
     and_then (ok_or BogusData (atoi_dispatch_prefix raw)) (\<lambda>(number, rest).
     and_then (ok_or (UnknownRequest number) (request_from_number number)) (\<lambda>req.
     Inr \<lparr>rl_request = req, rl_raw = raw, rl_arguments = dropWhile is_ascii_whitespace rest\<rparr>))"

definition parse_dispatchable_request_line :: "string \<Rightarrow> request_line_error + request_line" where
  "parse_dispatchable_request_line raw =
     and_then (parse_request_line raw) (\<lambda>line.
     if \<not> has_handler (rl_request line) then Inl (UnhandledRequest (rl_request line)) else Inr line)"

section \<open>Fields\<close>

datatype meta_error =
    RequestLineErr request_line_error
  | UnsupportedRequest request
  | MissingField string
  | InvalidNonce string
  | InvalidProtocolVersion string
  | InvalidOptions string
  | InvalidEdgeWeight string
  | InvalidInteger string string
  | InvalidLength int
  | InvalidMtu int
  | InvalidName string
  | SelfEdge string
  | InvalidSubnet subnet_parse_error

definition next_field :: "string list \<Rightarrow> string \<Rightarrow> meta_error + (string \<times> string list)" where
  "next_field args name =
     (case args of f # rest \<Rightarrow> Inr (f, rest) | [] \<Rightarrow> Inl (MissingField name))"

definition parse_hex_u32 :: "string \<Rightarrow> u32 option" where
  "parse_hex_u32 value =
     (let value = (case strip_prefix ''0x'' value of Some v \<Rightarrow> v
                   | None \<Rightarrow> (case strip_prefix ''0X'' value of Some v \<Rightarrow> v | None \<Rightarrow> value))
      in if value = [] then None
         else map_option of_nat (parse_unsigned 16 4294967295 value))"

definition parse_nonce :: "string \<Rightarrow> meta_error + u32" where
  "parse_nonce value = ok_or (InvalidNonce value) (parse_hex_u32 value)"

definition parse_i32_field :: "string \<Rightarrow> string \<Rightarrow> meta_error + int" where
  "parse_i32_field field value = ok_or (InvalidInteger field value) (parse_i32 value)"

definition u64_max :: nat where "u64_max = 18446744073709551615"

definition parse_u64_field :: "string \<Rightarrow> string \<Rightarrow> meta_error + nat" where
  "parse_u64_field field value =
     (let negative = (case value of c # _ \<Rightarrow> c = CHR ''-'' | [] \<Rightarrow> False);
          digits = skip_sign value
      in if digits = [] \<or> (\<exists>c \<in> set digits. \<not> is_ascii_digit c)
         then Inl (InvalidInteger field value)
         else let parsed = (case parse_unsigned 10 u64_max digits of Some n \<Rightarrow> n | None \<Rightarrow> u64_max)
              in Inr (if negative then (u64_max + 1 - parsed) mod (u64_max + 1) else parsed))"

definition validate_node_name :: "string \<Rightarrow> meta_error + unit" where
  "validate_node_name name = (if check_id name then Inr () else Inl (InvalidName name))"

definition validate_edge_names :: "string \<Rightarrow> string \<Rightarrow> meta_error + unit" where
  "validate_edge_names f t =
     and_then (validate_node_name f) (\<lambda>_.
     and_then (validate_node_name t) (\<lambda>_.
     if f = t then Inl (SelfEdge f) else Inr ()))"

definition is_special_id_name :: "string \<Rightarrow> bool" where
  "is_special_id_name name =
     ((case name of c # _ \<Rightarrow> c = CHR ''^'' \<or> c = CHR ''?'' | [] \<Rightarrow> False) \<and> 1 < length name)"

definition parse_protocol_version :: "string \<Rightarrow> meta_error + (int \<times> int option)" where
  "parse_protocol_version value =
     (let (major, minor) = (case split_once CHR ''.'' value of
            Some (major, minor) \<Rightarrow> (major, Some minor) | None \<Rightarrow> (value, None))
      in if major = [] \<or> minor = Some [] then Inl (InvalidProtocolVersion value)
         else
           and_then (map_err (\<lambda>_. InvalidProtocolVersion value) (parse_i32_field ''protocol_major'' major)) (\<lambda>maj.
           and_then (case minor of
               None \<Rightarrow> Inr None
             | Some m \<Rightarrow> map_ok Some (map_err (\<lambda>_. InvalidProtocolVersion value)
                                      (parse_i32_field ''protocol_minor'' m))) (\<lambda>min.
           Inr (maj, min))))"

text \<open>The optional trailing address and port of an edge or an answer.\<close>

definition trailing_endpoint :: "string \<Rightarrow> string list \<Rightarrow> meta_error + edge_address option" where
  "trailing_endpoint missing args =
     (case args of
        address # port # _ \<Rightarrow> Inr (Some \<lparr>ea_address = address, ea_port = port\<rparr>)
      | [] \<Rightarrow> Inr None
      | [_] \<Rightarrow> Inl (MissingField missing))"

section \<open>Message parsers\<close>

definition parse_id_message :: "string list \<Rightarrow> meta_error + id_message" where
  "parse_id_message args =
     and_then (next_field args ''name'') (\<lambda>(name, args).
     and_then (next_field args ''version'') (\<lambda>(version, args).
     and_then (parse_protocol_version version) (\<lambda>(major, minor).
     and_then (if is_special_id_name name then Inr () else validate_node_name name) (\<lambda>_.
     Inr \<lparr>id_name = name, id_protocol_major = major, id_protocol_minor = minor\<rparr>))))"

definition parse_metakey_message :: "string list \<Rightarrow> meta_error + metakey_message" where
  "parse_metakey_message args =
     and_then (next_field args ''cipher'') (\<lambda>(f, args).
     and_then (parse_i32_field ''cipher'' f) (\<lambda>cipher.
     and_then (next_field args ''digest'') (\<lambda>(f, args).
     and_then (parse_i32_field ''digest'' f) (\<lambda>digest.
     and_then (next_field args ''mac_length'') (\<lambda>(f, args).
     and_then (parse_i32_field ''mac_length'' f) (\<lambda>mac_length.
     and_then (next_field args ''compression'') (\<lambda>(f, args).
     and_then (parse_i32_field ''compression'' f) (\<lambda>compression.
     and_then (next_field args ''key'') (\<lambda>(key, args).
     Inr \<lparr>mk_cipher = cipher, mk_digest = digest, mk_mac_length = mac_length,
       mk_compression = compression, mk_key = key\<rparr>)))))))))"

definition parse_ack_message :: "string list \<Rightarrow> meta_error + ack_message" where
  "parse_ack_message args =
     (case args of
        [] \<Rightarrow> Inl (MissingField ''ack'')
      | [payload] \<Rightarrow> Inr (AckPayload payload)
      | [payload, maybe_pid] \<Rightarrow>
          (case (parse_i32_field ''version'' payload, parse_i32_field ''pid'' maybe_pid) of
             (Inr version, Inr pid) \<Rightarrow> Inr (AckControl version pid)
           | _ \<Rightarrow> Inr (AckPayload payload))
      | port # w # opts # _ \<Rightarrow>
          and_then (parse_i32_field ''weight'' w) (\<lambda>wt.
          and_then (ok_or (InvalidOptions opts) (parse_hex_u32 opts)) (\<lambda>os.
          Inr (AckConnection port wt os))))"

definition parse_subnet_message :: "string list \<Rightarrow> meta_error + subnet_message" where
  "parse_subnet_message args =
     and_then (next_field args ''nonce'') (\<lambda>(f, args).
     and_then (parse_nonce f) (\<lambda>nonce.
     and_then (next_field args ''owner'') (\<lambda>(owner, args).
     and_then (validate_node_name owner) (\<lambda>_.
     and_then (next_field args ''subnet'') (\<lambda>(f, args).
     and_then (map_err InvalidSubnet (parse_subnet f)) (\<lambda>subnet.
     Inr \<lparr>sm_nonce = nonce, sm_owner = owner, sm_subnet = subnet\<rparr>))))))"

definition parse_add_edge_message :: "string list \<Rightarrow> meta_error + add_edge_message" where
  "parse_add_edge_message args =
     and_then (next_field args ''nonce'') (\<lambda>(f, args).
     and_then (parse_nonce f) (\<lambda>nonce.
     and_then (next_field args ''from'') (\<lambda>(from, args).
     and_then (next_field args ''to'') (\<lambda>(to, args).
     and_then (validate_edge_names from to) (\<lambda>_.
     and_then (next_field args ''address'') (\<lambda>(address, args).
     and_then (next_field args ''port'') (\<lambda>(port, args).
     and_then (next_field args ''options'') (\<lambda>(options_text, args).
     and_then (next_field args ''weight'') (\<lambda>(weight_text, args).
     and_then (ok_or (InvalidOptions options_text) (parse_hex_u32 options_text)) (\<lambda>options.
     and_then (ok_or (InvalidEdgeWeight weight_text) (parse_i32 weight_text)) (\<lambda>wt.
     and_then (trailing_endpoint ''local_port'' args) (\<lambda>local.
     Inr \<lparr>ae_nonce = nonce, ae_edge = (edge_new from to wt)\<lparr>e_options := options\<rparr>,
       ae_address = address, ae_port = port, ae_local = local\<rparr>))))))))))))"

definition parse_delete_edge_message :: "string list \<Rightarrow> meta_error + delete_edge_message" where
  "parse_delete_edge_message args =
     and_then (next_field args ''nonce'') (\<lambda>(f, args).
     and_then (parse_nonce f) (\<lambda>nonce.
     and_then (next_field args ''from'') (\<lambda>(from, args).
     and_then (next_field args ''to'') (\<lambda>(to, args).
     and_then (validate_edge_names from to) (\<lambda>_.
     Inr \<lparr>de_nonce = nonce, de_from = from, de_to = to\<rparr>)))))"

definition parse_key_changed_message :: "string list \<Rightarrow> meta_error + key_changed_message" where
  "parse_key_changed_message args =
     and_then (next_field args ''nonce'') (\<lambda>(f, args).
     and_then (parse_nonce f) (\<lambda>nonce.
     and_then (next_field args ''origin'') (\<lambda>(origin, args).
     and_then (validate_node_name origin) (\<lambda>_.
     Inr \<lparr>kc_nonce = nonce, kc_origin = origin\<rparr>))))"

text \<open>A request field that is not an integer makes the extension disappear, not an error.\<close>

definition parse_request_key_message :: "string list \<Rightarrow> meta_error + request_key_message" where
  "parse_request_key_message args =
     and_then (next_field args ''from'') (\<lambda>(from, args).
     and_then (next_field args ''to'') (\<lambda>(to, args).
     and_then (validate_node_name from) (\<lambda>_.
     and_then (validate_node_name to) (\<lambda>_.
     Inr \<lparr>rk_from = from, rk_to = to,
       rk_extension = (case args of
           [] \<Rightarrow> None
         | req # rest \<Rightarrow>
             map_option (\<lambda>n. \<lparr>rx_request = n,
                 rx_payload = (case rest of p # _ \<Rightarrow> Some p | [] \<Rightarrow> None)\<rparr>)
               (parse_i32 req))\<rparr>))))"

definition parse_answer_key_message :: "string list \<Rightarrow> meta_error + answer_key_message" where
  "parse_answer_key_message args =
     and_then (next_field args ''from'') (\<lambda>(from, args).
     and_then (next_field args ''to'') (\<lambda>(to, args).
     and_then (validate_node_name from) (\<lambda>_.
     and_then (validate_node_name to) (\<lambda>_.
     and_then (next_field args ''key'') (\<lambda>(key, args).
     and_then (next_field args ''cipher'') (\<lambda>(f, args).
     and_then (parse_i32_field ''cipher'' f) (\<lambda>cipher.
     and_then (next_field args ''digest'') (\<lambda>(f, args).
     and_then (parse_i32_field ''digest'' f) (\<lambda>digest.
     and_then (next_field args ''mac_length'') (\<lambda>(f, args).
     and_then (parse_u64_field ''mac_length'' f) (\<lambda>mac_length.
     and_then (next_field args ''compression'') (\<lambda>(f, args).
     and_then (parse_i32_field ''compression'' f) (\<lambda>compression.
     and_then (trailing_endpoint ''port'' args) (\<lambda>address.
     Inr \<lparr>ak_from = from, ak_to = to, ak_key = key, ak_cipher = cipher, ak_digest = digest,
       ak_mac_length = mac_length, ak_compression = compression, ak_address = address\<rparr>))))))))))))))"

definition parse_tcp_packet_message :: "string list \<Rightarrow> meta_error + nat" where
  "parse_tcp_packet_message args =
     and_then (next_field args ''length'') (\<lambda>(f, args).
     and_then (parse_i32_field ''length'' f) (\<lambda>len.
     if \<not> (0 \<le> len \<and> len \<le> 32767) then Inl (InvalidLength len) else Inr (nat len)))"

definition parse_udp_info_message :: "string list \<Rightarrow> meta_error + udp_info_message" where
  "parse_udp_info_message args =
     and_then (next_field args ''from'') (\<lambda>(from, args).
     and_then (next_field args ''to'') (\<lambda>(to, args).
     and_then (validate_node_name from) (\<lambda>_.
     and_then (validate_node_name to) (\<lambda>_.
     and_then (next_field args ''address'') (\<lambda>(address, args).
     and_then (next_field args ''port'') (\<lambda>(port, args).
     Inr \<lparr>ui_from = from, ui_to = to,
       ui_endpoint = \<lparr>ea_address = address, ea_port = port\<rparr>\<rparr>))))))"

definition parse_mtu_info_message :: "string list \<Rightarrow> meta_error + mtu_info_message" where
  "parse_mtu_info_message args =
     and_then (next_field args ''from'') (\<lambda>(from, args).
     and_then (next_field args ''to'') (\<lambda>(to, args).
     and_then (validate_node_name from) (\<lambda>_.
     and_then (validate_node_name to) (\<lambda>_.
     and_then (next_field args ''mtu'') (\<lambda>(f, args).
     and_then (parse_i32_field ''mtu'' f) (\<lambda>mtu.
     if mtu < int MIN_MTU then Inl (InvalidMtu mtu)
     else Inr \<lparr>mi_from = from, mi_to = to, mi_mtu = min (nat mtu) DEFAULT_MTU\<rparr>))))))"

definition parse_meta_message :: "string \<Rightarrow> meta_error + meta_message" where
  "parse_meta_message raw =
     and_then (map_err RequestLineErr (parse_request_line raw)) (\<lambda>line.
     let args = split_whitespace (rl_arguments line)
     in case rl_request line of
          ReqId \<Rightarrow> map_ok MsgId (parse_id_message args)
        | ReqMetaKey \<Rightarrow> map_ok MsgMetaKey (parse_metakey_message args)
        | ReqChallenge \<Rightarrow> map_ok (\<lambda>(f, _). MsgChallenge f) (next_field args ''challenge'')
        | ReqChallengeReply \<Rightarrow> map_ok (\<lambda>(f, _). MsgChallengeReply f) (next_field args ''digest'')
        | ReqAck \<Rightarrow> map_ok MsgAck (parse_ack_message args)
        | ReqTerminateRequest \<Rightarrow> Inr MsgTerminateRequest
        | ReqPing \<Rightarrow> Inr MsgPing
        | ReqPong \<Rightarrow> Inr MsgPong
        | ReqAddSubnet \<Rightarrow> map_ok MsgAddSubnet (parse_subnet_message args)
        | ReqDeleteSubnet \<Rightarrow> map_ok MsgDeleteSubnet (parse_subnet_message args)
        | ReqAddEdge \<Rightarrow> map_ok MsgAddEdge (parse_add_edge_message args)
        | ReqDeleteEdge \<Rightarrow> map_ok MsgDeleteEdge (parse_delete_edge_message args)
        | ReqKeyChanged \<Rightarrow> map_ok MsgKeyChanged (parse_key_changed_message args)
        | ReqRequestKey \<Rightarrow> map_ok MsgRequestKey (parse_request_key_message args)
        | ReqAnswerKey \<Rightarrow> map_ok MsgAnswerKey (parse_answer_key_message args)
        | ReqPacket \<Rightarrow> map_ok MsgTcpPacket (parse_tcp_packet_message args)
        | ReqSptpsPacket \<Rightarrow> map_ok MsgSptpsTcpPacket (parse_tcp_packet_message args)
        | ReqUdpInfo \<Rightarrow> map_ok MsgUdpInfo (parse_udp_info_message args)
        | ReqMtuInfo \<Rightarrow> map_ok MsgMtuInfo (parse_mtu_info_message args)
        | req \<Rightarrow> Inl (UnsupportedRequest req))"

section \<open>SPTPS key payloads\<close>

datatype sptps_key_payload_kind = InitialRequest | HandshakeAnswer | SptpsTcpPayload

record sptps_key_payload =
  kp_from :: string
  kp_to :: string
  kp_kind :: sptps_key_payload_kind
  kp_data :: "byte list"
  kp_compression :: "int option"
  kp_address :: "edge_address option"

datatype sptps_key_payload_error = NotSptps | MissingPayload | InvalidBase64

definition sptps_initial_request :: "string \<Rightarrow> string \<Rightarrow> byte list \<Rightarrow> request_key_message" where
  "sptps_initial_request f t data = \<lparr>rk_from = f, rk_to = t,
     rk_extension = Some \<lparr>rx_request = request_number ReqRequestKey,
                          rx_payload = Some (b64encode_tinc data)\<rparr>\<rparr>"

definition sptps_tcp_packet :: "string \<Rightarrow> string \<Rightarrow> byte list \<Rightarrow> request_key_message" where
  "sptps_tcp_packet f t data = \<lparr>rk_from = f, rk_to = t,
     rk_extension = Some \<lparr>rx_request = request_number ReqSptpsPacket,
                          rx_payload = Some (b64encode_tinc data)\<rparr>\<rparr>"

definition decode_request_key :: "request_key_message \<Rightarrow> sptps_key_payload_error + sptps_key_payload" where
  "decode_request_key m =
     and_then (ok_or NotSptps (rk_extension m)) (\<lambda>x.
     and_then (case request_from_number (rx_request x) of
         Some ReqRequestKey \<Rightarrow> Inr InitialRequest
       | Some ReqSptpsPacket \<Rightarrow> Inr SptpsTcpPayload
       | _ \<Rightarrow> Inl NotSptps) (\<lambda>kind.
     and_then (ok_or MissingPayload (rx_payload x)) (\<lambda>payload.
     and_then (ok_or InvalidBase64 (b64decode_tinc payload)) (\<lambda>data.
     Inr \<lparr>kp_from = rk_from m, kp_to = rk_to m, kp_kind = kind, kp_data = data,
       kp_compression = None, kp_address = None\<rparr>))))"

definition sptps_handshake :: "string \<Rightarrow> string \<Rightarrow> byte list \<Rightarrow> int \<Rightarrow> answer_key_message" where
  "sptps_handshake f t data compression = \<lparr>ak_from = f, ak_to = t, ak_key = b64encode_tinc data,
     ak_cipher = -1, ak_digest = -1, ak_mac_length = u64_max, ak_compression = compression,
     ak_address = None\<rparr>"

definition answer_with_address :: "string \<Rightarrow> string \<Rightarrow> answer_key_message \<Rightarrow> answer_key_message" where
  "answer_with_address address port m =
     m\<lparr>ak_address := Some \<lparr>ea_address = address, ea_port = port\<rparr>\<rparr>"

definition is_sptps_handshake :: "answer_key_message \<Rightarrow> bool" where
  "is_sptps_handshake m \<longleftrightarrow> ak_cipher m = -1 \<and> ak_digest m = -1 \<and> ak_mac_length m = u64_max"

definition decode_answer_key :: "answer_key_message \<Rightarrow> sptps_key_payload_error + sptps_key_payload" where
  "decode_answer_key m =
     (if \<not> is_sptps_handshake m then Inl NotSptps
      else and_then (ok_or InvalidBase64 (b64decode_tinc (ak_key m))) (\<lambda>data.
        Inr \<lparr>kp_from = ak_from m, kp_to = ak_to m, kp_kind = HandshakeAnswer, kp_data = data,
          kp_compression = Some (ak_compression m), kp_address = ak_address m\<rparr>))"

section \<open>The cache of past requests\<close>

record past_request_cache =
  pc_retention :: nat
  pc_entries :: "(string, nat) btree"

definition cache_new :: "nat \<Rightarrow> past_request_cache" where
  "cache_new retention = \<lparr>pc_retention = retention, pc_entries = []\<rparr>"

definition cache_age :: "nat \<Rightarrow> past_request_cache \<Rightarrow> nat \<times> past_request_cache" where
  "cache_age now c =
     (let entries = bt_retain (\<lambda>_ first_seen. now < min u64_max (first_seen + pc_retention c)) (pc_entries c)
      in (length (pc_entries c) - length entries, c\<lparr>pc_entries := entries\<rparr>))"

definition mark_seen :: "string \<Rightarrow> nat \<Rightarrow> past_request_cache \<Rightarrow> bool \<times> past_request_cache" where
  "mark_seen req now c =
     (let c = snd (cache_age now c)
      in if bt_contains (pc_entries c) req then (True, c)
         else (False, c\<lparr>pc_entries := bt_insert req now (pc_entries c)\<rparr>))"

end
