(* ===== verification/Protocol_Props.thy ===== *)
theory Protocol_Props
  imports Protocol
begin

text \<open>
  What the meta protocol promises: every well-formed message is read back from the line it is
  printed as, what the parser accepts is valid, request numbers and SPTPS payloads are
  faithful, and the cache lets a request through at most once per retention period.
\<close>

section \<open>Printed fields\<close>

lemma show_hex_chars: "c \<in> set (show_hex n) \<Longrightarrow> c \<noteq> CHR ''x'' \<and> c \<noteq> CHR ''X''"
proof -
  assume "c \<in> set (show_hex n)"
  then obtain d where d: "d \<in> set (radix_digits 16 n)" "c = digit_char d"
    by (auto simp: show_hex_def show_radix_def)
  then have "d < 16" using radix_digits_less [of 16 n] by simp
  then have "code c \<le> 102 \<and> code c \<noteq> 88" using d(2) by (auto simp: code_digit_char)
  then show ?thesis by (auto simp: code_def)
qed

lemma strip_prefix_Some: "strip_prefix p s = Some r \<Longrightarrow> s = p @ r"
  by (induction p s rule: strip_prefix.induct) (auto split: if_splits)

lemma show_hex_no_prefix: "strip_prefix ''0x'' (show_hex n) = None" "strip_prefix ''0X'' (show_hex n) = None"
proof -
  have "show_hex n \<noteq> ''0x'' @ r" "show_hex n \<noteq> ''0X'' @ r" for r
    using show_hex_chars [of "CHR ''x''" n] show_hex_chars [of "CHR ''X''" n] by auto
  then show "strip_prefix ''0x'' (show_hex n) = None" "strip_prefix ''0X'' (show_hex n) = None"
    using strip_prefix_Some by (meson not_Some_eq)+
qed

lemma parse_hex_u32_show [simp]: "parse_hex_u32 (show_hex_u32 w) = Some w"
proof -
  have "unat w \<le> 4294967295" using unat_u32_less [of w] by (simp del: unat_u32_less)
  then have "parse_unsigned 16 4294967295 (show_hex (unat w)) = Some (unat w)"
    unfolding show_hex_def by (intro parse_unsigned_show) simp_all
  moreover have "show_hex (unat w) \<noteq> []" by (simp add: show_hex_def)
  ultimately show ?thesis
    by (simp add: parse_hex_u32_def show_hex_u32_def show_hex_no_prefix)
qed

lemma parse_nonce_show [simp]: "parse_nonce (show_hex_u32 w) = Inr w"
  by (simp add: parse_nonce_def)

lemma parse_i32_field_show [simp]: "in_i32 i \<Longrightarrow> parse_i32_field f (show_int i) = Inr i"
  by (simp add: parse_i32_field_def parse_i32_show_int)

lemma parse_i32_field_show_nat [simp]:
  "n \<le> 2147483647 \<Longrightarrow> parse_i32_field f (show_nat n) = Inr (int n)"
  by (simp add: parse_i32_field_def parse_i32_show_nat)

lemma skip_sign_show_nat: "skip_sign (show_nat n) = show_nat n"
  using hd_show_radix [of 10 n] alnum_not_sign
  by (cases "show_nat n") (auto simp: skip_sign_def show_nat_def)

lemma show_nat_not_minus: "(case show_nat n of c # _ \<Rightarrow> c = CHR ''-'' | [] \<Rightarrow> False) = False"
  using hd_show_radix [of 10 n] alnum_not_sign
  by (cases "show_nat n") (auto simp: show_nat_def)

lemma parse_u64_field_show [simp]: "n \<le> u64_max \<Longrightarrow> parse_u64_field f (show_nat n) = Inr n"
  using show_nat_digits [of n] parse_unsigned_show [of 10 n u64_max]
  by (simp add: parse_u64_field_def Let_def skip_sign_show_nat show_nat_not_minus) (simp add: show_nat_def)

lemma show_int_no_dot: "CHR ''.'' \<notin> set (show_int i)"
  using show_nat_digits [of "nat i"] show_nat_digits [of "nat (- i)"]
  by (auto simp: show_int_def is_ascii_digit_def code_def dest!: bspec)

lemma parse_version_show [simp]:
  assumes "in_i32 (id_protocol_major m)" "id_protocol_minor m = Some v" "in_i32 v"
  shows "parse_protocol_version (show_version m) = Inr (id_protocol_major m, Some v)"
proof -
  have "split_once CHR ''.'' (show_version m) = Some (show_int (id_protocol_major m), show_int v)"
    using split_once_append [OF show_int_no_dot] assms(2) by (simp add: show_version_def)
  moreover have "show_int i \<noteq> []" for i by (simp add: show_int_def show_nat_def)
  ultimately show ?thesis using assms by (simp add: parse_protocol_version_def)
qed

section \<open>Tokens\<close>

lemma token_hex_u32 [simp]: "token (show_hex_u32 w)"
  by (simp add: show_hex_u32_def)

lemma token_check_id [simp]: "check_id name \<Longrightarrow> token name"
proof (rule token_graphic)
  assume c: "check_id name"
  then show "name \<noteq> []" by (simp add: check_id_def)
  have "graphic CHR ''_''" by (simp add: graphic_def code_def)
  with c show "\<forall>c \<in> set name. graphic c" by (auto simp: check_id_def graphic_alnum)
qed

lemma graphic_punct [simp]:
  "graphic CHR '':''" "graphic CHR ''.''" "graphic CHR ''/''" "graphic CHR ''#''" "graphic CHR ''-''"
  by (simp_all add: graphic_def code_def)

lemma token_version [simp]: "token (show_version m)"
  by (rule token_graphic) (auto simp: show_version_def graphic_show_int)

lemma graphic_show_mac: "c \<in> set (show_mac a) \<Longrightarrow> graphic c"
proof -
  have h: "graphic d" if "d \<in> set (show_hex2 b)" for b d
  proof -
    have "unat b div 16 < 16" "unat b mod 16 < 16" using unat_byte_less [of b] by (simp_all del: unat_byte_less)
    with that show ?thesis by (auto simp: show_hex2_def graphic_alnum [OF digit_char_alnum])
  qed
  then show "c \<in> set (show_mac a) \<Longrightarrow> graphic c"
    by (cases a) (auto simp: show_mac_def join_concat split: if_splits)
qed

lemma graphic_show_ipv4: "c \<in> set (show_ipv4 a) \<Longrightarrow> graphic c"
  using octets_ipv4_chars [of c a] by (auto simp: is_ascii_alphanumeric_def graphic_alnum)

lemma graphic_show_ipv6: "c \<in> set (show_ipv6 a) \<Longrightarrow> graphic c"
  using show_ipv6_chars [of c a] by (auto simp: graphic_alnum)

lemma token_subnet [simp]:
  assumes "wf_subnet s"
  shows "token (show_subnet s)"
proof (rule token_graphic)
  have "parse_subnet [] = Inl SubnetEmpty" by (simp add: parse_subnet_def)
  then show "show_subnet s \<noteq> []" using parse_show_subnet_text [OF assms] by auto
  show "\<forall>c \<in> set (show_subnet s). graphic c"
    using graphic_show_int graphic_show_nat
    by (auto simp: show_subnet_def graphic_show_mac graphic_show_ipv4 graphic_show_ipv6
        split: subnet_kind.splits if_splits)
qed

section \<open>The request number\<close>

lemma parse_digits_mono: "parse_digits 10 a ds = Some n \<Longrightarrow> a \<le> n"
proof (induction ds arbitrary: a)
  case (Cons e ds)
  then obtain d where "parse_digits 10 (a * 10 + d) ds = Some n" by (auto split: option.splits)
  from Cons.IH [OF this] show ?case by simp
qed simp

lemma atoi_digits_show:
  "\<forall>c \<in> set ds. is_ascii_digit c \<Longrightarrow> 0 \<le> v \<Longrightarrow> parse_digits 10 (nat v) ds = Some n
    \<Longrightarrow> int n \<le> i64_max \<Longrightarrow> rest = [] \<or> \<not> is_ascii_digit (hd rest)
    \<Longrightarrow> atoi_digits v (ds @ rest) = (int n, rest)"
proof (induction ds arbitrary: v)
  case Nil
  then show ?case by (cases rest) auto
next
  case (Cons c ds)
  let ?d = "code c - 48"
  have c: "to_digit 10 c = Some ?d"
    using Cons.prems(1) by (auto simp: to_digit_def is_ascii_digit_def Let_def)
  have p: "parse_digits 10 (nat v * 10 + ?d) ds = Some n" using Cons.prems(3) c by simp
  have e: "nat (v * 10 + int ?d) = nat v * 10 + ?d" using Cons.prems(2) by simp
  have "int (nat v * 10 + ?d) \<le> i64_max" using parse_digits_mono [OF p] Cons.prems(4) by linarith
  then have "v * 10 + int ?d \<le> i64_max" using Cons.prems(2) by simp
  then have "sat64 (sat64 (v * 10) + int ?d) = v * 10 + int ?d" by (simp add: sat64_def)
  then show ?case using Cons.IH [of "v * 10 + int ?d"] Cons.prems p e by simp
qed

lemma atoi_show_nat:
  assumes "n \<le> 2147483647" "rest = [] \<or> hd rest = CHR '' ''"
  shows "atoi_dispatch_prefix (show_nat n @ rest) = Some (int n, rest)"
proof -
  have r: "rest = [] \<or> \<not> is_ascii_digit (hd rest)"
    using assms(2) by (auto simp: is_ascii_digit_def code_def)
  obtain c ds where s: "show_nat n = c # ds" by (cases "show_nat n") (auto simp: show_nat_def)
  have c: "is_ascii_digit c" using show_nat_digits [of n] s by simp
  then have w: "\<not> is_ascii_whitespace c" "c \<noteq> CHR ''-''" "c \<noteq> CHR ''+''"
    using alnum_not_sign [of c]
    by (auto simp: is_ascii_digit_def is_ascii_whitespace_def is_ascii_alphanumeric_def)
  have "parse_digits 10 (nat 0) (show_nat n) = Some n"
    using parse_show_radix [of 10 n] by (simp add: show_nat_def)
  then have "atoi_digits 0 (show_nat n @ rest) = (int n, rest)"
    using assms(1) show_nat_digits r by (intro atoi_digits_show) (auto simp: i64_max_def)
  moreover have "n = 0 \<Longrightarrow> c = CHR ''0''"
  proof -
    assume "n = 0"
    then have "show_nat n = ''0''" by (simp add: show_nat_def) code_simp
    then show "c = CHR ''0''" using s by simp
  qed
  ultimately show ?thesis
    using w assms(1) s by (auto simp: atoi_dispatch_prefix_def skip_sign_def i32_min_def i32_max_def)
qed

lemma request_number_range: "0 \<le> request_number r" "request_number r < 24"
  by (cases r; simp)+

lemma request_from_to [simp]: "request_from_number (request_number r) = Some r"
  by (cases r) (simp_all add: request_from_number_def)

lemma dropWhile_ws_token: "token w \<Longrightarrow> dropWhile is_ascii_whitespace (w @ s) = w @ s"
proof -
  assume "token w"
  then obtain c r where w: "w = c # r" "ws_len (c # r) = 0" by (cases w) (auto simp: token_def)
  have "\<not> is_ascii_whitespace c"
  proof
    assume "is_ascii_whitespace c"
    then have "ws_len (c # r) = 1" by (auto simp: is_ascii_whitespace_def ws_len_def)
    with w show False by simp
  qed
  with w show ?thesis by simp
qed

lemma unwords_Cons: "ws \<noteq> [] \<Longrightarrow> unwords (w # ws) = w @ CHR '' '' # unwords ws"
  by (cases ws) auto

text \<open>A printed line is split back into its request and its fields.\<close>

lemma request_line_show:
  assumes "\<forall>w \<in> set ws. token w"
  shows "\<exists>line. parse_request_line (unwords (show_int (request_number r) # ws)) = Inr line
    \<and> rl_request line = r \<and> split_whitespace (rl_arguments line) = ws"
proof -
  obtain n where n: "request_number r = int n" "n < 24"
    using request_number_range [of r] by (metis nat_less_iff nonneg_int_cases of_nat_less_numeral_iff)
  have num: "show_int (int n) = show_nat n" by (simp add: show_int_def)
  have ws1: "is_ascii_whitespace CHR '' ''" by (simp add: is_ascii_whitespace_def code_def)
  show ?thesis
  proof (cases ws)
    case Nil
    have "atoi_dispatch_prefix (show_nat n) = Some (int n, [])" using atoi_show_nat [of n "[]"] n by simp
    then show ?thesis
      using Nil n request_from_to [of r]
      by (simp add: parse_request_line_def num split_whitespace_def)
  next
    case (Cons w vs)
    let ?rest = "CHR '' '' # unwords ws"
    have "atoi_dispatch_prefix (show_nat n @ ?rest) = Some (int n, ?rest)"
      using atoi_show_nat [of n ?rest] n by simp
    moreover have "dropWhile is_ascii_whitespace (unwords ws) = unwords ws"
    proof -
      have "token w" using assms Cons by simp
      then show ?thesis
        using dropWhile_ws_token [of w] dropWhile_ws_token [of w "[]"] by (cases vs) (auto simp: Cons)
    qed
    ultimately show ?thesis
      using Cons n request_from_to [of r] ws1 split_whitespace_unwords [OF assms]
      by (simp add: parse_request_line_def num unwords_Cons)
  qed
qed

section \<open>Round trip\<close>

definition wf_endpoint :: "edge_address \<Rightarrow> bool" where
  "wf_endpoint e \<longleftrightarrow> token (ea_address e) \<and> token (ea_port e)"

definition wf_edge_names :: "string \<Rightarrow> string \<Rightarrow> bool" where
  "wf_edge_names f t \<longleftrightarrow> check_id f \<and> check_id t \<and> f \<noteq> t"

definition wf_subnet_message :: "subnet_message \<Rightarrow> bool" where
  "wf_subnet_message m \<longleftrightarrow> check_id (sm_owner m) \<and> wf_subnet (sm_subnet m)
     \<and> sn_owner (sm_subnet m) = None \<and> sn_expires (sm_subnet m) = None"

text \<open>The messages the parser can produce, with the version's minor number written out.\<close>

fun wf_message :: "meta_message \<Rightarrow> bool" where
  "wf_message (MsgId m) = ((is_special_id_name (id_name m) \<or> check_id (id_name m)) \<and> token (id_name m)
     \<and> in_i32 (id_protocol_major m) \<and> (\<exists>v. id_protocol_minor m = Some v \<and> in_i32 v))"
| "wf_message (MsgMetaKey m) = (in_i32 (mk_cipher m) \<and> in_i32 (mk_digest m) \<and> in_i32 (mk_mac_length m)
     \<and> in_i32 (mk_compression m) \<and> token (mk_key m))"
| "wf_message (MsgChallenge d) = token d"
| "wf_message (MsgChallengeReply d) = token d"
| "wf_message (MsgAck (AckConnection port w opts)) = (token port \<and> in_i32 w)"
| "wf_message (MsgAck (AckPayload p)) = token p"
| "wf_message (MsgAck (AckControl v pid)) = (in_i32 v \<and> in_i32 pid)"
| "wf_message MsgTerminateRequest = True"
| "wf_message MsgPing = True"
| "wf_message MsgPong = True"
| "wf_message (MsgAddSubnet m) = wf_subnet_message m"
| "wf_message (MsgDeleteSubnet m) = wf_subnet_message m"
| "wf_message (MsgAddEdge m) = (wf_edge_names (e_from (ae_edge m)) (e_to (ae_edge m))
     \<and> e_address (ae_edge m) = None \<and> e_local_address (ae_edge m) = None
     \<and> in_i32 (e_weight (ae_edge m)) \<and> token (ae_address m) \<and> token (ae_port m)
     \<and> (case ae_local m of None \<Rightarrow> True | Some l \<Rightarrow> wf_endpoint l))"
| "wf_message (MsgDeleteEdge m) = wf_edge_names (de_from m) (de_to m)"
| "wf_message (MsgKeyChanged m) = check_id (kc_origin m)"
| "wf_message (MsgRequestKey m) = (check_id (rk_from m) \<and> check_id (rk_to m)
     \<and> (case rk_extension m of None \<Rightarrow> True
        | Some x \<Rightarrow> in_i32 (rx_request x) \<and> (case rx_payload x of None \<Rightarrow> True | Some p \<Rightarrow> token p)))"
| "wf_message (MsgAnswerKey m) = (check_id (ak_from m) \<and> check_id (ak_to m) \<and> token (ak_key m)
     \<and> in_i32 (ak_cipher m) \<and> in_i32 (ak_digest m) \<and> ak_mac_length m \<le> u64_max
     \<and> in_i32 (ak_compression m) \<and> (case ak_address m of None \<Rightarrow> True | Some l \<Rightarrow> wf_endpoint l))"
| "wf_message (MsgTcpPacket n) = (n \<le> 32767)"
| "wf_message (MsgSptpsTcpPacket n) = (n \<le> 32767)"
| "wf_message (MsgUdpInfo m) = (check_id (ui_from m) \<and> check_id (ui_to m) \<and> wf_endpoint (ui_endpoint m))"
| "wf_message (MsgMtuInfo m) = (check_id (mi_from m) \<and> check_id (mi_to m)
     \<and> MIN_MTU \<le> mi_mtu m \<and> mi_mtu m \<le> DEFAULT_MTU)"

lemma message_fields_tokens: "wf_message m \<Longrightarrow> \<forall>w \<in> set (message_fields m). token w"
  by (cases m rule: message_fields.cases)
    (auto simp: wf_subnet_message_def wf_edge_names_def wf_endpoint_def show_endpoint_def
      split: option.splits)

lemma parse_edge_names [simp]: "wf_edge_names f t \<Longrightarrow> validate_edge_names f t = Inr ()"
  by (simp add: validate_edge_names_def validate_node_name_def wf_edge_names_def)

lemma validate_name [simp]: "check_id n \<Longrightarrow> validate_node_name n = Inr ()"
  by (simp add: validate_node_name_def)

lemma next_field_Cons [simp]: "next_field (f # fs) name = Inr (f, fs)"
  by (simp add: next_field_def)

lemma trailing_endpoint_show [simp]: "trailing_endpoint e (show_endpoint a) = Inr a"
  by (cases a) (auto simp: trailing_endpoint_def show_endpoint_def)

text \<open>Each message parser reads its own fields back.\<close>

lemma parse_ack_fields:
  "wf_message (MsgAck a) \<Longrightarrow> parse_ack_message (message_fields (MsgAck a)) = Inr a"
  by (cases a) (simp_all add: parse_ack_message_def)

lemma parse_subnet_fields:
  "wf_subnet_message m \<Longrightarrow> parse_subnet_message
     [show_hex_u32 (sm_nonce m), sm_owner m, show_subnet (sm_subnet m)] = Inr m"
  by (cases "sm_subnet m")
    (simp add: parse_subnet_message_def wf_subnet_message_def parse_show_subnet_text weighted_def)

lemma parse_add_edge_fields:
  "wf_message (MsgAddEdge m) \<Longrightarrow> parse_add_edge_message (message_fields (MsgAddEdge m)) = Inr m"
  by (cases m; cases "ae_edge m")
    (simp add: parse_add_edge_message_def parse_i32_show_int edge_new_def)

lemma parse_request_key_fields:
  "wf_message (MsgRequestKey m) \<Longrightarrow> parse_request_key_message (message_fields (MsgRequestKey m)) = Inr m"
  by (cases m) (auto simp: parse_request_key_message_def parse_i32_show_int split: option.splits)

lemma parse_answer_key_fields:
  "wf_message (MsgAnswerKey m) \<Longrightarrow> parse_answer_key_message (message_fields (MsgAnswerKey m)) = Inr m"
  by (cases m) (simp add: parse_answer_key_message_def)

lemma parse_metakey_fields:
  "wf_message (MsgMetaKey m) \<Longrightarrow> parse_metakey_message (message_fields (MsgMetaKey m)) = Inr m"
  by (cases m) (simp add: parse_metakey_message_def)

lemma parse_id_fields:
  "wf_message (MsgId m) \<Longrightarrow> parse_id_message (message_fields (MsgId m)) = Inr m"
  by (cases m) (auto simp: parse_id_message_def)

lemma parse_mtu_fields:
  "wf_message (MsgMtuInfo m) \<Longrightarrow> parse_mtu_info_message (message_fields (MsgMtuInfo m)) = Inr m"
  by (cases m) (simp add: parse_mtu_info_message_def DEFAULT_MTU_def MIN_MTU_def)

lemma parse_udp_fields:
  "wf_message (MsgUdpInfo m) \<Longrightarrow> parse_udp_info_message (message_fields (MsgUdpInfo m)) = Inr m"
  by (cases m) (simp add: parse_udp_info_message_def)

lemma parse_tcp_fields: "n \<le> 32767 \<Longrightarrow> parse_tcp_packet_message [show_nat n] = Inr n"
  by (simp add: parse_tcp_packet_message_def)

lemma parse_delete_edge_fields:
  "wf_message (MsgDeleteEdge m) \<Longrightarrow> parse_delete_edge_message (message_fields (MsgDeleteEdge m)) = Inr m"
  by (cases m) (simp add: parse_delete_edge_message_def)

lemma parse_key_changed_fields:
  "wf_message (MsgKeyChanged m) \<Longrightarrow> parse_key_changed_message (message_fields (MsgKeyChanged m)) = Inr m"
  by (cases m) (simp add: parse_key_changed_message_def)

lemma parse_show_message:
  assumes "wf_message m"
  shows "parse_meta_message (show_meta_message m) = Inr m"
proof -
  obtain line where l: "parse_request_line (show_meta_message m) = Inr line"
    "rl_request line = message_request m" "split_whitespace (rl_arguments line) = message_fields m"
    using request_line_show [OF message_fields_tokens [OF assms], of "message_request m"]
    by (auto simp: show_meta_message_def)
  show ?thesis
    using l assms
    by (cases m) (simp_all add: parse_meta_message_def parse_ack_fields parse_subnet_fields
        parse_add_edge_fields parse_request_key_fields parse_answer_key_fields parse_metakey_fields
        parse_id_fields parse_mtu_fields parse_udp_fields parse_tcp_fields parse_delete_edge_fields
        parse_key_changed_fields del: wf_message.simps message_fields.simps,
      simp_all add: parse_subnet_fields parse_tcp_fields)
qed

section \<open>What the parser accepts\<close>

lemma ws_len_prefix: "ws_len (s @ t) = 0 \<Longrightarrow> s \<noteq> [] \<Longrightarrow> ws_len s = 0"
proof -
  assume z: "ws_len (s @ t) = 0" and n: "s \<noteq> []"
  obtain c s1 where s: "s = c # s1" using n by (cases s) auto
  show ?thesis
  proof (cases s1)
    case Nil
    with z s show ?thesis by (auto simp: ws_len_def split: list.splits if_splits)
  next
    case (Cons d s2)
    with z s show ?thesis by (cases s2) (auto simp: ws_len_def split: if_splits list.splits)
  qed
qed

lemma no_ws_snoc: "no_ws (u @ v) \<Longrightarrow> no_ws u"
proof (induction u)
  case (Cons c u)
  then have "ws_len ((c # u) @ v) = 0" by simp
  from ws_len_prefix [OF this] Cons show ?case by simp
qed simp

text \<open>Inside \<open>split_ws\<close> the current piece has no white space at its positions in the line.\<close>

fun clean :: "string \<Rightarrow> string \<Rightarrow> bool" where
  "clean [] t = True"
| "clean (c # s) t = (ws_len (c # s @ t) = 0 \<and> clean s t)"

lemma clean_no_ws: "clean s t \<Longrightarrow> no_ws s"
proof (induction s)
  case (Cons c s)
  then have "ws_len ((c # s) @ t) = 0" by simp
  from ws_len_prefix [OF this] Cons show ?case by simp
qed simp

lemma clean_snoc: "clean s (c # t) \<Longrightarrow> ws_len (c # t) = 0 \<Longrightarrow> clean (s @ [c]) t"
  by (induction s) auto

lemma split_ws_tokens:
  "(k = 0 \<longrightarrow> clean cur s) \<Longrightarrow> (0 < k \<longrightarrow> cur = []) \<Longrightarrow> \<forall>w \<in> set (split_ws cur k s). token w"
proof (induction cur k s rule: split_ws.induct)
  case (1 cur k)
  then show ?case by (auto simp: token_def intro: clean_no_ws)
next
  case (2 cur k c s)
  then show ?case by simp
next
  case (3 cur c s)
  show ?case
  proof (cases "ws_len (c # s)")
    case 0
    then have "clean (cur @ [c]) s" using 3 clean_snoc by simp
    with 3 0 show ?thesis by simp
  next
    case (Suc n)
    then have "\<forall>w \<in> set (split_ws [] n s). token w" using 3(2) by simp
    moreover have "cur \<noteq> [] \<Longrightarrow> token cur" using 3(3) clean_no_ws by (auto simp: token_def)
    ultimately show ?thesis using Suc by simp
  qed
qed

lemma split_whitespace_tokens: "\<forall>w \<in> set (split_whitespace s). token w"
  unfolding split_whitespace_def by (rule split_ws_tokens) simp_all

lemma next_field_Inr: "next_field fs n = Inr (f, r) \<longleftrightarrow> fs = f # r"
  by (auto simp: next_field_def split: list.splits)

lemma parse_i32_range: "parse_i32 s = Some v \<Longrightarrow> in_i32 v"
  by (auto simp: parse_i32_def Let_def split: if_splits option.splits)

lemma parse_i32_field_range: "parse_i32_field f s = Inr v \<Longrightarrow> in_i32 v"
  by (auto simp: parse_i32_field_def ok_or_Inr parse_i32_range)

lemma parse_u64_field_range: "parse_u64_field f s = Inr v \<Longrightarrow> v \<le> u64_max"
proof -
  have "parse_unsigned 10 u64_max d = Some n \<Longrightarrow> n \<le> u64_max" for d n
    by (auto simp: parse_unsigned_def Let_def split: if_splits option.splits)
  moreover have "x mod (u64_max + 1) \<le> u64_max" for x
    using mod_less_divisor [of "u64_max + 1" x] by linarith
  ultimately show "parse_u64_field f s = Inr v \<Longrightarrow> v \<le> u64_max"
    by (fastforce simp: parse_u64_field_def Let_def split: if_splits option.splits)
qed

lemma validate_node_name_Inr: "validate_node_name n = Inr u \<longleftrightarrow> check_id n"
  by (auto simp: validate_node_name_def)

lemma validate_edge_names_Inr: "validate_edge_names f t = Inr u \<longleftrightarrow> wf_edge_names f t"
  by (auto simp: validate_edge_names_def and_then_Inr validate_node_name_Inr wf_edge_names_def split: if_splits)

lemma trailing_endpoint_Inr:
  "trailing_endpoint e fs = Inr a \<Longrightarrow> \<forall>w \<in> set fs. token w \<Longrightarrow> case a of None \<Rightarrow> True | Some l \<Rightarrow> wf_endpoint l"
  by (auto simp: trailing_endpoint_def wf_endpoint_def split: list.splits)

lemma parse_protocol_version_range:
  "parse_protocol_version v = Inr (a, b) \<Longrightarrow> in_i32 a \<and> (case b of None \<Rightarrow> True | Some m \<Rightarrow> in_i32 m)"
  by (auto simp: parse_protocol_version_def result_Inr parse_i32_field_range
      split: option.splits prod.splits if_splits)

lemmas parsed_simps = result_Inr next_field_Inr validate_node_name_Inr validate_edge_names_Inr
lemmas parsed_ranges = parse_i32_field_range parse_u64_field_range trailing_endpoint_Inr parse_i32_range

text \<open>The minor version a printed identification carries.\<close>

fun explicit_minor :: "meta_message \<Rightarrow> meta_message" where
  "explicit_minor (MsgId m) =
     MsgId (m\<lparr>id_protocol_minor := Some (case id_protocol_minor m of Some v \<Rightarrow> v | None \<Rightarrow> 0)\<rparr>)"
| "explicit_minor m = m"

lemma parsed_id: "parse_id_message fs = Inr m \<Longrightarrow> \<forall>w \<in> set fs. token w \<Longrightarrow> wf_message (explicit_minor (MsgId m))"
  by (auto simp: parse_id_message_def parsed_simps in_i32_def i32_min_def i32_max_def
      split: if_splits option.splits dest!: parse_protocol_version_range)

lemma parsed_metakey: "parse_metakey_message fs = Inr m \<Longrightarrow> \<forall>w \<in> set fs. token w \<Longrightarrow> wf_message (MsgMetaKey m)"
  by (auto simp: parse_metakey_message_def parsed_simps parsed_ranges)

lemma parsed_ack: "parse_ack_message fs = Inr m \<Longrightarrow> \<forall>w \<in> set fs. token w \<Longrightarrow> wf_message (MsgAck m)"
  by (auto simp: parse_ack_message_def parsed_simps parsed_ranges split: list.splits sum.splits)

lemma parsed_subnet: "parse_subnet_message fs = Inr m \<Longrightarrow> wf_subnet_message m"
  by (auto simp: parse_subnet_message_def parsed_simps wf_subnet_message_def dest!: parse_subnet_ok)

lemma parsed_add_edge: "parse_add_edge_message fs = Inr m \<Longrightarrow> \<forall>w \<in> set fs. token w \<Longrightarrow> wf_message (MsgAddEdge m)"
  by (auto simp: parse_add_edge_message_def parsed_simps parsed_ranges edge_new_def)

lemma parsed_delete_edge: "parse_delete_edge_message fs = Inr m \<Longrightarrow> wf_message (MsgDeleteEdge m)"
  by (auto simp: parse_delete_edge_message_def parsed_simps)

lemma parsed_key_changed: "parse_key_changed_message fs = Inr m \<Longrightarrow> wf_message (MsgKeyChanged m)"
  by (auto simp: parse_key_changed_message_def parsed_simps)

lemma parsed_request_key: "parse_request_key_message fs = Inr m \<Longrightarrow> \<forall>w \<in> set fs. token w \<Longrightarrow> wf_message (MsgRequestKey m)"
proof -
  assume p: "parse_request_key_message fs = Inr m" and t: "\<forall>w \<in> set fs. token w"
  then obtain f g rest where fs: "fs = f # g # rest" by (auto simp: parse_request_key_message_def parsed_simps)
  show ?thesis
  proof (cases rest)
    case Nil
    with p fs show ?thesis by (auto simp: parse_request_key_message_def parsed_simps)
  next
    case (Cons r ps)
    with p fs t show ?thesis
      by (cases "parse_i32 r"; cases ps) (auto simp: parse_request_key_message_def parsed_simps parse_i32_range)
  qed
qed

lemma parsed_answer_key: "parse_answer_key_message fs = Inr m \<Longrightarrow> \<forall>w \<in> set fs. token w \<Longrightarrow> wf_message (MsgAnswerKey m)"
  by (auto simp: parse_answer_key_message_def parsed_simps parsed_ranges)

lemma parsed_udp: "parse_udp_info_message fs = Inr m \<Longrightarrow> \<forall>w \<in> set fs. token w \<Longrightarrow> wf_message (MsgUdpInfo m)"
  by (auto simp: parse_udp_info_message_def parsed_simps wf_endpoint_def)

lemma parsed_mtu: "parse_mtu_info_message fs = Inr m \<Longrightarrow> wf_message (MsgMtuInfo m)"
  by (auto simp: parse_mtu_info_message_def parsed_simps DEFAULT_MTU_def MIN_MTU_def split: if_splits)

lemma parsed_tcp: "parse_tcp_packet_message fs = Inr n \<Longrightarrow> n \<le> 32767"
  by (auto simp: parse_tcp_packet_message_def parsed_simps split: if_splits)

lemma parsed_message:
  assumes "parse_meta_message raw = Inr m"
  shows "wf_message (explicit_minor m)"
proof -
  obtain line where l: "parse_request_line raw = Inr line"
    using assms by (auto simp: parse_meta_message_def result_Inr)
  have t: "\<forall>w \<in> set (split_whitespace (rl_arguments line)). token w" by (rule split_whitespace_tokens)
  note parsed = parsed_id parsed_metakey parsed_ack parsed_subnet parsed_add_edge parsed_delete_edge
    parsed_key_changed parsed_request_key parsed_answer_key parsed_udp parsed_mtu parsed_tcp
  show ?thesis
    using assms l t
    by (cases "rl_request line")
      (auto simp: parse_meta_message_def Let_def map_ok_Inr next_field_Inr
        simp del: wf_message.simps dest!: parsed, simp_all)
qed

lemma show_explicit_minor: "show_meta_message (explicit_minor m) = show_meta_message m"
  by (cases m) (simp_all add: show_meta_message_def show_version_def)

section \<open>Properties\<close>

text \<open>
  C15: every well-formed message of the meta protocol is read back exactly from the line it is
  printed as: all nineteen kinds, with their optional trailing fields, hexadecimal options,
  subnets and versions.
\<close>

theorem meta_message_roundtrip:
  assumes "wf_message m"
  shows "parse_meta_message (show_meta_message m) = Inr m"
  using assms by (rule parse_show_message)

theorem meta_message_roundtrip_witness:
  "parse_meta_message (show_meta_message (MsgMtuInfo \<lparr>mi_from = ''a'', mi_to = ''b'', mi_mtu = 1400\<rparr>))
     = Inr (MsgMtuInfo \<lparr>mi_from = ''a'', mi_to = ''b'', mi_mtu = 1400\<rparr>)"
  by (rule meta_message_roundtrip)
    (simp add: check_id_def is_ascii_alphanumeric_def is_ascii_alpha_def code_def MIN_MTU_def DEFAULT_MTU_def)

text \<open>
  Whatever line the parser accepts, the message is valid: node names are identifiers (or one
  of the two special connection names), no edge leads from a node to itself, subnets are well
  formed and ownerless, lengths and MTUs are within their bounds; and printing the message
  gives a line that parses to the same message, an omitted minor version being written as 0.
\<close>

theorem parsed_message_valid:
  assumes "parse_meta_message raw = Inr m"
  shows "wf_message (explicit_minor m) \<and> parse_meta_message (show_meta_message m) = Inr (explicit_minor m)"
  using parsed_message [OF assms] parse_show_message [of "explicit_minor m"]
  by (simp add: show_explicit_minor)

theorem parsed_message_valid_witness:
  "parse_meta_message (show_meta_message (MsgId \<lparr>id_name = ''a'', id_protocol_major = 17, id_protocol_minor = None\<rparr>))
     = Inr (MsgId \<lparr>id_name = ''a'', id_protocol_major = 17, id_protocol_minor = Some 0\<rparr>)"
proof -
  have "parse_meta_message ''0 a 17''
      = Inr (MsgId \<lparr>id_name = ''a'', id_protocol_major = 17, id_protocol_minor = None\<rparr>)"
    by code_simp
  from parsed_message_valid [OF this] show ?thesis by simp
qed

text \<open>
  Request numbers and requests correspond one to one between 0 and 23, every other number is
  unknown, and only the four requests without a handler are refused for dispatch; the table
  lists the entries in the order of their numbers.
\<close>

theorem request_numbers:
  "request_from_number (request_number r) = Some r
   \<and> (request_from_number n = None \<longleftrightarrow> n < 0 \<or> LAST_GUARDIAN \<le> n)
   \<and> (request_from_number n = Some q \<longrightarrow> request_number q = n)
   \<and> map re_request REQUESTS ! nat (request_number r) = r
   \<and> (parse_dispatchable_request_line raw = Inr line \<longleftrightarrow>
        parse_request_line raw = Inr line
        \<and> rl_request line \<notin> {ReqStatus, ReqError, ReqRequestPublicKey, ReqAnswerPublicKey})"
proof -
  have "request_from_number n = None \<longleftrightarrow> n < 0 \<or> LAST_GUARDIAN \<le> n"
    unfolding request_from_number_def LAST_GUARDIAN_def by (simp, presburger)
  moreover have "request_from_number n = Some q \<longrightarrow> request_number q = n"
    by (auto simp: request_from_number_def split: if_splits)
  moreover have "map re_request REQUESTS ! nat (request_number r) = r"
    by (cases r) (simp_all add: REQUESTS_def entry_def nth_Cons')
  moreover have "parse_dispatchable_request_line raw = Inr line \<longleftrightarrow>
        parse_request_line raw = Inr line
        \<and> rl_request line \<notin> {ReqStatus, ReqError, ReqRequestPublicKey, ReqAnswerPublicKey}"
    by (auto simp: parse_dispatchable_request_line_def and_then_Inr has_handler_def split: if_splits)
  ultimately show ?thesis by simp
qed

theorem request_numbers_witness: "request_number ReqUdpInfo = 22 \<and> request_from_number 24 = None"
proof -
  have "request_from_number 22 = Some ReqUdpInfo" by (simp add: request_from_number_def)
  with request_numbers [of ReqId 22 ReqUdpInfo] request_numbers [of ReqId 24] show ?thesis
    by (simp add: LAST_GUARDIAN_def)
qed

text \<open>
  The SPTPS data put into a key request, a relayed packet or a handshake answer, printed as a
  line, parsed and decoded on the other side is the same data, with its kind and its sender.
\<close>

theorem sptps_payload_roundtrip:
  "decode_request_key (sptps_initial_request f t data)
     = Inr \<lparr>kp_from = f, kp_to = t, kp_kind = InitialRequest, kp_data = data,
            kp_compression = None, kp_address = None\<rparr>
   \<and> decode_request_key (sptps_tcp_packet f t data)
     = Inr \<lparr>kp_from = f, kp_to = t, kp_kind = SptpsTcpPayload, kp_data = data,
            kp_compression = None, kp_address = None\<rparr>
   \<and> decode_answer_key (answer_with_address a p (sptps_handshake f t data c))
     = Inr \<lparr>kp_from = f, kp_to = t, kp_kind = HandshakeAnswer, kp_data = data,
            kp_compression = Some c, kp_address = Some \<lparr>ea_address = a, ea_port = p\<rparr>\<rparr>"
  using b64decode_encode [of BASE64_ORIGINAL data]
  by (simp add: decode_request_key_def sptps_initial_request_def sptps_tcp_packet_def request_from_number_def
      decode_answer_key_def answer_with_address_def sptps_handshake_def is_sptps_handshake_def
      b64encode_tinc_def alphabet_def)

section \<open>The cache of past requests\<close>

text \<open>A run of the cache: the answers to a sequence of requests with their times.\<close>

fun cache_run :: "past_request_cache \<Rightarrow> (string \<times> nat) list \<Rightarrow> bool list \<times> past_request_cache" where
  "cache_run c [] = ([], c)"
| "cache_run c ((req, now) # evs) =
     (case mark_seen req now c of (seen, c1) \<Rightarrow>
        (case cache_run c1 evs of (rs, c2) \<Rightarrow> (seen # rs, c2)))"

text \<open>What the cache knows after a run: the last accepted time of each request.\<close>

definition cache_knows :: "past_request_cache \<Rightarrow> nat \<Rightarrow> (string \<rightharpoonup> nat) \<Rightarrow> bool" where
  "cache_knows c now acc \<longleftrightarrow> bt_ok (pc_entries c)
     \<and> (\<forall>r t. bt_get (pc_entries c) r = Some t \<longrightarrow> acc r = Some t)
     \<and> (\<forall>r t. acc r = Some t \<and> now < t + pc_retention c \<longrightarrow> bt_get (pc_entries c) r = Some t)"

lemma mark_seen_step:
  assumes "cache_knows c now0 acc" "now0 \<le> now" "\<forall>r t. acc r = Some t \<longrightarrow> t \<le> now0"
    and "now + pc_retention c < u64_max" "mark_seen req now c = (seen, c')"
  shows "(seen \<longleftrightarrow> (\<exists>t. acc req = Some t \<and> now < t + pc_retention c))
    \<and> pc_retention c' = pc_retention c
    \<and> cache_knows c' now (if seen then acc else acc(req \<mapsto> now))"
proof -
  have ok: "bt_ok (pc_entries c)" using assms(1) by (simp add: cache_knows_def)
  let ?es = "pc_entries (snd (cache_age now c))"
  have lim: "acc r = Some t \<Longrightarrow> min u64_max (t + pc_retention c) = t + pc_retention c" for r t
  proof -
    assume "acc r = Some t"
    then have "t \<le> now0" using assms(3) by blast
    then have "t + pc_retention c \<le> u64_max" using assms(2,4) by linarith
    then show ?thesis by simp
  qed
  have es: "bt_get ?es r = Some t \<longleftrightarrow> bt_get (pc_entries c) r = Some t \<and> now < t + pc_retention c" for r t
  proof (cases "bt_get (pc_entries c) r")
    case None
    then show ?thesis by (simp add: cache_age_def Let_def bt_get_retain [OF ok])
  next
    case (Some u)
    then have "acc r = Some u" using assms(1) unfolding cache_knows_def by blast
    from lim [OF this] Some show ?thesis
      by (auto simp: cache_age_def Let_def bt_get_retain [OF ok] split: if_splits)
  qed
  have es_ok: "bt_ok ?es" using ok by (simp add: cache_age_def Let_def bt_ok_retain)
  have ret: "pc_retention (snd (cache_age now c)) = pc_retention c" by (simp add: cache_age_def Let_def)
  have known: "acc r = Some t \<and> now < t + pc_retention c \<longleftrightarrow> bt_get ?es r = Some t" for r t
  proof
    assume "acc r = Some t \<and> now < t + pc_retention c"
    moreover from this have "bt_get (pc_entries c) r = Some t"
      using assms(1,2) unfolding cache_knows_def by (meson le_less_trans)
    ultimately show "bt_get ?es r = Some t" using es by blast
  next
    assume "bt_get ?es r = Some t"
    then have "bt_get (pc_entries c) r = Some t \<and> now < t + pc_retention c" using es by blast
    then show "acc r = Some t \<and> now < t + pc_retention c"
      using assms(1) unfolding cache_knows_def by blast
  qed
  have seen: "seen \<longleftrightarrow> (\<exists>t. bt_get ?es req = Some t)"
    using assms(5) by (auto simp: mark_seen_def Let_def bt_contains_iff split: if_splits)
  have c': "c' = (if seen then snd (cache_age now c)
      else (snd (cache_age now c))\<lparr>pc_entries := bt_insert req now ?es\<rparr>)"
    using assms(5) by (auto simp: mark_seen_def Let_def split: if_splits)
  show ?thesis
  proof (cases seen)
    case True
    then have "cache_knows c' now acc"
      unfolding cache_knows_def c' using es_ok ret known by simp metis
    with True c' ret known seen show ?thesis by auto
  next
    case False
    then have "cache_knows c' now (acc(req \<mapsto> now))"
      unfolding cache_knows_def c' using es_ok ret known by (simp add: bt_ok_insert bt_get_insert) metis
    with False c' ret known seen show ?thesis by auto
  qed
qed

text \<open>
  The promise of the cache: a request is a duplicate exactly when it was last let through less
  than the retention period ago.
\<close>

fun duplicates :: "(string \<rightharpoonup> nat) \<Rightarrow> nat \<Rightarrow> (string \<times> nat) list \<Rightarrow> bool list" where
  "duplicates acc retention [] = []"
| "duplicates acc retention ((req, now) # evs) =
     (let dup = (case acc req of Some t \<Rightarrow> now < t + retention | None \<Rightarrow> False)
      in dup # duplicates (if dup then acc else acc(req \<mapsto> now)) retention evs)"

lemma cache_run_duplicates:
  assumes "cache_knows c now0 acc" "\<forall>r t. acc r = Some t \<longrightarrow> t \<le> now0"
    and "sorted (now0 # map snd evs)" "\<forall>(r, now) \<in> set evs. now + pc_retention c < u64_max"
  shows "fst (cache_run c evs) = duplicates acc (pc_retention c) evs"
  using assms
proof (induction evs arbitrary: c now0 acc)
  case (Cons ev evs)
  obtain req now where ev: "ev = (req, now)" by (cases ev)
  obtain seen c1 where m: "mark_seen req now c = (seen, c1)" by (cases "mark_seen req now c")
  have now: "now0 \<le> now" "now + pc_retention c < u64_max" using Cons.prems by (auto simp: ev)
  have s: "seen \<longleftrightarrow> (\<exists>t. acc req = Some t \<and> now < t + pc_retention c)"
    "pc_retention c1 = pc_retention c" "cache_knows c1 now (if seen then acc else acc(req \<mapsto> now))"
    using mark_seen_step [OF Cons.prems(1) now(1) Cons.prems(2) now(2) m] by auto
  have "fst (cache_run c1 evs) = duplicates (if seen then acc else acc(req \<mapsto> now)) (pc_retention c1) evs"
  proof (rule Cons.IH [OF s(3)])
    show "\<forall>r t. (if seen then acc else acc(req \<mapsto> now)) r = Some t \<longrightarrow> t \<le> now"
      using Cons.prems(2) now(1) by (auto split: if_splits intro: order_trans)
    show "sorted (now # map snd evs)" using Cons.prems(3) by (auto simp: ev)
    show "\<forall>(r, now) \<in> set evs. now + pc_retention c1 < u64_max" using Cons.prems(4) s(2) by simp
  qed
  moreover have "(case acc req of Some t \<Rightarrow> now < t + pc_retention c | None \<Rightarrow> False) = seen"
    using s(1) by (auto split: option.splits)
  ultimately show ?case using s(2) by (simp add: ev m case_prod_beta Let_def)
qed simp

text \<open>
  Over any sequence of requests with non-decreasing times, the cache lets a request through
  exactly when it has not been let through within the retention period, so a flooded message is
  forwarded at most once per period and is not forgotten earlier.
\<close>

theorem past_request_cache_refines:
  assumes "sorted (map snd evs)" "\<forall>(r, now) \<in> set evs. now + retention < u64_max"
  shows "fst (cache_run (cache_new retention) evs) = duplicates Map.empty retention evs"
proof -
  have "cache_knows (cache_new retention) 0 Map.empty" by (simp add: cache_knows_def cache_new_def)
  from cache_run_duplicates [OF this _ _ , of evs] assms show ?thesis by (simp add: cache_new_def)
qed

theorem past_request_cache_refines_witness:
  "fst (cache_run (cache_new 60) [(''10 1 a'', 5), (''10 1 a'', 64), (''10 1 a'', 65)]) = [False, True, False]"
  using past_request_cache_refines [of "[(''10 1 a'', 5), (''10 1 a'', 64), (''10 1 a'', 65)]" 60]
  by (simp add: u64_max_def)

end
