(* ===== verification/Graph_Routes.thy ===== *)
theory Graph_Routes
  imports Mesh_Graph
begin

text \<open>
  Correctness of the route search: it ends on every graph, visits exactly the nodes connected
  to the local node by edges present in both directions, and leaves a next hop, a relay
  (\<open>via\<close>) and a previous edge that lie on such connections.
\<close>

section \<open>The graph invariant\<close>

definition graph_ok :: "graph \<Rightarrow> bool" where
  "graph_ok g \<longleftrightarrow> bt_ok (g_nodes g) \<and> bt_ok (g_edges g) \<and> bt_ok (g_mst g)
     \<and> (\<forall>k n. bt_get (g_nodes g) k = Some n \<longrightarrow> n_name n = k)
     \<and> (\<forall>k e. bt_get (g_edges g) k = Some e \<longrightarrow> edge_key_of e = k
          \<and> bt_contains (g_nodes g) (e_from e) \<and> bt_contains (g_nodes g) (e_to e))
     \<and> (\<forall>k. bt_contains (g_mst g) k \<longrightarrow> bt_contains (g_edges g) k)
     \<and> bt_contains (g_nodes g) (g_myself g)"

text \<open>Links: edges present in both directions; direct ones do not carry the indirect option.\<close>

definition linked :: "(edge_key, edge) btree \<Rightarrow> string \<Rightarrow> string \<Rightarrow> bool" where
  "linked es a b \<longleftrightarrow> bt_contains es (EdgeKey a b) \<and> bt_contains es (EdgeKey b a)"

definition direct_link :: "(edge_key, edge) btree \<Rightarrow> string \<Rightarrow> string \<Rightarrow> bool" where
  "direct_link es a b \<longleftrightarrow> linked es a b
     \<and> (\<exists>e. bt_get es (EdgeKey a b) = Some e \<and> e_options e AND OPTION_INDIRECT = 0)"

abbreviation connected :: "graph \<Rightarrow> string \<Rightarrow> string \<Rightarrow> bool" where
  "connected g \<equiv> (linked (g_edges g))\<^sup>*\<^sup>*"

definition visited :: "graph \<Rightarrow> string \<Rightarrow> bool" where
  "visited g n \<longleftrightarrow> (\<exists>nd. graph_node g n = Some nd \<and> st_visited (n_status nd))"

definition source_of :: "node \<Rightarrow> route_source option" where
  "source_of nd =
     (let r = n_route nd
      in case (rt_distance r, rt_weighted r, rt_next_hop r, rt_via r) of
           (Some d, Some w, Some h, Some v) \<Rightarrow>
             Some \<lparr>rs_indirect = st_indirect (n_status nd), rs_distance = d, rs_weighted = w,
               rs_next_hop = h, rs_via = v\<rparr>
         | _ \<Rightarrow> None)"

lemma route_source_state_of:
  "route_source_state g n = (case graph_node g n of None \<Rightarrow> None | Some nd \<Rightarrow> source_of nd)"
  by (cases "graph_node g n") (simp_all add: route_source_state_def source_of_def Let_def)

lemma source_of_Some:
  "source_of nd = Some src \<longleftrightarrow> rt_distance (n_route nd) = Some (rs_distance src)
     \<and> rt_weighted (n_route nd) = Some (rs_weighted src)
     \<and> rt_next_hop (n_route nd) = Some (rs_next_hop src)
     \<and> rt_via (n_route nd) = Some (rs_via src) \<and> st_indirect (n_status nd) = rs_indirect src"
  by (auto simp: source_of_def Let_def split: option.splits)

text \<open>What the route of a visited node promises.\<close>

definition source_ok :: "(edge_key, edge) btree \<Rightarrow> string \<Rightarrow> string \<Rightarrow> route_source \<Rightarrow> bool" where
  "source_ok es myself n src \<longleftrightarrow>
     (linked es)\<^sup>*\<^sup>* myself n
     \<and> (direct_link es)\<^sup>*\<^sup>* myself (rs_via src) \<and> (\<not> rs_indirect src \<longrightarrow> rs_via src = n)
     \<and> (if n = myself then rs_next_hop src = myself
        else rs_next_hop src \<noteq> myself \<and> linked es myself (rs_next_hop src)
             \<and> (linked es)\<^sup>*\<^sup>* (rs_next_hop src) n)
     \<and> in_i32 (rs_weighted src)
     \<and> (\<exists>k. (linked es ^^ k) myself n \<and> rs_distance src = i32_wrap (int k))"

definition routes_ok :: "graph \<Rightarrow> bool" where
  "routes_ok g \<longleftrightarrow>
     (\<forall>n nd. graph_node g n = Some nd \<and> st_visited (n_status nd) \<longrightarrow>
        (\<exists>src. source_of nd = Some src \<and> source_ok (g_edges g) (g_myself g) n src)
        \<and> (n \<noteq> g_myself g \<longrightarrow> (\<exists>p. rt_previous_edge (n_route nd) = Some (EdgeKey p n)
              \<and> linked (g_edges g) p n \<and> visited g p)))"

definition closed_except :: "graph \<Rightarrow> string set \<Rightarrow> bool" where
  "closed_except g Q \<longleftrightarrow>
     (\<forall>n m. visited g n \<and> n \<notin> Q \<and> linked (g_edges g) n m \<longrightarrow> visited g m)"

definition search_ok :: "graph \<Rightarrow> string list \<Rightarrow> string set \<Rightarrow> bool" where
  "search_ok g queue open_ns \<longleftrightarrow> graph_ok g \<and> routes_ok g \<and> visited g (g_myself g)
     \<and> (\<forall>n \<in> set queue. visited g n) \<and> closed_except g (set queue \<union> open_ns)"

text \<open>Nothing but the nodes' contents changes.\<close>

definition same_mesh :: "graph \<Rightarrow> graph \<Rightarrow> bool" where
  "same_mesh g g' \<longleftrightarrow> g_edges g' = g_edges g \<and> g_myself g' = g_myself g \<and> g_mst g' = g_mst g
     \<and> map fst (g_nodes g') = map fst (g_nodes g)"

lemma same_mesh_refl [simp]: "same_mesh g g"
  by (simp add: same_mesh_def)

lemma same_mesh_trans: "same_mesh g h \<Longrightarrow> same_mesh h k \<Longrightarrow> same_mesh g k"
  by (simp add: same_mesh_def)

lemma same_mesh_contains: "same_mesh g g' \<Longrightarrow> bt_contains (g_nodes g') n = bt_contains (g_nodes g) n"
  unfolding same_mesh_def bt_contains_keys by (metis list.set_map)

section \<open>The termination measure\<close>

definition node_rank :: "node \<Rightarrow> nat" where
  "node_rank n =
     (if \<not> st_visited (n_status n) then 2 ^ 34
      else 2 * nat ((case rt_weighted (n_route n) of Some w \<Rightarrow> w | None \<Rightarrow> 0) + 2 ^ 31)
           + (if st_indirect (n_status n) then 1 else 0))"

definition graph_rank :: "graph \<Rightarrow> nat" where
  "graph_rank g = sum_list (map (\<lambda>(_, n). node_rank n) (g_nodes g))"

lemma sum_list_adjust_less:
  fixes r :: "'v \<Rightarrow> nat"
  assumes "bt_ok m" "bt_get m k = Some v" "r (f v) < r v"
  shows "sum_list (map (\<lambda>(_, n). r n) (bt_adjust k f m)) < sum_list (map (\<lambda>(_, n). r n) m)"
  using assms(1,2)
proof (induction m)
  case (Cons a m)
  obtain k' v' where a: "a = (k', v')" by (cases a)
  show ?case
  proof (cases "k' = k")
    case True
    have "bt_adjust k f m = m"
      using Cons.prems(1) True by (auto simp: a bt_ok_Cons bt_adjust_def intro!: map_idI)
    with True Cons.prems(2) assms(3) show ?thesis by (simp add: a bt_adjust_def bt_get_def)
  next
    case False
    with Cons have "sum_list (map (\<lambda>(_, n). r n) (bt_adjust k f m)) < sum_list (map (\<lambda>(_, n). r n) m)"
      by (simp add: a bt_ok_Cons bt_get_def)
    with False show ?thesis by (simp add: a bt_adjust_def)
  qed
qed simp

lemma rank_node_mut:
  "bt_ok (g_nodes g) \<Longrightarrow> graph_node g n = Some nd \<Longrightarrow> node_rank (f nd) < node_rank nd
    \<Longrightarrow> graph_rank (node_mut n f g) < graph_rank g"
  unfolding graph_rank_def node_mut_def graph_node_def
  using sum_list_adjust_less [of "g_nodes g" n nd node_rank f] by simp

lemma node_rank_visited_less:
  assumes "in_i32 w"
  shows "2 * nat (w + 2 ^ 31) + 1 < 2 ^ 34"
proof -
  have "nat (w + 2 ^ 31) < 2 ^ 32" using assms by (simp add: in_i32_def i32_min_def i32_max_def nat_less_iff)
  then show ?thesis by simp
qed

text \<open>A relaxation that is not refused lowers the rank of the node it writes.\<close>

lemma relaxed_node_rank:
  assumes "\<not> should_keep_existing_route nd indirect d w" "in_i32 w"
    and "st_visited (n_status nd) \<Longrightarrow> \<exists>c. rt_weighted (n_route nd) = Some c \<and> in_i32 c"
  shows "node_rank (relaxed_node myself src e indirect d w nd) < node_rank nd"
proof (cases "st_visited (n_status nd)")
  case False
  then show ?thesis
    using node_rank_visited_less [OF assms(2)] by (simp add: node_rank_def relaxed_node_def Let_def)
next
  case True
  then obtain c where c: "rt_weighted (n_route nd) = Some c" "in_i32 c" using assms(3) by blast
  show ?thesis
  proof (cases "w < c \<and> rt_distance (n_route nd) = Some d")
    case less: True
    have "nat (w + 2 ^ 31) < nat (c + 2 ^ 31)"
      using less assms(2) by (simp add: in_i32_def i32_min_def)
    then have "2 * nat (w + 2 ^ 31) + 1 < 2 * nat (c + 2 ^ 31)" by linarith
    moreover have "0 < c + 2 ^ 31" using less assms(2) by (simp add: in_i32_def i32_min_def)
    ultimately show ?thesis using True c(1) less by (simp add: node_rank_def relaxed_node_def Let_def)
  next
    case False
    with True c(1) assms(1) have "st_indirect (n_status nd)" "\<not> indirect"
      by (auto simp: should_keep_existing_route_def not_less)
    with True c(1) False show ?thesis by (auto simp: node_rank_def relaxed_node_def Let_def)
  qed
qed

section \<open>One relaxation\<close>

lemma graph_node_mut:
  "graph_node (node_mut n f g) m = (if m = n then map_option f (graph_node g m) else graph_node g m)"
  by (simp add: graph_node_def node_mut_def bt_get_adjust)

lemma same_mesh_node_mut: "same_mesh g (node_mut n f g)"
  by (simp add: same_mesh_def node_mut_def)

lemma graph_ok_node_mut:
  "graph_ok g \<Longrightarrow> (\<And>nd. n_name (f nd) = n_name nd) \<Longrightarrow> graph_ok (node_mut n f g)"
  by (auto simp: graph_ok_def node_mut_def bt_get_adjust split: if_splits)

lemma graph_ok_edge:
  assumes "graph_ok g" "e \<in> set (outgoing_edges g n)"
  shows "e_from e = n" "bt_get (g_edges g) (EdgeKey n (e_to e)) = Some e"
    "bt_contains (g_nodes g) (e_to e)"
proof -
  show n: "e_from e = n" using assms(2) by (simp add: outgoing_edges_def)
  have ok: "bt_ok (g_edges g)" using assms(1) by (simp add: graph_ok_def)
  have "e \<in> set (bt_values (g_edges g))" using assms(2) by (simp add: outgoing_edges_def)
  then obtain k where k: "bt_get (g_edges g) k = Some e" using bt_values_mem [OF ok] by blast
  with assms(1) n show "bt_get (g_edges g) (EdgeKey n (e_to e)) = Some e"
    "bt_contains (g_nodes g) (e_to e)"
    by (auto simp: graph_ok_def edge_key_of_def)
qed

lemma outgoing_edge_link:
  assumes "graph_ok g" "e \<in> set (outgoing_edges g n)" "has_reverse_edge g e"
  shows "linked (g_edges g) n (e_to e)"
    and "e_options e AND OPTION_INDIRECT = 0 \<Longrightarrow> direct_link (g_edges g) n (e_to e)"
  using graph_ok_edge [OF assms(1,2)] assms(3)
  by (auto simp: linked_def direct_link_def has_reverse_edge_def key_reverse_def edge_key_of_def
      bt_contains_iff)

lemma linked_outgoing:
  assumes "graph_ok g" "linked (g_edges g) n m"
  shows "\<exists>e \<in> set (outgoing_edges g n). e_to e = m \<and> has_reverse_edge g e"
proof -
  obtain e where e: "bt_get (g_edges g) (EdgeKey n m) = Some e"
    using assms(2) by (auto simp: linked_def bt_contains_iff)
  have ok: "bt_ok (g_edges g)" and k: "edge_key_of e = EdgeKey n m"
    using assms(1) e by (auto simp: graph_ok_def)
  have "e \<in> set (bt_values (g_edges g))" using bt_values_mem [OF ok] e by blast
  with k assms(2) show ?thesis
    by (auto simp: outgoing_edges_def has_reverse_edge_def key_reverse_def linked_def edge_key_of_def)
qed

lemma i32_wrap_add: "i32_wrap (i32_wrap x + y) = i32_wrap (x + y)"
proof -
  have "i32_wrap x + y + 2 ^ 31 = (x + 2 ^ 31) mod 2 ^ 32 + y" by (simp add: i32_wrap_def)
  moreover have "((x + 2 ^ 31) mod 2 ^ 32 + y) mod 2 ^ 32 = (x + 2 ^ 31 + y) mod 2 ^ 32"
    by (rule mod_add_left_eq)
  ultimately show ?thesis by (simp add: i32_wrap_def algebra_simps)
qed

text \<open>The route a relaxation writes keeps its promises when its source does.\<close>

lemma relaxed_source_ok:
  assumes src: "source_ok es my n src" and link: "linked es n m" and m: "m \<noteq> my"
    and dir: "e_options e AND OPTION_INDIRECT = 0 \<Longrightarrow> direct_link es n m" and e: "e_to e = m"
    and old: "st_visited (n_status nd) \<Longrightarrow> \<exists>s. source_of nd = Some s \<and> source_ok es my m s"
    and keep: "indirect = (rs_indirect src \<or> e_options e AND OPTION_INDIRECT \<noteq> 0)"
  shows "\<exists>s. source_of (relaxed_node my src e indirect (i32_wrap (rs_distance src + 1))
      (i32_wrap (rs_weighted src + e_weight e)) nd) = Some s \<and> source_ok es my m s"
proof -
  let ?d = "i32_wrap (rs_distance src + 1)" and ?w = "i32_wrap (rs_weighted src + e_weight e)"
  let ?nd = "relaxed_node my src e indirect ?d ?w nd"
  have conn: "(linked es)\<^sup>*\<^sup>* my m"
    using src link by (auto simp: source_ok_def intro: rtranclp.rtrancl_into_rtrancl)
  obtain k where "(linked es ^^ k) my n" "rs_distance src = i32_wrap (int k)"
    using src by (auto simp: source_ok_def)
  then have dist: "\<exists>k. (linked es ^^ k) my m \<and> ?d = i32_wrap (int k)"
    using link i32_wrap_add [of "int k" 1]
    by (intro exI [of _ "Suc k"]) (auto simp: add.commute)
  let ?h = "if rs_next_hop src = my then m else rs_next_hop src"
  have hop: "?h \<noteq> my \<and> linked es my ?h \<and> (linked es)\<^sup>*\<^sup>* ?h m"
    using src link m by (auto simp: source_ok_def split: if_splits intro: rtranclp.rtrancl_into_rtrancl)
  let ?v = "if indirect then rs_via src else m"
  have via: "(direct_link es)\<^sup>*\<^sup>* my ?v"
    using src dir keep by (auto simp: source_ok_def intro: rtranclp.rtrancl_into_rtrancl)
  define upd where "upd \<longleftrightarrow> (\<not> st_visited (n_status nd) \<or> (rt_distance (n_route nd) = Some ?d
      \<and> (case rt_weighted (n_route nd) of Some current \<Rightarrow> ?w < current | None \<Rightarrow> False)))"
  show ?thesis
  proof (cases upd)
    case True
    then have "source_of ?nd = Some \<lparr>rs_indirect = indirect, rs_distance = ?d, rs_weighted = ?w,
        rs_next_hop = ?h, rs_via = ?v\<rparr>"
      using e by (auto simp: source_of_Some relaxed_node_def Let_def upd_def)
    then show ?thesis
      using conn dist hop via m i32_wrap_range by (simp add: source_ok_def)
  next
    case False
    then have "st_visited (n_status nd)" by (simp add: upd_def)
    then obtain s where s: "source_of nd = Some s" "source_ok es my m s" using old by blast
    then have "source_of ?nd = Some \<lparr>rs_indirect = indirect, rs_distance = ?d,
        rs_weighted = rs_weighted s, rs_next_hop = rs_next_hop s, rs_via = ?v\<rparr>"
      using e False by (auto simp: source_of_Some relaxed_node_def Let_def upd_def)
    then show ?thesis
      using s(2) conn dist via m by (simp add: source_ok_def)
  qed
qed

lemma relaxed_node_fields [simp]:
  "n_name (relaxed_node my src e indirect d w nd) = n_name nd"
  "st_visited (n_status (relaxed_node my src e indirect d w nd))"
  "rt_previous_edge (n_route (relaxed_node my src e indirect d w nd)) = Some (edge_key_of e)"
  by (simp_all add: relaxed_node_def Let_def)

lemma visited_node_mut:
  "graph_node g m = Some nd \<Longrightarrow> st_visited (n_status (f nd))
    \<Longrightarrow> visited (node_mut m f g) n \<longleftrightarrow> n = m \<or> visited g n"
  by (auto simp: visited_def graph_node_mut)

text \<open>The step either changes nothing or marks the target, keeps the invariant and lowers the rank.\<close>

lemma sssp_edge_step:
  assumes ok: "search_ok g queue {n}" and src: "source_ok (g_edges g) (g_myself g) n src"
    and vn: "visited g n" and e: "e \<in> set (outgoing_edges g n)"
    and r: "sssp_edge src e (g, queue) = (g', queue')"
  shows "search_ok g' queue' {n} \<and> same_mesh g g' \<and> (\<forall>k. visited g k \<longrightarrow> visited g' k)
    \<and> (has_reverse_edge g e \<longrightarrow> visited g' (e_to e))
    \<and> (g' = g \<and> queue' = queue \<or> graph_rank g' < graph_rank g)"
proof -
  have g: "graph_ok g" "routes_ok g" "visited g (g_myself g)" using ok by (auto simp: search_ok_def)
  obtain nd where nd: "graph_node g (e_to e) = Some nd"
    using graph_ok_edge(3) [OF g(1) e] by (auto simp: graph_node_def bt_contains_iff)
  let ?d = "i32_wrap (rs_distance src + 1)" and ?w = "i32_wrap (rs_weighted src + e_weight e)"
  let ?i = "rs_indirect src \<or> e_options e AND OPTION_INDIRECT \<noteq> 0"
  let ?f = "relaxed_node (g_myself g) src e ?i ?d ?w"
  consider (skip) "e_to e = g_myself g \<or> \<not> has_reverse_edge g e"
    | (keep) "e_to e \<noteq> g_myself g" "has_reverse_edge g e" "should_keep_existing_route nd ?i ?d ?w"
    | (relax) "e_to e \<noteq> g_myself g" "has_reverse_edge g e" "\<not> should_keep_existing_route nd ?i ?d ?w"
    by blast
  then show ?thesis
  proof cases
    case skip
    with r have "g' = g" "queue' = queue" by (auto simp: sssp_edge_def)
    with ok skip g(3) show ?thesis by auto
  next
    case keep
    with r nd have "g' = g" "queue' = queue" by (auto simp: sssp_edge_def Let_def)
    moreover have "visited g (e_to e)"
      using keep(3) nd by (simp add: should_keep_existing_route_def visited_def)
    ultimately show ?thesis using ok by simp
  next
    case relax
    with r nd have g': "g' = node_mut (e_to e) ?f g" "queue' = queue @ [e_to e]"
      by (auto simp: sssp_edge_def Let_def)
    have link: "linked (g_edges g) n (e_to e)"
      and dir: "e_options e AND OPTION_INDIRECT = 0 \<Longrightarrow> direct_link (g_edges g) n (e_to e)"
      using outgoing_edge_link [OF g(1) e relax(2)] by blast+
    have vis: "visited g' k \<longleftrightarrow> k = e_to e \<or> visited g k" for k
      unfolding g' by (rule visited_node_mut [OF nd]) simp
    have old: "\<exists>s. source_of nd = Some s \<and> source_ok (g_edges g) (g_myself g) (e_to e) s"
      if "st_visited (n_status nd)" using that g(2) nd by (auto simp: routes_ok_def)
    have new: "\<exists>s. source_of (?f nd) = Some s \<and> source_ok (g_edges g) (g_myself g) (e_to e) s"
      using relaxed_source_ok [OF src link relax(1) dir refl old refl] .
    have mesh: "same_mesh g g'" unfolding g' by (rule same_mesh_node_mut)
    have es: "g_edges g' = g_edges g" "g_myself g' = g_myself g" using mesh by (auto simp: same_mesh_def)
    have key: "edge_key_of e = EdgeKey n (e_to e)"
      using graph_ok_edge(1) [OF g(1) e] by (simp add: edge_key_of_def)
    have "routes_ok g'"
      unfolding routes_ok_def es
    proof (intro allI impI)
      fix k x assume k: "graph_node g' k = Some x \<and> st_visited (n_status x)"
      show "(\<exists>s. source_of x = Some s \<and> source_ok (g_edges g) (g_myself g) k s)
        \<and> (k \<noteq> g_myself g \<longrightarrow> (\<exists>p. rt_previous_edge (n_route x) = Some (EdgeKey p k)
              \<and> linked (g_edges g) p k \<and> visited g' p))"
      proof (cases "k = e_to e")
        case True
        then have "x = ?f nd" using k nd by (simp add: g' graph_node_mut)
        with new True key link vn vis show ?thesis by simp
      next
        case False
        then have "graph_node g k = Some x" using k by (simp add: g' graph_node_mut)
        with g(2) k vis show ?thesis by (fastforce simp: routes_ok_def)
      qed
    qed
    moreover have "graph_ok g'" unfolding g' by (rule graph_ok_node_mut [OF g(1)]) simp
    moreover have "closed_except g' (set queue' \<union> {n})"
      using ok vis by (auto simp: search_ok_def closed_except_def es g'(2))
    moreover have "\<forall>k \<in> set queue'. visited g' k" using ok vis by (auto simp: search_ok_def g'(2))
    ultimately have "search_ok g' queue' {n}" using g(3) vis es by (simp add: search_ok_def)
    moreover have "graph_rank g' < graph_rank g"
      unfolding g'
    proof (rule rank_node_mut [OF _ nd])
      show "bt_ok (g_nodes g)" using g(1) by (simp add: graph_ok_def)
      show "node_rank (?f nd) < node_rank nd"
        using relaxed_node_rank [OF relax(3) i32_wrap_range] old
        by (auto simp: source_of_Some source_ok_def)
    qed
    ultimately show ?thesis using mesh vis by blast
  qed
qed

section \<open>The search\<close>

lemma same_mesh_edges:
  "same_mesh g g' \<Longrightarrow> outgoing_edges g' n = outgoing_edges g n \<and> has_reverse_edge g' e = has_reverse_edge g e
    \<and> g_edges g' = g_edges g \<and> g_myself g' = g_myself g"
  by (simp add: same_mesh_def outgoing_edges_def has_reverse_edge_def)

lemma sssp_fold:
  assumes "search_ok g queue {n}" "source_ok (g_edges g) (g_myself g) n src" "visited g n"
    and "set es \<subseteq> set (outgoing_edges g n)" "fold (sssp_edge src) es (g, queue) = (g', queue')"
  shows "search_ok g' queue' {n} \<and> same_mesh g g' \<and> (\<forall>k. visited g k \<longrightarrow> visited g' k)
    \<and> (\<forall>e \<in> set es. has_reverse_edge g e \<longrightarrow> visited g' (e_to e))
    \<and> (g' = g \<and> queue' = queue \<or> graph_rank g' < graph_rank g)"
  using assms
proof (induction es arbitrary: g queue)
  case (Cons e es)
  obtain g1 q1 where s: "sssp_edge src e (g, queue) = (g1, q1)" by (cases "sssp_edge src e (g, queue)")
  have 1: "search_ok g1 q1 {n} \<and> same_mesh g g1 \<and> (\<forall>k. visited g k \<longrightarrow> visited g1 k)
    \<and> (has_reverse_edge g e \<longrightarrow> visited g1 (e_to e))
    \<and> (g1 = g \<and> q1 = queue \<or> graph_rank g1 < graph_rank g)"
    using sssp_edge_step [OF Cons.prems(1-3) _ s] Cons.prems(4) by simp
  then have m: "outgoing_edges g1 n = outgoing_edges g n" "\<And>e. has_reverse_edge g1 e = has_reverse_edge g e"
    "g_edges g1 = g_edges g" "g_myself g1 = g_myself g"
    using same_mesh_edges by blast+
  have f: "fold (sssp_edge src) es (g1, q1) = (g', queue')" using Cons.prems(5) s by simp
  have 2: "search_ok g' queue' {n} \<and> same_mesh g1 g' \<and> (\<forall>k. visited g1 k \<longrightarrow> visited g' k)
    \<and> (\<forall>e \<in> set es. has_reverse_edge g1 e \<longrightarrow> visited g' (e_to e))
    \<and> (g' = g1 \<and> queue' = q1 \<or> graph_rank g' < graph_rank g1)"
  proof (rule Cons.IH)
    show "search_ok g1 q1 {n}" "visited g1 n" using 1 Cons.prems(3) by simp_all
    show "source_ok (g_edges g1) (g_myself g1) n src" using Cons.prems(2) m by simp
    show "set es \<subseteq> set (outgoing_edges g1 n)" using Cons.prems(4) m by simp
  qed (rule f)
  have "same_mesh g g'" using 1 2 same_mesh_trans by blast
  moreover have "g' = g \<and> queue' = queue \<or> graph_rank g' < graph_rank g" using 1 2 by auto
  moreover have "\<forall>e' \<in> set (e # es). has_reverse_edge g e' \<longrightarrow> visited g' (e_to e')"
    using 1 2 m(2) by auto
  ultimately show ?case using 1 2 by blast
qed simp

lemma source_visited:
  assumes "routes_ok g" "visited g n"
  shows "\<exists>src. route_source_state g n = Some src \<and> source_ok (g_edges g) (g_myself g) n src"
  using assms by (auto simp: routes_ok_def visited_def route_source_state_of)

lemma search_step:
  assumes ok: "search_ok g (n # rest) {}"
  obtains src g' queue' where "route_source_state g n = Some src"
    "fold (sssp_edge src) (outgoing_edges g n) (g, rest) = (g', queue')"
    "search_ok g' queue' {}" "same_mesh g g'"
    "graph_rank g' < graph_rank g \<or> g' = g \<and> queue' = rest"
proof -
  have vn: "visited g n" and g: "routes_ok g" "graph_ok g" using ok by (auto simp: search_ok_def)
  obtain src where src: "route_source_state g n = Some src" "source_ok (g_edges g) (g_myself g) n src"
    using source_visited [OF g(1) vn] by blast
  obtain g' queue' where f: "fold (sssp_edge src) (outgoing_edges g n) (g, rest) = (g', queue')"
    by (cases "fold (sssp_edge src) (outgoing_edges g n) (g, rest)")
  have "search_ok g rest {n}" using ok by (simp add: search_ok_def insert_commute Un_commute)
  from sssp_fold [OF this src(2) vn order.refl f]
  have s: "search_ok g' queue' {n}" "same_mesh g g'"
    "\<forall>e \<in> set (outgoing_edges g n). has_reverse_edge g e \<longrightarrow> visited g' (e_to e)"
    "graph_rank g' < graph_rank g \<or> g' = g \<and> queue' = rest" by auto
  have "visited g' m" if "linked (g_edges g') n m" for m
  proof -
    have "linked (g_edges g) n m" using that s(2) by (simp add: same_mesh_def)
    then show ?thesis using linked_outgoing [OF g(2)] s(3) by blast
  qed
  then have "search_ok g' queue' {}" using s(1) by (auto simp: search_ok_def closed_except_def)
  then show ?thesis using that src(1) f s(2,4) by blast
qed

lemma sssp_loop_ends:
  "search_ok g queue {} \<Longrightarrow> \<exists>g'. sssp_loop g queue = Some g' \<and> search_ok g' [] {} \<and> same_mesh g g'"
proof (induction "(g, queue)" arbitrary: g queue
    rule: wf_induct_rule [OF wf_mlex [OF wf_measure, of "\<lambda>(g, queue). graph_rank g" "\<lambda>(g, queue). length queue"]])
  case (1 g queue)
  show ?case
  proof (cases queue)
    case Nil
    with 1(2) show ?thesis by (subst sssp_loop.simps) auto
  next
    case (Cons n rest)
    from 1(2) obtain src g' queue' where s: "route_source_state g n = Some src"
      "fold (sssp_edge src) (outgoing_edges g n) (g, rest) = (g', queue')"
      "search_ok g' queue' {}" "same_mesh g g'"
      "graph_rank g' < graph_rank g \<or> g' = g \<and> queue' = rest"
      unfolding Cons by (rule search_step)
    have "\<exists>h. sssp_loop g' queue' = Some h \<and> search_ok h [] {} \<and> same_mesh g' h"
      using s(5) by (intro 1(1) s(3)) (auto simp: mlex_iff Cons)
    then obtain h where h: "sssp_loop g' queue' = Some h" "search_ok h [] {}" "same_mesh g' h" by blast
    have "sssp_loop g queue = Some h"
      using s(1,2) h(1) by (subst sssp_loop.simps) (simp add: Cons Let_def)
    then show ?thesis using h same_mesh_trans [OF s(4) h(3)] by blast
  qed
qed

lemma graph_node_init:
  "graph_node (sssp_init g) n = (case graph_node g n of None \<Rightarrow> None
     | Some nd \<Rightarrow> Some (if n = g_myself g then sssp_root_node (g_myself g) (sssp_reset_node nd)
                        else sssp_reset_node nd))"
  unfolding sssp_init_def graph_node_mut
  by (auto simp: graph_node_def split: option.splits)

lemma search_ok_init:
  assumes "graph_ok g"
  shows "search_ok (sssp_init g) [g_myself g] {} \<and> same_mesh g (sssp_init g)"
proof -
  let ?g = "sssp_init g"
  have mesh: "same_mesh g ?g" by (simp add: same_mesh_def sssp_init_def node_mut_def)
  then have es: "g_edges ?g = g_edges g" "g_myself ?g = g_myself g" by (auto simp: same_mesh_def)
  obtain nd where nd: "graph_node g (g_myself g) = Some nd"
    using assms by (auto simp: graph_ok_def graph_node_def bt_contains_iff)
  have vis: "visited ?g n \<longleftrightarrow> n = g_myself g" for n
    using nd by (auto simp: visited_def graph_node_init sssp_root_node_def sssp_reset_node_def
        split: option.splits if_splits)
  have name: "n_name (sssp_reset_node x) = n_name x" "n_name (sssp_root_node m x) = n_name x" for x m
    by (simp_all add: sssp_reset_node_def sssp_root_node_def)
  have "graph_ok (g\<lparr>g_nodes := bt_map sssp_reset_node (g_nodes g)\<rparr>)"
    using assms name by (auto simp: graph_ok_def)
  then have "graph_ok ?g" unfolding sssp_init_def by (rule graph_ok_node_mut) (rule name)
  moreover have "source_ok (g_edges g) (g_myself g) (g_myself g)
      \<lparr>rs_indirect = False, rs_distance = 0, rs_weighted = 0, rs_next_hop = g_myself g, rs_via = g_myself g\<rparr>"
    by (auto simp: source_ok_def in_i32_def i32_min_def i32_max_def i32_wrap_def intro!: exI [of _ 0])
  then have "routes_ok ?g"
    unfolding routes_ok_def es
    using vis nd by (auto simp: visited_def graph_node_init source_of_def sssp_root_node_def
        sssp_reset_node_def split: option.splits if_splits)
  ultimately show ?thesis using vis es mesh by (simp add: search_ok_def closed_except_def)
qed

lemma search_reaches:
  assumes ok: "search_ok g [] {}"
  shows "visited g n \<longleftrightarrow> connected g (g_myself g) n"
proof
  assume "visited g n"
  then show "connected g (g_myself g) n"
    using source_visited [of g n] ok by (auto simp: search_ok_def source_ok_def)
next
  assume "connected g (g_myself g) n"
  then show "visited g n"
  proof (induction rule: rtranclp_induct)
    case base
    then show ?case using ok by (simp add: search_ok_def)
  next
    case (step a b)
    then show ?case using ok unfolding search_ok_def closed_except_def by auto
  qed
qed

section \<open>Operations keep the invariant\<close>

lemma graph_ok_new: "graph_ok (graph_new H name)"
  by (simp add: graph_ok_def graph_new_def bt_get_def node_new_def bt_ok_def bt_contains_def)

lemma graph_ok_add_node [tinc_inv]:
  "graph_ok g \<Longrightarrow> add_node n g = Inr g' \<Longrightarrow> graph_ok g'"
  by (auto simp: graph_ok_def add_node_def btree_simps split: if_splits)

lemma graph_ok_ensure_node [tinc_inv]: "graph_ok g \<Longrightarrow> graph_ok (snd (ensure_node H name g))"
  by (auto simp: graph_ok_def ensure_node_def btree_simps node_new_def)

lemma graph_ok_insert_edge:
  "graph_ok g \<Longrightarrow> bt_contains (g_nodes g) (e_from e) \<Longrightarrow> bt_contains (g_nodes g) (e_to e)
    \<Longrightarrow> graph_ok (g\<lparr>g_edges := bt_insert (edge_key_of e) e (g_edges g)\<rparr>)"
  by (auto simp: graph_ok_def btree_simps split: if_splits)

lemma graph_ok_add_edge [tinc_inv]: "graph_ok g \<Longrightarrow> add_edge e g = Inr g' \<Longrightarrow> graph_ok g'"
  by (auto simp: add_edge_def Let_def graph_ok_insert_edge split: if_splits)

lemma graph_ok_upsert_edge [tinc_inv]:
  "graph_ok g \<Longrightarrow> upsert_edge e g = Inr (m, g') \<Longrightarrow> graph_ok g'"
proof (cases "bt_get (g_edges g) (edge_key_of e)")
  case None
  then show "graph_ok g \<Longrightarrow> upsert_edge e g = Inr (m, g') \<Longrightarrow> graph_ok g'"
    by (auto simp: upsert_edge_def Let_def graph_ok_insert_edge split: if_splits)
next
  case (Some x)
  then show "graph_ok g \<Longrightarrow> upsert_edge e g = Inr (m, g') \<Longrightarrow> graph_ok g'"
    by (auto simp: upsert_edge_def Let_def graph_ok_def bt_get_adjust split: if_splits)
qed

lemma graph_ok_remove_edge [tinc_inv]: "graph_ok g \<Longrightarrow> graph_ok (snd (remove_edge f t g))"
  by (auto simp: graph_ok_def remove_edge_def Let_def btree_simps split: if_splits)

lemma graph_ok_remove_node [tinc_inv]: "graph_ok g \<Longrightarrow> graph_ok (snd (remove_node name g))"
  by (auto simp: graph_ok_def remove_node_def btree_simps bt_contains_iff edge_key_of_def
      split: if_splits option.splits) (metis edge_key.sel)+

lemma bt_retain_twice: "bt_retain P (bt_retain Q m) = bt_retain (\<lambda>k v. Q k v \<and> P k v) m"
  by (auto simp: bt_retain_def intro!: filter_cong)

lemma fold_bt_remove: "fold bt_remove ks m = bt_retain (\<lambda>k _. k \<notin> set ks) m"
proof (induction ks arbitrary: m)
  case Nil
  then show ?case by (simp add: bt_retain_def)
next
  case (Cons k ks)
  then show ?case by (auto simp: bt_remove_retain bt_retain_twice intro: arg_cong [of _ _ "\<lambda>P. bt_retain P m"])
qed

lemma fold_remove_edges:
  "bt_ok es \<Longrightarrow> distinct ks \<Longrightarrow> \<forall>k \<in> set ks. bt_contains es k \<Longrightarrow>
    fold (\<lambda>k (removed, es). ((case bt_get es k of Some e \<Rightarrow> removed @ [e] | None \<Rightarrow> removed), bt_remove k es))
      ks (acc, es) = (acc @ map (\<lambda>k. the (bt_get es k)) ks, fold bt_remove ks es)"
proof (induction ks arbitrary: acc es)
  case (Cons k ks)
  obtain e where e: "bt_get es k = Some e" using Cons.prems by (auto simp: bt_contains_iff)
  have "\<forall>k' \<in> set ks. bt_contains (bt_remove k es) k'" using Cons.prems by (auto simp: btree_simps)
  moreover have "map (\<lambda>k'. the (bt_get (bt_remove k es) k')) ks = map (\<lambda>k'. the (bt_get es k')) ks"
    using Cons.prems by (auto simp: bt_get_remove)
  ultimately show ?case using Cons.IH [of "bt_remove k es"] Cons.prems e by (simp add: bt_ok_remove)
qed simp

lemma values_of_keys:
  assumes "bt_ok m"
  shows "map (\<lambda>k. the (bt_get m k)) (filter P (map fst m)) = map snd (filter (\<lambda>x. P (fst x)) m)"
proof -
  have "the (bt_get m (fst x)) = snd x" if "x \<in> set m" for x
    using that bt_get_Some_iff [OF assms, of "fst x" "snd x"] by simp
  then show ?thesis by (auto simp: filter_map comp_def)
qed

lemma remove_edges_from_eq:
  assumes "graph_ok g"
  shows "remove_edges_from f g = (outgoing_edges g f,
    g\<lparr>g_mst := bt_retain (\<lambda>k _. ek_from k \<noteq> f \<or> \<not> bt_contains (g_edges g) k) (g_mst g),
      g_edges := bt_retain (\<lambda>k _. ek_from k \<noteq> f) (g_edges g)\<rparr>)"
proof -
  let ?es = "g_edges g" and ?ks = "filter (\<lambda>k. ek_from k = f) (bt_keys (g_edges g))"
  have ok: "bt_ok ?es" using assms by (simp add: graph_ok_def)
  have mem: "k \<in> set ?ks \<longleftrightarrow> ek_from k = f \<and> bt_contains ?es k" for k by (auto simp: bt_keys_mem)
  have "map (\<lambda>k. the (bt_get ?es k)) ?ks = map snd (filter (\<lambda>(k, e). ek_from k = f) ?es)"
    unfolding bt_keys_def values_of_keys [OF ok] by (simp add: case_prod_unfold)
  also have "filter (\<lambda>(k, e). ek_from k = f) ?es = filter (\<lambda>(k, e). e_from e = f) ?es"
  proof (rule filter_cong [OF refl])
    fix x assume "x \<in> set ?es"
    then have "bt_get ?es (fst x) = Some (snd x)" using ok by (simp add: bt_get_Some_iff)
    then have "edge_key_of (snd x) = fst x" using assms by (simp add: graph_ok_def)
    then show "(case x of (k, e) \<Rightarrow> ek_from k = f) = (case x of (k, e) \<Rightarrow> e_from e = f)"
      by (cases x) (auto simp: edge_key_of_def)
  qed
  also have "map snd (filter (\<lambda>(k, e). e_from e = f) ?es) = outgoing_edges g f"
    by (simp add: outgoing_edges_def bt_values_def filter_map comp_def case_prod_unfold)
  finally have removed: "map (\<lambda>k. the (bt_get ?es k)) ?ks = outgoing_edges g f" .
  have "distinct ?ks" using distinct_bt_keys [OF ok] by simp
  moreover have "\<forall>k \<in> set ?ks. bt_contains ?es k" using mem by blast
  moreover have "bt_retain (\<lambda>k _. k \<notin> set ?ks) ?es = bt_retain (\<lambda>k _. ek_from k \<noteq> f) ?es"
    unfolding bt_retain_def by (rule filter_cong [OF refl]) (force simp: bt_keys_def)
  moreover have "bt_retain (\<lambda>k _. k \<notin> set ?ks) (g_mst g)
      = bt_retain (\<lambda>k _. ek_from k \<noteq> f \<or> \<not> bt_contains ?es k) (g_mst g)"
    using mem by (auto simp: bt_retain_def intro!: filter_cong)
  ultimately show ?thesis
    using fold_remove_edges [OF ok] removed by (simp add: remove_edges_from_def Let_def fold_bt_remove)
qed

lemma graph_ok_remove_edges_from [tinc_inv]: "graph_ok g \<Longrightarrow> graph_ok (snd (remove_edges_from f g))"
  by (auto simp: remove_edges_from_eq)
    (auto simp: graph_ok_def btree_simps bt_contains_iff split: if_splits option.splits)

lemma graph_ok_connect [tinc_inv]:
  "graph_ok g \<Longrightarrow> graph_ok (snd (connect_bidirectional a b w x y g))"
  by (auto simp: connect_bidirectional_def split: sum.splits dest: graph_ok_add_edge)

text \<open>A concrete mesh: two linked nodes and an isolated one.\<close>

definition demo_mesh :: graph where
  "demo_mesh = (let H = (\<lambda>_. replicate 64 0)
     in snd (connect_bidirectional ''a'' ''b'' 1 0 0
          (snd (ensure_node H ''c'' (snd (ensure_node H ''b'' (graph_new H ''a'')))))))"

lemma demo_mesh_ok: "graph_ok demo_mesh"
  unfolding demo_mesh_def Let_def
  by (intro graph_ok_connect graph_ok_ensure_node graph_ok_new)

lemma demo_mesh_facts:
  "g_myself demo_mesh = ''a''" "linked (g_edges demo_mesh) ''a'' ''b''"
  "bt_contains (g_nodes demo_mesh) ''b''"
  by code_simp+

section \<open>Properties of the search\<close>

text \<open>
  C13: the route search ends on every well-formed graph, changes nothing but the contents of the
  nodes, and marks as visited exactly the nodes connected to the local node by edges that exist
  in both directions.
\<close>

theorem sssp_bfs_reaches:
  assumes "graph_ok g"
  shows "\<exists>g'. sssp_bfs g = Some g' \<and> graph_ok g' \<and> same_mesh g g'
    \<and> (\<forall>n. visited g' n \<longleftrightarrow> connected g (g_myself g) n)"
proof -
  have m: "bt_contains (g_nodes g) (g_myself g)" using assms by (simp add: graph_ok_def)
  have i: "search_ok (sssp_init g) [g_myself g] {}" "same_mesh g (sssp_init g)"
    using search_ok_init [OF assms] by blast+
  obtain g' where g': "sssp_loop (sssp_init g) [g_myself g] = Some g'" "search_ok g' [] {}"
    "same_mesh (sssp_init g) g'" using sssp_loop_ends [OF i(1)] by blast
  have mesh: "same_mesh g g'" using same_mesh_trans [OF i(2) g'(3)] .
  then have "g_edges g' = g_edges g" "g_myself g' = g_myself g" by (auto simp: same_mesh_def)
  then have "\<forall>n. visited g' n \<longleftrightarrow> connected g (g_myself g) n" using search_reaches [OF g'(2)] by simp
  moreover have "graph_ok g'" using g'(2) by (simp add: search_ok_def)
  ultimately show ?thesis using g'(1) m mesh by (simp add: sssp_bfs_def)
qed

lemma sssp_bfs_search_ok:
  assumes "graph_ok g" "sssp_bfs g = Some g'"
  shows "search_ok g' [] {} \<and> same_mesh g g'"
proof -
  have m: "bt_contains (g_nodes g) (g_myself g)" using assms by (simp add: graph_ok_def)
  have i: "search_ok (sssp_init g) [g_myself g] {}" "same_mesh g (sssp_init g)"
    using search_ok_init [OF assms(1)] by blast+
  then show ?thesis
    using sssp_loop_ends [OF i(1)] same_mesh_trans [OF i(2)] assms(2) m by (auto simp: sssp_bfs_def)
qed

theorem sssp_bfs_reaches_witness:
  "\<exists>g'. sssp_bfs demo_mesh = Some g' \<and> visited g' ''b''"
proof -
  have "connected demo_mesh (g_myself demo_mesh) ''b''" using demo_mesh_facts by auto
  with sssp_bfs_reaches [OF demo_mesh_ok] show ?thesis by blast
qed

text \<open>
  C25: after the search every visited node other than the local one has a next hop that is a
  neighbour of the local node and from which the node is connected, a relay that is reached
  over direct links only (the node itself unless it is marked indirect), a previous edge from a
  visited neighbour, and a distance that is the length of a connection to it.
\<close>

theorem sssp_bfs_routes:
  assumes "graph_ok g" "sssp_bfs g = Some g'" "graph_node g' n = Some nd" "st_visited (n_status nd)"
    and "n \<noteq> g_myself g"
  shows "\<exists>h v p d. rt_next_hop (n_route nd) = Some h \<and> rt_via (n_route nd) = Some v
    \<and> rt_previous_edge (n_route nd) = Some (EdgeKey p n) \<and> rt_distance (n_route nd) = Some d
    \<and> h \<noteq> g_myself g \<and> linked (g_edges g) (g_myself g) h \<and> connected g h n
    \<and> (direct_link (g_edges g))\<^sup>*\<^sup>* (g_myself g) v \<and> (\<not> st_indirect (n_status nd) \<longrightarrow> v = n)
    \<and> linked (g_edges g) p n \<and> visited g' p
    \<and> (\<exists>k. (linked (g_edges g) ^^ k) (g_myself g) n \<and> d = i32_wrap (int k))"
proof -
  have s: "search_ok g' [] {}" "same_mesh g g'" using sssp_bfs_search_ok [OF assms(1,2)] by blast+
  then have es: "g_edges g' = g_edges g" "g_myself g' = g_myself g" by (auto simp: same_mesh_def)
  obtain src p where "source_of nd = Some src" "source_ok (g_edges g) (g_myself g) n src"
    "rt_previous_edge (n_route nd) = Some (EdgeKey p n)" "linked (g_edges g) p n" "visited g' p"
    using s(1) assms(3-5) es unfolding search_ok_def routes_ok_def by fastforce
  then show ?thesis using assms(5) by (auto simp: source_ok_def source_of_Some)
qed

lemma demo_mesh_search:
  obtains g' nd where "sssp_bfs demo_mesh = Some g'" "graph_node g' ''b'' = Some nd" "st_visited (n_status nd)"
proof -
  have i: "search_ok (sssp_init demo_mesh) [''a''] {}"
    using search_ok_init [OF demo_mesh_ok] demo_mesh_facts(1) by simp
  obtain g' where g': "sssp_bfs demo_mesh = Some g'" "search_ok g' [] {}" "same_mesh (sssp_init demo_mesh) g'"
    using sssp_loop_ends [OF i] demo_mesh_ok demo_mesh_facts(1) by (auto simp: sssp_bfs_def graph_ok_def)
  have "g_edges (sssp_init demo_mesh) = g_edges demo_mesh" "g_myself (sssp_init demo_mesh) = ''a''"
    using demo_mesh_facts(1) by (simp_all add: sssp_init_def node_mut_def)
  then have "connected g' (g_myself g') ''b''"
    using g'(3) demo_mesh_facts(2) by (auto simp: same_mesh_def)
  then have "visited g' ''b''" using search_reaches [OF g'(2)] by simp
  then show ?thesis using that g'(1) by (auto simp: visited_def)
qed

theorem sssp_bfs_routes_witness:
  "\<exists>g' nd h. sssp_bfs demo_mesh = Some g' \<and> graph_node g' ''b'' = Some nd
     \<and> rt_next_hop (n_route nd) = Some h \<and> linked (g_edges demo_mesh) ''a'' h"
proof (rule demo_mesh_search)
  fix g' nd
  assume *: "sssp_bfs demo_mesh = Some g'" "graph_node g' ''b'' = Some nd" "st_visited (n_status nd)"
  have "''b'' \<noteq> g_myself demo_mesh" by (simp add: demo_mesh_facts)
  from sssp_bfs_routes [OF demo_mesh_ok * this] * show ?thesis by (auto simp: demo_mesh_facts)
qed

section \<open>Reconciliation\<close>

lemma fold_node_change:
  "fold node_change ns c =
     \<lparr>became_reachable = became_reachable c
        @ map n_name (filter (\<lambda>n. st_visited (n_status n) \<and> \<not> st_reachable (n_status n)) ns),
      became_unreachable = became_unreachable c
        @ map n_name (filter (\<lambda>n. \<not> st_visited (n_status n) \<and> st_reachable (n_status n)) ns)\<rparr>"
  by (induction ns arbitrary: c) (auto simp: node_change_def)

lemma reconcile_node_fields:
  "n_name (reconcile_node ex now n) = n_name n"
  "n_route (reconcile_node ex now n) = n_route n"
  "st_reachable (n_status (reconcile_node ex now n)) = st_visited (n_status n)"
  "st_visited (n_status (reconcile_node ex now n)) = st_visited (n_status n)"
  by (auto simp: reconcile_node_def Let_def status_default_def)

lemma reconcile_node_changed:
  "st_visited (n_status n) \<noteq> st_reachable (n_status n) \<Longrightarrow>
     \<not> st_valid_key (n_status (reconcile_node ex now n))
     \<and> \<not> st_udp_confirmed (n_status (reconcile_node ex now n))
     \<and> (st_visited (n_status n) \<longrightarrow> n_last_state_change (reconcile_node ex now n) = now)
     \<and> (\<not> st_visited (n_status n) \<longrightarrow> n_status (reconcile_node ex now n) = status_default
          \<and> n_options (reconcile_node ex now n) = 0 \<and> n_udp_address (reconcile_node ex now n) = None)"
  by (auto simp: reconcile_node_def Let_def status_default_def)

lemma same_mesh_reconcile: "same_mesh g (snd (reconcile_reachability_at ex now g))"
  by (simp add: same_mesh_def reconcile_reachability_at_def)

lemma graph_node_reconcile:
  "graph_node (snd (reconcile_reachability_at ex now g)) n
    = map_option (reconcile_node ex now) (graph_node g n)"
  by (simp add: reconcile_reachability_at_def graph_node_def)

lemma graph_ok_reconcile [tinc_inv]:
  "graph_ok g \<Longrightarrow> graph_ok (snd (reconcile_reachability_at ex now g))"
  by (auto simp: graph_ok_def reconcile_reachability_at_def reconcile_node_fields)

definition reachable :: "graph \<Rightarrow> string \<Rightarrow> bool" where
  "reachable g n \<longleftrightarrow> (\<exists>nd. graph_node g n = Some nd \<and> st_reachable (n_status nd))"

lemma reachable_reconcile:
  "reachable (snd (reconcile_reachability_at ex now g)) n \<longleftrightarrow> visited g n"
  by (auto simp: reachable_def visited_def graph_node_reconcile reconcile_node_fields)

text \<open>
  Reconciliation makes a node reachable exactly when the search visited it, reports exactly
  the nodes whose state changes, drops the key validity and UDP confirmation of those, clears
  everything learned about the ones that were lost, and leaves all other nodes alone.
\<close>

theorem reconcile_exact:
  assumes "graph_ok g" "reconcile_reachability_at experimental now g = (c, g')"
    and "graph_node g n = Some nd"
  shows "reachable g' n = visited g n
    \<and> (n \<in> set (became_reachable c) \<longleftrightarrow> \<not> reachable g n \<and> visited g n)
    \<and> (n \<in> set (became_unreachable c) \<longleftrightarrow> reachable g n \<and> \<not> visited g n)
    \<and> distinct (became_reachable c)
    \<and> (\<exists>nd'. graph_node g' n = Some nd'
         \<and> (visited g n = reachable g n \<longrightarrow> nd' = nd)
         \<and> (visited g n \<noteq> reachable g n \<longrightarrow> \<not> st_valid_key (n_status nd') \<and> \<not> st_udp_confirmed (n_status nd'))
         \<and> (\<not> visited g n \<and> reachable g n \<longrightarrow> n_status nd' = status_default \<and> n_options nd' = 0
              \<and> n_udp_address nd' = None))"
proof -
  have ok: "bt_ok (g_nodes g)" and names: "\<And>k x. bt_get (g_nodes g) k = Some x \<Longrightarrow> n_name x = k"
    using assms(1) by (auto simp: graph_ok_def)
  have g': "g' = snd (reconcile_reachability_at experimental now g)" using assms(2) by simp
  have c: "c = fst (reconcile_reachability_at experimental now g)" using assms(2) by simp
  have rv: "visited g n = st_visited (n_status nd)" "reachable g n = st_reachable (n_status nd)"
    using assms(3) by (simp_all add: visited_def reachable_def)
  have mem: "n \<in> n_name ` {x \<in> set (bt_values (g_nodes g)). P x} \<longleftrightarrow> P nd" for P
    using assms(3) names by (auto simp: bt_values_mem [OF ok] graph_node_def image_iff)
  have "map n_name (bt_values (g_nodes g)) = bt_keys (g_nodes g)"
    unfolding bt_values_def bt_keys_def using names bt_get_Some_iff [OF ok] by auto
  then have "distinct (map n_name (bt_values (g_nodes g)))" using distinct_bt_keys [OF ok] by simp
  then have "distinct (became_reachable c)"
    by (simp add: c reconcile_reachability_at_def fold_node_change distinct_map_filter)
  moreover have "graph_node g' n = Some (reconcile_node experimental now nd)"
    using assms(3) by (simp add: g' graph_node_reconcile)
  moreover have "st_visited (n_status nd) = st_reachable (n_status nd) \<longrightarrow> reconcile_node experimental now nd = nd"
    by (simp add: reconcile_node_def)
  moreover have "reachable g' n = visited g n" unfolding g' by (rule reachable_reconcile)
  moreover have "n \<in> set (became_reachable c) \<longleftrightarrow> \<not> reachable g n \<and> visited g n"
    "n \<in> set (became_unreachable c) \<longleftrightarrow> reachable g n \<and> \<not> visited g n"
    by (auto simp: c reconcile_reachability_at_def fold_node_change mem rv)
  ultimately show ?thesis
    using reconcile_node_changed [of nd experimental now] rv by auto
qed

theorem reconcile_exact_witness:
  "reachable (snd (reconcile_reachability_at True 7 demo_mesh)) ''b'' = visited demo_mesh ''b''"
proof -
  obtain nd where "graph_node demo_mesh ''b'' = Some nd" using demo_mesh_facts(3) by (auto simp: graph_node_def bt_contains_iff)
  from reconcile_exact [OF demo_mesh_ok prod.collapse [symmetric] this] show ?thesis by blast
qed

end
