(* ===== verification/Graph_Tree.thy ===== *)
theory Graph_Tree
  imports Graph_Routes "HOL-Library.Product_Lexorder"
begin

text \<open>
  Correctness of the spanning tree: the sweep over the weight-sorted edges with its restarts
  computes what growing the tree by a lightest crossing edge computes, and the result spans the
  reachable nodes with two directed edges per link and no cycle.
\<close>

section \<open>The order of the edges\<close>

lemma compare_weight_key:
  "compare_weight l r = cmp (e_weight l, e_from l, e_to l) (e_weight r, e_from r, e_to r)"
  by (auto simp: compare_weight_def cmp_def then_with_def)

interpretation weight_ord: comparator compare_weight "\<lambda>_. True"
  by (rule comparator_key) (rule compare_weight_key)

lemma weight_sorted: "sorted_by compare_weight (weight_sorted_edges g)"
  unfolding weight_sorted_edges_def by (rule weight_ord.sorted_sort_by) simp

section \<open>Growing a tree by lightest crossing edges\<close>

definition addable :: "graph \<Rightarrow> string set \<Rightarrow> edge \<Rightarrow> bool" where
  "addable g V e \<longleftrightarrow> has_reverse_edge g e \<and> (e_from e \<in> V) \<noteq> (e_to e \<in> V)"

inductive grows :: "graph \<Rightarrow> edge list \<Rightarrow> string \<Rightarrow> string set \<Rightarrow> edge_key set \<Rightarrow> bool"
  for g es s where
  seed: "grows g es s {s} {}"
| extend: "grows g es s V T \<Longrightarrow> e \<in> set es \<Longrightarrow> addable g V e
    \<Longrightarrow> (\<forall>x \<in> set es. addable g V x \<longrightarrow> compare_weight e x \<noteq> Greater)
    \<Longrightarrow> grows g es s (insert (e_to e) (insert (e_from e) V))
          (insert (key_reverse (edge_key_of e)) (insert (edge_key_of e) T))"

inductive_simps grows_empty: "grows g es s V {}"

lemma both_visited_not_addable: "both_visited V e \<Longrightarrow> \<not> addable g V e"
  by (simp add: both_visited_def addable_def)

lemma both_visited_mono: "both_visited V e \<Longrightarrow> both_visited (insert a (insert b V)) e"
  by (simp add: both_visited_def)

lemma kruskal_loop_grows:
  assumes "sorted_by compare_weight edges" "grows g edges s V (fst ` set mst)" "bt_ok mst"
    and "\<forall>i < index. \<not> addable g V (edges ! i)"
    and "\<not> skipped \<longrightarrow> (\<forall>i < index. both_visited V (edges ! i))" "index \<le> length edges"
  shows "bt_ok (kruskal_loop g edges index skipped V mst)
    \<and> (\<exists>V'. grows g edges s V' (fst ` set (kruskal_loop g edges index skipped V mst))
         \<and> (\<forall>x \<in> set edges. \<not> addable g V' x))"
  using assms
proof (induction g edges index skipped V mst rule: kruskal_loop.induct)
  case (1 g edges index skipped V mst)
  show ?case
  proof (cases "index < length edges")
    case False
    with "1.prems" have "\<forall>x \<in> set edges. \<not> addable g V x" by (auto simp: in_set_conv_nth)
    with False "1.prems" show ?thesis by (subst kruskal_loop.simps) (auto simp: kruskal_loop.simps)
  next
    case True
    let ?e = "edges ! index"
    have e: "?e \<in> set edges" using True by simp
    show ?thesis
    proof (cases "addable g V ?e")
      case False
      then have c: "\<not> has_reverse_edge g ?e \<or> (e_from ?e \<in> V) = (e_to ?e \<in> V)"
        by (simp add: addable_def)
      have "\<forall>i < index + 1. \<not> addable g V (edges ! i)" using "1.prems"(4) False by (simp add: less_Suc_eq)
      then have "bt_ok (kruskal_loop g edges (index + 1) True V mst)
        \<and> (\<exists>V'. grows g edges s V' (fst ` set (kruskal_loop g edges (index + 1) True V mst))
         \<and> (\<forall>x \<in> set edges. \<not> addable g V' x))"
        using "1.IH"(1) [OF True refl refl refl c] "1.prems" True by simp
      with True c show ?thesis by (subst (1 2) kruskal_loop.simps) (simp add: Let_def)
    next
      case a: True
      let ?V = "insert (e_to ?e) (insert (e_from ?e) V)"
      let ?m = "bt_insert (key_reverse (edge_key_of ?e)) () (bt_insert (edge_key_of ?e) () mst)"
      have c: "\<not> (\<not> has_reverse_edge g ?e \<or> (e_from ?e \<in> V) = (e_to ?e \<in> V))"
        using a by (simp add: addable_def)
      have least: "\<forall>x \<in> set edges. addable g V x \<longrightarrow> compare_weight ?e x \<noteq> Greater"
      proof (intro ballI impI)
        fix x assume x: "x \<in> set edges" "addable g V x"
        then obtain j where j: "j < length edges" "x = edges ! j" by (auto simp: in_set_conv_nth)
        with x(2) "1.prems"(4) have "index \<le> j" by (meson not_le)
        then show "compare_weight ?e x \<noteq> Greater"
          using "1.prems"(1) j weight_ord.c_refl [of ?e]
          by (cases "index = j") (auto simp: sorted_by_def sorted_wrt_iff_nth_less)
      qed
      have grow: "grows g edges s ?V (fst ` set ?m)"
        using grows.extend [OF "1.prems"(2) e a least] by simp
      have ok: "bt_ok ?m" using "1.prems"(3) by (simp add: bt_ok_insert)
      show ?thesis
      proof (cases skipped)
        case True
        then have "bt_ok (kruskal_loop g edges 0 False ?V ?m)
          \<and> (\<exists>V'. grows g edges s V' (fst ` set (kruskal_loop g edges 0 False ?V ?m))
           \<and> (\<forall>x \<in> set edges. \<not> addable g V' x))"
          using "1.IH"(2) [OF \<open>index < length edges\<close> refl refl refl c refl refl True] "1.prems"(1) grow ok
          by simp
        with True \<open>index < length edges\<close> c show ?thesis by (subst (1 2) kruskal_loop.simps) (simp add: Let_def)
      next
        case False
        have "\<forall>i < index + 1. both_visited ?V (edges ! i)"
          using "1.prems"(5) False both_visited_mono by (auto simp: less_Suc_eq) (simp add: both_visited_def)
        moreover from this have "\<forall>i < index + 1. \<not> addable g ?V (edges ! i)"
          using both_visited_not_addable by blast
        ultimately have "bt_ok (kruskal_loop g edges (index + 1) skipped ?V ?m)
          \<and> (\<exists>V'. grows g edges s V' (fst ` set (kruskal_loop g edges (index + 1) skipped ?V ?m))
           \<and> (\<forall>x \<in> set edges. \<not> addable g V' x))"
          using "1.IH"(3) [OF \<open>index < length edges\<close> refl refl refl c refl refl False] "1.prems"(1)
            \<open>index < length edges\<close> grow ok by simp
        with False \<open>index < length edges\<close> c show ?thesis by (subst (1 2) kruskal_loop.simps) (simp add: Let_def)
      qed
    qed
  qed
qed

section \<open>What a grown tree is\<close>

definition tree_link :: "edge_key set \<Rightarrow> string \<Rightarrow> string \<Rightarrow> bool" where
  "tree_link T a b \<longleftrightarrow> EdgeKey a b \<in> T"

lemma addable_ends: "addable g V e \<Longrightarrow> e_from e \<noteq> e_to e"
  by (auto simp: addable_def)

lemma key_parts [simp]:
  "ek_from (edge_key_of e) = e_from e" "ek_to (edge_key_of e) = e_to e"
  "ek_from (key_reverse k) = ek_to k" "ek_to (key_reverse k) = ek_from k"
  "key_reverse (key_reverse k) = k"
  by (simp_all add: edge_key_of_def key_reverse_def)

lemma grows_keys:
  "grows g es s V T \<Longrightarrow> finite V \<and> finite T \<and> s \<in> V
    \<and> (\<forall>k \<in> T. ek_from k \<in> V \<and> ek_to k \<in> V \<and> key_reverse k \<in> T)
    \<and> card T = 2 * (card V - 1) \<and> 0 < card V"
proof (induction rule: grows.induct)
  case (extend V T e)
  let ?k = "edge_key_of e" and ?r = "key_reverse (edge_key_of e)"
  have "?k \<notin> T" "?r \<notin> T" using extend by (auto simp: addable_def)
  moreover have "?k \<noteq> ?r"
  proof
    assume "?k = ?r"
    then have "ek_from ?k = ek_from ?r" by simp
    then show False using addable_ends [OF extend.hyps(3)] by simp
  qed
  moreover have "card (insert (e_to e) (insert (e_from e) V)) = Suc (card V)"
    using extend by (auto simp: addable_def insert_absorb)
  ultimately show ?case using extend.IH by auto
qed simp

lemma tree_link_mono: "T \<subseteq> T' \<Longrightarrow> (tree_link T)\<^sup>*\<^sup>* a b \<Longrightarrow> (tree_link T')\<^sup>*\<^sup>* a b"
  by (erule rtranclp_mono [THEN predicate2D, rotated]) (auto simp: tree_link_def)

lemma grows_spans: "grows g es s V T \<Longrightarrow> v \<in> V \<Longrightarrow> (tree_link T)\<^sup>*\<^sup>* s v"
proof (induction arbitrary: v rule: grows.induct)
  case (extend V T e)
  let ?T = "insert (key_reverse (edge_key_of e)) (insert (edge_key_of e) T)"
  have old: "(tree_link ?T)\<^sup>*\<^sup>* s u" if "u \<in> V" for u
    using extend.IH [OF that] by (rule tree_link_mono [rotated]) auto
  have links: "tree_link ?T (e_from e) (e_to e)" "tree_link ?T (e_to e) (e_from e)"
    by (simp_all add: tree_link_def edge_key_of_def key_reverse_def)
  show ?case
  proof (cases "v \<in> V")
    case True
    then show ?thesis by (rule old)
  next
    case False
    then have "v = e_to e \<and> e_from e \<in> V \<or> v = e_from e \<and> e_to e \<in> V"
      using extend.prems extend.hyps(3) by (auto simp: addable_def)
    then show ?thesis using old links by (auto intro: rtranclp.rtrancl_into_rtrancl)
  qed
qed simp

lemma grows_connected:
  assumes "graph_ok g" "set es \<subseteq> set (bt_values (g_edges g))" "grows g es s V T"
  shows "(\<forall>v \<in> V. connected g s v) \<and> (\<forall>k \<in> T. linked (g_edges g) (ek_from k) (ek_to k))"
  using assms(3)
proof (induction rule: grows.induct)
  case (extend V T e)
  have "e \<in> set (outgoing_edges g (e_from e))" using extend.hyps(2) assms(2) by (auto simp: outgoing_edges_def)
  then have l: "linked (g_edges g) (e_from e) (e_to e)"
    using outgoing_edge_link(1) [OF assms(1)] extend.hyps(3) by (simp add: addable_def)
  then have r: "linked (g_edges g) (e_to e) (e_from e)" by (simp add: linked_def)
  show ?case
    using extend l r by (auto simp: addable_def intro: rtranclp.rtrancl_into_rtrancl)
qed simp

lemma linked_sym: "linked es a b \<Longrightarrow> linked es b a"
  by (simp add: linked_def)

lemma connected_sym: "connected g a b \<Longrightarrow> connected g b a"
  by (induction rule: rtranclp_induct)
    (auto intro: converse_rtranclp_into_rtranclp linked_sym)

lemma grown_closed:
  assumes "graph_ok g" "set es = set (bt_values (g_edges g))" "grows g es s V T"
    and "\<forall>x \<in> set es. \<not> addable g V x"
  shows "V = {v. connected g s v}"
proof
  show "V \<subseteq> {v. connected g s v}" using grows_connected [OF assms(1) _ assms(3)] assms(2) by auto
  show "{v. connected g s v} \<subseteq> V"
  proof
    fix v assume "v \<in> {v. connected g s v}"
    then have "connected g s v" by simp
    then show "v \<in> V"
    proof (induction rule: rtranclp_induct)
      case base
      then show ?case using grows_keys [OF assms(3)] by blast
    next
      case (step a b)
      obtain e where e: "e \<in> set (outgoing_edges g a)" "e_to e = b" "has_reverse_edge g e"
        using linked_outgoing [OF assms(1) step.hyps(2)] by blast
      then have "e \<in> set es" "e_from e = a" using assms(2) by (auto simp: outgoing_edges_def)
      with assms(4) e step.IH show ?case by (auto simp: addable_def)
    qed
  qed
qed

lemma mst_keys: "fst ` set (g_mst g) = {k. bt_contains (g_mst g) k}"
  by (auto simp: bt_contains_keys)

lemma mst_kruskal_grows:
  assumes "graph_ok g"
  shows "(\<exists>s V. reachable g s \<and> grows g (weight_sorted_edges g) s V (fst ` set (g_mst (mst_kruskal g)))
           \<and> V = {v. connected g s v} \<and> bt_ok (g_mst (mst_kruskal g)))
       \<or> (g_mst (mst_kruskal g) = [] \<and> (\<forall>e \<in> set (bt_values (g_edges g)). \<not> reachable g (e_from e)))"
proof -
  let ?es = "weight_sorted_edges g"
  let ?P = "\<lambda>e. case graph_node g (e_from e) of Some n \<Rightarrow> st_reachable (n_status n) | None \<Rightarrow> False"
  have set_es: "set ?es = set (bt_values (g_edges g))" by (simp add: weight_sorted_edges_def)
  have P: "?P e = reachable g (e_from e)" for e by (auto simp: reachable_def split: option.splits)
  show ?thesis
  proof (cases "find ?P ?es")
    case None
    then have "\<forall>e \<in> set ?es. \<not> reachable g (e_from e)" by (auto simp: P find_None_iff)
    with None set_es show ?thesis by (simp add: mst_kruskal_def Let_def)
  next
    case (Some start)
    let ?s = "e_from start" and ?m = "kruskal_loop g ?es 0 False {e_from start} []"
    have r: "reachable g ?s" using Some P by (auto simp: find_Some_iff)
    have "bt_ok ?m \<and> (\<exists>V. grows g ?es ?s V (fst ` set ?m) \<and> (\<forall>x \<in> set ?es. \<not> addable g V x))"
      using kruskal_loop_grows [OF weight_sorted, of g g ?s "{?s}" "[]" 0 False] grows.seed by auto
    then obtain V where V: "bt_ok ?m" "grows g ?es ?s V (fst ` set ?m)" "\<forall>x \<in> set ?es. \<not> addable g V x"
      by blast
    have "g_mst (mst_kruskal g) = ?m" using Some by (simp add: mst_kruskal_def Let_def)
    then show ?thesis using r V grown_closed [OF assms set_es V(2,3)] by auto
  qed
qed

lemma mst_kruskal_frame: "g_nodes (mst_kruskal g) = g_nodes g" "g_edges (mst_kruskal g) = g_edges g"
    "g_myself (mst_kruskal g) = g_myself g"
  by (auto simp: mst_kruskal_def Let_def split: option.splits)

lemma graph_ok_mst_kruskal [tinc_inv]:
  assumes "graph_ok g"
  shows "graph_ok (mst_kruskal g)"
proof -
  have es: "set (weight_sorted_edges g) \<subseteq> set (bt_values (g_edges g))" by (simp add: weight_sorted_edges_def)
  have "bt_ok (g_mst (mst_kruskal g)) \<and> (\<forall>k. bt_contains (g_mst (mst_kruskal g)) k \<longrightarrow> bt_contains (g_edges g) k)"
    using mst_kruskal_grows [OF assms]
  proof (elim disjE exE conjE)
    fix s V assume *: "grows g (weight_sorted_edges g) s V (fst ` set (g_mst (mst_kruskal g)))"
      "bt_ok (g_mst (mst_kruskal g))"
    have "bt_contains (g_edges g) k" if "bt_contains (g_mst (mst_kruskal g)) k" for k
      using grows_connected [OF assms es *(1)] that
      by (auto simp: bt_contains_keys [of "g_mst (mst_kruskal g)"] linked_def)
    with *(2) show ?thesis by blast
  qed (simp add: bt_contains_def)
  then show ?thesis using assms by (simp add: graph_ok_def mst_kruskal_frame)
qed

lemma tree_link_sym_rtrancl:
  assumes "\<forall>k \<in> T. key_reverse k \<in> T" "(tree_link T)\<^sup>*\<^sup>* a b"
  shows "(tree_link T)\<^sup>*\<^sup>* b a"
  using assms(2)
proof (induction rule: rtranclp_induct)
  case (step b c)
  then have "tree_link T c b"
    using assms(1) by (auto simp: tree_link_def key_reverse_def dest!: bspec)
  with step.IH show ?case by (auto intro: converse_rtranclp_into_rtranclp)
qed simp

lemma tree_link_connected:
  assumes "\<forall>k \<in> T. linked (g_edges g) (ek_from k) (ek_to k)" "(tree_link T)\<^sup>*\<^sup>* a b"
  shows "connected g a b"
  using assms(2) by (rule rtranclp_mono [THEN predicate2D, rotated])
    (use assms(1) in \<open>auto simp: tree_link_def dest!: bspec\<close>)

lemma tree_link_empty: "(tree_link {})\<^sup>*\<^sup>* a b \<longleftrightarrow> a = b"
proof
  assume "(tree_link {})\<^sup>*\<^sup>* a b"
  then show "a = b" by (cases rule: converse_rtranclpE) (simp_all add: tree_link_def)
qed simp

lemma mst_spans:
  assumes "graph_ok g" "\<forall>n. reachable g n \<longleftrightarrow> connected g (g_myself g) n"
  shows "(\<forall>n. (tree_link (fst ` set (g_mst (mst_kruskal g))))\<^sup>*\<^sup>* (g_myself g) n \<longleftrightarrow> reachable g n)
    \<and> (\<forall>k \<in> fst ` set (g_mst (mst_kruskal g)). linked (g_edges g) (ek_from k) (ek_to k)
         \<and> key_reverse k \<in> fst ` set (g_mst (mst_kruskal g)))
    \<and> card (fst ` set (g_mst (mst_kruskal g))) = 2 * (card {n. reachable g n} - 1)"
  (is "?span \<and> ?links \<and> ?card")
  using mst_kruskal_grows [OF assms(1)]
proof (elim disjE exE conjE)
  let ?T = "fst ` set (g_mst (mst_kruskal g))"
  fix s V
  assume r: "reachable g s" and g: "grows g (weight_sorted_edges g) s V ?T" and V: "V = {v. connected g s v}"
  have es: "set (weight_sorted_edges g) \<subseteq> set (bt_values (g_edges g))" by (simp add: weight_sorted_edges_def)
  have ms: "connected g (g_myself g) s" using r assms(2) by blast
  have VR: "V = {n. reachable g n}"
    using V ms assms(2) connected_sym [OF ms] by (auto intro: rtranclp_trans)
  have keys: "\<forall>k \<in> ?T. key_reverse k \<in> ?T" "card ?T = 2 * (card V - 1)" using grows_keys [OF g] by blast+
  have links: "\<forall>k \<in> ?T. linked (g_edges g) (ek_from k) (ek_to k)" using grows_connected [OF assms(1) es g] by blast
  have "g_myself g \<in> V" using connected_sym [OF ms] V by simp
  then have "(tree_link ?T)\<^sup>*\<^sup>* (g_myself g) s"
    using tree_link_sym_rtrancl [OF keys(1)] grows_spans [OF g] by blast
  then have "(tree_link ?T)\<^sup>*\<^sup>* (g_myself g) n" if "reachable g n" for n
    using grows_spans [OF g, of n] VR that by (auto intro: rtranclp_trans)
  then have "(tree_link ?T)\<^sup>*\<^sup>* (g_myself g) n \<longleftrightarrow> reachable g n" for n
    using tree_link_connected [OF links, of "g_myself g" n] assms(2) by blast
  with keys links VR show ?thesis by blast
next
  assume m: "g_mst (mst_kruskal g) = []" and none: "\<forall>e \<in> set (bt_values (g_edges g)). \<not> reachable g (e_from e)"
  have "n = g_myself g" if "connected g (g_myself g) n" for n
    using that
  proof (cases rule: converse_rtranclpE)
    case (step b)
    then obtain e where "e \<in> set (outgoing_edges g (g_myself g))" using linked_outgoing [OF assms(1)] by blast
    then have "\<not> reachable g (g_myself g)" using none by (auto simp: outgoing_edges_def)
    then show ?thesis using assms(2) by blast
  qed simp
  then have r: "reachable g n \<longleftrightarrow> g_myself g = n" for n using assms(2) by auto
  then have R: "{n. reachable g n} = {g_myself g}" by auto
  have T: "fst ` set (g_mst (mst_kruskal g)) = {}" using m by simp
  show ?thesis unfolding T R tree_link_empty using r by simp
qed

text \<open>
  C14: when reachability is what the search says (a node is reachable exactly when it is connected
  to the local node), the spanning tree connects the local node to exactly the reachable nodes,
  consists of links of the mesh present in both directions, and has two directed edges for each
  reachable node but one, so it contains no cycle.
\<close>

theorem mst_spans_reachable:
  assumes "graph_ok g" "\<forall>n. reachable g n \<longleftrightarrow> connected g (g_myself g) n"
  shows "(\<forall>n. (tree_link (fst ` set (g_mst (mst_kruskal g))))\<^sup>*\<^sup>* (g_myself g) n \<longleftrightarrow> reachable g n)
    \<and> (\<forall>k \<in> fst ` set (g_mst (mst_kruskal g)). linked (g_edges g) (ek_from k) (ek_to k)
         \<and> key_reverse k \<in> fst ` set (g_mst (mst_kruskal g)))
    \<and> card (fst ` set (g_mst (mst_kruskal g))) = 2 * (card {n. reachable g n} - 1)"
  using assms by (rule mst_spans)

lemma searched:
  assumes "graph_ok g" "sssp_bfs g = Some g1"
  shows "graph_ok (snd (reconcile_reachability_at ex now g1))
    \<and> same_mesh g (snd (reconcile_reachability_at ex now g1))
    \<and> (\<forall>n. reachable (snd (reconcile_reachability_at ex now g1)) n \<longleftrightarrow> connected g (g_myself g) n)"
proof -
  have s: "search_ok g1 [] {}" "same_mesh g g1" using sssp_bfs_search_ok [OF assms] by blast+
  then have "graph_ok g1" "\<forall>n. visited g1 n \<longleftrightarrow> connected g (g_myself g) n"
    using search_reaches [OF s(1)] by (auto simp: search_ok_def same_mesh_def)
  then show ?thesis
    using graph_ok_reconcile same_mesh_trans [OF s(2) same_mesh_reconcile] reachable_reconcile by blast
qed

text \<open>The demo mesh after a search and reconciliation.\<close>

definition demo_routed :: graph where
  "demo_routed = (case sssp_bfs demo_mesh of
     Some g \<Rightarrow> snd (reconcile_reachability_at True 7 g) | None \<Rightarrow> demo_mesh)"

lemma demo_routed_ok:
  "graph_ok demo_routed" "\<forall>n. reachable demo_routed n \<longleftrightarrow> connected demo_routed (g_myself demo_routed) n"
  "g_edges demo_routed = g_edges demo_mesh" "g_myself demo_routed = ''a''" "reachable demo_routed ''b''"
proof -
  obtain g1 nd where g1: "sssp_bfs demo_mesh = Some g1" by (rule demo_mesh_search)
  from searched [OF demo_mesh_ok g1, of True 7] g1
  have *: "graph_ok demo_routed" "same_mesh demo_mesh demo_routed"
    "\<forall>n. reachable demo_routed n \<longleftrightarrow> connected demo_mesh (g_myself demo_mesh) n"
    by (auto simp: demo_routed_def)
  then show "graph_ok demo_routed" "g_edges demo_routed = g_edges demo_mesh" "g_myself demo_routed = ''a''"
    "\<forall>n. reachable demo_routed n \<longleftrightarrow> connected demo_routed (g_myself demo_routed) n"
    by (auto simp: same_mesh_def demo_mesh_facts)
  show "reachable demo_routed ''b''" using *(3) demo_mesh_facts by auto
qed

theorem mst_spans_reachable_witness:
  "(tree_link (fst ` set (g_mst (mst_kruskal demo_routed))))\<^sup>*\<^sup>* ''a'' ''b''"
  using mst_spans_reachable [OF demo_routed_ok(1,2)] demo_routed_ok(4,5) by simp

text \<open>
  The tree is grown from a reachable node by adding, at every step, an edge present in both
  directions that crosses from the tree to the rest and is lightest among all such edges, until
  none crosses; this is what the index restarts of the sweep achieve.
\<close>

theorem mst_grows_lightest:
  assumes "graph_ok g" "e \<in> set (bt_values (g_edges g))" "reachable g (e_from e)"
  shows "\<exists>s V. reachable g s
    \<and> grows g (weight_sorted_edges g) s V (fst ` set (g_mst (mst_kruskal g)))
    \<and> (\<forall>x \<in> set (bt_values (g_edges g)). \<not> addable g V x)"
  using mst_kruskal_grows [OF assms(1)]
proof (elim disjE exE conjE)
  fix s V
  assume *: "reachable g s" "grows g (weight_sorted_edges g) s V (fst ` set (g_mst (mst_kruskal g)))"
    "V = {v. connected g s v}"
  have "\<not> addable g V x" if "x \<in> set (bt_values (g_edges g))" for x
  proof
    assume a: "addable g V x"
    have "x \<in> set (outgoing_edges g (e_from x))" using that by (simp add: outgoing_edges_def)
    then have l: "linked (g_edges g) (e_from x) (e_to x)"
      using outgoing_edge_link(1) [OF assms(1)] a by (simp add: addable_def)
    then have "connected g s (e_from x) \<longleftrightarrow> connected g s (e_to x)"
      using linked_sym by (meson rtranclp.rtrancl_into_rtrancl)
    with a *(3) show False by (simp add: addable_def)
  qed
  with * show ?thesis by blast
next
  assume "\<forall>e \<in> set (bt_values (g_edges g)). \<not> reachable g (e_from e)"
  with assms show ?thesis by blast
qed

theorem mst_grows_lightest_witness:
  "\<exists>s V. reachable demo_routed s
     \<and> grows demo_routed (weight_sorted_edges demo_routed) s V (fst ` set (g_mst (mst_kruskal demo_routed)))"
proof -
  have "linked (g_edges demo_routed) ''b'' ''a''"
    using demo_mesh_facts(2) by (simp add: demo_routed_ok linked_sym)
  then obtain e where "e \<in> set (outgoing_edges demo_routed ''b'')"
    using linked_outgoing [OF demo_routed_ok(1)] by blast
  then have "e \<in> set (bt_values (g_edges demo_routed))" "reachable demo_routed (e_from e)"
    using demo_routed_ok(5) by (auto simp: outgoing_edges_def)
  from mst_grows_lightest [OF demo_routed_ok(1) this] show ?thesis by blast
qed

end
