(* ===== verification/Net_State.thy ===== *)
theory Net_State
  imports Protocol_Props Graph_Tree
begin

text \<open>
  \<^verbatim>\<open>tinc-core/src/state.rs\<close>: the network state a daemon derives from the meta messages it
  receives (the mesh and the subnet table), the handler of each message, the recomputation of
  routes and the purge of unreachable nodes.  A handler returns what it reports and the new
  state.
\<close>

section \<open>State and results\<close>

record network_state =
  ns_graph :: graph
  ns_subnets :: subnet_table
  ns_experimental :: bool

datatype state_mutation =
    MutTerminateRequest
  | MutPing
  | MutPong
  | MutAddSubnet subnet string bool bool
  | MutDeleteSubnet "subnet option"
  | MutAddEdge edge_mutation "string list" reachability_changes
  | MutDeleteEdge "edge option" reachability_changes
  | MutKeyChanged string
  | MutUdpInfo string string edge_endpoint bool
  | MutMtuInfo string string nat nat bool
  | MutNoChange

datatype state_error = GraphErr graph_error

record purge_options =
  po_strict_subnets :: bool
  po_autoconnect :: bool

record purge_result =
  pr_removed_nodes :: "string list"
  pr_removed_edges :: "edge list"
  pr_removed_subnets :: "subnet list"
  pr_reachability :: reachability_changes

definition network_state_new :: "(string \<Rightarrow> byte list) \<Rightarrow> string \<Rightarrow> network_state" where
  "network_state_new H myself =
     \<lparr>ns_graph = graph_new H myself, ns_subnets = [], ns_experimental = True\<rparr>"

section \<open>Handlers\<close>

text \<open>\<open>sssp_bfs\<close> always returns on a well-formed graph; the graph is kept otherwise.\<close>

definition run_sssp :: "graph \<Rightarrow> graph" where
  "run_sssp g = (case sssp_bfs g of Some g' \<Rightarrow> g' | None \<Rightarrow> g)"

definition recompute_routes_at :: "int \<Rightarrow> network_state \<Rightarrow> reachability_changes \<times> network_state" where
  "recompute_routes_at now s =
     (case reconcile_reachability_at (ns_experimental s) now (run_sssp (ns_graph s)) of
        (changes, g) \<Rightarrow> (changes, s\<lparr>ns_graph := mst_kruskal g\<rparr>))"

definition apply_add_subnet ::
  "(string \<Rightarrow> byte list) \<Rightarrow> subnet_message \<Rightarrow> network_state \<Rightarrow> state_mutation \<times> network_state" where
  "apply_add_subnet H m s =
     (case ensure_node H (sm_owner m) (ns_graph s) of (owner_created, g) \<Rightarrow>
        (let subnet = with_owner (sm_owner m) (sm_subnet m)
         in case table_add_unique subnet (ns_subnets s) of (inserted, t) \<Rightarrow>
              (MutAddSubnet subnet (sm_owner m) inserted owner_created,
               s\<lparr>ns_graph := g, ns_subnets := t\<rparr>)))"

definition apply_delete_subnet :: "subnet_message \<Rightarrow> network_state \<Rightarrow> state_mutation \<times> network_state" where
  "apply_delete_subnet m s =
     (case remove_owner_subnet (sm_owner m) (sm_subnet m) (ns_subnets s) of (removed, t) \<Rightarrow>
        (MutDeleteSubnet removed, s\<lparr>ns_subnets := t\<rparr>))"

definition edge_from_add_edge_message :: "add_edge_message \<Rightarrow> edge" where
  "edge_from_add_edge_message m =
     (let e = (ae_edge m)\<lparr>e_address := Some \<lparr>ep_address = ae_address m, ep_port = ae_port m\<rparr>\<rparr>
      in case ae_local m of
           Some l \<Rightarrow> e\<lparr>e_local_address := Some \<lparr>ep_address = ea_address l, ep_port = ea_port l\<rparr>\<rparr>
         | None \<Rightarrow> e)"

definition apply_add_edge ::
  "(string \<Rightarrow> byte list) \<Rightarrow> add_edge_message \<Rightarrow> int \<Rightarrow> network_state
    \<Rightarrow> (state_error + state_mutation) \<times> network_state" where
  "apply_add_edge H m now s =
     (case ensure_node H (e_from (ae_edge m)) (ns_graph s) of (from_created, g1) \<Rightarrow>
      (case ensure_node H (e_to (ae_edge m)) g1 of (to_created, g2) \<Rightarrow>
        (let created = (if from_created then [e_from (ae_edge m)] else [])
               @ (if to_created then [e_to (ae_edge m)] else [])
         in case upsert_edge (edge_from_add_edge_message m) g2 of
              Inl err \<Rightarrow> (Inl (GraphErr err), s\<lparr>ns_graph := g2\<rparr>)
            | Inr (mutation, g3) \<Rightarrow>
                (case recompute_routes_at now (s\<lparr>ns_graph := g3\<rparr>) of (reachability, s') \<Rightarrow>
                   (Inr (MutAddEdge mutation created reachability), s')))))"

definition apply_delete_edge ::
  "string \<Rightarrow> string \<Rightarrow> int \<Rightarrow> network_state \<Rightarrow> state_mutation \<times> network_state" where
  "apply_delete_edge f t now s =
     (case remove_edge f t (ns_graph s) of (removed, g) \<Rightarrow>
      (case recompute_routes_at now (s\<lparr>ns_graph := g\<rparr>) of (reachability, s') \<Rightarrow>
         (MutDeleteEdge removed reachability, s')))"

definition apply_key_changed :: "key_changed_message \<Rightarrow> network_state \<Rightarrow> state_mutation \<times> network_state" where
  "apply_key_changed m s =
     (case graph_node (ns_graph s) (kc_origin m) of
        None \<Rightarrow> (MutNoChange, s)
      | Some _ \<Rightarrow>
          (MutKeyChanged (kc_origin m),
           s\<lparr>ns_graph := node_mut (kc_origin m)
               (\<lambda>n. if \<not> st_sptps (n_status n)
                    then n\<lparr>n_status := (n_status n)\<lparr>st_valid_key := False\<rparr>\<rparr> else n) (ns_graph s)\<rparr>))"

definition apply_udp_info :: "udp_info_message \<Rightarrow> network_state \<Rightarrow> state_mutation \<times> network_state" where
  "apply_udp_info m s =
     (if ui_from m = g_myself (ns_graph s) then (MutNoChange, s)
      else case graph_node (ns_graph s) (ui_from m) of
        None \<Rightarrow> (MutNoChange, s)
      | Some node \<Rightarrow>
          (let endpoint = \<lparr>ep_address = ea_address (ui_endpoint m), ep_port = ea_port (ui_endpoint m)\<rparr>;
               changed = (n_udp_address node \<noteq> Some endpoint)
           in (MutUdpInfo (ui_from m) (ui_to m) endpoint changed,
               s\<lparr>ns_graph := node_mut (ui_from m)
                   (\<lambda>n. n\<lparr>n_status := (n_status n)\<lparr>st_udp_confirmed := False\<rparr>, n_mtu_probes := 0,
                          n_min_mtu := 0, n_max_mtu := DEFAULT_MTU, n_udp_address := Some endpoint\<rparr>)
                   (ns_graph s)\<rparr>)))"

definition apply_mtu_info :: "mtu_info_message \<Rightarrow> network_state \<Rightarrow> state_mutation \<times> network_state" where
  "apply_mtu_info m s =
     (case graph_node (ns_graph s) (mi_from m) of
        None \<Rightarrow> (MutNoChange, s)
      | Some node \<Rightarrow>
          (let previous = n_mtu node;
               mtu = (if n_mtu node \<noteq> mi_mtu m \<and> n_min_mtu node \<noteq> n_max_mtu node then mi_mtu m
                      else n_mtu node)
           in (MutMtuInfo (mi_from m) (mi_to m) (mi_mtu m) previous (previous \<noteq> mtu),
               s\<lparr>ns_graph := node_mut (mi_from m) (\<lambda>n. n\<lparr>n_mtu := mtu\<rparr>) (ns_graph s)\<rparr>)))"

definition reported :: "state_mutation \<times> network_state \<Rightarrow> (state_error + state_mutation) \<times> network_state" where
  "reported r = (Inr (fst r), snd r)"

definition apply_meta_message_at ::
  "(string \<Rightarrow> byte list) \<Rightarrow> meta_message \<Rightarrow> int \<Rightarrow> network_state
    \<Rightarrow> (state_error + state_mutation) \<times> network_state" where
  "apply_meta_message_at H m now s =
     (case m of
        MsgTerminateRequest \<Rightarrow> (Inr MutTerminateRequest, s)
      | MsgPing \<Rightarrow> (Inr MutPing, s)
      | MsgPong \<Rightarrow> (Inr MutPong, s)
      | MsgAddSubnet x \<Rightarrow> reported (apply_add_subnet H x s)
      | MsgDeleteSubnet x \<Rightarrow> reported (apply_delete_subnet x s)
      | MsgAddEdge x \<Rightarrow> apply_add_edge H x now s
      | MsgDeleteEdge x \<Rightarrow> reported (apply_delete_edge (de_from x) (de_to x) now s)
      | MsgKeyChanged x \<Rightarrow> reported (apply_key_changed x s)
      | MsgUdpInfo x \<Rightarrow> reported (apply_udp_info x s)
      | MsgMtuInfo x \<Rightarrow> reported (apply_mtu_info x s)
      | MsgId _ \<Rightarrow> (Inr MutNoChange, s)
      | MsgMetaKey _ \<Rightarrow> (Inr MutNoChange, s)
      | MsgChallenge _ \<Rightarrow> (Inr MutNoChange, s)
      | MsgChallengeReply _ \<Rightarrow> (Inr MutNoChange, s)
      | MsgAck _ \<Rightarrow> (Inr MutNoChange, s)
      | MsgRequestKey _ \<Rightarrow> (Inr MutNoChange, s)
      | MsgAnswerKey _ \<Rightarrow> (Inr MutNoChange, s)
      | MsgTcpPacket _ \<Rightarrow> (Inr MutNoChange, s)
      | MsgSptpsTcpPacket _ \<Rightarrow> (Inr MutNoChange, s))"

section \<open>Purge\<close>

definition unreachable_names :: "graph \<Rightarrow> string list" where
  "unreachable_names g =
     map n_name (filter (\<lambda>n. n_name n \<noteq> g_myself g \<and> \<not> st_reachable (n_status n)) (bt_values (g_nodes g)))"

text \<open>The first loop: the subnets (unless strict) and the outgoing edges of a name.\<close>

definition purge_links ::
  "purge_options \<Rightarrow> string \<Rightarrow> subnet list \<times> edge list \<times> network_state
    \<Rightarrow> subnet list \<times> edge list \<times> network_state" where
  "purge_links opts name acc =
     (case acc of (removed_subnets, removed_edges, s) \<Rightarrow>
        (case (if po_strict_subnets opts then ([], ns_subnets s) else remove_owner name (ns_subnets s)) of
           (subnets, t) \<Rightarrow>
             (case remove_edges_from name (ns_graph s) of (edges, g) \<Rightarrow>
                (removed_subnets @ subnets, removed_edges @ edges, s\<lparr>ns_graph := g, ns_subnets := t\<rparr>))))"

text \<open>The second loop: the node itself.\<close>

definition purge_node ::
  "purge_options \<Rightarrow> string \<Rightarrow> string list \<times> network_state \<Rightarrow> string list \<times> network_state" where
  "purge_node opts name acc =
     (case acc of (removed_nodes, s) \<Rightarrow>
        (let has_claimed_subnets = (owner_subnets (ns_subnets s) name \<noteq> [])
         in if \<not> po_autoconnect opts \<and> (\<not> po_strict_subnets opts \<or> \<not> has_claimed_subnets)
              \<and> \<not> has_edge_to (ns_graph s) name
            then (case remove_node name (ns_graph s) of
                    (Some n, g) \<Rightarrow> (removed_nodes @ [n_name n], s\<lparr>ns_graph := g\<rparr>)
                  | (None, g) \<Rightarrow> (removed_nodes, s\<lparr>ns_graph := g\<rparr>))
            else (removed_nodes, s)))"

definition purge_unreachable_at ::
  "purge_options \<Rightarrow> int \<Rightarrow> network_state \<Rightarrow> purge_result \<times> network_state" where
  "purge_unreachable_at opts now s =
     (let names = unreachable_names (ns_graph s)
      in case fold (purge_links opts) names ([], [], s) of (removed_subnets, removed_edges, s1) \<Rightarrow>
         (case fold (purge_node opts) names ([], s1) of (removed_nodes, s2) \<Rightarrow>
         (case recompute_routes_at now s2 of (reachability, s3) \<Rightarrow>
            (\<lparr>pr_removed_nodes = removed_nodes, pr_removed_edges = removed_edges,
              pr_removed_subnets = removed_subnets, pr_reachability = reachability\<rparr>, s3))))"

end
