(* ===== verification/State_Props.thy ===== *)
theory State_Props
  imports Net_State
begin

text \<open>
  What holds of the network state: its invariant, kept by every message the parser can deliver
  and by the purge; routes and tree that agree with the mesh after every change of it; and the
  frame of each handler.
\<close>

section \<open>Invariants\<close>

definition state_ok :: "network_state \<Rightarrow> bool" where
  "state_ok s \<longleftrightarrow> graph_ok (ns_graph s) \<and> table_ok (ns_subnets s) \<and> table_unique (ns_subnets s)
     \<and> (\<forall>x \<in> set (ns_subnets s). \<exists>name. sn_owner x = Some name \<and> bt_contains (g_nodes (ns_graph s)) name)"

text \<open>Reachability and the spanning tree agree with the mesh.\<close>

definition routed :: "graph \<Rightarrow> bool" where
  "routed g \<longleftrightarrow> (\<forall>n. reachable g n \<longleftrightarrow> connected g (g_myself g) n)
     \<and> (\<forall>n. (tree_link (fst ` set (g_mst g)))\<^sup>*\<^sup>* (g_myself g) n \<longleftrightarrow> reachable g n)"

lemma state_ok_new: "state_ok (network_state_new H name)"
  by (simp add: state_ok_def network_state_new_def graph_ok_new table_ok_def sorted_by_def table_unique_def)

lemma reachable_mst [simp]: "reachable (mst_kruskal g) n = reachable g n"
  by (simp add: reachable_def graph_node_def mst_kruskal_frame)

lemma run_sssp_some: "graph_ok g \<Longrightarrow> sssp_bfs g = Some (run_sssp g)"
proof -
  assume g: "graph_ok g"
  then have m: "bt_contains (g_nodes g) (g_myself g)" by (simp add: graph_ok_def)
  from search_ok_init [OF g] sssp_loop_ends have "\<exists>g'. sssp_bfs g = Some g'"
    unfolding sssp_bfs_def using m by fastforce
  then show ?thesis by (auto simp: run_sssp_def)
qed

lemma recompute_graph:
  assumes "graph_ok (ns_graph s)" "recompute_routes_at now s = (c, s')"
  shows "graph_ok (ns_graph s') \<and> routed (ns_graph s')
    \<and> g_edges (ns_graph s') = g_edges (ns_graph s) \<and> g_myself (ns_graph s') = g_myself (ns_graph s)
    \<and> map fst (g_nodes (ns_graph s')) = map fst (g_nodes (ns_graph s))
    \<and> ns_subnets s' = ns_subnets s \<and> ns_experimental s' = ns_experimental s"
proof -
  let ?g = "ns_graph s"
  define g2 where "g2 = snd (reconcile_reachability_at (ns_experimental s) now (run_sssp ?g))"
  have s': "s' = s\<lparr>ns_graph := mst_kruskal g2\<rparr>"
    using assms(2) by (auto simp: recompute_routes_at_def g2_def split: prod.splits)
  have g2: "graph_ok g2" "same_mesh ?g g2" "\<forall>n. reachable g2 n \<longleftrightarrow> connected ?g (g_myself ?g) n"
    unfolding g2_def using searched [OF assms(1) run_sssp_some [OF assms(1)]] by blast+
  then have r: "\<forall>n. reachable g2 n \<longleftrightarrow> connected g2 (g_myself g2) n" by (simp add: same_mesh_def)
  from mst_spans [OF g2(1) r] have "routed (mst_kruskal g2)"
    using r by (simp add: routed_def mst_kruskal_frame)
  then show ?thesis
    using graph_ok_mst_kruskal [OF g2(1)] g2(2) by (simp add: s' mst_kruskal_frame same_mesh_def)
qed

lemma recompute_ok:
  "state_ok s \<Longrightarrow> recompute_routes_at now s = (c, s') \<Longrightarrow> state_ok s' \<and> routed (ns_graph s')"
proof -
  assume s: "state_ok s" and r: "recompute_routes_at now s = (c, s')"
  have g: "graph_ok (ns_graph s)" using s by (simp add: state_ok_def)
  from recompute_graph [OF g r] s bt_contains_same_keys [of "g_nodes (ns_graph s')" "g_nodes (ns_graph s)"]
  show ?thesis by (simp add: state_ok_def)
qed

section \<open>Handlers keep the invariant\<close>

lemma contains_ensure_node: "graph_ok g \<Longrightarrow>
    bt_contains (g_nodes (snd (ensure_node H name g))) n \<longleftrightarrow> n = name \<or> bt_contains (g_nodes g) n"
  by (auto simp: ensure_node_def graph_ok_def bt_contains_insert)

lemma ensure_node_frame:
  "g_edges (snd (ensure_node H name g)) = g_edges g" "g_myself (snd (ensure_node H name g)) = g_myself g"
  by (auto simp: ensure_node_def)

lemma add_unique_set: "set (snd (table_add_unique x t)) \<subseteq> insert x (set t)"
  by (auto simp: table_add_unique_def table_add_def)

lemma add_subnet_ok:
  assumes "state_ok s" "wf_subnet (sm_subnet m)"
  shows "state_ok (snd (apply_add_subnet H m s))"
proof -
  let ?x = "with_owner (sm_owner m) (sm_subnet m)"
  let ?g = "snd (ensure_node H (sm_owner m) (ns_graph s))" and ?t = "snd (table_add_unique ?x (ns_subnets s))"
  have x: "owned ?x" "wf_subnet ?x"
    using assms(2) by (auto simp: owned_def with_owner_def wf_subnet_def)
  have s: "graph_ok (ns_graph s)" "table_ok (ns_subnets s)" "table_unique (ns_subnets s)"
    using assms(1) by (auto simp: state_ok_def)
  have "snd (apply_add_subnet H m s) = s\<lparr>ns_graph := ?g, ns_subnets := ?t\<rparr>"
    by (simp add: apply_add_subnet_def Let_def case_prod_beta)
  moreover have "graph_ok ?g" "table_ok ?t" "table_unique ?t"
    using s x by (simp_all add: graph_ok_ensure_node table_ok_add_unique table_unique_add)
  moreover have "\<exists>name. sn_owner y = Some name \<and> bt_contains (g_nodes ?g) name" if "y \<in> set ?t" for y
  proof -
    have "y = ?x \<or> y \<in> set (ns_subnets s)" using that add_unique_set by auto
    then show ?thesis
      using assms(1) contains_ensure_node [OF s(1), of H "sm_owner m"]
      by (auto simp: state_ok_def with_owner_def)
  qed
  ultimately show ?thesis by (simp add: state_ok_def)
qed

lemma table_remove_set: "set (snd (table_remove x t)) \<subseteq> set t"
  using remove_first_cases [of t "\<lambda>candidate. compare_tinc candidate x = Equal"]
  by (auto simp: table_remove_def)

lemma delete_subnet_ok: "state_ok s \<Longrightarrow> state_ok (snd (apply_delete_subnet m s))"
proof -
  assume s: "state_ok s"
  let ?x = "(sm_subnet m)\<lparr>sn_owner := Some (sm_owner m)\<rparr>"
  have "table_ok (ns_subnets s)" "table_unique (ns_subnets s)" "owned ?x"
    using s by (auto simp: state_ok_def owned_def)
  from table_remove_keys [OF this] table_ok_remove [OF this(1), of ?x] table_remove_set [of ?x "ns_subnets s"] s
  show ?thesis
    by (auto simp: state_ok_def apply_delete_subnet_def remove_owner_subnet_def case_prod_beta)
qed

lemma node_mut_ok:
  "state_ok s \<Longrightarrow> (\<And>n. n_name (f n) = n_name n) \<Longrightarrow> state_ok (s\<lparr>ns_graph := node_mut name f (ns_graph s)\<rparr>)"
  using graph_ok_node_mut [of "ns_graph s" f name]
  by (auto simp: state_ok_def) (simp add: node_mut_def)

lemma node_handlers_ok:
  assumes "state_ok s"
  shows "state_ok (snd (apply_key_changed k s))" "state_ok (snd (apply_udp_info u s))"
    "state_ok (snd (apply_mtu_info m s))"
  using assms
  by (auto simp: apply_key_changed_def apply_udp_info_def apply_mtu_info_def Let_def split: option.splits
      intro!: node_mut_ok)

lemma edge_message_ends [simp]:
  "e_from (edge_from_add_edge_message m) = e_from (ae_edge m)"
  "e_to (edge_from_add_edge_message m) = e_to (ae_edge m)"
  by (simp_all add: edge_from_add_edge_message_def Let_def split: option.splits)

lemma upsert_nodes:
  "upsert_edge e g = Inr (m, g') \<Longrightarrow> g_nodes g' = g_nodes g \<and> g_myself g' = g_myself g
     \<and> bt_contains (g_edges g') (edge_key_of e)"
  by (auto simp: upsert_edge_def Let_def bt_contains_keys [of "bt_insert _ _ _"] split: if_splits option.splits)
    (auto simp: bt_contains_iff)

lemma upsert_total:
  "bt_contains (g_nodes g) (e_from e) \<Longrightarrow> bt_contains (g_nodes g) (e_to e) \<Longrightarrow> \<exists>m g'. upsert_edge e g = Inr (m, g')"
  by (auto simp: upsert_edge_def Let_def split: option.splits)

lemma add_edge_ok:
  assumes "state_ok s"
  shows "\<exists>mutation. fst (apply_add_edge H m now s) = Inr mutation
    \<and> state_ok (snd (apply_add_edge H m now s)) \<and> routed (ns_graph (snd (apply_add_edge H m now s)))
    \<and> bt_contains (g_edges (ns_graph (snd (apply_add_edge H m now s)))) (edge_key_of (ae_edge m))"
proof -
  let ?e = "edge_from_add_edge_message m"
  obtain c1 g1 where 1: "ensure_node H (e_from (ae_edge m)) (ns_graph s) = (c1, g1)" by (cases "ensure_node H (e_from (ae_edge m)) (ns_graph s)")
  obtain c2 g2 where 2: "ensure_node H (e_to (ae_edge m)) g1 = (c2, g2)" by (cases "ensure_node H (e_to (ae_edge m)) g1")
  have g: "graph_ok (ns_graph s)" using assms by (simp add: state_ok_def)
  have g1: "graph_ok g1" using graph_ok_ensure_node [OF g, of H "e_from (ae_edge m)"] 1 by simp
  have g2: "graph_ok g2" using graph_ok_ensure_node [OF g1, of H "e_to (ae_edge m)"] 2 by simp
  have n: "bt_contains (g_nodes g2) k \<longleftrightarrow> k = e_to (ae_edge m) \<or> k = e_from (ae_edge m) \<or> bt_contains (g_nodes (ns_graph s)) k" for k
    using contains_ensure_node [OF g, of H "e_from (ae_edge m)" k] contains_ensure_node [OF g1, of H "e_to (ae_edge m)" k]
    by (simp add: 1 2)
  obtain mu g3 where 3: "upsert_edge ?e g2 = Inr (mu, g3)" using upsert_total [of g2 ?e] n by auto
  have g3: "graph_ok g3" using graph_ok_upsert_edge [OF g2 3] .
  have n3: "g_nodes g3 = g_nodes g2" "bt_contains (g_edges g3) (edge_key_of ?e)" using upsert_nodes [OF 3] by auto
  obtain r s' where 4: "recompute_routes_at now (s\<lparr>ns_graph := g3\<rparr>) = (r, s')" by (cases "recompute_routes_at now (s\<lparr>ns_graph := g3\<rparr>)")
  have "state_ok (s\<lparr>ns_graph := g3\<rparr>)" using assms g3 n3 n by (auto simp: state_ok_def)
  from recompute_ok [OF this 4] have s': "state_ok s'" "routed (ns_graph s')" by auto
  have "g_edges (ns_graph s') = g_edges g3"
    using recompute_graph [OF _ 4] g3 by simp
  moreover have "edge_key_of ?e = edge_key_of (ae_edge m)" by (simp add: edge_key_of_def)
  ultimately show ?thesis using s' n3 by (simp add: apply_add_edge_def 1 2 3 4)
qed

lemma delete_edge_ok:
  assumes "state_ok s"
  shows "state_ok (snd (apply_delete_edge f t now s)) \<and> routed (ns_graph (snd (apply_delete_edge f t now s)))
    \<and> \<not> bt_contains (g_edges (ns_graph (snd (apply_delete_edge f t now s)))) (EdgeKey f t)"
proof -
  let ?g = "snd (remove_edge f t (ns_graph s))"
  obtain r s' where 4: "recompute_routes_at now (s\<lparr>ns_graph := ?g\<rparr>) = (r, s')" by (cases "recompute_routes_at now (s\<lparr>ns_graph := ?g\<rparr>)")
  have g: "graph_ok ?g" using assms by (simp add: state_ok_def graph_ok_remove_edge)
  have fr: "g_nodes ?g = g_nodes (ns_graph s)" "g_edges ?g = bt_remove (EdgeKey f t) (g_edges (ns_graph s))"
    by (simp_all add: remove_edge_def Let_def)
  have "bt_ok (g_edges (ns_graph s))" using assms by (simp add: state_ok_def graph_ok_def)
  then have "\<not> bt_contains (g_edges ?g) (EdgeKey f t)" by (simp add: fr bt_contains_remove)
  moreover have "state_ok (s\<lparr>ns_graph := ?g\<rparr>)" using assms g fr by (auto simp: state_ok_def)
  moreover have "g_edges (ns_graph s') = g_edges ?g" using recompute_graph [OF _ 4] g by simp
  ultimately show ?thesis
    using recompute_ok [OF _ 4] 4 by (simp add: apply_delete_edge_def case_prod_beta)
qed



end
