(* ===== verification/State_Purge.thy ===== *)
theory State_Purge
  imports State_Props
begin

text \<open>
  The purge: it removes what unreachable nodes announced without touching anything reachable,
  and never changes reachability; and the state machine of messages and purges as a whole.
\<close>

section \<open>The search keeps reachability marks\<close>

definition reach_bits :: "graph \<Rightarrow> (string \<times> bool) list" where
  "reach_bits g = map (\<lambda>(k, n). (k, st_reachable (n_status n))) (g_nodes g)"

lemma reach_bits_reachable: "reachable g n \<longleftrightarrow> map_of (reach_bits g) n = Some True"
proof -
  have "map_of (reach_bits g) n = map_option (\<lambda>x. st_reachable (n_status x)) (graph_node g n)"
    unfolding reach_bits_def map_of_map graph_node_def bt_get_def comp_def by (rule refl)
  then show ?thesis by (cases "graph_node g n") (simp_all add: reachable_def)
qed

lemma reach_bits_adjust:
  assumes "\<And>nd. st_reachable (n_status (f nd)) = st_reachable (n_status nd)"
  shows "reach_bits (node_mut k f g) = reach_bits g"
proof -
  have "map (\<lambda>(k, n). (k, st_reachable (n_status n))) (bt_adjust k f m)
      = map (\<lambda>(k, n). (k, st_reachable (n_status n))) m" for m
    unfolding bt_adjust_def by (induction m) (auto simp: assms split: if_splits)
  then show ?thesis by (simp add: reach_bits_def node_mut_def)
qed

lemma relaxed_reachable [simp]:
  "st_reachable (n_status (relaxed_node my src e i d w nd)) = st_reachable (n_status nd)"
  by (simp add: relaxed_node_def Let_def)

lemma reach_bits_edge: "reach_bits (fst (sssp_edge src e gq)) = reach_bits (fst gq)"
  by (auto simp: sssp_edge_def Let_def reach_bits_adjust split: prod.splits option.splits)

lemma reach_bits_fold: "reach_bits (fst (fold (sssp_edge src) es gq)) = reach_bits (fst gq)"
  by (induction es arbitrary: gq) (simp_all add: reach_bits_edge)

lemma reach_bits_loop:
  assumes "sssp_loop g queue = Some g'"
  shows "reach_bits g' = reach_bits g"
proof (rule sssp_loop.raw_induct [OF _ assms, of "\<lambda>g queue g'. reach_bits g' = reach_bits g"])
  fix loop g queue g'
  assume IH: "\<And>g queue g'. loop g queue = Some g' \<Longrightarrow> reach_bits g' = reach_bits g"
    and body: "(case queue of [] \<Rightarrow> Some g
      | name # rest \<Rightarrow> (case route_source_state g name of None \<Rightarrow> loop g rest
          | Some src \<Rightarrow> let gq = fold (sssp_edge src) (outgoing_edges g name) (g, rest)
                         in loop (fst gq) (snd gq))) = Some g'"
  show "reach_bits g' = reach_bits g"
  proof (cases queue)
    case (Cons name rest)
    then show ?thesis
      using body IH reach_bits_fold [of _ "outgoing_edges g name" "(g, rest)"]
      by (cases "route_source_state g name") (auto simp: Let_def)
  qed (use body in simp)
qed

lemma reach_bits_init: "reach_bits (sssp_init g) = reach_bits g"
  unfolding sssp_init_def
  by (subst reach_bits_adjust)
    (auto simp: sssp_root_node_def reach_bits_def bt_map_def sssp_reset_node_def)

lemma reach_bits_sssp: "sssp_bfs g = Some g' \<Longrightarrow> reach_bits g' = reach_bits g"
  by (auto simp: sssp_bfs_def reach_bits_init dest!: reach_bits_loop split: if_splits)
    (auto simp: reach_bits_def bt_map_def sssp_reset_node_def)

text \<open>When reachability already agrees with the mesh, recomputing reports no change.\<close>

lemma recompute_stable:
  assumes "graph_ok (ns_graph s)"
    and "\<forall>n. reachable (ns_graph s) n \<longleftrightarrow> connected (ns_graph s) (g_myself (ns_graph s)) n"
    and "recompute_routes_at now s = (c, s')"
  shows "c = \<lparr>became_reachable = [], became_unreachable = []\<rparr>
    \<and> (\<forall>n. reachable (ns_graph s') n = reachable (ns_graph s) n)"
proof -
  let ?g = "ns_graph s" and ?g1 = "run_sssp (ns_graph s)"
  note some = run_sssp_some [OF assms(1)]
  have s1: "search_ok ?g1 [] {}" "same_mesh ?g ?g1" using sssp_bfs_search_ok [OF assms(1) some] by blast+
  have vr: "visited ?g1 n = reachable ?g1 n" for n
    using search_reaches [OF s1(1)] s1(2) assms(2) reach_bits_sssp [OF some]
    by (simp add: same_mesh_def reach_bits_reachable)
  have ok: "bt_ok (g_nodes ?g1)" using s1(1) by (simp add: search_ok_def graph_ok_def)
  have eq: "st_visited (n_status x) = st_reachable (n_status x)" if x: "x \<in> set (bt_values (g_nodes ?g1))" for x
  proof -
    obtain k where "graph_node ?g1 k = Some x"
      using x bt_values_mem [OF ok] by (auto simp: graph_node_def)
    then show ?thesis using vr [of k] by (simp add: visited_def reachable_def)
  qed
  have "fst (reconcile_reachability_at (ns_experimental s) now ?g1) = \<lparr>became_reachable = [], became_unreachable = []\<rparr>"
    using eq by (simp add: reconcile_reachability_at_def fold_node_change filter_empty_conv)
  then have "c = \<lparr>became_reachable = [], became_unreachable = []\<rparr>"
    using assms(3) by (auto simp: recompute_routes_at_def split: prod.splits)
  moreover have "\<forall>n. reachable (ns_graph s') n \<longleftrightarrow> connected (ns_graph s') (g_myself (ns_graph s')) n"
    "g_edges (ns_graph s') = g_edges ?g" "g_myself (ns_graph s') = g_myself ?g"
    using recompute_graph [OF assms(1,3)] by (auto simp: routed_def)
  ultimately show ?thesis using assms(2) by simp
qed

section \<open>The two loops\<close>

lemma unreachable_mem:
  assumes "graph_ok g"
  shows "n \<in> set (unreachable_names g) \<longleftrightarrow> bt_contains (g_nodes g) n \<and> n \<noteq> g_myself g \<and> \<not> reachable g n"
proof -
  have ok: "bt_ok (g_nodes g)" and nm: "\<And>k x. bt_get (g_nodes g) k = Some x \<Longrightarrow> n_name x = k"
    using assms by (auto simp: graph_ok_def)
  show ?thesis
  proof
    assume "n \<in> set (unreachable_names g)"
    then obtain k x where "bt_get (g_nodes g) k = Some x" "n_name x = n" "n \<noteq> g_myself g"
      "\<not> st_reachable (n_status x)"
      by (auto simp: unreachable_names_def bt_values_mem [OF ok])
    with nm show "bt_contains (g_nodes g) n \<and> n \<noteq> g_myself g \<and> \<not> reachable g n"
      by (auto simp: bt_contains_iff reachable_def graph_node_def)
  next
    assume *: "bt_contains (g_nodes g) n \<and> n \<noteq> g_myself g \<and> \<not> reachable g n"
    then obtain x where x: "bt_get (g_nodes g) n = Some x" by (auto simp: bt_contains_iff)
    then have "x \<in> set (bt_values (g_nodes g))" using bt_values_mem [OF ok] by blast
    with * x nm [OF x] show "n \<in> set (unreachable_names g)"
      by (auto simp: unreachable_names_def reachable_def graph_node_def image_iff)
  qed
qed

text \<open>What the state is after the first loop has treated the names in \<open>D\<close>.\<close>

definition links_purged :: "bool \<Rightarrow> string set \<Rightarrow> network_state \<Rightarrow> network_state \<Rightarrow> bool" where
  "links_purged strict D s s' \<longleftrightarrow> state_ok s'
     \<and> g_nodes (ns_graph s') = g_nodes (ns_graph s) \<and> g_myself (ns_graph s') = g_myself (ns_graph s)
     \<and> (\<forall>k. bt_get (g_edges (ns_graph s')) k = (if ek_from k \<in> D then None else bt_get (g_edges (ns_graph s)) k))
     \<and> ns_subnets s' = (if strict then ns_subnets s
          else filter (\<lambda>x. \<forall>n \<in> D. sn_owner x \<noteq> Some n) (ns_subnets s))
     \<and> ns_experimental s' = ns_experimental s"

lemma purge_links_step:
  assumes "links_purged (po_strict_subnets opts) D s s'" "purge_links opts name (rs, re, s') = (rs', re', s'')"
  shows "links_purged (po_strict_subnets opts) (insert name D) s s''"
proof -
  have ok: "state_ok s'" using assms(1) by (simp add: links_purged_def)
  then have g: "graph_ok (ns_graph s')" and t: "table_ok (ns_subnets s')" "table_unique (ns_subnets s')"
    by (simp_all add: state_ok_def)
  let ?g = "snd (remove_edges_from name (ns_graph s'))"
  let ?t = "if po_strict_subnets opts then ns_subnets s' else filter (\<lambda>x. sn_owner x \<noteq> Some name) (ns_subnets s')"
  have s'': "s'' = s'\<lparr>ns_graph := ?g, ns_subnets := ?t\<rparr>"
    using assms(2) snd_remove_owner [of name "ns_subnets s'"]
    by (auto simp: purge_links_def split: prod.splits if_splits)
  have ge: "g_nodes ?g = g_nodes (ns_graph s')" "g_myself ?g = g_myself (ns_graph s')"
    "g_edges ?g = bt_retain (\<lambda>k _. ek_from k \<noteq> name) (g_edges (ns_graph s'))"
    by (simp_all add: remove_edges_from_eq [OF g])
  have "bt_get (g_edges ?g) k = (if ek_from k = name then None else bt_get (g_edges (ns_graph s')) k)" for k
    using g by (simp add: ge(3) bt_get_retain graph_ok_def split: option.splits)
  moreover have "state_ok s''"
    using ok g t table_ok_filter [OF t(1)] table_unique_filter [OF t(2)]
    by (auto simp: s'' state_ok_def ge graph_ok_remove_edges_from)
  moreover have "?t = (if po_strict_subnets opts then ns_subnets s
      else filter (\<lambda>x. \<forall>n \<in> insert name D. sn_owner x \<noteq> Some n) (ns_subnets s))"
    using assms(1) by (auto simp: links_purged_def intro!: filter_cong)
  ultimately show ?thesis
    using assms(1) unfolding links_purged_def by (simp add: s'' ge)
qed

lemma purge_links_fold:
  assumes "links_purged (po_strict_subnets opts) D s s'" "fold (purge_links opts) names (rs, re, s') = (rs', re', s'')"
  shows "links_purged (po_strict_subnets opts) (D \<union> set names) s s''"
  using assms
proof (induction names arbitrary: D rs re s')
  case (Cons name names)
  obtain rs1 re1 s1 where 1: "purge_links opts name (rs, re, s') = (rs1, re1, s1)"
    by (cases "purge_links opts name (rs, re, s')")
  from Cons.IH [OF purge_links_step [OF Cons.prems(1) 1]] Cons.prems(2) 1 show ?case by simp
qed simp

text \<open>What it is after the second loop: only nodes named in \<open>U\<close> and their edges are gone.\<close>

definition nodes_purged :: "string set \<Rightarrow> network_state \<Rightarrow> network_state \<Rightarrow> bool" where
  "nodes_purged U s s' \<longleftrightarrow> state_ok s'
     \<and> g_myself (ns_graph s') = g_myself (ns_graph s) \<and> ns_subnets s' = ns_subnets s
     \<and> (\<forall>n. n \<notin> U \<longrightarrow> graph_node (ns_graph s') n = graph_node (ns_graph s) n)
     \<and> (\<forall>n x. graph_node (ns_graph s') n = Some x \<longrightarrow> graph_node (ns_graph s) n = Some x)
     \<and> (\<forall>k e. bt_get (g_edges (ns_graph s')) k = Some e \<longrightarrow> bt_get (g_edges (ns_graph s)) k = Some e)
     \<and> (\<forall>k. ek_from k \<notin> U \<and> ek_to k \<notin> U \<longrightarrow> bt_get (g_edges (ns_graph s')) k = bt_get (g_edges (ns_graph s)) k)
     \<and> ns_experimental s' = ns_experimental s"

lemma purge_node_step:
  assumes "nodes_purged U s s'" "name \<in> U" "purge_node opts name (ns, s') = (ns', s'')"
    and "\<not> po_strict_subnets opts \<Longrightarrow> \<forall>x \<in> set (ns_subnets s). sn_owner x \<noteq> Some name"
  shows "nodes_purged U s s'' \<and> set ns' \<subseteq> set ns \<union> {name}"
proof -
  have ok: "state_ok s'" using assms(1) by (simp add: nodes_purged_def)
  then have g: "graph_ok (ns_graph s')" by (simp add: state_ok_def)
  then have b: "bt_ok (g_nodes (ns_graph s'))" "bt_ok (g_edges (ns_graph s'))" by (auto simp: graph_ok_def)
  let ?c = "\<not> po_autoconnect opts \<and> (\<not> po_strict_subnets opts \<or> owner_subnets (ns_subnets s') name = [])
    \<and> \<not> has_edge_to (ns_graph s') name"
  show ?thesis
  proof (cases "?c \<and> name \<noteq> g_myself (ns_graph s')")
    case False
    then have "s'' = s' \<and> ns' = ns"
      using assms(3) by (auto simp: purge_node_def remove_node_def Let_def split: if_splits)
    with assms(1) show ?thesis by auto
  next
    case True
    let ?g = "snd (remove_node name (ns_graph s'))"
    have s'': "s'' = s'\<lparr>ns_graph := ?g\<rparr>" and ns': "set ns' \<subseteq> set ns \<union> {name}"
      using assms(3) True g by (auto simp: purge_node_def remove_node_def Let_def graph_ok_def split: option.splits)
    have fr: "g_myself ?g = g_myself (ns_graph s')"
      "graph_node ?g n = (if n = name then None else graph_node (ns_graph s') n)"
      "bt_get (g_edges ?g) k = (if ek_from k \<noteq> name \<and> ek_to k \<noteq> name then bt_get (g_edges (ns_graph s')) k else None)" for n k
      using True b by (simp_all add: remove_node_def graph_node_def bt_get_remove bt_get_retain split: option.splits)
    have noowner: "\<forall>x \<in> set (ns_subnets s'). sn_owner x \<noteq> Some name"
    proof -
      have "ns_subnets s' = ns_subnets s" using assms(1) unfolding nodes_purged_def by blast
      with True assms(4) show ?thesis by (auto simp: owner_subnets_def filter_empty_conv)
    qed
    have "state_ok s''"
      unfolding state_ok_def
    proof (intro conjI ballI)
      show "graph_ok (ns_graph s'')" using graph_ok_remove_node [OF g, of name] by (simp add: s'')
      show "table_ok (ns_subnets s'')" "table_unique (ns_subnets s'')" using ok by (simp_all add: s'' state_ok_def)
      fix x assume "x \<in> set (ns_subnets s'')"
      then have x: "x \<in> set (ns_subnets s')" by (simp add: s'')
      then obtain o' where "sn_owner x = Some o'" "bt_contains (g_nodes (ns_graph s')) o'"
        using ok by (auto simp: state_ok_def)
      moreover from this have "o' \<noteq> name" using noowner x by auto
      ultimately show "\<exists>name. sn_owner x = Some name \<and> bt_contains (g_nodes (ns_graph s'')) name"
        using fr(2) by (auto simp: s'' graph_node_def bt_contains_def)
    qed
    moreover have "graph_node (ns_graph s'') n = graph_node (ns_graph s) n" if "n \<notin> U" for n
    proof -
      have "graph_node (ns_graph s'') n = graph_node (ns_graph s') n"
        using that assms(2) fr(2) [of n] by (auto simp: s'')
      with assms(1) that show ?thesis unfolding nodes_purged_def by (metis (no_types))
    qed
    moreover have "graph_node (ns_graph s) n = Some x" if "graph_node (ns_graph s'') n = Some x" for n x
    proof -
      have "graph_node (ns_graph s') n = Some x" using that fr(2) [of n] by (simp add: s'' split: if_splits)
      with assms(1) show ?thesis unfolding nodes_purged_def by blast
    qed
    moreover have "bt_get (g_edges (ns_graph s)) k = Some e" if "bt_get (g_edges (ns_graph s'')) k = Some e" for k e
    proof -
      have "bt_get (g_edges (ns_graph s')) k = Some e" using that fr(3) [of k] by (simp add: s'' split: if_splits)
      with assms(1) show ?thesis unfolding nodes_purged_def by blast
    qed
    moreover have "bt_get (g_edges (ns_graph s'')) k = bt_get (g_edges (ns_graph s)) k"
      if "ek_from k \<notin> U" "ek_to k \<notin> U" for k
    proof -
      have "bt_get (g_edges (ns_graph s'')) k = bt_get (g_edges (ns_graph s')) k"
        using that assms(2) fr(3) [of k] by (auto simp: s'')
      with assms(1) that show ?thesis unfolding nodes_purged_def by (metis (no_types))
    qed
    moreover have "g_myself (ns_graph s'') = g_myself (ns_graph s)" "ns_subnets s'' = ns_subnets s"
      "ns_experimental s'' = ns_experimental s"
    proof -
      have "g_myself (ns_graph s') = g_myself (ns_graph s) \<and> ns_subnets s' = ns_subnets s
          \<and> ns_experimental s' = ns_experimental s"
        using assms(1) unfolding nodes_purged_def by blast
      then show "g_myself (ns_graph s'') = g_myself (ns_graph s)" "ns_subnets s'' = ns_subnets s"
        "ns_experimental s'' = ns_experimental s"
        using fr(1) by (simp_all add: s'')
    qed
    ultimately have "nodes_purged U s s''" unfolding nodes_purged_def by blast
    with ns' show ?thesis by blast
  qed
qed

lemma purge_node_fold:
  assumes "nodes_purged U s s'" "set names \<subseteq> U" "fold (purge_node opts) names (ns, s') = (ns', s'')"
    and "\<not> po_strict_subnets opts \<Longrightarrow> \<forall>x \<in> set (ns_subnets s). \<forall>n \<in> U. sn_owner x \<noteq> Some n"
  shows "nodes_purged U s s'' \<and> set ns' \<subseteq> set ns \<union> U"
  using assms
proof (induction names arbitrary: ns s')
  case (Cons name names)
  obtain ns1 s1 where 1: "purge_node opts name (ns, s') = (ns1, s1)" by (cases "purge_node opts name (ns, s')")
  have "nodes_purged U s s1 \<and> set ns1 \<subseteq> set ns \<union> {name}"
    using purge_node_step [OF Cons.prems(1) _ 1] Cons.prems(2,4) by auto
  moreover have "fold (purge_node opts) names (ns1, s1) = (ns', s'')" using Cons.prems(3) 1 by simp
  ultimately show ?case using Cons.IH [of s1 ns1] Cons.prems(2,4) by auto
qed auto

section \<open>The purge as a whole\<close>

lemma linked_retained:
  assumes "\<forall>k e. bt_get es' k = Some e \<longrightarrow> bt_get es k = Some e"
    and "\<forall>a b. R a \<and> R b \<longrightarrow> bt_get es' (EdgeKey a b) = bt_get es (EdgeKey a b)"
    and "\<forall>n. (linked es)\<^sup>*\<^sup>* my n \<longrightarrow> R n"
  shows "(linked es')\<^sup>*\<^sup>* my n \<longleftrightarrow> (linked es)\<^sup>*\<^sup>* my n"
proof
  have sub: "linked es' a b \<Longrightarrow> linked es a b" for a b
    using assms(1) by (auto simp: linked_def bt_contains_iff)
  assume "(linked es')\<^sup>*\<^sup>* my n"
  then show "(linked es)\<^sup>*\<^sup>* my n"
    by (induction rule: rtranclp_induct) (auto intro: rtranclp.rtrancl_into_rtrancl sub)
next
  assume "(linked es)\<^sup>*\<^sup>* my n"
  then show "(linked es')\<^sup>*\<^sup>* my n"
  proof (induction rule: rtranclp_induct)
    case (step a b)
    then have "R a" "R b" using assms(3) by (auto intro: rtranclp.rtrancl_into_rtrancl)
    then have "linked es' a b" using step.hyps(2) assms(2) by (simp add: linked_def bt_contains_def)
    with step.IH show ?case by (rule rtranclp.rtrancl_into_rtrancl)
  qed simp
qed

lemma purge_result:
  assumes ok: "state_ok s" and r: "\<forall>n. reachable (ns_graph s) n \<longleftrightarrow> connected (ns_graph s) (g_myself (ns_graph s)) n"
    and p: "purge_unreachable_at opts now s = (res, s')"
  shows "state_ok s' \<and> routed (ns_graph s')
    \<and> pr_reachability res = \<lparr>became_reachable = [], became_unreachable = []\<rparr>
    \<and> (\<forall>n. reachable (ns_graph s') n = reachable (ns_graph s) n)
    \<and> (\<forall>n \<in> set (pr_removed_nodes res). \<not> reachable (ns_graph s) n)
    \<and> (\<forall>k. bt_contains (g_edges (ns_graph s')) k \<longrightarrow> reachable (ns_graph s) (ek_from k))
    \<and> ns_subnets s' = (if po_strict_subnets opts then ns_subnets s
         else filter (\<lambda>x. case sn_owner x of Some n \<Rightarrow> reachable (ns_graph s) n | None \<Rightarrow> True) (ns_subnets s))"
proof -
  let ?g = "ns_graph s"
  define U where "U = set (unreachable_names ?g)"
  obtain rs re s1 where 1: "fold (purge_links opts) (unreachable_names ?g) ([], [], s) = (rs, re, s1)"
    by (cases "fold (purge_links opts) (unreachable_names ?g) ([], [], s)")
  obtain rn s2 where 2: "fold (purge_node opts) (unreachable_names ?g) ([], s1) = (rn, s2)"
    by (cases "fold (purge_node opts) (unreachable_names ?g) ([], s1)")
  obtain c s3 where 3: "recompute_routes_at now s2 = (c, s3)" by (cases "recompute_routes_at now s2")
  have res: "s' = s3" "pr_reachability res = c" "pr_removed_nodes res = rn"
    using p by (auto simp: purge_unreachable_at_def Let_def 1 2 3)
  have g: "graph_ok ?g" using ok by (simp add: state_ok_def)
  have U: "n \<in> U \<longleftrightarrow> bt_contains (g_nodes ?g) n \<and> n \<noteq> g_myself ?g \<and> \<not> reachable ?g n" for n
    unfolding U_def by (rule unreachable_mem [OF g])
  have RU: "reachable ?g n \<Longrightarrow> n \<notin> U" for n using U by blast
  have "links_purged (po_strict_subnets opts) {} s s" using ok by (simp add: links_purged_def)
  from purge_links_fold [OF this 1] have l: "links_purged (po_strict_subnets opts) U s s1" by (simp add: U_def)
  then have s1: "state_ok s1" "g_nodes (ns_graph s1) = g_nodes ?g" "g_myself (ns_graph s1) = g_myself ?g"
    "\<And>k. bt_get (g_edges (ns_graph s1)) k = (if ek_from k \<in> U then None else bt_get (g_edges ?g) k)"
    "ns_subnets s1 = (if po_strict_subnets opts then ns_subnets s
          else filter (\<lambda>x. \<forall>n \<in> U. sn_owner x \<noteq> Some n) (ns_subnets s))"
    unfolding links_purged_def by blast+
  have "nodes_purged U s1 s1" using s1(1) by (simp add: nodes_purged_def)
  moreover have "\<not> po_strict_subnets opts \<Longrightarrow> \<forall>x \<in> set (ns_subnets s1). \<forall>n \<in> U. sn_owner x \<noteq> Some n"
    using s1(5) by simp
  ultimately have n: "nodes_purged U s1 s2" "set rn \<subseteq> U" using purge_node_fold [OF _ _ 2] U_def by auto
  then have s2: "state_ok s2" "g_myself (ns_graph s2) = g_myself (ns_graph s1)" "ns_subnets s2 = ns_subnets s1"
    "\<And>n. n \<notin> U \<Longrightarrow> graph_node (ns_graph s2) n = graph_node (ns_graph s1) n"
    "\<And>n x. graph_node (ns_graph s2) n = Some x \<Longrightarrow> graph_node (ns_graph s1) n = Some x"
    "\<And>k e. bt_get (g_edges (ns_graph s2)) k = Some e \<Longrightarrow> bt_get (g_edges (ns_graph s1)) k = Some e"
    "\<And>k. ek_from k \<notin> U \<Longrightarrow> ek_to k \<notin> U \<Longrightarrow> bt_get (g_edges (ns_graph s2)) k = bt_get (g_edges (ns_graph s1)) k"
    unfolding nodes_purged_def by blast+
  have nodes1: "graph_node (ns_graph s1) k = graph_node ?g k" for k using s1(2) by (simp add: graph_node_def)
  have e2: "bt_get (g_edges (ns_graph s2)) k = Some e \<Longrightarrow> ek_from k \<notin> U \<and> bt_get (g_edges ?g) k = Some e" for k e
    using s2(6) [of k e] s1(4) [of k] by (simp split: if_splits)
  have conn: "connected (ns_graph s2) (g_myself ?g) k \<longleftrightarrow> connected ?g (g_myself ?g) k" for k
  proof (rule linked_retained [of _ _ "\<lambda>k. k \<notin> U"])
    show "\<forall>k e. bt_get (g_edges (ns_graph s2)) k = Some e \<longrightarrow> bt_get (g_edges ?g) k = Some e" using e2 by blast
    show "\<forall>a b. a \<notin> U \<and> b \<notin> U \<longrightarrow> bt_get (g_edges (ns_graph s2)) (EdgeKey a b) = bt_get (g_edges ?g) (EdgeKey a b)"
      using s2(7) s1(4) by simp
    show "\<forall>n. connected ?g (g_myself ?g) n \<longrightarrow> n \<notin> U" using r RU by blast
  qed
  have reach: "reachable (ns_graph s2) k = reachable ?g k" for k
  proof (cases "k \<in> U")
    case False
    then show ?thesis using s2(4) nodes1 by (simp add: reachable_def)
  next
    case True
    then have "\<not> reachable ?g k" using U by blast
    moreover have "reachable (ns_graph s2) k \<Longrightarrow> reachable ?g k"
      using s2(5) nodes1 unfolding reachable_def by auto
    ultimately show ?thesis by blast
  qed
  have g2: "graph_ok (ns_graph s2)" using s2(1) by (simp add: state_ok_def)
  have "\<forall>n. reachable (ns_graph s2) n \<longleftrightarrow> connected (ns_graph s2) (g_myself (ns_graph s2)) n"
    using reach conn r s2(2) s1(3) by simp
  from recompute_stable [OF g2 this 3] have c: "c = \<lparr>became_reachable = [], became_unreachable = []\<rparr>"
    "\<forall>n. reachable (ns_graph s3) n = reachable ?g n" using reach by auto
  have s3: "state_ok s3" "routed (ns_graph s3)" using recompute_ok [OF s2(1) 3] by auto
  have f3: "g_edges (ns_graph s3) = g_edges (ns_graph s2)" "ns_subnets s3 = ns_subnets s2"
    using recompute_graph [OF g2 3] by auto
  have edges: "reachable ?g (ek_from k)" if k: "bt_contains (g_edges (ns_graph s3)) k" for k
  proof -
    obtain e where e: "ek_from k \<notin> U" "bt_get (g_edges ?g) k = Some e" using k e2 f3(1) by (auto simp: bt_contains_iff)
    then have "edge_key_of e = k" "bt_contains (g_nodes ?g) (e_from e)" using g by (auto simp: graph_ok_def)
    then have "bt_contains (g_nodes ?g) (ek_from k)" by auto
    moreover have "reachable ?g (g_myself ?g)" using r by simp
    ultimately show ?thesis using e(1) U by metis
  qed
  have sub: "(\<forall>n \<in> U. sn_owner x \<noteq> Some n) = (case sn_owner x of Some n \<Rightarrow> reachable ?g n | None \<Rightarrow> True)"
    if "x \<in> set (ns_subnets s)" for x
  proof -
    obtain o' where "sn_owner x = Some o'" "bt_contains (g_nodes ?g) o'" using ok \<open>x \<in> _\<close> by (auto simp: state_ok_def)
    moreover have "reachable ?g (g_myself ?g)" using r by simp
    ultimately show ?thesis using U [of o'] by auto
  qed
  have "ns_subnets s3 = (if po_strict_subnets opts then ns_subnets s
         else filter (\<lambda>x. case sn_owner x of Some n \<Rightarrow> reachable ?g n | None \<Rightarrow> True) (ns_subnets s))"
  proof -
    have "filter (\<lambda>x. \<forall>n \<in> U. sn_owner x \<noteq> Some n) (ns_subnets s)
        = filter (\<lambda>x. case sn_owner x of Some n \<Rightarrow> reachable ?g n | None \<Rightarrow> True) (ns_subnets s)"
      by (rule filter_cong [OF refl]) (rule sub)
    then show ?thesis using f3(2) s2(3) s1(5) by simp
  qed
  with s3 c edges n(2) U show ?thesis by (auto simp: res)
qed

text \<open>
  When reachability agrees with the mesh, a purge reports no reachability change and keeps
  the invariant; it removes no reachable node, leaves no edge that starts at an unreachable
  node, and, unless subnets are strict, leaves exactly the subnets of reachable owners; with
  strict subnets the table is not touched.
\<close>

theorem purge_keeps_reachable:
  assumes "state_ok s" "\<forall>n. reachable (ns_graph s) n \<longleftrightarrow> connected (ns_graph s) (g_myself (ns_graph s)) n"
    and "purge_unreachable_at opts now s = (res, s')"
  shows "state_ok s' \<and> routed (ns_graph s')
    \<and> pr_reachability res = \<lparr>became_reachable = [], became_unreachable = []\<rparr>
    \<and> (\<forall>n. reachable (ns_graph s') n = reachable (ns_graph s) n)
    \<and> (\<forall>n \<in> set (pr_removed_nodes res). \<not> reachable (ns_graph s) n)
    \<and> (\<forall>k. bt_contains (g_edges (ns_graph s')) k \<longrightarrow> reachable (ns_graph s) (ek_from k))
    \<and> ns_subnets s' = (if po_strict_subnets opts then ns_subnets s
         else filter (\<lambda>x. case sn_owner x of Some n \<Rightarrow> reachable (ns_graph s) n | None \<Rightarrow> True) (ns_subnets s))"
  using assms by (rule purge_result)

theorem purge_keeps_reachable_witness:
  "routed (ns_graph (snd (purge_unreachable_at \<lparr>po_strict_subnets = False, po_autoconnect = False\<rparr> 9
     \<lparr>ns_graph = demo_routed, ns_subnets = [], ns_experimental = True\<rparr>)))"
proof -
  let ?s = "\<lparr>ns_graph = demo_routed, ns_subnets = [], ns_experimental = True\<rparr>"
  have "state_ok ?s" using demo_routed_ok(1) by (simp add: state_ok_def table_ok_def sorted_by_def table_unique_def)
  moreover have "\<forall>n. reachable (ns_graph ?s) n \<longleftrightarrow> connected (ns_graph ?s) (g_myself (ns_graph ?s)) n"
    using demo_routed_ok(2) by simp
  ultimately show ?thesis using purge_keeps_reachable [OF _ _ prod.collapse [symmetric]] by blast
qed

section \<open>The daemon's state as a machine\<close>

text \<open>
  A step handles one received line that parses, or recomputes, or purges (a purge follows a
  recomputation, as in the daemon).
\<close>

inductive net_step :: "(string \<Rightarrow> byte list) \<Rightarrow> network_state \<Rightarrow> network_state \<Rightarrow> bool" for H where
  receive: "parse_meta_message raw = Inr m \<Longrightarrow> net_step H s (snd (apply_meta_message_at H m now s))"
| recompute: "net_step H s (snd (recompute_routes_at now s))"
| purge: "net_step H s (snd (purge_unreachable_at opts now (snd (recompute_routes_at now s))))"

inductive reachable_state :: "(string \<Rightarrow> byte list) \<Rightarrow> string \<Rightarrow> network_state \<Rightarrow> bool" for H myself where
  initial: "reachable_state H myself (network_state_new H myself)"
| next_state: "reachable_state H myself s \<Longrightarrow> net_step H s s' \<Longrightarrow> reachable_state H myself s'"

inductive_cases net_stepE: "net_step H s s'"

text \<open>The prerequisites of \<open>recompute\<close> and the message handlers in one place.\<close>

lemma apply_message_ok: "state_ok s \<Longrightarrow> wf_message m \<Longrightarrow> state_ok (snd (apply_meta_message_at H m now s))"
  using add_edge_ok [of s H] delete_edge_ok [of s] add_subnet_ok [of s] delete_subnet_ok [of s]
    node_handlers_ok [of s]
  by (cases m) (auto simp: apply_meta_message_at_def reported_def wf_subnet_message_def)

lemma apply_parsed_ok:
  assumes "state_ok s" "parse_meta_message raw = Inr m"
  shows "state_ok (snd (apply_meta_message_at H m now s))"
proof (cases "\<exists>i. m = MsgId i")
  case True
  with assms(1) show ?thesis by (auto simp: apply_meta_message_at_def)
next
  case False
  then have "explicit_minor m = m" by (cases m) auto
  then have "wf_message m" using parsed_message [OF assms(2)] by simp
  with assms(1) show ?thesis by (rule apply_message_ok)
qed

lemma recompute_state_ok: "state_ok s \<Longrightarrow> state_ok (snd (recompute_routes_at now s)) \<and> routed (ns_graph (snd (recompute_routes_at now s)))"
  using recompute_ok [of s now "fst (recompute_routes_at now s)" "snd (recompute_routes_at now s)"] by simp



end
