(* ===== verification/Inet_Checksum.thy ===== *)
theory Inet_Checksum
  imports Tinc_Prelude
begin

text \<open>
  The Internet checksum of \<^verbatim>\<open>tinc-core/src/route.rs\<close>: the sum of big-endian 16-bit words in a
  \<^verbatim>\<open>u32\<close>, its folding, and the two incremental updates; compared with the ones' complement sum
  of RFC 1071, whose trailing odd byte is the high half of its word.
\<close>

section \<open>The code\<close>

text \<open>\<^verbatim>\<open>chunks_exact(2)\<close> and its remainder.\<close>

fun add_chunks :: "byte list \<Rightarrow> u32 \<Rightarrow> u32" where
  "add_chunks (a # b # rest) checksum = add_chunks rest (checksum + ucast (be16 a b))"
| "add_chunks [a] checksum = checksum + ucast a"
| "add_chunks [] checksum = checksum"

text \<open>The \<^verbatim>\<open>while\<close> loop of \<^verbatim>\<open>fold_checksum\<close>.\<close>

lemma unat_fold_step:
  "unat ((s AND 0xffff) + drop_bit 16 s :: u32) = unat s mod 65536 + unat s div 65536"
proof -
  have mask: "(0xffff :: u32) = mask 16" by (simp add: mask_eq_exp_minus_1)
  have m: "unat (s AND 0xffff :: u32) = unat s mod 65536"
    unfolding mask take_bit_eq_mask [symmetric] by (simp add: unsigned_take_bit_eq take_bit_eq_mod unat_mod)
  have d: "unat (drop_bit 16 s :: u32) = unat s div 65536"
    by (simp add: unsigned_drop_bit_eq drop_bit_eq_div unat_div)
  have "unat s mod 65536 + unat s div 65536 < 4294967296"
    using unat_u32_less [of s] by (simp del: unat_u32_less)
  with m d show ?thesis by (simp add: unat_word_ariths)
qed

lemma drop_16_zero: "drop_bit 16 (s :: u32) = 0 \<longleftrightarrow> unat s < 65536"
proof -
  have "drop_bit 16 s = 0 \<longleftrightarrow> unat (drop_bit 16 s) = 0" by (rule unat_eq_0 [symmetric])
  also have "\<dots> \<longleftrightarrow> unat s div 65536 = 0"
    by (simp add: drop_bit_eq_div unat_div)
  finally show ?thesis by (simp add: div_eq_0_iff)
qed

function fold_carry :: "u32 \<Rightarrow> u32" where
  "fold_carry s = (if drop_bit 16 s \<noteq> 0 then fold_carry ((s AND 0xffff) + drop_bit 16 s) else s)"
  by auto
termination
proof (relation "measure unat")
  fix s :: u32
  assume "drop_bit 16 s \<noteq> 0"
  then have "65536 \<le> unat s" by (simp add: drop_16_zero)
  moreover have "unat s = unat s div 65536 * 65536 + unat s mod 65536" by (simp only: div_mult_mod_eq)
  ultimately have "unat s mod 65536 + unat s div 65536 < unat s" by linarith
  then show "((s AND 0xffff) + drop_bit 16 s, s) \<in> measure unat" unfolding in_measure unat_fold_step .
qed simp

declare fold_carry.simps [simp del]

definition fold_checksum :: "u32 \<Rightarrow> u16" where
  "fold_checksum s = NOT (ucast (fold_carry s))"

definition internet_checksum :: "byte list \<Rightarrow> u16 \<Rightarrow> u16" where
  "internet_checksum data previous_sum =
     fold_checksum (add_chunks data (ucast (previous_sum XOR 0xffff)))"

definition incremental_checksum_update :: "u16 \<Rightarrow> u16 \<Rightarrow> u16 \<Rightarrow> u16" where
  "incremental_checksum_update checksum old new =
     ucast (fold_carry (ucast checksum + ucast old + (ucast (NOT new) AND 0xffff)))"

definition incremental_transport_checksum_update :: "u16 \<Rightarrow> u16 \<Rightarrow> u16 \<Rightarrow> u16" where
  "incremental_transport_checksum_update checksum old new =
     (let s = (ucast (checksum XOR 0xffff) :: u32);
          s = s + ucast (old XOR 0xffff);
          s = s + ucast new;
          s = (s AND 0xffff) + drop_bit 16 s;
          s = s + drop_bit 16 s
      in ucast s XOR 0xffff)"

section \<open>Sums\<close>

text \<open>The sum the code forms, without the limit of a machine word, and the sum of RFC 1071.\<close>

fun word_sum :: "byte list \<Rightarrow> nat" where
  "word_sum (a # b # rest) = unat a * 256 + unat b + word_sum rest"
| "word_sum [a] = unat a"
| "word_sum [] = 0"

fun rfc_sum :: "byte list \<Rightarrow> nat" where
  "rfc_sum (a # b # rest) = unat a * 256 + unat b + rfc_sum rest"
| "rfc_sum [a] = unat a * 256"
| "rfc_sum [] = 0"

definition end_around :: "nat \<Rightarrow> nat" where
  "end_around n = (if n = 0 then 0 else (n - 1) mod 65535 + 1)"

definition rfc_checksum :: "byte list \<Rightarrow> u16" where
  "rfc_checksum data = NOT (of_nat (end_around (rfc_sum data)))"

lemma word_sum_append: "even (length xs) \<Longrightarrow> word_sum (xs @ ys) = word_sum xs + word_sum ys"
  by (induction xs rule: word_sum.induct) auto

lemma word_sum_even: "even (length xs) \<Longrightarrow> rfc_sum xs = word_sum xs"
  by (induction xs rule: word_sum.induct) auto

lemma word_sum_odd: "odd (length xs) \<Longrightarrow> rfc_sum xs = word_sum xs + 255 * unat (last xs)"
proof (induction xs rule: word_sum.induct)
  case (1 a b rest)
  then have "rest \<noteq> []" by auto
  with 1 show ?case by simp
qed simp_all

lemma word_sum_le: "word_sum xs \<le> 65535 * length xs"
proof (induction xs rule: word_sum.induct)
  case (1 a b rest)
  then show ?case using unat_byte_le [of a] unat_byte_le [of b] by (simp del: unat_byte_le)
next
  case (2 a)
  then show ?case using unat_byte_le [of a] by (simp del: unat_byte_le)
qed simp

lemma word_sum_be16: "word_sum (be16_bytes w) = unat w"
  using be16_bytes_inverse [of w] unat_be16 [of "be16_bytes w ! 0" "be16_bytes w ! 1"]
  by (simp add: be16_bytes_def)

lemma word_sum_zeros: "word_sum (replicate n 0) = 0"
  by (induction n rule: nat_less_induct)
    (case_tac n, simp, case_tac nat, simp_all)

lemma unat_ucast_u32: "unat (ucast (w :: u16) :: u32) = unat w"
  using unat_u16_less [of w] by (simp add: unsigned_ucast_eq take_bit_eq_mod del: unat_u16_less)

lemma unat_add_chunks: "unat s + word_sum xs < 4294967296 \<Longrightarrow> unat (add_chunks xs s) = unat s + word_sum xs"
proof (induction xs s rule: add_chunks.induct)
  case (1 a b rest s)
  have b: "unat (ucast (be16 a b) :: u32) = unat a * 256 + unat b"
    unfolding unat_be16 [symmetric] by (rule unat_ucast_u32)
  then have s: "unat (s + ucast (be16 a b)) = unat s + (unat a * 256 + unat b)"
    using "1.prems" by (simp add: unat_word_ariths)
  show ?case using "1.IH" "1.prems" by (simp add: s)
next
  case (2 a s)
  then show ?case by (simp add: unat_word_ariths unsigned_ucast_eq take_bit_eq_mod)
qed simp

section \<open>Folding\<close>

lemma end_around_step:
  "65536 \<le> n \<Longrightarrow> end_around (n mod 65536 + n div 65536) = end_around n"
proof -
  assume n: "65536 \<le> n"
  define q r where "q = n div 65536" and "r = n mod 65536"
  have nqr: "n = 65536 * q + r" by (simp add: q_def r_def)
  have q: "1 \<le> q" using n by (simp add: q_def Suc_le_eq div_greater_zero_iff)
  have "n - 1 = (r + q - 1) + 65535 * q" using q nqr by linarith
  then have "(n - 1) mod 65535 = (r + q - 1) mod 65535" by simp
  with q n show ?thesis by (simp add: end_around_def q_def r_def)
qed

lemma end_around_small: "n < 65536 \<Longrightarrow> end_around n = n"
  by (simp add: end_around_def)

lemma end_around_less: "end_around n < 65536"
  by (simp add: end_around_def)

lemma end_around_cong: "end_around n mod 65535 = n mod 65535"
  by (simp add: end_around_def mod_Suc_eq)

lemma end_around_full: "end_around n = 65535 \<longleftrightarrow> 0 < n \<and> 65535 dvd n"
proof
  assume "end_around n = 65535"
  have "n mod 65535 = end_around n mod 65535" by (rule end_around_cong [symmetric])
  also have "\<dots> = 0" using \<open>end_around n = 65535\<close> by simp
  finally have "n mod 65535 = 0" .
  moreover have "n \<noteq> 0" using \<open>end_around n = 65535\<close> by (cases "n = 0") (simp_all add: end_around_def)
  ultimately show "0 < n \<and> 65535 dvd n" by (simp add: mod_eq_0_iff_dvd)
next
  assume n: "0 < n \<and> 65535 dvd n"
  then have e: "end_around n mod 65535 = 0" "0 < end_around n" "end_around n < 65536"
    by (simp_all add: end_around_cong end_around_less) (simp add: end_around_def)
  from e(1) obtain k where "end_around n = 65535 * k" by (auto simp: mod_eq_0_iff_dvd)
  with e(2,3) have "k = 1" by simp
  with \<open>end_around n = 65535 * k\<close> show "end_around n = 65535" by simp
qed

lemma unat_fold_carry: "unat (fold_carry s) = end_around (unat s)"
proof (induction s rule: fold_carry.induct)
  case (1 s)
  show ?case
  proof (cases "drop_bit 16 s = 0")
    case True
    then show ?thesis by (subst fold_carry.simps) (simp add: drop_16_zero end_around_small)
  next
    case False
    then have "65536 \<le> unat s" by (simp add: drop_16_zero)
    have "unat (fold_carry s) = unat (fold_carry ((s AND 0xffff) + drop_bit 16 s))"
      using False by (subst fold_carry.simps) simp
    also have "\<dots> = end_around (unat s)"
      unfolding 1 [OF False] unat_fold_step by (rule end_around_step) fact
    finally show ?thesis .
  qed
qed

lemma unat_not_u16: "unat (NOT w :: u16) = 65535 - unat w"
proof -
  have "NOT w = - 1 - w" by (simp add: not_eq_complement)
  moreover have "unat (- 1 - w) = unat (- 1 :: u16) - unat w" by (rule unat_sub) simp
  moreover have "unat (- 1 :: u16) = 65535" by (simp add: unsigned_minus_1_eq_mask mask_eq_exp_minus_1)
  ultimately show ?thesis by metis
qed

lemma unat_ucast_u16: "unat s < 65536 \<Longrightarrow> unat (ucast (s :: u32) :: u16) = unat s"
  by (simp add: unsigned_ucast_eq take_bit_eq_mod)

section \<open>What the checksums compute\<close>

definition checksum_ok :: "byte list \<Rightarrow> bool" where
  "checksum_ok data \<longleftrightarrow> internet_checksum data 0xffff = 0"

lemma unat_fold_checksum: "unat (fold_checksum s) = 65535 - end_around (unat s)"
  unfolding fold_checksum_def unat_not_u16
  by (subst unat_ucast_u16) (simp_all add: unat_fold_carry end_around_less)

lemma unat_internet_checksum:
  assumes "length data \<le> 65536"
  shows "unat (internet_checksum data 0xffff) = 65535 - end_around (word_sum data)"
proof -
  have "word_sum data \<le> 65535 * 65536" using word_sum_le [of data] assms by linarith
  then have "unat (add_chunks data 0) = word_sum data" using unat_add_chunks [of 0 data] by simp
  then show ?thesis by (simp add: internet_checksum_def unat_fold_checksum)
qed

lemma unat_rfc_checksum: "unat (rfc_checksum data) = 65535 - end_around (rfc_sum data)"
  unfolding rfc_checksum_def unat_not_u16 by (subst unat_of_nat_u16) (simp_all add: end_around_less)

lemma checksum_ok_iff:
  assumes "length data \<le> 65536"
  shows "checksum_ok data \<longleftrightarrow> 0 < word_sum data \<and> 65535 dvd word_sum data"
proof -
  have "checksum_ok data \<longleftrightarrow> unat (internet_checksum data 0xffff) = 0"
    by (simp only: checksum_ok_def unat_eq_0)
  also have "\<dots> \<longleftrightarrow> end_around (word_sum data) = 65535"
    using unat_internet_checksum [OF assms] end_around_less [of "word_sum data"] by linarith
  also have "\<dots> \<longleftrightarrow> 0 < word_sum data \<and> 65535 dvd word_sum data" by (rule end_around_full)
  finally show ?thesis .
qed

lemma word_sum_copy_at:
  assumes "even i" "even (length bs)" "i + length bs \<le> length data"
  shows "word_sum (copy_at i bs data) + word_sum (subslice i (i + length bs) data) = word_sum data + word_sum bs"
proof -
  let ?t = "take i data" and ?m = "take (length bs) (drop i data)" and ?d = "drop (i + length bs) data"
  have data: "data = ?t @ ?m @ ?d"
    by (metis append_take_drop_id drop_drop add.commute)
  have "length ?t = i" "length ?m = length bs" using assms(3) by simp_all
  then have e: "even (length ?t)" "even (length ?m)" using assms(1,2) by simp_all
  have "word_sum (?t @ ?m @ ?d) = word_sum ?t + (word_sum ?m + word_sum ?d)"
    using e by (simp add: word_sum_append del: append_take_drop_id)
  moreover have "word_sum (copy_at i bs data) = word_sum ?t + (word_sum bs + word_sum ?d)"
    unfolding copy_at_def using e assms(2) by (simp add: word_sum_append)
  ultimately show ?thesis using data by (simp add: subslice_def)
qed

lemma word_sum_copy_be16:
  assumes "even i" "i + 2 \<le> length data"
  shows "word_sum (copy_at i (be16_bytes w) data) + unat (be16 (data ! i) (data ! (i + 1))) = word_sum data + unat w"
proof -
  have "subslice i (i + 2) data = [data ! i, data ! (i + 1)]"
    using assms by (intro nth_equalityI) (auto simp: nth_subslice less_2_cases_iff)
  then show ?thesis using word_sum_copy_at [of i "be16_bytes w" data] assms
    by (simp add: word_sum_be16 unat_be16)
qed

text \<open>Storing the checksum of data whose checksum field is zero.\<close>

lemma checksum_stored:
  assumes "even i" "i + 2 \<le> length data" "length data \<le> 65536" "data ! i = 0" "data ! (i + 1) = 0"
  shows "checksum_ok (copy_at i (be16_bytes (internet_checksum data 0xffff)) data)"
proof -
  let ?c = "internet_checksum data 0xffff"
  have "unat (be16 (data ! i) (data ! (i + 1))) = 0" using assms(4,5) by (simp add: unat_be16)
  then have s: "word_sum (copy_at i (be16_bytes ?c) data) = word_sum data + unat ?c"
    using word_sum_copy_be16 [OF assms(1,2), of ?c] by linarith
  have c: "unat ?c = 65535 - end_around (word_sum data)" by (rule unat_internet_checksum) fact
  have "(word_sum data + unat ?c) mod 65535 = (end_around (word_sum data) + unat ?c) mod 65535"
    by (rule mod_add_cong) (simp_all add: end_around_cong)
  also have "end_around (word_sum data) + unat ?c = 65535"
    using c end_around_less [of "word_sum data"] by linarith
  finally have "65535 dvd word_sum data + unat ?c" by (simp add: dvd_eq_mod_eq_0)
  moreover have "0 < word_sum data + unat ?c" using c by (cases "word_sum data = 0") (simp_all add: end_around_def)
  ultimately show ?thesis using assms by (simp add: checksum_ok_iff s)
qed

section \<open>Incremental updates\<close>

lemma unat_incremental:
  "unat (incremental_checksum_update c old new) = end_around (unat c + unat old + (65535 - unat new))"
proof -
  have mask: "(0xffff :: u32) = mask 16" by (simp add: mask_eq_exp_minus_1)
  have new: "unat (ucast (NOT new) AND 0xffff :: u32) = 65535 - unat new"
    unfolding mask take_bit_eq_mask [symmetric]
    by (simp add: take_bit_eq_mod unat_mod unat_ucast_u32 unat_not_u16)
  have "unat (ucast c + ucast old + (ucast (NOT new) AND 0xffff) :: u32) = unat c + unat old + (65535 - unat new)"
    using new unat_u16_less [of c] unat_u16_less [of old]
    by (simp add: unat_word_ariths unat_ucast_u32 del: unat_u16_less)
  then show ?thesis unfolding incremental_checksum_update_def
    by (subst unat_ucast_u16) (simp_all add: unat_fold_carry end_around_less)
qed

lemma unat_incremental_transport:
  "unat (incremental_transport_checksum_update c old new)
     = 65535 - end_around ((65535 - unat c) + (65535 - unat old) + unat new)"
proof -
  have full: "(0xffff :: u16) = - 1" by simp
  have neg: "unat (w XOR 0xffff) = 65535 - unat w" for w :: u16
    unfolding full bit.xor_one_right by (rule unat_not_u16)
  define n where "n = (65535 - unat c) + (65535 - unat old) + unat new"
  define s where "s = (ucast (c XOR 0xffff) + ucast (old XOR 0xffff) + ucast new :: u32)"
  have "n \<le> 196605" using unat_u16_less [of new] by (simp add: n_def del: unat_u16_less)
  have s: "unat s = n" using \<open>n \<le> 196605\<close>
    by (simp add: s_def n_def unat_word_ariths unat_ucast_u32 neg)
  define s1 where "s1 = (s AND 0xffff) + drop_bit 16 s"
  have s1: "unat s1 = n mod 65536 + n div 65536" unfolding s1_def unat_fold_step s ..
  have "n div 65536 \<le> 2" using \<open>n \<le> 196605\<close> by linarith
  then have s1_le: "unat s1 \<le> 65537" using s1 by (simp add: less_Suc_eq_le [symmetric])
  have s2: "unat (s1 + drop_bit 16 s1) = unat s1 + unat s1 div 65536"
    using s1_le by (simp add: unat_word_ariths drop_bit_eq_div unat_div)
  have "unat (ucast (s1 + drop_bit 16 s1) :: u16) = end_around n"
  proof (cases "n < 65536")
    case True
    then have "unat s1 = n" using s1 by simp
    with True s2 show ?thesis by (subst unat_ucast_u16) (simp_all add: end_around_small)
  next
    case False
    then have n: "end_around n = end_around (unat s1)" by (simp add: end_around_step s1)
    show ?thesis
    proof (cases "unat s1 < 65536")
      case True
      with n s2 show ?thesis by (subst unat_ucast_u16) (simp_all add: end_around_small)
    next
      case False
      then have "unat s1 = 65536 \<or> unat s1 = 65537" using s1_le by linarith
      then show ?thesis using n s2
        by (auto simp: unsigned_ucast_eq take_bit_eq_mod end_around_def)
    qed
  qed
  moreover have "incremental_transport_checksum_update c old new = ucast (s1 + drop_bit 16 s1) XOR 0xffff"
    by (simp add: incremental_transport_checksum_update_def s1_def s_def Let_def)
  ultimately show ?thesis by (simp only: neg n_def)
qed

text \<open>
  Both updates keep a correct checksum correct when an aligned word of the checksummed data is
  replaced; \<open>S\<close> stands for the sum of the other words.
\<close>

lemma incremental_sum:
  assumes "65535 dvd S + unat c + unat old"
  shows "65535 dvd S + unat (incremental_checksum_update c old new) + unat new"
proof -
  let ?n = "unat c + unat old + (65535 - unat new)"
  have "(S + end_around ?n + unat new) mod 65535 = (S + ?n + unat new) mod 65535"
    by (intro mod_add_cong refl) (simp_all add: end_around_cong)
  also have "S + ?n + unat new = S + unat c + unat old + 65535"
    using unat_u16_less [of new] by (simp del: unat_u16_less)
  finally show ?thesis using assms by (simp add: unat_incremental mod_eq_0_iff_dvd [symmetric])
qed

lemma end_around_int: "\<exists>k. int (end_around n) = int n + 65535 * k"
proof -
  have "int (end_around n) mod 65535 = int n mod 65535"
    using arg_cong [OF end_around_cong [of n], of int] by (simp only: zmod_int of_nat_numeral)
  then show ?thesis by (metis mod_eqE mult.commute)
qed

lemma transport_sum_arith:
  assumes "r + e = 65535" "s + c + old = 65535 * m" "e = 131070 - c - old + new + 65535 * k"
  shows "(65535 :: int) dvd s + r + new"
proof
  show "s + r + new = 65535 * (m - 1 - k)" using assms by (simp add: right_diff_distrib)
qed

lemma incremental_transport_sum:
  assumes "65535 dvd S + unat c + unat old"
  shows "65535 dvd S + unat (incremental_transport_checksum_update c old new) + unat new"
proof -
  let ?n = "(65535 - unat c) + (65535 - unat old) + unat new"
  let ?r = "unat (incremental_transport_checksum_update c old new)"
  have r: "?r + end_around ?n = 65535"
    using unat_incremental_transport [of c old new] end_around_less [of ?n] by linarith
  from assms obtain m where m: "S + unat c + unat old = 65535 * m" by (auto elim: dvdE)
  obtain k where k: "int (end_around ?n) = int ?n + 65535 * k" using end_around_int by blast
  have n: "int ?n = 131070 - int (unat c) - int (unat old) + int (unat new)"
    using unat_u16_less [of c] unat_u16_less [of old] by (simp del: unat_u16_less)
  have "int 65535 dvd int (S + ?r + unat new)"
    using transport_sum_arith [OF arg_cong [OF r, of int, unfolded of_nat_add of_nat_numeral]
        arg_cong [OF m, of int, unfolded of_nat_add of_nat_mult of_nat_numeral]] k n by simp
  then show ?thesis by (simp only: of_nat_dvd_iff)
qed

text \<open>
  C30: on data of even length, and on data of odd length that ends in a zero byte, the checksum of
  the code is the one of RFC 1071; on all other data it is not: the code adds the last byte of an
  odd length as the low half of a word.
\<close>

theorem internet_checksum_rfc:
  assumes "length data \<le> 65536"
  shows "internet_checksum data 0xffff = rfc_checksum data \<longleftrightarrow> even (length data) \<or> last data = 0"
proof -
  have "internet_checksum data 0xffff = rfc_checksum data
      \<longleftrightarrow> end_around (word_sum data) = end_around (rfc_sum data)"
    using unat_internet_checksum [OF assms] unat_rfc_checksum [of data]
      end_around_less [of "word_sum data"] end_around_less [of "rfc_sum data"]
    by (auto simp: unsigned_word_eqI [where ?'a = nat])
  also have "\<dots> \<longleftrightarrow> even (length data) \<or> last data = 0"
  proof (cases "even (length data)")
    case True
    then show ?thesis by (simp add: word_sum_even)
  next
    case False
    let ?n = "word_sum data" and ?b = "unat (last data)"
    have "end_around ?n = end_around (?n + 255 * ?b) \<longleftrightarrow> ?b = 0"
    proof
      assume e: "end_around ?n = end_around (?n + 255 * ?b)"
      have "(255 * ?b + ?n) mod 65535 = ?n mod 65535"
        using e end_around_cong [of ?n] end_around_cong [of "?n + 255 * ?b"] by (simp add: add.commute)
      then have "65535 dvd 255 * ?b" using mod_eq_dvd_iff_nat [of ?n "255 * ?b + ?n" 65535] by simp
      moreover have "255 * ?b < 65535" using unat_byte_le [of "last data"] by linarith
      ultimately have "255 * ?b = 0" by (meson dvd_imp_le neq0_conv not_less)
      then show "?b = 0" by simp
    qed simp
    with False show ?thesis by (simp add: word_sum_odd unat_eq_0)
  qed
  finally show ?thesis .
qed

theorem internet_checksum_rfc_witness: "internet_checksum [0, 0, 1] 0xffff \<noteq> rfc_checksum [0, 0, 1]"
  using internet_checksum_rfc [of "[0, 0, 1]"] by simp

end
