(* ===== verification/Packet.thy ===== *)
theory Packet
  imports Inet_Checksum Net_Addr
begin

text \<open>
  The packet rewriting of \<^verbatim>\<open>tinc-core/src/route.rs\<close>: Ethernet framing, TTL and hop limit, ICMP
  errors, IPv4 fragmentation and MSS clamping.  A packet is a byte list; a function the source
  gives a mutable slice returns the changed packet.  Every index the source uses is guarded by a
  length check before it, so \<open>!\<close> is used inside the range only.
\<close>

section \<open>Constants\<close>

definition ETH_HLEN :: nat where "ETH_HLEN = 14"
definition ETH_P_IP :: u16 where "ETH_P_IP = 0x0800"
definition ETH_P_ARP :: u16 where "ETH_P_ARP = 0x0806"
definition ETH_P_IPV6 :: u16 where "ETH_P_IPV6 = 0x86DD"
definition ETH_P_8021Q :: u16 where "ETH_P_8021Q = 0x8100"
definition IPPROTO_ICMP :: byte where "IPPROTO_ICMP = 1"
definition IPPROTO_ICMPV6 :: byte where "IPPROTO_ICMPV6 = 58"
definition IP_MSS :: nat where "IP_MSS = 576"
definition IPV4_MIN_FULL_MTU :: nat where "IPV4_MIN_FULL_MTU = ETH_HLEN + IP_MSS"
definition IPV6_MIN_PAYLOAD_MTU :: nat where "IPV6_MIN_PAYLOAD_MTU = 1280"
definition IPV6_MIN_FULL_MTU :: nat where "IPV6_MIN_FULL_MTU = ETH_HLEN + IPV6_MIN_PAYLOAD_MTU"
definition IP_MF :: u16 where "IP_MF = 0x2000"
definition IP_OFFMASK :: u16 where "IP_OFFMASK = 0x1fff"
definition ICMP_SIZE :: nat where "ICMP_SIZE = 8"
definition ICMP_DEST_UNREACH :: byte where "ICMP_DEST_UNREACH = 3"
definition ICMP_FRAG_NEEDED :: byte where "ICMP_FRAG_NEEDED = 4"
definition ICMP_NET_UNKNOWN :: byte where "ICMP_NET_UNKNOWN = 6"
definition ICMP_TIME_EXCEEDED :: byte where "ICMP_TIME_EXCEEDED = 11"
definition ICMP_EXC_TTL :: byte where "ICMP_EXC_TTL = 0"
definition ICMP_NET_UNREACH :: byte where "ICMP_NET_UNREACH = 0"
definition ICMP_NET_ANO :: byte where "ICMP_NET_ANO = 9"
definition ICMPV6_SIZE :: nat where "ICMPV6_SIZE = 8"
definition ICMP6_DST_UNREACH_NOROUTE :: byte where "ICMP6_DST_UNREACH_NOROUTE = 0"
definition ICMP6_DST_UNREACH :: byte where "ICMP6_DST_UNREACH = 1"
definition ICMP6_PACKET_TOO_BIG :: byte where "ICMP6_PACKET_TOO_BIG = 2"
definition ICMP6_TIME_EXCEEDED :: byte where "ICMP6_TIME_EXCEEDED = 3"
definition ICMP6_DST_UNREACH_ADMIN :: byte where "ICMP6_DST_UNREACH_ADMIN = 1"
definition ICMP6_DST_UNREACH_ADDR :: byte where "ICMP6_DST_UNREACH_ADDR = 3"
definition ICMP6_TIME_EXCEED_TRANSIT :: byte where "ICMP6_TIME_EXCEED_TRANSIT = 0"
definition ND_NEIGHBOR_SOLICIT :: byte where "ND_NEIGHBOR_SOLICIT = 135"
definition ND_NEIGHBOR_SOLICIT_LEN :: nat where "ND_NEIGHBOR_SOLICIT_LEN = 24"

lemmas packet_consts = ETH_HLEN_def IP_MSS_def ICMP_SIZE_def ICMPV6_SIZE_def
  IPV4_MIN_FULL_MTU_def IPV6_MIN_PAYLOAD_MTU_def IPV6_MIN_FULL_MTU_def ND_NEIGHBOR_SOLICIT_LEN_def

text \<open>\<^verbatim>\<open>u16::from_be_bytes([packet[i], packet[i + 1]])\<close>.\<close>

abbreviation word_at :: "byte list \<Rightarrow> nat \<Rightarrow> u16" where
  "word_at packet i \<equiv> be16 (packet ! i) (packet ! (i + 1))"

section \<open>Frames\<close>

datatype ttl_mutation = Decremented | NotApplicable
datatype ttl_error = TtlTooShort nat nat | Expired

datatype icmp_error_packet_error = IcmpTooShort nat nat | IcmpNotIpv4 u16 | IcmpNotIpv6 u16

datatype fragment_error =
    FragTooShort nat nat
  | FragNotIpv4 u16
  | FragUnsupportedHeaderLength byte
  | FragLengthMismatch nat nat
  | FragMtuTooSmall nat nat

datatype mss_clamp = Clamped u16 u16 | AlreadySmall u16 u16 | NoMssOption | NotTcp

datatype mss_clamp_error =
    MssTooShort nat nat
  | MssInvalidTcpHeaderLength byte
  | MssMtuTooSmall nat nat

definition ethernet_payload_type :: "byte list \<Rightarrow> ttl_error + u16 \<times> nat" where
  "ethernet_payload_type packet =
     (if length packet < ETH_HLEN then Inl (TtlTooShort ETH_HLEN (length packet))
      else
        (let ether_type = word_at packet 12
         in if ether_type = ETH_P_8021Q then
              (let expected_at_least = ETH_HLEN + 4
               in if length packet < expected_at_least
                  then Inl (TtlTooShort expected_at_least (length packet))
                  else Inr (word_at packet 16, expected_at_least))
            else Inr (ether_type, ETH_HLEN)))"

text \<open>
  \<^verbatim>\<open>swap_ethernet_addresses\<close>: six element swaps, on a buffer that starts with the Ethernet header.
\<close>

definition swap_ethernet_addresses :: "byte list \<Rightarrow> byte list" where
  "swap_ethernet_addresses packet =
     fold (\<lambda>i p. p[i := p ! (i + 6), i + 6 := p ! i]) [0..<6] packet"

definition ethernet_packet :: "mac_addr \<Rightarrow> mac_addr \<Rightarrow> u16 \<Rightarrow> byte list \<Rightarrow> byte list" where
  "ethernet_packet destination source ether_type payload =
     destination @ source @ be16_bytes ether_type @ payload"

section \<open>TTL and hop limit\<close>

definition decrement_ipv4_ttl :: "byte list \<Rightarrow> nat \<Rightarrow> ttl_error + ttl_mutation \<times> byte list" where
  "decrement_ipv4_ttl packet ether_len =
     (let expected_at_least = ether_len + 20
      in if length packet < expected_at_least then Inl (TtlTooShort expected_at_least (length packet))
         else
           (let ttl = packet ! (ether_len + 8)
            in if ttl \<le> 1 then Inl Expired
               else
                 (let protocol = packet ! (ether_len + 9);
                      old = be16 ttl protocol;
                      packet = packet[ether_len + 8 := ttl - 1];
                      new = be16 (ttl - 1) protocol;
                      checksum_offset = ether_len + 10;
                      checksum = word_at packet checksum_offset;
                      checksum = incremental_checksum_update checksum old new
                  in Inr (Decremented, copy_at checksum_offset (be16_bytes checksum) packet))))"

definition decrement_ipv6_hop_limit :: "byte list \<Rightarrow> nat \<Rightarrow> ttl_error + ttl_mutation \<times> byte list" where
  "decrement_ipv6_hop_limit packet ether_len =
     (let expected_at_least = ether_len + 40
      in if length packet < expected_at_least then Inl (TtlTooShort expected_at_least (length packet))
         else
           (let hop_limit = packet ! (ether_len + 7)
            in if hop_limit \<le> 1 then Inl Expired
               else Inr (Decremented, packet[ether_len + 7 := hop_limit - 1])))"

definition decrement_ttl :: "byte list \<Rightarrow> ttl_error + ttl_mutation \<times> byte list" where
  "decrement_ttl packet =
     and_then (ethernet_payload_type packet) (\<lambda>(ether_type, ether_len).
       if ether_type = ETH_P_IP then decrement_ipv4_ttl packet ether_len
       else if ether_type = ETH_P_IPV6 then decrement_ipv6_hop_limit packet ether_len
       else Inr (NotApplicable, packet))"

section \<open>ICMP errors\<close>

fun icmp_error_from_payload_error :: "ttl_error \<Rightarrow> icmp_error_packet_error" where
  "icmp_error_from_payload_error (TtlTooShort expected actual) = IcmpTooShort expected actual"

text \<open>
  The other case of the source is \<^verbatim>\<open>unreachable!\<close>, a panic; so are those of the conversions to
  \<^typ>\<open>fragment_error\<close> and \<^typ>\<open>mss_clamp_error\<close>.  \<open>payload_type_not_expired\<close> shows that it is.
\<close>

lemma payload_type_not_expired: "ethernet_payload_type packet \<noteq> Inl Expired"
  by (simp add: ethernet_payload_type_def Let_def)

text \<open>The header of the error: no options, TTL 255, and its checksum.\<close>

definition icmp_ipv4_header :: "nat \<Rightarrow> ipv4_addr \<Rightarrow> ipv4_addr \<Rightarrow> byte list" where
  "icmp_ipv4_header total_len source destination =
     (let header = (replicate 20 0)[0 := 0x45];
          header = copy_at 2 (be16_bytes (of_nat total_len)) header;
          header = header[8 := 255, 9 := IPPROTO_ICMP];
          header = copy_at 16 destination (copy_at 12 source header);
          checksum = internet_checksum header 0xffff
      in copy_at 10 (be16_bytes checksum) header)"

definition icmp_message :: "byte \<Rightarrow> byte \<Rightarrow> nat \<Rightarrow> byte list \<Rightarrow> byte list" where
  "icmp_message icmp_type icmp_code next_mtu quoted =
     (let icmp = (replicate ICMP_SIZE 0)[0 := icmp_type, 1 := icmp_code];
          icmp = (if icmp_type = ICMP_DEST_UNREACH \<and> icmp_code = ICMP_FRAG_NEEDED
                  then copy_at 6 (be16_bytes (of_nat next_mtu)) icmp else icmp);
          icmp = icmp @ quoted;
          checksum = internet_checksum icmp 0xffff
      in copy_at 2 (be16_bytes checksum) icmp)"

definition ipv4_icmp_error_packet ::
  "byte list \<Rightarrow> byte \<Rightarrow> byte \<Rightarrow> ipv4_addr option \<Rightarrow> icmp_error_packet_error + byte list" where
  "ipv4_icmp_error_packet packet icmp_type icmp_code reply_source =
     and_then (map_err icmp_error_from_payload_error (ethernet_payload_type packet)) (\<lambda>(ether_type, ether_len).
       if ether_type \<noteq> ETH_P_IP then Inl (IcmpNotIpv4 ether_type)
       else
         (let expected_at_least = ether_len + 20
          in if length packet < expected_at_least
             then Inl (IcmpTooShort expected_at_least (length packet))
             else
               (let ip_start = ether_len;
                    original_source = subslice (ip_start + 12) (ip_start + 16) packet;
                    original_destination = subslice (ip_start + 16) (ip_start + 20) packet;
                    quoted_len = min (length packet - ether_len) (IP_MSS - 20 - ICMP_SIZE);
                    total_len = 20 + ICMP_SIZE + quoted_len;
                    out = swap_ethernet_addresses (take ether_len packet);
                    header = icmp_ipv4_header total_len
                      (case reply_source of Some a \<Rightarrow> a | None \<Rightarrow> original_destination) original_source;
                    icmp = icmp_message icmp_type icmp_code (length packet - ether_len)
                      (subslice ether_len (ether_len + quoted_len) packet)
                in Inr (out @ header @ icmp))))"

definition ipv6_payload_checksum ::
  "ipv6_addr \<Rightarrow> ipv6_addr \<Rightarrow> byte \<Rightarrow> nat \<Rightarrow> byte list \<Rightarrow> u16" where
  "ipv6_payload_checksum source destination next_header payload_len payload =
     internet_checksum
       (source @ destination @ be32_bytes (of_nat payload_len) @ [0, 0, 0, next_header] @ payload) 0xffff"

definition verify_ipv6_payload_checksum :: "byte list \<Rightarrow> nat \<Rightarrow> nat \<Rightarrow> u16" where
  "verify_ipv6_payload_checksum packet ether_len payload_len =
     (let ip_start = ether_len;
          payload_start = ip_start + 40;
          payload_end = payload_start + payload_len
      in if length packet < payload_end then 1
         else ipv6_payload_checksum (subslice (ip_start + 8) (ip_start + 24) packet)
                (subslice (ip_start + 24) (ip_start + 40) packet) (packet ! (ip_start + 6)) payload_len
                (subslice payload_start payload_end packet))"

definition icmpv6_header :: "nat \<Rightarrow> ipv6_addr \<Rightarrow> ipv6_addr \<Rightarrow> byte list" where
  "icmpv6_header payload_len source destination =
     (let header = copy_at 0 (be32_bytes 0x60000000) (replicate 40 0);
          header = copy_at 4 (be16_bytes (of_nat payload_len)) header;
          header = header[6 := IPPROTO_ICMPV6, 7 := 255]
      in copy_at 24 destination (copy_at 8 source header))"

definition icmpv6_message :: "byte \<Rightarrow> byte \<Rightarrow> nat \<Rightarrow> byte list \<Rightarrow> ipv6_addr \<Rightarrow> ipv6_addr \<Rightarrow> byte list" where
  "icmpv6_message icmp_type icmp_code mtu quoted source destination =
     (let icmp = (replicate ICMPV6_SIZE 0)[0 := icmp_type, 1 := icmp_code];
          icmp = (if icmp_type = ICMP6_PACKET_TOO_BIG
                  then copy_at 4 (be32_bytes (of_nat mtu)) icmp else icmp);
          icmp = icmp @ quoted;
          checksum = ipv6_payload_checksum source destination IPPROTO_ICMPV6
            (ICMPV6_SIZE + length quoted) icmp
      in copy_at 2 (be16_bytes checksum) icmp)"

definition ipv6_icmp_error_packet ::
  "byte list \<Rightarrow> byte \<Rightarrow> byte \<Rightarrow> ipv6_addr option \<Rightarrow> icmp_error_packet_error + byte list" where
  "ipv6_icmp_error_packet packet icmp_type icmp_code reply_source =
     and_then (map_err icmp_error_from_payload_error (ethernet_payload_type packet)) (\<lambda>(ether_type, ether_len).
       if ether_type \<noteq> ETH_P_IPV6 then Inl (IcmpNotIpv6 ether_type)
       else
         (let expected_at_least = ether_len + 40
          in if length packet < expected_at_least
             then Inl (IcmpTooShort expected_at_least (length packet))
             else
               (let ip_start = ether_len;
                    original_source = subslice (ip_start + 8) (ip_start + 24) packet;
                    original_destination = subslice (ip_start + 24) (ip_start + 40) packet;
                    quoted_len = min (length packet - ether_len) (IP_MSS - 40 - ICMPV6_SIZE);
                    payload_len = ICMPV6_SIZE + quoted_len;
                    response_source = (case reply_source of Some a \<Rightarrow> a | None \<Rightarrow> original_destination);
                    out = swap_ethernet_addresses (take ether_len packet);
                    header = icmpv6_header payload_len response_source original_source;
                    icmp = icmpv6_message icmp_type icmp_code (length packet - ether_len)
                      (subslice ether_len (ether_len + quoted_len) packet) response_source original_source
                in Inr (out @ header @ icmp))))"

section \<open>Fragmentation\<close>

fun fragment_error_from :: "ttl_error \<Rightarrow> fragment_error" where
  "fragment_error_from (TtlTooShort expected actual) = FragTooShort expected actual"

text \<open>\<^verbatim>\<open>& !0x7\<close> rounds down to a multiple of eight.\<close>

definition max_fragment_payload_len :: "nat \<Rightarrow> nat \<Rightarrow> nat \<Rightarrow> fragment_error + nat" where
  "max_fragment_payload_len mtu ether_len ip_header_len =
     (let effective_mtu = max mtu 590
      in if effective_mtu \<le> ether_len + ip_header_len
         then Inl (FragMtuTooSmall mtu (ether_len + ip_header_len + 8))
         else
           (let n = effective_mtu - ether_len - ip_header_len;
                max_payload_len = n - n mod 8
            in if max_payload_len = 0 then Inl (FragMtuTooSmall mtu (ether_len + ip_header_len + 8))
               else Inr max_payload_len))"

definition one_fragment ::
  "byte list \<Rightarrow> nat \<Rightarrow> byte list \<Rightarrow> u16 \<Rightarrow> u16 \<Rightarrow> bool \<Rightarrow> byte list" where
  "one_fragment packet ether_len part original_flags fragment_offset more =
     (let fragment = take (ether_len + 20) packet @ part;
          fragment = copy_at (ether_len + 2) (be16_bytes (of_nat (20 + length part))) fragment;
          flags = original_flags OR (if more then IP_MF else 0);
          fragment = copy_at (ether_len + 6) (be16_bytes (flags OR fragment_offset)) fragment;
          fragment = fragment[ether_len + 10 := 0, ether_len + 11 := 0];
          checksum = internet_checksum (subslice ether_len (ether_len + 20) fragment) 0xffff
      in copy_at (ether_len + 10) (be16_bytes checksum) fragment)"

text \<open>The loop over \<^verbatim>\<open>remaining\<close>: what is left of the payload is its argument.\<close>

function fragment_loop ::
  "byte list \<Rightarrow> nat \<Rightarrow> nat \<Rightarrow> u16 \<Rightarrow> u16 \<Rightarrow> byte list \<Rightarrow> byte list list" where
  "fragment_loop packet ether_len max_payload_len original_flags fragment_offset payload =
     (if payload = [] \<or> max_payload_len = 0 then []
      else
        (let part = take max_payload_len payload;
             rest = drop max_payload_len payload
         in one_fragment packet ether_len part original_flags fragment_offset (rest \<noteq> [])
            # fragment_loop packet ether_len max_payload_len original_flags
                (fragment_offset + of_nat (length part div 8)) rest))"
  by auto
termination by (relation "measure (\<lambda>(_, _, _, _, _, payload). length payload)") auto

declare fragment_loop.simps [simp del]

definition fragment_ipv4_packet :: "byte list \<Rightarrow> nat \<Rightarrow> fragment_error + byte list list" where
  "fragment_ipv4_packet packet mtu =
     and_then (map_err fragment_error_from (ethernet_payload_type packet)) (\<lambda>(ether_type, ether_len).
       if ether_type \<noteq> ETH_P_IP then Inl (FragNotIpv4 ether_type)
       else if length packet < ether_len + 20 then Inl (FragTooShort (ether_len + 20) (length packet))
       else if packet ! ether_len AND 0x0f \<noteq> 5
       then Inl (FragUnsupportedHeaderLength (packet ! ether_len AND 0x0f))
       else
         (let total_len = unat (word_at packet (ether_len + 2))
          in if total_len \<noteq> length packet - ether_len
             then Inl (FragLengthMismatch total_len (length packet - ether_len))
             else
               and_then (max_fragment_payload_len mtu ether_len 20) (\<lambda>max_payload_len.
                 let original_fragment = word_at packet (ether_len + 6);
                     original_flags = original_fragment AND NOT IP_OFFMASK;
                     fragment_offset = original_fragment AND IP_OFFMASK
                 in Inr (fragment_loop packet ether_len max_payload_len original_flags fragment_offset
                           (drop (ether_len + 20) packet)))))"

section \<open>MSS clamping\<close>

fun mss_clamp_error_from :: "ttl_error \<Rightarrow> mss_clamp_error" where
  "mss_clamp_error_from (TtlTooShort expected actual) = MssTooShort expected actual"

definition tcp_header_start :: "byte list \<Rightarrow> u16 \<Rightarrow> nat \<Rightarrow> mss_clamp_error + nat option" where
  "tcp_header_start packet ether_type ether_len =
     (if ether_type = ETH_P_IP then
        if length packet < ether_len + 20 then Inl (MssTooShort (ether_len + 20) (length packet))
        else if packet ! (ether_len + 9) = 4 \<and> length packet < ether_len + 20 + 20
        then Inl (MssTooShort (ether_len + 20 + 20) (length packet))
        else
          (let ip_start = (if packet ! (ether_len + 9) = 4 then ether_len + 20 else ether_len)
           in if packet ! (ip_start + 9) \<noteq> 6 then Inr None
              else Inr (Some (ip_start + unat (packet ! ip_start AND 0x0f) * 4)))
      else if ether_type = ETH_P_IPV6 then
        if length packet < ether_len + 40 then Inl (MssTooShort (ether_len + 40) (length packet))
        else if packet ! (ether_len + 6) = 6 then Inr (Some (ether_len + 40))
        else Inr None
      else Inr None)"

definition maximum_mss_for_mtu :: "nat \<Rightarrow> nat \<Rightarrow> mss_clamp_error + u16" where
  "maximum_mss_for_mtu mtu tcp_start =
     (let required_at_least = tcp_start + 21
      in if mtu < required_at_least then Inl (MssMtuTooSmall mtu required_at_least)
         else
           (let maximum = mtu - tcp_start - 20
            in if maximum < 65536 then Inr (of_nat maximum)
               else Inl (MssMtuTooSmall mtu required_at_least)))"

text \<open>What the loop does with the MSS option it found.\<close>

definition clamp_mss_option :: "byte list \<Rightarrow> nat \<Rightarrow> u16 \<Rightarrow> nat \<Rightarrow> mss_clamp \<times> byte list" where
  "clamp_mss_option packet tcp_start maximum mss_offset =
     (let old = word_at packet mss_offset
      in if old \<le> maximum then (AlreadySmall old maximum, packet)
         else
           (let packet = copy_at mss_offset (be16_bytes maximum) packet;
                checksum_offset = tcp_start + 16;
                checksum = word_at packet checksum_offset;
                checksum = incremental_transport_checksum_update checksum old maximum
            in (Clamped old maximum, copy_at checksum_offset (be16_bytes checksum) packet)))"

function clamp_option_loop ::
  "byte list \<Rightarrow> nat \<Rightarrow> nat \<Rightarrow> u16 \<Rightarrow> nat \<Rightarrow> mss_clamp \<times> byte list" where
  "clamp_option_loop packet tcp_start options_len maximum offset =
     (if offset < options_len then
        (let options_start = tcp_start + 20;
             kind = packet ! (options_start + offset)
         in if kind = 0 then (NoMssOption, packet)
            else if kind = 1 then clamp_option_loop packet tcp_start options_len maximum (offset + 1)
            else if options_len \<le> offset + 1 then (NoMssOption, packet)
            else
              (let option_len = unat (packet ! (options_start + offset + 1))
               in if kind = 2 then
                    if option_len \<noteq> 4 \<or> options_len < offset + option_len then (NoMssOption, packet)
                    else clamp_mss_option packet tcp_start maximum (options_start + offset + 2)
                  else if option_len < 2 \<or> options_len < offset + option_len then (NoMssOption, packet)
                  else clamp_option_loop packet tcp_start options_len maximum (offset + option_len)))
      else (NoMssOption, packet))"
  by auto
termination
  by (relation "measure (\<lambda>(_, _, options_len, _, offset). options_len - offset)") auto

declare clamp_option_loop.simps [simp del]

definition clamp_tcp_mss :: "byte list \<Rightarrow> nat \<Rightarrow> mss_clamp_error + mss_clamp \<times> byte list" where
  "clamp_tcp_mss packet mtu =
     and_then (map_err mss_clamp_error_from (ethernet_payload_type packet)) (\<lambda>(ether_type, ether_len).
     and_then (tcp_header_start packet ether_type ether_len) (\<lambda>start. case start of
       None \<Rightarrow> Inr (NotTcp, packet)
     | Some tcp_start \<Rightarrow>
         if length packet = tcp_start + 20 then Inr (NoMssOption, packet)
         else if length packet < tcp_start + 20 then Inl (MssTooShort (tcp_start + 20) (length packet))
         else
           (let data_offset = drop_bit 4 (packet ! (tcp_start + 12))
            in if data_offset < 5 then Inl (MssInvalidTcpHeaderLength data_offset)
               else
                 (let tcp_header_len = unat data_offset * 4
                  in if tcp_header_len = 20 then Inr (NoMssOption, packet)
                     else if length packet < tcp_start + tcp_header_len
                     then Inl (MssTooShort (tcp_start + tcp_header_len) (length packet))
                     else
                       and_then (maximum_mss_for_mtu mtu tcp_start) (\<lambda>maximum.
                         Inr (clamp_option_loop packet tcp_start (tcp_header_len - 20) maximum 0))))))"

end
