(* ===== verification/Route.thy ===== *)
theory Route
  imports Packet Net_State
begin

text \<open>
  The routing decisions of \<^verbatim>\<open>tinc-core/src/route.rs\<close>: what happens to a packet that arrives from
  the virtual interface or from a peer in each routing mode, which packet leaves, and the replies
  (ARP, neighbor advertisement, ICMP errors, fragments) the router makes itself.  A function the
  source gives \<^verbatim>\<open>&mut NetworkState\<close> returns the new state beside its result.
\<close>

section \<open>Configuration and results\<close>

datatype routing_mode = Hub | Switch | Router
datatype forwarding_mode = FwdOff | FwdInternal | FwdKernel

record route_config =
  rc_routing_mode :: routing_mode
  rc_forwarding_mode :: forwarding_mode
  rc_direct_only :: bool
  rc_decrement_ttl :: bool
  rc_priority_inheritance :: bool
  rc_mac_expire :: int
  rc_now_secs :: int

definition route_config_default :: route_config where
  "route_config_default =
     \<lparr>rc_routing_mode = Router, rc_forwarding_mode = FwdInternal, rc_direct_only = False,
      rc_decrement_ttl = False, rc_priority_inheritance = False, rc_mac_expire = 600, rc_now_secs = 0\<rparr>"

datatype route_drop_reason =
    DropTooShort nat nat
  | DropUnknownEtherType u16
  | DropUnknownIpv4Destination ipv4_addr
  | DropUnknownIpv6Destination ipv6_addr
  | DropLoopbackToSource string
  | DropUnreachableOwner string
  | DropForwardingDisabled
  | DropDirectOnly
  | DropRoutingLoop string
  | DropTtlExpired
  | DropAddressResolutionFromRemote
  | DropInvalidArpRequest
  | DropUnknownArpTarget ipv4_addr
  | DropLocalArpTarget ipv4_addr
  | DropInvalidNeighborSolicitation
  | DropInvalidNeighborSolicitationChecksum
  | DropUnknownNeighborTarget ipv6_addr
  | DropLocalNeighborTarget ipv6_addr

datatype route_decision =
    RouteSend string "string option"
  | RouteReply string
  | RouteBroadcast
  | RouteDeliverLocal
  | RouteDrop route_drop_reason

record route_outcome =
  ro_decision :: route_decision
  ro_learned :: "subnet list"

definition outcome_new :: "route_decision \<Rightarrow> route_outcome" where
  "outcome_new decision = \<lparr>ro_decision = decision, ro_learned = []\<rparr>"

datatype packet_action =
    ActSend string "string option" "byte list" "int option" "mss_clamp option"
  | ActSendFragments string "string option" "byte list list" "int option"
  | ActReply string "byte list" "int option"
  | ActBroadcast "byte list"
  | ActDeliverLocal "byte list"
  | ActDrop route_drop_reason

record routed_packet_action =
  rp_outcome :: route_outcome
  rp_action :: packet_action

record ethernet_frame =
  ef_destination :: mac_addr
  ef_source :: mac_addr
  ef_ether_type :: u16
  ef_payload :: "byte list"

definition parse_frame :: "byte list \<Rightarrow> route_drop_reason + ethernet_frame" where
  "parse_frame packet =
     (if length packet < ETH_HLEN then Inl (DropTooShort ETH_HLEN (length packet))
      else Inr \<lparr>ef_destination = subslice 0 6 packet, ef_source = subslice 6 12 packet,
             ef_ether_type = word_at packet 12, ef_payload = drop ETH_HLEN packet\<rparr>)"

section \<open>Choosing a subnet\<close>

text \<open>
  The first matching subnet whose owner is reachable (or that has no owner), otherwise the last
  matching one.
\<close>

definition owner_reachable :: "graph \<Rightarrow> subnet \<Rightarrow> bool" where
  "owner_reachable g s =
     (case sn_owner s of
        None \<Rightarrow> True
      | Some owner \<Rightarrow> (case graph_node g owner of Some n \<Rightarrow> st_reachable (n_status n) | None \<Rightarrow> False))"

fun lookup_reachable_loop :: "graph \<Rightarrow> (subnet \<Rightarrow> bool) \<Rightarrow> subnet option \<Rightarrow> subnet list \<Rightarrow> subnet option" where
  "lookup_reachable_loop g P found [] = found"
| "lookup_reachable_loop g P found (s # rest) =
     (if \<not> P s then lookup_reachable_loop g P found rest
      else if owner_reachable g s then Some s
      else lookup_reachable_loop g P (Some s) rest)"

definition lookup_reachable_subnet_like_tinc :: "network_state \<Rightarrow> (subnet \<Rightarrow> bool) \<Rightarrow> subnet option" where
  "lookup_reachable_subnet_like_tinc s P = lookup_reachable_loop (ns_graph s) P None (ns_subnets s)"

definition lookup_reachable_mac :: "network_state \<Rightarrow> mac_addr \<Rightarrow> subnet option" where
  "lookup_reachable_mac s a = lookup_reachable_subnet_like_tinc s (\<lambda>x. sn_kind x = Mac a)"

definition lookup_reachable_ipv4 :: "network_state \<Rightarrow> ipv4_addr \<Rightarrow> subnet option" where
  "lookup_reachable_ipv4 s a = lookup_reachable_subnet_like_tinc s (\<lambda>x. matches_ipv4 x a)"

definition lookup_reachable_ipv6 :: "network_state \<Rightarrow> ipv6_addr \<Rightarrow> subnet option" where
  "lookup_reachable_ipv6 s a = lookup_reachable_subnet_like_tinc s (\<lambda>x. matches_ipv6 x a)"

section \<open>Routing to the owner\<close>

text \<open>\<^verbatim>\<open>let _ = source\<close> in the source: the argument is not used.\<close>

definition route_via :: "network_state \<Rightarrow> string \<Rightarrow> string \<Rightarrow> string option" where
  "route_via s source owner =
     (case graph_node (ns_graph s) owner of
        None \<Rightarrow> None
      | Some n \<Rightarrow>
          if rt_via (n_route n) = Some (g_myself (ns_graph s)) then rt_next_hop (n_route n)
          else rt_via (n_route n))"

definition direct_only_allows :: "network_state \<Rightarrow> string \<Rightarrow> string option \<Rightarrow> bool" where
  "direct_only_allows s owner via =
     (case graph_node (ns_graph s) owner of
        None \<Rightarrow> False
      | Some n \<Rightarrow> via = Some owner \<and> rt_next_hop (n_route n) = Some owner)"

definition route_to_subnet_owner :: "network_state \<Rightarrow> string \<Rightarrow> subnet \<Rightarrow> route_config \<Rightarrow> route_outcome" where
  "route_to_subnet_owner s source subnet config =
     (case sn_owner subnet of
        None \<Rightarrow> outcome_new RouteBroadcast
      | Some owner \<Rightarrow>
          if owner = source then outcome_new (RouteDrop (DropLoopbackToSource owner))
          else
            (case graph_node (ns_graph s) owner of
               None \<Rightarrow> outcome_new (RouteDrop (DropUnreachableOwner owner))
             | Some owner_node \<Rightarrow>
                 if \<not> st_reachable (n_status owner_node)
                 then outcome_new (RouteDrop (DropUnreachableOwner owner))
                 else if rc_forwarding_mode config = FwdOff \<and> source \<noteq> g_myself (ns_graph s)
                   \<and> owner \<noteq> g_myself (ns_graph s)
                 then outcome_new (RouteDrop DropForwardingDisabled)
                 else
                   (let via = route_via s source owner
                    in if via = Some source then outcome_new (RouteDrop (DropRoutingLoop source))
                       else if rc_direct_only config \<and> \<not> direct_only_allows s owner via
                       then outcome_new (RouteDrop DropDirectOnly)
                       else outcome_new (RouteSend owner via))))"

definition route_ipv4 :: "network_state \<Rightarrow> string \<Rightarrow> byte list \<Rightarrow> route_config \<Rightarrow> route_outcome" where
  "route_ipv4 s source packet config =
     (if length packet < ETH_HLEN + 20
      then outcome_new (RouteDrop (DropTooShort (ETH_HLEN + 20) (length packet)))
      else
        (let destination = subslice 30 34 packet
         in case lookup_reachable_ipv4 s destination of
              None \<Rightarrow> outcome_new (RouteDrop (DropUnknownIpv4Destination destination))
            | Some subnet \<Rightarrow> route_to_subnet_owner s source subnet config))"

definition route_ipv6 :: "network_state \<Rightarrow> string \<Rightarrow> byte list \<Rightarrow> route_config \<Rightarrow> route_outcome" where
  "route_ipv6 s source packet config =
     (if length packet < ETH_HLEN + 40
      then outcome_new (RouteDrop (DropTooShort (ETH_HLEN + 40) (length packet)))
      else
        (let destination = subslice 38 54 packet
         in case lookup_reachable_ipv6 s destination of
              None \<Rightarrow> outcome_new (RouteDrop (DropUnknownIpv6Destination destination))
            | Some subnet \<Rightarrow> route_to_subnet_owner s source subnet config))"

text \<open>
  Switch mode.  A frame from the local interface refreshes or adds the sender's address as an
  expiring subnet of this node; then the destination address is looked up.
\<close>

definition learn_mac :: "network_state \<Rightarrow> string \<Rightarrow> ethernet_frame \<Rightarrow> route_config \<Rightarrow> subnet list \<times> network_state" where
  "learn_mac s source frame config =
     (let myself = g_myself (ns_graph s)
      in if source = myself then
           (let expires = rc_now_secs config + rc_mac_expire config;
                local = with_owner myself (mac_subnet (ef_source frame))
            in if lookup_owner_subnet (ns_subnets s) myself local \<noteq> None
               then ([], s\<lparr>ns_subnets := update_owner_subnet (ns_subnets s) myself local
                       (\<lambda>existing. if sn_expires existing \<noteq> None then existing\<lparr>sn_expires := Some expires\<rparr>
                                   else existing)\<rparr>)
               else
                 (let local = with_expiry expires local
                  in ([local], s\<lparr>ns_subnets := table_add local (ns_subnets s)\<rparr>)))
         else ([], s))"

definition mac_decision :: "network_state \<Rightarrow> string \<Rightarrow> ethernet_frame \<Rightarrow> route_config \<Rightarrow> route_decision" where
  "mac_decision s source frame config =
     (case lookup_reachable_mac s (ef_destination frame) of
        None \<Rightarrow> RouteBroadcast
      | Some subnet \<Rightarrow>
          (case sn_owner subnet of
             None \<Rightarrow> RouteBroadcast
           | Some owner \<Rightarrow>
               if owner = source then RouteDrop (DropLoopbackToSource owner)
               else if rc_forwarding_mode config = FwdOff \<and> source \<noteq> g_myself (ns_graph s)
                 \<and> owner \<noteq> g_myself (ns_graph s)
               then RouteDrop DropForwardingDisabled
               else
                 (let via = route_via s source owner
                  in if via = Some source then RouteDrop (DropRoutingLoop source)
                     else if rc_direct_only config \<and> \<not> direct_only_allows s owner via
                     then RouteDrop DropDirectOnly
                     else RouteSend owner via)))"

definition route_mac ::
  "network_state \<Rightarrow> string \<Rightarrow> ethernet_frame \<Rightarrow> route_config \<Rightarrow> route_outcome \<times> network_state" where
  "route_mac s source frame config =
     (case learn_mac s source frame config of (learned, s') \<Rightarrow>
        (\<lparr>ro_decision = mac_decision s' source frame config, ro_learned = learned\<rparr>, s'))"

section \<open>A packet's decision\<close>

definition route_packet ::
  "network_state \<Rightarrow> string \<Rightarrow> byte list \<Rightarrow> route_config \<Rightarrow> route_outcome \<times> network_state" where
  "route_packet s source packet config =
     (if rc_forwarding_mode config = FwdKernel \<and> source \<noteq> g_myself (ns_graph s)
      then (outcome_new RouteDeliverLocal, s)
      else
        (case parse_frame packet of
           Inl reason \<Rightarrow> (outcome_new (RouteDrop reason), s)
         | Inr frame \<Rightarrow>
             (case rc_routing_mode config of
                Hub \<Rightarrow> (outcome_new RouteBroadcast, s)
              | Switch \<Rightarrow> route_mac s source frame config
              | Router \<Rightarrow>
                  if ef_ether_type frame = ETH_P_IP then (route_ipv4 s source packet config, s)
                  else if ef_ether_type frame = ETH_P_IPV6 then (route_ipv6 s source packet config, s)
                  else (outcome_new (RouteDrop (DropUnknownEtherType (ef_ether_type frame))), s))))"

definition should_decrement_ttl :: "route_decision \<Rightarrow> string \<Rightarrow> string \<Rightarrow> bool" where
  "should_decrement_ttl decision source myself =
     (case decision of
        RouteBroadcast \<Rightarrow> source \<noteq> myself
      | RouteSend owner _ \<Rightarrow> source \<noteq> myself \<and> owner \<noteq> myself
      | RouteReply _ \<Rightarrow> False
      | RouteDeliverLocal \<Rightarrow> False
      | RouteDrop _ \<Rightarrow> False)"

definition route_packet_mut ::
  "network_state \<Rightarrow> string \<Rightarrow> byte list \<Rightarrow> route_config \<Rightarrow> route_outcome \<times> byte list \<times> network_state" where
  "route_packet_mut s source packet config =
     (let myself = g_myself (ns_graph s)
      in case route_packet s source packet config of (outcome, s') \<Rightarrow>
           if \<not> rc_decrement_ttl config \<or> \<not> should_decrement_ttl (ro_decision outcome) source myself
           then (outcome, packet, s')
           else
             (case decrement_ttl packet of
                Inr (_, packet') \<Rightarrow> (outcome, packet', s')
              | Inl Expired \<Rightarrow> (outcome\<lparr>ro_decision := RouteDrop DropTtlExpired\<rparr>, packet, s')
              | Inl (TtlTooShort expected actual) \<Rightarrow>
                  (outcome\<lparr>ro_decision := RouteDrop (DropTooShort expected actual)\<rparr>, packet, s')))"

section \<open>Address resolution\<close>

definition ARP_PACKET_LEN :: nat where "ARP_PACKET_LEN = 28"
definition ARPHRD_ETHER :: u16 where "ARPHRD_ETHER = 1"
definition ARPOP_REQUEST :: u16 where "ARPOP_REQUEST = 1"
definition ARPOP_REPLY :: u16 where "ARPOP_REPLY = 2"
definition ND_NEIGHBOR_ADVERT :: byte where "ND_NEIGHBOR_ADVERT = 136"
definition ND_OPT_SOURCE_LINKADDR :: byte where "ND_OPT_SOURCE_LINKADDR = 1"
definition ND_OPT_TARGET_LINKADDR :: byte where "ND_OPT_TARGET_LINKADDR = 2"
definition ND_OPT_LINKADDR_LEN :: nat where "ND_OPT_LINKADDR_LEN = 8"

lemmas resolution_consts = ARP_PACKET_LEN_def ND_OPT_LINKADDR_LEN_def ND_NEIGHBOR_SOLICIT_LEN_def ETH_HLEN_def

definition arp_reply :: "byte list \<Rightarrow> byte list" where
  "arp_reply packet =
     (let arp_start = ETH_HLEN;
          sender_protocol = subslice (arp_start + 14) (arp_start + 18) packet;
          target_protocol = subslice (arp_start + 24) (arp_start + 28) packet;
          sender_hardware = subslice (arp_start + 8) (arp_start + 14) packet;
          ethernet_source = subslice 6 12 packet;
          reply = copy_at (arp_start + 6) (be16_bytes ARPOP_REPLY) packet;
          reply = copy_at (arp_start + 8) ethernet_source reply;
          reply = reply[arp_start + 13 := reply ! (arp_start + 13) XOR 0xff];
          reply = copy_at (arp_start + 14) target_protocol reply;
          reply = copy_at (arp_start + 18) sender_hardware reply
      in copy_at (arp_start + 24) sender_protocol reply)"

definition arp_reply_packet ::
  "network_state \<Rightarrow> string \<Rightarrow> byte list \<Rightarrow> route_drop_reason + byte list option" where
  "arp_reply_packet s source packet =
     (if source \<noteq> g_myself (ns_graph s) then Inl DropAddressResolutionFromRemote
      else if length packet < ETH_HLEN + ARP_PACKET_LEN
      then Inl (DropTooShort (ETH_HLEN + ARP_PACKET_LEN) (length packet))
      else if word_at packet 12 \<noteq> ETH_P_ARP then Inl (DropUnknownEtherType (word_at packet 12))
      else
        (let arp_start = ETH_HLEN
         in if word_at packet arp_start \<noteq> ARPHRD_ETHER \<or> word_at packet (arp_start + 2) \<noteq> ETH_P_IP
              \<or> packet ! (arp_start + 4) \<noteq> 6 \<or> packet ! (arp_start + 5) \<noteq> 4
              \<or> word_at packet (arp_start + 6) \<noteq> ARPOP_REQUEST
            then Inl DropInvalidArpRequest
            else
              (let target = subslice (arp_start + 24) (arp_start + 28) packet
               in case lookup_reachable_ipv4 s target of
                    None \<Rightarrow> Inl (DropUnknownArpTarget target)
                  | Some subnet \<Rightarrow>
                      if sn_owner subnet = Some (g_myself (ns_graph s)) then Inl (DropLocalArpTarget target)
                      else Inr (Some (arp_reply packet)))))"

text \<open>The advertisement built from a solicitation that passed the checks.\<close>

definition neighbor_advertisement :: "byte list \<Rightarrow> bool \<Rightarrow> nat \<Rightarrow> byte list" where
  "neighbor_advertisement packet has_option nd_len =
     (let icmp_start = ETH_HLEN + 40;
          target = subslice (icmp_start + 8) (icmp_start + 24) packet;
          original_source_mac = subslice 6 12 packet;
          fake_mac = original_source_mac[5 := original_source_mac ! 5 XOR 0xff];
          reply = copy_at 6 fake_mac (copy_at 0 original_source_mac packet);
          reply = copy_at (ETH_HLEN + 8) target reply;
          original_ip_source = subslice (ETH_HLEN + 8) (ETH_HLEN + 24) packet;
          reply = copy_at (ETH_HLEN + 24) original_ip_source reply;
          reply = reply[icmp_start := ND_NEIGHBOR_ADVERT, icmp_start + 2 := 0, icmp_start + 3 := 0];
          reply = copy_at (icmp_start + 4) (be32_bytes 0x40000000) reply;
          reply = (if has_option
                   then copy_at (icmp_start + ND_NEIGHBOR_SOLICIT_LEN + 2) fake_mac
                          (reply[icmp_start + ND_NEIGHBOR_SOLICIT_LEN := ND_OPT_TARGET_LINKADDR])
                   else reply);
          checksum = ipv6_payload_checksum target original_ip_source IPPROTO_ICMPV6 nd_len
            (subslice icmp_start (icmp_start + nd_len) reply)
      in copy_at (icmp_start + 2) (be16_bytes checksum) reply)"

definition neighbor_advertisement_packet ::
  "network_state \<Rightarrow> string \<Rightarrow> byte list \<Rightarrow> route_drop_reason + byte list option" where
  "neighbor_advertisement_packet s source packet =
     (let icmp_start = ETH_HLEN + 40
      in if source \<noteq> g_myself (ns_graph s) then Inl DropAddressResolutionFromRemote
         else if length packet < icmp_start + ND_NEIGHBOR_SOLICIT_LEN
         then Inl (DropTooShort (icmp_start + ND_NEIGHBOR_SOLICIT_LEN) (length packet))
         else if word_at packet 12 \<noteq> ETH_P_IPV6 \<or> packet ! (ETH_HLEN + 6) \<noteq> IPPROTO_ICMPV6
         then Inl DropInvalidNeighborSolicitation
         else
           (let has_option = (icmp_start + ND_NEIGHBOR_SOLICIT_LEN + ND_OPT_LINKADDR_LEN \<le> length packet)
            in if packet ! icmp_start \<noteq> ND_NEIGHBOR_SOLICIT
                 \<or> (has_option \<and> packet ! (icmp_start + ND_NEIGHBOR_SOLICIT_LEN) \<noteq> ND_OPT_SOURCE_LINKADDR)
               then Inl DropInvalidNeighborSolicitation
               else
                 (let nd_len = (if has_option then ND_NEIGHBOR_SOLICIT_LEN + ND_OPT_LINKADDR_LEN
                                else ND_NEIGHBOR_SOLICIT_LEN)
                  in if verify_ipv6_payload_checksum packet ETH_HLEN nd_len \<noteq> 0
                     then Inl DropInvalidNeighborSolicitationChecksum
                     else
                       (let target = subslice (icmp_start + 8) (icmp_start + 24) packet
                        in case lookup_reachable_ipv6 s target of
                             None \<Rightarrow> Inl (DropUnknownNeighborTarget target)
                           | Some subnet \<Rightarrow>
                               if sn_owner subnet = Some (g_myself (ns_graph s))
                               then Inl (DropLocalNeighborTarget target)
                               else Inr (Some (neighbor_advertisement packet has_option nd_len))))))"

definition is_neighbor_solicitation_packet :: "byte list \<Rightarrow> bool" where
  "is_neighbor_solicitation_packet packet =
     (case ethernet_payload_type packet of
        Inl _ \<Rightarrow> False
      | Inr (ether_type, ether_len) \<Rightarrow>
          ether_type = ETH_P_IPV6 \<and> ether_len + 40 + ND_NEIGHBOR_SOLICIT_LEN \<le> length packet
          \<and> packet ! (ether_len + 6) = IPPROTO_ICMPV6 \<and> packet ! (ether_len + 40) = ND_NEIGHBOR_SOLICIT)"

definition packet_reply_action :: "string \<Rightarrow> route_drop_reason + byte list option \<Rightarrow> routed_packet_action" where
  "packet_reply_action source result =
     (case result of
        Inr (Some packet) \<Rightarrow>
          \<lparr>rp_outcome = outcome_new (RouteReply source), rp_action = ActReply source packet None\<rparr>
      | Inr None \<Rightarrow>
          \<lparr>rp_outcome = outcome_new (RouteDrop DropInvalidNeighborSolicitation),
           rp_action = ActDrop DropInvalidNeighborSolicitation\<rparr>
      | Inl reason \<Rightarrow> \<lparr>rp_outcome = outcome_new (RouteDrop reason), rp_action = ActDrop reason\<rparr>)"

definition address_resolution_action ::
  "network_state \<Rightarrow> string \<Rightarrow> byte list \<Rightarrow> routed_packet_action option" where
  "address_resolution_action s source packet =
     (case parse_frame packet of
        Inl _ \<Rightarrow> None
      | Inr frame \<Rightarrow>
          if ef_ether_type frame = ETH_P_ARP
          then Some (packet_reply_action source (arp_reply_packet s source packet))
          else if ef_ether_type frame = ETH_P_IPV6 \<and> is_neighbor_solicitation_packet packet
          then Some (packet_reply_action source (neighbor_advertisement_packet s source packet))
          else None)"

section \<open>Path MTU\<close>

definition inherited_packet_priority :: "byte list \<Rightarrow> route_config \<Rightarrow> int option" where
  "inherited_packet_priority packet config =
     (if \<not> rc_priority_inheritance config \<or> length packet < ETH_HLEN then None
      else
        (let ether_type = word_at packet 12
         in if ether_type = ETH_P_IP \<and> ETH_HLEN + 20 \<le> length packet
            then Some (uint (packet ! (ETH_HLEN + 1)))
            else if ether_type = ETH_P_IPV6 \<and> ETH_HLEN + 40 \<le> length packet
            then Some (uint (push_bit 4 (packet ! ETH_HLEN AND 0x0f) OR drop_bit 4 (packet ! (ETH_HLEN + 1))))
            else None))"

definition effective_route_mtu :: "byte list \<Rightarrow> nat \<Rightarrow> routing_mode \<Rightarrow> nat" where
  "effective_route_mtu packet mtu mode =
     (case mode of
        Router \<Rightarrow>
          (case ethernet_payload_type packet of
             Inr (kind, _) \<Rightarrow>
               if kind = ETH_P_IP then max mtu IPV4_MIN_FULL_MTU
               else if kind = ETH_P_IPV6 then max mtu IPV6_MIN_FULL_MTU
               else mtu
           | Inl _ \<Rightarrow> mtu)
      | Switch \<Rightarrow> mtu
      | Hub \<Rightarrow> mtu)"

definition should_handle_ipv4_pmtu :: "byte list \<Rightarrow> nat \<Rightarrow> routing_mode \<Rightarrow> bool" where
  "should_handle_ipv4_pmtu packet ether_len mode =
     (case mode of Router \<Rightarrow> True | Switch \<Rightarrow> IP_MSS + ether_len < length packet
      | Hub \<Rightarrow> IP_MSS + ether_len < length packet)"

definition should_handle_ipv6_pmtu :: "byte list \<Rightarrow> nat \<Rightarrow> routing_mode \<Rightarrow> bool" where
  "should_handle_ipv6_pmtu packet ether_len mode =
     (case mode of Router \<Rightarrow> True | Switch \<Rightarrow> IPV6_MIN_PAYLOAD_MTU + ether_len < length packet
      | Hub \<Rightarrow> IPV6_MIN_PAYLOAD_MTU + ether_len < length packet)"

definition reported_pmtu_packet_len :: "byte list \<Rightarrow> nat \<Rightarrow> nat \<Rightarrow> nat \<Rightarrow> routing_mode \<Rightarrow> nat option" where
  "reported_pmtu_packet_len packet ether_len ip_header_len mtu mode =
     (let minimum = ether_len + ip_header_len
      in if length packet < minimum then None
         else
           (let desired =
              (case mode of
                 Router \<Rightarrow> if ip_header_len = 20 then max mtu IPV4_MIN_FULL_MTU
                           else if ip_header_len = 40 then max mtu IPV6_MIN_FULL_MTU else mtu
               | Switch \<Rightarrow> mtu
               | Hub \<Rightarrow> mtu)
            in Some (min (max desired minimum) (length packet))))"

definition ipv4_dont_fragment :: "byte list \<Rightarrow> nat \<Rightarrow> bool" where
  "ipv4_dont_fragment packet ether_len \<longleftrightarrow>
     ether_len + 6 < length packet \<and> packet ! (ether_len + 6) AND 0x40 \<noteq> 0"

text \<open>\<^verbatim>\<open>.ok()?\<close>: an error of the callee is the result \<open>None\<close>.\<close>

definition ok :: "'e + 'a \<Rightarrow> 'a option" where
  "ok r = (case r of Inl _ \<Rightarrow> None | Inr x \<Rightarrow> Some x)"

definition pmtu_action ::
  "string \<Rightarrow> string \<Rightarrow> string option \<Rightarrow> byte list \<Rightarrow> nat \<Rightarrow> routing_mode \<Rightarrow> int option \<Rightarrow> packet_action option" where
  "pmtu_action source owner via packet mtu mode priority =
     (case ethernet_payload_type packet of
        Inl _ \<Rightarrow> None
      | Inr (ether_type, ether_len) \<Rightarrow>
          if ether_type = ETH_P_IP \<and> should_handle_ipv4_pmtu packet ether_len mode then
            if ipv4_dont_fragment packet ether_len then
              Option.bind (reported_pmtu_packet_len packet ether_len 20 mtu mode) (\<lambda>len.
              Option.bind (ok (ipv4_icmp_error_packet (take len packet) ICMP_DEST_UNREACH ICMP_FRAG_NEEDED None))
                (\<lambda>reply. Some (ActReply source reply priority)))
            else
              Option.bind (ok (fragment_ipv4_packet packet mtu)) (\<lambda>fragments.
                Some (ActSendFragments owner via fragments priority))
          else if ether_type = ETH_P_IPV6 \<and> should_handle_ipv6_pmtu packet ether_len mode then
            Option.bind (reported_pmtu_packet_len packet ether_len 40 mtu mode) (\<lambda>len.
            Option.bind (ok (ipv6_icmp_error_packet (take len packet) ICMP6_PACKET_TOO_BIG 0 None))
              (\<lambda>reply. Some (ActReply source reply priority)))
          else None)"

definition send_packet_action ::
  "network_state \<Rightarrow> string \<Rightarrow> string \<Rightarrow> string option \<Rightarrow> byte list \<Rightarrow> route_config \<Rightarrow> packet_action" where
  "send_packet_action s source owner via packet config =
     (let via_name = (case via of Some v \<Rightarrow> v | None \<Rightarrow> owner);
          priority = inherited_packet_priority packet config
      in if via_name = g_myself (ns_graph s) then ActSend owner via packet priority None
         else
           (case graph_node (ns_graph s) via_name of
              None \<Rightarrow> ActDrop (DropUnreachableOwner via_name)
            | Some via_node \<Rightarrow>
                (let mtu = n_mtu via_node;
                     too_big = effective_route_mtu packet mtu (rc_routing_mode config) < length packet
                 in case (if too_big
                          then pmtu_action source owner via packet mtu (rc_routing_mode config) priority
                          else None) of
                      Some action \<Rightarrow> action
                    | None \<Rightarrow>
                        (let source_mtu = (case graph_node (ns_graph s) source of
                                             Some n \<Rightarrow> n_mtu n | None \<Rightarrow> DEFAULT_MTU);
                             clamp_mtu = min source_mtu mtu
                         in if n_options via_node AND OPTION_CLAMP_MSS \<noteq> 0 then
                              (case clamp_tcp_mss packet clamp_mtu of
                                 Inr (Clamped old new, packet') \<Rightarrow>
                                   ActSend owner via packet' priority (Some (Clamped old new))
                               | Inr (AlreadySmall current maximum, packet') \<Rightarrow>
                                   ActSend owner via packet' priority (Some (AlreadySmall current maximum))
                               | Inr (NotTcp, packet') \<Rightarrow> ActSend owner via packet' priority None
                               | Inr (NoMssOption, packet') \<Rightarrow> ActSend owner via packet' priority None
                               | Inl _ \<Rightarrow> ActSend owner via packet priority None)
                            else ActSend owner via packet priority None))))"

section \<open>Errors reported to the sender\<close>

definition is_ipv4_time_exceeded :: "byte list \<Rightarrow> bool" where
  "is_ipv4_time_exceeded packet =
     (case ethernet_payload_type packet of
        Inl _ \<Rightarrow> False
      | Inr (ether_type, ether_len) \<Rightarrow>
          ether_type = ETH_P_IP \<and> ether_len + 20 \<le> length packet
          \<and> (let header_len = unat (packet ! ether_len AND 0x0f) * 4
             in ether_len + header_len < length packet \<and> packet ! (ether_len + 9) = IPPROTO_ICMP
                \<and> packet ! (ether_len + header_len) = ICMP_TIME_EXCEEDED))"

definition is_ipv6_time_exceeded :: "byte list \<Rightarrow> bool" where
  "is_ipv6_time_exceeded packet =
     (case ethernet_payload_type packet of
        Inl _ \<Rightarrow> False
      | Inr (ether_type, ether_len) \<Rightarrow>
          ether_type = ETH_P_IPV6 \<and> ether_len + 40 < length packet
          \<and> packet ! (ether_len + 6) = IPPROTO_ICMPV6 \<and> packet ! (ether_len + 40) = ICMP6_TIME_EXCEEDED)"

text \<open>The error a drop reason is reported with, by protocol.\<close>

definition icmp_reply_for_drop ::
  "string \<Rightarrow> byte list \<Rightarrow> route_drop_reason \<Rightarrow> int option \<Rightarrow> packet_action option" where
  "icmp_reply_for_drop source packet reason priority =
     Option.bind (ok (ethernet_payload_type packet)) (\<lambda>(ether_type, _).
     Option.bind
       (if ether_type = ETH_P_IP then
          (case reason of
             DropUnknownIpv4Destination _ \<Rightarrow>
               ok (ipv4_icmp_error_packet packet ICMP_DEST_UNREACH ICMP_NET_UNKNOWN None)
           | DropUnreachableOwner _ \<Rightarrow>
               ok (ipv4_icmp_error_packet packet ICMP_DEST_UNREACH ICMP_NET_UNREACH None)
           | DropForwardingDisabled \<Rightarrow>
               ok (ipv4_icmp_error_packet packet ICMP_DEST_UNREACH ICMP_NET_ANO None)
           | DropDirectOnly \<Rightarrow>
               ok (ipv4_icmp_error_packet packet ICMP_DEST_UNREACH ICMP_NET_ANO None)
           | DropTtlExpired \<Rightarrow>
               if is_ipv4_time_exceeded packet then None
               else ok (ipv4_icmp_error_packet packet ICMP_TIME_EXCEEDED ICMP_EXC_TTL None)
           | _ \<Rightarrow> None)
        else if ether_type = ETH_P_IPV6 then
          (case reason of
             DropUnknownIpv6Destination _ \<Rightarrow>
               ok (ipv6_icmp_error_packet packet ICMP6_DST_UNREACH ICMP6_DST_UNREACH_ADDR None)
           | DropUnreachableOwner _ \<Rightarrow>
               ok (ipv6_icmp_error_packet packet ICMP6_DST_UNREACH ICMP6_DST_UNREACH_NOROUTE None)
           | DropForwardingDisabled \<Rightarrow>
               ok (ipv6_icmp_error_packet packet ICMP6_DST_UNREACH ICMP6_DST_UNREACH_ADMIN None)
           | DropDirectOnly \<Rightarrow>
               ok (ipv6_icmp_error_packet packet ICMP6_DST_UNREACH ICMP6_DST_UNREACH_ADMIN None)
           | DropTtlExpired \<Rightarrow>
               if is_ipv6_time_exceeded packet then None
               else ok (ipv6_icmp_error_packet packet ICMP6_TIME_EXCEEDED ICMP6_TIME_EXCEED_TRANSIT None)
           | _ \<Rightarrow> None)
        else None)
       (\<lambda>reply. Some (ActReply source reply priority)))"

definition route_packet_action ::
  "network_state \<Rightarrow> string \<Rightarrow> byte list \<Rightarrow> route_config \<Rightarrow> routed_packet_action \<times> network_state" where
  "route_packet_action s source packet config =
     (case (if rc_routing_mode config = Router then address_resolution_action s source packet else None) of
        Some routed \<Rightarrow> (routed, s)
      | None \<Rightarrow>
          (case route_packet_mut s source packet config of (outcome, routed_packet, s') \<Rightarrow>
             (let action =
                (case ro_decision outcome of
                   RouteSend owner via \<Rightarrow> send_packet_action s' source owner via routed_packet config
                 | RouteReply target \<Rightarrow> ActReply target routed_packet None
                 | RouteBroadcast \<Rightarrow> ActBroadcast routed_packet
                 | RouteDeliverLocal \<Rightarrow> ActDeliverLocal routed_packet
                 | RouteDrop reason \<Rightarrow>
                     (let priority = (if reason = DropDirectOnly
                                      then inherited_packet_priority routed_packet config else None)
                      in case icmp_reply_for_drop source routed_packet reason priority of
                           Some action \<Rightarrow> action
                         | None \<Rightarrow> ActDrop reason))
              in (\<lparr>rp_outcome = outcome, rp_action = action\<rparr>, s'))))"

end
