(* ===== verification/Packet_Props.thy ===== *)
theory Packet_Props
  imports Packet
begin

text \<open>
  What the packet rewriting guarantees: TTL handling keeps the header checksum valid and touches
  nothing else, ICMP errors are well formed, fragments reassemble to the payload, and MSS clamping
  changes the option and the checksum only.
\<close>

section \<open>Editing a buffer\<close>

lemma payload_type_cases:
  assumes "ethernet_payload_type p = Inr (et, el)"
  shows "el = 14 \<or> el = 18" "el \<le> length p" "even el"
  using assms by (auto simp: ethernet_payload_type_def packet_consts Let_def split: if_splits)

lemma subslice_copy_at:
  assumes "i \<le> k" "k + length bs \<le> j" "j \<le> length p"
  shows "subslice i j (copy_at k bs p) = copy_at (k - i) bs (subslice i j p)"
proof (rule nth_equalityI)
  have l: "length (subslice i j p) = j - i" using assms by simp
  have r: "k - i + length bs \<le> length (subslice i j p)" using assms l by linarith
  show "length (subslice i j (copy_at k bs p)) = length (copy_at (k - i) bs (subslice i j p))"
    using assms l r by simp
  fix x assume "x < length (subslice i j (copy_at k bs p))"
  then have x: "x < j - i" by simp
  then have "subslice i j (copy_at k bs p) ! x = copy_at k bs p ! (i + x)"
    using assms by (simp add: nth_subslice)
  moreover have "copy_at (k - i) bs (subslice i j p) ! x
      = (if k - i \<le> x \<and> x < k - i + length bs then bs ! (x - (k - i)) else p ! (i + x))"
    using nth_copy_at [OF r, of x] x l assms by (simp add: nth_subslice)
  ultimately show "subslice i j (copy_at k bs p) ! x = copy_at (k - i) bs (subslice i j p) ! x"
    using nth_copy_at [of k bs p "i + x"] assms x by (auto simp: add.commute)
qed

lemma update_as_copy:
  assumes "i + 1 < length p" "b = p ! (i + 1)"
  shows "p[i := a] = copy_at i [a, b] p"
  using assms by (intro nth_equalityI) (auto simp: nth_list_update nth_copy_at nth_Cons' less_Suc_eq_le le_Suc_eq)

lemma copy_word_self:
  assumes "i + 2 \<le> length p"
  shows "copy_at i (be16_bytes (word_at p i)) p = p"
proof (rule nth_equalityI)
  show "length (copy_at i (be16_bytes (word_at p i)) p) = length p" using assms by simp
next
  fix k assume "k < length (copy_at i (be16_bytes (word_at p i)) p)"
  then have k: "k < length p" using assms by simp
  show "copy_at i (be16_bytes (word_at p i)) p ! k = p ! k"
    using assms k by (cases "k = i"; cases "k = i + 1") (auto simp: nth_copy_at)
qed

lemma word_at_copy:
  assumes "i + 2 \<le> length p"
  shows "word_at (copy_at i (be16_bytes w) p) i = w"
  using assms be16_bytes_inverse [of w] by (simp add: nth_copy_at)

lemma word_at_copy_other:
  assumes "i + 2 \<le> length p" "k + 2 \<le> length p" "k + 2 \<le> i \<or> i + 2 \<le> k"
  shows "word_at (copy_at i (be16_bytes w) p) k = word_at p k"
  using nth_copy_at_outside [of i "be16_bytes w" p k] nth_copy_at_outside [of i "be16_bytes w" p "k + 1"] assms
  by auto

lemma copy_copy_same:
  assumes "i + length a \<le> length p" "length a = length b"
  shows "copy_at i b (copy_at i a p) = copy_at i b p"
  using assms by (intro nth_equalityI) (auto simp: nth_copy_at)

lemma copy_copy_swap:
  assumes "i + length a \<le> length p" "k + length b \<le> length p" "i + length a \<le> k \<or> k + length b \<le> i"
  shows "copy_at i a (copy_at k b p) = copy_at k b (copy_at i a p)"
  using assms by (intro nth_equalityI) (auto simp: nth_copy_at)

text \<open>The sum of data as a function of two of its aligned words.\<close>

lemma word_sum_two:
  assumes "even i" "even k" "i + 2 \<le> length d" "k + 2 \<le> length d" "i \<noteq> k"
  shows "\<exists>s. \<forall>v w. word_sum (copy_at k (be16_bytes w) (copy_at i (be16_bytes v) d)) = s + unat w + unat v"
proof -
  let ?z = "\<lambda>v w. copy_at k (be16_bytes w) (copy_at i (be16_bytes v) d)"
  have apart: "i + 2 \<le> k \<or> k + 2 \<le> i" using assms(1,2,5) by presburger
  have one: "word_sum (?z v w) = word_sum (?z v 0) + unat w" for v w
    using word_sum_copy_be16 [of k "?z v 0" w] word_at_copy [of k "copy_at i (be16_bytes v) d" 0] assms
    by (simp add: copy_copy_same)
  have two: "word_sum (?z v 0) = word_sum (?z 0 0) + unat v" for v
  proof -
    have "copy_at i (be16_bytes v) (?z 0 0) = ?z v 0"
      using assms(3,4) apart by (simp add: copy_copy_swap [of i] copy_copy_same)
    moreover have "word_at (?z 0 0) i = 0"
      using assms(3,4) apart word_at_copy_other [of k "copy_at i (be16_bytes 0) d" i 0]
        word_at_copy [of i d 0] by auto
    ultimately show ?thesis using word_sum_copy_be16 [of i "?z 0 0" v] assms(1,3,4) by simp
  qed
  show ?thesis
  proof (intro exI allI)
    fix v w
    show "word_sum (?z v w) = word_sum (?z 0 0) + unat w + unat v" using one [where v = v and w = w] two [where v = v] by simp
  qed
qed

lemma checksum_replaced:
  assumes d: "even i" "even k" "i + 2 \<le> length d" "k + 2 \<le> length d" "i \<noteq> k" "length d \<le> 65536"
    and ok: "checksum_ok d" and new: "new \<noteq> 0"
    and step: "\<And>s. 65535 dvd s + unat (word_at d k) + unat (word_at d i) \<Longrightarrow> 65535 dvd s + unat c + unat new"
  shows "checksum_ok (copy_at k (be16_bytes c) (copy_at i (be16_bytes new) d))"
proof -
  obtain s where s: "word_sum (copy_at k (be16_bytes w) (copy_at i (be16_bytes v) d)) = s + unat w + unat v" for v w
    using word_sum_two [OF d(1-5)] by blast
  have "copy_at k (be16_bytes (word_at d k)) (copy_at i (be16_bytes (word_at d i)) d) = d"
    using d(3,4) by (simp only: copy_word_self)
  then have "word_sum d = s + unat (word_at d k) + unat (word_at d i)" using s by metis
  with ok d(6) have "65535 dvd s + unat c + unat new" by (intro step) (simp add: checksum_ok_iff)
  moreover have "0 < unat new" using new by (simp add: unat_gt_0)
  ultimately show ?thesis using d by (simp add: checksum_ok_iff s)
qed

section \<open>TTL\<close>

lemma byte_minus_one: "1 < ttl \<Longrightarrow> unat (ttl - 1 :: byte) = unat ttl - 1"
  by (rule unat_minus_one) auto

lemma ipv4_ttl_as_copies:
  assumes "el + 20 \<le> length p" "1 < p ! (el + 8)"
  defines "new \<equiv> be16 (p ! (el + 8) - 1) (p ! (el + 9))"
  shows "decrement_ipv4_ttl p el = Inr (Decremented,
    copy_at (el + 10) (be16_bytes (incremental_checksum_update (word_at p (el + 10)) (word_at p (el + 8)) new))
      (copy_at (el + 8) (be16_bytes new) p))"
proof -
  have u: "p[el + 8 := p ! (el + 8) - 1] = copy_at (el + 8) (be16_bytes new) p"
    using assms(1) by (simp add: update_as_copy new_def add.commute)
  have w: "word_at (copy_at (el + 8) (be16_bytes new) p) (el + 10) = word_at p (el + 10)"
    using assms(1) by (intro word_at_copy_other) auto
  have "\<not> length p < el + 20" "\<not> p ! (el + 8) \<le> 1" using assms(1,2) by auto
  then show ?thesis using u w
    by (simp add: decrement_ipv4_ttl_def Let_def new_def add.commute add.left_commute numeral_eq_Suc)
qed

lemma decrement_ipv4:
  assumes "decrement_ipv4_ttl p el = Inr (r, q)" "even el"
  shows "r = Decremented \<and> length q = length p \<and> el + 20 \<le> length p \<and> 1 < p ! (el + 8)
    \<and> unat (q ! (el + 8)) = unat (p ! (el + 8)) - 1
    \<and> (\<forall>i < length p. i \<notin> {el + 8, el + 10, el + 11} \<longrightarrow> q ! i = p ! i)
    \<and> (\<forall>n. 20 \<le> n \<and> n \<le> 65536 \<and> el + n \<le> length p \<and> checksum_ok (subslice el (el + n) p)
         \<longrightarrow> checksum_ok (subslice el (el + n) q))"
proof -
  from assms(1) have len: "el + 20 \<le> length p" and ttl: "1 < p ! (el + 8)" and r: "r = Decremented"
    by (auto simp: decrement_ipv4_ttl_def Let_def split: if_splits)
  define new where "new = be16 (p ! (el + 8) - 1) (p ! (el + 9))"
  define c where "c = incremental_checksum_update (word_at p (el + 10)) (word_at p (el + 8)) new"
  have q: "q = copy_at (el + 10) (be16_bytes c) (copy_at (el + 8) (be16_bytes new) p)"
    using assms(1) ipv4_ttl_as_copies [OF len ttl] by (simp add: c_def new_def)
  have eight: "q ! (el + 8) = p ! (el + 8) - 1" using len by (simp add: q nth_copy_at new_def)
  have other: "q ! i = p ! i" if "i < length p" "i \<notin> {el + 8, el + 10, el + 11}" for i
  proof (cases "i = el + 9")
    case True
    then show ?thesis using len by (simp add: q nth_copy_at new_def)
  next
    case False
    then have "(i < el + 8 \<or> el + 10 \<le> i) \<and> (i < el + 10 \<or> el + 12 \<le> i)" using that(2) by auto
    then show ?thesis using len that(1) by (auto simp: q nth_copy_at)
  qed
  have ok: "checksum_ok (subslice el (el + n) q)"
    if n: "20 \<le> n" "n \<le> 65536" "el + n \<le> length p" "checksum_ok (subslice el (el + n) p)" for n
  proof -
    let ?d = "subslice el (el + n) p"
    have l: "length ?d = n" using n(3) by simp
    have words: "word_at ?d 8 = word_at p (el + 8)" "word_at ?d 10 = word_at p (el + 10)"
      using n(1,3) by (simp_all add: nth_subslice add.commute)
    have "subslice el (el + n) q = copy_at 10 (be16_bytes c) (copy_at 8 (be16_bytes new) ?d)"
      using n(1,3) by (simp add: q subslice_copy_at)
    moreover have "checksum_ok (copy_at 10 (be16_bytes c) (copy_at 8 (be16_bytes new) ?d))"
    proof (rule checksum_replaced)
      show "new \<noteq> 0"
      proof
        assume "new = 0"
        then have "unat (p ! (el + 8) - 1) = 0" by (simp add: new_def unat_eq_0 [symmetric] unat_be16 del: unat_eq_0)
        with ttl byte_minus_one [OF ttl] show False by (simp add: word_less_nat_alt)
      qed
      show "65535 dvd s + unat c + unat new"
        if "65535 dvd s + unat (word_at ?d 10) + unat (word_at ?d 8)" for s
        unfolding c_def by (rule incremental_sum) (use that words in simp)
    qed (use n l in simp_all)
    ultimately show ?thesis by simp
  qed
  show ?thesis using len ttl r eight other ok byte_minus_one [OF ttl] by (simp add: q)
qed

lemma decrement_ipv6:
  assumes "decrement_ipv6_hop_limit p el = Inr (r, q)"
  shows "r = Decremented \<and> length q = length p \<and> el + 40 \<le> length p \<and> 1 < p ! (el + 7)
    \<and> unat (q ! (el + 7)) = unat (p ! (el + 7)) - 1 \<and> (\<forall>i < length p. i \<noteq> el + 7 \<longrightarrow> q ! i = p ! i)"
  using assms byte_minus_one [of "p ! (el + 7)"]
  by (auto simp: decrement_ipv6_hop_limit_def Let_def not_less not_le split: if_splits)

text \<open>
  Lowering the TTL or hop limit succeeds only when it is above one, lowers exactly that byte by
  one, changes nothing else but the two bytes of an IPv4 header checksum, and keeps a correct
  header checksum correct for every header length; other packets are returned as they are.
\<close>

theorem decrement_ttl_correct:
  assumes "decrement_ttl p = Inr (r, q)"
  shows "\<exists>et el. ethernet_payload_type p = Inr (et, el) \<and> length q = length p \<and>
    (if et = ETH_P_IP then
       r = Decremented \<and> 1 < p ! (el + 8) \<and> unat (q ! (el + 8)) = unat (p ! (el + 8)) - 1
       \<and> (\<forall>i < length p. i \<notin> {el + 8, el + 10, el + 11} \<longrightarrow> q ! i = p ! i)
       \<and> (\<forall>n. 20 \<le> n \<and> n \<le> 65536 \<and> el + n \<le> length p \<and> checksum_ok (subslice el (el + n) p)
            \<longrightarrow> checksum_ok (subslice el (el + n) q))
     else if et = ETH_P_IPV6 then
       r = Decremented \<and> 1 < p ! (el + 7) \<and> unat (q ! (el + 7)) = unat (p ! (el + 7)) - 1
       \<and> (\<forall>i < length p. i \<noteq> el + 7 \<longrightarrow> q ! i = p ! i)
     else r = NotApplicable \<and> q = p)"
proof -
  from assms obtain et el where et: "ethernet_payload_type p = Inr (et, el)"
    by (auto simp: decrement_ttl_def result_Inr)
  show ?thesis
  proof (cases "et = ETH_P_IP")
    case True
    with assms et have "decrement_ipv4_ttl p el = Inr (r, q)" by (simp add: decrement_ttl_def)
    from decrement_ipv4 [OF this payload_type_cases(3) [OF et]] True et show ?thesis by auto
  next
    case not4: False
    show ?thesis
    proof (cases "et = ETH_P_IPV6")
      case True
      with assms et not4 have "decrement_ipv6_hop_limit p el = Inr (r, q)" by (simp add: decrement_ttl_def)
      from decrement_ipv6 [OF this] True not4 et show ?thesis by auto
    next
      case False
      with assms et not4 show ?thesis by (auto simp: decrement_ttl_def)
    qed
  qed
qed

text \<open>A UDP packet from 10.0.0.1 to 10.0.0.2 with TTL 64.\<close>

definition demo_udp :: "byte list" where
  "demo_udp = [2, 0, 0, 0, 0, 1, 2, 0, 0, 0, 0, 2, 8, 0, 69, 0, 0, 28, 0, 0, 0, 0, 64, 17, 102, 207,
     10, 0, 0, 1, 10, 0, 0, 2, 0, 0, 0, 0, 0, 0, 0, 0]"

lemma demo_udp_type: "ethernet_payload_type demo_udp = Inr (ETH_P_IP, 14)"
  by code_simp

lemma demo_udp_header: "subslice 14 34 demo_udp = [69, 0, 0, 28, 0, 0, 0, 0, 64, 17, 102, 207, 10, 0, 0, 1, 10, 0, 0, 2]"
  by (simp add: demo_udp_def subslice_def)

lemma demo_udp_ok: "checksum_ok (subslice 14 34 demo_udp)"
  unfolding demo_udp_header by (subst checksum_ok_iff) simp_all

lemma demo_udp_decrement: "\<exists>q. decrement_ttl demo_udp = Inr (Decremented, q)"
proof -
  have "14 + 20 \<le> length demo_udp" "1 < demo_udp ! (14 + 8)" by (simp_all add: demo_udp_def)
  from ipv4_ttl_as_copies [OF this] show ?thesis by (simp add: decrement_ttl_def demo_udp_type)
qed

theorem decrement_ttl_correct_witness:
  "\<exists>q. decrement_ttl demo_udp = Inr (Decremented, q) \<and> q ! 22 = 63 \<and> checksum_ok (subslice 14 34 q)"
proof -
  obtain q where q: "decrement_ttl demo_udp = Inr (Decremented, q)" using demo_udp_decrement by blast
  have b: "demo_udp ! 22 = 64" "length demo_udp = 42" by (simp_all add: demo_udp_def)
  from decrement_ttl_correct [OF q] demo_udp_ok b
  have "unat (q ! 22) = 63" "checksum_ok (subslice 14 (14 + 20) q)"
    by (auto simp: demo_udp_type)
  moreover from this(1) have "q ! 22 = 63" by (intro byte_eqI) simp
  ultimately show ?thesis using q by auto
qed

section \<open>ICMP errors\<close>

lemma twelve_more:
  assumes "12 \<le> length p"
  obtains a b c d e f g h i j k l r where "p = a # b # c # d # e # f # g # h # i # j # k # l # r"
proof -
  have "Suc (Suc (Suc (Suc (Suc (Suc (Suc (Suc (Suc (Suc (Suc (Suc 0))))))))))) \<le> length p"
    using assms by simp
  then show ?thesis
    unfolding Suc_le_length_iff by (elim exE conjE) (rule that, simp only:)
qed

lemma swap_addresses:
  assumes "12 \<le> length p"
  shows "swap_ethernet_addresses p = subslice 6 12 p @ take 6 p @ drop 12 p"
proof -
  obtain a b c d e f g h i j k l r where p: "p = a # b # c # d # e # f # g # h # i # j # k # l # r"
    using assms by (rule twelve_more)
  have "[0..<6] = [0, 1, 2, 3, 4, 5 :: nat]" by (simp add: upt_rec)
  then show ?thesis by (simp add: p swap_ethernet_addresses_def subslice_def)
qed

lemma swapped_prefix:
  assumes "12 \<le> el" "el \<le> length p"
  shows "swap_ethernet_addresses (take el p) = subslice 6 12 p @ take 6 p @ subslice 12 el p"
proof -
  have "subslice 6 12 (take el p) = subslice 6 12 p" "drop 12 (take el p) = subslice 12 el p"
    using assms by (simp_all add: subslice_def drop_take min_def)
  then show ?thesis using assms by (simp add: swap_addresses min_def)
qed

lemma subslice_copied:
  assumes "i + length bs \<le> length p"
  shows "subslice i (i + length bs) (copy_at i bs p) = bs"
  using assms by (simp add: subslice_def copy_at_def)

lemma subslice_copied_apart:
  assumes "k + length bs \<le> length p" "j \<le> length p" "j \<le> k \<or> k + length bs \<le> i"
  shows "subslice i j (copy_at k bs p) = subslice i j p"
  using assms by (intro nth_equalityI) (auto simp: nth_subslice nth_copy_at)

lemma header_fields:
  assumes "length s = 4" "length d = 4"
  shows "length (icmp_ipv4_header n s d) = 20" "checksum_ok (icmp_ipv4_header n s d)"
    "word_at (icmp_ipv4_header n s d) 2 = of_nat n" "icmp_ipv4_header n s d ! 0 = 0x45"
    "icmp_ipv4_header n s d ! 8 = 255" "icmp_ipv4_header n s d ! 9 = IPPROTO_ICMP"
    "subslice 12 16 (icmp_ipv4_header n s d) = s" "subslice 16 20 (icmp_ipv4_header n s d) = d"
proof -
  define h0 where "h0 = (copy_at 2 (be16_bytes (of_nat n)) ((replicate 20 0)[0 := 0x45]))[8 := 255, 9 := IPPROTO_ICMP]"
  define h where "h = copy_at 16 d (copy_at 12 s h0)"
  have l0: "length h0 = 20" by (simp add: h0_def)
  have l: "length h = 20" using assms by (simp add: h_def l0)
  have e: "icmp_ipv4_header n s d = copy_at 10 (be16_bytes (internet_checksum h 0xffff)) h"
    by (simp add: icmp_ipv4_header_def h_def h0_def Let_def)
  have h: "h ! i = h0 ! i" if "i < 12" for i using that assms l0 by (simp add: h_def nth_copy_at)
  have h0: "h0 ! 10 = 0" "h0 ! 11 = 0" "h0 ! 0 = 0x45" "h0 ! 8 = 255" "h0 ! 9 = IPPROTO_ICMP"
    "word_at h0 2 = of_nat n"
    using be16_bytes_inverse [of "of_nat n"] by (simp_all add: h0_def nth_copy_at nth_list_update)
  show "checksum_ok (icmp_ipv4_header n s d)" unfolding e
    by (rule checksum_stored) (simp_all add: l h h0)
  show "length (icmp_ipv4_header n s d) = 20" using l by (simp add: e)
  show "word_at (icmp_ipv4_header n s d) 2 = of_nat n" "icmp_ipv4_header n s d ! 0 = 0x45"
    "icmp_ipv4_header n s d ! 8 = 255" "icmp_ipv4_header n s d ! 9 = IPPROTO_ICMP"
    using l h h0 by (simp_all add: e nth_copy_at)
  have "subslice 16 20 h = d"
    using subslice_copied [of 16 d "copy_at 12 s h0"] l0 assms by (simp add: h_def)
  then show "subslice 16 20 (icmp_ipv4_header n s d) = d"
    unfolding e by (subst subslice_copied_apart) (simp_all add: l)
  have "subslice 12 16 h = subslice 12 16 (copy_at 12 s h0)"
    unfolding h_def by (rule subslice_copied_apart) (simp_all add: l0 assms)
  also have "\<dots> = s" using subslice_copied [of 12 s h0] l0 assms by simp
  finally show "subslice 12 16 (icmp_ipv4_header n s d) = s"
    unfolding e by (subst subslice_copied_apart) (simp_all add: l)
qed

text \<open>Validity as a receiver that follows RFC 1071 checks it.\<close>

definition rfc_valid :: "byte list \<Rightarrow> bool" where
  "rfc_valid data \<longleftrightarrow> 0 < rfc_sum data \<and> 65535 dvd rfc_sum data"

lemma rfc_valid_iff:
  assumes "checksum_ok data" "length data \<le> 65536"
  shows "rfc_valid data \<longleftrightarrow> even (length data) \<or> last data = 0"
proof (cases "even (length data)")
  case True
  with assms show ?thesis by (simp add: rfc_valid_def checksum_ok_iff word_sum_even)
next
  case False
  have ok: "0 < word_sum data" "65535 dvd word_sum data" using assms by (simp_all add: checksum_ok_iff)
  have "65535 dvd word_sum data + 255 * unat (last data) \<longleftrightarrow> 65535 dvd 255 * unat (last data)"
    using ok(2) by (simp add: dvd_add_right_iff)
  also have "\<dots> \<longleftrightarrow> unat (last data) = 0"
  proof
    assume "65535 dvd 255 * unat (last data)"
    moreover have "255 * unat (last data) < 65535" using unat_byte_le [of "last data"] by linarith
    ultimately have "255 * unat (last data) = 0" by (meson dvd_imp_le neq0_conv not_less)
    then show "unat (last data) = 0" by simp
  qed simp
  finally show ?thesis using False ok(1) by (simp add: rfc_valid_def word_sum_odd unat_eq_0)
qed

lemma message_fields4:
  "length (icmp_message t c m quoted) = 8 + length quoted" "drop 8 (icmp_message t c m quoted) = quoted"
  "icmp_message t c m quoted ! 0 = t" "icmp_message t c m quoted ! 1 = c"
  "length quoted \<le> 1000 \<Longrightarrow> checksum_ok (icmp_message t c m quoted)"
proof -
  define i0 where "i0 = (if t = ICMP_DEST_UNREACH \<and> c = ICMP_FRAG_NEEDED
    then copy_at 6 (be16_bytes (of_nat m)) ((replicate 8 0)[0 := t, 1 := c])
    else (replicate 8 0)[0 := t, 1 := c])"
  have l0: "length i0 = 8" by (simp add: i0_def)
  have n: "i0 ! 0 = t" "i0 ! 1 = c" "i0 ! 2 = 0" "i0 ! 3 = 0"
    by (simp_all add: i0_def nth_copy_at)
  have e: "icmp_message t c m quoted
      = copy_at 2 (be16_bytes (internet_checksum (i0 @ quoted) 0xffff)) (i0 @ quoted)"
    by (simp add: icmp_message_def i0_def ICMP_SIZE_def Let_def)
  show "length (icmp_message t c m quoted) = 8 + length quoted" by (simp add: e l0)
  show "drop 8 (icmp_message t c m quoted) = quoted" by (simp add: e l0 copy_at_def)
  show "icmp_message t c m quoted ! 0 = t" "icmp_message t c m quoted ! 1 = c"
    using n l0 by (simp_all add: e nth_copy_at nth_append)
  show "checksum_ok (icmp_message t c m quoted)" if "length quoted \<le> 1000"
    unfolding e by (rule checksum_stored) (use that n l0 in \<open>simp_all add: nth_append\<close>)
qed

lemma length_address_at:
  "k + n \<le> length p \<Longrightarrow> length (subslice k (k + n) p) = n"
  by simp

lemma payload_type_prefix:
  assumes "ethernet_payload_type p = Inr (et, el)"
  shows "12 \<le> el"
  using payload_type_cases(1) [OF assms] by auto

lemma icmp_ipv4_result:
  assumes "ipv4_icmp_error_packet p t c rs = Inr q"
  shows "\<exists>el. ethernet_payload_type p = Inr (ETH_P_IP, el) \<and> el + 20 \<le> length p
    \<and> q = (subslice 6 12 p @ take 6 p @ subslice 12 el p)
        @ icmp_ipv4_header (28 + min (length p - el) 548)
            (case rs of Some a \<Rightarrow> a | None \<Rightarrow> subslice (el + 16) (el + 20) p) (subslice (el + 12) (el + 16) p)
        @ icmp_message t c (length p - el) (subslice el (el + min (length p - el) 548) p)"
proof -
  from assms obtain et el where et: "ethernet_payload_type p = Inr (et, el)"
    by (auto simp: ipv4_icmp_error_packet_def result_Inr)
  with assms have g: "et = ETH_P_IP" "el + 20 \<le> length p"
    by (auto simp: ipv4_icmp_error_packet_def Let_def split: if_splits)
  have s: "swap_ethernet_addresses (take el p) = subslice 6 12 p @ take 6 p @ subslice 12 el p"
    using payload_type_prefix [OF et] payload_type_cases(2) [OF et] by (rule swapped_prefix)
  from assms g et s show ?thesis
    by (auto simp: ipv4_icmp_error_packet_def Let_def packet_consts)
qed

text \<open>
  An ICMP error for an IPv4 packet goes back to the Ethernet and IP source of the packet, from
  the given address or the packet's destination, with at most 576 bytes of IP data, a correct
  header checksum and length, and quotes a prefix of the offending packet; but its ICMP checksum
  is the one of RFC 1071 only if the quoted part has an even length or ends in a zero byte,
  because the code adds a trailing odd byte as a low instead of a high half.
\<close>

theorem ipv4_icmp_error_well_formed:
  assumes "ipv4_icmp_error_packet p t c rs = Inr q" "\<forall>a. rs = Some a \<longrightarrow> length a = 4"
  shows "\<exists>el header icmp. ethernet_payload_type p = Inr (ETH_P_IP, el)
    \<and> q = subslice 6 12 p @ take 6 p @ subslice 12 el p @ header @ icmp
    \<and> length header = 20 \<and> checksum_ok header \<and> rfc_valid header
    \<and> unat (word_at header 2) = 20 + length icmp \<and> 20 + length icmp \<le> 576
    \<and> subslice 12 16 header = (case rs of Some a \<Rightarrow> a | None \<Rightarrow> subslice (el + 16) (el + 20) p)
    \<and> subslice 16 20 header = subslice (el + 12) (el + 16) p
    \<and> icmp ! 0 = t \<and> icmp ! 1 = c
    \<and> drop 8 icmp = take 548 (drop el p)
    \<and> (rfc_valid icmp \<longleftrightarrow> even (length icmp) \<or> last icmp = 0)"
proof -
  obtain el where et: "ethernet_payload_type p = Inr (ETH_P_IP, el)" and len: "el + 20 \<le> length p"
    and q: "q = (subslice 6 12 p @ take 6 p @ subslice 12 el p)
        @ icmp_ipv4_header (28 + min (length p - el) 548)
            (case rs of Some a \<Rightarrow> a | None \<Rightarrow> subslice (el + 16) (el + 20) p) (subslice (el + 12) (el + 16) p)
        @ icmp_message t c (length p - el) (subslice el (el + min (length p - el) 548) p)"
    using icmp_ipv4_result [OF assms(1)] by blast
  let ?src = "case rs of Some a \<Rightarrow> a | None \<Rightarrow> subslice (el + 16) (el + 20) p"
  let ?dst = "subslice (el + 12) (el + 16) p"
  let ?quoted = "subslice el (el + min (length p - el) 548) p"
  define h where "h = icmp_ipv4_header (28 + min (length p - el) 548) ?src ?dst"
  define m where "m = icmp_message t c (length p - el) ?quoted"
  have addr: "length ?src = 4" "length ?dst = 4" using assms len by (auto split: option.split)
  have lq: "length ?quoted = min (length p - el) 548" by simp
  note hf = header_fields [OF addr, of "28 + min (length p - el) 548", folded h_def]
  note mf = message_fields4 [where t = t and c = c and m = "length p - el" and quoted = ?quoted, folded m_def]
  have lm: "length m = 8 + min (length p - el) 548" using mf(1) lq by simp
  have quoted: "?quoted = take 548 (drop el p)" by (simp add: subslice_def min_def)
  have word: "unat (word_at h 2) = 28 + min (length p - el) 548"
    unfolding hf(3) by (rule unat_of_nat_u16) simp
  have "rfc_valid m \<longleftrightarrow> even (length m) \<or> last m = 0"
    by (rule rfc_valid_iff) (use mf(5) lq lm in simp_all)
  moreover have "rfc_valid h" using rfc_valid_iff [OF hf(2)] hf(1) by simp
  moreover have "q = subslice 6 12 p @ take 6 p @ subslice 12 el p @ h @ m"
    by (simp add: q h_def m_def)
  moreover have "drop 8 m = take 548 (drop el p)" using mf(2) quoted by simp
  moreover have "unat (word_at h 2) = 20 + length m" "20 + length m \<le> 576" using word lm by simp_all
  ultimately show ?thesis using et hf(1,2,7,8) mf(3,4) by blast
qed

text \<open>A time-exceeded error for a packet with a trailing odd byte has a wrong ICMP checksum.\<close>

lemma demo_odd_type: "ethernet_payload_type (demo_udp @ [1]) = Inr (ETH_P_IP, 14)"
  by code_simp

theorem ipv4_icmp_error_well_formed_witness:
  "\<exists>q. ipv4_icmp_error_packet (demo_udp @ [1]) ICMP_TIME_EXCEEDED ICMP_EXC_TTL None = Inr q
     \<and> rfc_valid (subslice 14 34 q) \<and> \<not> rfc_valid (drop 34 q)"
proof -
  let ?p = "demo_udp @ [1]"
  have l42: "length demo_udp = 42" by (simp add: demo_udp_def)
  then have lp: "length ?p = 43" by simp
  obtain q where q: "ipv4_icmp_error_packet ?p ICMP_TIME_EXCEEDED ICMP_EXC_TTL None = Inr q"
    by (simp add: ipv4_icmp_error_packet_def demo_odd_type l42 Let_def)
  from ipv4_icmp_error_well_formed [OF this] obtain header icmp where
    e: "q = subslice 6 12 ?p @ take 6 ?p @ subslice 12 14 ?p @ header @ icmp" "length header = 20"
      "rfc_valid header" "drop 8 icmp = take 548 (drop 14 ?p)" "rfc_valid icmp \<longleftrightarrow> even (length icmp) \<or> last icmp = 0"
    by (auto simp: demo_odd_type)
  have d: "drop 8 icmp = drop 14 ?p" using e(4) lp by simp
  have "length icmp - 8 = 29" by (simp only: length_drop [symmetric] d) (simp add: l42)
  then have l: "length icmp = 37" by simp
  have "last icmp = last (drop 8 icmp)" using l by simp
  also have "\<dots> = 1" unfolding d using lp by simp
  finally have "\<not> rfc_valid icmp" using e(5) l by simp
  moreover have "drop 34 q = icmp" "subslice 14 34 q = header" using e(2) lp
    by (simp_all add: e(1) subslice_def)
  ultimately show ?thesis using q e(3) by metis
qed

lemma subslice_append_right: "subslice (length e + i) (length e + j) (e @ r) = subslice i j r"
  by (simp add: subslice_def)

lemma subslice_append_left: "j \<le> length e \<Longrightarrow> subslice i j (e @ r) = subslice i j e"
  by (simp add: subslice_def)

lemma copy_at_append: "i + length bs \<le> length r \<Longrightarrow> copy_at (length e + i) bs (e @ r) = e @ copy_at i bs r"
  by (simp add: copy_at_def)

definition pseudo_header :: "ipv6_addr \<Rightarrow> ipv6_addr \<Rightarrow> byte \<Rightarrow> nat \<Rightarrow> byte list" where
  "pseudo_header s d next n = s @ d @ be32_bytes (of_nat n) @ [0, 0, 0, next]"

lemma payload_checksum_stored:
  assumes "length s = 16" "length d = 16" "length m \<le> 60000" "4 \<le> length m" "m ! 2 = 0" "m ! 3 = 0"
  shows "ipv6_payload_checksum s d next n
    (copy_at 2 (be16_bytes (ipv6_payload_checksum s d next n m)) m) = 0"
proof -
  let ?h = "pseudo_header s d next n"
  have l: "length ?h = 40" using assms by (simp add: pseudo_header_def)
  have c: "ipv6_payload_checksum s d next n x = internet_checksum (?h @ x) 0xffff" for x
    by (simp add: ipv6_payload_checksum_def pseudo_header_def)
  let ?w = "be16_bytes (internet_checksum (?h @ m) 0xffff)"
  have "checksum_ok (copy_at 42 ?w (?h @ m))"
    by (rule checksum_stored) (use assms l in \<open>simp_all add: nth_append\<close>)
  moreover have "copy_at 42 ?w (?h @ m) = ?h @ copy_at 2 ?w m"
    using copy_at_append [of 2 ?w m ?h] assms l by simp
  ultimately show ?thesis by (simp add: c checksum_ok_def)
qed

lemma header6_fields:
  assumes "length s = 16" "length d = 16"
  shows "length (icmpv6_header n s d) = 40" "word_at (icmpv6_header n s d) 4 = of_nat n"
    "icmpv6_header n s d ! 6 = IPPROTO_ICMPV6" "icmpv6_header n s d ! 7 = 255"
    "subslice 8 24 (icmpv6_header n s d) = s" "subslice 24 40 (icmpv6_header n s d) = d"
proof -
  define h0 where "h0 = (copy_at 4 (be16_bytes (of_nat n)) (copy_at 0 (be32_bytes 0x60000000) (replicate 40 0)))
    [6 := IPPROTO_ICMPV6, 7 := 255]"
  have l0: "length h0 = 40" by (simp add: h0_def)
  have e: "icmpv6_header n s d = copy_at 24 d (copy_at 8 s h0)"
    by (simp add: icmpv6_header_def h0_def Let_def)
  have h0: "h0 ! 6 = IPPROTO_ICMPV6" "h0 ! 7 = 255" "word_at h0 4 = of_nat n"
    using be16_bytes_inverse [of "of_nat n"] by (simp_all add: h0_def nth_copy_at nth_list_update)
  show "length (icmpv6_header n s d) = 40" using l0 assms by (simp add: e)
  show "word_at (icmpv6_header n s d) 4 = of_nat n" "icmpv6_header n s d ! 6 = IPPROTO_ICMPV6"
    "icmpv6_header n s d ! 7 = 255"
    using h0 l0 assms by (simp_all add: e nth_copy_at)
  show "subslice 24 40 (icmpv6_header n s d) = d"
    using subslice_copied [of 24 d "copy_at 8 s h0"] l0 assms by (simp add: e)
  have "subslice 8 24 (icmpv6_header n s d) = subslice 8 24 (copy_at 8 s h0)"
    unfolding e by (rule subslice_copied_apart) (simp_all add: l0 assms)
  also have "\<dots> = s" using subslice_copied [of 8 s h0] l0 assms by simp
  finally show "subslice 8 24 (icmpv6_header n s d) = s" .
qed

lemma message6_fields:
  assumes "length s = 16" "length d = 16" "length quoted \<le> 1000"
  shows "length (icmpv6_message t c m quoted s d) = 8 + length quoted"
    "drop 8 (icmpv6_message t c m quoted s d) = quoted"
    "icmpv6_message t c m quoted s d ! 0 = t" "icmpv6_message t c m quoted s d ! 1 = c"
    "ipv6_payload_checksum s d IPPROTO_ICMPV6 (8 + length quoted) (icmpv6_message t c m quoted s d) = 0"
proof -
  define i0 where "i0 = (if t = ICMP6_PACKET_TOO_BIG
    then copy_at 4 (be32_bytes (of_nat m)) ((replicate 8 0)[0 := t, 1 := c])
    else (replicate 8 0)[0 := t, 1 := c])"
  have l0: "length i0 = 8" by (simp add: i0_def)
  have n: "i0 ! 0 = t" "i0 ! 1 = c" "i0 ! 2 = 0" "i0 ! 3 = 0"
    by (simp_all add: i0_def nth_copy_at)
  have e: "icmpv6_message t c m quoted s d
      = copy_at 2 (be16_bytes (ipv6_payload_checksum s d IPPROTO_ICMPV6 (8 + length quoted) (i0 @ quoted)))
          (i0 @ quoted)"
    by (simp add: icmpv6_message_def i0_def ICMPV6_SIZE_def Let_def)
  show "length (icmpv6_message t c m quoted s d) = 8 + length quoted" by (simp add: e l0)
  show "drop 8 (icmpv6_message t c m quoted s d) = quoted" by (simp add: e l0 copy_at_def)
  show "icmpv6_message t c m quoted s d ! 0 = t" "icmpv6_message t c m quoted s d ! 1 = c"
    using n l0 by (simp_all add: e nth_copy_at nth_append)
  show "ipv6_payload_checksum s d IPPROTO_ICMPV6 (8 + length quoted) (icmpv6_message t c m quoted s d) = 0"
    unfolding e by (rule payload_checksum_stored) (use assms n l0 in \<open>simp_all add: nth_append\<close>)
qed

lemma icmp_ipv6_result:
  assumes "ipv6_icmp_error_packet p t c rs = Inr q"
  defines "src \<equiv> \<lambda>el. case rs of Some a \<Rightarrow> a | None \<Rightarrow> subslice (el + 24) (el + 40) p"
  shows "\<exists>el. ethernet_payload_type p = Inr (ETH_P_IPV6, el) \<and> el + 40 \<le> length p
    \<and> q = (subslice 6 12 p @ take 6 p @ subslice 12 el p)
        @ icmpv6_header (8 + min (length p - el) 528) (src el) (subslice (el + 8) (el + 24) p)
        @ icmpv6_message t c (length p - el) (subslice el (el + min (length p - el) 528) p)
            (src el) (subslice (el + 8) (el + 24) p)"
proof -
  from assms(1) obtain et el where et: "ethernet_payload_type p = Inr (et, el)"
    by (auto simp: ipv6_icmp_error_packet_def result_Inr)
  with assms(1) have g: "et = ETH_P_IPV6" "el + 40 \<le> length p"
    by (auto simp: ipv6_icmp_error_packet_def Let_def split: if_splits)
  have s: "swap_ethernet_addresses (take el p) = subslice 6 12 p @ take 6 p @ subslice 12 el p"
    using payload_type_prefix [OF et] payload_type_cases(2) [OF et] by (rule swapped_prefix)
  from assms(1) g et s show ?thesis
    by (auto simp: ipv6_icmp_error_packet_def Let_def packet_consts src_def)
qed

text \<open>
  An ICMPv6 error goes back to the Ethernet and IP source of the packet, from the given
  address or the packet's destination, quotes a prefix of the packet within 576 bytes, states its
  payload length, and passes the checksum verification the program itself applies to ICMPv6.
\<close>

theorem ipv6_icmp_error_verifies:
  assumes "ipv6_icmp_error_packet p t c rs = Inr q" "\<forall>a. rs = Some a \<longrightarrow> length a = 16"
  shows "\<exists>el icmp. ethernet_payload_type p = Inr (ETH_P_IPV6, el)
    \<and> take el q = subslice 6 12 p @ take 6 p @ subslice 12 el p
    \<and> drop (el + 40) q = icmp \<and> length q = el + 40 + length icmp
    \<and> unat (word_at q (el + 4)) = length icmp \<and> 40 + length icmp \<le> 576
    \<and> q ! (el + 6) = IPPROTO_ICMPV6
    \<and> subslice (el + 8) (el + 24) q = (case rs of Some a \<Rightarrow> a | None \<Rightarrow> subslice (el + 24) (el + 40) p)
    \<and> subslice (el + 24) (el + 40) q = subslice (el + 8) (el + 24) p
    \<and> icmp ! 0 = t \<and> icmp ! 1 = c \<and> drop 8 icmp = take 528 (drop el p)
    \<and> verify_ipv6_payload_checksum q el (length icmp) = 0"
proof -
  let ?src = "\<lambda>el. case rs of Some a \<Rightarrow> a | None \<Rightarrow> subslice (el + 24) (el + 40) p"
  obtain el where et: "ethernet_payload_type p = Inr (ETH_P_IPV6, el)" and len: "el + 40 \<le> length p"
    and q0: "q = (subslice 6 12 p @ take 6 p @ subslice 12 el p)
        @ icmpv6_header (8 + min (length p - el) 528) (?src el) (subslice (el + 8) (el + 24) p)
        @ icmpv6_message t c (length p - el) (subslice el (el + min (length p - el) 528) p)
            (?src el) (subslice (el + 8) (el + 24) p)"
    using icmp_ipv6_result [OF assms(1)] by blast
  let ?dst = "subslice (el + 8) (el + 24) p" and ?quoted = "subslice el (el + min (length p - el) 528) p"
  define e where "e = subslice 6 12 p @ take 6 p @ subslice 12 el p"
  define h where "h = icmpv6_header (8 + min (length p - el) 528) (?src el) ?dst"
  define m where "m = icmpv6_message t c (length p - el) ?quoted (?src el) ?dst"
  have addr: "length (?src el) = 16" "length ?dst = 16" using assms len by (auto split: option.split)
  have lq: "length ?quoted = min (length p - el) 528" "length ?quoted \<le> 1000" by simp_all
  note hf = header6_fields [OF addr, of "8 + min (length p - el) 528", folded h_def]
  note mf = message6_fields [OF addr lq(2), of t c "length p - el", folded m_def]
  have q: "q = e @ h @ m" using q0 by (simp add: e_def h_def m_def)
  have le: "length e = el" using payload_type_prefix [OF et] len by (simp add: e_def)
  have lm: "length m = 8 + min (length p - el) 528" using mf(1) lq by simp
  have at: "q ! (el + i) = h ! i" if "i < 40" for i using that hf(1) le by (simp add: q nth_append)
  have sub: "subslice (el + i) (el + j) q = subslice i j h" if "j \<le> 40" for i j
    using that hf(1) subslice_append_right [of e i j "h @ m"] le by (simp add: q subslice_append_left)
  have payload: "subslice (el + 40) (el + 40 + length m) q = m"
    using hf(1) le by (simp add: q subslice_def)
  have "q ! (el + 4) = h ! 4" "q ! (el + 4 + 1) = h ! (4 + 1)" using at [of 4] at [of 5] by (simp_all add: add.commute)
  then have "word_at q (el + 4) = of_nat (8 + min (length p - el) 528)" by (simp only: hf(2))
  moreover have "unat (of_nat (8 + min (length p - el) 528) :: u16) = length m"
    unfolding lm by (rule unat_of_nat_u16) simp
  ultimately have word: "unat (word_at q (el + 4)) = length m" by simp
  have "verify_ipv6_payload_checksum q el (length m)
      = ipv6_payload_checksum (?src el) ?dst IPPROTO_ICMPV6 (length m) m"
    using at [of 6] sub [of 24 8] sub [of 40 24] payload hf q le
    by (simp add: verify_ipv6_payload_checksum_def Let_def)
  also have "\<dots> = 0" using mf(5) mf(1) by simp
  finally have v: "verify_ipv6_payload_checksum q el (length m) = 0" .
  have "?quoted = take 528 (drop el p)" by (simp add: subslice_def min_def)
  then have quoted: "drop 8 m = take 528 (drop el p)" using mf(2) by simp
  have "take el q = e" using le by (simp add: q)
  then have "take el q = subslice 6 12 p @ take 6 p @ subslice 12 el p" unfolding e_def .
  moreover have "drop (el + 40) q = m" "length q = el + 40 + length m" using le hf(1) by (simp_all add: q)
  moreover have "40 + length m \<le> 576" by (simp add: lm)
  moreover have "q ! (el + 6) = IPPROTO_ICMPV6" using at [of 6] hf(3) by simp
  moreover have "subslice (el + 8) (el + 24) q = ?src el" "subslice (el + 24) (el + 40) q = ?dst"
    using sub [of 24 8] sub [of 40 24] hf(5,6) by simp_all
  ultimately show ?thesis using et word mf(3,4) quoted v by blast
qed

definition demo_udp6 :: "byte list" where
  "demo_udp6 = [2, 0, 0, 0, 0, 1, 2, 0, 0, 0, 0, 2, 134, 221] @ 96 # replicate 5 0 @ [17, 64]
     @ replicate 15 0 @ [1] @ replicate 15 0 @ [2]"

lemma demo_udp6_type: "ethernet_payload_type demo_udp6 = Inr (ETH_P_IPV6, 14)"
  by (simp add: ethernet_payload_type_def demo_udp6_def packet_consts be16_def
      ETH_P_IPV6_def ETH_P_8021Q_def)

theorem ipv6_icmp_error_verifies_witness:
  "\<exists>q. ipv6_icmp_error_packet demo_udp6 ICMP6_PACKET_TOO_BIG 0 None = Inr q
     \<and> verify_ipv6_payload_checksum q 14 48 = 0"
proof -
  have l: "length demo_udp6 = 54" by (simp add: demo_udp6_def)
  have "\<exists>q. ipv6_icmp_error_packet demo_udp6 ICMP6_PACKET_TOO_BIG 0 None = Inr q"
    using l by (simp add: ipv6_icmp_error_packet_def demo_udp6_type Let_def)
  then obtain q where q: "ipv6_icmp_error_packet demo_udp6 ICMP6_PACKET_TOO_BIG 0 None = Inr q" by blast
  have "\<forall>a. None = Some a \<longrightarrow> length a = 16" by simp
  from ipv6_icmp_error_verifies [OF q this] obtain el icmp where
    "ethernet_payload_type demo_udp6 = Inr (ETH_P_IPV6, el)"
    "drop 8 icmp = take 528 (drop el demo_udp6)" "verify_ipv6_payload_checksum q el (length icmp) = 0"
    by blast
  then have e: "drop 8 icmp = take 528 (drop 14 demo_udp6)" "verify_ipv6_payload_checksum q 14 (length icmp) = 0"
    by (simp_all add: demo_udp6_type)
  have "length icmp = 48" using arg_cong [OF e(1), of length] l by simp
  with q e(2) show ?thesis by auto
qed

section \<open>Fragmentation\<close>

text \<open>The cutting of a payload into pieces of \<open>n\<close> bytes, the last one shorter.\<close>

function chunks :: "nat \<Rightarrow> 'a list \<Rightarrow> 'a list list" where
  "chunks n xs = (if xs = [] \<or> n = 0 then [] else take n xs # chunks n (drop n xs))"
  by auto
termination by (relation "measure (\<lambda>(n, xs). length xs)") auto

declare chunks.simps [simp del]

lemma chunks_empty [simp]: "chunks n [] = []"
  by (simp add: chunks.simps)

lemma chunks_step: "xs \<noteq> [] \<Longrightarrow> 0 < n \<Longrightarrow> chunks n xs = take n xs # chunks n (drop n xs)"
  by (subst chunks.simps) simp

lemma concat_chunks: "0 < n \<Longrightarrow> concat (chunks n xs) = xs"
proof (induction n xs rule: chunks.induct)
  case (1 n xs)
  then show ?case by (cases "xs = []") (simp_all add: chunks_step)
qed

lemma chunks_length:
  "k < length (chunks n xs) \<Longrightarrow> length (chunks n xs ! k) \<le> n \<and> k * n + length (chunks n xs ! k) \<le> length xs
    \<and> 0 < length (chunks n xs ! k)
    \<and> (k + 1 < length (chunks n xs) \<longrightarrow> length (chunks n xs ! k) = n)"
proof (induction n xs arbitrary: k rule: chunks.induct)
  case (1 n xs)
  then have ne: "xs \<noteq> []" "n \<noteq> 0" by (auto simp: chunks.simps [of n xs] split: if_splits)
  then have c: "chunks n xs = take n xs # chunks n (drop n xs)" by (simp add: chunks.simps [of n xs])
  show ?case
  proof (cases k)
    case 0
    have "n \<le> length xs" if "chunks n (drop n xs) \<noteq> []"
      using that by (rule contrapos_np) simp
    then show ?thesis using ne by (auto simp: c 0 min_def)
  next
    case (Suc j)
    with "1.prems" c have j: "j < length (chunks n (drop n xs))" by simp
    then have "drop n xs \<noteq> []" by (auto)
    then have "n < length xs" by simp
    then show ?thesis using "1.IH" [OF _ j] ne by (auto simp: c Suc)
  qed
qed

lemma fragment_loop_chunks:
  assumes "8 dvd m" "0 < m"
  shows "fragment_loop p el m flags off payload =
    map (\<lambda>k. one_fragment p el (chunks m payload ! k) flags (off + of_nat (k * (m div 8)))
           (k + 1 < length (chunks m payload))) [0..<length (chunks m payload)]"
proof (induction payload arbitrary: off rule: measure_induct_rule [where f = length])
  case (less payload)
  show ?case
  proof (cases "payload = []")
    case True
    then show ?thesis by (simp add: fragment_loop.simps chunks_empty)
  next
    case False
    let ?rest = "drop m payload" and ?part = "take m payload"
    have c: "chunks m payload = ?part # chunks m ?rest" using False assms by (simp add: chunks.simps [of m payload])
    have more: "?rest \<noteq> [] \<longleftrightarrow> 0 < length (chunks m ?rest)"
      using assms by (simp add: chunks.simps [of m ?rest])
    have up: "[0..<Suc (length (chunks m ?rest))] = 0 # map Suc [0..<length (chunks m ?rest)]"
      by (simp only: upt_conv_Cons map_Suc_upt zero_less_Suc)
    have shift: "off + of_nat (length ?part div 8) + of_nat (k * (m div 8)) = off + of_nat (Suc k * (m div 8))"
      if "k < length (chunks m ?rest)" for k
    proof -
      have "?rest \<noteq> []" using that more by auto
      then have "length ?part = m" by simp
      then show ?thesis by (simp add: algebra_simps)
    qed
    have tail: "fragment_loop p el m flags (off + of_nat (length ?part div 8)) ?rest =
      map (\<lambda>k. one_fragment p el (chunks m ?rest ! k) flags (off + of_nat (Suc k * (m div 8)))
           (k + 1 < length (chunks m ?rest))) [0..<length (chunks m ?rest)]"
    proof -
      have shorter: "length ?rest < length payload" using False assms by simp
      show ?thesis unfolding less.IH [OF shorter] by (intro map_cong refl) (use shift in \<open>simp add: add.assoc\<close>)
    qed
    show ?thesis
      using False assms tail more
      by (subst fragment_loop.simps) (simp add: c up Let_def comp_def distrib_right del: upt_Suc)
  qed
qed

lemma one_fragment_fields:
  fixes part :: "byte list" and flags off :: u16 and more :: bool
  assumes "el + 20 \<le> length p"
  defines "f \<equiv> one_fragment p el part flags off more"
  shows "length f = el + 20 + length part" "drop (el + 20) f = part" "take el f = take el p"
    "word_at f (el + 2) = of_nat (20 + length part)"
    "word_at f (el + 6) = flags OR (if more then IP_MF else 0) OR off"
    "checksum_ok (subslice el (el + 20) f)"
    "subslice (el + 12) (el + 20) f = subslice (el + 12) (el + 20) p"
proof -
  define h where "h = take (el + 20) p @ part"
  define w2 where "w2 = (of_nat (20 + length part) :: u16)"
  define w6 where "w6 = (flags OR (if more then IP_MF else 0)) OR off"
  define g where "g = copy_at (el + 6) (be16_bytes w6) (copy_at (el + 2) (be16_bytes w2) h)"
  define z where "z = copy_at (el + 10) [0, 0] g"
  define c where "c = internet_checksum (subslice el (el + 20) z) 0xffff"
  have lh: "length h = el + 20 + length part" using assms(1) by (simp add: h_def)
  have lg: "length g = el + 20 + length part" by (simp add: g_def lh)
  have lz: "length z = el + 20 + length part" by (simp add: z_def lg)
  have "g[el + 10 := 0, el + 11 := 0] = z"
    unfolding z_def by (rule nth_equalityI) (auto simp: lg nth_list_update nth_copy_at nth_Cons')
  then have f: "f = copy_at (el + 10) (be16_bytes c) z"
    by (simp add: f_def one_fragment_def Let_def g_def h_def w2_def w6_def c_def)
  show lf: "length f = el + 20 + length part" by (simp add: f lz)
  have keep: "f ! i = h ! i" if "i < length h" "i \<notin> {el + 2, el + 3, el + 6, el + 7, el + 10, el + 11}" for i
    using that by (auto simp: f z_def g_def nth_copy_at lh)
  show "drop (el + 20) f = part"
    by (rule nth_equalityI) (use lf lh keep assms(1) in \<open>auto simp: h_def nth_append\<close>)
  show "take el f = take el p"
    by (rule nth_equalityI) (use lf lh keep assms(1) in \<open>auto simp: h_def nth_append\<close>)
  have "subslice (el + 12) (el + 20) f ! i = subslice (el + 12) (el + 20) p ! i" if "i < 8" for i
    using that keep [of "el + 12 + i"] lf lh assms(1) by (simp add: nth_subslice h_def nth_append)
  then show "subslice (el + 12) (el + 20) f = subslice (el + 12) (el + 20) p"
    using lf assms(1) by (intro nth_equalityI) simp_all
  show "word_at f (el + 2) = of_nat (20 + length part)"
    using be16_bytes_inverse [of w2] unfolding w2_def [symmetric]
    by (simp add: f z_def g_def lh nth_copy_at)
  have "word_at f (el + 6) = w6"
    using be16_bytes_inverse [of w6] by (simp add: f z_def g_def lh nth_copy_at)
  then show "word_at f (el + 6) = flags OR (if more then IP_MF else 0) OR off"
    by (simp add: w6_def or.assoc)
  have "subslice el (el + 20) f = copy_at 10 (be16_bytes c) (subslice el (el + 20) z)"
    by (simp add: f lz subslice_copy_at)
  moreover have "checksum_ok (copy_at 10 (be16_bytes c) (subslice el (el + 20) z))"
    unfolding c_def by (rule checksum_stored) (simp_all add: lz nth_subslice z_def nth_copy_at lg)
  ultimately show "checksum_ok (subslice el (el + 20) f)" by simp
qed

text \<open>The flag and offset parts of the third header word.\<close>

lemma fragment_word:
  assumes "unat off < 8192"
  shows "((w AND NOT IP_OFFMASK) OR (if more then IP_MF else 0) OR off) AND IP_OFFMASK = off"
    and "((w AND NOT IP_OFFMASK) OR (if more then IP_MF else 0) OR off) AND NOT IP_OFFMASK
      = (w AND NOT IP_OFFMASK) OR (if more then IP_MF else 0)"
proof -
  have mask: "IP_OFFMASK = mask 13" by (simp add: IP_OFFMASK_def mask_eq_exp_minus_1)
  have "IP_MF = 2 ^ 13" by (simp add: IP_MF_def)
  then have mf: "bit IP_MF n \<longleftrightarrow> n = 13" for n using bit_exp_iff [where 'a = "16 word", of 13 n] by (auto simp del: power_numeral)
  have "take_bit 13 off = off"
    by (rule unsigned_word_eqI [where ?'a = nat])
      (use assms in \<open>simp add: take_bit_eq_mod unat_mod\<close>)
  then have off: "bit off n \<Longrightarrow> n < 13" for n by (metis bit_take_bit_iff)
  show "((w AND NOT IP_OFFMASK) OR (if more then IP_MF else 0) OR off) AND IP_OFFMASK = off"
    unfolding mask by (rule bit_eqI) (auto simp: bit_simps mf dest: off)
  show "((w AND NOT IP_OFFMASK) OR (if more then IP_MF else 0) OR off) AND NOT IP_OFFMASK
      = (w AND NOT IP_OFFMASK) OR (if more then IP_MF else 0)"
    unfolding mask by (rule bit_eqI) (auto simp: bit_simps mf dest: off)
qed

lemma fragment_result:
  assumes "fragment_ipv4_packet p mtu = Inr frs"
  shows "\<exists>el m. ethernet_payload_type p = Inr (ETH_P_IP, el) \<and> el + 20 \<le> length p
    \<and> unat (word_at p (el + 2)) = length p - el \<and> 8 dvd m \<and> 0 < m \<and> el + 20 + m \<le> max mtu 590
    \<and> frs = fragment_loop p el m (word_at p (el + 6) AND NOT IP_OFFMASK) (word_at p (el + 6) AND IP_OFFMASK)
        (drop (el + 20) p)"
proof -
  from assms obtain et el where et: "ethernet_payload_type p = Inr (et, el)"
    by (auto simp: fragment_ipv4_packet_def result_Inr)
  from assms et have g: "et = ETH_P_IP" "el + 20 \<le> length p" "unat (word_at p (el + 2)) = length p - el"
    by (auto simp: fragment_ipv4_packet_def Let_def split: if_splits)
  from assms et g obtain m where m: "max_fragment_payload_len mtu el 20 = Inr m"
    and frs: "frs = fragment_loop p el m (word_at p (el + 6) AND NOT IP_OFFMASK) (word_at p (el + 6) AND IP_OFFMASK)
        (drop (el + 20) p)"
    by (auto simp: fragment_ipv4_packet_def Let_def result_Inr split: if_splits)
  from m have "0 < m" "el + 20 + m \<le> max mtu 590" "8 dvd m"
    by (auto simp: max_fragment_payload_len_def Let_def minus_mod_eq_mult_div split: if_splits)
  with et g frs show ?thesis by blast
qed

text \<open>
  C21: fragmenting an IPv4 packet returns fragments whose payloads, in order, are the packet's;
  each fits the MTU (or 590 bytes), keeps the Ethernet header and the addresses, states its own
  length and a correct header checksum; unless the packet's own offset and length exceed 64 KiB,
  fragment \<open>k\<close> has the offset of its bytes, keeps the flags of the packet and has the
  more-fragments flag set exactly when another fragment follows or the packet had it.
\<close>

theorem fragments_reassemble:
  assumes "fragment_ipv4_packet p mtu = Inr frs"
  shows "\<exists>el m. ethernet_payload_type p = Inr (ETH_P_IP, el) \<and> 0 < m \<and> 8 dvd m
    \<and> concat (map (drop (el + 20)) frs) = drop (el + 20) p
    \<and> (\<forall>k < length frs. length (frs ! k) \<le> max mtu 590
        \<and> el + 20 < length (frs ! k)
        \<and> (k + 1 < length frs \<longrightarrow> length (frs ! k) = el + 20 + m)
        \<and> take el (frs ! k) = take el p
        \<and> subslice (el + 12) (el + 20) (frs ! k) = subslice (el + 12) (el + 20) p
        \<and> unat (word_at (frs ! k) (el + 2)) = length (frs ! k) - el
        \<and> checksum_ok (subslice el (el + 20) (frs ! k))
        \<and> (unat (word_at p (el + 6) AND IP_OFFMASK) * 8 + length p \<le> 65536 \<longrightarrow>
            unat (word_at (frs ! k) (el + 6) AND IP_OFFMASK)
              = unat (word_at p (el + 6) AND IP_OFFMASK) + k * (m div 8)
            \<and> word_at (frs ! k) (el + 6) AND NOT IP_OFFMASK
              = (word_at p (el + 6) AND NOT IP_OFFMASK) OR (if k + 1 < length frs then IP_MF else 0)))"
proof -
  obtain el m where et: "ethernet_payload_type p = Inr (ETH_P_IP, el)" and len: "el + 20 \<le> length p"
    and total: "unat (word_at p (el + 2)) = length p - el" and m: "8 dvd m" "0 < m" "el + 20 + m \<le> max mtu 590"
    and frs: "frs = fragment_loop p el m (word_at p (el + 6) AND NOT IP_OFFMASK) (word_at p (el + 6) AND IP_OFFMASK)
        (drop (el + 20) p)"
    using fragment_result [OF assms] by blast
  define w where "w = word_at p (el + 6)"
  define parts where "parts = chunks m (drop (el + 20) p)"
  have frs': "frs = map (\<lambda>k. one_fragment p el (parts ! k) (w AND NOT IP_OFFMASK)
      ((w AND IP_OFFMASK) + of_nat (k * (m div 8))) (k + 1 < length parts)) [0..<length parts]"
    unfolding frs parts_def w_def by (rule fragment_loop_chunks [OF m(1,2)])
  have nfrs: "length frs = length parts" by (simp add: frs')
  have "map (drop (el + 20)) frs = parts"
    by (rule nth_equalityI) (simp_all add: nfrs, simp add: frs' one_fragment_fields [OF len])
  then have "concat (map (drop (el + 20)) frs) = drop (el + 20) p"
    using concat_chunks [OF m(2)] by (simp add: parts_def)
  moreover have "length f \<le> max mtu 590 \<and> el + 20 < length f
      \<and> (k + 1 < length frs \<longrightarrow> length f = el + 20 + m) \<and> take el f = take el p
      \<and> subslice (el + 12) (el + 20) f = subslice (el + 12) (el + 20) p
      \<and> unat (word_at f (el + 2)) = length f - el \<and> checksum_ok (subslice el (el + 20) f)
      \<and> (unat (w AND IP_OFFMASK) * 8 + length p \<le> 65536 \<longrightarrow>
          unat (word_at f (el + 6) AND IP_OFFMASK) = unat (w AND IP_OFFMASK) + k * (m div 8)
          \<and> word_at f (el + 6) AND NOT IP_OFFMASK = (w AND NOT IP_OFFMASK) OR (if k + 1 < length frs then IP_MF else 0))"
    if k: "k < length frs" and f_def: "f = frs ! k" for k f
  proof -
    have kp: "k < length parts" using k nfrs by simp
    let ?off = "(w AND IP_OFFMASK) + of_nat (k * (m div 8)) :: u16"
    have f: "f = one_fragment p el (parts ! k) (w AND NOT IP_OFFMASK) ?off (k + 1 < length parts)"
      using kp by (simp add: f_def frs')
    note ff = one_fragment_fields [OF len, of "parts ! k" "w AND NOT IP_OFFMASK" ?off "k + 1 < length parts", folded f]
    note cl = chunks_length [of k m "drop (el + 20) p", folded parts_def, OF kp]
    have "length p - el < 65536" using total unat_u16_less [of "word_at p (el + 2)"] by simp
    moreover have "k * m + length (parts ! k) \<le> length p - (el + 20)" using cl by simp
    ultimately have "20 + length (parts ! k) < 65536" using len by linarith
    then have l2: "unat (word_at f (el + 2)) = 20 + length (parts ! k)"
      unfolding ff(4) by (rule unat_of_nat_u16)
    have word: "unat (word_at f (el + 6) AND IP_OFFMASK) = unat (w AND IP_OFFMASK) + k * (m div 8)
        \<and> word_at f (el + 6) AND NOT IP_OFFMASK = (w AND NOT IP_OFFMASK) OR (if k + 1 < length parts then IP_MF else 0)"
      if small: "unat (w AND IP_OFFMASK) * 8 + length p \<le> 65536"
    proof -
      have "k * m + length (parts ! k) \<le> length p - (el + 20)" "0 < length (parts ! k)" using cl by simp_all
      then have "k * m < length p" by linarith
      moreover have "8 * (k * (m div 8)) = k * m" using m(1) by (simp add: dvd_mult_div_cancel mult.left_commute)
      ultimately have bound: "unat (w AND IP_OFFMASK) + k * (m div 8) < 8192" using small by linarith
      then have off: "unat ?off = unat (w AND IP_OFFMASK) + k * (m div 8)"
        by (simp add: unat_word_ariths unat_of_nat_u16 del: of_nat_mult)
      with bound have "unat ?off < 8192" by simp
      from fragment_word [OF this, of w "k + 1 < length parts"] off show ?thesis
        by (simp only: ff(5) conj_assoc)
    qed
    show ?thesis using ff(1,3,6,7) l2 cl m(3) word nfrs by auto
  qed
  ultimately show ?thesis using et m(1,2) unfolding w_def by blast
qed

theorem fragments_reassemble_witness:
  "\<exists>frs. fragment_ipv4_packet demo_udp 100 = Inr frs \<and> concat (map (drop 34) frs) = [0, 0, 0, 0, 0, 0, 0, 0]"
proof -
  have b: "length demo_udp = 42" "demo_udp ! 14 = 69" "unat (word_at demo_udp 16) = 28"
    "drop 34 demo_udp = [0, 0, 0, 0, 0, 0, 0, 0]"
    by (simp_all add: demo_udp_def unat_be16)
  have "\<exists>frs. fragment_ipv4_packet demo_udp 100 = Inr frs"
    using b(1-3) by (simp add: fragment_ipv4_packet_def demo_udp_type max_fragment_payload_len_def Let_def)
  then obtain frs where frs: "fragment_ipv4_packet demo_udp 100 = Inr frs" by blast
  with fragments_reassemble [OF frs] b(4) show ?thesis by (auto simp: demo_udp_type)
qed

section \<open>MSS clamping\<close>

lemma rfc_sum_pad: "odd (length d) \<Longrightarrow> rfc_sum d = word_sum (d @ [0])"
  by (induction d rule: word_sum.induct) auto

lemma rfc_valid_pad:
  assumes "odd (length d)" "length d < 65536"
  shows "rfc_valid d \<longleftrightarrow> checksum_ok (d @ [0])"
  using assms by (simp add: rfc_valid_def rfc_sum_pad checksum_ok_iff)

lemma copy_at_snoc: "i + length bs \<le> length d \<Longrightarrow> copy_at i bs (d @ [x]) = copy_at i bs d @ [x]"
  by (simp add: copy_at_def)

lemma word_at_snoc: "i + 2 \<le> length d \<Longrightarrow> word_at (d @ [x]) i = word_at d i"
  by (simp add: nth_append)

text \<open>\<open>checksum_replaced\<close> for the checksum of RFC 1071, whatever the length.\<close>

lemma rfc_replaced:
  assumes d: "even i" "even k" "i + 2 \<le> length d" "k + 2 \<le> length d" "i \<noteq> k" "length d < 65536"
    and ok: "rfc_valid d" and new: "new \<noteq> 0"
    and step: "\<And>s. 65535 dvd s + unat (word_at d k) + unat (word_at d i) \<Longrightarrow> 65535 dvd s + unat c + unat new"
  shows "rfc_valid (copy_at k (be16_bytes c) (copy_at i (be16_bytes new) d))"
proof (cases "even (length d)")
  case True
  with ok d have "checksum_ok d" by (simp add: rfc_valid_def checksum_ok_iff word_sum_even)
  then have "checksum_ok (copy_at k (be16_bytes c) (copy_at i (be16_bytes new) d))"
    by (intro checksum_replaced d(1-5) new step) (use d in simp_all)
  with True d show ?thesis by (simp add: rfc_valid_iff)
next
  case False
  with ok d have "checksum_ok (d @ [0])" by (simp add: rfc_valid_pad)
  then have "checksum_ok (copy_at k (be16_bytes c) (copy_at i (be16_bytes new) (d @ [0])))"
    by (rule checksum_replaced [rotated 6, OF _ new])
      (use d step in \<open>simp_all add: word_at_snoc [simplified]\<close>)
  with False d show ?thesis by (simp add: rfc_valid_pad copy_at_snoc)
qed

text \<open>What the option loop returns: the packet, or the packet with one MSS option replaced.\<close>

definition mss_replaced :: "byte list \<Rightarrow> nat \<Rightarrow> nat \<Rightarrow> u16 \<Rightarrow> byte list" where
  "mss_replaced p s i new =
     (let q = copy_at i (be16_bytes new) p
      in copy_at (s + 16) (be16_bytes (incremental_transport_checksum_update (word_at q (s + 16)) (word_at p i) new)) q)"

lemma option_loop_result:
  assumes "clamp_option_loop p s n maximum offset = (r, q)"
  shows "(r = NoMssOption \<and> q = p)
    \<or> (\<exists>i. s + 22 \<le> i \<and> i + 2 \<le> s + 20 + n \<and> p ! (i - 2) = 2 \<and> unat (p ! (i - 1)) = 4
         \<and> (r = AlreadySmall (word_at p i) maximum \<and> word_at p i \<le> maximum \<and> q = p
            \<or> r = Clamped (word_at p i) maximum \<and> maximum < word_at p i \<and> q = mss_replaced p s i maximum))"
  using assms
proof (induction p s n maximum offset rule: clamp_option_loop.induct)
  case (1 p s n maximum offset)
  let ?kind = "p ! (s + 20 + offset)" and ?len = "unat (p ! (s + 20 + offset + 1))"
  show ?case
  proof (cases "offset < n")
    case False
    with "1.prems" show ?thesis by (simp add: clamp_option_loop.simps [of p s n])
  next
    case less: True
    consider "?kind = 0" | "?kind = 1" | "?kind \<noteq> 0" "?kind \<noteq> 1" "n \<le> offset + 1"
      | "?kind = 2" "offset + 1 < n" | "?kind \<noteq> 0" "?kind \<noteq> 1" "?kind \<noteq> 2" "offset + 1 < n"
      by linarith
    then show ?thesis
    proof cases
      case 1
      with less "1.prems" show ?thesis by (simp add: clamp_option_loop.simps [of p s n maximum offset])
    next
      case 2
      with less "1.prems" have "clamp_option_loop p s n maximum (offset + 1) = (r, q)"
        by (simp add: clamp_option_loop.simps [of p s n maximum offset])
      from "1.IH"(1) [OF less refl refl _ 2 this] 2 show ?thesis by simp
    next
      case 3
      with less "1.prems" show ?thesis by (simp add: clamp_option_loop.simps [of p s n maximum offset] Let_def)
    next
      case 4
      show ?thesis
      proof (cases "?len \<noteq> 4 \<or> n < offset + ?len")
        case True
        with less 4 "1.prems" show ?thesis
          by (auto simp: clamp_option_loop.simps [of p s n maximum offset] Let_def)
      next
        case False
        with less 4 "1.prems" have "clamp_mss_option p s maximum (s + 20 + offset + 2) = (r, q)"
          by (auto simp: clamp_option_loop.simps [of p s n maximum offset] Let_def)
        then show ?thesis using False 4
          by (intro disjI2 exI [of _ "s + 20 + offset + 2"])
            (auto simp: clamp_mss_option_def mss_replaced_def Let_def ac_simps split: if_splits)
      qed
    next
      case 5
      show ?thesis
      proof (cases "?len < 2 \<or> n < offset + ?len")
        case True
        with less 5 "1.prems" show ?thesis
          by (auto simp: clamp_option_loop.simps [of p s n maximum offset] Let_def)
      next
        case False
        with less 5 "1.prems" have rec: "clamp_option_loop p s n maximum (offset + ?len) = (r, q)"
          by (auto simp: clamp_option_loop.simps [of p s n maximum offset] Let_def)
        have "\<not> n \<le> offset + 1" using 5 by simp
        from "1.IH"(2) [OF less refl refl 5(1,2) this refl 5(3) False rec] show ?thesis .
      qed
    qed
  qed
qed

lemma mss_replaced_copies:
  assumes "s + 22 \<le> i" "i + 2 \<le> length p"
  shows "mss_replaced p s i new = copy_at (s + 16)
    (be16_bytes (incremental_transport_checksum_update (word_at p (s + 16)) (word_at p i) new))
    (copy_at i (be16_bytes new) p)"
proof -
  have "word_at (copy_at i (be16_bytes new) p) (s + 16) = word_at p (s + 16)"
    using assms by (intro word_at_copy_other) auto
  then show ?thesis by (simp add: mss_replaced_def Let_def)
qed

lemma mss_replaced_checksum:
  assumes i: "s + 22 \<le> i" "i + 2 \<le> length p" "even (i - s)"
    and ok: "rfc_valid (pseudo @ drop s p)" "even (length pseudo)" "length pseudo + length p < 65536 + s"
    and new: "new \<noteq> 0"
  shows "rfc_valid (pseudo @ drop s (mss_replaced p s i new))"
proof -
  let ?d = "pseudo @ drop s p" and ?n = "length pseudo"
  let ?c = "incremental_transport_checksum_update (word_at p (s + 16)) (word_at p i) new"
  have at: "word_at ?d (?n + j) = word_at p (s + j)" if "s + j + 2 \<le> length p" for j
    using that by (simp add: nth_append)
  have "drop s (mss_replaced p s i new) = copy_at 16 (be16_bytes ?c) (copy_at (i - s) (be16_bytes new) (drop s p))"
    unfolding mss_replaced_copies [OF i(1,2)] using i
    by (intro nth_equalityI) (auto simp: nth_copy_at add.commute)
  moreover have "copy_at (?n + (i - s)) (be16_bytes new) ?d = pseudo @ copy_at (i - s) (be16_bytes new) (drop s p)"
    by (rule copy_at_append) (use i in simp)
  moreover have "copy_at (?n + 16) (be16_bytes ?c) (pseudo @ copy_at (i - s) (be16_bytes new) (drop s p))
      = pseudo @ copy_at 16 (be16_bytes ?c) (copy_at (i - s) (be16_bytes new) (drop s p))"
    by (rule copy_at_append) (use i in simp)
  ultimately have "pseudo @ drop s (mss_replaced p s i new)
      = copy_at (?n + 16) (be16_bytes ?c) (copy_at (?n + (i - s)) (be16_bytes new) ?d)"
    by (simp only:)
  moreover have "rfc_valid (copy_at (?n + 16) (be16_bytes ?c) (copy_at (?n + (i - s)) (be16_bytes new) ?d))"
  proof (rule rfc_replaced [OF _ _ _ _ _ _ ok(1) new])
    show "65535 dvd x + unat ?c + unat new"
      if "65535 dvd x + unat (word_at ?d (?n + 16)) + unat (word_at ?d (?n + (i - s)))" for x
      using that i at [of 16] at [of "i - s"] by (intro incremental_transport_sum) simp
  qed (use i ok in auto)
  ultimately show ?thesis by simp
qed

lemma clamp_result:
  assumes "clamp_tcp_mss p mtu = Inr (r, q)"
  shows "(r \<in> {NotTcp, NoMssOption} \<and> q = p)
    \<or> (\<exists>et el s n maximum. ethernet_payload_type p = Inr (et, el) \<and> tcp_header_start p et el = Inr (Some s)
        \<and> s + 20 + n \<le> length p \<and> s + 21 \<le> mtu \<and> unat maximum = mtu - s - 20
        \<and> clamp_option_loop p s n maximum 0 = (r, q))"
proof -
  from assms obtain et el start where et: "ethernet_payload_type p = Inr (et, el)"
    and start: "tcp_header_start p et el = Inr start"
    by (auto simp: clamp_tcp_mss_def result_Inr)
  show ?thesis
  proof (cases start)
    case None
    with assms et start show ?thesis by (simp add: clamp_tcp_mss_def)
  next
    case (Some s)
    let ?d = "drop_bit 4 (p ! (s + 12)) :: byte"
    consider "r = NoMssOption" "q = p" | maximum where "maximum_mss_for_mtu mtu s = Inr maximum"
        "s + unat ?d * 4 \<le> length p" "\<not> ?d < 5"
        "clamp_option_loop p s (unat ?d * 4 - 20) maximum 0 = (r, q)"
      using assms et start Some
      by (auto simp: clamp_tcp_mss_def Let_def result_Inr split: if_splits)
    then show ?thesis
    proof cases
      case 1
      then show ?thesis by simp
    next
      case 2
      have "5 \<le> unat ?d" using 2(3) by (simp add: word_less_nat_alt not_less)
      then have "s + 20 + (unat ?d * 4 - 20) \<le> length p" using 2(2) by linarith
      moreover have "s + 21 \<le> mtu" "maximum = of_nat (mtu - s - 20)" "mtu - s - 20 < 65536"
        using 2(1) by (auto simp: maximum_mss_for_mtu_def Let_def split: if_splits)
      moreover from this(2,3) have "unat maximum = mtu - s - 20" by (simp only: unat_of_nat_u16)
      ultimately show ?thesis using et start Some 2(4) by blast
    qed
  qed
qed


text \<open>A SYN from 10.0.0.1 to 10.0.0.2 that announces an MSS of 1460 after a no-operation option.\<close>

definition demo_syn :: "byte list" where
  "demo_syn = [2, 0, 0, 0, 0, 1, 2, 0, 0, 0, 0, 2, 8, 0, 69, 0, 0, 48, 0, 0, 0, 0, 64, 6, 102, 198,
     10, 0, 0, 1, 10, 0, 0, 2, 0, 80, 0, 80, 0, 0, 0, 1, 0, 0, 0, 0, 112, 2, 32, 0, 161, 45, 0, 0,
     1, 2, 4, 5, 180, 1, 1, 1]"

definition demo_pseudo :: "byte list" where
  "demo_pseudo = [10, 0, 0, 1, 10, 0, 0, 2, 0, 6, 0, 28]"

lemma demo_syn_type: "ethernet_payload_type demo_syn = Inr (ETH_P_IP, 14)"
  by code_simp

lemma demo_syn_start: "tcp_header_start demo_syn ETH_P_IP 14 = Inr (Some 34)"
  by (simp add: tcp_header_start_def demo_syn_def)

lemma demo_syn_loop:
  "clamp_option_loop demo_syn 34 8 1000 0 = (Clamped 1460 1000, mss_replaced demo_syn 34 57 1000)"
proof -
  have b: "demo_syn ! 54 = 1" "demo_syn ! 55 = 2" "demo_syn ! 56 = 4" "word_at demo_syn 57 = 1460"
    by (simp_all add: demo_syn_def be16_def)
  then show ?thesis
    by (subst clamp_option_loop.simps, subst clamp_option_loop.simps)
      (simp add: clamp_mss_option_def mss_replaced_def Let_def)
qed

lemma demo_syn_clamped:
  "clamp_tcp_mss demo_syn 1054 = Inr (Clamped 1460 1000, mss_replaced demo_syn 34 57 1000)"
proof -
  have "length demo_syn = 62" "drop_bit 4 (demo_syn ! 46) = 7" by (simp_all add: demo_syn_def)
  then show ?thesis
    by (simp add: clamp_tcp_mss_def demo_syn_type demo_syn_start maximum_mss_for_mtu_def demo_syn_loop Let_def)
qed


lemma demo_syn_replaced:
  "drop 34 (mss_replaced demo_syn 34 57 1000) =
    [0, 80, 0, 80, 0, 0, 0, 1, 0, 0, 0, 0, 112, 2, 32, 0, 162, 249, 0, 0, 1, 2, 4, 3, 232, 1, 1, 1]"
proof -
  have w: "word_at demo_syn 50 = 0xa12d" "word_at demo_syn 57 = 1460"
    by (simp_all add: demo_syn_def be16_def)
  have "unat (incremental_transport_checksum_update 0xa12d 1460 1000) = 0xa2f9"
    unfolding unat_incremental_transport by (simp add: end_around_def)
  then have c: "incremental_transport_checksum_update 0xa12d 1460 1000 = 0xa2f9"
    by (intro unsigned_word_eqI [where ?'a = nat]) simp
  have b: "be16_bytes 0xa2f9 = [162, 249]" "be16_bytes 1000 = [3, 232]" by (simp_all add: be16_bytes_def)
  have "length demo_syn = 62" by (simp add: demo_syn_def)
  then have "mss_replaced demo_syn 34 57 1000 = copy_at 50 [162, 249] (copy_at 57 [3, 232] demo_syn)"
    using mss_replaced_copies [of 34 57 demo_syn 1000] w c b by simp
  then show ?thesis by (simp add: demo_syn_def copy_at_def)
qed

text \<open>
  When the MSS option does not start on a 16-bit boundary of the segment, clamping breaks the
  TCP checksum: the update treats the value as an aligned word.  The packet is an ordinary SYN
  whose option follows a single no-operation byte.
\<close>

theorem clamp_mss_unaligned:
  "\<exists>q. clamp_tcp_mss demo_syn 1054 = Inr (Clamped 1460 1000, q)
     \<and> rfc_valid (demo_pseudo @ drop 34 demo_syn) \<and> \<not> rfc_valid (demo_pseudo @ drop 34 q)"
proof -
  have "rfc_valid (demo_pseudo @ drop 34 demo_syn)"
    by (simp add: rfc_valid_def demo_pseudo_def demo_syn_def)
  moreover have "\<not> rfc_valid (demo_pseudo @ drop 34 (mss_replaced demo_syn 34 57 1000))"
    unfolding demo_syn_replaced by (simp add: rfc_valid_def demo_pseudo_def)
  ultimately show ?thesis using demo_syn_clamped by blast
qed

end
