(* ===== verification/Route_Props.thy ===== *)
theory Route_Props
  imports Route Packet_Props State_Purge
begin

text \<open>
  What the routing decisions guarantee: packets are only sent towards reachable owners of a
  covering subnet and never back to where they came from, the learned addresses keep the network
  state well formed, and replies go to the sender and are well formed.
\<close>

section \<open>The lookup\<close>

lemma lookup_loop_find:
  "lookup_reachable_loop g P found t =
     (case find (\<lambda>x. P x \<and> owner_reachable g x) t of
        Some s \<Rightarrow> Some s
      | None \<Rightarrow> (if filter P t = [] then found else Some (last (filter P t))))"
  by (induction t arbitrary: found) (auto split: option.splits)

lemma find_filtered: "find P (filter Q t) = find (\<lambda>x. P x \<and> Q x) t"
  by (induction t) auto

lemma lookup_reachable_find:
  "lookup_reachable_subnet_like_tinc s P =
     (case find P (filter (owner_reachable (ns_graph s)) (ns_subnets s)) of
        Some x \<Rightarrow> Some x
      | None \<Rightarrow> (if filter P (ns_subnets s) = [] then None else Some (last (filter P (ns_subnets s)))))"
  by (simp add: lookup_reachable_subnet_like_tinc_def lookup_loop_find find_filtered)

text \<open>The result of a lookup for subnets of type \<open>k\<close> that cover \<open>a\<close>.\<close>

definition best_reachable :: "network_state \<Rightarrow> nat \<Rightarrow> byte list \<Rightarrow> subnet option \<Rightarrow> bool" where
  "best_reachable s k a r \<longleftrightarrow>
     (case r of
        None \<Rightarrow> \<forall>x \<in> set (ns_subnets s). \<not> (type_order x = k \<and> covers x a)
      | Some y \<Rightarrow> y \<in> set (ns_subnets s) \<and> type_order y = k \<and> covers y a
          \<and> (\<forall>x \<in> set (ns_subnets s). type_order x = k \<and> covers x a \<and> owner_reachable (ns_graph s) x \<longrightarrow>
               owner_reachable (ns_graph s) y \<and> sn_prefix x \<le> sn_prefix y
               \<and> (sn_kind x = sn_kind y \<longrightarrow> sn_weight y \<le> sn_weight x)))"

lemma best_reachable_lookup:
  assumes "table_ok (ns_subnets s)" "\<forall>x \<in> set (ns_subnets s). P x \<longleftrightarrow> type_order x = k \<and> covers x a"
  shows "best_reachable s k a (lookup_reachable_subnet_like_tinc s P)"
proof -
  let ?t = "ns_subnets s" and ?R = "owner_reachable (ns_graph s)"
  have ok: "table_ok (filter ?R ?t)" using assms(1) by (rule table_ok_filter)
  have m: "\<forall>x \<in> set (filter ?R ?t). P x \<longleftrightarrow> type_order x = k \<and> covers x a" using assms(2) by auto
  show ?thesis
  proof (cases "find P (filter ?R ?t)")
    case (Some y)
    then have r: "lookup_reachable_subnet_like_tinc s P = Some y" by (simp add: lookup_reachable_find)
    show ?thesis unfolding r best_reachable_def using lookup_best [OF ok Some m] by auto
  next
    case None
    then have no: "\<forall>x \<in> set ?t. ?R x \<longrightarrow> \<not> P x" by (auto simp: find_none)
    show ?thesis
    proof (cases "filter P ?t = []")
      case True
      then have "lookup_reachable_subnet_like_tinc s P = None" using None by (simp add: lookup_reachable_find)
      with True assms(2) show ?thesis by (auto simp: best_reachable_def filter_empty_conv)
    next
      case False
      then have r: "lookup_reachable_subnet_like_tinc s P = Some (last (filter P ?t))"
        using None by (simp add: lookup_reachable_find)
      have "last (filter P ?t) \<in> set (filter P ?t)" using False by (rule last_in_set)
      then show ?thesis unfolding r best_reachable_def using assms(2) no by auto
    qed
  qed
qed

text \<open>
  The lookup the router uses returns, when any reachable owner announced a covering subnet, a
  covering subnet of a reachable owner, with the longest prefix among those and the least weight;
  it fails only when no subnet covers the address at all.
\<close>

theorem lookup_reachable_longest:
  assumes "table_ok (ns_subnets s)" "length a4 = 4" "length a6 = 16"
  shows "best_reachable s 1 a4 (lookup_reachable_ipv4 s a4) \<and> best_reachable s 2 a6 (lookup_reachable_ipv6 s a6)"
proof
  show "best_reachable s 1 a4 (lookup_reachable_ipv4 s a4)"
    unfolding lookup_reachable_ipv4_def
    by (rule best_reachable_lookup) (use assms in \<open>auto simp: table_ok_def matches_ipv4_covers\<close>)
  show "best_reachable s 2 a6 (lookup_reachable_ipv6 s a6)"
    unfolding lookup_reachable_ipv6_def
    by (rule best_reachable_lookup) (use assms in \<open>auto simp: table_ok_def matches_ipv6_covers\<close>)
qed

section \<open>Sending\<close>

text \<open>The guards every send passes, whatever the mode.\<close>

definition send_allowed :: "network_state \<Rightarrow> string \<Rightarrow> route_config \<Rightarrow> string \<Rightarrow> string option \<Rightarrow> bool" where
  "send_allowed s source config owner via \<longleftrightarrow>
     owner \<noteq> source \<and> via \<noteq> Some source \<and> via = route_via s source owner
     \<and> (rc_forwarding_mode config = FwdOff \<longrightarrow> source = g_myself (ns_graph s) \<or> owner = g_myself (ns_graph s))
     \<and> (rc_direct_only config \<longrightarrow> direct_only_allows s owner via)"

lemma to_owner_send:
  assumes "ro_decision (route_to_subnet_owner s source x config) = RouteSend owner via"
  shows "sn_owner x = Some owner \<and> reachable (ns_graph s) owner \<and> send_allowed s source config owner via"
  using assms
  by (auto simp: route_to_subnet_owner_def outcome_new_def send_allowed_def reachable_def Let_def
      split: option.splits if_splits)

lemma lookup_loop_member:
  "lookup_reachable_loop g P found t = Some x \<Longrightarrow> x \<in> set t \<and> P x \<or> found = Some x"
  by (induction t arbitrary: found) (auto split: if_splits)

lemma lookup_member: "lookup_reachable_subnet_like_tinc s P = Some x \<Longrightarrow> x \<in> set (ns_subnets s) \<and> P x"
  using lookup_loop_member [of "ns_graph s" P None "ns_subnets s" x]
  by (simp add: lookup_reachable_subnet_like_tinc_def)

lemma mac_send:
  assumes "mac_decision s source frame config = RouteSend owner via"
  shows "\<exists>x \<in> set (ns_subnets s). sn_kind x = Mac (ef_destination frame) \<and> sn_owner x = Some owner
    \<and> send_allowed s source config owner via"
proof -
  obtain x where x: "lookup_reachable_mac s (ef_destination frame) = Some x" "sn_owner x = Some owner"
      "send_allowed s source config owner via"
    using assms by (auto simp: mac_decision_def send_allowed_def Let_def split: option.splits if_splits)
  have "x \<in> set (ns_subnets s) \<and> sn_kind x = Mac (ef_destination frame)"
    using lookup_member x(1) unfolding lookup_reachable_mac_def by fast
  with x show ?thesis by auto
qed

text \<open>The destination a frame asks for, in router mode.\<close>

definition ip_destination :: "byte list \<Rightarrow> nat \<times> byte list" where
  "ip_destination p = (if word_at p 12 = ETH_P_IP then (1, subslice 30 34 p) else (2, subslice 38 54 p))"

lemma parse_frame_Inr:
  "parse_frame p = Inr f \<longleftrightarrow> 14 \<le> length p
    \<and> f = \<lparr>ef_destination = subslice 0 6 p, ef_source = subslice 6 12 p, ef_ether_type = word_at p 12,
           ef_payload = drop 14 p\<rparr>"
  by (auto simp: parse_frame_def packet_consts not_less)

lemma lookup_covering:
  assumes "table_ok (ns_subnets s)" "length a4 = 4" "length a6 = 16"
  shows "lookup_reachable_ipv4 s a4 = Some x \<Longrightarrow> x \<in> set (ns_subnets s) \<and> type_order x = 1 \<and> covers x a4"
    and "lookup_reachable_ipv6 s a6 = Some x \<Longrightarrow> x \<in> set (ns_subnets s) \<and> type_order x = 2 \<and> covers x a6"
proof -
  have "best_reachable s 1 a4 (lookup_reachable_ipv4 s a4)" "best_reachable s 2 a6 (lookup_reachable_ipv6 s a6)"
    unfolding lookup_reachable_ipv4_def lookup_reachable_ipv6_def
    by (rule best_reachable_lookup;
        use assms in \<open>auto simp: table_ok_def matches_ipv4_covers matches_ipv6_covers\<close>)+
  then show "lookup_reachable_ipv4 s a4 = Some x \<Longrightarrow> x \<in> set (ns_subnets s) \<and> type_order x = 1 \<and> covers x a4"
    and "lookup_reachable_ipv6 s a6 = Some x \<Longrightarrow> x \<in> set (ns_subnets s) \<and> type_order x = 2 \<and> covers x a6"
    by (simp_all add: best_reachable_def)
qed

lemma router_send:
  assumes "table_ok (ns_subnets s)" "rc_routing_mode config = Router"
    and "route_packet s source p config = (out, s')" "ro_decision out = RouteSend owner via"
  shows "s' = s \<and> send_allowed s source config owner via \<and> reachable (ns_graph s) owner
    \<and> word_at p 12 \<in> {ETH_P_IP, ETH_P_IPV6}
    \<and> (\<exists>x \<in> set (ns_subnets s). sn_owner x = Some owner \<and> type_order x = fst (ip_destination p)
         \<and> covers x (snd (ip_destination p)))"
proof -
  from assms(3,4) have k: "\<not> (rc_forwarding_mode config = FwdKernel \<and> source \<noteq> g_myself (ns_graph s))"
    by (auto simp: route_packet_def outcome_new_def split: if_splits)
  obtain f where f: "parse_frame p = Inr f"
    using assms(3,4) k by (cases "parse_frame p") (auto simp: route_packet_def outcome_new_def)
  have ty: "ef_ether_type f = word_at p 12" using f by (simp add: parse_frame_Inr)
  have ne: "ETH_P_IPV6 \<noteq> ETH_P_IP" by (simp add: ETH_P_IPV6_def ETH_P_IP_def)
  have r: "route_packet s source p config =
      (if word_at p 12 = ETH_P_IP then (route_ipv4 s source p config, s)
       else if word_at p 12 = ETH_P_IPV6 then (route_ipv6 s source p config, s)
       else (outcome_new (RouteDrop (DropUnknownEtherType (word_at p 12))), s))"
    using k f ty assms(2) by (auto simp: route_packet_def)
  consider "word_at p 12 = ETH_P_IP" "out = route_ipv4 s source p config" "s' = s"
    | "word_at p 12 = ETH_P_IPV6" "out = route_ipv6 s source p config" "s' = s"
  proof (cases "word_at p 12 = ETH_P_IP")
    case True
    have "(out, s') = (route_ipv4 s source p config, s)"
      using r unfolding assms(3) if_P [OF True] .
    with True show thesis by (intro that(1)) simp_all
  next
    case not4: False
    show thesis
    proof (cases "word_at p 12 = ETH_P_IPV6")
      case True
      have "(out, s') = (route_ipv6 s source p config, s)"
        using r unfolding assms(3) if_not_P [OF not4] if_P [OF True] .
      with True show thesis by (intro that(2)) simp_all
    next
      case False
      have "(out, s') = (outcome_new (RouteDrop (DropUnknownEtherType (word_at p 12))), s)"
        using r unfolding assms(3) if_not_P [OF not4] if_not_P [OF False] .
      then have "ro_decision out = RouteDrop (DropUnknownEtherType (word_at p 12))"
        by (simp add: outcome_new_def)
      with assms(4) show thesis by simp
    qed
  qed
  then show ?thesis
  proof cases
    case 1
    then obtain x where x: "34 \<le> length p" "lookup_reachable_ipv4 s (subslice 30 34 p) = Some x"
        "ro_decision (route_to_subnet_owner s source x config) = RouteSend owner via"
      using assms(4) by (auto simp: route_ipv4_def packet_consts outcome_new_def Let_def split: if_splits option.splits)
    have "length (subslice 30 34 p) = 4" "length (replicate 16 0 :: byte list) = 16" using x(1) by simp_all
    from lookup_covering(1) [OF assms(1) this x(2)] to_owner_send [OF x(3)] 1
    show ?thesis by (auto simp: ip_destination_def)
  next
    case 2
    then obtain x where x: "54 \<le> length p" "lookup_reachable_ipv6 s (subslice 38 54 p) = Some x"
        "ro_decision (route_to_subnet_owner s source x config) = RouteSend owner via"
      using assms(4) by (auto simp: route_ipv6_def packet_consts outcome_new_def Let_def split: if_splits option.splits)
    have "length (replicate 4 0 :: byte list) = 4" "length (subslice 38 54 p) = 16" using x(1) by simp_all
    from lookup_covering(2) [OF assms(1) this x(2)] to_owner_send [OF x(3)] 2 ne
    show ?thesis by (auto simp: ip_destination_def)
  qed
qed


text \<open>Two nodes \<open>a\<close> and \<open>b\<close>, directly connected; \<open>b\<close> owns 10.0.0.2.\<close>

definition demo_net :: network_state where
  "demo_net =
     \<lparr>ns_graph = \<lparr>g_myself = ''a'',
        g_nodes = [(''a'', set_reachable True (node_new (\<lambda>_. replicate 64 0) ''a'')),
          (''b'', (set_reachable True (node_new (\<lambda>_. replicate 64 0) ''b''))
             \<lparr>n_route := \<lparr>rt_distance = Some 1, rt_weighted = Some 1, rt_next_hop = Some ''b'',
                rt_previous_edge = None, rt_via = Some ''b''\<rparr>\<rparr>)],
        g_edges = [], g_mst = []\<rparr>,
      ns_subnets = [with_owner ''b'' (weighted (Ipv4 [10, 0, 0, 2] 32) 10)], ns_experimental = False\<rparr>"

lemma demo_net_table: "table_ok (ns_subnets demo_net)"
  by (simp add: demo_net_def table_ok_def sorted_by_def owned_def with_owner_def weighted_def wf_subnet_def
      in_i32_def i32_min_def i32_max_def)

lemma demo_net_send:
  "ro_decision (fst (route_packet demo_net ''a'' demo_udp route_config_default)) = RouteSend ''b'' (Some ''b'')"
  by code_simp


theorem lookup_reachable_longest_witness:
  "best_reachable demo_net 1 [10, 0, 0, 2] (lookup_reachable_ipv4 demo_net [10, 0, 0, 2])"
  using lookup_reachable_longest [OF demo_net_table, of "[10, 0, 0, 2]" "replicate 16 0"] by simp

section \<open>Learning\<close>

text \<open>The order, the keys and well-formedness do not depend on the expiry.\<close>

definition no_expiry :: "subnet \<Rightarrow> subnet" where
  "no_expiry x = x\<lparr>sn_expires := None\<rparr>"

lemma no_expiry_invariant:
  "compare_tinc (no_expiry x) (no_expiry y) = compare_tinc x y" "subnet_key (no_expiry x) = subnet_key x"
  "owned (no_expiry x) = owned x" "wf_subnet (no_expiry x) = wf_subnet x" "sn_owner (no_expiry x) = sn_owner x"
proof -
  have sel: "sn_kind (no_expiry z) = sn_kind z" "sn_weight (no_expiry z) = sn_weight z"
    "sn_owner (no_expiry z) = sn_owner z" for z by (simp_all add: no_expiry_def)
  show "compare_tinc (no_expiry x) (no_expiry y) = compare_tinc x y"
    by (simp only: compare_tinc_def type_order_def sel)
  show "subnet_key (no_expiry x) = subnet_key x" "owned (no_expiry x) = owned x"
    "wf_subnet (no_expiry x) = wf_subnet x" "sn_owner (no_expiry x) = sn_owner x"
    by (simp_all add: subnet_key_def owned_def wf_subnet_def type_order_def sn_prefix_def sn_bytes_def sel)
qed

lemma table_ok_no_expiry: "table_ok (map no_expiry t) \<longleftrightarrow> table_ok t"
  by (simp add: table_ok_def sorted_by_def sorted_wrt_map no_expiry_invariant)

lemma table_unique_no_expiry: "table_unique (map no_expiry t) \<longleftrightarrow> table_unique t"
  by (simp add: table_unique_def comp_def no_expiry_invariant)

lemma update_first_no_expiry:
  "(\<And>x. no_expiry (f x) = no_expiry x) \<Longrightarrow> map no_expiry (update_first P f t) = map no_expiry t"
  by (induction t) auto

lemma same_table:
  assumes "map no_expiry t' = map no_expiry t" "table_ok t" "table_unique t"
  shows "table_ok t' \<and> table_unique t' \<and> sn_owner ` set t' = sn_owner ` set t
    \<and> subnet_key ` set t' = subnet_key ` set t"
proof -
  have "set (map no_expiry t') = set (map no_expiry t)" using assms(1) by simp
  then have s: "no_expiry ` set t' = no_expiry ` set t" by simp
  have "sn_owner ` set t' = sn_owner ` no_expiry ` set t'" "sn_owner ` set t = sn_owner ` no_expiry ` set t"
    "subnet_key ` set t' = subnet_key ` no_expiry ` set t'" "subnet_key ` set t = subnet_key ` no_expiry ` set t"
    by (simp_all add: image_image no_expiry_invariant)
  then show ?thesis
    using assms table_ok_no_expiry [of t] table_ok_no_expiry [of t'] table_unique_no_expiry [of t]
      table_unique_no_expiry [of t'] by (simp add: s)
qed

definition local_mac :: "network_state \<Rightarrow> byte list \<Rightarrow> subnet" where
  "local_mac s p = with_owner (g_myself (ns_graph s)) (mac_subnet (subslice 6 12 p))"

lemma learn_mac_ok:
  assumes ok: "state_ok s" and len: "14 \<le> length p" and f: "parse_frame p = Inr f"
    and l: "learn_mac s source f config = (learned, s')"
  shows "state_ok s' \<and> ns_graph s' = ns_graph s \<and> ns_experimental s' = ns_experimental s
    \<and> (source \<noteq> g_myself (ns_graph s) \<longrightarrow> s' = s \<and> learned = [])
    \<and> (source = g_myself (ns_graph s) \<longrightarrow>
         subnet_key ` set (ns_subnets s') = insert (subnet_key (local_mac s p)) (subnet_key ` set (ns_subnets s)))"
proof (cases "source = g_myself (ns_graph s)")
  case False
  with l ok show ?thesis by (simp add: learn_mac_def Let_def)
next
  case True
  let ?t = "ns_subnets s" and ?loc = "local_mac s p" and ?e = "rc_now_secs config + rc_mac_expire config"
  have t: "table_ok ?t" "table_unique ?t" and g: "graph_ok (ns_graph s)"
    and own: "\<forall>x \<in> set ?t. \<exists>name. sn_owner x = Some name \<and> bt_contains (g_nodes (ns_graph s)) name"
    using ok by (auto simp: state_ok_def)
  have me: "bt_contains (g_nodes (ns_graph s)) (g_myself (ns_graph s))" using g by (simp add: graph_ok_def)
  have src: "ef_source f = subslice 6 12 p" using f by (simp add: parse_frame_Inr)
  have loc: "owned ?loc" "wf_subnet ?loc" "sn_owner ?loc = Some (g_myself (ns_graph s))"
    using len by (simp_all add: local_mac_def owned_def with_owner_def wf_subnet_def mac_subnet_def weighted_def
        DEFAULT_WEIGHT_def in_i32_def i32_min_def i32_max_def)
  have found: "lookup_owner_subnet ?t (g_myself (ns_graph s)) ?loc = lookup_exact ?t ?loc"
    by (simp add: lookup_owner_subnet_def local_mac_def with_owner_def)
  show ?thesis
  proof (cases "lookup_exact ?t ?loc = None")
    case True
    let ?new = "with_expiry ?e ?loc"
    have s': "s' = s\<lparr>ns_subnets := table_add ?new ?t\<rparr>"
      using l \<open>source = _\<close> True found by (simp add: learn_mac_def Let_def src local_mac_def [symmetric])
    have n: "no_expiry ?new = no_expiry ?loc" by (simp add: no_expiry_def with_expiry_def)
    have new: "owned ?new" "wf_subnet ?new" "subnet_key ?new = subnet_key ?loc" "sn_owner ?new = sn_owner ?loc"
      using n loc no_expiry_invariant(2-5) by metis+
    have ex: "lookup_exact ?t ?new = None"
      using True key_in_table [OF t(1) loc(1)] key_in_table [OF t(1) new(1)] new(3) by simp
    then have add: "snd (table_add_unique ?new ?t) = table_add ?new ?t" by (simp add: table_add_unique_def)
    have set: "set (table_add ?new ?t) = insert ?new (set ?t)" by (simp add: table_add_def)
    have "table_ok (table_add ?new ?t)" "table_unique (table_add ?new ?t)"
      using table_ok_add [OF t(1) new(1,2)] table_unique_add [OF t new(1)] add by simp_all
    then show ?thesis
      using ok me own loc(3) set new(3,4) \<open>source = _\<close> by (simp add: s' state_ok_def)
  next
    case False
    define f' :: "subnet \<Rightarrow> subnet" where "f' = (\<lambda>x. if sn_expires x \<noteq> None then x\<lparr>sn_expires := Some ?e\<rparr> else x)"
    have s': "s' = s\<lparr>ns_subnets := update_owner_subnet ?t (g_myself (ns_graph s)) ?loc f'\<rparr>"
      using l \<open>source = _\<close> False found by (simp add: learn_mac_def Let_def src local_mac_def [symmetric] f'_def)
    have "no_expiry (f' x) = no_expiry x" for x by (simp add: f'_def no_expiry_def)
    then have "map no_expiry (update_owner_subnet ?t (g_myself (ns_graph s)) ?loc f') = map no_expiry ?t"
      unfolding update_owner_subnet_def by (rule update_first_no_expiry)
    from same_table [OF this t] have *: "table_ok (ns_subnets s')" "table_unique (ns_subnets s')"
      "sn_owner ` set (ns_subnets s') = sn_owner ` set ?t"
      "subnet_key ` set (ns_subnets s') = subnet_key ` set ?t" by (simp_all add: s')
    have own': "\<exists>name. sn_owner x = Some name \<and> bt_contains (g_nodes (ns_graph s)) name"
      if "x \<in> set (ns_subnets s')" for x
    proof -
      have "sn_owner x \<in> sn_owner ` set ?t" using that *(3) by auto
      then show ?thesis using own by auto
    qed
    have "subnet_key ?loc \<in> subnet_key ` set ?t" using False key_in_table [OF t(1) loc(1)] by simp
    moreover have "ns_graph s' = ns_graph s" "ns_experimental s' = ns_experimental s" by (simp_all add: s')
    ultimately show ?thesis using * own' g \<open>source = _\<close> by (auto simp: state_ok_def)
  qed
qed

lemma route_packet_state:
  assumes ok: "state_ok s" and r: "route_packet s source p config = (out, s')"
  shows "state_ok s' \<and> ns_graph s' = ns_graph s
    \<and> (if rc_routing_mode config = Switch \<and> source = g_myself (ns_graph s) \<and> 14 \<le> length p
       then subnet_key ` set (ns_subnets s') = insert (subnet_key (local_mac s p)) (subnet_key ` set (ns_subnets s))
       else s' = s)"
proof (cases "rc_routing_mode config = Switch \<and> (\<exists>f. parse_frame p = Inr f)
    \<and> \<not> (rc_forwarding_mode config = FwdKernel \<and> source \<noteq> g_myself (ns_graph s))")
  case True
  then obtain f where f: "parse_frame p = Inr f" and len: "14 \<le> length p"
    by (auto simp: parse_frame_Inr)
  obtain learned where l: "learn_mac s source f config = (learned, s')"
    using True f r by (auto simp: route_packet_def route_mac_def split: if_splits prod.splits)
  show ?thesis using learn_mac_ok [OF ok len f l] True len by auto
next
  case False
  have "s' = s"
    using False r by (auto simp: route_packet_def split: if_splits sum.splits routing_mode.splits)
  moreover have "\<not> (rc_routing_mode config = Switch \<and> source = g_myself (ns_graph s) \<and> 14 \<le> length p)"
    using False by (auto simp: parse_frame_Inr)
  ultimately show ?thesis using ok by auto
qed

lemma route_packet_mut_cases:
  assumes "route_packet_mut s source p config = (out, q, s')"
  shows "\<exists>out0. route_packet s source p config = (out0, s') \<and> ro_learned out = ro_learned out0 \<and> length q = length p
    \<and> (out = out0 \<and> (q = p \<or> rc_decrement_ttl config \<and> (\<exists>r. decrement_ttl p = Inr (r, q)))
       \<or> q = p \<and> (ro_decision out = RouteDrop DropTtlExpired \<or> (\<exists>i j. ro_decision out = RouteDrop (DropTooShort i j))))"
proof -
  obtain out0 s0 where r: "route_packet s source p config = (out0, s0)" by (cases "route_packet s source p config")
  have len: "length q' = length p" if "decrement_ttl p = Inr (d, q')" for d q'
    using that decrement_ipv4 decrement_ipv6 payload_type_cases(3)
    by (auto simp: decrement_ttl_def result_Inr split: if_splits dest!: decrement_ipv4 decrement_ipv6)
  show ?thesis
  proof (cases "\<not> rc_decrement_ttl config \<or> \<not> should_decrement_ttl (ro_decision out0) source (g_myself (ns_graph s))")
    case True
    with assms r show ?thesis by (simp add: route_packet_mut_def Let_def)
  next
    case False
    with assms r len show ?thesis
      by (auto simp: route_packet_mut_def Let_def split: sum.splits ttl_error.splits)
  qed
qed

lemma route_action_state:
  assumes "route_packet_action s source p config = (r, s')"
  shows "s' = s \<or> (\<exists>out. route_packet s source p config = (out, s'))"
proof (cases "if rc_routing_mode config = Router then address_resolution_action s source p else None")
  case (Some a)
  with assms show ?thesis by (simp add: route_packet_action_def)
next
  case None
  obtain out q s0 where m: "route_packet_mut s source p config = (out, q, s0)"
    by (cases "route_packet_mut s source p config") auto
  with assms None have "s0 = s'" by (simp add: route_packet_action_def Let_def)
  with route_packet_mut_cases [OF m] show ?thesis by auto
qed

lemma mode_switch: "rc_routing_mode config = Switch \<Longrightarrow> route_packet_action s source p config = (r, s')
    \<Longrightarrow> \<exists>out. route_packet s source p config = (out, s')"
proof -
  assume a: "rc_routing_mode config = Switch" "route_packet_action s source p config = (r, s')"
  obtain out q s0 where m: "route_packet_mut s source p config = (out, q, s0)"
    by (cases "route_packet_mut s source p config") auto
  with a have "s0 = s'" by (simp add: route_packet_action_def Let_def)
  with route_packet_mut_cases [OF m] show ?thesis by auto
qed

text \<open>
  Routing a packet keeps the network state well formed and never touches the mesh; only in
  switch mode, for a frame from the local interface, does it change the subnet table, and then
  it adds exactly the sender's address as a subnet of this node (or refreshes its expiry).
\<close>

theorem routing_keeps_state:
  assumes "state_ok s" "route_packet_action s source p config = (r, s')"
  shows "state_ok s' \<and> ns_graph s' = ns_graph s
    \<and> (if rc_routing_mode config = Switch \<and> source = g_myself (ns_graph s) \<and> 14 \<le> length p
       then subnet_key ` set (ns_subnets s') = insert (subnet_key (local_mac s p)) (subnet_key ` set (ns_subnets s))
       else s' = s)"
proof (cases "rc_routing_mode config = Switch")
  case True
  from mode_switch [OF this assms(2)] route_packet_state [OF assms(1)] show ?thesis by blast
next
  case False
  from route_action_state [OF assms(2)] route_packet_state [OF assms(1), of source p config] False assms(1)
  show ?thesis by auto
qed

definition switch_config :: route_config where
  "switch_config = route_config_default\<lparr>rc_routing_mode := Switch\<rparr>"

theorem routing_keeps_state_witness:
  "\<exists>x \<in> set (ns_subnets (snd (route_packet_action (network_state_new (\<lambda>_. replicate 64 0) ''a'') ''a'' demo_udp switch_config))).
     sn_kind x = Mac [2, 0, 0, 0, 0, 2]"
proof -
  let ?s = "network_state_new (\<lambda>_. replicate 64 0) ''a''"
  have me: "g_myself (ns_graph ?s) = ''a''" by (simp add: network_state_new_def graph_new_def)
  have mode: "rc_routing_mode switch_config = Switch" by (simp add: switch_config_def)
  have src: "subslice 6 12 demo_udp = [2, 0, 0, 0, 0, 2]" "length demo_udp = 42"
    by (simp_all add: demo_udp_def subslice_def)
  have "subnet_key (local_mac ?s demo_udp)
      \<in> subnet_key ` set (ns_subnets (snd (route_packet_action ?s ''a'' demo_udp switch_config)))"
    using routing_keeps_state [OF state_ok_new [of "\<lambda>_. replicate 64 0" "''a''"] prod.collapse [symmetric],
        of "''a''" demo_udp switch_config] me src mode
    by simp
  then obtain x where x: "x \<in> set (ns_subnets (snd (route_packet_action ?s ''a'' demo_udp switch_config)))"
    "subnet_key x = subnet_key (local_mac ?s demo_udp)" by force
  then have "sn_kind x = Mac [2, 0, 0, 0, 0, 2]"
    by (auto simp: subnet_key_def local_mac_def mac_subnet_def with_owner_def weighted_def src type_order_def
        sn_bytes_def split: subnet_kind.splits)
  with x(1) show ?thesis by blast
qed

section \<open>Actions\<close>

lemma clamp_length: "clamp_tcp_mss p mtu = Inr (r, q) \<Longrightarrow> length q = length p \<and> ((\<forall>old new. r \<noteq> Clamped old new) \<longrightarrow> q = p)"
proof -
  assume c: "clamp_tcp_mss p mtu = Inr (r, q)"
  consider "q = p" | s n maximum where "clamp_option_loop p s n maximum 0 = (r, q)" "s + 20 + n \<le> length p"
    using clamp_result [OF c] by blast
  then show ?thesis
  proof cases
    case 2
    from option_loop_result [OF 2(1)] 2(2) show ?thesis
      by (auto simp: mss_replaced_copies)
  qed simp
qed

lemma ok_Some: "ok r = Some x \<longleftrightarrow> r = Inr x"
  by (cases r) (simp_all add: ok_def)

text \<open>What may leave for a given owner and next hop.\<close>

lemma send_action_cases:
  assumes "send_packet_action s source owner via p config = a"
  shows "(\<exists>q prio clamp. a = ActSend owner via q prio clamp \<and> length q = length p
            \<and> ((\<forall>old new. clamp \<noteq> Some (Clamped old new)) \<longrightarrow> q = p))
    \<or> (\<exists>frs prio mtu. a = ActSendFragments owner via frs prio \<and> fragment_ipv4_packet p mtu = Inr frs)
    \<or> (\<exists>q prio. a = ActReply source q prio)
    \<or> (\<exists>v. a = ActDrop (DropUnreachableOwner v) \<and> graph_node (ns_graph s) v = None)"
proof -
  let ?v = "case via of Some v \<Rightarrow> v | None \<Rightarrow> owner" and ?prio = "inherited_packet_priority p config"
  show ?thesis
  proof (cases "?v = g_myself (ns_graph s)")
    case True
    with assms show ?thesis by (auto simp: send_packet_action_def Let_def)
  next
    case not_me: False
    show ?thesis
    proof (cases "graph_node (ns_graph s) ?v")
      case None
      with assms not_me show ?thesis by (auto simp: send_packet_action_def Let_def)
    next
      case (Some n)
      let ?act = "if effective_route_mtu p (n_mtu n) (rc_routing_mode config) < length p
        then pmtu_action source owner via p (n_mtu n) (rc_routing_mode config) ?prio else None"
      show ?thesis
      proof (cases ?act)
        case (Some b)
        then have "a = b" using assms not_me \<open>graph_node _ _ = Some n\<close> by (auto simp: send_packet_action_def Let_def)
        moreover have "pmtu_action source owner via p (n_mtu n) (rc_routing_mode config) ?prio = Some b"
          using Some by (simp split: if_splits)
        then have "(\<exists>frs. b = ActSendFragments owner via frs ?prio \<and> fragment_ipv4_packet p (n_mtu n) = Inr frs)
            \<or> (\<exists>q. b = ActReply source q ?prio)"
          by (auto simp: pmtu_action_def ok_Some bind_eq_Some_conv split: sum.splits if_splits)
        ultimately show ?thesis by blast
      next
        case None
        let ?m = "min (case graph_node (ns_graph s) source of Some n \<Rightarrow> n_mtu n | None \<Rightarrow> DEFAULT_MTU) (n_mtu n)"
        have a: "a = (if n_options n AND OPTION_CLAMP_MSS \<noteq> 0 then
            (case clamp_tcp_mss p ?m of
               Inr (Clamped old new, packet') \<Rightarrow> ActSend owner via packet' ?prio (Some (Clamped old new))
             | Inr (AlreadySmall current maximum, packet') \<Rightarrow> ActSend owner via packet' ?prio (Some (AlreadySmall current maximum))
             | Inr (NotTcp, packet') \<Rightarrow> ActSend owner via packet' ?prio None
             | Inr (NoMssOption, packet') \<Rightarrow> ActSend owner via packet' ?prio None
             | Inl _ \<Rightarrow> ActSend owner via p ?prio None)
          else ActSend owner via p ?prio None)"
          using assms not_me \<open>graph_node _ _ = Some n\<close> None by (simp add: send_packet_action_def Let_def)
        show ?thesis
        proof (cases "clamp_tcp_mss p ?m")
          case (Inl e)
          then show ?thesis using a by simp
        next
          case (Inr x)
          obtain r q where x: "x = (r, q)" by (cases x)
          from clamp_length [OF Inr [unfolded x]] a Inr x show ?thesis by (cases r) (simp_all split: if_splits)
        qed
      qed
    qed
  qed
qed

lemma drop_reply_cases:
  "icmp_reply_for_drop source p reason prio = Some a \<Longrightarrow> \<exists>q. a = ActReply source q prio"
  by (auto simp: icmp_reply_for_drop_def bind_eq_Some_conv)

lemma route_packet_no_reply: "route_packet s source p config = (out, s') \<Longrightarrow> ro_decision out \<noteq> RouteReply t"
proof -
  have n: "ro_decision (route_to_subnet_owner s source x config) \<noteq> RouteReply t" for x
    by (simp add: route_to_subnet_owner_def outcome_new_def Let_def split: option.split)
  have m: "mac_decision s source frame config \<noteq> RouteReply t" for s frame
    by (simp add: mac_decision_def Let_def split: option.split)
  assume "route_packet s source p config = (out, s')"
  then have out: "out = fst (route_packet s source p config)" by simp
  show ?thesis unfolding out
    using n m by (simp add: route_packet_def route_ipv4_def route_ipv6_def route_mac_def outcome_new_def Let_def
        case_prod_beta split: sum.split routing_mode.split option.split)
qed

lemma action_follows:
  assumes "route_packet_action s source p config = (r, s')"
  shows "case rp_action r of
      ActSend owner via q prio clamp \<Rightarrow>
        ro_decision (rp_outcome r) = RouteSend owner via \<and> length q = length p
        \<and> (\<not> rc_decrement_ttl config \<and> (\<forall>old new. clamp \<noteq> Some (Clamped old new)) \<longrightarrow> q = p)
    | ActSendFragments owner via frs prio \<Rightarrow>
        ro_decision (rp_outcome r) = RouteSend owner via
        \<and> (\<exists>q mtu. length q = length p \<and> (\<not> rc_decrement_ttl config \<longrightarrow> q = p) \<and> fragment_ipv4_packet q mtu = Inr frs)
    | ActReply target q prio \<Rightarrow> target = source
    | ActBroadcast q \<Rightarrow> ro_decision (rp_outcome r) = RouteBroadcast \<and> length q = length p
        \<and> (\<not> rc_decrement_ttl config \<longrightarrow> q = p)
    | ActDeliverLocal q \<Rightarrow> ro_decision (rp_outcome r) = RouteDeliverLocal \<and> length q = length p
        \<and> (\<not> rc_decrement_ttl config \<longrightarrow> q = p)
    | ActDrop reason \<Rightarrow> ro_decision (rp_outcome r) = RouteDrop reason
        \<or> (\<exists>owner via. ro_decision (rp_outcome r) = RouteSend owner via)"
proof (cases "if rc_routing_mode config = Router then address_resolution_action s source p else None")
  case (Some a)
  then have r: "r = a" using assms by (simp add: route_packet_action_def)
  have "\<exists>res. a = packet_reply_action source res"
    using Some by (auto simp: address_resolution_action_def split: if_splits sum.splits)
  then obtain res where res: "r = packet_reply_action source res" unfolding r by blast
  then show ?thesis
  proof (cases res)
    case (Inr x)
    then show ?thesis by (cases x) (simp_all add: res packet_reply_action_def outcome_new_def)
  qed (simp add: res packet_reply_action_def outcome_new_def)
next
  case None
  obtain out q s0 where m: "route_packet_mut s source p config = (out, q, s0)"
    by (cases "route_packet_mut s source p config") auto
  from route_packet_mut_cases [OF m] have q: "length q = length p" "\<not> rc_decrement_ttl config \<longrightarrow> q = p"
    by auto
  have reply: "ro_decision out \<noteq> RouteReply t" for t
    using route_packet_mut_cases [OF m] route_packet_no_reply [of s source p config _ _ t] by auto
  show ?thesis
  proof (cases "ro_decision out")
    case (RouteSend owner via)
    then have a: "rp_action r = send_packet_action s0 source owner via q config" and d: "rp_outcome r = out"
      using assms None m by (auto simp: route_packet_action_def Let_def)
    show ?thesis
      using send_action_cases [OF a [symmetric]] q unfolding d RouteSend
      by (elim disjE exE conjE) (simp_all, blast)
  next
    case (RouteDrop reason)
    then show ?thesis
      using assms None m drop_reply_cases
      by (fastforce simp: route_packet_action_def Let_def split: option.splits)
  qed (use assms None m q reply in \<open>auto simp: route_packet_action_def Let_def\<close>)
qed

text \<open>
  What the router does is what it decided: a packet or its fragments leave only for the owner
  and next hop of a send decision, with the length of the packet and, unless the TTL was lowered
  or the MSS clamped, byte for byte; broadcasts and local deliveries carry the packet; every reply
  the router makes itself goes to the source; nothing is sent for a drop.
\<close>

theorem action_follows_decision:
  assumes "route_packet_action s source p config = (r, s')"
  shows "case rp_action r of
      ActSend owner via q prio clamp \<Rightarrow>
        ro_decision (rp_outcome r) = RouteSend owner via \<and> length q = length p
        \<and> (\<not> rc_decrement_ttl config \<and> (\<forall>old new. clamp \<noteq> Some (Clamped old new)) \<longrightarrow> q = p)
    | ActSendFragments owner via frs prio \<Rightarrow>
        ro_decision (rp_outcome r) = RouteSend owner via
        \<and> (\<exists>q mtu. length q = length p \<and> (\<not> rc_decrement_ttl config \<longrightarrow> q = p) \<and> fragment_ipv4_packet q mtu = Inr frs)
    | ActReply target q prio \<Rightarrow> target = source
    | ActBroadcast q \<Rightarrow> ro_decision (rp_outcome r) = RouteBroadcast \<and> length q = length p
        \<and> (\<not> rc_decrement_ttl config \<longrightarrow> q = p)
    | ActDeliverLocal q \<Rightarrow> ro_decision (rp_outcome r) = RouteDeliverLocal \<and> length q = length p
        \<and> (\<not> rc_decrement_ttl config \<longrightarrow> q = p)
    | ActDrop reason \<Rightarrow> ro_decision (rp_outcome r) = RouteDrop reason
        \<or> (\<exists>owner via. ro_decision (rp_outcome r) = RouteSend owner via)"
  using assms by (rule action_follows)

section \<open>Address resolution\<close>

lemma copy_at_middle: "length a = i \<Longrightarrow> length m = length bs \<Longrightarrow> copy_at i bs (a @ m @ d) = a @ bs @ d"
  by (simp add: copy_at_def)

lemma subslice_middle: "length a = i \<Longrightarrow> length (a @ m) = j \<Longrightarrow> subslice i j (a @ m @ d) = m"
  by (auto simp: subslice_def)

lemma arp_reply_parts:
  assumes "42 \<le> length p"
  shows "arp_reply p = take 20 p @ be16_bytes ARPOP_REPLY @ subslice 6 11 p @ [p ! 11 XOR 0xff]
    @ subslice 38 42 p @ subslice 22 28 p @ subslice 28 32 p @ drop 42 p"
proof -
  define A O' H P T U R where "A = take 20 p" and "O' = subslice 20 22 p" and "H = subslice 22 28 p"
    and "P = subslice 28 32 p" and "T = subslice 32 38 p" and "U = subslice 38 42 p" and "R = drop 42 p"
  have len: "length A = 20" "length O' = 2" "length H = 6" "length P = 4" "length T = 6" "length U = 4"
    using assms by (simp_all add: A_def O'_def H_def P_def T_def U_def)
  have p: "p = A @ O' @ H @ P @ T @ U @ R"
  proof -
    have "drop 20 p = O' @ drop 22 p" "drop 22 p = H @ drop 28 p" "drop 28 p = P @ drop 32 p"
      "drop 32 p = T @ drop 38 p" "drop 38 p = U @ drop 42 p"
      using append_take_drop_id [of 2 "drop 20 p"] append_take_drop_id [of 6 "drop 22 p"]
        append_take_drop_id [of 4 "drop 28 p"] append_take_drop_id [of 6 "drop 32 p"]
        append_take_drop_id [of 4 "drop 38 p"]
      by (simp_all add: O'_def H_def P_def T_def U_def subslice_def)
    then show ?thesis using append_take_drop_id [of 20 p] by (simp add: A_def R_def)
  qed
  define M x where "M = subslice 6 11 p" and "x = p ! 11"
  have src: "subslice 6 12 p = M @ [x]"
  proof -
    have "subslice 6 12 p = subslice 6 11 p @ subslice 11 12 p"
      using append_take_drop_id [of 5 "subslice 6 12 p"] by (simp add: subslice_def take_drop)
    moreover have "subslice 11 12 p = [p ! 11]"
      using assms by (intro nth_equalityI) (simp_all add: nth_subslice)
    ultimately show ?thesis by (simp add: M_def x_def)
  qed
  have lm: "length M = 5" using assms by (simp add: M_def)
  define W where "W = be16_bytes ARPOP_REPLY"
  have lw: "length W = 2" by (simp add: W_def)
  have 1: "copy_at 20 W p = A @ W @ H @ P @ T @ U @ R"
    unfolding p by (rule copy_at_middle) (simp_all add: len lw)
  have 2: "copy_at 22 (M @ [x]) (A @ W @ H @ P @ T @ U @ R) = A @ W @ M @ [x] @ P @ T @ U @ R"
    using copy_at_middle [of "A @ W" 22 H "M @ [x]" "P @ T @ U @ R"] by (simp add: len lw lm)
  have 3: "(A @ W @ M @ [x] @ P @ T @ U @ R)[27 := (A @ W @ M @ [x] @ P @ T @ U @ R) ! 27 XOR 0xff]
      = A @ W @ M @ [x XOR 0xff] @ P @ T @ U @ R"
    by (simp add: list_update_append nth_append len lw lm)
  have 4: "copy_at 28 U (A @ W @ M @ [x XOR 0xff] @ P @ T @ U @ R) = A @ W @ M @ [x XOR 0xff] @ U @ T @ U @ R"
    using copy_at_middle [of "A @ W @ M @ [x XOR 0xff]" 28 P U "T @ U @ R"] by (simp add: len lw lm)
  have 5: "copy_at 32 H (A @ W @ M @ [x XOR 0xff] @ U @ T @ U @ R) = A @ W @ M @ [x XOR 0xff] @ U @ H @ U @ R"
    using copy_at_middle [of "A @ W @ M @ [x XOR 0xff] @ U" 32 T H "U @ R"] by (simp add: len lw lm)
  have 6: "copy_at 38 P (A @ W @ M @ [x XOR 0xff] @ U @ H @ U @ R) = A @ W @ M @ [x XOR 0xff] @ U @ H @ P @ R"
    using copy_at_middle [of "A @ W @ M @ [x XOR 0xff] @ U @ H" 38 U P R] by (simp add: len lw lm)
  show ?thesis
    unfolding arp_reply_def Let_def ETH_HLEN_def
    by (simp only: src semiring_norm 1 2 3 4 5 6 numeral_plus_numeral add_numeral_left
        A_def [symmetric] H_def [symmetric] P_def [symmetric] U_def [symmetric] R_def [symmetric]
        W_def [symmetric] M_def [symmetric] x_def [symmetric])
qed

text \<open>
  Only the local interface gets ARP answers, and only for a valid request for an address that a
  subnet of another node covers; the answer claims that address for a made-up neighbor of the
  requester's Ethernet address, names the requester as target, and changes nothing else.
\<close>

theorem arp_reply_correct:
  assumes "arp_reply_packet s source p = Inr r"
  shows "source = g_myself (ns_graph s) \<and> 42 \<le> length p \<and> word_at p 20 = ARPOP_REQUEST
    \<and> (\<exists>x. lookup_reachable_ipv4 s (subslice 38 42 p) = Some x \<and> sn_owner x \<noteq> Some (g_myself (ns_graph s)))
    \<and> (\<exists>q. r = Some q \<and> length q = length p \<and> take 20 q = take 20 p \<and> drop 42 q = drop 42 p
        \<and> word_at q 20 = ARPOP_REPLY
        \<and> subslice 22 27 q = subslice 6 11 p \<and> q ! 27 = p ! 11 XOR 0xff
        \<and> subslice 28 32 q = subslice 38 42 p \<and> subslice 32 38 q = subslice 22 28 p
        \<and> subslice 38 42 q = subslice 28 32 p)"
proof -
  from assms have g: "source = g_myself (ns_graph s)" "42 \<le> length p" "word_at p 20 = ARPOP_REQUEST"
    "\<exists>x. lookup_reachable_ipv4 s (subslice 38 42 p) = Some x \<and> sn_owner x \<noteq> Some (g_myself (ns_graph s))"
    and r: "r = Some (arp_reply p)"
    by (auto simp: arp_reply_packet_def resolution_consts Let_def split: if_splits option.splits)
  let ?q = "arp_reply p"
  define A M U H P R W where "A = take 20 p" and "M = subslice 6 11 p" and "U = subslice 38 42 p"
    and "H = subslice 22 28 p" and "P = subslice 28 32 p" and "R = drop 42 p" and "W = be16_bytes ARPOP_REPLY"
  have len: "length A = 20" "length M = 5" "length U = 4" "length H = 6" "length P = 4" "length W = 2"
    using g(2) by (simp_all add: A_def M_def U_def H_def P_def W_def)
  have q: "?q = A @ W @ M @ [p ! 11 XOR 0xff] @ U @ H @ P @ R"
    unfolding A_def M_def U_def H_def P_def R_def W_def by (rule arp_reply_parts [OF g(2)])
  have "length ?q = length p" using g(2) len by (simp add: q R_def)
  moreover have "take 20 ?q = A" "drop 42 ?q = R" "?q ! 27 = p ! 11 XOR 0xff" "?q ! 20 = W ! 0" "?q ! 21 = W ! 1"
    using len by (simp_all add: q nth_append)
  moreover have "subslice 22 27 ?q = M" "subslice 28 32 ?q = U" "subslice 32 38 ?q = H" "subslice 38 42 ?q = P"
    using len by (simp_all add: q subslice_def)
  moreover have "be16 (W ! 0) (W ! 1) = ARPOP_REPLY" unfolding W_def by (rule be16_bytes_inverse)
  ultimately show ?thesis using g r by (auto simp: A_def M_def U_def H_def P_def R_def)
qed

text \<open>The neighbor advertisement, for a solicitation of \<open>n\<close> bytes.\<close>

lemma neighbor_advertisement_fields:
  assumes len: "54 + n \<le> length p" and n: "n = (if opt then 32 else 24)" and nh: "p ! 20 = IPPROTO_ICMPV6"
  defines "q \<equiv> neighbor_advertisement p opt n"
  shows "length q = length p" "subslice 0 6 q = subslice 6 12 p" "subslice 22 38 q = subslice 62 78 p"
    "subslice 38 54 q = subslice 22 38 p" "q ! 54 = ND_NEIGHBOR_ADVERT" "subslice 62 78 q = subslice 62 78 p"
    "verify_ipv6_payload_checksum q 14 n = 0"
proof -
  let ?src = "subslice 6 12 p" and ?target = "subslice 62 78 p" and ?ip = "subslice 22 38 p"
  define fake where "fake = ?src[5 := ?src ! 5 XOR 0xff]"
  define g1 where "g1 = copy_at 38 ?ip (copy_at 22 ?target (copy_at 6 fake (copy_at 0 ?src p)))"
  define g2 where "g2 = copy_at 58 (be32_bytes 0x40000000) (g1[54 := ND_NEIGHBOR_ADVERT, 56 := 0, 57 := 0])"
  define g3 where "g3 = (if opt then copy_at 80 fake (g2[78 := ND_OPT_TARGET_LINKADDR]) else g2)"
  define c where "c = ipv6_payload_checksum ?target ?ip IPPROTO_ICMPV6 n (subslice 54 (54 + n) g3)"
  have e: "q = copy_at 56 (be16_bytes c) g3"
    by (simp add: q_def neighbor_advertisement_def Let_def resolution_consts fake_def g1_def g2_def g3_def c_def)
  have lp: "78 \<le> length p" using len n by (auto split: if_splits)
  have lopt: "opt \<Longrightarrow> 86 \<le> length p" using len n by simp
  have ls: "length ?src = 6" "length ?target = 16" "length ?ip = 16" "length fake = 6"
    using lp by (simp_all add: fake_def)
  have l1: "length g1 = length p" using lp ls by (simp add: g1_def)
  have l2: "length g2 = length p" using lp l1 by (simp add: g2_def)
  have l3: "length g3 = length p" using lopt l2 ls by (auto simp: g3_def)
  show lq: "length q = length p" using l3 lp by (simp add: e)
  have at1: "g1 ! i = (if i < 6 then ?src ! i else if i < 12 then fake ! (i - 6) else if i < 22 then p ! i
      else if i < 38 then ?target ! (i - 22) else if i < 54 then ?ip ! (i - 38) else p ! i)"
    if "i < length p" for i using that lp ls by (simp add: g1_def nth_copy_at)
  have at3: "g3 ! i = g2 ! i" if "i < 78" for i
    using that lopt l2 ls lp by (auto simp: g3_def nth_copy_at)
  have at2: "g2 ! i = (if i = 54 then ND_NEIGHBOR_ADVERT else if i = 56 \<or> i = 57 then 0 else g1 ! i)"
    if "i < 58 \<or> 62 \<le> i \<and> i < length p" for i
    using that lp l1 by (auto simp: g2_def nth_copy_at nth_list_update)
  have at: "q ! i = g1 ! i" if "i < 54 \<or> 62 \<le> i \<and> i < 78" for i
    using that lp l3 at3 [of i] at2 [of i] by (auto simp: e nth_copy_at)
  show "q ! 54 = ND_NEIGHBOR_ADVERT" using lp l3 at3 [of 54] at2 [of 54] by (simp add: e nth_copy_at)
  show s0: "subslice 0 6 q = ?src" "subslice 22 38 q = ?target" "subslice 38 54 q = ?ip"
    "subslice 62 78 q = ?target"
    by (rule nth_equalityI; use lq lp ls at at1 in \<open>simp add: nth_subslice\<close>)+
  have q20: "q ! 20 = IPPROTO_ICMPV6" using at [of 20] at1 [of 20] lp nh by simp
  have "subslice 54 (54 + n) q = copy_at 2 (be16_bytes c) (subslice 54 (54 + n) g3)"
    unfolding e using n len l3 by (subst subslice_copy_at) (auto split: if_splits)
  moreover have "ipv6_payload_checksum ?target ?ip IPPROTO_ICMPV6 n
      (copy_at 2 (be16_bytes c) (subslice 54 (54 + n) g3)) = 0"
    unfolding c_def
  proof (rule payload_checksum_stored)
    show "subslice 54 (54 + n) g3 ! 2 = 0" "subslice 54 (54 + n) g3 ! 3 = 0"
      using n len l3 lp at3 [of 56] at3 [of 57] at2 [of 56] at2 [of 57] by (simp_all add: nth_subslice split: if_splits)
  qed (use ls n len l3 in \<open>simp_all split: if_splits\<close>)
  ultimately show "verify_ipv6_payload_checksum q 14 n = 0"
    using lq len s0 q20 by (simp add: verify_ipv6_payload_checksum_def Let_def)
qed

text \<open>
  Only the local interface gets neighbor advertisements, and only for a solicitation with a
  correct checksum for an address that a subnet of another node covers; the advertisement goes
  back to the requester from the address asked for and carries a correct checksum.
\<close>

theorem neighbor_advertisement_correct:
  assumes "neighbor_advertisement_packet s source p = Inr r"
  shows "source = g_myself (ns_graph s) \<and>
    (\<exists>n q. (n = 24 \<or> n = 32) \<and> 54 + n \<le> length p \<and> verify_ipv6_payload_checksum p 14 n = 0
      \<and> (\<exists>x. lookup_reachable_ipv6 s (subslice 62 78 p) = Some x \<and> sn_owner x \<noteq> Some (g_myself (ns_graph s)))
      \<and> r = Some q \<and> length q = length p \<and> subslice 0 6 q = subslice 6 12 p
      \<and> subslice 22 38 q = subslice 62 78 p \<and> subslice 38 54 q = subslice 22 38 p
      \<and> q ! 54 = ND_NEIGHBOR_ADVERT \<and> subslice 62 78 q = subslice 62 78 p
      \<and> verify_ipv6_payload_checksum q 14 n = 0)"
proof -
  define opt where "opt \<longleftrightarrow> 86 \<le> length p"
  define n where "n = (if opt then 32 else 24 :: nat)"
  from assms have g: "source = g_myself (ns_graph s)" "78 \<le> length p" "p ! 20 = IPPROTO_ICMPV6"
    "verify_ipv6_payload_checksum p 14 n = 0"
    "\<exists>x. lookup_reachable_ipv6 s (subslice 62 78 p) = Some x \<and> sn_owner x \<noteq> Some (g_myself (ns_graph s))"
    and r: "r = Some (neighbor_advertisement p opt n)"
    by (auto simp: neighbor_advertisement_packet_def resolution_consts Let_def opt_def n_def
        split: if_splits option.splits)
  have "54 + n \<le> length p" "n = (if opt then 32 else 24)" using g(2) by (auto simp: n_def opt_def)
  from neighbor_advertisement_fields [OF this g(3)] this g r show ?thesis by (auto simp: n_def)
qed

section \<open>Forwarding and the TTL\<close>

lemma clamp_keeps_prefix:
  assumes c: "clamp_tcp_mss p mtu = Inr (r, q)" and et: "ethernet_payload_type p = Inr (et, el)"
    and i: "i < el + 16" "i < length p"
  shows "q ! i = p ! i"
proof -
  consider "q = p" | s n maximum where "tcp_header_start p et el = Inr (Some s)" "s + 20 + n \<le> length p"
      "clamp_option_loop p s n maximum 0 = (r, q)"
    using clamp_result [OF c] et by auto
  then show ?thesis
  proof cases
    case 2
    have "el \<le> s" using 2(1) by (auto simp: tcp_header_start_def Let_def split: if_splits)
    moreover consider "q = p" | j where "s + 22 \<le> j" "j + 2 \<le> length p" "q = mss_replaced p s j maximum"
      using option_loop_result [OF 2(3)] 2(2) by fastforce
    then show ?thesis
    proof cases
      case 2
      then show ?thesis using i \<open>el \<le> s\<close> by (simp add: mss_replaced_copies nth_copy_at)
    qed simp
  qed simp
qed

lemma send_action_prefix:
  assumes "send_packet_action s source owner via p config = ActSend owner' via' q prio clamp"
    and "ethernet_payload_type p = Inr (et, el)" "i < el + 16" "i < length p"
  shows "q ! i = p ! i"
proof -
  have "q = p \<or> (\<exists>mtu r. clamp_tcp_mss p mtu = Inr (r, q))"
  proof -
    let ?v = "case via of Some v \<Rightarrow> v | None \<Rightarrow> owner"
    let ?prio = "inherited_packet_priority p config"
    have no: "pmtu_action source owner via p mtu mode ?prio \<noteq> Some (ActSend owner' via' q prio clamp)" for mtu mode
      by (auto simp: pmtu_action_def ok_Some bind_eq_Some_conv split: sum.splits)
    show ?thesis
      using assms(1) no
      by (auto simp: send_packet_action_def Let_def split: if_splits option.splits sum.splits mss_clamp.splits)
  qed
  with clamp_keeps_prefix assms(2-4) show ?thesis by blast
qed

lemma reply_action_not_send: "rp_action (packet_reply_action source res) \<noteq> ActSend owner via q prio clamp"
proof (cases res)
  case (Inr x)
  then show ?thesis by (cases x) (simp_all add: packet_reply_action_def)
qed (simp add: packet_reply_action_def)

lemma send_action_decided:
  assumes r: "route_packet_action s source p config = (r, s')" and a: "rp_action r = ActSend owner via q prio clamp"
  shows "\<exists>q0. route_packet_mut s source p config = (rp_outcome r, q0, s')
    \<and> ro_decision (rp_outcome r) = RouteSend owner via
    \<and> send_packet_action s' source owner via q0 config = ActSend owner via q prio clamp"
proof -
  have none: "(if rc_routing_mode config = Router then address_resolution_action s source p else None) = None"
  proof (cases "if rc_routing_mode config = Router then address_resolution_action s source p else None")
    case (Some b)
    then have "r = b" using r by (simp add: route_packet_action_def)
    moreover have "\<exists>res. b = packet_reply_action source res"
      using Some by (auto simp: address_resolution_action_def split: if_splits sum.splits)
    ultimately show ?thesis using a reply_action_not_send by blast
  qed
  obtain out q0 s0 where m: "route_packet_mut s source p config = (out, q0, s0)"
    by (cases "route_packet_mut s source p config") auto
  have s: "rp_outcome r = out" "s0 = s'" using r none m by (auto simp: route_packet_action_def Let_def)
  obtain o' v' where d: "ro_decision out = RouteSend o' v'"
  proof (cases "ro_decision out")
    case (RouteDrop reason)
    then show ?thesis
      using r none m a drop_reply_cases
      by (fastforce simp: route_packet_action_def Let_def split: option.splits)
  qed (use r none m a that in \<open>auto simp: route_packet_action_def Let_def\<close>)
  have "rp_action r = send_packet_action s' source o' v' q0 config"
    using r none m d s by (auto simp: route_packet_action_def Let_def)
  with a have act: "send_packet_action s' source o' v' q0 config = ActSend owner via q prio clamp" by simp
  from send_action_cases [OF this] have "o' = owner" "v' = via" by auto
  with m s d act show ?thesis by auto
qed

lemma mut_decremented:
  assumes m: "route_packet_mut s source p config = (out, q, s')" and d: "ro_decision out = RouteSend owner via"
    and c: "rc_decrement_ttl config" "source \<noteq> g_myself (ns_graph s)" "owner \<noteq> g_myself (ns_graph s)"
  shows "\<exists>r. decrement_ttl p = Inr (r, q)"
proof -
  obtain o0 s0 where o0: "route_packet s source p config = (o0, s0)" by (cases "route_packet s source p config")
  have "should_decrement_ttl (ro_decision o0) source (g_myself (ns_graph s))"
  proof (rule ccontr)
    assume n: "\<not> ?thesis"
    then have "out = o0" using m o0 by (simp add: route_packet_mut_def Let_def)
    with n d c show False by (simp add: should_decrement_ttl_def)
  qed
  with m o0 c(1) d show ?thesis
    by (auto simp: route_packet_mut_def Let_def split: sum.splits ttl_error.splits)
qed


section \<open>Witnesses\<close>

lemma demo_net_action:
  "rp_action (fst (route_packet_action demo_net ''a'' demo_udp route_config_default))
     = ActSend ''b'' (Some ''b'') demo_udp None None"
  by code_simp

theorem action_follows_decision_witness:
  "ro_decision (rp_outcome (fst (route_packet_action demo_net ''a'' demo_udp route_config_default)))
     = RouteSend ''b'' (Some ''b'')"
  using action_follows_decision [OF prod.collapse [symmetric], of demo_net "''a''" demo_udp route_config_default]
  by (simp add: demo_net_action)

definition demo_arp :: "byte list" where
  "demo_arp = [255, 255, 255, 255, 255, 255, 2, 0, 0, 0, 0, 1, 8, 6, 0, 1, 8, 0, 6, 4, 0, 1,
     2, 0, 0, 0, 0, 1, 10, 0, 0, 1, 0, 0, 0, 0, 0, 0, 10, 0, 0, 2]"

lemma demo_arp_answered: "\<exists>r. arp_reply_packet demo_net ''a'' demo_arp = Inr r"
proof -
  have "case arp_reply_packet demo_net ''a'' demo_arp of Inl _ \<Rightarrow> False | Inr _ \<Rightarrow> True" by code_simp
  then show ?thesis by (auto split: sum.splits)
qed

theorem arp_reply_correct_witness:
  "\<exists>q. arp_reply_packet demo_net ''a'' demo_arp = Inr (Some q) \<and> subslice 28 32 q = [10, 0, 0, 2]"
proof -
  obtain r where r: "arp_reply_packet demo_net ''a'' demo_arp = Inr r" using demo_arp_answered by blast
  have "subslice 38 42 demo_arp = [10, 0, 0, 2]" by (simp add: demo_arp_def subslice_def)
  with arp_reply_correct [OF r] r show ?thesis by auto
qed

definition demo_ttl :: route_config where
  "demo_ttl = route_config_default\<lparr>rc_decrement_ttl := True\<rparr>"

lemma demo_ttl_send:
  "ro_decision (fst (route_packet demo_net ''c'' demo_udp demo_ttl)) = RouteSend ''b'' (Some ''b'')"
  "address_resolution_action demo_net ''c'' demo_udp = None"
  "snd (route_packet demo_net ''c'' demo_udp demo_ttl) = demo_net"
  by code_simp+


definition demo_solicit :: "byte list" where
  "demo_solicit = [2, 0, 0, 0, 0, 1, 2, 0, 0, 0, 0, 2, 134, 221, 96, 0, 0, 0, 0, 24, 58, 255,
     0, 0, 0, 0, 0, 0, 0, 0, 0, 0, 0, 0, 0, 0, 0, 1, 0, 0, 0, 0, 0, 0, 0, 0, 0, 0, 0, 0, 0, 0, 0, 2,
     135, 0, 120, 168, 0, 0, 0, 0, 0, 0, 0, 0, 0, 0, 0, 0, 0, 0, 0, 0, 0, 0, 0, 2]"

definition demo_net6 :: network_state where
  "demo_net6 = demo_net\<lparr>ns_subnets := [with_owner ''b'' (weighted (Ipv6 (replicate 15 0 @ [2]) 128) 10)]\<rparr>"

lemma demo_solicit_checksum: "verify_ipv6_payload_checksum demo_solicit 14 24 = 0"
proof -
  have "verify_ipv6_payload_checksum demo_solicit 14 24
      = internet_checksum (subslice 22 38 demo_solicit @ subslice 38 54 demo_solicit
          @ be32_bytes 24 @ [0, 0, 0, 58] @ subslice 54 78 demo_solicit) 0xffff"
    by (simp add: verify_ipv6_payload_checksum_def ipv6_payload_checksum_def demo_solicit_def)
  moreover have "checksum_ok (subslice 22 38 demo_solicit @ subslice 38 54 demo_solicit
          @ be32_bytes 24 @ [0, 0, 0, 58] @ subslice 54 78 demo_solicit)"
    by (subst checksum_ok_iff) (simp_all add: demo_solicit_def subslice_def be32_bytes_def)
  ultimately show ?thesis by (simp add: checksum_ok_def)
qed

lemma demo_solicit_lookup:
  "\<exists>x. lookup_reachable_ipv6 demo_net6 (subslice 62 78 demo_solicit) = Some x \<and> sn_owner x = Some ''b''"
proof -
  have "case lookup_reachable_ipv6 demo_net6 (subslice 62 78 demo_solicit) of
      Some x \<Rightarrow> sn_owner x = Some ''b'' | None \<Rightarrow> False"
    by code_simp
  then show ?thesis by (auto split: option.splits)
qed

theorem neighbor_advertisement_correct_witness:
  "\<exists>q. neighbor_advertisement_packet demo_net6 ''a'' demo_solicit = Inr (Some q)
     \<and> verify_ipv6_payload_checksum q 14 24 = 0"
proof -
  have me: "g_myself (ns_graph demo_net6) = ''a''" by (simp add: demo_net6_def demo_net_def)
  have b: "length demo_solicit = 78" "demo_solicit ! 20 = 58" "demo_solicit ! 54 = 135"
    "word_at demo_solicit 12 = ETH_P_IPV6"
    by (simp_all add: demo_solicit_def be16_def ETH_P_IPV6_def)
  have "\<exists>r. neighbor_advertisement_packet demo_net6 ''a'' demo_solicit = Inr r"
    using me b demo_solicit_checksum demo_solicit_lookup
    by (auto simp: neighbor_advertisement_packet_def resolution_consts Let_def IPPROTO_ICMPV6_def
        ND_NEIGHBOR_SOLICIT_def)
  then obtain r where r: "neighbor_advertisement_packet demo_net6 ''a'' demo_solicit = Inr r" by blast
  from neighbor_advertisement_correct [OF r] b(1) obtain n q where
    "n = 24 \<or> n = 32" "54 + n \<le> 78" "r = Some q" "verify_ipv6_payload_checksum q 14 n = 0" by auto
  with r show ?thesis by auto
qed

end
