(* ===== verification/Rust_Lines.thy ===== *)
theory Rust_Lines
  imports Rust_Text
begin

text \<open>
  The line operations of Rust's \<^verbatim>\<open>str\<close> that the file parsers use: \<^verbatim>\<open>str::lines\<close> (lines end at
  a line feed, a carriage return before it is dropped, a final empty piece is not a line) and
  \<^verbatim>\<open>trim_end_matches\<close> for one character.
\<close>

definition LF :: char where "LF = CHR 0x0A"
definition CR :: char where "CR = CHR 0x0D"

definition strip_cr :: "string \<Rightarrow> string" where
  "strip_cr l = (if l \<noteq> [] \<and> last l = CR then butlast l else l)"

definition rust_lines :: "string \<Rightarrow> string list" where
  "rust_lines s =
     (let parts = split_on LF s
      in map strip_cr (butlast parts) @ (if last parts = [] then [] else [last parts]))"

definition trim_end_char :: "char \<Rightarrow> string \<Rightarrow> string" where
  "trim_end_char c s = rev (dropWhile (\<lambda>x. x = c) (rev s))"

lemma trim_end_char_id: "s = [] \<or> last s \<noteq> c \<Longrightarrow> trim_end_char c s = s"
  by (cases s rule: rev_cases) (simp_all add: trim_end_char_def)

lemma strip_cr_id: "CR \<notin> set l \<Longrightarrow> strip_cr l = l"
  by (auto simp: strip_cr_def dest: last_in_set)

text \<open>A line terminated by a line feed is read back as it was written.\<close>

lemma rust_lines_Nil [simp]: "rust_lines [] = []"
  by (simp add: rust_lines_def)

lemma rust_lines_Cons:
  assumes "LF \<notin> set l" "CR \<notin> set l"
  shows "rust_lines (l @ LF # s) = l # rust_lines s"
  using assms by (simp add: rust_lines_def split_on_append strip_cr_id Let_def)

lemma rust_lines_written:
  assumes "\<forall>l \<in> set ls. LF \<notin> set l \<and> CR \<notin> set l"
  shows "rust_lines (concat (map (\<lambda>l. l @ [LF]) ls)) = ls"
  using assms by (induction ls) (simp_all add: rust_lines_Cons)

end
