(* ===== verification/Sptps_Crypto.thy ===== *)
theory Sptps_Crypto
  imports Rust_Lines Utils
begin

text \<open>
  The keys and primitives of \<^verbatim>\<open>tinc-runtime/src/sptps.rs\<close>: constants, errors, session keys and
  their derivation, the ChaCha20-Poly1305 record protection, Ed25519 signatures as tinc lays them
  out, ephemeral key agreement, and the PEM form of the keys.

  The ciphers, hashes and curve arithmetic are third-party crates (chacha20, poly1305, hmac, sha2,
  curve25519-dalek): the record \<open>sptps_crypto\<close> holds the operations the source calls, with curve
  points of type \<open>'p\<close> and scalars modulo the group order of type \<open>'s\<close>, whose ring
  operations are those of the type class.
\<close>

section \<open>Constants\<close>

definition SPTPS_VERSION :: byte where "SPTPS_VERSION = 0"
definition SPTPS_HANDSHAKE :: byte where "SPTPS_HANDSHAKE = 128"
definition SPTPS_DATAGRAM_OVERHEAD :: nat where "SPTPS_DATAGRAM_OVERHEAD = 21"
definition SPTPS_SEQNO_LEN :: nat where "SPTPS_SEQNO_LEN = 4"
definition SPTPS_TAG_LEN :: nat where "SPTPS_TAG_LEN = 16"
definition SPTPS_TCP_HEADER_LEN :: nat where "SPTPS_TCP_HEADER_LEN = 3"
definition SPTPS_TCP_AUTH_OVERHEAD :: nat where "SPTPS_TCP_AUTH_OVERHEAD = 19"
definition SPTPS_KEY_LEN :: nat where "SPTPS_KEY_LEN = 64"
definition SPTPS_KEY_MATERIAL_LEN :: nat where "SPTPS_KEY_MATERIAL_LEN = SPTPS_KEY_LEN * 2"
definition SPTPS_KEX_NONCE_LEN :: nat where "SPTPS_KEX_NONCE_LEN = 32"
definition SPTPS_KEX_PUBKEY_LEN :: nat where "SPTPS_KEX_PUBKEY_LEN = 32"
definition SPTPS_KEX_LEN :: nat where
  "SPTPS_KEX_LEN = 1 + SPTPS_KEX_NONCE_LEN + SPTPS_KEX_PUBKEY_LEN"
definition ED25519_PUBLIC_KEY_LEN :: nat where "ED25519_PUBLIC_KEY_LEN = 32"
definition ED25519_EXPANDED_PRIVATE_KEY_LEN :: nat where "ED25519_EXPANDED_PRIVATE_KEY_LEN = 64"
definition ED25519_TINC_PRIVATE_KEY_LEN :: nat where
  "ED25519_TINC_PRIVATE_KEY_LEN = ED25519_EXPANDED_PRIVATE_KEY_LEN + ED25519_PUBLIC_KEY_LEN"
definition ED25519_SIGNATURE_LEN :: nat where "ED25519_SIGNATURE_LEN = 64"
definition ED25519_PUBLIC_KEY_BASE64_LEN :: nat where "ED25519_PUBLIC_KEY_BASE64_LEN = 43"
definition DEFAULT_SPTPS_REPLAY_WINDOW_BYTES :: nat where "DEFAULT_SPTPS_REPLAY_WINDOW_BYTES = 16"
definition SPTPS_PRF_DIGEST_LEN :: nat where "SPTPS_PRF_DIGEST_LEN = 64"
definition ED25519_PUBLIC_PEM_TYPE :: string where
  "ED25519_PUBLIC_PEM_TYPE = ''ED25519 PUBLIC KEY''"
definition ED25519_PRIVATE_PEM_TYPE :: string where
  "ED25519_PRIVATE_PEM_TYPE = ''ED25519 PRIVATE KEY''"
definition TINC_PEM_CHUNK_LEN :: nat where "TINC_PEM_CHUNK_LEN = 48"

lemmas sptps_lens = SPTPS_DATAGRAM_OVERHEAD_def SPTPS_SEQNO_LEN_def SPTPS_TAG_LEN_def
  SPTPS_TCP_HEADER_LEN_def SPTPS_TCP_AUTH_OVERHEAD_def SPTPS_KEY_LEN_def
  SPTPS_KEY_MATERIAL_LEN_def SPTPS_KEX_NONCE_LEN_def SPTPS_KEX_PUBKEY_LEN_def SPTPS_KEX_LEN_def
  ED25519_PUBLIC_KEY_LEN_def ED25519_EXPANDED_PRIVATE_KEY_LEN_def ED25519_TINC_PRIVATE_KEY_LEN_def
  ED25519_SIGNATURE_LEN_def ED25519_PUBLIC_KEY_BASE64_LEN_def SPTPS_PRF_DIGEST_LEN_def
  TINC_PEM_CHUNK_LEN_def

section \<open>Errors\<close>

datatype sptps_handshake_state = StateKex | StateSecondaryKex | StateSig | StateAck

datatype sptps_error =
    InvalidKeyLength nat nat
  | InvalidKeyMaterialLength nat nat
  | InvalidRecordType byte
  | InvalidKexLength nat nat
  | InvalidKexVersion byte
  | DuplicateKex
  | InvalidPublicKeyLength nat nat
  | InvalidPrivateKeyLength nat nat
  | InvalidSignatureLength nat nat
  | InvalidPublicKeyBase64Length nat nat
  | InvalidPem string
  | InvalidPemBase64
  | InvalidEd25519PublicKey
  | SignatureVerificationFailed
  | RandomFailed string
  | MissingHandshakeState string
  | UnexpectedHandshakeRecord sptps_handshake_state nat
  | PacketTooShort nat nat
  | RecordTooLarge nat nat
  | InvalidRecordLength nat nat
  | UnexpectedSeqno u32 u32
  | Replay u32 u32
  | FarFuture u32 u32 u32 u32
  | AuthenticationFailed

section \<open>Primitives\<close>

text \<open>
  \<open>cr_keystream key nonce i\<close> is byte \<open>i\<close> of the ChaCha20 key stream; the stream position a
  \<^verbatim>\<open>seek\<close> selects is the first byte \<^verbatim>\<open>apply_keystream\<close> uses.  \<open>cr_shared_mul P k\<close> is
  \<^verbatim>\<open>P.to_montgomery().mul_clamped(k)\<close>.
\<close>

record ('p, 's) sptps_crypto =
  cr_keystream :: "byte list \<Rightarrow> byte list \<Rightarrow> nat \<Rightarrow> byte"
  cr_poly1305 :: "byte list \<Rightarrow> byte list \<Rightarrow> byte list"
  cr_hmac_sha512 :: "byte list \<Rightarrow> byte list \<Rightarrow> byte list"
  cr_sha512 :: "byte list \<Rightarrow> byte list"
  cr_scalar_wide :: "byte list \<Rightarrow> 's"
  cr_scalar :: "byte list \<Rightarrow> 's"
  cr_scalar_bytes :: "'s \<Rightarrow> byte list"
  cr_mul_base :: "'s \<Rightarrow> 'p"
  cr_mul_base_clamped :: "byte list \<Rightarrow> 'p"
  cr_neg :: "'p \<Rightarrow> 'p"
  cr_double_mul :: "'s \<Rightarrow> 'p \<Rightarrow> 's \<Rightarrow> 'p"
  cr_compress :: "'p \<Rightarrow> byte list"
  cr_decompress :: "byte list \<Rightarrow> 'p option"
  cr_shared_mul :: "'p \<Rightarrow> byte list \<Rightarrow> byte list"

definition constant_time_eq :: "byte list \<Rightarrow> byte list \<Rightarrow> bool" where
  "constant_time_eq left right =
     (if length left \<noteq> length right then False
      else fold (\<lambda>(l, r) diff. diff OR (l XOR r)) (zip left right) 0 = 0)"

lemma constant_time_eq_iff [simp]: "constant_time_eq l r \<longleftrightarrow> l = r"
  by (auto simp: constant_time_eq_def fold_diff)

section \<open>Session keys\<close>

datatype sptps_key = SptpsKey (key_bytes: "byte list")

definition key_try_from_slice :: "byte list \<Rightarrow> sptps_error + sptps_key" where
  "key_try_from_slice bytes =
     (if length bytes = SPTPS_KEY_LEN then Inr (SptpsKey bytes)
      else Inl (InvalidKeyLength SPTPS_KEY_LEN (length bytes)))"

definition chacha_key :: "sptps_key \<Rightarrow> byte list" where
  "chacha_key k = take 32 (key_bytes k)"

record sptps_key_material =
  km_key0 :: sptps_key
  km_key1 :: sptps_key

definition material_new :: "byte list \<Rightarrow> sptps_key_material" where
  "material_new bytes = \<lparr>km_key0 = SptpsKey (take SPTPS_KEY_LEN bytes),
     km_key1 = SptpsKey (drop SPTPS_KEY_LEN bytes)\<rparr>"

definition material_try_from_slice :: "byte list \<Rightarrow> sptps_error + sptps_key_material" where
  "material_try_from_slice bytes =
     (if length bytes = SPTPS_KEY_MATERIAL_LEN then Inr (material_new bytes)
      else Inl (InvalidKeyMaterialLength SPTPS_KEY_MATERIAL_LEN (length bytes)))"

definition material_as_bytes :: "sptps_key_material \<Rightarrow> byte list" where
  "material_as_bytes m =
     copy_at SPTPS_KEY_LEN (key_bytes (km_key1 m))
       (copy_at 0 (key_bytes (km_key0 m)) (replicate SPTPS_KEY_MATERIAL_LEN 0))"

text \<open>The incoming key first, the outgoing key second.\<close>

definition keys_for_role :: "bool \<Rightarrow> sptps_key_material \<Rightarrow> sptps_key \<times> sptps_key" where
  "keys_for_role initiator m =
     (if initiator then (km_key0 m, km_key1 m) else (km_key1 m, km_key0 m))"

text \<open>
  The loop of \<^verbatim>\<open>sptps_prf\<close>: \<open>data\<close> is the chaining block followed by the seed, \<open>n\<close> the number
  of output bytes still to fill.
\<close>

function prf_loop :: "(byte list \<Rightarrow> byte list \<Rightarrow> byte list) \<Rightarrow> byte list \<Rightarrow> byte list \<Rightarrow> nat \<Rightarrow> byte list" where
  "prf_loop hmac secret data n =
     (if n = 0 then []
      else let data = copy_at 0 (hmac secret data) data;
               hash = hmac secret data;
               k = min n SPTPS_PRF_DIGEST_LEN
           in take k hash @ prf_loop hmac secret data (n - k))"
  by auto
termination
  by (relation "measure (\<lambda>(_, _, _, n). n)") (auto simp: SPTPS_PRF_DIGEST_LEN_def)

declare prf_loop.simps [simp del]

definition sptps_prf :: "('p, 's) sptps_crypto \<Rightarrow> byte list \<Rightarrow> byte list \<Rightarrow> nat \<Rightarrow> byte list" where
  "sptps_prf C secret seed n =
     prf_loop (cr_hmac_sha512 C) secret (replicate SPTPS_PRF_DIGEST_LEN 0 @ seed) n"

definition byte_string :: "string \<Rightarrow> byte list" where
  "byte_string s = map (\<lambda>c. of_nat (code c)) s"

definition material_derive ::
  "('p, 's) sptps_crypto \<Rightarrow> byte list \<Rightarrow> byte list \<Rightarrow> byte list \<Rightarrow> byte list \<Rightarrow> sptps_key_material" where
  "material_derive C shared initiator_nonce responder_nonce label =
     material_new (sptps_prf C shared
       (byte_string ''key expansion'' @ initiator_nonce @ responder_nonce @ label)
       SPTPS_KEY_MATERIAL_LEN)"

section \<open>Record protection\<close>

definition chacha20_xor ::
  "('p, 's) sptps_crypto \<Rightarrow> sptps_key \<Rightarrow> u32 \<Rightarrow> nat \<Rightarrow> byte list \<Rightarrow> byte list" where
  "chacha20_xor C key seqno counter data =
     (let nonce64 = copy_at 4 (be32_bytes seqno) (replicate 8 0);
          pos = min (counter * 64) (2 ^ 64 - 1)
      in map2 (\<lambda>d k. d XOR k) data
           (map (\<lambda>i. cr_keystream C (chacha_key key) nonce64 (pos + i)) [0..<length data]))"

definition chacha20_block ::
  "('p, 's) sptps_crypto \<Rightarrow> sptps_key \<Rightarrow> u32 \<Rightarrow> nat \<Rightarrow> nat \<Rightarrow> byte list" where
  "chacha20_block C key seqno counter len = chacha20_xor C key seqno counter (replicate len 0)"

definition chacha_poly1305_encrypt ::
  "('p, 's) sptps_crypto \<Rightarrow> sptps_key \<Rightarrow> u32 \<Rightarrow> byte list \<Rightarrow> byte list" where
  "chacha_poly1305_encrypt C key seqno plaintext =
     (let poly_key = chacha20_block C key seqno 0 32;
          ciphertext = chacha20_xor C key seqno 1 plaintext
      in ciphertext @ cr_poly1305 C poly_key ciphertext)"

definition chacha_poly1305_decrypt ::
  "('p, 's) sptps_crypto \<Rightarrow> sptps_key \<Rightarrow> u32 \<Rightarrow> byte list \<Rightarrow> sptps_error + byte list" where
  "chacha_poly1305_decrypt C key seqno ct =
     (if length ct < SPTPS_TAG_LEN then Inl (PacketTooShort SPTPS_TAG_LEN (length ct))
      else let ciphertext_len = length ct - SPTPS_TAG_LEN;
               ciphertext = take ciphertext_len ct;
               tag = drop ciphertext_len ct;
               poly_key = chacha20_block C key seqno 0 32;
               expected = cr_poly1305 C poly_key ciphertext
           in if \<not> constant_time_eq expected tag then Inl AuthenticationFailed
              else Inr (chacha20_xor C key seqno 1 ciphertext))"

section \<open>Ed25519 keys\<close>

datatype ed25519_public_key = PublicKey (public_bytes: "byte list")

definition public_try_from_slice :: "byte list \<Rightarrow> sptps_error + ed25519_public_key" where
  "public_try_from_slice bytes =
     (if length bytes = ED25519_PUBLIC_KEY_LEN then Inr (PublicKey bytes)
      else Inl (InvalidPublicKeyLength ED25519_PUBLIC_KEY_LEN (length bytes)))"

definition public_from_base64 :: "string \<Rightarrow> sptps_error + ed25519_public_key" where
  "public_from_base64 input =
     (if length input \<noteq> ED25519_PUBLIC_KEY_BASE64_LEN
      then Inl (InvalidPublicKeyBase64Length ED25519_PUBLIC_KEY_BASE64_LEN (length input))
      else and_then (ok_or InvalidPemBase64 (b64decode_tinc input)) public_try_from_slice)"

definition public_to_base64 :: "ed25519_public_key \<Rightarrow> string" where
  "public_to_base64 k = b64encode_tinc (public_bytes k)"

definition ed25519_hram ::
  "('p, 's) sptps_crypto \<Rightarrow> byte list \<Rightarrow> byte list \<Rightarrow> byte list \<Rightarrow> 's" where
  "ed25519_hram C r public_key message =
     cr_scalar_wide C (cr_sha512 C (r @ public_key @ message))"

definition ed25519_verify ::
  "('p, 's) sptps_crypto \<Rightarrow> ed25519_public_key \<Rightarrow> byte list \<Rightarrow> byte list \<Rightarrow> sptps_error + unit" where
  "ed25519_verify C key message signature =
     (if length signature \<noteq> ED25519_SIGNATURE_LEN
      then Inl (InvalidSignatureLength ED25519_SIGNATURE_LEN (length signature))
      else if signature ! (ED25519_SIGNATURE_LEN - 1) AND 0xe0 \<noteq> 0
      then Inl SignatureVerificationFailed
      else case cr_decompress C (public_bytes key) of
             None \<Rightarrow> Inl InvalidEd25519PublicKey
           | Some public_point \<Rightarrow>
               let r_bytes = take ED25519_PUBLIC_KEY_LEN signature;
                   s_bytes = drop ED25519_PUBLIC_KEY_LEN signature;
                   h = ed25519_hram C r_bytes (public_bytes key) message;
                   s = cr_scalar C s_bytes;
                   check = cr_double_mul C h (cr_neg C public_point) s
               in if constant_time_eq (cr_compress C check) r_bytes then Inr ()
                  else Inl SignatureVerificationFailed)"

record ed25519_private_key =
  pk_expanded :: "byte list"
  pk_public :: ed25519_public_key

definition clamp_ed25519_scalar :: "byte list \<Rightarrow> byte list" where
  "clamp_ed25519_scalar bytes =
     (let bytes = bytes[0 := bytes ! 0 AND 248];
          bytes = bytes[31 := bytes ! 31 AND 63]
      in bytes[31 := bytes ! 31 OR 64])"

definition private_from_seed :: "('p, 's) sptps_crypto \<Rightarrow> byte list \<Rightarrow> ed25519_private_key" where
  "private_from_seed C seed =
     (let digest = cr_sha512 C seed;
          expanded = clamp_ed25519_scalar (take ED25519_PUBLIC_KEY_LEN digest)
                     @ drop ED25519_PUBLIC_KEY_LEN digest;
          scalar = take ED25519_PUBLIC_KEY_LEN expanded
      in \<lparr>pk_expanded = expanded,
          pk_public = PublicKey (cr_compress C (cr_mul_base_clamped C scalar))\<rparr>)"

definition private_try_from :: "byte list \<Rightarrow> sptps_error + ed25519_private_key" where
  "private_try_from bytes =
     (if length bytes \<noteq> ED25519_TINC_PRIVATE_KEY_LEN
      then Inl (InvalidPrivateKeyLength ED25519_TINC_PRIVATE_KEY_LEN (length bytes))
      else Inr \<lparr>pk_expanded = take ED25519_EXPANDED_PRIVATE_KEY_LEN bytes,
                pk_public = PublicKey (drop ED25519_EXPANDED_PRIVATE_KEY_LEN bytes)\<rparr>)"

definition private_as_tinc :: "ed25519_private_key \<Rightarrow> byte list" where
  "private_as_tinc k =
     copy_at ED25519_EXPANDED_PRIVATE_KEY_LEN (public_bytes (pk_public k))
       (copy_at 0 (pk_expanded k) (replicate ED25519_TINC_PRIVATE_KEY_LEN 0))"

definition ed25519_sign ::
  "('p, 's::comm_ring_1) sptps_crypto \<Rightarrow> ed25519_private_key \<Rightarrow> byte list \<Rightarrow> byte list" where
  "ed25519_sign C key message =
     (let r = cr_scalar_wide C (cr_sha512 C
                (drop ED25519_PUBLIC_KEY_LEN (pk_expanded key) @ message));
          r_bytes = cr_compress C (cr_mul_base C r);
          h = ed25519_hram C r_bytes (public_bytes (pk_public key)) message;
          private_scalar = cr_scalar C (take ED25519_PUBLIC_KEY_LEN (pk_expanded key));
          s = cr_scalar_bytes C (h * private_scalar + r)
      in copy_at ED25519_PUBLIC_KEY_LEN s
           (copy_at 0 r_bytes (replicate ED25519_SIGNATURE_LEN 0)))"

section \<open>Ephemeral keys\<close>

record sptps_ephemeral_key =
  eph_expanded :: "byte list"
  eph_public :: "byte list"

definition ephemeral_from_seed :: "('p, 's) sptps_crypto \<Rightarrow> byte list \<Rightarrow> sptps_ephemeral_key" where
  "ephemeral_from_seed C seed =
     (let key = private_from_seed C seed
      in \<lparr>eph_expanded = pk_expanded key, eph_public = public_bytes (pk_public key)\<rparr>)"

definition compute_shared ::
  "('p, 's) sptps_crypto \<Rightarrow> sptps_ephemeral_key \<Rightarrow> byte list \<Rightarrow> sptps_error + byte list" where
  "compute_shared C key peer_public_key =
     (case cr_decompress C peer_public_key of
        None \<Rightarrow> Inl InvalidEd25519PublicKey
      | Some peer \<Rightarrow> Inr (cr_shared_mul C peer (take ED25519_PUBLIC_KEY_LEN (eph_expanded key))))"

section \<open>PEM files\<close>

definition pem_begin :: "string \<Rightarrow> string" where
  "pem_begin pem_type = ''-----BEGIN '' @ pem_type @ ''-----''"

definition pem_end :: "string \<Rightarrow> string" where
  "pem_end pem_type = ''-----END '' @ pem_type @ ''-----''"

text \<open>The line loop of \<^verbatim>\<open>read_tinc_pem\<close>: \<open>in_data\<close> and the bytes read so far are its state.\<close>

fun read_pem_lines :: "string \<Rightarrow> nat \<Rightarrow> bool \<Rightarrow> byte list \<Rightarrow> string list \<Rightarrow> sptps_error + byte list" where
  "read_pem_lines pem_type expected_len in_data out [] = Inl (InvalidPem pem_type)"
| "read_pem_lines pem_type expected_len in_data out (raw # lines) =
     (let line = trim_end_char CR raw
      in if \<not> in_data
         then read_pem_lines pem_type expected_len (line = pem_begin pem_type) out lines
         else if line = pem_end pem_type
         then if length out = expected_len then Inr out else Inl (InvalidPem pem_type)
         else case b64decode_tinc line of
                None \<Rightarrow> Inl InvalidPemBase64
              | Some chunk \<Rightarrow>
                  if chunk = [] \<or> length out + length chunk > expected_len
                  then Inl (InvalidPem pem_type)
                  else read_pem_lines pem_type expected_len True (out @ chunk) lines)"

definition read_tinc_pem :: "string \<Rightarrow> string \<Rightarrow> nat \<Rightarrow> sptps_error + byte list" where
  "read_tinc_pem input pem_type expected_len =
     read_pem_lines pem_type expected_len False [] (rust_lines input)"

text \<open>The chunks of \<^verbatim>\<open>write_tinc_pem\<close>, each printed on a line.\<close>

function pem_body :: "byte list \<Rightarrow> string list" where
  "pem_body data =
     (if data = [] then []
      else b64encode_tinc (take TINC_PEM_CHUNK_LEN data) # pem_body (drop TINC_PEM_CHUNK_LEN data))"
  by auto
termination
  by (relation "measure length") (auto simp: TINC_PEM_CHUNK_LEN_def)

declare pem_body.simps [simp del]

definition write_tinc_pem :: "string \<Rightarrow> byte list \<Rightarrow> string" where
  "write_tinc_pem pem_type data =
     concat (map (\<lambda>l. l @ [LF]) (pem_begin pem_type # pem_body data @ [pem_end pem_type]))"

definition public_from_pem :: "string \<Rightarrow> sptps_error + ed25519_public_key" where
  "public_from_pem input =
     and_then (read_tinc_pem input ED25519_PUBLIC_PEM_TYPE ED25519_PUBLIC_KEY_LEN)
       public_try_from_slice"

definition public_to_pem :: "ed25519_public_key \<Rightarrow> string" where
  "public_to_pem k = write_tinc_pem ED25519_PUBLIC_PEM_TYPE (public_bytes k)"

definition private_from_pem :: "string \<Rightarrow> sptps_error + ed25519_private_key" where
  "private_from_pem input =
     and_then (read_tinc_pem input ED25519_PRIVATE_PEM_TYPE ED25519_TINC_PRIVATE_KEY_LEN)
       private_try_from"

definition private_to_pem :: "ed25519_private_key \<Rightarrow> string" where
  "private_to_pem k = write_tinc_pem ED25519_PRIVATE_PEM_TYPE (private_as_tinc k)"

end
