(* ===== verification/Replay_Window.thy ===== *)
theory Replay_Window
  imports Sptps_Crypto
begin

text \<open>
  \<open>SptpsReplayWindow\<close> of \<^verbatim>\<open>tinc-runtime/src/sptps.rs\<close>: the bitmap of late sequence numbers
  behind the next expected one.  A set bit at position \<open>seqno mod (8 * window_bytes)\<close> marks a
  number of the window as still missing.
\<close>

section \<open>The window\<close>

definition U32_MAX :: u32 where "U32_MAX = 0xFFFFFFFF"

definition u32_saturating_add :: "u32 \<Rightarrow> u32 \<Rightarrow> u32" where
  "u32_saturating_add a b = of_nat (min (unat a + unat b) (unat U32_MAX))"

definition u32_saturating_sub :: "u32 \<Rightarrow> u32 \<Rightarrow> u32" where
  "u32_saturating_sub a b = (if a < b then 0 else a - b)"

text \<open>\<^verbatim>\<open>u32::try_from(n).unwrap_or(u32::MAX)\<close>.\<close>

definition u32_or_max :: "nat \<Rightarrow> u32" where
  "u32_or_max n = (if n \<le> unat U32_MAX then of_nat n else U32_MAX)"

record sptps_replay_window =
  rw_window_bytes :: nat
  rw_expected_seqno :: u32
  rw_received :: u32
  rw_far_future :: u32
  rw_late :: "byte list"

definition replay_window_new :: "nat \<Rightarrow> sptps_replay_window" where
  "replay_window_new n = \<lparr>rw_window_bytes = n, rw_expected_seqno = 0, rw_received = 0,
     rw_far_future = 0, rw_late = replicate n 0\<rparr>"

definition late_index :: "sptps_replay_window \<Rightarrow> u32 \<Rightarrow> nat" where
  "late_index w seqno = (unat seqno div 8) mod rw_window_bytes w"

definition late_bit :: "u32 \<Rightarrow> byte" where
  "late_bit seqno = push_bit (unat seqno mod 8) 1"

definition mark_late :: "u32 \<Rightarrow> sptps_replay_window \<Rightarrow> sptps_replay_window" where
  "mark_late seqno w =
     (if rw_window_bytes w = 0 then w
      else let index = late_index w seqno
           in w\<lparr>rw_late := (rw_late w)[index := rw_late w ! index OR late_bit seqno]\<rparr>)"

definition clear_late :: "u32 \<Rightarrow> sptps_replay_window \<Rightarrow> sptps_replay_window" where
  "clear_late seqno w =
     (if rw_window_bytes w = 0 then w
      else let index = late_index w seqno
           in w\<lparr>rw_late := (rw_late w)[index := rw_late w ! index AND NOT (late_bit seqno)]\<rparr>)"

definition is_marked_late :: "sptps_replay_window \<Rightarrow> u32 \<Rightarrow> bool" where
  "is_marked_late w seqno =
     (if rw_window_bytes w = 0 then False
      else rw_late w ! late_index w seqno AND late_bit seqno \<noteq> 0)"

text \<open>\<^verbatim>\<open>for missed in self.expected_seqno..seqno\<close>.\<close>

definition mark_missed :: "u32 \<Rightarrow> sptps_replay_window \<Rightarrow> sptps_replay_window" where
  "mark_missed seqno w =
     fold (\<lambda>m. mark_late (of_nat m)) [unat (rw_expected_seqno w)..<unat seqno] w"

text \<open>
  The first half of \<^verbatim>\<open>check\<close>: is the number in the window, and what does it do to the bitmap;
  the second half, \<open>accept_state\<close>, moves the window when it was accepted.
\<close>

definition check_window ::
  "u32 \<Rightarrow> bool \<Rightarrow> sptps_replay_window \<Rightarrow> (sptps_error + unit) \<times> sptps_replay_window" where
  "check_window seqno update w =
     (let window_bits = min (rw_window_bytes w * 8) (2 ^ 64 - 1); expected = rw_expected_seqno w
      in if window_bits \<noteq> 0 \<and> seqno \<noteq> expected then
           let future_cutoff = u32_saturating_add expected (u32_or_max window_bits)
           in if future_cutoff \<le> seqno then
                let previous = rw_far_future w;
                    w = (if update then w\<lparr>rw_far_future := u32_saturating_add previous 1\<rparr> else w)
                in if previous < u32_or_max (rw_window_bytes w div 4)
                   then (Inl (FarFuture seqno expected (u32_saturating_sub seqno expected)
                           (if update then rw_far_future w else u32_saturating_add previous 1)), w)
                   else (Inr (), if update then w\<lparr>rw_late := replicate (length (rw_late w)) 0xff\<rparr> else w)
              else if seqno < expected then
                let outside_window = (of_nat window_bits \<le> expected
                      \<and> seqno < expected - of_nat window_bits)
                in if outside_window \<or> \<not> is_marked_late w seqno
                   then (Inl (Replay seqno expected), w) else (Inr (), w)
              else (Inr (), if update then mark_missed seqno w else w)
         else (Inr (), w))"

definition accept_state :: "u32 \<Rightarrow> sptps_replay_window \<Rightarrow> sptps_replay_window" where
  "accept_state seqno w =
     (let w = (if min (rw_window_bytes w * 8) (2 ^ 64 - 1) \<noteq> 0
               then (clear_late seqno w)\<lparr>rw_far_future := 0\<rparr> else w);
          w = (if rw_expected_seqno w \<le> seqno then w\<lparr>rw_expected_seqno := seqno + 1\<rparr> else w)
      in if rw_expected_seqno w = 0 then w\<lparr>rw_received := 0\<rparr>
         else w\<lparr>rw_received := u32_saturating_add (rw_received w) 1\<rparr>)"

definition replay_check ::
  "u32 \<Rightarrow> bool \<Rightarrow> sptps_replay_window \<Rightarrow> (sptps_error + unit) \<times> sptps_replay_window" where
  "replay_check seqno update w =
     (case check_window seqno update w of
        (Inl e, w) \<Rightarrow> (Inl e, w)
      | (Inr _, w) \<Rightarrow> (Inr (), if update then accept_state seqno w else w))"

definition replay_accept ::
  "u32 \<Rightarrow> sptps_replay_window \<Rightarrow> (sptps_error + unit) \<times> sptps_replay_window" where
  "replay_accept seqno w = replay_check seqno True w"

definition replay_verify :: "sptps_replay_window \<Rightarrow> u32 \<Rightarrow> sptps_error + unit" where
  "replay_verify w seqno = fst (replay_check seqno False w)"

end
