(* ===== verification/Sptps_Codec.thy ===== *)
theory Sptps_Codec
  imports Replay_Window
begin

text \<open>
  The record layer of \<^verbatim>\<open>tinc-runtime/src/sptps.rs\<close>: datagram records (sequence number, then
  type and payload, protected once a key is set) and TCP records (16-bit length first, the
  sequence number implied).  An operation on \<^verbatim>\<open>&mut self\<close> returns the result and the codec.
\<close>

section \<open>Records\<close>

record sptps_record =
  rec_seqno :: u32
  rec_type :: byte
  rec_payload :: "byte list"

definition validate_record_type :: "byte \<Rightarrow> sptps_error + unit" where
  "validate_record_type t = (if t > SPTPS_HANDSHAKE then Inl (InvalidRecordType t) else Inr ())"

definition validate_decoded_record_type :: "byte \<Rightarrow> sptps_error + unit" where
  "validate_decoded_record_type t =
     (if t \<le> SPTPS_HANDSHAKE then Inr () else Inl (InvalidRecordType t))"

section \<open>Datagrams\<close>

record datagram_codec =
  dc_in_key :: "sptps_key option"
  dc_out_key :: "sptps_key option"
  dc_in_replay :: sptps_replay_window
  dc_out_seqno :: u32

definition datagram_new :: "nat \<Rightarrow> datagram_codec" where
  "datagram_new n = \<lparr>dc_in_key = None, dc_out_key = None, dc_in_replay = replay_window_new n,
     dc_out_seqno = 0\<rparr>"

definition datagram_with_keys :: "sptps_key \<Rightarrow> sptps_key \<Rightarrow> nat \<Rightarrow> datagram_codec" where
  "datagram_with_keys i out n = \<lparr>dc_in_key = Some i, dc_out_key = Some out,
     dc_in_replay = replay_window_new n, dc_out_seqno = 0\<rparr>"

definition datagram_from_material :: "sptps_key_material \<Rightarrow> bool \<Rightarrow> nat \<Rightarrow> datagram_codec" where
  "datagram_from_material m initiator n =
     (let (i, out) = keys_for_role initiator m in datagram_with_keys i out n)"

definition datagram_set_in_key :: "sptps_key \<Rightarrow> datagram_codec \<Rightarrow> datagram_codec" where
  "datagram_set_in_key k c = c\<lparr>dc_in_key := Some k\<rparr>"

definition datagram_set_out_key :: "sptps_key \<Rightarrow> datagram_codec \<Rightarrow> datagram_codec" where
  "datagram_set_out_key k c = c\<lparr>dc_out_key := Some k\<rparr>"

definition datagram_set_keys :: "sptps_key_material \<Rightarrow> bool \<Rightarrow> datagram_codec \<Rightarrow> datagram_codec" where
  "datagram_set_keys m initiator c =
     (let (i, out) = keys_for_role initiator m
      in datagram_set_out_key out (datagram_set_in_key i c))"

definition datagram_clear_in_key :: "datagram_codec \<Rightarrow> datagram_codec" where
  "datagram_clear_in_key c = c\<lparr>dc_in_key := None,
     dc_in_replay := replay_window_new (rw_window_bytes (dc_in_replay c))\<rparr>"

definition datagram_clear_out_key :: "datagram_codec \<Rightarrow> datagram_codec" where
  "datagram_clear_out_key c = c\<lparr>dc_out_key := None, dc_out_seqno := 0\<rparr>"

definition datagram_encode :: "('p, 's) sptps_crypto \<Rightarrow> byte \<Rightarrow> byte list \<Rightarrow> datagram_codec
    \<Rightarrow> (sptps_error + byte list) \<times> datagram_codec" where
  "datagram_encode C record_type payload c =
     (case validate_record_type record_type of
        Inl e \<Rightarrow> (Inl e, c)
      | Inr _ \<Rightarrow>
          let seqno = dc_out_seqno c; body = record_type # payload
          in (Inr (be32_bytes seqno
                   @ (case dc_out_key c of
                        Some key \<Rightarrow> chacha_poly1305_encrypt C key seqno body
                      | None \<Rightarrow> body)),
              c\<lparr>dc_out_seqno := seqno + 1\<rparr>))"

definition seqno_of :: "byte list \<Rightarrow> u32" where
  "seqno_of d = be32 (d ! 0) (d ! 1) (d ! 2) (d ! 3)"

text \<open>
  The plaintext of a datagram: authenticated before the replay window is consulted; without a
  key only the expected number is taken.
\<close>

definition datagram_plaintext :: "('p, 's) sptps_crypto \<Rightarrow> u32 \<Rightarrow> byte list \<Rightarrow> datagram_codec
    \<Rightarrow> (sptps_error + byte list) \<times> datagram_codec" where
  "datagram_plaintext C seqno body c =
     (case dc_in_key c of
        Some key \<Rightarrow>
          (case chacha_poly1305_decrypt C key seqno body of
             Inl e \<Rightarrow> (Inl e, c)
           | Inr plaintext \<Rightarrow>
               let (r, w) = replay_accept seqno (dc_in_replay c); c = c\<lparr>dc_in_replay := w\<rparr>
               in (map_ok (\<lambda>_. plaintext) r, c))
      | None \<Rightarrow>
          let expected = rw_expected_seqno (dc_in_replay c)
          in if seqno \<noteq> expected then (Inl (UnexpectedSeqno expected seqno), c)
             else let (r, w) = replay_accept seqno (dc_in_replay c); c = c\<lparr>dc_in_replay := w\<rparr>
                  in (map_ok (\<lambda>_. body) r, c))"

definition datagram_decode :: "('p, 's) sptps_crypto \<Rightarrow> byte list \<Rightarrow> datagram_codec
    \<Rightarrow> (sptps_error + sptps_record) \<times> datagram_codec" where
  "datagram_decode C datagram c =
     (let encrypted = (dc_in_key c \<noteq> None);
          minimum = (if encrypted then SPTPS_DATAGRAM_OVERHEAD else SPTPS_SEQNO_LEN + 1)
      in if length datagram < minimum then (Inl (PacketTooShort minimum (length datagram)), c)
         else let seqno = seqno_of datagram; body = drop SPTPS_SEQNO_LEN datagram
              in case datagram_plaintext C seqno body c of
                   (Inl e, c) \<Rightarrow> (Inl e, c)
                 | (Inr [], c) \<Rightarrow> (Inl (PacketTooShort minimum (length datagram)), c)
                 | (Inr (record_type # payload), c) \<Rightarrow>
                     (and_then (validate_decoded_record_type record_type) (\<lambda>_.
                        if \<not> encrypted \<and> record_type \<noteq> SPTPS_HANDSHAKE
                        then Inl (InvalidRecordType record_type)
                        else Inr \<lparr>rec_seqno = seqno, rec_type = record_type, rec_payload = payload\<rparr>), c))"

definition datagram_verify :: "('p, 's) sptps_crypto \<Rightarrow> byte list \<Rightarrow> datagram_codec \<Rightarrow> sptps_error + unit" where
  "datagram_verify C datagram c =
     (case dc_in_key c of
        None \<Rightarrow> Inl AuthenticationFailed
      | Some key \<Rightarrow>
          if length datagram < SPTPS_DATAGRAM_OVERHEAD
          then Inl (PacketTooShort SPTPS_DATAGRAM_OVERHEAD (length datagram))
          else let seqno = seqno_of datagram
               in and_then (replay_verify (dc_in_replay c) seqno) (\<lambda>_.
                  map_ok (\<lambda>_. ()) (chacha_poly1305_decrypt C key seqno (drop SPTPS_SEQNO_LEN datagram))))"

section \<open>TCP records\<close>

record tcp_codec =
  tc_in_key :: "sptps_key option"
  tc_out_key :: "sptps_key option"
  tc_in_seqno :: u32
  tc_out_seqno :: u32

definition tcp_new :: tcp_codec where
  "tcp_new = \<lparr>tc_in_key = None, tc_out_key = None, tc_in_seqno = 0, tc_out_seqno = 0\<rparr>"

definition tcp_with_keys :: "sptps_key \<Rightarrow> sptps_key \<Rightarrow> tcp_codec" where
  "tcp_with_keys i out = \<lparr>tc_in_key = Some i, tc_out_key = Some out, tc_in_seqno = 0, tc_out_seqno = 0\<rparr>"

definition tcp_from_material :: "sptps_key_material \<Rightarrow> bool \<Rightarrow> tcp_codec" where
  "tcp_from_material m initiator = (let (i, out) = keys_for_role initiator m in tcp_with_keys i out)"

definition tcp_set_keys :: "sptps_key_material \<Rightarrow> bool \<Rightarrow> tcp_codec \<Rightarrow> tcp_codec" where
  "tcp_set_keys m initiator c =
     (let (i, out) = keys_for_role initiator m in c\<lparr>tc_in_key := Some i, tc_out_key := Some out\<rparr>)"

definition tcp_encode :: "('p, 's) sptps_crypto \<Rightarrow> byte \<Rightarrow> byte list \<Rightarrow> tcp_codec
    \<Rightarrow> (sptps_error + byte list) \<times> tcp_codec" where
  "tcp_encode C record_type payload c =
     (case validate_record_type record_type of
        Inl e \<Rightarrow> (Inl e, c)
      | Inr _ \<Rightarrow>
          if 65535 < length payload then (Inl (RecordTooLarge 65535 (length payload)), c)
          else let seqno = tc_out_seqno c; header = be16_bytes (of_nat (length payload));
                   body = record_type # payload
               in (Inr (header
                        @ (case tc_out_key c of
                             Some key \<Rightarrow> chacha_poly1305_encrypt C key seqno body
                           | None \<Rightarrow> body)),
                   c\<lparr>tc_out_seqno := seqno + 1\<rparr>))"

definition tcp_decode :: "('p, 's) sptps_crypto \<Rightarrow> byte list \<Rightarrow> tcp_codec
    \<Rightarrow> (sptps_error + sptps_record) \<times> tcp_codec" where
  "tcp_decode C bytes c =
     (if length bytes < SPTPS_TCP_HEADER_LEN
      then (Inl (PacketTooShort SPTPS_TCP_HEADER_LEN (length bytes)), c)
      else let len = unat (be16 (bytes ! 0) (bytes ! 1));
               expected = len + (if tc_in_key c \<noteq> None then SPTPS_TCP_AUTH_OVERHEAD
                                 else SPTPS_TCP_HEADER_LEN)
           in if length bytes \<noteq> expected then (Inl (InvalidRecordLength expected (length bytes)), c)
              else let seqno = tc_in_seqno c;
                       plaintext = (case tc_in_key c of
                         Some key \<Rightarrow> map_ok (\<lambda>p. take 2 bytes @ p)
                                       (chacha_poly1305_decrypt C key seqno (drop 2 bytes))
                       | None \<Rightarrow> Inr bytes);
                       result = and_then plaintext (\<lambda>plaintext.
                         let record_type = plaintext ! 2
                         in and_then (validate_decoded_record_type record_type) (\<lambda>_.
                              if tc_in_key c = None \<and> record_type \<noteq> SPTPS_HANDSHAKE
                              then Inl (InvalidRecordType record_type)
                              else Inr \<lparr>rec_seqno = seqno, rec_type = record_type,
                                        rec_payload = drop 3 plaintext\<rparr>))
                   in (result, c\<lparr>tc_in_seqno := seqno + 1\<rparr>))"

section \<open>One codec or the other\<close>

datatype handshake_codec = DatagramCodec datagram_codec | TcpCodec tcp_codec

fun codec_in_key :: "handshake_codec \<Rightarrow> sptps_key option" where
  "codec_in_key (DatagramCodec c) = dc_in_key c"
| "codec_in_key (TcpCodec c) = tc_in_key c"

fun codec_out_key :: "handshake_codec \<Rightarrow> sptps_key option" where
  "codec_out_key (DatagramCodec c) = dc_out_key c"
| "codec_out_key (TcpCodec c) = tc_out_key c"

fun codec_set_in_key :: "sptps_key \<Rightarrow> handshake_codec \<Rightarrow> handshake_codec" where
  "codec_set_in_key k (DatagramCodec c) = DatagramCodec (datagram_set_in_key k c)"
| "codec_set_in_key k (TcpCodec c) = TcpCodec (c\<lparr>tc_in_key := Some k\<rparr>)"

fun codec_set_out_key :: "sptps_key \<Rightarrow> handshake_codec \<Rightarrow> handshake_codec" where
  "codec_set_out_key k (DatagramCodec c) = DatagramCodec (datagram_set_out_key k c)"
| "codec_set_out_key k (TcpCodec c) = TcpCodec (c\<lparr>tc_out_key := Some k\<rparr>)"

fun codec_encode :: "('p, 's) sptps_crypto \<Rightarrow> byte \<Rightarrow> byte list \<Rightarrow> handshake_codec
    \<Rightarrow> (sptps_error + byte list) \<times> handshake_codec" where
  "codec_encode C t p (DatagramCodec c) = map_prod id DatagramCodec (datagram_encode C t p c)"
| "codec_encode C t p (TcpCodec c) = map_prod id TcpCodec (tcp_encode C t p c)"

fun codec_decode :: "('p, 's) sptps_crypto \<Rightarrow> byte list \<Rightarrow> handshake_codec
    \<Rightarrow> (sptps_error + sptps_record) \<times> handshake_codec" where
  "codec_decode C d (DatagramCodec c) = map_prod id DatagramCodec (datagram_decode C d c)"
| "codec_decode C d (TcpCodec c) = map_prod id TcpCodec (tcp_decode C d c)"

fun codec_verify :: "('p, 's) sptps_crypto \<Rightarrow> byte list \<Rightarrow> handshake_codec \<Rightarrow> sptps_error + unit" where
  "codec_verify C d (DatagramCodec c) = datagram_verify C d c"
| "codec_verify C d (TcpCodec c) = Inl (InvalidRecordType SPTPS_HANDSHAKE)"

end
