(* ===== verification/Sptps_Handshake.thy ===== *)
theory Sptps_Handshake
  imports Sptps_Codec
begin

text \<open>
  The handshake of \<^verbatim>\<open>tinc-runtime/src/sptps.rs\<close>: key exchange messages, the session state and
  its state machine.  An operation on \<^verbatim>\<open>&mut self\<close> returns its result and the session, whose
  fields keep what was assigned before an error.  The operating system's random generator is an
  argument: the outcomes of the two draws (seed of the ephemeral key, nonce) an operation makes.
\<close>

section \<open>Key exchange messages\<close>

record sptps_kex =
  kex_version :: byte
  kex_nonce :: "byte list"
  kex_public :: "byte list"

definition kex_new :: "byte list \<Rightarrow> byte list \<Rightarrow> sptps_kex" where
  "kex_new nonce public_key =
     \<lparr>kex_version = SPTPS_VERSION, kex_nonce = nonce, kex_public = public_key\<rparr>"

definition kex_try_from_slice :: "byte list \<Rightarrow> sptps_error + sptps_kex" where
  "kex_try_from_slice bytes =
     (if length bytes \<noteq> SPTPS_KEX_LEN then Inl (InvalidKexLength SPTPS_KEX_LEN (length bytes))
      else if bytes ! 0 \<noteq> SPTPS_VERSION then Inl (InvalidKexVersion (bytes ! 0))
      else Inr (kex_new (subslice 1 (1 + SPTPS_KEX_NONCE_LEN) bytes)
                  (drop (1 + SPTPS_KEX_NONCE_LEN) bytes)))"

definition kex_to_bytes :: "sptps_kex \<Rightarrow> byte list" where
  "kex_to_bytes k =
     copy_at (1 + SPTPS_KEX_NONCE_LEN) (kex_public k)
       (copy_at 1 (kex_nonce k) ((replicate SPTPS_KEX_LEN 0)[0 := kex_version k]))"

definition signature_message :: "bool \<Rightarrow> sptps_kex \<Rightarrow> sptps_kex \<Rightarrow> byte list \<Rightarrow> byte list" where
  "signature_message initiator kex0 kex1 label =
     (if initiator then 1 else 0) # kex_to_bytes kex0 @ kex_to_bytes kex1 @ label"

section \<open>Sessions\<close>

datatype handshake_event = HandshakeComplete | ApplicationRecord byte "byte list"

record handshake_session =
  hs_initiator :: bool
  hs_label :: "byte list"
  hs_my_key :: ed25519_private_key
  hs_peer_key :: ed25519_public_key
  hs_codec :: handshake_codec
  hs_state :: sptps_handshake_state
  hs_ecdh :: "sptps_ephemeral_key option"
  hs_my_kex :: "sptps_kex option"
  hs_his_kex :: "sptps_kex option"
  hs_pending :: "sptps_key_material option"
  hs_outbound :: "byte list list"

type_synonym 'a session_op = "handshake_session \<Rightarrow> (sptps_error + 'a) \<times> handshake_session"

text \<open>The \<^verbatim>\<open>?\<close> of an operation on the session: an error returns at once.\<close>

definition op_then :: "'a session_op \<Rightarrow> ('a \<Rightarrow> 'b session_op) \<Rightarrow> 'b session_op" where
  "op_then m f s = (case m s of (Inl e, s) \<Rightarrow> (Inl e, s) | (Inr v, s) \<Rightarrow> f v s)"

definition op_return :: "'a \<Rightarrow> 'a session_op" where
  "op_return v s = (Inr v, s)"

definition op_lift :: "sptps_error + 'a \<Rightarrow> 'a session_op" where
  "op_lift r s = (r, s)"

definition op_update :: "(handshake_session \<Rightarrow> handshake_session) \<Rightarrow> unit session_op" where
  "op_update f s = (Inr (), f s)"

definition queue_handshake :: "('p, 's) sptps_crypto \<Rightarrow> byte list \<Rightarrow> unit session_op" where
  "queue_handshake C payload s =
     (case codec_encode C SPTPS_HANDSHAKE payload (hs_codec s) of
        (Inl e, c) \<Rightarrow> (Inl e, s\<lparr>hs_codec := c\<rparr>)
      | (Inr bytes, c) \<Rightarrow> (Inr (), s\<lparr>hs_codec := c, hs_outbound := hs_outbound s @ [bytes]\<rparr>))"

definition send_sig :: "('p, 's::comm_ring_1) sptps_crypto \<Rightarrow> unit session_op" where
  "send_sig C s =
     (case hs_my_kex s of
        None \<Rightarrow> (Inl (MissingHandshakeState ''local KEX''), s)
      | Some my_kex \<Rightarrow>
          (case hs_his_kex s of
             None \<Rightarrow> (Inl (MissingHandshakeState ''peer KEX''), s)
           | Some his_kex \<Rightarrow>
               queue_handshake C (ed25519_sign C (hs_my_key s)
                 (signature_message (hs_initiator s) my_kex his_kex (hs_label s))) s))"

definition send_kex_with :: "('p, 's) sptps_crypto \<Rightarrow> sptps_ephemeral_key \<Rightarrow> byte list \<Rightarrow> unit session_op" where
  "send_kex_with C ephemeral nonce s =
     (if hs_my_kex s \<noteq> None then (Inl DuplicateKex, s)
      else let kex = kex_new nonce (eph_public ephemeral)
           in queue_handshake C (kex_to_bytes kex)
                (s\<lparr>hs_ecdh := Some ephemeral, hs_my_kex := Some kex\<rparr>))"

text \<open>\<^verbatim>\<open>SptpsEphemeralKey::generate()?\<close> and \<^verbatim>\<open>random_array()?\<close>, in this order.\<close>

type_synonym random_draws = "(string + byte list) \<times> (string + byte list)"

definition generate_ephemeral ::
  "('p, 's) sptps_crypto \<Rightarrow> random_draws \<Rightarrow> sptps_error + sptps_ephemeral_key \<times> byte list" where
  "generate_ephemeral C draws =
     (case draws of (seed, nonce) \<Rightarrow>
        and_then (map_err RandomFailed seed) (\<lambda>seed.
        and_then (map_err RandomFailed nonce) (\<lambda>nonce.
        Inr (ephemeral_from_seed C seed, nonce))))"

definition send_kex :: "('p, 's) sptps_crypto \<Rightarrow> random_draws \<Rightarrow> unit session_op" where
  "send_kex C draws =
     op_then (op_lift (generate_ephemeral C draws)) (\<lambda>(ephemeral, nonce). send_kex_with C ephemeral nonce)"

definition session_new :: "bool \<Rightarrow> ed25519_private_key \<Rightarrow> ed25519_public_key \<Rightarrow> byte list
    \<Rightarrow> handshake_codec \<Rightarrow> handshake_session" where
  "session_new initiator my_key peer_key label codec =
     \<lparr>hs_initiator = initiator, hs_label = label, hs_my_key = my_key, hs_peer_key = peer_key,
      hs_codec = codec, hs_state = StateKex, hs_ecdh = None, hs_my_kex = None, hs_his_kex = None,
      hs_pending = None, hs_outbound = []\<rparr>"

definition start_session :: "('p, 's) sptps_crypto \<Rightarrow> bool \<Rightarrow> ed25519_private_key \<Rightarrow> ed25519_public_key
    \<Rightarrow> byte list \<Rightarrow> handshake_codec \<Rightarrow> sptps_ephemeral_key \<Rightarrow> byte list
    \<Rightarrow> sptps_error + handshake_session" where
  "start_session C initiator my_key peer_key label codec ephemeral nonce =
     (case send_kex_with C ephemeral nonce (session_new initiator my_key peer_key label codec) of
        (Inl e, _) \<Rightarrow> Inl e
      | (Inr _, s) \<Rightarrow> Inr s)"

definition start_with_ephemeral where
  "start_with_ephemeral C initiator my_key peer_key label replay_window_bytes ephemeral nonce =
     start_session C initiator my_key peer_key label
       (DatagramCodec (datagram_new replay_window_bytes)) ephemeral nonce"

definition start_tcp_with_ephemeral where
  "start_tcp_with_ephemeral C initiator my_key peer_key label ephemeral nonce =
     start_session C initiator my_key peer_key label (TcpCodec tcp_new) ephemeral nonce"

definition start_datagram where
  "start_datagram C draws initiator my_key peer_key label replay_window_bytes =
     and_then (generate_ephemeral C draws) (\<lambda>(ephemeral, nonce).
       start_with_ephemeral C initiator my_key peer_key label replay_window_bytes ephemeral nonce)"

definition start_tcp where
  "start_tcp C draws initiator my_key peer_key label =
     and_then (generate_ephemeral C draws) (\<lambda>(ephemeral, nonce).
       start_tcp_with_ephemeral C initiator my_key peer_key label ephemeral nonce)"

definition is_established :: "handshake_session \<Rightarrow> bool" where
  "is_established s \<longleftrightarrow> codec_in_key (hs_codec s) \<noteq> None \<and> codec_out_key (hs_codec s) \<noteq> None"

definition drain_outbound :: "handshake_session \<Rightarrow> byte list list \<times> handshake_session" where
  "drain_outbound s = (hs_outbound s, s\<lparr>hs_outbound := []\<rparr>)"

definition pop_outbound :: "handshake_session \<Rightarrow> byte list option \<times> handshake_session" where
  "pop_outbound s =
     (case hs_outbound s of [] \<Rightarrow> (None, s) | d # ds \<Rightarrow> (Some d, s\<lparr>hs_outbound := ds\<rparr>))"

definition send_record :: "('p, 's) sptps_crypto \<Rightarrow> byte \<Rightarrow> byte list \<Rightarrow> byte list session_op" where
  "send_record C record_type payload s =
     (if record_type \<ge> SPTPS_HANDSHAKE then (Inl (InvalidRecordType record_type), s)
      else case codec_encode C record_type payload (hs_codec s) of
             (r, c) \<Rightarrow> (r, s\<lparr>hs_codec := c\<rparr>))"

definition session_verify :: "('p, 's) sptps_crypto \<Rightarrow> byte list \<Rightarrow> handshake_session \<Rightarrow> sptps_error + unit" where
  "session_verify C datagram s = codec_verify C datagram (hs_codec s)"

section \<open>The state machine\<close>

definition receive_kex :: "('p, 's::comm_ring_1) sptps_crypto \<Rightarrow> byte list \<Rightarrow> unit session_op" where
  "receive_kex C data s =
     (if hs_his_kex s \<noteq> None then (Inl DuplicateKex, s)
      else case kex_try_from_slice data of
             Inl e \<Rightarrow> (Inl e, s)
           | Inr kex \<Rightarrow>
               let s = s\<lparr>hs_his_kex := Some kex\<rparr>
               in if hs_initiator s then send_sig C s else (Inr (), s))"

text \<open>
  The checks of \<^verbatim>\<open>receive_sig\<close>, which read the session only: the peer's signature over both
  exchanges and the key material of the session.
\<close>

definition check_sig :: "('p, 's::comm_ring_1) sptps_crypto \<Rightarrow> byte list \<Rightarrow> handshake_session
    \<Rightarrow> sptps_error + sptps_key_material" where
  "check_sig C data s =
     (if length data \<noteq> ED25519_SIGNATURE_LEN
      then Inl (InvalidSignatureLength ED25519_SIGNATURE_LEN (length data))
      else and_then (ok_or (MissingHandshakeState ''peer KEX'') (hs_his_kex s)) (\<lambda>his_kex.
           and_then (ok_or (MissingHandshakeState ''local KEX'') (hs_my_kex s)) (\<lambda>my_kex.
           and_then (ed25519_verify C (hs_peer_key s)
             (signature_message (\<not> hs_initiator s) his_kex my_kex (hs_label s)) data) (\<lambda>_.
           and_then (ok_or (MissingHandshakeState ''ephemeral key'') (hs_ecdh s)) (\<lambda>ecdh.
           and_then (compute_shared C ecdh (kex_public his_kex)) (\<lambda>shared.
           let (initiator_nonce, responder_nonce) =
                 (if hs_initiator s then (kex_nonce my_kex, kex_nonce his_kex)
                  else (kex_nonce his_kex, kex_nonce my_kex))
           in Inr (material_derive C shared initiator_nonce responder_nonce (hs_label s))))))))"

definition receive_sig :: "('p, 's::comm_ring_1) sptps_crypto \<Rightarrow> byte list \<Rightarrow> bool session_op" where
  "receive_sig C data s =
     (case check_sig C data s of
        Inl e \<Rightarrow> (Inl e, s)
      | Inr material \<Rightarrow>
          let secondary = (codec_out_key (hs_codec s) \<noteq> None); initiator = hs_initiator s;
              (in_key, out_key) = keys_for_role initiator material
          in op_then (if initiator then op_return () else send_sig C) (\<lambda>_.
             op_then (op_update (\<lambda>s. s\<lparr>hs_ecdh := None, hs_my_kex := None, hs_his_kex := None\<rparr>)) (\<lambda>_.
             op_then (if secondary
                      then op_then (queue_handshake C []) (\<lambda>_.
                             op_update (\<lambda>s. s\<lparr>hs_pending := Some material\<rparr>))
                      else op_return ()) (\<lambda>_.
             op_then (op_update (\<lambda>s. s\<lparr>hs_codec := codec_set_out_key out_key (hs_codec s)\<rparr>)) (\<lambda>_.
             op_then (if secondary then op_return ()
                      else op_update (\<lambda>s. s\<lparr>hs_codec := codec_set_in_key in_key (hs_codec s)\<rparr>)) (\<lambda>_.
             op_return secondary))))) s)"

definition receive_ack :: "byte list \<Rightarrow> unit session_op" where
  "receive_ack data s =
     (if data \<noteq> [] then (Inl (UnexpectedHandshakeRecord (hs_state s) (length data)), s)
      else case hs_pending s of
             None \<Rightarrow> (Inl (MissingHandshakeState ''pending key material''), s)
           | Some material \<Rightarrow>
               let s = s\<lparr>hs_pending := None\<rparr>; (in_key, _) = keys_for_role (hs_initiator s) material
               in (Inr (), s\<lparr>hs_codec := codec_set_in_key in_key (hs_codec s)\<rparr>))"

definition set_state :: "sptps_handshake_state \<Rightarrow> unit session_op" where
  "set_state st = op_update (\<lambda>s. s\<lparr>hs_state := st\<rparr>)"

definition receive_handshake :: "('p, 's::comm_ring_1) sptps_crypto \<Rightarrow> random_draws \<Rightarrow> byte list
    \<Rightarrow> handshake_event list session_op" where
  "receive_handshake C draws data s =
     (case hs_state s of
        StateSecondaryKex \<Rightarrow>
          op_then (send_kex C draws) (\<lambda>_. op_then (receive_kex C data) (\<lambda>_.
          op_then (set_state StateSig) (\<lambda>_. op_return []))) s
      | StateKex \<Rightarrow>
          op_then (receive_kex C data) (\<lambda>_. op_then (set_state StateSig) (\<lambda>_. op_return [])) s
      | StateSig \<Rightarrow>
          op_then (receive_sig C data) (\<lambda>secondary.
            if secondary then op_then (set_state StateAck) (\<lambda>_. op_return [])
            else op_then (set_state StateSecondaryKex) (\<lambda>_. op_return [HandshakeComplete])) s
      | StateAck \<Rightarrow>
          op_then (receive_ack data) (\<lambda>_.
          op_then (set_state StateSecondaryKex) (\<lambda>_. op_return [HandshakeComplete])) s)"

definition receive_datagram :: "('p, 's::comm_ring_1) sptps_crypto \<Rightarrow> random_draws \<Rightarrow> byte list
    \<Rightarrow> handshake_event list session_op" where
  "receive_datagram C draws datagram s =
     (case codec_decode C datagram (hs_codec s) of
        (Inl e, c) \<Rightarrow> (Inl e, s\<lparr>hs_codec := c\<rparr>)
      | (Inr r, c) \<Rightarrow>
          let s = s\<lparr>hs_codec := c\<rparr>
          in if rec_type r = SPTPS_HANDSHAKE then receive_handshake C draws (rec_payload r) s
             else if rec_type r < SPTPS_HANDSHAKE
             then (Inr [ApplicationRecord (rec_type r) (rec_payload r)], s)
             else (Inl (InvalidRecordType (rec_type r)), s))"

definition force_kex :: "('p, 's) sptps_crypto \<Rightarrow> random_draws \<Rightarrow> unit session_op" where
  "force_kex C draws s =
     (if \<not> is_established s \<or> hs_state s \<noteq> StateSecondaryKex
      then (Inl (UnexpectedHandshakeRecord (hs_state s) 0), s)
      else send_kex C draws (s\<lparr>hs_state := StateKex\<rparr>))"

end
