(* ===== verification/Replay_Props.thy ===== *)
theory Replay_Props
  imports Replay_Window
begin

text \<open>
  The replay window refines a set of accepted numbers: a window over the full history, without a
  bitmap, gives the same verdicts and the same errors as long as the 32-bit sequence number does
  not wrap.  The interface \<open>anti_replay\<close> states what a receiver relies on.
\<close>

section \<open>The interface\<close>

text \<open>
  \<open>tracks w seen\<close>: window state \<open>w\<close> knows the accepted numbers \<open>seen\<close>; numbers satisfying
  \<open>usable\<close> are those the guarantee covers.
\<close>

locale anti_replay =
  fixes accept :: "'s \<Rightarrow> 'w \<Rightarrow> ('e + unit) \<times> 'w"
    and tracks :: "'w \<Rightarrow> 's set \<Rightarrow> bool"
    and usable :: "'s \<Rightarrow> bool"
  assumes accepted: "tracks w seen \<Longrightarrow> usable s \<Longrightarrow> accept s w = (Inr (), w')
      \<Longrightarrow> s \<notin> seen \<and> tracks w' (insert s seen)"
    and refused: "tracks w seen \<Longrightarrow> usable s \<Longrightarrow> accept s w = (Inl e, w') \<Longrightarrow> tracks w' seen"
begin

primrec accepted_of :: "'s list \<Rightarrow> 'w \<Rightarrow> 's list" where
  "accepted_of [] w = []"
| "accepted_of (s # ss) w =
     (case accept s w of
        (Inr _, w') \<Rightarrow> s # accepted_of ss w'
      | (Inl _, w') \<Rightarrow> accepted_of ss w')"

lemma accepted_of_distinct:
  "tracks w seen \<Longrightarrow> \<forall>s \<in> set ss. usable s \<Longrightarrow>
    distinct (accepted_of ss w) \<and> set (accepted_of ss w) \<inter> seen = {}"
proof (induction ss arbitrary: w seen)
  case (Cons s ss)
  obtain r w' where r: "accept s w = (r, w')" by (cases "accept s w")
  show ?case
  proof (cases r)
    case (Inl e)
    then show ?thesis using Cons.IH [of w' seen] refused [of w seen s e w'] Cons.prems r by simp
  next
    case (Inr u)
    then have "s \<notin> seen" "tracks w' (insert s seen)"
      using accepted [of w seen s w'] Cons.prems r by simp_all
    then show ?thesis using Cons.IH [of w' "insert s seen"] Cons.prems r Inr by auto
  qed
qed simp

end

section \<open>The specification\<close>

record window_spec =
  ws_next :: nat
  ws_seen :: "nat set"
  ws_far :: nat

definition spec_new :: window_spec where
  "spec_new = \<lparr>ws_next = 0, ws_seen = {}, ws_far = 0\<rparr>"

definition spec_accept :: "nat \<Rightarrow> nat \<Rightarrow> window_spec \<Rightarrow> (sptps_error + unit) \<times> window_spec" where
  "spec_accept n s a =
     (if ws_next a + 8 * n \<le> s \<and> ws_far a < n div 4
      then (Inl (FarFuture (of_nat s) (of_nat (ws_next a)) (of_nat (s - ws_next a))
              (of_nat (ws_far a + 1))), a\<lparr>ws_far := ws_far a + 1\<rparr>)
      else if s < ws_next a \<and> (s + 8 * n < ws_next a \<or> s \<in> ws_seen a)
      then (Inl (Replay (of_nat s) (of_nat (ws_next a))), a)
      else (Inr (), \<lparr>ws_next = max (ws_next a) (s + 1), ws_seen = insert s (ws_seen a), ws_far = 0\<rparr>))"

section \<open>The bitmap\<close>

definition slot :: "sptps_replay_window \<Rightarrow> nat \<Rightarrow> bool" where
  "slot w s \<longleftrightarrow> bit (rw_late w ! ((s div 8) mod rw_window_bytes w)) (s mod 8)"

definition window_wf :: "sptps_replay_window \<Rightarrow> bool" where
  "window_wf w \<longleftrightarrow> 0 < rw_window_bytes w \<and> length (rw_late w) = rw_window_bytes w"

lemma same_slot:
  assumes "0 < n"
  shows "(s div 8) mod n = (t div 8) mod n \<and> s mod 8 = t mod 8 \<longleftrightarrow> s mod (8 * n) = t mod (8 * (n :: nat))"
proof
  assume "(s div 8) mod n = (t div 8) mod n \<and> s mod 8 = t mod 8"
  then show "s mod (8 * n) = t mod (8 * n)" by (simp add: mod_mult2_eq)
next
  assume eq: "s mod (8 * n) = t mod (8 * n)"
  then have "8 * ((s div 8) mod n) + s mod 8 = 8 * ((t div 8) mod n) + t mod 8"
    by (simp add: mod_mult2_eq)
  from arg_cong [OF this, of "\<lambda>x. x mod 8"] arg_cong [OF this, of "\<lambda>x. x div 8"]
  show "(s div 8) mod n = (t div 8) mod n \<and> s mod 8 = t mod 8" by simp
qed

lemma mod_eq_close:
  "a mod w = b mod w \<Longrightarrow> a < b + w \<Longrightarrow> b < a + w \<Longrightarrow> a = (b :: nat)"
proof (induction a b rule: linorder_wlog)
  case (le a b)
  then have "w dvd b - a" by (metis mod_eq_dvd_iff_nat)
  with le show ?case using nat_dvd_not_less [of "b - a" w] by (cases "a = b") auto
qed auto

lemma is_marked_slot: "window_wf w \<Longrightarrow> is_marked_late w s \<longleftrightarrow> slot w (unat s)"
  by (simp add: is_marked_late_def window_wf_def late_index_def late_bit_def slot_def
      bit_iff_and_push_bit_not_eq_0)

lemma bit_late_bit: "bit (late_bit t) k \<longleftrightarrow> k = unat t mod 8"
  by (auto simp: late_bit_def bit_simps)

lemma slot_mark_late:
  assumes "window_wf w"
  shows "slot (mark_late t w) s \<longleftrightarrow>
      unat t mod (8 * rw_window_bytes w) = s mod (8 * rw_window_bytes w) \<or> slot w s"
    and "window_wf (mark_late t w)"
proof -
  have n: "0 < rw_window_bytes w" using assms by (simp add: window_wf_def)
  show "slot (mark_late t w) s \<longleftrightarrow>
      unat t mod (8 * rw_window_bytes w) = s mod (8 * rw_window_bytes w) \<or> slot w s"
    using assms unfolding same_slot [OF n, symmetric]
    by (auto simp: mark_late_def slot_def window_wf_def late_index_def nth_list_update bit_or_iff
        bit_late_bit Let_def)
  show "window_wf (mark_late t w)"
    using assms by (simp add: mark_late_def window_wf_def Let_def)
qed

lemma slot_clear_late:
  assumes "window_wf w"
  shows "slot (clear_late t w) s \<longleftrightarrow>
      unat t mod (8 * rw_window_bytes w) \<noteq> s mod (8 * rw_window_bytes w) \<and> slot w s"
    and "window_wf (clear_late t w)"
proof -
  have n: "0 < rw_window_bytes w" using assms by (simp add: window_wf_def)
  show "slot (clear_late t w) s \<longleftrightarrow>
      unat t mod (8 * rw_window_bytes w) \<noteq> s mod (8 * rw_window_bytes w) \<and> slot w s"
    using assms unfolding same_slot [OF n, symmetric]
    by (auto simp: clear_late_def slot_def window_wf_def late_index_def nth_list_update bit_and_iff
        bit_not_iff bit_late_bit Let_def)
  show "window_wf (clear_late t w)"
    using assms by (simp add: clear_late_def window_wf_def Let_def)
qed

lemma mark_late_fields [simp]:
  "rw_window_bytes (mark_late t w) = rw_window_bytes w"
  "rw_expected_seqno (mark_late t w) = rw_expected_seqno w"
  "rw_received (mark_late t w) = rw_received w"
  "rw_far_future (mark_late t w) = rw_far_future w"
  by (simp_all add: mark_late_def Let_def)

lemma clear_late_fields [simp]:
  "rw_window_bytes (clear_late t w) = rw_window_bytes w"
  "rw_expected_seqno (clear_late t w) = rw_expected_seqno w"
  "rw_received (clear_late t w) = rw_received w"
  "rw_far_future (clear_late t w) = rw_far_future w"
  by (simp_all add: clear_late_def Let_def)

definition marks :: "nat list \<Rightarrow> sptps_replay_window \<Rightarrow> sptps_replay_window" where
  "marks ms w = fold (\<lambda>m. mark_late (of_nat m)) ms w"

lemma marks_fields [simp]:
  "rw_window_bytes (marks ms w) = rw_window_bytes w"
  "rw_expected_seqno (marks ms w) = rw_expected_seqno w"
  "rw_received (marks ms w) = rw_received w"
  "rw_far_future (marks ms w) = rw_far_future w"
  by (induction ms arbitrary: w) (simp_all add: marks_def)

lemma slot_marks:
  assumes "window_wf w" "\<forall>m \<in> set ms. m < 2 ^ 32"
  shows "window_wf (marks ms w) \<and> (slot (marks ms w) s \<longleftrightarrow>
      (\<exists>m \<in> set ms. m mod (8 * rw_window_bytes w) = s mod (8 * rw_window_bytes w)) \<or> slot w s)"
  using assms
proof (induction ms arbitrary: w)
  case (Cons m ms)
  have m: "unat (of_nat m :: u32) = m" using Cons.prems(2) by (simp add: unat_of_nat_u32)
  have e: "marks (m # ms) w = marks ms (mark_late (of_nat m) w)" by (simp add: marks_def)
  show ?case
    using Cons.IH [OF slot_mark_late(2) [OF Cons.prems(1), of "of_nat m"]] Cons.prems
      slot_mark_late(1) [OF Cons.prems(1), of "of_nat m" s]
    unfolding e m by auto
qed (simp add: marks_def)

section \<open>Refinement\<close>

definition window_refines :: "nat \<Rightarrow> sptps_replay_window \<Rightarrow> window_spec \<Rightarrow> bool" where
  "window_refines n w a \<longleftrightarrow>
     0 < n \<and> 8 * n < 2 ^ 32 \<and> rw_window_bytes w = n \<and> length (rw_late w) = n
     \<and> ws_next a = unat (rw_expected_seqno w) \<and> ws_far a = unat (rw_far_future w)
     \<and> ws_far a \<le> n div 4 \<and> ws_seen a \<subseteq> {..<ws_next a}
     \<and> unat (rw_received w) = card (ws_seen a)
     \<and> (\<forall>s < ws_next a. ws_next a \<le> s + 8 * n \<longrightarrow> (slot w s \<longleftrightarrow> s \<notin> ws_seen a))"

lemma u32_max_nat: "unat U32_MAX = 4294967295"
  by (simp add: U32_MAX_def)

lemma saturating_add_nat: "unat (u32_saturating_add a b) = min (unat a + unat b) 4294967295"
  by (simp add: u32_saturating_add_def u32_max_nat unat_of_nat_u32)

lemma or_max_nat: "n < 2 ^ 32 \<Longrightarrow> unat (u32_or_max n) = n"
  by (simp add: u32_or_max_def u32_max_nat unat_of_nat_u32)

lemma unat_succ: "s \<noteq> U32_MAX \<Longrightarrow> unat (s + 1) = unat (s :: u32) + 1"
proof -
  assume "s \<noteq> U32_MAX"
  then have "unat s \<noteq> unat U32_MAX" using unsigned_word_eqI by blast
  moreover have "unat s < 4294967296" by simp
  ultimately have "unat s + 1 < 4294967296" by (simp add: u32_max_nat del: unat_u32_less)
  then show ?thesis by (simp add: unat_word_ariths)
qed

lemma accept_state_fields:
  assumes "rw_window_bytes w \<noteq> 0" "s \<noteq> U32_MAX"
  shows "rw_window_bytes (accept_state s w) = rw_window_bytes w"
    "rw_late (accept_state s w) = rw_late (clear_late s w)"
    "unat (rw_expected_seqno (accept_state s w)) = max (unat (rw_expected_seqno w)) (unat s + 1)"
    "rw_far_future (accept_state s w) = 0"
    "rw_received (accept_state s w) = u32_saturating_add (rw_received w) 1"
proof -
  have s: "unat (s + 1) = unat s + 1" using assms(2) by (rule unat_succ)
  show "rw_window_bytes (accept_state s w) = rw_window_bytes w"
    "rw_late (accept_state s w) = rw_late (clear_late s w)"
    "rw_far_future (accept_state s w) = 0"
    using assms(1) by (simp_all add: accept_state_def Let_def)
  show "unat (rw_expected_seqno (accept_state s w)) = max (unat (rw_expected_seqno w)) (unat s + 1)"
    using assms(1) s by (auto simp: accept_state_def word_le_nat_alt Let_def)
  have "rw_expected_seqno w \<le> s \<Longrightarrow> s + 1 \<noteq> 0"
    using s by (metis add_is_0 one_neq_zero unat_0)
  moreover have "\<not> rw_expected_seqno w \<le> s \<Longrightarrow> rw_expected_seqno w \<noteq> 0"
    by auto
  ultimately show "rw_received (accept_state s w) = u32_saturating_add (rw_received w) 1"
    using assms(1) by (simp add: accept_state_def Let_def)
qed

lemma mark_missed_marks: "mark_missed s w = marks [unat (rw_expected_seqno w)..<unat s] w"
  by (simp add: mark_missed_def marks_def)

lemma outside_window_nat:
  "W < 2 ^ 32 \<Longrightarrow> of_nat W \<le> e \<and> s < e - of_nat W \<longleftrightarrow> unat s + W < unat (e :: u32)"
proof -
  assume "W < 2 ^ 32"
  then have W: "unat (of_nat W :: u32) = W" by (simp add: unat_of_nat_u32)
  show ?thesis
  proof (cases "of_nat W \<le> e")
    case True
    then have "unat (e - of_nat W) = unat e - W" using W by (simp add: unat_sub)
    with True W show ?thesis by (auto simp: word_less_nat_alt word_le_nat_alt)
  next
    case False
    then have "unat e < W" using W by (simp add: word_le_nat_alt)
    with False show ?thesis by simp
  qed
qed

lemma check_window_cases:
  fixes s :: u32
  defines "S \<equiv> unat s"
  assumes w: "rw_window_bytes w = n" "0 < n" "8 * n < 2 ^ 32" and s: "s \<noteq> U32_MAX"
  defines "E \<equiv> unat (rw_expected_seqno w)"
  shows "check_window s u w =
    (let e = rw_expected_seqno w; far = u32_saturating_add (rw_far_future w) 1;
         w1 = (if u then w\<lparr>rw_far_future := far\<rparr> else w)
     in if E + 8 * n \<le> S then
          if unat (rw_far_future w) < n div 4
          then (Inl (FarFuture s e (u32_saturating_sub s e) far), w1)
          else (Inr (), if u then w1\<lparr>rw_late := replicate (length (rw_late w)) 0xff\<rparr> else w)
        else if S < E then
          (if S + 8 * n < E \<or> \<not> is_marked_late w s then Inl (Replay s e) else Inr (), w)
        else (Inr (), if u then mark_missed s w else w))"
proof -
  have bits: "min (rw_window_bytes w * 8) (2 ^ 64 - 1) = 8 * n" using w by simp
  have max: "unat s < 4294967295"
    using unat_succ [OF s] unat_u32_less [of "s + 1"] by linarith
  have u: "unat (u32_or_max (8 * n)) = 8 * n" using w by (simp add: or_max_nat)
  have cut: "u32_saturating_add (rw_expected_seqno w) (u32_or_max (8 * n)) \<le> s \<longleftrightarrow> E + 8 * n \<le> S"
    using max by (simp add: word_le_nat_alt saturating_add_nat u E_def S_def min_le_iff_disj)
  have far: "rw_far_future w < u32_or_max (rw_window_bytes w div 4) \<longleftrightarrow> unat (rw_far_future w) < n div 4"
    using w by (simp add: word_less_nat_alt or_max_nat)
  have lt: "s < rw_expected_seqno w \<longleftrightarrow> S < E" by (simp add: word_less_nat_alt S_def E_def)
  have out: "(of_nat (8 * n) \<le> rw_expected_seqno w \<and> s < rw_expected_seqno w - of_nat (8 * n))
      \<longleftrightarrow> S + 8 * n < E"
    unfolding S_def E_def by (rule outside_window_nat) (use w in simp)
  have n: "8 * n \<noteq> 0" using w by simp
  have same: "check_window s u w = (Inr (), w)" "E = S" if "s = rw_expected_seqno w"
    using that by (simp_all add: check_window_def E_def S_def Let_def)
  show ?thesis
  proof (cases "s = rw_expected_seqno w")
    case True
    then show ?thesis using same w(2) by (simp add: mark_missed_marks marks_def E_def [symmetric]
        S_def [symmetric])
  next
    case False
    then show ?thesis
      unfolding check_window_def Let_def bits out cut lt using n by (simp add: far)
  qed
qed

text \<open>Moving the window: the bitmap before the step knows every number but the accepted one.\<close>

lemma accept_state_refines:
  assumes w: "rw_window_bytes w = n" "length (rw_late w) = n" "0 < n" "8 * n < 2 ^ 32"
    and s: "s \<noteq> U32_MAX" and E: "unat (rw_expected_seqno w) = E"
    and seen: "A \<subseteq> {..<E}" "unat s \<notin> A" "unat (rw_received w) = card A"
    and inside: "E \<le> unat s + 8 * n"
    and slots: "\<And>t. t < max E (unat s + 1) \<Longrightarrow> max E (unat s + 1) \<le> t + 8 * n \<Longrightarrow> t \<noteq> unat s
      \<Longrightarrow> slot w t \<longleftrightarrow> t \<notin> A"
  shows "window_refines n (accept_state s w)
    \<lparr>ws_next = max E (unat s + 1), ws_seen = insert (unat s) A, ws_far = 0\<rparr>"
proof -
  have wf: "window_wf w" using w by (simp add: window_wf_def)
  have n0: "rw_window_bytes w \<noteq> 0" using w by simp
  note f = accept_state_fields [OF n0 s]
  have fin: "finite A" using seen(1) finite_subset by blast
  have "insert (unat s) A \<subseteq> {..<max E (unat s + 1)}" using seen(1) by auto
  then have "card (insert (unat s) A) \<le> max E (unat s + 1)"
    using card_mono [of "{..<max E (unat s + 1)}"] by simp
  moreover have "unat s + 1 < 4294967296" using unat_succ [OF s] unat_u32_less [of "s + 1"] by linarith
  moreover have "E < 4294967296" using E unat_u32_less by blast
  ultimately have "card (insert (unat s) A) < 4294967296" by simp
  then have rec: "unat (rw_received (accept_state s w)) = card (insert (unat s) A)"
    using seen fin by (simp add: f saturating_add_nat)
  have slots': "slot (accept_state s w) t \<longleftrightarrow> t \<notin> insert (unat s) A"
    if t: "t < max E (unat s + 1)" "max E (unat s + 1) \<le> t + 8 * n" for t
  proof -
    have "slot (accept_state s w) t \<longleftrightarrow> unat s mod (8 * n) \<noteq> t mod (8 * n) \<and> slot w t"
      using slot_clear_late(1) [OF wf, of s t] w by (simp add: slot_def f)
    moreover have "unat s mod (8 * n) = t mod (8 * n) \<longleftrightarrow> unat s = t"
      using mod_eq_close [of "unat s" "8 * n" t] t inside w(3) by (auto simp: max_def split: if_splits)
    ultimately show ?thesis using slots [OF t] by auto
  qed
  have late: "length (rw_late (accept_state s w)) = n"
    using slot_clear_late(2) [OF wf, of s] w by (simp add: f window_wf_def)
  show ?thesis
    unfolding window_refines_def
    using w late rec slots' seen(1) E by (auto simp: f)
qed

lemma bit_255: "k < 8 \<Longrightarrow> bit (255 :: byte) k"
  by (auto simp: less_8)

lemma word_of_unat: "unat (w :: u32) = k \<Longrightarrow> w = of_nat k"
  using unat_u32_less [of w] by (auto simp: word_unat_eq_iff unat_of_nat_u32 simp del: unat_u32_less)

lemma accept_refines:
  assumes rel: "window_refines n w a" and s: "s \<noteq> U32_MAX"
  shows "fst (replay_accept s w) = fst (spec_accept n (unat s) a)
    \<and> window_refines n (snd (replay_accept s w)) (snd (spec_accept n (unat s) a))"
proof -
  define E where "E = unat (rw_expected_seqno w)"
  define A where "A = ws_seen a"
  from rel have w: "rw_window_bytes w = n" "length (rw_late w) = n" "0 < n" "8 * n < 2 ^ 32"
    and nx: "ws_next a = E" and far: "ws_far a = unat (rw_far_future w)" "ws_far a \<le> n div 4"
    and seen: "A \<subseteq> {..<E}" "unat (rw_received w) = card A"
    and slots: "\<And>t. t < E \<Longrightarrow> E \<le> t + 8 * n \<Longrightarrow> slot w t \<longleftrightarrow> t \<notin> A"
    by (auto simp: window_refines_def E_def A_def)
  have wf: "window_wf w" using w by (simp add: window_wf_def)
  note check = check_window_cases [OF w(1,3,4) s, of True, folded E_def]
  have e: "of_nat E = rw_expected_seqno w" by (simp add: E_def)
  have far_add: "unat (u32_saturating_add (rw_far_future w) 1) = ws_far a + 1"
    using far w(4) by (simp add: saturating_add_nat)
  consider (refused) "E + 8 * n \<le> unat s" "ws_far a < n div 4"
    | (future) "E + 8 * n \<le> unat s" "\<not> ws_far a < n div 4"
    | (replay) "unat s < E" "unat s + 8 * n < E \<or> \<not> is_marked_late w s"
    | (late) "unat s < E" "\<not> (unat s + 8 * n < E \<or> \<not> is_marked_late w s)"
    | (ahead) "E \<le> unat s" "unat s < E + 8 * n"
    by linarith
  then show ?thesis
  proof cases
    case refused
    have "u32_saturating_sub s (rw_expected_seqno w) = of_nat (unat s - E)"
    proof -
      have "unat (s - rw_expected_seqno w) = unat s - E"
        using refused(1) by (simp add: unat_sub word_le_nat_alt E_def)
      moreover have "\<not> s < rw_expected_seqno w" using refused(1) by (simp add: word_less_nat_alt E_def)
      ultimately show ?thesis unfolding u32_saturating_sub_def by (metis word_of_unat)
    qed
    moreover have "u32_saturating_add (rw_far_future w) 1 = of_nat (ws_far a + 1)"
      using far_add by (metis word_of_unat)
    ultimately show ?thesis
      using refused check far far_add rel e
      by (simp add: replay_accept_def replay_check_def spec_accept_def nx Let_def window_refines_def
          E_def slot_def w(1))
  next
    case future
    define w1 where "w1 = w\<lparr>rw_far_future := u32_saturating_add (rw_far_future w) 1,
      rw_late := replicate (length (rw_late w)) 0xff\<rparr>"
    have all: "slot w1 t" for t
      using w bit_255 [of "t mod 8"] by (simp add: slot_def w1_def)
    have "window_refines n (accept_state s w1)
        \<lparr>ws_next = max E (unat s + 1), ws_seen = insert (unat s) A, ws_far = 0\<rparr>"
      by (rule accept_state_refines [OF _ _ w(3,4) s])
        (use w seen future all in \<open>auto simp: w1_def E_def\<close>)
    then show ?thesis
      using future check far
      by (simp add: replay_accept_def replay_check_def spec_accept_def nx A_def w1_def Let_def)
  next
    case replay
    have "unat s + 8 * n < E \<or> unat s \<in> A"
      using replay slots [of "unat s"] is_marked_slot [OF wf, of s] by linarith
    then show ?thesis
      using replay check e rel
      by (simp add: replay_accept_def replay_check_def spec_accept_def nx A_def Let_def E_def)
  next
    case late
    then have inside: "E \<le> unat s + 8 * n" and new: "unat s \<notin> A"
      using slots [of "unat s"] is_marked_slot [OF wf, of s] by auto
    have mx: "max E (unat s + 1) = E" using late(1) by simp
    have "window_refines n (accept_state s w)
        \<lparr>ws_next = max E (unat s + 1), ws_seen = insert (unat s) A, ws_far = 0\<rparr>"
      by (rule accept_state_refines [OF w s E_def [symmetric] seen(1) new seen(2) inside])
        (use slots in \<open>simp only: mx\<close>)
    with inside new show ?thesis
      using late check
      by (simp add: replay_accept_def replay_check_def spec_accept_def nx A_def Let_def)
  next
    case ahead
    define w1 where "w1 = marks [E..<unat s] w"
    have ms: "\<forall>m \<in> set [E..<unat s]. m < 2 ^ 32"
      using unat_u32_less [of s] by (auto simp del: unat_u32_less)
    note m = slot_marks [OF wf ms, folded w1_def]
    have "window_refines n (accept_state s w1)
        \<lparr>ws_next = max E (unat s + 1), ws_seen = insert (unat s) A, ws_far = 0\<rparr>"
    proof (rule accept_state_refines [OF _ _ w(3,4) s])
      fix t
      assume t: "t < max E (unat s + 1)" "max E (unat s + 1) \<le> t + 8 * n" "t \<noteq> unat s"
      show "slot w1 t \<longleftrightarrow> t \<notin> A"
      proof (cases "E \<le> t")
        case True
        with t ahead have "t \<in> set [E..<unat s]" by (auto simp: max_def split: if_splits)
        then have "slot w1 t" using m w by blast
        moreover have "t \<notin> A" using True seen(1) by auto
        ultimately show ?thesis by blast
      next
        case False
        have "k mod (8 * n) \<noteq> t mod (8 * n)" if "k \<in> set [E..<unat s]" for k
          using mod_eq_close [of k "8 * n" t] that t ahead False
          by (auto simp: max_def split: if_splits)
        then have "slot w1 t \<longleftrightarrow> slot w t" using m [of t] w by auto
        also have "slot w t \<longleftrightarrow> t \<notin> A" using False t by (intro slots) auto
        finally show ?thesis .
      qed
    qed (use w seen ahead m [of 0] in \<open>auto simp: w1_def E_def window_wf_def\<close>)
    then show ?thesis
      using ahead check
      by (simp add: replay_accept_def replay_check_def spec_accept_def nx A_def w1_def
          mark_missed_marks E_def Let_def)
  qed
qed

lemma new_refines: "0 < n \<Longrightarrow> 8 * n < 2 ^ 32 \<Longrightarrow> window_refines n (replay_window_new n) spec_new"
  by (simp add: window_refines_def replay_window_new_def spec_new_def)

section \<open>Runs\<close>

primrec replay_run ::
  "u32 list \<Rightarrow> sptps_replay_window \<Rightarrow> (sptps_error + unit) list \<times> sptps_replay_window" where
  "replay_run [] w = ([], w)"
| "replay_run (s # ss) w =
     (let (r, w) = replay_accept s w; (rs, w) = replay_run ss w in (r # rs, w))"

primrec spec_run :: "nat \<Rightarrow> nat list \<Rightarrow> window_spec \<Rightarrow> (sptps_error + unit) list \<times> window_spec" where
  "spec_run n [] a = ([], a)"
| "spec_run n (s # ss) a =
     (let (r, a) = spec_accept n s a; (rs, a) = spec_run n ss a in (r # rs, a))"

definition accepted_seqnos :: "u32 list \<Rightarrow> sptps_replay_window \<Rightarrow> u32 list" where
  "accepted_seqnos ss w =
     map fst (filter (\<lambda>(s, r). r = Inr ()) (zip ss (fst (replay_run ss w))))"

lemma run_refines:
  "window_refines n w a \<Longrightarrow> U32_MAX \<notin> set ss \<Longrightarrow>
    fst (replay_run ss w) = fst (spec_run n (map unat ss) a)
    \<and> window_refines n (snd (replay_run ss w)) (snd (spec_run n (map unat ss) a))"
proof (induction ss arbitrary: w a)
  case (Cons s ss)
  have "s \<noteq> U32_MAX" using Cons.prems(2) by auto
  from accept_refines [OF Cons.prems(1) this] Cons.IH Cons.prems(2)
  show ?case by (simp add: Let_def case_prod_beta)
qed simp

lemma spec_accept_fresh:
  "ws_seen a \<subseteq> {..<ws_next a} \<Longrightarrow> spec_accept n s a = (Inr u, a')
    \<Longrightarrow> s \<notin> ws_seen a \<and> ws_seen a' = insert s (ws_seen a)"
  by (auto simp: spec_accept_def split: if_splits)

lemma spec_accept_refused: "spec_accept n s a = (Inl e, a') \<Longrightarrow> ws_seen a' = ws_seen a"
  by (auto simp: spec_accept_def split: if_splits)

definition window_tracks :: "sptps_replay_window \<Rightarrow> u32 set \<Rightarrow> bool" where
  "window_tracks w seen \<longleftrightarrow> (\<exists>n a. window_refines n w a \<and> ws_seen a = unat ` seen)"

interpretation rw: anti_replay replay_accept window_tracks "\<lambda>s. s \<noteq> U32_MAX"
proof unfold_locales
  fix w seen s w'
  assume t: "window_tracks w seen" and s: "s \<noteq> U32_MAX"
  then obtain n a where a: "window_refines n w a" "ws_seen a = unat ` seen"
    by (auto simp: window_tracks_def)
  then have sub: "ws_seen a \<subseteq> {..<ws_next a}" unfolding window_refines_def by blast
  obtain r a' where r: "spec_accept n (unat s) a = (r, a')" by (cases "spec_accept n (unat s) a")
  note step = accept_refines [OF a(1) s]
  show "s \<notin> seen \<and> window_tracks w' (insert s seen)" if "replay_accept s w = (Inr (), w')"
  proof -
    from that step r have "r = Inr ()" "window_refines n w' a'" by simp_all
    with r spec_accept_fresh [OF sub, of n "unat s" "()" a'] a(2) show ?thesis
      by (auto simp: window_tracks_def)
  qed
  show "window_tracks w' seen" if "replay_accept s w = (Inl e, w')" for e :: sptps_error
  proof -
    from that step r have "r = Inl e" "window_refines n w' a'" by simp_all
    with r spec_accept_refused [of n "unat s" a e a'] a(2) show ?thesis
      by (auto simp: window_tracks_def)
  qed
qed

lemma accepted_seqnos_run: "accepted_seqnos ss w = rw.accepted_of ss w"
proof (induction ss arbitrary: w)
  case (Cons s ss)
  obtain r w' where r: "replay_accept s w = (r, w')" by (cases "replay_accept s w")
  from Cons.IH [of w'] r show ?case
    by (cases r) (simp_all add: accepted_seqnos_def Let_def case_prod_beta)
qed (simp add: accepted_seqnos_def)

lemma verify_is_accept: "replay_verify w s = fst (replay_accept s w)"
  by (auto simp: replay_verify_def replay_accept_def replay_check_def check_window_def Let_def
      split: prod.splits sum.splits)

section \<open>Properties\<close>

text \<open>
  C22: until the 32-bit sequence number wraps, the bitmap window answers every sequence of
  datagram numbers, errors and their details included, exactly as a window that remembers the
  set of all numbers accepted so far, and its \<open>received\<close> counter is the size of that set.
\<close>

theorem replay_window_refines:
  assumes "0 < n" "8 * n < 2 ^ 32" "U32_MAX \<notin> set ss"
  shows "fst (replay_run ss (replay_window_new n)) = fst (spec_run n (map unat ss) spec_new)
    \<and> window_refines n (snd (replay_run ss (replay_window_new n)))
      (snd (spec_run n (map unat ss) spec_new))"
  using run_refines [OF new_refines [OF assms(1,2)] assms(3)] by simp

theorem replay_window_refines_witness:
  "fst (replay_run [0, 3, 1, 1] (replay_window_new 16))
     = [Inr (), Inr (), Inr (), Inl (Replay 1 4)]"
proof -
  have "U32_MAX \<notin> set [0, 3, 1, 1]" by (simp add: U32_MAX_def)
  from replay_window_refines [OF _ _ this, of 16]
  show ?thesis by (simp add: spec_accept_def spec_new_def)
qed

text \<open>
  No sequence number is accepted twice, in any order of arrival and across jumps of the
  window, as long as the number that wraps the counter is not used.
\<close>

theorem no_replay:
  assumes "0 < n" "8 * n < 2 ^ 32" "U32_MAX \<notin> set ss"
  shows "distinct (accepted_seqnos ss (replay_window_new n))"
proof -
  have "window_tracks (replay_window_new n) {}"
    using new_refines [OF assms(1,2)] by (force simp: window_tracks_def spec_new_def)
  then show ?thesis
    unfolding accepted_seqnos_run using rw.accepted_of_distinct [of _ "{}" ss] assms(3) by blast
qed

theorem no_replay_witness: "distinct (accepted_seqnos [0, 3, 1, 1, 3, 2] (replay_window_new 16))"
  by (rule no_replay) (simp_all add: U32_MAX_def)

text \<open>
  Checking a number without consuming it gives the verdict, error details included, that
  accepting it would give; a refused number leaves the window as it was but for the far-future
  counter.
\<close>

theorem verify_agrees_accept:
  "replay_verify w s = fst (replay_accept s w)
   \<and> (case replay_accept s w of
        (Inl e, w') \<Rightarrow> w' = w\<lparr>rw_far_future := rw_far_future w'\<rparr>
      | (Inr _, w') \<Rightarrow> rw_window_bytes w' = rw_window_bytes w)"
proof -
  have m: "rw_window_bytes (mark_missed s w) = rw_window_bytes w" by (simp add: mark_missed_marks)
  have acc: "rw_window_bytes (accept_state s v) = rw_window_bytes v" for v
    by (simp add: accept_state_def Let_def)
  show ?thesis
    by (auto simp: replay_verify_def replay_accept_def replay_check_def check_window_def Let_def
        acc m split: prod.splits sum.splits)
qed

end
