(* ===== verification/Sptps_Crypto_Props.thy ===== *)
theory Sptps_Crypto_Props
  imports Sptps_Crypto
begin

text \<open>
  What the keys and primitives of \<^verbatim>\<open>tinc-runtime/src/sptps.rs\<close> guarantee, over documented laws of
  the third-party operations: output lengths, and the algebra of the curve group.
\<close>

section \<open>Documented laws of the primitives\<close>

definition hashes_ok :: "('p, 's) sptps_crypto \<Rightarrow> bool" where
  "hashes_ok C \<longleftrightarrow> (\<forall>k m. length (cr_poly1305 C k m) = 16)
     \<and> (\<forall>k m. length (cr_hmac_sha512 C k m) = 64) \<and> (\<forall>m. length (cr_sha512 C m) = 64)"

text \<open>A 32-byte string whose low three and high two bits are those clamping sets.\<close>

definition clamped :: "byte list \<Rightarrow> bool" where
  "clamped k \<longleftrightarrow> length k = 32 \<and> clamp_ed25519_scalar k = k"

text \<open>
  The base point multiples form a group with neutral scalar arithmetic, encodings of points and
  of canonical scalars (below \<open>2 ^ 253\<close>) are read back, and multiplying by clamped scalars commutes.
\<close>

definition curve_ok :: "('p, 's::comm_ring_1) sptps_crypto \<Rightarrow> bool" where
  "curve_ok C \<longleftrightarrow>
     (\<forall>P. length (cr_compress C P) = 32 \<and> cr_decompress C (cr_compress C P) = Some P)
     \<and> (\<forall>s. length (cr_scalar_bytes C s) = 32 \<and> cr_scalar_bytes C s ! 31 AND 0xe0 = 0
          \<and> cr_scalar C (cr_scalar_bytes C s) = s)
     \<and> (\<forall>k. clamped k \<longrightarrow> cr_mul_base_clamped C k = cr_mul_base C (cr_scalar C k))
     \<and> (\<forall>x. cr_neg C (cr_mul_base C x) = cr_mul_base C (- x))
     \<and> (\<forall>h x s. cr_double_mul C h (cr_mul_base C x) s = cr_mul_base C (h * x + s))
     \<and> (\<forall>a b. cr_shared_mul C (cr_mul_base_clamped C a) b = cr_shared_mul C (cr_mul_base_clamped C b) a)"

section \<open>Record protection\<close>

lemma length_chacha20_xor [simp]: "length (chacha20_xor C k s c d) = length d"
  by (simp add: chacha20_xor_def Let_def)

lemma chacha20_xor_twice [simp]: "chacha20_xor C k s c (chacha20_xor C k s c d) = d"
  by (rule nth_equalityI) (simp_all add: chacha20_xor_def Let_def xor.assoc)

lemma length_encrypt [simp]:
  "hashes_ok C \<Longrightarrow> length (chacha_poly1305_encrypt C k s p) = length p + 16"
  by (simp add: chacha_poly1305_encrypt_def hashes_ok_def Let_def)

lemma decrypt_encrypt:
  "hashes_ok C \<Longrightarrow> chacha_poly1305_decrypt C k s (chacha_poly1305_encrypt C k s p) = Inr p"
  by (simp add: chacha_poly1305_decrypt_def chacha_poly1305_encrypt_def hashes_ok_def Let_def
      SPTPS_TAG_LEN_def)

lemma decrypt_accepts_only:
  assumes "chacha_poly1305_decrypt C k s ct = Inr p"
  shows "ct = chacha_poly1305_encrypt C k s p"
  using assms by (auto simp: chacha_poly1305_decrypt_def chacha_poly1305_encrypt_def Let_def
      split: if_splits)

lemma decrypt_iff_encrypt:
  "hashes_ok C \<Longrightarrow> chacha_poly1305_decrypt C k s ct = Inr p \<longleftrightarrow> ct = chacha_poly1305_encrypt C k s p"
  using decrypt_encrypt decrypt_accepts_only by metis

lemma decrypt_length:
  "hashes_ok C \<Longrightarrow> chacha_poly1305_decrypt C k s ct = Inr p \<Longrightarrow> length ct = length p + 16"
  by (auto dest: decrypt_accepts_only)

section \<open>Key material\<close>

lemma copy_at_0 [simp]: "copy_at 0 src dst = src @ drop (length src) dst"
  by (simp add: copy_at_def)

text \<open>
  The chaining blocks of the pseudo-random function and its output blocks: block \<open>i\<close> of the
  output authenticates chaining block \<open>i + 1\<close> and the seed, the construction of \<open>P_hash\<close> in TLS
  except that the chain starts from a zero block and the seed.
\<close>

primrec p_hash_chain :: "(byte list \<Rightarrow> byte list \<Rightarrow> byte list) \<Rightarrow> byte list \<Rightarrow> byte list \<Rightarrow> nat \<Rightarrow> byte list" where
  "p_hash_chain hmac secret seed 0 = replicate 64 0"
| "p_hash_chain hmac secret seed (Suc i) = hmac secret (p_hash_chain hmac secret seed i @ seed)"

definition p_hash :: "(byte list \<Rightarrow> byte list \<Rightarrow> byte list) \<Rightarrow> byte list \<Rightarrow> byte list \<Rightarrow> nat \<Rightarrow> byte list" where
  "p_hash hmac secret seed blocks =
     concat (map (\<lambda>i. hmac secret (p_hash_chain hmac secret seed (Suc i) @ seed)) [0..<blocks])"

lemma length_concat_64: "(\<And>i. length (f i) = 64) \<Longrightarrow> length (concat (map f xs)) = 64 * length xs"
  by (induction xs) simp_all

lemma length_p_hash: "(\<And>k m. length (hmac k m) = 64) \<Longrightarrow> length (p_hash hmac s d n) = 64 * n"
  by (simp add: p_hash_def length_concat_64)

lemma length_p_hash_chain: "(\<And>k m. length (hmac k m) = 64) \<Longrightarrow> length (p_hash_chain hmac s d i) = 64"
  by (cases i) simp_all

lemma prf_loop_p_hash:
  assumes l: "\<And>k m. length (hmac k m) = 64"
  shows "prf_loop hmac secret (p_hash_chain hmac secret seed j @ seed) n
    = take n (concat (map (\<lambda>i. hmac secret (p_hash_chain hmac secret seed (Suc (j + i)) @ seed)) [0..<n]))"
proof (induction n arbitrary: j rule: less_induct)
  case (less n)
  define f where "f i = hmac secret (p_hash_chain hmac secret seed (Suc i) @ seed)" for i
  show ?case
  proof (cases "n = 0")
    case True
    then show ?thesis by (simp add: prf_loop.simps)
  next
    case False
    then have n: "[0..<n] = 0 # map Suc [0..<n - 1]"
      by (metis gr0_conv_Suc map_Suc_upt neq0_conv upt_conv_Cons diff_Suc_1)
    define m where "m = n - min n 64"
    have step: "prf_loop hmac secret (p_hash_chain hmac secret seed j @ seed) n
        = take (min n 64) (f j)
          @ prf_loop hmac secret (p_hash_chain hmac secret seed (Suc j) @ seed) m"
      using False unfolding prf_loop.simps [of hmac secret _ n] f_def m_def
      by (simp add: l length_p_hash_chain SPTPS_PRF_DIGEST_LEN_def Let_def)
    have lf: "length (f i) = 64" for i by (simp add: f_def l)
    have cut: "take m (concat (map (\<lambda>i. f (Suc (j + i))) [0..<m]))
        = take m (concat (map (\<lambda>i. f (Suc (j + i))) [0..<n - 1]))"
    proof -
      have "m \<le> n - 1" using False by (simp add: m_def)
      then obtain d where "n - 1 = m + d" using le_Suc_ex by blast
      then have "[0..<n - 1] = [0..<m] @ [m..<m + d]" using upt_add_eq_append [of 0 m d] by simp
      then show ?thesis by (simp add: length_concat_64 lf)
    qed
    have "m < n" using False by (simp add: m_def)
    from less.IH [OF this, of "Suc j"]
    have "prf_loop hmac secret (p_hash_chain hmac secret seed (Suc j) @ seed) m
        = take m (concat (map (\<lambda>i. f (Suc (j + i))) [0..<m]))"
      by (simp add: f_def)
    with step have "prf_loop hmac secret (p_hash_chain hmac secret seed j @ seed) n
        = take (min n 64) (f j) @ take m (concat (map (\<lambda>i. f (Suc (j + i))) [0..<n - 1]))"
      by (simp only: cut)
    also have "\<dots> = take n (f j @ concat (map (\<lambda>i. f (Suc (j + i))) [0..<n - 1]))"
      by (cases "n \<le> 64") (simp_all add: lf m_def)
    finally show ?thesis by (simp add: n f_def comp_def)
  qed
qed

lemma sptps_prf_blocks:
  assumes "hashes_ok C" "n \<le> 64 * b"
  shows "sptps_prf C secret seed n = take n (p_hash (cr_hmac_sha512 C) secret seed b)"
proof -
  have l: "length (cr_hmac_sha512 C k m) = 64" for k m using assms(1) by (simp add: hashes_ok_def)
  have "take n (p_hash (cr_hmac_sha512 C) secret seed c)
      = take n (p_hash (cr_hmac_sha512 C) secret seed d)" if le: "n \<le> 64 * c" "c \<le> d" for c d
  proof -
    obtain e where "d = c + e" using le(2) le_Suc_ex by blast
    then have "p_hash (cr_hmac_sha512 C) secret seed d = p_hash (cr_hmac_sha512 C) secret seed c
        @ concat (map (\<lambda>i. cr_hmac_sha512 C secret
            (p_hash_chain (cr_hmac_sha512 C) secret seed (Suc i) @ seed)) [c..<c + e])"
      using upt_add_eq_append [of 0 c e] by (simp add: p_hash_def)
    then show ?thesis using le(1) by (simp add: length_p_hash l)
  qed
  from this [of b "max b n"] this [of n "max b n"] assms(2)
  have "take n (p_hash (cr_hmac_sha512 C) secret seed n) = take n (p_hash (cr_hmac_sha512 C) secret seed b)"
    by simp
  moreover have "sptps_prf C secret seed n = take n (p_hash (cr_hmac_sha512 C) secret seed n)"
    using prf_loop_p_hash [of "cr_hmac_sha512 C" secret seed 0 n, OF l]
    by (simp add: sptps_prf_def SPTPS_PRF_DIGEST_LEN_def p_hash_def)
  ultimately show ?thesis by simp
qed

lemma length_sptps_prf: "hashes_ok C \<Longrightarrow> length (sptps_prf C secret seed n) = n"
  using sptps_prf_blocks [of C n n secret seed] length_p_hash [of "cr_hmac_sha512 C" secret seed n]
  by (simp add: hashes_ok_def)

section \<open>Signatures\<close>

text \<open>A private key whose stored public key belongs to its scalar.\<close>

definition private_key_ok :: "('p, 's) sptps_crypto \<Rightarrow> ed25519_private_key \<Rightarrow> bool" where
  "private_key_ok C k \<longleftrightarrow> length (pk_expanded k) = 64
     \<and> public_bytes (pk_public k) = cr_compress C (cr_mul_base C (cr_scalar C (take 32 (pk_expanded k))))"

lemma clamp_clamped:
  assumes "length k = 32"
  shows "clamped (clamp_ed25519_scalar k)"
proof -
  have "(x AND 248) AND 248 = x AND 248" "((y AND 63 OR 64) AND 63) OR 64 = y AND 63 OR 64" for x y :: byte
    by (rule bit_word_eqI; auto simp: bit_simps)+
  with assms show ?thesis
    by (simp add: clamped_def clamp_ed25519_scalar_def Let_def list_update_swap [of 31 0])
qed

lemma private_from_seed_ok:
  assumes "hashes_ok C" "curve_ok C"
  shows "private_key_ok C (private_from_seed C seed)"
proof -
  have "length (cr_sha512 C seed) = 64" using assms(1) by (simp add: hashes_ok_def)
  then have "clamped (clamp_ed25519_scalar (take 32 (cr_sha512 C seed)))"
    by (simp add: clamp_clamped)
  moreover from this have "length (clamp_ed25519_scalar (take 32 (cr_sha512 C seed))) = 32"
    by (simp add: clamped_def)
  ultimately show ?thesis using assms(2) \<open>length (cr_sha512 C seed) = 64\<close>
    by (simp add: private_key_ok_def private_from_seed_def Let_def ED25519_PUBLIC_KEY_LEN_def
        curve_ok_def)
qed

lemma length_sign [simp]: "curve_ok C \<Longrightarrow> length (ed25519_sign C k m) = 64"
  by (simp add: ed25519_sign_def curve_ok_def copy_at_def ED25519_PUBLIC_KEY_LEN_def
      ED25519_SIGNATURE_LEN_def Let_def)

lemma verify_sign:
  fixes C :: "('p, 's::comm_ring_1) sptps_crypto"
  assumes C: "curve_ok C" and k: "private_key_ok C k"
  shows "ed25519_verify C (pk_public k) m (ed25519_sign C k m) = Inr ()"
proof -
  define a where "a = cr_scalar C (take 32 (pk_expanded k))"
  define r where "r = cr_scalar_wide C (cr_sha512 C (drop 32 (pk_expanded k) @ m))"
  define R where "R = cr_compress C (cr_mul_base C r)"
  define h where "h = ed25519_hram C R (public_bytes (pk_public k)) m"
  define s where "s = cr_scalar_bytes C (h * a + r)"
  have l: "length R = 32" "length s = 32" using C by (simp_all add: R_def s_def curve_ok_def)
  have sig: "ed25519_sign C k m = R @ s"
    using l by (simp add: ed25519_sign_def copy_at_def ED25519_PUBLIC_KEY_LEN_def
        ED25519_SIGNATURE_LEN_def Let_def a_def r_def R_def h_def s_def)
  have top: "(R @ s) ! 63 AND 0xe0 = 0"
    using C l by (simp add: nth_append s_def curve_ok_def)
  have pub: "cr_decompress C (public_bytes (pk_public k)) = Some (cr_mul_base C a)"
    using C k by (simp add: private_key_ok_def curve_ok_def a_def)
  have "cr_double_mul C h (cr_neg C (cr_mul_base C a)) (h * a + r)
      = cr_mul_base C (h * (- a) + (h * a + r))"
    using C by (simp add: curve_ok_def)
  also have "h * (- a) + (h * a + r) = r" by simp
  finally have check: "cr_compress C (cr_double_mul C h (cr_neg C (cr_mul_base C a)) (cr_scalar C s)) = R"
    using C by (simp add: R_def s_def curve_ok_def)
  show ?thesis
    unfolding sig ed25519_verify_def ED25519_SIGNATURE_LEN_def ED25519_PUBLIC_KEY_LEN_def
    using l top pub check by (simp add: h_def Let_def)
qed

section \<open>Key agreement\<close>

lemma compute_shared_agree:
  assumes "hashes_ok C" "curve_ok C"
  shows "compute_shared C (ephemeral_from_seed C a) (eph_public (ephemeral_from_seed C b))
       = compute_shared C (ephemeral_from_seed C b) (eph_public (ephemeral_from_seed C a))"
    and "\<exists>z. compute_shared C (ephemeral_from_seed C a) (eph_public (ephemeral_from_seed C b)) = Inr z"
  using assms(2) by (simp_all add: compute_shared_def ephemeral_from_seed_def private_from_seed_def
      curve_ok_def Let_def)

lemma length_eph_public:
  "curve_ok C \<Longrightarrow> length (eph_public (ephemeral_from_seed C a)) = 32"
  by (simp add: ephemeral_from_seed_def private_from_seed_def curve_ok_def Let_def)

section \<open>PEM files\<close>

lemma b64_index: "n < 64 \<Longrightarrow> BASE64_ORIGINAL ! n \<in> set BASE64_ORIGINAL"
  by (rule nth_mem) (simp add: BASE64_ORIGINAL_def)

lemma b64_char: "(w :: u32) = w AND 63 \<Longrightarrow> BASE64_ORIGINAL ! unat w \<in> set BASE64_ORIGINAL"
  using and_63_less [of w] by (auto intro: b64_index simp: word_less_nat_alt)

lemma b64_char_masked: "BASE64_ORIGINAL ! unat ((w :: u32) AND 63) \<in> set BASE64_ORIGINAL"
  by (rule b64_index) (use and_63_less [of w] in \<open>simp add: word_less_nat_alt\<close>)

lemma b64encode_chars: "set (b64encode_tinc_internal src BASE64_ORIGINAL) \<subseteq> set BASE64_ORIGINAL"
proof (induction src "BASE64_ORIGINAL" rule: b64encode_tinc_internal.induct)
  case (1 a b c src)
  then show ?case
    using b64_char [OF sextets_triplet(4) [of a b c]]
    by (simp add: b64_char_masked Let_def del: b64encode_tinc_internal.simps(2-))
next
  case (3 a)
  show ?case using b64_char [OF sextets_single(2) [of a]] by (simp add: b64_char_masked Let_def)
next
  case (4 a b)
  show ?case using b64_char [OF sextets_pair(3) [of a b]] by (simp add: b64_char_masked Let_def)
qed simp

lemma b64encode_line:
  "LF \<notin> set (b64encode_tinc d)" "CR \<notin> set (b64encode_tinc d)" "CHR ''-'' \<notin> set (b64encode_tinc d)"
proof -
  have "LF \<notin> set BASE64_ORIGINAL" "CR \<notin> set BASE64_ORIGINAL" "CHR ''-'' \<notin> set BASE64_ORIGINAL"
    by (simp_all add: BASE64_ORIGINAL_def LF_def CR_def)
  with b64encode_chars [of d] show "LF \<notin> set (b64encode_tinc d)" "CR \<notin> set (b64encode_tinc d)"
    "CHR ''-'' \<notin> set (b64encode_tinc d)"
    unfolding b64encode_tinc_def by blast+
qed

lemma b64encode_not_end: "b64encode_tinc d \<noteq> pem_end t"
  using b64encode_line(3) [of d] by (auto simp: pem_end_def)

lemma b64_decode_encode: "b64decode_tinc (b64encode_tinc d) = Some d"
  by (simp add: b64encode_tinc_def b64decode_encode alphabet_def)

lemma length_b64encode: "length (b64encode_tinc_internal d a) = (4 * length d + 2) div 3"
proof (induction d a rule: b64encode_tinc_internal.induct)
  case (1 a b c src al)
  then show ?case by (simp add: Let_def)
qed (simp_all add: Let_def)

lemma pem_body_lines: "\<forall>l \<in> set (pem_body d). LF \<notin> set l \<and> CR \<notin> set l"
  by (induction d rule: pem_body.induct) (subst pem_body.simps, simp add: b64encode_line)

lemma trim_cr_id: "CR \<notin> set l \<Longrightarrow> trim_end_char CR l = l"
  by (rule trim_end_char_id) (auto dest: last_in_set)

lemma read_pem_body:
  assumes "length out + length d = n" "CR \<notin> set (pem_end t)"
  shows "read_pem_lines t n True out (pem_body d @ [pem_end t]) = Inr (out @ d)"
  using assms(1)
proof (induction d arbitrary: out rule: pem_body.induct)
  case (1 d)
  show ?case
  proof (cases "d = []")
    case True
    then show ?thesis using 1 assms(2) by (simp add: pem_body.simps trim_cr_id)
  next
    case False
    from 1 have len: "length (out @ take TINC_PEM_CHUNK_LEN d) + length (drop TINC_PEM_CHUNK_LEN d) = n"
      "length out + length (take TINC_PEM_CHUNK_LEN d) \<le> n" by auto
    have ne: "take TINC_PEM_CHUNK_LEN d \<noteq> []" using False by (simp add: TINC_PEM_CHUNK_LEN_def)
    have "read_pem_lines t n True out (pem_body d @ [pem_end t])
        = read_pem_lines t n True (out @ take TINC_PEM_CHUNK_LEN d)
            (pem_body (drop TINC_PEM_CHUNK_LEN d) @ [pem_end t])"
      using False ne len(2) unfolding pem_body.simps [of d]
      by (simp add: trim_cr_id b64encode_line b64encode_not_end b64_decode_encode del: take_eq_Nil2)
    also have "\<dots> = Inr ((out @ take TINC_PEM_CHUNK_LEN d) @ drop TINC_PEM_CHUNK_LEN d)"
      by (rule 1(1) [OF False len(1)])
    finally show ?thesis by simp
  qed
qed

lemma read_write_pem:
  assumes "LF \<notin> set t" "CR \<notin> set t"
  shows "read_tinc_pem (write_tinc_pem t d) t (length d) = Inr d"
proof -
  have hl: "LF \<notin> set (pem_begin t)" "CR \<notin> set (pem_begin t)" "LF \<notin> set (pem_end t)" "CR \<notin> set (pem_end t)"
    using assms by (simp_all add: pem_begin_def pem_end_def LF_def CR_def)
  then have "rust_lines (write_tinc_pem t d) = pem_begin t # pem_body d @ [pem_end t]"
    unfolding write_tinc_pem_def by (intro rust_lines_written) (use pem_body_lines in auto)
  with hl show ?thesis by (simp add: read_tinc_pem_def trim_cr_id read_pem_body)
qed

section \<open>A concrete instance of the laws\<close>

text \<open>
  Bytes as points and scalars satisfy every law above; the theorems are applied on this instance.
\<close>

definition demo_crypto :: "(byte, byte) sptps_crypto" where
  "demo_crypto = \<lparr>
     cr_keystream = \<lambda>k n i. of_nat (i + 7),
     cr_poly1305 = \<lambda>k m. replicate 16 (sum_list m + 1),
     cr_hmac_sha512 = \<lambda>k m. replicate 64 (sum_list k + sum_list m + 3),
     cr_sha512 = \<lambda>m. replicate 64 (sum_list m),
     cr_scalar_wide = \<lambda>b. b ! 0,
     cr_scalar = \<lambda>b. b ! 0,
     cr_scalar_bytes = \<lambda>s. s # replicate 31 0,
     cr_mul_base = \<lambda>x. x,
     cr_mul_base_clamped = \<lambda>k. k ! 0,
     cr_neg = uminus,
     cr_double_mul = \<lambda>h p s. h * p + s,
     cr_compress = \<lambda>p. p # replicate 31 0,
     cr_decompress = \<lambda>b. Some (b ! 0),
     cr_shared_mul = \<lambda>p k. replicate 32 (p * k ! 0)\<rparr>"

lemma demo_hashes_ok: "hashes_ok demo_crypto"
  by (simp add: hashes_ok_def demo_crypto_def)

lemma demo_curve_ok: "curve_ok demo_crypto"
  by (simp add: curve_ok_def demo_crypto_def mult.commute)

section \<open>Properties\<close>

text \<open>
  A protected record is accepted exactly when it is the encryption, under the same key and
  sequence number, of the plaintext returned; anything else, a record of another sequence number
  with another tag included, is refused.
\<close>

theorem record_protection_exact:
  assumes "hashes_ok C"
  shows "chacha_poly1305_decrypt C k s ct = Inr p \<longleftrightarrow> ct = chacha_poly1305_encrypt C k s p"
    and "length (chacha_poly1305_encrypt C k s p) = length p + SPTPS_TAG_LEN"
  using assms by (simp_all add: decrypt_iff_encrypt SPTPS_TAG_LEN_def)

theorem record_protection_exact_witness:
  "chacha_poly1305_decrypt demo_crypto (SptpsKey (replicate 64 5)) 9
     (chacha_poly1305_encrypt demo_crypto (SptpsKey (replicate 64 5)) 9 [1, 2]) = Inr [1, 2]"
  by (rule record_protection_exact(1) [OF demo_hashes_ok, THEN iffD2]) (rule refl)

text \<open>
  A signature made with a key generated from a seed, or with any key whose public half
  belongs to its scalar, verifies under the public key.
\<close>

theorem sign_verifies:
  fixes C :: "('p, 's::comm_ring_1) sptps_crypto"
  assumes "hashes_ok C" "curve_ok C"
    and "k = private_from_seed C seed
      \<or> (private_try_from bytes = Inr k \<and> private_key_ok C k)"
  shows "ed25519_verify C (pk_public k) message (ed25519_sign C k message) = Inr ()"
  using assms private_from_seed_ok [OF assms(1,2), of seed] by (auto intro: verify_sign)

theorem sign_verifies_witness:
  "ed25519_verify demo_crypto (pk_public (private_from_seed demo_crypto [3])) [1, 2]
     (ed25519_sign demo_crypto (private_from_seed demo_crypto [3]) [1, 2]) = Inr ()"
  by (rule sign_verifies [OF demo_hashes_ok demo_curve_ok, of _ "[3]" "[]"]) simp

text \<open>
  C31: keys survive their file forms: a public key its base64 line and its PEM file, a private
  key its 96-byte layout and its PEM file.
\<close>

theorem key_files_roundtrip:
  assumes "length (public_bytes pub) = ED25519_PUBLIC_KEY_LEN"
    and "length (pk_expanded key) = ED25519_EXPANDED_PRIVATE_KEY_LEN"
    and "length (public_bytes (pk_public key)) = ED25519_PUBLIC_KEY_LEN"
  shows "public_from_base64 (public_to_base64 pub) = Inr pub
    \<and> public_from_pem (public_to_pem pub) = Inr pub
    \<and> private_try_from (private_as_tinc key) = Inr key
    \<and> private_from_pem (private_to_pem key) = Inr key"
proof -
  have t: "LF \<notin> set ED25519_PUBLIC_PEM_TYPE" "CR \<notin> set ED25519_PUBLIC_PEM_TYPE"
    "LF \<notin> set ED25519_PRIVATE_PEM_TYPE" "CR \<notin> set ED25519_PRIVATE_PEM_TYPE"
    by (simp_all add: ED25519_PUBLIC_PEM_TYPE_def ED25519_PRIVATE_PEM_TYPE_def LF_def CR_def)
  have priv: "private_as_tinc key = pk_expanded key @ public_bytes (pk_public key)"
    using assms by (simp add: private_as_tinc_def copy_at_def sptps_lens)
  have "private_try_from (private_as_tinc key) = Inr key"
    using assms by (simp add: priv private_try_from_def sptps_lens)
  moreover have "read_tinc_pem (private_to_pem key) ED25519_PRIVATE_PEM_TYPE ED25519_TINC_PRIVATE_KEY_LEN
      = Inr (private_as_tinc key)"
    using read_write_pem [OF t(3,4), of "private_as_tinc key"] assms
    by (simp add: private_to_pem_def priv sptps_lens)
  moreover have "read_tinc_pem (public_to_pem pub) ED25519_PUBLIC_PEM_TYPE ED25519_PUBLIC_KEY_LEN
      = Inr (public_bytes pub)"
    using read_write_pem [OF t(1,2), of "public_bytes pub"] assms by (simp add: public_to_pem_def)
  moreover have "length (public_to_base64 pub) = ED25519_PUBLIC_KEY_BASE64_LEN"
    using assms(1) by (simp add: public_to_base64_def b64encode_tinc_def length_b64encode sptps_lens)
  ultimately show ?thesis using assms
    by (simp add: public_from_pem_def private_from_pem_def public_from_base64_def
        public_to_base64_def b64_decode_encode public_try_from_slice_def)
qed

theorem key_files_roundtrip_witness:
  "public_from_pem (public_to_pem (PublicKey (replicate 32 7))) = Inr (PublicKey (replicate 32 7))"
  using key_files_roundtrip [of "PublicKey (replicate 32 7)"
      "\<lparr>pk_expanded = replicate 64 1, pk_public = PublicKey (replicate 32 2)\<rparr>"]
  by (simp add: sptps_lens)

text \<open>
  The output of the pseudo-random function is a prefix of the \<open>P_hash\<close> stream, whatever
  its length, and the two session keys are the first two blocks of that stream over the label
  \<open>key expansion\<close>, the two nonces and the session label.
\<close>

theorem prf_is_p_hash:
  assumes "hashes_ok C"
  shows "sptps_prf C secret seed n = take n (p_hash (cr_hmac_sha512 C) secret seed n)"
    and "length (sptps_prf C secret seed n) = n"
    and "material_derive C secret ni nr label =
      (let seed = byte_string ''key expansion'' @ ni @ nr @ label;
           hmac = cr_hmac_sha512 C secret;
           a1 = hmac (replicate 64 0 @ seed);
           a2 = hmac (a1 @ seed)
       in \<lparr>km_key0 = SptpsKey (hmac (a1 @ seed)), km_key1 = SptpsKey (hmac (a2 @ seed))\<rparr>)"
proof -
  show "sptps_prf C secret seed n = take n (p_hash (cr_hmac_sha512 C) secret seed n)"
    using assms by (rule sptps_prf_blocks) simp
  show "length (sptps_prf C secret seed n) = n" using assms by (rule length_sptps_prf)
  have l: "length (cr_hmac_sha512 C k m) = 64" for k m using assms by (simp add: hashes_ok_def)
  have 2: "[0..<2] = [0, Suc 0]" by (simp add: upt_rec)
  show "material_derive C secret ni nr label =
      (let seed = byte_string ''key expansion'' @ ni @ nr @ label;
           hmac = cr_hmac_sha512 C secret;
           a1 = hmac (replicate 64 0 @ seed);
           a2 = hmac (a1 @ seed)
       in \<lparr>km_key0 = SptpsKey (hmac (a1 @ seed)), km_key1 = SptpsKey (hmac (a2 @ seed))\<rparr>)"
    using assms by (simp add: material_derive_def material_new_def sptps_prf_blocks [where b = 2]
        SPTPS_KEY_MATERIAL_LEN_def SPTPS_KEY_LEN_def p_hash_def 2 l Let_def)
qed

theorem prf_is_p_hash_witness:
  "length (sptps_prf demo_crypto [1] [2] 100) = 100"
  by (rule prf_is_p_hash(2) [OF demo_hashes_ok])

end
