(* ===== verification/Sptps_Props.thy ===== *)
theory Sptps_Props
  imports Sptps_Handshake Replay_Props Sptps_Crypto_Props
begin

text \<open>
  The record layer delivers what was sent and accepts nothing else: streams in order, and
  authenticity of a decoded record.  The interface \<open>record_channel\<close> is what the handshake and
  the connections use of either codec.
\<close>

section \<open>The interface of a codec\<close>

locale record_channel =
  fixes enc :: "byte \<Rightarrow> byte list \<Rightarrow> 'c \<Rightarrow> (sptps_error + byte list) \<times> 'c"
    and dec :: "byte list \<Rightarrow> 'c \<Rightarrow> (sptps_error + sptps_record) \<times> 'c"
    and linked :: "'c \<Rightarrow> 'c \<Rightarrow> bool"
    and allowed :: "'c \<Rightarrow> byte \<Rightarrow> byte list \<Rightarrow> bool"
  assumes delivered: "linked a b \<Longrightarrow> allowed a t p \<Longrightarrow>
      \<exists>bytes a' b' q. enc t p a = (Inr bytes, a')
        \<and> dec bytes b = (Inr \<lparr>rec_seqno = q, rec_type = t, rec_payload = p\<rparr>, b')
        \<and> linked a' b' \<and> allowed a' = allowed a"
begin

primrec transfer :: "(byte \<times> byte list) list \<Rightarrow> 'c \<Rightarrow> 'c \<Rightarrow> (sptps_error + byte \<times> byte list) list" where
  "transfer [] a b = []"
| "transfer (m # ms) a b =
     (case enc (fst m) (snd m) a of
        (Inl e, a') \<Rightarrow> Inl e # transfer ms a' b
      | (Inr bytes, a') \<Rightarrow>
          (case dec bytes b of
             (r, b') \<Rightarrow> map_ok (\<lambda>r. (rec_type r, rec_payload r)) r # transfer ms a' b'))"

lemma transfer_complete:
  "linked a b \<Longrightarrow> \<forall>(t, p) \<in> set ms. allowed a t p \<Longrightarrow> transfer ms a b = map Inr ms"
proof (induction ms arbitrary: a b)
  case (Cons m ms)
  obtain t p where m: "m = (t, p)" by (cases m)
  from delivered [of a b t p] Cons.prems m obtain bytes a' b' q where
    "enc t p a = (Inr bytes, a')" "dec bytes b = (Inr \<lparr>rec_seqno = q, rec_type = t, rec_payload = p\<rparr>, b')"
    "linked a' b'" "allowed a' = allowed a" by auto
  then show ?case using Cons.IH [of a' b'] Cons.prems m by simp
qed simp

end

section \<open>Sequence numbers\<close>

lemma be32_bytes_nth:
  "be32 (be32_bytes w ! 0) (be32_bytes w ! Suc 0) (be32_bytes w ! 2) (be32_bytes w ! 3) = w"
  using be32_bytes_inverse [of w] by simp

lemma seqno_of_append [simp]: "seqno_of (be32_bytes w @ x) = w"
  by (simp add: seqno_of_def nth_append be32_bytes_nth)

lemma base256_split:
  "(x * 256 + unat (b :: byte)) div 256 = x" "(x * 256 + unat b) mod 256 = unat b"
  by simp_all

lemma be32_bytes_be32: "be32_bytes (be32 a b c d) = [a, b, c, d]"
proof -
  define N where "N = ((unat a * 256 + unat b) * 256 + unat c) * 256 + unat d"
  have 1: "N div 256 = (unat a * 256 + unat b) * 256 + unat c" "N mod 256 = unat d"
    unfolding N_def by (rule base256_split)+
  then have 2: "N div 256 div 256 = unat a * 256 + unat b" "N div 256 mod 256 = unat c"
    by (simp_all only: base256_split)
  then have 3: "N div 256 div 256 div 256 = unat a" "N div 256 div 256 mod 256 = unat b"
    by (simp_all only: base256_split)
  have "N div 65536 = N div 256 div 256" "N div 16777216 = N div 256 div 256 div 256"
    by (simp_all flip: div_mult2_eq)
  then have "N div 16777216 = unat a" "N div 65536 mod 256 = unat b" using 3 by simp_all
  with 1(2) 2(2) show ?thesis
    unfolding be32_bytes_def unat_be32 N_def [symmetric] by (simp del: of_nat_mod)
qed

lemma seqno_of_take: "4 \<le> length d \<Longrightarrow> d = be32_bytes (seqno_of d) @ drop 4 d"
proof -
  assume "4 \<le> length d"
  then obtain a b c e r where "d = a # b # c # e # r"
    by (auto simp: Suc_le_length_iff numeral_eq_Suc)
  then show ?thesis by (simp add: seqno_of_def be32_bytes_be32 numeral_eq_Suc)
qed

lemma accept_expected:
  "\<exists>w'. replay_accept (rw_expected_seqno w) w = (Inr (), w')
    \<and> rw_expected_seqno w' = rw_expected_seqno w + 1"
  by (simp add: replay_accept_def replay_check_def check_window_def accept_state_def Let_def)

section \<open>The two directions of a codec\<close>

text \<open>
  What one direction of a codec is made of: the kind of record, the key and the next sequence
  number.  Encoding advances the outgoing direction, decoding the incoming one.
\<close>

type_synonym channel = "bool \<times> sptps_key option \<times> u32"

fun codec_out :: "handshake_codec \<Rightarrow> channel" where
  "codec_out (DatagramCodec c) = (True, dc_out_key c, dc_out_seqno c)"
| "codec_out (TcpCodec c) = (False, tc_out_key c, tc_out_seqno c)"

fun codec_in :: "handshake_codec \<Rightarrow> channel" where
  "codec_in (DatagramCodec c) = (True, dc_in_key c, rw_expected_seqno (dc_in_replay c))"
| "codec_in (TcpCodec c) = (False, tc_in_key c, tc_in_seqno c)"

fun channel_step :: "channel \<Rightarrow> channel" where
  "channel_step (dg, key, q) = (dg, key, q + 1)"

fun channel_body :: "('p, 's) sptps_crypto \<Rightarrow> channel \<Rightarrow> byte list \<Rightarrow> byte list" where
  "channel_body C (dg, None, q) body = body"
| "channel_body C (dg, Some k, q) body = chacha_poly1305_encrypt C k q body"

text \<open>The bytes of a record on the wire.\<close>

fun channel_bytes :: "('p, 's) sptps_crypto \<Rightarrow> channel \<Rightarrow> byte \<Rightarrow> byte list \<Rightarrow> byte list" where
  "channel_bytes C (dg, key, q) t p =
     (if dg then be32_bytes q else be16_bytes (of_nat (length p)))
     @ channel_body C (dg, key, q) (t # p)"

definition channel_allows :: "('p, 's) sptps_crypto \<Rightarrow> channel \<Rightarrow> byte \<Rightarrow> byte list \<Rightarrow> bool" where
  "channel_allows C ch t p \<longleftrightarrow> hashes_ok C \<and> t \<le> SPTPS_HANDSHAKE
     \<and> (fst (snd ch) = None \<longrightarrow> t = SPTPS_HANDSHAKE) \<and> (fst ch \<or> length p \<le> 65535)"

lemma validate_ok:
  "t \<le> SPTPS_HANDSHAKE \<Longrightarrow> validate_record_type t = Inr ()"
  "t \<le> SPTPS_HANDSHAKE \<Longrightarrow> validate_decoded_record_type t = Inr ()"
  by (simp_all add: validate_record_type_def validate_decoded_record_type_def)

lemma channel_step_simps [simp]:
  "fst (channel_step ch) = fst ch" "fst (snd (channel_step ch)) = fst (snd ch)"
  by (cases ch; simp)+

lemma codec_encode_bytes:
  assumes "channel_allows C (codec_out c) t p"
  shows "\<exists>c'. codec_encode C t p c = (Inr (channel_bytes C (codec_out c) t p), c')
    \<and> codec_out c' = channel_step (codec_out c) \<and> codec_in c' = codec_in c"
proof (cases c)
  case (DatagramCodec d)
  then show ?thesis using assms
    by (cases "dc_out_key d") (simp_all add: datagram_encode_def channel_allows_def validate_ok Let_def)
next
  case (TcpCodec d)
  then show ?thesis using assms
    by (cases "tc_out_key d") (auto simp: tcp_encode_def channel_allows_def validate_ok Let_def)
qed

lemma datagram_decode_bytes:
  assumes "channel_allows C (codec_in (DatagramCodec c)) t p"
  shows "\<exists>w. datagram_decode C (channel_bytes C (codec_in (DatagramCodec c)) t p) c
      = (Inr \<lparr>rec_seqno = rw_expected_seqno (dc_in_replay c), rec_type = t, rec_payload = p\<rparr>,
         c\<lparr>dc_in_replay := w\<rparr>)
    \<and> rw_expected_seqno w = rw_expected_seqno (dc_in_replay c) + 1"
proof -
  define q where "q = rw_expected_seqno (dc_in_replay c)"
  obtain w where w: "replay_accept q (dc_in_replay c) = (Inr (), w)" "rw_expected_seqno w = q + 1"
    using accept_expected [of "dc_in_replay c"] q_def by auto
  show ?thesis
    using assms w
    by (cases "dc_in_key c") (auto simp: datagram_decode_def datagram_plaintext_def sptps_lens
        channel_allows_def validate_ok decrypt_encrypt Let_def simp flip: q_def)
qed

lemma be16_header: "n \<le> 65535 \<Longrightarrow>
  unat (be16 ((be16_bytes (of_nat n) @ x) ! 0) ((be16_bytes (of_nat n) @ x) ! Suc 0)) = n"
  using be16_bytes_inverse [of "of_nat n"] by (simp add: nth_append unat_of_nat_u16)

lemma tcp_decode_bytes:
  assumes "channel_allows C (codec_in (TcpCodec c)) t p"
  shows "tcp_decode C (channel_bytes C (codec_in (TcpCodec c)) t p) c
      = (Inr \<lparr>rec_seqno = tc_in_seqno c, rec_type = t, rec_payload = p\<rparr>,
         c\<lparr>tc_in_seqno := tc_in_seqno c + 1\<rparr>)"
proof -
  from assms have len: "length p \<le> 65535" and v: "validate_decoded_record_type t = Inr ()"
    by (simp_all add: channel_allows_def validate_ok)
  have third: "(be16_bytes w @ y # x) ! 2 = y" "drop 3 (be16_bytes w @ y # x) = x"
    "take 2 (be16_bytes w @ x) = be16_bytes w" "drop 2 (be16_bytes w @ x) = x" for w x and y :: byte
    by (simp_all add: nth_append)
  show ?thesis
    using assms v unfolding tcp_decode_def codec_in.simps channel_bytes.simps Let_def
    by (cases "tc_in_key c")
      (simp_all add: be16_header [OF len] third sptps_lens channel_allows_def decrypt_encrypt)
qed

lemma codec_decode_bytes:
  assumes "channel_allows C (codec_in c) t p"
  shows "\<exists>c' q. codec_decode C (channel_bytes C (codec_in c) t p) c
        = (Inr \<lparr>rec_seqno = q, rec_type = t, rec_payload = p\<rparr>, c')
    \<and> codec_in c' = channel_step (codec_in c) \<and> codec_out c' = codec_out c"
proof (cases c)
  case (DatagramCodec d)
  with datagram_decode_bytes [of C d t p] assms obtain w where
    "datagram_decode C (channel_bytes C (codec_in c) t p) d
      = (Inr \<lparr>rec_seqno = rw_expected_seqno (dc_in_replay d), rec_type = t, rec_payload = p\<rparr>,
         d\<lparr>dc_in_replay := w\<rparr>)"
    "rw_expected_seqno w = rw_expected_seqno (dc_in_replay d) + 1" by auto
  then show ?thesis unfolding DatagramCodec by (simp del: channel_bytes.simps)
next
  case (TcpCodec d)
  with tcp_decode_bytes [of C d t p] assms show ?thesis by (simp del: channel_bytes.simps)
qed

interpretation codec: record_channel "codec_encode C" "codec_decode C"
  "\<lambda>a b. codec_out a = codec_in b" "\<lambda>a. channel_allows C (codec_out a)"
  for C :: "('p, 's) sptps_crypto"
proof unfold_locales
  fix a b t p
  assume l: "codec_out a = codec_in b" and ok: "channel_allows C (codec_out a) t p"
  have same: "channel_allows C (channel_step (codec_out a)) = channel_allows C (codec_out a)"
    by (intro ext) (simp add: channel_allows_def)
  from codec_encode_bytes [OF ok] codec_decode_bytes [of C b t p] ok
  show "\<exists>bytes a' b' q. codec_encode C t p a = (Inr bytes, a')
      \<and> codec_decode C bytes b = (Inr \<lparr>rec_seqno = q, rec_type = t, rec_payload = p\<rparr>, b')
      \<and> codec_out a' = codec_in b' \<and> channel_allows C (codec_out a') = channel_allows C (codec_out a)"
    unfolding l by (metis same l)
qed

section \<open>What a decoded record was\<close>

lemma datagram_plaintext_key:
  assumes "datagram_plaintext C q body c = (Inr p, c')"
  shows "body = channel_body C (True, dc_in_key c, q) p
    \<and> fst (replay_accept q (dc_in_replay c)) = Inr ()
    \<and> c' = c\<lparr>dc_in_replay := snd (replay_accept q (dc_in_replay c))\<rparr>
    \<and> (dc_in_key c = None \<longrightarrow> q = rw_expected_seqno (dc_in_replay c))"
  using assms by (auto simp: datagram_plaintext_def Let_def map_ok_def decrypt_accepts_only
      split: option.splits sum.splits if_splits prod.splits dest: decrypt_accepts_only)

lemma validate_decoded_Inr: "validate_decoded_record_type t = Inr u \<longleftrightarrow> t \<le> SPTPS_HANDSHAKE"
  by (auto simp: validate_decoded_record_type_def)

lemma datagram_decode_Inr:
  assumes "datagram_decode C d c = (Inr r, c')"
  shows "d = channel_bytes C (True, dc_in_key c, rec_seqno r) (rec_type r) (rec_payload r)
    \<and> rec_type r \<le> SPTPS_HANDSHAKE
    \<and> (dc_in_key c = None \<longrightarrow> rec_type r = SPTPS_HANDSHAKE
         \<and> rec_seqno r = rw_expected_seqno (dc_in_replay c))
    \<and> fst (replay_accept (rec_seqno r) (dc_in_replay c)) = Inr ()
    \<and> c' = c\<lparr>dc_in_replay := snd (replay_accept (rec_seqno r) (dc_in_replay c))\<rparr>"
proof -
  from assms have len: "4 \<le> length d"
    by (auto simp: datagram_decode_def sptps_lens Let_def split: if_splits)
  obtain t p c1 where pl: "datagram_plaintext C (seqno_of d) (drop 4 d) c = (Inr (t # p), c1)"
    and r: "r = \<lparr>rec_seqno = seqno_of d, rec_type = t, rec_payload = p\<rparr>" "c' = c1"
    and t: "t \<le> SPTPS_HANDSHAKE" "dc_in_key c = None \<longrightarrow> t = SPTPS_HANDSHAKE"
    using assms by (auto simp: datagram_decode_def sptps_lens Let_def result_Inr validate_decoded_Inr
        split: if_splits prod.splits sum.splits list.splits)
  have "d = be32_bytes (seqno_of d) @ drop 4 d" using len by (rule seqno_of_take)
  with datagram_plaintext_key [OF pl] r t show ?thesis by simp
qed

lemma be16_bytes_take:
  assumes "3 \<le> length d"
  shows "d = be16_bytes (be16 (d ! 0) (d ! 1)) @ drop 2 d"
    and "d ! 2 # drop 3 d = drop 2 d"
  using assms by (auto simp: Suc_le_length_iff numeral_eq_Suc)

lemma tcp_decode_Inr:
  assumes "tcp_decode C d c = (Inr r, c')"
  shows "d = channel_bytes C (False, tc_in_key c, rec_seqno r) (rec_type r) (rec_payload r)
    \<and> rec_type r \<le> SPTPS_HANDSHAKE \<and> (tc_in_key c = None \<longrightarrow> rec_type r = SPTPS_HANDSHAKE)
    \<and> rec_seqno r = tc_in_seqno c \<and> c' = c\<lparr>tc_in_seqno := tc_in_seqno c + 1\<rparr>"
proof -
  define len where "len = unat (be16 (d ! 0) (d ! 1))"
  from assms have d3: "3 \<le> length d"
    by (auto simp: tcp_decode_def sptps_lens Let_def split: if_splits)
  note h = be16_bytes_take [OF d3]
  have "of_nat len = be16 (d ! 0) (d ! 1)" by (simp add: len_def)
  then have hd2: "d = be16_bytes (of_nat len) @ drop 2 d" using h(1) by simp
  from assms d3 have flen: "length d = len + (if tc_in_key c \<noteq> None then 19 else 3)"
    by (auto simp: tcp_decode_def sptps_lens Let_def len_def split: if_splits)
  show ?thesis
  proof (cases "tc_in_key c")
    case None
    from assms d3 flen None have r: "r = \<lparr>rec_seqno = tc_in_seqno c, rec_type = d ! 2, rec_payload = drop 3 d\<rparr>"
      "d ! 2 \<le> SPTPS_HANDSHAKE" "d ! 2 = SPTPS_HANDSHAKE" "c' = c\<lparr>tc_in_seqno := tc_in_seqno c + 1\<rparr>"
      by (auto simp: tcp_decode_def sptps_lens Let_def len_def result_Inr validate_decoded_Inr
          split: if_splits)
    with None flen hd2 h(2) show ?thesis by simp
  next
    case (Some k)
    from assms d3 flen Some obtain p where dec: "chacha_poly1305_decrypt C k (tc_in_seqno c) (drop 2 d) = Inr p"
      and r: "r = \<lparr>rec_seqno = tc_in_seqno c, rec_type = (take 2 d @ p) ! 2,
        rec_payload = drop 3 (take 2 d @ p)\<rparr>"
      "(take 2 d @ p) ! 2 \<le> SPTPS_HANDSHAKE" "c' = c\<lparr>tc_in_seqno := tc_in_seqno c + 1\<rparr>"
      by (auto simp: tcp_decode_def sptps_lens Let_def len_def result_Inr validate_decoded_Inr
          split: if_splits)
    have lp: "length p = len + 1" using dec flen Some
      by (auto simp: chacha_poly1305_decrypt_def Let_def sptps_lens split: if_splits)
    then obtain t q where p: "p = t # q" "length q = len" by (cases p) auto
    have "(take 2 d @ p) ! 2 = t" "drop 3 (take 2 d @ p) = q"
      using p d3 by (simp_all add: nth_append)
    with r p dec hd2 Some show ?thesis by (auto dest: decrypt_accepts_only)
  qed
qed

section \<open>Properties\<close>

primrec deliver_all :: "('p, 's) sptps_crypto \<Rightarrow> (byte \<times> byte list) list \<Rightarrow> handshake_codec
    \<Rightarrow> handshake_codec \<Rightarrow> (sptps_error + byte \<times> byte list) list" where
  "deliver_all C [] a b = []"
| "deliver_all C (m # ms) a b =
     (case codec_encode C (fst m) (snd m) a of
        (Inl e, a) \<Rightarrow> Inl e # deliver_all C ms a b
      | (Inr bytes, a) \<Rightarrow>
          (case codec_decode C bytes b of
             (r, b) \<Rightarrow> map_ok (\<lambda>r. (rec_type r, rec_payload r)) r # deliver_all C ms a b))"

lemma deliver_all_transfer: "deliver_all C ms a b = record_channel.transfer (codec_encode C) (codec_decode C) ms a b"
  by (induction ms arbitrary: a b)
    (simp_all add: codec.transfer.simps cong: sum.case_cong prod.case_cong)

text \<open>
  Between two codecs whose directions agree in kind, key and next sequence number, every
  stream of records of allowed types is delivered in order, for datagram and TCP records, with
  and without a key, and however often the sequence number wraps.
\<close>

theorem records_delivered:
  assumes "hashes_ok C" "codec_out a = codec_in b"
    and "\<forall>(t, p) \<in> set ms. t \<le> SPTPS_HANDSHAKE
      \<and> (codec_out_key a = None \<longrightarrow> t = SPTPS_HANDSHAKE) \<and> length p \<le> 65535"
  shows "deliver_all C ms a b = map Inr ms"
proof -
  have "fst (snd (codec_out a)) = codec_out_key a" by (cases a) simp_all
  then have "\<forall>(t, p) \<in> set ms. channel_allows C (codec_out a) t p"
    using assms(1,3) by (auto simp: channel_allows_def)
  with assms(2) show ?thesis unfolding deliver_all_transfer by (rule codec.transfer_complete)
qed

theorem records_delivered_witness:
  "deliver_all demo_crypto [(3, [1, 2]), (128, []), (0, [7])]
     (TcpCodec (tcp_with_keys (SptpsKey [4]) (SptpsKey [5])))
     (TcpCodec (tcp_with_keys (SptpsKey [5]) (SptpsKey [4])))
   = [Inr (3, [1, 2]), Inr (128, []), Inr (0, [7])]"
  using records_delivered [OF demo_hashes_ok, of "TcpCodec (tcp_with_keys (SptpsKey [4]) (SptpsKey [5]))"
      "TcpCodec (tcp_with_keys (SptpsKey [5]) (SptpsKey [4]))" "[(3, [1, 2]), (128, []), (0, [7])]"]
  by (simp add: tcp_with_keys_def SPTPS_HANDSHAKE_def)

lemma decode_authentic:
  assumes "codec_decode C d c = (Inr r, c')"
  shows "d = channel_bytes C (fst (codec_in c), codec_in_key c, rec_seqno r) (rec_type r) (rec_payload r)
    \<and> rec_type r \<le> SPTPS_HANDSHAKE
    \<and> (codec_in_key c = None \<longrightarrow> rec_type r = SPTPS_HANDSHAKE \<and> rec_seqno r = snd (snd (codec_in c)))"
proof (cases c)
  case (DatagramCodec dc)
  with assms obtain dc' where "datagram_decode C d dc = (Inr r, dc')"
    by (cases "datagram_decode C d dc") auto
  from datagram_decode_Inr [OF this] DatagramCodec show ?thesis by (simp del: channel_bytes.simps)
next
  case (TcpCodec tc)
  with assms obtain tc' where "tcp_decode C d tc = (Inr r, tc')"
    by (cases "tcp_decode C d tc") auto
  from tcp_decode_Inr [OF this] TcpCodec show ?thesis by (simp del: channel_bytes.simps)
qed

text \<open>
  Whatever bytes a codec decodes are those an encoder with the same key and sequence number
  writes for the record returned; a datagram's number was accepted by the replay window, which
  alone changes, a TCP record's number is the next one; without a key only handshake records
  come out, and a datagram that decodes under a key passes the non-consuming verification.
\<close>

theorem decoded_authentic:
  assumes "codec_decode C d c = (Inr r, c')"
  shows "d = channel_bytes C (fst (codec_in c), codec_in_key c, rec_seqno r) (rec_type r) (rec_payload r)
    \<and> rec_type r \<le> SPTPS_HANDSHAKE
    \<and> (codec_in_key c = None \<longrightarrow> rec_type r = SPTPS_HANDSHAKE \<and> rec_seqno r = snd (snd (codec_in c)))
    \<and> (case c of
        DatagramCodec dc \<Rightarrow> replay_verify (dc_in_replay dc) (rec_seqno r) = Inr ()
          \<and> (\<exists>w. c' = DatagramCodec (dc\<lparr>dc_in_replay := w\<rparr>))
          \<and> (codec_in_key c \<noteq> None \<longrightarrow> hashes_ok C \<longrightarrow> codec_verify C d c = Inr ())
      | TcpCodec tc \<Rightarrow> rec_seqno r = tc_in_seqno tc
          \<and> c' = TcpCodec (tc\<lparr>tc_in_seqno := tc_in_seqno tc + 1\<rparr>))"
proof (intro conjI)
  show "d = channel_bytes C (fst (codec_in c), codec_in_key c, rec_seqno r) (rec_type r) (rec_payload r)"
    and "rec_type r \<le> SPTPS_HANDSHAKE"
    and "codec_in_key c = None \<longrightarrow> rec_type r = SPTPS_HANDSHAKE \<and> rec_seqno r = snd (snd (codec_in c))"
    using decode_authentic [OF assms] by blast+
  show "case c of
      DatagramCodec dc \<Rightarrow> replay_verify (dc_in_replay dc) (rec_seqno r) = Inr ()
        \<and> (\<exists>w. c' = DatagramCodec (dc\<lparr>dc_in_replay := w\<rparr>))
        \<and> (codec_in_key c \<noteq> None \<longrightarrow> hashes_ok C \<longrightarrow> codec_verify C d c = Inr ())
    | TcpCodec tc \<Rightarrow> rec_seqno r = tc_in_seqno tc
        \<and> c' = TcpCodec (tc\<lparr>tc_in_seqno := tc_in_seqno tc + 1\<rparr>)"
  proof (cases c)
    case (DatagramCodec dc)
    with assms obtain dc' where dec: "datagram_decode C d dc = (Inr r, dc')" and c': "c' = DatagramCodec dc'"
      by (cases "datagram_decode C d dc") auto
    note p = datagram_decode_Inr [OF dec]
    have v: "replay_verify (dc_in_replay dc) (rec_seqno r) = Inr ()"
      using p by (simp add: verify_is_accept)
    have "codec_verify C d c = Inr ()" if "dc_in_key dc = Some k" "hashes_ok C" for k
      using p v that DatagramCodec
      by (simp add: datagram_verify_def sptps_lens decrypt_encrypt Let_def)
    with p v c' DatagramCodec show ?thesis by (auto simp del: channel_bytes.simps codec_verify.simps)
  next
    case (TcpCodec tc)
    with assms obtain tc' where dec: "tcp_decode C d tc = (Inr r, tc')" and c': "c' = TcpCodec tc'"
      by (cases "tcp_decode C d tc") auto
    from tcp_decode_Inr [OF dec] c' TcpCodec show ?thesis
      by (auto simp del: channel_bytes.simps)
  qed
qed

theorem decoded_authentic_witness:
  "[0, 1, 128, 9] = channel_bytes demo_crypto (False, None, 0) 128 [9]"
proof -
  have "codec_decode demo_crypto [0, 1, 128, 9] (TcpCodec tcp_new)
      = (Inr \<lparr>rec_seqno = 0, rec_type = 128, rec_payload = [9]\<rparr>, TcpCodec (tcp_new\<lparr>tc_in_seqno := 1\<rparr>))"
    by (simp add: tcp_decode_def tcp_new_def sptps_lens unat_be16 validate_decoded_record_type_def
        SPTPS_HANDSHAKE_def Let_def)
  from decoded_authentic [OF this] show ?thesis by (simp add: tcp_new_def)
qed

end
