(* ===== verification/Sptps_Session.thy ===== *)
theory Sptps_Session
  imports Sptps_Props
begin

text \<open>
  The handshake of \<^verbatim>\<open>tinc-runtime/src/sptps.rs\<close>, step by step: what each state does with a
  genuine message, and the run of two matching sessions up to established keys, first and
  renewed.  The codec of a session is followed through its two directions only, so the lemmas
  hold for datagrams and TCP alike.
\<close>

section \<open>Operations on a session\<close>

lemma op_then_simps [simp]:
  "op_then (op_return v) f s = f v s"
  "op_then (op_update g) h s = h () (g s)"
  "op_then (op_lift (Inr v)) f s = f v s"
  "op_then (op_lift (Inl e)) f s = (Inl e, s)"
  by (simp_all add: op_then_def op_return_def op_update_def op_lift_def)

lemma op_then_Inr: "m s = (Inr v, s') \<Longrightarrow> op_then m f s = f v s'"
  by (simp add: op_then_def)

lemma op_then_Inl: "m s = (Inl e, s') \<Longrightarrow> op_then m f s = (Inl e, s')"
  by (simp add: op_then_def)

lemma codec_keys [simp]:
  "codec_out (codec_set_out_key k c) = (fst (codec_out c), Some k, snd (snd (codec_out c)))"
  "codec_in (codec_set_out_key k c) = codec_in c"
  "codec_in (codec_set_in_key k c) = (fst (codec_in c), Some k, snd (snd (codec_in c)))"
  "codec_out (codec_set_in_key k c) = codec_out c"
  by (cases c; simp add: datagram_set_in_key_def datagram_set_out_key_def)+

lemma codec_key_channel: "codec_out_key c = fst (snd (codec_out c))" "codec_in_key c = fst (snd (codec_in c))"
  by (cases c; simp)+

section \<open>Key exchange messages\<close>

lemma length_kex_to_bytes [simp]:
  "length (kex_nonce x) = 32 \<Longrightarrow> length (kex_public x) = 32 \<Longrightarrow> length (kex_to_bytes x) = 65"
  by (simp add: kex_to_bytes_def sptps_lens)

lemma kex_to_bytes_eq:
  "length (kex_nonce x) = 32 \<Longrightarrow> length (kex_public x) = 32 \<Longrightarrow>
    kex_to_bytes x = kex_version x # kex_nonce x @ kex_public x"
  by (simp add: kex_to_bytes_def copy_at_def sptps_lens numeral_eq_Suc)

lemma kex_roundtrip:
  assumes "kex_version x = SPTPS_VERSION" "length (kex_nonce x) = 32" "length (kex_public x) = 32"
  shows "kex_try_from_slice (kex_to_bytes x) = Inr x"
  using assms by (simp add: kex_try_from_slice_def kex_to_bytes_eq subslice_def sptps_lens kex_new_def)

lemma kex_parsed:
  assumes "kex_try_from_slice d = Inr x"
  shows "kex_to_bytes x = d \<and> kex_version x = SPTPS_VERSION
    \<and> length (kex_nonce x) = 32 \<and> length (kex_public x) = 32"
proof -
  from assms have d: "length d = 65" "d ! 0 = SPTPS_VERSION"
    and x: "x = kex_new (subslice 1 33 d) (drop 33 d)"
    by (auto simp: kex_try_from_slice_def sptps_lens split: if_splits)
  then obtain a r where ar: "d = a # r" by (cases d) auto
  have "subslice 1 33 d = take 32 r" "drop 33 d = drop 32 r" using ar by (simp_all add: subslice_def)
  with d x ar show ?thesis by (simp add: kex_to_bytes_eq kex_new_def)
qed

section \<open>Sending handshake records\<close>

lemma handshake_allowed:
  "hashes_ok C \<Longrightarrow> length p \<le> 65535 \<Longrightarrow> channel_allows C ch SPTPS_HANDSHAKE p"
  by (simp add: channel_allows_def)

lemma queue_sent:
  assumes "hashes_ok C" "length p \<le> 65535"
  shows "\<exists>c. queue_handshake C p s = (Inr (), s\<lparr>hs_codec := c,
        hs_outbound := hs_outbound s @ [channel_bytes C (codec_out (hs_codec s)) SPTPS_HANDSHAKE p]\<rparr>)
    \<and> codec_out c = channel_step (codec_out (hs_codec s)) \<and> codec_in c = codec_in (hs_codec s)"
  using codec_encode_bytes [OF handshake_allowed [OF assms], of "hs_codec s"]
  by (auto simp: queue_handshake_def)

text \<open>The message a side signs: its own exchange first.\<close>

definition my_signature :: "('p, 's::comm_ring_1) sptps_crypto \<Rightarrow> handshake_session
    \<Rightarrow> sptps_kex \<Rightarrow> sptps_kex \<Rightarrow> byte list" where
  "my_signature C s x y =
     ed25519_sign C (hs_my_key s) (signature_message (hs_initiator s) x y (hs_label s))"

lemma sig_sent:
  assumes "hashes_ok C" "curve_ok C" "hs_my_kex s = Some x" "hs_his_kex s = Some y"
  shows "\<exists>c. send_sig C s = (Inr (), s\<lparr>hs_codec := c, hs_outbound := hs_outbound s
          @ [channel_bytes C (codec_out (hs_codec s)) SPTPS_HANDSHAKE (my_signature C s x y)]\<rparr>)
    \<and> codec_out c = channel_step (codec_out (hs_codec s)) \<and> codec_in c = codec_in (hs_codec s)"
  using queue_sent [OF assms(1), of "my_signature C s x y" s] assms(2-)
  by (auto simp: send_sig_def my_signature_def)

section \<open>Receiving a genuine message\<close>

lemma handshake_received:
  assumes ok: "hashes_ok C" "length p \<le> 65535"
    and d: "d = channel_bytes C (codec_in (hs_codec s)) SPTPS_HANDSHAKE p"
  shows "\<exists>c. receive_datagram C draws d s = receive_handshake C draws p (s\<lparr>hs_codec := c\<rparr>)
    \<and> codec_in c = channel_step (codec_in (hs_codec s)) \<and> codec_out c = codec_out (hs_codec s)"
  using codec_decode_bytes [OF handshake_allowed [OF ok], of "hs_codec s"] d
  by (auto simp: receive_datagram_def simp del: channel_bytes.simps)

lemma receive_kex_responder:
  assumes ok: "hashes_ok C" and st: "hs_state s = StateKex" "hs_his_kex s = None" "\<not> hs_initiator s"
    and y: "kex_version y = SPTPS_VERSION" "length (kex_nonce y) = 32" "length (kex_public y) = 32"
    and d: "d = channel_bytes C (codec_in (hs_codec s)) SPTPS_HANDSHAKE (kex_to_bytes y)"
  shows "\<exists>c. receive_datagram C draws d s
        = (Inr [], s\<lparr>hs_codec := c, hs_his_kex := Some y, hs_state := StateSig\<rparr>)
    \<and> codec_in c = channel_step (codec_in (hs_codec s)) \<and> codec_out c = codec_out (hs_codec s)"
proof -
  have len: "length (kex_to_bytes y) \<le> 65535" using y by simp
  from handshake_received [OF ok len d, of draws] obtain c where
    c: "receive_datagram C draws d s = receive_handshake C draws (kex_to_bytes y) (s\<lparr>hs_codec := c\<rparr>)"
    "codec_in c = channel_step (codec_in (hs_codec s))" "codec_out c = codec_out (hs_codec s)"
    by blast
  have "receive_handshake C draws (kex_to_bytes y) (s\<lparr>hs_codec := c\<rparr>)
      = (Inr [], s\<lparr>hs_codec := c, hs_his_kex := Some y, hs_state := StateSig\<rparr>)"
    using st y by (simp add: receive_handshake_def receive_kex_def kex_roundtrip op_then_def
        set_state_def op_update_def op_return_def)
  with c show ?thesis by auto
qed

lemma receive_kex_initiator:
  assumes ok: "hashes_ok C" "curve_ok C"
    and st: "hs_state s = StateKex" "hs_his_kex s = None" "hs_initiator s" "hs_my_kex s = Some x"
    and y: "kex_version y = SPTPS_VERSION" "length (kex_nonce y) = 32" "length (kex_public y) = 32"
    and d: "d = channel_bytes C (codec_in (hs_codec s)) SPTPS_HANDSHAKE (kex_to_bytes y)"
  shows "\<exists>c. receive_datagram C draws d s
        = (Inr [], s\<lparr>hs_codec := c, hs_his_kex := Some y, hs_state := StateSig,
             hs_outbound := hs_outbound s
               @ [channel_bytes C (codec_out (hs_codec s)) SPTPS_HANDSHAKE (my_signature C s x y)]\<rparr>)
    \<and> codec_in c = channel_step (codec_in (hs_codec s)) \<and> codec_out c = channel_step (codec_out (hs_codec s))"
proof -
  have len: "length (kex_to_bytes y) \<le> 65535" using y by simp
  from handshake_received [OF ok(1) len d, of draws] obtain c where
    c: "receive_datagram C draws d s = receive_handshake C draws (kex_to_bytes y) (s\<lparr>hs_codec := c\<rparr>)"
    "codec_in c = channel_step (codec_in (hs_codec s))" "codec_out c = codec_out (hs_codec s)"
    by blast
  define s1 where "s1 = s\<lparr>hs_codec := c, hs_his_kex := Some y\<rparr>"
  have s1: "hs_my_kex s1 = Some x" "hs_his_kex s1 = Some y" "hs_codec s1 = c" "hs_outbound s1 = hs_outbound s"
    "my_signature C s1 x y = my_signature C s x y"
    using st by (simp_all add: s1_def my_signature_def)
  from sig_sent [OF ok s1(1,2)] obtain c' where c': "send_sig C s1 = (Inr (), s1\<lparr>hs_codec := c',
      hs_outbound := hs_outbound s1
        @ [channel_bytes C (codec_out (hs_codec s)) SPTPS_HANDSHAKE (my_signature C s x y)]\<rparr>)"
    "codec_out c' = channel_step (codec_out c)" "codec_in c' = codec_in c"
    using s1 c by auto
  have "receive_handshake C draws (kex_to_bytes y) (s\<lparr>hs_codec := c\<rparr>)
      = (Inr [], s\<lparr>hs_codec := c', hs_his_kex := Some y, hs_state := StateSig,
          hs_outbound := hs_outbound s
            @ [channel_bytes C (codec_out (hs_codec s)) SPTPS_HANDSHAKE (my_signature C s x y)]\<rparr>)"
    using st y c'(1) unfolding s1_def
    by (simp add: receive_handshake_def receive_kex_def kex_roundtrip op_then_def
        set_state_def op_update_def op_return_def del: channel_bytes.simps)
  with c c' show ?thesis by (auto simp del: channel_bytes.simps)
qed

definition session_material :: "('p, 's) sptps_crypto \<Rightarrow> handshake_session \<Rightarrow> sptps_kex \<Rightarrow> sptps_kex
    \<Rightarrow> byte list \<Rightarrow> sptps_key_material" where
  "session_material C s x y z =
     (if hs_initiator s then material_derive C z (kex_nonce x) (kex_nonce y) (hs_label s)
      else material_derive C z (kex_nonce y) (kex_nonce x) (hs_label s))"

lemma check_sig_Inr:
  "check_sig C sig s = Inr m \<longleftrightarrow> (\<exists>x y e z. length sig = ED25519_SIGNATURE_LEN
     \<and> hs_my_kex s = Some x \<and> hs_his_kex s = Some y \<and> hs_ecdh s = Some e
     \<and> ed25519_verify C (hs_peer_key s) (signature_message (\<not> hs_initiator s) y x (hs_label s)) sig = Inr ()
     \<and> compute_shared C e (kex_public y) = Inr z \<and> m = session_material C s x y z)"
  by (cases "hs_initiator s")
    (auto simp: check_sig_def session_material_def result_Inr Let_def split: if_splits)

lemma receive_sig_step:
  assumes ok: "hashes_ok C" "curve_ok C" and st: "hs_state s = StateSig"
    and m: "check_sig C sig s = Inr m" and xy: "hs_my_kex s = Some x" "hs_his_kex s = Some y"
  defines "ch \<equiv> codec_out (hs_codec s)"
  defines "sec \<equiv> fst (snd ch) \<noteq> None"
  defines "ch1 \<equiv> (if hs_initiator s then ch else channel_step ch)"
  defines "ch2 \<equiv> (if sec then channel_step ch1 else ch1)"
  shows "\<exists>c. receive_handshake C draws sig s
      = (Inr (if sec then [] else [HandshakeComplete]),
         s\<lparr>hs_codec := c, hs_ecdh := None, hs_my_kex := None, hs_his_kex := None,
           hs_state := (if sec then StateAck else StateSecondaryKex),
           hs_pending := (if sec then Some m else hs_pending s),
           hs_outbound := hs_outbound s
             @ (if hs_initiator s then []
                else [channel_bytes C ch SPTPS_HANDSHAKE (my_signature C s x y)])
             @ (if sec then [channel_bytes C ch1 SPTPS_HANDSHAKE []] else [])\<rparr>)
    \<and> codec_out c = (fst ch2, Some (snd (keys_for_role (hs_initiator s) m)), snd (snd ch2))
    \<and> codec_in c = (if sec then codec_in (hs_codec s)
        else (fst (codec_in (hs_codec s)), Some (fst (keys_for_role (hs_initiator s) m)),
              snd (snd (codec_in (hs_codec s)))))"
proof -
  define sigs where "sigs = (if hs_initiator s then []
    else [channel_bytes C ch SPTPS_HANDSHAKE (my_signature C s x y)])"
  define acks where "acks = (if sec then [channel_bytes C ch1 SPTPS_HANDSHAKE []] else [])"
  obtain ik out where keys: "keys_for_role (hs_initiator s) m = (ik, out)" by fastforce
  have sec: "codec_out_key (hs_codec s) \<noteq> None \<longleftrightarrow> sec" by (simp add: sec_def ch_def codec_key_channel)
  obtain c1 where c1: "(if hs_initiator s then op_return () else send_sig C) s
      = (Inr (), s\<lparr>hs_codec := c1, hs_outbound := hs_outbound s @ sigs\<rparr>)"
    "codec_out c1 = ch1" "codec_in c1 = codec_in (hs_codec s)"
  proof (cases "hs_initiator s")
    case True
    with that [of "hs_codec s"] show ?thesis by (simp add: sigs_def ch1_def ch_def op_return_def)
  next
    case False
    with sig_sent [OF ok xy] that show ?thesis by (auto simp: sigs_def ch1_def ch_def)
  qed
  have step1: "op_then (if hs_initiator s then op_return () else send_sig C) f s
      = f () (s\<lparr>hs_codec := c1, hs_outbound := hs_outbound s @ sigs\<rparr>)" for f :: "unit \<Rightarrow> bool session_op"
    unfolding op_then_def c1(1) by simp
  define s2 where "s2 = s\<lparr>hs_codec := c1, hs_outbound := hs_outbound s @ sigs, hs_ecdh := None,
    hs_my_kex := None, hs_his_kex := None\<rparr>"
  obtain c2 where c2: "(if sec then op_then (queue_handshake C []) (\<lambda>_.
          op_update (\<lambda>s. s\<lparr>hs_pending := Some m\<rparr>)) else op_return ()) s2
      = (Inr (), s2\<lparr>hs_codec := c2, hs_outbound := hs_outbound s @ sigs @ acks,
          hs_pending := (if sec then Some m else hs_pending s)\<rparr>)"
    "codec_out c2 = ch2" "codec_in c2 = codec_in (hs_codec s)"
  proof (cases sec)
    case True
    from queue_sent [OF ok(1), of "[]" s2] obtain c2 where
      "queue_handshake C [] s2 = (Inr (), s2\<lparr>hs_codec := c2,
         hs_outbound := hs_outbound s2 @ [channel_bytes C (codec_out (hs_codec s2)) SPTPS_HANDSHAKE []]\<rparr>)"
      "codec_out c2 = channel_step (codec_out (hs_codec s2))" "codec_in c2 = codec_in (hs_codec s2)"
      by (auto simp del: channel_bytes.simps)
    with True that [of c2] c1 show ?thesis
      by (simp add: op_then_Inr op_update_def acks_def ch2_def s2_def del: channel_bytes.simps)
  next
    case False
    with that [of c1] c1 show ?thesis by (simp add: op_return_def acks_def ch2_def s2_def)
  qed
  have step2: "op_then (if sec then op_then (queue_handshake C []) (\<lambda>_.
          op_update (\<lambda>s. s\<lparr>hs_pending := Some m\<rparr>)) else op_return ()) f s2
      = f () (s2\<lparr>hs_codec := c2, hs_outbound := hs_outbound s @ sigs @ acks,
          hs_pending := (if sec then Some m else hs_pending s)\<rparr>)" for f :: "unit \<Rightarrow> bool session_op"
    unfolding op_then_def [of "if sec then _ else _"] c2(1) by simp
  have "receive_sig C sig s = (Inr sec, s2\<lparr>hs_outbound := hs_outbound s @ sigs @ acks,
      hs_pending := (if sec then Some m else hs_pending s),
      hs_codec := (if sec then codec_set_out_key out c2 else codec_set_in_key ik (codec_set_out_key out c2))\<rparr>)"
    unfolding receive_sig_def m sum.case Let_def keys prod.case sec step1
      op_then_simps s2_def [symmetric] step2
    by (cases sec) (simp_all add: op_return_def)
  then have "receive_handshake C draws sig s = (Inr (if sec then [] else [HandshakeComplete]),
      s2\<lparr>hs_outbound := hs_outbound s @ sigs @ acks,
        hs_pending := (if sec then Some m else hs_pending s),
        hs_codec := (if sec then codec_set_out_key out c2 else codec_set_in_key ik (codec_set_out_key out c2)),
        hs_state := (if sec then StateAck else StateSecondaryKex)\<rparr>)"
    using st by (cases sec) (simp_all add: receive_handshake_def op_then_Inr set_state_def op_return_def)
  with c2(2,3) show ?thesis
    unfolding s2_def sigs_def [symmetric] acks_def [symmetric] keys
    by (intro exI [of _ "if sec then codec_set_out_key out c2 else codec_set_in_key ik (codec_set_out_key out c2)"])
      simp
qed

lemma receive_ack_step:
  assumes ok: "hashes_ok C" and st: "hs_state s = StateAck" "hs_pending s = Some m"
    and d: "d = channel_bytes C (codec_in (hs_codec s)) SPTPS_HANDSHAKE []"
  shows "\<exists>c. receive_datagram C draws d s = (Inr [HandshakeComplete],
      s\<lparr>hs_codec := c, hs_pending := None, hs_state := StateSecondaryKex\<rparr>)
    \<and> codec_out c = codec_out (hs_codec s)
    \<and> codec_in c = (fst (codec_in (hs_codec s)), Some (fst (keys_for_role (hs_initiator s) m)),
        snd (snd (channel_step (codec_in (hs_codec s)))))"
proof -
  from handshake_received [OF ok _ d, of draws] obtain c where
    c: "receive_datagram C draws d s = receive_handshake C draws [] (s\<lparr>hs_codec := c\<rparr>)"
    "codec_in c = channel_step (codec_in (hs_codec s))" "codec_out c = codec_out (hs_codec s)"
    by auto
  obtain ik out where keys: "keys_for_role (hs_initiator s) m = (ik, out)" by fastforce
  have "receive_handshake C draws [] (s\<lparr>hs_codec := c\<rparr>) = (Inr [HandshakeComplete],
      s\<lparr>hs_codec := codec_set_in_key ik c, hs_pending := None, hs_state := StateSecondaryKex\<rparr>)"
    using st keys by (simp add: receive_handshake_def receive_ack_def op_then_def set_state_def
        op_update_def op_return_def Let_def)
  with c show ?thesis by (intro exI [of _ "codec_set_in_key ik c"]) (simp add: keys)
qed

section \<open>Two sessions and the messages between them\<close>

text \<open>The oldest queued message of \<open>x\<close> reaches \<open>y\<close>.\<close>

definition deliver :: "('p, 's::comm_ring_1) sptps_crypto \<Rightarrow> random_draws \<Rightarrow> handshake_session
    \<Rightarrow> handshake_session \<Rightarrow> (sptps_error + handshake_event list) \<times> handshake_session \<times> handshake_session" where
  "deliver C draws x y =
     (case pop_outbound x of
        (None, x) \<Rightarrow> (Inr [], x, y)
      | (Some d, x) \<Rightarrow> (case receive_datagram C draws d y of (r, y) \<Rightarrow> (r, x, y)))"

lemma deliver_received:
  assumes "hs_outbound x = d # ds" "receive_datagram C draws d y = (r, y')"
  shows "deliver C draws x y = (r, x\<lparr>hs_outbound := ds\<rparr>, y')"
  using assms by (simp add: deliver_def pop_outbound_def)

text \<open>
  Both sides hold both exchanges and the initiator's signature is on its way: \<open>x\<close> is the
  initiator's exchange, \<open>y\<close> the responder's, \<open>z\<close> the shared secret.
\<close>

definition sig_ready :: "('p, 's::comm_ring_1) sptps_crypto \<Rightarrow> handshake_session \<Rightarrow> handshake_session
    \<Rightarrow> sptps_kex \<Rightarrow> sptps_kex \<Rightarrow> byte list \<Rightarrow> bool" where
  "sig_ready C a b x y z \<longleftrightarrow>
     hs_initiator a \<and> \<not> hs_initiator b \<and> hs_label a = hs_label b
     \<and> hs_peer_key a = pk_public (hs_my_key b) \<and> hs_peer_key b = pk_public (hs_my_key a)
     \<and> private_key_ok C (hs_my_key a) \<and> private_key_ok C (hs_my_key b)
     \<and> hs_state a = StateSig \<and> hs_state b = StateSig
     \<and> hs_my_kex a = Some x \<and> hs_his_kex a = Some y \<and> hs_my_kex b = Some y \<and> hs_his_kex b = Some x
     \<and> (\<exists>e. hs_ecdh a = Some e \<and> compute_shared C e (kex_public y) = Inr z)
     \<and> (\<exists>e. hs_ecdh b = Some e \<and> compute_shared C e (kex_public x) = Inr z)
     \<and> hs_outbound a = [channel_bytes C (codec_in (hs_codec b)) SPTPS_HANDSHAKE (my_signature C a x y)]
     \<and> hs_outbound b = [] \<and> codec_out (hs_codec a) = channel_step (codec_in (hs_codec b))
     \<and> codec_out (hs_codec b) = codec_in (hs_codec a)"

text \<open>The two directions of two sessions agree, and both have finished.\<close>

definition sessions_agree :: "handshake_session \<Rightarrow> handshake_session \<Rightarrow> sptps_key_material \<Rightarrow> bool" where
  "sessions_agree a b m \<longleftrightarrow>
     codec_out (hs_codec a) = codec_in (hs_codec b) \<and> codec_out (hs_codec b) = codec_in (hs_codec a)
     \<and> codec_in_key (hs_codec a) = Some (km_key0 m) \<and> codec_out_key (hs_codec a) = Some (km_key1 m)
     \<and> hs_state a = StateSecondaryKex \<and> hs_state b = StateSecondaryKex
     \<and> hs_outbound a = [] \<and> hs_outbound b = []
     \<and> hs_my_kex a = None \<and> hs_his_kex a = None \<and> hs_my_kex b = None \<and> hs_his_kex b = None
     \<and> hs_pending a = None \<and> hs_pending b = None"

text \<open>The static half of a session, which no step of the handshake changes.\<close>

definition same_peers :: "handshake_session \<Rightarrow> handshake_session \<Rightarrow> bool" where
  "same_peers s t \<longleftrightarrow> hs_initiator s = hs_initiator t \<and> hs_label s = hs_label t
     \<and> hs_my_key s = hs_my_key t \<and> hs_peer_key s = hs_peer_key t"

lemma sig_checked:
  assumes ok: "curve_ok C" and r: "sig_ready C a b x y z"
  defines "m \<equiv> material_derive C z (kex_nonce x) (kex_nonce y) (hs_label a)"
  shows "check_sig C (my_signature C a x y) (b\<lparr>hs_codec := c\<rparr>) = Inr m"
    and "check_sig C (my_signature C b y x) (a\<lparr>hs_codec := c, hs_outbound := ds\<rparr>) = Inr m"
  using ok r unfolding check_sig_Inr
  by (auto simp: sig_ready_def my_signature_def session_material_def m_def verify_sign
      ED25519_SIGNATURE_LEN_def)

lemma length_my_signature: "curve_ok C \<Longrightarrow> length (my_signature C s x y) \<le> 65535"
  by (simp add: my_signature_def)

lemma channel_split: "ch = (fst ch, fst (snd ch), snd (snd ch))"
  by simp

lemma sig_phase_first:
  assumes ok: "hashes_ok C" "curve_ok C" and r: "sig_ready C a b x y z"
    and new: "fst (snd (codec_out (hs_codec a))) = None" "fst (snd (codec_out (hs_codec b))) = None"
      "hs_pending a = None" "hs_pending b = None"
  defines "m \<equiv> material_derive C z (kex_nonce x) (kex_nonce y) (hs_label a)"
  shows "\<exists>a1 b1 a2 b2. deliver C draws a b = (Inr [HandshakeComplete], a1, b1)
    \<and> deliver C draws' b1 a1 = (Inr [HandshakeComplete], b2, a2)
    \<and> sessions_agree a2 b2 m \<and> same_peers a2 a \<and> same_peers b2 b"
proof -
  define ch where "ch = codec_out (hs_codec b)"
  from r have a: "hs_initiator a" "hs_state a = StateSig" "hs_my_kex a = Some x" "hs_his_kex a = Some y"
      "hs_outbound a = [channel_bytes C (codec_in (hs_codec b)) SPTPS_HANDSHAKE (my_signature C a x y)]"
      "codec_out (hs_codec a) = channel_step (codec_in (hs_codec b))"
    and b: "\<not> hs_initiator b" "hs_state b = StateSig" "hs_my_kex b = Some y" "hs_his_kex b = Some x"
      "hs_outbound b = []" "codec_in (hs_codec a) = ch"
    by (simp_all add: sig_ready_def ch_def del: channel_bytes.simps)
  have keys: "keys_for_role True m = (km_key0 m, km_key1 m)" "keys_for_role False m = (km_key1 m, km_key0 m)"
    by (simp_all add: keys_for_role_def)
  from handshake_received [OF ok(1) length_my_signature [OF ok(2), of a x y] refl, where s = b and draws = draws]
  obtain cb where cb: "receive_datagram C draws (hd (hs_outbound a)) b
      = receive_handshake C draws (my_signature C a x y) (b\<lparr>hs_codec := cb\<rparr>)"
    "codec_in cb = channel_step (codec_in (hs_codec b))" "codec_out cb = ch"
    using a(5) by (auto simp: ch_def)
  from receive_sig_step [OF ok _ sig_checked(1) [OF ok(2) r, where c = cb], where x = y and y = x and draws = draws] obtain cb' where
    b1: "receive_handshake C draws (my_signature C a x y) (b\<lparr>hs_codec := cb\<rparr>)
      = (Inr [HandshakeComplete], b\<lparr>hs_codec := cb', hs_ecdh := None, hs_my_kex := None, hs_his_kex := None,
          hs_state := StateSecondaryKex, hs_pending := hs_pending b,
          hs_outbound := [channel_bytes C ch SPTPS_HANDSHAKE (my_signature C b y x)]\<rparr>)"
    and cb': "codec_out cb' = (fst ch, Some (km_key0 m), snd (snd ch) + 1)"
      "codec_in cb' = (fst (codec_in (hs_codec b)), Some (km_key1 m), snd (snd (codec_in (hs_codec b))) + 1)"
    using b new cb by (cases ch; cases "codec_in (hs_codec b)")
      (auto simp: keys m_def [symmetric] my_signature_def ch_def simp del: channel_bytes.simps)
  define b1' where "b1' = snd (receive_handshake C draws (my_signature C a x y) (b\<lparr>hs_codec := cb\<rparr>))"
  have d1: "deliver C draws a b = (Inr [HandshakeComplete], a\<lparr>hs_outbound := []\<rparr>, b1')"
    by (rule deliver_received [OF a(5)]) (use cb(1) b1 a(5) in \<open>simp add: b1'_def del: channel_bytes.simps\<close>)
  define a1 where "a1 = a\<lparr>hs_outbound := []\<rparr>"
  have "codec_in (hs_codec a1) = ch" using b by (simp add: a1_def)
  from handshake_received [OF ok(1) length_my_signature [OF ok(2), of b y x] refl, where s = a1 and draws = draws']
  obtain ca where ca: "receive_datagram C draws' (hd (hs_outbound b1')) a1
      = receive_handshake C draws' (my_signature C b y x) (a1\<lparr>hs_codec := ca\<rparr>)"
    "codec_in ca = channel_step ch" "codec_out ca = codec_out (hs_codec a)"
    using b1 b(6) by (auto simp: a1_def b1'_def simp del: channel_bytes.simps)
  have a1c: "a1\<lparr>hs_codec := ca\<rparr> = a\<lparr>hs_codec := ca, hs_outbound := []\<rparr>" by (simp add: a1_def)
  from receive_sig_step [OF ok _ sig_checked(2) [OF ok(2) r, where c = ca and ds = "[]"], where x = x and y = y and draws = draws'] obtain ca' where
    a2: "receive_handshake C draws' (my_signature C b y x) (a1\<lparr>hs_codec := ca\<rparr>)
      = (Inr [HandshakeComplete], a\<lparr>hs_codec := ca', hs_ecdh := None, hs_my_kex := None, hs_his_kex := None,
          hs_state := StateSecondaryKex, hs_pending := hs_pending a, hs_outbound := []\<rparr>)"
    and ca': "codec_out ca' = (fst (codec_out (hs_codec a)), Some (km_key1 m), snd (snd (codec_out (hs_codec a))))"
      "codec_in ca' = (fst ch, Some (km_key0 m), snd (snd ch) + 1)"
    using a new ca unfolding a1c by (cases ch)
      (auto simp: keys m_def [symmetric] simp del: channel_bytes.simps)
  define a2' where "a2' = snd (receive_handshake C draws' (my_signature C b y x) (a1\<lparr>hs_codec := ca\<rparr>))"
  have ob: "hs_outbound b1' = [channel_bytes C ch SPTPS_HANDSHAKE (my_signature C b y x)]"
    using b1 by (simp add: b1'_def del: channel_bytes.simps)
  have d2: "deliver C draws' b1' a1 = (Inr [HandshakeComplete], b1'\<lparr>hs_outbound := []\<rparr>, a2')"
    by (rule deliver_received [OF ob]) (use ca(1) a2 ob in \<open>simp add: a2'_def del: channel_bytes.simps\<close>)
  have "sessions_agree a2' (b1'\<lparr>hs_outbound := []\<rparr>) m"
    using b1 a2 cb' ca' a new by (cases "codec_in (hs_codec b)")
      (simp add: sessions_agree_def b1'_def a2'_def codec_key_channel del: channel_bytes.simps)
  moreover have "same_peers a2' a" "same_peers (b1'\<lparr>hs_outbound := []\<rparr>) b"
    using b1 a2 by (simp_all add: same_peers_def b1'_def a2'_def del: channel_bytes.simps)
  ultimately show ?thesis using d1 d2 unfolding a1_def [symmetric] by blast
qed

section \<open>The first handshake\<close>

lemma session_started:
  fixes seed :: "byte list"
  assumes ok: "hashes_ok C" "curve_ok C" and n: "length nonce = 32"
  defines "e \<equiv> ephemeral_from_seed C seed"
  shows "\<exists>c. start_session C i k pk l cod e nonce = Inr ((session_new i k pk l c)\<lparr>hs_ecdh := Some e,
        hs_my_kex := Some (kex_new nonce (eph_public e)),
        hs_outbound := [channel_bytes C (codec_out cod) SPTPS_HANDSHAKE
          (kex_to_bytes (kex_new nonce (eph_public e)))]\<rparr>)
    \<and> codec_out c = channel_step (codec_out cod) \<and> codec_in c = codec_in cod"
proof -
  define x where "x = kex_new nonce (eph_public e)"
  have "length (kex_to_bytes x) \<le> 65535"
    using n length_eph_public [OF ok(2), of seed] by (simp add: x_def kex_new_def e_def)
  from queue_sent [OF ok(1) this, of "(session_new i k pk l cod)\<lparr>hs_ecdh := Some e, hs_my_kex := Some x\<rparr>"]
  show ?thesis
    by (auto simp: start_session_def send_kex_with_def session_new_def x_def Let_def
        simp del: channel_bytes.simps)
qed

text \<open>Four deliveries: both exchanges, then both signatures.\<close>

definition handshake_run :: "('p, 's::comm_ring_1) sptps_crypto \<Rightarrow> random_draws \<Rightarrow> handshake_session
    \<Rightarrow> handshake_session \<Rightarrow> (sptps_error + handshake_event list) list \<times> handshake_session \<times> handshake_session" where
  "handshake_run C draws a b =
     (let (r1, a, b) = deliver C draws a b;
          (r2, b, a) = deliver C draws b a;
          (r3, a, b) = deliver C draws a b;
          (r4, b, a) = deliver C draws b a
      in ([r1, r2, r3, r4], a, b))"

lemma first_handshake:
  assumes ok: "hashes_ok C" "curve_ok C" and k: "private_key_ok C ka" "private_key_ok C kb"
    and n: "length na = 32" "length nb = 32"
    and cod: "codec_out ca = codec_in cb" "codec_out cb = codec_in ca"
      "codec_out_key ca = None" "codec_out_key cb = None"
    and z: "compute_shared C (ephemeral_from_seed C sa) (eph_public (ephemeral_from_seed C sb)) = Inr z"
  shows "\<exists>a b a' b'.
      start_session C True ka (pk_public kb) l ca (ephemeral_from_seed C sa) na = Inr a
    \<and> start_session C False kb (pk_public ka) l cb (ephemeral_from_seed C sb) nb = Inr b
    \<and> handshake_run C draws a b
        = ([Inr [], Inr [], Inr [HandshakeComplete], Inr [HandshakeComplete]], a', b')
    \<and> sessions_agree a' b' (material_derive C z na nb l) \<and> same_peers a' a \<and> same_peers b' b"
proof -
  define ea where "ea = ephemeral_from_seed C sa"
  define eb where "eb = ephemeral_from_seed C sb"
  define x where "x = kex_new na (eph_public ea)"
  define y where "y = kex_new nb (eph_public eb)"
  have lx: "kex_version x = SPTPS_VERSION" "length (kex_nonce x) = 32" "length (kex_public x) = 32"
    and ly: "kex_version y = SPTPS_VERSION" "length (kex_nonce y) = 32" "length (kex_public y) = 32"
    using n length_eph_public [OF ok(2)] by (simp_all add: x_def y_def kex_new_def ea_def eb_def)
  obtain a where sa: "start_session C True ka (pk_public kb) l ca ea na = Inr a"
    and a: "hs_outbound a = [channel_bytes C (codec_out ca) SPTPS_HANDSHAKE (kex_to_bytes x)]"
      "hs_initiator a" "hs_label a = l" "hs_my_key a = ka" "hs_peer_key a = pk_public kb"
      "hs_state a = StateKex" "hs_ecdh a = Some ea" "hs_my_kex a = Some x" "hs_his_kex a = None"
      "hs_pending a = None" "codec_out (hs_codec a) = channel_step (codec_out ca)"
      "codec_in (hs_codec a) = codec_in ca"
    using session_started [OF ok n(1), where seed = sa and cod = ca]
    by (fastforce simp: x_def ea_def session_new_def simp del: channel_bytes.simps)
  obtain b where sb: "start_session C False kb (pk_public ka) l cb eb nb = Inr b"
    and b: "hs_outbound b = [channel_bytes C (codec_out cb) SPTPS_HANDSHAKE (kex_to_bytes y)]"
      "\<not> hs_initiator b" "hs_label b = l" "hs_my_key b = kb" "hs_peer_key b = pk_public ka"
      "hs_state b = StateKex" "hs_ecdh b = Some eb" "hs_my_kex b = Some y" "hs_his_kex b = None"
      "hs_pending b = None" "codec_out (hs_codec b) = channel_step (codec_out cb)"
      "codec_in (hs_codec b) = codec_in cb"
    using session_started [OF ok n(2), where seed = sb and cod = cb]
    by (fastforce simp: y_def eb_def session_new_def simp del: channel_bytes.simps)
  obtain c1 where c1: "receive_datagram C draws (channel_bytes C (codec_out ca) SPTPS_HANDSHAKE (kex_to_bytes x)) b
      = (Inr [], b\<lparr>hs_codec := c1, hs_his_kex := Some x, hs_state := StateSig\<rparr>)"
    "codec_in c1 = channel_step (codec_in cb)" "codec_out c1 = codec_out (hs_codec b)"
    using receive_kex_responder [OF ok(1) b(6,9,2) lx, where draws = draws] cod(1) b(12) by auto
  define b1 where "b1 = b\<lparr>hs_codec := c1, hs_his_kex := Some x, hs_state := StateSig\<rparr>"
  define a1 where "a1 = a\<lparr>hs_outbound := []\<rparr>"
  have d1: "deliver C draws a b = (Inr [], a1, b1)"
    unfolding a1_def b1_def by (rule deliver_received [OF a(1) c1(1)])
  have a1: "hs_state a1 = StateKex" "hs_his_kex a1 = None" "hs_initiator a1" "hs_my_kex a1 = Some x"
    "codec_in (hs_codec a1) = codec_out cb" "my_signature C a1 x y = my_signature C a x y"
    using a cod by (simp_all add: a1_def my_signature_def)
  obtain c2 where c2: "receive_datagram C draws (channel_bytes C (codec_out cb) SPTPS_HANDSHAKE (kex_to_bytes y)) a1
      = (Inr [], a1\<lparr>hs_codec := c2, hs_his_kex := Some y, hs_state := StateSig,
          hs_outbound := [channel_bytes C (codec_out (hs_codec a)) SPTPS_HANDSHAKE (my_signature C a x y)]\<rparr>)"
    "codec_in c2 = channel_step (codec_out cb)" "codec_out c2 = channel_step (codec_out (hs_codec a))"
    using receive_kex_initiator [OF ok a1(1-4) ly, where draws = draws] a1(5,6)
    by (auto simp: a1_def simp del: channel_bytes.simps)
  define a2 where "a2 = a1\<lparr>hs_codec := c2, hs_his_kex := Some y, hs_state := StateSig,
    hs_outbound := [channel_bytes C (codec_out (hs_codec a)) SPTPS_HANDSHAKE (my_signature C a x y)]\<rparr>"
  define b2 where "b2 = b1\<lparr>hs_outbound := []\<rparr>"
  have "hs_outbound b1 = [channel_bytes C (codec_out cb) SPTPS_HANDSHAKE (kex_to_bytes y)]"
    using b(1) by (simp add: b1_def)
  then have d2: "deliver C draws b1 a1 = (Inr [], b2, a2)"
    unfolding b2_def a2_def by (rule deliver_received) (rule c2(1))
  have zz: "compute_shared C ea (kex_public y) = Inr z" "compute_shared C eb (kex_public x) = Inr z"
    using z compute_shared_agree(1) [OF ok, of sa sb] by (simp_all add: x_def y_def ea_def eb_def kex_new_def)
  have "my_signature C a2 x y = my_signature C a x y" by (simp add: a2_def a1_def my_signature_def)
  then have ready: "sig_ready C a2 b2 x y z"
    using a b c1 c2 k zz cod
    by (simp add: sig_ready_def a2_def b2_def a1_def b1_def del: channel_bytes.simps)
  have none: "fst (snd (codec_out (hs_codec a2))) = None" "fst (snd (codec_out (hs_codec b2))) = None"
    "hs_pending a2 = None" "hs_pending b2 = None"
    using a b c1 c2 cod(3,4)
    by (simp_all add: a2_def b2_def a1_def b1_def codec_key_channel del: channel_bytes.simps)
  have m: "material_derive C z (kex_nonce x) (kex_nonce y) (hs_label a2) = material_derive C z na nb l"
    using a by (simp add: a2_def a1_def x_def y_def kex_new_def)
  from sig_phase_first [OF ok ready none, of draws draws] obtain a3 b3 a4 b4 where
    d3: "deliver C draws a2 b2 = (Inr [HandshakeComplete], a3, b3)"
    and d4: "deliver C draws b3 a3 = (Inr [HandshakeComplete], b4, a4)"
    and res: "sessions_agree a4 b4 (material_derive C z na nb l)" "same_peers a4 a2" "same_peers b4 b2"
    unfolding m by auto
  have "handshake_run C draws a b
      = ([Inr [], Inr [], Inr [HandshakeComplete], Inr [HandshakeComplete]], a4, b4)"
    by (simp add: handshake_run_def d1 d2 d3 d4)
  moreover have "same_peers a4 a" "same_peers b4 b"
    using res by (simp_all add: same_peers_def a2_def a1_def b2_def b1_def)
  ultimately show ?thesis using sa sb res(1) unfolding ea_def eb_def by blast
qed

end
