(* ===== verification/Sptps_Rekey.thy ===== *)
theory Sptps_Rekey
  imports Sptps_Session
begin

text \<open>
  Renewing the keys of an established \<^verbatim>\<open>SptpsHandshakeSession\<close>: either side may ask for it, the
  old keys protect the exchange, the outgoing key changes after the signature and the incoming
  key when the acknowledgement arrives.
\<close>

lemma receive_kex_secondary:
  fixes seed :: "byte list"
  assumes ok: "hashes_ok C" "curve_ok C"
    and st: "hs_state s = StateSecondaryKex" "hs_his_kex s = None" "hs_my_kex s = None"
    and y: "kex_version y = SPTPS_VERSION" "length (kex_nonce y) = 32" "length (kex_public y) = 32"
    and n: "length nonce = 32"
    and d: "d = channel_bytes C (codec_in (hs_codec s)) SPTPS_HANDSHAKE (kex_to_bytes y)"
  defines "e \<equiv> ephemeral_from_seed C seed"
  defines "x \<equiv> kex_new nonce (eph_public e)"
  defines "ch \<equiv> codec_out (hs_codec s)"
  shows "\<exists>c. receive_datagram C (Inr seed, Inr nonce) d s
        = (Inr [], s\<lparr>hs_codec := c, hs_ecdh := Some e, hs_my_kex := Some x, hs_his_kex := Some y,
             hs_state := StateSig,
             hs_outbound := hs_outbound s @ [channel_bytes C ch SPTPS_HANDSHAKE (kex_to_bytes x)]
               @ (if hs_initiator s
                  then [channel_bytes C (channel_step ch) SPTPS_HANDSHAKE (my_signature C s x y)] else [])\<rparr>)
    \<and> codec_in c = channel_step (codec_in (hs_codec s))
    \<and> codec_out c = (if hs_initiator s then channel_step (channel_step ch) else channel_step ch)"
proof -
  define draws :: random_draws where "draws = (Inr seed, Inr nonce)"
  have len: "length (kex_to_bytes y) \<le> 65535" using y by simp
  from handshake_received [OF ok(1) len d, of draws] obtain c where
    c: "receive_datagram C draws d s = receive_handshake C draws (kex_to_bytes y) (s\<lparr>hs_codec := c\<rparr>)"
    "codec_in c = channel_step (codec_in (hs_codec s))" "codec_out c = ch"
    by (auto simp: ch_def)
  define s0 where "s0 = s\<lparr>hs_codec := c, hs_ecdh := Some e, hs_my_kex := Some x\<rparr>"
  have lx: "length (kex_to_bytes x) \<le> 65535"
    using n length_eph_public [OF ok(2)] by (simp add: x_def kex_new_def e_def)
  from queue_sent [OF ok(1) lx, of s0] obtain c1 where
    c1: "queue_handshake C (kex_to_bytes x) s0 = (Inr (), s0\<lparr>hs_codec := c1, hs_outbound := hs_outbound s
        @ [channel_bytes C ch SPTPS_HANDSHAKE (kex_to_bytes x)]\<rparr>)"
    "codec_out c1 = channel_step ch" "codec_in c1 = codec_in c"
    using c by (auto simp: s0_def simp del: channel_bytes.simps)
  define s1 where "s1 = s0\<lparr>hs_codec := c1, hs_outbound := hs_outbound s
        @ [channel_bytes C ch SPTPS_HANDSHAKE (kex_to_bytes x)]\<rparr>"
  have sent: "send_kex C draws (s\<lparr>hs_codec := c\<rparr>) = (Inr (), s1)"
    using st(3) c1(1) by (simp add: send_kex_def generate_ephemeral_def draws_def send_kex_with_def s1_def
        s0_def x_def e_def Let_def del: channel_bytes.simps)
  define s2 where "s2 = s1\<lparr>hs_his_kex := Some y\<rparr>"
  obtain c2 where c2: "(if hs_initiator s then send_sig C s2 else (Inr (), s2))
      = (Inr (), s2\<lparr>hs_codec := c2, hs_outbound := hs_outbound s2
          @ (if hs_initiator s
             then [channel_bytes C (channel_step ch) SPTPS_HANDSHAKE (my_signature C s x y)] else [])\<rparr>)"
    "codec_in c2 = codec_in c1"
    "codec_out c2 = (if hs_initiator s then channel_step (channel_step ch) else channel_step ch)"
  proof (cases "hs_initiator s")
    case True
    have f: "hs_my_kex s2 = Some x" "hs_his_kex s2 = Some y" "hs_codec s2 = c1"
      "my_signature C s2 x y = my_signature C s x y"
      by (simp_all add: s2_def s1_def s0_def my_signature_def)
    from sig_sent [OF ok f(1,2)] f(3,4) c1(2,3) that True show ?thesis
      by (auto simp del: channel_bytes.simps)
  next
    case False
    with that [of c1] c1 show ?thesis by (simp add: s2_def s1_def)
  qed
  have "receive_kex C (kex_to_bytes y) s1 = (if hs_initiator s then send_sig C s2 else (Inr (), s2))"
    using st y by (simp add: receive_kex_def kex_roundtrip s2_def s1_def s0_def)
  then have "receive_handshake C draws (kex_to_bytes y) (s\<lparr>hs_codec := c\<rparr>)
      = (Inr [], s2\<lparr>hs_codec := c2, hs_outbound := hs_outbound s2
          @ (if hs_initiator s
             then [channel_bytes C (channel_step ch) SPTPS_HANDSHAKE (my_signature C s x y)] else []),
          hs_state := StateSig\<rparr>)"
    using st(1) sent c2(1) by (simp add: receive_handshake_def op_then_def set_state_def op_update_def
        op_return_def del: channel_bytes.simps)
  with c c1 c2 show ?thesis unfolding draws_def [symmetric]
    by (intro exI [of _ c2]) (simp add: s2_def s1_def s0_def del: channel_bytes.simps)
qed

lemma sig_phase_second:
  assumes ok: "hashes_ok C" "curve_ok C" and r: "sig_ready C a b x y z"
    and old: "fst (snd (codec_out (hs_codec a))) \<noteq> None" "fst (snd (codec_out (hs_codec b))) \<noteq> None"
  defines "m \<equiv> material_derive C z (kex_nonce x) (kex_nonce y) (hs_label a)"
  shows "\<exists>a1 b1 a2 b2 a3 b3 a4 b4. deliver C draws a b = (Inr [], a1, b1)
    \<and> deliver C draws b1 a1 = (Inr [], b2, a2)
    \<and> deliver C draws b2 a2 = (Inr [HandshakeComplete], b3, a3)
    \<and> deliver C draws a3 b3 = (Inr [HandshakeComplete], a4, b4)
    \<and> sessions_agree a4 b4 m \<and> same_peers a4 a \<and> same_peers b4 b"
proof -
  define ch where "ch = codec_out (hs_codec b)"
  define ah where "ah = codec_out (hs_codec a)"
  from r have a: "hs_initiator a" "hs_state a = StateSig" "hs_my_kex a = Some x" "hs_his_kex a = Some y"
      "hs_outbound a = [channel_bytes C (codec_in (hs_codec b)) SPTPS_HANDSHAKE (my_signature C a x y)]"
      "ah = channel_step (codec_in (hs_codec b))"
    and b: "\<not> hs_initiator b" "hs_state b = StateSig" "hs_my_kex b = Some y" "hs_his_kex b = Some x"
      "hs_outbound b = []" "codec_in (hs_codec a) = ch"
    by (simp_all add: sig_ready_def ch_def ah_def del: channel_bytes.simps)
  have keys: "keys_for_role True m = (km_key0 m, km_key1 m)" "keys_for_role False m = (km_key1 m, km_key0 m)"
    by (simp_all add: keys_for_role_def)
  from handshake_received [OF ok(1) length_my_signature [OF ok(2), of a x y] refl, where s = b and draws = draws]
  obtain cb where cb: "receive_datagram C draws (hd (hs_outbound a)) b
      = receive_handshake C draws (my_signature C a x y) (b\<lparr>hs_codec := cb\<rparr>)"
    "codec_in cb = ah" "codec_out cb = ch"
    using a(5,6) by (auto simp: ch_def)
  from receive_sig_step [OF ok _ sig_checked(1) [OF ok(2) r, where c = cb], where x = y and y = x and draws = draws]
  obtain cb' where
    b1: "receive_handshake C draws (my_signature C a x y) (b\<lparr>hs_codec := cb\<rparr>)
      = (Inr [], b\<lparr>hs_codec := cb', hs_ecdh := None, hs_my_kex := None, hs_his_kex := None,
          hs_state := StateAck, hs_pending := Some m,
          hs_outbound := [channel_bytes C ch SPTPS_HANDSHAKE (my_signature C b y x),
            channel_bytes C (channel_step ch) SPTPS_HANDSHAKE []]\<rparr>)"
    and cb': "codec_out cb' = (fst ch, Some (km_key0 m), snd (snd ch) + 1 + 1)" "codec_in cb' = ah"
    using b old cb by (cases ch)
      (auto simp: keys m_def [symmetric] my_signature_def ch_def simp del: channel_bytes.simps)
  define b1' where "b1' = snd (receive_handshake C draws (my_signature C a x y) (b\<lparr>hs_codec := cb\<rparr>))"
  define a1 where "a1 = a\<lparr>hs_outbound := []\<rparr>"
  have d1: "deliver C draws a b = (Inr [], a1, b1')" unfolding a1_def
    by (rule deliver_received [OF a(5)]) (use cb(1) b1 a(5) in \<open>simp add: b1'_def del: channel_bytes.simps\<close>)
  have ob: "hs_outbound b1' = [channel_bytes C ch SPTPS_HANDSHAKE (my_signature C b y x),
      channel_bytes C (channel_step ch) SPTPS_HANDSHAKE []]"
    using b1 by (simp add: b1'_def del: channel_bytes.simps)
  have a1c: "codec_in (hs_codec a1) = ch" using b by (simp add: a1_def)
  from handshake_received [OF ok(1) length_my_signature [OF ok(2), of b y x] refl, where s = a1 and draws = draws]
  obtain ca where ca: "receive_datagram C draws (channel_bytes C ch SPTPS_HANDSHAKE (my_signature C b y x)) a1
      = receive_handshake C draws (my_signature C b y x) (a1\<lparr>hs_codec := ca\<rparr>)"
    "codec_in ca = channel_step ch" "codec_out ca = ah"
    using a1c by (auto simp: a1_def ah_def simp del: channel_bytes.simps)
  have a1u: "a1\<lparr>hs_codec := ca\<rparr> = a\<lparr>hs_codec := ca, hs_outbound := []\<rparr>" by (simp add: a1_def)
  from receive_sig_step [OF ok _ sig_checked(2) [OF ok(2) r, where c = ca and ds = "[]"], where x = x and y = y
      and draws = draws]
  obtain ca' where
    a2: "receive_handshake C draws (my_signature C b y x) (a\<lparr>hs_codec := ca, hs_outbound := []\<rparr>)
      = (Inr [], a\<lparr>hs_codec := ca', hs_ecdh := None, hs_my_kex := None, hs_his_kex := None,
          hs_state := StateAck, hs_pending := Some m,
          hs_outbound := [channel_bytes C ah SPTPS_HANDSHAKE []]\<rparr>)"
    and ca': "codec_out ca' = (fst ah, Some (km_key1 m), snd (snd ah) + 1)" "codec_in ca' = channel_step ch"
    using a(1-4) old ca by (cases ah)
      (auto simp: keys m_def [symmetric] ah_def simp del: channel_bytes.simps)
  define a2' where "a2' = a\<lparr>hs_codec := ca', hs_ecdh := None, hs_my_kex := None, hs_his_kex := None,
      hs_state := StateAck, hs_pending := Some m, hs_outbound := [channel_bytes C ah SPTPS_HANDSHAKE []]\<rparr>"
  define b2 where "b2 = b1'\<lparr>hs_outbound := [channel_bytes C (channel_step ch) SPTPS_HANDSHAKE []]\<rparr>"
  have d2: "deliver C draws b1' a1 = (Inr [], b2, a2')" unfolding b2_def
    by (rule deliver_received [OF ob]) (use ca(1) a2 in \<open>simp add: a2'_def a1u del: channel_bytes.simps\<close>)
  have ack_a: "hs_state a2' = StateAck" "hs_pending a2' = Some m"
    "channel_bytes C (channel_step ch) SPTPS_HANDSHAKE [] = channel_bytes C (codec_in (hs_codec a2')) SPTPS_HANDSHAKE []"
    using ca' by (simp_all add: a2'_def)
  from receive_ack_step [OF ok(1) ack_a, where draws = draws] obtain ca3 where
    a3: "receive_datagram C draws (channel_bytes C (channel_step ch) SPTPS_HANDSHAKE []) a2'
      = (Inr [HandshakeComplete], a2'\<lparr>hs_codec := ca3, hs_pending := None, hs_state := StateSecondaryKex\<rparr>)"
    and ca3: "codec_out ca3 = codec_out ca'" "codec_in ca3 = (fst ch, Some (km_key0 m), snd (snd ch) + 1 + 1)"
    using ca' a(1) by (cases ch) (auto simp: a2'_def keys simp del: channel_bytes.simps)
  define a3' where "a3' = a2'\<lparr>hs_codec := ca3, hs_pending := None, hs_state := StateSecondaryKex\<rparr>"
  have ob2: "hs_outbound b2 = [channel_bytes C (channel_step ch) SPTPS_HANDSHAKE []]" by (simp add: b2_def)
  define b3 where "b3 = b2\<lparr>hs_outbound := []\<rparr>"
  have d3: "deliver C draws b2 a2' = (Inr [HandshakeComplete], b3, a3')" unfolding b3_def a3'_def
    by (rule deliver_received [OF ob2 a3])
  have b3f: "hs_codec b3 = cb'" "hs_state b3 = StateAck" "hs_pending b3 = Some m" "\<not> hs_initiator b3"
      "hs_outbound b3 = []" "hs_my_kex b3 = None" "hs_his_kex b3 = None" "same_peers b3 b"
    using b1 b(1) by (simp_all add: b3_def b2_def b1'_def same_peers_def del: channel_bytes.simps)
  have ack_b: "channel_bytes C ah SPTPS_HANDSHAKE [] = channel_bytes C (codec_in (hs_codec b3)) SPTPS_HANDSHAKE []"
    using cb' b3f by simp
  from receive_ack_step [OF ok(1) b3f(2,3) ack_b, where draws = draws] obtain cb4 where
    b4: "receive_datagram C draws (channel_bytes C ah SPTPS_HANDSHAKE []) b3
      = (Inr [HandshakeComplete], b3\<lparr>hs_codec := cb4, hs_pending := None, hs_state := StateSecondaryKex\<rparr>)"
    and cb4: "codec_out cb4 = codec_out cb'" "codec_in cb4 = (fst ah, Some (km_key1 m), snd (snd ah) + 1)"
    using cb' b3f by (cases ah) (auto simp: keys simp del: channel_bytes.simps)
  have ob3: "hs_outbound a3' = [channel_bytes C ah SPTPS_HANDSHAKE []]" by (simp add: a3'_def a2'_def)
  have d4: "deliver C draws a3' b3 = (Inr [HandshakeComplete], a3'\<lparr>hs_outbound := []\<rparr>,
      b3\<lparr>hs_codec := cb4, hs_pending := None, hs_state := StateSecondaryKex\<rparr>)"
    by (rule deliver_received [OF ob3 b4])
  have "sessions_agree (a3'\<lparr>hs_outbound := []\<rparr>)
      (b3\<lparr>hs_codec := cb4, hs_pending := None, hs_state := StateSecondaryKex\<rparr>) m"
    using b3f cb4 ca3 ca' cb' by (simp add: sessions_agree_def a3'_def a2'_def codec_key_channel)
  moreover have "same_peers (a3'\<lparr>hs_outbound := []\<rparr>) a"
    "same_peers (b3\<lparr>hs_codec := cb4, hs_pending := None, hs_state := StateSecondaryKex\<rparr>) b"
    using b3f by (simp_all add: same_peers_def a3'_def a2'_def)
  ultimately show ?thesis using d1 d2 d3 d4 by blast
qed

section \<open>The exchange of keys, forced by either side\<close>

definition matched :: "('p, 's::comm_ring_1) sptps_crypto \<Rightarrow> handshake_session \<Rightarrow> handshake_session \<Rightarrow> bool" where
  "matched C a b \<longleftrightarrow> hs_initiator a \<and> \<not> hs_initiator b \<and> hs_label a = hs_label b
     \<and> hs_peer_key a = pk_public (hs_my_key b) \<and> hs_peer_key b = pk_public (hs_my_key a)
     \<and> private_key_ok C (hs_my_key a) \<and> private_key_ok C (hs_my_key b)"

lemma force_kex_step:
  fixes seed :: "byte list"
  assumes ok: "hashes_ok C" "curve_ok C" and n: "length nonce = 32"
    and st: "hs_state s = StateSecondaryKex" "hs_my_kex s = None" "is_established s"
  defines "e \<equiv> ephemeral_from_seed C seed"
  defines "x \<equiv> kex_new nonce (eph_public e)"
  shows "\<exists>c. force_kex C (Inr seed, Inr nonce) s = (Inr (), s\<lparr>hs_state := StateKex, hs_ecdh := Some e,
        hs_my_kex := Some x, hs_codec := c,
        hs_outbound := hs_outbound s
          @ [channel_bytes C (codec_out (hs_codec s)) SPTPS_HANDSHAKE (kex_to_bytes x)]\<rparr>)
    \<and> codec_out c = channel_step (codec_out (hs_codec s)) \<and> codec_in c = codec_in (hs_codec s)"
proof -
  have lx: "length (kex_to_bytes x) \<le> 65535"
    using n length_eph_public [OF ok(2)] by (simp add: x_def kex_new_def e_def)
  from queue_sent [OF ok(1) lx, of "s\<lparr>hs_state := StateKex, hs_ecdh := Some e, hs_my_kex := Some x\<rparr>"]
  show ?thesis using st
    by (auto simp: force_kex_def send_kex_def generate_ephemeral_def send_kex_with_def x_def e_def Let_def
        simp del: channel_bytes.simps)
qed

text \<open>
  Both exchanges are on the table after two deliveries; \<open>seed_a\<close> and \<open>nonce_a\<close> are the
  initiator's draws, \<open>seed_b\<close> and \<open>nonce_b\<close> the responder's.
\<close>

lemma kex_phase_initiator:
  assumes ok: "hashes_ok C" "curve_ok C" and pr: "matched C a b" "sessions_agree a b m"
    and n: "length na = 32" "length nb = 32"
    and z: "compute_shared C (ephemeral_from_seed C sa) (eph_public (ephemeral_from_seed C sb)) = Inr z"
  shows "\<exists>a0 a1 b1 a2 b2 x y. force_kex C (Inr sa, Inr na) a = (Inr (), a0)
    \<and> deliver C (Inr sb, Inr nb) a0 b = (Inr [], a1, b1)
    \<and> deliver C (Inr sb, Inr nb) b1 a1 = (Inr [], b2, a2)
    \<and> sig_ready C a2 b2 x y z \<and> kex_nonce x = na \<and> kex_nonce y = nb \<and> same_peers a2 a \<and> same_peers b2 b
    \<and> fst (snd (codec_out (hs_codec a2))) \<noteq> None \<and> fst (snd (codec_out (hs_codec b2))) \<noteq> None"
proof -
  define ea where "ea = ephemeral_from_seed C sa"
  define eb where "eb = ephemeral_from_seed C sb"
  define x where "x = kex_new na (eph_public ea)"
  define y where "y = kex_new nb (eph_public eb)"
  have lx: "kex_version x = SPTPS_VERSION" "length (kex_nonce x) = 32" "length (kex_public x) = 32"
    and ly: "kex_version y = SPTPS_VERSION" "length (kex_nonce y) = 32" "length (kex_public y) = 32"
    using n length_eph_public [OF ok(2)] by (simp_all add: x_def y_def kex_new_def ea_def eb_def)
  from pr(2) have sa: "hs_state a = StateSecondaryKex" "hs_my_kex a = None" "hs_his_kex a = None"
      "hs_outbound a = []" and sb: "hs_state b = StateSecondaryKex" "hs_his_kex b = None" "hs_my_kex b = None"
      "hs_outbound b = []" and link: "codec_out (hs_codec a) = codec_in (hs_codec b)"
      "codec_out (hs_codec b) = codec_in (hs_codec a)"
    and est: "is_established a"
    by (simp_all add: sessions_agree_def is_established_def)
  have keyed: "fst (snd (codec_out (hs_codec a))) \<noteq> None" "fst (snd (codec_out (hs_codec b))) \<noteq> None"
    using pr(2) link by (simp_all add: sessions_agree_def codec_key_channel)
  from pr(1) have role: "hs_initiator a" "\<not> hs_initiator b" by (simp_all add: matched_def)
  obtain c0 where f: "force_kex C (Inr sa, Inr na) a = (Inr (), a\<lparr>hs_state := StateKex, hs_ecdh := Some ea,
        hs_my_kex := Some x, hs_codec := c0,
        hs_outbound := [channel_bytes C (codec_out (hs_codec a)) SPTPS_HANDSHAKE (kex_to_bytes x)]\<rparr>)"
    "codec_out c0 = channel_step (codec_out (hs_codec a))" "codec_in c0 = codec_in (hs_codec a)"
    using force_kex_step [OF ok n(1) sa(1,2) est, where seed = sa] sa(4)
    by (auto simp: x_def ea_def simp del: channel_bytes.simps)
  define a0 where "a0 = a\<lparr>hs_state := StateKex, hs_ecdh := Some ea, hs_my_kex := Some x, hs_codec := c0,
        hs_outbound := [channel_bytes C (codec_out (hs_codec a)) SPTPS_HANDSHAKE (kex_to_bytes x)]\<rparr>"
  define a1 where "a1 = a0\<lparr>hs_outbound := []\<rparr>"
  have oa0: "hs_outbound a0 = [channel_bytes C (codec_out (hs_codec a)) SPTPS_HANDSHAKE (kex_to_bytes x)]"
    by (simp add: a0_def del: channel_bytes.simps)
  obtain cb where b1: "receive_datagram C (Inr sb, Inr nb)
        (channel_bytes C (codec_out (hs_codec a)) SPTPS_HANDSHAKE (kex_to_bytes x)) b
      = (Inr [], b\<lparr>hs_codec := cb, hs_ecdh := Some eb, hs_my_kex := Some y, hs_his_kex := Some x,
           hs_state := StateSig,
           hs_outbound := [channel_bytes C (codec_out (hs_codec b)) SPTPS_HANDSHAKE (kex_to_bytes y)]\<rparr>)"
    and cb: "codec_in cb = channel_step (codec_in (hs_codec b))" "codec_out cb = channel_step (codec_out (hs_codec b))"
    using receive_kex_secondary [OF ok sb(1-3) lx n(2) refl, where seed = sb] sb(4) role(2) link(1)
    by (auto simp: y_def eb_def simp del: channel_bytes.simps)
  define b1' where "b1' = b\<lparr>hs_codec := cb, hs_ecdh := Some eb, hs_my_kex := Some y, hs_his_kex := Some x,
           hs_state := StateSig,
           hs_outbound := [channel_bytes C (codec_out (hs_codec b)) SPTPS_HANDSHAKE (kex_to_bytes y)]\<rparr>"
  have d1: "deliver C (Inr sb, Inr nb) a0 b = (Inr [], a1, b1')"
    unfolding a1_def b1'_def by (rule deliver_received [OF oa0 b1])
  have a1f: "hs_state a1 = StateKex" "hs_his_kex a1 = None" "hs_initiator a1" "hs_my_kex a1 = Some x"
    "codec_in (hs_codec a1) = codec_out (hs_codec b)" "codec_out (hs_codec a1) = channel_step (codec_out (hs_codec a))"
    "hs_outbound a1 = []" "same_peers a1 a" "hs_ecdh a1 = Some ea"
    using sa role f link by (simp_all add: a1_def a0_def same_peers_def del: channel_bytes.simps)
  obtain ca where a2: "receive_datagram C (Inr sb, Inr nb)
        (channel_bytes C (codec_out (hs_codec b)) SPTPS_HANDSHAKE (kex_to_bytes y)) a1
      = (Inr [], a1\<lparr>hs_codec := ca, hs_his_kex := Some y, hs_state := StateSig,
          hs_outbound := [channel_bytes C (codec_out (hs_codec a1)) SPTPS_HANDSHAKE (my_signature C a1 x y)]\<rparr>)"
    and ca: "codec_in ca = channel_step (codec_out (hs_codec b))" "codec_out ca = channel_step (codec_out (hs_codec a1))"
    using receive_kex_initiator [OF ok a1f(1-4) ly refl, where draws = "(Inr sb, Inr nb)"] a1f(5,7)
    by (auto simp del: channel_bytes.simps)
  define a2' where "a2' = a1\<lparr>hs_codec := ca, hs_his_kex := Some y, hs_state := StateSig,
          hs_outbound := [channel_bytes C (codec_out (hs_codec a1)) SPTPS_HANDSHAKE (my_signature C a1 x y)]\<rparr>"
  have ob1: "hs_outbound b1' = [channel_bytes C (codec_out (hs_codec b)) SPTPS_HANDSHAKE (kex_to_bytes y)]"
    by (simp add: b1'_def del: channel_bytes.simps)
  have d2: "deliver C (Inr sb, Inr nb) b1' a1 = (Inr [], b1'\<lparr>hs_outbound := []\<rparr>, a2')"
    unfolding a2'_def by (rule deliver_received [OF ob1 a2])
  have zz: "compute_shared C ea (kex_public y) = Inr z" "compute_shared C eb (kex_public x) = Inr z"
    using z compute_shared_agree(1) [OF ok, of sa sb] by (simp_all add: x_def y_def ea_def eb_def kex_new_def)
  have sig: "my_signature C a2' x y = my_signature C a1 x y" by (simp add: a2'_def my_signature_def)
  have "sig_ready C a2' (b1'\<lparr>hs_outbound := []\<rparr>) x y z"
    using pr(1) a1f ca cb zz link sig
    by (simp add: sig_ready_def matched_def a2'_def b1'_def same_peers_def del: channel_bytes.simps)
  moreover have "same_peers a2' a" "same_peers (b1'\<lparr>hs_outbound := []\<rparr>) b"
    using a1f by (simp_all add: same_peers_def a2'_def b1'_def)
  moreover have "fst (snd (codec_out (hs_codec a2'))) \<noteq> None"
    "fst (snd (codec_out (hs_codec (b1'\<lparr>hs_outbound := []\<rparr>)))) \<noteq> None"
    using keyed ca cb a1f by (simp_all add: a2'_def b1'_def del: channel_bytes.simps)
  moreover have "kex_nonce x = na" "kex_nonce y = nb" by (simp_all add: x_def y_def kex_new_def)
  ultimately show ?thesis using f(1) d1 d2 unfolding a0_def [symmetric] by blast
qed

lemma kex_phase_responder:
  assumes ok: "hashes_ok C" "curve_ok C" and pr: "matched C a b" "sessions_agree a b m"
    and n: "length na = 32" "length nb = 32"
    and z: "compute_shared C (ephemeral_from_seed C sa) (eph_public (ephemeral_from_seed C sb)) = Inr z"
  shows "\<exists>b0 a1 b1 a2 b2 x y. force_kex C (Inr sb, Inr nb) b = (Inr (), b0)
    \<and> deliver C (Inr sa, Inr na) b0 a = (Inr [], b1, a1)
    \<and> deliver C (Inr sa, Inr na) a1 b1 = (Inr [], a2, b2)
    \<and> sig_ready C a2 b2 x y z \<and> kex_nonce x = na \<and> kex_nonce y = nb \<and> same_peers a2 a \<and> same_peers b2 b
    \<and> fst (snd (codec_out (hs_codec a2))) \<noteq> None \<and> fst (snd (codec_out (hs_codec b2))) \<noteq> None"
proof -
  define ea where "ea = ephemeral_from_seed C sa"
  define eb where "eb = ephemeral_from_seed C sb"
  define x where "x = kex_new na (eph_public ea)"
  define y where "y = kex_new nb (eph_public eb)"
  have lx: "kex_version x = SPTPS_VERSION" "length (kex_nonce x) = 32" "length (kex_public x) = 32"
    and ly: "kex_version y = SPTPS_VERSION" "length (kex_nonce y) = 32" "length (kex_public y) = 32"
    using n length_eph_public [OF ok(2)] by (simp_all add: x_def y_def kex_new_def ea_def eb_def)
  from pr(2) have sa: "hs_state a = StateSecondaryKex" "hs_his_kex a = None" "hs_my_kex a = None"
      "hs_outbound a = []" and sb: "hs_state b = StateSecondaryKex" "hs_my_kex b = None" "hs_his_kex b = None"
      "hs_outbound b = []" and link: "codec_out (hs_codec a) = codec_in (hs_codec b)"
      "codec_out (hs_codec b) = codec_in (hs_codec a)"
    by (simp_all add: sessions_agree_def)
  have keyed: "fst (snd (codec_out (hs_codec a))) \<noteq> None" "fst (snd (codec_out (hs_codec b))) \<noteq> None"
    using pr(2) link by (simp_all add: sessions_agree_def codec_key_channel)
  have est: "is_established b" using keyed link by (simp add: is_established_def codec_key_channel)
  from pr(1) have role: "hs_initiator a" "\<not> hs_initiator b" by (simp_all add: matched_def)
  define kexb where "kexb = channel_bytes C (codec_out (hs_codec b)) SPTPS_HANDSHAKE (kex_to_bytes y)"
  define kexa where "kexa = channel_bytes C (codec_out (hs_codec a)) SPTPS_HANDSHAKE (kex_to_bytes x)"
  define siga where "siga = channel_bytes C (channel_step (codec_out (hs_codec a))) SPTPS_HANDSHAKE
    (my_signature C a x y)"
  obtain c0 where f: "force_kex C (Inr sb, Inr nb) b = (Inr (), b\<lparr>hs_state := StateKex, hs_ecdh := Some eb,
        hs_my_kex := Some y, hs_codec := c0, hs_outbound := [kexb]\<rparr>)"
    "codec_out c0 = channel_step (codec_out (hs_codec b))" "codec_in c0 = codec_in (hs_codec b)"
    using force_kex_step [OF ok n(2) sb(1,2) est, where seed = sb] sb(4)
    by (auto simp: y_def eb_def kexb_def simp del: channel_bytes.simps)
  define b1 where "b1 = b\<lparr>hs_state := StateKex, hs_ecdh := Some eb, hs_my_kex := Some y, hs_codec := c0,
    hs_outbound := []\<rparr>"
  obtain ca where a1: "receive_datagram C (Inr sa, Inr na) kexb a
      = (Inr [], a\<lparr>hs_codec := ca, hs_ecdh := Some ea, hs_my_kex := Some x, hs_his_kex := Some y,
           hs_state := StateSig, hs_outbound := [kexa, siga]\<rparr>)"
    and ca: "codec_in ca = channel_step (codec_in (hs_codec a))"
      "codec_out ca = channel_step (channel_step (codec_out (hs_codec a)))"
    using receive_kex_secondary [OF ok sa(1-3) ly n(1) refl, where seed = sa] sa(4) role(1) link(2)
    by (auto simp: x_def ea_def kexa_def kexb_def siga_def simp del: channel_bytes.simps)
  define a1' where "a1' = a\<lparr>hs_codec := ca, hs_ecdh := Some ea, hs_my_kex := Some x, hs_his_kex := Some y,
    hs_state := StateSig, hs_outbound := [kexa, siga]\<rparr>"
  have d1: "deliver C (Inr sa, Inr na) (b\<lparr>hs_state := StateKex, hs_ecdh := Some eb, hs_my_kex := Some y,
      hs_codec := c0, hs_outbound := [kexb]\<rparr>) a = (Inr [], b1, a1')"
    using a1 by (simp add: deliver_def pop_outbound_def b1_def a1'_def)
  have kexa: "kexa = channel_bytes C (codec_in (hs_codec b1)) SPTPS_HANDSHAKE (kex_to_bytes x)"
    using f link by (simp add: kexa_def b1_def del: channel_bytes.simps)
  have b1f: "hs_state b1 = StateKex" "hs_his_kex b1 = None" "\<not> hs_initiator b1"
    using sb role by (simp_all add: b1_def)
  obtain cb where b2: "receive_datagram C (Inr sa, Inr na) kexa b1
      = (Inr [], b1\<lparr>hs_codec := cb, hs_his_kex := Some x, hs_state := StateSig\<rparr>)"
    and cb: "codec_in cb = channel_step (codec_in (hs_codec b))" "codec_out cb = channel_step (codec_out (hs_codec b))"
    using receive_kex_responder [OF ok(1) b1f lx kexa, where draws = "(Inr sa, Inr na)"] f
    by (auto simp: b1_def)
  define b2' where "b2' = b1\<lparr>hs_codec := cb, hs_his_kex := Some x, hs_state := StateSig\<rparr>"
  have d2: "deliver C (Inr sa, Inr na) a1' b1 = (Inr [], a1'\<lparr>hs_outbound := [siga]\<rparr>, b2')"
    unfolding b2'_def by (rule deliver_received [OF _ b2]) (simp add: a1'_def)
  have zz: "compute_shared C ea (kex_public y) = Inr z" "compute_shared C eb (kex_public x) = Inr z"
    using z compute_shared_agree(1) [OF ok, of sa sb] by (simp_all add: x_def y_def ea_def eb_def kex_new_def)
  have sig: "my_signature C (a1'\<lparr>hs_outbound := [siga]\<rparr>) x y = my_signature C a x y"
    by (simp add: a1'_def my_signature_def)
  have "sig_ready C (a1'\<lparr>hs_outbound := [siga]\<rparr>) b2' x y z"
    using pr(1) ca cb zz link sig
    by (simp add: sig_ready_def matched_def a1'_def b1_def b2'_def siga_def del: channel_bytes.simps)
  moreover have "same_peers (a1'\<lparr>hs_outbound := [siga]\<rparr>) a" "same_peers b2' b"
    by (simp_all add: same_peers_def a1'_def b2'_def b1_def)
  moreover have "fst (snd (codec_out (hs_codec (a1'\<lparr>hs_outbound := [siga]\<rparr>)))) \<noteq> None"
    "fst (snd (codec_out (hs_codec b2'))) \<noteq> None"
    using keyed ca cb by (simp_all add: a1'_def b2'_def)
  moreover have "kex_nonce x = na" "kex_nonce y = nb" by (simp_all add: x_def y_def kex_new_def)
  ultimately show ?thesis using f(1) d1 d2 by blast
qed

text \<open>
  A renewal: the forcing side's exchange, the answer, the initiator's signature, and the
  remaining four messages.  The peer's draws are those of the deliveries.
\<close>

definition rekey_run :: "('p, 's::comm_ring_1) sptps_crypto \<Rightarrow> bool \<Rightarrow> random_draws \<Rightarrow> random_draws
    \<Rightarrow> handshake_session \<Rightarrow> handshake_session
    \<Rightarrow> (sptps_error + unit) \<times> (sptps_error + handshake_event list) list \<times> handshake_session \<times> handshake_session" where
  "rekey_run C by_initiator df dp a b =
     (let (r0, a, b) = (if by_initiator then (case force_kex C df a of (r, a) \<Rightarrow> (r, a, b))
                        else (case force_kex C df b of (r, b) \<Rightarrow> (r, a, b)));
          (r1, r2, a, b) = (if by_initiator
             then (case deliver C dp a b of (r1, a, b) \<Rightarrow> case deliver C dp b a of (r2, b, a) \<Rightarrow> (r1, r2, a, b))
             else (case deliver C dp b a of (r1, b, a) \<Rightarrow> case deliver C dp a b of (r2, a, b) \<Rightarrow> (r1, r2, a, b)));
          (r3, a, b) = deliver C dp a b;
          (r4, b, a) = deliver C dp b a;
          (r5, b, a) = deliver C dp b a;
          (r6, a, b) = deliver C dp a b
      in (r0, [r1, r2, r3, r4, r5, r6], a, b))"

lemma rekey_agrees_run:
  assumes ok: "hashes_ok C" "curve_ok C" and pr: "matched C a b" "sessions_agree a b m"
    and n: "length na = 32" "length nb = 32"
    and z: "compute_shared C (ephemeral_from_seed C sa) (eph_public (ephemeral_from_seed C sb)) = Inr z"
  shows "\<exists>a' b'. rekey_run C by_initiator
        (if by_initiator then (Inr sa, Inr na) else (Inr sb, Inr nb))
        (if by_initiator then (Inr sb, Inr nb) else (Inr sa, Inr na)) a b
      = (Inr (), [Inr [], Inr [], Inr [], Inr [], Inr [HandshakeComplete], Inr [HandshakeComplete]], a', b')
    \<and> sessions_agree a' b' (material_derive C z na nb (hs_label a)) \<and> matched C a' b'"
proof -
  have fin: "\<exists>a3 b3 a4 b4 a5 b5 a6 b6. deliver C dp a2 b2 = (Inr [], a3, b3)
      \<and> deliver C dp b3 a3 = (Inr [], b4, a4) \<and> deliver C dp b4 a4 = (Inr [HandshakeComplete], b5, a5)
      \<and> deliver C dp a5 b5 = (Inr [HandshakeComplete], a6, b6)
      \<and> sessions_agree a6 b6 (material_derive C z na nb (hs_label a)) \<and> matched C a6 b6"
    if s: "sig_ready C a2 b2 x y z" "kex_nonce x = na" "kex_nonce y = nb" "same_peers a2 a" "same_peers b2 b"
      "fst (snd (codec_out (hs_codec a2))) \<noteq> None" "fst (snd (codec_out (hs_codec b2))) \<noteq> None"
    for a2 b2 x y dp
    using sig_phase_second [OF ok s(1,6,7), of dp] s(2-5) pr(1)
    by (fastforce simp: same_peers_def matched_def)
  show ?thesis
  proof (cases by_initiator)
    case True
    from kex_phase_initiator [OF ok pr n z] obtain a0 a1 b1 a2 b2 x y where
      k: "force_kex C (Inr sa, Inr na) a = (Inr (), a0)" "deliver C (Inr sb, Inr nb) a0 b = (Inr [], a1, b1)"
        "deliver C (Inr sb, Inr nb) b1 a1 = (Inr [], b2, a2)"
      and s: "sig_ready C a2 b2 x y z" "kex_nonce x = na" "kex_nonce y = nb" "same_peers a2 a" "same_peers b2 b"
      "fst (snd (codec_out (hs_codec a2))) \<noteq> None" "fst (snd (codec_out (hs_codec b2))) \<noteq> None" by blast
    from fin [OF s, of "(Inr sb, Inr nb)"] show ?thesis
      by (auto simp: rekey_run_def k True)
  next
    case False
    from kex_phase_responder [OF ok pr n z] obtain b0 a1 b1 a2 b2 x y where
      k: "force_kex C (Inr sb, Inr nb) b = (Inr (), b0)" "deliver C (Inr sa, Inr na) b0 a = (Inr [], b1, a1)"
        "deliver C (Inr sa, Inr na) a1 b1 = (Inr [], a2, b2)"
      and s: "sig_ready C a2 b2 x y z" "kex_nonce x = na" "kex_nonce y = nb" "same_peers a2 a" "same_peers b2 b"
      "fst (snd (codec_out (hs_codec a2))) \<noteq> None" "fst (snd (codec_out (hs_codec b2))) \<noteq> None" by blast
    from fin [OF s, of "(Inr sa, Inr na)"] show ?thesis
      by (auto simp: rekey_run_def k False)
  qed
qed

end
