(* ===== verification/Sptps_Safety.thy ===== *)
theory Sptps_Safety
  imports Sptps_Rekey
begin

text \<open>
  Safety of \<^verbatim>\<open>SptpsHandshakeSession\<close> against arbitrary input: every sequence of operations and
  received bytes, failures of the random generator included, keeps the session consistent; keys
  come only from a signature the peer's key verifies; application data comes only from
  authenticated records; and the two honest runs, first and renewed, agree.
\<close>

section \<open>What the operations leave alone\<close>

text \<open>Only the codec's counters and the queue differ.\<close>

definition quiet :: "handshake_session \<Rightarrow> handshake_session \<Rightarrow> bool" where
  "quiet s t \<longleftrightarrow> (\<exists>c ob. t = s\<lparr>hs_codec := c, hs_outbound := ob\<rparr>
     \<and> codec_in_key c = codec_in_key (hs_codec s) \<and> codec_out_key c = codec_out_key (hs_codec s))"

lemma quiet_refl [simp]: "quiet s s"
  unfolding quiet_def by (intro exI [of _ "hs_codec s"] exI [of _ "hs_outbound s"]) simp

lemma quiet_fields:
  assumes "quiet s t"
  shows "hs_initiator t = hs_initiator s" "hs_label t = hs_label s" "hs_my_key t = hs_my_key s"
    "hs_peer_key t = hs_peer_key s" "hs_state t = hs_state s" "hs_ecdh t = hs_ecdh s"
    "hs_my_kex t = hs_my_kex s" "hs_his_kex t = hs_his_kex s" "hs_pending t = hs_pending s"
    "codec_in_key (hs_codec t) = codec_in_key (hs_codec s)"
    "codec_out_key (hs_codec t) = codec_out_key (hs_codec s)"
  using assms by (auto simp: quiet_def)

lemma encode_keys:
  "codec_encode C t p c = (r, c') \<Longrightarrow> codec_in_key c' = codec_in_key c \<and> codec_out_key c' = codec_out_key c"
  by (cases c) (auto simp: datagram_encode_def tcp_encode_def Let_def split: sum.splits if_splits)

lemma decode_keys:
  assumes "codec_decode C d c = (r, c')"
  shows "codec_in_key c' = codec_in_key c \<and> codec_out_key c' = codec_out_key c"
proof (cases c)
  case (DatagramCodec dc)
  have "dc_in_key (snd (datagram_plaintext C q b dc)) = dc_in_key dc
      \<and> dc_out_key (snd (datagram_plaintext C q b dc)) = dc_out_key dc" for q b
    by (auto simp: datagram_plaintext_def Let_def split: option.splits sum.splits prod.splits)
  then have "datagram_plaintext C q b dc = (r2, dc2) \<Longrightarrow>
      dc_in_key dc2 = dc_in_key dc \<and> dc_out_key dc2 = dc_out_key dc" for q b r2 dc2
    by (metis snd_conv)
  with assms DatagramCodec show ?thesis
    by (auto simp: datagram_decode_def Let_def split: if_splits prod.splits sum.splits list.splits)
next
  case (TcpCodec tc)
  with assms show ?thesis by (auto simp: tcp_decode_def Let_def split: if_splits)
qed

lemma quietI:
  assumes "codec_in_key c = codec_in_key (hs_codec s)" "codec_out_key c = codec_out_key (hs_codec s)"
  shows "quiet s (s\<lparr>hs_codec := c\<rparr>)" "quiet s (s\<lparr>hs_codec := c, hs_outbound := ob\<rparr>)"
proof -
  have "s\<lparr>hs_codec := c\<rparr> = s\<lparr>hs_codec := c, hs_outbound := hs_outbound s\<rparr>" by simp
  with assms show "quiet s (s\<lparr>hs_codec := c\<rparr>)" unfolding quiet_def by blast
  from assms show "quiet s (s\<lparr>hs_codec := c, hs_outbound := ob\<rparr>)" unfolding quiet_def by blast
qed

lemma quiet_outbound: "quiet s (s\<lparr>hs_outbound := ob\<rparr>)"
  using quietI(2) [of "hs_codec s" s ob] by simp

lemma queue_quiet: "queue_handshake C p s = (r, t) \<Longrightarrow> quiet s t"
  by (auto simp: queue_handshake_def split: prod.splits sum.splits dest!: encode_keys intro: quietI)

lemma queue_ok: "length p \<le> 65535 \<Longrightarrow> fst (queue_handshake C p s) = Inr ()"
  by (cases "hs_codec s") (simp_all add: queue_handshake_def datagram_encode_def tcp_encode_def
      validate_ok Let_def)

lemma send_sig_ok:
  "curve_ok C \<Longrightarrow> hs_my_kex s = Some x \<Longrightarrow> hs_his_kex s = Some y \<Longrightarrow> fst (send_sig C s) = Inr ()"
  by (simp add: send_sig_def queue_ok)

lemma send_sig_quiet: "send_sig C s = (r, t) \<Longrightarrow> quiet s t"
  by (auto simp: send_sig_def split: option.splits dest: queue_quiet)

section \<open>The invariant of a session\<close>

definition session_inv :: "handshake_session \<Rightarrow> bool" where
  "session_inv s \<longleftrightarrow>
     (hs_my_kex s = None \<longleftrightarrow> hs_ecdh s = None)
     \<and> (hs_pending s \<noteq> None \<longleftrightarrow> hs_state s = StateAck)
     \<and> (codec_in_key (hs_codec s) = None \<longleftrightarrow> codec_out_key (hs_codec s) = None)
     \<and> (hs_state s = StateSecondaryKex \<longrightarrow> is_established s \<and> hs_his_kex s = None)
     \<and> (hs_state s = StateAck \<longrightarrow> is_established s \<and> hs_my_kex s = None \<and> hs_his_kex s = None)
     \<and> (hs_state s = StateSig \<longrightarrow> hs_his_kex s \<noteq> None)"

lemma quiet_inv: "quiet s t \<Longrightarrow> session_inv s \<Longrightarrow> session_inv t"
  by (simp add: session_inv_def quiet_fields is_established_def)

lemma send_kex_result:
  assumes "send_kex C draws s = (r, t)"
  shows "t = s \<and> r \<noteq> Inr ()
    \<or> (\<exists>e n. generate_ephemeral C draws = Inr (e, n) \<and> hs_my_kex s = None
        \<and> quiet (s\<lparr>hs_ecdh := Some e, hs_my_kex := Some (kex_new n (eph_public e))\<rparr>) t)"
proof (cases "generate_ephemeral C draws")
  case (Inl err)
  with assms show ?thesis by (auto simp: send_kex_def)
next
  case (Inr v)
  obtain e n where v: "v = (e, n)" by (cases v)
  with assms Inr show ?thesis
    by (auto simp: send_kex_def send_kex_with_def Let_def split: if_splits dest: queue_quiet)
qed

lemma receive_kex_result:
  assumes "receive_kex C d s = (r, t)"
  shows "t = s \<and> r \<noteq> Inr () \<or> (\<exists>y. kex_try_from_slice d = Inr y \<and> hs_his_kex s = None
    \<and> quiet (s\<lparr>hs_his_kex := Some y\<rparr>) t \<and> (curve_ok C \<longrightarrow> hs_my_kex s \<noteq> None \<longrightarrow> r = Inr ()))"
proof (cases "hs_his_kex s = None \<and> (\<exists>y. kex_try_from_slice d = Inr y)")
  case True
  then obtain y where y: "hs_his_kex s = None" "kex_try_from_slice d = Inr y" by blast
  then have rt: "(r, t) = (if hs_initiator s then send_sig C (s\<lparr>hs_his_kex := Some y\<rparr>)
      else (Inr (), s\<lparr>hs_his_kex := Some y\<rparr>))"
    using assms by (auto simp: receive_kex_def Let_def split: if_splits)
  have "quiet (s\<lparr>hs_his_kex := Some y\<rparr>) t"
    using rt send_sig_quiet [of C "s\<lparr>hs_his_kex := Some y\<rparr>" r t] by (auto split: if_splits)
  moreover have "curve_ok C \<Longrightarrow> hs_my_kex s = Some x \<Longrightarrow> r = Inr ()" for x
    using rt send_sig_ok [of C "s\<lparr>hs_his_kex := Some y\<rparr>" x y] by (auto split: if_splits dest: arg_cong [where f = fst])
  ultimately show ?thesis using y by auto
next
  case False
  with assms show ?thesis by (auto simp: receive_kex_def split: if_splits sum.splits)
qed

lemma receive_sig_result:
  assumes ok: "curve_ok C" and d: "receive_sig C sig s = (r, t)"
  shows "(t = s \<and> (\<exists>e. r = Inl e)) \<or> (\<exists>m sec. r = Inr sec \<and> check_sig C sig s = Inr m
    \<and> sec = (codec_out_key (hs_codec s) \<noteq> None)
    \<and> hs_ecdh t = None \<and> hs_my_kex t = None \<and> hs_his_kex t = None
    \<and> hs_pending t = (if sec then Some m else hs_pending s) \<and> hs_state t = hs_state s
    \<and> hs_initiator t = hs_initiator s
    \<and> codec_out_key (hs_codec t) = Some (snd (keys_for_role (hs_initiator s) m))
    \<and> codec_in_key (hs_codec t) = (if sec then codec_in_key (hs_codec s)
        else Some (fst (keys_for_role (hs_initiator s) m))))"
proof (cases "check_sig C sig s")
  case (Inl e)
  with d show ?thesis by (auto simp: receive_sig_def)
next
  case (Inr m)
  define sec where "sec = (codec_out_key (hs_codec s) \<noteq> None)"
  obtain ik out where keys: "keys_for_role (hs_initiator s) m = (ik, out)" by fastforce
  from Inr obtain x y where xy: "hs_my_kex s = Some x" "hs_his_kex s = Some y"
    by (auto simp: check_sig_Inr)
  obtain s1 where s1: "(if hs_initiator s then op_return () else send_sig C) s = (Inr (), s1)" "quiet s s1"
    using send_sig_ok [OF ok xy] send_sig_quiet [of C s] that
    by (cases "hs_initiator s"; cases "send_sig C s") (auto simp: op_return_def)
  define s2 where "s2 = s1\<lparr>hs_ecdh := None, hs_my_kex := None, hs_his_kex := None\<rparr>"
  obtain s3 where s3: "(if sec then op_then (queue_handshake C []) (\<lambda>_.
          op_update (\<lambda>s. s\<lparr>hs_pending := Some m\<rparr>)) else op_return ()) s2 = (Inr (), s3)"
    "quiet (s2\<lparr>hs_pending := (if sec then Some m else hs_pending s)\<rparr>) s3"
  proof (cases sec)
    case True
    obtain u where u: "queue_handshake C [] s2 = (Inr (), u)"
      using queue_ok [of "[]" C s2] by (cases "queue_handshake C [] s2") auto
    from queue_quiet [OF u] obtain c ob where c: "u = s2\<lparr>hs_codec := c, hs_outbound := ob\<rparr>"
      "codec_in_key c = codec_in_key (hs_codec s2)" "codec_out_key c = codec_out_key (hs_codec s2)"
      by (auto simp: quiet_def)
    then have eq: "u\<lparr>hs_pending := Some m\<rparr> = s2\<lparr>hs_pending := Some m, hs_codec := c, hs_outbound := ob\<rparr>"
      by simp
    have "quiet (s2\<lparr>hs_pending := Some m\<rparr>) (u\<lparr>hs_pending := Some m\<rparr>)"
      unfolding eq by (rule quietI(2)) (use c in simp_all)
    with True u that show ?thesis by (simp add: op_then_Inr op_update_def)
  next
    case False
    have "s2\<lparr>hs_pending := hs_pending s\<rparr> = s2" using s1(2) by (simp add: s2_def quiet_fields)
    with False that show ?thesis by (simp add: op_return_def)
  qed
  have step1: "op_then (if hs_initiator s then op_return () else send_sig C) f s = f () s1"
    for f :: "unit \<Rightarrow> bool session_op"
    unfolding op_then_def s1(1) by simp
  have step3: "op_then (if sec then op_then (queue_handshake C []) (\<lambda>_.
          op_update (\<lambda>s. s\<lparr>hs_pending := Some m\<rparr>)) else op_return ()) f s2 = f () s3"
    for f :: "unit \<Rightarrow> bool session_op"
    unfolding op_then_def [of "if sec then _ else _"] s3(1) by simp
  have "(r, t) = (Inr sec, s3\<lparr>hs_codec := (if sec then codec_set_out_key out (hs_codec s3)
      else codec_set_in_key ik (codec_set_out_key out (hs_codec s3)))\<rparr>)"
    unfolding d [symmetric] receive_sig_def Inr sum.case Let_def keys prod.case sec_def [symmetric]
      step1 op_then_simps s2_def [symmetric] step3
    by (cases sec) (simp_all add: op_return_def)
  then have rt: "r = Inr sec" "t = s3\<lparr>hs_codec := (if sec then codec_set_out_key out (hs_codec s3)
      else codec_set_in_key ik (codec_set_out_key out (hs_codec s3)))\<rparr>" by simp_all
  have "codec_in_key (hs_codec s3) = codec_in_key (hs_codec s)"
    using quiet_fields(10) [OF s3(2)] quiet_fields(10) [OF s1(2)] by (simp add: s2_def)
  then show ?thesis
    using rt Inr quiet_fields [OF s3(2)] quiet_fields [OF s1(2)]
    by (simp add: s2_def keys sec_def codec_key_channel)
qed

lemma kex_states_inv:
  assumes ok: "curve_ok C" and inv: "session_inv s" and st: "hs_state s = StateKex"
    and d: "receive_handshake C draws p s = (r, t)"
  shows "session_inv t"
proof -
  obtain r1 u where u: "receive_kex C p s = (r1, u)" by fastforce
  note res = receive_kex_result [OF u]
  have iu: "session_inv u"
    using res inv st by (auto simp: session_inv_def quiet_fields is_established_def)
  show ?thesis
  proof (cases r1)
    case (Inl e)
    with d st u iu show ?thesis by (simp add: receive_handshake_def op_then_def u Inl)
  next
    case (Inr v)
    with d st u have t: "t = u\<lparr>hs_state := StateSig\<rparr>"
      by (simp add: receive_handshake_def op_then_def u Inr set_state_def op_update_def op_return_def)
    have "hs_his_kex u \<noteq> None" "hs_state u = StateKex"
      using res Inr st by (auto simp: quiet_fields)
    with iu t show ?thesis by (auto simp: session_inv_def is_established_def)
  qed
qed

lemma secondary_inv:
  assumes ok: "curve_ok C" and inv: "session_inv s" and st: "hs_state s = StateSecondaryKex"
    and d: "receive_handshake C draws p s = (r, t)"
  shows "session_inv t"
proof -
  obtain r0 s1 where s1: "send_kex C draws s = (r0, s1)" by fastforce
  note res1 = send_kex_result [OF s1]
  have i1: "session_inv s1" "hs_state s1 = StateSecondaryKex"
    using res1 inv st by (auto simp: session_inv_def quiet_fields is_established_def)
  show ?thesis
  proof (cases r0)
    case (Inl e)
    with d st s1 i1 show ?thesis by (simp add: receive_handshake_def op_then_def s1 Inl)
  next
    case (Inr v)
    with res1 have my: "hs_my_kex s1 \<noteq> None" by (auto simp: quiet_fields)
    obtain r1 u where u: "receive_kex C p s1 = (r1, u)" by fastforce
    note res = receive_kex_result [OF u]
    have step: "(r, t) = op_then (receive_kex C p) (\<lambda>_. op_then (set_state StateSig) (\<lambda>_. op_return [])) s1"
      using d st by (simp add: receive_handshake_def op_then_def [of "send_kex C draws"] s1 Inr)
    show ?thesis
    proof (cases r1)
      case (Inl e)
      with res my ok have "u = s1" by auto
      with step u Inl i1 show ?thesis by (simp add: op_then_def)
    next
      case (Inr w)
      with step u have t: "t = u\<lparr>hs_state := StateSig\<rparr>"
        by (simp add: op_then_def set_state_def op_update_def op_return_def)
      have "hs_his_kex u \<noteq> None" "hs_pending u = None" "hs_my_kex u = hs_my_kex s1"
        "hs_ecdh u = hs_ecdh s1" "codec_in_key (hs_codec u) = codec_in_key (hs_codec s1)"
        "codec_out_key (hs_codec u) = codec_out_key (hs_codec s1)"
        using res Inr i1 by (auto simp: session_inv_def quiet_fields)
      with i1 t show ?thesis by (auto simp: session_inv_def is_established_def)
    qed
  qed
qed

lemma sig_state_inv:
  assumes ok: "curve_ok C" and inv: "session_inv s" and st: "hs_state s = StateSig"
    and d: "receive_handshake C draws p s = (r, t)"
  shows "session_inv t"
proof -
  obtain r1 u where u: "receive_sig C p s = (r1, u)" by fastforce
  from receive_sig_result [OF ok u] show ?thesis
  proof (elim disjE exE conjE)
    fix e assume "u = s" "r1 = Inl e"
    with d st u inv show ?thesis by (simp add: receive_handshake_def op_then_def)
  next
    fix m sec
    assume f: "r1 = Inr sec" "sec = (codec_out_key (hs_codec s) \<noteq> None)" "hs_ecdh u = None"
      "hs_my_kex u = None" "hs_his_kex u = None" "hs_pending u = (if sec then Some m else hs_pending s)"
      "codec_out_key (hs_codec u) = Some (snd (keys_for_role (hs_initiator s) m))"
      "codec_in_key (hs_codec u) = (if sec then codec_in_key (hs_codec s)
        else Some (fst (keys_for_role (hs_initiator s) m)))"
    have "t = u\<lparr>hs_state := (if sec then StateAck else StateSecondaryKex)\<rparr>"
      using d st f(1) u
      by (cases sec) (simp_all add: receive_handshake_def op_then_def set_state_def op_update_def op_return_def)
    with f inv st show ?thesis by (auto simp: session_inv_def is_established_def)
  qed
qed

lemma ack_state_inv:
  assumes inv: "session_inv s" and st: "hs_state s = StateAck"
    and d: "receive_handshake C draws p s = (r, t)"
  shows "session_inv t"
proof (cases "p = []")
  case True
  from inv st obtain m where m: "hs_pending s = Some m" by (auto simp: session_inv_def)
  obtain ik out where keys: "keys_for_role (hs_initiator s) m = (ik, out)" by fastforce
  have "receive_ack p s = (Inr (), s\<lparr>hs_pending := None, hs_codec := codec_set_in_key ik (hs_codec s)\<rparr>)"
    using True m keys by (simp add: receive_ack_def Let_def)
  then have "t = s\<lparr>hs_pending := None, hs_codec := codec_set_in_key ik (hs_codec s),
      hs_state := StateSecondaryKex\<rparr>"
    using d st by (simp add: receive_handshake_def op_then_def set_state_def op_update_def op_return_def)
  with inv st show ?thesis by (auto simp: session_inv_def is_established_def codec_key_channel)
next
  case False
  with d st inv show ?thesis by (simp add: receive_handshake_def receive_ack_def op_then_def)
qed

lemma receive_handshake_inv:
  assumes "curve_ok C" "session_inv s" "receive_handshake C draws p s = (r, t)"
  shows "session_inv t"
  using assms kex_states_inv secondary_inv sig_state_inv ack_state_inv by (cases "hs_state s") blast+

lemma receive_datagram_inv:
  assumes "curve_ok C" "session_inv s" "receive_datagram C draws d s = (r, t)"
  shows "session_inv t"
proof -
  obtain rr c where c: "codec_decode C d (hs_codec s) = (rr, c)" by fastforce
  from decode_keys [OF c] have "session_inv (s\<lparr>hs_codec := c\<rparr>)"
    using quiet_inv [OF quietI(1) assms(2)] by blast
  with assms(3) c receive_handshake_inv [OF assms(1)] show ?thesis
    by (auto simp: receive_datagram_def Let_def split: sum.splits if_splits)
qed

section \<open>Reachable sessions\<close>

inductive session_step :: "('p, 's::comm_ring_1) sptps_crypto \<Rightarrow> handshake_session \<Rightarrow> handshake_session \<Rightarrow> bool"
  for C where
  Step_receive: "receive_datagram C draws d s = (r, t) \<Longrightarrow> session_step C s t"
| Step_send: "send_record C record_type payload s = (r, t) \<Longrightarrow> session_step C s t"
| Step_force: "force_kex C draws s = (r, t) \<Longrightarrow> session_step C s t"
| Step_drain: "drain_outbound s = (ds, t) \<Longrightarrow> session_step C s t"
| Step_pop: "pop_outbound s = (d, t) \<Longrightarrow> session_step C s t"

inductive session_reachable :: "('p, 's::comm_ring_1) sptps_crypto \<Rightarrow> handshake_session \<Rightarrow> bool"
  for C where
  Start: "start_session C i k pk l cod e n = Inr s
    \<Longrightarrow> cod = DatagramCodec (datagram_new w) \<or> cod = TcpCodec tcp_new \<Longrightarrow> session_reachable C s"
| Step: "session_reachable C s \<Longrightarrow> session_step C s t \<Longrightarrow> session_reachable C t"

lemma start_inv:
  assumes "start_session C i k pk l cod e n = Inr s"
    and "cod = DatagramCodec (datagram_new w) \<or> cod = TcpCodec tcp_new"
  shows "session_inv s"
proof -
  define s0 where "s0 = (session_new i k pk l cod)\<lparr>hs_ecdh := Some e, hs_my_kex := Some (kex_new n (eph_public e))\<rparr>"
  have keys: "codec_in_key cod = None" "codec_out_key cod = None"
    using assms(2) by (auto simp: datagram_new_def tcp_new_def)
  then have "session_inv s0" by (simp add: s0_def session_inv_def session_new_def)
  moreover have "quiet s0 s"
    using assms(1) by (auto simp: start_session_def send_kex_with_def session_new_def s0_def Let_def
        split: prod.splits sum.splits dest: queue_quiet)
  ultimately show ?thesis by (rule quiet_inv [rotated])
qed

lemma step_inv:
  assumes "curve_ok C" "session_step C s t" "session_inv s"
  shows "session_inv t"
  using assms(2)
proof (cases rule: session_step.cases)
  case (Step_receive draws d r)
  then show ?thesis using receive_datagram_inv [OF assms(1,3)] by blast
next
  case (Step_send record_type payload r)
  then have "quiet s t" by (auto simp: send_record_def split: if_splits prod.splits
      dest!: encode_keys intro: quietI)
  then show ?thesis using assms(3) by (rule quiet_inv)
next
  case (Step_force draws r)
  show ?thesis
  proof (cases "is_established s \<and> hs_state s = StateSecondaryKex")
    case True
    then have "send_kex C draws (s\<lparr>hs_state := StateKex\<rparr>) = (r, t)"
      using Step_force by (simp add: force_kex_def)
    from send_kex_result [OF this] assms(3) True show ?thesis
      by (auto simp: session_inv_def quiet_fields is_established_def)
  next
    case False
    then have "t = s" using Step_force by (auto simp: force_kex_def)
    with assms(3) show ?thesis by simp
  qed
next
  case (Step_drain ds)
  then have "quiet s t" by (auto simp: drain_outbound_def quiet_outbound)
  then show ?thesis using assms(3) by (rule quiet_inv)
next
  case (Step_pop d)
  then have "quiet s t" by (auto simp: pop_outbound_def quiet_outbound split: list.splits)
  then show ?thesis using assms(3) by (rule quiet_inv)
qed

lemma reachable_inv: "session_reachable C s \<Longrightarrow> curve_ok C \<Longrightarrow> session_inv s"
  by (induction rule: session_reachable.induct) (auto intro: start_inv step_inv)

section \<open>Where keys and data come from\<close>

text \<open>The keys and the pending material of a session.\<close>

definition key_state :: "handshake_session \<Rightarrow> sptps_key option \<times> sptps_key option \<times> sptps_key_material option" where
  "key_state s = (codec_in_key (hs_codec s), codec_out_key (hs_codec s), hs_pending s)"

lemma quiet_key_state: "quiet s t \<Longrightarrow> key_state t = key_state s"
  by (simp add: key_state_def quiet_fields)

lemma kex_keeps_keys: "receive_kex C p s = (r, t) \<Longrightarrow> key_state t = key_state s"
  using receive_kex_result [of C p s r t] by (auto dest!: quiet_key_state simp: key_state_def)

lemma send_kex_keeps_keys: "send_kex C draws s = (r, t) \<Longrightarrow> key_state t = key_state s"
  using send_kex_result [of C draws s r t] by (auto dest!: quiet_key_state simp: key_state_def)

lemma handshake_keys:
  assumes ok: "curve_ok C" and d: "receive_handshake C draws p s = (r, t)"
    and ch: "key_state t \<noteq> key_state s"
  shows "(hs_state s = StateSig \<and> (\<exists>m. check_sig C p s = Inr m \<and> key_state t =
        (if codec_out_key (hs_codec s) = None
         then (Some (fst (keys_for_role (hs_initiator s) m)), Some (snd (keys_for_role (hs_initiator s) m)),
               hs_pending s)
         else (codec_in_key (hs_codec s), Some (snd (keys_for_role (hs_initiator s) m)), Some m))))
    \<or> (hs_state s = StateAck \<and> p = [] \<and> (\<exists>m. hs_pending s = Some m \<and> key_state t =
        (Some (fst (keys_for_role (hs_initiator s) m)), codec_out_key (hs_codec s), None)))"
proof (cases "hs_state s")
  case StateKex
  obtain r1 u where u: "receive_kex C p s = (r1, u)" by fastforce
  have "key_state t = key_state u" using d StateKex u
    by (cases r1) (auto simp: receive_handshake_def op_then_def set_state_def op_update_def op_return_def
        key_state_def)
  with kex_keeps_keys [OF u] ch show ?thesis by simp
next
  case StateSecondaryKex
  obtain r0 s1 where s1: "send_kex C draws s = (r0, s1)" by fastforce
  obtain r1 u where u: "receive_kex C p s1 = (r1, u)" by fastforce
  have "key_state t = key_state s1 \<or> key_state t = key_state u" using d StateSecondaryKex s1 u
    by (cases r0; cases r1) (auto simp: receive_handshake_def op_then_def set_state_def op_update_def
        op_return_def key_state_def)
  with kex_keeps_keys [OF u] send_kex_keeps_keys [OF s1] ch show ?thesis by auto
next
  case StateSig
  obtain r1 u where u: "receive_sig C p s = (r1, u)" by fastforce
  from receive_sig_result [OF ok u] show ?thesis
  proof (elim disjE exE conjE)
    fix e assume "u = s" "r1 = Inl e"
    with d StateSig u ch show ?thesis by (simp add: receive_handshake_def op_then_def)
  next
    fix m sec
    assume f: "r1 = Inr sec" "check_sig C p s = Inr m" "sec = (codec_out_key (hs_codec s) \<noteq> None)"
      "hs_pending u = (if sec then Some m else hs_pending s)"
      "codec_out_key (hs_codec u) = Some (snd (keys_for_role (hs_initiator s) m))"
      "codec_in_key (hs_codec u) = (if sec then codec_in_key (hs_codec s)
        else Some (fst (keys_for_role (hs_initiator s) m)))"
    have "key_state t = key_state u"
      using d StateSig f(1) u
      by (cases sec) (auto simp: receive_handshake_def op_then_def set_state_def op_update_def
          op_return_def key_state_def)
    with f StateSig show ?thesis by (auto simp: key_state_def)
  qed
next
  case StateAck
  obtain r1 u where u: "receive_ack p s = (r1, u)" by fastforce
  have "key_state t = key_state u"
    using d StateAck u by (cases r1) (auto simp: receive_handshake_def op_then_def set_state_def
        op_update_def op_return_def key_state_def)
  with u ch StateAck show ?thesis
    by (auto simp: receive_ack_def key_state_def codec_key_channel Let_def
        split: if_splits option.splits prod.splits)
qed

section \<open>Delivery between agreeing sessions\<close>

lemma agreed_delivery:
  assumes "hashes_ok C" "sessions_agree a b m"
  shows "\<forall>ms. (\<forall>(t, p) \<in> set ms. t \<le> SPTPS_HANDSHAKE \<and> length p \<le> 65535) \<longrightarrow>
      deliver_all C ms (hs_codec a) (hs_codec b) = map Inr ms
      \<and> deliver_all C ms (hs_codec b) (hs_codec a) = map Inr ms"
proof -
  have keyed: "fst (snd (codec_out (hs_codec a))) \<noteq> None" "fst (snd (codec_out (hs_codec b))) \<noteq> None"
    using assms(2) by (auto simp: sessions_agree_def codec_key_channel)
  have "deliver_all C ms x y = map Inr ms"
    if "\<forall>(t, p) \<in> set ms. t \<le> SPTPS_HANDSHAKE \<and> length p \<le> 65535"
      "codec_out x = codec_in y" "fst (snd (codec_out x)) \<noteq> None" for ms x y
    unfolding deliver_all_transfer
    by (rule codec.transfer_complete [OF that(2)])
      (use assms(1) that(1,3) in \<open>auto simp: channel_allows_def\<close>)
  with keyed assms(2) show ?thesis by (auto simp: sessions_agree_def)
qed

section \<open>Properties\<close>

text \<open>
  C27: every session that any sequence of sends, received bytes, forced renewals and queue
  operations reaches, with any outcome of the random generator, is consistent: an own exchange
  exactly with its ephemeral key, pending material exactly while waiting for the acknowledgement,
  both keys or none, both keys and no peer exchange between handshakes.
\<close>

theorem reachable_session_ok:
  assumes "curve_ok C" "session_reachable C s"
  shows "session_inv s"
  using assms reachable_inv by blast

theorem reachable_session_ok_witness:
  "\<exists>s. session_reachable demo_crypto s \<and> hs_state s = StateKex \<and> session_inv s"
proof -
  obtain s where s: "start_session demo_crypto True
      \<lparr>pk_expanded = [], pk_public = PublicKey []\<rparr> (PublicKey []) [] (TcpCodec tcp_new)
      \<lparr>eph_expanded = [], eph_public = []\<rparr> [] = Inr s" "hs_state s = StateKex"
    by (simp add: start_session_def send_kex_with_def queue_handshake_def session_new_def tcp_encode_def
        validate_ok kex_to_bytes_def sptps_lens kex_new_def copy_at_def Let_def)
  then have "session_reachable demo_crypto s" by (auto intro: session_reachable.Start)
  with s(2) reachable_session_ok [OF demo_curve_ok] show ?thesis by blast
qed

lemma changed_keys_signed:
  assumes "curve_ok C" "receive_datagram C draws d s = (r, t)" "key_state t \<noteq> key_state s"
  shows "(hs_state s = StateSig \<and> (\<exists>x y e z sig m. hs_my_kex s = Some x \<and> hs_his_kex s = Some y
        \<and> ed25519_verify C (hs_peer_key s) (signature_message (\<not> hs_initiator s) y x (hs_label s)) sig = Inr ()
        \<and> hs_ecdh s = Some e \<and> compute_shared C e (kex_public y) = Inr z
        \<and> m = session_material C s x y z
        \<and> codec_out_key (hs_codec t) = Some (snd (keys_for_role (hs_initiator s) m))
        \<and> (if codec_out_key (hs_codec s) = None
           then codec_in_key (hs_codec t) = Some (fst (keys_for_role (hs_initiator s) m))
           else codec_in_key (hs_codec t) = codec_in_key (hs_codec s) \<and> hs_pending t = Some m)))
    \<or> (hs_state s = StateAck \<and> (\<exists>m. hs_pending s = Some m
        \<and> codec_in_key (hs_codec t) = Some (fst (keys_for_role (hs_initiator s) m))
        \<and> codec_out_key (hs_codec t) = codec_out_key (hs_codec s)))"
proof -
  obtain rr c where c: "codec_decode C d (hs_codec s) = (rr, c)" by fastforce
  have q: "quiet s (s\<lparr>hs_codec := c\<rparr>)" using decode_keys [OF c] by (intro quietI) simp_all
  have ks: "key_state (s\<lparr>hs_codec := c\<rparr>) = key_state s" using q by (rule quiet_key_state)
  with assms(2,3) c obtain rec where rec: "rr = Inr rec"
      "receive_handshake C draws (rec_payload rec) (s\<lparr>hs_codec := c\<rparr>) = (r, t)"
    by (auto simp: receive_datagram_def Let_def split: sum.splits if_splits)
  have sm: "session_material C (s\<lparr>hs_codec := c\<rparr>) x y z = session_material C s x y z" for x y z
    by (simp add: session_material_def)
  from handshake_keys [OF assms(1) rec(2)] assms(3) ks decode_keys [OF c] show ?thesis
    by (auto simp: check_sig_Inr key_state_def sm split: if_splits)
qed


definition demo_session :: handshake_session where
  "demo_session = session_new True \<lparr>pk_expanded = [], pk_public = PublicKey []\<rparr> (PublicKey []) []
     (TcpCodec (tcp_with_keys (SptpsKey [4]) (SptpsKey [5])))"

lemma demo_received:
  assumes "t \<le> SPTPS_HANDSHAKE" "length p \<le> 65535"
  shows "\<exists>c q. codec_decode demo_crypto (channel_bytes demo_crypto (False, Some (SptpsKey [4]), 0) t p)
      (hs_codec demo_session) = (Inr \<lparr>rec_seqno = q, rec_type = t, rec_payload = p\<rparr>, c)
    \<and> codec_in_key c = Some (SptpsKey [4]) \<and> codec_out_key c = Some (SptpsKey [5])"
  using codec_decode_bytes [of demo_crypto "hs_codec demo_session" t p] demo_hashes_ok assms
    decode_keys [of demo_crypto _ "hs_codec demo_session"]
  by (fastforce simp: demo_session_def session_new_def tcp_with_keys_def channel_allows_def
      simp del: channel_bytes.simps)


text \<open>
  Application data a session hands out was protected under its incoming key, with the type
  and payload handed out; a session without keys hands out none.
\<close>

theorem application_data_authentic:
  assumes "receive_datagram C draws d s = (Inr events, t)" "ApplicationRecord ty p \<in> set events"
  shows "\<exists>k q. codec_in_key (hs_codec s) = Some k \<and> ty < SPTPS_HANDSHAKE
    \<and> d = channel_bytes C (fst (codec_in (hs_codec s)), Some k, q) ty p
    \<and> events = [ApplicationRecord ty p]"
proof -
  have "ApplicationRecord ty p \<notin> set ev" if "receive_handshake C dr pl u = (Inr ev, v)" for dr pl u v ev
    using that by (auto simp: receive_handshake_def op_then_def set_state_def op_return_def op_update_def
        split: sptps_handshake_state.splits prod.splits sum.splits if_splits)
  with assms obtain rec c where rec: "codec_decode C d (hs_codec s) = (Inr rec, c)"
    "rec_type rec \<noteq> SPTPS_HANDSHAKE" "rec_type rec < SPTPS_HANDSHAKE"
    "events = [ApplicationRecord (rec_type rec) (rec_payload rec)]"
    by (auto simp: receive_datagram_def Let_def split: prod.splits sum.splits if_splits)
  from decode_authentic [OF rec(1)] rec assms(2) show ?thesis
    by (cases "codec_in_key (hs_codec s)") (auto simp del: channel_bytes.simps)
qed

theorem application_data_authentic_witness:
  "\<exists>k q. codec_in_key (hs_codec demo_session) = Some k
    \<and> channel_bytes demo_crypto (False, Some (SptpsKey [4]), 0) 3 [9] = channel_bytes demo_crypto (False, Some k, q) 3 [9]"
proof -
  define d where "d = channel_bytes demo_crypto (False, Some (SptpsKey [4]), 0) 3 [9]"
  obtain c q where "codec_decode demo_crypto d (hs_codec demo_session)
      = (Inr \<lparr>rec_seqno = q, rec_type = 3, rec_payload = [9]\<rparr>, c)"
    using demo_received [of 3 "[9]"] by (auto simp: d_def SPTPS_HANDSHAKE_def simp del: channel_bytes.simps)
  then have "receive_datagram demo_crypto (Inl [], Inl []) d demo_session
      = (Inr [ApplicationRecord 3 [9]], demo_session\<lparr>hs_codec := c\<rparr>)"
    by (simp add: receive_datagram_def SPTPS_HANDSHAKE_def)
  from application_data_authentic [OF this, of 3 "[9]"] show ?thesis
    by (auto simp: d_def demo_session_def session_new_def tcp_with_keys_def simp del: channel_bytes.simps)
qed

text \<open>
  C18: two sessions with each other's public keys and the same label, started over datagrams or
  over TCP, complete the handshake in four messages: both report completion, what one sends
  under is what the other receives under, with the keys derived from the shared secret and both
  nonces, and from then on every stream of records is delivered in both directions.
\<close>

theorem handshake_agrees:
  assumes "hashes_ok C" "curve_ok C" "private_key_ok C ka" "private_key_ok C kb"
    and "length na = 32" "length nb = 32"
    and "(ca, cb) \<in> {(DatagramCodec (datagram_new n), DatagramCodec (datagram_new n')), (TcpCodec tcp_new, TcpCodec tcp_new)}"
    and "start_session C True ka (pk_public kb) l ca (ephemeral_from_seed C sa) na = Inr a"
    and "start_session C False kb (pk_public ka) l cb (ephemeral_from_seed C sb) nb = Inr b"
  shows "\<exists>a' b' z. handshake_run C draws a b
        = ([Inr [], Inr [], Inr [HandshakeComplete], Inr [HandshakeComplete]], a', b')
    \<and> compute_shared C (ephemeral_from_seed C sa) (eph_public (ephemeral_from_seed C sb)) = Inr z
    \<and> sessions_agree a' b' (material_derive C z na nb l)
    \<and> (\<forall>ms. (\<forall>(t, p) \<in> set ms. t \<le> SPTPS_HANDSHAKE \<and> length p \<le> 65535) \<longrightarrow>
        deliver_all C ms (hs_codec a') (hs_codec b') = map Inr ms
        \<and> deliver_all C ms (hs_codec b') (hs_codec a') = map Inr ms)"
proof -
  from assms(7) have cod: "codec_out ca = codec_in cb" "codec_out cb = codec_in ca"
    "codec_out_key ca = None" "codec_out_key cb = None"
    by (auto simp: datagram_new_def tcp_new_def replay_window_new_def)
  from compute_shared_agree(2) [OF assms(1,2)] obtain z where
    z: "compute_shared C (ephemeral_from_seed C sa) (eph_public (ephemeral_from_seed C sb)) = Inr z" by blast
  from first_handshake [OF assms(1-6) cod z, of l draws] assms(8,9) obtain a' b' where
    run: "handshake_run C draws a b
        = ([Inr [], Inr [], Inr [HandshakeComplete], Inr [HandshakeComplete]], a', b')"
    and ag: "sessions_agree a' b' (material_derive C z na nb l)" by auto
  from agreed_delivery [OF assms(1) ag] run ag z show ?thesis by blast
qed

text \<open>
  C23: two matching established sessions renew their keys whichever of the two asks for it: six
  messages later both report completion, the keys come from the new exchanges, and every stream
  of records is delivered in both directions under them.
\<close>

theorem rekey_agrees:
  assumes "hashes_ok C" "curve_ok C" "matched C a b" "sessions_agree a b m"
    and "length na = 32" "length nb = 32"
  shows "\<exists>a' b' z. rekey_run C by_initiator
        (if by_initiator then (Inr sa, Inr na) else (Inr sb, Inr nb))
        (if by_initiator then (Inr sb, Inr nb) else (Inr sa, Inr na)) a b
      = (Inr (), [Inr [], Inr [], Inr [], Inr [], Inr [HandshakeComplete], Inr [HandshakeComplete]], a', b')
    \<and> compute_shared C (ephemeral_from_seed C sa) (eph_public (ephemeral_from_seed C sb)) = Inr z
    \<and> sessions_agree a' b' (material_derive C z na nb (hs_label a)) \<and> matched C a' b'
    \<and> (\<forall>ms. (\<forall>(t, p) \<in> set ms. t \<le> SPTPS_HANDSHAKE \<and> length p \<le> 65535) \<longrightarrow>
        deliver_all C ms (hs_codec a') (hs_codec b') = map Inr ms
        \<and> deliver_all C ms (hs_codec b') (hs_codec a') = map Inr ms)"
proof -
  from compute_shared_agree(2) [OF assms(1,2)] obtain z where
    z: "compute_shared C (ephemeral_from_seed C sa) (eph_public (ephemeral_from_seed C sb)) = Inr z" by blast
  from rekey_agrees_run [OF assms z] obtain a' b' where
    "rekey_run C by_initiator
        (if by_initiator then (Inr sa, Inr na) else (Inr sb, Inr nb))
        (if by_initiator then (Inr sb, Inr nb) else (Inr sa, Inr na)) a b
      = (Inr (), [Inr [], Inr [], Inr [], Inr [], Inr [HandshakeComplete], Inr [HandshakeComplete]], a', b')"
    "sessions_agree a' b' (material_derive C z na nb (hs_label a))" "matched C a' b'" by blast
  with agreed_delivery [OF assms(1) this(2)] z show ?thesis by blast
qed

text \<open>Two concrete peers over TCP.\<close>

definition demo_key :: "byte \<Rightarrow> ed25519_private_key" where
  "demo_key b = private_from_seed demo_crypto [b]"

lemma demo_key_ok: "private_key_ok demo_crypto (demo_key b)"
  unfolding demo_key_def by (rule private_from_seed_ok [OF demo_hashes_ok demo_curve_ok])

lemma demo_start:
  "length n = 32 \<Longrightarrow> \<exists>s. start_session demo_crypto i (demo_key x) (pk_public (demo_key y)) [7] (TcpCodec tcp_new)
      (ephemeral_from_seed demo_crypto sd) n = Inr s
    \<and> hs_initiator s = i \<and> hs_label s = [7] \<and> hs_my_key s = demo_key x \<and> hs_peer_key s = pk_public (demo_key y)"
  using session_started [OF demo_hashes_ok demo_curve_ok, of n i "demo_key x" "pk_public (demo_key y)" "[7]"
      "TcpCodec tcp_new" sd]
  by (auto simp: session_new_def simp del: channel_bytes.simps)

theorem handshake_agrees_witness:
  "\<exists>a b a' b'. start_session demo_crypto True (demo_key 1) (pk_public (demo_key 2)) [7] (TcpCodec tcp_new)
      (ephemeral_from_seed demo_crypto [3]) (replicate 32 5) = Inr a
    \<and> start_session demo_crypto False (demo_key 2) (pk_public (demo_key 1)) [7] (TcpCodec tcp_new)
      (ephemeral_from_seed demo_crypto [4]) (replicate 32 6) = Inr b
    \<and> handshake_run demo_crypto (Inl [], Inl []) a b
      = ([Inr [], Inr [], Inr [HandshakeComplete], Inr [HandshakeComplete]], a', b')
    \<and> deliver_all demo_crypto [(1, [2])] (hs_codec a') (hs_codec b') = [Inr (1, [2])]"
proof -
  have l: "length (replicate 32 (5 :: byte)) = 32" "length (replicate 32 (6 :: byte)) = 32" by simp_all
  obtain a where a: "start_session demo_crypto True (demo_key 1) (pk_public (demo_key 2)) [7] (TcpCodec tcp_new)
      (ephemeral_from_seed demo_crypto [3]) (replicate 32 5) = Inr a" using demo_start [OF l(1)] by blast
  obtain b where b: "start_session demo_crypto False (demo_key 2) (pk_public (demo_key 1)) [7] (TcpCodec tcp_new)
      (ephemeral_from_seed demo_crypto [4]) (replicate 32 6) = Inr b" using demo_start [OF l(2)] by blast
  from handshake_agrees [OF demo_hashes_ok demo_curve_ok demo_key_ok demo_key_ok l _ a b, where draws = "(Inl [], Inl [])"]
  obtain a' b' where "handshake_run demo_crypto (Inl [], Inl []) a b
      = ([Inr [], Inr [], Inr [HandshakeComplete], Inr [HandshakeComplete]], a', b')"
    and "\<forall>ms. (\<forall>(t, p) \<in> set ms. t \<le> SPTPS_HANDSHAKE \<and> length p \<le> 65535) \<longrightarrow>
        deliver_all demo_crypto ms (hs_codec a') (hs_codec b') = map Inr ms" by blast
  moreover from this(2) [rule_format, of "[(1, [2])]"]
  have "deliver_all demo_crypto [(1, [2])] (hs_codec a') (hs_codec b') = [Inr (1, [2])]"
    by (simp add: SPTPS_HANDSHAKE_def del: deliver_all.simps)
  ultimately show ?thesis using a b by blast
qed

theorem rekey_agrees_witness:
  "\<exists>a b m a' b'. sessions_agree a b m
    \<and> rekey_run demo_crypto False (Inr [9], Inr (replicate 32 2)) (Inr [8], Inr (replicate 32 1)) a b
      = (Inr (), [Inr [], Inr [], Inr [], Inr [], Inr [HandshakeComplete], Inr [HandshakeComplete]], a', b')
    \<and> matched demo_crypto a' b'"
proof -
  have l: "length (replicate 32 (5 :: byte)) = 32" "length (replicate 32 (6 :: byte)) = 32"
    "length (replicate 32 (1 :: byte)) = 32" "length (replicate 32 (2 :: byte)) = 32" by simp_all
  obtain z where z: "compute_shared demo_crypto (ephemeral_from_seed demo_crypto [3])
      (eph_public (ephemeral_from_seed demo_crypto [4])) = Inr z"
    using compute_shared_agree(2) [OF demo_hashes_ok demo_curve_ok] by blast
  have cod: "codec_out (TcpCodec tcp_new) = codec_in (TcpCodec tcp_new)" "codec_out_key (TcpCodec tcp_new) = None"
    by (simp_all add: tcp_new_def)
  from first_handshake [OF demo_hashes_ok demo_curve_ok demo_key_ok demo_key_ok l(1,2) cod(1,1,2,2) z,
      where l = "[7]" and draws = "(Inl [], Inl [])"]
  obtain a0 b0 a b m where s: "start_session demo_crypto True (demo_key 1) (pk_public (demo_key 2)) [7] (TcpCodec tcp_new)
      (ephemeral_from_seed demo_crypto [3]) (replicate 32 5) = Inr a0"
    "start_session demo_crypto False (demo_key 2) (pk_public (demo_key 1)) [7] (TcpCodec tcp_new)
      (ephemeral_from_seed demo_crypto [4]) (replicate 32 6) = Inr b0"
    and ag: "sessions_agree a b m" "same_peers a a0" "same_peers b b0"
    by blast
  from demo_start [OF l(1), of True 1 2 "[3]"] demo_start [OF l(2), of False 2 1 "[4]"] s ag demo_key_ok
  have "matched demo_crypto a b" by (auto simp: matched_def same_peers_def)
  from rekey_agrees [OF demo_hashes_ok demo_curve_ok this ag(1) l(3,4), of False "[8]" "[9]"] ag(1)
  show ?thesis by auto
qed

end
