(* ===== verification/Config.thy ===== *)
theory Config
  imports Rust_Lines Utils "HOL-Library.Product_Lexorder"
begin

text \<open>
  \<^verbatim>\<open>tinc-core/src/config.rs\<close>: configuration lines and files, the ordered configuration tree, its
  lookups, and the loading of the server's and the hosts' files.  The file system is a parameter:
  a record of the two operations the source calls.  File names are taken to be valid UTF-8 unless
  \<open>fs_to_str\<close> says otherwise.
\<close>

section \<open>Entries\<close>

record config_source =
  cs_file :: "string option"
  cs_line :: int

record config =
  cf_variable :: string
  cf_value :: string
  cf_source :: config_source

datatype config_parse_error = MissingValue string "string option" int

datatype config_value_error = BoolExpected string | IntegerExpected string

datatype 'e config_load_error = ConfigIo string 'e | ConfigParse config_parse_error

definition config_new :: "string \<Rightarrow> string \<Rightarrow> config_source \<Rightarrow> config" where
  "config_new variable v source = \<lparr>cf_variable = variable, cf_value = v, cf_source = source\<rparr>"

definition source_file :: "string \<Rightarrow> int \<Rightarrow> config_source" where
  "source_file file line = \<lparr>cs_file = Some file, cs_line = line\<rparr>"

definition source_command_line :: "int \<Rightarrow> config_source" where
  "source_command_line line = \<lparr>cs_file = None, cs_line = line\<rparr>"

text \<open>\<^verbatim>\<open>to_ascii_lowercase\<close> and \<^verbatim>\<open>eq_ignore_ascii_case\<close>.\<close>

definition ascii_lower :: "char \<Rightarrow> char" where
  "ascii_lower c = (if 65 \<le> code c \<and> code c \<le> 90 then char_of (code c + 32) else c)"

definition eq_ignore_case :: "string \<Rightarrow> string \<Rightarrow> bool" where
  "eq_ignore_case a b \<longleftrightarrow> map ascii_lower a = map ascii_lower b"

definition config_as_bool :: "config \<Rightarrow> config_value_error + bool" where
  "config_as_bool c =
     (if eq_ignore_case (cf_value c) ''yes'' then Inr True
      else if eq_ignore_case (cf_value c) ''no'' then Inr False
      else Inl (BoolExpected (cf_variable c)))"

section \<open>Integers\<close>

definition i64_clamp :: "int \<Rightarrow> int" where
  "i64_clamp x = max (- (2 ^ 63)) (min x i64_max)"

text \<open>The digit loop, with saturating \<open>i64\<close> arithmetic: the number and the rest.\<close>

fun c_digits :: "int \<Rightarrow> string \<Rightarrow> int \<times> string" where
  "c_digits number [] = (number, [])"
| "c_digits number (c # s) =
     (if is_ascii_digit c
      then c_digits (i64_clamp (i64_clamp (number * 10) + int (code c - 48))) s
      else (number, c # s))"

definition parse_c_i32_prefix :: "string \<Rightarrow> int option" where
  "parse_c_i32_prefix input =
     (let s = dropWhile is_ascii_whitespace input;
          (negative, ds) = (case s of
             c # r \<Rightarrow> if c = CHR ''-'' then (True, r) else if c = CHR ''+'' then (False, r) else (False, s)
           | [] \<Rightarrow> (False, []));
          (number, rest) = c_digits 0 ds
      in if rest = ds then None
         else let number = (if negative then - number else number)
              in Some (max i32_min (min number i32_max)))"

definition config_as_i32 :: "config \<Rightarrow> config_value_error + int" where
  "config_as_i32 c = ok_or (IntegerExpected (cf_variable c)) (parse_c_i32_prefix (cf_value c))"

section \<open>Lines and files\<close>

definition is_blank :: "char \<Rightarrow> bool" where
  "is_blank c \<longleftrightarrow> c = CHR 0x09 \<or> c = CHR '' ''"

definition trim_end_blank :: "string \<Rightarrow> string" where
  "trim_end_blank s = rev (dropWhile is_blank (rev s))"

definition parse_config_line :: "string \<Rightarrow> string option \<Rightarrow> int \<Rightarrow> config_parse_error + config" where
  "parse_config_line line file line_number =
     (let trimmed = trim_end_blank line;
          in_name = (\<lambda>c. \<not> (is_blank c \<or> c = CHR ''=''));
          variable = takeWhile in_name trimmed;
          v = dropWhile is_blank (dropWhile in_name trimmed);
          v = (case v of c # rest \<Rightarrow> if c = CHR ''='' then dropWhile is_blank rest else v | [] \<Rightarrow> [])
      in if v = [] then Inl (MissingValue variable file line_number)
         else Inr (config_new variable v
           (case file of Some f \<Rightarrow> source_file f line_number | None \<Rightarrow> source_command_line line_number)))"

definition starts_with :: "string \<Rightarrow> string \<Rightarrow> bool" where
  "starts_with p s \<longleftrightarrow> take (length p) s = p"

text \<open>The line loop of \<^verbatim>\<open>parse_config_file\<close>: \<open>index\<close> counts the lines read.\<close>

fun parse_config_lines :: "string \<Rightarrow> nat \<Rightarrow> bool \<Rightarrow> string list \<Rightarrow> config_parse_error + config list" where
  "parse_config_lines file index ignore_pem [] = Inr []"
| "parse_config_lines file index ignore_pem (raw # lines) =
     (let line_number = min (int (index + 1)) i32_max; line = strip_cr raw
      in if line = [] \<or> starts_with ''#'' line then parse_config_lines file (index + 1) ignore_pem lines
         else if ignore_pem
         then parse_config_lines file (index + 1) (\<not> starts_with ''-----END'' line) lines
         else if starts_with ''-----BEGIN'' line
         then parse_config_lines file (index + 1) True lines
         else and_then (parse_config_line line (Some file) line_number) (\<lambda>c.
              map_ok ((#) c) (parse_config_lines file (index + 1) False lines)))"

definition parse_config_file :: "string \<Rightarrow> string \<Rightarrow> config_parse_error + config list" where
  "parse_config_file contents file = parse_config_lines file 0 False (rust_lines contents)"

section \<open>The tree\<close>

definition compare_case_insensitive :: "string \<Rightarrow> string \<Rightarrow> ordering" where
  "compare_case_insensitive a b = cmp (map ascii_lower a) (map ascii_lower b)"

definition compare_config :: "config \<Rightarrow> config \<Rightarrow> ordering" where
  "compare_config a b =
     (let result = compare_case_insensitive (cf_variable a) (cf_variable b)
      in if result \<noteq> Equal then result
         else let result = (case (cs_file (cf_source a), cs_file (cf_source b)) of
                  (None, Some _) \<Rightarrow> Less | (Some _, None) \<Rightarrow> Greater | _ \<Rightarrow> Equal)
              in if result \<noteq> Equal then result
                 else let result = cmp (cs_line (cf_source a)) (cs_line (cf_source b))
                      in if result \<noteq> Equal then result
                         else (case (cs_file (cf_source a), cs_file (cf_source b)) of
                             (Some x, Some y) \<Rightarrow> cmp x y | _ \<Rightarrow> Equal))"

type_synonym config_tree = "config list"

definition config_add :: "config \<Rightarrow> config_tree \<Rightarrow> config_tree" where
  "config_add c t = sort_by compare_config (t @ [c])"

definition config_lookup :: "string \<Rightarrow> config_tree \<Rightarrow> config option" where
  "config_lookup variable t = find (\<lambda>c. eq_ignore_case (cf_variable c) variable) t"

definition config_lookup_all :: "string \<Rightarrow> config_tree \<Rightarrow> config list" where
  "config_lookup_all variable t = filter (\<lambda>c. eq_ignore_case (cf_variable c) variable) t"

definition extend_from_file :: "string \<Rightarrow> string \<Rightarrow> config_tree \<Rightarrow> config_parse_error + config_tree" where
  "extend_from_file contents file t =
     map_ok (\<lambda>parsed. fold config_add parsed t) (parse_config_file contents file)"

text \<open>The variable a command-line option sets in the server's or a host's tree, if any.\<close>

definition option_variable :: "string option \<Rightarrow> config \<Rightarrow> string option" where
  "option_variable prefix c =
     (case prefix of
        Some p \<Rightarrow> Option.bind (strip_prefix p (cf_variable c)) (strip_prefix ''.'')
      | None \<Rightarrow> if CHR ''.'' \<in> set (cf_variable c) then None else Some (cf_variable c))"

definition select_option :: "string option \<Rightarrow> config \<Rightarrow> config option" where
  "select_option prefix c =
     map_option (\<lambda>v. config_new v (cf_value c) (source_command_line (cs_line (cf_source c))))
       (option_variable prefix c)"

definition apply_command_line_options :: "config list \<Rightarrow> string option \<Rightarrow> config_tree \<Rightarrow> config_tree" where
  "apply_command_line_options options prefix t =
     fold config_add (rev (List.map_filter (select_option prefix) options)) t"

section \<open>Loading\<close>

text \<open>
  The file system: contents of a file, names in a directory (each entry may fail), whether an
  error means that the directory does not exist, and the text of a name if it is valid.
\<close>

record 'e config_fs =
  fs_read :: "string \<Rightarrow> 'e + string"
  fs_read_dir :: "string \<Rightarrow> 'e + ('e + string) list"
  fs_not_found :: "'e \<Rightarrow> bool"
  fs_to_str :: "string \<Rightarrow> string option"

definition path_join :: "string \<Rightarrow> string \<Rightarrow> string" where
  "path_join base p =
     (if p \<noteq> [] \<and> hd p = CHR ''/'' then p
      else if base = [] \<or> last base = CHR ''/'' then base @ p
      else base @ ''/'' @ p)"

text \<open>\<^verbatim>\<open>Path::extension\<close>: after the last dot, unless the dot starts the name.\<close>

definition file_extension :: "string \<Rightarrow> string option" where
  "file_extension name =
     (let ext = rev (takeWhile (\<lambda>c. c \<noteq> CHR ''.'') (rev name));
          stem = take (length name - length ext - 1) name
      in if length ext = length name \<or> stem = [] then None else Some ext)"

definition extend_from_path :: "'e config_fs \<Rightarrow> string \<Rightarrow> config_tree \<Rightarrow> 'e config_load_error + config_tree" where
  "extend_from_path fs path t =
     and_then (map_err (ConfigIo path) (fs_read fs path)) (\<lambda>contents.
       map_err ConfigParse (extend_from_file contents path t))"

text \<open>The first failing entry ends the loop that collects them.\<close>

fun collect_entries :: "string \<Rightarrow> ('e + string) list \<Rightarrow> 'e config_load_error + string list" where
  "collect_entries dir [] = Inr []"
| "collect_entries dir (e # es) =
     and_then (map_err (ConfigIo dir) e) (\<lambda>name. map_ok ((#) name) (collect_entries dir es))"

fun extend_from_paths :: "'e config_fs \<Rightarrow> string list \<Rightarrow> config_tree \<Rightarrow> 'e config_load_error + config_tree" where
  "extend_from_paths fs [] t = Inr t"
| "extend_from_paths fs (p # ps) t =
     and_then (extend_from_path fs p t) (extend_from_paths fs ps)"

definition extend_from_conf_dir :: "'e config_fs \<Rightarrow> string \<Rightarrow> config_tree \<Rightarrow> 'e config_load_error + config_tree" where
  "extend_from_conf_dir fs dir t =
     (case fs_read_dir fs dir of
        Inl e \<Rightarrow> if fs_not_found fs e then Inr t else Inl (ConfigIo dir e)
      | Inr entries \<Rightarrow>
          and_then (collect_entries dir entries) (\<lambda>names.
            let files = filter (\<lambda>n. file_extension n = Some ''conf'') names
            in extend_from_paths fs (map (path_join dir) (sort_by cmp files)) t))"

definition read_server_config :: "'e config_fs \<Rightarrow> string \<Rightarrow> config list \<Rightarrow> config_tree
    \<Rightarrow> 'e config_load_error + config_tree" where
  "read_server_config fs confbase options t =
     and_then (extend_from_path fs (path_join confbase ''tinc.conf'')
                 (apply_command_line_options options None t))
       (extend_from_conf_dir fs (path_join confbase ''conf.d''))"

definition read_host_config :: "'e config_fs \<Rightarrow> string \<Rightarrow> string \<Rightarrow> config list \<Rightarrow> config_tree
    \<Rightarrow> 'e config_load_error + config_tree" where
  "read_host_config fs confbase name options t =
     extend_from_path fs (path_join (path_join confbase ''hosts'') name)
       (apply_command_line_options options (Some name) t)"

fun read_hosts :: "'e config_fs \<Rightarrow> string \<Rightarrow> config list \<Rightarrow> string list
    \<Rightarrow> 'e config_load_error + (string \<times> config_tree) list" where
  "read_hosts fs confbase options [] = Inr []"
| "read_hosts fs confbase options (name # names) =
     and_then (read_host_config fs confbase name options []) (\<lambda>tree.
       map_ok ((#) (name, tree)) (read_hosts fs confbase options names))"

definition read_all_host_configs :: "'e config_fs \<Rightarrow> string \<Rightarrow> config list
    \<Rightarrow> 'e config_load_error + (string \<times> config_tree) list" where
  "read_all_host_configs fs confbase options =
     (let hosts_dir = path_join confbase ''hosts''
      in and_then (map_err (ConfigIo hosts_dir) (fs_read_dir fs hosts_dir)) (\<lambda>entries.
         and_then (collect_entries hosts_dir entries) (\<lambda>names.
           read_hosts fs confbase options
             (sort_by cmp (filter check_id (List.map_filter (fs_to_str fs) names))))))"

end
