(* ===== verification/Config_Props.thy ===== *)
theory Config_Props
  imports Config
begin

text \<open>
  The configuration tree is sorted, so a lookup prefers the command line over files and earlier
  lines over later ones; integers are read exactly up to clamping; a written file is read back.
\<close>

section \<open>The order of entries\<close>

definition config_key :: "config \<Rightarrow> string \<times> bool \<times> int \<times> string" where
  "config_key c = (map ascii_lower (cf_variable c), cs_file (cf_source c) \<noteq> None,
     cs_line (cf_source c), case cs_file (cf_source c) of Some f \<Rightarrow> f | None \<Rightarrow> [])"

lemma cmp_prod: "cmp (a, b) (c, d) = then_with (cmp a c) (cmp b d)"
  by (auto simp: cmp_def then_with_def less_prod_def)

lemma compare_config_key: "compare_config a b = cmp (config_key a) (config_key b)"
proof -
  have step: "(if r \<noteq> Equal then r else s) = then_with r s" for r s by (cases r) simp_all
  show ?thesis
    unfolding compare_config_def config_key_def cmp_prod Let_def step compare_case_insensitive_def
    by (cases "cs_file (cf_source a)"; cases "cs_file (cf_source b)")
      (simp_all add: cmp_def [of False True] cmp_def [of True False])
qed

interpretation config_ord: comparator compare_config "\<lambda>_. True"
  by (rule comparator_key) (rule compare_config_key)

lemma config_add_sorted: "sorted_by compare_config (config_add c t)"
  unfolding config_add_def by (rule config_ord.sorted_sort_by) simp

lemma config_add_set [simp]: "set (config_add c t) = insert c (set t)"
  by (simp add: config_add_def)

lemma config_add_mset [simp]: "mset (config_add c t) = add_mset c (mset t)"
  by (simp add: config_add_def)

lemma fold_add:
  "sorted_by compare_config t \<Longrightarrow> sorted_by compare_config (fold config_add cs t)
    \<and> mset (fold config_add cs t) = mset cs + mset t"
  by (induction cs arbitrary: t) (simp_all add: config_add_sorted)

section \<open>Integers\<close>

text \<open>The mathematical value of a digit string after \<open>n\<close>.\<close>

definition digits_value :: "int \<Rightarrow> string \<Rightarrow> int" where
  "digits_value n ds = foldl (\<lambda>v c. v * 10 + int (code c - 48)) n ds"

lemma digits_value_mono: "0 \<le> n \<Longrightarrow> n \<le> digits_value n ds"
proof (induction ds arbitrary: n)
  case (Cons c ds)
  have "n \<le> n * 10 + int (code c - 48)" using Cons.prems by simp
  with Cons.IH [of "n * 10 + int (code c - 48)"] Cons.prems show ?case by (simp add: digits_value_def)
qed (simp add: digits_value_def)

lemma c_digits_span:
  "c_digits n s = (fst (c_digits n (takeWhile is_ascii_digit s)), dropWhile is_ascii_digit s)"
proof (induction s arbitrary: n)
  case (Cons c s)
  show ?case using Cons.IH [of "i64_clamp (i64_clamp (n * 10) + int (code c - 48))"] by simp
qed simp

lemma c_digits_value:
  "\<forall>c \<in> set ds. is_ascii_digit c \<Longrightarrow> 0 \<le> n \<Longrightarrow> n \<le> i64_max \<Longrightarrow>
    fst (c_digits n ds) = min (digits_value n ds) i64_max"
proof (induction ds arbitrary: n)
  case (Cons c ds)
  define d where "d = int (code c - 48)"
  have d: "0 \<le> d" by (simp add: d_def)
  have step: "i64_clamp (i64_clamp (n * 10) + d) = min (n * 10 + d) i64_max"
    using Cons.prems d by (auto simp: i64_clamp_def i64_max_def)
  have "fst (c_digits n (c # ds)) = fst (c_digits (min (n * 10 + d) i64_max) ds)"
    using Cons.prems step by (simp add: d_def)
  also have "\<dots> = min (digits_value (min (n * 10 + d) i64_max) ds) i64_max"
    using Cons.prems d by (intro Cons.IH) (auto simp: i64_max_def)
  also have "\<dots> = min (digits_value (n * 10 + d) ds) i64_max"
  proof (cases "n * 10 + d \<le> i64_max")
    case False
    have "i64_max \<le> digits_value i64_max ds" "n * 10 + d \<le> digits_value (n * 10 + d) ds"
      using digits_value_mono [of i64_max ds] digits_value_mono [of "n * 10 + d" ds] Cons.prems d
      by (simp_all add: i64_max_def)
    with False show ?thesis by simp
  qed simp
  finally show ?case by (simp add: digits_value_def d_def)
qed (simp add: digits_value_def)

section \<open>Lines\<close>

definition config_word :: "string \<Rightarrow> bool" where
  "config_word s \<longleftrightarrow> (\<forall>c \<in> set s. \<not> is_blank c \<and> c \<noteq> CHR ''='' \<and> c \<noteq> LF \<and> c \<noteq> CR)"

definition config_text :: "string \<Rightarrow> bool" where
  "config_text s \<longleftrightarrow> s \<noteq> [] \<and> \<not> is_blank (hd s) \<and> \<not> is_blank (last s) \<and> LF \<notin> set s \<and> CR \<notin> set s"

lemma parse_written_line:
  assumes v: "config_word v" and x: "config_text x"
  shows "parse_config_line (v @ '' = '' @ x) (Some f) n = Inr (config_new v x (source_file f n))"
proof -
  have l: "trim_end_blank (v @ '' = '' @ x) = v @ '' = '' @ x"
    using x by (cases x rule: rev_cases) (simp_all add: trim_end_blank_def config_text_def)
  have name: "takeWhile (\<lambda>c. \<not> (is_blank c \<or> c = CHR ''='')) (v @ '' = '' @ x) = v"
    "dropWhile (\<lambda>c. \<not> (is_blank c \<or> c = CHR ''='')) (v @ '' = '' @ x) = '' = '' @ x"
    using v by (simp_all add: config_word_def takeWhile_append dropWhile_append is_blank_def)
  have "dropWhile is_blank x = x" using x by (cases x) (simp_all add: config_text_def)
  then show ?thesis
    using x unfolding parse_config_line_def Let_def l name
    by (simp add: is_blank_def config_text_def)
qed

section \<open>Files\<close>

text \<open>What a configuration file is made of, its lines, and the settings it holds.\<close>

datatype config_item = Setting string string | Comment string | Blank | PemBlock string "string list"

fun item_lines :: "config_item \<Rightarrow> string list" where
  "item_lines (Setting v x) = [v @ '' = '' @ x]"
| "item_lines (Comment s) = [''#'' @ s]"
| "item_lines Blank = [[]]"
| "item_lines (PemBlock label body) = (''-----BEGIN'' @ label) # body @ [''-----END'' @ label]"

fun item_ok :: "config_item \<Rightarrow> bool" where
  "item_ok (Setting v x) \<longleftrightarrow> config_word v \<and> config_text x \<and> v \<noteq> [] \<and> hd v \<noteq> CHR ''#'' \<and> hd v \<noteq> CHR ''-''"
| "item_ok (Comment s) \<longleftrightarrow> LF \<notin> set s \<and> CR \<notin> set s"
| "item_ok Blank \<longleftrightarrow> True"
| "item_ok (PemBlock label body) \<longleftrightarrow> LF \<notin> set label \<and> CR \<notin> set label
     \<and> (\<forall>l \<in> set body. LF \<notin> set l \<and> CR \<notin> set l \<and> \<not> starts_with ''-----END'' l)"

fun item_settings :: "string \<Rightarrow> nat \<Rightarrow> config_item \<Rightarrow> config list" where
  "item_settings file index (Setting v x) =
     [config_new v x (source_file file (min (int (index + 1)) i32_max))]"
| "item_settings file index _ = []"

fun file_settings :: "string \<Rightarrow> nat \<Rightarrow> config_item list \<Rightarrow> config list" where
  "file_settings file index [] = []"
| "file_settings file index (i # is) =
     item_settings file index i @ file_settings file (index + length (item_lines i)) is"

definition config_file_text :: "config_item list \<Rightarrow> string" where
  "config_file_text items = concat (map (\<lambda>l. l @ [LF]) (concat (map item_lines items)))"

lemma starts_with_append [simp]: "starts_with p (p @ s)"
  by (simp add: starts_with_def)

lemma pem_skipped:
  assumes "\<forall>l \<in> set body. CR \<notin> set l \<and> \<not> starts_with ''-----END'' l" "CR \<notin> set label"
  shows "parse_config_lines f k True (body @ (''-----END'' @ label) # rest)
    = parse_config_lines f (k + length body + 1) False rest"
  using assms
proof (induction body arbitrary: k)
  case Nil
  have "strip_cr (''-----END'' @ label) = ''-----END'' @ label"
    using Nil(2) by (intro strip_cr_id) (simp add: CR_def)
  then show ?case by (simp add: starts_with_def Let_def)
next
  case (Cons l body)
  have "strip_cr l = l" using Cons.prems by (intro strip_cr_id) simp
  with Cons show ?case by (simp add: Let_def)
qed

lemma item_parsed:
  assumes "item_ok i"
  shows "parse_config_lines f k False (item_lines i @ rest)
    = map_ok ((@) (item_settings f k i)) (parse_config_lines f (k + length (item_lines i)) False rest)"
proof (cases i)
  case (Setting v x)
  then have ok: "config_word v" "config_text x" "v \<noteq> []" "hd v \<noteq> CHR ''#''" "hd v \<noteq> CHR ''-''"
    using assms by simp_all
  define line where "line = v @ '' = '' @ x"
  have "CR \<notin> set line" using ok by (auto simp: line_def config_word_def config_text_def CR_def)
  then have cr: "strip_cr line = line" by (rule strip_cr_id)
  obtain c w where v: "v = c # w" using ok(3) by (cases v) auto
  have start: "\<not> starts_with ''#'' line" "\<not> starts_with ''-----BEGIN'' line" "line \<noteq> []"
    using ok(4,5) by (simp_all add: starts_with_def v line_def)
  have parsed: "parse_config_line line (Some f) n = Inr (config_new v x (source_file f n))" for n
    unfolding line_def using ok(1,2) by (rule parse_written_line)
  have "item_lines i = [line]" by (simp add: Setting line_def)
  with cr start parsed show ?thesis
    by (cases "parse_config_lines f (k + 1) False rest") (simp_all add: Setting Let_def)
next
  case (Comment s)
  then have "strip_cr (''#'' @ s) = ''#'' @ s" using assms by (intro strip_cr_id) (simp add: CR_def)
  with Comment show ?thesis
    by (cases "parse_config_lines f (k + 1) False rest") (simp_all add: starts_with_def Let_def)
next
  case Blank
  then show ?thesis
    by (cases "parse_config_lines f (k + 1) False rest") (simp_all add: strip_cr_def Let_def)
next
  case (PemBlock label body)
  have "strip_cr (''-----BEGIN'' @ label) = ''-----BEGIN'' @ label"
    using PemBlock assms by (intro strip_cr_id) (simp add: CR_def)
  then have "parse_config_lines f k False (item_lines i @ rest)
      = parse_config_lines f (k + 1) True (body @ (''-----END'' @ label) # rest)"
    unfolding PemBlock by (simp add: starts_with_def Let_def)
  also have "\<dots> = parse_config_lines f (k + 1 + length body + 1) False rest"
    using PemBlock assms by (intro pem_skipped) auto
  finally show ?thesis
    by (cases "parse_config_lines f (k + 1 + length body + 1) False rest") (simp_all add: PemBlock)
qed

lemma items_parsed:
  "\<forall>i \<in> set items. item_ok i \<Longrightarrow>
    parse_config_lines f k False (concat (map item_lines items)) = Inr (file_settings f k items)"
  by (induction items arbitrary: k) (simp_all add: item_parsed)

lemma item_lines_plain: "item_ok i \<Longrightarrow> \<forall>l \<in> set (item_lines i). LF \<notin> set l \<and> CR \<notin> set l"
  by (cases i) (auto simp: config_word_def config_text_def LF_def CR_def)

section \<open>Properties\<close>

text \<open>
  Whatever is added to a configuration tree, a lookup finds an entry of the variable, case
  ignored, exactly when there is one, the one it finds is least in the tree's order, so that an
  option of the command line wins over every file, and looking up all entries of the variable
  gives each of them once, in that order.
\<close>

theorem config_lookup_precedence:
  fixes cs :: "config list" and variable :: string
  defines "t \<equiv> fold config_add cs []"
  shows "(config_lookup variable t = None
      \<longleftrightarrow> (\<forall>c \<in> set cs. \<not> eq_ignore_case (cf_variable c) variable))
    \<and> (\<forall>c. config_lookup variable t = Some c \<longrightarrow> c \<in> set cs \<and> eq_ignore_case (cf_variable c) variable
      \<and> (\<forall>d \<in> set cs. eq_ignore_case (cf_variable d) variable \<longrightarrow> compare_config c d \<noteq> Greater
          \<and> (cs_file (cf_source d) = None \<longrightarrow> cs_file (cf_source c) = None)))
    \<and> mset (config_lookup_all variable t)
      = filter_mset (\<lambda>c. eq_ignore_case (cf_variable c) variable) (mset cs)
    \<and> sorted_by compare_config (config_lookup_all variable t)"
proof (intro conjI)
  have t: "sorted_by compare_config t" "mset t = mset cs"
    using fold_add [of "[]" cs] by (simp_all add: t_def sorted_by_def)
  then have set: "set t = set cs" by (metis set_mset_mset)
  show "config_lookup variable t = None
      \<longleftrightarrow> (\<forall>c \<in> set cs. \<not> eq_ignore_case (cf_variable c) variable)"
    by (auto simp: config_lookup_def find_None_iff set)
  show "mset (config_lookup_all variable t)
      = filter_mset (\<lambda>c. eq_ignore_case (cf_variable c) variable) (mset cs)"
    by (simp add: config_lookup_all_def t(2))
  show "sorted_by compare_config (config_lookup_all variable t)"
    using t(1) by (simp add: config_lookup_all_def sorted_by_def sorted_wrt_filter)
  show "\<forall>c. config_lookup variable t = Some c \<longrightarrow> c \<in> set cs \<and> eq_ignore_case (cf_variable c) variable
      \<and> (\<forall>d \<in> set cs. eq_ignore_case (cf_variable d) variable \<longrightarrow> compare_config c d \<noteq> Greater
          \<and> (cs_file (cf_source d) = None \<longrightarrow> cs_file (cf_source c) = None))"
  proof (intro allI impI)
    fix c
    assume c: "config_lookup variable t = Some c"
    from config_ord.find_least [OF t(1) _ c [unfolded config_lookup_def]] set
    have least: "c \<in> set cs" "eq_ignore_case (cf_variable c) variable"
      "\<forall>d \<in> set cs. eq_ignore_case (cf_variable d) variable \<longrightarrow> compare_config c d \<noteq> Greater" by simp_all
    have "cs_file (cf_source c) = None"
      if d: "d \<in> set cs" "eq_ignore_case (cf_variable d) variable" "cs_file (cf_source d) = None" for d
    proof (rule ccontr)
      assume "cs_file (cf_source c) \<noteq> None"
      moreover have "map ascii_lower (cf_variable c) = map ascii_lower (cf_variable d)"
        using least(2) d(2) by (simp add: eq_ignore_case_def)
      ultimately have "compare_config c d = Greater"
        using d(3) by (auto simp: compare_config_def compare_case_insensitive_def)
      with least(3) d show False by simp
    qed
    with least show "c \<in> set cs \<and> eq_ignore_case (cf_variable c) variable
        \<and> (\<forall>d \<in> set cs. eq_ignore_case (cf_variable d) variable \<longrightarrow> compare_config c d \<noteq> Greater
            \<and> (cs_file (cf_source d) = None \<longrightarrow> cs_file (cf_source c) = None))" by blast
  qed
qed

theorem config_lookup_precedence_witness:
  "\<exists>c. config_lookup ''port'' (fold config_add [config_new ''Port'' ''1'' (source_file ''tinc.conf'' 1),
      config_new ''PORT'' ''2'' (source_command_line 3)] []) = Some c \<and> cs_file (cf_source c) = None"
proof -
  let ?cs = "[config_new ''Port'' ''1'' (source_file ''tinc.conf'' 1), config_new ''PORT'' ''2'' (source_command_line 3)]"
  have e: "eq_ignore_case ''PORT'' ''port''" by code_simp
  then obtain c where c: "config_lookup ''port'' (fold config_add ?cs []) = Some c"
    using config_lookup_precedence [of "''port''" ?cs]
    by (cases "config_lookup ''port'' (fold config_add ?cs [])") (auto simp: config_new_def)
  with config_lookup_precedence [of "''port''" ?cs] e show ?thesis
    by (auto simp: config_new_def source_command_line_def)
qed



text \<open>
  A file of settings, comments, blank lines and PEM blocks, in any order, is read back as
  exactly its settings, with their line numbers; comments and key material are skipped.
\<close>

theorem config_file_roundtrip:
  assumes "\<forall>i \<in> set items. item_ok i"
  shows "parse_config_file (config_file_text items) file = Inr (file_settings file 0 items)"
proof -
  have "rust_lines (config_file_text items) = concat (map item_lines items)"
    unfolding config_file_text_def
    by (rule rust_lines_written) (use assms item_lines_plain in fastforce)
  with items_parsed [OF assms] show ?thesis by (simp add: parse_config_file_def)
qed

theorem config_file_roundtrip_witness:
  "parse_config_file (config_file_text [Comment ''c'', Setting ''Port'' ''655'', PemBlock '' X'' [''a = b''], Setting ''Name'' ''x'']) ''f''
    = Inr [config_new ''Port'' ''655'' (source_file ''f'' 2), config_new ''Name'' ''x'' (source_file ''f'' 6)]"
proof -
  have "\<forall>i \<in> set [Comment ''c'', Setting ''Port'' ''655'', PemBlock '' X'' [''a = b''], Setting ''Name'' ''x'']. item_ok i"
    by (simp add: config_word_def config_text_def is_blank_def LF_def CR_def starts_with_def)
  from config_file_roundtrip [OF this, of "''f''"] show ?thesis by (simp add: i32_max_def)
qed

end
