(* ===== verification/Vpn_Packet.thy ===== *)
theory Vpn_Packet
  imports Packet Sptps_Crypto
begin

text \<open>
  \<^verbatim>\<open>VpnPacket\<close> and the device frames of \<^verbatim>\<open>tinc-runtime/src/device.rs\<close>, the transport
  error of \<^verbatim>\<open>engine.rs\<close>, and the conversions of other errors to it (\<^verbatim>\<open>transport.rs\<close>).
  An \<^verbatim>\<open>io::Error\<close> is its kind and its text, which is all the source compares or prints.
\<close>

section \<open>Errors\<close>

datatype io_kind = IoNotFound | IoUnexpectedEof | IoInvalidData | IoInvalidInput | IoOther
  | IoUnsupported | IoNetworkUnreachable | IoWriteZero | IoWouldBlock | IoInterrupted | IoMisc nat

record io_error =
  io_kind :: io_kind
  io_message :: string

definition io_error_new :: "io_kind \<Rightarrow> string \<Rightarrow> io_error" where
  "io_error_new k m = \<lparr>io_kind = k, io_message = m\<rparr>"

datatype device_error =
    DeviceIo io_error
  | DevicePacketTooLarge nat nat
  | DevicePacketTooShort nat nat
  | UnknownIpVersion byte

datatype transport_error = TransportIo io_error

definition show_byte :: "byte \<Rightarrow> string" where
  "show_byte b = show_nat (unat b)"

definition show_u32 :: "u32 \<Rightarrow> string" where
  "show_u32 w = show_nat (unat w)"

fun show_device_error :: "device_error \<Rightarrow> string" where
  "show_device_error (DeviceIo e) = io_message e"
| "show_device_error (DevicePacketTooLarge maximum actual) =
     ''packet too large: '' @ show_nat actual @ '' > '' @ show_nat maximum"
| "show_device_error (DevicePacketTooShort expected actual) =
     ''packet too short: expected at least '' @ show_nat expected @ '', got '' @ show_nat actual"
| "show_device_error (UnknownIpVersion version) = ''unknown IP version '' @ show_byte version"

fun show_handshake_state :: "sptps_handshake_state \<Rightarrow> string" where
  "show_handshake_state StateKex = ''Kex''"
| "show_handshake_state StateSecondaryKex = ''SecondaryKex''"
| "show_handshake_state StateSig = ''Sig''"
| "show_handshake_state StateAck = ''Ack''"

definition expected_got :: "string \<Rightarrow> nat \<Rightarrow> nat \<Rightarrow> string" where
  "expected_got what expected actual =
     ''invalid '' @ what @ '' length: expected '' @ show_nat expected @ '', got '' @ show_nat actual"

fun show_sptps_error :: "sptps_error \<Rightarrow> string" where
  "show_sptps_error (InvalidKeyLength e a) = expected_got ''SPTPS key'' e a"
| "show_sptps_error (InvalidKeyMaterialLength e a) = expected_got ''SPTPS key material'' e a"
| "show_sptps_error (InvalidRecordType t) = ''invalid SPTPS record type '' @ show_byte t"
| "show_sptps_error (InvalidKexLength e a) = expected_got ''SPTPS KEX'' e a"
| "show_sptps_error (InvalidKexVersion v) = ''invalid SPTPS KEX version '' @ show_byte v"
| "show_sptps_error DuplicateKex = ''duplicate SPTPS KEX before previous KEX completed''"
| "show_sptps_error (InvalidPublicKeyLength e a) = expected_got ''Ed25519 public key'' e a"
| "show_sptps_error (InvalidPrivateKeyLength e a) = expected_got ''Ed25519 private key'' e a"
| "show_sptps_error (InvalidSignatureLength e a) = expected_got ''Ed25519 signature'' e a"
| "show_sptps_error (InvalidPublicKeyBase64Length e a) = expected_got ''Ed25519 public key base64'' e a"
| "show_sptps_error (InvalidPem t) = ''invalid '' @ t @ '' PEM data''"
| "show_sptps_error InvalidPemBase64 = ''invalid tinc base64 data''"
| "show_sptps_error InvalidEd25519PublicKey = ''invalid Ed25519 public key''"
| "show_sptps_error SignatureVerificationFailed = ''SPTPS signature verification failed''"
| "show_sptps_error (RandomFailed m) = ''SPTPS random generation failed: '' @ m"
| "show_sptps_error (MissingHandshakeState f) = ''missing SPTPS handshake state: '' @ f"
| "show_sptps_error (UnexpectedHandshakeRecord st n) =
     ''unexpected SPTPS handshake record in state '' @ show_handshake_state st @ '' with '' @ show_nat n
       @ '' bytes''"
| "show_sptps_error (PacketTooShort m a) =
     ''SPTPS datagram too short: expected at least '' @ show_nat m @ '', got '' @ show_nat a"
| "show_sptps_error (RecordTooLarge m a) =
     ''SPTPS record too large: maximum '' @ show_nat m @ '', got '' @ show_nat a"
| "show_sptps_error (InvalidRecordLength e a) = expected_got ''SPTPS record'' e a"
| "show_sptps_error (UnexpectedSeqno e a) =
     ''unexpected SPTPS packet seqno: expected '' @ show_u32 e @ '', got '' @ show_u32 a"
| "show_sptps_error (Replay q e) =
     ''late or replayed SPTPS packet seqno '' @ show_u32 q @ '', expected '' @ show_u32 e"
| "show_sptps_error (FarFuture q e d n) =
     ''SPTPS packet seqno '' @ show_u32 q @ '' is '' @ show_u32 d @ '' seqs in the future from ''
       @ show_u32 e @ '' ('' @ show_u32 n @ '')''"
| "show_sptps_error AuthenticationFailed = ''SPTPS datagram authentication failed''"

definition transport_of_device :: "device_error \<Rightarrow> transport_error" where
  "transport_of_device e = TransportIo (io_error_new IoInvalidData (show_device_error e))"

fun sptps_error_kind :: "sptps_error \<Rightarrow> io_kind" where
  "sptps_error_kind (PacketTooShort _ _) = IoUnexpectedEof"
| "sptps_error_kind (InvalidKexLength _ _) = IoUnexpectedEof"
| "sptps_error_kind (UnexpectedSeqno _ _) = IoInvalidData"
| "sptps_error_kind (Replay _ _) = IoInvalidData"
| "sptps_error_kind (FarFuture _ _ _ _) = IoInvalidData"
| "sptps_error_kind AuthenticationFailed = IoInvalidData"
| "sptps_error_kind DuplicateKex = IoInvalidData"
| "sptps_error_kind InvalidEd25519PublicKey = IoInvalidData"
| "sptps_error_kind InvalidPemBase64 = IoInvalidData"
| "sptps_error_kind SignatureVerificationFailed = IoInvalidData"
| "sptps_error_kind (MissingHandshakeState _) = IoInvalidData"
| "sptps_error_kind (UnexpectedHandshakeRecord _ _) = IoInvalidData"
| "sptps_error_kind (InvalidRecordLength _ _) = IoInvalidData"
| "sptps_error_kind (RandomFailed _) = IoOther"
| "sptps_error_kind (InvalidKeyLength _ _) = IoInvalidInput"
| "sptps_error_kind (InvalidKeyMaterialLength _ _) = IoInvalidInput"
| "sptps_error_kind (InvalidRecordType _) = IoInvalidInput"
| "sptps_error_kind (InvalidKexVersion _) = IoInvalidInput"
| "sptps_error_kind (InvalidPublicKeyLength _ _) = IoInvalidInput"
| "sptps_error_kind (InvalidPrivateKeyLength _ _) = IoInvalidInput"
| "sptps_error_kind (InvalidSignatureLength _ _) = IoInvalidInput"
| "sptps_error_kind (InvalidPublicKeyBase64Length _ _) = IoInvalidInput"
| "sptps_error_kind (InvalidPem _) = IoInvalidInput"
| "sptps_error_kind (RecordTooLarge _ _) = IoInvalidInput"

definition transport_of_sptps :: "sptps_error \<Rightarrow> transport_error" where
  "transport_of_sptps e = TransportIo (io_error_new (sptps_error_kind e) (show_sptps_error e))"

section \<open>Packets\<close>

definition VPN_MTU :: nat where "VPN_MTU = 1518"

record vpn_packet =
  vp_data :: "byte list"
  vp_priority :: int

definition vpn_packet_new :: "byte list \<Rightarrow> device_error + vpn_packet" where
  "vpn_packet_new data =
     (if VPN_MTU < length data then Inl (DevicePacketTooLarge VPN_MTU (length data))
      else Inr \<lparr>vp_data = data, vp_priority = 0\<rparr>)"

definition with_priority :: "int \<Rightarrow> vpn_packet \<Rightarrow> vpn_packet" where
  "with_priority priority p = p\<lparr>vp_priority := priority\<rparr>"

section \<open>Device frames\<close>

datatype frame_mode = FrameTap | FrameTun | FrameBsdTunIfHead | FrameFd | FrameRawSocket

text \<open>The Ethernet type an IP version selects, and a frame with empty addresses.\<close>

definition ip_ether_type :: "byte \<Rightarrow> device_error + u16" where
  "ip_ether_type first =
     (let version = drop_bit 4 first
      in if version = 4 then Inr ETH_P_IP
         else if version = 6 then Inr ETH_P_IPV6
         else Inl (UnknownIpVersion version))"

definition frame_with_type :: "u16 \<Rightarrow> byte list \<Rightarrow> byte list" where
  "frame_with_type ether_type payload =
     replicate (ETH_HLEN - 2) 0 @ be16_bytes ether_type @ payload"

definition ethernet_frame_from_ip_payload :: "byte list \<Rightarrow> device_error + byte list" where
  "ethernet_frame_from_ip_payload payload =
     (case payload of
        [] \<Rightarrow> Inl (DevicePacketTooShort 1 0)
      | first # _ \<Rightarrow> map_ok (\<lambda>t. frame_with_type t payload) (ip_ether_type first))"

definition ethernet_frame_from_tun_pi :: "byte list \<Rightarrow> device_error + byte list" where
  "ethernet_frame_from_tun_pi input =
     (if length input < 4 then Inl (DevicePacketTooShort 4 (length input))
      else Inr (replicate (ETH_HLEN - 4) 0 @ input))"

definition tun_pi_from_ethernet_frame :: "byte list \<Rightarrow> device_error + byte list" where
  "tun_pi_from_ethernet_frame frame =
     (if length frame < ETH_HLEN then Inl (DevicePacketTooShort ETH_HLEN (length frame))
      else Inr (drop (ETH_HLEN - 4) frame))"

definition ethernet_frame_from_bsd_tun_ifhead :: "byte list \<Rightarrow> device_error + byte list" where
  "ethernet_frame_from_bsd_tun_ifhead input =
     (if length input < 5 then Inl (DevicePacketTooShort 5 (length input))
      else map_ok (\<lambda>t. frame_with_type t (drop 4 input)) (ip_ether_type (input ! 4)))"

text \<open>
  The address families of the target system: 2 and 10 where the source does not name the BSDs.
\<close>

definition bsd_tun_ifhead_af_inet :: u32 where "bsd_tun_ifhead_af_inet = 2"
definition bsd_tun_ifhead_af_inet6 :: u32 where "bsd_tun_ifhead_af_inet6 = 10"

definition bsd_tun_ifhead_from_ethernet_frame :: "byte list \<Rightarrow> device_error + byte list" where
  "bsd_tun_ifhead_from_ethernet_frame frame =
     (if length frame < ETH_HLEN then Inl (DevicePacketTooShort ETH_HLEN (length frame))
      else let ether_type = word_at frame 12;
               family = (if ether_type = ETH_P_IP then Inr bsd_tun_ifhead_af_inet
                         else if ether_type = ETH_P_IPV6 then Inr bsd_tun_ifhead_af_inet6
                         else Inl (DeviceIo (io_error_new IoInvalidData
                           (''unknown Ethernet protocol 0x'' @ show_hex (unat ether_type)
                             @ '' for BSD tun''))))
           in map_ok (\<lambda>family. be32_bytes family @ drop ETH_HLEN frame) family)"

definition ip_payload_from_ethernet_frame :: "byte list \<Rightarrow> device_error + byte list" where
  "ip_payload_from_ethernet_frame frame =
     (if length frame < ETH_HLEN then Inl (DevicePacketTooShort ETH_HLEN (length frame))
      else Inr (drop ETH_HLEN frame))"

definition decode_device_frame :: "frame_mode \<Rightarrow> byte list \<Rightarrow> device_error + vpn_packet" where
  "decode_device_frame mode input =
     and_then (case mode of
         FrameTap \<Rightarrow> Inr input | FrameRawSocket \<Rightarrow> Inr input
       | FrameTun \<Rightarrow> ethernet_frame_from_tun_pi input
       | FrameBsdTunIfHead \<Rightarrow> ethernet_frame_from_bsd_tun_ifhead input
       | FrameFd \<Rightarrow> ethernet_frame_from_ip_payload input) vpn_packet_new"

definition encode_device_frame :: "frame_mode \<Rightarrow> vpn_packet \<Rightarrow> device_error + byte list" where
  "encode_device_frame mode p =
     (case mode of
        FrameTap \<Rightarrow> Inr (vp_data p) | FrameRawSocket \<Rightarrow> Inr (vp_data p)
      | FrameTun \<Rightarrow> tun_pi_from_ethernet_frame (vp_data p)
      | FrameBsdTunIfHead \<Rightarrow> bsd_tun_ifhead_from_ethernet_frame (vp_data p)
      | FrameFd \<Rightarrow> ip_payload_from_ethernet_frame (vp_data p))"

section \<open>Round trips\<close>

text \<open>
  What a device keeps of a packet: everything on TAP and raw sockets; the protocol and the
  payload on TUN; the IP payload on descriptors and BSD TUN, whose version must match the type.
\<close>

definition ip_frame :: "byte list \<Rightarrow> bool" where
  "ip_frame data \<longleftrightarrow> ETH_HLEN < length data \<and> ip_ether_type (data ! ETH_HLEN) = Inr (word_at data 12)"

definition frame_fits :: "frame_mode \<Rightarrow> byte list \<Rightarrow> bool" where
  "frame_fits mode data \<longleftrightarrow>
     (case mode of FrameTap \<Rightarrow> True | FrameRawSocket \<Rightarrow> True
      | FrameTun \<Rightarrow> ETH_HLEN \<le> length data
      | FrameBsdTunIfHead \<Rightarrow> ip_frame data | FrameFd \<Rightarrow> ip_frame data)"

definition cleared_addresses :: "byte list \<Rightarrow> byte list" where
  "cleared_addresses data = replicate 12 0 @ drop 12 data"

definition device_view :: "frame_mode \<Rightarrow> byte list \<Rightarrow> byte list" where
  "device_view mode data =
     (case mode of FrameTap \<Rightarrow> data | FrameRawSocket \<Rightarrow> data
      | FrameTun \<Rightarrow> replicate 10 0 @ drop 10 data
      | _ \<Rightarrow> cleared_addresses data)"

lemma be16_bytes_word_at:
  assumes "14 \<le> length data"
  shows "be16_bytes (word_at data 12) @ drop 14 data = drop 12 data"
proof -
  have "drop 12 data = data ! 12 # data ! 13 # drop 14 data"
    using assms Cons_nth_drop_Suc [of 12 data] Cons_nth_drop_Suc [of 13 data] by simp
  then show ?thesis by (simp add: be16_bytes_be16)
qed

lemma ip_ether_type_cases:
  "ip_ether_type b = Inr t \<Longrightarrow> t = ETH_P_IP \<or> t = ETH_P_IPV6"
  by (auto simp: ip_ether_type_def Let_def split: if_splits)

lemma ip_frame_payload:
  assumes "ip_frame data"
  shows "ethernet_frame_from_ip_payload (drop ETH_HLEN data) = Inr (cleared_addresses data)"
proof -
  from assms have l: "14 < length data" and t: "ip_ether_type (data ! 14) = Inr (word_at data 12)"
    by (simp_all add: ip_frame_def ETH_HLEN_def)
  have d: "drop 14 data = data ! 14 # drop 15 data"
    using Cons_nth_drop_Suc [of 14 data] l by simp
  show ?thesis
    using t d be16_bytes_word_at [of data] l
    by (simp add: ethernet_frame_from_ip_payload_def frame_with_type_def cleared_addresses_def
        ETH_HLEN_def)
qed

text \<open>
  A packet written to a device and read back is the packet up to what the device's framing
  keeps: nothing is lost on TAP, on the others the Ethernet addresses become zero.
\<close>

theorem device_frame_roundtrip:
  assumes "frame_fits mode (vp_data p)" "length (vp_data p) \<le> VPN_MTU"
  shows "and_then (encode_device_frame mode p) (decode_device_frame mode)
    = Inr \<lparr>vp_data = device_view mode (vp_data p), vp_priority = 0\<rparr>"
proof (cases mode)
  case FrameBsdTunIfHead
  with assms(1) have ip: "ip_frame (vp_data p)" by (simp add: frame_fits_def)
  then have l: "14 < length (vp_data p)"
    and t: "ip_ether_type (vp_data p ! 14) = Inr (word_at (vp_data p) 12)"
    by (simp_all add: ip_frame_def ETH_HLEN_def)
  obtain f where f: "bsd_tun_ifhead_from_ethernet_frame (vp_data p) = Inr (be32_bytes f @ drop 14 (vp_data p))"
    using ip_ether_type_cases [OF t] l
    by (auto simp: bsd_tun_ifhead_from_ethernet_frame_def ETH_HLEN_def ETH_P_IP_def ETH_P_IPV6_def Let_def)
  have "ethernet_frame_from_bsd_tun_ifhead (be32_bytes f @ drop 14 (vp_data p))
      = Inr (cleared_addresses (vp_data p))"
    using l t be16_bytes_word_at [of "vp_data p"]
    by (simp add: ethernet_frame_from_bsd_tun_ifhead_def frame_with_type_def nth_append
        cleared_addresses_def ETH_HLEN_def)
  with f FrameBsdTunIfHead l assms(2) show ?thesis
    by (simp add: encode_device_frame_def decode_device_frame_def vpn_packet_new_def device_view_def
        cleared_addresses_def)
next
  case FrameFd
  with assms(1) have ip: "ip_frame (vp_data p)" by (simp add: frame_fits_def)
  then have "14 < length (vp_data p)" by (simp add: ip_frame_def ETH_HLEN_def)
  with ip_frame_payload [OF ip] FrameFd assms(2) show ?thesis
    by (simp add: encode_device_frame_def decode_device_frame_def ip_payload_from_ethernet_frame_def
        vpn_packet_new_def device_view_def cleared_addresses_def ETH_HLEN_def)
qed (use assms in \<open>simp_all add: frame_fits_def encode_device_frame_def decode_device_frame_def
  tun_pi_from_ethernet_frame_def ethernet_frame_from_tun_pi_def vpn_packet_new_def device_view_def
  ETH_HLEN_def\<close>)

theorem device_frame_roundtrip_witness:
  "and_then (encode_device_frame FrameFd \<lparr>vp_data = replicate 12 7 @ [8, 0, 0x45, 1], vp_priority = 3\<rparr>)
     (decode_device_frame FrameFd)
   = Inr \<lparr>vp_data = replicate 12 0 @ [8, 0, 0x45, 1], vp_priority = 0\<rparr>"
proof -
  have "frame_fits FrameFd (replicate 12 7 @ [8, 0, 0x45, 1])" by code_simp
  from device_frame_roundtrip [of _ "\<lparr>vp_data = replicate 12 7 @ [8, 0, 0x45, 1], vp_priority = 3\<rparr>"] this
  show ?thesis by (simp add: VPN_MTU_def device_view_def cleared_addresses_def)
qed

end
