(* ===== verification/Legacy_Window.thy ===== *)
theory Legacy_Window
  imports Replay_Props Vpn_Packet
begin

text \<open>
  \<^verbatim>\<open>LegacyReplayWindow\<close> of \<^verbatim>\<open>tinc-runtime/src/transport.rs\<close>: the window of the
  legacy protocol counts from the last number received, not the next one expected, and forgets
  its gaps when it jumps ahead.  It refines the set of numbers still awaited, and is a second
  provider of \<open>anti_replay\<close>.
\<close>

datatype compression_level = CompNone | Zlib1 | Zlib2 | Zlib3 | Zlib4 | Zlib5 | Zlib6 | Zlib7 | Zlib8
  | Zlib9 | LzoLow | LzoHigh | Lz4

datatype legacy_packet_error =
    UnknownPeer string
  | LegacyPacketTooShort nat nat
  | Replayed u32 u32
  | LegacyFarFuture u32 u32 u32 u32
  | UnsupportedCompression compression_level
  | CompressionFailed compression_level string
  | DecompressionFailed compression_level string
  | UnsupportedCipher int
  | InvalidCipherKeyLength int nat nat
  | CipherFailed int string
  | DigestMismatch int nat
  | DigestFailed int string
  | InvalidDigestLength int nat nat
  | UnsupportedDigest int nat
  | InvalidCompression int
  | LegacyKeyMaterialLength nat nat
  | LegacyPacket device_error

section \<open>The window\<close>

record legacy_replay_window =
  lw_window_bytes :: nat
  lw_received_seqno :: u32
  lw_received :: u32
  lw_far_future :: u32
  lw_late :: "byte list"

definition legacy_window_new :: "nat \<Rightarrow> legacy_replay_window" where
  "legacy_window_new n = \<lparr>lw_window_bytes = n, lw_received_seqno = 0, lw_received = 0,
     lw_far_future = 0, lw_late = replicate n 0\<rparr>"

definition legacy_window_reset :: "legacy_replay_window \<Rightarrow> legacy_replay_window" where
  "legacy_window_reset w = w\<lparr>lw_received_seqno := 0, lw_received := 0, lw_far_future := 0,
     lw_late := replicate (length (lw_late w)) 0\<rparr>"

definition legacy_mark_late :: "u32 \<Rightarrow> legacy_replay_window \<Rightarrow> legacy_replay_window" where
  "legacy_mark_late seqno w =
     (if lw_window_bytes w = 0 then w
      else let index = (unat seqno div 8) mod lw_window_bytes w
           in w\<lparr>lw_late := (lw_late w)[index := lw_late w ! index OR late_bit seqno]\<rparr>)"

definition legacy_clear_late :: "u32 \<Rightarrow> legacy_replay_window \<Rightarrow> legacy_replay_window" where
  "legacy_clear_late seqno w =
     (if lw_window_bytes w = 0 then w
      else let index = (unat seqno div 8) mod lw_window_bytes w
           in w\<lparr>lw_late := (lw_late w)[index := lw_late w ! index AND NOT (late_bit seqno)]\<rparr>)"

definition legacy_is_marked_late :: "legacy_replay_window \<Rightarrow> u32 \<Rightarrow> bool" where
  "legacy_is_marked_late w seqno =
     (if lw_window_bytes w = 0 then False
      else lw_late w ! ((unat seqno div 8) mod lw_window_bytes w) AND late_bit seqno \<noteq> 0)"

text \<open>The loop over the numbers skipped, \<^verbatim>\<open>received_seqno.saturating_add(1)..seqno\<close>.\<close>

definition legacy_mark_missed :: "u32 \<Rightarrow> legacy_replay_window \<Rightarrow> legacy_replay_window" where
  "legacy_mark_missed seqno w =
     fold (\<lambda>m. legacy_mark_late (of_nat m))
       [unat (u32_saturating_add (lw_received_seqno w) 1)..<unat seqno] w"

text \<open>
  The decision on a number other than the next one: the window with its gaps updated, or an error.
\<close>

definition legacy_out_of_order ::
  "u32 \<Rightarrow> nat \<Rightarrow> legacy_replay_window \<Rightarrow> (legacy_packet_error + unit) \<times> legacy_replay_window" where
  "legacy_out_of_order seqno window_bits w =
     (let received = lw_received_seqno w;
          future_cutoff = u32_saturating_add received (u32_or_max window_bits)
      in if future_cutoff \<le> seqno then
           let count = u32_saturating_add (lw_far_future w) 1; w = w\<lparr>lw_far_future := count\<rparr>
           in if count \<le> u32_or_max (lw_window_bytes w div 4)
              then (Inl (LegacyFarFuture seqno received
                      (u32_saturating_sub (u32_saturating_sub seqno received) 1) count), w)
              else (Inr (), w\<lparr>lw_late := replicate (length (lw_late w)) 0\<rparr>)
         else if seqno \<le> received then
           let outside_window = (of_nat window_bits \<le> received \<and> seqno \<le> received - of_nat window_bits)
           in if outside_window \<or> \<not> legacy_is_marked_late w seqno
              then (Inl (Replayed seqno received), w) else (Inr (), w)
         else (Inr (), legacy_mark_missed seqno w))"

definition legacy_commit :: "u32 \<Rightarrow> legacy_replay_window \<Rightarrow> legacy_replay_window" where
  "legacy_commit seqno w =
     (let w = (if min (lw_window_bytes w * 8) (2 ^ 64 - 1) \<noteq> 0
               then legacy_clear_late seqno (w\<lparr>lw_far_future := 0\<rparr>) else w);
          w = (if lw_received_seqno w < seqno then w\<lparr>lw_received_seqno := seqno\<rparr> else w)
      in w\<lparr>lw_received := u32_saturating_add (lw_received w) 1\<rparr>)"

definition legacy_accept ::
  "u32 \<Rightarrow> legacy_replay_window \<Rightarrow> (legacy_packet_error + unit) \<times> legacy_replay_window" where
  "legacy_accept seqno w =
     (let window_bits = min (lw_window_bytes w * 8) (2 ^ 64 - 1)
      in case (if window_bits \<noteq> 0 \<and> seqno \<noteq> lw_received_seqno w + 1
               then legacy_out_of_order seqno window_bits w else (Inr (), w)) of
           (Inl e, w) \<Rightarrow> (Inl e, w)
         | (Inr _, w) \<Rightarrow> (Inr (), legacy_commit seqno w))"

section \<open>The specification\<close>

text \<open>\<open>la_missing\<close>: the numbers below the last one that are still awaited.\<close>

record legacy_spec =
  la_last :: nat
  la_missing :: "nat set"
  la_far :: nat
  la_count :: nat

definition legacy_spec_new :: legacy_spec where
  "legacy_spec_new = \<lparr>la_last = 0, la_missing = {}, la_far = 0, la_count = 0\<rparr>"

definition legacy_spec_accept ::
  "nat \<Rightarrow> nat \<Rightarrow> legacy_spec \<Rightarrow> (legacy_packet_error + unit) \<times> legacy_spec" where
  "legacy_spec_accept n s a =
     (if la_last a + 8 * n \<le> s \<and> la_far a < n div 4
      then (Inl (LegacyFarFuture (of_nat s) (of_nat (la_last a)) (of_nat (s - la_last a - 1))
              (of_nat (la_far a + 1))), a\<lparr>la_far := la_far a + 1\<rparr>)
      else if s \<le> la_last a \<and> (s + 8 * n \<le> la_last a \<or> s \<notin> la_missing a)
      then (Inl (Replayed (of_nat s) (of_nat (la_last a))), a)
      else (Inr (), \<lparr>la_last = max (la_last a) s,
              la_missing = (if la_last a + 8 * n \<le> s then {}
                            else (la_missing a \<union> {la_last a<..<s}) - {s}),
              la_far = 0, la_count = min (la_count a + 1) 4294967295\<rparr>))"

section \<open>The bitmap\<close>

text \<open>The bitmap is that of the SPTPS window, so its laws carry over.\<close>

definition bitmap_view :: "legacy_replay_window \<Rightarrow> sptps_replay_window" where
  "bitmap_view w = \<lparr>rw_window_bytes = lw_window_bytes w, rw_expected_seqno = 0, rw_received = 0,
     rw_far_future = 0, rw_late = lw_late w\<rparr>"

lemma bitmap_view_fields [simp]:
  "rw_window_bytes (bitmap_view w) = lw_window_bytes w" "rw_late (bitmap_view w) = lw_late w"
  by (simp_all add: bitmap_view_def)

lemma bitmap_ops:
  "bitmap_view (legacy_mark_late s w) = mark_late s (bitmap_view w)"
  "bitmap_view (legacy_clear_late s w) = clear_late s (bitmap_view w)"
  "legacy_is_marked_late w s = is_marked_late (bitmap_view w) s"
  by (simp_all add: legacy_mark_late_def mark_late_def legacy_clear_late_def clear_late_def
      legacy_is_marked_late_def is_marked_late_def late_index_def bitmap_view_def Let_def)

lemma legacy_late_fields [simp]:
  "lw_window_bytes (legacy_mark_late t w) = lw_window_bytes w"
  "lw_received_seqno (legacy_mark_late t w) = lw_received_seqno w"
  "lw_received (legacy_mark_late t w) = lw_received w"
  "lw_far_future (legacy_mark_late t w) = lw_far_future w"
  "lw_window_bytes (legacy_clear_late t w) = lw_window_bytes w"
  "lw_received_seqno (legacy_clear_late t w) = lw_received_seqno w"
  "lw_received (legacy_clear_late t w) = lw_received w"
  "lw_far_future (legacy_clear_late t w) = lw_far_future w"
  by (simp_all add: legacy_mark_late_def legacy_clear_late_def Let_def)

lemma legacy_marks_view:
  "bitmap_view (fold (\<lambda>m. legacy_mark_late (of_nat m)) ms w) = marks ms (bitmap_view w)
    \<and> lw_window_bytes (fold (\<lambda>m. legacy_mark_late (of_nat m)) ms w) = lw_window_bytes w
    \<and> lw_received_seqno (fold (\<lambda>m. legacy_mark_late (of_nat m)) ms w) = lw_received_seqno w
    \<and> lw_received (fold (\<lambda>m. legacy_mark_late (of_nat m)) ms w) = lw_received w
    \<and> lw_far_future (fold (\<lambda>m. legacy_mark_late (of_nat m)) ms w) = lw_far_future w"
proof (induction ms arbitrary: w)
  case (Cons m ms)
  from Cons.IH [of "legacy_mark_late (of_nat m) w"] show ?case
    by (simp add: marks_def bitmap_ops)
qed (simp add: marks_def)

section \<open>Refinement\<close>

definition legacy_refines :: "nat \<Rightarrow> legacy_replay_window \<Rightarrow> legacy_spec \<Rightarrow> bool" where
  "legacy_refines n w a \<longleftrightarrow>
     0 < n \<and> 8 * n < 2 ^ 32 \<and> lw_window_bytes w = n \<and> length (lw_late w) = n
     \<and> la_last a = unat (lw_received_seqno w) \<and> la_last a < 4294967295
     \<and> la_far a = unat (lw_far_future w) \<and> la_far a \<le> n div 4
     \<and> la_count a = unat (lw_received w) \<and> la_missing a \<subseteq> {..la_last a}
     \<and> (\<forall>t \<le> la_last a. la_last a < t + 8 * n \<longrightarrow> (slot (bitmap_view w) t \<longleftrightarrow> t \<in> la_missing a))"

lemma unat_less_max: "s \<noteq> U32_MAX \<Longrightarrow> unat (s :: u32) < 4294967295"
  using unat_succ [of s] unat_u32_less [of "s + 1"] by linarith

lemma legacy_commit_refines:
  assumes w: "lw_window_bytes w = n" "length (lw_late w) = n" "0 < n" "8 * n < 2 ^ 32"
    and s: "s \<noteq> U32_MAX" and L: "unat (lw_received_seqno w) = L" "L < 4294967295"
    and M: "M \<subseteq> {..max L (unat s)}" "unat s \<notin> M" and inside: "L < unat s + 8 * n"
    and slots: "\<And>t. t \<le> max L (unat s) \<Longrightarrow> max L (unat s) < t + 8 * n \<Longrightarrow> t \<noteq> unat s
      \<Longrightarrow> slot (bitmap_view w) t \<longleftrightarrow> t \<in> M"
  shows "legacy_refines n (legacy_commit s w) \<lparr>la_last = max L (unat s), la_missing = M, la_far = 0,
      la_count = min (unat (lw_received w) + 1) 4294967295\<rparr>"
proof -
  have wf: "window_wf (bitmap_view w)" using w by (simp add: window_wf_def)
  have n0: "lw_window_bytes w \<noteq> 0" using w by simp
  have late: "lw_late (legacy_commit s w) = rw_late (clear_late s (bitmap_view w))"
    using n0 by (simp add: legacy_commit_def legacy_clear_late_def clear_late_def late_index_def Let_def)
  have last: "unat (lw_received_seqno (legacy_commit s w)) = max L (unat s)"
    using L by (simp add: legacy_commit_def Let_def word_less_nat_alt max_def)
  have rest: "lw_window_bytes (legacy_commit s w) = n" "lw_far_future (legacy_commit s w) = 0"
    "lw_received (legacy_commit s w) = u32_saturating_add (lw_received w) 1"
    using n0 w by (simp_all add: legacy_commit_def Let_def)
  have "slot (bitmap_view (legacy_commit s w)) t \<longleftrightarrow> t \<in> M"
    if t: "t \<le> max L (unat s)" "max L (unat s) < t + 8 * n" for t
  proof -
    have "slot (bitmap_view (legacy_commit s w)) t \<longleftrightarrow>
        unat s mod (8 * n) \<noteq> t mod (8 * n) \<and> slot (bitmap_view w) t"
      using slot_clear_late(1) [OF wf, of s t] w rest by (simp add: slot_def late)
    moreover have "unat s mod (8 * n) = t mod (8 * n) \<longleftrightarrow> unat s = t"
      using mod_eq_close [of "unat s" "8 * n" t] t inside w(3) by (auto simp: max_def split: if_splits)
    ultimately show ?thesis using slots [OF t] M(2) by auto
  qed
  moreover have "length (lw_late (legacy_commit s w)) = n"
    using slot_clear_late(2) [OF wf, of s] w by (simp add: late window_wf_def)
  ultimately show ?thesis
    using w M(1) L(2) unat_less_max [OF s] last rest
    by (simp add: legacy_refines_def saturating_add_nat)
qed

lemma legacy_out_of_order_cases:
  fixes s :: u32
  defines "S \<equiv> unat s"
  assumes w: "lw_window_bytes w = n" "0 < n" "8 * n < 2 ^ 32" and s: "s \<noteq> U32_MAX"
    and far: "unat (lw_far_future w) \<le> n div 4"
  defines "L \<equiv> unat (lw_received_seqno w)"
  shows "legacy_out_of_order s (8 * n) w =
    (let r = lw_received_seqno w; count = u32_saturating_add (lw_far_future w) 1;
         w1 = w\<lparr>lw_far_future := count\<rparr>
     in if L + 8 * n \<le> S then
          if unat (lw_far_future w) < n div 4
          then (Inl (LegacyFarFuture s r (u32_saturating_sub (u32_saturating_sub s r) 1) count), w1)
          else (Inr (), w1\<lparr>lw_late := replicate (length (lw_late w)) 0\<rparr>)
        else if S \<le> L then
          (if S + 8 * n \<le> L \<or> \<not> legacy_is_marked_late w s then Inl (Replayed s r) else Inr (), w)
        else (Inr (), legacy_mark_missed s w))"
proof -
  have u: "unat (u32_or_max (8 * n)) = 8 * n" using w by (simp add: or_max_nat)
  have cut: "u32_saturating_add (lw_received_seqno w) (u32_or_max (8 * n)) \<le> s \<longleftrightarrow> L + 8 * n \<le> S"
    using unat_less_max [OF s]
    by (simp add: word_le_nat_alt saturating_add_nat u L_def S_def min_le_iff_disj)
  have count: "u32_saturating_add (lw_far_future w) 1 \<le> u32_or_max (lw_window_bytes w div 4)
      \<longleftrightarrow> unat (lw_far_future w) < n div 4"
    using w far by (auto simp: word_le_nat_alt saturating_add_nat or_max_nat)
  have le: "s \<le> lw_received_seqno w \<longleftrightarrow> S \<le> L" by (simp add: word_le_nat_alt S_def L_def)
  have W: "unat (of_nat (8 * n) :: u32) = 8 * n"
    using w(3) by (simp add: unat_of_nat_u32 del: of_nat_mult)
  have out: "(of_nat (8 * n) \<le> lw_received_seqno w \<and> s \<le> lw_received_seqno w - of_nat (8 * n))
      \<longleftrightarrow> S + 8 * n \<le> L"
  proof (cases "of_nat (8 * n) \<le> lw_received_seqno w")
    case True
    then have "unat (lw_received_seqno w - of_nat (8 * n)) = L - 8 * n"
      by (simp only: unat_sub [OF True] W L_def)
    with True W show ?thesis by (auto simp: word_le_nat_alt S_def L_def simp del: of_nat_mult)
  next
    case False
    then have "L < 8 * n" using W by (simp add: word_le_nat_alt L_def del: of_nat_mult)
    with False show ?thesis by simp
  qed
  show ?thesis
    unfolding legacy_out_of_order_def Let_def cut le out using count by simp
qed

lemma legacy_step_refines:
  assumes rel: "legacy_refines n w a" and s: "s \<noteq> U32_MAX"
  shows "fst (legacy_accept s w) = fst (legacy_spec_accept n (unat s) a)
    \<and> legacy_refines n (snd (legacy_accept s w)) (snd (legacy_spec_accept n (unat s) a))"
proof -
  define L where "L = unat (lw_received_seqno w)"
  define M where "M = la_missing a"
  from rel have w: "lw_window_bytes w = n" "length (lw_late w) = n" "0 < n" "8 * n < 2 ^ 32"
    and last: "la_last a = L" "L < 4294967295"
    and far: "la_far a = unat (lw_far_future w)" "unat (lw_far_future w) \<le> n div 4"
    and count: "la_count a = unat (lw_received w)" and M: "M \<subseteq> {..L}"
    and slots: "\<And>t. t \<le> L \<Longrightarrow> L < t + 8 * n \<Longrightarrow> slot (bitmap_view w) t \<longleftrightarrow> t \<in> M"
    by (auto simp: legacy_refines_def L_def M_def)
  have wf: "window_wf (bitmap_view w)" using w by (simp add: window_wf_def)
  have bits: "min (lw_window_bytes w * 8) (2 ^ 64 - 1) = 8 * n" using w by simp
  note cases = legacy_out_of_order_cases [OF w(1,3,4) s far(2), folded L_def]
  have r: "of_nat L = lw_received_seqno w" by (simp add: L_def)
  have r_max: "lw_received_seqno w \<noteq> U32_MAX" using last(2) by (auto simp: L_def U32_MAX_def)
  have succ: "unat (lw_received_seqno w + 1) = L + 1" using unat_succ [OF r_max] by (simp add: L_def)
  have far_add: "unat (u32_saturating_add (lw_far_future w) 1) = la_far a + 1"
    using far w(4) by (simp add: saturating_add_nat)
  have next_ok: "legacy_accept s w = (Inr (), legacy_commit s w)" if "unat s = L + 1"
  proof -
    have "s = lw_received_seqno w + 1" using that succ by (simp add: word_unat_eq_iff)
    then show ?thesis by (simp add: legacy_accept_def Let_def)
  qed
  have other: "legacy_accept s w = (case legacy_out_of_order s (8 * n) w of
      (Inl e, w) \<Rightarrow> (Inl e, w) | (Inr _, w) \<Rightarrow> (Inr (), legacy_commit s w))" if "unat s \<noteq> L + 1"
  proof -
    have "s \<noteq> lw_received_seqno w + 1" using that succ by auto
    then show ?thesis unfolding legacy_accept_def bits Let_def using w(3) by simp
  qed
  consider (inorder) "unat s = L + 1"
    | (refused) "L + 8 * n \<le> unat s" "unat s \<noteq> L + 1" "la_far a < n div 4"
    | (future) "L + 8 * n \<le> unat s" "unat s \<noteq> L + 1" "\<not> la_far a < n div 4"
    | (replay) "unat s \<le> L" "unat s + 8 * n \<le> L \<or> \<not> legacy_is_marked_late w s"
    | (late) "unat s \<le> L" "\<not> (unat s + 8 * n \<le> L \<or> \<not> legacy_is_marked_late w s)"
    | (ahead) "L < unat s" "unat s < L + 8 * n" "unat s \<noteq> L + 1"
    by linarith
  then show ?thesis
  proof cases
    case inorder
    have "legacy_refines n (legacy_commit s w) \<lparr>la_last = max L (unat s), la_missing = M, la_far = 0,
        la_count = min (unat (lw_received w) + 1) 4294967295\<rparr>"
      by (rule legacy_commit_refines [OF w s L_def [symmetric] last(2)])
        (use M inorder slots in \<open>auto simp: max_def\<close>)
    moreover have "(M \<union> {L<..<unat s}) - {unat s} = M" using M inorder by auto
    ultimately show ?thesis
      using inorder w(3) by (simp add: next_ok legacy_spec_accept_def last count M_def)
  next
    case refused
    have "u32_saturating_sub (u32_saturating_sub s (lw_received_seqno w)) 1 = of_nat (unat s - L - 1)"
    proof -
      have "unat (u32_saturating_sub s (lw_received_seqno w)) = unat s - L"
        using refused(1) by (simp add: u32_saturating_sub_def unat_sub word_le_nat_alt
            word_less_nat_alt L_def)
      moreover from this have "unat (u32_saturating_sub s (lw_received_seqno w) - 1) = unat s - L - 1"
        "\<not> u32_saturating_sub s (lw_received_seqno w) < 1"
        using refused(1) w(3) by (simp_all add: unat_sub word_le_nat_alt word_less_nat_alt)
      ultimately show ?thesis
        unfolding u32_saturating_sub_def [of "u32_saturating_sub s (lw_received_seqno w)" 1]
        by (metis word_of_unat)
    qed
    moreover have "u32_saturating_add (lw_far_future w) 1 = of_nat (la_far a + 1)"
      using far_add by (metis word_of_unat)
    ultimately show ?thesis
      using refused other cases far far_add rel r
      by (simp add: legacy_spec_accept_def last Let_def legacy_refines_def L_def slot_def w(1))
  next
    case future
    define w1 where "w1 = w\<lparr>lw_far_future := u32_saturating_add (lw_far_future w) 1,
      lw_late := replicate (length (lw_late w)) 0\<rparr>"
    have none: "\<not> slot (bitmap_view w1) t" for t
      using w by (simp add: slot_def w1_def)
    have "legacy_refines n (legacy_commit s w1) \<lparr>la_last = max L (unat s), la_missing = {}, la_far = 0,
        la_count = min (unat (lw_received w1) + 1) 4294967295\<rparr>"
      by (rule legacy_commit_refines [OF _ _ w(3,4) s])
        (use w last future none in \<open>auto simp: w1_def L_def\<close>)
    then show ?thesis
      using future other cases far last(2) w(3)
      by (simp add: legacy_spec_accept_def last count w1_def Let_def)
  next
    case replay
    have "unat s + 8 * n \<le> L \<or> unat s \<notin> M"
      using replay slots [of "unat s"] is_marked_slot [OF wf, of s] by (auto simp: bitmap_ops)
    then show ?thesis
      using replay other cases r rel w(3)
      by (simp add: legacy_spec_accept_def last M_def Let_def L_def)
  next
    case late
    then have inside: "L < unat s + 8 * n" and here: "unat s \<in> M"
      using slots [of "unat s"] is_marked_slot [OF wf, of s] by (auto simp: bitmap_ops)
    have mx: "max L (unat s) = L" using late(1) by simp
    have "legacy_refines n (legacy_commit s w) \<lparr>la_last = max L (unat s), la_missing = M - {unat s},
        la_far = 0, la_count = min (unat (lw_received w) + 1) 4294967295\<rparr>"
      by (rule legacy_commit_refines [OF w s L_def [symmetric] last(2) _ _ inside])
        (use M slots mx in auto)
    moreover have "(M \<union> {L<..<unat s}) - {unat s} = M - {unat s}" using late(1) by auto
    ultimately show ?thesis
      using inside here late other cases w(3)
      by (simp add: legacy_spec_accept_def last count M_def Let_def)
  next
    case ahead
    have start: "unat (u32_saturating_add (lw_received_seqno w) 1) = L + 1"
      using last(2) by (simp add: saturating_add_nat L_def)
    define w1 where "w1 = legacy_mark_missed s w"
    have view: "bitmap_view w1 = marks [L + 1..<unat s] (bitmap_view w)"
      and fields: "lw_window_bytes w1 = n" "lw_received_seqno w1 = lw_received_seqno w"
        "lw_received w1 = lw_received w"
      using legacy_marks_view [where ms = "[L + 1..<unat s]" and w = w] w(1)
      by (simp_all add: w1_def legacy_mark_missed_def start)
    have ms: "\<forall>m \<in> set [L + 1..<unat s]. m < 2 ^ 32"
      using unat_u32_less [of s] by (auto simp del: unat_u32_less)
    note m = slot_marks [OF wf ms, folded view]
    have len: "length (lw_late w1) = n" using m [of 0] fields by (simp add: window_wf_def)
    have "legacy_refines n (legacy_commit s w1) \<lparr>la_last = max L (unat s),
        la_missing = M \<union> {L<..<unat s}, la_far = 0,
        la_count = min (unat (lw_received w1) + 1) 4294967295\<rparr>"
    proof (rule legacy_commit_refines [OF fields(1) len w(3,4) s])
      fix t
      assume t: "t \<le> max L (unat s)" "max L (unat s) < t + 8 * n" "t \<noteq> unat s"
      show "slot (bitmap_view w1) t \<longleftrightarrow> t \<in> M \<union> {L<..<unat s}"
      proof (cases "L < t")
        case True
        with t ahead have "t \<in> set [L + 1..<unat s]" by (auto simp: max_def split: if_splits)
        then show ?thesis using m [of t] w by auto
      next
        case False
        have "k mod (8 * n) \<noteq> t mod (8 * n)" if "k \<in> set [L + 1..<unat s]" for k
          using mod_eq_close [of k "8 * n" t] that t ahead False
          by (auto simp: max_def split: if_splits)
        then have "slot (bitmap_view w1) t \<longleftrightarrow> slot (bitmap_view w) t" using m [of t] w by auto
        also have "\<dots> \<longleftrightarrow> t \<in> M" using False t by (intro slots) auto
        finally show ?thesis using False by auto
      qed
    qed (use M ahead last fields in \<open>auto simp: L_def\<close>)
    moreover have "(M \<union> {L<..<unat s}) - {unat s} = M \<union> {L<..<unat s}" using M ahead by auto
    ultimately show ?thesis
      using ahead other cases w(3)
      by (simp add: legacy_spec_accept_def last count M_def w1_def fields [unfolded w1_def] Let_def)
  qed
qed

section \<open>No number twice\<close>

lemma legacy_new_refines:
  "0 < n \<Longrightarrow> 8 * n < 2 ^ 32 \<Longrightarrow> legacy_refines n (legacy_window_new n) legacy_spec_new"
  by (simp add: legacy_refines_def legacy_window_new_def legacy_spec_new_def slot_def)

lemma legacy_reset_refines:
  "legacy_refines n w a \<Longrightarrow> legacy_refines n (legacy_window_reset w) legacy_spec_new"
  by (simp add: legacy_refines_def legacy_window_reset_def legacy_spec_new_def slot_def)

definition legacy_tracks :: "legacy_replay_window \<Rightarrow> u32 set \<Rightarrow> bool" where
  "legacy_tracks w seen \<longleftrightarrow>
     (\<exists>n a. legacy_refines n w a \<and> (\<forall>s \<in> seen. unat s \<le> la_last a \<and> unat s \<notin> la_missing a))"

lemma legacy_spec_fresh:
  "legacy_spec_accept n s a = (Inr u, a') \<Longrightarrow> t \<le> la_last a \<Longrightarrow> t \<notin> la_missing a
    \<Longrightarrow> t \<noteq> s \<and> t \<le> la_last a' \<and> t \<notin> la_missing a'"
  by (auto simp: legacy_spec_accept_def split: if_splits)

lemma legacy_spec_taken:
  "legacy_spec_accept n s a = (Inr u, a') \<Longrightarrow> s \<le> la_last a' \<and> s \<notin> la_missing a'"
  by (auto simp: legacy_spec_accept_def split: if_splits)

lemma legacy_spec_refused:
  "legacy_spec_accept n s a = (Inl e, a') \<Longrightarrow> la_last a' = la_last a \<and> la_missing a' = la_missing a"
  by (auto simp: legacy_spec_accept_def split: if_splits)

interpretation lw: anti_replay legacy_accept legacy_tracks "\<lambda>s. s \<noteq> U32_MAX"
proof unfold_locales
  fix w seen s w'
  assume t: "legacy_tracks w seen" and s: "s \<noteq> U32_MAX"
  then obtain n a where a: "legacy_refines n w a"
    and seen: "\<forall>s \<in> seen. unat s \<le> la_last a \<and> unat s \<notin> la_missing a"
    by (auto simp: legacy_tracks_def)
  obtain r a' where r: "legacy_spec_accept n (unat s) a = (r, a')"
    by (cases "legacy_spec_accept n (unat s) a")
  note step = legacy_step_refines [OF a s]
  show "s \<notin> seen \<and> legacy_tracks w' (insert s seen)" if "legacy_accept s w = (Inr (), w')"
  proof -
    from that step r have ra: "r = Inr ()" and "legacy_refines n w' a'" by simp_all
    moreover from r ra legacy_spec_fresh [of n "unat s" a "()" a'] seen
    have "s \<notin> seen \<and> (\<forall>x \<in> seen. unat x \<le> la_last a' \<and> unat x \<notin> la_missing a')" by blast
    moreover from r ra legacy_spec_taken [of n "unat s" a "()" a']
    have "unat s \<le> la_last a' \<and> unat s \<notin> la_missing a'" by blast
    ultimately show ?thesis by (auto simp: legacy_tracks_def)
  qed
  show "legacy_tracks w' seen" if "legacy_accept s w = (Inl e, w')" for e
  proof -
    from that step r have "r = Inl e" "legacy_refines n w' a'" by simp_all
    with r legacy_spec_refused [of n "unat s" a e a'] seen show ?thesis
      unfolding legacy_tracks_def by (intro exI [of _ n] exI [of _ a']) auto
  qed
qed

primrec legacy_run ::
  "u32 list \<Rightarrow> legacy_replay_window \<Rightarrow> (legacy_packet_error + unit) list \<times> legacy_replay_window" where
  "legacy_run [] w = ([], w)"
| "legacy_run (s # ss) w =
     (let (r, w) = legacy_accept s w; (rs, w) = legacy_run ss w in (r # rs, w))"

primrec legacy_spec_run ::
  "nat \<Rightarrow> nat list \<Rightarrow> legacy_spec \<Rightarrow> (legacy_packet_error + unit) list \<times> legacy_spec" where
  "legacy_spec_run n [] a = ([], a)"
| "legacy_spec_run n (s # ss) a =
     (let (r, a) = legacy_spec_accept n s a; (rs, a) = legacy_spec_run n ss a in (r # rs, a))"

definition legacy_accepted :: "u32 list \<Rightarrow> legacy_replay_window \<Rightarrow> u32 list" where
  "legacy_accepted ss w = map fst (filter (\<lambda>(s, r). r = Inr ()) (zip ss (fst (legacy_run ss w))))"

lemma legacy_run_refines:
  "legacy_refines n w a \<Longrightarrow> U32_MAX \<notin> set ss \<Longrightarrow>
    fst (legacy_run ss w) = fst (legacy_spec_run n (map unat ss) a)
    \<and> legacy_refines n (snd (legacy_run ss w)) (snd (legacy_spec_run n (map unat ss) a))"
proof (induction ss arbitrary: w a)
  case (Cons s ss)
  have "s \<noteq> U32_MAX" using Cons.prems(2) by auto
  from legacy_step_refines [OF Cons.prems(1) this] Cons.IH Cons.prems(2)
  show ?case by (simp add: Let_def case_prod_beta)
qed simp

lemma legacy_accepted_run: "legacy_accepted ss w = lw.accepted_of ss w"
proof (induction ss arbitrary: w)
  case (Cons s ss)
  obtain r w' where r: "legacy_accept s w = (r, w')" by (cases "legacy_accept s w")
  from Cons.IH [of w'] r show ?case
    by (cases r) (simp_all add: legacy_accepted_def Let_def case_prod_beta)
qed (simp add: legacy_accepted_def)

text \<open>
  C37: the legacy window answers every sequence of numbers below the last 32-bit one, error details
  included, as a window that remembers the set of numbers still awaited; a jump beyond the window,
  taken after repeated far-future packets, gives up what was awaited; and no number is accepted
  twice as long as the window is not reset.
\<close>

theorem legacy_window_refines:
  assumes "0 < n" "8 * n < 2 ^ 32" "U32_MAX \<notin> set ss"
  shows "fst (legacy_run ss (legacy_window_new n)) = fst (legacy_spec_run n (map unat ss) legacy_spec_new)
    \<and> distinct (legacy_accepted ss (legacy_window_new n))"
proof -
  have "legacy_tracks (legacy_window_new n) {}"
    using legacy_new_refines [OF assms(1,2)] by (auto simp: legacy_tracks_def)
  then have "distinct (legacy_accepted ss (legacy_window_new n))"
    unfolding legacy_accepted_run using lw.accepted_of_distinct [of _ "{}" ss] assms(3) by blast
  with legacy_run_refines [OF legacy_new_refines [OF assms(1,2)] assms(3)] show ?thesis by simp
qed

theorem legacy_window_refines_witness:
  "fst (legacy_run [1, 3, 2, 2, 200] (legacy_window_new 16))
     = [Inr (), Inr (), Inr (), Inl (Replayed 2 3), Inl (LegacyFarFuture 200 3 196 1)]"
proof -
  have "U32_MAX \<notin> set [1, 3, 2, 2, 200]" by (simp add: U32_MAX_def)
  from legacy_window_refines [OF _ _ this, of 16]
  show ?thesis by (simp add: legacy_spec_accept_def legacy_spec_new_def)
qed

end
