(* ===== verification/Legacy_Packet.thy ===== *)
theory Legacy_Packet
  imports Legacy_Window Protocol Config
begin

text \<open>
  The legacy packet codec of \<^verbatim>\<open>tinc-runtime/src/transport.rs\<close>: compression, ciphers and
  digests of a direction, the keys an \<^verbatim>\<open>ANS_KEY\<close> message installs, and the codec that numbers,
  encrypts and authenticates datagrams.  Compression libraries, AES, HMAC and OpenSSL are
  parameters; the model is that of a build with the default features.
\<close>

section \<open>Libraries\<close>

text \<open>
  Each field is one library call of the source; a \<^typ>\<open>string\<close> on the left is the text of its
  error.  \<open>lc_cipher\<close> is the number, key length and IV length of the cipher with a number,
  \<open>lc_digest\<close> number and size; \<open>lc_zlib_read n\<close> reads at most \<open>n\<close> bytes of output, the others
  get an output buffer of that size.
\<close>

record legacy_crypto =
  lc_aes_encrypt :: "byte list \<Rightarrow> byte list \<Rightarrow> byte list \<Rightarrow> byte list"
  lc_aes_decrypt :: "byte list \<Rightarrow> byte list \<Rightarrow> byte list \<Rightarrow> string + byte list"
  lc_hmac :: "int \<Rightarrow> byte list \<Rightarrow> byte list \<Rightarrow> string + byte list"
  lc_cipher_by_name :: "string \<Rightarrow> int option"
  lc_cipher :: "int \<Rightarrow> (int \<times> nat \<times> nat option) option"
  lc_cipher_crypt :: "int \<Rightarrow> byte list \<Rightarrow> byte list option \<Rightarrow> byte list \<Rightarrow> bool \<Rightarrow> string + byte list"
  lc_digest_by_name :: "string \<Rightarrow> int option"
  lc_digest :: "int \<Rightarrow> (int \<times> nat) option"
  lc_digest_hmac :: "int \<Rightarrow> byte list \<Rightarrow> byte list \<Rightarrow> byte list option"
  lc_zlib_compress :: "nat \<Rightarrow> byte list \<Rightarrow> string + byte list"
  lc_zlib_read :: "nat \<Rightarrow> byte list \<Rightarrow> string + byte list"
  lc_lz4_compress :: "byte list \<Rightarrow> byte list"
  lc_lz4_decompress :: "nat \<Rightarrow> byte list \<Rightarrow> string + byte list"
  lc_lzo_init :: int
  lc_lzo_compress :: "bool \<Rightarrow> byte list \<Rightarrow> int \<times> byte list"
  lc_lzo_decompress :: "nat \<Rightarrow> byte list \<Rightarrow> int \<times> byte list"

definition LEGACY_SEQNO_LEN :: nat where "LEGACY_SEQNO_LEN = 4"
definition MAX_LEGACY_SEQNO :: u32 where "MAX_LEGACY_SEQNO = 1073741824"
definition DEFAULT_REPLAY_WINDOW_BYTES :: nat where "DEFAULT_REPLAY_WINDOW_BYTES = 32"
definition AES_BLOCK_LEN :: nat where "AES_BLOCK_LEN = 16"
definition USIZE_MAX :: nat where "USIZE_MAX = 18446744073709551615"
definition LZO_E_OK :: int where "LZO_E_OK = 0"

section \<open>Compression levels\<close>

definition compression_levels :: "compression_level list" where
  "compression_levels = [CompNone, Zlib1, Zlib2, Zlib3, Zlib4, Zlib5, Zlib6, Zlib7, Zlib8, Zlib9,
     LzoLow, LzoHigh, Lz4]"

definition compression_try_from :: "int \<Rightarrow> int + compression_level" where
  "compression_try_from v =
     (if 0 \<le> v \<and> v \<le> 12 then Inr (compression_levels ! nat v) else Inl v)"

fun zlib_level :: "compression_level \<Rightarrow> nat option" where
  "zlib_level Zlib1 = Some 1" | "zlib_level Zlib2 = Some 2" | "zlib_level Zlib3 = Some 3"
| "zlib_level Zlib4 = Some 4" | "zlib_level Zlib5 = Some 5" | "zlib_level Zlib6 = Some 6"
| "zlib_level Zlib7 = Some 7" | "zlib_level Zlib8 = Some 8" | "zlib_level Zlib9 = Some 9"
| "zlib_level _ = None"

fun show_compression :: "compression_level \<Rightarrow> string" where
  "show_compression CompNone = ''None''"
| "show_compression LzoLow = ''LzoLow''" | "show_compression LzoHigh = ''LzoHigh''"
| "show_compression Lz4 = ''Lz4''"
| "show_compression z = ''Zlib'' @ show_nat (case zlib_level z of Some n \<Rightarrow> n | None \<Rightarrow> 0)"

section \<open>Errors\<close>

fun show_legacy_error :: "legacy_packet_error \<Rightarrow> string" where
  "show_legacy_error (UnknownPeer peer) = ''unknown legacy UDP peer '' @ peer"
| "show_legacy_error (LegacyPacketTooShort m a) =
     ''legacy UDP packet too short: expected at least '' @ show_nat m @ '', got '' @ show_nat a"
| "show_legacy_error (Replayed s r) =
     ''late or replayed legacy UDP packet seqno '' @ show_u32 s @ '', last received '' @ show_u32 r"
| "show_legacy_error (LegacyFarFuture s r d n) =
     ''legacy UDP packet seqno '' @ show_u32 s @ '' is '' @ show_u32 d @ '' seqs in the future from ''
       @ show_u32 r @ '' ('' @ show_u32 n @ '')''"
| "show_legacy_error (UnsupportedCompression c) =
     ''unsupported legacy UDP compression '' @ show_compression c"
| "show_legacy_error (CompressionFailed c m) =
     ''legacy UDP compression '' @ show_compression c @ '' failed: '' @ m"
| "show_legacy_error (DecompressionFailed c m) =
     ''legacy UDP decompression '' @ show_compression c @ '' failed: '' @ m"
| "show_legacy_error (UnsupportedCipher nid) = ''unsupported legacy UDP cipher NID '' @ show_int nid"
| "show_legacy_error (InvalidCipherKeyLength nid e a) =
     ''legacy UDP cipher NID '' @ show_int nid @ '' has wrong key material length: expected ''
       @ show_nat e @ '', got '' @ show_nat a"
| "show_legacy_error (CipherFailed nid m) =
     ''legacy UDP cipher NID '' @ show_int nid @ '' failed: '' @ m"
| "show_legacy_error (DigestMismatch nid n) =
     ''legacy UDP digest mismatch for NID '' @ show_int nid @ '' with MAC length '' @ show_nat n"
| "show_legacy_error (DigestFailed nid m) =
     ''legacy UDP digest NID '' @ show_int nid @ '' failed: '' @ m"
| "show_legacy_error (InvalidDigestLength nid r a) =
     ''legacy UDP digest NID '' @ show_int nid @ '' has invalid MAC length: requested '' @ show_nat r
       @ '', actual '' @ show_nat a"
| "show_legacy_error (UnsupportedDigest nid n) =
     ''unsupported legacy UDP digest NID '' @ show_int nid @ '' with MAC length '' @ show_nat n"
| "show_legacy_error (InvalidCompression c) = ''invalid legacy UDP compression '' @ show_int c"
| "show_legacy_error (LegacyKeyMaterialLength e a) =
     ''legacy UDP key material has wrong length: expected '' @ show_nat e @ '', got '' @ show_nat a"
| "show_legacy_error (LegacyPacket e) = show_device_error e"

fun legacy_error_kind :: "legacy_packet_error \<Rightarrow> io_kind" where
  "legacy_error_kind (UnknownPeer _) = IoNotFound"
| "legacy_error_kind (LegacyPacketTooShort _ _) = IoUnexpectedEof"
| "legacy_error_kind (Replayed _ _) = IoInvalidData"
| "legacy_error_kind (LegacyFarFuture _ _ _ _) = IoInvalidData"
| "legacy_error_kind (DigestMismatch _ _) = IoInvalidData"
| "legacy_error_kind (DigestFailed _ _) = IoOther"
| "legacy_error_kind (InvalidDigestLength _ _ _) = IoInvalidInput"
| "legacy_error_kind (UnsupportedCompression _) = IoUnsupported"
| "legacy_error_kind (UnsupportedCipher _) = IoUnsupported"
| "legacy_error_kind (UnsupportedDigest _ _) = IoUnsupported"
| "legacy_error_kind (InvalidCipherKeyLength _ _ _) = IoInvalidInput"
| "legacy_error_kind (InvalidCompression _) = IoInvalidInput"
| "legacy_error_kind (LegacyKeyMaterialLength _ _) = IoInvalidInput"
| "legacy_error_kind (CipherFailed _ _) = IoInvalidData"
| "legacy_error_kind (CompressionFailed _ _) = IoOther"
| "legacy_error_kind (DecompressionFailed _ _) = IoInvalidData"
| "legacy_error_kind (LegacyPacket _) = IoInvalidData"

definition transport_of_legacy :: "legacy_packet_error \<Rightarrow> transport_error" where
  "transport_of_legacy e = TransportIo (io_error_new (legacy_error_kind e) (show_legacy_error e))"

section \<open>Ciphers\<close>

datatype legacy_cipher_algorithm = CipherNone | Aes128Cbc | Aes192Cbc | Aes256Cbc | CipherUnsupported int

definition cipher_from_nid :: "int \<Rightarrow> legacy_cipher_algorithm" where
  "cipher_from_nid nid =
     (if nid \<le> 0 then CipherNone else if nid = 419 then Aes128Cbc else if nid = 423 then Aes192Cbc
      else if nid = 427 then Aes256Cbc else CipherUnsupported nid)"

definition cipher_from_name :: "legacy_crypto \<Rightarrow> string \<Rightarrow> legacy_cipher_algorithm option" where
  "cipher_from_name C name =
     (if eq_ignore_case name ''none'' then Some CipherNone
      else if eq_ignore_case name ''aes-128-cbc'' then Some Aes128Cbc
      else if eq_ignore_case name ''aes-192-cbc'' then Some Aes192Cbc
      else if eq_ignore_case name ''aes-256-cbc'' then Some Aes256Cbc
      else map_option cipher_from_nid (lc_cipher_by_name C name))"

fun cipher_nid :: "legacy_cipher_algorithm \<Rightarrow> int" where
  "cipher_nid CipherNone = 0" | "cipher_nid Aes128Cbc = 419" | "cipher_nid Aes192Cbc = 423"
| "cipher_nid Aes256Cbc = 427" | "cipher_nid (CipherUnsupported nid) = nid"

definition openssl_cipher :: "legacy_crypto \<Rightarrow> int \<Rightarrow> (nat \<times> nat option) option" where
  "openssl_cipher C nid =
     (case lc_cipher C nid of None \<Rightarrow> None
      | Some (raw, key_len, iv_len) \<Rightarrow> if raw = 0 then None else Some (key_len, iv_len))"

definition openssl_cipher_key_len :: "legacy_crypto \<Rightarrow> int \<Rightarrow> nat" where
  "openssl_cipher_key_len C nid = (case openssl_cipher C nid of None \<Rightarrow> 0 | Some (k, _) \<Rightarrow> k)"

definition openssl_cipher_iv_len :: "legacy_crypto \<Rightarrow> int \<Rightarrow> nat" where
  "openssl_cipher_iv_len C nid = (case openssl_cipher C nid of Some (_, Some iv) \<Rightarrow> iv | _ \<Rightarrow> 0)"

fun cipher_key_len :: "legacy_crypto \<Rightarrow> legacy_cipher_algorithm \<Rightarrow> nat" where
  "cipher_key_len C CipherNone = 0" | "cipher_key_len C Aes128Cbc = 16"
| "cipher_key_len C Aes192Cbc = 24" | "cipher_key_len C Aes256Cbc = 32"
| "cipher_key_len C (CipherUnsupported nid) = openssl_cipher_key_len C nid"

fun cipher_iv_len :: "legacy_crypto \<Rightarrow> legacy_cipher_algorithm \<Rightarrow> nat" where
  "cipher_iv_len C CipherNone = 0"
| "cipher_iv_len C (CipherUnsupported nid) = openssl_cipher_iv_len C nid"
| "cipher_iv_len C _ = AES_BLOCK_LEN"

definition key_material_len :: "legacy_crypto \<Rightarrow> legacy_cipher_algorithm \<Rightarrow> nat" where
  "key_material_len C a = cipher_key_len C a + cipher_iv_len C a"

record legacy_cipher =
  lci_algorithm :: legacy_cipher_algorithm
  lci_key_material :: "byte list"

definition legacy_cipher_new :: "legacy_cipher_algorithm \<Rightarrow> byte list \<Rightarrow> legacy_cipher" where
  "legacy_cipher_new a k = \<lparr>lci_algorithm = a, lci_key_material = k\<rparr>"

definition legacy_cipher_none :: legacy_cipher where
  "legacy_cipher_none = legacy_cipher_new CipherNone []"

text \<open>\<^verbatim>\<open>split_at\<close>: key and IV.\<close>

definition aes_key_iv :: "legacy_crypto \<Rightarrow> legacy_cipher \<Rightarrow> legacy_packet_error + byte list \<times> byte list" where
  "aes_key_iv C c =
     (let expected = key_material_len C (lci_algorithm c); k = cipher_key_len C (lci_algorithm c)
      in if length (lci_key_material c) \<noteq> expected
         then Inl (InvalidCipherKeyLength (cipher_nid (lci_algorithm c)) expected
                (length (lci_key_material c)))
         else Inr (take k (lci_key_material c), drop k (lci_key_material c)))"

definition openssl_cipher_crypt ::
  "legacy_crypto \<Rightarrow> int \<Rightarrow> byte list \<Rightarrow> byte list \<Rightarrow> bool \<Rightarrow> legacy_packet_error + byte list" where
  "openssl_cipher_crypt C nid key_material packet encrypt =
     (case openssl_cipher C nid of
        None \<Rightarrow> Inl (UnsupportedCipher nid)
      | Some (key_len, iv_len) \<Rightarrow>
          let iv_len = (case iv_len of Some n \<Rightarrow> n | None \<Rightarrow> 0); expected = key_len + iv_len
          in if length key_material \<noteq> expected
             then Inl (InvalidCipherKeyLength nid expected (length key_material))
             else map_err (CipherFailed nid) (lc_cipher_crypt C nid (take key_len key_material)
                    (if iv_len \<noteq> 0 then Some (drop key_len key_material) else None) packet encrypt))"

definition cipher_encrypt :: "legacy_crypto \<Rightarrow> legacy_cipher \<Rightarrow> byte list \<Rightarrow> legacy_packet_error + byte list" where
  "cipher_encrypt C c packet =
     (case lci_algorithm c of
        CipherNone \<Rightarrow> Inr packet
      | CipherUnsupported nid \<Rightarrow> openssl_cipher_crypt C nid (lci_key_material c) packet True
      | _ \<Rightarrow> map_ok (\<lambda>(key, iv). lc_aes_encrypt C key iv packet) (aes_key_iv C c))"

definition cipher_decrypt :: "legacy_crypto \<Rightarrow> legacy_cipher \<Rightarrow> byte list \<Rightarrow> legacy_packet_error + byte list" where
  "cipher_decrypt C c packet =
     (case lci_algorithm c of
        CipherNone \<Rightarrow> Inr packet
      | CipherUnsupported nid \<Rightarrow> openssl_cipher_crypt C nid (lci_key_material c) packet False
      | a \<Rightarrow> and_then (aes_key_iv C c) (\<lambda>(key, iv).
               map_err (CipherFailed (cipher_nid a)) (lc_aes_decrypt C key iv packet)))"

end
