(* ===== verification/Legacy_Codec.thy ===== *)
theory Legacy_Codec
  imports Legacy_Packet Rust_Map Sptps_Codec
begin

text \<open>
  Digests, packet directions, the state of a legacy peer and the codec over all peers
  (\<^verbatim>\<open>tinc-runtime/src/transport.rs\<close>).  Decoding may move the replay window before it fails,
  so the state is returned with the error.
\<close>

section \<open>Digests\<close>

datatype legacy_digest = DigestNone | Sha1 nat | Sha256 nat | Sha384 nat | Sha512 nat
  | DigestUnsupported int nat

definition openssl_digest_len :: "legacy_crypto \<Rightarrow> int \<Rightarrow> nat option" where
  "openssl_digest_len C nid =
     (case lc_digest C nid of None \<Rightarrow> None
      | Some (raw, len) \<Rightarrow> if raw = 0 then None else Some len)"

definition maximum_length_for_nid :: "legacy_crypto \<Rightarrow> int \<Rightarrow> nat option" where
  "maximum_length_for_nid C nid =
     (if nid = 64 then Some 20 else if nid = 672 then Some 32 else if nid = 673 then Some 48
      else if nid = 674 then Some 64 else openssl_digest_len C nid)"

definition effective_length_for_nid :: "legacy_crypto \<Rightarrow> int \<Rightarrow> nat \<Rightarrow> nat" where
  "effective_length_for_nid C nid requested =
     (case maximum_length_for_nid C nid of
        Some m \<Rightarrow> if requested = USIZE_MAX \<or> m < requested then m else requested
      | None \<Rightarrow> requested)"

definition digest_from_nid :: "legacy_crypto \<Rightarrow> int \<Rightarrow> nat \<Rightarrow> legacy_digest" where
  "digest_from_nid C nid n =
     (if nid \<le> 0 then DigestNone
      else let n = effective_length_for_nid C nid n
           in if nid = 64 then Sha1 n else if nid = 672 then Sha256 n else if nid = 673 then Sha384 n
              else if nid = 674 then Sha512 n else DigestUnsupported nid n)"

definition digest_from_name :: "legacy_crypto \<Rightarrow> string \<Rightarrow> nat \<Rightarrow> legacy_digest option" where
  "digest_from_name C name n =
     (if eq_ignore_case name ''none'' then Some DigestNone
      else if eq_ignore_case name ''sha1'' \<or> eq_ignore_case name ''sha-1'' then Some (digest_from_nid C 64 n)
      else if eq_ignore_case name ''sha256'' \<or> eq_ignore_case name ''sha-256'' then Some (digest_from_nid C 672 n)
      else if eq_ignore_case name ''sha384'' \<or> eq_ignore_case name ''sha-384'' then Some (digest_from_nid C 673 n)
      else if eq_ignore_case name ''sha512'' \<or> eq_ignore_case name ''sha-512'' then Some (digest_from_nid C 674 n)
      else map_option (\<lambda>nid. digest_from_nid C nid n) (lc_digest_by_name C name))"

fun digest_nid :: "legacy_digest \<Rightarrow> int" where
  "digest_nid DigestNone = 0" | "digest_nid (Sha1 _) = 64" | "digest_nid (Sha256 _) = 672"
| "digest_nid (Sha384 _) = 673" | "digest_nid (Sha512 _) = 674"
| "digest_nid (DigestUnsupported nid _) = nid"

fun digest_length :: "legacy_digest \<Rightarrow> nat" where
  "digest_length DigestNone = 0" | "digest_length (Sha1 n) = n" | "digest_length (Sha256 n) = n"
| "digest_length (Sha384 n) = n" | "digest_length (Sha512 n) = n"
| "digest_length (DigestUnsupported _ n) = n"

definition openssl_hmac :: "legacy_crypto \<Rightarrow> int \<Rightarrow> byte list \<Rightarrow> byte list \<Rightarrow> byte list option" where
  "openssl_hmac C nid key packet =
     (case openssl_digest_len C nid of None \<Rightarrow> None | Some _ \<Rightarrow> lc_digest_hmac C nid key packet)"

text \<open>\<^verbatim>\<open>hmac_sha1\<close> and the others differ in the number of the digest only.\<close>

definition hmac_sha :: "legacy_crypto \<Rightarrow> int \<Rightarrow> byte list \<Rightarrow> byte list \<Rightarrow> legacy_packet_error + byte list" where
  "hmac_sha C nid key packet = map_err (DigestFailed nid) (lc_hmac C nid key packet)"

definition digest_create ::
  "legacy_crypto \<Rightarrow> legacy_digest \<Rightarrow> byte list \<Rightarrow> byte list \<Rightarrow> legacy_packet_error + byte list" where
  "digest_create C d key packet =
     (case d of
        DigestNone \<Rightarrow> Inr []
      | DigestUnsupported nid n \<Rightarrow>
          map_ok (take n) (ok_or (UnsupportedDigest nid n) (openssl_hmac C nid key packet))
      | d \<Rightarrow> map_ok (take (digest_length d)) (hmac_sha C (digest_nid d) key packet))"

definition digest_verify ::
  "legacy_crypto \<Rightarrow> legacy_digest \<Rightarrow> byte list \<Rightarrow> byte list \<Rightarrow> byte list \<Rightarrow> legacy_packet_error + unit" where
  "digest_verify C d key packet expected =
     and_then (digest_create C d key packet) (\<lambda>actual.
       if constant_time_eq actual expected then Inr ()
       else Inl (DigestMismatch (digest_nid d) (digest_length d)))"

record legacy_digest_state =
  lds_algorithm :: legacy_digest
  lds_key :: "byte list"

definition digest_state_new :: "legacy_digest \<Rightarrow> byte list \<Rightarrow> legacy_digest_state" where
  "digest_state_new d key = \<lparr>lds_algorithm = d, lds_key = key\<rparr>"

definition digest_append ::
  "legacy_crypto \<Rightarrow> legacy_digest_state \<Rightarrow> byte list \<Rightarrow> legacy_packet_error + byte list" where
  "digest_append C ds packet =
     (if lds_algorithm ds = DigestNone then Inr packet
      else map_ok (\<lambda>mac. packet @ mac) (digest_create C (lds_algorithm ds) (lds_key ds) packet))"

definition verify_and_strip ::
  "legacy_crypto \<Rightarrow> legacy_digest_state \<Rightarrow> byte list \<Rightarrow> legacy_packet_error + byte list" where
  "verify_and_strip C ds packet =
     (if lds_algorithm ds = DigestNone then Inr packet
      else let n = digest_length (lds_algorithm ds)
           in if length packet < n then Inl (LegacyPacketTooShort n (length packet))
              else let body = take (length packet - n) packet; mac = drop (length packet - n) packet
                   in map_ok (\<lambda>_. body) (digest_verify C (lds_algorithm ds) (lds_key ds) body mac))"

definition verify_active_packet ::
  "legacy_crypto \<Rightarrow> legacy_digest_state \<Rightarrow> byte list \<Rightarrow> legacy_packet_error + unit" where
  "verify_active_packet C ds packet =
     (if lds_algorithm ds = DigestNone
      then Inl (DigestMismatch (digest_nid (lds_algorithm ds)) (digest_length (lds_algorithm ds)))
      else map_ok (\<lambda>_. ()) (verify_and_strip C ds packet))"

section \<open>Directions\<close>

record legacy_direction =
  ld_compression :: compression_level
  ld_cipher :: legacy_cipher
  ld_digest :: legacy_digest_state

definition direction_default :: legacy_direction where
  "direction_default = \<lparr>ld_compression = CompNone, ld_cipher = legacy_cipher_none,
     ld_digest = digest_state_new DigestNone []\<rparr>"

text \<open>Only builds without the LZO feature lack a compression.\<close>

definition compression_is_unavailable :: "compression_level \<Rightarrow> bool" where
  "compression_is_unavailable c = False"

text \<open>The end of \<^verbatim>\<open>from_legacy_answer_key\<close>: the key the message carries.\<close>

definition direction_with_key :: "legacy_crypto \<Rightarrow> compression_level \<Rightarrow> legacy_cipher_algorithm
    \<Rightarrow> legacy_digest \<Rightarrow> string \<Rightarrow> legacy_packet_error + legacy_direction" where
  "direction_with_key C compression cipher digest hex =
     (let expected = (if cipher = CipherNone then 1 else key_material_len C cipher);
          key = hex_to_bin hex expected
      in if length key \<noteq> expected then Inl (LegacyKeyMaterialLength expected (length key))
         else Inr \<lparr>ld_compression = compression,
                ld_cipher = legacy_cipher_new cipher (if cipher = CipherNone then [] else key),
                ld_digest = digest_state_new digest key\<rparr>)"

definition direction_from_answer_key ::
  "legacy_crypto \<Rightarrow> answer_key_message \<Rightarrow> legacy_packet_error + legacy_direction" where
  "direction_from_answer_key C m =
     and_then (map_err InvalidCompression (compression_try_from (ak_compression m))) (\<lambda>compression.
     if compression_is_unavailable compression then Inl (UnsupportedCompression compression)
     else let cipher = cipher_from_nid (ak_cipher m)
          in case cipher of
               CipherUnsupported nid \<Rightarrow> Inl (UnsupportedCipher nid)
             | _ \<Rightarrow>
               let requested = ak_mac_length m; digest = digest_from_nid C (ak_digest m) requested
               in case digest of
                    DigestUnsupported nid n \<Rightarrow> Inl (UnsupportedDigest nid n)
                  | _ \<Rightarrow>
                    if requested \<noteq> USIZE_MAX \<and> requested \<noteq> digest_length digest
                    then Inl (InvalidDigestLength (digest_nid digest) requested (digest_length digest))
                    else direction_with_key C compression cipher digest (ak_key m))"

definition lzo_checked :: "legacy_crypto \<Rightarrow> compression_level
    \<Rightarrow> legacy_packet_error + byte list \<Rightarrow> legacy_packet_error + byte list" where
  "lzo_checked C c r =
     (if lc_lzo_init C = LZO_E_OK then r
      else Inl (CompressionFailed c (''lzo_init error '' @ show_int (lc_lzo_init C))))"

definition compress_lzo :: "legacy_crypto \<Rightarrow> byte list \<Rightarrow> compression_level \<Rightarrow> legacy_packet_error + byte list" where
  "compress_lzo C packet c =
     lzo_checked C c (case lc_lzo_compress C (c = LzoHigh) packet of (result, out) \<Rightarrow>
       if result \<noteq> LZO_E_OK then Inl (CompressionFailed c (''lzo error '' @ show_int result))
       else Inr out)"

definition uncompress_lzo :: "legacy_crypto \<Rightarrow> byte list \<Rightarrow> compression_level \<Rightarrow> legacy_packet_error + byte list" where
  "uncompress_lzo C packet c =
     lzo_checked C c (case lc_lzo_decompress C (VPN_MTU + 1) packet of (result, out) \<Rightarrow>
       if result \<noteq> LZO_E_OK then Inl (DecompressionFailed c (''lzo error '' @ show_int result))
       else Inr out)"

definition direction_compress :: "legacy_crypto \<Rightarrow> legacy_direction \<Rightarrow> byte list \<Rightarrow> legacy_packet_error + byte list" where
  "direction_compress C d packet =
     (case zlib_level (ld_compression d) of
        Some level \<Rightarrow> map_err (CompressionFailed (ld_compression d)) (lc_zlib_compress C level packet)
      | None \<Rightarrow>
          (case ld_compression d of
             CompNone \<Rightarrow> Inr packet
           | Lz4 \<Rightarrow> Inr (lc_lz4_compress C packet)
           | LzoLow \<Rightarrow> compress_lzo C packet LzoLow
           | LzoHigh \<Rightarrow> compress_lzo C packet LzoHigh
           | c \<Rightarrow> Inl (UnsupportedCompression c)))"

definition direction_uncompress :: "legacy_crypto \<Rightarrow> legacy_direction \<Rightarrow> byte list \<Rightarrow> legacy_packet_error + byte list" where
  "direction_uncompress C d packet =
     (if zlib_level (ld_compression d) \<noteq> None
      then map_err (DecompressionFailed (ld_compression d)) (lc_zlib_read C (VPN_MTU + 1) packet)
      else case ld_compression d of
             CompNone \<Rightarrow> Inr packet
           | Lz4 \<Rightarrow> map_err (DecompressionFailed Lz4) (lc_lz4_decompress C (VPN_MTU + 1) packet)
           | LzoLow \<Rightarrow> uncompress_lzo C packet LzoLow
           | LzoHigh \<Rightarrow> uncompress_lzo C packet LzoHigh
           | c \<Rightarrow> Inl (UnsupportedCompression c))"

section \<open>Peers\<close>

record legacy_peer_state =
  lp_incoming :: legacy_direction
  lp_outgoing :: legacy_direction
  lp_sent_seqno :: u32
  lp_replay :: legacy_replay_window

definition with_directions :: "legacy_direction \<Rightarrow> legacy_direction \<Rightarrow> nat \<Rightarrow> legacy_peer_state" where
  "with_directions i out n = \<lparr>lp_incoming = i, lp_outgoing = out, lp_sent_seqno = 0,
     lp_replay = legacy_window_new n\<rparr>"

definition legacy_peer_new :: "nat \<Rightarrow> legacy_peer_state" where
  "legacy_peer_new n = with_directions direction_default direction_default n"

definition peer_from_answer_key ::
  "legacy_crypto \<Rightarrow> answer_key_message \<Rightarrow> nat \<Rightarrow> legacy_packet_error + legacy_peer_state" where
  "peer_from_answer_key C m n =
     map_ok (\<lambda>out. with_directions direction_default out n) (direction_from_answer_key C m)"

definition reset_incoming_key_state :: "legacy_peer_state \<Rightarrow> legacy_peer_state" where
  "reset_incoming_key_state p = p\<lparr>lp_replay := legacy_window_reset (lp_replay p)\<rparr>"

definition reset_outgoing_key_state :: "legacy_peer_state \<Rightarrow> legacy_peer_state" where
  "reset_outgoing_key_state p = p\<lparr>lp_sent_seqno := 0\<rparr>"

definition peer_clear_outgoing :: "legacy_peer_state \<Rightarrow> legacy_peer_state" where
  "peer_clear_outgoing p = reset_outgoing_key_state (p\<lparr>lp_outgoing := direction_default\<rparr>)"

text \<open>A refused message leaves the peer as it was.\<close>

definition peer_apply_answer_key ::
  "legacy_crypto \<Rightarrow> answer_key_message \<Rightarrow> legacy_peer_state \<Rightarrow> legacy_packet_error + legacy_peer_state" where
  "peer_apply_answer_key C m p =
     map_ok (\<lambda>d. reset_outgoing_key_state (p\<lparr>lp_outgoing := d\<rparr>)) (direction_from_answer_key C m)"

definition peer_apply_incoming_answer_key ::
  "legacy_crypto \<Rightarrow> answer_key_message \<Rightarrow> legacy_peer_state \<Rightarrow> legacy_packet_error + legacy_peer_state" where
  "peer_apply_incoming_answer_key C m p =
     map_ok (\<lambda>d. reset_incoming_key_state (p\<lparr>lp_incoming := d\<rparr>)) (direction_from_answer_key C m)"

section \<open>The codec\<close>

record legacy_udp_codec =
  lu_peers :: "(string, legacy_peer_state) btree"
  lu_replay_window_bytes :: nat

definition legacy_codec_new :: "nat \<Rightarrow> legacy_udp_codec" where
  "legacy_codec_new n = \<lparr>lu_peers = [], lu_replay_window_bytes = n\<rparr>"

definition legacy_insert_peer ::
  "string \<Rightarrow> legacy_peer_state \<Rightarrow> legacy_udp_codec \<Rightarrow> legacy_peer_state option \<times> legacy_udp_codec" where
  "legacy_insert_peer name p c = (bt_get (lu_peers c) name, c\<lparr>lu_peers := bt_insert name p (lu_peers c)\<rparr>)"

definition legacy_add_peer :: "string \<Rightarrow> legacy_udp_codec \<Rightarrow> legacy_peer_state option \<times> legacy_udp_codec" where
  "legacy_add_peer name c = legacy_insert_peer name (legacy_peer_new (lu_replay_window_bytes c)) c"

definition legacy_remove_peer :: "string \<Rightarrow> legacy_udp_codec \<Rightarrow> legacy_peer_state option \<times> legacy_udp_codec" where
  "legacy_remove_peer name c = (bt_get (lu_peers c) name, c\<lparr>lu_peers := bt_remove name (lu_peers c)\<rparr>)"

definition legacy_clear_outgoing :: "string \<Rightarrow> legacy_udp_codec \<Rightarrow> legacy_udp_codec" where
  "legacy_clear_outgoing name c = c\<lparr>lu_peers := bt_adjust name peer_clear_outgoing (lu_peers c)\<rparr>"

text \<open>\<^verbatim>\<open>entry(peer).or_insert_with(..)\<close>: a refused message leaves a fresh peer behind.\<close>

definition legacy_apply_incoming :: "legacy_crypto \<Rightarrow> string \<Rightarrow> answer_key_message \<Rightarrow> legacy_udp_codec
    \<Rightarrow> (legacy_packet_error + unit) \<times> legacy_udp_codec" where
  "legacy_apply_incoming C name m c =
     (let p = (case bt_get (lu_peers c) name of
                 Some p \<Rightarrow> p | None \<Rightarrow> legacy_peer_new (lu_replay_window_bytes c))
      in case peer_apply_incoming_answer_key C m p of
           Inl e \<Rightarrow> (Inl e, c\<lparr>lu_peers := bt_insert name p (lu_peers c)\<rparr>)
         | Inr p \<Rightarrow> (Inr (), c\<lparr>lu_peers := bt_insert name p (lu_peers c)\<rparr>))"

text \<open>Does a datagram carry the active digest of this peer?\<close>

definition verifies_incoming :: "legacy_crypto \<Rightarrow> byte list \<Rightarrow> legacy_peer_state \<Rightarrow> bool" where
  "verifies_incoming C datagram p \<longleftrightarrow>
     LEGACY_SEQNO_LEN + digest_length (lds_algorithm (ld_digest (lp_incoming p))) \<le> length datagram
     \<and> verify_active_packet C (ld_digest (lp_incoming p)) datagram = Inr ()"

fun match_source :: "legacy_crypto \<Rightarrow> byte list \<Rightarrow> string option \<Rightarrow> (string \<times> legacy_peer_state) list
    \<Rightarrow> string option" where
  "match_source C datagram found [] = found"
| "match_source C datagram found ((name, p) # ps) =
     (if \<not> verifies_incoming C datagram p then match_source C datagram found ps
      else if found \<noteq> None then None
      else match_source C datagram (Some name) ps)"

definition verify_incoming_source :: "legacy_crypto \<Rightarrow> byte list \<Rightarrow> legacy_udp_codec \<Rightarrow> string option" where
  "verify_incoming_source C datagram c = match_source C datagram None (lu_peers c)"

definition verifies_incoming_source_for :: "legacy_crypto \<Rightarrow> string \<Rightarrow> byte list \<Rightarrow> legacy_udp_codec \<Rightarrow> bool" where
  "verifies_incoming_source_for C name datagram c =
     (case bt_get (lu_peers c) name of None \<Rightarrow> False | Some p \<Rightarrow> verifies_incoming C datagram p)"

definition legacy_peer_encode :: "legacy_crypto \<Rightarrow> byte list \<Rightarrow> legacy_peer_state
    \<Rightarrow> legacy_packet_error + byte list \<times> legacy_peer_state" where
  "legacy_peer_encode C data p =
     and_then (direction_compress C (lp_outgoing p) data) (\<lambda>compressed.
       let seqno = lp_sent_seqno p + 1; framed = be32_bytes seqno @ compressed
       in and_then (cipher_encrypt C (ld_cipher (lp_outgoing p)) framed) (\<lambda>encrypted.
          map_ok (\<lambda>datagram. (datagram, p\<lparr>lp_sent_seqno := seqno\<rparr>))
            (digest_append C (ld_digest (lp_outgoing p)) encrypted)))"

definition legacy_encode :: "legacy_crypto \<Rightarrow> string \<Rightarrow> vpn_packet \<Rightarrow> legacy_udp_codec
    \<Rightarrow> (transport_error + byte list) \<times> legacy_udp_codec" where
  "legacy_encode C target packet c =
     (case bt_get (lu_peers c) target of
        None \<Rightarrow> (Inl (transport_of_legacy (UnknownPeer target)), c)
      | Some p \<Rightarrow>
          (case legacy_peer_encode C (vp_data packet) p of
             Inl e \<Rightarrow> (Inl (transport_of_legacy e), c)
           | Inr (datagram, p) \<Rightarrow> (Inr datagram, c\<lparr>lu_peers := bt_adjust target (\<lambda>_. p) (lu_peers c)\<rparr>)))"

text \<open>The authenticated and decrypted datagram, before the window is consulted.\<close>

definition legacy_plaintext :: "legacy_crypto \<Rightarrow> byte list \<Rightarrow> legacy_direction \<Rightarrow> legacy_packet_error + byte list" where
  "legacy_plaintext C datagram d =
     (let minimum = LEGACY_SEQNO_LEN + digest_length (lds_algorithm (ld_digest d))
      in if length datagram < minimum then Inl (LegacyPacketTooShort minimum (length datagram))
         else and_then (verify_and_strip C (ld_digest d) datagram) (\<lambda>authenticated.
              and_then (cipher_decrypt C (ld_cipher d) authenticated) (\<lambda>decrypted.
              if length decrypted < LEGACY_SEQNO_LEN
              then Inl (LegacyPacketTooShort LEGACY_SEQNO_LEN (length decrypted))
              else Inr decrypted)))"

definition legacy_peer_decode :: "legacy_crypto \<Rightarrow> byte list \<Rightarrow> legacy_peer_state
    \<Rightarrow> (legacy_packet_error + vpn_packet) \<times> legacy_peer_state" where
  "legacy_peer_decode C datagram p =
     (case legacy_plaintext C datagram (lp_incoming p) of
        Inl e \<Rightarrow> (Inl e, p)
      | Inr decrypted \<Rightarrow>
          (case legacy_accept (seqno_of decrypted) (lp_replay p) of
             (Inl e, w) \<Rightarrow> (Inl e, p\<lparr>lp_replay := w\<rparr>)
           | (Inr _, w) \<Rightarrow>
               let p = p\<lparr>lp_replay := w\<rparr>;
                   p = (if MAX_LEGACY_SEQNO < lw_received_seqno w then reset_incoming_key_state p else p)
               in (and_then (direction_uncompress C (lp_incoming p) (drop LEGACY_SEQNO_LEN decrypted))
                     (\<lambda>payload. map_err LegacyPacket (vpn_packet_new payload)), p)))"

definition legacy_decode :: "legacy_crypto \<Rightarrow> string \<Rightarrow> byte list \<Rightarrow> legacy_udp_codec
    \<Rightarrow> (transport_error + vpn_packet) \<times> legacy_udp_codec" where
  "legacy_decode C source datagram c =
     (case bt_get (lu_peers c) source of
        None \<Rightarrow> (Inl (transport_of_legacy (UnknownPeer source)), c)
      | Some p \<Rightarrow>
          (case legacy_peer_decode C datagram p of
             (r, p) \<Rightarrow> (map_err transport_of_legacy r,
               c\<lparr>lu_peers := bt_adjust source (\<lambda>_. p) (lu_peers c)\<rparr>)))"

end
