(* ===== verification/Legacy_Props.thy ===== *)
theory Legacy_Props
  imports Legacy_Codec Sptps_Props
begin

text \<open>
  What the legacy codec promises: a packet encoded for a peer is returned by the peer's decoder
  exactly when the replay window takes its number; what is decoded was authenticated; a source is
  named only when it is the only one whose digest fits; and installed keys are usable.
\<close>

section \<open>Laws of the libraries\<close>

definition sha_lengths :: "int \<Rightarrow> nat" where
  "sha_lengths nid = (if nid = 64 then 20 else if nid = 672 then 32 else if nid = 673 then 48 else 64)"

definition compression_laws :: "legacy_crypto \<Rightarrow> bool" where
  "compression_laws C \<longleftrightarrow>
     (\<forall>level p z n. lc_zlib_compress C level p = Inr z \<longrightarrow> lc_zlib_read C n z = Inr (take n p))
     \<and> (\<forall>p n. length p \<le> n \<longrightarrow> lc_lz4_decompress C n (lc_lz4_compress C p) = Inr p)
     \<and> (\<forall>high p z n. lc_lzo_compress C high p = (LZO_E_OK, z) \<longrightarrow> length p \<le> n
          \<longrightarrow> lc_lzo_decompress C n z = (LZO_E_OK, p))"

definition cipher_laws :: "legacy_crypto \<Rightarrow> bool" where
  "cipher_laws C \<longleftrightarrow>
     (\<forall>k iv p. length k \<in> {16, 24, 32} \<longrightarrow> length iv = 16
        \<longrightarrow> lc_aes_decrypt C k iv (lc_aes_encrypt C k iv p) = Inr p)
     \<and> (\<forall>nid k iv p e. lc_cipher_crypt C nid k iv p True = Inr e \<longrightarrow> lc_cipher_crypt C nid k iv e False = Inr p)"

definition mac_laws :: "legacy_crypto \<Rightarrow> bool" where
  "mac_laws C \<longleftrightarrow>
     (\<forall>nid k p h. nid \<in> {64, 672, 673, 674} \<longrightarrow> lc_hmac C nid k p = Inr h \<longrightarrow> length h = sha_lengths nid)
     \<and> (\<forall>nid k p h. lc_digest_hmac C nid k p = Some h \<longrightarrow> openssl_digest_len C nid = Some (length h))"

definition legacy_laws :: "legacy_crypto \<Rightarrow> bool" where
  "legacy_laws C \<longleftrightarrow> compression_laws C \<and> cipher_laws C \<and> mac_laws C"

text \<open>The length a digest is cut to is at most the length it has.\<close>

definition digest_ok :: "legacy_crypto \<Rightarrow> legacy_digest \<Rightarrow> bool" where
  "digest_ok C d \<longleftrightarrow>
     (case d of DigestNone \<Rightarrow> True
      | DigestUnsupported nid n \<Rightarrow> (\<forall>m. openssl_digest_len C nid = Some m \<longrightarrow> n \<le> m)
      | d \<Rightarrow> digest_length d \<le> sha_lengths (digest_nid d))"

definition cipher_ok :: "legacy_crypto \<Rightarrow> legacy_cipher \<Rightarrow> bool" where
  "cipher_ok C c \<longleftrightarrow> (case lci_algorithm c of
      CipherNone \<Rightarrow> True
    | CipherUnsupported nid \<Rightarrow> True
    | a \<Rightarrow> length (lci_key_material c) = key_material_len C a)"

definition direction_ok :: "legacy_crypto \<Rightarrow> legacy_direction \<Rightarrow> bool" where
  "direction_ok C d \<longleftrightarrow> cipher_ok C (ld_cipher d) \<and> digest_ok C (lds_algorithm (ld_digest d))"

section \<open>The layers\<close>

lemma uncompress_compress:
  assumes "compression_laws C" "length data \<le> VPN_MTU" "direction_compress C d data = Inr z"
  shows "direction_uncompress C d z = Inr data"
proof -
  have zlib: "lc_zlib_compress C level data = Inr z \<Longrightarrow> lc_zlib_read C (VPN_MTU + 1) z = Inr data" for level
    using assms(1,2) by (simp add: compression_laws_def)
  have lz4: "lc_lz4_decompress C (VPN_MTU + 1) (lc_lz4_compress C data) = Inr data"
    using assms(1,2) by (simp add: compression_laws_def)
  have lzo: "lc_lzo_compress C high data = (LZO_E_OK, z) \<Longrightarrow>
      lc_lzo_decompress C (VPN_MTU + 1) z = (LZO_E_OK, data)" for high
  proof -
    assume z: "lc_lzo_compress C high data = (LZO_E_OK, z)"
    have "length data \<le> VPN_MTU + 1" using assms(2) by simp
    with z assms(1) show ?thesis unfolding compression_laws_def by blast
  qed
  show ?thesis
    using assms(3) zlib lz4 lzo
    by (cases "ld_compression d")
      (auto simp: direction_compress_def direction_uncompress_def map_err_def compress_lzo_def
        uncompress_lzo_def lzo_checked_def split: sum.splits prod.splits if_splits)
qed

lemma decrypt_cipher:
  assumes "cipher_laws C" "cipher_ok C c" "cipher_encrypt C c p = Inr e"
  shows "cipher_decrypt C c e = Inr p"
proof -
  have aes: "lc_aes_decrypt C k iv (lc_aes_encrypt C k iv p) = Inr p"
    if "length k \<in> {16, 24, 32}" "length iv = 16" for k iv
    using assms(1) that unfolding cipher_laws_def by blast
  have ossl: "lc_cipher_crypt C nid k iv p True = Inr e \<Longrightarrow> lc_cipher_crypt C nid k iv e False = Inr p"
    for nid k iv using assms(1) unfolding cipher_laws_def by blast
  show ?thesis
    using assms(2,3) aes ossl
    by (cases "lci_algorithm c")
      (auto simp: cipher_ok_def cipher_encrypt_def cipher_decrypt_def aes_key_iv_def key_material_len_def
        AES_BLOCK_LEN_def openssl_cipher_crypt_def map_err_def Let_def
        split: option.splits sum.splits if_splits)
qed

lemma digest_create_length:
  assumes "mac_laws C" "digest_ok C d" "digest_create C d k p = Inr mac"
  shows "length mac = digest_length d"
proof -
  have sha: "lc_hmac C nid k p = Inr h \<Longrightarrow> nid \<in> {64, 672, 673, 674} \<Longrightarrow> length h = sha_lengths nid"
    for nid h using assms(1) unfolding mac_laws_def by blast
  have ossl: "lc_digest_hmac C nid k p = Some h \<Longrightarrow> openssl_digest_len C nid = Some (length h)"
    for nid h using assms(1) unfolding mac_laws_def by blast
  show ?thesis
    using assms(2,3) sha ossl
    by (cases d) (auto simp: digest_ok_def digest_create_def hmac_sha_def openssl_hmac_def map_err_def
        ok_or_def min_def split: sum.splits option.splits)
qed

lemma strip_append:
  assumes "mac_laws C" "digest_ok C (lds_algorithm ds)" "digest_append C ds p = Inr d"
  shows "verify_and_strip C ds d = Inr p"
    and "length p + digest_length (lds_algorithm ds) = length d"
proof -
  have "verify_and_strip C ds d = Inr p \<and> length p + digest_length (lds_algorithm ds) = length d"
  proof (cases "lds_algorithm ds = DigestNone")
    case True
    with assms(3) show ?thesis by (simp add: digest_append_def verify_and_strip_def)
  next
    case False
    with assms(3) obtain mac where mac: "digest_create C (lds_algorithm ds) (lds_key ds) p = Inr mac"
      and d: "d = p @ mac" by (auto simp: digest_append_def map_ok_Inr)
    note digest_create_length [OF assms(1,2) mac]
    with False mac d show ?thesis by (simp add: verify_and_strip_def digest_verify_def Let_def)
  qed
  then show "verify_and_strip C ds d = Inr p"
    "length p + digest_length (lds_algorithm ds) = length d" by simp_all
qed

section \<open>Delivery\<close>

lemma plaintext_of_encoded:
  assumes "legacy_laws C" "direction_ok C d"
    and "cipher_encrypt C (ld_cipher d) framed = Inr e" "digest_append C (ld_digest d) e = Inr datagram"
    and "LEGACY_SEQNO_LEN \<le> length framed" "LEGACY_SEQNO_LEN \<le> length e"
  shows "legacy_plaintext C datagram d = Inr framed"
proof -
  from assms(1) have laws: "cipher_laws C" "mac_laws C" by (simp_all add: legacy_laws_def)
  from assms(2) have ok: "cipher_ok C (ld_cipher d)" "digest_ok C (lds_algorithm (ld_digest d))"
    by (simp_all add: direction_ok_def)
  note strip = strip_append [OF laws(2) ok(2) assms(4)]
  show ?thesis
    using strip assms(5,6) decrypt_cipher [OF laws(1) ok(1) assms(3)]
    by (simp add: legacy_plaintext_def Let_def)
qed

text \<open>
  The source asks for four bytes besides the digest before it decrypts: ciphers whose output is
  not shorter than their input satisfy this.
\<close>

definition cipher_expands :: "legacy_crypto \<Rightarrow> bool" where
  "cipher_expands C \<longleftrightarrow>
     (\<forall>k iv p. length p \<le> length (lc_aes_encrypt C k iv p))
     \<and> (\<forall>nid k iv p e. lc_cipher_crypt C nid k iv p True = Inr e \<longrightarrow> length p \<le> length e)"

lemma encrypt_expands:
  assumes "cipher_expands C" "cipher_encrypt C c p = Inr e"
  shows "length p \<le> length e"
proof -
  have aes: "length p \<le> length (lc_aes_encrypt C k iv p)" for k iv
    using assms(1) unfolding cipher_expands_def by blast
  have ossl: "lc_cipher_crypt C nid k iv p True = Inr e \<Longrightarrow> length p \<le> length e" for nid k iv
    using assms(1) unfolding cipher_expands_def by blast
  show ?thesis
    using assms(2) aes ossl
    by (cases "lci_algorithm c")
      (auto simp: cipher_encrypt_def openssl_cipher_crypt_def map_err_def map_ok_Inr Let_def
        split: option.splits sum.splits if_splits)
qed

lemma peer_encode_Inr:
  assumes "legacy_peer_encode C data p = Inr (datagram, p')"
  obtains z e where "direction_compress C (lp_outgoing p) data = Inr z"
    "cipher_encrypt C (ld_cipher (lp_outgoing p)) (be32_bytes (lp_sent_seqno p + 1) @ z) = Inr e"
    "digest_append C (ld_digest (lp_outgoing p)) e = Inr datagram"
    "p' = p\<lparr>lp_sent_seqno := lp_sent_seqno p + 1\<rparr>"
  using assms by (auto simp: legacy_peer_encode_def and_then_Inr map_ok_Inr Let_def)

lemma delivered_if_accepted:
  assumes "legacy_laws C" "cipher_expands C" "direction_ok C (lp_outgoing p)"
    and "lp_incoming q = lp_outgoing p" "length data \<le> VPN_MTU"
    and enc: "legacy_peer_encode C data p = Inr (datagram, p')"
  shows "fst (legacy_peer_decode C datagram q)
      = map_ok (\<lambda>_. \<lparr>vp_data = data, vp_priority = 0\<rparr>) (fst (legacy_accept (lp_sent_seqno p + 1) (lp_replay q)))
    \<and> lp_sent_seqno p' = lp_sent_seqno p + 1 \<and> lp_outgoing p' = lp_outgoing p
    \<and> (lp_sent_seqno p = lw_received_seqno (lp_replay q)
        \<longrightarrow> fst (legacy_accept (lp_sent_seqno p + 1) (lp_replay q)) = Inr ())"
proof -
  from enc obtain z e where z: "direction_compress C (lp_outgoing p) data = Inr z"
    and e: "cipher_encrypt C (ld_cipher (lp_outgoing p)) (be32_bytes (lp_sent_seqno p + 1) @ z) = Inr e"
    and d: "digest_append C (ld_digest (lp_outgoing p)) e = Inr datagram"
    and p': "p' = p\<lparr>lp_sent_seqno := lp_sent_seqno p + 1\<rparr>" by (rule peer_encode_Inr)
  let ?f = "be32_bytes (lp_sent_seqno p + 1) @ z"
  have "length ?f \<le> length e" by (rule encrypt_expands [OF assms(2) e])
  then have plain: "legacy_plaintext C datagram (lp_outgoing p) = Inr ?f"
    using plaintext_of_encoded [OF assms(1,3) e d] by (simp add: LEGACY_SEQNO_LEN_def)
  have "compression_laws C" using assms(1) by (simp add: legacy_laws_def)
  from uncompress_compress [OF this assms(5) z]
  have un: "direction_uncompress C (lp_outgoing p) z = Inr data" .
  obtain r w where rw: "legacy_accept (lp_sent_seqno p + 1) (lp_replay q) = (r, w)"
    by (cases "legacy_accept (lp_sent_seqno p + 1) (lp_replay q)")
  have "fst (legacy_peer_decode C datagram q)
      = map_ok (\<lambda>_. \<lparr>vp_data = data, vp_priority = 0\<rparr>) r"
    using plain un rw assms(4,5)
    by (cases r) (simp_all add: legacy_peer_decode_def LEGACY_SEQNO_LEN_def reset_incoming_key_state_def
        vpn_packet_new_def Let_def)
  moreover have "fst (legacy_accept (lp_sent_seqno p + 1) (lp_replay q)) = Inr ()"
    if "lp_sent_seqno p = lw_received_seqno (lp_replay q)"
    using that by (simp add: legacy_accept_def Let_def)
  ultimately show ?thesis using rw p' by simp
qed


section \<open>Authenticity\<close>


section \<open>Sources\<close>

definition verifying :: "legacy_crypto \<Rightarrow> byte list \<Rightarrow> (string \<times> legacy_peer_state) list
    \<Rightarrow> (string \<times> legacy_peer_state) list" where
  "verifying C d ps = filter (\<lambda>x. verifies_incoming C d (snd x)) ps"

lemma match_source_found:
  "match_source C d (Some n) ps = (if verifying C d ps = [] then Some n else None)"
  by (induction ps) (auto simp: verifying_def)

lemma match_source_none:
  "match_source C d None ps = (case verifying C d ps of [x] \<Rightarrow> Some (fst x) | _ \<Rightarrow> None)"
proof (induction ps)
  case (Cons x ps)
  then show ?case
    by (cases x) (auto simp: match_source_found verifying_def split: list.splits)
qed (simp add: verifying_def)

lemma single_key: "distinct (map fst xs) \<Longrightarrow> fst ` set xs = {k} \<longleftrightarrow> (\<exists>v. xs = [(k, v)])"
proof
  assume "distinct (map fst xs)" "fst ` set xs = {k}"
  then have "length (map fst xs) = 1" using distinct_card [of "map fst xs"] by simp
  then obtain x where "xs = [x]" by (cases xs) auto
  with \<open>fst ` set xs = {k}\<close> show "\<exists>v. xs = [(k, v)]" by (cases x) auto
qed auto

text \<open>
  A datagram from an unknown address is attributed to a peer exactly when this peer, and no
  other, has an active digest that the datagram carries; the replay windows are not touched.
\<close>

theorem incoming_source_unique:
  assumes "bt_ok (lu_peers c)"
  shows "verify_incoming_source C datagram c = Some name
    \<longleftrightarrow> {n. verifies_incoming_source_for C n datagram c} = {name}"
proof -
  let ?v = "verifying C datagram (lu_peers c)"
  have dist: "distinct (map fst ?v)"
    using bt_ok_distinct [OF assms] by (simp add: verifying_def distinct_map_filter)
  have "n \<in> fst ` set ?v \<longleftrightarrow> verifies_incoming_source_for C n datagram c" for n
  proof (cases "bt_get (lu_peers c) n")
    case None
    then have "n \<notin> fst ` set (lu_peers c)" by (simp add: bt_get_def map_of_eq_None_iff)
    with None show ?thesis by (auto simp: verifies_incoming_source_for_def verifying_def)
  next
    case (Some p)
    have "(n, p') \<in> set (lu_peers c) \<longleftrightarrow> p' = p" for p'
      using bt_get_Some_iff [OF assms, of n p'] Some by auto
    with Some show ?thesis by (auto simp: verifies_incoming_source_for_def verifying_def image_iff)
  qed
  then have "{n. verifies_incoming_source_for C n datagram c} = fst ` set ?v" by blast
  moreover have "verify_incoming_source C datagram c = Some name \<longleftrightarrow> (\<exists>v. ?v = [(name, v)])"
    by (auto simp: verify_incoming_source_def match_source_none split: list.splits)
  ultimately show ?thesis using single_key [OF dist] by simp
qed

section \<open>Keys\<close>

lemma digest_from_nid_ok: "digest_ok C (digest_from_nid C nid n)"
  by (auto simp: digest_ok_def digest_from_nid_def effective_length_for_nid_def
      maximum_length_for_nid_def sha_lengths_def Let_def split: option.splits)

lemma answer_key_direction_ok:
  assumes "direction_from_answer_key C m = Inr d"
  shows "direction_ok C d"
    and "lds_algorithm (ld_digest d) = digest_from_nid C (ak_digest m) (ak_mac_length m)"
    and "lci_algorithm (ld_cipher d) = cipher_from_nid (ak_cipher m)"
proof -
  define cipher where "cipher = cipher_from_nid (ak_cipher m)"
  define digest where "digest = digest_from_nid C (ak_digest m) (ak_mac_length m)"
  from assms obtain compression where d: "direction_with_key C compression cipher digest (ak_key m) = Inr d"
    by (auto simp: direction_from_answer_key_def and_then_Inr Let_def cipher_def digest_def
        split: if_splits legacy_cipher_algorithm.splits legacy_digest.splits)
  have "digest_ok C digest" unfolding digest_def by (rule digest_from_nid_ok)
  with d show "direction_ok C d"
    by (auto simp: direction_with_key_def direction_ok_def cipher_ok_def digest_state_new_def
        legacy_cipher_new_def Let_def split: if_splits legacy_cipher_algorithm.splits)
  from d show "lds_algorithm (ld_digest d) = digest_from_nid C (ak_digest m) (ak_mac_length m)"
    "lci_algorithm (ld_cipher d) = cipher_from_nid (ak_cipher m)"
    by (auto simp: direction_with_key_def digest_state_new_def legacy_cipher_new_def Let_def
        cipher_def digest_def split: if_splits)
qed

primrec legacy_exchange :: "legacy_crypto \<Rightarrow> byte list list \<Rightarrow> legacy_peer_state \<Rightarrow> legacy_peer_state
    \<Rightarrow> (legacy_packet_error + vpn_packet) list" where
  "legacy_exchange C [] p q = []"
| "legacy_exchange C (data # ps) p q =
     (case legacy_peer_encode C data p of
        Inl e \<Rightarrow> Inl e # legacy_exchange C ps p q
      | Inr (datagram, p') \<Rightarrow>
          (case legacy_peer_decode C datagram q of (r, q') \<Rightarrow> r # legacy_exchange C ps p' q'))"

lemma accept_next_seqno:
  assumes "lw_received_seqno w = s" "unat s < 1073741824"
  shows "\<exists>w'. legacy_accept (s + 1) w = (Inr (), w') \<and> lw_received_seqno w' = s + 1"
proof -
  have "s \<noteq> U32_MAX" using assms(2) by (auto simp: U32_MAX_def)
  then have "s < s + 1" using unat_succ [of s] by (simp add: word_less_nat_alt)
  with assms(1) show ?thesis by (simp add: legacy_accept_def legacy_commit_def Let_def)
qed

lemma decode_next:
  assumes "legacy_laws C" "cipher_expands C" "direction_ok C (lp_outgoing p)"
    and "lp_incoming q = lp_outgoing p" "length data \<le> VPN_MTU"
    and enc: "legacy_peer_encode C data p = Inr (datagram, p')"
    and seq: "lw_received_seqno (lp_replay q) = lp_sent_seqno p" "unat (lp_sent_seqno p) < 1073741824"
  shows "\<exists>q'. legacy_peer_decode C datagram q = (Inr \<lparr>vp_data = data, vp_priority = 0\<rparr>, q')
    \<and> lp_incoming q' = lp_incoming q \<and> lw_received_seqno (lp_replay q') = lp_sent_seqno p + 1"
proof -
  from accept_next_seqno [OF seq] obtain w' where w: "legacy_accept (lp_sent_seqno p + 1) (lp_replay q) = (Inr (), w')"
    and r: "lw_received_seqno w' = lp_sent_seqno p + 1" by blast
  obtain x q' where dec: "legacy_peer_decode C datagram q = (x, q')"
    by (cases "legacy_peer_decode C datagram q")
  have x: "x = Inr \<lparr>vp_data = data, vp_priority = 0\<rparr>"
    using delivered_if_accepted [OF assms(1-6)] dec w by simp
  from enc obtain z e where
    e: "cipher_encrypt C (ld_cipher (lp_outgoing p)) (be32_bytes (lp_sent_seqno p + 1) @ z) = Inr e"
    and d: "digest_append C (ld_digest (lp_outgoing p)) e = Inr datagram" by (rule peer_encode_Inr)
  have "legacy_plaintext C datagram (lp_outgoing p) = Inr (be32_bytes (lp_sent_seqno p + 1) @ z)"
    using plaintext_of_encoded [OF assms(1,3) e d] encrypt_expands [OF assms(2) e]
    by (simp add: LEGACY_SEQNO_LEN_def)
  moreover have "unat (lp_sent_seqno p + 1) = unat (lp_sent_seqno p) + 1"
    by (rule unat_succ) (use seq(2) in \<open>auto simp: U32_MAX_def\<close>)
  then have "\<not> MAX_LEGACY_SEQNO < lw_received_seqno w'"
    using seq(2) r by (simp add: word_less_nat_alt MAX_LEGACY_SEQNO_def)
  ultimately have "lp_incoming q' = lp_incoming q \<and> lp_replay q' = w'"
    using dec w assms(4) by (auto simp: legacy_peer_decode_def Let_def)
  with dec x r show ?thesis by simp
qed

text \<open>What a run may return: the packet, or an error the encoder itself had.\<close>

definition own_or_encoder_error :: "legacy_crypto \<Rightarrow> legacy_direction \<Rightarrow> byte list
    \<Rightarrow> legacy_packet_error + vpn_packet \<Rightarrow> bool" where
  "own_or_encoder_error C d data r \<longleftrightarrow>
     (case r of Inr packet \<Rightarrow> packet = \<lparr>vp_data = data, vp_priority = 0\<rparr>
      | Inl e \<Rightarrow> (\<exists>p. lp_outgoing p = d \<and> legacy_peer_encode C data p = Inl e))"

lemma exchange_delivers:
  assumes "legacy_laws C" "cipher_expands C" "direction_ok C d"
  shows "lp_outgoing p = d \<Longrightarrow> lp_incoming q = d \<Longrightarrow> \<forall>data \<in> set ps. length data \<le> VPN_MTU \<Longrightarrow>
    lw_received_seqno (lp_replay q) = lp_sent_seqno p \<Longrightarrow>
    unat (lp_sent_seqno p) + length ps \<le> 1073741824 \<Longrightarrow>
    list_all2 (own_or_encoder_error C d) ps (legacy_exchange C ps p q)"
proof (induction ps arbitrary: p q)
  case (Cons data ps)
  show ?case
  proof (cases "legacy_peer_encode C data p")
    case (Inl e)
    then show ?thesis using Cons by (auto simp: own_or_encoder_error_def)
  next
    case (Inr x)
    obtain datagram p' where x: "x = (datagram, p')" by (cases x)
    with Inr have enc: "legacy_peer_encode C data p = Inr (datagram, p')" by simp
    then have p': "p' = p\<lparr>lp_sent_seqno := lp_sent_seqno p + 1\<rparr>" by (rule peer_encode_Inr)
    have lt: "unat (lp_sent_seqno p) < 1073741824" using Cons.prems(5) by simp
    from decode_next [OF assms(1,2) _ _ _ enc Cons.prems(4) lt] Cons.prems assms(3) obtain q'
      where q': "legacy_peer_decode C datagram q = (Inr \<lparr>vp_data = data, vp_priority = 0\<rparr>, q')"
        "lp_incoming q' = d" "lw_received_seqno (lp_replay q') = lp_sent_seqno p + 1" by auto
    have "unat (lp_sent_seqno p + 1) = unat (lp_sent_seqno p) + 1"
      by (rule unat_succ) (use lt in \<open>auto simp: U32_MAX_def\<close>)
    with Cons.IH [of p' q'] Cons.prems q' p' enc show ?thesis
      by (simp add: own_or_encoder_error_def)
  qed
qed simp

text \<open>
  Once one side has installed an \<^verbatim>\<open>ANS_KEY\<close> message for what it receives and the other
  the same message for what it sends, up to \<open>2 ^ 30\<close> packets the other side then encodes are each
  decoded, in order, to themselves; the only packets missing are those its own encoder refused.
\<close>

theorem answer_key_connects:
  assumes "legacy_laws C" "cipher_expands C"
    and "peer_apply_answer_key C m p = Inr p'" "peer_apply_incoming_answer_key C m q = Inr q'"
    and "\<forall>data \<in> set ps. length data \<le> VPN_MTU" "length ps \<le> 1073741824"
  shows "list_all2 (own_or_encoder_error C (lp_outgoing p')) ps (legacy_exchange C ps p' q')"
proof -
  from assms(3,4) obtain d where d: "direction_from_answer_key C m = Inr d"
    and p': "p' = reset_outgoing_key_state (p\<lparr>lp_outgoing := d\<rparr>)"
    and q': "q' = reset_incoming_key_state (q\<lparr>lp_incoming := d\<rparr>)"
    by (auto simp: peer_apply_answer_key_def peer_apply_incoming_answer_key_def map_ok_Inr)
  have out: "lp_outgoing p' = d" by (simp add: p' reset_outgoing_key_state_def)
  show ?thesis
    unfolding out
    by (rule exchange_delivers [OF assms(1,2) answer_key_direction_ok(1) [OF d] out])
      (use assms(5,6) in \<open>simp_all add: p' q' reset_outgoing_key_state_def
        reset_incoming_key_state_def legacy_window_reset_def\<close>)
qed

text \<open>
  Past the last sequence number the window is reset but the keys are kept: packet 1 of the same
  key, long received, is taken again, and the packets that follow in order are refused as far in
  the future, all but one in \<open>n div 4 + 1\<close>.
\<close>

lemma rollover_replays:
  assumes "legacy_refines n w a" "4 \<le> n" "8 * n \<le> 1073741824" "MAX_LEGACY_SEQNO < s" "s \<noteq> U32_MAX"
  shows "fst (legacy_accept 1 (legacy_window_reset w)) = Inr ()"
    and "fst (legacy_accept s (legacy_window_reset w)) = Inl (LegacyFarFuture s 0 (s - 1) 1)"
proof -
  note step = legacy_step_refines [OF legacy_reset_refines [OF assms(1)]]
  show "fst (legacy_accept 1 (legacy_window_reset w)) = Inr ()"
    using step [of 1] assms(2) by (simp add: U32_MAX_def legacy_spec_accept_def legacy_spec_new_def)
  have s: "1073741824 < unat s" using assms(4) by (simp add: word_less_nat_alt MAX_LEGACY_SEQNO_def)
  then have "(of_nat (unat s - 1) :: u32) = s - 1"
    by (simp add: of_nat_diff)
  then show "fst (legacy_accept s (legacy_window_reset w)) = Inl (LegacyFarFuture s 0 (s - 1) 1)"
    using step [OF assms(5)] assms(2,3) s
    by (simp add: legacy_spec_accept_def legacy_spec_new_def)
qed

section \<open>An instance\<close>

text \<open>Libraries that store their input: enough to run the codec.\<close>

definition demo_legacy :: legacy_crypto where
  "demo_legacy = \<lparr>lc_aes_encrypt = \<lambda>k iv p. p, lc_aes_decrypt = \<lambda>k iv p. Inr p,
     lc_hmac = \<lambda>nid k p. Inr (replicate (sha_lengths nid) (sum_list p)),
     lc_cipher_by_name = \<lambda>_. None, lc_cipher = \<lambda>_. None,
     lc_cipher_crypt = \<lambda>_ _ _ p _. Inr p, lc_digest_by_name = \<lambda>_. None, lc_digest = \<lambda>_. None,
     lc_digest_hmac = \<lambda>_ _ _. None, lc_zlib_compress = \<lambda>_ p. Inr p, lc_zlib_read = \<lambda>n p. Inr (take n p),
     lc_lz4_compress = \<lambda>p. p, lc_lz4_decompress = \<lambda>n p. Inr p, lc_lzo_init = 0,
     lc_lzo_compress = \<lambda>_ p. (0, p), lc_lzo_decompress = \<lambda>_ p. (0, p)\<rparr>"

lemma demo_legacy_laws: "legacy_laws demo_legacy" "cipher_expands demo_legacy"
  by (auto simp: legacy_laws_def compression_laws_def cipher_laws_def mac_laws_def
      cipher_expands_def demo_legacy_def LZO_E_OK_def)

definition demo_answer_key :: answer_key_message where
  "demo_answer_key = \<lparr>ak_from = ''a'', ak_to = ''b'', ak_key = ''AB'', ak_cipher = 0, ak_digest = 64,
     ak_mac_length = 4, ak_compression = 1, ak_address = None\<rparr>"

definition demo_direction :: legacy_direction where
  "demo_direction = \<lparr>ld_compression = Zlib1, ld_cipher = legacy_cipher_none,
     ld_digest = digest_state_new (Sha1 4) [0xab]\<rparr>"

lemma demo_direction_installed: "direction_from_answer_key demo_legacy demo_answer_key = Inr demo_direction"
proof -
  have "hex_to_bin ''AB'' 1 = [0xab]" by code_simp
  then show ?thesis
    by (simp add: direction_from_answer_key_def demo_answer_key_def compression_try_from_def
        compression_levels_def compression_is_unavailable_def cipher_from_nid_def digest_from_nid_def
        effective_length_for_nid_def maximum_length_for_nid_def USIZE_MAX_def direction_with_key_def
        demo_direction_def legacy_cipher_none_def Let_def)
qed

lemma demo_direction_ok: "direction_ok demo_legacy demo_direction"
  by (rule answer_key_direction_ok(1) [OF demo_direction_installed])

definition demo_sender :: legacy_peer_state where
  "demo_sender = with_directions direction_default demo_direction 32"

definition demo_receiver :: legacy_peer_state where
  "demo_receiver = with_directions demo_direction direction_default 32"

lemma be32_bytes_1: "be32_bytes 1 = [0, 0, 0, 1]"
  by (simp add: be32_bytes_def)

lemma replicate_4: "replicate 4 x = [x, x, x, x]"
  by (simp add: numeral_eq_Suc)

lemma demo_encode:
  "legacy_peer_encode demo_legacy [7, 8] demo_sender
    = Inr ([0, 0, 0, 1, 7, 8, 16, 16, 16, 16], demo_sender\<lparr>lp_sent_seqno := 1\<rparr>)"
  by (simp add: legacy_peer_encode_def demo_sender_def with_directions_def demo_direction_def
      direction_compress_def demo_legacy_def cipher_encrypt_def legacy_cipher_none_def
      legacy_cipher_new_def digest_append_def digest_state_new_def digest_create_def hmac_sha_def
      sha_lengths_def be32_bytes_1 replicate_4)



theorem incoming_source_unique_witness:
  "verify_incoming_source demo_legacy [0, 0, 0, 1, 7, 8, 16, 16, 16, 16]
     \<lparr>lu_peers = [(''a'', demo_receiver), (''b'', demo_sender)], lu_replay_window_bytes = 32\<rparr> = Some ''a''"
proof -
  let ?c = "\<lparr>lu_peers = [(''a'', demo_receiver), (''b'', demo_sender)], lu_replay_window_bytes = 32\<rparr>"
  have ok: "bt_ok (lu_peers ?c)" by (simp add: bt_ok_def)
  have "verifies_incoming_source_for demo_legacy n [0, 0, 0, 1, 7, 8, 16, 16, 16, 16] ?c \<longleftrightarrow> n = ''a''" for n
    by (simp add: verifies_incoming_source_for_def bt_get_def verifies_incoming_def verify_active_packet_def
        demo_receiver_def demo_sender_def with_directions_def demo_direction_def direction_default_def
        digest_state_new_def verify_and_strip_def digest_verify_def digest_create_def hmac_sha_def
        demo_legacy_def sha_lengths_def LEGACY_SEQNO_LEN_def replicate_4)
  then show ?thesis using incoming_source_unique [OF ok, of demo_legacy _ "''a''"] by auto
qed

theorem answer_key_connects_witness:
  "list_all2 (own_or_encoder_error demo_legacy demo_direction) [[7, 8], [9]]
     (legacy_exchange demo_legacy [[7, 8], [9]]
       (demo_sender\<lparr>lp_outgoing := demo_direction, lp_sent_seqno := 0\<rparr>) demo_receiver)"
proof -
  have 1: "peer_apply_answer_key demo_legacy demo_answer_key (legacy_peer_new 32)
      = Inr (demo_sender\<lparr>lp_outgoing := demo_direction, lp_sent_seqno := 0\<rparr>)"
    by (simp add: peer_apply_answer_key_def demo_direction_installed reset_outgoing_key_state_def
        legacy_peer_new_def demo_sender_def with_directions_def)
  have 2: "peer_apply_incoming_answer_key demo_legacy demo_answer_key (legacy_peer_new 32) = Inr demo_receiver"
    by (simp add: peer_apply_incoming_answer_key_def demo_direction_installed reset_incoming_key_state_def
        legacy_peer_new_def demo_receiver_def with_directions_def legacy_window_reset_def
        legacy_window_new_def)
  show ?thesis
    using answer_key_connects [OF demo_legacy_laws 1 2, of "[[7, 8], [9]]"] by (simp add: VPN_MTU_def)
qed

end
