(* ===== verification/Relay.thy ===== *)
theory Relay
  imports Vpn_Packet Net_State
begin

text \<open>
  Node identifiers on the wire (\<^verbatim>\<open>tinc-runtime/src/transport.rs\<close>): the two-way table of names
  and identifiers, the envelope that carries destination and source in front of a payload, and the
  plain relay codec.  The tables are kept consistent by every operation.
\<close>

section \<open>Identifier tables\<close>

record node_id_table =
  nt_by_name :: "(string, node_id) btree"
  nt_by_id :: "(node_id, string) btree"

definition id_is_null :: "node_id \<Rightarrow> bool" where
  "id_is_null i \<longleftrightarrow> i = NODE_ID_NULL"

definition id_table_new :: node_id_table where
  "id_table_new = \<lparr>nt_by_name = [], nt_by_id = []\<rparr>"

definition id_table_insert :: "string \<Rightarrow> node_id \<Rightarrow> node_id_table \<Rightarrow> node_id option \<times> node_id_table" where
  "id_table_insert name i t =
     (let previous = bt_get (nt_by_name t) name;
          t = t\<lparr>nt_by_name := bt_insert name i (nt_by_name t)\<rparr>;
          t = (case previous of Some j \<Rightarrow> t\<lparr>nt_by_id := bt_remove j (nt_by_id t)\<rparr> | None \<Rightarrow> t);
          t = (if \<not> id_is_null i then t\<lparr>nt_by_id := bt_insert i name (nt_by_id t)\<rparr> else t)
      in (previous, t))"

definition table_id :: "node_id_table \<Rightarrow> string \<Rightarrow> node_id option" where
  "table_id t name = bt_get (nt_by_name t) name"

definition table_name :: "node_id_table \<Rightarrow> node_id \<Rightarrow> string option" where
  "table_name t i = bt_get (nt_by_id t) i"

definition node_ids :: "graph \<Rightarrow> (string \<times> node_id) list" where
  "node_ids g = map (\<lambda>n. (n_name n, n_id n)) (bt_values (g_nodes g))"

definition id_table_from_state :: "network_state \<Rightarrow> node_id_table" where
  "id_table_from_state s =
     fold (\<lambda>(name, i) t. snd (id_table_insert name i t)) (node_ids (ns_graph s)) id_table_new"

section \<open>Envelopes\<close>

definition RELAY_HEADER_LEN :: nat where "RELAY_HEADER_LEN = NODE_ID_LEN * 2"

record relay_envelope =
  re_destination :: node_id
  re_source :: node_id
  re_payload :: "byte list"

definition envelope_direct :: "node_id \<Rightarrow> byte list \<Rightarrow> relay_envelope" where
  "envelope_direct source payload =
     \<lparr>re_destination = NODE_ID_NULL, re_source = source, re_payload = payload\<rparr>"

definition envelope_relayed :: "node_id \<Rightarrow> node_id \<Rightarrow> byte list \<Rightarrow> relay_envelope" where
  "envelope_relayed destination source payload =
     \<lparr>re_destination = destination, re_source = source, re_payload = payload\<rparr>"

definition envelope_encode :: "relay_envelope \<Rightarrow> byte list" where
  "envelope_encode e = re_destination e @ re_source e @ re_payload e"

definition envelope_decode :: "byte list \<Rightarrow> transport_error + relay_envelope" where
  "envelope_decode datagram =
     (if length datagram < RELAY_HEADER_LEN
      then Inl (TransportIo (io_error_new IoUnexpectedEof
             (''relay datagram too short: '' @ show_nat (length datagram) @ '' < ''
               @ show_nat RELAY_HEADER_LEN)))
      else Inr \<lparr>re_destination = take NODE_ID_LEN datagram,
                re_source = subslice NODE_ID_LEN RELAY_HEADER_LEN datagram,
                re_payload = drop RELAY_HEADER_LEN datagram\<rparr>)"

definition transport_not_found :: "string \<Rightarrow> transport_error" where
  "transport_not_found m = TransportIo (io_error_new IoNotFound m)"

definition transport_invalid :: "string \<Rightarrow> transport_error" where
  "transport_invalid m = TransportIo (io_error_new IoInvalidData m)"

text \<open>
  The checks the relay codec and the SPTPS codec share, which differ in the word their messages
  use: the source identifier belongs to the source the address named, and the datagram is direct
  or addressed to this node.
\<close>

definition check_envelope :: "string \<Rightarrow> node_id_table \<Rightarrow> node_id \<Rightarrow> string \<Rightarrow> relay_envelope
    \<Rightarrow> transport_error + unit" where
  "check_envelope what ids myself source e =
     (case table_name ids (re_source e) of
        None \<Rightarrow> Inl (transport_invalid (''unknown source node ID in '' @ what @ '' datagram''))
      | Some source_name \<Rightarrow>
          if source_name \<noteq> source
          then Inl (transport_invalid (''source address '' @ source @ '' does not match '' @ what
                  @ '' source ID '' @ source_name))
          else if \<not> id_is_null (re_destination e) \<and> re_destination e \<noteq> myself
          then Inl (transport_invalid (what @ '' datagram is not addressed to this node''))
          else Inr ())"

section \<open>The plain codecs\<close>

definition plain_encode :: "string \<Rightarrow> vpn_packet \<Rightarrow> transport_error + byte list" where
  "plain_encode target p = Inr (vp_data p)"

definition plain_decode :: "string \<Rightarrow> byte list \<Rightarrow> transport_error + vpn_packet" where
  "plain_decode source datagram = map_err transport_of_device (vpn_packet_new datagram)"

record sptps_relay_codec =
  rc_ids :: node_id_table
  rc_myself :: node_id

definition relay_encode_direct :: "vpn_packet \<Rightarrow> sptps_relay_codec \<Rightarrow> transport_error + byte list" where
  "relay_encode_direct p c = Inr (envelope_encode (envelope_direct (rc_myself c) (vp_data p)))"

definition relay_encode_relayed :: "string \<Rightarrow> vpn_packet \<Rightarrow> sptps_relay_codec \<Rightarrow> transport_error + byte list" where
  "relay_encode_relayed target p c =
     (case table_id (rc_ids c) target of
        None \<Rightarrow> Inl (transport_not_found (''unknown target node ID for '' @ target))
      | Some i \<Rightarrow> Inr (envelope_encode (envelope_relayed i (rc_myself c) (vp_data p))))"

definition relay_decode :: "string \<Rightarrow> byte list \<Rightarrow> sptps_relay_codec \<Rightarrow> transport_error + vpn_packet" where
  "relay_decode source datagram c =
     and_then (envelope_decode datagram) (\<lambda>e.
     and_then (check_envelope ''relay'' (rc_ids c) (rc_myself c) source e) (\<lambda>_.
     map_err transport_of_device (vpn_packet_new (re_payload e))))"

section \<open>Consistency\<close>

definition id_table_ok :: "node_id_table \<Rightarrow> bool" where
  "id_table_ok t \<longleftrightarrow> bt_ok (nt_by_name t) \<and> bt_ok (nt_by_id t)
     \<and> (\<forall>i n. table_name t i = Some n \<longrightarrow> table_id t n = Some i \<and> \<not> id_is_null i)"

lemma id_table_new_ok: "id_table_ok id_table_new"
  by (simp add: id_table_ok_def id_table_new_def table_name_def)

lemma id_table_insert_lookup:
  assumes "id_table_ok t"
  shows "id_table_ok (snd (id_table_insert name i t))"
    and "table_id (snd (id_table_insert name i t)) = (table_id t)(name \<mapsto> i)"
    and "\<not> id_is_null i \<Longrightarrow> table_name (snd (id_table_insert name i t)) i = Some name"
    and "j \<noteq> i \<Longrightarrow> table_id t name \<noteq> Some j
      \<Longrightarrow> table_name (snd (id_table_insert name i t)) j = table_name t j"
proof -
  have ok: "bt_ok (nt_by_name t)" "bt_ok (nt_by_id t)"
    "\<And>i n. bt_get (nt_by_id t) i = Some n \<Longrightarrow> bt_get (nt_by_name t) n = Some i \<and> \<not> id_is_null i"
    using assms by (auto simp: id_table_ok_def table_name_def table_id_def)
  let ?t = "snd (id_table_insert name i t)"
  have names: "nt_by_name ?t = bt_insert name i (nt_by_name t)"
    by (simp add: id_table_insert_def Let_def split: option.splits)
  have look: "bt_ok (nt_by_id ?t)"
    "\<And>j. bt_get (nt_by_id ?t) j = (if j = i \<and> \<not> id_is_null i then Some name
       else if bt_get (nt_by_name t) name = Some j then None else bt_get (nt_by_id t) j)"
    using ok by (auto simp: id_table_insert_def Let_def btree_simps split: option.splits)
  show "table_id ?t = (table_id t)(name \<mapsto> i)"
    using ok(1) by (auto simp: table_id_def names bt_get_insert)
  show "\<not> id_is_null i \<Longrightarrow> table_name ?t i = Some name"
    "j \<noteq> i \<Longrightarrow> table_id t name \<noteq> Some j \<Longrightarrow> table_name ?t j = table_name t j"
    by (auto simp: table_name_def table_id_def look(2))
  have "bt_get (nt_by_name ?t) n = Some k \<and> \<not> id_is_null k" if "bt_get (nt_by_id ?t) k = Some n" for k n
    using that ok by (auto simp: look(2) names bt_get_insert split: if_splits)
  then show "id_table_ok ?t"
    using ok(1) look(1) by (simp add: id_table_ok_def table_name_def table_id_def names bt_ok_insert)
qed

lemma insert_all_ids:
  assumes "id_table_ok t" "distinct (map fst kvs)" "distinct (map snd kvs)"
    and "\<forall>(n, i) \<in> set kvs. \<not> id_is_null i \<and> table_id t n = None \<and> table_name t i = None"
  shows "id_table_ok (fold (\<lambda>(n, i) t. snd (id_table_insert n i t)) kvs t)
    \<and> (\<forall>n i. table_name (fold (\<lambda>(n, i) t. snd (id_table_insert n i t)) kvs t) i = Some n
        \<longleftrightarrow> (n, i) \<in> set kvs \<or> table_name t i = Some n)"
  using assms
proof (induction kvs arbitrary: t)
  case (Cons kv kvs)
  obtain n i where kv: "kv = (n, i)" by (cases kv)
  let ?t = "snd (id_table_insert n i t)"
  note look = id_table_insert_lookup [OF Cons.prems(1), where name = n and i = i]
  have new: "table_id t n = None" "\<not> id_is_null i" using Cons.prems(4) kv by auto
  have names: "table_name ?t j = (if j = i then Some n else table_name t j)" for j
    using look(3,4) new by auto
  have "\<forall>(m, j) \<in> set kvs. \<not> id_is_null j \<and> table_id ?t m = None \<and> table_name ?t j = None"
    using Cons.prems kv by (force simp: look(2) names)
  with Cons.IH [OF look(1)] Cons.prems(2,3) kv
  have IH: "id_table_ok (fold (\<lambda>(n, i) t. snd (id_table_insert n i t)) kvs ?t)"
    "\<And>m j. table_name (fold (\<lambda>(n, i) t. snd (id_table_insert n i t)) kvs ?t) j = Some m
        \<longleftrightarrow> (m, j) \<in> set kvs \<or> table_name ?t j = Some m" by auto
  have "table_name t i = None" using Cons.prems(4) kv by auto
  then show ?case using IH by (auto simp: kv names split: if_splits)
qed simp

lemma envelope_roundtrip:
  assumes "length (re_destination e) = NODE_ID_LEN" "length (re_source e) = NODE_ID_LEN"
  shows "envelope_decode (envelope_encode e) = Inr e"
  using assms
  by (simp add: envelope_decode_def envelope_encode_def RELAY_HEADER_LEN_def NODE_ID_LEN_def
      subslice_def)

lemma envelope_decode_Inr:
  assumes "envelope_decode d = Inr e"
  shows "d = envelope_encode e" "length (re_destination e) = NODE_ID_LEN"
    "length (re_source e) = NODE_ID_LEN"
proof -
  from assms have "12 \<le> length d" and e: "e = \<lparr>re_destination = take 6 d, re_source = take 6 (drop 6 d),
      re_payload = drop 12 d\<rparr>"
    by (auto simp: envelope_decode_def RELAY_HEADER_LEN_def NODE_ID_LEN_def subslice_def split: if_splits)
  moreover have "take 6 d @ take 6 (drop 6 d) @ drop 6 (drop 6 d) = d"
    by (simp only: append_take_drop_id)
  ultimately show "d = envelope_encode e" "length (re_destination e) = NODE_ID_LEN"
    "length (re_source e) = NODE_ID_LEN"
    by (simp_all add: envelope_encode_def NODE_ID_LEN_def)
qed

text \<open>
  From a network state whose nodes have distinct non-null identifiers, the table built names
  exactly the nodes, each under its own identifier; and every later insertion, in any order, keeps
  the table consistent, so that an identifier never leads to a node with another identifier.
\<close>

theorem id_tables_consistent:
  assumes "bt_ok (g_nodes (ns_graph s))"
    and "\<forall>(k, n) \<in> set (g_nodes (ns_graph s)). n_name n = k \<and> \<not> id_is_null (n_id n)"
    and "distinct (map (\<lambda>(k, n). n_id n) (g_nodes (ns_graph s)))"
  shows "(\<forall>name i. table_name (id_table_from_state s) i = Some name
        \<longleftrightarrow> (\<exists>n. graph_node (ns_graph s) name = Some n \<and> n_id n = i))
    \<and> id_table_ok (fold (\<lambda>(n, i) t. snd (id_table_insert n i t)) later (id_table_from_state s))"
proof -
  let ?ns = "g_nodes (ns_graph s)"
  have kvs: "node_ids (ns_graph s) = map (\<lambda>(k, n). (k, n_id n)) ?ns"
    using assms(2) by (auto simp: node_ids_def bt_values_def)
  have "map fst (node_ids (ns_graph s)) = map fst ?ns" "map snd (node_ids (ns_graph s)) = map (\<lambda>(k, n). n_id n) ?ns"
    by (simp_all add: kvs case_prod_beta comp_def)
  then have "distinct (map fst (node_ids (ns_graph s)))" "distinct (map snd (node_ids (ns_graph s)))"
    using bt_ok_distinct [OF assms(1)] assms(3) by simp_all
  moreover have "\<forall>(n, i) \<in> set (node_ids (ns_graph s)). \<not> id_is_null i \<and> table_id id_table_new n = None
      \<and> table_name id_table_new i = None"
    using assms(2) by (auto simp: kvs id_table_new_def table_id_def table_name_def)
  ultimately have all: "id_table_ok (id_table_from_state s)"
    "\<And>n i. table_name (id_table_from_state s) i = Some n \<longleftrightarrow> (n, i) \<in> set (node_ids (ns_graph s))"
    using insert_all_ids [OF id_table_new_ok, of "node_ids (ns_graph s)"]
    by (auto simp: id_table_from_state_def id_table_new_def table_name_def)
  have "(name, i) \<in> set (node_ids (ns_graph s))
      \<longleftrightarrow> (\<exists>n. graph_node (ns_graph s) name = Some n \<and> n_id n = i)" for name i
    using bt_get_Some_iff [OF assms(1)] by (force simp: kvs graph_node_def)
  moreover have "id_table_ok t \<Longrightarrow> id_table_ok (fold (\<lambda>(n, i) t. snd (id_table_insert n i t)) later t)" for t
    by (induction later arbitrary: t) (auto simp: id_table_insert_lookup(1))
  ultimately show ?thesis using all by blast
qed

theorem id_tables_consistent_witness:
  "table_name (id_table_from_state (network_state_new (\<lambda>n. replicate 6 1) ''a'')) (replicate 6 1) = Some ''a''"
proof -
  let ?s = "network_state_new (\<lambda>n. replicate 6 1) ''a''"
  have nodes: "g_nodes (ns_graph ?s) = [(''a'', node_new (\<lambda>n. replicate 6 1) ''a'')]"
    by (simp add: network_state_new_def graph_new_def)
  have id: "n_id (node_new (\<lambda>n. replicate 6 1) ''a'') = replicate 6 1"
    "n_name (node_new (\<lambda>n. replicate 6 1) ''a'') = ''a''"
    by (simp_all add: node_new_def id_from_name_def NODE_ID_LEN_def)
  have "\<not> id_is_null (replicate 6 1)" by (simp add: id_is_null_def NODE_ID_NULL_def NODE_ID_LEN_def)
  with id_tables_consistent [of ?s "[]"] show ?thesis
    by (simp add: nodes id graph_node_def bt_get_def bt_ok_def)
qed

end
