(* ===== verification/Datagram_Transport.thy ===== *)
theory Datagram_Transport
  imports Relay
begin

text \<open>
  The datagram transport of \<^verbatim>\<open>tinc-runtime/src/transport.rs\<close>: addresses of nodes, a datagram
  socket and a packet codec, and the in-memory socket.  Socket addresses are any ordered type.
  The trait \<^verbatim>\<open>PacketCodec\<close> is the interface \<open>packet_link\<close>: what is proved of two transports
  over a link holds for every codec that provides it.
\<close>

section \<open>Addresses\<close>

record 'a node_address_table =
  at_by_name :: "(string, 'a list) btree"
  at_by_addr :: "('a, string) btree"

definition addresses_new :: "'a node_address_table" where
  "addresses_new = \<lparr>at_by_name = [], at_by_addr = []\<rparr>"

text \<open>The source returns the first address of the list, if any, as the previous one.\<close>

definition first_address :: "'a list \<Rightarrow> 'a option" where
  "first_address as = (case as of [] \<Rightarrow> None | a # _ \<Rightarrow> Some a)"

definition address_insert :: "string \<Rightarrow> 'a::linorder \<Rightarrow> 'a node_address_table
    \<Rightarrow> 'a option \<times> 'a node_address_table" where
  "address_insert name a t =
     (let previous = bt_get (at_by_name t) name;
          cleared = (case previous of Some as \<Rightarrow> fold bt_remove as (at_by_addr t) | None \<Rightarrow> at_by_addr t)
      in (Option.bind previous first_address,
          \<lparr>at_by_name = bt_insert name [a] (at_by_name t), at_by_addr = bt_insert a name cleared\<rparr>))"

definition address_push :: "string \<Rightarrow> 'a::linorder \<Rightarrow> 'a node_address_table \<Rightarrow> 'a node_address_table" where
  "address_push name a t =
     (let as = (case bt_get (at_by_name t) name of Some as \<Rightarrow> as | None \<Rightarrow> [])
      in if a \<in> set as then t
         else \<lparr>at_by_name = bt_insert name (as @ [a]) (at_by_name t),
               at_by_addr = bt_insert a name (at_by_addr t)\<rparr>)"

definition address_promote :: "string \<Rightarrow> 'a::linorder \<Rightarrow> 'a node_address_table \<Rightarrow> 'a node_address_table" where
  "address_promote name a t =
     (let as = (case bt_get (at_by_name t) name of Some as \<Rightarrow> as | None \<Rightarrow> []);
          as = (if a \<in> set as then (if hd as \<noteq> a then a # remove1 a as else as) else a # as)
      in \<lparr>at_by_name = bt_insert name as (at_by_name t),
          at_by_addr = bt_insert a name (at_by_addr t)\<rparr>)"

definition address_remove :: "string \<Rightarrow> 'a::linorder node_address_table
    \<Rightarrow> 'a option \<times> 'a node_address_table" where
  "address_remove name t =
     (case bt_get (at_by_name t) name of
        None \<Rightarrow> (None, t)
      | Some as \<Rightarrow> (first_address as,
          \<lparr>at_by_name = bt_remove name (at_by_name t), at_by_addr = fold bt_remove as (at_by_addr t)\<rparr>))"

definition addresses_of :: "'a node_address_table \<Rightarrow> string \<Rightarrow> 'a list option" where
  "addresses_of t name = bt_get (at_by_name t) name"

definition address_of :: "'a node_address_table \<Rightarrow> string \<Rightarrow> 'a option" where
  "address_of t name = Option.bind (bt_get (at_by_name t) name) first_address"

definition node_of_address :: "'a::linorder node_address_table \<Rightarrow> 'a \<Rightarrow> string option" where
  "node_of_address t a = bt_get (at_by_addr t) a"

section \<open>Sockets\<close>

text \<open>The trait \<^verbatim>\<open>DatagramIo\<close>; \<open>io_recv\<close> gets the size of the receive buffer.\<close>

record ('io, 'a) datagram_io =
  io_send :: "'a \<Rightarrow> byte list \<Rightarrow> 'io \<Rightarrow> (io_error + nat) \<times> 'io"
  io_recv :: "nat \<Rightarrow> 'io \<Rightarrow> (io_error + (byte list \<times> 'a) option) \<times> 'io"

record 'a memory_io =
  mi_incoming :: "('a \<times> byte list) list"
  mi_outgoing :: "('a \<times> byte list) list"

definition memory_send :: "'a \<Rightarrow> byte list \<Rightarrow> 'a memory_io \<Rightarrow> (io_error + nat) \<times> 'a memory_io" where
  "memory_send target payload m =
     (Inr (length payload), m\<lparr>mi_outgoing := mi_outgoing m @ [(target, payload)]\<rparr>)"

definition memory_recv :: "nat \<Rightarrow> 'a memory_io \<Rightarrow> (io_error + (byte list \<times> 'a) option) \<times> 'a memory_io" where
  "memory_recv cap m =
     (case mi_incoming m of
        [] \<Rightarrow> (Inr None, m)
      | (source, payload) # rest \<Rightarrow>
          (if cap < length payload
           then Inl (io_error_new IoInvalidData (''datagram too large: '' @ show_nat (length payload)
                  @ '' > '' @ show_nat cap))
           else Inr (Some (payload, source)), m\<lparr>mi_incoming := rest\<rparr>))"

definition memory_push :: "'a \<Rightarrow> byte list \<Rightarrow> 'a memory_io \<Rightarrow> 'a memory_io" where
  "memory_push source payload m = m\<lparr>mi_incoming := mi_incoming m @ [(source, payload)]\<rparr>"

definition memory_datagram_io :: "('a memory_io, 'a) datagram_io" where
  "memory_datagram_io = \<lparr>io_send = memory_send, io_recv = memory_recv\<rparr>"

section \<open>The transport\<close>

definition MAX_DATAGRAM_SIZE :: nat where
  "MAX_DATAGRAM_SIZE = VPN_MTU + 4 + RELAY_HEADER_LEN + 32 + 64 + (VPN_MTU div 64 + 20)"

text \<open>The trait \<^verbatim>\<open>PacketCodec\<close>.\<close>

record 'c packet_codec =
  pk_encode :: "string \<Rightarrow> vpn_packet \<Rightarrow> 'c \<Rightarrow> (transport_error + byte list) \<times> 'c"
  pk_decode :: "string \<Rightarrow> byte list \<Rightarrow> 'c \<Rightarrow> (transport_error + vpn_packet) \<times> 'c"

record ('io, 'c, 'a) datagram_transport =
  dt_io :: 'io
  dt_codec :: 'c
  dt_addresses :: "'a node_address_table"

datatype 'a datagram_transport_error =
    DtTransport transport_error
  | UnknownTarget string
  | UnknownSource 'a

definition transport_receive :: "('io, 'a::linorder) datagram_io \<Rightarrow> 'c packet_codec
    \<Rightarrow> ('io, 'c, 'a) datagram_transport
    \<Rightarrow> ('a datagram_transport_error + (string \<times> vpn_packet) option) \<times> ('io, 'c, 'a) datagram_transport" where
  "transport_receive IO K t =
     (case io_recv IO MAX_DATAGRAM_SIZE (dt_io t) of
        (Inl e, io) \<Rightarrow> (Inl (DtTransport (TransportIo e)), t\<lparr>dt_io := io\<rparr>)
      | (Inr None, io) \<Rightarrow> (Inr None, t\<lparr>dt_io := io\<rparr>)
      | (Inr (Some (datagram, a)), io) \<Rightarrow>
          let t = t\<lparr>dt_io := io\<rparr>
          in case node_of_address (dt_addresses t) a of
               None \<Rightarrow> (Inl (UnknownSource a), t)
             | Some source \<Rightarrow>
                 (case pk_decode K source datagram (dt_codec t) of
                    (r, c) \<Rightarrow> (map_ok (\<lambda>p. Some (source, p)) (map_err DtTransport r), t\<lparr>dt_codec := c\<rparr>)))"

definition transport_send :: "('io, 'a::linorder) datagram_io \<Rightarrow> 'c packet_codec \<Rightarrow> string \<Rightarrow> vpn_packet
    \<Rightarrow> ('io, 'c, 'a) datagram_transport \<Rightarrow> (transport_error + unit) \<times> ('io, 'c, 'a) datagram_transport" where
  "transport_send IO K target p t =
     (case address_of (dt_addresses t) target of
        None \<Rightarrow> (Inl (transport_not_found (''unknown target node '' @ target)), t)
      | Some a \<Rightarrow>
          (case pk_encode K target p (dt_codec t) of
             (Inl e, c) \<Rightarrow> (Inl e, t\<lparr>dt_codec := c\<rparr>)
           | (Inr payload, c) \<Rightarrow>
               (case io_send IO a payload (dt_io t) of
                  (Inl e, io) \<Rightarrow> (Inl (TransportIo e), t\<lparr>dt_codec := c, dt_io := io\<rparr>)
                | (Inr sent, io) \<Rightarrow>
                    (if sent \<noteq> length payload
                     then Inl (TransportIo (io_error_new IoWriteZero (''short datagram send: ''
                            @ show_nat sent @ '' < '' @ show_nat (length payload))))
                     else Inr (), t\<lparr>dt_codec := c, dt_io := io\<rparr>))))"

text \<open>\<^verbatim>\<open>PacketReceiver::receive_packet\<close>: the errors as transport errors.\<close>

fun receive_error :: "('a \<Rightarrow> string) \<Rightarrow> 'a datagram_transport_error \<Rightarrow> transport_error" where
  "receive_error show_addr (DtTransport e) = e"
| "receive_error show_addr (UnknownTarget target) = transport_not_found (''unknown target node '' @ target)"
| "receive_error show_addr (UnknownSource source) =
     transport_invalid (''unknown datagram source '' @ show_addr source)"

definition packet_receive where
  "packet_receive show_addr IO K t = map_prod (map_err (receive_error show_addr)) id (transport_receive IO K t)"

section \<open>Consistency of the addresses\<close>

text \<open>An address found leads to a node that has it.\<close>

definition addresses_ok :: "'a::linorder node_address_table \<Rightarrow> bool" where
  "addresses_ok t \<longleftrightarrow> bt_ok (at_by_name t) \<and> bt_ok (at_by_addr t)
     \<and> (\<forall>a n. node_of_address t a = Some n \<longrightarrow> (\<exists>as. addresses_of t n = Some as \<and> a \<in> set as))"

text \<open>No two nodes share an address, and every address of a node leads back to it.\<close>

definition addresses_exclusive :: "'a::linorder node_address_table \<Rightarrow> bool" where
  "addresses_exclusive t \<longleftrightarrow>
     (\<forall>n as a. addresses_of t n = Some as \<longrightarrow> a \<in> set as \<longrightarrow> node_of_address t a = Some n)"

datatype 'a address_op = AddressInsert string 'a | AddressPush string 'a | AddressPromote string 'a
  | AddressRemove string

fun address_step :: "'a::linorder address_op \<Rightarrow> 'a node_address_table \<Rightarrow> 'a node_address_table" where
  "address_step (AddressInsert n a) t = snd (address_insert n a t)"
| "address_step (AddressPush n a) t = address_push n a t"
| "address_step (AddressPromote n a) t = address_promote n a t"
| "address_step (AddressRemove n) t = snd (address_remove n t)"

fun owner_of_op :: "'a address_op \<Rightarrow> (string \<times> 'a) option" where
  "owner_of_op (AddressInsert n a) = Some (n, a)"
| "owner_of_op (AddressPush n a) = Some (n, a)"
| "owner_of_op (AddressPromote n a) = Some (n, a)"
| "owner_of_op (AddressRemove n) = None"

lemma fold_remove_keys:
  assumes "bt_ok m"
  shows "bt_ok (fold bt_remove ks m)"
    and "bt_get (fold bt_remove ks m) k = (if k \<in> set ks then None else bt_get m k)"
  using assms by (induction ks arbitrary: m) (auto simp: btree_simps)

text \<open>Every operation gives one node a new list and clears or sets addresses.\<close>

lemma address_step_tables:
  assumes "bt_ok (at_by_name t)" "bt_ok (at_by_addr t)"
  shows "bt_ok (at_by_name (address_step op t))" "bt_ok (at_by_addr (address_step op t))"
  using assms by (cases op; auto simp: address_insert_def address_push_def address_promote_def
      address_remove_def fold_remove_keys btree_simps Let_def split: option.splits)+

lemma hd_or_remove1: "set (if a \<in> set as then (if hd as \<noteq> a then a # remove1 a as else as) else a # as)
    = insert a (set as)"
  by (cases as) (auto dest: notin_set_remove1)

lemma address_step_ok:
  assumes "addresses_ok t"
  shows "addresses_ok (address_step op t)"
proof -
  have ok: "bt_ok (at_by_name t)" "bt_ok (at_by_addr t)"
    and inv: "\<And>a n. bt_get (at_by_addr t) a = Some n \<Longrightarrow> \<exists>as. bt_get (at_by_name t) n = Some as \<and> a \<in> set as"
    using assms by (auto simp: addresses_ok_def node_of_address_def addresses_of_def)
  note tables = address_step_tables [OF ok, of op]
  have "\<exists>as. bt_get (at_by_name (address_step op t)) n = Some as \<and> a \<in> set as"
    if found: "bt_get (at_by_addr (address_step op t)) a = Some n" for a n
  proof (cases op)
    case (AddressInsert m b)
    with found ok inv [of a n] show ?thesis
      by (cases "bt_get (at_by_name t) m")
        (auto simp: address_insert_def fold_remove_keys btree_simps Let_def split: if_splits)
  next
    case (AddressPush m b)
    with found ok inv [of a n] show ?thesis
      by (cases "bt_get (at_by_name t) m")
        (auto simp: address_push_def btree_simps Let_def split: if_splits)
  next
    case (AddressPromote m b)
    with found ok inv [of a n] show ?thesis
      by (cases "bt_get (at_by_name t) m")
        (auto simp: address_promote_def btree_simps Let_def hd_or_remove1 simp del: set_simps split: if_splits
          dest: notin_set_remove1)
  next
    case (AddressRemove m)
    with found ok inv [of a n] show ?thesis
      by (cases "bt_get (at_by_name t) m")
        (auto simp: address_remove_def fold_remove_keys btree_simps Let_def split: if_splits)
  qed
  with tables show ?thesis by (simp add: addresses_ok_def node_of_address_def addresses_of_def)
qed

lemma address_step_exclusive:
  assumes "addresses_ok t" "addresses_exclusive t"
    and own: "\<And>n a m. owner_of_op op = Some (n, a) \<Longrightarrow> node_of_address t a = Some m \<Longrightarrow> m = n"
  shows "addresses_exclusive (address_step op t)"
proof -
  have ok: "bt_ok (at_by_name t)" "bt_ok (at_by_addr t)"
    using assms(1) by (auto simp: addresses_ok_def)
  have ex: "\<And>n as a. bt_get (at_by_name t) n = Some as \<Longrightarrow> a \<in> set as \<Longrightarrow> bt_get (at_by_addr t) a = Some n"
    using assms(2) by (auto simp: addresses_exclusive_def node_of_address_def addresses_of_def)
  have "bt_get (at_by_addr (address_step op t)) a = Some n"
    if l: "bt_get (at_by_name (address_step op t)) n = Some as" "a \<in> set as" for n as a
  proof -
    have other: "bt_get (at_by_addr t) a = Some n \<and> (\<forall>b. owner_of_op op = Some (m, b) \<longrightarrow> a \<noteq> b)
        \<and> (\<forall>bs. bt_get (at_by_name t) m = Some bs \<longrightarrow> a \<notin> set bs)"
      if "bt_get (at_by_name t) n = Some as" "n \<noteq> m" for m
      using ex [OF that(1) l(2)] ex [of m _ a] own [of m a n] that(2)
      by (auto simp: node_of_address_def)
    have same: "bt_get (at_by_name t) m = Some bs \<Longrightarrow> c \<in> set bs \<Longrightarrow> bt_get (at_by_addr t) c = Some m" for m bs c
      by (rule ex)
    show ?thesis
    proof (cases op)
      case (AddressInsert m b)
      then show ?thesis using l ok other [of m]
        by (cases "n = m"; cases "bt_get (at_by_name t) m")
          (auto simp: address_insert_def fold_remove_keys btree_simps Let_def)
    next
      case (AddressPush m b)
      then show ?thesis using l ok other [of m] same [of m]
        by (cases "n = m"; cases "bt_get (at_by_name t) m")
          (auto simp: address_push_def btree_simps Let_def split: if_splits)
    next
      case (AddressPromote m b)
      then show ?thesis using l ok other [of m] same [of m]
        by (cases "n = m"; cases "bt_get (at_by_name t) m")
          (auto simp: address_promote_def btree_simps Let_def split: if_splits dest: notin_set_remove1)
    next
      case (AddressRemove m)
      then show ?thesis using l ok other [of m]
        by (cases "n = m"; cases "bt_get (at_by_name t) m")
          (simp_all add: address_remove_def fold_remove_keys btree_simps Let_def)
    qed
  qed
  then show ?thesis by (simp add: addresses_exclusive_def node_of_address_def addresses_of_def)
qed

text \<open>The addresses in use are those some operation gave to their node.\<close>

lemma address_owner_step:
  assumes "addresses_ok t" "node_of_address (address_step op t) a = Some n"
  shows "owner_of_op op = Some (n, a) \<or> node_of_address t a = Some n"
proof -
  have ok: "bt_ok (at_by_name t)" "bt_ok (at_by_addr t)"
    using assms(1) by (auto simp: addresses_ok_def)
  show ?thesis
    using assms(2) ok
    by (cases op) (auto simp: node_of_address_def address_insert_def address_push_def
        address_promote_def address_remove_def fold_remove_keys btree_simps Let_def
        split: if_splits option.splits)
qed

lemma address_steps:
  fixes t :: "'a::linorder node_address_table"
  assumes "addresses_ok t" "addresses_exclusive t"
    and "\<forall>op \<in> set ops. \<forall>n a. owner_of_op op = Some (n, a) \<longrightarrow> who a = n"
    and "\<forall>a n. node_of_address t a = Some n \<longrightarrow> who a = n"
  shows "addresses_exclusive (fold address_step ops t)"
  using assms
proof (induction ops arbitrary: t)
  case (Cons op ops)
  have "addresses_exclusive (address_step op t)"
    by (rule address_step_exclusive [OF Cons.prems(1,2)]) (use Cons.prems(3,4) in auto)
  moreover have "\<forall>a n. node_of_address (address_step op t) a = Some n \<longrightarrow> who a = n"
    using address_owner_step [OF Cons.prems(1)] Cons.prems(3,4) by fastforce
  ultimately show ?case
    using Cons.IH [OF address_step_ok [OF Cons.prems(1)]] Cons.prems(3) by simp
qed simp

lemma addresses_new_ok: "addresses_ok addresses_new" "addresses_exclusive addresses_new"
  by (simp_all add: addresses_ok_def addresses_exclusive_def addresses_new_def node_of_address_def
      addresses_of_def)

text \<open>
  After any sequence of insertions, additions, promotions and removals, the node a source
  address leads to has that address; and when no address is ever given to two nodes, every address
  of a node leads back to it.
\<close>

theorem address_table_consistent:
  fixes ops :: "'a::linorder address_op list"
  defines "t \<equiv> fold address_step ops addresses_new"
  shows "(\<forall>a n. node_of_address t a = Some n \<longrightarrow> (\<exists>as. addresses_of t n = Some as \<and> a \<in> set as))
    \<and> ((\<exists>who. \<forall>op \<in> set ops. \<forall>n a. owner_of_op op = Some (n, a) \<longrightarrow> who a = n) \<longrightarrow>
        (\<forall>a n as. addresses_of t n = Some as \<longrightarrow> a \<in> set as \<longrightarrow> node_of_address t a = Some n))"
proof -
  have "addresses_ok u \<Longrightarrow> addresses_ok (fold address_step ops u)" for u :: "'a node_address_table"
    by (induction ops arbitrary: u) (auto simp: address_step_ok)
  then have "addresses_ok t" using addresses_new_ok(1) by (simp add: t_def)
  moreover have "addresses_exclusive t"
    if "\<forall>op \<in> set ops. \<forall>n a. owner_of_op op = Some (n, a) \<longrightarrow> who a = n" for who
    unfolding t_def by (rule address_steps [OF addresses_new_ok that])
      (simp add: addresses_new_def node_of_address_def)
  ultimately show ?thesis unfolding addresses_ok_def addresses_exclusive_def by blast
qed

theorem address_table_consistent_witness:
  "node_of_address (fold address_step [AddressPush ''a'' (1::nat), AddressPush ''b'' 2, AddressPromote ''a'' 3,
      AddressInsert ''b'' 4] addresses_new) 3 = Some ''a''"
proof -
  let ?ops = "[AddressPush ''a'' (1::nat), AddressPush ''b'' 2, AddressPromote ''a'' 3, AddressInsert ''b'' 4]"
  have who: "\<exists>who. \<forall>op \<in> set ?ops. \<forall>n a. owner_of_op op = Some (n, a) \<longrightarrow> who a = n"
    by (rule exI [of _ "\<lambda>a. if a \<in> {1, 3} then ''a'' else ''b''"]) simp
  have "addresses_of (fold address_step ?ops addresses_new) ''a'' = Some [3, 1]" by code_simp
  with address_table_consistent [of ?ops] who show ?thesis by force
qed

text \<open>
  With a shared address the way back is lost when the other node is removed, though the address is
  still in use.
\<close>

lemma shared_address_lost:
  "let t = fold address_step [AddressPush ''a'' (1::nat), AddressPush ''b'' 1, AddressRemove ''a''] addresses_new
   in address_of t ''b'' = Some 1 \<and> node_of_address t 1 = None"
  by code_simp

section \<open>Links\<close>

text \<open>
  \<open>linked n\<close>: what the sender's codec encodes for \<open>target\<close> the receiver's codec decodes as coming
  from \<open>source\<close>, for at least \<open>n\<close> more packets; \<open>view\<close> is what of the frame arrives.
\<close>

locale packet_link =
  fixes enc :: "string \<Rightarrow> vpn_packet \<Rightarrow> 'c \<Rightarrow> (transport_error + byte list) \<times> 'c"
    and dec :: "string \<Rightarrow> byte list \<Rightarrow> 'c \<Rightarrow> (transport_error + vpn_packet) \<times> 'c"
    and linked :: "nat \<Rightarrow> string \<Rightarrow> string \<Rightarrow> 'c \<Rightarrow> 'c \<Rightarrow> bool"
    and fits :: "byte list \<Rightarrow> bool" and view :: "byte list \<Rightarrow> byte list"
  assumes decodes: "linked (Suc n) target source c d \<Longrightarrow> fits (vp_data p) \<Longrightarrow> enc target p c = (Inr bytes, c')
      \<Longrightarrow> \<exists>d'. dec source bytes d = (Inr \<lparr>vp_data = view (vp_data p), vp_priority = 0\<rparr>, d')
            \<and> linked n target source c' d'"
    and refused: "linked (Suc n) target source c d \<Longrightarrow> enc target p c = (Inl e, c') \<Longrightarrow> linked n target source c' d"
begin

text \<open>Packets sent one by one, each handed to the receiver: what the receiver returns.\<close>

primrec relay_all :: "string \<Rightarrow> string \<Rightarrow> vpn_packet list \<Rightarrow> 'c \<Rightarrow> 'c \<Rightarrow> (transport_error + vpn_packet) list" where
  "relay_all target source [] c d = []"
| "relay_all target source (p # ps) c d =
     (case enc target p c of
        (Inl e, c') \<Rightarrow> relay_all target source ps c' d
      | (Inr bytes, c') \<Rightarrow>
          (case dec source bytes d of (r, d') \<Rightarrow> r # relay_all target source ps c' d'))"

primrec encoded :: "string \<Rightarrow> vpn_packet list \<Rightarrow> 'c \<Rightarrow> vpn_packet list" where
  "encoded target [] c = []"
| "encoded target (p # ps) c =
     (case enc target p c of (Inl e, c') \<Rightarrow> encoded target ps c' | (Inr bytes, c') \<Rightarrow> p # encoded target ps c')"

lemma linked_stream:
  "linked (length ps) target source c d \<Longrightarrow> \<forall>p \<in> set ps. fits (vp_data p) \<Longrightarrow>
    relay_all target source ps c d
      = map (\<lambda>p. Inr \<lparr>vp_data = view (vp_data p), vp_priority = 0\<rparr>) (encoded target ps c)"
proof (induction ps arbitrary: c d)
  case (Cons p ps)
  obtain r c' where r: "enc target p c = (r, c')" by (cases "enc target p c")
  show ?case
  proof (cases r)
    case (Inl e)
    with r Cons.prems refused [of "length ps" target source c d p e c'] Cons.IH [of c' d]
    show ?thesis by simp
  next
    case (Inr bytes)
    with r Cons.prems decodes [of "length ps" target source c d p bytes c'] obtain d' where
      "dec source bytes d = (Inr \<lparr>vp_data = view (vp_data p), vp_priority = 0\<rparr>, d')"
      "linked (length ps) target source c' d'" by auto
    with r Inr Cons.prems Cons.IH [of c' d'] show ?thesis by simp
  qed
qed simp

abbreviation codec_ops :: "'c packet_codec" where
  "codec_ops \<equiv> \<lparr>pk_encode = enc, pk_decode = dec\<rparr>"

text \<open>One packet from transport \<open>x\<close> to transport \<open>y\<close>, whose sockets are in memory.\<close>

lemma transport_hop:
  assumes "linked (Suc n) target source (dt_codec x) (dt_codec y)" "fits (vp_data p)"
    and "address_of (dt_addresses x) target = Some a" "node_of_address (dt_addresses y) sa = Some source"
    and "enc target p (dt_codec x) = (Inr bytes, c')" "length bytes \<le> MAX_DATAGRAM_SIZE"
    and "mi_incoming (dt_io y) = []"
  shows "transport_send memory_datagram_io codec_ops target p x
      = (Inr (), x\<lparr>dt_codec := c', dt_io := (dt_io x)\<lparr>mi_outgoing := mi_outgoing (dt_io x) @ [(a, bytes)]\<rparr>\<rparr>)
    \<and> (\<exists>d'. transport_receive memory_datagram_io codec_ops (y\<lparr>dt_io := memory_push sa bytes (dt_io y)\<rparr>)
        = (Inr (Some (source, \<lparr>vp_data = view (vp_data p), vp_priority = 0\<rparr>)), y\<lparr>dt_codec := d'\<rparr>)
      \<and> linked n target source c' d')"
proof -
  from decodes [OF assms(1,2,5)] obtain d' where d':
    "dec source bytes (dt_codec y) = (Inr \<lparr>vp_data = view (vp_data p), vp_priority = 0\<rparr>, d')"
    "linked n target source c' d'" by blast
  have io: "(dt_io y)\<lparr>mi_incoming := []\<rparr> = dt_io y" using assms(7) by simp
  have y: "y\<lparr>dt_io := (dt_io y)\<lparr>mi_incoming := []\<rparr>, dt_codec := d'\<rparr> = y\<lparr>dt_codec := d'\<rparr>"
    unfolding io by simp
  show ?thesis
    using assms(3-7) d' y
    by (auto simp: transport_send_def transport_receive_def memory_datagram_io_def memory_send_def
        memory_recv_def memory_push_def Let_def intro!: exI [of _ d'])
qed

end

text \<open>The plain codec, whose state does not change, provides a link.\<close>

definition plain_fits :: "byte list \<Rightarrow> bool" where
  "plain_fits data \<longleftrightarrow> length data \<le> VPN_MTU"

interpretation plain: packet_link "\<lambda>t p c. (plain_encode t p, c)" "\<lambda>s d c. (plain_decode s d, c)"
  "\<lambda>n t s c d. True" plain_fits "\<lambda>data. data"
  by unfold_locales (simp_all add: plain_encode_def plain_decode_def vpn_packet_new_def plain_fits_def)

text \<open>
  The relay codec: the receiver knows the sender under the identifier it writes, and is the target
  the sender knows or gets direct datagrams.
\<close>

definition relay_linked :: "nat \<Rightarrow> string \<Rightarrow> string \<Rightarrow> sptps_relay_codec \<Rightarrow> sptps_relay_codec \<Rightarrow> bool" where
  "relay_linked n target source c d \<longleftrightarrow>
     length (rc_myself c) = NODE_ID_LEN \<and> length (rc_myself d) = NODE_ID_LEN
     \<and> table_id (rc_ids c) target = Some (rc_myself d) \<and> table_name (rc_ids d) (rc_myself c) = Some source"

interpretation relay: packet_link "\<lambda>t p c. (relay_encode_relayed t p c, c)" "\<lambda>s b c. (relay_decode s b c, c)"
  relay_linked plain_fits "\<lambda>data. data"
proof unfold_locales
  fix n target source c d p bytes c'
  assume l: "relay_linked (Suc n) target source c d" and f: "plain_fits (vp_data p)"
    and e: "(relay_encode_relayed target p c, c) = (Inr bytes, c')"
  have "envelope_decode bytes = Inr (envelope_relayed (rc_myself d) (rc_myself c) (vp_data p))"
    using l e envelope_roundtrip [of "envelope_relayed (rc_myself d) (rc_myself c) (vp_data p)"]
    by (auto simp: relay_linked_def relay_encode_relayed_def envelope_relayed_def)
  then show "\<exists>d'. (relay_decode source bytes d, d) = (Inr \<lparr>vp_data = vp_data p, vp_priority = 0\<rparr>, d')
      \<and> relay_linked n target source c' d'"
    using l f e by (simp add: relay_decode_def check_envelope_def relay_linked_def envelope_relayed_def
        vpn_packet_new_def plain_fits_def)
qed (simp add: relay_linked_def)

end
