(* ===== verification/Legacy_Link.thy ===== *)
theory Legacy_Link
  imports Legacy_Props Datagram_Transport
begin

text \<open>
  The legacy codec provides a link between two daemons that installed the same key, for the first
  \<open>2 ^ 30\<close> packets.
\<close>

definition legacy_linked :: "legacy_crypto \<Rightarrow> nat \<Rightarrow> string \<Rightarrow> string \<Rightarrow> legacy_udp_codec \<Rightarrow> legacy_udp_codec \<Rightarrow> bool" where
  "legacy_linked C n target source c d \<longleftrightarrow> legacy_laws C \<and> cipher_expands C
     \<and> (\<exists>p q. bt_get (lu_peers c) target = Some p \<and> bt_get (lu_peers d) source = Some q
         \<and> direction_ok C (lp_outgoing p) \<and> lp_incoming q = lp_outgoing p
         \<and> lw_received_seqno (lp_replay q) = lp_sent_seqno p
         \<and> unat (lp_sent_seqno p) + n \<le> 1073741824)"

interpretation legacy: packet_link "legacy_encode C" "legacy_decode C" "legacy_linked C" plain_fits
  "\<lambda>data. data" for C
proof unfold_locales
  fix n target source c d p bytes c'
  assume l: "legacy_linked C (Suc n) target source c d" and f: "plain_fits (vp_data p)"
    and e: "legacy_encode C target p c = (Inr bytes, c')"
  from l obtain s q where laws: "legacy_laws C" "cipher_expands C"
    and peers: "bt_get (lu_peers c) target = Some s" "bt_get (lu_peers d) source = Some q"
    and dir: "direction_ok C (lp_outgoing s)" "lp_incoming q = lp_outgoing s"
    and seq: "lw_received_seqno (lp_replay q) = lp_sent_seqno s" "unat (lp_sent_seqno s) + Suc n \<le> 1073741824"
    by (auto simp: legacy_linked_def)
  from e peers obtain s' where enc: "legacy_peer_encode C (vp_data p) s = Inr (bytes, s')"
    and c': "c' = c\<lparr>lu_peers := bt_adjust target (\<lambda>_. s') (lu_peers c)\<rparr>"
    by (auto simp: legacy_encode_def split: sum.splits prod.splits)
  from enc have s': "s' = s\<lparr>lp_sent_seqno := lp_sent_seqno s + 1\<rparr>" by (rule peer_encode_Inr)
  from decode_next [OF laws dir _ enc seq(1)] f seq(2) obtain q' where
    q': "legacy_peer_decode C bytes q = (Inr \<lparr>vp_data = vp_data p, vp_priority = 0\<rparr>, q')"
      "lp_incoming q' = lp_incoming q" "lw_received_seqno (lp_replay q') = lp_sent_seqno s + 1"
    by (auto simp: plain_fits_def)
  have "unat (lp_sent_seqno s + 1) = unat (lp_sent_seqno s) + 1"
    by (rule unat_succ) (use seq(2) in \<open>auto simp: U32_MAX_def\<close>)
  then show "\<exists>d'. legacy_decode C source bytes d = (Inr \<lparr>vp_data = vp_data p, vp_priority = 0\<rparr>, d')
      \<and> legacy_linked C n target source c' d'"
    using peers q' c' s' laws dir seq(2)
    by (simp add: legacy_decode_def legacy_linked_def bt_get_adjust)
next
  fix n target source c d p e c'
  assume "legacy_linked C (Suc n) target source c d" "legacy_encode C target p c = (Inl e, c')"
  then show "legacy_linked C n target source c' d"
    by (auto simp: legacy_linked_def legacy_encode_def split: sum.splits prod.splits)
qed

end
