(* ===== verification/Sptps_Peer.thy ===== *)
theory Sptps_Peer
  imports Datagram_Transport Sptps_Handshake
begin

text \<open>
  SPTPS packets over datagrams (\<^verbatim>\<open>tinc-runtime/src/transport.rs\<close>): a peer's session, which is
  a bare codec or an established handshake session, and the codec over all peers that wraps records
  in envelopes.  The handshake may draw random numbers while a record is decoded; the draws are an
  argument.
\<close>

section \<open>Packets and payloads\<close>

definition SPTPS_PACKET_TYPE_MAC :: byte where "SPTPS_PACKET_TYPE_MAC = 0x02"

definition packet_type_has_mac_header :: "byte \<Rightarrow> bool" where
  "packet_type_has_mac_header t \<longleftrightarrow> t AND SPTPS_PACKET_TYPE_MAC \<noteq> 0"

definition sptps_payload_from_packet :: "byte \<Rightarrow> vpn_packet \<Rightarrow> transport_error + byte list" where
  "sptps_payload_from_packet t p =
     (if packet_type_has_mac_header t then Inr (vp_data p)
      else if length (vp_data p) < ETH_HLEN
      then Inl (transport_of_device (DevicePacketTooShort ETH_HLEN (length (vp_data p))))
      else Inr (drop ETH_HLEN (vp_data p)))"

definition sptps_packet_from_payload :: "byte \<Rightarrow> byte list \<Rightarrow> transport_error + vpn_packet" where
  "sptps_packet_from_payload t payload =
     (if packet_type_has_mac_header t then map_err transport_of_device (vpn_packet_new payload)
      else case payload of
             [] \<Rightarrow> Inl (transport_of_device (DevicePacketTooShort 1 0))
           | first # _ \<Rightarrow>
               and_then (map_err transport_of_device (ip_ether_type first)) (\<lambda>ether_type.
                 map_err transport_of_device (vpn_packet_new (frame_with_type ether_type payload))))"

section \<open>Sessions\<close>

datatype sptps_peer_state = PeerCodec datagram_codec | PeerHandshake handshake_session

record sptps_peer_session =
  ps_state :: sptps_peer_state
  ps_packet_type :: byte

definition peer_session_new :: "datagram_codec \<Rightarrow> byte \<Rightarrow> sptps_error + sptps_peer_session" where
  "peer_session_new c t =
     (if t \<ge> SPTPS_HANDSHAKE then Inl (InvalidRecordType t)
      else Inr \<lparr>ps_state = PeerCodec c, ps_packet_type = t\<rparr>)"

definition peer_from_handshake :: "handshake_session \<Rightarrow> byte \<Rightarrow> sptps_error + sptps_peer_session" where
  "peer_from_handshake s t =
     (if t \<ge> SPTPS_HANDSHAKE then Inl (InvalidRecordType t)
      else if \<not> is_established s then Inl (MissingHandshakeState ''established SPTPS keys'')
      else Inr \<lparr>ps_state = PeerHandshake s, ps_packet_type = t\<rparr>)"

definition peer_with_symmetric_key :: "sptps_key \<Rightarrow> byte \<Rightarrow> nat \<Rightarrow> sptps_error + sptps_peer_session" where
  "peer_with_symmetric_key key t n = peer_session_new (datagram_with_keys key key n) t"

definition peer_verify :: "('p, 's) sptps_crypto \<Rightarrow> byte list \<Rightarrow> sptps_peer_session \<Rightarrow> sptps_error + unit" where
  "peer_verify C datagram s =
     (case ps_state s of
        PeerCodec c \<Rightarrow> datagram_verify C datagram c
      | PeerHandshake h \<Rightarrow> session_verify C datagram h)"

definition peer_encode_record :: "('p, 's) sptps_crypto \<Rightarrow> byte \<Rightarrow> byte list \<Rightarrow> sptps_peer_session
    \<Rightarrow> (sptps_error + byte list) \<times> sptps_peer_session" where
  "peer_encode_record C t payload s =
     (case ps_state s of
        PeerCodec c \<Rightarrow> map_prod id (\<lambda>c. s\<lparr>ps_state := PeerCodec c\<rparr>) (datagram_encode C t payload c)
      | PeerHandshake h \<Rightarrow> map_prod id (\<lambda>h. s\<lparr>ps_state := PeerHandshake h\<rparr>) (send_record C t payload h))"

definition peer_encode_packet :: "('p, 's) sptps_crypto \<Rightarrow> vpn_packet \<Rightarrow> sptps_peer_session
    \<Rightarrow> (transport_error + byte list) \<times> sptps_peer_session" where
  "peer_encode_packet C p s =
     (case sptps_payload_from_packet (ps_packet_type s) p of
        Inl e \<Rightarrow> (Inl e, s)
      | Inr payload \<Rightarrow>
          map_prod (map_err transport_of_sptps) id (peer_encode_record C (ps_packet_type s) payload s))"

definition peer_force_key_exchange :: "('p, 's) sptps_crypto \<Rightarrow> random_draws \<Rightarrow> sptps_peer_session
    \<Rightarrow> (sptps_error + byte list list) \<times> sptps_peer_session" where
  "peer_force_key_exchange C draws s =
     (case ps_state s of
        PeerCodec c \<Rightarrow> (Inl (MissingHandshakeState ''established SPTPS handshake session''), s)
      | PeerHandshake h \<Rightarrow>
          (case force_kex C draws h of
             (Inl e, h) \<Rightarrow> (Inl e, s\<lparr>ps_state := PeerHandshake h\<rparr>)
           | (Inr _, h) \<Rightarrow>
               let (datagrams, h) = drain_outbound h
               in (Inr datagrams, s\<lparr>ps_state := PeerHandshake h\<rparr>)))"

text \<open>Only an application record is a result; the handshake's own records are reported as errors.\<close>

definition record_of_events :: "handshake_event list \<Rightarrow> sptps_error + sptps_record" where
  "record_of_events events =
     (case events of
        [ApplicationRecord t payload] \<Rightarrow> Inr \<lparr>rec_seqno = 0, rec_type = t, rec_payload = payload\<rparr>
      | _ \<Rightarrow> Inl (InvalidRecordType SPTPS_HANDSHAKE))"

definition peer_decode_record :: "('p, 's::comm_ring_1) sptps_crypto \<Rightarrow> random_draws \<Rightarrow> byte list
    \<Rightarrow> sptps_peer_session \<Rightarrow> (sptps_error + sptps_record) \<times> sptps_peer_session" where
  "peer_decode_record C draws datagram s =
     (case ps_state s of
        PeerCodec c \<Rightarrow> map_prod id (\<lambda>c. s\<lparr>ps_state := PeerCodec c\<rparr>) (datagram_decode C datagram c)
      | PeerHandshake h \<Rightarrow>
          map_prod (\<lambda>r. and_then r record_of_events) (\<lambda>h. s\<lparr>ps_state := PeerHandshake h\<rparr>)
            (receive_datagram C draws datagram h))"

section \<open>The codec\<close>

record sptps_packet_codec =
  pc_ids :: node_id_table
  pc_myself :: node_id
  pc_peers :: "(string, sptps_peer_session) btree"

definition packet_codec_new :: "node_id \<Rightarrow> node_id_table \<Rightarrow> sptps_packet_codec" where
  "packet_codec_new myself ids = \<lparr>pc_ids = ids, pc_myself = myself, pc_peers = []\<rparr>"

definition packet_insert_peer :: "string \<Rightarrow> sptps_peer_session \<Rightarrow> sptps_packet_codec
    \<Rightarrow> sptps_peer_session option \<times> sptps_packet_codec" where
  "packet_insert_peer name s c =
     (bt_get (pc_peers c) name, c\<lparr>pc_peers := bt_insert name s (pc_peers c)\<rparr>)"

definition packet_remove_peer :: "string \<Rightarrow> sptps_packet_codec \<Rightarrow> sptps_peer_session option \<times> sptps_packet_codec" where
  "packet_remove_peer name c = (bt_get (pc_peers c) name, c\<lparr>pc_peers := bt_remove name (pc_peers c)\<rparr>)"

text \<open>\<^verbatim>\<open>self.peers.get_mut(name)\<close> and an operation on the session found.\<close>

definition with_session :: "string \<Rightarrow> (sptps_peer_session \<Rightarrow> (transport_error + 'a) \<times> sptps_peer_session)
    \<Rightarrow> sptps_packet_codec \<Rightarrow> (transport_error + 'a) \<times> sptps_packet_codec" where
  "with_session name f c =
     (case bt_get (pc_peers c) name of
        None \<Rightarrow> (Inl (transport_not_found (''missing SPTPS session for '' @ name)), c)
      | Some s \<Rightarrow>
          (case f s of (r, s) \<Rightarrow> (r, c\<lparr>pc_peers := bt_adjust name (\<lambda>_. s) (pc_peers c)\<rparr>)))"

definition encode_record_for where
  "encode_record_for C target p = with_session target (peer_encode_packet C p)"

definition encode_record_payload_for where
  "encode_record_payload_for C target t payload =
     with_session target (\<lambda>s. map_prod (map_err transport_of_sptps) id (peer_encode_record C t payload s))"

text \<open>A record put into a direct or relayed envelope; the identifier is looked up first.\<close>

definition wrap_direct :: "node_id \<Rightarrow> (transport_error + byte list) \<times> sptps_packet_codec
    \<Rightarrow> (transport_error + byte list) \<times> sptps_packet_codec" where
  "wrap_direct myself = map_prod (map_ok (\<lambda>r. envelope_encode (envelope_direct myself r))) id"

definition wrap_relayed :: "string \<Rightarrow> (sptps_packet_codec \<Rightarrow> (transport_error + byte list) \<times> sptps_packet_codec)
    \<Rightarrow> sptps_packet_codec \<Rightarrow> (transport_error + byte list) \<times> sptps_packet_codec" where
  "wrap_relayed target f c =
     (case table_id (pc_ids c) target of
        None \<Rightarrow> (Inl (transport_not_found (''unknown target node ID for '' @ target)), c)
      | Some i \<Rightarrow> map_prod (map_ok (\<lambda>r. envelope_encode (envelope_relayed i (pc_myself c) r))) id (f c))"

definition packet_encode_direct where
  "packet_encode_direct C target p c = wrap_direct (pc_myself c) (encode_record_for C target p c)"

definition packet_encode_relayed where
  "packet_encode_relayed C target p c = wrap_relayed target (encode_record_for C target p) c"

definition packet_encode_direct_record where
  "packet_encode_direct_record C target t payload c =
     wrap_direct (pc_myself c) (encode_record_payload_for C target t payload c)"

definition packet_encode_relayed_record where
  "packet_encode_relayed_record C target t payload c =
     wrap_relayed target (encode_record_payload_for C target t payload) c"

definition verify_direct_source :: "('p, 's) sptps_crypto \<Rightarrow> byte list \<Rightarrow> sptps_packet_codec
    \<Rightarrow> transport_error + string option" where
  "verify_direct_source C datagram c =
     and_then (envelope_decode datagram) (\<lambda>e.
       if \<not> id_is_null (re_destination e) then Inr None
       else case table_name (pc_ids c) (re_source e) of
              None \<Rightarrow> Inr None
            | Some name \<Rightarrow>
                (case bt_get (pc_peers c) name of
                   None \<Rightarrow> Inr None
                 | Some s \<Rightarrow> map_ok (\<lambda>_. Some name) (map_err transport_of_sptps (peer_verify C (re_payload e) s))))"

text \<open>The record a datagram carries: type and payload.\<close>

definition packet_decode_record :: "('p, 's::comm_ring_1) sptps_crypto \<Rightarrow> random_draws \<Rightarrow> string \<Rightarrow> byte list
    \<Rightarrow> sptps_packet_codec \<Rightarrow> (transport_error + byte \<times> byte list) \<times> sptps_packet_codec" where
  "packet_decode_record C draws source datagram c =
     (case and_then (envelope_decode datagram) (\<lambda>e.
             map_ok (\<lambda>_. e) (check_envelope ''SPTPS'' (pc_ids c) (pc_myself c) source e)) of
        Inl e \<Rightarrow> (Inl e, c)
      | Inr e \<Rightarrow>
          with_session source (\<lambda>s. map_prod
            (\<lambda>r. map_ok (\<lambda>r. (rec_type r, rec_payload r)) (map_err transport_of_sptps r)) id
            (peer_decode_record C draws (re_payload e) s)) c)"

definition packet_decode :: "('p, 's::comm_ring_1) sptps_crypto \<Rightarrow> random_draws \<Rightarrow> string \<Rightarrow> byte list
    \<Rightarrow> sptps_packet_codec \<Rightarrow> (transport_error + vpn_packet) \<times> sptps_packet_codec" where
  "packet_decode C draws source datagram c =
     (case map_option ps_packet_type (bt_get (pc_peers c) source) of
        None \<Rightarrow> (Inl (transport_not_found (''missing SPTPS session for '' @ source)), c)
      | Some expected \<Rightarrow>
          (case packet_decode_record C draws source datagram c of
             (Inl e, c) \<Rightarrow> (Inl e, c)
           | (Inr (t, payload), c) \<Rightarrow>
               (if t \<noteq> expected
                then Inl (transport_invalid (''unexpected SPTPS record type '' @ show_byte t @ '' from ''
                       @ source @ '', expected '' @ show_byte expected))
                else sptps_packet_from_payload t payload, c)))"

end
