(* ===== verification/Key_Exchange.thy ===== *)
theory Key_Exchange
  imports Sptps_Peer Protocol
begin

text \<open>
  \<^verbatim>\<open>tinc-runtime/src/key_exchange.rs\<close>: the SPTPS handshakes a node runs with its peers over key
  request and answer messages, until a session is established and handed to the packet codec.  An
  operation that starts a session takes its random draws; a session just started draws nothing more
  while it receives its first message, so one pair of draws per operation is enough.
\<close>

section \<open>State\<close>

record sptps_key_exchange =
  ke_myself :: string
  ke_private_key :: ed25519_private_key
  ke_peer_keys :: "(string, ed25519_public_key) btree"
  ke_sessions :: "(string, handshake_session) btree"
  ke_compression :: int
  ke_packet_type :: byte
  ke_replay_window_bytes :: nat

datatype key_exchange_event =
    Established string sptps_peer_session
  | KeyExchangeRecord string byte "byte list"

record key_exchange_result =
  kr_outbound :: "meta_message list"
  kr_events :: "key_exchange_event list"

datatype key_exchange_error =
    UnknownPeerKey string
  | MissingSession string
  | WrongDestination string string
  | UnsupportedMessage request
  | KeyProtocol sptps_key_payload_error
  | KeySptps sptps_error

type_synonym key_exchange_op =
  "sptps_key_exchange \<Rightarrow> (key_exchange_error + key_exchange_result) \<times> sptps_key_exchange"

definition result_default :: key_exchange_result where
  "result_default = \<lparr>kr_outbound = [], kr_events = []\<rparr>"

definition key_exchange_new :: "string \<Rightarrow> ed25519_private_key \<Rightarrow> byte
    \<Rightarrow> key_exchange_error + sptps_key_exchange" where
  "key_exchange_new myself private_key t =
     (if t \<ge> SPTPS_HANDSHAKE then Inl (KeySptps (InvalidRecordType t))
      else Inr \<lparr>ke_myself = myself, ke_private_key = private_key, ke_peer_keys = [], ke_sessions = [],
             ke_compression = 0, ke_packet_type = t,
             ke_replay_window_bytes = DEFAULT_SPTPS_REPLAY_WINDOW_BYTES\<rparr>)"

definition with_compression :: "int \<Rightarrow> sptps_key_exchange \<Rightarrow> sptps_key_exchange" where
  "with_compression c k = k\<lparr>ke_compression := c\<rparr>"

definition with_replay_window_bytes :: "nat \<Rightarrow> sptps_key_exchange \<Rightarrow> sptps_key_exchange" where
  "with_replay_window_bytes n k = k\<lparr>ke_replay_window_bytes := n\<rparr>"

definition insert_peer_public_key :: "string \<Rightarrow> ed25519_public_key \<Rightarrow> sptps_key_exchange
    \<Rightarrow> ed25519_public_key option \<times> sptps_key_exchange" where
  "insert_peer_public_key peer key k =
     (bt_get (ke_peer_keys k) peer, k\<lparr>ke_peer_keys := bt_insert peer key (ke_peer_keys k)\<rparr>)"

definition pending_session :: "sptps_key_exchange \<Rightarrow> string \<Rightarrow> handshake_session option" where
  "pending_session k peer = bt_get (ke_sessions k) peer"

definition remove_pending_session :: "string \<Rightarrow> sptps_key_exchange \<Rightarrow> bool \<times> sptps_key_exchange" where
  "remove_pending_session peer k =
     (bt_contains (ke_sessions k) peer, k\<lparr>ke_sessions := bt_remove peer (ke_sessions k)\<rparr>)"

definition peer_key :: "sptps_key_exchange \<Rightarrow> string \<Rightarrow> key_exchange_error + ed25519_public_key" where
  "peer_key k peer = ok_or (UnknownPeerKey peer) (bt_get (ke_peer_keys k) peer)"

definition sptps_udp_label :: "string \<Rightarrow> string \<Rightarrow> byte list" where
  "sptps_udp_label initiator responder =
     map of_char (''tinc UDP key expansion '' @ initiator @ '' '' @ responder) @ [0]"

section \<open>Messages out\<close>

definition drain_outbound_messages :: "string \<Rightarrow> string \<Rightarrow> int \<Rightarrow> handshake_session \<Rightarrow> bool
    \<Rightarrow> meta_message list \<times> handshake_session" where
  "drain_outbound_messages myself peer compression s initial_request =
     (let (datagrams, s) = drain_outbound s;
          answer = (\<lambda>d. MsgAnswerKey (sptps_handshake myself peer d compression))
      in (case datagrams of
            [] \<Rightarrow> []
          | d # ds \<Rightarrow>
              if initial_request
              then MsgRequestKey (sptps_initial_request myself peer d) # map answer ds
              else map answer (d # ds), s))"

section \<open>Starting\<close>

definition start_initiator :: "('p, 's) sptps_crypto \<Rightarrow> random_draws \<Rightarrow> string \<Rightarrow> key_exchange_op" where
  "start_initiator C draws peer k =
     (if bt_contains (ke_sessions k) peer then (Inr result_default, k)
      else case peer_key k peer of
             Inl e \<Rightarrow> (Inl e, k)
           | Inr key \<Rightarrow>
               (case start_datagram C draws True (ke_private_key k) key
                       (sptps_udp_label (ke_myself k) peer) (ke_replay_window_bytes k) of
                  Inl e \<Rightarrow> (Inl (KeySptps e), k)
                | Inr s \<Rightarrow>
                    let (outbound, s) = drain_outbound_messages (ke_myself k) peer (ke_compression k) s True
                    in (Inr \<lparr>kr_outbound = outbound, kr_events = []\<rparr>,
                        k\<lparr>ke_sessions := bt_insert peer s (ke_sessions k)\<rparr>)))"

definition restart_initiator :: "('p, 's) sptps_crypto \<Rightarrow> random_draws \<Rightarrow> string \<Rightarrow> key_exchange_op" where
  "restart_initiator C draws peer k = start_initiator C draws peer (snd (remove_pending_session peer k))"

section \<open>Receiving\<close>

fun key_event :: "string \<Rightarrow> handshake_event \<Rightarrow> key_exchange_event list" where
  "key_event peer HandshakeComplete = []"
| "key_event peer (ApplicationRecord t payload) = [KeyExchangeRecord peer t payload]"

definition finish_or_store :: "string \<Rightarrow> handshake_session \<Rightarrow> meta_message list \<Rightarrow> handshake_event list
    \<Rightarrow> key_exchange_op" where
  "finish_or_store peer s outbound events k =
     (let kept = concat (map (key_event peer) events)
      in if HandshakeComplete \<in> set events
         then case peer_from_handshake s (ke_packet_type k) of
                Inl e \<Rightarrow> (Inl (KeySptps e), k)
              | Inr session \<Rightarrow> (Inr \<lparr>kr_outbound = outbound, kr_events = kept @ [Established peer session]\<rparr>, k)
         else (Inr \<lparr>kr_outbound = outbound, kr_events = kept\<rparr>,
               k\<lparr>ke_sessions := bt_insert peer s (ke_sessions k)\<rparr>))"

text \<open>
  A request from the peer replaces a pending session, unless both sides started one and the lower
  name is this node's, which stays the initiator.
\<close>

definition receive_initial_request :: "('p, 's::comm_ring_1) sptps_crypto \<Rightarrow> random_draws
    \<Rightarrow> sptps_key_payload \<Rightarrow> key_exchange_op" where
  "receive_initial_request C draws payload k =
     (let peer = kp_from payload
      in if (case bt_get (ke_sessions k) peer of
               Some s \<Rightarrow> hs_initiator s \<and> ke_myself k < peer | None \<Rightarrow> False)
         then (Inr result_default, k)
         else case peer_key k peer of
                Inl e \<Rightarrow> (Inl e, k)
              | Inr key \<Rightarrow>
                  (case start_datagram C draws False (ke_private_key k) key
                          (sptps_udp_label peer (ke_myself k)) (ke_replay_window_bytes k) of
                     Inl e \<Rightarrow> (Inl (KeySptps e), k)
                   | Inr s \<Rightarrow>
                       (case receive_datagram C draws (kp_data payload) s of
                          (Inl e, s) \<Rightarrow> (Inl (KeySptps e), k)
                        | (Inr events, s) \<Rightarrow>
                            let (outbound, s) = drain_outbound_messages (ke_myself k) peer (ke_compression k) s False
                            in finish_or_store peer s outbound events k)))"

text \<open>A session that refuses its message stays pending, with what it changed before the error.\<close>

definition receive_existing_payload :: "('p, 's::comm_ring_1) sptps_crypto \<Rightarrow> random_draws
    \<Rightarrow> sptps_key_payload \<Rightarrow> key_exchange_op" where
  "receive_existing_payload C draws payload k =
     (let peer = kp_from payload
      in case bt_get (ke_sessions k) peer of
           None \<Rightarrow> (Inl (MissingSession peer), k)
         | Some s \<Rightarrow>
             (case receive_datagram C draws (kp_data payload) s of
                (Inl e, s) \<Rightarrow> (Inl (KeySptps e), k\<lparr>ke_sessions := bt_adjust peer (\<lambda>_. s) (ke_sessions k)\<rparr>)
              | (Inr events, s) \<Rightarrow>
                  let (outbound, s) = drain_outbound_messages (ke_myself k) peer (ke_compression k) s False
                  in finish_or_store peer s outbound events
                       (k\<lparr>ke_sessions := bt_remove peer (ke_sessions k)\<rparr>)))"

definition ensure_destination :: "sptps_key_exchange \<Rightarrow> sptps_key_payload \<Rightarrow> key_exchange_error + unit" where
  "ensure_destination k payload =
     (if kp_to payload = ke_myself k then Inr ()
      else Inl (WrongDestination (ke_myself k) (kp_to payload)))"

definition receive_request_key :: "('p, 's::comm_ring_1) sptps_crypto \<Rightarrow> random_draws
    \<Rightarrow> request_key_message \<Rightarrow> key_exchange_op" where
  "receive_request_key C draws m k =
     (case and_then (map_err KeyProtocol (decode_request_key m))
             (\<lambda>payload. map_ok (\<lambda>_. payload) (ensure_destination k payload)) of
        Inl e \<Rightarrow> (Inl e, k)
      | Inr payload \<Rightarrow>
          (case kp_kind payload of
             InitialRequest \<Rightarrow> receive_initial_request C draws payload k
           | SptpsTcpPayload \<Rightarrow> receive_existing_payload C draws payload k
           | HandshakeAnswer \<Rightarrow> (Inl (KeyProtocol NotSptps), k)))"

definition receive_answer_key :: "('p, 's::comm_ring_1) sptps_crypto \<Rightarrow> random_draws
    \<Rightarrow> answer_key_message \<Rightarrow> key_exchange_op" where
  "receive_answer_key C draws m k =
     (case and_then (map_err KeyProtocol (decode_answer_key m))
             (\<lambda>payload. map_ok (\<lambda>_. payload) (ensure_destination k payload)) of
        Inl e \<Rightarrow> (Inl e, k)
      | Inr payload \<Rightarrow> receive_existing_payload C draws payload k)"

definition receive_meta_message :: "('p, 's::comm_ring_1) sptps_crypto \<Rightarrow> random_draws
    \<Rightarrow> meta_message \<Rightarrow> key_exchange_op" where
  "receive_meta_message C draws message k =
     (case message of
        MsgRequestKey m \<Rightarrow> receive_request_key C draws m k
      | MsgAnswerKey m \<Rightarrow> receive_answer_key C draws m k
      | m \<Rightarrow> (Inl (UnsupportedMessage (message_request m)), k))"

section \<open>Errors\<close>

fun show_payload_error :: "sptps_key_payload_error \<Rightarrow> string" where
  "show_payload_error NotSptps = ''key message does not carry SPTPS data''"
| "show_payload_error MissingPayload = ''SPTPS key message is missing payload data''"
| "show_payload_error InvalidBase64 = ''invalid tinc base64 data''"

fun show_key_exchange_error :: "key_exchange_error \<Rightarrow> string" where
  "show_key_exchange_error (UnknownPeerKey peer) = ''missing Ed25519 public key for '' @ peer"
| "show_key_exchange_error (MissingSession peer) = ''missing pending SPTPS session for '' @ peer"
| "show_key_exchange_error (WrongDestination expected actual) =
     ''SPTPS key exchange message is addressed to '' @ actual @ '', expected '' @ expected"
| "show_key_exchange_error (UnsupportedMessage request) =
     ''unsupported SPTPS key exchange message '' @ request_name request"
| "show_key_exchange_error (KeyProtocol e) = show_payload_error e"
| "show_key_exchange_error (KeySptps e) = show_sptps_error e"

end
