(* ===== verification/Sptps_Peer_Props.thy ===== *)
theory Sptps_Peer_Props
  imports Sptps_Peer Sptps_Props
begin

text \<open>
  SPTPS packets over datagrams: two sessions whose channels agree deliver each other's packets,
  through an envelope and through two transports, and what a codec decodes was written for it under
  the key of the session with its source.
\<close>

section \<open>The channels of a session\<close>

fun peer_codec :: "sptps_peer_state \<Rightarrow> handshake_codec" where
  "peer_codec (PeerCodec c) = DatagramCodec c"
| "peer_codec (PeerHandshake h) = hs_codec h"

definition peer_out :: "sptps_peer_session \<Rightarrow> channel" where
  "peer_out s = codec_out (peer_codec (ps_state s))"

definition peer_in :: "sptps_peer_session \<Rightarrow> channel" where
  "peer_in s = codec_in (peer_codec (ps_state s))"

lemma below_handshake: "t < SPTPS_HANDSHAKE \<Longrightarrow> \<not> SPTPS_HANDSHAKE \<le> t \<and> t \<noteq> SPTPS_HANDSHAKE" for t :: byte
  by auto

lemma peer_encode_bytes:
  assumes t: "t < SPTPS_HANDSHAKE" and ok: "channel_allows C (peer_out s) t p"
  shows "\<exists>s'. peer_encode_record C t p s = (Inr (channel_bytes C (peer_out s) t p), s')
    \<and> peer_out s' = channel_step (peer_out s) \<and> peer_in s' = peer_in s
    \<and> ps_packet_type s' = ps_packet_type s"
proof -
  have "channel_allows C (codec_out (peer_codec (ps_state s))) t p" using ok by (simp add: peer_out_def)
  from codec_encode_bytes [OF this] obtain c' where
    c': "codec_encode C t p (peer_codec (ps_state s)) = (Inr (channel_bytes C (peer_out s) t p), c')"
      "codec_out c' = channel_step (peer_out s)" "codec_in c' = peer_in s"
    by (auto simp: peer_out_def peer_in_def)
  show ?thesis
  proof (cases "ps_state s")
    case (PeerCodec c)
    with c' obtain d where "datagram_encode C t p c = (Inr (channel_bytes C (peer_out s) t p), d)"
      "c' = DatagramCodec d" by (cases "datagram_encode C t p c") auto
    then show ?thesis using c' PeerCodec
      by (simp add: peer_encode_record_def peer_out_def peer_in_def del: channel_bytes.simps)
  next
    case (PeerHandshake h)
    then show ?thesis using c' below_handshake [OF t]
      by (simp add: peer_encode_record_def send_record_def peer_out_def peer_in_def del: channel_bytes.simps)
  qed
qed

lemma peer_decode_bytes:
  assumes t: "t < SPTPS_HANDSHAKE" and ok: "channel_allows C (peer_in s) t p"
  shows "\<exists>s' q. peer_decode_record C draws (channel_bytes C (peer_in s) t p) s
      = (Inr \<lparr>rec_seqno = q, rec_type = t, rec_payload = p\<rparr>, s')
    \<and> peer_in s' = channel_step (peer_in s) \<and> peer_out s' = peer_out s
    \<and> ps_packet_type s' = ps_packet_type s"
proof -
  have "channel_allows C (codec_in (peer_codec (ps_state s))) t p" using ok by (simp add: peer_in_def)
  from codec_decode_bytes [OF this] obtain c' q where
    c': "codec_decode C (channel_bytes C (peer_in s) t p) (peer_codec (ps_state s))
        = (Inr \<lparr>rec_seqno = q, rec_type = t, rec_payload = p\<rparr>, c')"
      "codec_in c' = channel_step (peer_in s)" "codec_out c' = peer_out s"
    by (auto simp: peer_out_def peer_in_def)
  show ?thesis
  proof (cases "ps_state s")
    case (PeerCodec c)
    with c' obtain d where "datagram_decode C (channel_bytes C (peer_in s) t p) c
        = (Inr \<lparr>rec_seqno = q, rec_type = t, rec_payload = p\<rparr>, d)" "c' = DatagramCodec d"
      by (cases "datagram_decode C (channel_bytes C (peer_in s) t p) c") auto
    then show ?thesis using c' PeerCodec
      by (simp add: peer_decode_record_def peer_out_def peer_in_def del: channel_bytes.simps)
  next
    case (PeerHandshake h)
    then show ?thesis using c' below_handshake [OF t] t
      by (simp add: peer_decode_record_def receive_datagram_def record_of_events_def peer_out_def peer_in_def
          del: channel_bytes.simps)
  qed
qed

section \<open>Packets and payloads\<close>

definition payload_fits :: "byte \<Rightarrow> byte list \<Rightarrow> bool" where
  "payload_fits t data \<longleftrightarrow> length data \<le> VPN_MTU \<and> (packet_type_has_mac_header t \<or> ip_frame data)"

definition payload_view :: "byte \<Rightarrow> byte list \<Rightarrow> byte list" where
  "payload_view t data = (if packet_type_has_mac_header t then data else cleared_addresses data)"

lemma payload_roundtrip:
  assumes "payload_fits t (vp_data p)"
  shows "\<exists>b. sptps_payload_from_packet t p = Inr b \<and> length b \<le> VPN_MTU
    \<and> sptps_packet_from_payload t b = Inr \<lparr>vp_data = payload_view t (vp_data p), vp_priority = 0\<rparr>"
proof (cases "packet_type_has_mac_header t")
  case True
  with assms show ?thesis
    by (simp add: payload_fits_def payload_view_def sptps_payload_from_packet_def
        sptps_packet_from_payload_def vpn_packet_new_def)
next
  case False
  with assms have ip: "ip_frame (vp_data p)" and l: "length (vp_data p) \<le> VPN_MTU"
    by (simp_all add: payload_fits_def)
  from ip have l14: "14 < length (vp_data p)" by (simp add: ip_frame_def ETH_HLEN_def)
  then obtain b bs where b: "drop ETH_HLEN (vp_data p) = b # bs"
    by (cases "drop ETH_HLEN (vp_data p)") (auto simp: ETH_HLEN_def)
  have "vpn_packet_new (cleared_addresses (vp_data p)) = Inr \<lparr>vp_data = cleared_addresses (vp_data p), vp_priority = 0\<rparr>"
    using l l14 by (simp add: vpn_packet_new_def cleared_addresses_def)
  moreover have "length (drop ETH_HLEN (vp_data p)) \<le> VPN_MTU" using l by simp
  moreover have "\<not> length (vp_data p) < ETH_HLEN" using l14 by (simp add: ETH_HLEN_def)
  moreover have "map_ok (\<lambda>e. frame_with_type e (b # bs)) (ip_ether_type b) = Inr (cleared_addresses (vp_data p))"
    using ip_frame_payload [OF ip] b by (simp add: ethernet_frame_from_ip_payload_def)
  ultimately show ?thesis using False b
    by (cases "ip_ether_type b")
      (simp_all add: sptps_payload_from_packet_def sptps_packet_from_payload_def payload_view_def)
qed

section \<open>The links\<close>

definition session_pair :: "('p, 's) sptps_crypto \<Rightarrow> byte \<Rightarrow> sptps_peer_session \<Rightarrow> sptps_peer_session \<Rightarrow> bool" where
  "session_pair C t s r \<longleftrightarrow> hashes_ok C \<and> t < SPTPS_HANDSHAKE \<and> ps_packet_type s = t \<and> ps_packet_type r = t
     \<and> peer_out s = peer_in r \<and> fst (snd (peer_out s)) \<noteq> None"

lemma session_pair_packet:
  assumes l: "session_pair C t s r" and f: "payload_fits t (vp_data p)"
  shows "\<exists>bytes s' r' b q. peer_encode_packet C p s = (Inr bytes, s')
    \<and> peer_decode_record C draws bytes r = (Inr \<lparr>rec_seqno = q, rec_type = t, rec_payload = b\<rparr>, r')
    \<and> sptps_packet_from_payload t b = Inr \<lparr>vp_data = payload_view t (vp_data p), vp_priority = 0\<rparr>
    \<and> session_pair C t s' r' \<and> length bytes \<le> VPN_MTU + 21"
proof -
  from payload_roundtrip [OF f] obtain b where b: "sptps_payload_from_packet t p = Inr b"
    "length b \<le> VPN_MTU" "sptps_packet_from_payload t b = Inr \<lparr>vp_data = payload_view t (vp_data p), vp_priority = 0\<rparr>"
    by blast
  have t: "t < SPTPS_HANDSHAKE" using l by (simp add: session_pair_def)
  have ok: "channel_allows C (peer_out s) t b" "channel_allows C (peer_in r) t b"
    using l b(2) by (auto simp: channel_allows_def session_pair_def VPN_MTU_def)
  have "hashes_ok C" using l by (simp add: session_pair_def)
  then have "length (channel_bytes C (peer_out s) t b) \<le> VPN_MTU + 21"
    using b(2) by (cases "peer_out s" rule: prod_cases3; cases "fst (snd (peer_out s))") auto
  moreover from peer_encode_bytes [OF t ok(1)] peer_decode_bytes [OF t ok(2), of draws] obtain s' r' q where
    "peer_encode_record C t b s = (Inr (channel_bytes C (peer_out s) t b), s')"
    "peer_decode_record C draws (channel_bytes C (peer_out s) t b) r
      = (Inr \<lparr>rec_seqno = q, rec_type = t, rec_payload = b\<rparr>, r')"
    "session_pair C t s' r'"
    using l by (auto simp: session_pair_def simp del: channel_bytes.simps)
  ultimately show ?thesis using b l by (auto simp: peer_encode_packet_def session_pair_def simp del: channel_bytes.simps)
qed

text \<open>
  What ties the codecs of two nodes: the sessions they keep for each other, and the identifiers they
  know each other by.  A direct datagram needs no identifier of the target.
\<close>

definition sptps_linked :: "('p, 's) sptps_crypto \<Rightarrow> byte \<Rightarrow> bool \<Rightarrow> nat \<Rightarrow> string \<Rightarrow> string
    \<Rightarrow> sptps_packet_codec \<Rightarrow> sptps_packet_codec \<Rightarrow> bool" where
  "sptps_linked C t relayed n target source c d \<longleftrightarrow>
     length (pc_myself c) = NODE_ID_LEN \<and> length (pc_myself d) = NODE_ID_LEN
     \<and> table_name (pc_ids d) (pc_myself c) = Some source
     \<and> (relayed \<longrightarrow> table_id (pc_ids c) target = Some (pc_myself d))
     \<and> (\<exists>s r. bt_get (pc_peers c) target = Some s \<and> bt_get (pc_peers d) source = Some r \<and> session_pair C t s r)"

lemma id_null_length: "length NODE_ID_NULL = NODE_ID_LEN"
  by (simp add: NODE_ID_NULL_def)

lemma encode_record_for_session:
  "bt_get (pc_peers c) target = Some s \<Longrightarrow> encode_record_for C target p c
    = (fst (peer_encode_packet C p s),
       c\<lparr>pc_peers := bt_adjust target (\<lambda>_. snd (peer_encode_packet C p s)) (pc_peers c)\<rparr>)"
  by (simp add: encode_record_for_def with_session_def split_beta)

text \<open>Decoding an envelope that passes the checks.\<close>

lemma packet_decode_checked:
  assumes "envelope_decode d = Inr e" "check_envelope ''SPTPS'' (pc_ids c) (pc_myself c) source e = Inr ()"
    and "bt_get (pc_peers c) source = Some s"
    and "peer_decode_record C draws (re_payload e) s = (Inr r, s')" "rec_type r = ps_packet_type s"
  shows "packet_decode C draws source d c = (sptps_packet_from_payload (rec_type r) (rec_payload r),
      c\<lparr>pc_peers := bt_adjust source (\<lambda>_. s') (pc_peers c)\<rparr>)"
  using assms by (simp add: packet_decode_def packet_decode_record_def with_session_def)

lemma sptps_hop:
  assumes l: "sptps_linked C t relayed n target source c d" and f: "payload_fits t (vp_data p)"
    and len: "length dest = NODE_ID_LEN" "dest = NODE_ID_NULL \<or> dest = pc_myself d"
    and e: "encode_record_for C target p c = (r, c')"
  shows "\<exists>bytes d'. r = Inr bytes \<and> length bytes \<le> VPN_MTU + 21
    \<and> packet_decode C draws source (envelope_encode \<lparr>re_destination = dest, re_source = pc_myself c, re_payload = bytes\<rparr>) d
        = (Inr \<lparr>vp_data = payload_view t (vp_data p), vp_priority = 0\<rparr>, d')
    \<and> sptps_linked C t relayed m target source c' d'"
proof -
  from l obtain s q where s: "bt_get (pc_peers c) target = Some s" "bt_get (pc_peers d) source = Some q"
      "session_pair C t s q"
    and ids: "length (pc_myself c) = NODE_ID_LEN" "length (pc_myself d) = NODE_ID_LEN"
      "table_name (pc_ids d) (pc_myself c) = Some source"
      "relayed \<longrightarrow> table_id (pc_ids c) target = Some (pc_myself d)"
    by (auto simp: sptps_linked_def)
  from session_pair_packet [OF s(3) f, of draws] obtain bytes s' q' b n' where
    p: "peer_encode_packet C p s = (Inr bytes, s')"
    "peer_decode_record C draws bytes q = (Inr \<lparr>rec_seqno = n', rec_type = t, rec_payload = b\<rparr>, q')"
    "sptps_packet_from_payload t b = Inr \<lparr>vp_data = payload_view t (vp_data p), vp_priority = 0\<rparr>"
    "session_pair C t s' q'" "length bytes \<le> VPN_MTU + 21" by blast
  let ?e = "\<lparr>re_destination = dest, re_source = pc_myself c, re_payload = bytes\<rparr>"
  have t: "ps_packet_type q = t" using s(3) by (simp add: session_pair_def)
  have dec: "envelope_decode (envelope_encode ?e) = Inr ?e"
    by (rule envelope_roundtrip) (simp_all add: len ids)
  have chk: "check_envelope ''SPTPS'' (pc_ids d) (pc_myself d) source ?e = Inr ()"
    using ids(3) len(2) by (auto simp: check_envelope_def id_is_null_def)
  let ?d = "d\<lparr>pc_peers := bt_adjust source (\<lambda>_. q') (pc_peers d)\<rparr>"
  have "packet_decode C draws source (envelope_encode ?e) d
      = (Inr \<lparr>vp_data = payload_view t (vp_data p), vp_priority = 0\<rparr>, ?d)"
    using packet_decode_checked [OF dec chk s(2), where C = C and draws = draws] p t by simp
  moreover have rc: "r = Inr bytes" "c' = c\<lparr>pc_peers := bt_adjust target (\<lambda>_. s') (pc_peers c)\<rparr>"
    using e p(1) by (simp_all add: encode_record_for_session [OF s(1)])
  moreover have "sptps_linked C t relayed m target source c' ?d"
    using s ids p(4) by (simp add: rc sptps_linked_def bt_get_adjust)
  ultimately show ?thesis using p(5) by blast
qed

lemma codec_encode_refused: "codec_encode C t p c = (Inl e, c') \<Longrightarrow> c' = c"
  by (cases c) (auto simp: datagram_encode_def tcp_encode_def Let_def map_prod_def
      split: sum.splits prod.splits if_splits)

lemma peer_record_refused:
  assumes "peer_encode_record C t b s = (Inl e, s')"
  shows "s' = s"
proof (cases "ps_state s")
  case (PeerCodec c)
  with assms obtain d where d: "datagram_encode C t b c = (Inl e, d)" "s' = s\<lparr>ps_state := PeerCodec d\<rparr>"
    by (cases "datagram_encode C t b c") (auto simp: peer_encode_record_def)
  with codec_encode_refused [of C t b "DatagramCodec c" e "DatagramCodec d"] PeerCodec show ?thesis
    by (cases s) simp
next
  case (PeerHandshake h)
  obtain x c where x: "codec_encode C t b (hs_codec h) = (x, c)" by (cases "codec_encode C t b (hs_codec h)")
  have "SPTPS_HANDSHAKE \<le> t \<or> x = Inl e \<and> c = hs_codec h"
    using assms PeerHandshake x codec_encode_refused [of C t b "hs_codec h" e c]
    by (auto simp: peer_encode_record_def send_record_def split: if_splits)
  then show ?thesis using assms PeerHandshake x
    by (cases s; cases h) (auto simp: peer_encode_record_def send_record_def split: if_splits)
qed

lemma peer_packet_refused: "peer_encode_packet C p s = (Inl e, s') \<Longrightarrow> s' = s"
  by (cases "sptps_payload_from_packet (ps_packet_type s) p";
      cases "peer_encode_record C (ps_packet_type s) (projr (sptps_payload_from_packet (ps_packet_type s) p)) s";
      cases "fst (peer_encode_record C (ps_packet_type s) (projr (sptps_payload_from_packet (ps_packet_type s) p)) s)")
    (auto simp: peer_encode_packet_def dest: peer_record_refused)

lemma encode_record_for_refused:
  assumes l: "sptps_linked C t relayed n target source c d" and e: "encode_record_for C target p c = (Inl e, c')"
  shows "sptps_linked C t relayed m target source c' d"
proof -
  from l obtain s q where s: "bt_get (pc_peers c) target = Some s" "session_pair C t s q"
    by (auto simp: sptps_linked_def)
  from e have err: "fst (peer_encode_packet C p s) = Inl e"
    and c': "c' = c\<lparr>pc_peers := bt_adjust target (\<lambda>_. snd (peer_encode_packet C p s)) (pc_peers c)\<rparr>"
    by (auto simp: encode_record_for_session [OF s(1)])
  have "snd (peer_encode_packet C p s) = s"
    using err by (cases "peer_encode_packet C p s") (auto dest: peer_packet_refused)
  then show ?thesis using l s by (auto simp: c' sptps_linked_def bt_get_adjust session_pair_def)
qed

definition packet_encode_via :: "('p, 's) sptps_crypto \<Rightarrow> bool \<Rightarrow> string \<Rightarrow> vpn_packet \<Rightarrow> sptps_packet_codec
    \<Rightarrow> (transport_error + byte list) \<times> sptps_packet_codec" where
  "packet_encode_via C relayed = (if relayed then packet_encode_relayed C else packet_encode_direct C)"

lemma encode_via_Inr:
  assumes l: "sptps_linked C t relayed n target source c d"
    and e: "packet_encode_via C relayed target p c = (Inr bytes, c')"
  shows "\<exists>r dest. encode_record_for C target p c = (Inr r, c') \<and> length dest = NODE_ID_LEN
    \<and> (dest = NODE_ID_NULL \<or> dest = pc_myself d)
    \<and> bytes = envelope_encode \<lparr>re_destination = dest, re_source = pc_myself c, re_payload = r\<rparr>"
proof (cases relayed)
  case True
  with l e show ?thesis
    by (cases "encode_record_for C target p c"; cases "fst (encode_record_for C target p c)")
      (auto simp: packet_encode_via_def packet_encode_relayed_def wrap_relayed_def sptps_linked_def
        envelope_relayed_def map_ok_def split: sum.splits)
next
  case False
  with l e show ?thesis
    by (cases "encode_record_for C target p c"; cases "fst (encode_record_for C target p c)")
      (auto simp: packet_encode_via_def packet_encode_direct_def wrap_direct_def envelope_direct_def
        id_null_length map_ok_def intro!: exI [of _ NODE_ID_NULL] split: sum.splits)
qed

lemma encode_via_Inl:
  assumes "sptps_linked C t relayed n target source c d"
    and "packet_encode_via C relayed target p c = (Inl e, c')"
  shows "encode_record_for C target p c = (Inl e, c')"
  using assms
  by (cases relayed; cases "encode_record_for C target p c"; cases "fst (encode_record_for C target p c)")
    (auto simp: packet_encode_via_def packet_encode_relayed_def packet_encode_direct_def wrap_relayed_def
      wrap_direct_def sptps_linked_def map_ok_def split: sum.splits)

lemma length_envelope:
  "length (re_destination e) = NODE_ID_LEN \<Longrightarrow> length (re_source e) = NODE_ID_LEN
    \<Longrightarrow> length (envelope_encode e) = RELAY_HEADER_LEN + length (re_payload e)"
  by (simp add: envelope_encode_def RELAY_HEADER_LEN_def)

lemma sptps_via:
  assumes l: "sptps_linked C t relayed n target source c d" and f: "payload_fits t (vp_data p)"
    and e: "packet_encode_via C relayed target p c = (Inr bytes, c')"
  shows "\<exists>d'. packet_decode C draws source bytes d
        = (Inr \<lparr>vp_data = payload_view t (vp_data p), vp_priority = 0\<rparr>, d')
    \<and> sptps_linked C t relayed m target source c' d' \<and> length bytes \<le> MAX_DATAGRAM_SIZE"
proof -
  from encode_via_Inr [OF l e] obtain r dest where r: "encode_record_for C target p c = (Inr r, c')"
    "length dest = NODE_ID_LEN" "dest = NODE_ID_NULL \<or> dest = pc_myself d"
    "bytes = envelope_encode \<lparr>re_destination = dest, re_source = pc_myself c, re_payload = r\<rparr>" by blast
  have me: "length (pc_myself c) = NODE_ID_LEN" using l by (simp add: sptps_linked_def)
  from sptps_hop [OF l f r(2,3,1), of draws m] obtain d' where
    "length r \<le> VPN_MTU + 21"
    "packet_decode C draws source bytes d = (Inr \<lparr>vp_data = payload_view t (vp_data p), vp_priority = 0\<rparr>, d')"
    "sptps_linked C t relayed m target source c' d'" by (auto simp: r(4))
  moreover from this(1) have "length bytes \<le> MAX_DATAGRAM_SIZE"
    using r(2) me by (simp add: r(4) length_envelope MAX_DATAGRAM_SIZE_def RELAY_HEADER_LEN_def)
  ultimately show ?thesis by blast
qed

interpretation sptps: packet_link "packet_encode_via C relayed" "packet_decode C draws"
  "sptps_linked C t relayed" "payload_fits t" "payload_view t" for C draws t relayed
proof unfold_locales
  fix n target source c d p bytes c'
  assume "sptps_linked C t relayed (Suc n) target source c d" "payload_fits t (vp_data p)"
    "packet_encode_via C relayed target p c = (Inr bytes, c')"
  from sptps_via [OF this, of draws n]
  show "\<exists>d'. packet_decode C draws source bytes d
        = (Inr \<lparr>vp_data = payload_view t (vp_data p), vp_priority = 0\<rparr>, d')
      \<and> sptps_linked C t relayed n target source c' d'" by blast
next
  fix n target source c d p e c'
  assume l: "sptps_linked C t relayed (Suc n) target source c d"
    and e: "packet_encode_via C relayed target p c = (Inl e, c')"
  show "sptps_linked C t relayed n target source c' d"
    by (rule encode_record_for_refused [OF l encode_via_Inl [OF l e]])
qed

lemma sptps_encodes:
  fixes C :: "('p, 's::comm_ring_1) sptps_crypto"
  assumes l: "sptps_linked C t relayed n target source c d" and f: "payload_fits t (vp_data p)"
  shows "\<exists>bytes c'. packet_encode_via C relayed target p c = (Inr bytes, c')"
proof -
  obtain r c' where e0: "encode_record_for C target p c = (r, c')"
    by (cases "encode_record_for C target p c")
  from sptps_hop [OF l f id_null_length disjI1 [OF refl] e0] obtain b where r: "r = Inr b" by blast
  have "relayed \<longrightarrow> (\<exists>i. table_id (pc_ids c) target = Some i)" using l by (simp add: sptps_linked_def)
  with e0 r show ?thesis
    by (cases relayed) (auto simp: packet_encode_via_def packet_encode_relayed_def
        packet_encode_direct_def wrap_relayed_def wrap_direct_def)
qed

section \<open>Properties\<close>


lemma check_envelope_Inr:
  assumes "check_envelope what ids myself source e = Inr u"
  shows "table_name ids (re_source e) = Some source"
    "re_destination e = NODE_ID_NULL \<or> re_destination e = myself"
  using assms by (auto simp: check_envelope_def id_is_null_def split: option.splits if_splits)

lemma record_of_events_Inr:
  "record_of_events events = Inr r \<Longrightarrow> events = [ApplicationRecord (rec_type r) (rec_payload r)]"
  by (auto simp: record_of_events_def split: list.splits handshake_event.splits)

lemma handshake_events:
  "receive_handshake C draws data s = (Inr events, s') \<Longrightarrow> events = [] \<or> events = [HandshakeComplete]"
  by (auto simp: receive_handshake_def op_then_def op_return_def set_state_def op_update_def
      split: sptps_handshake_state.splits prod.splits sum.splits if_splits)

lemma application_record_decoded:
  assumes "receive_datagram C draws d h = (Inr [ApplicationRecord t p], h')"
  shows "\<exists>q c. codec_decode C d (hs_codec h) = (Inr \<lparr>rec_seqno = q, rec_type = t, rec_payload = p\<rparr>, c)"
proof -
  obtain x c where d: "codec_decode C d (hs_codec h) = (x, c)" by (cases "codec_decode C d (hs_codec h)")
  show ?thesis
  proof (cases x)
    case (Inl e)
    with assms d show ?thesis by (simp add: receive_datagram_def)
  next
    case (Inr r)
    with assms d have "rec_type r = t \<and> rec_payload r = p"
      by (auto simp: receive_datagram_def Let_def dest: handshake_events split: if_splits)
    with d Inr show ?thesis by (intro exI [of _ "rec_seqno r"] exI [of _ c]) auto
  qed
qed

text \<open>What a session decodes was written under its key; the packet type never changes.\<close>

lemma peer_decode_authentic:
  assumes "peer_decode_record C draws d s = (Inr r, s')" "rec_type r < SPTPS_HANDSHAKE"
  shows "\<exists>q k. fst (snd (peer_in s)) = Some k
    \<and> d = channel_bytes C (fst (peer_in s), Some k, q) (rec_type r) (rec_payload r)"
proof -
  have key: "fst (snd (peer_in s)) = codec_in_key (peer_codec (ps_state s))"
    by (cases "peer_codec (ps_state s)") (simp_all add: peer_in_def)
  have dec: "\<exists>q c'. codec_decode C d (peer_codec (ps_state s))
      = (Inr \<lparr>rec_seqno = q, rec_type = rec_type r, rec_payload = rec_payload r\<rparr>, c')"
  proof (cases "ps_state s")
    case (PeerCodec c)
    with assms show ?thesis
      by (cases "datagram_decode C d c") (auto simp: peer_decode_record_def intro!: exI [of _ "rec_seqno r"])
  next
    case (PeerHandshake h)
    with assms(1) obtain events h' where ev: "receive_datagram C draws d h = (Inr events, h')"
      "record_of_events events = Inr r"
      by (cases "receive_datagram C draws d h"; cases "fst (receive_datagram C draws d h)")
        (auto simp: peer_decode_record_def)
    from record_of_events_Inr [OF ev(2)] have "events = [ApplicationRecord (rec_type r) (rec_payload r)]" .
    with ev(1) PeerHandshake show ?thesis by (auto dest: application_record_decoded)
  qed
  then obtain q c' where "codec_decode C d (peer_codec (ps_state s))
      = (Inr \<lparr>rec_seqno = q, rec_type = rec_type r, rec_payload = rec_payload r\<rparr>, c')" by blast
  from decode_authentic [OF this] assms(2) key show ?thesis
    by (cases "codec_in_key (peer_codec (ps_state s))") (auto simp: peer_in_def simp del: channel_bytes.simps)
qed

text \<open>A packet codec's operations touch one session, and only when the checks before it pass.\<close>

lemma packet_decode_record_cases:
  assumes "packet_decode_record C draws source d c = (r, c')"
  shows "(\<exists>e. r = Inl e \<and> c' = c)
    \<or> (\<exists>e s x s'. envelope_decode d = Inr e
        \<and> check_envelope ''SPTPS'' (pc_ids c) (pc_myself c) source e = Inr ()
        \<and> bt_get (pc_peers c) source = Some s
        \<and> peer_decode_record C draws (re_payload e) s = (x, s')
        \<and> r = map_ok (\<lambda>r. (rec_type r, rec_payload r)) (map_err transport_of_sptps x)
        \<and> c' = c\<lparr>pc_peers := bt_adjust source (\<lambda>_. s') (pc_peers c)\<rparr>)"
proof (cases "and_then (envelope_decode d) (\<lambda>e. map_ok (\<lambda>_. e) (check_envelope ''SPTPS'' (pc_ids c) (pc_myself c) source e))")
  case (Inl e)
  with assms have "r = Inl e \<and> c' = c" by (auto simp: packet_decode_record_def)
  then show ?thesis by blast
next
  case (Inr e)
  then have e: "envelope_decode d = Inr e" "check_envelope ''SPTPS'' (pc_ids c) (pc_myself c) source e = Inr ()"
    by (auto simp: and_then_def map_ok_def split: sum.splits)
  show ?thesis
  proof (cases "bt_get (pc_peers c) source")
    case None
    with assms Inr have "(\<exists>e. r = Inl e) \<and> c' = c" by (auto simp: packet_decode_record_def with_session_def)
    then show ?thesis by blast
  next
    case (Some s)
    with assms Inr e show ?thesis
      by (cases "peer_decode_record C draws (re_payload e) s")
        (simp add: packet_decode_record_def with_session_def)
  qed
qed

text \<open>
  C32: a packet a codec decodes came in an envelope with the identifier of the source its address
  named, direct or addressed to this node, and the bytes inside are those an encoder with the
  incoming key of the session with that source writes for the packet's payload, with the session's
  packet type; whatever is decoded or refused, no other peer's session and no identifier changes,
  and an envelope that fails the checks changes nothing.
\<close>

theorem packet_decode_authentic:
  assumes t: "\<forall>s. bt_get (pc_peers c) source = Some s \<longrightarrow> ps_packet_type s < SPTPS_HANDSHAKE"
    and dec: "packet_decode C draws source d c = (r, c')"
  shows "(\<forall>p. r = Inr p \<longrightarrow> (\<exists>e s q k b. d = envelope_encode e
        \<and> table_name (pc_ids c) (re_source e) = Some source
        \<and> (re_destination e = NODE_ID_NULL \<or> re_destination e = pc_myself c)
        \<and> bt_get (pc_peers c) source = Some s \<and> fst (snd (peer_in s)) = Some k
        \<and> re_payload e = channel_bytes C (fst (peer_in s), Some k, q) (ps_packet_type s) b
        \<and> sptps_packet_from_payload (ps_packet_type s) b = Inr p))
    \<and> (\<forall>n. n \<noteq> source \<longrightarrow> bt_get (pc_peers c') n = bt_get (pc_peers c) n)
    \<and> pc_ids c' = pc_ids c \<and> pc_myself c' = pc_myself c
    \<and> ((\<forall>e. envelope_decode d = Inr e
          \<longrightarrow> check_envelope ''SPTPS'' (pc_ids c) (pc_myself c) source e \<noteq> Inr ()) \<longrightarrow> c' = c)"
proof (cases "bt_get (pc_peers c) source")
  case None
  with dec show ?thesis by (auto simp: packet_decode_def)
next
  case (Some s)
  obtain x c1 where x: "packet_decode_record C draws source d c = (x, c1)"
    by (cases "packet_decode_record C draws source d c")
  with dec Some have c1: "c' = c1" "r = (case x of Inl e \<Rightarrow> Inl e | Inr (t, payload) \<Rightarrow>
      if t \<noteq> ps_packet_type s
      then Inl (transport_invalid (''unexpected SPTPS record type '' @ show_byte t @ '' from ''
             @ source @ '', expected '' @ show_byte (ps_packet_type s)))
      else sptps_packet_from_payload t payload)"
    by (auto simp: packet_decode_def split: sum.splits)
  from packet_decode_record_cases [OF x] show ?thesis
  proof (elim disjE exE conjE)
    fix e assume "x = Inl e" "c1 = c"
    with c1 show ?thesis by simp
  next
    fix e s0 y s' assume e: "envelope_decode d = Inr e"
      "check_envelope ''SPTPS'' (pc_ids c) (pc_myself c) source e = Inr ()"
      and s0: "bt_get (pc_peers c) source = Some s0"
      and y: "peer_decode_record C draws (re_payload e) s0 = (y, s')"
      and x': "x = map_ok (\<lambda>r. (rec_type r, rec_payload r)) (map_err transport_of_sptps y)"
      and c1': "c1 = c\<lparr>pc_peers := bt_adjust source (\<lambda>_. s') (pc_peers c)\<rparr>"
    have s: "s0 = s" using s0 Some by simp
    have "\<exists>e s q k b. d = envelope_encode e \<and> table_name (pc_ids c) (re_source e) = Some source
        \<and> (re_destination e = NODE_ID_NULL \<or> re_destination e = pc_myself c)
        \<and> bt_get (pc_peers c) source = Some s \<and> fst (snd (peer_in s)) = Some k
        \<and> re_payload e = channel_bytes C (fst (peer_in s), Some k, q) (ps_packet_type s) b
        \<and> sptps_packet_from_payload (ps_packet_type s) b = Inr p" if p: "r = Inr p" for p
    proof -
      from p c1(2) x' obtain z where z: "y = Inr z" "rec_type z = ps_packet_type s"
        "sptps_packet_from_payload (rec_type z) (rec_payload z) = Inr p"
        by (cases y) (auto split: if_splits)
      have "rec_type z < SPTPS_HANDSHAKE" using t Some z(2) by simp
      from peer_decode_authentic [OF y [unfolded z(1) s] this] obtain q k where
        "fst (snd (peer_in s)) = Some k"
        "re_payload e = channel_bytes C (fst (peer_in s), Some k, q) (rec_type z) (rec_payload z)" by blast
      then show ?thesis
        using z(2,3) Some envelope_decode_Inr(1) [OF e(1)] check_envelope_Inr [OF e(2)] by metis
    qed
    moreover have "\<forall>n. n \<noteq> source \<longrightarrow> bt_get (pc_peers c') n = bt_get (pc_peers c) n"
      "pc_ids c' = pc_ids c" "pc_myself c' = pc_myself c"
      by (simp_all add: c1(1) c1' bt_get_adjust)
    ultimately show ?thesis using e by blast
  qed
qed

section \<open>A concrete pair of daemons\<close>

definition demo_peer_session :: sptps_peer_session where
  "demo_peer_session = \<lparr>ps_state = PeerCodec (datagram_with_keys (SptpsKey [4]) (SptpsKey [4]) 2), ps_packet_type = 2\<rparr>"

definition demo_ids :: node_id_table where
  "demo_ids = snd (id_table_insert ''b'' (replicate 6 2) (snd (id_table_insert ''a'' (replicate 6 1) id_table_new)))"

definition demo_codec :: "byte \<Rightarrow> string \<Rightarrow> sptps_packet_codec" where
  "demo_codec i peer = snd (packet_insert_peer peer demo_peer_session (packet_codec_new (replicate 6 i) demo_ids))"

lemma demo_ids_lookup:
  "table_id demo_ids ''b'' = Some (replicate 6 2)" "table_name demo_ids (replicate 6 1) = Some ''a''"
  "table_name demo_ids [1, 1, 1, 1, 1, 1] = Some ''a''"
  by code_simp+

lemma demo_linked: "sptps_linked demo_crypto 2 relayed n ''b'' ''a'' (demo_codec 1 ''b'') (demo_codec 2 ''a'')"
  by (simp add: sptps_linked_def session_pair_def demo_codec_def demo_peer_session_def packet_codec_new_def
      packet_insert_peer_def demo_hashes_ok peer_out_def peer_in_def datagram_with_keys_def
      replay_window_new_def demo_ids_lookup NODE_ID_LEN_def SPTPS_HANDSHAKE_def bt_get_def)

lemma demo_mac_type: "packet_type_has_mac_header 2"
  by (simp add: packet_type_has_mac_header_def SPTPS_PACKET_TYPE_MAC_def)

definition demo_transport :: "byte \<Rightarrow> string \<Rightarrow> (nat memory_io, sptps_packet_codec, nat) datagram_transport" where
  "demo_transport i peer = \<lparr>dt_io = \<lparr>mi_incoming = [], mi_outgoing = []\<rparr>, dt_codec = demo_codec i peer,
     dt_addresses = address_push peer 7 addresses_new\<rparr>"


theorem packet_decode_authentic_witness:
  "\<exists>e q b d'. packet_decode demo_crypto (Inr [], Inr []) ''a'' (envelope_encode e) (demo_codec 2 ''a'')
      = (Inr \<lparr>vp_data = [1, 2, 3], vp_priority = 0\<rparr>, d')
    \<and> re_payload e = channel_bytes demo_crypto (True, Some (SptpsKey [4]), q) 2 b"
proof -
  have f: "payload_fits 2 (vp_data \<lparr>vp_data = [1, 2, 3], vp_priority = 9\<rparr>)"
    by (simp add: payload_fits_def demo_mac_type VPN_MTU_def)
  have v: "payload_view 2 [1, 2, 3] = [1, 2, 3]" by (simp add: payload_view_def demo_mac_type)
  have s: "bt_get (pc_peers (demo_codec 2 ''a'')) ''a'' = Some demo_peer_session"
    by (simp add: demo_codec_def packet_insert_peer_def packet_codec_new_def bt_get_def)
  have ds: "ps_packet_type demo_peer_session = 2" "fst (peer_in demo_peer_session)"
    "fst (snd (peer_in demo_peer_session)) = Some (SptpsKey [4])"
    by (simp_all add: demo_peer_session_def peer_in_def datagram_with_keys_def)
  obtain bytes c' where e: "packet_encode_via demo_crypto True ''b'' \<lparr>vp_data = [1, 2, 3], vp_priority = 9\<rparr>
      (demo_codec 1 ''b'') = (Inr bytes, c')"
    using sptps_encodes [OF demo_linked f] by blast
  from sptps_via [OF demo_linked f e, where draws = "(Inr [], Inr [])" and m = 0] obtain d' where d: "packet_decode demo_crypto (Inr [], Inr []) ''a'' bytes (demo_codec 2 ''a'')
      = (Inr \<lparr>vp_data = [1, 2, 3], vp_priority = 0\<rparr>, d')" by (auto simp: v)
  have t: "\<forall>s. bt_get (pc_peers (demo_codec 2 ''a'')) ''a'' = Some s \<longrightarrow> ps_packet_type s < SPTPS_HANDSHAKE"
    by (simp add: s ds SPTPS_HANDSHAKE_def)
  from packet_decode_authentic [OF t d] d show ?thesis by (auto simp: s ds simp del: channel_bytes.simps)
qed

end
