(* ===== verification/Sptps_Flow.thy ===== *)
theory Sptps_Flow
  imports Sptps_Safety
begin

text \<open>
  What a caller of \<^verbatim>\<open>SptpsHandshakeSession\<close> sees pass: the datagrams an operation queues, the
  datagrams of a first handshake between two nodes, and the signature behind the keys of a session.
\<close>

section \<open>Outgoing datagrams\<close>

text \<open>An operation appends to the outgoing datagrams, and keeps the kind of records and who the
  session is between.\<close>

definition extends :: "handshake_session \<Rightarrow> handshake_session \<Rightarrow> bool" where
  "extends s t \<longleftrightarrow> (\<exists>new. hs_outbound t = hs_outbound s @ new) \<and> same_peers t s
     \<and> fst (codec_in (hs_codec t)) = fst (codec_in (hs_codec s))"

lemma extends_trans: "extends s t \<Longrightarrow> extends t u \<Longrightarrow> extends s u"
  by (auto simp: extends_def same_peers_def)

lemma codec_kind:
  "codec_encode C t p c = (re, c') \<Longrightarrow> fst (codec_in c') = fst (codec_in c)"
  "codec_decode C d c = (rd, c') \<Longrightarrow> fst (codec_in c') = fst (codec_in c)"
proof -
  have "fst (codec_in (snd (codec_encode C t p c))) = fst (codec_in c)"
    "fst (codec_in (snd (codec_decode C d c))) = fst (codec_in c)"
    by (cases c; simp)+
  then show "codec_encode C t p c = (re, c') \<Longrightarrow> fst (codec_in c') = fst (codec_in c)"
    "codec_decode C d c = (rd, c') \<Longrightarrow> fst (codec_in c') = fst (codec_in c)" by simp_all
qed

lemma codec_kind_keys [simp]:
  "fst (codec_in (codec_set_in_key k c)) = fst (codec_in c)" "fst (codec_in (codec_set_out_key k c)) = fst (codec_in c)"
  by (cases c; simp)+

definition sends_on :: "'a session_op \<Rightarrow> bool" where
  "sends_on f \<longleftrightarrow> (\<forall>s. extends s (snd (f s)))"

lemma sends_on_then:
  assumes "sends_on f" "\<And>v. sends_on (g v)"
  shows "sends_on (op_then f g)"
  unfolding sends_on_def
proof
  fix s
  obtain r t where f: "f s = (r, t)" by (cases "f s")
  with assms(1) have "extends s t" unfolding sends_on_def by (metis snd_conv)
  with f assms(2) show "extends s (snd (op_then f g s))"
    by (cases r) (auto simp: op_then_def sends_on_def intro: extends_trans)
qed

lemma sends_on_basic:
  "sends_on (op_return v)" "sends_on (op_lift r)" "sends_on (set_state st)"
  "(\<And>s. extends s (f s)) \<Longrightarrow> sends_on (op_update f)"
  by (simp_all add: sends_on_def extends_def same_peers_def op_return_def op_lift_def set_state_def op_update_def)

lemma sends_on_if: "sends_on f \<Longrightarrow> sends_on g \<Longrightarrow> sends_on (if b then f else g)"
  by simp

lemma extends_codec: "fst (codec_in c) = fst (codec_in (hs_codec s)) \<Longrightarrow> extends s (s\<lparr>hs_codec := c\<rparr>)" "extends s s" "extends s (s\<lparr>hs_his_kex := x\<rparr>)"
  "extends s (s\<lparr>hs_ecdh := e, hs_my_kex := x\<rparr>)"
  by (simp_all add: extends_def same_peers_def)

lemma sends_on_queue: "sends_on (queue_handshake C p)"
  by (auto simp: sends_on_def extends_def same_peers_def queue_handshake_def split: prod.splits sum.splits
      dest: codec_kind(1))

lemma sends_on_from: "sends_on f \<Longrightarrow> extends s t \<Longrightarrow> extends s (snd (f t))"
  unfolding sends_on_def by (metis extends_trans)

lemma sends_on_sig: "sends_on (send_sig C)"
  unfolding sends_on_def send_sig_def
  by (auto intro!: sends_on_from [OF sends_on_queue] simp: extends_codec split: option.splits)

lemma sends_on_kex: "sends_on (send_kex C draws)"
proof -
  have "sends_on (send_kex_with C e n)" for e n
    unfolding sends_on_def send_kex_with_def Let_def
    by (auto intro!: sends_on_from [OF sends_on_queue] simp: extends_codec)
  then have "sends_on (case v of (x, y) \<Rightarrow> send_kex_with C x y)" for v
    by (cases v) simp
  then show ?thesis unfolding send_kex_def by (intro sends_on_then sends_on_basic(2))
qed

lemma sends_on_receive_kex: "sends_on (receive_kex C data)"
  unfolding sends_on_def receive_kex_def Let_def
  by (auto intro!: sends_on_from [OF sends_on_sig] simp: extends_codec split: sum.splits)

lemma sends_on_receive_sig: "sends_on (receive_sig C data)"
proof -
  define f where "f = (\<lambda>i secondary m ko ki. op_then (if i then op_return () else send_sig C) (\<lambda>_.
             op_then (op_update (\<lambda>s. s\<lparr>hs_ecdh := None, hs_my_kex := None, hs_his_kex := None\<rparr>)) (\<lambda>_.
             op_then (if secondary
                      then op_then (queue_handshake C []) (\<lambda>_.
                             op_update (\<lambda>s. s\<lparr>hs_pending := Some m\<rparr>))
                      else op_return ()) (\<lambda>_.
             op_then (op_update (\<lambda>s. s\<lparr>hs_codec := codec_set_out_key ko (hs_codec s)\<rparr>)) (\<lambda>_.
             op_then (if secondary then op_return ()
                      else op_update (\<lambda>s. s\<lparr>hs_codec := codec_set_in_key ki (hs_codec s)\<rparr>)) (\<lambda>_.
             op_return secondary))))))"
  have f: "sends_on (f i secondary m ko ki)" for i secondary m ko ki
    unfolding f_def by (intro sends_on_then sends_on_basic sends_on_if sends_on_queue sends_on_sig)
      (simp_all add: extends_def same_peers_def)
  have "extends s (snd (receive_sig C data s))" for s
  proof (cases "check_sig C data s")
    case (Inl e)
    then show ?thesis by (simp add: receive_sig_def extends_codec)
  next
    case (Inr m)
    obtain ki ko where k: "keys_for_role (hs_initiator s) m = (ki, ko)"
      by (cases "keys_for_role (hs_initiator s) m")
    have "receive_sig C data s = f (hs_initiator s) (codec_out_key (hs_codec s) \<noteq> None) m ko ki s"
      by (simp only: receive_sig_def Inr sum.case Let_def k prod.case f_def)
    then show ?thesis using sends_on_from [OF f extends_codec(2)] by metis
  qed
  then show ?thesis by (simp add: sends_on_def)
qed

lemma sends_on_receive_ack: "sends_on (receive_ack data)"
  by (auto simp: sends_on_def receive_ack_def extends_def same_peers_def Let_def split: option.splits prod.splits)

lemma sends_on_receive_handshake: "sends_on (receive_handshake C draws data)"
proof -
  have "sends_on (op_then (send_kex C draws) (\<lambda>_. op_then (receive_kex C data) (\<lambda>_.
          op_then (set_state StateSig) (\<lambda>_. op_return []))))"
    "sends_on (op_then (receive_kex C data) (\<lambda>_. op_then (set_state StateSig) (\<lambda>_. op_return [])))"
    "sends_on (op_then (receive_sig C data) (\<lambda>secondary.
            if secondary then op_then (set_state StateAck) (\<lambda>_. op_return [])
            else op_then (set_state StateSecondaryKex) (\<lambda>_. op_return [HandshakeComplete])))"
    "sends_on (op_then (receive_ack data) (\<lambda>_.
          op_then (set_state StateSecondaryKex) (\<lambda>_. op_return [HandshakeComplete])))"
    by (intro sends_on_then sends_on_basic sends_on_if sends_on_kex sends_on_receive_kex
        sends_on_receive_sig sends_on_receive_ack)+
  then show ?thesis
    unfolding sends_on_def receive_handshake_def by (auto split: sptps_handshake_state.splits)
qed

lemma sends_on_receive: "sends_on (receive_datagram C draws d)"
  unfolding sends_on_def receive_datagram_def Let_def
  by (auto intro!: sends_on_from [OF sends_on_receive_handshake] extends_codec(1)
      split: prod.splits sum.splits dest: codec_kind(2))

section \<open>The datagrams of a first handshake\<close>

lemma deliver_event:
  assumes "deliver C draws x y = (Inr (e # es), x', y')"
  shows "\<exists>d ds. hs_outbound x = d # ds \<and> x' = x\<lparr>hs_outbound := ds\<rparr>
    \<and> receive_datagram C draws d y = (Inr (e # es), y')"
  using assms by (auto simp: deliver_def pop_outbound_def split: list.splits prod.splits)

lemma receive_extends: "receive_datagram C draws d s = (r, t) \<Longrightarrow> extends s t"
  using sends_on_receive [of C draws d, unfolded sends_on_def] by (metis snd_conv)

lemma receive_outbound:
  assumes "receive_datagram C draws d s = (r, t)"
  shows "\<exists>new. hs_outbound t = hs_outbound s @ new"
  using receive_extends [OF assms] by (simp add: extends_def)

lemma handshake_datagrams:
  assumes ok: "hashes_ok C" "curve_ok C" and k: "private_key_ok C ka" "private_key_ok C kb"
    and n: "length na = 32" "length nb = 32"
    and cod: "codec_out ca = codec_in cb" "codec_out cb = codec_in ca"
      "codec_out_key ca = None" "codec_out_key cb = None"
    and z: "compute_shared C (ephemeral_from_seed C sa) (eph_public (ephemeral_from_seed C sb)) = Inr z"
  shows "\<exists>a b d1 d2 d3 d4 b1 a2 b3 a4.
      start_session C True ka (pk_public kb) l ca (ephemeral_from_seed C sa) na = Inr a
    \<and> start_session C False kb (pk_public ka) l cb (ephemeral_from_seed C sb) nb = Inr b
    \<and> hs_initiator a \<and> hs_outbound a = [d1] \<and> receive_datagram C draws d1 b = (Inr [], b1)
    \<and> hs_outbound b1 = [d2] \<and> receive_datagram C draws d2 (a\<lparr>hs_outbound := []\<rparr>) = (Inr [], a2)
    \<and> hs_outbound a2 = [d3]
    \<and> receive_datagram C draws d3 (b1\<lparr>hs_outbound := []\<rparr>) = (Inr [HandshakeComplete], b3)
    \<and> hs_outbound b3 = [d4]
    \<and> receive_datagram C draws d4 (a2\<lparr>hs_outbound := []\<rparr>) = (Inr [HandshakeComplete], a4)
    \<and> hs_outbound a4 = [] \<and> sessions_agree a4 (b3\<lparr>hs_outbound := []\<rparr>) (material_derive C z na nb l)"
proof -
  define x where "x = kex_new na (eph_public (ephemeral_from_seed C sa))"
  have lx: "kex_version x = SPTPS_VERSION" "length (kex_nonce x) = 32" "length (kex_public x) = 32"
    using n length_eph_public [OF ok(2)] by (simp_all add: x_def kex_new_def)
  from first_handshake [OF ok k n cod z, of l draws] obtain a b a' b' where
    sa: "start_session C True ka (pk_public kb) l ca (ephemeral_from_seed C sa) na = Inr a"
    and sb: "start_session C False kb (pk_public ka) l cb (ephemeral_from_seed C sb) nb = Inr b"
    and run: "handshake_run C draws a b
        = ([Inr [], Inr [], Inr [HandshakeComplete], Inr [HandshakeComplete]], a', b')"
    and ag: "sessions_agree a' b' (material_derive C z na nb l)" by blast
  have a: "hs_outbound a = [channel_bytes C (codec_out ca) SPTPS_HANDSHAKE (kex_to_bytes x)]" "hs_initiator a"
    using session_started [OF ok n(1), of True ka "pk_public kb" l ca sa] sa
    by (auto simp: x_def session_new_def simp del: channel_bytes.simps)
  obtain d2 where b: "hs_outbound b = [d2]" "hs_state b = StateKex" "hs_his_kex b = None" "\<not> hs_initiator b"
    "codec_in (hs_codec b) = codec_in cb"
    using session_started [OF ok n(2), of False kb "pk_public ka" l cb sb] sb
    by (auto simp: session_new_def simp del: channel_bytes.simps)
  define d1 where "d1 = channel_bytes C (codec_out ca) SPTPS_HANDSHAKE (kex_to_bytes x)"
  have d1: "d1 = channel_bytes C (codec_in (hs_codec b)) SPTPS_HANDSHAKE (kex_to_bytes x)"
    by (simp only: d1_def b(5) cod(1))
  obtain b1 where b1: "receive_datagram C draws d1 b = (Inr [], b1)" "hs_outbound b1 = [d2]"
    using receive_kex_responder [OF ok(1) b(2,3,4) lx, of d1 draws] d1 b(1) by auto
  have 1: "deliver C draws a b = (Inr [], a\<lparr>hs_outbound := []\<rparr>, b1)"
    by (rule deliver_received) (use a(1) b1(1) in \<open>simp_all only: d1_def\<close>)
  obtain r2 a2 where r2: "receive_datagram C draws d2 (a\<lparr>hs_outbound := []\<rparr>) = (r2, a2)"
    by (cases "receive_datagram C draws d2 (a\<lparr>hs_outbound := []\<rparr>)")
  have 2: "deliver C draws b1 (a\<lparr>hs_outbound := []\<rparr>) = (r2, b1\<lparr>hs_outbound := []\<rparr>, a2)"
    by (rule deliver_received [OF b1(2) r2])
  obtain r3 a3 b3 where 3: "deliver C draws a2 (b1\<lparr>hs_outbound := []\<rparr>) = (r3, a3, b3)"
    by (cases "deliver C draws a2 (b1\<lparr>hs_outbound := []\<rparr>)")
  obtain r4 b4 a4 where 4: "deliver C draws b3 a3 = (r4, b4, a4)" by (cases "deliver C draws b3 a3")
  from run have r: "r2 = Inr []" "r3 = Inr [HandshakeComplete]" "r4 = Inr [HandshakeComplete]" "a' = a4" "b' = b4"
    by (simp_all add: handshake_run_def 1 2 3 4)
  from deliver_event [OF 3 [unfolded r(2)]] obtain d3 ds where d3: "hs_outbound a2 = d3 # ds"
    "a3 = a2\<lparr>hs_outbound := ds\<rparr>"
    "receive_datagram C draws d3 (b1\<lparr>hs_outbound := []\<rparr>) = (Inr [HandshakeComplete], b3)" by blast
  from deliver_event [OF 4 [unfolded r(3)]] obtain d4 ds' where d4: "hs_outbound b3 = d4 # ds'"
    "b4 = b3\<lparr>hs_outbound := ds'\<rparr>"
    "receive_datagram C draws d4 a3 = (Inr [HandshakeComplete], a4)" by blast
  from ag r have "hs_outbound a4 = []" "hs_outbound b4 = []" by (simp_all add: sessions_agree_def)
  moreover from receive_outbound [OF d4(3)] d3(2) obtain new where "hs_outbound a4 = ds @ new" by auto
  ultimately have "ds = []" "ds' = []" "hs_outbound a4 = []" using d4(2) by simp_all
  moreover have "hs_outbound a = [d1]" using a(1) by (simp only: d1_def)
  moreover have "sessions_agree a4 (b3\<lparr>hs_outbound := []\<rparr>) (material_derive C z na nb l)"
    using ag r(4,5) d4(2) \<open>ds' = []\<close> by simp
  ultimately show ?thesis
    using sa sb a(2) b1 r2 [unfolded r(1)] d3 d4(1,3) by blast
qed

section \<open>A first handshake receives\<close>

definition first_handshake :: "handshake_session \<Rightarrow> bool" where
  "first_handshake s \<longleftrightarrow> session_inv s \<and> codec_out_key (hs_codec s) = None"

lemma first_state:
  assumes "first_handshake s"
  shows "hs_state s = StateKex \<or> hs_state s = StateSig" "codec_in_key (hs_codec s) = None" "hs_pending s = None"
proof -
  have "\<not> is_established s" using assms by (simp add: first_handshake_def is_established_def)
  then show "hs_state s = StateKex \<or> hs_state s = StateSig" "codec_in_key (hs_codec s) = None" "hs_pending s = None"
    using assms by (cases "hs_state s"; auto simp: first_handshake_def session_inv_def)+
qed

text \<open>The peer's signature over both exchanges, and the keys it gives.\<close>

definition signed_keys :: "('p, 's::comm_ring_1) sptps_crypto \<Rightarrow> handshake_session \<Rightarrow> handshake_session \<Rightarrow> bool" where
  "signed_keys C s t \<longleftrightarrow> (\<exists>x y e z sig m. hs_my_kex s = Some x \<and> hs_his_kex s = Some y
     \<and> ed25519_verify C (hs_peer_key s) (signature_message (\<not> hs_initiator s) y x (hs_label s)) sig = Inr ()
     \<and> hs_ecdh s = Some e \<and> compute_shared C e (kex_public y) = Inr z \<and> m = session_material C s x y z
     \<and> codec_out_key (hs_codec t) = Some (snd (keys_for_role (hs_initiator s) m))
     \<and> codec_in_key (hs_codec t) = Some (fst (keys_for_role (hs_initiator s) m)))"

lemma handshake_complete_state:
  assumes ok: "curve_ok C" and st: "hs_state s = StateKex \<or> hs_state s = StateSig"
    and out: "codec_out_key (hs_codec s) = None"
    and r: "receive_handshake C draws p s = (r, t)"
  shows "r = Inr [HandshakeComplete] \<and> codec_out_key (hs_codec t) \<noteq> None
    \<or> (\<forall>events. r = Inr events \<longrightarrow> HandshakeComplete \<notin> set events) \<and> key_state t = key_state s"
proof (cases "hs_state s")
  case StateKex
  obtain r1 u where u: "receive_kex C p s = (r1, u)" by fastforce
  have "key_state t = key_state u" "\<forall>events. r = Inr events \<longrightarrow> HandshakeComplete \<notin> set events"
    using r StateKex u
    by (cases r1; auto simp: receive_handshake_def op_then_def set_state_def op_update_def op_return_def
        key_state_def)+
  with kex_keeps_keys [OF u] show ?thesis by simp
next
  case StateSig
  obtain r1 u where u: "receive_sig C p s = (r1, u)" by fastforce
  from receive_sig_result [OF ok u] out show ?thesis
    using r StateSig u
    by (auto simp: receive_handshake_def op_then_def set_state_def op_update_def op_return_def)
qed (use st in auto)

lemma first_handshake_receives:
  assumes ok: "curve_ok C" and s: "first_handshake s" and d: "receive_datagram C draws d s = (r, t)"
  shows "(r = Inr [HandshakeComplete] \<and> is_established t \<and> signed_keys C s t)
    \<or> (\<forall>events. r = Inr events \<longrightarrow> HandshakeComplete \<notin> set events) \<and> first_handshake t"
proof -
  note st = first_state [OF s]
  have inv: "session_inv s" and out: "codec_out_key (hs_codec s) = None"
    using s by (simp_all add: first_handshake_def)
  have inv': "session_inv t" by (rule receive_datagram_inv [OF ok inv d])
  obtain x c where c: "codec_decode C d (hs_codec s) = (x, c)" by fastforce
  have keys: "codec_out_key (hs_codec (s\<lparr>hs_codec := c\<rparr>)) = None"
      "key_state (s\<lparr>hs_codec := c\<rparr>) = key_state s"
    using decode_keys [OF c] out by (simp_all add: key_state_def)
  have stc: "hs_state (s\<lparr>hs_codec := c\<rparr>) = StateKex \<or> hs_state (s\<lparr>hs_codec := c\<rparr>) = StateSig" using st by simp
  have "(\<forall>events. r = Inr events \<longrightarrow> HandshakeComplete \<notin> set events) \<and> key_state t = key_state s
      \<or> (\<exists>p. receive_handshake C draws p (s\<lparr>hs_codec := c\<rparr>) = (r, t))"
    using d c keys(2) by (cases x) (auto simp: receive_datagram_def Let_def split: if_splits)
  then have "r = Inr [HandshakeComplete] \<and> codec_out_key (hs_codec t) \<noteq> None
      \<or> (\<forall>events. r = Inr events \<longrightarrow> HandshakeComplete \<notin> set events) \<and> key_state t = key_state s"
    using handshake_complete_state [OF ok stc keys(1)] keys(2) by metis
  then show ?thesis
  proof (elim disjE conjE)
    assume r: "r = Inr [HandshakeComplete]" and k: "codec_out_key (hs_codec t) \<noteq> None"
    then have "key_state t \<noteq> key_state s" using out by (auto simp: key_state_def)
    from changed_keys_signed [OF ok d this] st out k r show ?thesis
      by (auto simp: signed_keys_def is_established_def split: if_splits)
  next
    assume r: "\<forall>events. r = Inr events \<longrightarrow> HandshakeComplete \<notin> set events" and k: "key_state t = key_state s"
    then have "codec_out_key (hs_codec t) = None" using out by (simp add: key_state_def)
    with inv' r show ?thesis by (simp add: first_handshake_def)
  qed
qed

lemma start_extends:
  assumes "start_session C i key pk l cod e n = Inr s"
  shows "extends ((session_new i key pk l cod)\<lparr>hs_ecdh := Some e, hs_my_kex := Some (kex_new n (eph_public e))\<rparr>) s"
proof -
  let ?s = "(session_new i key pk l cod)\<lparr>hs_ecdh := Some e, hs_my_kex := Some (kex_new n (eph_public e))\<rparr>"
  from assms have "queue_handshake C (kex_to_bytes (kex_new n (eph_public e))) ?s = (Inr (), s)"
    by (auto simp: start_session_def send_kex_with_def session_new_def Let_def split: prod.splits sum.splits)
  with sends_on_queue [of C "kex_to_bytes (kex_new n (eph_public e))"] show ?thesis
    unfolding sends_on_def by (metis snd_conv)
qed

lemma started_first:
  assumes "start_session C i key pk l cod e n = Inr s"
    and "cod = DatagramCodec (datagram_new w) \<or> cod = TcpCodec tcp_new"
  shows "first_handshake s \<and> hs_his_kex s = None \<and> hs_pending s = None \<and> hs_initiator s = i \<and> hs_my_key s = key
    \<and> hs_peer_key s = pk \<and> hs_label s = l \<and> fst (codec_in (hs_codec s)) = fst (codec_in cod)"
proof -
  let ?s = "(session_new i key pk l cod)\<lparr>hs_ecdh := Some e, hs_my_kex := Some (kex_new n (eph_public e))\<rparr>"
  from assms(1) have "queue_handshake C (kex_to_bytes (kex_new n (eph_public e))) ?s = (Inr (), s)"
    by (auto simp: start_session_def send_kex_with_def session_new_def Let_def split: prod.splits sum.splits)
  then have q: "quiet ?s s" by (rule queue_quiet)
  have "codec_out_key cod = None" using assms(2) by (auto simp: datagram_new_def tcp_new_def)
  with quiet_fields [OF q] start_inv [OF assms] start_extends [OF assms(1)] show ?thesis
    by (auto simp: first_handshake_def session_new_def extends_def)
qed

text \<open>A first handshake draws nothing, and what a responder answers to the exchange does not depend on
  what it has queued.\<close>

lemma first_draws:
  assumes "first_handshake s"
  shows "receive_datagram C draws d s = receive_datagram C draws' d s"
  using first_state(1) [OF assms] by (auto simp: receive_datagram_def receive_handshake_def Let_def split: prod.splits sum.splits)

lemma kex_ignores_outbound:
  assumes "hs_state s = StateKex" "\<not> hs_initiator s" "receive_datagram C draws d s = (r, t)"
  shows "receive_datagram C draws d (s\<lparr>hs_outbound := ob\<rparr>) = (r, t\<lparr>hs_outbound := ob\<rparr>) \<and> hs_outbound t = hs_outbound s"
  using assms
  by (auto simp: receive_datagram_def receive_handshake_def receive_kex_def op_then_def set_state_def
      op_update_def op_return_def Let_def split: prod.splits sum.splits if_splits)

section \<open>Signed keys\<close>

text \<open>
  Key material the peer vouched for: its long-term key verified a signature over its exchange and
  one of this side, and the material comes from the shared secret of the two.
\<close>

definition material_signed :: "('p, 's::comm_ring_1) sptps_crypto \<Rightarrow> handshake_session \<Rightarrow> sptps_key_material \<Rightarrow> bool" where
  "material_signed C s m \<longleftrightarrow> (\<exists>x y e z sig.
     ed25519_verify C (hs_peer_key s) (signature_message (\<not> hs_initiator s) y x (hs_label s)) sig = Inr ()
     \<and> compute_shared C e (kex_public y) = Inr z \<and> m = session_material C s x y z)"

definition keys_signed :: "('p, 's::comm_ring_1) sptps_crypto \<Rightarrow> handshake_session \<Rightarrow> bool" where
  "keys_signed C s \<longleftrightarrow>
     (\<forall>k. codec_out_key (hs_codec s) = Some k \<longrightarrow> (\<exists>m. material_signed C s m \<and> k = snd (keys_for_role (hs_initiator s) m)))
     \<and> (\<forall>k. codec_in_key (hs_codec s) = Some k \<longrightarrow> (\<exists>m. material_signed C s m \<and> k = fst (keys_for_role (hs_initiator s) m)))
     \<and> (\<forall>m. hs_pending s = Some m \<longrightarrow> material_signed C s m)"

lemma keys_signed_same:
  assumes "same_peers t s" "key_state t = key_state s"
  shows "keys_signed C t \<longleftrightarrow> keys_signed C s"
proof -
  have "material_signed C t = material_signed C s"
    using assms(1) by (auto simp: fun_eq_iff material_signed_def session_material_def same_peers_def)
  with assms show ?thesis by (simp add: keys_signed_def key_state_def same_peers_def)
qed

lemma first_keys_signed: "first_handshake s \<Longrightarrow> keys_signed C s"
  using first_state [of s] by (simp add: keys_signed_def first_handshake_def)

lemma pending_receive:
  assumes "curve_ok C" "receive_datagram C draws d s = (r, t)" "key_state t \<noteq> key_state s"
  shows "hs_pending t = hs_pending s \<or> hs_pending t = None
    \<or> hs_state s = StateSig \<and> codec_out_key (hs_codec s) \<noteq> None"
proof -
  obtain rr c where c: "codec_decode C d (hs_codec s) = (rr, c)" by fastforce
  have ks: "key_state (s\<lparr>hs_codec := c\<rparr>) = key_state s"
    using decode_keys [OF c] by (simp add: key_state_def)
  with assms(2,3) c obtain p where rec: "receive_handshake C draws p (s\<lparr>hs_codec := c\<rparr>) = (r, t)"
    by (auto simp: receive_datagram_def Let_def split: sum.splits if_splits)
  from handshake_keys [OF assms(1) rec] assms(3) ks decode_keys [OF c] show ?thesis
    by (auto simp: key_state_def split: if_splits)
qed

lemma receive_keys_signed:
  assumes ok: "curve_ok C" and inv: "keys_signed C s" and d: "receive_datagram C draws d s = (r, t)"
  shows "keys_signed C t"
proof (cases "key_state t = key_state s")
  case True
  from keys_signed_same [OF _ True, of C] receive_extends [OF d] inv show ?thesis by (simp add: extends_def)
next
  case False
  have same: "same_peers t s" using receive_extends [OF d] by (simp add: extends_def)
  then have ms: "material_signed C t = material_signed C s" and i: "hs_initiator t = hs_initiator s"
    by (auto simp: fun_eq_iff material_signed_def session_material_def same_peers_def)
  from changed_keys_signed [OF ok d False] show ?thesis
  proof (elim disjE exE conjE)
    fix x y e z sig m
    assume a: "ed25519_verify C (hs_peer_key s) (signature_message (\<not> hs_initiator s) y x (hs_label s)) sig = Inr ()"
      "compute_shared C e (kex_public y) = Inr z" "m = session_material C s x y z"
      "codec_out_key (hs_codec t) = Some (snd (keys_for_role (hs_initiator s) m))"
      "if codec_out_key (hs_codec s) = None
           then codec_in_key (hs_codec t) = Some (fst (keys_for_role (hs_initiator s) m))
           else codec_in_key (hs_codec t) = codec_in_key (hs_codec s) \<and> hs_pending t = Some m"
    have m: "material_signed C s m" using a(1-3) unfolding material_signed_def by blast
    with a(4,5) inv pending_receive [OF ok d False] ms i show ?thesis
      by (auto simp: keys_signed_def split: if_splits)
  next
    fix m
    assume a: "hs_state s = StateAck" "hs_pending s = Some m"
      "codec_in_key (hs_codec t) = Some (fst (keys_for_role (hs_initiator s) m))"
      "codec_out_key (hs_codec t) = codec_out_key (hs_codec s)"
    with inv pending_receive [OF ok d False] ms i show ?thesis
      by (auto simp: keys_signed_def)
  qed
qed

end
