(* ===== verification/Key_Exchange_Props.thy ===== *)
theory Key_Exchange_Props
  imports Key_Exchange Sptps_Peer_Props Sptps_Flow
begin

text \<open>
  Two nodes that know each other's public keys establish a session over key messages, whichever of
  them starts and also when both do; refused messages change nothing they should not.
\<close>

section \<open>One message\<close>

definition answer_message :: "sptps_key_exchange \<Rightarrow> string \<Rightarrow> byte list \<Rightarrow> meta_message" where
  "answer_message k peer d = MsgAnswerKey (sptps_handshake (ke_myself k) peer d (ke_compression k))"

definition request_message :: "sptps_key_exchange \<Rightarrow> string \<Rightarrow> byte list \<Rightarrow> meta_message" where
  "request_message k peer d = MsgRequestKey (sptps_initial_request (ke_myself k) peer d)"

lemma drain_messages:
  "drain_outbound_messages (ke_myself k) peer (ke_compression k) s False
    = (map (answer_message k peer) (hs_outbound s), s\<lparr>hs_outbound := []\<rparr>)"
  "hs_outbound s = [d] \<Longrightarrow> drain_outbound_messages (ke_myself k) peer (ke_compression k) s True
    = ([request_message k peer d], s\<lparr>hs_outbound := []\<rparr>)"
  by (cases "hs_outbound s"; simp add: drain_outbound_messages_def drain_outbound_def answer_message_def
      request_message_def Let_def)+

lemma answer_received:
  assumes "ke_myself k = to"
  shows "receive_meta_message C draws (MsgAnswerKey (sptps_handshake from to d c)) k
    = receive_existing_payload C draws \<lparr>kp_from = from, kp_to = to, kp_kind = HandshakeAnswer, kp_data = d,
        kp_compression = Some c, kp_address = None\<rparr> k"
  using assms b64decode_encode [of BASE64_ORIGINAL d]
  by (simp add: receive_meta_message_def receive_answer_key_def decode_answer_key_def sptps_handshake_def
      is_sptps_handshake_def b64encode_tinc_def alphabet_def ensure_destination_def)

lemma request_received:
  assumes "ke_myself k = to"
  shows "receive_meta_message C draws (MsgRequestKey (sptps_initial_request from to d)) k
    = receive_initial_request C draws \<lparr>kp_from = from, kp_to = to, kp_kind = InitialRequest, kp_data = d,
        kp_compression = None, kp_address = None\<rparr> k"
  using assms b64decode_encode [of BASE64_ORIGINAL d]
  by (simp add: receive_meta_message_def receive_request_key_def decode_request_key_def
      sptps_initial_request_def request_from_number_def b64encode_tinc_def alphabet_def ensure_destination_def)

lemma pending_step:
  assumes s: "bt_get (ke_sessions k) (kp_from p) = Some s"
    and r: "receive_datagram C draws (kp_data p) s = (Inr [], t)"
  shows "receive_existing_payload C draws p k
    = (Inr \<lparr>kr_outbound = map (answer_message k (kp_from p)) (hs_outbound t), kr_events = []\<rparr>,
       k\<lparr>ke_sessions := bt_insert (kp_from p) (t\<lparr>hs_outbound := []\<rparr>) (bt_remove (kp_from p) (ke_sessions k))\<rparr>)"
  using assms by (simp add: receive_existing_payload_def drain_messages finish_or_store_def Let_def)

lemma established_step:
  assumes s: "bt_get (ke_sessions k) (kp_from p) = Some s" and ty: "ke_packet_type k < SPTPS_HANDSHAKE"
    and r: "receive_datagram C draws (kp_data p) s = (Inr [HandshakeComplete], t)" "is_established t"
  shows "receive_existing_payload C draws p k
    = (Inr \<lparr>kr_outbound = map (answer_message k (kp_from p)) (hs_outbound t),
         kr_events = [Established (kp_from p)
           \<lparr>ps_state = PeerHandshake (t\<lparr>hs_outbound := []\<rparr>), ps_packet_type = ke_packet_type k\<rparr>]\<rparr>,
       k\<lparr>ke_sessions := bt_remove (kp_from p) (ke_sessions k)\<rparr>)"
proof -
  have "is_established (t\<lparr>hs_outbound := []\<rparr>)" using r(2) by (simp add: is_established_def)
  moreover have "\<not> SPTPS_HANDSHAKE \<le> ke_packet_type k" using ty by auto
  ultimately show ?thesis
    using s r by (simp add: receive_existing_payload_def drain_messages finish_or_store_def Let_def
        peer_from_handshake_def)
qed

lemma answer_pending:
  assumes "ke_myself k = to" "bt_get (ke_sessions k) from = Some s" "receive_datagram C draws d s = (Inr [], t)"
  shows "receive_meta_message C draws (MsgAnswerKey (sptps_handshake from to d c)) k
    = (Inr \<lparr>kr_outbound = map (answer_message k from) (hs_outbound t), kr_events = []\<rparr>,
       k\<lparr>ke_sessions := bt_insert from (t\<lparr>hs_outbound := []\<rparr>) (bt_remove from (ke_sessions k))\<rparr>)"
  unfolding answer_received [OF assms(1)] by (subst pending_step) (use assms in simp_all)

lemma answer_established:
  assumes "ke_myself k = to" "bt_get (ke_sessions k) from = Some s" "ke_packet_type k < SPTPS_HANDSHAKE"
    and "receive_datagram C draws d s = (Inr [HandshakeComplete], t)" "is_established t"
  shows "receive_meta_message C draws (MsgAnswerKey (sptps_handshake from to d c)) k
    = (Inr \<lparr>kr_outbound = map (answer_message k from) (hs_outbound t),
         kr_events = [Established from
           \<lparr>ps_state = PeerHandshake (t\<lparr>hs_outbound := []\<rparr>), ps_packet_type = ke_packet_type k\<rparr>]\<rparr>,
       k\<lparr>ke_sessions := bt_remove from (ke_sessions k)\<rparr>)"
  unfolding answer_received [OF assms(1)] by (subst established_step) (use assms in simp_all)

section \<open>Two nodes\<close>

text \<open>Messages handed to a node one by one, and rounds in which two nodes answer each other.\<close>

primrec receive_messages where
  "receive_messages C draws [] k = ([], k)"
| "receive_messages C draws (m # ms) k =
     (case receive_meta_message C draws m k of
        (r, k) \<Rightarrow> (case receive_messages C draws ms k of (rs, k) \<Rightarrow> (r # rs, k)))"

definition outbound_of :: "(key_exchange_error + key_exchange_result) list \<Rightarrow> meta_message list" where
  "outbound_of rs = concat (map (\<lambda>r. case r of Inl e \<Rightarrow> [] | Inr x \<Rightarrow> kr_outbound x) rs)"

primrec key_rounds where
  "key_rounds C draws 0 ms x y = ([], x, y)"
| "key_rounds C draws (Suc n) ms x y =
     (case receive_messages C draws ms y of
        (rs, y) \<Rightarrow> (case key_rounds C draws n (outbound_of rs) y x of (rest, y, x) \<Rightarrow> (rs # rest, x, y)))"

definition exchange_peers :: "('p, 's) sptps_crypto \<Rightarrow> sptps_key_exchange \<Rightarrow> sptps_key_exchange \<Rightarrow> bool" where
  "exchange_peers C a b \<longleftrightarrow> private_key_ok C (ke_private_key a) \<and> private_key_ok C (ke_private_key b)
     \<and> bt_get (ke_peer_keys a) (ke_myself b) = Some (pk_public (ke_private_key b))
     \<and> bt_get (ke_peer_keys b) (ke_myself a) = Some (pk_public (ke_private_key a))
     \<and> bt_ok (ke_sessions a) \<and> bt_ok (ke_sessions b)
     \<and> ke_packet_type a < SPTPS_HANDSHAKE \<and> ke_packet_type b = ke_packet_type a"

lemma is_established_agree:
  assumes "sessions_agree a b m"
  shows "is_established a" "is_established b"
  using assms by (auto simp: sessions_agree_def is_established_def codec_key_channel)

text \<open>What both ends of an established exchange hold.\<close>

definition exchanged :: "('p, 's) sptps_crypto \<Rightarrow> byte \<Rightarrow> sptps_peer_session \<Rightarrow> sptps_peer_session \<Rightarrow> bool" where
  "exchanged C t s r \<longleftrightarrow> session_pair C t s r \<and> session_pair C t r s"

lemma sessions_exchanged:
  assumes ok: "hashes_ok C" and ag: "sessions_agree a b m" and t: "t < SPTPS_HANDSHAKE"
  shows "exchanged C t \<lparr>ps_state = PeerHandshake a, ps_packet_type = t\<rparr> \<lparr>ps_state = PeerHandshake b, ps_packet_type = t\<rparr>"
proof -
  from is_established_agree [OF ag] have "fst (snd (codec_out (hs_codec a))) \<noteq> None"
    "fst (snd (codec_out (hs_codec b))) \<noteq> None" by (simp_all add: is_established_def codec_key_channel)
  with ag ok t show ?thesis
    by (simp add: exchanged_def session_pair_def peer_out_def peer_in_def sessions_agree_def)
qed

text \<open>
  From a pending session of the initiator \<open>a\<close> whose first datagram is \<open>d1\<close>, four messages.
\<close>

lemma exchange_from_request:
  assumes ok: "hashes_ok C" "curve_ok C" and p: "exchange_peers C a0 b"
    and n: "length na = 32" "length nb = 32"
    and z: "compute_shared C (ephemeral_from_seed C sa) (eph_public (ephemeral_from_seed C sb)) = Inr z"
    and tie: "\<forall>s. bt_get (ke_sessions b) (ke_myself a0) = Some s \<longrightarrow> hs_initiator s \<longrightarrow> \<not> ke_myself b < ke_myself a0"
    and a0: "start_datagram C (Inr sa, Inr na) True (ke_private_key a0) (pk_public (ke_private_key b))
        (sptps_udp_label (ke_myself a0) (ke_myself b)) (ke_replay_window_bytes a0) = Inr x"
      "bt_get (ke_sessions a) (ke_myself b) = Some (x\<lparr>hs_outbound := []\<rparr>)" "hs_outbound x = [d1]"
    and a: "a = a0\<lparr>ke_sessions := ss\<rparr>" "bt_ok ss"
  shows "\<exists>m2 m3 m4 sa' sb' a' b'. key_rounds C (Inr sb, Inr nb) 4 [request_message a (ke_myself b) d1] a b
      = ([[Inr \<lparr>kr_outbound = [m2], kr_events = []\<rparr>],
          [Inr \<lparr>kr_outbound = [m3], kr_events = []\<rparr>],
          [Inr \<lparr>kr_outbound = [m4], kr_events = [Established (ke_myself a) sb']\<rparr>],
          [Inr \<lparr>kr_outbound = [], kr_events = [Established (ke_myself b) sa']\<rparr>]], a', b')
    \<and> exchanged C (ke_packet_type a) sa' sb'
    \<and> pending_session a' (ke_myself b) = None \<and> pending_session b' (ke_myself a) = None"
proof -
  let ?A = "ke_myself a0" and ?B = "ke_myself b" and ?l = "sptps_udp_label (ke_myself a0) (ke_myself b)"
  let ?ca = "DatagramCodec (datagram_new (ke_replay_window_bytes a0))"
  let ?cb = "DatagramCodec (datagram_new (ke_replay_window_bytes b))"
  from p have k: "private_key_ok C (ke_private_key a0)" "private_key_ok C (ke_private_key b)"
    and keys: "bt_get (ke_peer_keys b) ?A = Some (pk_public (ke_private_key a0))"
    and okb: "bt_ok (ke_sessions b)"
    and ty: "ke_packet_type a0 < SPTPS_HANDSHAKE" "ke_packet_type b = ke_packet_type a0"
    by (simp_all add: exchange_peers_def)
  have cod: "codec_out ?ca = codec_in ?cb" "codec_out ?cb = codec_in ?ca"
    "codec_out_key ?ca = None" "codec_out_key ?cb = None"
    by (simp_all add: datagram_new_def replay_window_new_def)
  from handshake_datagrams [OF ok k n cod z, of ?l "(Inr sb, Inr nb)"]
  obtain x' y e1 e2 e3 e4 y1 x2 y3 x4 where
    sx: "start_session C True (ke_private_key a0) (pk_public (ke_private_key b)) ?l ?ca (ephemeral_from_seed C sa) na = Inr x'"
    and sy: "start_session C False (ke_private_key b) (pk_public (ke_private_key a0)) ?l ?cb (ephemeral_from_seed C sb) nb = Inr y"
    and s1: "hs_outbound x' = [e1]" "receive_datagram C (Inr sb, Inr nb) e1 y = (Inr [], y1)" "hs_outbound y1 = [e2]"
    and s2: "receive_datagram C (Inr sb, Inr nb) e2 (x'\<lparr>hs_outbound := []\<rparr>) = (Inr [], x2)" "hs_outbound x2 = [e3]"
    and s3: "receive_datagram C (Inr sb, Inr nb) e3 (y1\<lparr>hs_outbound := []\<rparr>) = (Inr [HandshakeComplete], y3)"
      "hs_outbound y3 = [e4]"
    and s4: "receive_datagram C (Inr sb, Inr nb) e4 (x2\<lparr>hs_outbound := []\<rparr>) = (Inr [HandshakeComplete], x4)"
      "hs_outbound x4 = []"
    and ag: "sessions_agree x4 (y3\<lparr>hs_outbound := []\<rparr>) (material_derive C z na nb ?l)"
    by blast
  have "x' = x" using sx a0(1) by (simp add: start_datagram_def generate_ephemeral_def start_with_ephemeral_def)
  with s1(1) a0(3) have x: "x' = x" "e1 = d1" by simp_all
  have me: "ke_myself a = ?A" "ke_packet_type a = ke_packet_type a0" "ke_sessions a = ss"
    using a by simp_all
  have e4: "x4\<lparr>hs_outbound := []\<rparr> = x4" using s4(2) by simp
  note est = is_established_agree [OF ag]
  have est': "is_established y3" using est(2) by (simp add: is_established_def)
  define b1 where "b1 = b\<lparr>ke_sessions := bt_insert ?A (y1\<lparr>hs_outbound := []\<rparr>) (ke_sessions b)\<rparr>"
  define a2 where "a2 = a\<lparr>ke_sessions := bt_insert ?B (x2\<lparr>hs_outbound := []\<rparr>) (bt_remove ?B ss)\<rparr>"
  define b3 where "b3 = b1\<lparr>ke_sessions := bt_remove ?A (ke_sessions b1)\<rparr>"
  define a4 where "a4 = a2\<lparr>ke_sessions := bt_remove ?B (ke_sessions a2)\<rparr>"
  let ?sb = "\<lparr>ps_state = PeerHandshake (y3\<lparr>hs_outbound := []\<rparr>), ps_packet_type = ke_packet_type b\<rparr>"
  let ?sa = "\<lparr>ps_state = PeerHandshake (x4\<lparr>hs_outbound := []\<rparr>), ps_packet_type = ke_packet_type a\<rparr>"
  have m1: "receive_meta_message C (Inr sb, Inr nb) (request_message a ?B d1) b
      = (Inr \<lparr>kr_outbound = [answer_message b ?A e2], kr_events = []\<rparr>, b1)"
    using tie keys sy s1 x me
    by (auto simp: request_message_def request_received receive_initial_request_def peer_key_def
        start_datagram_def generate_ephemeral_def start_with_ephemeral_def drain_messages
        finish_or_store_def b1_def Let_def split: option.split)
  have m2: "receive_meta_message C (Inr sb, Inr nb) (answer_message b ?A e2) a
      = (Inr \<lparr>kr_outbound = [answer_message a ?B e3], kr_events = []\<rparr>, a2)"
    unfolding answer_message_def [of b]
    using answer_pending [OF me(1) a0(2) s2(1) [unfolded x(1)]] s2(2) me(3) by (simp add: a2_def)
  have b1: "ke_myself b1 = ?B" "bt_get (ke_sessions b1) ?A = Some (y1\<lparr>hs_outbound := []\<rparr>)"
    "ke_packet_type b1 = ke_packet_type b" "ke_packet_type b1 < SPTPS_HANDSHAKE" "ke_compression b1 = ke_compression b"
    using okb ty by (simp_all add: b1_def bt_get_insert)
  have m3: "receive_meta_message C (Inr sb, Inr nb) (answer_message a ?B e3) b1
      = (Inr \<lparr>kr_outbound = [answer_message b1 ?A e4], kr_events = [Established ?A ?sb]\<rparr>, b3)"
    unfolding answer_message_def [of a] me(1)
    using answer_established [OF b1(1,2,4) s3(1) est'] s3(2) b1(3) by (simp add: b3_def)
  have a2: "ke_myself a2 = ?A" "bt_get (ke_sessions a2) ?B = Some (x2\<lparr>hs_outbound := []\<rparr>)"
    "ke_packet_type a2 = ke_packet_type a" "ke_packet_type a2 < SPTPS_HANDSHAKE"
    using a(2) ty me by (simp_all add: a2_def bt_get_insert bt_ok_remove)
  have m4: "receive_meta_message C (Inr sb, Inr nb) (answer_message b1 ?A e4) a2
      = (Inr \<lparr>kr_outbound = [], kr_events = [Established ?B ?sa]\<rparr>, a4)"
    unfolding answer_message_def [of b1] b1(1)
    using answer_established [OF a2(1,2,4) s4(1) est(1)] s4(2) a2(3) by (simp add: a4_def)
  have "key_rounds C (Inr sb, Inr nb) 4 [request_message a ?B d1] a b
      = ([[Inr \<lparr>kr_outbound = [answer_message b ?A e2], kr_events = []\<rparr>],
          [Inr \<lparr>kr_outbound = [answer_message a ?B e3], kr_events = []\<rparr>],
          [Inr \<lparr>kr_outbound = [answer_message b1 ?A e4], kr_events = [Established (ke_myself a) ?sb]\<rparr>],
          [Inr \<lparr>kr_outbound = [], kr_events = [Established ?B ?sa]\<rparr>]], a4, b3)"
    by (simp add: numeral_eq_Suc m1 m2 m3 m4 outbound_of_def me(1))
  moreover have "exchanged C (ke_packet_type a) ?sa ?sb"
    using sessions_exchanged [OF ok(1) ag, of "ke_packet_type a"] ty me e4 by simp
  moreover have "bt_ok (ke_sessions a2)" "bt_ok (ke_sessions b1)"
    using a(2) okb by (simp_all add: a2_def b1_def bt_ok_insert bt_ok_remove)
  then have "pending_session a4 ?B = None" "pending_session b3 (ke_myself a) = None"
    by (simp_all add: pending_session_def a4_def b3_def bt_get_remove me(1))
  ultimately show ?thesis by blast
qed

lemma exchange_started:
  assumes ok: "hashes_ok C" "curve_ok C" and n: "length na = 32"
    and key: "bt_get (ke_peer_keys a0) peer = Some pk" and none: "bt_get (ke_sessions a0) peer = None"
  shows "\<exists>x d1. start_datagram C (Inr sa, Inr na) True (ke_private_key a0) pk
        (sptps_udp_label (ke_myself a0) peer) (ke_replay_window_bytes a0) = Inr x
    \<and> hs_outbound x = [d1] \<and> hs_initiator x
    \<and> start_initiator C (Inr sa, Inr na) peer a0
      = (Inr \<lparr>kr_outbound = [request_message a0 peer d1], kr_events = []\<rparr>,
         a0\<lparr>ke_sessions := bt_insert peer (x\<lparr>hs_outbound := []\<rparr>) (ke_sessions a0)\<rparr>)"
proof -
  let ?c = "DatagramCodec (datagram_new (ke_replay_window_bytes a0))"
  let ?l = "sptps_udp_label (ke_myself a0) peer"
  from session_started [OF ok n, of True "ke_private_key a0" pk ?l ?c sa] obtain x d1 where
    "start_session C True (ke_private_key a0) pk ?l ?c (ephemeral_from_seed C sa) na = Inr x"
    "hs_outbound x = [d1]" "hs_initiator x"
    by (auto simp: session_new_def simp del: channel_bytes.simps)
  then show ?thesis
    using key none
    by (auto simp: start_datagram_def generate_ephemeral_def start_with_ephemeral_def
        start_initiator_def bt_contains_iff peer_key_def drain_messages)
qed

text \<open>The sessions two codecs get from an exchange link them, in both directions.\<close>

definition codecs_know :: "sptps_packet_codec \<Rightarrow> sptps_packet_codec \<Rightarrow> string \<Rightarrow> string \<Rightarrow> bool" where
  "codecs_know c d target source \<longleftrightarrow> length (pc_myself c) = NODE_ID_LEN \<and> length (pc_myself d) = NODE_ID_LEN
     \<and> table_name (pc_ids d) (pc_myself c) = Some source \<and> table_id (pc_ids c) target = Some (pc_myself d)
     \<and> bt_ok (pc_peers c) \<and> bt_ok (pc_peers d)"

lemma exchanged_links:
  assumes "exchanged C t s r" "codecs_know c d target source"
  shows "sptps_linked C t relayed n target source (snd (packet_insert_peer target s c)) (snd (packet_insert_peer source r d))"
  using assms by (simp add: exchanged_def codecs_know_def sptps_linked_def packet_insert_peer_def bt_get_insert)

lemma exchange_established:
  assumes "hashes_ok C" "curve_ok C" "exchange_peers C a0 b" "length na = 32" "length nb = 32"
    and "pending_session a0 (ke_myself b) = None"
    and "\<forall>s. pending_session b (ke_myself a0) = Some s \<longrightarrow> hs_initiator s \<longrightarrow> \<not> ke_myself b < ke_myself a0"
  shows "\<exists>m1 m2 m3 m4 a x y a' b'.
      start_initiator C (Inr sa, Inr na) (ke_myself b) a0 = (Inr \<lparr>kr_outbound = [m1], kr_events = []\<rparr>, a)
    \<and> key_rounds C (Inr sb, Inr nb) 4 [m1] a b
      = ([[Inr \<lparr>kr_outbound = [m2], kr_events = []\<rparr>],
          [Inr \<lparr>kr_outbound = [m3], kr_events = []\<rparr>],
          [Inr \<lparr>kr_outbound = [m4], kr_events = [Established (ke_myself a0) y]\<rparr>],
          [Inr \<lparr>kr_outbound = [], kr_events = [Established (ke_myself b) x]\<rparr>]], a', b')
    \<and> pending_session a' (ke_myself b) = None \<and> pending_session b' (ke_myself a0) = None
    \<and> exchanged C (ke_packet_type a0) x y"
proof -
  let ?A = "ke_myself a0" and ?B = "ke_myself b"
  from assms(3) have key: "bt_get (ke_peer_keys a0) ?B = Some (pk_public (ke_private_key b))"
    and okk: "bt_ok (ke_sessions a0)" by (simp_all add: exchange_peers_def)
  from exchange_started [OF assms(1,2,4) key assms(6) [unfolded pending_session_def], of sa] obtain x d1 where
    x: "start_datagram C (Inr sa, Inr na) True (ke_private_key a0) (pk_public (ke_private_key b))
        (sptps_udp_label ?A ?B) (ke_replay_window_bytes a0) = Inr x" "hs_outbound x = [d1]"
      "start_initiator C (Inr sa, Inr na) ?B a0 = (Inr \<lparr>kr_outbound = [request_message a0 ?B d1], kr_events = []\<rparr>,
         a0\<lparr>ke_sessions := bt_insert ?B (x\<lparr>hs_outbound := []\<rparr>) (ke_sessions a0)\<rparr>)" by blast
  define ss where "ss = bt_insert ?B (x\<lparr>hs_outbound := []\<rparr>) (ke_sessions a0)"
  have ss: "bt_ok ss" "bt_get (ke_sessions (a0\<lparr>ke_sessions := ss\<rparr>)) ?B = Some (x\<lparr>hs_outbound := []\<rparr>)"
    using okk by (simp_all add: ss_def bt_ok_insert bt_get_insert)
  from compute_shared_agree(2) [OF assms(1,2)] obtain z where
    z: "compute_shared C (ephemeral_from_seed C sa) (eph_public (ephemeral_from_seed C sb)) = Inr z" by blast
  from exchange_from_request [OF assms(1-5) z assms(7) [unfolded pending_session_def] x(1) ss(2) x(2) refl ss(1)]
  obtain m2 m3 m4 sa' sb' a' b' where
    r: "key_rounds C (Inr sb, Inr nb) 4 [request_message (a0\<lparr>ke_sessions := ss\<rparr>) ?B d1] (a0\<lparr>ke_sessions := ss\<rparr>) b
      = ([[Inr \<lparr>kr_outbound = [m2], kr_events = []\<rparr>], [Inr \<lparr>kr_outbound = [m3], kr_events = []\<rparr>],
          [Inr \<lparr>kr_outbound = [m4], kr_events = [Established ?A sb']\<rparr>],
          [Inr \<lparr>kr_outbound = [], kr_events = [Established ?B sa']\<rparr>]], a', b')"
    and ex: "exchanged C (ke_packet_type a0) sa' sb'"
    and pend: "pending_session a' ?B = None" "pending_session b' ?A = None"
    by auto
  have req: "request_message (a0\<lparr>ke_sessions := ss\<rparr>) ?B d1 = request_message a0 ?B d1"
    by (simp add: request_message_def)
  show ?thesis
    by (intro exI conjI, rule x(3) [folded ss_def], rule r [unfolded req], rule pend, rule pend, rule ex)
qed

section \<open>Properties\<close>


text \<open>Two concrete nodes.\<close>

definition demo_exchange :: "string \<Rightarrow> byte \<Rightarrow> string \<Rightarrow> byte \<Rightarrow> sptps_key_exchange" where
  "demo_exchange me i peer j = snd (insert_peer_public_key peer (pk_public (demo_key j))
     \<lparr>ke_myself = me, ke_private_key = demo_key i, ke_peer_keys = [], ke_sessions = [], ke_compression = 0,
      ke_packet_type = 2, ke_replay_window_bytes = 16\<rparr>)"

lemma demo_exchange_peers: "exchange_peers demo_crypto (demo_exchange ''a'' 1 ''b'' 2) (demo_exchange ''b'' 2 ''a'' 1)"
  by (simp add: exchange_peers_def demo_exchange_def insert_peer_public_key_def demo_key_ok bt_get_def
      SPTPS_HANDSHAKE_def)

lemma demo_exchange_fields: "ke_myself (demo_exchange me i peer j) = me"
    "pending_session (demo_exchange me i peer j) p = None"
  by (simp_all add: demo_exchange_def insert_peer_public_key_def pending_session_def)

lemma exchange_run_demo:
  "\<exists>m1 a m2 m3 m4 x y a' b'. start_initiator demo_crypto (Inr [3], Inr (replicate 32 5)) ''b'' (demo_exchange ''a'' 1 ''b'' 2)
      = (Inr \<lparr>kr_outbound = [m1], kr_events = []\<rparr>, a)
    \<and> key_rounds demo_crypto (Inr [4], Inr (replicate 32 6)) 4 [m1] a (demo_exchange ''b'' 2 ''a'' 1)
      = ([[Inr \<lparr>kr_outbound = [m2], kr_events = []\<rparr>], [Inr \<lparr>kr_outbound = [m3], kr_events = []\<rparr>],
          [Inr \<lparr>kr_outbound = [m4], kr_events = [Established ''a'' y]\<rparr>],
          [Inr \<lparr>kr_outbound = [], kr_events = [Established ''b'' x]\<rparr>]], a', b')"
proof -
  have l: "length (replicate 32 (5 :: byte)) = 32" "length (replicate 32 (6 :: byte)) = 32" by simp_all
  from exchange_established [OF demo_hashes_ok demo_curve_ok demo_exchange_peers l, of "[3]" "[4]"]
  show ?thesis unfolding demo_exchange_fields by blast
qed


text \<open>
  C34: when two nodes ask each other for a session at the same time, the request of the node with
  the greater name is ignored by the other, whose own request replaces the handshake the former had
  started, and both have the session after the same four messages.
\<close>

theorem simultaneous_exchange:
  assumes ok: "hashes_ok C" "curve_ok C" and p: "exchange_peers C a0 b0"
    and n: "length na = 32" "length nb = 32" "length nb' = 32"
    and none: "pending_session a0 (ke_myself b0) = None" "pending_session b0 (ke_myself a0) = None"
    and lt: "ke_myself a0 < ke_myself b0"
  shows "\<exists>m1 a m1' b m2 m3 m4 x y a' b'.
      start_initiator C (Inr sa, Inr na) (ke_myself b0) a0 = (Inr \<lparr>kr_outbound = [m1], kr_events = []\<rparr>, a)
    \<and> start_initiator C (Inr sb', Inr nb') (ke_myself a0) b0 = (Inr \<lparr>kr_outbound = [m1'], kr_events = []\<rparr>, b)
    \<and> receive_meta_message C draws m1' a = (Inr result_default, a)
    \<and> key_rounds C (Inr sb, Inr nb) 4 [m1] a b
      = ([[Inr \<lparr>kr_outbound = [m2], kr_events = []\<rparr>],
          [Inr \<lparr>kr_outbound = [m3], kr_events = []\<rparr>],
          [Inr \<lparr>kr_outbound = [m4], kr_events = [Established (ke_myself a0) y]\<rparr>],
          [Inr \<lparr>kr_outbound = [], kr_events = [Established (ke_myself b0) x]\<rparr>]], a', b')
    \<and> exchanged C (ke_packet_type a0) x y
    \<and> pending_session a' (ke_myself b0) = None \<and> pending_session b' (ke_myself a0) = None"
proof -
  let ?A = "ke_myself a0" and ?B = "ke_myself b0"
  from p have key: "bt_get (ke_peer_keys a0) ?B = Some (pk_public (ke_private_key b0))"
      "bt_get (ke_peer_keys b0) ?A = Some (pk_public (ke_private_key a0))"
    and okk: "bt_ok (ke_sessions a0)" "bt_ok (ke_sessions b0)" by (simp_all add: exchange_peers_def)
  from exchange_started [OF ok n(1) key(1) none(1) [unfolded pending_session_def], of sa] obtain x d1 where
    x: "start_datagram C (Inr sa, Inr na) True (ke_private_key a0) (pk_public (ke_private_key b0))
        (sptps_udp_label ?A ?B) (ke_replay_window_bytes a0) = Inr x" "hs_outbound x = [d1]" "hs_initiator x"
      "start_initiator C (Inr sa, Inr na) ?B a0 = (Inr \<lparr>kr_outbound = [request_message a0 ?B d1], kr_events = []\<rparr>,
         a0\<lparr>ke_sessions := bt_insert ?B (x\<lparr>hs_outbound := []\<rparr>) (ke_sessions a0)\<rparr>)" by blast
  from exchange_started [OF ok n(3) key(2) none(2) [unfolded pending_session_def], of sb'] obtain y e1 where
    y: "start_initiator C (Inr sb', Inr nb') ?A b0 = (Inr \<lparr>kr_outbound = [request_message b0 ?A e1], kr_events = []\<rparr>,
         b0\<lparr>ke_sessions := bt_insert ?A (y\<lparr>hs_outbound := []\<rparr>) (ke_sessions b0)\<rparr>)" by blast
  define ss where "ss = bt_insert ?B (x\<lparr>hs_outbound := []\<rparr>) (ke_sessions a0)"
  define a where "a = a0\<lparr>ke_sessions := ss\<rparr>"
  define b where "b = b0\<lparr>ke_sessions := bt_insert ?A (y\<lparr>hs_outbound := []\<rparr>) (ke_sessions b0)\<rparr>"
  have ss: "bt_ok ss" "bt_get (ke_sessions a) ?B = Some (x\<lparr>hs_outbound := []\<rparr>)"
    using okk by (simp_all add: a_def ss_def bt_ok_insert bt_get_insert)
  have names: "ke_myself a = ?A" "ke_myself b = ?B" "ke_private_key b = ke_private_key b0" by (simp_all add: a_def b_def)
  have pb: "exchange_peers C a0 b" using p okk by (simp add: exchange_peers_def b_def bt_ok_insert)
  have ignored: "receive_meta_message C draws (request_message b0 ?A e1) a = (Inr result_default, a)"
    using lt x(3) ss(2) names by (simp add: request_message_def request_received receive_initial_request_def)
  have tie: "\<forall>s. bt_get (ke_sessions b) ?A = Some s \<longrightarrow> hs_initiator s \<longrightarrow> \<not> ke_myself b < ?A"
    using lt names by auto
  obtain z where z: "compute_shared C (ephemeral_from_seed C sa) (eph_public (ephemeral_from_seed C sb)) = Inr z"
    using compute_shared_agree(2) [OF ok] by blast
  have req: "request_message a ?B d1 = request_message a0 ?B d1" by (simp add: request_message_def a_def)
  from exchange_from_request [OF ok pb n(1,2) z tie x(1) [folded names(2,3)] ss(2) [folded names(2)] x(2) a_def ss(1)]
  obtain m2 m3 m4 sa' sb'' a' b' where
    r: "key_rounds C (Inr sb, Inr nb) 4 [request_message a0 ?B d1] a b
      = ([[Inr \<lparr>kr_outbound = [m2], kr_events = []\<rparr>], [Inr \<lparr>kr_outbound = [m3], kr_events = []\<rparr>],
          [Inr \<lparr>kr_outbound = [m4], kr_events = [Established ?A sb'']\<rparr>],
          [Inr \<lparr>kr_outbound = [], kr_events = [Established ?B sa']\<rparr>]], a', b')"
    and ex: "exchanged C (ke_packet_type a0) sa' sb''"
    and pend: "pending_session a' ?B = None" "pending_session b' ?A = None"
    unfolding names(1,2) req by (auto simp: a_def)
  show ?thesis
    by (intro exI conjI, rule x(4) [folded ss_def, folded a_def], rule y [folded b_def], rule ignored, rule r,
        rule ex, rule pend, rule pend)
qed

theorem simultaneous_exchange_witness:
  "\<exists>m1 a m1' b. start_initiator demo_crypto (Inr [3], Inr (replicate 32 5)) ''b'' (demo_exchange ''a'' 1 ''b'' 2)
      = (Inr \<lparr>kr_outbound = [m1], kr_events = []\<rparr>, a)
    \<and> start_initiator demo_crypto (Inr [9], Inr (replicate 32 7)) ''a'' (demo_exchange ''b'' 2 ''a'' 1)
      = (Inr \<lparr>kr_outbound = [m1'], kr_events = []\<rparr>, b)
    \<and> receive_meta_message demo_crypto (Inr [], Inr []) m1' a = (Inr result_default, a)"
proof -
  have l: "length (replicate 32 (5 :: byte)) = 32" "length (replicate 32 (6 :: byte)) = 32"
    "length (replicate 32 (7 :: byte)) = 32" by simp_all
  have lt: "''a'' < ''b''" by simp
  from simultaneous_exchange [OF demo_hashes_ok demo_curve_ok demo_exchange_peers l, of "[3]" "[9]" "(Inr [], Inr [])" "[4]"] lt
  show ?thesis unfolding demo_exchange_fields by blast
qed

end
