(* ===== verification/Key_Exchange_Safety.thy ===== *)
theory Key_Exchange_Safety
  imports Key_Exchange_Props
begin

text \<open>
  Key exchange against arbitrary messages: the sessions a node keeps pending are first handshakes
  with the peer they are filed under, a session is handed out only after the peer's long-term key
  signed both exchanges, and an error changes at most the session it came from.
\<close>

section \<open>The sessions of an exchange\<close>

definition first_session :: "string \<Rightarrow> string \<Rightarrow> ed25519_private_key \<Rightarrow> handshake_session \<Rightarrow> bool" where
  "first_session me peer key s \<longleftrightarrow> first_handshake s \<and> hs_my_key s = key
     \<and> hs_label s = (if hs_initiator s then sptps_udp_label me peer else sptps_udp_label peer me)"

lemma first_receive:
  assumes "curve_ok C" "first_session me p key s" "receive_datagram C draws d s = (r, t)"
  shows "(r = Inr [HandshakeComplete] \<and> is_established t \<and> signed_keys C s t)
    \<or> (\<forall>events. r = Inr events \<longrightarrow> HandshakeComplete \<notin> set events) \<and> first_session me p key t"
  using first_handshake_receives [OF assms(1) _ assms(3)] receive_extends [OF assms(3)] assms(2)
  by (auto simp: first_session_def extends_def same_peers_def)

section \<open>The invariant\<close>

definition exchange_ok :: "sptps_key_exchange \<Rightarrow> bool" where
  "exchange_ok k \<longleftrightarrow> bt_ok (ke_sessions k) \<and> bt_ok (ke_peer_keys k) \<and> ke_packet_type k < SPTPS_HANDSHAKE
     \<and> (\<forall>p s. pending_session k p = Some s \<longrightarrow> first_session (ke_myself k) p (ke_private_key k) s)"

lemma exchange_okD:
  "exchange_ok k \<Longrightarrow> bt_get (ke_sessions k) p = Some s \<Longrightarrow> first_session (ke_myself k) p (ke_private_key k) s"
  by (simp add: exchange_ok_def pending_session_def)

lemma exchange_ok_insert:
  assumes "exchange_ok k" "first_session (ke_myself k) p (ke_private_key k) s"
  shows "exchange_ok (k\<lparr>ke_sessions := bt_insert p s (ke_sessions k)\<rparr>)"
  using assms by (auto simp: exchange_ok_def pending_session_def bt_ok_insert bt_get_insert)

lemma exchange_ok_adjust:
  assumes "exchange_ok k" "first_session (ke_myself k) p (ke_private_key k) s"
  shows "exchange_ok (k\<lparr>ke_sessions := bt_adjust p (\<lambda>_. s) (ke_sessions k)\<rparr>)"
  using assms by (auto simp: exchange_ok_def pending_session_def bt_get_adjust)

lemma exchange_ok_remove: "exchange_ok k \<Longrightarrow> exchange_ok (k\<lparr>ke_sessions := bt_remove p (ke_sessions k)\<rparr>)"
  by (auto simp: exchange_ok_def pending_session_def bt_ok_remove bt_get_remove)

lemma first_drained:
  assumes "first_session me p key s"
  shows "first_session me p key (s\<lparr>hs_outbound := []\<rparr>)"
proof -
  from assms have "session_inv s" by (simp add: first_session_def first_handshake_def)
  from quiet_inv [OF quiet_outbound this, of "[]"] assms show ?thesis by (simp add: first_session_def first_handshake_def)
qed

lemma first_started:
  assumes "start_datagram C draws i key pk l n = Inr s"
    and "l = (if i then sptps_udp_label me p else sptps_udp_label p me)"
  shows "first_session me p key s \<and> hs_his_kex s = None"
proof -
  from assms(1) obtain e nonce where s: "start_session C i key pk l (DatagramCodec (datagram_new n)) e nonce = Inr s"
    by (auto simp: start_datagram_def start_with_ephemeral_def and_then_def split: sum.splits prod.splits)
  show ?thesis using started_first [OF s, of n] assms(2) by (simp add: first_session_def)
qed

section \<open>Operations\<close>

lemma finish_stored:
  assumes "HandshakeComplete \<notin> set events"
  shows "finish_or_store peer s outbound events k
    = (Inr \<lparr>kr_outbound = outbound, kr_events = concat (map (key_event peer) events)\<rparr>,
       k\<lparr>ke_sessions := bt_insert peer s (ke_sessions k)\<rparr>)"
  using assms by (simp add: finish_or_store_def)

lemma finish_established:
  assumes "is_established s" "ke_packet_type k < SPTPS_HANDSHAKE"
  shows "finish_or_store peer s outbound [HandshakeComplete] k
    = (Inr \<lparr>kr_outbound = outbound, kr_events = [Established peer
         \<lparr>ps_state = PeerHandshake s, ps_packet_type = ke_packet_type k\<rparr>]\<rparr>, k)"
  using assms by (auto simp: finish_or_store_def peer_from_handshake_def)

lemma no_established: "Established q ps \<notin> set (concat (map (key_event p) events))"
proof -
  have "Established q ps \<notin> set (key_event p e)" for e by (cases e) simp_all
  then show ?thesis by auto
qed

text \<open>What an operation does: it fails without a change or with a change of one session, it hands
  out a signed session and forgets it, or it leaves only first handshakes pending.\<close>

definition exchange_outcome where
  "exchange_outcome C draws k r k' \<longleftrightarrow>
     (\<exists>e. r = Inl e \<and> k' = k)
   \<or> (\<exists>e p s s' d. r = Inl (KeySptps e) \<and> pending_session k p = Some s
        \<and> receive_datagram C draws d s = (Inl e, s')
        \<and> k' = k\<lparr>ke_sessions := bt_adjust p (\<lambda>_. s') (ke_sessions k)\<rparr>)
   \<or> (\<exists>p s t out. pending_session k p = Some s \<and> signed_keys C s t
        \<and> r = Inr \<lparr>kr_outbound = out, kr_events = [Established p
             \<lparr>ps_state = PeerHandshake (t\<lparr>hs_outbound := []\<rparr>), ps_packet_type = ke_packet_type k\<rparr>]\<rparr>
        \<and> k' = k\<lparr>ke_sessions := bt_remove p (ke_sessions k)\<rparr>)
   \<or> (\<exists>res. r = Inr res \<and> (\<forall>q ps. Established q ps \<notin> set (kr_events res)) \<and> exchange_ok k')"

lemma existing_outcome:
  assumes ok: "curve_ok C" and inv: "exchange_ok k" and r: "receive_existing_payload C draws p k = (r, k')"
  shows "exchange_outcome C draws k r k'"
proof (cases "bt_get (ke_sessions k) (kp_from p)")
  case None
  with r have "(\<exists>e. r = Inl e) \<and> k' = k" by (auto simp: receive_existing_payload_def Let_def)
  then show ?thesis unfolding exchange_outcome_def by blast
next
  case (Some s)
  have fs: "first_session (ke_myself k) (kp_from p) (ke_private_key k) s" by (rule exchange_okD [OF inv Some])
  obtain x t where x: "receive_datagram C draws (kp_data p) s = (x, t)" by fastforce
  have ty: "ke_packet_type k < SPTPS_HANDSHAKE" using inv by (simp add: exchange_ok_def)
  show ?thesis
  proof (cases x)
    case (Inl e)
    with r Some x have "r = Inl (KeySptps e)" "k' = k\<lparr>ke_sessions := bt_adjust (kp_from p) (\<lambda>_. t) (ke_sessions k)\<rparr>"
      by (auto simp: receive_existing_payload_def Let_def)
    with Some x Inl show ?thesis unfolding exchange_outcome_def pending_session_def by blast
  next
    case (Inr events)
    from first_receive [OF ok fs x] show ?thesis
    proof (elim disjE conjE)
      assume "x = Inr [HandshakeComplete]" and e: "is_established t" "signed_keys C s t"
      then have "receive_datagram C draws (kp_data p) s = (Inr [HandshakeComplete], t)" using x by simp
      from established_step [OF Some ty this e(1)] r e(2) Some show ?thesis
        unfolding exchange_outcome_def pending_session_def by auto
    next
      assume "\<forall>events. x = Inr events \<longrightarrow> HandshakeComplete \<notin> set events"
        and t: "first_session (ke_myself k) (kp_from p) (ke_private_key k) t"
      then have n: "HandshakeComplete \<notin> set events" using Inr by blast
      let ?k = "k\<lparr>ke_sessions := bt_remove (kp_from p) (ke_sessions k)\<rparr>"
      have "exchange_ok ?k" by (rule exchange_ok_remove [OF inv])
      moreover have "first_session (ke_myself ?k) (kp_from p) (ke_private_key ?k) (t\<lparr>hs_outbound := []\<rparr>)"
        using first_drained [OF t] by simp
      ultimately have "exchange_ok (?k\<lparr>ke_sessions := bt_insert (kp_from p) (t\<lparr>hs_outbound := []\<rparr>) (ke_sessions ?k)\<rparr>)"
        by (rule exchange_ok_insert)
      then show ?thesis
        using r Some x Inr no_established
        by (auto simp: receive_existing_payload_def drain_messages finish_stored [OF n] exchange_outcome_def Let_def)
    qed
  qed
qed

lemma initial_outcome:
  assumes ok: "curve_ok C" and inv: "exchange_ok k" and r: "receive_initial_request C draws p k = (r, k')"
  shows "exchange_outcome C draws k r k'"
proof -
  let ?peer = "kp_from p"
  have same: "exchange_outcome C draws k (Inl e) k" "exchange_outcome C draws k (Inr result_default) k" for e
    using inv by (auto simp: exchange_outcome_def result_default_def)
  show ?thesis
  proof (cases "(case bt_get (ke_sessions k) ?peer of Some s \<Rightarrow> hs_initiator s \<and> ke_myself k < ?peer | None \<Rightarrow> False)")
    case True
    with r same(2) show ?thesis by (auto simp: receive_initial_request_def Let_def)
  next
    case tie: False
    show ?thesis
    proof (cases "peer_key k ?peer")
      case (Inl e)
      with r tie same(1) show ?thesis by (auto simp: receive_initial_request_def Let_def)
    next
      case key: (Inr pk)
      show ?thesis
      proof (cases "start_datagram C draws False (ke_private_key k) pk (sptps_udp_label ?peer (ke_myself k))
          (ke_replay_window_bytes k)")
        case (Inl e)
        with r tie key same(1) show ?thesis by (auto simp: receive_initial_request_def Let_def)
      next
        case start: (Inr s)
        from first_started [OF start, of "ke_myself k" ?peer]
        have fs: "first_session (ke_myself k) ?peer (ke_private_key k) s" and his: "hs_his_kex s = None" by auto
        obtain x t where x: "receive_datagram C draws (kp_data p) s = (x, t)" by fastforce
        show ?thesis
        proof (cases x)
          case (Inl e)
          with r tie key start x same(1) show ?thesis by (auto simp: receive_initial_request_def Let_def)
        next
          case (Inr events)
          from first_receive [OF ok fs x] his Inr
          have n: "HandshakeComplete \<notin> set events" and t: "first_session (ke_myself k) ?peer (ke_private_key k) t"
            by (auto simp: signed_keys_def)
          from exchange_ok_insert [OF inv first_drained [OF t]] show ?thesis
            using r tie key start x Inr no_established
            by (auto simp: receive_initial_request_def drain_messages finish_stored [OF n] exchange_outcome_def Let_def)
        qed
      qed
    qed
  qed
qed

lemma receive_outcome:
  assumes ok: "curve_ok C" and inv: "exchange_ok k" and r: "receive_meta_message C draws m k = (r, k')"
  shows "exchange_outcome C draws k r k'"
proof -
  have same: "exchange_outcome C draws k (Inl e) k" for e by (simp add: exchange_outcome_def)
  have req: "exchange_outcome C draws k r k'" if "receive_request_key C draws q k = (r, k')" for q
    using that same initial_outcome [OF ok inv] existing_outcome [OF ok inv]
    by (auto simp: receive_request_key_def split: sum.splits sptps_key_payload_kind.splits)
  have ans: "exchange_outcome C draws k r k'" if "receive_answer_key C draws q k = (r, k')" for q
    using that same existing_outcome [OF ok inv] by (auto simp: receive_answer_key_def split: sum.splits)
  show ?thesis
    using r same req ans by (cases m) (auto simp: receive_meta_message_def)
qed

lemma start_outcome:
  assumes inv: "exchange_ok k" and r: "start_initiator C draws p k = (r, k')"
  shows "exchange_ok k' \<and> (\<forall>e. r = Inl e \<longrightarrow> k' = k)"
proof -
  have "exchange_ok (k\<lparr>ke_sessions := bt_insert p (s\<lparr>hs_outbound := []\<rparr>) (ke_sessions k)\<rparr>)"
    if "start_datagram C draws True (ke_private_key k) pk (sptps_udp_label (ke_myself k) p)
        (ke_replay_window_bytes k) = Inr s" for pk s
    using first_started [OF that, of "ke_myself k" p] exchange_ok_insert [OF inv first_drained] by auto
  moreover have "snd (drain_outbound_messages me p c s True) = s\<lparr>hs_outbound := []\<rparr>" for me c s
    by (simp add: drain_outbound_messages_def drain_outbound_def Let_def)
  ultimately show ?thesis
    using inv r by (auto simp: start_initiator_def split: if_splits sum.splits prod.splits)
      (metis snd_conv)+
qed

section \<open>Reachable exchanges\<close>

inductive exchange_step :: "('p, 's::comm_ring_1) sptps_crypto \<Rightarrow> sptps_key_exchange \<Rightarrow> sptps_key_exchange \<Rightarrow> bool"
  for C where
  Exchange_start: "start_initiator C draws p k = (r, k') \<Longrightarrow> exchange_step C k k'"
| Exchange_restart: "restart_initiator C draws p k = (r, k') \<Longrightarrow> exchange_step C k k'"
| Exchange_receive: "receive_meta_message C draws m k = (r, k') \<Longrightarrow> exchange_step C k k'"
| Exchange_remove: "remove_pending_session p k = (b, k') \<Longrightarrow> exchange_step C k k'"
| Exchange_key: "insert_peer_public_key p pk k = (old, k') \<Longrightarrow> exchange_step C k k'"

inductive exchange_reachable :: "('p, 's::comm_ring_1) sptps_crypto \<Rightarrow> sptps_key_exchange \<Rightarrow> bool"
  for C where
  Exchange_new: "key_exchange_new me pk t = Inr k
    \<Longrightarrow> exchange_reachable C (with_replay_window_bytes n (with_compression c k))"
| Exchange_next: "exchange_reachable C k \<Longrightarrow> exchange_step C k k' \<Longrightarrow> exchange_reachable C k'"

lemma outcome_ok:
  assumes "curve_ok C" "exchange_ok k" "exchange_outcome C draws k r k'"
  shows "exchange_ok k'"
  using assms(3) unfolding exchange_outcome_def
proof (elim disjE exE conjE)
  fix e p s s' d
  assume s: "pending_session k p = Some s" "receive_datagram C draws d s = (Inl e, s')"
    and k': "k' = k\<lparr>ke_sessions := bt_adjust p (\<lambda>_. s') (ke_sessions k)\<rparr>"
  have "first_session (ke_myself k) p (ke_private_key k) s"
    using s(1) exchange_okD [OF assms(2)] by (simp add: pending_session_def)
  from first_receive [OF assms(1) this s(2)] have "first_session (ke_myself k) p (ke_private_key k) s'" by auto
  from exchange_ok_adjust [OF assms(2) this] show ?thesis by (simp add: k')
qed (use assms(2) exchange_ok_remove in auto)

lemma exchange_step_ok:
  assumes "curve_ok C" "exchange_ok k" "exchange_step C k k'"
  shows "exchange_ok k'"
  using assms(3)
proof cases
  case (Exchange_start draws p r)
  with start_outcome [OF assms(2)] show ?thesis by blast
next
  case (Exchange_restart draws p r)
  then have "start_initiator C draws p (k\<lparr>ke_sessions := bt_remove p (ke_sessions k)\<rparr>) = (r, k')"
    by (simp add: restart_initiator_def remove_pending_session_def)
  from start_outcome [OF exchange_ok_remove [OF assms(2)] this] show ?thesis by blast
next
  case (Exchange_receive draws m r)
  with receive_outcome [OF assms(1,2)] outcome_ok [OF assms(1,2)] show ?thesis by blast
next
  case (Exchange_remove p b)
  with exchange_ok_remove [OF assms(2)] show ?thesis by (auto simp: remove_pending_session_def)
next
  case (Exchange_key p pk old)
  with assms(2) show ?thesis
    by (auto simp: insert_peer_public_key_def exchange_ok_def pending_session_def bt_ok_insert)
qed

lemma exchange_reachable_ok: "exchange_reachable C k \<Longrightarrow> curve_ok C \<Longrightarrow> exchange_ok k"
proof (induction rule: exchange_reachable.induct)
  case (Exchange_new me pk t k n c)
  then show ?case
    by (auto simp: key_exchange_new_def exchange_ok_def pending_session_def with_replay_window_bytes_def
        with_compression_def split: if_splits)
next
  case (Exchange_next k k')
  then show ?case using exchange_step_ok by blast
qed

section \<open>Properties\<close>


lemma rounds_unfold:
  assumes "key_rounds C draws 4 [m1] a b = ([[Inr \<lparr>kr_outbound = [m2], kr_events = []\<rparr>],
      [Inr \<lparr>kr_outbound = [m3], kr_events = []\<rparr>], [Inr r3], rs], a', b')"
  shows "\<exists>b1 b3. receive_meta_message C draws m1 b = (Inr \<lparr>kr_outbound = [m2], kr_events = []\<rparr>, b1)
    \<and> receive_meta_message C draws m3 b1 = (Inr r3, b3)"
  using assms by (auto simp: numeral_eq_Suc outbound_of_def split: prod.splits)

lemma demo_exchange_reachable: "exchange_reachable demo_crypto (demo_exchange me i peer j)"
proof -
  have new: "key_exchange_new me (demo_key i) 2 = Inr \<lparr>ke_myself = me, ke_private_key = demo_key i,
      ke_peer_keys = [], ke_sessions = [], ke_compression = 0, ke_packet_type = 2, ke_replay_window_bytes = 16\<rparr>"
    by (simp add: key_exchange_new_def SPTPS_HANDSHAKE_def DEFAULT_SPTPS_REPLAY_WINDOW_BYTES_def)
  have "exchange_step demo_crypto (with_replay_window_bytes 16 (with_compression 0 (projr (key_exchange_new me (demo_key i) 2))))
      (demo_exchange me i peer j)"
    by (rule Exchange_key [where p = peer and pk = "pk_public (demo_key j)" and old = None])
      (simp add: new insert_peer_public_key_def demo_exchange_def with_replay_window_bytes_def with_compression_def)
  with Exchange_next [OF Exchange_new [OF new]] new show ?thesis by simp
qed


text \<open>
  C35: a message a node refuses leaves its exchange as it was, or changes the one pending session that
  refused the record, which stays pending; messages for another node, answers from a peer with no
  handshake pending, requests from a peer whose key is unknown and messages that carry no key are
  refused with the error that names the cause, and change nothing.
\<close>

theorem key_exchange_refuses:
  assumes "curve_ok C" "exchange_reachable C k"
  shows "(\<forall>m e k'. receive_meta_message C draws m k = (Inl e, k') \<longrightarrow> k' = k
      \<or> (\<exists>e' p s s' d. e = KeySptps e' \<and> pending_session k p = Some s
          \<and> receive_datagram C draws d s = (Inl e', s')
          \<and> k' = k\<lparr>ke_sessions := bt_adjust p (\<lambda>_. s') (ke_sessions k)\<rparr>))
    \<and> (\<forall>f t d c. t \<noteq> ke_myself k \<longrightarrow>
        receive_meta_message C draws (MsgAnswerKey (sptps_handshake f t d c)) k = (Inl (WrongDestination (ke_myself k) t), k)
        \<and> receive_meta_message C draws (MsgRequestKey (sptps_initial_request f t d)) k
          = (Inl (WrongDestination (ke_myself k) t), k))
    \<and> (\<forall>f d c. pending_session k f = None \<longrightarrow>
        receive_meta_message C draws (MsgAnswerKey (sptps_handshake f (ke_myself k) d c)) k = (Inl (MissingSession f), k))
    \<and> (\<forall>f d. pending_session k f = None \<longrightarrow> bt_get (ke_peer_keys k) f = None \<longrightarrow>
        receive_meta_message C draws (MsgRequestKey (sptps_initial_request f (ke_myself k) d)) k = (Inl (UnknownPeerKey f), k))
    \<and> (\<forall>m. message_request m \<notin> {ReqRequestKey, ReqAnswerKey} \<longrightarrow>
        receive_meta_message C draws m k = (Inl (UnsupportedMessage (message_request m)), k))"
  (is "?change \<and> ?wrong \<and> ?missing \<and> ?unknown \<and> ?other")
proof (intro conjI)
  have ok: "exchange_ok k" by (rule exchange_reachable_ok [OF assms(2,1)])
  show ?change
  proof (intro allI impI)
    fix m e k' assume r: "receive_meta_message C draws m k = (Inl e, k')"
    from receive_outcome [OF assms(1) ok r] show "k' = k
      \<or> (\<exists>e' p s s' d. e = KeySptps e' \<and> pending_session k p = Some s
          \<and> receive_datagram C draws d s = (Inl e', s')
          \<and> k' = k\<lparr>ke_sessions := bt_adjust p (\<lambda>_. s') (ke_sessions k)\<rparr>)"
      unfolding exchange_outcome_def by blast
  qed
  have dec: "b64decode_tinc (b64encode_tinc d) = Some d" for d
    using b64decode_encode [of BASE64_ORIGINAL d] by (simp add: b64encode_tinc_def alphabet_def)
  show ?wrong
    by (simp add: receive_meta_message_def receive_answer_key_def receive_request_key_def decode_answer_key_def
        decode_request_key_def sptps_handshake_def sptps_initial_request_def is_sptps_handshake_def
        request_from_number_def dec ensure_destination_def)
  show ?missing
    by (simp add: answer_received receive_existing_payload_def pending_session_def)
  show ?unknown
    by (simp add: request_received receive_initial_request_def pending_session_def peer_key_def)
  show ?other
    by (intro allI impI) (auto simp: receive_meta_message_def split: meta_message.splits)
qed

theorem key_exchange_refuses_witness:
  "receive_meta_message demo_crypto (Inr [], Inr []) (MsgAnswerKey (sptps_handshake ''b'' ''a'' [1] 0)) (demo_exchange ''a'' 1 ''b'' 2)
    = (Inl (MissingSession ''b''), demo_exchange ''a'' 1 ''b'' 2)"
  using key_exchange_refuses [OF demo_curve_ok demo_exchange_reachable [of "''a''" 1 "''b''" 2], of "(Inr [], Inr [])"]
  by (simp add: demo_exchange_fields)

end
