(* ===== verification/Engine.thy ===== *)
theory Engine
  imports Route Datagram_Transport
begin

text \<open>
  \<^verbatim>\<open>tinc-runtime/src/engine.rs\<close>: packets from the device or from the network are routed by the
  network state and the routing action is carried out on the device and the transport.  The traits
  \<^verbatim>\<open>Device\<close> and \<^verbatim>\<open>PacketTransport\<close> are records of operations; an operation of the engine
  returns its result and the engine, which keeps what was done before an error.
\<close>

section \<open>Device and transport\<close>

record 'd device =
  dv_read :: "'d \<Rightarrow> (device_error + vpn_packet option) \<times> 'd"
  dv_write :: "vpn_packet \<Rightarrow> 'd \<Rightarrow> (device_error + unit) \<times> 'd"

record 't packet_transport =
  pt_send :: "string \<Rightarrow> vpn_packet \<Rightarrow> 't \<Rightarrow> (transport_error + unit) \<times> 't"
  pt_send_to :: "string \<Rightarrow> string \<Rightarrow> vpn_packet \<Rightarrow> 't \<Rightarrow> (transport_error + unit) \<times> 't"
  pt_receive :: "'t \<Rightarrow> (transport_error + (string \<times> vpn_packet) option) \<times> 't"

text \<open>The default of \<^verbatim>\<open>send_packet_to\<close>.\<close>

definition default_send_to :: "(string \<Rightarrow> vpn_packet \<Rightarrow> 't \<Rightarrow> (transport_error + unit) \<times> 't)
    \<Rightarrow> string \<Rightarrow> string \<Rightarrow> vpn_packet \<Rightarrow> 't \<Rightarrow> (transport_error + unit) \<times> 't" where
  "default_send_to send owner relay p = send relay p"

record memory_device =
  md_reads :: "vpn_packet list"
  md_writes :: "vpn_packet list"

definition memory_read :: "memory_device \<Rightarrow> (device_error + vpn_packet option) \<times> memory_device" where
  "memory_read d =
     (case md_reads d of [] \<Rightarrow> (Inr None, d) | p # ps \<Rightarrow> (Inr (Some p), d\<lparr>md_reads := ps\<rparr>))"

definition memory_write :: "vpn_packet \<Rightarrow> memory_device \<Rightarrow> (device_error + unit) \<times> memory_device" where
  "memory_write p d = (Inr (), d\<lparr>md_writes := md_writes d @ [p]\<rparr>)"

definition memory_device_ops :: "memory_device device" where
  "memory_device_ops = \<lparr>dv_read = memory_read, dv_write = memory_write\<rparr>"

section \<open>The engine\<close>

datatype engine_error = EngDevice device_error | EngTransport transport_error | EngPacket device_error

fun show_transport_error :: "transport_error \<Rightarrow> string" where
  "show_transport_error (TransportIo e) = io_message e"

fun show_engine_error :: "engine_error \<Rightarrow> string" where
  "show_engine_error (EngDevice e) = ''device error: '' @ show_device_error e"
| "show_engine_error (EngTransport e) = ''transport error: '' @ show_transport_error e"
| "show_engine_error (EngPacket e) = ''packet error: '' @ show_device_error e"

datatype broadcast_mode = BroadcastNone | BroadcastDirect | BroadcastMst

record engine_config =
  ec_route :: route_config
  ec_broadcast :: broadcast_mode

definition engine_config_default :: engine_config where
  "engine_config_default = \<lparr>ec_route = route_config_default, ec_broadcast = BroadcastMst\<rparr>"

datatype engine_input = InputDevice | InputNetwork string

datatype engine_event =
    DeviceWrite vpn_packet
  | TransportSend string string vpn_packet bool
  | TransportDeferred string string vpn_packet bool string
  | EventBroadcast "string list" vpn_packet
  | EventDrop route_drop_reason
  | LearnedSubnet subnet
  | NoDevicePacket
  | NoNetworkPacket

record engine_step =
  es_input :: "engine_input option"
  es_events :: "engine_event list"

record ('d, 't) runtime_engine =
  en_state :: network_state
  en_device :: 'd
  en_transport :: 't
  en_config :: engine_config

type_synonym ('d, 't, 'a) engine_op = "('d, 't) runtime_engine \<Rightarrow> (engine_error + 'a) \<times> ('d, 't) runtime_engine"

definition engine_new :: "network_state \<Rightarrow> 'd \<Rightarrow> 't \<Rightarrow> engine_config \<Rightarrow> ('d, 't) runtime_engine" where
  "engine_new s d t config = \<lparr>en_state = s, en_device = d, en_transport = t, en_config = config\<rparr>"

section \<open>Carrying out an action\<close>

definition write_device :: "'d device \<Rightarrow> byte list \<Rightarrow> int \<Rightarrow> ('d, 't, engine_event) engine_op" where
  "write_device D packet priority e =
     (case map_ok (with_priority priority) (vpn_packet_new packet) of
        Inl x \<Rightarrow> (Inl (EngPacket x), e)
      | Inr p \<Rightarrow>
          (case dv_write D p (en_device e) of
             (r, d) \<Rightarrow> (map_ok (\<lambda>_. DeviceWrite p) (map_err EngDevice r), e\<lparr>en_device := d\<rparr>)))"

fun is_deferred_error :: "transport_error \<Rightarrow> bool" where
  "is_deferred_error (TransportIo e) \<longleftrightarrow> io_kind e = IoNotFound \<or> io_kind e = IoNetworkUnreachable"

definition send_to_owner :: "'d device \<Rightarrow> 't packet_transport \<Rightarrow> string \<Rightarrow> string option \<Rightarrow> byte list \<Rightarrow> int
    \<Rightarrow> ('d, 't, engine_event list) engine_op" where
  "send_to_owner D T owner via packet priority e =
     (if owner = g_myself (ns_graph (en_state e))
      then map_prod (map_ok (\<lambda>event. [event])) id (write_device D packet priority e)
      else
        let relay = (case via of Some v \<Rightarrow> v | None \<Rightarrow> owner)
        in case map_ok (with_priority priority) (vpn_packet_new packet) of
             Inl x \<Rightarrow> (Inl (EngPacket x), e)
           | Inr p \<Rightarrow>
               (case pt_send_to T owner relay p (en_transport e) of
                  (Inl x, t) \<Rightarrow>
                    (if is_deferred_error x
                     then Inr [TransportDeferred owner relay p (priority = -1) (show_transport_error x)]
                     else Inl (EngTransport x), e\<lparr>en_transport := t\<rparr>)
                | (Inr _, t) \<Rightarrow> (Inr [TransportSend owner relay p (priority = -1)], e\<lparr>en_transport := t\<rparr>)))"

text \<open>The fragments of a packet, in order; the first error ends the loop.\<close>

fun send_fragments :: "'d device \<Rightarrow> 't packet_transport \<Rightarrow> string \<Rightarrow> string option \<Rightarrow> byte list list \<Rightarrow> int
    \<Rightarrow> ('d, 't, engine_event list) engine_op" where
  "send_fragments D T owner via [] priority e = (Inr [], e)"
| "send_fragments D T owner via (f # fs) priority e =
     (case send_to_owner D T owner via f priority e of
        (Inl x, e) \<Rightarrow> (Inl x, e)
      | (Inr events, e) \<Rightarrow>
          map_prod (map_ok (\<lambda>rest. events @ rest)) id (send_fragments D T owner via fs priority e))"

section \<open>Broadcasts\<close>

definition is_direct :: "node \<Rightarrow> bool" where
  "is_direct n \<longleftrightarrow> rt_next_hop (n_route n) = Some (n_name n)"

definition broadcast_targets :: "network_state \<Rightarrow> string \<Rightarrow> broadcast_mode \<Rightarrow> bool \<Rightarrow> string list" where
  "broadcast_targets s source mode direct_only =
     (let g = ns_graph s; myself = g_myself g;
          source_next_hop = Option.bind (graph_node g source) (\<lambda>n. rt_next_hop (n_route n))
      in case mode of
           BroadcastMst \<Rightarrow>
             filter (\<lambda>target. Some target \<noteq> source_next_hop
               \<and> (case graph_node g target of
                    Some n \<Rightarrow> st_reachable (n_status n) \<and> (\<not> direct_only \<or> is_direct n)
                  | None \<Rightarrow> False)) (mst_neighbors g myself)
         | BroadcastDirect \<Rightarrow>
             map n_name (filter (\<lambda>n. n_name n \<noteq> myself \<and> n_name n \<noteq> source \<and> st_reachable (n_status n)
               \<and> is_direct n) (bt_values (g_nodes g)))
         | BroadcastNone \<Rightarrow> [])"

text \<open>A target that cannot be sent to is left out; the others still get the packet.\<close>

fun send_all :: "'t packet_transport \<Rightarrow> vpn_packet \<Rightarrow> string list \<Rightarrow> 't \<Rightarrow> string list \<times> 't" where
  "send_all T p [] t = ([], t)"
| "send_all T p (target # targets) t =
     (case pt_send T target p t of
        (r, t) \<Rightarrow>
          (case send_all T p targets t of
             (sent, t) \<Rightarrow> (if r = Inr () then target # sent else sent, t)))"

definition broadcast_packet :: "'d device \<Rightarrow> 't packet_transport \<Rightarrow> string \<Rightarrow> byte list \<Rightarrow> int
    \<Rightarrow> ('d, 't, engine_event list) engine_op" where
  "broadcast_packet D T source packet priority e =
     (let s = en_state e; config = en_config e; remote = (source \<noteq> g_myself (ns_graph s))
      in case (if remote then map_prod (map_ok (\<lambda>event. [event])) id (write_device D packet priority e)
               else (Inr [], e)) of
           (Inl x, e) \<Rightarrow> (Inl x, e)
         | (Inr events, e) \<Rightarrow>
             if ec_broadcast config = BroadcastNone
               \<or> remote \<and> (ec_broadcast config = BroadcastDirect \<or> rc_direct_only (ec_route config))
             then (Inr events, e)
             else
               (case map_ok (with_priority priority) (vpn_packet_new packet) of
                  Inl x \<Rightarrow> (Inl (EngPacket x), e)
                | Inr p \<Rightarrow>
                    (case send_all T p (broadcast_targets s source (ec_broadcast config)
                             (rc_direct_only (ec_route config))) (en_transport e) of
                       (sent, t) \<Rightarrow>
                         (Inr (events @ (if sent \<noteq> [] then [EventBroadcast sent p] else [])),
                          e\<lparr>en_transport := t\<rparr>))))"

section \<open>Packets in\<close>

definition or_priority :: "int option \<Rightarrow> int \<Rightarrow> int" where
  "or_priority priority base = (case priority of Some p \<Rightarrow> p | None \<Rightarrow> base)"

definition execute_action :: "'d device \<Rightarrow> 't packet_transport \<Rightarrow> string \<Rightarrow> packet_action \<Rightarrow> int
    \<Rightarrow> ('d, 't, engine_event list) engine_op" where
  "execute_action D T source action base e =
     (case action of
        ActSend owner via packet priority mss_clamp \<Rightarrow>
          send_to_owner D T owner via packet (or_priority priority base) e
      | ActSendFragments owner via fragments priority \<Rightarrow>
          send_fragments D T owner via fragments (or_priority priority base) e
      | ActReply target packet priority \<Rightarrow> send_to_owner D T target None packet (or_priority priority base) e
      | ActBroadcast packet \<Rightarrow> broadcast_packet D T source packet base e
      | ActDeliverLocal packet \<Rightarrow> map_prod (map_ok (\<lambda>event. [event])) id (write_device D packet base e)
      | ActDrop reason \<Rightarrow> (Inr [EventDrop reason], e))"

definition route_and_execute :: "'d device \<Rightarrow> 't packet_transport \<Rightarrow> string \<Rightarrow> vpn_packet
    \<Rightarrow> ('d, 't, engine_event list) engine_op" where
  "route_and_execute D T source p e =
     (case route_packet_action (en_state e) source (vp_data p) (ec_route (en_config e)) of
        (routed, s) \<Rightarrow>
          map_prod (map_ok (\<lambda>events. events @ map LearnedSubnet (ro_learned (rp_outcome routed)))) id
            (execute_action D T source (rp_action routed) (vp_priority p) (e\<lparr>en_state := s\<rparr>)))"

definition handle_device_packet :: "'d device \<Rightarrow> 't packet_transport \<Rightarrow> vpn_packet
    \<Rightarrow> ('d, 't, engine_step) engine_op" where
  "handle_device_packet D T p e =
     map_prod (map_ok (\<lambda>events. \<lparr>es_input = Some InputDevice, es_events = events\<rparr>)) id
       (route_and_execute D T (g_myself (ns_graph (en_state e))) p e)"

definition handle_network_packet :: "'d device \<Rightarrow> 't packet_transport \<Rightarrow> string \<Rightarrow> vpn_packet
    \<Rightarrow> ('d, 't, engine_step) engine_op" where
  "handle_network_packet D T source p e =
     map_prod (map_ok (\<lambda>events. \<lparr>es_input = Some (InputNetwork source), es_events = events\<rparr>)) id
       (route_and_execute D T source p e)"

definition poll_device_once :: "'d device \<Rightarrow> 't packet_transport \<Rightarrow> ('d, 't, engine_step) engine_op" where
  "poll_device_once D T e =
     (case dv_read D (en_device e) of
        (Inl x, d) \<Rightarrow> (Inl (EngDevice x), e\<lparr>en_device := d\<rparr>)
      | (Inr None, d) \<Rightarrow>
          (Inr \<lparr>es_input = Some InputDevice, es_events = [NoDevicePacket]\<rparr>, e\<lparr>en_device := d\<rparr>)
      | (Inr (Some p), d) \<Rightarrow> handle_device_packet D T p (e\<lparr>en_device := d\<rparr>))"

definition poll_network_once :: "'d device \<Rightarrow> 't packet_transport \<Rightarrow> ('d, 't, engine_step) engine_op" where
  "poll_network_once D T e =
     (case pt_receive T (en_transport e) of
        (Inl x, t) \<Rightarrow> (Inl (EngTransport x), e\<lparr>en_transport := t\<rparr>)
      | (Inr None, t) \<Rightarrow>
          (Inr \<lparr>es_input = None, es_events = [NoNetworkPacket]\<rparr>, e\<lparr>en_transport := t\<rparr>)
      | (Inr (Some (source, p)), t) \<Rightarrow> handle_network_packet D T source p (e\<lparr>en_transport := t\<rparr>))"

text \<open>The datagram transport under the engine (\<^verbatim>\<open>transport.rs\<close>).\<close>

definition datagram_packet_transport where
  "datagram_packet_transport show_addr IO K = \<lparr>pt_send = transport_send IO K,
     pt_send_to = default_send_to (transport_send IO K), pt_receive = packet_receive show_addr IO K\<rparr>"

end
