(* ===== verification/Broadcast_Flood.thy ===== *)
theory Broadcast_Flood
  imports Engine Graph_Tree
begin

text \<open>
  Broadcasting over the spanning tree.  A node sends a broadcast to its tree neighbours, all but the
  one it came from; when every node keeps the same tree, a broadcast reaches every reachable node
  from exactly one neighbour and never returns to its origin.
\<close>

section \<open>Flooding a tree\<close>

text \<open>\<open>flood T r u v\<close>: a message from \<open>r\<close> is passed on by \<open>u\<close> to \<open>v\<close>.\<close>

inductive flood :: "edge_key set \<Rightarrow> string \<Rightarrow> string \<Rightarrow> string \<Rightarrow> bool" for T r where
  flood_origin: "EdgeKey r t \<in> T \<Longrightarrow> flood T r r t"
| flood_pass: "flood T r u v \<Longrightarrow> EdgeKey v w \<in> T \<Longrightarrow> w \<noteq> u \<Longrightarrow> flood T r v w"

lemma flood_mono: "flood T r u v \<Longrightarrow> T \<subseteq> T' \<Longrightarrow> flood T' r u v"
  by (induction rule: flood.induct) (auto intro: flood.intros)

definition floods :: "edge_key set \<Rightarrow> string set \<Rightarrow> string \<Rightarrow> bool" where
  "floods T V r \<longleftrightarrow> (\<forall>v \<in> V. v \<noteq> r \<longrightarrow> (\<exists>!u. flood T r u v)) \<and> (\<forall>u. \<not> flood T r u r)
     \<and> (\<forall>u v. flood T r u v \<longrightarrow> u \<in> V \<and> v \<in> V)"

text \<open>A leaf \<open>w\<close> hung on the node \<open>u\<close> of a tree.\<close>

lemma flood_leaf:
  assumes V: "\<forall>a b. EdgeKey a b \<in> T \<longrightarrow> a \<in> V \<and> b \<in> V" and u: "u \<in> V" and w: "w \<notin> V"
    and r: "r \<in> V" and f: "floods T V r"
  shows "flood (insert (EdgeKey u w) (insert (EdgeKey w u) T)) r a b \<longleftrightarrow> flood T r a b \<or> a = u \<and> b = w"
    (is "flood ?T r a b \<longleftrightarrow> _")
proof
  assume "flood ?T r a b"
  then show "flood T r a b \<or> a = u \<and> b = w"
  proof (induction rule: flood.induct)
    case (flood_origin t)
    then show ?case using r w by (auto intro: flood.flood_origin)
  next
    case (flood_pass a b c)
    from flood_pass.IH show ?case
    proof
      assume ab: "flood T r a b"
      then have "b \<in> V" using f by (simp add: floods_def)
      then show ?thesis using flood_pass.hyps(2,3) ab w by (auto intro: flood.flood_pass)
    next
      assume "a = u \<and> b = w"
      then show ?thesis using flood_pass.hyps(2,3) V w u by auto
    qed
  qed
next
  assume "flood T r a b \<or> a = u \<and> b = w"
  then show "flood ?T r a b"
  proof
    assume "flood T r a b"
    then show ?thesis by (rule flood_mono) blast
  next
    assume ab: "a = u \<and> b = w"
    show ?thesis
    proof (cases "u = r")
      case True
      then show ?thesis using ab by (auto intro: flood.flood_origin)
    next
      case False
      then obtain c where c: "flood T r c u" using f u by (auto simp: floods_def)
      then have "c \<in> V" using f by (simp add: floods_def)
      then have "w \<noteq> c" using w by auto
      from flood_mono [OF c, of ?T] this ab show ?thesis by (auto intro: flood.flood_pass)
    qed
  qed
qed

text \<open>The leaf itself as the origin.\<close>

lemma flood_from_leaf:
  assumes V: "\<forall>a b. EdgeKey a b \<in> T \<longrightarrow> a \<in> V \<and> b \<in> V" and u: "u \<in> V" and w: "w \<notin> V"
    and f: "floods T V u"
  shows "flood (insert (EdgeKey u w) (insert (EdgeKey w u) T)) w a b \<longleftrightarrow> a = w \<and> b = u \<or> flood T u a b"
    (is "flood ?T w a b \<longleftrightarrow> _")
proof
  assume "flood ?T w a b"
  then show "a = w \<and> b = u \<or> flood T u a b"
  proof (induction rule: flood.induct)
    case (flood_origin t)
    then show ?case using V w by auto
  next
    case (flood_pass a b c)
    from flood_pass.IH show ?case
    proof
      assume "a = w \<and> b = u"
      then show ?thesis using flood_pass.hyps(2,3) V w u by (auto intro: flood.flood_origin)
    next
      assume ab: "flood T u a b"
      then have "b \<in> V" "b \<noteq> u" using f by (auto simp: floods_def)
      then show ?thesis using flood_pass.hyps(2,3) ab w by (auto intro: flood.flood_pass)
    qed
  qed
next
  have start: "flood ?T w w u" by (rule flood.flood_origin) simp
  assume "a = w \<and> b = u \<or> flood T u a b"
  then show "flood ?T w a b"
  proof
    assume "flood T u a b"
    then show ?thesis
    proof (induction rule: flood.induct)
      case (flood_origin t)
      then have "t \<noteq> w" using V w by auto
      with flood_origin start show ?case by (auto intro: flood.flood_pass)
    next
      case (flood_pass a b c)
      then show ?case by (auto intro: flood.flood_pass)
    qed
  qed (use start in auto)
qed

lemma floods_leaf:
  assumes V: "\<forall>a b. EdgeKey a b \<in> T \<longrightarrow> a \<in> V \<and> b \<in> V" and u: "u \<in> V" and w: "w \<notin> V"
    and f: "\<forall>r \<in> V. floods T V r" and r: "r \<in> insert w V"
  shows "floods (insert (EdgeKey u w) (insert (EdgeKey w u) T)) (insert w V) r"
proof (cases "r = w")
  case True
  have fu: "floods T V u" using f u by blast
  have no: "\<not> flood T u a w" "\<not> flood T u w b" for a b using fu w by (auto simp: floods_def)
  show ?thesis
    unfolding floods_def True flood_from_leaf [OF V u w fu]
    using fu w u no by (auto simp: floods_def)
next
  case False
  with r have rV: "r \<in> V" by simp
  have fr: "floods T V r" using f rV by blast
  have no: "\<not> flood T r a w" "\<not> flood T r w b" for a b using fr w by (auto simp: floods_def)
  show ?thesis
    unfolding floods_def flood_leaf [OF V u w rV fr]
    using fr w u no rV by (auto simp: floods_def)
qed

lemma grows_floods: "grows g es s V T \<Longrightarrow> r \<in> V \<Longrightarrow> floods T V r"
proof (induction arbitrary: r rule: grows.induct)
  case seed
  have "\<not> flood {} s u v" for u v
    by (induction rule: notI, erule flood.induct) auto
  with seed show ?case by (auto simp: floods_def)
next
  case (extend V T e)
  have V: "\<forall>a b. EdgeKey a b \<in> T \<longrightarrow> a \<in> V \<and> b \<in> V"
    using grows_keys [OF extend.hyps(1)] by fastforce
  have f: "\<forall>r \<in> V. floods T V r" using extend.IH by blast
  have keys: "insert (key_reverse (edge_key_of e)) (insert (edge_key_of e) T)
      = insert (EdgeKey (e_to e) (e_from e)) (insert (EdgeKey (e_from e) (e_to e)) T)"
    by (simp add: edge_key_of_def key_reverse_def)
  from extend.hyps(3) consider "e_from e \<in> V" "e_to e \<notin> V" | "e_to e \<in> V" "e_from e \<notin> V"
    by (auto simp: addable_def)
  then show ?case
  proof cases
    case 1
    then have V': "insert (e_to e) (insert (e_from e) V) = insert (e_to e) V" by auto
    have "r \<in> insert (e_to e) V" using extend.prems 1 by auto
    from floods_leaf [OF V 1 f this] show ?thesis unfolding keys V' by (simp add: insert_commute)
  next
    case 2
    then have V': "insert (e_to e) (insert (e_from e) V) = insert (e_from e) V" by auto
    have "r \<in> insert (e_from e) V" using extend.prems 2 by auto
    from floods_leaf [OF V 2 f this] show ?thesis unfolding keys V' by (simp add: insert_commute)
  qed
qed

section \<open>Broadcasts of the engine\<close>

text \<open>\<open>S v\<close> is the network state of node \<open>v\<close>; \<open>flooded S r u v\<close>: \<open>u\<close> sends \<open>v\<close> a broadcast of \<open>r\<close>.\<close>

inductive flooded :: "(string \<Rightarrow> network_state) \<Rightarrow> string \<Rightarrow> string \<Rightarrow> string \<Rightarrow> bool" for S r where
  flooded_origin: "t \<in> set (broadcast_targets (S r) r BroadcastMst False) \<Longrightarrow> flooded S r r t"
| flooded_pass: "flooded S r u v \<Longrightarrow> t \<in> set (broadcast_targets (S v) u BroadcastMst False) \<Longrightarrow> flooded S r v t"

text \<open>What a node's state has in common with the mesh: the tree, and routes to its tree neighbours.\<close>

definition shares_tree :: "edge_key set \<Rightarrow> string \<Rightarrow> network_state \<Rightarrow> bool" where
  "shares_tree T v s \<longleftrightarrow> g_myself (ns_graph s) = v \<and> fst ` set (g_mst (ns_graph s)) = T
     \<and> bt_ok (g_mst (ns_graph s))
     \<and> (\<forall>u. u = v \<or> EdgeKey v u \<in> T \<longrightarrow> (\<exists>n. graph_node (ns_graph s) u = Some n
          \<and> st_reachable (n_status n) \<and> rt_next_hop (n_route n) = Some u))"

lemma mst_neighbors_mem:
  "t \<in> set (mst_neighbors g v) \<longleftrightarrow> EdgeKey v t \<in> fst ` set (g_mst g)"
proof -
  have "t \<in> set (mst_neighbors g v) \<longleftrightarrow> (\<exists>k \<in> fst ` set (g_mst g). ek_from k = v \<and> ek_to k = t)"
    by (auto simp: mst_neighbors_def bt_keys_def)
  also have "\<dots> \<longleftrightarrow> EdgeKey v t \<in> fst ` set (g_mst g)"
  proof
    assume "\<exists>k \<in> fst ` set (g_mst g). ek_from k = v \<and> ek_to k = t"
    then obtain k where "k \<in> fst ` set (g_mst g)" "ek_from k = v" "ek_to k = t" by blast
    then show "EdgeKey v t \<in> fst ` set (g_mst g)" by (cases k) auto
  qed force
  finally show ?thesis .
qed

lemma shared_targets:
  assumes "shares_tree T v s" "u = v \<or> EdgeKey v u \<in> T"
  shows "t \<in> set (broadcast_targets s u BroadcastMst False) \<longleftrightarrow> EdgeKey v t \<in> T \<and> t \<noteq> u"
proof -
  from assms have me: "g_myself (ns_graph s) = v" and T: "fst ` set (g_mst (ns_graph s)) = T"
    and hop: "Option.bind (graph_node (ns_graph s) u) (\<lambda>n. rt_next_hop (n_route n)) = Some u"
    unfolding shares_tree_def by auto
  have "EdgeKey v t \<in> T \<Longrightarrow> \<exists>n. graph_node (ns_graph s) t = Some n \<and> st_reachable (n_status n)"
    using assms(1) unfolding shares_tree_def by blast
  then show ?thesis
    unfolding broadcast_targets_def Let_def broadcast_mode.case set_filter mem_Collect_eq me mst_neighbors_mem T hop
    by auto
qed

lemma flooded_flood:
  assumes S: "\<forall>v \<in> V. shares_tree T v (S v)" and f: "floods T V r" and r: "r \<in> V"
    and sym: "\<forall>k \<in> T. key_reverse k \<in> T" and irr: "EdgeKey r r \<notin> T"
  shows "flooded S r u v \<longleftrightarrow> flood T r u v"
proof
  assume "flooded S r u v"
  then show "flood T r u v"
  proof (induction rule: flooded.induct)
    case (flooded_origin t)
    with shared_targets [of T r "S r" r t] S r show ?case by (auto intro: flood.flood_origin)
  next
    case (flooded_pass u v t)
    from flooded_pass.IH have uv: "v \<in> V" "EdgeKey u v \<in> T"
      using f by (auto simp: floods_def elim: flood.cases)
    from sym uv(2) have "EdgeKey v u \<in> T" by (force simp: key_reverse_def)
    with shared_targets [of T v "S v" u t] S uv flooded_pass show ?case by (auto intro: flood.flood_pass)
  qed
next
  assume "flood T r u v"
  then show "flooded S r u v"
  proof (induction rule: flood.induct)
    case (flood_origin t)
    then have "t \<noteq> r" using irr by auto
    with shared_targets [of T r "S r" r t] S r flood_origin show ?case by (auto intro: flooded.flooded_origin)
  next
    case (flood_pass u v w)
    have uv: "v \<in> V" "EdgeKey u v \<in> T"
      using f flood_pass.hyps(1) by (auto simp: floods_def elim: flood.cases)
    from sym uv(2) have "EdgeKey v u \<in> T" by (force simp: key_reverse_def)
    with shared_targets [of T v "S v" u w] S uv flood_pass show ?case by (auto intro: flooded.flooded_pass)
  qed
qed

lemma distinct_targets:
  assumes "bt_ok (g_mst (ns_graph s))"
  shows "distinct (broadcast_targets s u BroadcastMst False)"
proof -
  have "inj_on ek_to {k. ek_from k = v}" for v
    by (rule inj_onI) (metis edge_key.expand mem_Collect_eq)
  then have "distinct (map ek_to (filter (\<lambda>k. ek_from k = v) (bt_keys (g_mst (ns_graph s)))))" for v
    using distinct_bt_keys [OF assms] by (auto simp: distinct_map intro: inj_on_subset)
  then show ?thesis by (simp add: broadcast_targets_def mst_neighbors_def Let_def)
qed

lemma flooded_once:
  assumes ok: "graph_ok g" "\<forall>n. reachable g n \<longleftrightarrow> connected g (g_myself g) n"
    and S: "\<forall>v. reachable g v \<longrightarrow> shares_tree (fst ` set (g_mst (mst_kruskal g))) v (S v)"
    and r: "reachable g r"
  shows "(\<forall>v. reachable g v \<longrightarrow> v \<noteq> r \<longrightarrow> (\<exists>!u. flooded S r u v)) \<and> (\<forall>u. \<not> flooded S r u r)
    \<and> (\<forall>u v. flooded S r u v \<longrightarrow> reachable g u \<and> reachable g v)"
proof -
  let ?T = "fst ` set (g_mst (mst_kruskal g))" and ?V = "{n. reachable g n}"
  from mst_spans [OF ok] have sym: "\<forall>k \<in> ?T. key_reverse k \<in> ?T"
    and links: "\<forall>k \<in> ?T. linked (g_edges g) (ek_from k) (ek_to k)"
    and card: "card ?T = 2 * (card ?V - 1)" by blast+
  have V: "\<forall>v \<in> ?V. shares_tree ?T v (S v)" using S by simp
  have fl: "floods ?T ?V r \<and> EdgeKey r r \<notin> ?T"
    using mst_kruskal_grows [OF ok(1)]
  proof (elim disjE exE conjE)
    fix s W assume g: "grows g (weight_sorted_edges g) s W ?T" and W: "W = {v. connected g s v}" and s: "reachable g s"
    have "W = ?V"
      using W s ok(2) connected_sym by (auto intro: rtranclp_trans)
    moreover have "EdgeKey a a \<notin> ?T" for a
    proof -
      have "grows g (weight_sorted_edges g) s W T \<Longrightarrow> EdgeKey a a \<notin> T" for W T
        by (induction rule: grows.induct) (auto simp: edge_key_of_def key_reverse_def addable_def)
      with g show ?thesis by blast
    qed
    ultimately show ?thesis using grows_floods [OF g, of r] r by auto
  next
    assume m: "g_mst (mst_kruskal g) = []"
    have no: "\<not> flood {} r u v" for u v
      by (rule notI, erule flood.induct) auto
    have "(tree_link {})\<^sup>*\<^sup>* (g_myself g) n \<longleftrightarrow> reachable g n" for n
      using mst_spans [OF ok] m by simp
    then have "n = g_myself g" if "reachable g n" for n
      using that tree_link_empty by metis
    then have "?V = {r}" using r by auto
    then show ?thesis using m no by (auto simp: floods_def)
  qed
  have rV: "r \<in> ?V" using r by simp
  note eq = flooded_flood [OF V conjunct1 [OF fl] rV sym conjunct2 [OF fl]]
  show ?thesis unfolding eq using fl by (auto simp: floods_def)
qed

text \<open>
  C10: when every reachable node keeps the mesh's spanning tree and routes its tree neighbours
  directly, a broadcast sent on by each node to the targets its engine picks reaches every reachable
  node other than the origin from exactly one neighbour, which sends it once, and neither the origin
  nor an unreachable node is sent it.
\<close>

theorem broadcast_floods_once:
  assumes "graph_ok g" "\<forall>n. reachable g n \<longleftrightarrow> connected g (g_myself g) n"
    and "\<forall>v. reachable g v \<longrightarrow> shares_tree (fst ` set (g_mst (mst_kruskal g))) v (S v)"
    and "reachable g r"
  shows "(\<forall>v. reachable g v \<longrightarrow> v \<noteq> r \<longrightarrow> (\<exists>!u. flooded S r u v)) \<and> (\<forall>u. \<not> flooded S r u r)
    \<and> (\<forall>u v. flooded S r u v \<longrightarrow> reachable g u \<and> reachable g v)
    \<and> (\<forall>u v. reachable g v \<longrightarrow> distinct (broadcast_targets (S v) u BroadcastMst False))"
proof -
  have "distinct (broadcast_targets (S v) u BroadcastMst False)" if "reachable g v" for u v
    by (rule distinct_targets) (use assms(3) that in \<open>simp add: shares_tree_def\<close>)
  with flooded_once [OF assms] show ?thesis by blast
qed

text \<open>Two nodes, each with its own state.\<close>

definition demo_shared :: "string \<Rightarrow> network_state" where
  "demo_shared v =
     (let n = (\<lambda>name. (set_reachable True (node_new (\<lambda>_. replicate 64 0) name))
                \<lparr>n_route := route_default\<lparr>rt_next_hop := Some name\<rparr>\<rparr>)
      in \<lparr>ns_graph = \<lparr>g_myself = v, g_nodes = [(''a'', n ''a''), (''b'', n ''b'')], g_edges = [],
            g_mst = [(EdgeKey ''a'' ''b'', ()), (EdgeKey ''b'' ''a'', ())]\<rparr>,
          ns_subnets = [], ns_experimental = False\<rparr>)"

lemma demo_tree: "fst ` set (g_mst (mst_kruskal demo_routed)) = {EdgeKey ''a'' ''b'', EdgeKey ''b'' ''a''}"
proof -
  let ?T = "fst ` set (g_mst (mst_kruskal demo_routed))"
  note sp = mst_spans [OF demo_routed_ok(1,2)]
  have e: "map fst (g_edges demo_mesh) = [EdgeKey ''a'' ''b'', EdgeKey ''b'' ''a'']" by code_simp
  then have keys: "fst ` set (g_edges demo_mesh) = {EdgeKey ''a'' ''b'', EdgeKey ''b'' ''a''}"
    by (simp flip: set_map)
  have sub: "k \<in> {EdgeKey ''a'' ''b'', EdgeKey ''b'' ''a''}" if "k \<in> ?T" for k
  proof -
    have "linked (g_edges demo_mesh) (ek_from k) (ek_to k)" using sp that demo_routed_ok(3) by auto
    then have "EdgeKey (ek_from k) (ek_to k) \<in> fst ` set (g_edges demo_mesh)"
      by (auto simp: linked_def bt_contains_keys)
    then show ?thesis unfolding keys by (cases k) auto
  qed
  have "?T \<noteq> {}"
  proof
    assume e: "?T = {}"
    have "(tree_link ?T)\<^sup>*\<^sup>* (g_myself demo_routed) ''b''" using sp demo_routed_ok(5) by blast
    then have "''a'' = ''b''" unfolding e tree_link_empty demo_routed_ok(4) .
    then show False by simp
  qed
  then obtain k where k: "k \<in> ?T" unfolding ex_in_conv [symmetric] by (erule exE)
  have r: "key_reverse k \<in> ?T" by (rule conjunct2 [OF bspec [OF conjunct1 [OF conjunct2 [OF sp]] k]])
  have "k = EdgeKey ''a'' ''b'' \<or> k = EdgeKey ''b'' ''a''" using sub [OF k] by simp
  then have kk: "{EdgeKey ''a'' ''b'', EdgeKey ''b'' ''a''} = {k, key_reverse k}"
    by (elim disjE) (simp_all add: key_reverse_def insert_commute)
  show ?thesis
  proof (rule subset_antisym)
    show "?T \<subseteq> {EdgeKey ''a'' ''b'', EdgeKey ''b'' ''a''}" by (rule subsetI) (rule sub)
    show "{EdgeKey ''a'' ''b'', EdgeKey ''b'' ''a''} \<subseteq> ?T" unfolding kk using k r by blast
  qed
qed

lemma demo_reachable: "reachable demo_routed v \<Longrightarrow> v = ''a'' \<or> v = ''b''"
proof -
  assume v: "reachable demo_routed v"
  have "(tree_link {EdgeKey ''a'' ''b'', EdgeKey ''b'' ''a''})\<^sup>*\<^sup>* ''a'' v"
    using mst_spans [OF demo_routed_ok(1,2)] v by (simp add: demo_tree demo_routed_ok(4))
  then show ?thesis by (cases rule: rtranclp.cases) (auto simp: tree_link_def)
qed

theorem broadcast_floods_once_witness: "\<exists>!u. flooded demo_shared ''a'' u ''b''"
proof -
  have nodes: "\<exists>n. graph_node (ns_graph (demo_shared v)) u = Some n \<and> st_reachable (n_status n)
      \<and> rt_next_hop (n_route n) = Some u" if "u = ''a'' \<or> u = ''b''" for u v
    using that by (auto simp: demo_shared_def Let_def graph_node_def bt_get_def set_reachable_def)
  have mst: "g_mst (ns_graph (demo_shared v)) = [(EdgeKey ''a'' ''b'', ()), (EdgeKey ''b'' ''a'', ())]"
    "g_myself (ns_graph (demo_shared v)) = v" for v
    by (simp_all add: demo_shared_def Let_def)
  have sorted: "bt_ok [(EdgeKey ''a'' ''b'', ()), (EdgeKey ''b'' ''a'', ())]" by code_simp
  have ends: "u = ''a'' \<or> u = ''b''"
    if "v = ''a'' \<or> v = ''b''" "u = v \<or> EdgeKey v u \<in> {EdgeKey ''a'' ''b'', EdgeKey ''b'' ''a''}" for u v
    using that by (elim disjE) simp_all
  have keys: "fst ` set [(EdgeKey ''a'' ''b'', ()), (EdgeKey ''b'' ''a'', ())] = {EdgeKey ''a'' ''b'', EdgeKey ''b'' ''a''}"
    by simp
  have "shares_tree {EdgeKey ''a'' ''b'', EdgeKey ''b'' ''a''} v (demo_shared v)"
    if "v = ''a'' \<or> v = ''b''" for v
    unfolding shares_tree_def mst keys
    by (intro conjI allI impI refl sorted nodes, erule ends [OF that])
  then have "\<forall>v. reachable demo_routed v
      \<longrightarrow> shares_tree (fst ` set (g_mst (mst_kruskal demo_routed))) v (demo_shared v)"
    using demo_reachable unfolding demo_tree by blast
  moreover have "reachable demo_routed ''a''"
    using demo_routed_ok(2,4) by simp
  moreover have "''b'' \<noteq> ''a''" by simp
  ultimately show ?thesis
    using broadcast_floods_once [OF demo_routed_ok(1,2), of demo_shared "''a''"] demo_routed_ok(5) by blast
qed

end
