(* ===== verification/Engine_Props.thy ===== *)
theory Engine_Props
  imports Broadcast_Flood Route_Props
begin

text \<open>
  What the engine does with a packet.  A recording device and transport keep every packet they are
  given and answer as any function says; on them the engine sends only where the router may, and
  reports what it did.
\<close>

section \<open>Recording\<close>

definition recording_device :: "(vpn_packet \<Rightarrow> device_error + unit) \<Rightarrow> vpn_packet list device" where
  "recording_device answer = \<lparr>dv_read = (\<lambda>d. (Inr None, d)), dv_write = (\<lambda>p d. (answer p, d @ [p]))\<rparr>"

definition recording_transport :: "(string \<Rightarrow> vpn_packet \<Rightarrow> transport_error + unit)
    \<Rightarrow> (string \<times> string \<times> vpn_packet) list packet_transport" where
  "recording_transport answer =
     \<lparr>pt_send = (\<lambda>target p t. (answer target p, t @ [(target, target, p)])),
      pt_send_to = (\<lambda>owner relay p t. (answer relay p, t @ [(owner, relay, p)])),
      pt_receive = (\<lambda>t. (Inr None, t))\<rparr>"

type_synonym recorded = "(vpn_packet list, (string \<times> string \<times> vpn_packet) list) runtime_engine"

text \<open>What an operation added to the records; the state and the configuration stay.\<close>

definition engine_adds :: "recorded \<Rightarrow> recorded \<Rightarrow> vpn_packet list \<Rightarrow> (string \<times> string \<times> vpn_packet) list \<Rightarrow> bool" where
  "engine_adds e e' ws ss \<longleftrightarrow> e' = e\<lparr>en_device := en_device e @ ws, en_transport := en_transport e @ ss\<rparr>"

lemma engine_adds_refl: "engine_adds e e [] []"
  by (simp add: engine_adds_def)

lemma engine_adds_trans: "engine_adds e e1 ws ss \<Longrightarrow> engine_adds e1 e2 ws' ss' \<Longrightarrow> engine_adds e e2 (ws @ ws') (ss @ ss')"
  by (simp add: engine_adds_def)

lemma engine_adds_fields:
  "engine_adds e e' ws ss \<Longrightarrow> en_state e' = en_state e \<and> en_config e' = en_config e
    \<and> en_device e' = en_device e @ ws \<and> en_transport e' = en_transport e @ ss"
  by (simp add: engine_adds_def)

lemma packet_made: "map_ok (with_priority priority) (vpn_packet_new q) = Inr p
    \<longleftrightarrow> length q \<le> VPN_MTU \<and> p = \<lparr>vp_data = q, vp_priority = priority\<rparr>"
  by (auto simp: vpn_packet_new_def with_priority_def)

text \<open>The event reported for one packet to an owner.\<close>

definition send_event :: "(string \<Rightarrow> vpn_packet \<Rightarrow> transport_error + unit) \<Rightarrow> string \<Rightarrow> string \<Rightarrow> vpn_packet \<Rightarrow> engine_event" where
  "send_event answer owner relay p =
     (case answer relay p of
        Inr _ \<Rightarrow> TransportSend owner relay p (vp_priority p = -1)
      | Inl x \<Rightarrow> TransportDeferred owner relay p (vp_priority p = -1) (show_transport_error x))"

definition relay_of :: "string \<Rightarrow> string option \<Rightarrow> string" where
  "relay_of owner via = (case via of Some v \<Rightarrow> v | None \<Rightarrow> owner)"

lemma write_recorded:
  assumes "write_device (recording_device da) q priority e = (r, e')"
  shows "(VPN_MTU < length q \<and> e' = e \<and> (\<exists>x. r = Inl (EngPacket x)))
    \<or> (length q \<le> VPN_MTU \<and> engine_adds e e' [\<lparr>vp_data = q, vp_priority = priority\<rparr>] []
       \<and> r = map_ok (\<lambda>_. DeviceWrite \<lparr>vp_data = q, vp_priority = priority\<rparr>)
           (map_err EngDevice (da \<lparr>vp_data = q, vp_priority = priority\<rparr>)))"
  using assms
  by (auto simp: write_device_def recording_device_def engine_adds_def vpn_packet_new_def with_priority_def
      split: if_splits)

lemma send_recorded:
  assumes "send_to_owner (recording_device da) (recording_transport ta) owner via q priority e = (r, e')"
  defines "p \<equiv> \<lparr>vp_data = q, vp_priority = priority\<rparr>"
  shows "(VPN_MTU < length q \<and> e' = e \<and> (\<exists>x. r = Inl (EngPacket x)))
    \<or> (length q \<le> VPN_MTU \<and> owner = g_myself (ns_graph (en_state e)) \<and> engine_adds e e' [p] []
       \<and> r = map_ok (\<lambda>_. [DeviceWrite p]) (map_err EngDevice (da p)))
    \<or> (length q \<le> VPN_MTU \<and> owner \<noteq> g_myself (ns_graph (en_state e))
       \<and> engine_adds e e' [] [(owner, relay_of owner via, p)]
       \<and> (case ta (relay_of owner via) p of
            Inl x \<Rightarrow> if is_deferred_error x then r = Inr [send_event ta owner (relay_of owner via) p] else r = Inl (EngTransport x)
          | Inr _ \<Rightarrow> r = Inr [send_event ta owner (relay_of owner via) p]))"
proof (cases "owner = g_myself (ns_graph (en_state e))")
  case True
  with assms(1) obtain r0 where w: "write_device (recording_device da) q priority e = (r0, e')"
    and r: "r = map_ok (\<lambda>event. [event]) r0"
    by (cases "write_device (recording_device da) q priority e") (auto simp: send_to_owner_def)
  from write_recorded [OF w] True r show ?thesis
    by (cases "da p") (auto simp: p_def)
next
  case False
  with assms(1) show ?thesis
    by (auto simp: send_to_owner_def relay_of_def p_def send_event_def recording_transport_def engine_adds_def
        vpn_packet_new_def with_priority_def Let_def split: if_splits sum.splits option.splits)
qed

section \<open>Operations on recorders\<close>

abbreviation to_send :: "string \<Rightarrow> string option \<Rightarrow> int \<Rightarrow> byte list \<Rightarrow> string \<times> string \<times> vpn_packet" where
  "to_send owner via priority q \<equiv> (owner, relay_of owner via, \<lparr>vp_data = q, vp_priority = priority\<rparr>)"

text \<open>Every packet to an owner goes to the device when the owner is this node, else to the transport.\<close>

lemma send_adds:
  assumes "send_to_owner (recording_device da) (recording_transport ta) owner via q priority e = (r, e')"
  shows "\<exists>ws ss. engine_adds e e' ws ss
    \<and> (if owner = g_myself (ns_graph (en_state e)) then set ws \<subseteq> {\<lparr>vp_data = q, vp_priority = priority\<rparr>} \<and> ss = []
       else ws = [] \<and> set ss \<subseteq> {to_send owner via priority q})"
  using send_recorded [OF assms]
proof (elim disjE conjE)
  assume "e' = e"
  then show ?thesis using engine_adds_refl [of e] by (intro exI [of _ "[]"]) simp
next
  assume "owner = g_myself (ns_graph (en_state e))" "engine_adds e e' [\<lparr>vp_data = q, vp_priority = priority\<rparr>] []"
  then show ?thesis
    by (intro exI [of _ "[\<lparr>vp_data = q, vp_priority = priority\<rparr>]"] exI [of _ "[]"]) simp
next
  assume "owner \<noteq> g_myself (ns_graph (en_state e))" "engine_adds e e' [] [to_send owner via priority q]"
  then show ?thesis
    by (intro exI [of _ "[]"] exI [of _ "[to_send owner via priority q]"]) simp
qed

lemma fragments_add:
  assumes "send_fragments (recording_device da) (recording_transport ta) owner via fs priority e = (r, e')"
  shows "\<exists>ws ss. engine_adds e e' ws ss
    \<and> (if owner = g_myself (ns_graph (en_state e))
       then set ws \<subseteq> (\<lambda>q. \<lparr>vp_data = q, vp_priority = priority\<rparr>) ` set fs \<and> ss = []
       else ws = [] \<and> set ss \<subseteq> to_send owner via priority ` set fs)"
  using assms
proof (induction fs arbitrary: e r e')
  case Nil
  then show ?case using engine_adds_refl [of e] by (intro exI [of _ "[]"]) simp
next
  case (Cons f fs)
  obtain r1 e1 where s: "send_to_owner (recording_device da) (recording_transport ta) owner via f priority e = (r1, e1)"
    by fastforce
  from send_adds [OF s] obtain ws ss where 1: "engine_adds e e1 ws ss"
    "if owner = g_myself (ns_graph (en_state e)) then set ws \<subseteq> {\<lparr>vp_data = f, vp_priority = priority\<rparr>} \<and> ss = []
       else ws = [] \<and> set ss \<subseteq> {to_send owner via priority f}" by blast
  have me: "en_state e1 = en_state e" using engine_adds_fields [OF 1(1)] by blast
  show ?case
  proof (cases r1)
    case (Inl x)
    with Cons.prems s have "e' = e1" by simp
    with 1 show ?thesis by (intro exI [of _ ws] exI [of _ ss]) (auto split: if_splits)
  next
    case (Inr evs)
    obtain r2 e2 where t: "send_fragments (recording_device da) (recording_transport ta) owner via fs priority e1 = (r2, e2)"
      by fastforce
    with Cons.prems s Inr have "e' = e2" by simp
    moreover from Cons.IH [OF t] obtain ws' ss' where 2: "engine_adds e1 e2 ws' ss'"
      "if owner = g_myself (ns_graph (en_state e1))
       then set ws' \<subseteq> (\<lambda>q. \<lparr>vp_data = q, vp_priority = priority\<rparr>) ` set fs \<and> ss' = []
       else ws' = [] \<and> set ss' \<subseteq> to_send owner via priority ` set fs" by blast
    ultimately show ?thesis
      using 1(2) 2(2) engine_adds_trans [OF 1(1) 2(1)] me
      by (intro exI [of _ "ws @ ws'"] exI [of _ "ss @ ss'"]) (auto split: if_splits)
  qed
qed

lemma send_all_recorded:
  "send_all (recording_transport ta) p targets t
    = (filter (\<lambda>x. ta x p = Inr ()) targets, t @ map (\<lambda>x. (x, x, p)) targets)"
  by (induction targets arbitrary: t) (auto simp: recording_transport_def)

section \<open>What the router lets out\<close>

definition router_allows :: "network_state \<Rightarrow> string \<Rightarrow> route_config \<Rightarrow> byte list \<Rightarrow> string \<Rightarrow> string option \<Rightarrow> bool" where
  "router_allows s source config p owner via \<longleftrightarrow> send_allowed s source config owner via
     \<and> reachable (ns_graph s) owner
     \<and> (\<exists>x \<in> set (ns_subnets s). sn_owner x = Some owner \<and> type_order x = fst (ip_destination p)
          \<and> covers x (snd (ip_destination p)))"

lemma action_outcome:
  assumes "route_packet_action s source p config = (r, s')"
  shows "(s' = s \<and> (\<exists>res. r = packet_reply_action source res)) \<or> (\<exists>q. route_packet_mut s source p config = (rp_outcome r, q, s'))"
proof (cases "if rc_routing_mode config = Router then address_resolution_action s source p else None")
  case (Some a)
  then have "r = a" "s' = s" using assms by (auto simp: route_packet_action_def)
  moreover have "\<exists>res. a = packet_reply_action source res"
    using Some by (auto simp: address_resolution_action_def split: if_splits sum.splits)
  ultimately show ?thesis by blast
next
  case None
  obtain out q s0 where "route_packet_mut s source p config = (out, q, s0)"
    by (cases "route_packet_mut s source p config") auto
  with assms None show ?thesis by (auto simp: route_packet_action_def Let_def)
qed

lemma reply_outcome: "ro_decision (rp_outcome (packet_reply_action source res)) = RouteReply source
    \<or> (\<exists>d. ro_decision (rp_outcome (packet_reply_action source res)) = RouteDrop d)"
  by (auto simp: packet_reply_action_def outcome_new_def split: sum.splits option.splits)

lemma table_owners: "table_ok t \<Longrightarrow> x \<in> set t \<Longrightarrow> sn_owner x \<noteq> None"
  by (auto simp: table_ok_def owned_def)

lemma router_never_broadcasts:
  assumes t: "table_ok (ns_subnets s)" and m: "rc_routing_mode config = Router"
    and r: "route_packet s source p config = (out, s')"
  shows "ro_decision out \<noteq> RouteBroadcast"
    and "ro_decision out = RouteDeliverLocal \<Longrightarrow> rc_forwarding_mode config = FwdKernel \<and> source \<noteq> g_myself (ns_graph s)"
proof -
  have own: "sn_owner x \<noteq> None"
    if "lookup_reachable_ipv4 s a = Some x \<or> lookup_reachable_ipv6 s a = Some x" for a x
    using that lookup_member table_owners [OF t] unfolding lookup_reachable_ipv4_def lookup_reachable_ipv6_def
    by fast
  have n: "sn_owner x \<noteq> None \<Longrightarrow> ro_decision (route_to_subnet_owner s source x config) \<noteq> RouteBroadcast"
    "sn_owner x \<noteq> None \<Longrightarrow> ro_decision (route_to_subnet_owner s source x config) \<noteq> RouteDeliverLocal" for x
    by (auto simp: route_to_subnet_owner_def outcome_new_def Let_def split: option.split)
  have d: "ro_decision (route_to_subnet_owner s source x config) \<notin> {RouteBroadcast, RouteDeliverLocal}"
    if "lookup_reachable_ipv4 s a = Some x \<or> lookup_reachable_ipv6 s a = Some x" for a x
    using n [OF own [OF that]] by simp
  have v4: "ro_decision (route_ipv4 s source p config) \<notin> {RouteBroadcast, RouteDeliverLocal}"
    "ro_decision (route_ipv6 s source p config) \<notin> {RouteBroadcast, RouteDeliverLocal}"
    using d by (simp_all add: route_ipv4_def route_ipv6_def outcome_new_def Let_def split: option.split) blast+
  have out: "out = fst (route_packet s source p config)" using r by simp
  show "ro_decision out \<noteq> RouteBroadcast"
    using v4 unfolding out
    by (simp add: route_packet_def m outcome_new_def split: sum.split)
  show "ro_decision out = RouteDeliverLocal \<Longrightarrow> rc_forwarding_mode config = FwdKernel \<and> source \<noteq> g_myself (ns_graph s)"
    using v4 unfolding out
    by (simp add: route_packet_def m outcome_new_def split: sum.splits if_splits)
qed

lemma router_keeps_state:
  "rc_routing_mode config = Router \<Longrightarrow> route_packet s source p config = (out, s') \<Longrightarrow> s' = s"
  by (auto simp: route_packet_def split: if_splits sum.splits)

lemma reply_action_cases:
  "(\<exists>q. rp_action (packet_reply_action source res) = ActReply source q None)
    \<or> (\<exists>d. rp_action (packet_reply_action source res) = ActDrop d)"
  by (auto simp: packet_reply_action_def split: sum.splits option.splits)

lemma router_action:
  assumes t: "table_ok (ns_subnets s)" and m: "rc_routing_mode config = Router"
    and r: "route_packet_action s source p config = (r, s')"
  shows "s' = s \<and> (case rp_action r of
      ActSend owner via q prio clamp \<Rightarrow> router_allows s source config p owner via
    | ActSendFragments owner via frs prio \<Rightarrow> router_allows s source config p owner via
    | ActReply target q prio \<Rightarrow> target = source
    | ActBroadcast q \<Rightarrow> False
    | ActDeliverLocal q \<Rightarrow> rc_forwarding_mode config = FwdKernel \<and> source \<noteq> g_myself (ns_graph s)
    | ActDrop d \<Rightarrow> True)"
  using action_outcome [OF r]
proof (elim disjE exE conjE)
  fix res assume "s' = s" "r = packet_reply_action source res"
  with reply_action_cases [of source res] show ?thesis by auto
next
  fix q assume mut: "route_packet_mut s source p config = (rp_outcome r, q, s')"
  from route_packet_mut_cases [OF mut] obtain out0 where o: "route_packet s source p config = (out0, s')"
    and d: "rp_outcome r = out0 \<or> (\<exists>d. ro_decision (rp_outcome r) = RouteDrop d)" by blast
  have s': "s' = s" by (rule router_keeps_state [OF m o])
  have allows: "router_allows s source config p owner via" if "ro_decision (rp_outcome r) = RouteSend owner via" for owner via
    using router_send [OF t m o] d that unfolding router_allows_def by auto
  have nb: "ro_decision (rp_outcome r) \<noteq> RouteBroadcast"
    using router_never_broadcasts(1) [OF t m o] d by auto
  have loc: "rc_forwarding_mode config = FwdKernel \<and> source \<noteq> g_myself (ns_graph s)"
    if "ro_decision (rp_outcome r) = RouteDeliverLocal"
    using router_never_broadcasts(2) [OF t m o] d that by auto
  from action_follows [OF r] allows nb loc s' show ?thesis by (auto split: packet_action.splits)
qed

section \<open>What is reported\<close>

text \<open>
  An account of packets written (\<open>ws\<close>) and sent (\<open>ss\<close>): an error has a cause among them, every
  event tells the truth, and on success every packet is reported, but those a broadcast could not
  send.
\<close>

fun cause :: "(vpn_packet \<Rightarrow> device_error + unit) \<Rightarrow> (string \<Rightarrow> vpn_packet \<Rightarrow> transport_error + unit)
    \<Rightarrow> vpn_packet list \<Rightarrow> (string \<times> string \<times> vpn_packet) list \<Rightarrow> engine_error \<Rightarrow> bool" where
  "cause da ta ws ss (EngPacket x) \<longleftrightarrow> (\<exists>n > VPN_MTU. x = DevicePacketTooLarge VPN_MTU n)"
| "cause da ta ws ss (EngDevice x) \<longleftrightarrow> (\<exists>w \<in> set ws. da w = Inl x)"
| "cause da ta ws ss (EngTransport x) \<longleftrightarrow> \<not> is_deferred_error x \<and> (\<exists>(owner, relay, q) \<in> set ss. ta relay q = Inl x)"

fun true_event :: "(vpn_packet \<Rightarrow> device_error + unit) \<Rightarrow> (string \<Rightarrow> vpn_packet \<Rightarrow> transport_error + unit)
    \<Rightarrow> vpn_packet list \<Rightarrow> (string \<times> string \<times> vpn_packet) list \<Rightarrow> engine_event \<Rightarrow> bool" where
  "true_event da ta ws ss (DeviceWrite q) \<longleftrightarrow> q \<in> set ws \<and> da q = Inr ()"
| "true_event da ta ws ss (TransportSend owner relay q forced) \<longleftrightarrow> (owner, relay, q) \<in> set ss \<and> ta relay q = Inr ()
     \<and> forced = (vp_priority q = -1)"
| "true_event da ta ws ss (TransportDeferred owner relay q forced reason) \<longleftrightarrow> (owner, relay, q) \<in> set ss
     \<and> (\<exists>x. ta relay q = Inl x \<and> is_deferred_error x \<and> reason = show_transport_error x)
     \<and> forced = (vp_priority q = -1)"
| "true_event da ta ws ss (EventBroadcast targets q) \<longleftrightarrow>
     (\<forall>target \<in> set targets. (target, target, q) \<in> set ss \<and> ta target q = Inr ())"
| "true_event da ta ws ss _ \<longleftrightarrow> True"

definition send_reported :: "(string \<Rightarrow> vpn_packet \<Rightarrow> transport_error + unit) \<Rightarrow> bool \<Rightarrow> engine_event list
    \<Rightarrow> string \<times> string \<times> vpn_packet \<Rightarrow> bool" where
  "send_reported ta broadcast events x \<longleftrightarrow> (case x of (owner, relay, q) \<Rightarrow>
     if broadcast then ta relay q = Inr () \<longrightarrow> (\<exists>targets. EventBroadcast targets q \<in> set events \<and> relay \<in> set targets)
     else send_event ta owner relay q \<in> set events)"

definition accounts where
  "accounts da ta broadcast ws ss r \<longleftrightarrow>
     (case r of
        Inl x \<Rightarrow> cause da ta ws ss x
      | Inr events \<Rightarrow> (\<forall>ev \<in> set events. true_event da ta ws ss ev)
          \<and> (\<forall>w \<in> set ws. DeviceWrite w \<in> set events) \<and> (\<forall>x \<in> set ss. send_reported ta broadcast events x))"

lemma cause_mono: "cause da ta ws ss x \<Longrightarrow> set ws \<subseteq> set ws' \<Longrightarrow> set ss \<subseteq> set ss' \<Longrightarrow> cause da ta ws' ss' x"
  by (cases x) fastforce+

lemma true_event_mono:
  "true_event da ta ws ss ev \<Longrightarrow> set ws \<subseteq> set ws' \<Longrightarrow> set ss \<subseteq> set ss' \<Longrightarrow> true_event da ta ws' ss' ev"
  by (cases ev) auto

lemma send_reported_mono: "send_reported ta b evs x \<Longrightarrow> set evs \<subseteq> set evs' \<Longrightarrow> send_reported ta b evs' x"
  by (cases x) (auto simp: send_reported_def split: if_splits)

lemma accounts_then:
  assumes "accounts da ta b ws ss (Inr evs)" "accounts da ta b ws' ss' r"
  shows "accounts da ta b (ws @ ws') (ss @ ss') (map_ok (\<lambda>rest. evs @ rest) r)"
proof (cases r)
  case (Inl x)
  then show ?thesis using assms(2) cause_mono [of da ta ws' ss' x "ws @ ws'" "ss @ ss'"] by (simp add: accounts_def)
next
  case (Inr rest)
  then show ?thesis
    using assms true_event_mono [of da ta ws ss _ "ws @ ws'" "ss @ ss'"]
      true_event_mono [of da ta ws' ss' _ "ws @ ws'" "ss @ ss'"]
      send_reported_mono [of ta b evs _ "evs @ rest"] send_reported_mono [of ta b rest _ "evs @ rest"]
    by (auto simp: accounts_def)
qed

text \<open>Each way of sending gives an account of what it did.\<close>

lemma too_large: "map_ok (with_priority priority) (vpn_packet_new q) = Inl x \<Longrightarrow> cause da ta ws ss (EngPacket x)"
  by (auto simp: vpn_packet_new_def split: if_splits)

lemma write_accounts:
  assumes "write_device (recording_device da) q priority e = (r, e')"
  shows "\<exists>ws. engine_adds e e' ws [] \<and> accounts da ta b ws [] (map_ok (\<lambda>event. [event]) r)"
proof (cases "map_ok (with_priority priority) (vpn_packet_new q)")
  case (Inl x)
  with assms have "r = Inl (EngPacket x)" "e' = e" by (auto simp: write_device_def)
  then show ?thesis using engine_adds_refl [of e] too_large [OF Inl, of da ta "[]" "[]"]
    by (intro exI [of _ "[]"]) (simp add: accounts_def)
next
  case (Inr p)
  with assms have "engine_adds e e' [p] []" "r = map_ok (\<lambda>_. DeviceWrite p) (map_err EngDevice (da p))"
    by (auto simp: write_device_def recording_device_def engine_adds_def)
  then show ?thesis by (intro exI [of _ "[p]"]) (cases "da p"; auto simp: accounts_def)
qed

lemma send_accounts:
  assumes s: "send_to_owner (recording_device da) (recording_transport ta) owner via q priority e = (r, e')"
  shows "\<exists>ws ss. engine_adds e e' ws ss \<and> accounts da ta False ws ss r"
proof (cases "owner = g_myself (ns_graph (en_state e))")
  case True
  obtain r0 where w: "write_device (recording_device da) q priority e = (r0, e')"
    and r: "r = map_ok (\<lambda>event. [event]) r0"
    using s True by (cases "write_device (recording_device da) q priority e") (auto simp: send_to_owner_def)
  from write_accounts [OF w, of ta False] r show ?thesis by blast
next
  case other: False
  show ?thesis
  proof (cases "map_ok (with_priority priority) (vpn_packet_new q)")
    case (Inl x)
    with s other have "r = Inl (EngPacket x)" "e' = e" by (auto simp: send_to_owner_def Let_def)
    then show ?thesis using engine_adds_refl [of e] too_large [OF Inl, of da ta "[]" "[]"]
      by (intro exI [of _ "[]"]) (simp add: accounts_def)
  next
    case (Inr p)
    have pr: "vp_priority p = priority" using Inr packet_made by fastforce
    have a: "engine_adds e e' [] [(owner, relay_of owner via, p)]"
      using s other Inr by (auto simp: send_to_owner_def Let_def recording_transport_def engine_adds_def relay_of_def
          split: sum.splits option.splits)
    have "accounts da ta False [] [(owner, relay_of owner via, p)] r"
      using s other Inr pr by (auto simp: send_to_owner_def Let_def recording_transport_def relay_of_def accounts_def
          send_reported_def send_event_def split: sum.splits option.splits if_splits)
    with a show ?thesis by blast
  qed
qed

lemma fragments_account:
  assumes "send_fragments (recording_device da) (recording_transport ta) owner via fs priority e = (r, e')"
  shows "\<exists>ws ss. engine_adds e e' ws ss \<and> accounts da ta False ws ss r"
  using assms
proof (induction fs arbitrary: e r e')
  case Nil
  then have "r = Inr []" "e' = e" by auto
  then show ?case using engine_adds_refl [of e] by (intro exI [of _ "[]"]) (simp add: accounts_def)
next
  case (Cons f fs)
  obtain r1 e1 where s: "send_to_owner (recording_device da) (recording_transport ta) owner via f priority e = (r1, e1)"
    by fastforce
  from send_accounts [OF s] obtain ws ss where 1: "engine_adds e e1 ws ss" "accounts da ta False ws ss r1" by blast
  show ?case
  proof (cases r1)
    case (Inl x)
    with Cons.prems s 1 show ?thesis by (intro exI [of _ ws] exI [of _ ss]) simp
  next
    case (Inr evs)
    obtain r2 e2 where t: "send_fragments (recording_device da) (recording_transport ta) owner via fs priority e1 = (r2, e2)"
      by fastforce
    from Cons.IH [OF t] obtain ws' ss' where 2: "engine_adds e1 e2 ws' ss'" "accounts da ta False ws' ss' r2" by blast
    from Cons.prems s t Inr have "r = map_ok (\<lambda>rest. evs @ rest) r2" "e' = e2" by auto
    with accounts_then 1 2 Inr engine_adds_trans show ?thesis by blast
  qed
qed

lemma broadcast_accounts:
  assumes "broadcast_packet (recording_device da) (recording_transport ta) source q priority e = (r, e')"
  shows "\<exists>ws ss. engine_adds e e' ws ss \<and> accounts da ta True ws ss r"
proof -
  let ?first = "if source \<noteq> g_myself (ns_graph (en_state e))
    then map_prod (map_ok (\<lambda>event. [event])) id (write_device (recording_device da) q priority e) else (Inr [], e)"
  obtain r1 e1 where f: "?first = (r1, e1)" by fastforce
  have "\<exists>ws. engine_adds e e1 ws [] \<and> accounts da ta True ws [] r1"
  proof (cases "source = g_myself (ns_graph (en_state e))")
    case True
    then have "r1 = Inr []" "e1 = e" using f by auto
    then show ?thesis using engine_adds_refl [of e] by (intro exI [of _ "[]"]) (simp add: accounts_def)
  next
    case False
    obtain r0 e0 where w: "write_device (recording_device da) q priority e = (r0, e0)" by fastforce
    then have "r1 = map_ok (\<lambda>event. [event]) r0" "e1 = e0" using f False by auto
    then show ?thesis using write_accounts [OF w, of ta True] by blast
  qed
  then obtain ws where 1: "engine_adds e e1 ws []" "accounts da ta True ws [] r1" by blast
  let ?ts = "broadcast_targets (en_state e) source (ec_broadcast (en_config e)) (rc_direct_only (ec_route (en_config e)))"
  have cases: "(r = r1 \<and> e' = e1) \<or> (\<exists>events x. r1 = Inr events \<and> r = Inl (EngPacket x) \<and> e' = e1
      \<and> map_ok (with_priority priority) (vpn_packet_new q) = Inl x)
    \<or> (\<exists>events p. r1 = Inr events \<and> e' = e1\<lparr>en_transport := en_transport e1 @ map (\<lambda>x. (x, x, p)) ?ts\<rparr>
        \<and> r = Inr (events @ (if filter (\<lambda>x. ta x p = Inr ()) ?ts \<noteq> []
                then [EventBroadcast (filter (\<lambda>x. ta x p = Inr ()) ?ts) p] else [])))"
  proof (cases "map_ok (with_priority priority) (vpn_packet_new q)")
    case (Inl x)
    then show ?thesis using assms f unfolding broadcast_packet_def Let_def
      by (cases r1) (auto split: if_splits)
  next
    case (Inr p)
    show ?thesis
    proof (cases r1)
      case (Inl x)
      then show ?thesis using assms f unfolding broadcast_packet_def Let_def by auto
    next
      case r1: (Inr events)
      have "(r, e') = (if ec_broadcast (en_config e) = BroadcastNone
               \<or> source \<noteq> g_myself (ns_graph (en_state e)) \<and> (ec_broadcast (en_config e) = BroadcastDirect \<or> rc_direct_only (ec_route (en_config e)))
             then (r1, e1) else (Inr (events @ (if filter (\<lambda>x. ta x p = Inr ()) ?ts \<noteq> []
                then [EventBroadcast (filter (\<lambda>x. ta x p = Inr ()) ?ts) p] else [])),
               e1\<lparr>en_transport := en_transport e1 @ map (\<lambda>x. (x, x, p)) ?ts\<rparr>))"
        using assms f r1 Inr unfolding broadcast_packet_def Let_def by (simp add: send_all_recorded cong: if_cong)
      then show ?thesis using r1 by (auto split: if_splits)
    qed
  qed
  show ?thesis
    using cases
  proof (elim disjE exE conjE)
    assume "r = r1" "e' = e1"
    with 1 show ?thesis by blast
  next
    fix events x assume "r = Inl (EngPacket x)" "e' = e1" "map_ok (with_priority priority) (vpn_packet_new q) = Inl x"
    with too_large 1 show ?thesis by (intro exI [of _ ws] exI [of _ "[]"]) (simp add: accounts_def)
  next
    fix events p
    let ?ss = "map (\<lambda>x. (x, x, p)) ?ts" and ?sent = "filter (\<lambda>x. ta x p = Inr ()) ?ts"
    assume r: "r1 = Inr events" "e' = e1\<lparr>en_transport := en_transport e1 @ ?ss\<rparr>"
      "r = Inr (events @ (if ?sent \<noteq> [] then [EventBroadcast ?sent p] else []))"
    have add: "engine_adds e1 e' [] ?ss" using r(2) by (simp add: engine_adds_def)
    have acc: "accounts da ta True [] ?ss (Inr (if ?sent \<noteq> [] then [EventBroadcast ?sent p] else []))"
      by (auto simp: accounts_def send_reported_def filter_empty_conv)
    have "accounts da ta True (ws @ []) ([] @ ?ss) r"
      using accounts_then [OF 1(2) [unfolded r(1)] acc] unfolding r(3) map_ok_simps .
    with engine_adds_trans [OF 1(1) add] show ?thesis by blast
  qed
qed

lemma execute_accounts:
  assumes x: "execute_action (recording_device da) (recording_transport ta) source action base e = (r, e')"
  shows "\<exists>ws ss. engine_adds e e' ws ss \<and> accounts da ta (\<exists>q. action = ActBroadcast q) ws ss r"
proof (cases action)
  case (ActSend owner via q prio clamp)
  with x send_accounts show ?thesis by (fastforce simp: execute_action_def)
next
  case (ActSendFragments owner via fs prio)
  with x fragments_account show ?thesis by (fastforce simp: execute_action_def)
next
  case (ActReply target q prio)
  with x send_accounts show ?thesis by (fastforce simp: execute_action_def)
next
  case (ActBroadcast q)
  with x broadcast_accounts show ?thesis by (fastforce simp: execute_action_def)
next
  case (ActDeliverLocal q)
  obtain r0 e0 where w: "write_device (recording_device da) q base e = (r0, e0)" by fastforce
  then have "r = map_ok (\<lambda>event. [event]) r0" "e' = e0" using x ActDeliverLocal by (auto simp: execute_action_def)
  with write_accounts [OF w, of ta False] ActDeliverLocal show ?thesis by auto
next
  case (ActDrop d)
  then show ?thesis using x engine_adds_refl [of e]
    by (intro exI [of _ "[]"]) (auto simp: execute_action_def accounts_def)
qed

lemma execute_router:
  assumes x: "execute_action (recording_device da) (recording_transport ta) source action base e = (r, e')"
    and b: "\<And>q. action \<noteq> ActBroadcast q"
  shows "\<exists>ws ss. engine_adds e e' ws ss
    \<and> (\<forall>(owner, relay, q) \<in> set ss. owner \<noteq> g_myself (ns_graph (en_state e))
        \<and> ((\<exists>via qs prio clamp. (action = ActSend owner via qs prio clamp) \<and> relay = relay_of owner via)
          \<or> (\<exists>via fs prio. action = ActSendFragments owner via fs prio \<and> relay = relay_of owner via)
          \<or> (\<exists>qs prio. action = ActReply owner qs prio) \<and> relay = owner))
    \<and> (ws \<noteq> [] \<longrightarrow> (\<exists>q. action = ActDeliverLocal q)
        \<or> (\<exists>via qs prio clamp. action = ActSend (g_myself (ns_graph (en_state e))) via qs prio clamp)
        \<or> (\<exists>via fs prio. action = ActSendFragments (g_myself (ns_graph (en_state e))) via fs prio)
        \<or> (\<exists>qs prio. action = ActReply (g_myself (ns_graph (en_state e))) qs prio))"
proof (cases action)
  case (ActSend owner via q prio clamp)
  from x ActSend obtain ws ss where "engine_adds e e' ws ss"
    "if owner = g_myself (ns_graph (en_state e)) then set ws \<subseteq> {\<lparr>vp_data = q, vp_priority = or_priority prio base\<rparr>} \<and> ss = []
       else ws = [] \<and> set ss \<subseteq> {to_send owner via (or_priority prio base) q}"
    using send_adds by (fastforce simp: execute_action_def)
  with ActSend show ?thesis by (intro exI [of _ ws] exI [of _ ss]) (auto split: if_splits)
next
  case (ActSendFragments owner via fs prio)
  from x ActSendFragments obtain ws ss where "engine_adds e e' ws ss"
    "if owner = g_myself (ns_graph (en_state e))
       then set ws \<subseteq> (\<lambda>q. \<lparr>vp_data = q, vp_priority = or_priority prio base\<rparr>) ` set fs \<and> ss = []
       else ws = [] \<and> set ss \<subseteq> to_send owner via (or_priority prio base) ` set fs"
    using fragments_add by (fastforce simp: execute_action_def)
  with ActSendFragments show ?thesis by (intro exI [of _ ws] exI [of _ ss]) (auto split: if_splits)
next
  case (ActReply owner q prio)
  from x ActReply obtain ws ss where "engine_adds e e' ws ss"
    "if owner = g_myself (ns_graph (en_state e)) then set ws \<subseteq> {\<lparr>vp_data = q, vp_priority = or_priority prio base\<rparr>} \<and> ss = []
       else ws = [] \<and> set ss \<subseteq> {to_send owner None (or_priority prio base) q}"
    using send_adds by (fastforce simp: execute_action_def)
  with ActReply show ?thesis by (intro exI [of _ ws] exI [of _ ss]) (auto simp: relay_of_def split: if_splits)
next
  case (ActBroadcast q)
  with b [of q] show ?thesis by (rule notE)
next
  case (ActDeliverLocal q)
  obtain r0 e0 where w: "write_device (recording_device da) q base e = (r0, e0)" by fastforce
  then have "e' = e0" using x ActDeliverLocal by (auto simp: execute_action_def)
  with write_accounts [OF w, of ta False] obtain ws where "engine_adds e e' ws []" by blast
  with ActDeliverLocal show ?thesis by (intro exI [of _ ws] exI [of _ "[]"]) simp
next
  case (ActDrop d)
  then have "e' = e" using x by (simp add: execute_action_def)
  then show ?thesis using engine_adds_refl [of e] by (intro exI [of _ "[]"]) simp
qed

lemma routed_execution:
  assumes "route_and_execute D T source p e = (r, e')"
  obtains routed s r0 where "route_packet_action (en_state e) source (vp_data p) (ec_route (en_config e)) = (routed, s)"
    "execute_action D T source (rp_action routed) (vp_priority p) (e\<lparr>en_state := s\<rparr>) = (r0, e')"
    "r = map_ok (\<lambda>events. events @ map LearnedSubnet (ro_learned (rp_outcome routed))) r0"
proof -
  obtain routed s where a: "route_packet_action (en_state e) source (vp_data p) (ec_route (en_config e)) = (routed, s)"
    by fastforce
  obtain r0 e0 where b: "execute_action D T source (rp_action routed) (vp_priority p) (e\<lparr>en_state := s\<rparr>) = (r0, e0)"
    by fastforce
  show ?thesis using that [OF a] assms a b by (simp add: route_and_execute_def)
qed

section \<open>Properties\<close>


definition demo_engine :: recorded where
  "demo_engine = engine_new demo_net [] [] engine_config_default"

definition no_route :: "string \<Rightarrow> vpn_packet \<Rightarrow> transport_error + unit" where
  "no_route target p = Inl (TransportIo \<lparr>io_kind = IoNotFound, io_message = ''no address''\<rparr>)"

definition demo_packet :: vpn_packet where
  "demo_packet = \<lparr>vp_data = demo_udp, vp_priority = 0\<rparr>"


text \<open>
  C36: The engine reports what it did.  In every mode and for every answer of the device and the
  transport: an error names a refused device write, a transport failure that is not deferred, or a
  packet over the size limit; on success every write and every send that the events name happened
  and was answered as reported, every packet written is reported, and every packet handed to the
  transport is reported as sent or deferred --- but for a broadcast, whose event lists just the
  neighbours whose send succeeded.
\<close>

theorem engine_reports:
  fixes e :: recorded
  assumes new: "en_device e = []" "en_transport e = []"
    and x: "route_and_execute (recording_device da) (recording_transport ta) source p e = (r, e')"
  shows "accounts da ta
    (\<exists>q. rp_action (fst (route_packet_action (en_state e) source (vp_data p) (ec_route (en_config e)))) = ActBroadcast q)
    (en_device e') (en_transport e') r"
proof -
  obtain routed s r0 where
    a: "route_packet_action (en_state e) source (vp_data p) (ec_route (en_config e)) = (routed, s)"
    and y: "execute_action (recording_device da) (recording_transport ta) source (rp_action routed) (vp_priority p)
      (e\<lparr>en_state := s\<rparr>) = (r0, e')"
    and r: "r = map_ok (\<lambda>events. events @ map LearnedSubnet (ro_learned (rp_outcome routed))) r0"
    by (rule routed_execution [OF x])
  from execute_accounts [OF y] obtain ws ss where add: "engine_adds (e\<lparr>en_state := s\<rparr>) e' ws ss"
    and acc: "accounts da ta (\<exists>q. rp_action routed = ActBroadcast q) ws ss r0" by blast
  have w: "en_device e' = ws" "en_transport e' = ss" using engine_adds_fields [OF add] new by auto
  have l: "accounts da ta b [] [] (Inr (map LearnedSubnet xs))" for b xs by (auto simp: accounts_def)
  have "accounts da ta b ws ss (map_ok (\<lambda>events. events @ map LearnedSubnet xs) r0)" if "accounts da ta b ws ss r0" for b xs
    using accounts_then [OF _ l [of b xs], of ws ss] that by (cases r0) (auto simp: accounts_def)
  with acc show ?thesis by (simp add: w a r)
qed

theorem engine_reports_witness:
  "accounts (\<lambda>_. Inr ()) no_route
    (\<exists>q. rp_action (fst (route_packet_action demo_net ''a'' demo_udp route_config_default)) = ActBroadcast q)
    (en_device (snd (route_and_execute (recording_device (\<lambda>_. Inr ()))
       (recording_transport no_route) ''a'' demo_packet demo_engine)))
    (en_transport (snd (route_and_execute (recording_device (\<lambda>_. Inr ()))
       (recording_transport no_route) ''a'' demo_packet demo_engine)))
    (fst (route_and_execute (recording_device (\<lambda>_. Inr ()))
       (recording_transport no_route) ''a'' demo_packet demo_engine))"
proof -
  have e: "en_state demo_engine = demo_net" "en_config demo_engine = engine_config_default"
    "en_device demo_engine = []" "en_transport demo_engine = []" "vp_data demo_packet = demo_udp"
    by (simp_all add: demo_engine_def engine_new_def demo_packet_def)
  have c: "ec_route engine_config_default = route_config_default" by (simp add: engine_config_default_def)
  show ?thesis
    using engine_reports [OF e(3,4) prod.collapse [symmetric], where source = "''a''" and p = demo_packet]
    unfolding e c .
qed

end
