(* ===== verification/Meta_Auth.thy ===== *)
theory Meta_Auth
  imports Sptps_Handshake Net_State
    "HOL-Library.Stream"
begin

text \<open>
  \<^verbatim>\<open>tinc-runtime/src/meta.rs\<close>, the authentication of a meta connection: the state machine
  from the first ID line over the SPTPS handshake to the acknowledgement that activates the
  connection.  The random draws its handshakes will make are a stream in the state, one element per
  operation that may draw.
\<close>

section \<open>State and events\<close>

datatype meta_auth_state = ExpectId | AuthHandshake | ExpectAck | Activated

fun expected_request :: "meta_auth_state \<Rightarrow> request option" where
  "expected_request ExpectId = Some ReqId"
| "expected_request AuthHandshake = Some ReqSptpsPacket"
| "expected_request ExpectAck = Some ReqAck"
| "expected_request Activated = None"

record meta_auth =
  ma_myself :: string
  ma_peer :: "string option"
  ma_outgoing :: bool
  ma_private_key :: ed25519_private_key
  ma_peer_key :: ed25519_public_key
  ma_local_port :: string
  ma_local_weight :: int
  ma_local_options :: u32
  ma_session :: "handshake_session option"
  ma_state :: meta_auth_state
  ma_bypass_security :: bool
  ma_random :: "random_draws stream"

datatype meta_auth_event =
    SptpsHandshakeComplete string
  | AuthActivated string string int u32
  | LegacyEd25519Upgrade string string
  | AuthApplicationRecord byte "byte list"

record meta_auth_step =
  as_outbound :: "meta_message list"
  as_raw_outbound :: "byte list list"
  as_events :: "meta_auth_event list"

definition auth_step_default :: meta_auth_step where
  "auth_step_default = \<lparr>as_outbound = [], as_raw_outbound = [], as_events = []\<rparr>"

datatype meta_auth_error =
    InvalidPeerName string
  | SelfConnection string
  | IncompatibleProtocol int int
  | UnsupportedLegacyProtocol int
  | UnexpectedMessage "request option" request
  | UnexpectedRawRecord meta_auth_state
  | UnexpectedAckShape
  | AuthMissingPeer
  | AuthMissingSession
  | AuthSptps sptps_error

type_synonym 'a auth_op = "meta_auth \<Rightarrow> (meta_auth_error + 'a) \<times> meta_auth"

definition meta_auth_new :: "string \<Rightarrow> bool \<Rightarrow> ed25519_private_key \<Rightarrow> ed25519_public_key \<Rightarrow> string
    \<Rightarrow> int \<Rightarrow> u32 \<Rightarrow> random_draws stream \<Rightarrow> meta_auth" where
  "meta_auth_new myself outgoing private_key peer_key local_port local_weight local_options random =
     \<lparr>ma_myself = myself, ma_peer = None, ma_outgoing = outgoing, ma_private_key = private_key,
      ma_peer_key = peer_key, ma_local_port = local_port, ma_local_weight = local_weight,
      ma_local_options = local_options, ma_session = None, ma_state = ExpectId,
      ma_bypass_security = False, ma_random = random\<rparr>"

definition with_bypass_security :: "bool \<Rightarrow> meta_auth \<Rightarrow> meta_auth" where
  "with_bypass_security b a = a\<lparr>ma_bypass_security := b\<rparr>"

definition sptps_in_encrypted :: "meta_auth \<Rightarrow> bool" where
  "sptps_in_encrypted a =
     (case ma_session a of None \<Rightarrow> False | Some s \<Rightarrow> codec_in_key (hs_codec s) \<noteq> None)"

definition PROT_MAJOR :: int where "PROT_MAJOR = 17"
definition PROT_MINOR :: int where "PROT_MINOR = 7"

definition local_id_message :: "meta_auth \<Rightarrow> meta_message" where
  "local_id_message a =
     MsgId \<lparr>id_name = ma_myself a, id_protocol_major = PROT_MAJOR,
       id_protocol_minor = Some (if ma_bypass_security a then 0 else PROT_MINOR)\<rparr>"

definition uses_plaintext_meta :: "meta_auth \<Rightarrow> bool" where
  "uses_plaintext_meta a \<longleftrightarrow> ma_bypass_security a \<and> (ma_state a = ExpectAck \<or> ma_state a = Activated)"

definition ack_message :: "meta_auth \<Rightarrow> meta_message" where
  "ack_message a = MsgAck (AckConnection (ma_local_port a) (ma_local_weight a) (ma_local_options a))"

section \<open>Negotiation\<close>

definition sptps_tcp_label :: "string \<Rightarrow> string \<Rightarrow> byte list" where
  "sptps_tcp_label initiator responder =
     map of_char (''tinc TCP key expansion '' @ initiator @ '' '' @ responder) @ [0]"

text \<open>Path MTU discovery is kept when both sides want it, the other options when one does.\<close>

definition negotiated_options :: "u32 \<Rightarrow> u32 \<Rightarrow> u32" where
  "negotiated_options local_options remote_options =
     (if local_options AND remote_options AND OPTION_PMTU_DISCOVERY = 0
      then (local_options AND NOT OPTION_PMTU_DISCOVERY) OR (remote_options AND NOT OPTION_PMTU_DISCOVERY)
      else local_options OR remote_options)"

text \<open>The sum of the weights wraps, the division rounds toward zero.\<close>

definition negotiated_weight :: "int \<Rightarrow> int \<Rightarrow> int" where
  "negotiated_weight local_weight remote_weight =
     (let w = i32_wrap (local_weight + remote_weight) in if w < 0 then - (- w div 2) else w div 2)"

definition validate_peer_id :: "string \<Rightarrow> id_message \<Rightarrow> meta_auth_error + unit" where
  "validate_peer_id myself m =
     (if \<not> check_id (id_name m) then Inl (InvalidPeerName (id_name m))
      else if id_name m = myself then Inl (SelfConnection (id_name m)) else Inr ())"

section \<open>Messages and records in\<close>

definition receive_id :: "('p, 's) sptps_crypto \<Rightarrow> id_message \<Rightarrow> meta_auth_step auth_op" where
  "receive_id C m a =
     (if ma_state a \<noteq> ExpectId then (Inl (UnexpectedMessage (expected_request (ma_state a)) ReqId), a)
      else case validate_peer_id (ma_myself a) m of
        Inl e \<Rightarrow> (Inl e, a)
      | Inr _ \<Rightarrow>
        if id_protocol_major m \<noteq> PROT_MAJOR
        then (Inl (IncompatibleProtocol PROT_MAJOR (id_protocol_major m)), a)
        else
          let a = a\<lparr>ma_peer := Some (id_name m)\<rparr>
          in if ma_bypass_security a
             then let a = a\<lparr>ma_state := ExpectAck\<rparr>
                  in (Inr (auth_step_default\<lparr>as_outbound := [ack_message a]\<rparr>), a)
             else
               let minor = (case id_protocol_minor m of Some n \<Rightarrow> n | None \<Rightarrow> 0)
               in if minor < 2 then (Inl (UnsupportedLegacyProtocol minor), a)
                  else
                    let label = (if ma_outgoing a then sptps_tcp_label (ma_myself a) (id_name m)
                                 else sptps_tcp_label (id_name m) (ma_myself a));
                        draws = shd (ma_random a); a = a\<lparr>ma_random := stl (ma_random a)\<rparr>
                    in (case start_tcp C draws (ma_outgoing a) (ma_private_key a) (ma_peer_key a) label of
                          Inl e \<Rightarrow> (Inl (AuthSptps e), a)
                        | Inr session \<Rightarrow>
                            let (raw, session) = drain_outbound session
                            in (Inr (auth_step_default\<lparr>as_raw_outbound := raw\<rparr>),
                                a\<lparr>ma_session := Some session, ma_state := AuthHandshake\<rparr>)))"

definition receive_auth_ack :: "ack_message \<Rightarrow> meta_auth_step auth_op" where
  "receive_auth_ack m a =
     (if ma_state a \<noteq> ExpectAck then (Inl (UnexpectedMessage (expected_request (ma_state a)) ReqAck), a)
      else case m of
        AckConnection port weight options \<Rightarrow>
          (case ma_peer a of
             None \<Rightarrow> (Inl AuthMissingPeer, a)
           | Some peer \<Rightarrow>
               (Inr (auth_step_default\<lparr>as_events := [AuthActivated peer port
                       (negotiated_weight (ma_local_weight a) weight)
                       (negotiated_options (ma_local_options a) options)]\<rparr>),
                a\<lparr>ma_state := Activated\<rparr>))
      | _ \<Rightarrow> (Inl UnexpectedAckShape, a))"

definition receive_auth_message :: "('p, 's) sptps_crypto \<Rightarrow> meta_message \<Rightarrow> meta_auth_step auth_op" where
  "receive_auth_message C message a =
     (case message of
        MsgId m \<Rightarrow> receive_id C m a
      | MsgAck m \<Rightarrow> receive_auth_ack m a
      | _ \<Rightarrow> (Inl (UnexpectedMessage (expected_request (ma_state a)) (message_request message)), a))"

fun auth_record_event :: "handshake_event \<Rightarrow> meta_auth_event list" where
  "auth_record_event HandshakeComplete = []"
| "auth_record_event (ApplicationRecord t payload) = [AuthApplicationRecord t payload]"

text \<open>
  One SPTPS record.  A failed record leaves the session as it was changed before the error; the
  first completed handshake sends the acknowledgement.
\<close>

definition receive_sptps_record :: "('p, 's::comm_ring_1) sptps_crypto \<Rightarrow> byte list \<Rightarrow> meta_auth_step auth_op" where
  "receive_sptps_record C record a =
     (if ma_state a = ExpectId then (Inl (UnexpectedRawRecord (ma_state a)), a)
      else case ma_peer a of None \<Rightarrow> (Inl AuthMissingPeer, a) | Some peer \<Rightarrow>
      (case ma_session a of None \<Rightarrow> (Inl AuthMissingSession, a) | Some session \<Rightarrow>
       let draws = shd (ma_random a); a = a\<lparr>ma_random := stl (ma_random a)\<rparr>
       in (case receive_datagram C draws record session of
             (Inl e, session) \<Rightarrow> (Inl (AuthSptps e), a\<lparr>ma_session := Some session\<rparr>)
           | (Inr events, session) \<Rightarrow>
               let (raw, session) = drain_outbound session;
                   a = a\<lparr>ma_session := Some session\<rparr>;
                   completed = HandshakeComplete \<in> set events;
                   first = (completed \<and> ma_state a = AuthHandshake)
               in (Inr \<lparr>as_outbound = (if first then [ack_message a] else []), as_raw_outbound = raw,
                       as_events = (if completed then [SptpsHandshakeComplete peer] else [])
                         @ concat (map auth_record_event events)\<rparr>,
                   if first then a\<lparr>ma_state := ExpectAck\<rparr> else a))))"

section \<open>Sending\<close>

definition SPTPS_META_RECORD :: byte where "SPTPS_META_RECORD = 0"

definition encode_meta_line :: "meta_message \<Rightarrow> byte list" where
  "encode_meta_line m = map of_char (show_meta_message m) @ [10]"

definition send_sptps_application :: "('p, 's) sptps_crypto \<Rightarrow> byte list \<Rightarrow> byte list auth_op" where
  "send_sptps_application C payload a =
     (case ma_session a of
        None \<Rightarrow> (Inl AuthMissingSession, a)
      | Some session \<Rightarrow>
          (case send_record C SPTPS_META_RECORD payload session of
             (r, session) \<Rightarrow> (map_err AuthSptps r, a\<lparr>ma_session := Some session\<rparr>)))"

definition send_sptps_meta_message :: "('p, 's) sptps_crypto \<Rightarrow> meta_message \<Rightarrow> byte list auth_op" where
  "send_sptps_meta_message C m a = send_sptps_application C (encode_meta_line m) a"

section \<open>The edge of an activated connection\<close>

record meta_edge =
  me_peer :: string
  me_address :: string
  me_port :: string
  me_local :: "edge_address option"
  me_weight :: int
  me_options :: u32
  me_nonce :: u32

fun edge_of_activated :: "meta_auth_event \<Rightarrow> string \<Rightarrow> edge_address option \<Rightarrow> u32 \<Rightarrow> meta_edge option" where
  "edge_of_activated (AuthActivated peer port weight options) address loc nonce =
     Some \<lparr>me_peer = peer, me_address = address, me_port = port, me_local = loc,
       me_weight = weight, me_options = options, me_nonce = nonce\<rparr>"
| "edge_of_activated _ _ _ _ = None"

definition meta_add_edge :: "string \<Rightarrow> meta_edge \<Rightarrow> add_edge_message" where
  "meta_add_edge myself e =
     \<lparr>ae_nonce = me_nonce e,
      ae_edge = (edge_new myself (me_peer e) (me_weight e))\<lparr>e_options := me_options e\<rparr>,
      ae_address = me_address e, ae_port = me_port e, ae_local = me_local e\<rparr>"

definition meta_edge_apply where
  "meta_edge_apply H e s = apply_meta_message_at H (MsgAddEdge (meta_add_edge (g_myself (ns_graph s)) e)) 0 s"

end
