(* ===== verification/Meta_Stream.thy ===== *)
theory Meta_Stream
  imports Meta_Auth Datagram_Transport
begin

text \<open>
  \<^verbatim>\<open>tinc-runtime/src/meta.rs\<close>, the stream decoder of a meta connection: bytes arrive in
  pieces of any size and leave as lines, SPTPS records and packet bodies.
\<close>

section \<open>UTF-8\<close>

text \<open>\<^verbatim>\<open>String::from_utf8\<close>: the well-formed byte sequences of the Unicode standard.\<close>

definition utf8_cont :: "byte \<Rightarrow> bool" where
  "utf8_cont b \<longleftrightarrow> 0x80 \<le> b \<and> b \<le> 0xBF"

definition utf8_second :: "byte \<Rightarrow> byte \<Rightarrow> bool" where
  "utf8_second b c \<longleftrightarrow>
     (if b = 0xE0 then 0xA0 else if b = 0xF0 then 0x90 else 0x80) \<le> c
     \<and> c \<le> (if b = 0xED then 0x9F else if b = 0xF4 then 0x8F else 0xBF)"

fun valid_utf8 :: "byte list \<Rightarrow> bool" where
  "valid_utf8 [] \<longleftrightarrow> True"
| "valid_utf8 (b # bs) \<longleftrightarrow>
     (if b < 0x80 then valid_utf8 bs
      else if 0xC2 \<le> b \<and> b \<le> 0xDF then
        (case bs of c # cs \<Rightarrow> utf8_cont c \<and> valid_utf8 cs | _ \<Rightarrow> False)
      else if 0xE0 \<le> b \<and> b \<le> 0xEF then
        (case bs of c # d # ds \<Rightarrow> utf8_second b c \<and> utf8_cont d \<and> valid_utf8 ds | _ \<Rightarrow> False)
      else if 0xF0 \<le> b \<and> b \<le> 0xF4 then
        (case bs of c # d # e # es \<Rightarrow> utf8_second b c \<and> utf8_cont d \<and> utf8_cont e \<and> valid_utf8 es
         | _ \<Rightarrow> False)
      else False)"

section \<open>The decoder\<close>

definition MAX_META_BUFFER_SIZE :: nat where
  "MAX_META_BUFFER_SIZE = (if MAX_DATAGRAM_SIZE > 2048 then MAX_DATAGRAM_SIZE + 128 else 2048 + 128)"

definition MAX_SPTPS_TCP_RECORD_BUFFER_SIZE :: nat where
  "MAX_SPTPS_TCP_RECORD_BUFFER_SIZE = 65535 + SPTPS_TCP_AUTH_OVERHEAD"

datatype meta_body_kind = BodyTcpPacket | BodySptpsPacket

record meta_body_request =
  mb_kind :: meta_body_kind
  mb_length :: nat

datatype meta_stream_frame = FrameLine string | FrameSptpsRecord "byte list" | FrameBody meta_body_kind "byte list"

datatype meta_stream_error = InvalidUtf8 | InputBufferFull nat nat

record meta_decoder =
  ms_buffer :: "byte list"
  ms_pending_body :: "meta_body_request option"

definition meta_decoder_new :: meta_decoder where
  "meta_decoder_new = \<lparr>ms_buffer = [], ms_pending_body = None\<rparr>"

definition push_limited :: "byte list \<Rightarrow> nat \<Rightarrow> meta_decoder \<Rightarrow> meta_stream_error + meta_decoder" where
  "push_limited data maximum d =
     (let next_len = length (ms_buffer d) + length data
      in if maximum < next_len then Inl (InputBufferFull maximum next_len)
         else Inr (d\<lparr>ms_buffer := ms_buffer d @ data\<rparr>))"

definition decoder_push :: "byte list \<Rightarrow> meta_decoder \<Rightarrow> meta_stream_error + meta_decoder" where
  "decoder_push data d = push_limited data MAX_META_BUFFER_SIZE d"

definition expect_body :: "meta_body_kind \<Rightarrow> nat \<Rightarrow> meta_decoder \<Rightarrow> meta_decoder" where
  "expect_body kind len d = d\<lparr>ms_pending_body := Some \<lparr>mb_kind = kind, mb_length = len\<rparr>\<rparr>"

definition observe_meta_message :: "meta_message \<Rightarrow> meta_decoder \<Rightarrow> meta_decoder" where
  "observe_meta_message m d =
     (case m of
        MsgTcpPacket len \<Rightarrow> expect_body BodyTcpPacket len d
      | MsgSptpsTcpPacket len \<Rightarrow> expect_body BodySptpsPacket len d
      | _ \<Rightarrow> d)"

text \<open>A line loses its line feed and a carriage return before it.\<close>

definition pop_byte :: "byte \<Rightarrow> byte list \<Rightarrow> byte list" where
  "pop_byte b line = (if line \<noteq> [] \<and> last line = b then butlast line else line)"

definition decode_meta_line :: "byte list \<Rightarrow> meta_stream_error + string" where
  "decode_meta_line line =
     (let line = pop_byte 13 (pop_byte 10 line)
      in if valid_utf8 line then Inr (map (char_of \<circ> unat) line) else Inl InvalidUtf8)"

definition next_body_frame :: "meta_decoder \<Rightarrow> (meta_stream_frame \<times> meta_decoder) option" where
  "next_body_frame d =
     (case ms_pending_body d of
        None \<Rightarrow> None
      | Some pending \<Rightarrow>
          if length (ms_buffer d) < mb_length pending then None
          else Some (FrameBody (mb_kind pending) (take (mb_length pending) (ms_buffer d)),
                 d\<lparr>ms_buffer := drop (mb_length pending) (ms_buffer d), ms_pending_body := None\<rparr>))"

text \<open>
  A line that is not UTF-8 is already taken from the buffer.  A body that is awaited but not
  complete does not stop the next line from being taken.
\<close>

definition next_plaintext_frame :: "meta_decoder \<Rightarrow> (meta_stream_error + meta_stream_frame option) \<times> meta_decoder" where
  "next_plaintext_frame d =
     (case next_body_frame d of
        Some (f, d) \<Rightarrow> (Inr (Some f), d)
      | None \<Rightarrow>
          if 10 \<in> set (ms_buffer d)
          then let n = length (takeWhile (\<lambda>b. b \<noteq> 10) (ms_buffer d)) + 1
               in (map_ok (\<lambda>l. Some (FrameLine l)) (decode_meta_line (take n (ms_buffer d))),
                   d\<lparr>ms_buffer := drop n (ms_buffer d)\<rparr>)
          else (Inr None, d))"

definition expected_sptps_frame_len :: "bool \<Rightarrow> meta_decoder \<Rightarrow> nat option" where
  "expected_sptps_frame_len encrypted d =
     (if length (ms_buffer d) < 2 then None
      else Some (unat (be16 (ms_buffer d ! 0) (ms_buffer d ! 1))
        + (if encrypted then SPTPS_TCP_AUTH_OVERHEAD else SPTPS_TCP_HEADER_LEN)))"

definition next_sptps_frame :: "bool \<Rightarrow> meta_decoder \<Rightarrow> meta_stream_frame option \<times> meta_decoder" where
  "next_sptps_frame encrypted d =
     (case next_body_frame d of
        Some (f, d) \<Rightarrow> (Some f, d)
      | None \<Rightarrow>
          (case expected_sptps_frame_len encrypted d of
             None \<Rightarrow> (None, d)
           | Some n \<Rightarrow>
               if length (ms_buffer d) < n then (None, d)
               else (Some (FrameSptpsRecord (take n (ms_buffer d))), d\<lparr>ms_buffer := drop n (ms_buffer d)\<rparr>)))"

end
