(* ===== verification/Meta_Driver.thy ===== *)
theory Meta_Driver
  imports Meta_Stream
begin

text \<open>
  \<^verbatim>\<open>tinc-runtime/src/meta.rs\<close>, the driver of a meta connection: bytes in, the frames of the
  stream decoder, the authentication state machine, events and bytes out.  A step is what an
  operation adds; an operation that fails loses its step and keeps the driver as it was changed.
\<close>

section \<open>State\<close>

datatype meta_connection_event =
    EvMessage meta_message
  | EvAuth meta_auth_event
  | EvApplicationRecord byte "byte list"
  | EvTcpPacket "byte list"
  | EvSptpsPacket "byte list"

record connection_step =
  cs_outbound :: "byte list list"
  cs_events :: "meta_connection_event list"

datatype meta_connection_error =
    ConnStream meta_stream_error
  | ConnParse meta_error
  | ConnAuth meta_auth_error
  | NotActivated meta_auth_state
  | MetaPacketTooLarge nat nat
  | PacketLengthMismatch nat nat

record meta_driver =
  md_auth :: meta_auth
  md_decoder :: meta_decoder
  md_pending_tcp :: "nat option"

type_synonym 'a driver_op = "meta_driver \<Rightarrow> (meta_connection_error + 'a) \<times> meta_driver"

definition meta_driver_new :: "meta_auth \<Rightarrow> meta_driver" where
  "meta_driver_new a = \<lparr>md_auth = a, md_decoder = meta_decoder_new, md_pending_tcp = None\<rparr>"

definition initial_id_bytes :: "meta_driver \<Rightarrow> byte list" where
  "initial_id_bytes d = encode_meta_line (local_id_message (md_auth d))"

definition event_step :: "meta_connection_event \<Rightarrow> connection_step" where
  "event_step e = \<lparr>cs_outbound = [], cs_events = [e]\<rparr>"

definition no_step :: connection_step where
  "no_step = \<lparr>cs_outbound = [], cs_events = []\<rparr>"

definition add_step :: "connection_step \<Rightarrow> connection_step \<Rightarrow> connection_step" where
  "add_step s t = \<lparr>cs_outbound = cs_outbound s @ cs_outbound t, cs_events = cs_events s @ cs_events t\<rparr>"

text \<open>An operation of the authentication on the driver.\<close>

definition on_auth :: "'a auth_op \<Rightarrow> 'a driver_op" where
  "on_auth f d = (case f (md_auth d) of (r, a) \<Rightarrow> (map_err ConnAuth r, d\<lparr>md_auth := a\<rparr>))"

section \<open>Sending\<close>

definition send_meta_message :: "('p, 's) sptps_crypto \<Rightarrow> meta_message \<Rightarrow> byte list driver_op" where
  "send_meta_message C m d =
     (if message_request m = ReqId \<or> uses_plaintext_meta (md_auth d) then (Inr (encode_meta_line m), d)
      else on_auth (send_sptps_meta_message C m) d)"

definition ensure_activated :: "meta_driver \<Rightarrow> meta_connection_error + unit" where
  "ensure_activated d =
     (if ma_state (md_auth d) = Activated then Inr () else Inl (NotActivated (ma_state (md_auth d))))"

definition checked_tcp_packet_length :: "nat \<Rightarrow> meta_connection_error + nat" where
  "checked_tcp_packet_length n = (if 32767 < n then Inl (MetaPacketTooLarge 32767 n) else Inr n)"

definition send_tcp_packet :: "('p, 's) sptps_crypto \<Rightarrow> byte list \<Rightarrow> byte list list driver_op" where
  "send_tcp_packet C packet d =
     (case and_then (ensure_activated d) (\<lambda>_. checked_tcp_packet_length (length packet)) of
        Inl e \<Rightarrow> (Inl e, d)
      | Inr n \<Rightarrow>
          (case send_meta_message C (MsgTcpPacket n) d of
             (Inl e, d) \<Rightarrow> (Inl e, d)
           | (Inr header, d) \<Rightarrow>
               if uses_plaintext_meta (md_auth d) then (Inr [header, packet], d)
               else map_prod (map_ok (\<lambda>body. [header, body])) id (on_auth (send_sptps_application C packet) d)))"

definition send_sptps_packet :: "('p, 's) sptps_crypto \<Rightarrow> byte list \<Rightarrow> byte list list driver_op" where
  "send_sptps_packet C packet d =
     (case and_then (ensure_activated d) (\<lambda>_. checked_tcp_packet_length (length packet)) of
        Inl e \<Rightarrow> (Inl e, d)
      | Inr n \<Rightarrow>
          map_prod (map_ok (\<lambda>header. [header, packet])) id (send_meta_message C (MsgSptpsTcpPacket n) d))"

text \<open>The messages an authentication step sends, plain once the security is bypassed.\<close>

fun send_auth_messages :: "('p, 's) sptps_crypto \<Rightarrow> meta_message list \<Rightarrow> byte list list driver_op" where
  "send_auth_messages C [] d = (Inr [], d)"
| "send_auth_messages C (m # ms) d =
     (case (if uses_plaintext_meta (md_auth d) then (Inr (encode_meta_line m), d)
            else on_auth (send_sptps_meta_message C m) d) of
        (Inl e, d) \<Rightarrow> (Inl e, d)
      | (Inr bytes, d) \<Rightarrow> map_prod (map_ok (\<lambda>rest. bytes # rest)) id (send_auth_messages C ms d))"

section \<open>Frames in\<close>

datatype meta_line_source = LinePlaintext | LineSptpsApplication

text \<open>Once activated, a message may announce a packet that follows it.\<close>

definition observe_line :: "meta_line_source \<Rightarrow> meta_message \<Rightarrow> meta_driver \<Rightarrow> meta_driver" where
  "observe_line source m d =
     (case source of
        LinePlaintext \<Rightarrow> d\<lparr>md_decoder := observe_meta_message m (md_decoder d)\<rparr>
      | LineSptpsApplication \<Rightarrow>
          (case m of
             MsgTcpPacket n \<Rightarrow> d\<lparr>md_pending_tcp := Some n\<rparr>
           | MsgSptpsTcpPacket n \<Rightarrow> d\<lparr>md_decoder := expect_body BodySptpsPacket n (md_decoder d)\<rparr>
           | _ \<Rightarrow> d))"

definition is_record_event :: "meta_auth_event \<Rightarrow> bool" where
  "is_record_event e \<longleftrightarrow> (case e of AuthApplicationRecord _ _ \<Rightarrow> True | _ \<Rightarrow> False)"

lemma auth_message_no_records:
  assumes "receive_auth_message C m a = (Inr st, a')"
  shows "filter is_record_event (as_events st) = []"
  using assms
  by (auto simp: receive_auth_message_def receive_id_def receive_auth_ack_def auth_step_default_def
      is_record_event_def Let_def drain_outbound_def split: meta_message.splits if_splits sum.splits ack_message.splits
      option.splits)

function handle_meta_line :: "('p, 's::comm_ring_1) sptps_crypto \<Rightarrow> string \<Rightarrow> meta_line_source \<Rightarrow> connection_step driver_op"
  and apply_auth_step :: "('p, 's) sptps_crypto \<Rightarrow> meta_auth_step \<Rightarrow> connection_step driver_op"
  and apply_auth_events :: "('p, 's) sptps_crypto \<Rightarrow> meta_auth_event list \<Rightarrow> connection_step driver_op"
  and handle_sptps_application :: "('p, 's) sptps_crypto \<Rightarrow> byte \<Rightarrow> byte list \<Rightarrow> connection_step driver_op"
where
  "handle_meta_line C line source d =
     (case parse_meta_message line of
        Inl e \<Rightarrow> (Inl (ConnParse e), d)
      | Inr m \<Rightarrow>
          if ma_state (md_auth d) \<noteq> Activated then
            (case receive_auth_message C m (md_auth d) of
               (Inl e, a) \<Rightarrow> (Inl (ConnAuth e), d\<lparr>md_auth := a\<rparr>)
             | (Inr st, a) \<Rightarrow>
                 (case apply_auth_step C st (d\<lparr>md_auth := a\<rparr>) of
                    (r, d) \<Rightarrow> (map_ok (add_step (event_step (EvMessage m))) r, d)))
          else (Inr (event_step (EvMessage m)), observe_line source m d))"
| "apply_auth_step C st d =
     (case send_auth_messages C (as_outbound st) d of
        (Inl e, d) \<Rightarrow> (Inl e, d)
      | (Inr sent, d) \<Rightarrow>
          (case apply_auth_events C (as_events st) d of
             (r, d) \<Rightarrow> (map_ok (add_step \<lparr>cs_outbound = as_raw_outbound st @ sent, cs_events = []\<rparr>) r, d)))"
| "apply_auth_events C [] d = (Inr no_step, d)"
| "apply_auth_events C (ev # evs) d =
     (case (case ev of
              AuthApplicationRecord t payload \<Rightarrow> handle_sptps_application C t payload d
            | _ \<Rightarrow> (Inr (event_step (EvAuth ev)), d)) of
        (Inl e, d) \<Rightarrow> (Inl e, d)
      | (Inr s, d) \<Rightarrow> (case apply_auth_events C evs d of (r, d) \<Rightarrow> (map_ok (add_step s) r, d)))"
| "handle_sptps_application C t payload d =
     (if t \<noteq> SPTPS_META_RECORD then (Inr (event_step (EvApplicationRecord t payload)), d)
      else case md_pending_tcp d of
        Some expected \<Rightarrow>
          let d = d\<lparr>md_pending_tcp := None\<rparr>
          in if length payload \<noteq> expected then (Inl (PacketLengthMismatch expected (length payload)), d)
             else (Inr (event_step (EvTcpPacket payload)), d)
      | None \<Rightarrow>
          (case decode_meta_line payload of
             Inl e \<Rightarrow> (Inl (ConnStream e), d)
           | Inr line \<Rightarrow> handle_meta_line C line LineSptpsApplication d))"
  by pat_completeness auto

termination
proof (relation "measures [
    \<lambda>x. case x of
       Inl (Inl _) \<Rightarrow> 2
     | Inl (Inr (C, st, d)) \<Rightarrow> 4 * length (filter is_record_event (as_events st)) + 1
     | Inr (Inl (C, evs, d)) \<Rightarrow> 4 * length (filter is_record_event evs)
     | Inr (Inr _) \<Rightarrow> 3,
    \<lambda>x. case x of Inr (Inl (C, evs, d)) \<Rightarrow> length evs | _ \<Rightarrow> 0]", goal_cases)
  case 1
  then show ?case by simp
next
  case 2
  then show ?case using auth_message_no_records [OF sym] by simp
qed (auto simp: is_record_event_def)

lemmas driver_handlers = handle_meta_line.simps apply_auth_step.simps apply_auth_events.simps
  handle_sptps_application.simps

declare handle_meta_line.simps [simp del] apply_auth_step.simps [simp del] apply_auth_events.simps [simp del]
  handle_sptps_application.simps [simp del]

definition handle_frame :: "('p, 's::comm_ring_1) sptps_crypto \<Rightarrow> meta_stream_frame \<Rightarrow> connection_step driver_op" where
  "handle_frame C frame d =
     (case frame of
        FrameLine line \<Rightarrow> handle_meta_line C line LinePlaintext d
      | FrameSptpsRecord record \<Rightarrow>
          (case on_auth (receive_sptps_record C record) d of
             (Inl e, d) \<Rightarrow> (Inl e, d)
           | (Inr st, d) \<Rightarrow> apply_auth_step C st d)
      | FrameBody BodyTcpPacket data \<Rightarrow> (Inr (event_step (EvTcpPacket data)), d)
      | FrameBody BodySptpsPacket data \<Rightarrow> (Inr (event_step (EvSptpsPacket data)), d))"

definition reads_lines :: "meta_driver \<Rightarrow> bool" where
  "reads_lines d \<longleftrightarrow> ma_state (md_auth d) = ExpectId \<or> uses_plaintext_meta (md_auth d)"

definition next_frame :: "meta_driver \<Rightarrow> (meta_connection_error + meta_stream_frame option) \<times> meta_driver" where
  "next_frame d =
     (case (if reads_lines d then next_plaintext_frame (md_decoder d)
            else map_prod Inr id (next_sptps_frame (sptps_in_encrypted (md_auth d)) (md_decoder d))) of
        (r, dec) \<Rightarrow> (map_err ConnStream r, d\<lparr>md_decoder := dec\<rparr>))"

section \<open>A rule for the handlers\<close>

lemma add_no_step [simp]: "add_step no_step s = s" "add_step s no_step = s"
  by (simp_all add: add_step_def no_step_def)

lemma add_step_assoc: "add_step (add_step s t) u = add_step s (add_step t u)"
  by (simp add: add_step_def)

lemma map_ok_add_step [simp]: "map_ok (add_step no_step) r = r"
  "map_ok (add_step s) (map_ok (add_step t) r) = map_ok (add_step (add_step s t)) r"
  by (cases r; simp add: add_step_assoc)+

text \<open>
  What a handler does from a driver \<open>d\<close>, \<open>Q d (r, d')\<close>, follows from what the operations on the
  authentication and the announcements of packets do.
\<close>

locale driver_rule =
  fixes C :: "('p, 's::comm_ring_1) sptps_crypto"
    and Q :: "meta_driver \<Rightarrow> (meta_connection_error + connection_step) \<times> meta_driver \<Rightarrow> bool"
  assumes quiet_return: "\<forall>m. EvMessage m \<notin> set (cs_events s) \<Longrightarrow> Q d (Inr s, d)"
    and failed: "Q d (Inr no_step, d') \<Longrightarrow> Q d (Inl e, d')"
    and composed: "Q d (Inr s, d') \<Longrightarrow> Q d' (r, d'') \<Longrightarrow> Q d (map_ok (add_step s) r, d'')"
    and auth_message: "parse_meta_message line = Inr m \<Longrightarrow> receive_auth_message C m (md_auth d) = (ra, a)
      \<Longrightarrow> ma_state (md_auth d) \<noteq> Activated \<Longrightarrow> Q d (Inr no_step, d\<lparr>md_auth := a\<rparr>)
        \<and> (\<forall>st. ra = Inr st \<longrightarrow> Q d (Inr (event_step (EvMessage m)), d\<lparr>md_auth := a\<rparr>))"
    and auth_record: "receive_sptps_record C rec (md_auth d) = (rr, a) \<Longrightarrow> Q d (Inr no_step, d\<lparr>md_auth := a\<rparr>)"
    and auth_send: "on_auth (send_sptps_meta_message C m) d = (rs, d') \<Longrightarrow> Q d (Inr no_step, d')"
    and packet_taken: "Q d (Inr no_step, d\<lparr>md_pending_tcp := None\<rparr>)"
    and observed: "parse_meta_message line = Inr m \<Longrightarrow> ma_state (md_auth d) = Activated \<Longrightarrow> (source = LinePlaintext \<Longrightarrow> reads_lines d)
      \<Longrightarrow> Q d (Inr (event_step (EvMessage m)), observe_line source m d)"
begin

lemma unchanged: "Q d (Inr no_step, d)"
  by (rule quiet_return) (simp add: no_step_def)

lemma messages_sent: "send_auth_messages C ms d = (r, d') \<Longrightarrow> Q d (Inr no_step, d')"
proof (induction ms arbitrary: d r d')
  case Nil
  then show ?case using unchanged by simp
next
  case (Cons m ms)
  let ?first = "if uses_plaintext_meta (md_auth d) then (Inr (encode_meta_line m), d)
            else on_auth (send_sptps_meta_message C m) d"
  obtain r1 d1 where f: "?first = (r1, d1)" by fastforce
  then have b: "Q d (Inr no_step, d1)"
    using auth_send [of m d r1 d1] unchanged [of d] by (auto split: if_splits)
  show ?case
  proof (cases r1)
    case (Inl e)
    with Cons.prems f b show ?thesis by simp
  next
    case (Inr bytes)
    obtain r2 d2 where s: "send_auth_messages C ms d1 = (r2, d2)" by fastforce
    from composed [OF b Cons.IH [OF s]] Cons.prems s f Inr show ?thesis by simp
  qed
qed

lemma handlers_all:
  "C' = C \<longrightarrow> (source = LinePlaintext \<longrightarrow> reads_lines d) \<longrightarrow> Q d (handle_meta_line C line source d)"
  "C' = C \<longrightarrow> Q d (apply_auth_step C st d)"
  "C' = C \<longrightarrow> Q d (apply_auth_events C evs d)"
  "C' = C \<longrightarrow> Q d (handle_sptps_application C t payload d)"
proof (induction C' line source d and C' st d and C' evs d and C' t payload d
    rule: handle_meta_line_apply_auth_step_apply_auth_events_handle_sptps_application.induct)
  case (1 C' line source d)
  show ?case
  proof (intro impI)
    assume C: "C' = C" and l: "source = LinePlaintext \<longrightarrow> reads_lines d"
    show "Q d (handle_meta_line C line source d)"
    proof (cases "parse_meta_message line")
      case (Inl e)
      then show ?thesis by (simp add: handle_meta_line.simps unchanged failed)
    next
      case m: (Inr m)
      show ?thesis
      proof (cases "ma_state (md_auth d) = Activated")
        case True
        with m l observed [OF m, of d source] show ?thesis by (simp add: handle_meta_line.simps [of C line])
      next
        case False
        obtain r1 a where a: "receive_auth_message C m (md_auth d) = (r1, a)" by fastforce
        note am = auth_message [OF m a False]
        show ?thesis
        proof (cases r1)
          case (Inl e)
          with m False a am failed show ?thesis by (simp add: handle_meta_line.simps [of C line])
        next
          case (Inr st)
          obtain r2 d2 where s: "apply_auth_step C st (d\<lparr>md_auth := a\<rparr>) = (r2, d2)" by fastforce
          have "Q (d\<lparr>md_auth := a\<rparr>) (r2, d2)"
            using 1 [OF m] False a Inr s C by auto
          from composed [OF conjunct2 [OF am, rule_format, OF Inr] this] m False a Inr s show ?thesis
            by (simp add: handle_meta_line.simps [of C line])
        qed
      qed
    qed
  qed
next
  case (2 C' st d)
  show ?case
  proof
    assume C: "C' = C"
    obtain r1 d1 where s: "send_auth_messages C (as_outbound st) d = (r1, d1)" by fastforce
    note b = messages_sent [OF s]
    show "Q d (apply_auth_step C st d)"
    proof (cases r1)
      case (Inl e)
      with s b failed show ?thesis by (simp add: apply_auth_step.simps)
    next
      case (Inr sent)
      let ?s = "\<lparr>cs_outbound = as_raw_outbound st @ sent, cs_events = []\<rparr>"
      obtain r2 d2 where e: "apply_auth_events C (as_events st) d1 = (r2, d2)" by fastforce
      have "Q d1 (r2, d2)" using 2 s Inr e C by auto
      moreover have "Q d (Inr ?s, d1)" using composed [OF b quiet_return [of ?s d1]] by simp
      ultimately have "Q d (map_ok (add_step ?s) r2, d2)" by (intro composed)
      with s e Inr show ?thesis by (simp add: apply_auth_step.simps)
    qed
  qed
next
  case (3 C' d)
  then show ?case by (simp add: apply_auth_events.simps unchanged)
next
  case (4 C' ev evs d)
  show ?case
  proof
    assume C: "C' = C"
    let ?first = "case ev of AuthApplicationRecord t payload \<Rightarrow> handle_sptps_application C t payload d
            | _ \<Rightarrow> (Inr (event_step (EvAuth ev)), d)"
    obtain r1 d1 where f: "?first = (r1, d1)" by fastforce
    have b: "Q d (r1, d1)"
      using f 4(1) C quiet_return [of "event_step (EvAuth ev)" d] by (cases ev) (auto simp: event_step_def)
    show "Q d (apply_auth_events C (ev # evs) d)"
    proof (cases r1)
      case (Inl e)
      with f b show ?thesis by (simp add: apply_auth_events.simps)
    next
      case (Inr s)
      obtain r2 d2 where e: "apply_auth_events C evs d1 = (r2, d2)" by fastforce
      have "Q d1 (r2, d2)" using 4(2) f Inr e C by auto
      from composed [OF b [unfolded Inr] this] f Inr e show ?thesis by (simp add: apply_auth_events.simps)
    qed
  qed
next
  case (5 C' t payload d)
  have taken: "Q d (Inr s, d\<lparr>md_pending_tcp := None\<rparr>)" if "\<forall>m. EvMessage m \<notin> set (cs_events s)" for s
    using composed [OF packet_taken quiet_return [OF that]] by simp
  from 5 show ?case
    using unchanged failed failed [OF packet_taken] taken
    by (auto simp: handle_sptps_application.simps [of C] Let_def event_step_def quiet_return
        split: option.split sum.split)
qed

lemmas handlers = handlers_all(1) [THEN mp, OF refl, THEN mp] handlers_all(2-4) [THEN mp, OF refl]

lemma frame_handled:
  assumes "\<And>line. f = FrameLine line \<Longrightarrow> reads_lines d"
  shows "Q d (handle_frame C f d)"
proof (cases f)
  case (FrameLine line)
  with assms handlers(1) [of LinePlaintext d line] show ?thesis by (simp add: handle_frame_def)
next
  case (FrameSptpsRecord rec)
  obtain r1 a where a: "receive_sptps_record C rec (md_auth d) = (r1, a)" by fastforce
  note b = auth_record [OF a]
  show ?thesis
  proof (cases r1)
    case (Inl e)
    with a b failed FrameSptpsRecord show ?thesis by (simp add: handle_frame_def on_auth_def)
  next
    case (Inr st)
    obtain r2 d2 where s: "apply_auth_step C st (d\<lparr>md_auth := a\<rparr>) = (r2, d2)" by fastforce
    from composed [OF b handlers(2) [of "d\<lparr>md_auth := a\<rparr>" st, unfolded s]] a s FrameSptpsRecord Inr
    show ?thesis by (simp add: handle_frame_def on_auth_def)
  qed
next
  case (FrameBody kind data)
  then show ?thesis
    using quiet_return [of "event_step (EvTcpPacket data)" d] quiet_return [of "event_step (EvSptpsPacket data)" d]
    by (cases kind) (simp_all add: handle_frame_def event_step_def)
qed

end

text \<open>Handling a frame leaves the buffer alone.\<close>

lemma observe_line_buffer: "ms_buffer (md_decoder (observe_line source m d)) = ms_buffer (md_decoder d)"
  by (auto simp: observe_line_def observe_meta_message_def expect_body_def split: meta_line_source.split meta_message.split)

definition keeps_buffer :: "meta_driver \<Rightarrow> (meta_connection_error + connection_step) \<times> meta_driver \<Rightarrow> bool" where
  "keeps_buffer d p \<longleftrightarrow> ms_buffer (md_decoder (snd p)) = ms_buffer (md_decoder d)"

interpretation buffer: driver_rule C keeps_buffer
  by unfold_locales (auto simp: keeps_buffer_def observe_line_buffer on_auth_def split: prod.splits)

lemma frame_keeps_buffer:
  assumes "handle_frame C f d = (r, d')" "\<And>line. f = FrameLine line \<Longrightarrow> reads_lines d"
  shows "ms_buffer (md_decoder d') = ms_buffer (md_decoder d)"
  using buffer.frame_handled [of f d C] assms by (simp add: keeps_buffer_def)

section \<open>The loops\<close>

text \<open>A frame is taken with at least a byte, or it ends the wait for a body.\<close>

definition drain_measure :: "meta_driver \<Rightarrow> nat" where
  "drain_measure d = 2 * length (ms_buffer (md_decoder d))
     + (if ms_pending_body (md_decoder d) = None then 0 else 1)"

lemma next_body_frame_taken:
  assumes "next_body_frame dec = Some (f, dec')"
  shows "(\<exists>kind data. f = FrameBody kind data) \<and> ms_pending_body dec \<noteq> None \<and> ms_pending_body dec' = None
    \<and> length (ms_buffer dec') \<le> length (ms_buffer dec)"
  using assms by (auto simp: next_body_frame_def split: option.splits if_splits)

lemma drop_newline: "10 \<in> set bs \<Longrightarrow> length bs - Suc (length (takeWhile (\<lambda>b. b \<noteq> 10) bs)) < length bs" for bs :: "byte list"
  by (cases bs) auto

lemma next_frame_taken:
  assumes "next_frame d = (Inr (Some f), d')"
  shows "(\<exists>kind data. f = FrameBody kind data) \<and> ms_pending_body (md_decoder d) \<noteq> None
      \<and> ms_pending_body (md_decoder d') = None
      \<and> length (ms_buffer (md_decoder d')) \<le> length (ms_buffer (md_decoder d))
    \<or> length (ms_buffer (md_decoder d')) < length (ms_buffer (md_decoder d))"
proof (cases "next_body_frame (md_decoder d)")
  case (Some p)
  obtain f0 dec0 where p: "p = (f0, dec0)" by fastforce
  from Some p assms have "f = f0" "md_decoder d' = dec0"
    by (auto simp: next_frame_def next_plaintext_frame_def next_sptps_frame_def split: if_splits)
  with next_body_frame_taken [OF Some [unfolded p]] show ?thesis by blast
next
  case None
  show ?thesis
  proof (cases "reads_lines d")
    case True
    with None assms drop_newline [of "ms_buffer (md_decoder d)"] show ?thesis
      by (auto simp: next_frame_def next_plaintext_frame_def Let_def split: if_splits)
  next
    case False
    have "0 < SPTPS_TCP_HEADER_LEN" "0 < SPTPS_TCP_AUTH_OVERHEAD" by (simp_all add: SPTPS_TCP_HEADER_LEN_def SPTPS_TCP_AUTH_OVERHEAD_def)
    with False None assms show ?thesis
      by (auto simp: next_frame_def next_sptps_frame_def expected_sptps_frame_len_def Let_def
          split: if_splits option.splits)
  qed
qed

lemma reads_lines_decoder [simp]: "reads_lines (d\<lparr>md_decoder := dec\<rparr>) = reads_lines d"
  by (simp add: reads_lines_def)

lemma next_frame_line:
  assumes "next_frame d = (Inr (Some (FrameLine line)), d')"
  shows "reads_lines d'"
proof -
  have "reads_lines d" using assms
    by (auto simp: next_frame_def next_sptps_frame_def next_body_frame_def Let_def split: if_splits option.splits)
  moreover have "\<exists>dec. d' = d\<lparr>md_decoder := dec\<rparr>" using assms by (auto simp: next_frame_def split: prod.splits)
  ultimately show ?thesis by auto
qed

lemma frame_handled_measure:
  assumes "next_frame d = (Inr (Some f), d1)" "handle_frame C f d1 = (r, d2)"
  shows "drain_measure d2 < drain_measure d"
proof -
  have len: "length (ms_buffer (md_decoder d2)) = length (ms_buffer (md_decoder d1))"
    using frame_keeps_buffer [OF assms(2)] next_frame_line assms(1) by metis
  from next_frame_taken [OF assms(1)] show ?thesis
  proof (elim disjE exE conjE)
    fix kind data assume f: "f = FrameBody kind data" and p: "ms_pending_body (md_decoder d) \<noteq> None"
      "ms_pending_body (md_decoder d1) = None"
      "length (ms_buffer (md_decoder d1)) \<le> length (ms_buffer (md_decoder d))"
    have "d2 = d1" using assms(2) f by (cases kind) (auto simp: handle_frame_def)
    with p show ?thesis by (auto simp: drain_measure_def)
  next
    assume "length (ms_buffer (md_decoder d1)) < length (ms_buffer (md_decoder d))"
    with len show ?thesis by (simp add: drain_measure_def)
  qed
qed

function drain_available_frames :: "('p, 's::comm_ring_1) sptps_crypto \<Rightarrow> connection_step driver_op" where
  "drain_available_frames C d =
     (case next_frame d of
        (Inl e, d) \<Rightarrow> (Inl e, d)
      | (Inr None, d) \<Rightarrow> (Inr no_step, d)
      | (Inr (Some frame), d) \<Rightarrow>
          (case handle_frame C frame d of
             (Inl e, d) \<Rightarrow> (Inl e, d)
           | (Inr s, d) \<Rightarrow> (case drain_available_frames C d of (r, d) \<Rightarrow> (map_ok (add_step s) r, d))))"
  by pat_completeness auto
termination
  by (relation "measure (\<lambda>(C, d). drain_measure d)") (auto intro: frame_handled_measure [OF sym sym])

declare drain_available_frames.simps [simp del]

definition next_input_window :: "meta_driver \<Rightarrow> meta_connection_error + nat \<times> nat" where
  "next_input_window d =
     (let buffered = length (ms_buffer (md_decoder d))
      in case ms_pending_body (md_decoder d) of
        Some body \<Rightarrow>
          if MAX_META_BUFFER_SIZE < mb_length body
          then Inl (ConnStream (InputBufferFull MAX_META_BUFFER_SIZE (mb_length body)))
          else Inr (MAX_META_BUFFER_SIZE, mb_length body - buffered)
      | None \<Rightarrow>
          if reads_lines d then Inr (MAX_META_BUFFER_SIZE, MAX_META_BUFFER_SIZE - buffered)
          else
            case expected_sptps_frame_len (sptps_in_encrypted (md_auth d)) (md_decoder d) of
              None \<Rightarrow> Inr (MAX_SPTPS_TCP_RECORD_BUFFER_SIZE, 2 - buffered)
            | Some n \<Rightarrow> Inr (MAX_SPTPS_TCP_RECORD_BUFFER_SIZE, n - buffered))"

text \<open>The input is taken in windows; the frames that are complete are handled in between.\<close>

function receive_windows :: "('p, 's::comm_ring_1) sptps_crypto \<Rightarrow> byte list \<Rightarrow> connection_step driver_op" where
  "receive_windows C remaining d =
     (if remaining = [] then (Inr no_step, d)
      else case next_input_window d of
        Inl e \<Rightarrow> (Inl e, d)
      | Inr (limit, available) \<Rightarrow>
          if available = 0
          then (Inl (ConnStream (InputBufferFull limit (length (ms_buffer (md_decoder d)) + length remaining))), d)
          else
            let n = min (length remaining) available
            in case push_limited (take n remaining) limit (md_decoder d) of
                 Inl e \<Rightarrow> (Inl (ConnStream e), d)
               | Inr dec \<Rightarrow>
                   (case drain_available_frames C (d\<lparr>md_decoder := dec\<rparr>) of
                      (Inl e, d) \<Rightarrow> (Inl e, d)
                    | (Inr s, d) \<Rightarrow>
                        (case receive_windows C (drop n remaining) d of (r, d) \<Rightarrow> (map_ok (add_step s) r, d))))"
  by pat_completeness auto
termination
  by (relation "measure (\<lambda>(C, remaining, d). length remaining)") auto

declare receive_windows.simps [simp del]

definition receive_bytes :: "('p, 's::comm_ring_1) sptps_crypto \<Rightarrow> byte list \<Rightarrow> connection_step driver_op" where
  "receive_bytes C data d =
     (case drain_available_frames C d of
        (Inl e, d) \<Rightarrow> (Inl e, d)
      | (Inr s, d) \<Rightarrow> (case receive_windows C data d of (r, d) \<Rightarrow> (map_ok (add_step s) r, d)))"

end
