(* ===== verification/Meta_Split.thy ===== *)
theory Meta_Split
  imports Meta_Driver Sptps_Crypto_Props
begin

text \<open>
  How the bytes of a meta connection are cut into reads does not matter, as long as no message
  announces a packet body that follows it outside the lines or records.  With such a body it does:
  a read that ends inside the body makes the driver take the body's bytes for lines or records.
\<close>

section \<open>More bytes in the buffer\<close>

definition feed :: "byte list \<Rightarrow> meta_driver \<Rightarrow> meta_driver" where
  "feed x d = d\<lparr>md_decoder := (md_decoder d)\<lparr>ms_buffer := ms_buffer (md_decoder d) @ x\<rparr>\<rparr>"

lemma feed_fields [simp]:
  "md_auth (feed x d) = md_auth d" "md_pending_tcp (feed x d) = md_pending_tcp d"
  "ms_buffer (md_decoder (feed x d)) = ms_buffer (md_decoder d) @ x"
  "ms_pending_body (md_decoder (feed x d)) = ms_pending_body (md_decoder d)"
  "(feed x d)\<lparr>md_auth := a\<rparr> = feed x (d\<lparr>md_auth := a\<rparr>)"
  "(feed x d)\<lparr>md_pending_tcp := p\<rparr> = feed x (d\<lparr>md_pending_tcp := p\<rparr>)"
  "reads_lines (feed x d) = reads_lines d"
  by (simp_all add: feed_def reads_lines_def)

lemma feed_twice: "feed y (feed x d) = feed (x @ y) d" "feed [] d = d"
  by (simp_all add: feed_def)

lemma on_auth_feed: "on_auth f (feed x d) = map_prod id (feed x) (on_auth f d)"
  by (cases "f (md_auth d)") (simp add: on_auth_def)

lemma send_auth_feed: "send_auth_messages C ms (feed x d) = map_prod id (feed x) (send_auth_messages C ms d)"
proof (induction ms arbitrary: d)
  case (Cons m ms)
  obtain r d1 where o: "on_auth (send_sptps_meta_message C m) d = (r, d1)" by fastforce
  have IH: "send_auth_messages C ms (feed x e) = map_prod id (feed x) (send_auth_messages C ms e)" for e
    by (rule Cons.IH)
  show ?case
    by (cases "uses_plaintext_meta (md_auth d)"; cases r;
        cases "send_auth_messages C ms d"; cases "send_auth_messages C ms d1")
      (simp_all add: on_auth_feed o IH)
qed simp

lemma observe_line_feed: "observe_line source m (feed x d) = feed x (observe_line source m d)"
  by (auto simp: observe_line_def observe_meta_message_def expect_body_def feed_def
      split: meta_line_source.split meta_message.split)

lemma handlers_feed:
  "handle_meta_line C line source (feed x d) = map_prod id (feed x) (handle_meta_line C line source d)"
  "apply_auth_step C st (feed x d) = map_prod id (feed x) (apply_auth_step C st d)"
  "apply_auth_events C evs (feed x d) = map_prod id (feed x) (apply_auth_events C evs d)"
  "handle_sptps_application C t payload (feed x d) = map_prod id (feed x) (handle_sptps_application C t payload d)"
proof (induction C line source d and C st d and C evs d and C t payload d
    rule: handle_meta_line_apply_auth_step_apply_auth_events_handle_sptps_application.induct)
  case (1 C line source d)
  show ?case
  proof (cases "parse_meta_message line")
    case (Inl e)
    then show ?thesis by (simp add: handle_meta_line.simps)
  next
    case m: (Inr m)
    obtain r1 a where a: "receive_auth_message C m (md_auth d) = (r1, a)" by fastforce
    show ?thesis
    proof (cases "ma_state (md_auth d) = Activated")
      case True
      with m show ?thesis by (simp add: handle_meta_line.simps [of C line source] observe_line_feed)
    next
      case False
      show ?thesis
      proof (cases r1)
        case (Inl e)
        with m False a show ?thesis by (simp add: handle_meta_line.simps [of C line source])
      next
        case (Inr st)
        obtain r2 d2 where s: "apply_auth_step C st (d\<lparr>md_auth := a\<rparr>) = (r2, d2)" by fastforce
        from 1 [OF m False a [symmetric] Inr] m False a Inr s show ?thesis
          by (simp add: handle_meta_line.simps [of C line source])
      qed
    qed
  qed
next
  case (2 C st d)
  obtain r1 d1 where s: "send_auth_messages C (as_outbound st) d = (r1, d1)" by fastforce
  show ?case
  proof (cases r1)
    case (Inl e)
    with s show ?thesis by (simp add: apply_auth_step.simps send_auth_feed)
  next
    case (Inr sent)
    obtain r2 d2 where e: "apply_auth_events C (as_events st) d1 = (r2, d2)" by fastforce
    from 2 [OF s [symmetric] Inr] s e Inr show ?thesis
      by (simp add: apply_auth_step.simps send_auth_feed)
  qed
next
  case (3 C d)
  then show ?case by (simp add: apply_auth_events.simps)
next
  case (4 C ev evs d)
  let ?first = "\<lambda>d. case ev of AuthApplicationRecord t payload \<Rightarrow> handle_sptps_application C t payload d
            | _ \<Rightarrow> (Inr (event_step (EvAuth ev)), d)"
  obtain r1 d1 where f: "?first d = (r1, d1)" by fastforce
  have g: "?first (feed x d) = map_prod id (feed x) (?first d)"
    using 4(1) by (cases ev) (auto simp: id_def)
  show ?case
  proof (cases r1)
    case (Inl e)
    with f g show ?thesis by (simp add: apply_auth_events.simps)
  next
    case (Inr s)
    obtain r2 d2 where e: "apply_auth_events C evs d1 = (r2, d2)" by fastforce
    from 4(2) [OF f [symmetric] Inr] f g e Inr show ?thesis by (simp add: apply_auth_events.simps)
  qed
next
  case (5 C t payload d)
  then show ?case
    by (auto simp: handle_sptps_application.simps Let_def split: option.split sum.split)
qed

lemma handle_frame_feed: "handle_frame C f (feed x d) = map_prod id (feed x) (handle_frame C f d)"
proof (cases f)
  case (FrameSptpsRecord rec)
  obtain r1 d1 where a: "on_auth (receive_sptps_record C rec) d = (r1, d1)" by fastforce
  then show ?thesis using FrameSptpsRecord
    by (cases r1) (simp_all add: handle_frame_def on_auth_feed handlers_feed)
qed (auto simp: handle_frame_def handlers_feed split: meta_body_kind.split)

lemma takeWhile_found: "y \<in> set xs \<Longrightarrow> takeWhile (\<lambda>b. b \<noteq> y) (xs @ ys) = takeWhile (\<lambda>b. b \<noteq> y) xs"
  by (induction xs) auto

lemma takeWhile_bound: "y \<in> set xs \<Longrightarrow> length (takeWhile (\<lambda>b. b \<noteq> y) xs) < length xs"
  by (induction xs) auto

text \<open>A frame that is there stays the same when more bytes follow; so does an error.\<close>

lemma next_frame_feed:
  assumes "ms_pending_body (md_decoder d) = None" "next_frame d = (r, d')" "r \<noteq> Inr None"
  shows "next_frame (feed x d) = (r, feed x d')"
proof -
  have nb: "next_body_frame (md_decoder d) = None" "next_body_frame (md_decoder (feed x d)) = None"
    using assms(1) by (simp_all add: next_body_frame_def)
  show ?thesis
  proof (cases "reads_lines d")
    case True
    let ?n = "length (takeWhile (\<lambda>b. b \<noteq> 10) (ms_buffer (md_decoder d)))"
    have nl: "10 \<in> set (ms_buffer (md_decoder d))"
      using assms(2,3) True nb by (auto simp: next_frame_def next_plaintext_frame_def split: if_splits)
    then have "Suc ?n \<le> length (ms_buffer (md_decoder d))" using takeWhile_bound by (metis Suc_leI)
    with nl assms(2) True nb show ?thesis
      by (auto simp: next_frame_def next_plaintext_frame_def takeWhile_found Let_def feed_def)
  next
    case False
    obtain n where n: "expected_sptps_frame_len (sptps_in_encrypted (md_auth d)) (md_decoder d) = Some n"
        "n \<le> length (ms_buffer (md_decoder d))"
      using assms(2,3) False nb
      by (auto simp: next_frame_def next_sptps_frame_def split: option.splits if_splits)
    then have "expected_sptps_frame_len (sptps_in_encrypted (md_auth d)) (md_decoder (feed x d)) = Some n"
      by (auto simp: expected_sptps_frame_len_def nth_append split: if_splits)
    with n assms(2) False nb show ?thesis
      by (auto simp: next_frame_def next_sptps_frame_def feed_def)
  qed
qed

section \<open>What the handlers keep\<close>

text \<open>Who the connection is between, and that an unencrypted connection runs no handshake.\<close>

definition auth_ok :: "meta_auth \<Rightarrow> bool" where
  "auth_ok a \<longleftrightarrow> (ma_bypass_security a \<longrightarrow> ma_state a \<noteq> AuthHandshake)"

definition auth_keeps :: "meta_auth \<Rightarrow> meta_auth \<Rightarrow> bool" where
  "auth_keeps a a' \<longleftrightarrow> ma_bypass_security a' = ma_bypass_security a \<and> ma_myself a' = ma_myself a
     \<and> ma_outgoing a' = ma_outgoing a \<and> ma_private_key a' = ma_private_key a \<and> ma_peer_key a' = ma_peer_key a
     \<and> ma_local_port a' = ma_local_port a \<and> ma_local_weight a' = ma_local_weight a
     \<and> ma_local_options a' = ma_local_options a
     \<and> (auth_ok a \<longrightarrow> auth_ok a') \<and> (ma_state a \<noteq> ExpectId \<longrightarrow> ma_state a' \<noteq> ExpectId)"

lemma auth_keeps_refl: "auth_keeps a a"
  by (simp add: auth_keeps_def)

lemma auth_keeps_trans: "auth_keeps a b \<Longrightarrow> auth_keeps b c \<Longrightarrow> auth_keeps a c"
  by (simp add: auth_keeps_def)

lemma auth_message_keeps: "receive_auth_message C m a = (r, a') \<Longrightarrow> auth_keeps a a'"
  by (auto simp: receive_auth_message_def receive_id_def receive_auth_ack_def auth_keeps_def auth_ok_def
      drain_outbound_def Let_def split: meta_message.splits if_splits sum.splits ack_message.splits option.splits)

lemma auth_record_keeps: "receive_sptps_record C rec a = (r, a') \<Longrightarrow> auth_keeps a a'"
  by (auto simp: receive_sptps_record_def auth_keeps_def auth_ok_def drain_outbound_def Let_def
      split: if_splits sum.splits option.splits prod.splits)

lemma auth_send_keeps: "on_auth (send_sptps_meta_message C m) d = (r, d') \<Longrightarrow> auth_keeps (md_auth d) (md_auth d')"
  by (auto simp: on_auth_def send_sptps_meta_message_def send_sptps_application_def auth_keeps_def auth_ok_def
      split: prod.splits option.splits)

lemma observe_line_auth [simp]: "md_auth (observe_line source m d) = md_auth d"
  by (auto simp: observe_line_def split: meta_line_source.split meta_message.split)

definition keeps_auth :: "meta_driver \<Rightarrow> (meta_connection_error + connection_step) \<times> meta_driver \<Rightarrow> bool" where
  "keeps_auth d p \<longleftrightarrow> auth_keeps (md_auth d) (md_auth (snd p))"

interpretation auth: driver_rule C keeps_auth
  by unfold_locales
    (auto simp: keeps_auth_def auth_keeps_refl auth_message_keeps auth_record_keeps auth_send_keeps
      elim: auth_keeps_trans)

text \<open>A message after which bytes follow that are no line and no record.\<close>

definition announces_body :: "bool \<Rightarrow> meta_message \<Rightarrow> bool" where
  "announces_body bypass m \<longleftrightarrow> (case m of MsgTcpPacket _ \<Rightarrow> bypass | MsgSptpsTcpPacket _ \<Rightarrow> True | _ \<Rightarrow> False)"

definition quiet_step :: "bool \<Rightarrow> connection_step \<Rightarrow> bool" where
  "quiet_step bypass s \<longleftrightarrow>
     list_all (\<lambda>e. case e of EvMessage m \<Rightarrow> \<not> announces_body bypass m | _ \<Rightarrow> True) (cs_events s)"

lemma quiet_add_step [simp]: "quiet_step b (add_step s t) \<longleftrightarrow> quiet_step b s \<and> quiet_step b t"
  "quiet_step b no_step"
  by (auto simp: quiet_step_def add_step_def no_step_def)

definition no_body_awaited :: "meta_driver \<Rightarrow> (meta_connection_error + connection_step) \<times> meta_driver \<Rightarrow> bool" where
  "no_body_awaited d p \<longleftrightarrow> ma_bypass_security (md_auth (snd p)) = ma_bypass_security (md_auth d)
     \<and> (\<forall>s. fst p = Inr s \<longrightarrow> quiet_step (ma_bypass_security (md_auth d)) s
          \<longrightarrow> ms_pending_body (md_decoder d) = None \<longrightarrow> ms_pending_body (md_decoder (snd p)) = None)"

lemma observe_quiet:
  assumes "ma_state (md_auth d) = Activated" "source = LinePlaintext \<Longrightarrow> reads_lines d"
    and "\<not> announces_body (ma_bypass_security (md_auth d)) m" "ms_pending_body (md_decoder d) = None"
  shows "ms_pending_body (md_decoder (observe_line source m d)) = None"
  using assms by (cases source; cases m)
    (auto simp: observe_line_def observe_meta_message_def announces_body_def reads_lines_def uses_plaintext_meta_def)

interpretation quiet: driver_rule C no_body_awaited
proof unfold_locales
  show "no_body_awaited d (map_ok (add_step s) r, d'')"
    if "no_body_awaited d (Inr s, d')" "no_body_awaited d' (r, d'')" for d s d' r d''
    using that by (cases r) (auto simp: no_body_awaited_def)
  show "no_body_awaited d (Inr (event_step (EvMessage m)), observe_line source m d)"
    if "ma_state (md_auth d) = Activated" "source = LinePlaintext \<Longrightarrow> reads_lines d" for d source m
    using observe_quiet [of d source m] that by (auto simp: no_body_awaited_def quiet_step_def event_step_def)
  show "no_body_awaited d (Inr no_step, d')" if "on_auth (send_sptps_meta_message C m) d = (rs, d')" for m d rs d'
    using auth_send_keeps [OF that] that
    by (auto simp: no_body_awaited_def auth_keeps_def on_auth_def split: prod.splits)
qed (auto simp: no_body_awaited_def auth_keeps_def dest: auth_message_keeps auth_record_keeps)

section \<open>Draining\<close>

abbreviation bypass_of :: "meta_driver \<Rightarrow> bool" where
  "bypass_of d \<equiv> ma_bypass_security (md_auth d)"

lemma next_frame_keeps:
  assumes "next_frame d = (r, d')"
  shows "md_auth d' = md_auth d" "md_pending_tcp d' = md_pending_tcp d"
    and "ms_pending_body (md_decoder d) = None \<Longrightarrow> ms_pending_body (md_decoder d') = None"
  using assms
  by (auto simp: next_frame_def next_plaintext_frame_def next_sptps_frame_def next_body_frame_def Let_def
      split: if_splits option.splits)

text \<open>A drain that succeeds, awaits no body and hears of none.\<close>

definition drains :: "('p, 's::comm_ring_1) sptps_crypto \<Rightarrow> meta_driver \<Rightarrow> connection_step \<Rightarrow> meta_driver \<Rightarrow> bool" where
  "drains C d s d' \<longleftrightarrow> drain_available_frames C d = (Inr s, d') \<and> quiet_step (bypass_of d) s"

lemma frame_step:
  assumes "next_frame d = (Inr (Some f), d1)" "handle_frame C f d1 = (r, d2)"
  shows "auth_keeps (md_auth d) (md_auth d2)"
    and "r = Inr s \<Longrightarrow> quiet_step (bypass_of d) s \<Longrightarrow> ms_pending_body (md_decoder d) = None
      \<Longrightarrow> ms_pending_body (md_decoder d2) = None"
proof -
  have l: "f = FrameLine line \<Longrightarrow> reads_lines d1" for line using next_frame_line assms(1) by blast
  show "auth_keeps (md_auth d) (md_auth d2)"
    using auth.frame_handled [of f d1 C, OF l] assms(2) next_frame_keeps(1) [OF assms(1)]
    by (simp add: keeps_auth_def)
  show "ms_pending_body (md_decoder d2) = None"
    if "r = Inr s" "quiet_step (bypass_of d) s" "ms_pending_body (md_decoder d) = None"
    using quiet.frame_handled [of f d1 C, OF l] assms(2) next_frame_keeps [OF assms(1)] that
    by (simp add: no_body_awaited_def)
qed

lemma drains_step:
  assumes "next_frame d = (Inr (Some f), d1)" "handle_frame C f d1 = (Inr s0, d2)"
  shows "drains C d s d' \<longleftrightarrow> (\<exists>t. s = add_step s0 t \<and> quiet_step (bypass_of d) s0 \<and> drains C d2 t d')"
proof -
  have b: "bypass_of d2 = bypass_of d" using frame_step(1) [OF assms] by (simp add: auth_keeps_def)
  obtain r e where r: "drain_available_frames C d2 = (r, e)" by fastforce
  show ?thesis
    unfolding drains_def drain_available_frames.simps [of C d]
    using assms r b by (cases r) auto
qed

lemma drains_none:
  assumes "next_frame d = (Inr None, d1)"
  shows "drains C d s d' \<longleftrightarrow> s = no_step \<and> d' = d1"
  using assms by (auto simp: drains_def drain_available_frames.simps [of C d])

lemma drains_error:
  assumes "next_frame d = (Inl e, d1)"
  shows "\<not> drains C d s d'"
  using assms by (simp add: drains_def drain_available_frames.simps [of C d])

lemma drains_failed:
  assumes "next_frame d = (Inr (Some f), d1)" "handle_frame C f d1 = (Inl e, d2)"
  shows "\<not> drains C d s d'"
  using assms by (simp add: drains_def drain_available_frames.simps [of C d])

lemma next_frame_none: "next_frame d = (Inr None, d') \<Longrightarrow> d' = d"
  by (auto simp: next_frame_def next_plaintext_frame_def next_sptps_frame_def next_body_frame_def Let_def
      map_ok_def map_err_def split: if_splits option.splits sum.splits)

text \<open>What a drain leaves behind: no complete frame.\<close>

lemma drains_result:
  assumes "drains C d s d'" "ms_pending_body (md_decoder d) = None"
  shows "next_frame d' = (Inr None, d') \<and> ms_pending_body (md_decoder d') = None
    \<and> auth_keeps (md_auth d) (md_auth d')"
  using assms
proof (induction C d arbitrary: s rule: drain_available_frames.induct)
  case (1 C d)
  obtain r d1 where n: "next_frame d = (r, d1)" by fastforce
  consider e where "r = Inl e" | "r = Inr None" | f where "r = Inr (Some f)" by (cases r) auto
  then show ?case
  proof cases
    case (1 e)
    with n drains_error \<open>drains C d s d'\<close> show ?thesis by blast
  next
    case 2
    note n2 = n [unfolded 2]
    have "d1 = d" "d' = d1" using drains_none [OF n2, of C s d'] next_frame_none [OF n2] 1(2) by simp_all
    then show ?thesis using n 2 1(3) auth_keeps_refl by simp
  next
    case (3 f)
    obtain r2 d2 where h: "handle_frame C f d1 = (r2, d2)" by fastforce
    show ?thesis
    proof (cases r2)
      case (Inl e)
      with n 3 h drains_failed 1(2) show ?thesis by blast
    next
      case (Inr s0)
      from 1(2) drains_step [OF n [unfolded 3] h [unfolded Inr]] obtain t where
        t: "quiet_step (bypass_of d) s0" "drains C d2 t d'" by blast
      note fs = frame_step [OF n [unfolded 3] h]
      have "ms_pending_body (md_decoder d2) = None" by (rule fs(2) [OF Inr t(1) 1(3)])
      from 1(1) [OF n [symmetric] 3 refl h [symmetric] Inr t(2) this] fs(1) show ?thesis
        by (blast intro: auth_keeps_trans)
    qed
  qed
qed

text \<open>More bytes: the drain first does what it did without them.\<close>

lemma drains_feed:
  assumes "ms_pending_body (md_decoder d) = None"
  shows "drains C (feed x d) s d' \<longleftrightarrow>
    (\<exists>s1 d1 s2. drains C d s1 d1 \<and> drains C (feed x d1) s2 d' \<and> s = add_step s1 s2)"
  using assms
proof (induction C d arbitrary: s rule: drain_available_frames.induct)
  case (1 C d)
  obtain r d1 where n: "next_frame d = (r, d1)" by fastforce
  consider e where "r = Inl e" | "r = Inr None" | f where "r = Inr (Some f)" by (cases r) auto
  then show ?case
  proof cases
    case (1 e)
    with n next_frame_feed [OF \<open>ms_pending_body (md_decoder d) = None\<close> n, of x]
    show ?thesis using drains_error [of d e d1 C] drains_error [of "feed x d" e "feed x d1" C] by auto
  next
    case 2
    with n drains_none [of d d1 C] next_frame_none [of d d1] show ?thesis by auto
  next
    case (3 f)
    from next_frame_feed [OF 1(2) n, of x] 3 have nf: "next_frame (feed x d) = (Inr (Some f), feed x d1)" by simp
    obtain r2 d2 where h: "handle_frame C f d1 = (r2, d2)" by fastforce
    have hf: "handle_frame C f (feed x d1) = (r2, feed x d2)" using h by (simp add: handle_frame_feed)
    show ?thesis
    proof (cases r2)
      case (Inl e)
      with drains_failed [OF nf hf [unfolded Inl]] drains_failed [OF n [unfolded 3] h [unfolded Inl]]
      show ?thesis by blast
    next
      case (Inr s0)
      note st = drains_step [OF n [unfolded 3] h [unfolded Inr]]
      note stf = drains_step [OF nf hf [unfolded Inr]]
      show ?thesis
      proof (cases "quiet_step (bypass_of d) s0")
        case False
        with st stf show ?thesis by simp
      next
        case True
        have "ms_pending_body (md_decoder d2) = None"
          by (rule frame_step(2) [OF n [unfolded 3] h Inr True 1(2)])
        note IH = 1(1) [OF n [symmetric] 3 refl h [symmetric] Inr this]
        have b: "bypass_of (feed x d) = bypass_of d" by simp
        show ?thesis unfolding st stf IH b
        proof (intro iffI; elim exE conjE)
          fix t s1 e s2
          assume "s = add_step s0 t" "drains C d2 s1 e" "drains C (feed x e) s2 d'" "t = add_step s1 s2"
          then have "s = add_step (add_step s0 s1) s2" by (simp add: add_step_assoc)
          with True \<open>drains C d2 s1 e\<close> \<open>drains C (feed x e) s2 d'\<close>
          show "\<exists>s1 e s2. (\<exists>t. s1 = add_step s0 t \<and> quiet_step (bypass_of d) s0 \<and> drains C d2 t e)
              \<and> drains C (feed x e) s2 d' \<and> s = add_step s1 s2"
            by metis
        next
          fix s1 e s2 t
          assume "drains C (feed x e) s2 d'" "s = add_step s1 s2" "s1 = add_step s0 t" "drains C d2 t e"
          then have "s = add_step s0 (add_step t s2)" by (simp add: add_step_assoc)
          with True \<open>drains C d2 t e\<close> \<open>drains C (feed x e) s2 d'\<close>
          show "\<exists>t. s = add_step s0 t \<and> quiet_step (bypass_of d) s0
              \<and> (\<exists>s1 e s2. drains C d2 s1 e \<and> drains C (feed x e) s2 d' \<and> t = add_step s1 s2)"
            by metis
        qed
      qed
    qed
  qed
qed

lemma next_frame_shrinks:
  "next_frame d = (Inr (Some f), d') \<Longrightarrow> length (ms_buffer (md_decoder d')) \<le> length (ms_buffer (md_decoder d))"
  using next_frame_taken [of d f d'] by auto

lemma drains_shrinks: "drains C d s d' \<Longrightarrow> length (ms_buffer (md_decoder d')) \<le> length (ms_buffer (md_decoder d))"
proof (induction C d arbitrary: s rule: drain_available_frames.induct)
  case (1 C d)
  obtain r d1 where n: "next_frame d = (r, d1)" by fastforce
  consider e where "r = Inl e" | "r = Inr None" | f where "r = Inr (Some f)" by (cases r) auto
  then show ?case
  proof cases
    case (1 e)
    with n drains_error \<open>drains C d s d'\<close> show ?thesis by blast
  next
    case 2
    note n2 = n [unfolded 2]
    have "d' = d" using drains_none [OF n2, of C s d'] next_frame_none [OF n2] 1(2) by simp
    then show ?thesis by simp
  next
    case (3 f)
    obtain r2 d2 where h: "handle_frame C f d1 = (r2, d2)" by fastforce
    show ?thesis
    proof (cases r2)
      case (Inl e)
      with n 3 h drains_failed 1(2) show ?thesis by blast
    next
      case (Inr s0)
      from 1(2) drains_step [OF n [unfolded 3] h [unfolded Inr]] obtain t where t: "drains C d2 t d'" by blast
      have "ms_buffer (md_decoder d2) = ms_buffer (md_decoder d1)"
        using frame_keeps_buffer [OF h] next_frame_line n 3 by blast
      with 1(1) [OF n [symmetric] 3 refl h [symmetric] Inr t] next_frame_shrinks [OF n [unfolded 3]]
      show ?thesis by simp
    qed
  qed
qed

section \<open>Windows\<close>

text \<open>A driver between reads: no complete frame, no body awaited.\<close>

definition idle :: "meta_driver \<Rightarrow> bool" where
  "idle d \<longleftrightarrow> next_frame d = (Inr None, d) \<and> ms_pending_body (md_decoder d) = None \<and> auth_ok (md_auth d)"

lemma drains_idle: "idle d \<Longrightarrow> drains C d s d' \<longleftrightarrow> s = no_step \<and> d' = d"
  using drains_none [of d d C s d'] by (simp add: idle_def)

lemma drained_idle:
  assumes "drains C (feed x d) s d'" "idle d"
  shows "idle d'" "auth_keeps (md_auth d) (md_auth d')"
  using drains_result [OF assms(1)] assms(2) by (auto simp: idle_def auth_keeps_def)

lemma lines_before:
  assumes "auth_keeps (md_auth d) (md_auth d')" "auth_ok (md_auth d)" "reads_lines d'"
  shows "reads_lines d"
  using assms by (cases "ma_state (md_auth d)")
    (auto simp: auth_keeps_def auth_ok_def reads_lines_def uses_plaintext_meta_def)

definition window_len :: "meta_driver \<Rightarrow> nat" where
  "window_len d =
     (let buffered = length (ms_buffer (md_decoder d))
      in if reads_lines d then MAX_META_BUFFER_SIZE - buffered
         else case expected_sptps_frame_len (sptps_in_encrypted (md_auth d)) (md_decoder d) of
                None \<Rightarrow> 2 - buffered
              | Some n \<Rightarrow> n - buffered)"

lemma sptps_frame_max:
  assumes "expected_sptps_frame_len enc dec = Some n"
  shows "n \<le> MAX_SPTPS_TCP_RECORD_BUFFER_SIZE \<and> 2 \<le> length (ms_buffer dec)"
proof -
  have "unat w \<le> 65535" "unat w \<le> 65551" for w :: u16 using unat_u16_less [of w] by linarith+
  then show ?thesis using assms
    by (auto simp: expected_sptps_frame_len_def MAX_SPTPS_TCP_RECORD_BUFFER_SIZE_def sptps_lens split: if_splits
        intro: le_trans)
qed

lemma idle_window:
  assumes "idle d"
  shows "\<exists>limit. next_input_window d = Inr (limit, window_len d)
    \<and> (0 < window_len d \<longrightarrow> length (ms_buffer (md_decoder d)) + window_len d \<le> limit)"
    and "\<not> reads_lines d \<Longrightarrow> 0 < window_len d"
proof -
  let ?e = "expected_sptps_frame_len (sptps_in_encrypted (md_auth d)) (md_decoder d)"
  have idle: "next_frame d = (Inr None, d)" "ms_pending_body (md_decoder d) = None" using assms by (simp_all add: idle_def)
  have short: "length (ms_buffer (md_decoder d)) < n" if "\<not> reads_lines d" "?e = Some n" for n
    using idle that by (auto simp: next_frame_def next_sptps_frame_def next_body_frame_def split: if_splits)
  have few: "length (ms_buffer (md_decoder d)) < 2" if "?e = None"
    using that by (simp add: expected_sptps_frame_len_def split: if_splits)
  show "\<not> reads_lines d \<Longrightarrow> 0 < window_len d"
    using short few by (cases ?e) (auto simp: window_len_def Let_def)
  show "\<exists>limit. next_input_window d = Inr (limit, window_len d)
    \<and> (0 < window_len d \<longrightarrow> length (ms_buffer (md_decoder d)) + window_len d \<le> limit)"
  proof (cases "reads_lines d")
    case True
    then show ?thesis using idle by (simp add: next_input_window_def window_len_def Let_def)
  next
    case False
    with idle short few sptps_frame_max [of _ "md_decoder d"] show ?thesis
      by (cases ?e) (auto simp: next_input_window_def window_len_def Let_def MAX_SPTPS_TCP_RECORD_BUFFER_SIZE_def)
  qed
qed

definition receives :: "('p, 's::comm_ring_1) sptps_crypto \<Rightarrow> byte list \<Rightarrow> meta_driver \<Rightarrow> connection_step
    \<Rightarrow> meta_driver \<Rightarrow> bool" where
  "receives C bs d s d' \<longleftrightarrow> receive_windows C bs d = (Inr s, d') \<and> quiet_step (bypass_of d) s"

lemma receives_Nil: "receives C [] d s d' \<longleftrightarrow> s = no_step \<and> d' = d"
  by (auto simp: receives_def receive_windows.simps)

lemma receives_window:
  assumes d: "idle d" and bs: "bs \<noteq> []"
  defines "n \<equiv> min (length bs) (window_len d)"
  shows "receives C bs d s d' \<longleftrightarrow> 0 < window_len d \<and>
    (\<exists>s1 d1 s2. drains C (feed (take n bs) d) s1 d1 \<and> receives C (drop n bs) d1 s2 d' \<and> s = add_step s1 s2)"
proof (cases "window_len d = 0")
  case True
  with idle_window(1) [OF d] bs show ?thesis
    by (auto simp: receives_def receive_windows.simps [of C bs])
next
  case False
  with idle_window(1) [OF d] obtain limit where w: "next_input_window d = Inr (limit, window_len d)"
    "length (ms_buffer (md_decoder d)) + window_len d \<le> limit" by auto
  have push: "push_limited (take n bs) limit (md_decoder d) = Inr (md_decoder (feed (take n bs) d))"
    using w(2) by (simp add: push_limited_def feed_def n_def min_def)
  have fd: "d\<lparr>md_decoder := md_decoder (feed x d)\<rparr> = feed x d" for x by (simp add: feed_def)
  obtain r e where r: "drain_available_frames C (feed (take n bs) d) = (r, e)" by fastforce
  obtain r2 e2 where r2: "receive_windows C (drop n bs) e = (r2, e2)" by fastforce
  have step: "receive_windows C bs d = (case r of Inl x \<Rightarrow> (Inl x, e) | Inr s1 \<Rightarrow> (map_ok (add_step s1) r2, e2))"
    using False bs w push r r2
    by (cases r) (auto simp: receive_windows.simps [of C bs] fd n_def [symmetric] Let_def)
  show ?thesis
  proof (cases r)
    case (Inl x)
    with step r False show ?thesis by (auto simp: receives_def drains_def)
  next
    case (Inr s1)
    have b: "bypass_of e = bypass_of d" if "quiet_step (bypass_of d) s1"
      using drained_idle(2) [of C "take n bs" d s1 e] d r Inr that by (auto simp: drains_def auth_keeps_def)
    show ?thesis
      using False Inr r r2 b by (cases r2) (auto simp: receives_def drains_def step)
  qed
qed

lemma receives_result:
  "receives C bs d s d' \<Longrightarrow> idle d \<Longrightarrow> idle d' \<and> auth_keeps (md_auth d) (md_auth d')"
proof (induction "length bs" arbitrary: bs d s rule: less_induct)
  case less
  show ?case
  proof (cases "bs = []")
    case True
    with less(2,3) show ?thesis by (simp add: receives_Nil auth_keeps_refl)
  next
    case False
    let ?n = "min (length bs) (window_len d)"
    from receives_window [OF less(3) False] less(2) obtain s1 d1 s2 where
      w: "0 < window_len d" "drains C (feed (take ?n bs) d) s1 d1" "receives C (drop ?n bs) d1 s2 d'" by blast
    have "length (drop ?n bs) < length bs" using False w(1) by (cases bs) auto
    from less(1) [OF this w(3)] drained_idle [OF w(2) less(3)] show ?thesis by (blast intro: auth_keeps_trans)
  qed
qed

text \<open>Bytes that fit are drained as a whole.\<close>

lemma receives_fit:
  assumes "idle d" "reads_lines d \<Longrightarrow> length (ms_buffer (md_decoder d)) + length ys \<le> MAX_META_BUFFER_SIZE"
  shows "receives C ys d s d' \<longleftrightarrow> drains C (feed ys d) s d'"
  using assms
proof (induction "length ys" arbitrary: ys d s rule: less_induct)
  case less
  show ?case
  proof (cases "ys = []")
    case True
    with drains_idle [OF less(2), of C s d'] show ?thesis by (simp add: receives_Nil feed_twice)
  next
    case False
    let ?n = "min (length ys) (window_len d)"
    have w: "0 < window_len d"
      using less(3) idle_window(2) [OF less(2)] False by (cases "reads_lines d"; cases ys) (auto simp: window_len_def Let_def)
    have l: "length (drop ?n ys) < length ys" using False w by (cases ys) auto
    have IH: "receives C (drop ?n ys) d1 t d' \<longleftrightarrow> drains C (feed (drop ?n ys) d1) t d'"
      if dr: "drains C (feed (take ?n ys) d) s1 d1" for s1 d1 t
    proof (rule less(1) [OF l])
      show "idle d1" by (rule drained_idle(1) [OF dr less(2)])
      assume r: "reads_lines d1"
      have "reads_lines d"
        using lines_before [OF drained_idle(2) [OF dr less(2)] _ r] less(2) by (simp add: idle_def)
      with less(3) drains_shrinks [OF dr]
      show "length (ms_buffer (md_decoder d1)) + length (drop ?n ys) \<le> MAX_META_BUFFER_SIZE" by simp
    qed
    have p: "ms_pending_body (md_decoder (feed (take ?n ys) d)) = None" using less(2) by (simp add: idle_def)
    have "drains C (feed ys d) s d' \<longleftrightarrow> (\<exists>s1 d1 s2. drains C (feed (take ?n ys) d) s1 d1
        \<and> drains C (feed (drop ?n ys) d1) s2 d' \<and> s = add_step s1 s2)"
      using drains_feed [OF p, of C "drop ?n ys" s d'] by (simp add: feed_twice)
    then show ?thesis
      unfolding receives_window [OF less(2) False] using w IH by blast
  qed
qed

text \<open>Two reads are one.\<close>

lemma receives_append:
  "idle d \<Longrightarrow> receives C (a @ b) d s d' \<longleftrightarrow>
    (\<exists>s1 d1 s2. receives C a d s1 d1 \<and> receives C b d1 s2 d' \<and> s = add_step s1 s2)"
proof (induction "length a + length b" arbitrary: a b d s rule: less_induct)
  case less
  show ?case
  proof (cases "a = [] \<or> b = []")
    case True
    then show ?thesis by (auto simp: receives_Nil)
  next
    case ne: False
    let ?n = "min (length (a @ b)) (window_len d)"
    show ?thesis
    proof (cases "window_len d \<le> length a")
      case True
      then have n: "?n = window_len d" "min (length a) (window_len d) = window_len d" by auto
      have IH: "0 < window_len d \<Longrightarrow> idle d1 \<Longrightarrow> receives C (drop (window_len d) a @ b) d1 t d' \<longleftrightarrow>
          (\<exists>s1 e s2. receives C (drop (window_len d) a) d1 s1 e \<and> receives C b e s2 d' \<and> t = add_step s1 s2)" for d1 t
        by (rule less(1)) (use ne True in auto)
      note W1 = receives_window [OF less(2), of "a @ b" C s d'] and W2 = receives_window [OF less(2), of a C]
      let ?w = "window_len d"
      have W: "receives C (a @ b) d s d' \<longleftrightarrow> 0 < ?w \<and> (\<exists>s1 d1 t. drains C (feed (take ?w a) d) s1 d1
          \<and> receives C (drop ?w a @ b) d1 t d' \<and> s = add_step s1 t)"
        and V: "receives C a d t e \<longleftrightarrow> 0 < ?w \<and> (\<exists>s1 d1 s2. drains C (feed (take ?w a) d) s1 d1
          \<and> receives C (drop ?w a) d1 s2 e \<and> t = add_step s1 s2)" for t e
        using W1 W2 [of t e] ne True n by simp_all
      show ?thesis unfolding W V
      proof (intro iffI; elim conjE exE)
        fix s1 d1 t
        assume r: "0 < ?w" "drains C (feed (take ?w a) d) s1 d1" "receives C (drop ?w a @ b) d1 t d'" "s = add_step s1 t"
        from IH [OF r(1) drained_idle(1) [OF r(2) less(2)], of t] r(3) obtain s2 e s3 where
          "receives C (drop ?w a) d1 s2 e" "receives C b e s3 d'" "t = add_step s2 s3" by blast
        with r show "\<exists>s1 e s2. (0 < ?w \<and> (\<exists>s3 d1 s4. drains C (feed (take ?w a) d) s3 d1
            \<and> receives C (drop ?w a) d1 s4 e \<and> s1 = add_step s3 s4)) \<and> receives C b e s2 d' \<and> s = add_step s1 s2"
          by (metis add_step_assoc)
      next
        fix s1 e s2 s3 d1 s4
        assume r: "receives C b e s2 d'" "s = add_step s1 s2" "0 < ?w" "drains C (feed (take ?w a) d) s3 d1"
          "receives C (drop ?w a) d1 s4 e" "s1 = add_step s3 s4"
        from IH [OF r(3) drained_idle(1) [OF r(4) less(2)], of "add_step s4 s2"] r(1,5)
        have "receives C (drop ?w a @ b) d1 (add_step s4 s2) d'" by blast
        with r show "0 < ?w \<and> (\<exists>s1 d1 t. drains C (feed (take ?w a) d) s1 d1
            \<and> receives C (drop ?w a @ b) d1 t d' \<and> s = add_step s1 t)"
          by (auto simp: add_step_assoc)
      qed
    next
      case False
      define k where "k = ?n - length a"
      have k: "?n = length a + k" "min (length a) (window_len d) = length a"
        using False ne by (auto simp: k_def)
      have a: "receives C a d s1 d1 \<longleftrightarrow> drains C (feed a d) s1 d1" for s1 d1
        using receives_window [OF less(2), of a C s1 d1] ne False k(2) by (auto simp: receives_Nil)
      have b: "receives C b d1 t d' \<longleftrightarrow> (\<exists>s1 e s2. drains C (feed (take k b) d1) s1 e
          \<and> receives C (drop k b) e s2 d' \<and> t = add_step s1 s2)" if dr: "drains C (feed a d) s0 d1" for s0 d1 t
      proof -
        have i: "idle d1" by (rule drained_idle(1) [OF dr less(2)])
        have "receives C (take k b @ drop k b) d1 t d' \<longleftrightarrow>
            (\<exists>s1 e s2. receives C (take k b) d1 s1 e \<and> receives C (drop k b) e s2 d' \<and> t = add_step s1 s2)"
          by (rule less(1)) (use ne i in \<open>auto simp: min_def\<close>)
        moreover have "receives C (take k b) d1 s1 e \<longleftrightarrow> drains C (feed (take k b) d1) s1 e" for s1 e
        proof (rule receives_fit [OF i])
          assume "reads_lines d1"
          then have "reads_lines d"
            using lines_before [OF drained_idle(2) [OF dr less(2)]] less(2) by (simp add: idle_def)
          then have "length (ms_buffer (md_decoder d)) + (length a + k) \<le> MAX_META_BUFFER_SIZE"
            using False k(1) by (auto simp: window_len_def Let_def)
          moreover have "length (take k b) \<le> k" by simp
          ultimately show "length (ms_buffer (md_decoder d1)) + length (take k b) \<le> MAX_META_BUFFER_SIZE"
            using drains_shrinks [OF dr] by simp
        qed
        ultimately show ?thesis by simp
      qed
      have p: "ms_pending_body (md_decoder (feed a d)) = None" using less(2) by (simp add: idle_def)
      have ab: "drains C (feed (a @ take k b) d) t e \<longleftrightarrow> (\<exists>s1 d1 s2. drains C (feed a d) s1 d1
          \<and> drains C (feed (take k b) d1) s2 e \<and> t = add_step s1 s2)" for t e
        using drains_feed [OF p, of C "take k b" t e] by (simp add: feed_twice)
      have W: "receives C (a @ b) d s d' \<longleftrightarrow> (\<exists>t e s2. drains C (feed (a @ take k b) d) t e
          \<and> receives C (drop k b) e s2 d' \<and> s = add_step t s2)"
        using receives_window [OF less(2), of "a @ b" C s d'] ne False unfolding k(1) by simp
      show ?thesis unfolding W ab a
      proof (intro iffI; elim exE conjE)
        fix t e s2 s1 d1 s3
        assume r: "receives C (drop k b) e s2 d'" "s = add_step t s2" "drains C (feed a d) s1 d1"
          "drains C (feed (take k b) d1) s3 e" "t = add_step s1 s3"
        from b [OF r(3)] r(1,4) have "receives C b d1 (add_step s3 s2) d'" by blast
        with r show "\<exists>s1 d1 s2. drains C (feed a d) s1 d1 \<and> receives C b d1 s2 d' \<and> s = add_step s1 s2"
          by (auto simp: add_step_assoc)
      next
        fix s1 d1 s2
        assume r: "drains C (feed a d) s1 d1" "receives C b d1 s2 d'" "s = add_step s1 s2"
        from b [OF r(1)] r(2) obtain s3 e s4 where "drains C (feed (take k b) d1) s3 e"
          "receives C (drop k b) e s4 d'" "s2 = add_step s3 s4" by blast
        with r show "\<exists>t e s2. (\<exists>s1 d1 s3. drains C (feed a d) s1 d1 \<and> drains C (feed (take k b) d1) s3 e
            \<and> t = add_step s1 s3) \<and> receives C (drop k b) e s2 d' \<and> s = add_step t s2"
          by (metis add_step_assoc)
      qed
    qed
  qed
qed

section \<open>Reads\<close>

definition reads_ok :: "('p, 's::comm_ring_1) sptps_crypto \<Rightarrow> byte list \<Rightarrow> meta_driver \<Rightarrow> connection_step
    \<Rightarrow> meta_driver \<Rightarrow> bool" where
  "reads_ok C bs d s d' \<longleftrightarrow> receive_bytes C bs d = (Inr s, d') \<and> quiet_step (bypass_of d) s"

lemma reads_ok_receives:
  assumes "ms_pending_body (md_decoder d) = None" "auth_ok (md_auth d)"
  shows "reads_ok C bs d s d' \<longleftrightarrow>
    (\<exists>s0 d0 t. drains C d s0 d0 \<and> receives C bs d0 t d' \<and> s = add_step s0 t)"
proof -
  obtain r e where r: "drain_available_frames C d = (r, e)" by fastforce
  obtain r2 e2 where r2: "receive_windows C bs e = (r2, e2)" by fastforce
  have b: "bypass_of e = bypass_of d" if "drains C d s1 e" for s1
    using drains_result [OF that assms(1)] by (simp add: auth_keeps_def)
  show ?thesis
    using r r2 b by (cases r; cases r2) (auto simp: reads_ok_def receives_def drains_def receive_bytes_def)
qed

text \<open>
  C33: How the bytes that arrive on a meta connection are cut into reads makes no difference.  As long
  as no message announces a packet body outside the lines or records, and none is awaited, reading
  two pieces one after the other gives the same bytes out, the same events and the same state as
  reading them at once, and one way succeeds exactly when the other does.
\<close>

theorem reads_split:
  assumes "ms_pending_body (md_decoder d) = None" "auth_ok (md_auth d)"
  shows "reads_ok C (a @ b) d s d' \<longleftrightarrow>
    (\<exists>s1 d1 s2. reads_ok C a d s1 d1 \<and> reads_ok C b d1 s2 d' \<and> s = add_step s1 s2)"
proof -
  have i: "idle d0" if "drains C d s0 d0" for s0 d0
    using drains_result [OF that assms(1)] assms(2) by (auto simp: idle_def auth_keeps_def)
  have app: "receives C (a @ b) d0 t d' \<longleftrightarrow> (\<exists>t1 d1 t2. receives C a d0 t1 d1 \<and> receives C b d1 t2 d'
      \<and> t = add_step t1 t2)" if "drains C d s0 d0" for s0 d0 t
    by (rule receives_append [OF i [OF that]])
  have second: "reads_ok C b d1 t2 d' \<longleftrightarrow> receives C b d1 t2 d'"
    if "drains C d s0 d0" "receives C a d0 t1 d1" for s0 d0 t1 d1 t2
  proof -
    have "idle d1" by (rule conjunct1 [OF receives_result [OF that(2) i [OF that(1)]]])
    then show ?thesis
      using reads_ok_receives [of d1 C b t2 d'] drains_idle [of d1 C] by (auto simp: idle_def)
  qed
  show ?thesis
    unfolding reads_ok_receives [OF assms]
  proof (intro iffI; elim exE conjE)
    fix s0 d0 t
    assume r: "drains C d s0 d0" "receives C (a @ b) d0 t d'" "s = add_step s0 t"
    from app [OF r(1)] r(2) obtain t1 d1 t2 where t: "receives C a d0 t1 d1" "receives C b d1 t2 d'" "t = add_step t1 t2"
      by blast
    from second [OF r(1) t(1)] t(2) have "reads_ok C b d1 t2 d'" by simp
    with r t show "\<exists>s1 d1 s2. (\<exists>s0 d0 t. drains C d s0 d0 \<and> receives C a d0 t d1 \<and> s1 = add_step s0 t)
        \<and> reads_ok C b d1 s2 d' \<and> s = add_step s1 s2"
      by (metis add_step_assoc)
  next
    fix s1 d1 s2 s0 d0 t
    assume r: "reads_ok C b d1 s2 d'" "s = add_step s1 s2" "drains C d s0 d0" "receives C a d0 t d1" "s1 = add_step s0 t"
    from second [OF r(3,4)] r(1) have "receives C b d1 s2 d'" by simp
    with app [OF r(3)] r(4) have "receives C (a @ b) d0 (add_step t s2) d'" by blast
    with r show "\<exists>s0 d0 t. drains C d s0 d0 \<and> receives C (a @ b) d0 t d' \<and> s = add_step s0 t"
      by (auto simp: add_step_assoc)
  qed
qed

text \<open>A new driver between two nodes, without encryption; its peer's first lines.\<close>

definition plain_auth :: "random_draws stream \<Rightarrow> meta_auth" where
  "plain_auth random = with_bypass_security True (meta_auth_new ''a'' False
     \<lparr>pk_expanded = [], pk_public = PublicKey []\<rparr> (PublicKey []) ''655'' 5 0 random)"

definition text_bytes :: "string \<Rightarrow> byte list" where
  "text_bytes s = map of_char s"

lemma plain_fields:
  "md_auth (meta_driver_new a) = a" "md_decoder (meta_driver_new a) = meta_decoder_new"
  "md_pending_tcp (meta_driver_new a) = None" "ma_bypass_security (plain_auth w)" "ma_state (plain_auth w) = ExpectId"
  by (simp_all add: meta_driver_new_def plain_auth_def with_bypass_security_def meta_auth_new_def)

text \<open>A whole line in the buffer of an unencrypted connection is its next frame.\<close>

lemma next_line:
  assumes "reads_lines d" "md_decoder d = \<lparr>ms_buffer = l @ 10 # rest, ms_pending_body = None\<rparr>" "10 \<notin> set l"
    and "decode_meta_line (l @ [10]) = Inr line"
  shows "next_frame d = (Inr (Some (FrameLine line)), d\<lparr>md_decoder := \<lparr>ms_buffer = rest, ms_pending_body = None\<rparr>\<rparr>)"
proof -
  have "takeWhile (\<lambda>b. b \<noteq> 10) (l @ 10 # rest) = l" using assms(3) by (induction l) auto
  with assms show ?thesis by (simp add: next_frame_def next_plaintext_frame_def next_body_frame_def Let_def)
qed

lemma no_line:
  assumes "reads_lines d" "next_body_frame (md_decoder d) = None" "10 \<notin> set (ms_buffer (md_decoder d))"
  shows "next_frame d = (Inr None, d)"
  using assms by (simp add: next_frame_def next_plaintext_frame_def)

text \<open>Bytes that fit into the first window are drained at once.\<close>

lemma bytes_drained:
  assumes "next_frame d = (Inr None, d)" "next_input_window d = Inr (limit, n)" "bs \<noteq> []" "length bs \<le> n"
    and "length (ms_buffer (md_decoder d)) + length bs \<le> limit"
  shows "receive_bytes C bs d = drain_available_frames C (feed bs d)"
proof -
  obtain r e where r: "drain_available_frames C (feed bs d) = (r, e)" by fastforce
  have "push_limited bs limit (md_decoder d) = Inr (md_decoder (feed bs d))"
    using assms(5) by (simp add: push_limited_def feed_def)
  moreover have fd: "d\<lparr>md_decoder := md_decoder (feed bs d)\<rparr> = feed bs d" by (simp add: feed_def)
  moreover have "n \<noteq> 0" using assms(3,4) by (cases bs) auto
  ultimately show ?thesis
    using assms r by (cases r) (simp_all add: receive_bytes_def drain_available_frames.simps [of C d]
        receive_windows.simps [of C bs] receive_windows.simps [of C "[]"] Let_def fd)
qed

lemma drain_frame:
  assumes "next_frame d = (Inr (Some f), d1)" "handle_frame C f d1 = (Inr s, d2)" "drain_available_frames C d2 = (r, d3)"
  shows "drain_available_frames C d = (map_ok (add_step s) r, d3)"
  using assms by (simp add: drain_available_frames.simps [of C d])

lemma drain_idle: "next_frame d = (Inr None, d) \<Longrightarrow> drain_available_frames C d = (Inr no_step, d)"
  by (simp add: drain_available_frames.simps [of C d])

lemma id_parsed: "parse_meta_message ''0 b 17.0'' = Inr (MsgId \<lparr>id_name = ''b'', id_protocol_major = 17, id_protocol_minor = Some 0\<rparr>)"
  by code_simp

lemma id_decoded: "decode_meta_line (text_bytes ''0 b 17.0'' @ [10]) = Inr ''0 b 17.0''" "10 \<notin> set (text_bytes ''0 b 17.0'')"
  by code_simp+

lemma plain_read:
  "\<exists>s d'. reads_ok C (text_bytes ''0 b 17.0'' @ [10]) (meta_driver_new (plain_auth w)) s d'"
proof -
  let ?d = "meta_driver_new (plain_auth w)" and ?l = "text_bytes ''0 b 17.0''"
  have rl: "reads_lines ?d" by (simp add: reads_lines_def plain_fields)
  have len: "length ?l = 8" by (simp add: text_bytes_def)
  have fd: "md_decoder (feed (?l @ [10]) ?d) = \<lparr>ms_buffer = ?l @ 10 # [], ms_pending_body = None\<rparr>"
    by (simp add: feed_def plain_fields meta_decoder_new_def)
  let ?d1 = "(feed (?l @ [10]) ?d)\<lparr>md_decoder := \<lparr>ms_buffer = [], ms_pending_body = None\<rparr>\<rparr>"
  have f: "next_frame (feed (?l @ [10]) ?d) = (Inr (Some (FrameLine ''0 b 17.0'')), ?d1)"
    by (rule next_line [OF _ fd id_decoded(2,1)]) (simp add: rl)
  obtain ack a where a: "receive_auth_message C (MsgId \<lparr>id_name = ''b'', id_protocol_major = 17, id_protocol_minor = Some 0\<rparr>) (plain_auth w)
      = (Inr (auth_step_default\<lparr>as_outbound := [ack]\<rparr>), a)" "ma_bypass_security a" "ma_state a = ExpectAck"
  proof -
    have "check_id ''b''" "''b'' \<noteq> ''a''" "ma_myself (plain_auth w) = ''a''"
      by (code_simp, simp, simp add: plain_auth_def with_bypass_security_def meta_auth_new_def)
    then show ?thesis
      using that by (simp add: receive_auth_message_def receive_id_def validate_peer_id_def PROT_MAJOR_def plain_fields Let_def)
  qed
  let ?m = "MsgId \<lparr>id_name = ''b'', id_protocol_major = 17, id_protocol_minor = Some 0\<rparr>"
  let ?d2 = "?d1\<lparr>md_auth := a\<rparr>"
  have plain: "uses_plaintext_meta a" using a by (simp add: uses_plaintext_meta_def)
  have h: "handle_frame C (FrameLine ''0 b 17.0'') ?d1
      = (Inr \<lparr>cs_outbound = [encode_meta_line ack], cs_events = [EvMessage ?m]\<rparr>, ?d2)"
    using a plain
    by (simp add: handle_frame_def handle_meta_line.simps id_parsed plain_fields feed_def apply_auth_step.simps
        apply_auth_events.simps auth_step_default_def add_step_def event_step_def no_step_def)
  have n2: "next_frame ?d2 = (Inr None, ?d2)"
    by (rule no_line) (simp_all add: reads_lines_def plain next_body_frame_def)
  have "receive_bytes C (?l @ [10]) ?d = drain_available_frames C (feed (?l @ [10]) ?d)"
  proof (rule bytes_drained)
    show "next_frame ?d = (Inr None, ?d)"
      by (rule no_line) (simp_all add: rl plain_fields meta_decoder_new_def next_body_frame_def)
    show "next_input_window ?d = Inr (MAX_META_BUFFER_SIZE, MAX_META_BUFFER_SIZE)"
      by (simp add: next_input_window_def rl plain_fields meta_decoder_new_def)
  qed (simp_all add: len plain_fields meta_decoder_new_def MAX_META_BUFFER_SIZE_def)
  with drain_frame [OF f h drain_idle [OF n2]] show ?thesis
    by (auto simp: reads_ok_def quiet_step_def announces_body_def add_step_def no_step_def)
qed

theorem reads_split_witness:
  "\<exists>s1 d1 s2 d2. reads_ok demo_crypto (text_bytes ''0 b'') (meta_driver_new (plain_auth (sconst (Inl [], Inl [])))) s1 d1
     \<and> reads_ok demo_crypto (text_bytes '' 17.0'' @ [10]) d1 s2 d2"
proof -
  define w :: "random_draws stream" where "w = sconst (Inl [], Inl [])"
  have "ms_pending_body (md_decoder (meta_driver_new (plain_auth w))) = None" "auth_ok (md_auth (meta_driver_new (plain_auth w)))"
    by (simp_all add: plain_fields meta_decoder_new_def auth_ok_def)
  note split = reads_split [OF this, where C = demo_crypto and a = "text_bytes ''0 b''" and b = "text_bytes '' 17.0'' @ [10]"]
  have "text_bytes ''0 b'' @ text_bytes '' 17.0'' @ [10] = text_bytes ''0 b 17.0'' @ [10]" by (simp add: text_bytes_def)
  with plain_read [where w = w and C = demo_crypto] split show ?thesis unfolding w_def [symmetric] by metis
qed

text \<open>
  With an announced body it matters: when a read ends inside the body, a line feed among the bytes
  that arrived makes the driver take them for a line.  Here the packet is the bytes of \<^verbatim>\<open>9\<close>, a
  line feed and \<^verbatim>\<open>!\<close>; in two reads it becomes a PONG message.
\<close>

lemma body_lines:
  "parse_meta_message ''17 3'' = Inr (MsgTcpPacket 3)" "parse_meta_message ''9'' = Inr MsgPong"
  "decode_meta_line ([49, 55, 32, 51] @ [10]) = Inr ''17 3''" "decode_meta_line ([57] @ [10]) = Inr ''9''"
  by code_simp+

lemma split_body_misread:
  assumes d: "md_decoder d = meta_decoder_new" "ma_bypass_security (md_auth d)" "ma_state (md_auth d) = Activated"
  shows "map_ok cs_events (fst (receive_bytes C ([49, 55, 32, 51, 10] @ [57, 10, 33]) d))
      = Inr [EvMessage (MsgTcpPacket 3), EvTcpPacket [57, 10, 33]]"
    and "map_ok cs_events (fst (receive_bytes C ([49, 55, 32, 51, 10] @ [57, 10]) d))
      = Inr [EvMessage (MsgTcpPacket 3), EvMessage MsgPong]"
proof -
  have rl: "reads_lines d" using d by (simp add: reads_lines_def uses_plaintext_meta_def)
  define with_dec where "with_dec b p = d\<lparr>md_decoder := \<lparr>ms_buffer = b, ms_pending_body = p\<rparr>\<rparr>" for b p
  have wd: "reads_lines (with_dec b p)" "md_decoder (with_dec b p) = \<lparr>ms_buffer = b, ms_pending_body = p\<rparr>"
    "ma_state (md_auth (with_dec b p)) = Activated"
    "(with_dec b p)\<lparr>md_decoder := \<lparr>ms_buffer = b', ms_pending_body = p'\<rparr>\<rparr> = with_dec b' p'" for b p b' p'
    using rl d by (simp_all add: with_dec_def)
  have fd: "feed x d = with_dec x None" for x
    using d by (simp add: feed_def with_dec_def meta_decoder_new_def)
  have drained: "receive_bytes C bs d = drain_available_frames C (with_dec bs None)"
    if "bs \<noteq> []" "length bs \<le> MAX_META_BUFFER_SIZE" for bs
    unfolding fd [symmetric]
  proof (rule bytes_drained)
    show "next_frame d = (Inr None, d)"
      by (rule no_line) (simp_all add: rl d meta_decoder_new_def next_body_frame_def)
    show "next_input_window d = Inr (MAX_META_BUFFER_SIZE, MAX_META_BUFFER_SIZE)"
      by (simp add: next_input_window_def rl d meta_decoder_new_def)
  qed (use that d in \<open>simp_all add: meta_decoder_new_def\<close>)
  have max: "8 \<le> MAX_META_BUFFER_SIZE" by (simp add: MAX_META_BUFFER_SIZE_def)
  let ?body = "Some \<lparr>mb_kind = BodyTcpPacket, mb_length = 3\<rparr>"
  have line: "next_frame (with_dec ([49, 55, 32, 51] @ 10 # rest) None)
      = (Inr (Some (FrameLine ''17 3'')), with_dec rest None)" for rest
    using next_line [OF wd(1) wd(2) _ body_lines(3)] by (simp add: wd(4))
  have packet: "handle_frame C (FrameLine ''17 3'') (with_dec rest None)
      = (Inr (event_step (EvMessage (MsgTcpPacket 3))), with_dec rest ?body)" for rest
    by (simp add: handle_frame_def handle_meta_line.simps body_lines wd observe_line_def observe_meta_message_def
        expect_body_def)
  have empty: "next_frame (with_dec [] p) = (Inr None, with_dec [] p)" if "next_body_frame \<lparr>ms_buffer = [], ms_pending_body = p\<rparr> = None" for p
    by (rule no_line) (simp_all add: wd that)
  have body: "next_frame (with_dec [57, 10, 33] ?body) = (Inr (Some (FrameBody BodyTcpPacket [57, 10, 33])), with_dec [] None)"
    by (simp add: next_frame_def next_plaintext_frame_def next_body_frame_def wd)
  have tcp: "handle_frame C (FrameBody BodyTcpPacket x) e = (Inr (event_step (EvTcpPacket x)), e)" for x e
    by (simp add: handle_frame_def)
  have whole: "drain_available_frames C (with_dec ([49, 55, 32, 51] @ 10 # [57, 10, 33]) None)
      = (Inr (add_step (event_step (EvMessage (MsgTcpPacket 3))) (event_step (EvTcpPacket [57, 10, 33]))), with_dec [] None)"
    using drain_frame [OF line packet drain_frame [OF body tcp drain_idle [OF empty]]]
    by (simp add: next_body_frame_def)
  show "map_ok cs_events (fst (receive_bytes C ([49, 55, 32, 51, 10] @ [57, 10, 33]) d))
      = Inr [EvMessage (MsgTcpPacket 3), EvTcpPacket [57, 10, 33]]"
    using whole max by (simp add: drained add_step_def event_step_def)
  have part: "next_frame (with_dec [57, 10] ?body) = (Inr (Some (FrameLine ''9'')), with_dec [] ?body)"
    using body_lines(4) by (simp add: next_frame_def next_plaintext_frame_def next_body_frame_def wd Let_def)
  have pong: "handle_frame C (FrameLine ''9'') (with_dec [] ?body) = (Inr (event_step (EvMessage MsgPong)), with_dec [] ?body)"
    by (simp add: handle_frame_def handle_meta_line.simps body_lines wd observe_line_def observe_meta_message_def)
  have split: "drain_available_frames C (with_dec ([49, 55, 32, 51] @ 10 # [57, 10]) None)
      = (Inr (add_step (event_step (EvMessage (MsgTcpPacket 3))) (event_step (EvMessage MsgPong))), with_dec [] ?body)"
    using drain_frame [OF line packet drain_frame [OF part pong drain_idle [OF empty]]] by (simp add: next_body_frame_def)
  show "map_ok cs_events (fst (receive_bytes C ([49, 55, 32, 51, 10] @ [57, 10]) d))
      = Inr [EvMessage (MsgTcpPacket 3), EvMessage MsgPong]"
    using split max by (simp add: drained add_step_def event_step_def)
qed

end
