(* ===== verification/Meta_Safety.thy ===== *)
theory Meta_Safety
  imports Meta_Split Sptps_Flow
begin

text \<open>
  A meta connection against arbitrary bytes: it reaches the acknowledgement, and hears any message
  but the peer's ID, only under keys that the peer's long-term key signed for this connection.
\<close>

section \<open>A rule for reads\<close>

locale connection_rule = driver_rule +
  assumes decoder_moved: "Q d (Inr no_step, d\<lparr>md_decoder := dec\<rparr>)"
begin

lemma then_rest:
  assumes "Q d (r1, d1)" "r1 = Inr s \<Longrightarrow> Q d1 p" "r1 = Inr s"
  shows "Q d (case p of (r, d') \<Rightarrow> (map_ok (add_step s) r, d'))"
  using assms by (cases p) (auto intro: composed)

lemma then_op: "Q d (Inr no_step, d1) \<Longrightarrow> Q d1 p \<Longrightarrow> Q d p"
  using composed [of d no_step d1 "fst p" "snd p"] by simp

lemma drained: "C' = C \<Longrightarrow> Q d (drain_available_frames C' d)"
proof (induction C' d rule: drain_available_frames.induct)
  case (1 C' d)
  obtain r1 d1 where n: "next_frame d = (r1, d1)" by fastforce
  then obtain dec where "d1 = d\<lparr>md_decoder := dec\<rparr>" by (auto simp: next_frame_def split: prod.splits)
  then have m: "Q d (Inr no_step, d1)" using decoder_moved by simp
  show ?case
  proof (cases "\<exists>f. r1 = Inr (Some f)")
    case False
    with n m failed 1(2) show ?thesis by (cases r1) (auto simp: drain_available_frames.simps [of C d] split: option.splits)
  next
    case True
    then obtain f where f: "r1 = Inr (Some f)" by blast
    obtain r2 d2 where h: "handle_frame C f d1 = (r2, d2)" by fastforce
    have q: "Q d1 (r2, d2)"
      unfolding h [symmetric] by (rule frame_handled) (use next_frame_line n f in blast)
    show ?thesis
    proof (cases r2)
      case (Inl e)
      with n f h 1(2) then_op [OF m q] show ?thesis by (simp add: drain_available_frames.simps [of C d])
    next
      case (Inr s)
      have "Q d2 (drain_available_frames C d2)" using 1(1) [OF n [symmetric] f refl _ Inr 1(2)] h 1(2) by simp
      from then_op [OF m then_rest [OF q this Inr]] n f h Inr 1(2) show ?thesis
        by (simp add: drain_available_frames.simps [of C d])
    qed
  qed
qed

lemma pushed:
  assumes "push_limited bs n (md_decoder d) = Inr dec" "drain_available_frames C (d\<lparr>md_decoder := dec\<rparr>) = (r, d1)"
  shows "Q d (r, d1)"
  using then_op [OF decoder_moved drained [OF refl]] assms(2) by metis

lemma windows_received: "C' = C \<Longrightarrow> Q d (receive_windows C' bs d)"
proof (induction C' bs d rule: receive_windows.induct)
  case (1 C' bs d)
  show ?case
  proof (cases "bs = [] \<or> (\<exists>e. next_input_window d = Inl e) \<or> (\<exists>l. next_input_window d = Inr (l, 0))")
    case True
    with unchanged failed 1(2) show ?thesis by (auto simp: receive_windows.simps [of C bs d])
  next
    case False
    then obtain l a where w: "next_input_window d = Inr (l, a)" "a \<noteq> 0" "bs \<noteq> []"
      by (cases "next_input_window d") auto
    let ?n = "min (length bs) a"
    show ?thesis
    proof (cases "push_limited (take ?n bs) l (md_decoder d)")
      case (Inl e)
      with w unchanged failed 1(2) show ?thesis by (simp add: receive_windows.simps [of C bs d] Let_def)
    next
      case (Inr dec)
      obtain r1 d1 where r: "drain_available_frames C (d\<lparr>md_decoder := dec\<rparr>) = (r1, d1)" by fastforce
      note q = pushed [OF Inr r]
      show ?thesis
      proof (cases r1)
        case (Inl e)
        with w r Inr 1(2) q show ?thesis by (simp add: receive_windows.simps [of C bs d] Let_def)
      next
        case s: (Inr s)
        have "Q d1 (receive_windows C (drop ?n bs) d1)"
          using 1(1) [OF w(3,1) refl w(2) refl Inr] r s 1(2) by simp
        from then_rest [OF q this s] w r Inr s 1(2) show ?thesis
          by (simp add: receive_windows.simps [of C bs d] Let_def)
      qed
    qed
  qed
qed

lemma received: "Q d (receive_bytes C bs d)"
proof -
  obtain r1 d1 where r: "drain_available_frames C d = (r1, d1)" by fastforce
  have q: "Q d (r1, d1)" using drained [OF refl, of d] r by simp
  show ?thesis
  proof (cases r1)
    case (Inl e)
    with r q show ?thesis by (simp add: receive_bytes_def)
  next
    case (Inr s)
    from then_rest [OF q windows_received [OF refl] Inr] r Inr show ?thesis by (simp add: receive_bytes_def)
  qed
qed

end

interpretation auth_reads: connection_rule C keeps_auth
  by unfold_locales (simp add: keeps_auth_def auth_keeps_refl)

text \<open>The messages a read reports are messages the parser accepts.\<close>

definition reads_parsed :: "meta_driver \<Rightarrow> (meta_connection_error + connection_step) \<times> meta_driver \<Rightarrow> bool" where
  "reads_parsed d p \<longleftrightarrow> (\<forall>s m. fst p = Inr s \<longrightarrow> EvMessage m \<in> set (cs_events s) \<longrightarrow> (\<exists>line. parse_meta_message line = Inr m))"

lemma reads_parsed_composed: "reads_parsed d (Inr s, d') \<Longrightarrow> reads_parsed d' (r, d'') \<Longrightarrow> reads_parsed d (map_ok (add_step s) r, d'')"
  by (cases r) (auto simp: reads_parsed_def add_step_def)

interpretation parsed_reads: connection_rule C reads_parsed
  by unfold_locales (auto intro: reads_parsed_composed, auto simp: reads_parsed_def no_step_def event_step_def)

section \<open>The invariant\<close>

text \<open>
  The session of a connection is one with the peer that sent the ID, under the label of the two
  names, and all its keys are signed; past the handshake it has keys.
\<close>

definition session_of :: "('p, 's::comm_ring_1) sptps_crypto \<Rightarrow> meta_auth \<Rightarrow> string \<Rightarrow> handshake_session \<Rightarrow> bool" where
  "session_of C a peer s \<longleftrightarrow> session_inv s \<and> keys_signed C s \<and> \<not> fst (codec_in (hs_codec s))
     \<and> hs_peer_key s = ma_peer_key a \<and> hs_my_key s = ma_private_key a \<and> hs_initiator s = ma_outgoing a
     \<and> hs_label s = (if ma_outgoing a then sptps_tcp_label (ma_myself a) peer else sptps_tcp_label peer (ma_myself a))"

definition keyed :: "('p, 's::comm_ring_1) sptps_crypto \<Rightarrow> meta_auth \<Rightarrow> bool" where
  "keyed C a \<longleftrightarrow> (\<exists>peer s. ma_peer a = Some peer \<and> check_id peer \<and> peer \<noteq> ma_myself a
     \<and> ma_session a = Some s \<and> session_of C a peer s \<and> is_established s)"

definition auth_inv :: "('p, 's::comm_ring_1) sptps_crypto \<Rightarrow> meta_auth \<Rightarrow> bool" where
  "auth_inv C a \<longleftrightarrow> (case ma_session a of
       None \<Rightarrow> ma_state a = ExpectId
     | Some s \<Rightarrow> ma_state a \<noteq> ExpectId \<and> (\<exists>peer. ma_peer a = Some peer \<and> check_id peer \<and> peer \<noteq> ma_myself a
         \<and> session_of C a peer s) \<and> (ma_state a = AuthHandshake \<or> is_established s))"

lemma auth_inv_keyed: "auth_inv C a \<Longrightarrow> ma_state a = ExpectAck \<or> ma_state a = Activated \<Longrightarrow> keyed C a"
  by (auto simp: auth_inv_def keyed_def split: option.splits)

text \<open>What an operation on the authentication keeps.\<close>

definition auth_moves :: "('p, 's::comm_ring_1) sptps_crypto \<Rightarrow> meta_auth \<Rightarrow> meta_auth \<Rightarrow> bool" where
  "auth_moves C a b \<longleftrightarrow> ma_bypass_security b = ma_bypass_security a
     \<and> (\<not> ma_bypass_security a \<longrightarrow> auth_inv C a \<longrightarrow> auth_inv C b \<and> (keyed C a \<longrightarrow> keyed C b))"

lemma auth_moves_refl: "auth_moves C a a"
  by (simp add: auth_moves_def)

lemma auth_moves_trans: "auth_moves C a b \<Longrightarrow> auth_moves C b c \<Longrightarrow> auth_moves C a c"
  by (simp add: auth_moves_def)

lemma session_of_fields:
  assumes "session_of C a peer s" "session_inv t" "keys_signed C t" "same_peers t s"
    "fst (codec_in (hs_codec t)) = fst (codec_in (hs_codec s))"
  shows "session_of C a peer t"
  using assms by (simp add: session_of_def same_peers_def)

lemma session_of_quiet:
  assumes "session_of C a peer s" "quiet s t" "fst (codec_in (hs_codec t)) = fst (codec_in (hs_codec s))"
  shows "session_of C a peer t"
proof -
  have "same_peers t s" "key_state t = key_state s" using quiet_fields [OF assms(2)]
    by (simp_all add: same_peers_def key_state_def)
  with session_of_fields [OF assms(1) quiet_inv [OF assms(2)]] keys_signed_same [of t s C] assms
  show "session_of C a peer t" by (simp add: session_of_def)
qed

lemma quiet_established: "quiet s t \<Longrightarrow> is_established t \<longleftrightarrow> is_established s"
  by (simp add: is_established_def quiet_fields)

lemma auth_inv_session:
  assumes "auth_inv C a" "ma_session a = Some s"
    and "\<And>peer. session_of C a peer s \<Longrightarrow> session_of C a peer t" "is_established s \<Longrightarrow> is_established t"
    and "st = ma_state a \<or> st = ExpectAck \<and> is_established t"
  shows "auth_inv C (a\<lparr>ma_random := w, ma_session := Some t, ma_state := st\<rparr>)"
    and "keyed C a \<Longrightarrow> keyed C (a\<lparr>ma_random := w, ma_session := Some t, ma_state := st\<rparr>)"
proof -
  have so: "session_of C (a\<lparr>ma_random := w, ma_session := Some t, ma_state := st\<rparr>) = session_of C a"
    by (simp add: fun_eq_iff session_of_def)
  from assms show "auth_inv C (a\<lparr>ma_random := w, ma_session := Some t, ma_state := st\<rparr>)"
    by (auto simp: auth_inv_def so)
  from assms(2-4) show "keyed C a \<Longrightarrow> keyed C (a\<lparr>ma_random := w, ma_session := Some t, ma_state := st\<rparr>)"
    by (auto simp: keyed_def so)
qed

section \<open>The operations\<close>

lemma auth_send_moves:
  assumes "send_sptps_application C payload a = (r, b)"
  shows "auth_moves C a b"
proof (cases "ma_session a")
  case None
  with assms auth_moves_refl show ?thesis by (auto simp: send_sptps_application_def)
next
  case (Some s)
  obtain r1 t where t: "send_record C SPTPS_META_RECORD payload s = (r1, t)" by fastforce
  have q: "quiet s t" "fst (codec_in (hs_codec t)) = fst (codec_in (hs_codec s))"
    using t by (auto simp: send_record_def split: if_splits prod.splits dest: encode_keys codec_kind(1) intro: quietI(1))
  have b: "b = a\<lparr>ma_random := ma_random a, ma_session := Some t, ma_state := ma_state a\<rparr>" "ma_bypass_security b = ma_bypass_security a"
    using assms Some t by (auto simp: send_sptps_application_def)
  show ?thesis
    unfolding auth_moves_def b(2)
  proof (intro impI conjI refl)
    assume "auth_inv C a"
    note k = auth_inv_session [OF this Some session_of_quiet [OF _ q], of "ma_state a" "ma_random a"]
    show "auth_inv C b" "keyed C a \<Longrightarrow> keyed C b"
      unfolding b(1) by (rule k; simp add: quiet_established [OF q(1)])+
  qed
qed

lemma established_receive:
  assumes ok: "curve_ok C" and d: "receive_datagram C draws d s = (r, t)" and s: "is_established s"
  shows "is_established t"
proof (cases "key_state t = key_state s")
  case True
  with s show ?thesis by (simp add: is_established_def key_state_def)
next
  case False
  from changed_keys_signed [OF ok d this] s show ?thesis by (auto simp: is_established_def)
qed

lemma completed_established:
  assumes ok: "curve_ok C" and inv: "session_inv s" and d: "receive_datagram C draws d s = (Inr events, t)"
    and e: "HandshakeComplete \<in> set events"
  shows "is_established t"
proof (cases "is_established s")
  case True
  with established_receive [OF ok d] show ?thesis by simp
next
  case False
  then have "first_handshake s" using inv by (auto simp: first_handshake_def is_established_def session_inv_def)
  from first_handshake_receives [OF ok this d] e show ?thesis by auto
qed

lemma auth_record_moves:
  assumes ok: "curve_ok C" and r: "receive_sptps_record C rec a = (r, b)"
  shows "auth_moves C a b"
proof (cases "ma_state a = ExpectId \<or> ma_peer a = None \<or> ma_session a = None")
  case True
  with r auth_moves_refl show ?thesis by (auto simp: receive_sptps_record_def split: if_splits option.splits)
next
  case False
  then obtain peer s where p: "ma_state a \<noteq> ExpectId" "ma_peer a = Some peer" "ma_session a = Some s" by auto
  obtain x u where d: "receive_datagram C (shd (ma_random a)) rec s = (x, u)" by fastforce
  have so: "session_of C a q s \<Longrightarrow> session_of C a q u" for q
    using session_of_fields [of C a q s u] receive_datagram_inv [OF ok _ d] receive_keys_signed [OF ok _ d]
      receive_extends [OF d] by (auto simp: session_of_def extends_def)
  have drained: "quiet u (u\<lparr>hs_outbound := []\<rparr>)" by (rule quiet_outbound)
  have so': "session_of C a q s \<Longrightarrow> session_of C a q (u\<lparr>hs_outbound := []\<rparr>)" for q
    using session_of_quiet [OF so drained] by simp
  have est: "is_established s \<Longrightarrow> is_established u" by (rule established_receive [OF ok d])
  have b: "ma_bypass_security b = ma_bypass_security a \<and> (\<exists>t st. b = a\<lparr>ma_random := stl (ma_random a), ma_session := Some t, ma_state := st\<rparr>
      \<and> (t = u \<or> t = u\<lparr>hs_outbound := []\<rparr>)
      \<and> (st = ma_state a \<or> st = ExpectAck \<and> (\<exists>events. x = Inr events \<and> HandshakeComplete \<in> set events)))"
  proof (cases x)
    case (Inl e)
    have "b = a\<lparr>ma_random := stl (ma_random a), ma_session := Some u\<rparr>"
      using r p d Inl by (simp add: receive_sptps_record_def Let_def)
    then show ?thesis
      by (intro conjI exI [of _ u] exI [of _ "ma_state a"]) simp_all
  next
    case (Inr events)
    let ?st = "if HandshakeComplete \<in> set events \<and> ma_state a = AuthHandshake then ExpectAck else ma_state a"
    have "b = a\<lparr>ma_random := stl (ma_random a), ma_session := Some (u\<lparr>hs_outbound := []\<rparr>), ma_state := ?st\<rparr>"
      using r p d Inr by (auto simp: receive_sptps_record_def drain_outbound_def Let_def)
    then show ?thesis using Inr
      by (intro conjI exI [of _ "u\<lparr>hs_outbound := []\<rparr>"] exI [of _ ?st]) simp_all
  qed
  then obtain t st where t: "b = a\<lparr>ma_random := stl (ma_random a), ma_session := Some t, ma_state := st\<rparr>"
    "t = u \<or> t = u\<lparr>hs_outbound := []\<rparr>"
    "st = ma_state a \<or> st = ExpectAck \<and> (\<exists>events. x = Inr events \<and> HandshakeComplete \<in> set events)" by blast
  have et: "is_established t \<longleftrightarrow> is_established u" using t(2) quiet_established [OF drained] by auto
  show ?thesis
    unfolding auth_moves_def
  proof (intro impI conjI)
    assume inv: "auth_inv C a"
    then have si: "session_inv s" using p by (auto simp: auth_inv_def session_of_def)
    have st: "st = ma_state a \<or> st = ExpectAck \<and> is_established t"
      using t(3) completed_established [OF ok si, of "shd (ma_random a)" rec] d et by auto
    note k = auth_inv_session [OF inv p(3), of t st "stl (ma_random a)"]
    show "auth_inv C b" "keyed C a \<Longrightarrow> keyed C b"
      unfolding t(1) by (rule k; use so so' t(2) est et st in auto)+
  qed (use b in simp)
qed

lemma id_started:
  assumes "start_tcp C draws i key pk l = Inr s"
  shows "first_handshake s \<and> hs_my_key s = key \<and> hs_peer_key s = pk \<and> hs_label s = l \<and> hs_initiator s = i
    \<and> \<not> fst (codec_in (hs_codec s))"
proof -
  from assms obtain e n where "start_session C i key pk l (TcpCodec tcp_new) e n = Inr s"
    by (auto simp: start_tcp_def start_tcp_with_ephemeral_def and_then_def split: sum.splits prod.splits)
  from started_first [OF this] show ?thesis by simp
qed

lemma id_moves:
  assumes r: "receive_id C i a = (r, b)" and np: "\<not> ma_bypass_security a" and inv: "auth_inv C a"
  shows "\<not> ma_bypass_security b \<and> auth_inv C b \<and> (keyed C a \<longrightarrow> keyed C b)"
proof (cases "ma_state a = ExpectId")
  case False
  with r np inv show ?thesis by (simp add: receive_id_def)
next
  case True
  then have no: "ma_session a = None" using inv by (auto simp: auth_inv_def split: option.splits)
  then have nk: "\<not> keyed C a" by (simp add: keyed_def)
  define a1 where "a1 = a\<lparr>ma_peer := Some (id_name i), ma_random := stl (ma_random a)\<rparr>"
  define label where "label = (if ma_outgoing a then sptps_tcp_label (ma_myself a) (id_name i)
                               else sptps_tcp_label (id_name i) (ma_myself a))"
  let ?start = "start_tcp C (shd (ma_random a)) (ma_outgoing a) (ma_private_key a) (ma_peer_key a) label"
  have cases: "(\<not> ma_bypass_security b \<and> ma_session b = None \<and> ma_state b = ExpectId)
      \<or> (\<exists>s. ?start = Inr s \<and> b = a1\<lparr>ma_session := Some (s\<lparr>hs_outbound := []\<rparr>), ma_state := AuthHandshake\<rparr>
          \<and> check_id (id_name i) \<and> id_name i \<noteq> ma_myself a)"
    using r np True no
    by (auto simp: receive_id_def a1_def label_def validate_peer_id_def drain_outbound_def Let_def
        split: if_splits sum.splits)
  then show ?thesis
  proof (elim disjE exE conjE)
    fix s
    assume s: "?start = Inr s" and b: "b = a1\<lparr>ma_session := Some (s\<lparr>hs_outbound := []\<rparr>), ma_state := AuthHandshake\<rparr>"
      and n: "check_id (id_name i)" "id_name i \<noteq> ma_myself a"
    from id_started [OF s] have "session_of C b (id_name i) s"
      by (simp add: session_of_def b a1_def label_def first_handshake_def first_keys_signed)
    from session_of_quiet [OF this quiet_outbound] have "session_of C b (id_name i) (s\<lparr>hs_outbound := []\<rparr>)" by simp
    with n np nk show ?thesis by (simp add: auth_inv_def b a1_def)
  qed (simp_all add: auth_inv_def nk)
qed

lemma auth_message_moves:
  assumes "receive_auth_message C m a = (r, b)"
  shows "auth_moves C a b"
    and "r = Inr st \<Longrightarrow> message_request m \<noteq> ReqId \<Longrightarrow> \<not> ma_bypass_security a \<Longrightarrow> auth_inv C a \<Longrightarrow> keyed C b"
proof -
  have other: "b = a \<and> (\<exists>e. r = Inl e)
      \<or> b = a\<lparr>ma_random := ma_random a, ma_session := ma_session a, ma_state := Activated\<rparr> \<and> ma_state a = ExpectAck"
    if "message_request m \<noteq> ReqId"
    using assms that by (cases m) (auto simp: receive_auth_message_def receive_auth_ack_def
        split: if_splits ack_message.splits option.splits)
  have act: "auth_inv C b \<and> keyed C b \<and> ma_bypass_security b = ma_bypass_security a"
    if "b = a\<lparr>ma_random := ma_random a, ma_session := ma_session a, ma_state := Activated\<rparr>" "ma_state a = ExpectAck" "auth_inv C a"
    using that by (auto simp: auth_inv_def keyed_def session_of_def split: option.splits)
  show "auth_moves C a b"
  proof (cases "message_request m = ReqId")
    case True
    then obtain i where "m = MsgId i" by (cases m) auto
    with assms id_moves [of C i a r b] auth_message_keeps [OF assms] show ?thesis
      by (auto simp: auth_moves_def receive_auth_message_def auth_keeps_def)
  next
    case False
    from other [OF this] act show ?thesis unfolding auth_moves_def by fastforce
  qed
  show "r = Inr st \<Longrightarrow> message_request m \<noteq> ReqId \<Longrightarrow> \<not> ma_bypass_security a \<Longrightarrow> auth_inv C a \<Longrightarrow> keyed C b"
    using other act by blast
qed

section \<open>The connection\<close>

definition stays_authentic :: "('p, 's::comm_ring_1) sptps_crypto \<Rightarrow> meta_driver \<Rightarrow> (meta_connection_error + connection_step) \<times> meta_driver \<Rightarrow> bool" where
  "stays_authentic C d p \<longleftrightarrow> auth_moves C (md_auth d) (md_auth (snd p))
     \<and> (\<not> ma_bypass_security (md_auth d) \<longrightarrow> auth_inv C (md_auth d) \<longrightarrow> (\<forall>s m. fst p = Inr s \<longrightarrow> EvMessage m \<in> set (cs_events s)
          \<longrightarrow> message_request m \<noteq> ReqId \<longrightarrow> keyed C (md_auth (snd p))))"

lemma authentic_rule:
  assumes ok: "curve_ok C"
  shows "connection_rule C (stays_authentic C)"
proof unfold_locales
  show "stays_authentic C d (map_ok (add_step s) r, d'')"
    if "stays_authentic C d (Inr s, d')" "stays_authentic C d' (r, d'')" for d s d' r d''
    using that by (cases r) (auto simp: stays_authentic_def auth_moves_def add_step_def)
  show "stays_authentic C d (Inr no_step, d\<lparr>md_auth := a\<rparr>)
      \<and> (\<forall>st. ra = Inr st \<longrightarrow> stays_authentic C d (Inr (event_step (EvMessage m)), d\<lparr>md_auth := a\<rparr>))"
    if "receive_auth_message C m (md_auth d) = (ra, a)" for m d ra a
    using auth_message_moves [OF that] by (auto simp: stays_authentic_def no_step_def event_step_def)
  show "stays_authentic C d (Inr no_step, d\<lparr>md_auth := a\<rparr>)"
    if "receive_sptps_record C rec (md_auth d) = (rr, a)" for rec d rr a
    using auth_record_moves [OF ok that] by (simp add: stays_authentic_def no_step_def)
  show "stays_authentic C d (Inr no_step, d')" if "on_auth (send_sptps_meta_message C m) d = (rs, d')" for m d rs d'
    using that auth_send_moves
    by (fastforce simp: stays_authentic_def no_step_def on_auth_def send_sptps_meta_message_def split: prod.splits)
  show "stays_authentic C d (Inr (event_step (EvMessage m)), observe_line source m d)"
    if "ma_state (md_auth d) = Activated" for m d source
    using that auth_inv_keyed by (auto simp: stays_authentic_def auth_moves_refl event_step_def)
qed (auto simp: stays_authentic_def auth_moves_refl no_step_def)

text \<open>
  What can become of a connection: bytes read in any pieces, and anything sent, with errors or
  without.
\<close>

inductive meta_reachable :: "('p, 's::comm_ring_1) sptps_crypto \<Rightarrow> meta_driver \<Rightarrow> bool" for C where
  Opened: "meta_reachable C (meta_driver_new (with_bypass_security bypass
     (meta_auth_new myself outgoing private_key peer_key port weight options random)))"
| Read: "meta_reachable C d \<Longrightarrow> receive_bytes C bs d = (r, d') \<Longrightarrow> meta_reachable C d'"
| Sent_message: "meta_reachable C d \<Longrightarrow> send_meta_message C m d = (rm, d') \<Longrightarrow> meta_reachable C d'"
| Sent_tcp: "meta_reachable C d \<Longrightarrow> send_tcp_packet C packet d = (rt, d') \<Longrightarrow> meta_reachable C d'"
| Sent_sptps: "meta_reachable C d \<Longrightarrow> send_sptps_packet C packet d = (rs, d') \<Longrightarrow> meta_reachable C d'"

lemma message_sent_moves: "send_meta_message C m d = (r, d') \<Longrightarrow> auth_moves C (md_auth d) (md_auth d')"
  using auth_moves_refl auth_send_moves
  by (fastforce simp: send_meta_message_def on_auth_def send_sptps_meta_message_def split: if_splits prod.splits)

lemma packet_sent_moves:
  "send_tcp_packet C packet d = (rt, d') \<Longrightarrow> auth_moves C (md_auth d) (md_auth d')"
  "send_sptps_packet C packet d = (rs, d') \<Longrightarrow> auth_moves C (md_auth d) (md_auth d')"
  by (auto simp: map_prod_def send_tcp_packet_def send_sptps_packet_def on_auth_def auth_moves_refl dest!: message_sent_moves auth_send_moves
      elim: auth_moves_trans split: sum.splits prod.splits if_splits)

lemma reachable_auth:
  assumes ok: "curve_ok C" and d: "meta_reachable C d"
  shows "\<not> ma_bypass_security (md_auth d) \<Longrightarrow> auth_inv C (md_auth d)"
  using d
proof induction
  case (Read d bs r d')
  from connection_rule.received [OF authentic_rule [OF ok], of d bs] Read show ?case
    by (simp add: stays_authentic_def auth_moves_def)
next
  case (Sent_message d m r d')
  with message_sent_moves [OF Sent_message(2)] show ?case by (simp add: auth_moves_def)
next
  case (Sent_tcp d p r d')
  with packet_sent_moves(1) [OF Sent_tcp(2)] show ?case by (simp add: auth_moves_def)
next
  case (Sent_sptps d p r d')
  with packet_sent_moves(2) [OF Sent_sptps(2)] show ?case by (simp add: auth_moves_def)
qed (simp add: meta_driver_new_def with_bypass_security_def meta_auth_new_def auth_inv_def)

text \<open>The keys of a connection, vouched for by the peer it names.\<close>

definition peer_vouched :: "('p, 's::comm_ring_1) sptps_crypto \<Rightarrow> meta_driver \<Rightarrow> bool" where
  "peer_vouched C d \<longleftrightarrow> (\<exists>peer s ko ki mo mi. ma_peer (md_auth d) = Some peer \<and> check_id peer
     \<and> peer \<noteq> ma_myself (md_auth d) \<and> ma_session (md_auth d) = Some s
     \<and> hs_peer_key s = ma_peer_key (md_auth d) \<and> hs_initiator s = ma_outgoing (md_auth d)
     \<and> hs_label s = (if ma_outgoing (md_auth d) then sptps_tcp_label (ma_myself (md_auth d)) peer
                     else sptps_tcp_label peer (ma_myself (md_auth d)))
     \<and> codec_out_key (hs_codec s) = Some ko \<and> material_signed C s mo \<and> ko = snd (keys_for_role (hs_initiator s) mo)
     \<and> codec_in_key (hs_codec s) = Some ki \<and> material_signed C s mi \<and> ki = fst (keys_for_role (hs_initiator s) mi))"

lemma keyed_vouched: "keyed C (md_auth d) \<Longrightarrow> peer_vouched C d"
  unfolding keyed_def session_of_def keys_signed_def is_established_def peer_vouched_def by blast

lemma activation_vouched:
  assumes "curve_ok C" "meta_reachable C d" "\<not> ma_bypass_security (md_auth d)"
    and "receive_bytes C bs d = (r, d')"
    and "ma_state (md_auth d') = ExpectAck \<or> ma_state (md_auth d') = Activated
      \<or> (\<exists>s m. r = Inr s \<and> EvMessage m \<in> set (cs_events s) \<and> message_request m \<noteq> ReqId)"
  shows "peer_vouched C d'"
proof -
  have inv: "auth_inv C (md_auth d)" by (rule reachable_auth [OF assms(1,2,3)])
  from connection_rule.received [OF authentic_rule [OF assms(1)], of d bs] assms(3,4) inv
  have "auth_inv C (md_auth d')"
    "\<forall>s m. r = Inr s \<longrightarrow> EvMessage m \<in> set (cs_events s) \<longrightarrow> message_request m \<noteq> ReqId \<longrightarrow> keyed C (md_auth d')"
    by (simp_all add: stays_authentic_def auth_moves_def)
  with assms(5) auth_inv_keyed have "keyed C (md_auth d')" by blast
  then show ?thesis by (rule keyed_vouched)
qed

end
