(* ===== verification/Meta_Activation.thy ===== *)
theory Meta_Activation
  imports Meta_Safety Protocol_Props
begin

text \<open>
  Two honest drivers: from the ID lines over the SPTPS handshake to the acknowledgements, each
  reading what the other sent, both connections are activated after five rounds.
\<close>

section \<open>Lines\<close>

text \<open>A word of printable ASCII survives the way over bytes.\<close>

definition printable :: "string \<Rightarrow> bool" where
  "printable s \<longleftrightarrow> (\<forall>c \<in> set s. graphic c \<or> c = CHR '' '')"

lemma valid_ascii: "\<forall>b \<in> set bs. b < 0x80 \<Longrightarrow> valid_utf8 bs"
  by (induction bs) auto

lemma of_char_bounds:
  assumes "graphic c \<or> c = CHR '' ''"
  shows "(of_char c :: byte) < 0x80" "(of_char c :: byte) \<noteq> 10" "(of_char c :: byte) \<noteq> 13"
    "char_of (unat (of_char c :: byte)) = c"
proof -
  have n: "of_char c = (of_nat (code c) :: byte)" by (simp add: code_def of_nat_of_char)
  have c: "32 \<le> code c" "code c \<le> 126" using assms by (auto simp: graphic_def code_def)
  then have u: "unat (of_char c :: byte) = code c" unfolding n by (simp add: unsigned_of_nat take_bit_nat_def)
  then show "char_of (unat (of_char c :: byte)) = c" by (simp add: code_def)
  from u c show "(of_char c :: byte) < 0x80" by (simp add: word_less_nat_alt)
  from u c show "(of_char c :: byte) \<noteq> 10" "(of_char c :: byte) \<noteq> 13" by auto
qed

lemma line_decoded:
  assumes "printable s"
  shows "decode_meta_line (map of_char s @ [10]) = Inr s" "10 \<notin> set (map of_char s :: byte list)"
proof -
  note b = of_char_bounds [OF assms [unfolded printable_def, rule_format]]
  have p10: "pop_byte 10 (map of_char s @ [10]) = map of_char s" by (simp add: pop_byte_def)
  have p13: "pop_byte 13 (map of_char s) = map of_char s"
    using b(3) last_in_set [of "map of_char s :: byte list"] by (auto simp: pop_byte_def)
  have "valid_utf8 (map of_char s)" by (rule valid_ascii) (use b(1) in auto)
  moreover have "map (char_of \<circ> unat) (map of_char s :: byte list) = s"
    using b(4) by (simp add: map_idI)
  ultimately show "decode_meta_line (map of_char s @ [10]) = Inr s" by (simp add: decode_meta_line_def p10 p13)
  show "10 \<notin> set (map of_char s :: byte list)" using b(2) by auto
qed

lemma printable_unwords: "\<forall>w \<in> set ws. printable w \<Longrightarrow> printable (unwords ws)"
  by (induction ws rule: unwords.induct) (auto simp: printable_def)

lemma printable_words:
  "printable (show_int i)" "printable (show_hex_u32 w)" "printable (show_version m)" "check_id n \<Longrightarrow> printable n"
proof -
  show "printable (show_int i)" "printable (show_hex_u32 w)" "printable (show_version m)"
    using graphic_show_int graphic_show_hex by (auto simp: printable_def show_hex_u32_def show_version_def)
  have "graphic CHR ''_''" by (simp add: graphic_def code_def)
  then show "check_id n \<Longrightarrow> printable n" by (auto simp: printable_def check_id_def graphic_alnum)
qed

lemma line_read:
  assumes "wf_message m" "\<forall>w \<in> set (message_fields m). printable w"
  shows "decode_meta_line (encode_meta_line m) = Inr (show_meta_message m)"
    "parse_meta_message (show_meta_message m) = Inr m"
    "10 \<notin> set (map of_char (show_meta_message m) :: byte list)"
proof -
  have "printable (show_meta_message m)"
    unfolding show_meta_message_def using assms(2) printable_words(1) by (intro printable_unwords) auto
  with line_decoded show "decode_meta_line (encode_meta_line m) = Inr (show_meta_message m)"
    "10 \<notin> set (map of_char (show_meta_message m) :: byte list)" by (simp_all add: encode_meta_line_def)
  from parse_show_message [OF assms(1)] show "parse_meta_message (show_meta_message m) = Inr m" .
qed

section \<open>Whole lines and records\<close>

text \<open>A driver with nothing buffered and nothing awaited.\<close>

definition rests :: "meta_driver \<Rightarrow> bool" where
  "rests d \<longleftrightarrow> md_decoder d = meta_decoder_new \<and> auth_ok (md_auth d)"

lemma rests_idle: "rests d \<Longrightarrow> idle d"
  by (simp add: rests_def idle_def meta_decoder_new_def next_frame_def next_plaintext_frame_def next_sptps_frame_def
      next_body_frame_def expected_sptps_frame_len_def)

lemma rests_after:
  assumes "rests d" "handle_frame C f d = (Inr s, d')" "quiet_step (bypass_of d) s"
    and "\<And>line. f = FrameLine line \<Longrightarrow> reads_lines d"
  shows "rests d'"
proof -
  have d: "ms_buffer (md_decoder d) = []" "ms_pending_body (md_decoder d) = None" "auth_ok (md_auth d)"
    using assms(1) by (simp_all add: rests_def meta_decoder_new_def)
  have "ms_buffer (md_decoder d') = []" using frame_keeps_buffer [OF assms(2,4)] d(1) by simp
  moreover have "ms_pending_body (md_decoder d') = None"
    using quiet.frame_handled [of f d C] assms(2-4) d(2) by (simp add: no_body_awaited_def)
  moreover have "auth_ok (md_auth d')"
    using auth.frame_handled [of f d C] assms(2,4) d(3) by (simp add: keeps_auth_def auth_keeps_def)
  ultimately show ?thesis by (simp add: rests_def meta_decoder_new_def)
qed

lemma frame_read:
  assumes d: "rests d" and f: "next_frame (feed bs d) = (Inr (Some f), d)"
    and h: "handle_frame C f d = (Inr s, d')" and q: "quiet_step (bypass_of d) s"
    and fit: "reads_lines d \<Longrightarrow> length bs \<le> MAX_META_BUFFER_SIZE"
  shows "receives C bs d s d' \<and> rests d'"
proof -
  have r: "rests d'" by (rule rests_after [OF d h q]) (use next_frame_line f in blast)
  then have "next_frame d' = (Inr None, d')" using rests_idle [of d'] by (simp add: idle_def)
  then have "drain_available_frames C d' = (Inr no_step, d')" by (rule drain_idle)
  from drain_frame [OF f h this] q have "drains C (feed bs d) s d'" by (simp add: drains_def)
  moreover have "length (ms_buffer (md_decoder d)) = 0" using d by (simp add: rests_def meta_decoder_new_def)
  ultimately show ?thesis using receives_fit [OF rests_idle [OF d], of bs C s d'] fit r by simp
qed

lemma record_read:
  assumes d: "rests d" and l: "\<not> reads_lines d"
    and len: "expected_sptps_frame_len (sptps_in_encrypted (md_auth d)) \<lparr>ms_buffer = rec, ms_pending_body = None\<rparr> = Some (length rec)"
    and h: "handle_frame C (FrameSptpsRecord rec) d = (Inr s, d')" and q: "quiet_step (bypass_of d) s"
  shows "receives C rec d s d' \<and> rests d'"
proof (rule frame_read [OF d _ h q])
  have e: "md_decoder d = \<lparr>ms_buffer = [], ms_pending_body = None\<rparr>" using d by (simp add: rests_def meta_decoder_new_def)
  then have fd: "md_decoder (feed rec d) = \<lparr>ms_buffer = rec, ms_pending_body = None\<rparr>" by (simp add: feed_def)
  from e have fed: "(feed rec d)\<lparr>md_decoder := \<lparr>ms_buffer = [], ms_pending_body = None\<rparr>\<rparr> = d" by (simp add: feed_def)
  from l len fed show "next_frame (feed rec d) = (Inr (Some (FrameSptpsRecord rec)), d)"
    by (simp add: next_frame_def next_sptps_frame_def next_body_frame_def fd)
qed (use l in simp)

lemma message_read:
  assumes d: "rests d" and l: "reads_lines d" and m: "wf_message m" "\<forall>w \<in> set (message_fields m). printable w"
    and fit: "length (encode_meta_line m) \<le> MAX_META_BUFFER_SIZE"
    and h: "handle_frame C (FrameLine (show_meta_message m)) d = (Inr s, d')" and q: "quiet_step (bypass_of d) s"
  shows "receives C (encode_meta_line m) d s d' \<and> rests d'"
proof (rule frame_read [OF d _ h q fit])
  let ?l = "map of_char (show_meta_message m)"
  have e: "md_decoder d = \<lparr>ms_buffer = [], ms_pending_body = None\<rparr>" using d by (simp add: rests_def meta_decoder_new_def)
  then have "md_decoder (feed (?l @ [10]) d) = \<lparr>ms_buffer = ?l @ 10 # [], ms_pending_body = None\<rparr>" by (simp add: feed_def)
  from next_line [OF _ this line_read(3) [OF m] line_read(1) [OF m, unfolded encode_meta_line_def]] l e
  show "next_frame (feed (encode_meta_line m) d) = (Inr (Some (FrameLine (show_meta_message m))), d)"
    by (simp add: encode_meta_line_def feed_def)
qed

lemma rests_reads: "rests d \<Longrightarrow> reads_ok C bs d s d' \<longleftrightarrow> receives C bs d s d'"
  using reads_ok_receives [of d C bs s d'] drains_idle [OF rests_idle, where C = C and d = d]
  by (auto simp: rests_def meta_decoder_new_def)

section \<open>The messages of the handshake\<close>

lemma not_plain: "\<not> ma_bypass_security a \<Longrightarrow> \<not> uses_plaintext_meta a"
  by (simp add: uses_plaintext_meta_def)

text \<open>A record that the session accepts is as long as its header says.\<close>

lemma record_length:
  assumes "receive_datagram C draws rec s = (Inr events, t)" "\<not> fst (codec_in (hs_codec s))"
  shows "expected_sptps_frame_len (codec_in_key (hs_codec s) \<noteq> None) \<lparr>ms_buffer = rec, ms_pending_body = None\<rparr>
    = Some (length rec)"
proof -
  from assms(2) obtain c where c: "hs_codec s = TcpCodec c" by (cases "hs_codec s") auto
  obtain y c' where y: "tcp_decode C rec c = (y, c')" by fastforce
  with assms(1) c obtain x where "y = Inr x" by (cases y) (auto simp: receive_datagram_def)
  with y show ?thesis
    by (auto simp: tcp_decode_def expected_sptps_frame_len_def sptps_lens c Let_def split: if_splits)
qed

text \<open>A driver in the middle of a handshake over session \<open>s\<close>.\<close>

definition handshaking :: "meta_driver \<Rightarrow> string \<Rightarrow> meta_auth_state \<Rightarrow> handshake_session \<Rightarrow> bool" where
  "handshaking d peer st s \<longleftrightarrow> rests d \<and> \<not> bypass_of d \<and> md_pending_tcp d = None \<and> ma_peer (md_auth d) = Some peer
     \<and> ma_state (md_auth d) = st \<and> ma_session (md_auth d) = Some s \<and> \<not> fst (codec_in (hs_codec s))"

lemma handshaking_reads:
  assumes d: "handshaking d peer st s" "st \<noteq> ExpectId" and r: "receive_datagram C draws rec s = (Inr events, t)"
    and h: "handle_frame C (FrameSptpsRecord rec) d = (Inr step, d')" and q: "quiet_step False step"
  shows "receives C rec d step d' \<and> rests d'"
proof (rule record_read)
  from d show "rests d" "\<not> reads_lines d" by (auto simp: handshaking_def reads_lines_def uses_plaintext_meta_def)
  show "expected_sptps_frame_len (sptps_in_encrypted (md_auth d)) \<lparr>ms_buffer = rec, ms_pending_body = None\<rparr> = Some (length rec)"
    using record_length [OF r] d by (simp add: handshaking_def sptps_in_encrypted_def)
  show "quiet_step (bypass_of d) step" using q d by (simp add: handshaking_def)
qed (rule h)

lemma record_kind: "receive_datagram C draws rec s = (r, t) \<Longrightarrow> fst (codec_in (hs_codec t)) = fst (codec_in (hs_codec s))"
  using receive_extends [of C draws rec s r t] by (simp add: extends_def)

definition with_session :: "meta_driver \<Rightarrow> meta_auth_state \<Rightarrow> handshake_session \<Rightarrow> meta_driver" where
  "with_session d st s = d\<lparr>md_auth := (md_auth d)\<lparr>ma_random := stl (ma_random (md_auth d)),
     ma_session := Some s, ma_state := st\<rparr>\<rparr>"

lemma with_session_handshaking:
  "handshaking d peer st s \<Longrightarrow> rests (with_session d st' t) \<Longrightarrow> \<not> fst (codec_in (hs_codec t))
    \<Longrightarrow> handshaking (with_session d st' t) peer st' t"
  by (simp add: handshaking_def with_session_def)

lemma exchange_read:
  assumes d: "handshaking d peer AuthHandshake s" and r: "receive_datagram C (shd (ma_random (md_auth d))) rec s = (Inr [], t)"
  shows "receives C rec d \<lparr>cs_outbound = hs_outbound t, cs_events = []\<rparr> (with_session d AuthHandshake (t\<lparr>hs_outbound := []\<rparr>))
    \<and> handshaking (with_session d AuthHandshake (t\<lparr>hs_outbound := []\<rparr>)) peer AuthHandshake (t\<lparr>hs_outbound := []\<rparr>)"
proof -
  let ?d = "with_session d AuthHandshake (t\<lparr>hs_outbound := []\<rparr>)"
  have a: "?d = d\<lparr>md_auth := (md_auth d)\<lparr>ma_random := stl (ma_random (md_auth d)), ma_session := Some (t\<lparr>hs_outbound := []\<rparr>)\<rparr>\<rparr>"
    using d by (auto simp: with_session_def handshaking_def)
  have h: "handle_frame C (FrameSptpsRecord rec) d = (Inr \<lparr>cs_outbound = hs_outbound t, cs_events = []\<rparr>, ?d)"
    using d r unfolding a by (simp add: handshaking_def handle_frame_def on_auth_def receive_sptps_record_def drain_outbound_def Let_def
      apply_auth_step.simps apply_auth_events.simps add_step_def no_step_def)
  have k: "\<not> fst (codec_in (hs_codec (t\<lparr>hs_outbound := []\<rparr>)))" using record_kind [OF r] d by (simp add: handshaking_def)
  from handshaking_reads [OF d _ r h] with_session_handshaking [OF d _ k] show ?thesis by (simp add: quiet_step_def)
qed

lemma completion_read:
  assumes d: "handshaking d peer AuthHandshake s"
    and r: "receive_datagram C (shd (ma_random (md_auth d))) rec s = (Inr [HandshakeComplete], t)"
    and a: "send_record C SPTPS_META_RECORD (encode_meta_line (ack_message (md_auth d))) (t\<lparr>hs_outbound := []\<rparr>) = (Inr ack, u)"
  shows "receives C rec d \<lparr>cs_outbound = hs_outbound t @ [ack], cs_events = [EvAuth (SptpsHandshakeComplete peer)]\<rparr>
      (with_session d ExpectAck u) \<and> handshaking (with_session d ExpectAck u) peer ExpectAck u"
proof -
  let ?a = "(md_auth d)\<lparr>ma_random := stl (ma_random (md_auth d)), ma_session := Some (t\<lparr>hs_outbound := []\<rparr>), ma_state := ExpectAck\<rparr>"
  let ?step = "\<lparr>as_outbound = [ack_message (md_auth d)], as_raw_outbound = hs_outbound t, as_events = [SptpsHandshakeComplete peer]\<rparr>"
  have am: "ack_message (b\<lparr>ma_random := w, ma_session := x\<rparr>) = ack_message b" for b w x by (simp add: ack_message_def)
  have rr: "receive_sptps_record C rec (md_auth d) = (Inr ?step, ?a)"
    using d r by (simp add: handshaking_def receive_sptps_record_def drain_outbound_def Let_def am)
  have sent: "send_auth_messages C [ack_message (md_auth d)] (d\<lparr>md_auth := ?a\<rparr>) = (Inr [ack], with_session d ExpectAck u)"
    using d a by (simp add: handshaking_def not_plain on_auth_def send_sptps_meta_message_def send_sptps_application_def with_session_def)
  have h: "handle_frame C (FrameSptpsRecord rec) d = (Inr \<lparr>cs_outbound = hs_outbound t @ [ack],
      cs_events = [EvAuth (SptpsHandshakeComplete peer)]\<rparr>, with_session d ExpectAck u)"
    using rr sent by (simp add: handle_frame_def on_auth_def apply_auth_step.simps apply_auth_events.simps add_step_def no_step_def
      event_step_def del: send_auth_messages.simps)
  have "fst (codec_in (hs_codec u)) = fst (codec_in (hs_codec t))"
    using a by (auto simp: send_record_def split: if_splits prod.splits dest: codec_kind(1))
  then have k: "\<not> fst (codec_in (hs_codec u))" using record_kind [OF r] d by (simp add: handshaking_def)
  from handshaking_reads [OF d _ r h] with_session_handshaking [OF d _ k] show ?thesis by (simp add: quiet_step_def)
qed

lemma ack_read:
  assumes d: "handshaking d peer ExpectAck s"
    and r: "receive_datagram C (shd (ma_random (md_auth d))) rec s
        = (Inr [ApplicationRecord SPTPS_META_RECORD (encode_meta_line (MsgAck (AckConnection port w opts)))], t)"
    and ack: "token port" "printable port" "in_i32 w"
    and e: "hs_outbound t = []"
  defines "events \<equiv> [EvMessage (MsgAck (AckConnection port w opts)), EvAuth (AuthActivated peer port
      (negotiated_weight (ma_local_weight (md_auth d)) w) (negotiated_options (ma_local_options (md_auth d)) opts))]"
  shows "receives C rec d \<lparr>cs_outbound = [], cs_events = events\<rparr> (with_session d Activated t)
      \<and> handshaking (with_session d Activated t) peer Activated t"
proof -
  let ?m = "MsgAck (AckConnection port w opts)"
  let ?d = "d\<lparr>md_auth := (md_auth d)\<lparr>ma_random := stl (ma_random (md_auth d)), ma_session := Some t\<rparr>\<rparr>"
  have m: "wf_message ?m" "\<forall>x \<in> set (message_fields ?m). printable x" using ack printable_words by auto
  note l = line_read(1,2) [OF m]
  have t: "t\<lparr>hs_outbound := []\<rparr> = t" using e by (metis handshake_session.surjective handshake_session.update_convs(11))
  have rr: "receive_sptps_record C rec (md_auth d)
      = (Inr \<lparr>as_outbound = [], as_raw_outbound = [], as_events = [AuthApplicationRecord SPTPS_META_RECORD (encode_meta_line ?m)]\<rparr>, md_auth ?d)"
    using d r by (simp add: handshaking_def receive_sptps_record_def drain_outbound_def Let_def e t)
  have line: "handle_meta_line C (show_meta_message ?m) LineSptpsApplication ?d
      = (Inr \<lparr>cs_outbound = [], cs_events = events\<rparr>, with_session d Activated t)"
    using d by (simp add: handle_meta_line.simps l(2) handshaking_def receive_auth_message_def receive_auth_ack_def
      apply_auth_step.simps apply_auth_events.simps auth_step_default_def add_step_def no_step_def event_step_def events_def
      with_session_def)
  have h: "handle_frame C (FrameSptpsRecord rec) d = (Inr \<lparr>cs_outbound = [], cs_events = events\<rparr>, with_session d Activated t)"
    using rr line d by (simp add: handle_frame_def on_auth_def apply_auth_step.simps apply_auth_events.simps add_step_def no_step_def
      event_step_def handle_sptps_application.simps l(1) handshaking_def)
  have k: "\<not> fst (codec_in (hs_codec t))" using record_kind [OF r] d by (simp add: handshaking_def)
  from handshaking_reads [OF d _ r h] with_session_handshaking [OF d _ k] show ?thesis
    by (simp add: quiet_step_def events_def announces_body_def)
qed

section \<open>The sessions\<close>

lemma handshake_over_tcp:
  assumes ok: "hashes_ok C" "curve_ok C" and k: "private_key_ok C ka" "private_key_ok C kb"
    and n: "length na = 32" "length nb = 32"
  shows "\<exists>a b d1 d2 d3 d4 b1 a2 b3 a4 m.
      start_tcp C (Inr sa, Inr na) True ka (pk_public kb) l = Inr a
    \<and> start_tcp C (Inr sb, Inr nb) False kb (pk_public ka) l = Inr b
    \<and> hs_outbound a = [d1] \<and> hs_outbound b = [d2]
    \<and> (\<forall>draws. receive_datagram C draws d1 (b\<lparr>hs_outbound := []\<rparr>) = (Inr [], b1)) \<and> hs_outbound b1 = []
    \<and> (\<forall>draws. receive_datagram C draws d2 (a\<lparr>hs_outbound := []\<rparr>) = (Inr [], a2)) \<and> hs_outbound a2 = [d3]
    \<and> (\<forall>draws. receive_datagram C draws d3 b1 = (Inr [HandshakeComplete], b3)) \<and> hs_outbound b3 = [d4]
    \<and> (\<forall>draws. receive_datagram C draws d4 (a2\<lparr>hs_outbound := []\<rparr>) = (Inr [HandshakeComplete], a4)) \<and> hs_outbound a4 = []
    \<and> sessions_agree a4 (b3\<lparr>hs_outbound := []\<rparr>) m"
proof -
  have cod: "codec_out (TcpCodec tcp_new) = codec_in (TcpCodec tcp_new)" "codec_out_key (TcpCodec tcp_new) = None"
    by (simp_all add: tcp_new_def)
  from compute_shared_agree(2) [OF ok] obtain z where
    z: "compute_shared C (ephemeral_from_seed C sa) (eph_public (ephemeral_from_seed C sb)) = Inr z" by blast
  define dr :: random_draws where "dr = (Inl [], Inl [])"
  from handshake_datagrams [OF ok k n cod(1) cod(1) [symmetric, THEN sym] cod(2) cod(2) z, of l dr]
  obtain a b d1 d2 d3 d4 b1 a2 b3 a4 where
    sa: "start_session C True ka (pk_public kb) l (TcpCodec tcp_new) (ephemeral_from_seed C sa) na = Inr a"
    and sb: "start_session C False kb (pk_public ka) l (TcpCodec tcp_new) (ephemeral_from_seed C sb) nb = Inr b"
    and a: "hs_outbound a = [d1]" and b1: "receive_datagram C dr d1 b = (Inr [], b1)" "hs_outbound b1 = [d2]"
    and a2: "receive_datagram C dr d2 (a\<lparr>hs_outbound := []\<rparr>) = (Inr [], a2)" "hs_outbound a2 = [d3]"
    and b3: "receive_datagram C dr d3 (b1\<lparr>hs_outbound := []\<rparr>) = (Inr [HandshakeComplete], b3)" "hs_outbound b3 = [d4]"
    and a4: "receive_datagram C dr d4 (a2\<lparr>hs_outbound := []\<rparr>) = (Inr [HandshakeComplete], a4)" "hs_outbound a4 = []"
    and ag: "sessions_agree a4 (b3\<lparr>hs_outbound := []\<rparr>) (material_derive C z na nb l)" by blast
  have bk: "hs_state b = StateKex" "\<not> hs_initiator b"
    using session_started [OF ok n(2), of False kb "pk_public ka" l "TcpCodec tcp_new" sb] sb
    by (auto simp: session_new_def simp del: channel_bytes.simps)
  note ko = kex_ignores_outbound [OF bk b1(1)]
  have drop: "first_handshake s \<Longrightarrow> first_handshake (s\<lparr>hs_outbound := []\<rparr>)" for s
    using quiet_inv [OF quiet_outbound, of s "[]"] by (simp add: first_handshake_def)
  have fa: "first_handshake (a\<lparr>hs_outbound := []\<rparr>)" and fb: "first_handshake (b\<lparr>hs_outbound := []\<rparr>)"
    using started_first [OF sa] started_first [OF sb] drop by blast+
  have fa2: "first_handshake (a2\<lparr>hs_outbound := []\<rparr>)"
    using first_handshake_receives [OF ok(2) fa a2(1)] drop by auto
  have b1': "receive_datagram C dr d1 (b\<lparr>hs_outbound := []\<rparr>) = (Inr [], b1\<lparr>hs_outbound := []\<rparr>)" using ko by blast
  have fb1: "first_handshake (b1\<lparr>hs_outbound := []\<rparr>)"
    using first_handshake_receives [OF ok(2) fb b1'] by auto
  have "hs_outbound b = [d2]" using ko b1(2) by simp
  moreover have "\<forall>draws. receive_datagram C draws d1 (b\<lparr>hs_outbound := []\<rparr>) = (Inr [], b1\<lparr>hs_outbound := []\<rparr>)"
    "\<forall>draws. receive_datagram C draws d2 (a\<lparr>hs_outbound := []\<rparr>) = (Inr [], a2)"
    "\<forall>draws. receive_datagram C draws d3 (b1\<lparr>hs_outbound := []\<rparr>) = (Inr [HandshakeComplete], b3)"
    "\<forall>draws. receive_datagram C draws d4 (a2\<lparr>hs_outbound := []\<rparr>) = (Inr [HandshakeComplete], a4)"
    using first_draws [OF fb] first_draws [OF fa] first_draws [OF fb1] first_draws [OF fa2] b1' a2(1) b3(1) a4(1) by metis+
  moreover have "start_tcp C (Inr sa, Inr na) True ka (pk_public kb) l = Inr a"
    "start_tcp C (Inr sb, Inr nb) False kb (pk_public ka) l = Inr b"
    using sa sb by (simp_all add: start_tcp_def start_tcp_with_ephemeral_def generate_ephemeral_def)
  moreover have "hs_outbound (b1\<lparr>hs_outbound := []\<rparr>) = []" by simp
  ultimately show ?thesis using a a2(2) b3(2) a4(2) ag by blast
qed

text \<open>A line sent after the handshake.\<close>

lemma record_sent:
  assumes "hashes_ok C" "codec_out_key (hs_codec s) \<noteq> None" "length p \<le> 65535"
  shows "\<exists>c. send_record C SPTPS_META_RECORD p s = (Inr (channel_bytes C (codec_out (hs_codec s)) SPTPS_META_RECORD p), s\<lparr>hs_codec := c\<rparr>)
    \<and> codec_out c = channel_step (codec_out (hs_codec s)) \<and> codec_in c = codec_in (hs_codec s)"
proof -
  have "channel_allows C (codec_out (hs_codec s)) SPTPS_META_RECORD p"
    using assms by (simp add: channel_allows_def codec_key_channel SPTPS_META_RECORD_def SPTPS_HANDSHAKE_def)
  from codec_encode_bytes [OF this] show ?thesis
    by (auto simp: send_record_def SPTPS_META_RECORD_def SPTPS_HANDSHAKE_def simp del: channel_bytes.simps)
qed

lemma record_arrives:
  assumes "hashes_ok C" "codec_in_key (hs_codec s) \<noteq> None" "length p \<le> 65535"
    and "d = channel_bytes C (codec_in (hs_codec s)) SPTPS_META_RECORD p"
  shows "\<exists>c. (\<forall>draws. receive_datagram C draws d s = (Inr [ApplicationRecord SPTPS_META_RECORD p], s\<lparr>hs_codec := c\<rparr>))
    \<and> codec_in c = channel_step (codec_in (hs_codec s)) \<and> codec_out c = codec_out (hs_codec s)"
proof -
  have "channel_allows C (codec_in (hs_codec s)) SPTPS_META_RECORD p"
    using assms by (simp add: channel_allows_def codec_key_channel SPTPS_META_RECORD_def SPTPS_HANDSHAKE_def)
  from codec_decode_bytes [OF this] assms(4) show ?thesis
    by (auto simp: receive_datagram_def SPTPS_META_RECORD_def SPTPS_HANDSHAKE_def simp del: channel_bytes.simps)
qed

section \<open>Two drivers\<close>

definition open_connection :: "string \<Rightarrow> bool \<Rightarrow> ed25519_private_key \<Rightarrow> ed25519_public_key \<Rightarrow> string \<Rightarrow> int \<Rightarrow> u32
    \<Rightarrow> random_draws stream \<Rightarrow> meta_driver" where
  "open_connection me outgoing key peer_key port weight opts random =
     meta_driver_new (meta_auth_new me outgoing key peer_key port weight opts random)"

text \<open>Both read what the other sent in the round before.\<close>

definition sent_bytes :: "meta_connection_error + connection_step \<Rightarrow> byte list" where
  "sent_bytes r = (case r of Inl _ \<Rightarrow> [] | Inr s \<Rightarrow> concat (cs_outbound s))"

primrec driver_rounds where
  "driver_rounds C 0 to_a to_b a b = ([], a, b)"
| "driver_rounds C (Suc n) to_a to_b a b =
     (case receive_bytes C to_a a of (ra, a) \<Rightarrow>
      case receive_bytes C to_b b of (rb, b) \<Rightarrow>
      case driver_rounds C n (sent_bytes rb) (sent_bytes ra) a b of (rest, a, b) \<Rightarrow> ((ra, rb) # rest, a, b))"

lemma id_read:
  fixes port :: string and weight :: int and opts :: u32
  assumes "shd random = (Inr seed, Inr nonce)" "check_id peer" "peer \<noteq> me" "length peer \<le> 1000"
    and s: "start_tcp C (Inr seed, Inr nonce) outgoing key peer_key
      (if outgoing then sptps_tcp_label me peer else sptps_tcp_label peer me) = Inr s"
  defines "d \<equiv> open_connection me outgoing key peer_key port weight opts random"
    and "m \<equiv> MsgId \<lparr>id_name = peer, id_protocol_major = PROT_MAJOR, id_protocol_minor = Some PROT_MINOR\<rparr>"
    and "d' \<equiv> meta_driver_new ((meta_auth_new me outgoing key peer_key port weight opts (stl random))\<lparr>
      ma_peer := Some peer, ma_session := Some (s\<lparr>hs_outbound := []\<rparr>), ma_state := AuthHandshake\<rparr>)"
  shows "receives C (encode_meta_line m) d \<lparr>cs_outbound = hs_outbound s, cs_events = [EvMessage m]\<rparr> d'
    \<and> handshaking d' peer AuthHandshake (s\<lparr>hs_outbound := []\<rparr>)"
proof -
  have m: "wf_message m" "\<forall>w \<in> set (message_fields m). printable w"
    using assms(2) printable_words by (auto simp: m_def PROT_MAJOR_def PROT_MINOR_def in_i32_def i32_min_def i32_max_def)
  have "show_int 0 = ''0''" "show_int 17 = ''17''" "show_int 7 = ''7''" by code_simp+
  then have len: "length (encode_meta_line m) \<le> MAX_META_BUFFER_SIZE"
    using assms(4) by (simp add: encode_meta_line_def show_meta_message_def m_def show_version_def PROT_MAJOR_def PROT_MINOR_def
      MAX_META_BUFFER_SIZE_def)
  have h: "handle_frame C (FrameLine (show_meta_message m)) d = (Inr \<lparr>cs_outbound = hs_outbound s, cs_events = [EvMessage m]\<rparr>, d')"
    using line_read(2) [OF m] assms(1-3) s
    by (cases outgoing) (simp_all add: handle_frame_def handle_meta_line.simps d_def open_connection_def meta_driver_new_def meta_auth_new_def
      receive_auth_message_def m_def receive_id_def validate_peer_id_def PROT_MINOR_def drain_outbound_def Let_def
      apply_auth_step.simps apply_auth_events.simps auth_step_default_def add_step_def no_step_def event_step_def d'_def)
  have d: "rests d" "reads_lines d"
    by (simp_all add: rests_def reads_lines_def d_def open_connection_def meta_driver_new_def meta_auth_new_def auth_ok_def)
  have k: "\<not> fst (codec_in (hs_codec s))" using id_started [OF s] by simp
  from message_read [OF d m len h] k show ?thesis
    by (auto simp: quiet_step_def announces_body_def m_def handshaking_def d'_def meta_driver_new_def meta_auth_new_def)
qed

lemma driver_round:
  assumes "receive_bytes C x a = (Inr s, a')" "receive_bytes C y b = (Inr t, b')"
    and "driver_rounds C n (concat (cs_outbound t)) (concat (cs_outbound s)) a' b' = (rest, a'', b'')"
  shows "driver_rounds C (Suc n) x y a b = ((Inr s, Inr t) # rest, a'', b'')"
  using assms by (simp add: sent_bytes_def)

lemma negotiated_commutes:
  "negotiated_weight a b = negotiated_weight b a" "negotiated_options x y = negotiated_options y x"
  by (simp_all add: negotiated_weight_def negotiated_options_def ac_simps)

lemma with_session_fields [simp]:
  "ma_local_weight (md_auth (with_session d st s)) = ma_local_weight (md_auth d)"
  "ma_local_options (md_auth (with_session d st s)) = ma_local_options (md_auth d)"
  "ack_message (md_auth (with_session d st s)) = ack_message (md_auth d)"
  "ma_state (md_auth (with_session d st s)) = st" "ma_session (md_auth (with_session d st s)) = Some s"
  by (simp_all add: with_session_def ack_message_def)

lemma receives_bytes: "rests d \<Longrightarrow> receives C bs d s d' \<Longrightarrow> receive_bytes C bs d = (Inr s, d')"
  using rests_reads [of d C bs s d'] by (simp add: reads_ok_def)

lemma nothing_received: "rests d \<Longrightarrow> receive_bytes C [] d = (Inr no_step, d)"
  by (rule receives_bytes) (simp_all add: receives_Nil)

lemma no_outbound: "hs_outbound s = [] \<Longrightarrow> s\<lparr>hs_outbound := []\<rparr> = s"
  by (metis handshake_session.surjective handshake_session.update_convs(11))

text \<open>The five rounds, one read after the other.\<close>

lemma activation_run:
  fixes C :: "('p, 's::comm_ring_1) sptps_crypto"
  assumes ok: "hashes_ok C" "curve_ok C" and k: "private_key_ok C ka" "private_key_ok C kb"
    and names: "check_id na" "check_id nb" "na \<noteq> nb" "length na \<le> 1000" "length nb \<le> 1000"
    and ports: "token pa" "printable pa" "token pb" "printable pb" and weights: "in_i32 wa" "in_i32 wb"
    and fit: "length (encode_meta_line (MsgAck (AckConnection pa wa oa))) \<le> 65535"
      "length (encode_meta_line (MsgAck (AckConnection pb wb ob))) \<le> 65535"
    and draws: "shd ra = (Inr sa, Inr xa)" "shd rb = (Inr sb, Inr xb)" "length xa = 32" "length xb = 32"
  defines "a \<equiv> open_connection na True ka (pk_public kb) pa wa oa ra"
    and "b \<equiv> open_connection nb False kb (pk_public ka) pb wb ob rb"
    and "w \<equiv> negotiated_weight wa wb" and "opts \<equiv> negotiated_options oa ob"
  shows "\<exists>rs a' b' s t. driver_rounds C 5 (initial_id_bytes b) (initial_id_bytes a) a b = (rs, a', b')
    \<and> (\<forall>(x, y) \<in> set rs. \<exists>u v. x = Inr u \<and> y = Inr v)
    \<and> (\<exists>u y. (Inr u, y) \<in> set rs \<and> EvAuth (AuthActivated nb pb w opts) \<in> set (cs_events u))
    \<and> (\<exists>x v. (x, Inr v) \<in> set rs \<and> EvAuth (AuthActivated na pa w opts) \<in> set (cs_events v))
    \<and> handshaking a' nb Activated s \<and> handshaking b' na Activated t
    \<and> is_established s \<and> is_established t
    \<and> codec_out (hs_codec s) = codec_in (hs_codec t) \<and> codec_out (hs_codec t) = codec_in (hs_codec s)"
proof -
  let ?l = "sptps_tcp_label na nb"
  from handshake_over_tcp [OF ok k draws(3,4), of sa ?l sb] obtain sesa sesb d1 d2 d3 d4 b1 a2 b3 a4 m where
    start: "start_tcp C (Inr sa, Inr xa) True ka (pk_public kb) ?l = Inr sesa"
      "start_tcp C (Inr sb, Inr xb) False kb (pk_public ka) ?l = Inr sesb"
    and out: "hs_outbound sesa = [d1]" "hs_outbound sesb = [d2]" "hs_outbound b1 = []" "hs_outbound a2 = [d3]"
      "hs_outbound b3 = [d4]" "hs_outbound a4 = []"
    and r: "\<And>draws. receive_datagram C draws d1 (sesb\<lparr>hs_outbound := []\<rparr>) = (Inr [], b1)"
      "\<And>draws. receive_datagram C draws d2 (sesa\<lparr>hs_outbound := []\<rparr>) = (Inr [], a2)"
      "\<And>draws. receive_datagram C draws d3 b1 = (Inr [HandshakeComplete], b3)"
      "\<And>draws. receive_datagram C draws d4 (a2\<lparr>hs_outbound := []\<rparr>) = (Inr [HandshakeComplete], a4)"
    and ag: "sessions_agree a4 (b3\<lparr>hs_outbound := []\<rparr>) m" by metis
  let ?acka = "encode_meta_line (MsgAck (AckConnection pa wa oa))" and ?ackb = "encode_meta_line (MsgAck (AckConnection pb wb ob))"
  have keys: "codec_out_key (hs_codec a4) \<noteq> None" "codec_in_key (hs_codec a4) \<noteq> None"
    "codec_out_key (hs_codec b3) \<noteq> None" "codec_in_key (hs_codec b3) \<noteq> None"
    and link: "codec_out (hs_codec a4) = codec_in (hs_codec b3)" "codec_out (hs_codec b3) = codec_in (hs_codec a4)"
    using ag by (auto simp: sessions_agree_def codec_key_channel)
  define ra1 where "ra1 = channel_bytes C (codec_out (hs_codec a4)) SPTPS_META_RECORD ?acka"
  define rb1 where "rb1 = channel_bytes C (codec_out (hs_codec b3)) SPTPS_META_RECORD ?ackb"
  obtain ca where ca: "send_record C SPTPS_META_RECORD ?acka a4 = (Inr ra1, a4\<lparr>hs_codec := ca\<rparr>)"
    "codec_out ca = channel_step (codec_out (hs_codec a4))" "codec_in ca = codec_in (hs_codec a4)"
    using record_sent [OF ok(1) keys(1) fit(1)] ra1_def by blast
  obtain cb where cb: "send_record C SPTPS_META_RECORD ?ackb (b3\<lparr>hs_outbound := []\<rparr>) = (Inr rb1, (b3\<lparr>hs_outbound := []\<rparr>)\<lparr>hs_codec := cb\<rparr>)"
    "codec_out cb = channel_step (codec_out (hs_codec b3))" "codec_in cb = codec_in (hs_codec b3)"
    using record_sent [OF ok(1) _ fit(2), of "b3\<lparr>hs_outbound := []\<rparr>"] keys(3) unfolding rb1_def by auto
  let ?u = "a4\<lparr>hs_codec := ca\<rparr>" and ?v = "(b3\<lparr>hs_outbound := []\<rparr>)\<lparr>hs_codec := cb\<rparr>"
  have "codec_in_key (hs_codec ?v) \<noteq> None" "ra1 = channel_bytes C (codec_in (hs_codec ?v)) SPTPS_META_RECORD ?acka"
    using keys(4) cb(3) link(1) by (simp_all add: codec_key_channel ra1_def del: channel_bytes.simps)
  from record_arrives [OF ok(1) this(1) fit(1) this(2)] obtain cv where
    cv: "\<And>draws. receive_datagram C draws ra1 ?v = (Inr [ApplicationRecord SPTPS_META_RECORD ?acka], ?v\<lparr>hs_codec := cv\<rparr>)"
    "codec_in cv = channel_step (codec_in cb)" "codec_out cv = codec_out cb" by auto
  have "codec_in_key (hs_codec ?u) \<noteq> None" "rb1 = channel_bytes C (codec_in (hs_codec ?u)) SPTPS_META_RECORD ?ackb"
    using keys(2) ca(3) link(2) by (simp_all add: codec_key_channel rb1_def del: channel_bytes.simps)
  from record_arrives [OF ok(1) this(1) fit(2) this(2)] obtain cu where
    cu: "\<And>draws. receive_datagram C draws rb1 ?u = (Inr [ApplicationRecord SPTPS_META_RECORD ?ackb], ?u\<lparr>hs_codec := cu\<rparr>)"
    "codec_in cu = channel_step (codec_in ca)" "codec_out cu = codec_out ca" by auto
  let ?idb = "MsgId \<lparr>id_name = nb, id_protocol_major = PROT_MAJOR, id_protocol_minor = Some PROT_MINOR\<rparr>"
  let ?ida = "MsgId \<lparr>id_name = na, id_protocol_major = PROT_MAJOR, id_protocol_minor = Some PROT_MINOR\<rparr>"
  from id_read [OF draws(1) names(2) _ names(5), of na C True ka "pk_public kb" sesa pa wa oa] names(3) start(1) obtain A1 where
    A1: "receives C (encode_meta_line ?idb) a \<lparr>cs_outbound = [d1], cs_events = [EvMessage ?idb]\<rparr> A1"
      "handshaking A1 nb AuthHandshake (sesa\<lparr>hs_outbound := []\<rparr>)" "ack_message (md_auth A1) = MsgAck (AckConnection pa wa oa)"
      "ma_local_weight (md_auth A1) = wa" "ma_local_options (md_auth A1) = oa"
    unfolding a_def [symmetric] by (auto simp: out meta_driver_new_def meta_auth_new_def ack_message_def)
  from id_read [OF draws(2) names(1) _ names(4), of nb C False kb "pk_public ka" sesb pb wb ob] names(3) start(2) obtain B1 where
    B1: "receives C (encode_meta_line ?ida) b \<lparr>cs_outbound = [d2], cs_events = [EvMessage ?ida]\<rparr> B1"
      "handshaking B1 na AuthHandshake (sesb\<lparr>hs_outbound := []\<rparr>)" "ack_message (md_auth B1) = MsgAck (AckConnection pb wb ob)"
      "ma_local_weight (md_auth B1) = wb" "ma_local_options (md_auth B1) = ob"
    unfolding b_def [symmetric] by (auto simp: out meta_driver_new_def meta_auth_new_def ack_message_def)
  note A2 = exchange_read [OF A1(2) r(2), unfolded out]
  note B2 = exchange_read [OF B1(2) r(1), unfolded out no_outbound [OF out(3)]]
  define B3 where "B3 = with_session (with_session B1 AuthHandshake b1) ExpectAck ?v"
  define A3 where "A3 = with_session (with_session A1 AuthHandshake (a2\<lparr>hs_outbound := []\<rparr>)) ExpectAck ?u"
  have B3: "receives C d3 (with_session B1 AuthHandshake b1) \<lparr>cs_outbound = [d4, rb1], cs_events = [EvAuth (SptpsHandshakeComplete na)]\<rparr> B3
      \<and> handshaking B3 na ExpectAck ?v"
    using completion_read [OF conjunct2 [OF B2] r(3)] cb(1) B1(3) unfolding B3_def by (simp add: out)
  have A3: "receives C d4 (with_session A1 AuthHandshake (a2\<lparr>hs_outbound := []\<rparr>))
      \<lparr>cs_outbound = [ra1], cs_events = [EvAuth (SptpsHandshakeComplete nb)]\<rparr> A3 \<and> handshaking A3 nb ExpectAck ?u"
    using completion_read [OF conjunct2 [OF A2] r(4)] ca(1) A1(3) unfolding A3_def by (simp add: out no_outbound)
  have cv0: "hs_outbound (?v\<lparr>hs_codec := cv\<rparr>) = []" and cu0: "hs_outbound (?u\<lparr>hs_codec := cu\<rparr>) = []" using out by simp_all
  note B4 = ack_read [OF conjunct2 [OF B3] cv(1) ports(1,2) weights(1) cv0]
  note A4 = ack_read [OF conjunct2 [OF A3] cu(1) ports(3,4) weights(2) cu0]
  have w: "negotiated_weight (ma_local_weight (md_auth A3)) wb = w" "negotiated_options (ma_local_options (md_auth A3)) ob = opts"
    "negotiated_weight (ma_local_weight (md_auth B3)) wa = w" "negotiated_options (ma_local_options (md_auth B3)) oa = opts"
    using A1(4,5) B1(4,5) negotiated_commutes by (simp_all add: A3_def B3_def w_def opts_def)
  define A2' where "A2' = with_session A1 AuthHandshake (a2\<lparr>hs_outbound := []\<rparr>)"
  define B2' where "B2' = with_session B1 AuthHandshake b1"
  define A4' where "A4' = with_session A3 Activated (?u\<lparr>hs_codec := cu\<rparr>)"
  define B4' where "B4' = with_session B3 Activated (?v\<lparr>hs_codec := cv\<rparr>)"
  define ea where "ea = \<lparr>cs_outbound = [], cs_events = [EvMessage (MsgAck (AckConnection pb wb ob)), EvAuth (AuthActivated nb pb w opts)]\<rparr>"
  define eb where "eb = \<lparr>cs_outbound = [], cs_events = [EvMessage (MsgAck (AckConnection pa wa oa)), EvAuth (AuthActivated na pa w opts)]\<rparr>"
  have rest: "rests a" "rests b" "rests A1" "rests B1" "rests A2'" "rests B2'" "rests B3" "rests A4'" "rests B4'"
    using A1(2) B1(2) A2 B2 B3 A4 B4
    by (simp_all add: handshaking_def A2'_def B2'_def A4'_def B4'_def a_def b_def open_connection_def rests_def meta_driver_new_def
        meta_auth_new_def auth_ok_def)
  have r4: "receives C (d4 @ rb1) A2' (add_step \<lparr>cs_outbound = [ra1], cs_events = [EvAuth (SptpsHandshakeComplete nb)]\<rparr> ea) A4'"
    unfolding receives_append [OF rests_idle [OF rest(5)]]
    using A3 A4 unfolding A2'_def A4'_def ea_def w by auto
  have idb: "initial_id_bytes b = encode_meta_line ?idb" "initial_id_bytes a = encode_meta_line ?ida"
    by (simp_all add: initial_id_bytes_def local_id_message_def a_def b_def open_connection_def meta_driver_new_def meta_auth_new_def)
  note rounds =
    receives_bytes [OF rest(1) A1(1)] receives_bytes [OF rest(2) B1(1)]
    receives_bytes [OF rest(3) conjunct1 [OF A2], folded A2'_def] receives_bytes [OF rest(4) conjunct1 [OF B2], folded B2'_def]
    nothing_received [OF rest(5), of C] receives_bytes [OF rest(6) conjunct1 [OF B3, folded B2'_def]]
    receives_bytes [OF rest(5) r4] nothing_received [OF rest(7), of C]
    nothing_received [OF rest(8), of C] receives_bytes [OF rest(7) conjunct1 [OF B4, folded B4'_def], unfolded w, folded eb_def]
  define rs :: "((meta_connection_error + connection_step) \<times> (meta_connection_error + connection_step)) list" where "rs = [(Inr \<lparr>cs_outbound = [d1], cs_events = [EvMessage ?idb]\<rparr>, Inr \<lparr>cs_outbound = [d2], cs_events = [EvMessage ?ida]\<rparr>),
    (Inr \<lparr>cs_outbound = [d3], cs_events = []\<rparr>, Inr \<lparr>cs_outbound = [], cs_events = []\<rparr>),
    (Inr no_step, Inr \<lparr>cs_outbound = [d4, rb1], cs_events = [EvAuth (SptpsHandshakeComplete na)]\<rparr>),
    (Inr (add_step \<lparr>cs_outbound = [ra1], cs_events = [EvAuth (SptpsHandshakeComplete nb)]\<rparr> ea), Inr no_step),
    (Inr no_step, Inr eb)]"
  have n5: "5 = Suc (Suc (Suc (Suc (Suc 0))))" by simp
  let ?r = "\<lambda>n. drop n rs"
  have 5: "driver_rounds C (Suc 0) [] ra1 A4' B3 = (?r 4, A4', B4')"
    using rounds(9,10) by (simp add: rs_def)
  have 4: "driver_rounds C (Suc (Suc 0)) (d4 @ rb1) [] A2' B3 = (?r 3, A4', B4')"
    using driver_round [OF rounds(7,8), of "Suc 0"] 5
    by (simp add: rs_def no_step_def add_step_def ea_def eval_nat_numeral del: driver_rounds.simps)
  have 3: "driver_rounds C (Suc (Suc (Suc 0))) [] d3 A2' B2' = (?r 2, A4', B4')"
    using driver_round [OF rounds(5,6), of "Suc (Suc 0)"] 4
    by (simp add: rs_def no_step_def eval_nat_numeral del: driver_rounds.simps)
  have 2: "driver_rounds C (Suc (Suc (Suc (Suc 0)))) d2 d1 A1 B1 = (?r 1, A4', B4')"
    using driver_round [OF rounds(3,4), of "Suc (Suc (Suc 0))"] 3
    by (simp add: rs_def no_step_def eval_nat_numeral del: driver_rounds.simps)
  have run: "driver_rounds C 5 (initial_id_bytes b) (initial_id_bytes a) a b = (rs, A4', B4')"
    using driver_round [OF rounds(1,2), of "Suc (Suc (Suc (Suc 0)))"] 2 unfolding n5 idb
    by (simp add: rs_def del: driver_rounds.simps)
  have h: "handshaking A4' nb Activated (?u\<lparr>hs_codec := cu\<rparr>)" "handshaking B4' na Activated (?v\<lparr>hs_codec := cv\<rparr>)"
    using A4 B4 by (simp_all add: A4'_def B4'_def)
  have e: "is_established (?u\<lparr>hs_codec := cu\<rparr>)" "is_established (?v\<lparr>hs_codec := cv\<rparr>)"
    using keys ca cb cu(2,3) cv(2,3) by (simp_all add: is_established_def codec_key_channel)
  have l: "codec_out cu = codec_in cv" "codec_out cv = codec_in cu" using cu(2,3) cv(2,3) ca(2,3) cb(2,3) link by simp_all
  have "\<forall>(x, y) \<in> set rs. \<exists>u v. x = Inr u \<and> y = Inr v" by (simp add: rs_def)
  moreover have "(Inr (add_step \<lparr>cs_outbound = [ra1], cs_events = [EvAuth (SptpsHandshakeComplete nb)]\<rparr> ea), Inr no_step) \<in> set rs"
    "(Inr no_step, Inr eb) \<in> set rs" by (simp_all add: rs_def)
  moreover have "EvAuth (AuthActivated nb pb w opts)
      \<in> set (cs_events (add_step \<lparr>cs_outbound = [ra1], cs_events = [EvAuth (SptpsHandshakeComplete nb)]\<rparr> ea))"
    "EvAuth (AuthActivated na pa w opts) \<in> set (cs_events eb)" by (simp_all add: add_step_def ea_def eb_def)
  moreover have "codec_out (hs_codec (?u\<lparr>hs_codec := cu\<rparr>)) = codec_in (hs_codec (?v\<lparr>hs_codec := cv\<rparr>))"
    "codec_out (hs_codec (?v\<lparr>hs_codec := cv\<rparr>)) = codec_in (hs_codec (?u\<lparr>hs_codec := cu\<rparr>))" using l by simp_all
  ultimately show ?thesis using run h e by blast
qed

section \<open>Properties\<close>

text \<open>
  C1: Two nodes that hold each other's public keys, one connecting to the other, activate the
  connection in five rounds of reading what the other sent: no read fails, each learns the other's
  name, port and the same negotiated weight and options, and both then hold an SPTPS session in which
  what one sends is what the other reads.
\<close>

theorem meta_connection_activates:
  fixes C :: "('p, 's::comm_ring_1) sptps_crypto"
  assumes ok: "hashes_ok C" "curve_ok C" and k: "private_key_ok C ka" "private_key_ok C kb"
    and names: "check_id na" "check_id nb" "na \<noteq> nb" "length na \<le> 1000" "length nb \<le> 1000"
    and ports: "token pa" "printable pa" "token pb" "printable pb" and weights: "in_i32 wa" "in_i32 wb"
    and fit: "length (encode_meta_line (MsgAck (AckConnection pa wa oa))) \<le> 65535"
      "length (encode_meta_line (MsgAck (AckConnection pb wb ob))) \<le> 65535"
    and draws: "shd ra = (Inr sa, Inr xa)" "shd rb = (Inr sb, Inr xb)" "length xa = 32" "length xb = 32"
  shows "\<exists>rs a' b' s t. driver_rounds C 5 (initial_id_bytes (open_connection nb False kb (pk_public ka) pb wb ob rb))
      (initial_id_bytes (open_connection na True ka (pk_public kb) pa wa oa ra))
      (open_connection na True ka (pk_public kb) pa wa oa ra)
      (open_connection nb False kb (pk_public ka) pb wb ob rb) = (rs, a', b')
    \<and> (\<forall>(x, y) \<in> set rs. \<exists>u v. x = Inr u \<and> y = Inr v)
    \<and> (\<exists>u y. (Inr u, y) \<in> set rs \<and> EvAuth (AuthActivated nb pb (negotiated_weight wa wb) (negotiated_options oa ob)) \<in> set (cs_events u))
    \<and> (\<exists>x v. (x, Inr v) \<in> set rs \<and> EvAuth (AuthActivated na pa (negotiated_weight wa wb) (negotiated_options oa ob)) \<in> set (cs_events v))
    \<and> handshaking a' nb Activated s \<and> handshaking b' na Activated t
    \<and> is_established s \<and> is_established t
    \<and> codec_out (hs_codec s) = codec_in (hs_codec t) \<and> codec_out (hs_codec t) = codec_in (hs_codec s)"
  by (rule activation_run [OF assms])

lemma demo_names: "check_id ''a''" "check_id ''b''" "token ''655''" "printable ''655''" "in_i32 5" "in_i32 7"
proof -
  show "check_id ''a''" "check_id ''b''" by code_simp+
  have g: "\<forall>c \<in> set ''655''. graphic c" by (simp add: graphic_def code_def)
  then show "token ''655''" by (intro token_graphic) simp_all
  from g show "printable ''655''" by (simp add: printable_def)
qed (simp_all add: in_i32_def i32_min_def i32_max_def)

lemma demo_apart: "''a'' \<noteq> ''b''" "length ''a'' \<le> 1000" "length ''b'' \<le> 1000"
  by simp_all

lemma demo_length: "length (replicate 32 (b :: byte)) = 32"
  by simp

definition demo_random :: "byte \<Rightarrow> random_draws stream" where
  "demo_random b = (Inr [b], Inr (replicate 32 b)) ## sconst (Inl [], Inl [])"

definition demo_end :: "bool \<Rightarrow> meta_driver" where
  "demo_end i = (if i then open_connection ''a'' True (demo_key 1) (pk_public (demo_key 2)) ''655'' 5 1 (demo_random 3)
     else open_connection ''b'' False (demo_key 2) (pk_public (demo_key 1)) ''655'' 7 2 (demo_random 4))"

lemma demo_ends:
  "demo_end True = open_connection ''a'' True (demo_key 1) (pk_public (demo_key 2)) ''655'' 5 1 (demo_random 3)"
  "demo_end False = open_connection ''b'' False (demo_key 2) (pk_public (demo_key 1)) ''655'' 7 2 (demo_random 4)"
  by (simp_all add: demo_end_def)

lemma demo_acks: "length (encode_meta_line (MsgAck (AckConnection ''655'' 5 1))) \<le> 65535"
  "length (encode_meta_line (MsgAck (AckConnection ''655'' 7 2))) \<le> 65535"
proof -
  have "show_meta_message (MsgAck (AckConnection ''655'' 5 1)) = ''4 655 5 1''"
    "show_meta_message (MsgAck (AckConnection ''655'' 7 2)) = ''4 655 7 2''" by code_simp+
  then show "length (encode_meta_line (MsgAck (AckConnection ''655'' 5 1))) \<le> 65535"
    "length (encode_meta_line (MsgAck (AckConnection ''655'' 7 2))) \<le> 65535" by (simp_all add: encode_meta_line_def)
qed

lemma demo_draws: "shd (demo_random b) = (Inr [b], Inr (replicate 32 b))"
  by (simp add: demo_random_def)

theorem meta_connection_activates_witness:
  "\<exists>rs a b. driver_rounds demo_crypto 5 (initial_id_bytes (demo_end False)) (initial_id_bytes (demo_end True))
      (demo_end True) (demo_end False) = (rs, a, b)
    \<and> ma_state (md_auth a) = Activated \<and> ma_state (md_auth b) = Activated"
proof -
  from meta_connection_activates [OF demo_hashes_ok demo_curve_ok demo_key_ok [of 1] demo_key_ok [of 2] demo_names(1,2) demo_apart
      demo_names(3,4,3,4,5,6) demo_acks demo_draws [of 3] demo_draws [of 4] demo_length [of 3] demo_length [of 4], folded demo_ends]
  have "\<exists>rs a b s t. driver_rounds demo_crypto 5 (initial_id_bytes (demo_end False)) (initial_id_bytes (demo_end True))
      (demo_end True) (demo_end False) = (rs, a, b) \<and> handshaking a ''b'' Activated s \<and> handshaking b ''a'' Activated t" by blast
  then show ?thesis unfolding handshaking_def by blast
qed


lemma rounds_reachable:
  "driver_rounds C n x y a b = (rs, a', b') \<Longrightarrow> meta_reachable C a \<Longrightarrow> meta_reachable C b
    \<Longrightarrow> meta_reachable C a' \<and> meta_reachable C b'"
proof (induction n arbitrary: x y a b rs)
  case (Suc n)
  obtain ra a1 where a1: "receive_bytes C x a = (ra, a1)" by fastforce
  obtain rb b1 where b1: "receive_bytes C y b = (rb, b1)" by fastforce
  obtain rest a2 b2 where r: "driver_rounds C n (sent_bytes rb) (sent_bytes ra) a1 b1 = (rest, a2, b2)"
    by (metis prod.exhaust)
  with Suc.prems(1) a1 b1 have "a2 = a'" "b2 = b'" by simp_all
  with r have "driver_rounds C n (sent_bytes rb) (sent_bytes ra) a1 b1 = (rest, a', b')" by simp
  from Suc.IH [OF this meta_reachable.Read [OF Suc.prems(2) a1] meta_reachable.Read [OF Suc.prems(3) b1]] show ?case .
qed simp


end
