(* ===== verification/Coordinator.thy ===== *)
theory Coordinator
  imports Meta_Driver State_Props
begin

text \<open>
  \<^verbatim>\<open>tinc-runtime/src/connection.rs\<close>: the coordinator applies what the meta connections of a
  node report to its network state and decides what is sent on, and the table keeps the connections
  and queues the bytes.  A failing operation loses its step and keeps what it had changed.
\<close>

section \<open>Handles and steps\<close>

datatype meta_network_mode = Mesh | TunnelServer

record connection_handle =
  ch_peer :: "string option"
  ch_remote_address :: string
  ch_local_address :: "edge_address option"
  ch_edge_nonce :: u32
  ch_activated :: bool

definition handle_new :: "string \<Rightarrow> edge_address option \<Rightarrow> u32 \<Rightarrow> connection_handle" where
  "handle_new remote loc nonce =
     \<lparr>ch_peer = None, ch_remote_address = remote, ch_local_address = loc, ch_edge_nonce = nonce,
      ch_activated = False\<rparr>"

definition handle_activated :: "string \<Rightarrow> string \<Rightarrow> edge_address option \<Rightarrow> u32 \<Rightarrow> connection_handle" where
  "handle_activated peer remote loc nonce =
     \<lparr>ch_peer = Some peer, ch_remote_address = remote, ch_local_address = loc, ch_edge_nonce = nonce,
      ch_activated = True\<rparr>"

datatype send_target = ToPeer string | ToAll "string option"

record network_send =
  sd_target :: send_target
  sd_message :: meta_message

datatype network_event =
    NetMessage meta_message
  | NetAuth meta_auth_event
  | NetMutation meta_message state_mutation
  | LocalClaimRejected meta_message "meta_message option"
  | TunnelServerIgnored meta_message
  | NetApplicationRecord byte "byte list"
  | NetTcpPacket "byte list"
  | NetSptpsPacket "byte list"

record network_step =
  nw_sends :: "network_send list"
  nw_events :: "network_event list"

definition network_step_default :: network_step where
  "network_step_default = \<lparr>nw_sends = [], nw_events = []\<rparr>"

definition join_steps :: "network_step \<Rightarrow> network_step \<Rightarrow> network_step" where
  "join_steps a b = \<lparr>nw_sends = nw_sends a @ nw_sends b, nw_events = nw_events a @ nw_events b\<rparr>"

definition net_event :: "network_event \<Rightarrow> network_step" where
  "net_event e = \<lparr>nw_sends = [], nw_events = [e]\<rparr>"

datatype network_error = NetState state_error | MissingActivation

section \<open>The coordinator\<close>

record coordinator =
  co_state :: network_state
  co_mode :: meta_network_mode
  co_next_nonce :: u32

definition with_nonce_seed :: "network_state \<Rightarrow> meta_network_mode \<Rightarrow> u32 \<Rightarrow> coordinator" where
  "with_nonce_seed s mode seed = \<lparr>co_state = s, co_mode = mode, co_next_nonce = seed\<rparr>"

abbreviation co_myself :: "coordinator \<Rightarrow> string" where
  "co_myself c \<equiv> g_myself (ns_graph (co_state c))"

text \<open>\<^verbatim>\<open>next_nonce\<close>, which wraps, handed to the message that is built with it.\<close>

definition next_nonce :: "coordinator \<Rightarrow> u32 \<times> coordinator" where
  "next_nonce c = (co_next_nonce c, c\<lparr>co_next_nonce := co_next_nonce c + 1\<rparr>)"

definition with_nonce :: "(u32 \<Rightarrow> meta_message) \<Rightarrow> coordinator \<Rightarrow> meta_message \<times> coordinator" where
  "with_nonce f c = (case next_nonce c of (n, c) \<Rightarrow> (f n, c))"

definition co_add_subnet_message :: "subnet \<Rightarrow> coordinator \<Rightarrow> meta_message option \<times> coordinator" where
  "co_add_subnet_message x c =
     (case sn_owner x of
        None \<Rightarrow> (None, c)
      | Some owner \<Rightarrow> map_prod Some id (with_nonce (\<lambda>n. MsgAddSubnet
          \<lparr>sm_nonce = n, sm_owner = owner, sm_subnet = x\<lparr>sn_owner := None\<rparr>\<rparr>) c))"

definition edge_address_of :: "edge_endpoint \<Rightarrow> edge_address" where
  "edge_address_of e = \<lparr>ea_address = ep_address e, ea_port = ep_port e\<rparr>"

definition co_add_edge_message :: "edge \<Rightarrow> coordinator \<Rightarrow> meta_message option \<times> coordinator" where
  "co_add_edge_message e c =
     (case e_address e of
        None \<Rightarrow> (None, c)
      | Some endpoint \<Rightarrow> map_prod Some id (with_nonce (\<lambda>n. MsgAddEdge
          \<lparr>ae_nonce = n, ae_edge = e, ae_address = ep_address endpoint, ae_port = ep_port endpoint,
           ae_local = map_option edge_address_of (e_local_address e)\<rparr>) c))"

definition co_delete_edge_message :: "string \<Rightarrow> string \<Rightarrow> coordinator \<Rightarrow> meta_message \<times> coordinator" where
  "co_delete_edge_message f t c = with_nonce (\<lambda>n. MsgDeleteEdge \<lparr>de_nonce = n, de_from = f, de_to = t\<rparr>) c"

text \<open>The messages built for a list of subnets or edges, each with the next nonce.\<close>

primrec collect_messages ::
  "('a \<Rightarrow> coordinator \<Rightarrow> meta_message option \<times> coordinator) \<Rightarrow> 'a list \<Rightarrow> coordinator \<Rightarrow> meta_message list \<times> coordinator" where
  "collect_messages f [] c = ([], c)"
| "collect_messages f (x # xs) c =
     (case f x c of (m, c) \<Rightarrow> (case collect_messages f xs c of (ms, c) \<Rightarrow> ((case m of Some x \<Rightarrow> [x] | None \<Rightarrow> []) @ ms, c)))"

definition sync_messages :: "coordinator \<Rightarrow> meta_message list \<times> coordinator" where
  "sync_messages c =
     (let subnets = ns_subnets (co_state c); edges = bt_values (g_edges (ns_graph (co_state c)))
      in case collect_messages co_add_subnet_message subnets c of (ms, c) \<Rightarrow>
         (case collect_messages co_add_edge_message edges c of (es, c) \<Rightarrow> (ms @ es, c)))"

definition local_edge_correction :: "string \<Rightarrow> string \<Rightarrow> coordinator \<Rightarrow> meta_message \<times> coordinator" where
  "local_edge_correction f t c =
     (case graph_edge (ns_graph (co_state c)) f t of
        Some e \<Rightarrow>
          (case co_add_edge_message e c of
             (Some m, c) \<Rightarrow> (m, c)
           | (None, c) \<Rightarrow> co_delete_edge_message f t c)
      | None \<Rightarrow> co_delete_edge_message f t c)"

text \<open>
  The message that answers a claim about this node's own subnets and edges; \<open>None\<close> outside for a
  message that is no such claim, inside when there is nothing to correct.
\<close>

definition local_correction :: "meta_message \<Rightarrow> coordinator \<Rightarrow> meta_message option option \<times> coordinator" where
  "local_correction message c =
     (let myself = co_myself c in case message of
        MsgAddSubnet m \<Rightarrow>
          if sm_owner m \<noteq> myself then (None, c)
          else if lookup_owner_subnet (ns_subnets (co_state c)) myself (sm_subnet m) = None
          then map_prod (Some \<circ> Some) id (with_nonce (\<lambda>n. MsgDeleteSubnet
            \<lparr>sm_nonce = n, sm_owner = myself, sm_subnet = sm_subnet m\<rparr>) c)
          else (Some None, c)
      | MsgDeleteSubnet m \<Rightarrow>
          if sm_owner m \<noteq> myself then (None, c)
          else if lookup_owner_subnet (ns_subnets (co_state c)) myself (sm_subnet m) \<noteq> None
          then map_prod (Some \<circ> Some) id (with_nonce (\<lambda>n. MsgAddSubnet
            \<lparr>sm_nonce = n, sm_owner = myself, sm_subnet = (sm_subnet m)\<lparr>sn_owner := None\<rparr>\<rparr>) c)
          else (Some None, c)
      | MsgAddEdge m \<Rightarrow>
          if e_from (ae_edge m) \<noteq> myself then (None, c)
          else map_prod (Some \<circ> Some) id (local_edge_correction (e_from (ae_edge m)) (e_to (ae_edge m)) c)
      | MsgDeleteEdge m \<Rightarrow>
          if de_from m \<noteq> myself then (None, c)
          else (case graph_edge (ns_graph (co_state c)) (de_from m) (de_to m) of
                  None \<Rightarrow> (Some None, c)
                | Some e \<Rightarrow> map_prod Some id (co_add_edge_message e c))
      | _ \<Rightarrow> (None, c))"

definition rejects_local_claim :: "connection_handle \<Rightarrow> meta_message \<Rightarrow> coordinator \<Rightarrow> network_step option \<times> coordinator" where
  "rejects_local_claim h message c =
     (case local_correction message c of
        (None, c) \<Rightarrow> (None, c)
      | (Some correction, c) \<Rightarrow>
          (Some \<lparr>nw_sends = (case (ch_peer h, correction) of
               (Some peer, Some m) \<Rightarrow> [\<lparr>sd_target = ToPeer peer, sd_message = m\<rparr>] | _ \<Rightarrow> []),
             nw_events = [LocalClaimRejected message correction]\<rparr>, c))"

definition edge_endpoint_is_direct :: "string \<Rightarrow> string option \<Rightarrow> string \<Rightarrow> bool" where
  "edge_endpoint_is_direct myself peer endpoint \<longleftrightarrow> endpoint = myself \<or> peer = Some endpoint"

definition tunnel_server_indirect_edge :: "string \<Rightarrow> string option \<Rightarrow> string \<Rightarrow> string \<Rightarrow> bool" where
  "tunnel_server_indirect_edge myself peer f t \<longleftrightarrow>
     \<not> edge_endpoint_is_direct myself peer f \<and> \<not> edge_endpoint_is_direct myself peer t"

definition tunnel_server_ignores :: "connection_handle \<Rightarrow> meta_message \<Rightarrow> coordinator \<Rightarrow> bool" where
  "tunnel_server_ignores h message c \<longleftrightarrow> co_mode c = TunnelServer \<and>
     (let myself = co_myself c; peer = ch_peer h in case message of
        MsgAddSubnet m \<Rightarrow> sm_owner m \<noteq> myself
      | MsgDeleteSubnet m \<Rightarrow> sm_owner m \<noteq> myself
      | MsgAddEdge m \<Rightarrow> tunnel_server_indirect_edge myself peer (e_from (ae_edge m)) (e_to (ae_edge m))
      | MsgDeleteEdge m \<Rightarrow> tunnel_server_indirect_edge myself peer (de_from m) (de_to m)
      | _ \<Rightarrow> False)"

definition should_forward :: "meta_message \<Rightarrow> coordinator \<Rightarrow> bool" where
  "should_forward message c \<longleftrightarrow> co_mode c = Mesh \<and>
     message_request message \<in> {ReqAddSubnet, ReqDeleteSubnet, ReqAddEdge, ReqDeleteEdge, ReqKeyChanged}"

definition co_apply :: "(string \<Rightarrow> byte list) \<Rightarrow> meta_message \<Rightarrow> coordinator \<Rightarrow> (network_error + state_mutation) \<times> coordinator" where
  "co_apply H m c = (case apply_meta_message_at H m 0 (co_state c) of (r, s) \<Rightarrow> (map_err NetState r, c\<lparr>co_state := s\<rparr>))"

definition apply_relayed_message ::
  "(string \<Rightarrow> byte list) \<Rightarrow> connection_handle \<Rightarrow> meta_message \<Rightarrow> coordinator \<Rightarrow> (network_error + network_step) \<times> coordinator" where
  "apply_relayed_message H h message c =
     (case rejects_local_claim h message c of
        (Some s, c) \<Rightarrow> (Inr s, c)
      | (None, c) \<Rightarrow>
          if tunnel_server_ignores h message c then (Inr (net_event (TunnelServerIgnored message)), c)
          else
            (case co_apply H message c of
               (Inl e, c') \<Rightarrow> (Inl e, c')
             | (Inr mutation, c') \<Rightarrow>
                 (Inr \<lparr>nw_sends = (if should_forward message c
                        then [\<lparr>sd_target = ToAll (ch_peer h), sd_message = message\<rparr>] else []),
                       nw_events = [NetMutation message mutation]\<rparr>, c')))"

definition activate_connection ::
  "(string \<Rightarrow> byte list) \<Rightarrow> meta_auth_event \<Rightarrow> connection_handle \<Rightarrow> coordinator
    \<Rightarrow> (network_error + network_step) \<times> connection_handle \<times> coordinator" where
  "activate_connection H event h c =
     (case event of
        AuthActivated peer _ _ _ \<Rightarrow>
          (case sync_messages c of (ms, c) \<Rightarrow>
             (case edge_of_activated event (ch_remote_address h) (ch_local_address h) (ch_edge_nonce h) of
                None \<Rightarrow> (Inl MissingActivation, h, c)
              | Some e \<Rightarrow>
                  let message = MsgAddEdge (meta_add_edge (co_myself c) e)
                  in case co_apply H message c of
                       (Inl err, c) \<Rightarrow> (Inl err, h, c)
                     | (Inr mutation, c) \<Rightarrow>
                         (Inr \<lparr>nw_sends = map (\<lambda>m. \<lparr>sd_target = ToPeer peer, sd_message = m\<rparr>) ms
                              @ [\<lparr>sd_target = (case co_mode c of Mesh \<Rightarrow> ToAll None | TunnelServer \<Rightarrow> ToPeer peer),
                                  sd_message = message\<rparr>],
                            nw_events = [NetAuth event, NetMutation message mutation]\<rparr>,
                          h\<lparr>ch_peer := Some peer, ch_activated := True\<rparr>, c)))
      | _ \<Rightarrow> (Inr network_step_default, h, c))"

definition coordinate_event ::
  "(string \<Rightarrow> byte list) \<Rightarrow> meta_connection_event \<Rightarrow> connection_handle \<Rightarrow> coordinator
    \<Rightarrow> (network_error + network_step) \<times> connection_handle \<times> coordinator" where
  "coordinate_event H event h c =
     (case event of
        EvMessage m \<Rightarrow>
          if ch_activated h then (case apply_relayed_message H h m c of (r, c) \<Rightarrow> (r, h, c))
          else (Inr (net_event (NetMessage m)), h, c)
      | EvAuth e \<Rightarrow>
          (case e of AuthActivated _ _ _ _ \<Rightarrow> activate_connection H e h c
           | _ \<Rightarrow> (Inr (net_event (NetAuth e)), h, c))
      | EvTcpPacket p \<Rightarrow> (Inr (net_event (NetTcpPacket p)), h, c)
      | EvSptpsPacket p \<Rightarrow> (Inr (net_event (NetSptpsPacket p)), h, c)
      | EvApplicationRecord t p \<Rightarrow> (Inr (net_event (NetApplicationRecord t p)), h, c))"

primrec coordinate_events ::
  "(string \<Rightarrow> byte list) \<Rightarrow> meta_connection_event list \<Rightarrow> connection_handle \<Rightarrow> coordinator
    \<Rightarrow> (network_error + network_step) \<times> connection_handle \<times> coordinator" where
  "coordinate_events H [] h c = (Inr network_step_default, h, c)"
| "coordinate_events H (e # es) h c =
     (case coordinate_event H e h c of
        (Inl err, h, c) \<Rightarrow> (Inl err, h, c)
      | (Inr s, h, c) \<Rightarrow> map_prod (map_ok (join_steps s)) id (coordinate_events H es h c))"

text \<open>\<^verbatim>\<open>MetaNetworkCoordinator::handle_connection_step\<close>\<close>

definition coordinate_step ::
  "(string \<Rightarrow> byte list) \<Rightarrow> connection_step \<Rightarrow> connection_handle \<Rightarrow> coordinator
    \<Rightarrow> (network_error + network_step) \<times> connection_handle \<times> coordinator" where
  "coordinate_step H step h c = coordinate_events H (cs_events step) h c"

section \<open>The connection table\<close>

type_synonym connection_id = "64 word"

record peer_connection =
  pc_driver :: meta_driver
  pc_handle :: connection_handle
  pc_outbound :: "byte list list"

definition peer_connection_new :: "meta_driver \<Rightarrow> connection_handle \<Rightarrow> peer_connection" where
  "peer_connection_new d h = \<lparr>pc_driver = d, pc_handle = h, pc_outbound = []\<rparr>"

record queued_send =
  qs_connection :: connection_id
  qs_peer :: "string option"
  qs_message :: meta_message
  qs_bytes_len :: nat

record table_step =
  ts_connection :: connection_id
  ts_network :: network_step
  ts_queued :: "queued_send list"

datatype table_error =
    DuplicateConnection connection_id
  | MissingConnection connection_id
  | MissingPeer string
  | TableConnection meta_connection_error
  | TableNetwork network_error

record connection_table =
  ct_coordinator :: coordinator
  ct_connections :: "(connection_id, peer_connection) btree"

type_synonym 'a table_op = "connection_table \<Rightarrow> (table_error + 'a) \<times> connection_table"

definition connection_table_new :: "coordinator \<Rightarrow> connection_table" where
  "connection_table_new c = \<lparr>ct_coordinator = c, ct_connections = []\<rparr>"

definition ct_is_empty :: "connection_table \<Rightarrow> bool" where
  "ct_is_empty t \<longleftrightarrow> ct_connections t = []"

definition ct_len :: "connection_table \<Rightarrow> nat" where
  "ct_len t = length (ct_connections t)"

definition ct_connection :: "connection_id \<Rightarrow> connection_table \<Rightarrow> peer_connection option" where
  "ct_connection i t = bt_get (ct_connections t) i"

text \<open>A connection written back where it was borrowed.\<close>

definition put_connection :: "connection_id \<Rightarrow> peer_connection \<Rightarrow> connection_table \<Rightarrow> connection_table" where
  "put_connection i p t = t\<lparr>ct_connections := bt_adjust i (\<lambda>_. p) (ct_connections t)\<rparr>"

definition insert_connection :: "connection_id \<Rightarrow> meta_driver \<Rightarrow> connection_handle \<Rightarrow> bool \<Rightarrow> unit table_op" where
  "insert_connection i d h send_initial_id t =
     (if bt_contains (ct_connections t) i then (Inl (DuplicateConnection i), t)
      else let p = peer_connection_new d h;
               p = (if send_initial_id then p\<lparr>pc_outbound := pc_outbound p @ [initial_id_bytes d]\<rparr> else p)
           in (Inr (), t\<lparr>ct_connections := bt_insert i p (ct_connections t)\<rparr>))"

definition remove_connection :: "connection_id \<Rightarrow> connection_table \<Rightarrow> peer_connection option \<times> connection_table" where
  "remove_connection i t = (ct_connection i t, t\<lparr>ct_connections := bt_remove i (ct_connections t)\<rparr>)"

definition drain_connection :: "connection_id \<Rightarrow> byte list list table_op" where
  "drain_connection i t =
     (case ct_connection i t of
        None \<Rightarrow> (Inl (MissingConnection i), t)
      | Some p \<Rightarrow> (Inr (pc_outbound p), put_connection i (p\<lparr>pc_outbound := []\<rparr>) t))"

definition peer_connection_id :: "string \<Rightarrow> connection_table \<Rightarrow> connection_id option" where
  "peer_connection_id peer t =
     map_option fst (find (\<lambda>(i, p). ch_peer (pc_handle p) = Some peer) (ct_connections t))"

definition target_connections :: "send_target \<Rightarrow> connection_table \<Rightarrow> table_error + connection_id list" where
  "target_connections target t =
     (case target of
        ToPeer peer \<Rightarrow> (case peer_connection_id peer t of None \<Rightarrow> Inl (MissingPeer peer) | Some i \<Rightarrow> Inr [i])
      | ToAll exclude \<Rightarrow>
          Inr (map fst (filter (\<lambda>(i, p). ch_activated (pc_handle p) \<and> ch_peer (pc_handle p) \<noteq> exclude)
            (ct_connections t))))"

primrec queue_to :: "('p, 's) sptps_crypto \<Rightarrow> meta_message \<Rightarrow> connection_id list \<Rightarrow> queued_send list table_op" where
  "queue_to C m [] t = (Inr [], t)"
| "queue_to C m (i # is) t =
     (case ct_connection i t of
        None \<Rightarrow> (Inl (MissingConnection i), t)
      | Some p \<Rightarrow>
          (case send_meta_message C m (pc_driver p) of
             (Inl e, d) \<Rightarrow> (Inl (TableConnection e), put_connection i (p\<lparr>pc_driver := d\<rparr>) t)
           | (Inr bytes, d) \<Rightarrow>
               let t = put_connection i (p\<lparr>pc_driver := d, pc_outbound := pc_outbound p @ [bytes]\<rparr>) t;
                   q = \<lparr>qs_connection = i, qs_peer = ch_peer (pc_handle p), qs_message = m, qs_bytes_len = length bytes\<rparr>
               in map_prod (map_ok (\<lambda>qs. q # qs)) id (queue_to C m is t)))"

definition queue_network_send :: "('p, 's) sptps_crypto \<Rightarrow> network_send \<Rightarrow> queued_send list table_op" where
  "queue_network_send C send t =
     (case target_connections (sd_target send) t of
        Inl e \<Rightarrow> (Inl e, t)
      | Inr targets \<Rightarrow> queue_to C (sd_message send) targets t)"

primrec queue_sends :: "('p, 's) sptps_crypto \<Rightarrow> network_send list \<Rightarrow> queued_send list table_op" where
  "queue_sends C [] t = (Inr [], t)"
| "queue_sends C (s # ss) t =
     (case queue_network_send C s t of
        (Inl e, t) \<Rightarrow> (Inl e, t)
      | (Inr qs, t) \<Rightarrow> map_prod (map_ok (\<lambda>rest. qs @ rest)) id (queue_sends C ss t))"

definition handle_connection_step ::
  "('p, 's) sptps_crypto \<Rightarrow> (string \<Rightarrow> byte list) \<Rightarrow> connection_id \<Rightarrow> connection_step \<Rightarrow> table_step table_op" where
  "handle_connection_step C H i step t =
     (case ct_connection i t of
        None \<Rightarrow> (Inl (MissingConnection i), t)
      | Some p \<Rightarrow>
          (case coordinate_step H step (pc_handle p) (ct_coordinator t) of
             (r, h, c) \<Rightarrow>
               let t = put_connection i (p\<lparr>pc_handle := h\<rparr>) (t\<lparr>ct_coordinator := c\<rparr>)
               in case r of
                    Inl e \<Rightarrow> (Inl (TableNetwork e), t)
                  | Inr network \<Rightarrow>
                      map_prod (map_ok (\<lambda>qs. \<lparr>ts_connection = i, ts_network = network, ts_queued = qs\<rparr>)) id
                        (queue_sends C (nw_sends network) t)))"

definition table_receive ::
  "('p, 's::comm_ring_1) sptps_crypto \<Rightarrow> (string \<Rightarrow> byte list) \<Rightarrow> connection_id \<Rightarrow> byte list \<Rightarrow> table_step table_op" where
  "table_receive C H i bs t =
     (case ct_connection i t of
        None \<Rightarrow> (Inl (MissingConnection i), t)
      | Some p \<Rightarrow>
          (case receive_bytes C bs (pc_driver p) of
             (Inl e, d) \<Rightarrow> (Inl (TableConnection e), put_connection i (p\<lparr>pc_driver := d\<rparr>) t)
           | (Inr step, d) \<Rightarrow> handle_connection_step C H i step (put_connection i (p\<lparr>pc_driver := d\<rparr>) t)))"

end
