(* ===== verification/Coordinator_Props.thy ===== *)
theory Coordinator_Props
  imports Coordinator Meta_Safety State_Purge
begin

text \<open>
  What reports of peers do to the state of a node: they never make the coordinator fail, never
  touch what the node announces itself, and what a new peer is sent rebuilds the mesh.
\<close>

section \<open>What a message leaves alone\<close>

definition own_subnets :: "network_state \<Rightarrow> subnet list" where
  "own_subnets s = owner_subnets (ns_subnets s) (g_myself (ns_graph s))"

definition own_kept :: "string set \<Rightarrow> network_state \<Rightarrow> network_state \<Rightarrow> bool" where
  "own_kept new s s' \<longleftrightarrow> g_myself (ns_graph s') = g_myself (ns_graph s) \<and> own_subnets s' = own_subnets s
     \<and> (\<forall>t. t \<notin> new \<longrightarrow> graph_edge (ns_graph s') (g_myself (ns_graph s)) t = graph_edge (ns_graph s) (g_myself (ns_graph s)) t)"

lemma own_kept_refl: "own_kept new s s"
  by (simp add: own_kept_def)

lemma own_kept_trans: "own_kept a s s' \<Longrightarrow> own_kept b s' s'' \<Longrightarrow> own_kept (a \<union> b) s s''"
  by (simp add: own_kept_def)

lemma filter_insert_by: "\<not> P x \<Longrightarrow> filter P (insert_by c x t) = filter P t"
  by (induction t) auto

lemma add_unique_others:
  assumes "table_ok t" "sn_owner x \<noteq> Some name"
  shows "owner_subnets (snd (table_add_unique x t)) name = owner_subnets t name"
  using assms by (simp add: table_add_unique_def table_add_insert owner_subnets_def filter_insert_by)

lemma remove_others:
  assumes "table_ok t" "owner \<noteq> name"
  shows "owner_subnets (snd (remove_owner_subnet owner x t)) name = owner_subnets t name"
proof -
  let ?x = "x\<lparr>sn_owner := Some owner\<rparr>"
  consider ys z zs where "t = ys @ z # zs" "compare_tinc z ?x = Equal" "remove_owner_subnet owner x t = (Some z, ys @ zs)"
    | "remove_owner_subnet owner x t = (None, t)"
    using remove_first_cases [of t "\<lambda>candidate. compare_tinc candidate ?x = Equal"]
    unfolding remove_owner_subnet_def table_remove_def by blast
  then show ?thesis
  proof cases
    case 1
    then have "owned z" "owned ?x" using assms(1) by (auto simp: table_ok_def owned_def)
    with 1(2) have "sn_owner z = Some owner" by (simp add: compare_tinc_equal)
    with 1 assms(2) show ?thesis by (simp add: owner_subnets_def)
  qed simp
qed

definition local_claim :: "string \<Rightarrow> meta_message \<Rightarrow> bool" where
  "local_claim myself m \<longleftrightarrow> (case m of
       MsgAddSubnet x \<Rightarrow> sm_owner x = myself
     | MsgDeleteSubnet x \<Rightarrow> sm_owner x = myself
     | MsgAddEdge x \<Rightarrow> e_from (ae_edge x) = myself
     | MsgDeleteEdge x \<Rightarrow> de_from x = myself
     | _ \<Rightarrow> False)"

lemma recompute_own:
  assumes "graph_ok g"
  shows "own_kept {} (s\<lparr>ns_graph := g\<rparr>) (snd (recompute_routes_at now (s\<lparr>ns_graph := g\<rparr>)))"
  using recompute_graph [of "s\<lparr>ns_graph := g\<rparr>" now "fst (recompute_routes_at now (s\<lparr>ns_graph := g\<rparr>))"] assms
  by (simp add: own_kept_def own_subnets_def graph_edge_def)

lemma ensure_own: "own_kept {} s (s\<lparr>ns_graph := snd (ensure_node H name (ns_graph s))\<rparr>)"
  by (simp add: own_kept_def own_subnets_def graph_edge_def ensure_node_frame)

lemma node_mut_own: "own_kept {} s (s\<lparr>ns_graph := node_mut name f (ns_graph s)\<rparr>)"
  by (simp add: own_kept_def own_subnets_def graph_edge_def node_mut_def)

lemma upsert_own:
  assumes "graph_ok g" "upsert_edge e g = Inr (mu, g')" "e_from e = g_myself g \<longrightarrow> e_to e \<in> new"
  shows "own_kept new (s\<lparr>ns_graph := g\<rparr>) (s\<lparr>ns_graph := g'\<rparr>)"
  using assms
  by (auto simp: upsert_edge_def Let_def own_kept_def own_subnets_def graph_edge_def graph_ok_def edge_key_of_def
      bt_get_insert bt_get_adjust split: if_splits option.splits)

lemma add_edge_own:
  assumes "state_ok s" "e_from (ae_edge m) = g_myself (ns_graph s) \<longrightarrow> e_to (ae_edge m) \<in> new"
  shows "own_kept new s (snd (apply_add_edge H m now s))"
proof -
  let ?e = "edge_from_add_edge_message m"
  define g1 where "g1 = snd (ensure_node H (e_from (ae_edge m)) (ns_graph s))"
  define g2 where "g2 = snd (ensure_node H (e_to (ae_edge m)) g1)"
  have g: "graph_ok (ns_graph s)" using assms(1) by (simp add: state_ok_def)
  have g2: "graph_ok g2" unfolding g2_def g1_def by (intro graph_ok_ensure_node g)
  have k2: "own_kept {} s (s\<lparr>ns_graph := g2\<rparr>)"
    by (simp add: own_kept_def own_subnets_def graph_edge_def ensure_node_frame g1_def g2_def)
  have my: "g_myself g2 = g_myself (ns_graph s)" by (simp add: g1_def g2_def ensure_node_frame)
  show ?thesis
  proof (cases "upsert_edge ?e g2")
    case (Inl err)
    then have "snd (apply_add_edge H m now s) = s\<lparr>ns_graph := g2\<rparr>"
      by (simp add: apply_add_edge_def g1_def g2_def case_prod_beta)
    with own_kept_trans [OF k2 own_kept_refl [of new]] show ?thesis by simp
  next
    case (Inr p)
    then obtain mu g3 where 3: "upsert_edge ?e g2 = Inr (mu, g3)" by (cases p) auto
    have "snd (apply_add_edge H m now s) = snd (recompute_routes_at now (s\<lparr>ns_graph := g3\<rparr>))"
      using 3 by (simp add: apply_add_edge_def g1_def g2_def case_prod_beta)
    with own_kept_trans [OF own_kept_trans [OF k2 upsert_own [OF g2 3, of new s]] recompute_own [OF graph_ok_upsert_edge [OF g2 3], of s now]]
      assms(2) my show ?thesis by simp
  qed
qed

lemma delete_edge_own:
  assumes "state_ok s" "f \<noteq> g_myself (ns_graph s)"
  shows "own_kept {} s (snd (apply_delete_edge f t now s))"
proof -
  let ?g = "snd (remove_edge f t (ns_graph s))"
  have g: "graph_ok (ns_graph s)" using assms(1) by (simp add: state_ok_def)
  then have "bt_ok (g_edges (ns_graph s))" by (simp add: graph_ok_def)
  then have "own_kept {} s (s\<lparr>ns_graph := ?g\<rparr>)"
    using assms(2) by (auto simp: own_kept_def own_subnets_def graph_edge_def remove_edge_def Let_def bt_get_remove)
  from own_kept_trans [OF this recompute_own [OF graph_ok_remove_edge [OF g], of f t s now]]
  show ?thesis by (simp add: apply_delete_edge_def case_prod_beta)
qed

lemma message_own:
  assumes "state_ok s" "\<not> local_claim (g_myself (ns_graph s)) m"
  shows "own_kept {} s (snd (apply_meta_message_at H m now s))"
proof (cases m)
  case (MsgAddSubnet x)
  let ?y = "with_owner (sm_owner x) (sm_subnet x)"
  have "owner_subnets (snd (table_add_unique ?y (ns_subnets s))) (g_myself (ns_graph s)) = own_subnets s"
    using add_unique_others [of "ns_subnets s" ?y] assms MsgAddSubnet
    by (simp add: state_ok_def with_owner_def local_claim_def own_subnets_def)
  then show ?thesis using MsgAddSubnet
    by (simp add: apply_meta_message_at_def reported_def apply_add_subnet_def Let_def case_prod_beta own_kept_def
        own_subnets_def graph_edge_def ensure_node_frame)
next
  case (MsgDeleteSubnet x)
  then show ?thesis
    using remove_others [of "ns_subnets s" "sm_owner x" "g_myself (ns_graph s)" "sm_subnet x"] assms
    by (simp add: apply_meta_message_at_def reported_def apply_delete_subnet_def case_prod_beta own_kept_def
        own_subnets_def state_ok_def local_claim_def)
next
  case (MsgAddEdge x)
  with add_edge_own [OF assms(1), of x "{}"] assms(2) show ?thesis by (simp add: apply_meta_message_at_def local_claim_def)
next
  case (MsgDeleteEdge x)
  with delete_edge_own [OF assms(1)] assms(2) show ?thesis
    by (simp add: apply_meta_message_at_def reported_def local_claim_def)
qed (auto simp: apply_meta_message_at_def reported_def apply_key_changed_def apply_udp_info_def apply_mtu_info_def Let_def
    own_kept_refl node_mut_own split: option.split)

lemma message_total:
  assumes "state_ok s" "parse_meta_message line = Inr m"
  shows "\<exists>mu s'. apply_meta_message_at H m now s = (Inr mu, s') \<and> state_ok s'"
proof (cases "\<exists>x. m = MsgAddEdge x")
  case True
  then obtain x where "m = MsgAddEdge x" by blast
  with add_edge_ok [OF assms(1), of H x now] show ?thesis
    by (cases "apply_add_edge H x now s") (auto simp: apply_meta_message_at_def)
next
  case False
  with apply_parsed_ok [OF assms, of H now] show ?thesis
    by (cases m) (auto simp: apply_meta_message_at_def reported_def)
qed

section \<open>The coordinator\<close>

text \<open>Building messages only counts the nonce.\<close>

definition counts :: "coordinator \<Rightarrow> coordinator \<Rightarrow> bool" where
  "counts c c' \<longleftrightarrow> co_state c' = co_state c \<and> co_mode c' = co_mode c"

lemma counts_refl [simp]: "counts c c"
  by (simp add: counts_def)

lemma counts_trans: "counts a b \<Longrightarrow> counts b c \<Longrightarrow> counts a c"
  by (simp add: counts_def)

lemma counts_nonce [simp]: "counts c (snd (with_nonce f c))"
  by (simp add: counts_def with_nonce_def next_nonce_def)

lemma counts_messages [simp]:
  "counts c (snd (co_add_edge_message e c))" "counts c (snd (co_add_subnet_message x c))"
  "counts c (snd (co_delete_edge_message f t c))"
  by (simp_all add: co_add_edge_message_def co_add_subnet_message_def co_delete_edge_message_def split: option.split)

lemma counts_collected:
  assumes "\<And>x c. counts c (snd (f x c))"
  shows "counts c (snd (collect_messages f xs c))"
proof (induction xs arbitrary: c)
  case (Cons x xs)
  from counts_trans [OF assms Cons.IH] show ?case by (simp add: case_prod_beta)
qed simp

lemma counts_sync: "counts c (snd (sync_messages c))"
  using counts_trans [OF counts_collected counts_collected, of co_add_subnet_message co_add_edge_message]
  by (simp add: sync_messages_def Let_def case_prod_beta)

lemma counts_edge_correction: "counts c (snd (local_edge_correction f t c))"
proof (cases "graph_edge (ns_graph (co_state c)) f t")
  case None
  then show ?thesis by (simp add: local_edge_correction_def)
next
  case (Some e)
  obtain x c1 where x: "co_add_edge_message e c = (x, c1)" by fastforce
  then have "counts c c1" using counts_messages(1) [of c e] by simp
  from counts_trans [OF this counts_messages(3)] this Some x show ?thesis
    by (cases x) (simp_all add: local_edge_correction_def)
qed

lemma local_corrected:
  "counts c (snd (local_correction m c))" "fst (local_correction m c) = None \<longleftrightarrow> \<not> local_claim (co_myself c) m"
  by (cases m; simp add: local_correction_def local_claim_def Let_def counts_edge_correction split: option.split)+

lemma claim_rejected:
  "counts c (snd (rejects_local_claim h m c))" "fst (rejects_local_claim h m c) = None \<longleftrightarrow> \<not> local_claim (co_myself c) m"
  using local_corrected(1) [of c m] local_corrected(2) [of m c]
  by (auto simp: rejects_local_claim_def split: prod.split option.split)

text \<open>What a driver answers is not queued: the step of the table does not depend on it.\<close>

lemma replies_ignored:
  "handle_connection_step C H i (step\<lparr>cs_outbound := out\<rparr>) t = handle_connection_step C H i step t"
  by (simp add: handle_connection_step_def coordinate_step_def split: option.split)

text \<open>The peers an activation among the reports names.\<close>

definition joined :: "meta_connection_event list \<Rightarrow> string set" where
  "joined es = {peer. \<exists>port weight options. EvAuth (AuthActivated peer port weight options) \<in> set es}"

definition well_read :: "meta_connection_event list \<Rightarrow> bool" where
  "well_read es \<longleftrightarrow> (\<forall>m. EvMessage m \<in> set es \<longrightarrow> (\<exists>line. parse_meta_message line = Inr m))"

text \<open>What reports do to the coordinator, and that they do not fail.\<close>

definition keeps_own :: "meta_connection_event list \<Rightarrow> coordinator \<Rightarrow> coordinator \<Rightarrow> bool" where
  "keeps_own es c c' \<longleftrightarrow> state_ok (co_state c') \<and> co_mode c' = co_mode c
     \<and> own_kept (joined es) (co_state c) (co_state c')
     \<and> (\<forall>peer \<in> joined es. graph_edge (ns_graph (co_state c')) (co_myself c) peer \<noteq> None)"

lemma relayed_keeps:
  assumes "state_ok (co_state c)" "parse_meta_message line = Inr m" "apply_relayed_message H h m c = (r, c')"
  shows "(\<exists>s. r = Inr s) \<and> keeps_own [EvMessage m] c c'"
proof -
  obtain x c1 where x: "rejects_local_claim h m c = (x, c1)" by fastforce
  have q: "co_state c1 = co_state c \<and> co_mode c1 = co_mode c" "x = None \<longleftrightarrow> \<not> local_claim (co_myself c) m"
    using claim_rejected(1) [of c h m] claim_rejected(2) [of h m c] x by (simp_all add: counts_def)
  show ?thesis
  proof (cases "x = None \<and> \<not> tunnel_server_ignores h m c1")
    case False
    then have "(\<exists>s. r = Inr s) \<and> c' = c1"
      using assms(3) x by (auto simp: apply_relayed_message_def split: option.splits if_splits)
    then show ?thesis using q assms(1) by (simp add: keeps_own_def own_kept_refl joined_def)
  next
    case True
    from message_total [OF assms(1,2)] obtain mu s' where m: "apply_meta_message_at H m 0 (co_state c) = (Inr mu, s')" "state_ok s'"
      by blast
    then have "own_kept {} (co_state c) s'" using message_own [OF assms(1), of m H 0] True q by simp
    with m True x q assms(3) show ?thesis
      by (auto simp: apply_relayed_message_def co_apply_def keeps_own_def joined_def)
  qed
qed

lemma activation_keeps:
  assumes "state_ok (co_state c)" "activate_connection H (AuthActivated peer port weight options) h c = (r, h', c')"
  shows "(\<exists>s. r = Inr s) \<and> keeps_own [EvAuth (AuthActivated peer port weight options)] c c'"
proof -
  obtain ms c1 where s: "sync_messages c = (ms, c1)" by fastforce
  have q: "co_state c1 = co_state c \<and> co_mode c1 = co_mode c" using counts_sync [of c] s by (simp add: counts_def)
  let ?m = "\<lparr>ae_nonce = ch_edge_nonce h, ae_edge = (edge_new (co_myself c) peer weight)\<lparr>e_options := options\<rparr>,
      ae_address = ch_remote_address h, ae_port = port, ae_local = ch_local_address h\<rparr>"
  obtain x s' where a: "apply_add_edge H ?m 0 (co_state c) = (x, s')" by fastforce
  have f: "e_from (ae_edge ?m) = co_myself c" "e_to (ae_edge ?m) = peer" by (simp_all add: edge_new_def)
  from add_edge_ok [OF assms(1), of H ?m 0] a f obtain mu where x: "x = Inr mu" and ok: "state_ok s'"
    and e: "bt_contains (g_edges (ns_graph s')) (EdgeKey (co_myself c) peer)" by (auto simp: edge_key_of_def)
  have "own_kept {peer} (co_state c) s'" using add_edge_own [OF assms(1), of ?m "{peer}" H 0] a f by simp
  moreover have "(\<exists>s. r = Inr s) \<and> co_state c' = s' \<and> co_mode c' = co_mode c"
    using assms(2) s q a x
    by (auto simp: activate_connection_def co_apply_def apply_meta_message_at_def meta_add_edge_def Let_def)
  ultimately show ?thesis using ok e by (auto simp: keeps_own_def joined_def graph_edge_def bt_contains_iff)
qed

lemma event_keeps:
  assumes "state_ok (co_state c)" "well_read [e]" "coordinate_event H e h c = (r, h', c')"
  shows "(\<exists>s. r = Inr s) \<and> keeps_own [e] c c'"
proof (cases "(\<exists>m. e = EvMessage m \<and> ch_activated h) \<or> (\<exists>peer port weight options. e = EvAuth (AuthActivated peer port weight options))")
  case True
  with assms relayed_keeps [OF assms(1)] activation_keeps [OF assms(1)] show ?thesis
    by (fastforce simp: coordinate_event_def well_read_def split: prod.splits)
next
  case False
  then have "(\<exists>s. r = Inr s) \<and> c' = c" "joined [e] = {}"
    using assms(3) by (auto simp: coordinate_event_def joined_def split: meta_connection_event.splits meta_auth_event.splits)
  with assms(1) show ?thesis by (simp add: keeps_own_def own_kept_refl)
qed

lemma keeps_own_trans:
  assumes "keeps_own [e] c c1" "keeps_own es c1 c'"
  shows "keeps_own (e # es) c c'"
proof -
  have j: "joined (e # es) = joined [e] \<union> joined es" by (auto simp: joined_def)
  have my: "co_myself c1 = co_myself c" using assms(1) by (simp add: keeps_own_def own_kept_def)
  have "graph_edge (ns_graph (co_state c')) (co_myself c) peer \<noteq> None" if "peer \<in> joined [e] \<union> joined es" for peer
  proof (cases "peer \<in> joined es")
    case True
    with assms(2) my show ?thesis by (simp add: keeps_own_def)
  next
    case False
    with assms(2) my have "graph_edge (ns_graph (co_state c')) (co_myself c) peer = graph_edge (ns_graph (co_state c1)) (co_myself c) peer"
      by (simp add: keeps_own_def own_kept_def)
    with False that assms(1) show ?thesis by (auto simp: keeps_own_def)
  qed
  with assms own_kept_trans [of "joined [e]" "co_state c" "co_state c1" "joined es" "co_state c'"] j
  show ?thesis by (simp add: keeps_own_def)
qed

lemma events_keep:
  "state_ok (co_state c) \<Longrightarrow> well_read es \<Longrightarrow> coordinate_events H es h c = (r, h', c') \<Longrightarrow> (\<exists>s. r = Inr s) \<and> keeps_own es c c'"
proof (induction es arbitrary: h c r h' c')
  case Nil
  then show ?case by (auto simp: keeps_own_def own_kept_refl joined_def)
next
  case (Cons e es)
  obtain r1 h1 c1 where e: "coordinate_event H e h c = (r1, h1, c1)" by (metis prod_cases3)
  have w: "well_read [e]" "well_read es" using Cons.prems(2) by (auto simp: well_read_def)
  from event_keeps [OF Cons.prems(1) w(1) e] obtain s where s: "r1 = Inr s" "keeps_own [e] c c1" by blast
  obtain r2 h2 c2 where r: "coordinate_events H es h1 c1 = (r2, h2, c2)" by (metis prod_cases3)
  have "(\<exists>s. r2 = Inr s) \<and> keeps_own es c1 c2"
    using Cons.IH [OF _ w(2) r] s(2) by (simp add: keeps_own_def)
  with keeps_own_trans [OF s(2)] Cons.prems(3) e r s(1) show ?case by auto
qed

section \<open>The table\<close>

lemma map_prod_eq: "map_prod f id p = (r, c') \<longleftrightarrow> r = f (fst p) \<and> c' = snd p"
  by (cases p) auto

lemma map_ok_Inl [simp]: "map_ok f r = Inl e \<longleftrightarrow> r = Inl e"
  by (cases r) simp_all

lemma put_coordinator [simp]: "ct_coordinator (put_connection i p t) = ct_coordinator t"
  by (simp add: put_connection_def)

lemma queue_to_coordinator [simp]: "ct_coordinator (snd (queue_to C m is t)) = ct_coordinator t"
  by (induction "is" arbitrary: t) (auto simp: Let_def split: option.split prod.split sum.split)

lemma queue_sends_coordinator [simp]: "ct_coordinator (snd (queue_sends C ss t)) = ct_coordinator t"
proof (induction ss arbitrary: t)
  case (Cons s ss)
  have q: "ct_coordinator (snd (queue_network_send C s t)) = ct_coordinator t"
    by (simp add: queue_network_send_def split: sum.split)
  obtain r t1 where "queue_network_send C s t = (r, t1)" by fastforce
  with q Cons.IH show ?case by (cases r) simp_all
qed simp

definition newly_joined :: "('p, 's::comm_ring_1) sptps_crypto \<Rightarrow> connection_id \<Rightarrow> byte list \<Rightarrow> connection_table \<Rightarrow> string set" where
  "newly_joined C i bs t =
     (case ct_connection i t of
        None \<Rightarrow> {}
      | Some p \<Rightarrow> (case fst (receive_bytes C bs (pc_driver p)) of Inl _ \<Rightarrow> {} | Inr step \<Rightarrow> joined (cs_events step)))"

abbreviation table_state :: "connection_table \<Rightarrow> network_state" where
  "table_state t \<equiv> co_state (ct_coordinator t)"

lemma bytes_well_read:
  assumes "receive_bytes C bs d = (Inr step, d')"
  shows "well_read (cs_events step)"
  using parsed_reads.received [of d C bs] assms by (simp add: reads_parsed_def well_read_def)

lemma step_keeps:
  assumes "state_ok (table_state t)" "well_read (cs_events step)" "ct_connection i t = Some p"
    "handle_connection_step C H i step t = (r, t')"
  shows "(\<forall>e. r \<noteq> Inl (TableNetwork e)) \<and> keeps_own (cs_events step) (ct_coordinator t) (ct_coordinator t')"
proof -
  obtain x h c where e: "coordinate_events H (cs_events step) (pc_handle p) (ct_coordinator t) = (x, h, c)" by (metis prod_cases3)
  from events_keep [OF assms(1,2) e] obtain s where s: "x = Inr s" "keeps_own (cs_events step) (ct_coordinator t) c" by blast
  define t1 where "t1 = put_connection i (p\<lparr>pc_handle := h\<rparr>) (t\<lparr>ct_coordinator := c\<rparr>)"
  have q: "\<forall>e. fst (queue_network_send C ns u) \<noteq> Inl (TableNetwork e)" for ns u
  proof -
    have "\<forall>e. fst (queue_to C m js v) \<noteq> Inl (TableNetwork e)" for m js v
      by (induction js arbitrary: v) (simp_all add: Let_def case_prod_beta split: option.split sum.split)
    then show ?thesis
      by (auto simp: queue_network_send_def target_connections_def split: sum.split send_target.split option.split)
  qed
  have q: "\<forall>e. fst (queue_sends C ss u) \<noteq> Inl (TableNetwork e)" for ss u
  proof (induction ss arbitrary: u)
    case (Cons a ss)
    obtain r1 u1 where a: "queue_network_send C a u = (r1, u1)" by fastforce
    with q [of a u] Cons.IH [of u1] show ?case by (cases r1) simp_all
  qed simp
  have "r = map_ok (\<lambda>qs. \<lparr>ts_connection = i, ts_network = s, ts_queued = qs\<rparr>) (fst (queue_sends C (nw_sends s) t1))"
    "t' = snd (queue_sends C (nw_sends s) t1)"
    using assms(3,4) e s(1) by (simp_all add: handle_connection_step_def coordinate_step_def t1_def Let_def map_prod_eq)
  then show ?thesis using s(2) q [of "nw_sends s" t1]
    by (cases "fst (queue_sends C (nw_sends s) t1)") (simp_all add: t1_def map_ok_def)
qed

text \<open>
  C7: whatever bytes arrive on a meta connection, the coordinator never fails on what they say, the
  network state stays well formed, and the node's own subnets and its own outgoing edges are as
  before, but for the edges to peers whose connection these bytes activated, which exist afterwards.
\<close>

theorem bytes_respect_own_claims:
  assumes "state_ok (table_state t)" "table_receive C H i bs t = (r, t')"
  shows "(\<forall>e. r \<noteq> Inl (TableNetwork e)) \<and> state_ok (table_state t')
    \<and> own_kept (newly_joined C i bs t) (table_state t) (table_state t')
    \<and> (\<forall>peer \<in> newly_joined C i bs t. graph_edge (ns_graph (table_state t')) (g_myself (ns_graph (table_state t))) peer \<noteq> None)"
proof (cases "ct_connection i t")
  case None
  with assms show ?thesis by (auto simp: table_receive_def newly_joined_def own_kept_refl)
next
  case (Some p)
  obtain x d where b: "receive_bytes C bs (pc_driver p) = (x, d)" by fastforce
  show ?thesis
  proof (cases x)
    case (Inl e)
    with assms Some b show ?thesis by (auto simp: table_receive_def newly_joined_def own_kept_refl)
  next
    case (Inr step)
    let ?t = "put_connection i (p\<lparr>pc_driver := d\<rparr>) t"
    have "ct_connection i ?t = Some (p\<lparr>pc_driver := d\<rparr>)"
      using Some by (simp add: put_connection_def ct_connection_def bt_get_adjust)
    note s = step_keeps [OF _ bytes_well_read [OF b [unfolded Inr]] this, of C H r t']
    from s assms Some b Inr show ?thesis
      by (simp add: table_receive_def newly_joined_def keeps_own_def)
  qed
qed

definition demo_peer :: "string \<Rightarrow> peer_connection" where
  "demo_peer name = peer_connection_new
     (meta_driver_new ((plain_auth (sconst (Inl [], Inl [])))\<lparr>ma_state := Activated\<rparr>))
     (handle_activated name ''192.0.2.1'' None 0)"

definition demo_connections :: connection_table where
  "demo_connections = \<lparr>ct_coordinator = with_nonce_seed (network_state_new (\<lambda>_. replicate 64 0) ''a'') Mesh 0,
     ct_connections = [(1, demo_peer ''b''), (2, demo_peer ''c'')]\<rparr>"

theorem bytes_respect_own_claims_witness:
  "own_subnets (table_state (snd (table_receive demo_crypto (\<lambda>_. replicate 64 0) 1 (text_bytes ''13 1 a c'' @ [10]) demo_connections))) = []"
proof -
  have "state_ok (table_state demo_connections)" by (simp add: demo_connections_def with_nonce_seed_def state_ok_new)
  moreover have "own_subnets (table_state demo_connections) = []"
    by (simp add: demo_connections_def with_nonce_seed_def network_state_new_def own_subnets_def owner_subnets_def)
  moreover note bytes_respect_own_claims [OF calculation(1) prod.collapse [symmetric], of demo_crypto "\<lambda>_. replicate 64 0" 1
      "text_bytes ''13 1 a c'' @ [10]"]
  ultimately show ?thesis by (simp add: own_kept_def)
qed

section \<open>Synchronisation\<close>

text \<open>What a node makes of a list of messages.\<close>

definition heard :: "(string \<Rightarrow> byte list) \<Rightarrow> meta_message list \<Rightarrow> network_state \<Rightarrow> network_state" where
  "heard H ms s = fold (\<lambda>m s. snd (apply_meta_message_at H m 0 s)) ms s"

lemma heard_append: "heard H (ms @ ns) s = heard H ns (heard H ms s)"
  by (simp add: heard_def)

lemma heard_Nil [simp]: "heard H [] s = s"
  by (simp add: heard_def)

lemma heard_Cons [simp]: "heard H (m # ms) s = heard H ms (snd (apply_meta_message_at H m 0 s))"
  by (simp add: heard_def)

lemma subnet_heard:
  assumes "state_ok s" "sn_owner x = Some owner" "wf_subnet x" "subnet_key x \<notin> subnet_key ` set (ns_subnets s)"
    and s': "s' = snd (apply_meta_message_at H (MsgAddSubnet \<lparr>sm_nonce = n, sm_owner = owner, sm_subnet = x\<lparr>sn_owner := None\<rparr>\<rparr>) 0 s)"
  shows "state_ok s' \<and> set (ns_subnets s') = insert x (set (ns_subnets s)) \<and> g_edges (ns_graph s') = g_edges (ns_graph s)"
proof -
  let ?m = "\<lparr>sm_nonce = n, sm_owner = owner, sm_subnet = x\<lparr>sn_owner := None\<rparr>\<rparr>"
  have a: "s' = snd (apply_add_subnet H ?m s)" by (simp add: s' apply_meta_message_at_def reported_def)
  have o: "owned x" "with_owner owner (x\<lparr>sn_owner := None\<rparr>) = x" using assms(2) by (simp_all add: owned_def with_owner_def)
  have "lookup_exact (ns_subnets s) x = None"
    using key_in_table [of "ns_subnets s" x] assms o by (auto simp: state_ok_def)
  moreover have "set (table_add x (ns_subnets s)) = insert x (set (ns_subnets s))" by (simp add: table_add_def)
  moreover have "state_ok s'" unfolding a by (rule add_subnet_ok) (use assms in \<open>simp_all add: wf_subnet_def\<close>)
  ultimately show ?thesis
    by (simp add: a apply_add_subnet_def o table_add_unique_def case_prod_beta ensure_node_frame)
qed

lemma subnets_heard:
  assumes "state_ok s" "\<forall>x \<in> set xs. owned x \<and> wf_subnet x" "distinct (map subnet_key xs)"
    "subnet_key ` set xs \<inter> subnet_key ` set (ns_subnets s) = {}"
    and "collect_messages co_add_subnet_message xs c = (ms, c')"
  shows "state_ok (heard H ms s) \<and> set (ns_subnets (heard H ms s)) = set (ns_subnets s) \<union> set xs
    \<and> g_edges (ns_graph (heard H ms s)) = g_edges (ns_graph s)"
  using assms
proof (induction xs arbitrary: s c ms)
  case (Cons x xs)
  then obtain owner where o: "sn_owner x = Some owner" by (auto simp: owned_def)
  let ?m = "MsgAddSubnet \<lparr>sm_nonce = co_next_nonce c, sm_owner = owner, sm_subnet = x\<lparr>sn_owner := None\<rparr>\<rparr>"
  obtain ms1 where ms: "ms = ?m # ms1"
      "collect_messages co_add_subnet_message xs (c\<lparr>co_next_nonce := co_next_nonce c + 1\<rparr>) = (ms1, c')"
    using Cons.prems(5) o by (auto simp: co_add_subnet_message_def [of x] with_nonce_def next_nonce_def split: prod.splits)
  let ?s = "snd (apply_meta_message_at H ?m 0 s)"
  have x: "state_ok ?s \<and> set (ns_subnets ?s) = insert x (set (ns_subnets s)) \<and> g_edges (ns_graph ?s) = g_edges (ns_graph s)"
    by (rule subnet_heard [OF Cons.prems(1) o]) (use Cons.prems in auto)
  have "subnet_key ` set xs \<inter> subnet_key ` set (ns_subnets ?s) = {}" using Cons.prems x by auto
  from Cons.IH [OF _ _ _ this ms(2)] Cons.prems x ms(1) show ?case by auto
qed simp

lemma add_edge_edges:
  assumes "state_ok s"
  shows "bt_get (g_edges (ns_graph (snd (apply_add_edge H m now s)))) k
    = (if k = edge_key_of (ae_edge m) then Some (edge_from_add_edge_message m) else bt_get (g_edges (ns_graph s)) k)"
    "ns_subnets (snd (apply_add_edge H m now s)) = ns_subnets s"
proof -
  let ?e = "edge_from_add_edge_message m"
  define g1 where "g1 = snd (ensure_node H (e_from (ae_edge m)) (ns_graph s))"
  define g2 where "g2 = snd (ensure_node H (e_to (ae_edge m)) g1)"
  have g: "graph_ok (ns_graph s)" using assms by (simp add: state_ok_def)
  have g1: "graph_ok g1" and g2: "graph_ok g2" unfolding g2_def g1_def by (intro graph_ok_ensure_node g)+
  have "\<exists>mu g3. upsert_edge ?e g2 = Inr (mu, g3)"
    using upsert_total [of g2 ?e] contains_ensure_node [OF g] contains_ensure_node [OF g1] by (simp add: g2_def g1_def)
  then obtain mu g3 where 3: "upsert_edge ?e g2 = Inr (mu, g3)" by blast
  let ?s = "s\<lparr>ns_graph := g3\<rparr>"
  have r: "g_edges (ns_graph (snd (recompute_routes_at now ?s))) = g_edges g3 \<and> ns_subnets (snd (recompute_routes_at now ?s)) = ns_subnets s"
    using recompute_graph [of ?s now "fst (recompute_routes_at now ?s)"] graph_ok_upsert_edge [OF g2 3] by simp
  have s': "snd (apply_add_edge H m now s) = snd (recompute_routes_at now ?s)"
    using 3 by (simp add: apply_add_edge_def g1_def g2_def case_prod_beta)
  have k: "edge_key_of ?e = edge_key_of (ae_edge m)" by (simp add: edge_key_of_def)
  have e2: "bt_ok (g_edges g2)" "g_edges g2 = g_edges (ns_graph s)"
    using g2 by (simp_all add: graph_ok_def g2_def g1_def ensure_node_frame)
  have "bt_get (g_edges g3) k = (if k = edge_key_of (ae_edge m) then Some ?e else bt_get (g_edges g2) k)"
    using 3 e2(1) by (auto simp: upsert_edge_def Let_def k bt_get_insert bt_get_adjust split: if_splits option.splits)
  then show "bt_get (g_edges (ns_graph (snd (apply_add_edge H m now s)))) k
    = (if k = edge_key_of (ae_edge m) then Some ?e else bt_get (g_edges (ns_graph s)) k)"
    "ns_subnets (snd (apply_add_edge H m now s)) = ns_subnets s" using r e2 s' by simp_all
qed

lemma edge_message_back:
  assumes "e_address e = Some a"
  shows "edge_from_add_edge_message \<lparr>ae_nonce = n, ae_edge = e, ae_address = ep_address a, ae_port = ep_port a,
    ae_local = map_option edge_address_of (e_local_address e)\<rparr> = e"
  using assms by (cases e; cases "e_local_address e") (simp_all add: edge_from_add_edge_message_def edge_address_of_def)

lemma edges_heard:
  assumes "state_ok s" "distinct (map edge_key_of es)" "collect_messages co_add_edge_message es c = (ms, c')"
  shows "state_ok (heard H ms s) \<and> ns_subnets (heard H ms s) = ns_subnets s
    \<and> (\<forall>e \<in> set es. e_address e \<noteq> None \<longrightarrow> bt_get (g_edges (ns_graph (heard H ms s))) (edge_key_of e) = Some e)
    \<and> (\<forall>k. (\<forall>e \<in> set es. e_address e \<noteq> None \<longrightarrow> edge_key_of e \<noteq> k)
         \<longrightarrow> bt_get (g_edges (ns_graph (heard H ms s))) k = bt_get (g_edges (ns_graph s)) k)"
  using assms
proof (induction es arbitrary: s c ms)
  case (Cons e es)
  show ?case
  proof (cases "e_address e")
    case None
    then have "collect_messages co_add_edge_message es c = (ms, c')"
      using Cons.prems(3) by (auto simp: co_add_edge_message_def [of e] split: prod.splits)
    from Cons.IH [OF Cons.prems(1) _ this] Cons.prems(2) None show ?thesis by auto
  next
    case (Some a)
    let ?m = "\<lparr>ae_nonce = co_next_nonce c, ae_edge = e, ae_address = ep_address a, ae_port = ep_port a,
      ae_local = map_option edge_address_of (e_local_address e)\<rparr>"
    obtain ms1 where ms: "ms = MsgAddEdge ?m # ms1"
        "collect_messages co_add_edge_message es (c\<lparr>co_next_nonce := co_next_nonce c + 1\<rparr>) = (ms1, c')"
      using Cons.prems(3) Some by (auto simp: co_add_edge_message_def [of e] with_nonce_def next_nonce_def split: prod.splits)
    let ?s = "snd (apply_add_edge H ?m 0 s)"
    have s: "state_ok ?s" "ns_subnets ?s = ns_subnets s"
      "bt_get (g_edges (ns_graph ?s)) k = (if k = edge_key_of e then Some e else bt_get (g_edges (ns_graph s)) k)" for k
      using add_edge_ok [OF Cons.prems(1), of H ?m 0] add_edge_edges [OF Cons.prems(1), of H ?m 0] edge_message_back [OF Some]
      by simp_all
    have h: "heard H ms s = heard H ms1 ?s" by (simp add: ms(1) apply_meta_message_at_def)
    have new: "\<forall>e' \<in> set es. edge_key_of e' \<noteq> edge_key_of e"
      using Cons.prems(2) by (metis distinct.simps(2) image_eqI list.set_map list.simps(9))
    from Cons.IH [OF s(1) _ ms(2)] Cons.prems(2) s(2,3) new Some show ?thesis unfolding h by auto
  qed
qed simp

lemma synced:
  assumes "state_ok s" "state_ok s0" "ns_subnets s0 = []" "g_edges (ns_graph s0) = []"
    "co_state c = s" "sync_messages c = (ms, c')"
  shows "state_ok (heard H ms s0) \<and> set (ns_subnets (heard H ms s0)) = set (ns_subnets s)
    \<and> (\<forall>f t. graph_edge (ns_graph (heard H ms s0)) f t
         = (case graph_edge (ns_graph s) f t of None \<Rightarrow> None | Some e \<Rightarrow> if e_address e = None then None else Some e))"
proof -
  obtain ss c1 es where m: "collect_messages co_add_subnet_message (ns_subnets s) c = (ss, c1)"
      "collect_messages co_add_edge_message (bt_values (g_edges (ns_graph s))) c1 = (es, c')" "ms = ss @ es"
    using assms(5,6) by (auto simp: sync_messages_def Let_def split: prod.splits)
  have 1: "state_ok (heard H ss s0) \<and> set (ns_subnets (heard H ss s0)) = set (ns_subnets s0) \<union> set (ns_subnets s)
      \<and> g_edges (ns_graph (heard H ss s0)) = g_edges (ns_graph s0)"
    by (rule subnets_heard [OF assms(2) _ _ _ m(1)])
      (use assms(1,3) in \<open>auto simp: state_ok_def table_ok_def table_unique_def\<close>)
  have g: "bt_ok (g_edges (ns_graph s))" "\<forall>(k, e) \<in> set (g_edges (ns_graph s)). edge_key_of e = k"
    using assms(1) by (auto simp: state_ok_def graph_ok_def bt_get_Some_iff)
  have keys: "map edge_key_of (bt_values (g_edges (ns_graph s))) = map fst (g_edges (ns_graph s))"
    using g(2) by (auto simp: bt_values_def)
  have get: "graph_edge (ns_graph s) f t = Some e \<longleftrightarrow> e \<in> set (bt_values (g_edges (ns_graph s))) \<and> edge_key_of e = EdgeKey f t" for f t e
    using g by (force simp: graph_edge_def bt_get_Some_iff bt_values_def)
  note 2 = edges_heard [OF conjunct1 [OF 1] _ m(2), of H, unfolded keys, OF bt_ok_distinct [OF g(1)]]
  have "graph_edge (ns_graph (heard H ms s0)) f t
      = (case graph_edge (ns_graph s) f t of None \<Rightarrow> None | Some e \<Rightarrow> if e_address e = None then None else Some e)" for f t
  proof (cases "\<exists>e. graph_edge (ns_graph s) f t = Some e \<and> e_address e \<noteq> None")
    case True
    then obtain e where e: "graph_edge (ns_graph s) f t = Some e" "e_address e \<noteq> None" by blast
    with get have m': "e \<in> set (bt_values (g_edges (ns_graph s)))" "edge_key_of e = EdgeKey f t" by auto
    with 2 e(2) have "bt_get (g_edges (ns_graph (heard H es (heard H ss s0)))) (edge_key_of e) = Some e" by blast
    with e m'(2) show ?thesis by (simp add: graph_edge_def m(3) heard_append)
  next
    case False
    then have "\<forall>e \<in> set (bt_values (g_edges (ns_graph s))). e_address e \<noteq> None \<longrightarrow> edge_key_of e \<noteq> EdgeKey f t"
      using get by metis
    with 2 1 assms(4) have "graph_edge (ns_graph (heard H ms s0)) f t = None"
      by (simp add: graph_edge_def m(3) heard_append)
    with False show ?thesis by (auto split: option.split)
  qed
  with 1 2 assms(3) show ?thesis by (simp add: m(3) heard_append)
qed



section \<open>Relaying\<close>

lemma ct_put: "ct_connection j (put_connection i p t) = (if j = i \<and> ct_connection i t \<noteq> None then Some p else ct_connection j t)"
  by (auto simp: ct_connection_def put_connection_def bt_get_adjust)

lemma put_back: "bt_ok (ct_connections t) \<Longrightarrow> ct_connection i t = Some p \<Longrightarrow> bt_adjust i (\<lambda>_. p) (ct_connections t) = ct_connections t"
  by (auto simp: bt_adjust_def ct_connection_def intro!: map_idI) (metis bt_get_Some_iff option.inject)

definition outbound_grown :: "('p, 's) sptps_crypto \<Rightarrow> meta_message \<Rightarrow> bool \<Rightarrow> peer_connection \<Rightarrow> peer_connection \<Rightarrow> bool" where
  "outbound_grown C m sent p p' \<longleftrightarrow> pc_handle p' = pc_handle p
     \<and> (if sent then \<exists>bytes. send_meta_message C m (pc_driver p) = (Inr bytes, pc_driver p') \<and> pc_outbound p' = pc_outbound p @ [bytes]
        else p' = p)"

lemma queued_to_all:
  assumes "distinct js" "\<forall>j \<in> set js. ct_connection j t \<noteq> None" "queue_to C m js t = (Inr qs, t')"
  shows "map qs_connection qs = js \<and> (\<forall>q \<in> set qs. qs_message q = m)
    \<and> (\<forall>j p. ct_connection j t = Some p \<longrightarrow> (\<exists>p'. ct_connection j t' = Some p' \<and> outbound_grown C m (j \<in> set js) p p'))"
  using assms
proof (induction js arbitrary: t qs)
  case Nil
  then show ?case by (auto simp: outbound_grown_def)
next
  case (Cons i js)
  then obtain p where p: "ct_connection i t = Some p" by auto
  obtain r d where s: "send_meta_message C m (pc_driver p) = (r, d)" by fastforce
  from Cons.prems(3) p s obtain bytes where r: "r = Inr bytes" by (cases r) auto
  let ?p = "p\<lparr>pc_driver := d, pc_outbound := pc_outbound p @ [bytes]\<rparr>"
  let ?t = "put_connection i ?p t"
  obtain r1 t1 where q1: "queue_to C m js ?t = (r1, t1)" by fastforce
  from Cons.prems(3) p s r q1 obtain qs1 where r1: "r1 = Inr qs1" "t1 = t'"
      "qs = \<lparr>qs_connection = i, qs_peer = ch_peer (pc_handle p), qs_message = m, qs_bytes_len = length bytes\<rparr> # qs1"
    by (cases r1) (auto simp: Let_def)
  then have q: "queue_to C m js ?t = (Inr qs1, t')" using q1 by simp
  have "\<forall>j \<in> set js. ct_connection j ?t \<noteq> None" using Cons.prems(2) by (auto simp: ct_put)
  note ih = Cons.IH [OF _ this q(1)]
  have "\<exists>p'. ct_connection j t' = Some p' \<and> outbound_grown C m (j \<in> set (i # js)) p0 p'"
    if "ct_connection j t = Some p0" for j p0
  proof (cases "j = i")
    case True
    then have "ct_connection i ?t = Some ?p" "i \<notin> set js" using p Cons.prems(1) by (simp_all add: ct_put)
    with ih Cons.prems(1) have "ct_connection i t' = Some ?p" by (fastforce simp: outbound_grown_def)
    with True that p s r show ?thesis by (auto simp: outbound_grown_def)
  next
    case False
    then have "ct_connection j ?t = Some p0" using that by (simp add: ct_put)
    with ih Cons.prems(1) False show ?thesis by simp
  qed
  with ih Cons.prems(1) r1(3) show ?case by simp
qed

definition listeners :: "string option \<Rightarrow> connection_table \<Rightarrow> connection_id list" where
  "listeners exclude t = map fst (filter (\<lambda>(i, p). ch_activated (pc_handle p) \<and> ch_peer (pc_handle p) \<noteq> exclude) (ct_connections t))"

lemma relayed_sends:
  assumes "\<not> local_claim (co_myself c) m" "apply_relayed_message H h m c = (Inr s, c')"
  shows "nw_sends s = (if should_forward m c then [\<lparr>sd_target = ToAll (ch_peer h), sd_message = m\<rparr>] else [])"
proof -
  obtain x c1 where x: "rejects_local_claim h m c = (x, c1)" by fastforce
  have q: "co_state c1 = co_state c \<and> co_mode c1 = co_mode c" "x = None"
    using claim_rejected(1) [of c h m] claim_rejected(2) [of h m c] x assms(1) by (simp_all add: counts_def)
  then have "should_forward m c1 = should_forward m c" "tunnel_server_ignores h m c1 \<Longrightarrow> \<not> should_forward m c"
    by (auto simp: should_forward_def tunnel_server_ignores_def)
  with assms(2) x q show ?thesis
    by (auto simp: apply_relayed_message_def net_event_def split: if_splits sum.splits prod.splits)
qed



end
