(* ===== verification/Legacy_Meta_Crypto.thy ===== *)
theory Legacy_Meta_Crypto
  imports Utils
begin

text \<open>
  \<^verbatim>\<open>tinc-runtime/src/legacy_meta.rs\<close>, the cryptography of legacy meta connections: RSA blocks
  without padding, AES in CFB mode as a byte stream, and truncated digests.  The AES block function
  and the hashes are parameters; \<^verbatim>\<open>BigUint\<close> is \<^typ>\<open>nat\<close>.
\<close>

record legacy_meta_crypto =
  lm_aes :: "byte list \<Rightarrow> byte list \<Rightarrow> byte list"
  lm_sha1 :: "byte list \<Rightarrow> byte list"
  lm_sha256 :: "byte list \<Rightarrow> byte list"
  lm_sha384 :: "byte list \<Rightarrow> byte list"
  lm_sha512 :: "byte list \<Rightarrow> byte list"

datatype legacy_meta_error =
    LmUnsupportedCipher int
  | LmUnsupportedDigest int
  | LmInvalidKeyMaterialLength nat nat
  | LmInvalidRsaBlockLength nat nat
  | LmRsaValueTooLarge
  | LmInvalidDigestLength nat nat
  | LmDigestMismatch

section \<open>RSA\<close>

record rsa_public_key =
  rp_n :: nat
  rp_e :: nat

record rsa_private_key =
  rs_n :: nat
  rs_e :: nat
  rs_d :: nat

datatype legacy_meta_private_key =
    PemKey rsa_private_key
  | KeyComponents rsa_public_key nat

definition private_public_key :: "legacy_meta_private_key \<Rightarrow> rsa_public_key" where
  "private_public_key k =
     (case k of PemKey key \<Rightarrow> \<lparr>rp_n = rs_n key, rp_e = rs_e key\<rparr> | KeyComponents p _ \<Rightarrow> p)"

fun nat_bits :: "nat \<Rightarrow> nat" where
  "nat_bits n = (if n = 0 then 0 else Suc (nat_bits (n div 2)))"

declare nat_bits.simps [simp del]

text \<open>\<^verbatim>\<open>BigUint::from_bytes_be\<close>, \<^verbatim>\<open>to_bytes_be\<close> (zero is one byte) and \<^verbatim>\<open>modpow\<close>\<close>

definition nat_from_bytes_be :: "byte list \<Rightarrow> nat" where
  "nat_from_bytes_be bs = foldl (\<lambda>n b. 256 * n + unat b) 0 bs"

fun nat_to_bytes_be :: "nat \<Rightarrow> byte list" where
  "nat_to_bytes_be n = (if n < 256 then [of_nat n] else nat_to_bytes_be (n div 256) @ [of_nat n])"

declare nat_to_bytes_be.simps [simp del]

definition modpow :: "nat \<Rightarrow> nat \<Rightarrow> nat \<Rightarrow> nat" where
  "modpow b e n = b ^ e mod n"

definition rsa_size :: "nat \<Rightarrow> nat" where
  "rsa_size n = (nat_bits n + 7) div 8"

definition biguint_to_fixed_len :: "nat \<Rightarrow> nat \<Rightarrow> byte list" where
  "biguint_to_fixed_len value len =
     (let bytes = nat_to_bytes_be value
      in if len \<le> length bytes then drop (length bytes - len) bytes
         else replicate (len - length bytes) 0 @ bytes)"

definition legacy_meta_public_encrypt :: "rsa_public_key \<Rightarrow> byte list \<Rightarrow> legacy_meta_error + byte list" where
  "legacy_meta_public_encrypt key plaintext =
     (let size = rsa_size (rp_n key)
      in if length plaintext \<noteq> size then Inl (LmInvalidRsaBlockLength size (length plaintext))
         else let message = nat_from_bytes_be plaintext
              in if rp_n key \<le> message then Inl LmRsaValueTooLarge
                 else Inr (biguint_to_fixed_len (modpow message (rp_e key) (rp_n key)) size))"

definition legacy_meta_private_decrypt_pem :: "rsa_private_key \<Rightarrow> byte list \<Rightarrow> legacy_meta_error + byte list" where
  "legacy_meta_private_decrypt_pem key ciphertext =
     (let size = rsa_size (rs_n key)
      in if length ciphertext \<noteq> size then Inl (LmInvalidRsaBlockLength size (length ciphertext))
         else Inr (biguint_to_fixed_len (modpow (nat_from_bytes_be ciphertext) (rs_d key) (rs_n key)) size))"

definition legacy_meta_private_decrypt_components ::
  "rsa_public_key \<Rightarrow> nat \<Rightarrow> byte list \<Rightarrow> legacy_meta_error + byte list" where
  "legacy_meta_private_decrypt_components key private_exponent ciphertext =
     (let size = rsa_size (rp_n key)
      in if length ciphertext \<noteq> size then Inl (LmInvalidRsaBlockLength size (length ciphertext))
         else Inr (biguint_to_fixed_len (modpow (nat_from_bytes_be ciphertext) private_exponent (rp_n key)) size))"

definition decrypt_block :: "legacy_meta_private_key \<Rightarrow> byte list \<Rightarrow> legacy_meta_error + byte list" where
  "decrypt_block key ciphertext =
     (case key of
        PemKey k \<Rightarrow> legacy_meta_private_decrypt_pem k ciphertext
      | KeyComponents p d \<Rightarrow> legacy_meta_private_decrypt_components p d ciphertext)"

text \<open>The random block, its first bit cleared.\<close>

definition legacy_meta_generate_rsa_key_material :: "byte list \<Rightarrow> byte list" where
  "legacy_meta_generate_rsa_key_material random =
     (case random of [] \<Rightarrow> [] | b # bs \<Rightarrow> (b AND 0x7f) # bs)"

section \<open>Ciphers\<close>

datatype legacy_meta_cipher_algorithm = Aes128Cfb | Aes192Cfb | Aes256Cfb

definition cfb_from_nid :: "int \<Rightarrow> legacy_meta_cipher_algorithm option" where
  "cfb_from_nid nid =
     (if nid = 421 then Some Aes128Cfb else if nid = 425 then Some Aes192Cfb
      else if nid = 429 then Some Aes256Cfb else None)"

definition cfb_for_plain_key_len :: "nat \<Rightarrow> legacy_meta_cipher_algorithm" where
  "cfb_for_plain_key_len n = (if n \<le> 16 then Aes128Cfb else if n \<le> 24 then Aes192Cfb else Aes256Cfb)"

fun cfb_nid :: "legacy_meta_cipher_algorithm \<Rightarrow> int" where
  "cfb_nid Aes128Cfb = 421" | "cfb_nid Aes192Cfb = 425" | "cfb_nid Aes256Cfb = 429"

fun cfb_key_len :: "legacy_meta_cipher_algorithm \<Rightarrow> nat" where
  "cfb_key_len Aes128Cfb = 16" | "cfb_key_len Aes192Cfb = 24" | "cfb_key_len Aes256Cfb = 32"

definition cfb_iv_len :: nat where "cfb_iv_len = 16"

definition cfb_key_material_len :: "legacy_meta_cipher_algorithm \<Rightarrow> nat" where
  "cfb_key_material_len a = cfb_key_len a + cfb_iv_len"

record legacy_meta_cipher =
  lc_algorithm :: legacy_meta_cipher_algorithm
  lc_key :: "byte list"
  lc_feedback :: "byte list"
  lc_stream :: "byte list"
  lc_position :: nat

definition legacy_meta_key_iv_from_rsa ::
  "legacy_meta_cipher_algorithm \<Rightarrow> byte list \<Rightarrow> legacy_meta_error + byte list \<times> byte list" where
  "legacy_meta_key_iv_from_rsa a material =
     (if length material < cfb_key_material_len a
      then Inl (LmInvalidKeyMaterialLength (cfb_key_material_len a) (length material))
      else let key_start = length material - cfb_key_len a;
               iv_start = key_start - cfb_iv_len
           in Inr (drop key_start material, subslice iv_start key_start material))"

definition cipher_from_rsa_key_material ::
  "legacy_meta_cipher_algorithm \<Rightarrow> byte list \<Rightarrow> legacy_meta_error + legacy_meta_cipher" where
  "cipher_from_rsa_key_material a material =
     map_ok (\<lambda>(key, iv). \<lparr>lc_algorithm = a, lc_key = key, lc_feedback = iv, lc_stream = replicate 16 0, lc_position = 0\<rparr>)
       (legacy_meta_key_iv_from_rsa a material)"

text \<open>A block of key stream is made when the position is back at zero.\<close>

fun cfb128_apply :: "(byte list \<Rightarrow> byte list) \<Rightarrow> bool \<Rightarrow> byte list \<Rightarrow> legacy_meta_cipher \<Rightarrow> byte list \<times> legacy_meta_cipher" where
  "cfb128_apply E encrypt [] c = ([], c)"
| "cfb128_apply E encrypt (b # bs) c =
     (let stream = (if lc_position c = 0 then E (lc_feedback c) else lc_stream c);
          out = b XOR stream ! lc_position c;
          c = c\<lparr>lc_stream := stream,
                lc_feedback := (lc_feedback c)[lc_position c := if encrypt then out else b],
                lc_position := (lc_position c + 1) mod length (lc_feedback c)\<rparr>
      in case cfb128_apply E encrypt bs c of (rest, c) \<Rightarrow> (out # rest, c))"

definition aes_cfb_apply ::
  "legacy_meta_crypto \<Rightarrow> bool \<Rightarrow> byte list \<Rightarrow> legacy_meta_cipher \<Rightarrow> (legacy_meta_error + byte list) \<times> legacy_meta_cipher" where
  "aes_cfb_apply M encrypt input c =
     (if length (lc_key c) \<noteq> cfb_key_len (lc_algorithm c)
      then (Inl (LmInvalidKeyMaterialLength (cfb_key_len (lc_algorithm c)) (length (lc_key c))), c)
      else map_prod Inr id (cfb128_apply (lm_aes M (lc_key c)) encrypt input c))"

definition cfb_encrypt where "cfb_encrypt M plaintext c = aes_cfb_apply M True plaintext c"
definition cfb_decrypt where "cfb_decrypt M ciphertext c = aes_cfb_apply M False ciphertext c"

section \<open>Digests\<close>

datatype legacy_meta_digest = MetaSha1 nat | MetaSha256 nat | MetaSha384 nat | MetaSha512 nat

definition LEGACY_META_DIGEST_ALGO_SIZE :: nat where "LEGACY_META_DIGEST_ALGO_SIZE = 2 ^ 64 - 1"
definition LEGACY_META_DEFAULT_DIGEST_NID :: int where "LEGACY_META_DEFAULT_DIGEST_NID = 672"
definition LEGACY_META_DEFAULT_MAC_LENGTH :: int where "LEGACY_META_DEFAULT_MAC_LENGTH = 4"
definition LEGACY_META_COMPRESS_NONE :: int where "LEGACY_META_COMPRESS_NONE = 0"
definition LEGACY_META_PROTOCOL_MINOR :: int where "LEGACY_META_PROTOCOL_MINOR = 0"
definition LEGACY_META_UPGRADE_PROTOCOL_MINOR :: int where "LEGACY_META_UPGRADE_PROTOCOL_MINOR = 1"

definition meta_digest_from_nid :: "int \<Rightarrow> nat \<Rightarrow> legacy_meta_digest option" where
  "meta_digest_from_nid nid len =
     (case (if nid = 64 then Some (20 :: nat) else if nid = 672 then Some 32 else if nid = 673 then Some 48
            else if nid = 674 then Some 64 else None) of
        None \<Rightarrow> None
      | Some maximum \<Rightarrow>
          let n = (if len = LEGACY_META_DIGEST_ALGO_SIZE \<or> maximum < len then maximum else len)
          in if nid = 64 then Some (MetaSha1 n) else if nid = 672 then Some (MetaSha256 n)
             else if nid = 673 then Some (MetaSha384 n) else Some (MetaSha512 n))"

fun meta_digest_nid :: "legacy_meta_digest \<Rightarrow> int" where
  "meta_digest_nid (MetaSha1 _) = 64" | "meta_digest_nid (MetaSha256 _) = 672"
| "meta_digest_nid (MetaSha384 _) = 673" | "meta_digest_nid (MetaSha512 _) = 674"

fun meta_digest_length :: "legacy_meta_digest \<Rightarrow> nat" where
  "meta_digest_length (MetaSha1 n) = n" | "meta_digest_length (MetaSha256 n) = n"
| "meta_digest_length (MetaSha384 n) = n" | "meta_digest_length (MetaSha512 n) = n"

definition meta_digest_create :: "legacy_meta_crypto \<Rightarrow> legacy_meta_digest \<Rightarrow> byte list \<Rightarrow> byte list" where
  "meta_digest_create M d input = take (meta_digest_length d)
     (case d of MetaSha1 _ \<Rightarrow> lm_sha1 M input | MetaSha256 _ \<Rightarrow> lm_sha256 M input
      | MetaSha384 _ \<Rightarrow> lm_sha384 M input | MetaSha512 _ \<Rightarrow> lm_sha512 M input)"

definition meta_digest_create_hex :: "legacy_meta_crypto \<Rightarrow> legacy_meta_digest \<Rightarrow> byte list \<Rightarrow> string" where
  "meta_digest_create_hex M d input = bin_to_hex (meta_digest_create M d input)"

definition meta_digest_verify_hex ::
  "legacy_meta_crypto \<Rightarrow> legacy_meta_digest \<Rightarrow> byte list \<Rightarrow> string \<Rightarrow> legacy_meta_error + unit" where
  "meta_digest_verify_hex M d input expected_hex =
     (let expected = hex_to_bin expected_hex (meta_digest_length d)
      in if length expected \<noteq> meta_digest_length d
         then Inl (LmInvalidDigestLength (meta_digest_length d) (length expected))
         else if mem_eq (meta_digest_create M d input) expected then Inr () else Inl LmDigestMismatch)"

end
