(* ===== verification/Legacy_Meta_Auth.thy ===== *)
theory Legacy_Meta_Auth
  imports Legacy_Meta_Crypto Meta_Stream
begin

text \<open>
  \<^verbatim>\<open>tinc-runtime/src/legacy_meta.rs\<close>, the authentication of a legacy meta connection: ID,
  METAKEY, CHALLENGE, CHAL\_REPLY and ACK, or the hand-over to an Ed25519 key.  The random bytes
  come from a stream in the state.  An operation that fails keeps what it had changed.
\<close>

section \<open>State and messages\<close>

datatype legacy_auth_state =
    LegacyExpectId | LegacyExpectMetaKey | LegacyExpectChallenge | LegacyExpectChallengeReply
  | LegacyExpectAck | UpgradeTerminating | LegacyActivated

fun legacy_expected_request :: "legacy_auth_state \<Rightarrow> request option" where
  "legacy_expected_request LegacyExpectId = Some ReqId"
| "legacy_expected_request LegacyExpectMetaKey = Some ReqMetaKey"
| "legacy_expected_request LegacyExpectChallenge = Some ReqChallenge"
| "legacy_expected_request LegacyExpectChallengeReply = Some ReqChallengeReply"
| "legacy_expected_request LegacyExpectAck = Some ReqAck"
| "legacy_expected_request UpgradeTerminating = Some ReqTerminateRequest"
| "legacy_expected_request LegacyActivated = None"

record legacy_auth =
  la_myself :: string
  la_peer :: "string option"
  la_outgoing :: bool
  la_private_key :: legacy_meta_private_key
  la_peer_public_key :: rsa_public_key
  la_local_port :: string
  la_local_weight :: int
  la_local_options :: u32
  la_local_protocol_minor :: int
  la_negotiated_protocol_minor :: int
  la_force_protocol_minor_zero :: bool
  la_local_upgrade_public_key :: "string option"
  la_local_cipher_algorithm :: legacy_meta_cipher_algorithm
  la_local_mac_length :: int
  la_out_digest :: legacy_meta_digest
  la_in_digest :: "legacy_meta_digest option"
  la_out_cipher :: "legacy_meta_cipher option"
  la_in_cipher :: "legacy_meta_cipher option"
  la_sent_challenge :: "byte list option"
  la_received_challenge :: "byte list option"
  la_state :: legacy_auth_state
  la_random :: "byte stream"

record legacy_outbound =
  lo_message :: meta_message
  lo_encrypted :: bool

definition plaintext_message :: "meta_message \<Rightarrow> legacy_outbound" where
  "plaintext_message m = \<lparr>lo_message = m, lo_encrypted = False\<rparr>"

definition encrypted_message :: "meta_message \<Rightarrow> legacy_outbound" where
  "encrypted_message m = \<lparr>lo_message = m, lo_encrypted = True\<rparr>"

datatype legacy_auth_event =
    LegacyActivatedEvent string string int u32
  | LegacyUpgradeEvent string string

record legacy_auth_step =
  ls_outbound :: "legacy_outbound list"
  ls_events :: "legacy_auth_event list"

definition legacy_step_default :: legacy_auth_step where
  "legacy_step_default = \<lparr>ls_outbound = [], ls_events = []\<rparr>"

definition sends :: "legacy_outbound list \<Rightarrow> legacy_auth_step" where
  "sends ms = legacy_step_default\<lparr>ls_outbound := ms\<rparr>"

datatype legacy_auth_error =
    LaInvalidPeerName string
  | LaSelfConnection string
  | LaIncompatibleProtocol int int
  | LaUnsupportedProtocolMinor int
  | LaUnexpectedMessage "request option" request
  | LaUnexpectedAckShape
  | LaMissingPeer
  | LaMissingOutCipher
  | LaMissingInCipher
  | LaMissingInDigest
  | LaMissingSentChallenge
  | LaMissingReceivedChallenge
  | LaMissingUpgradePublicKey
  | LaInvalidChallengeLength nat nat
  | LaCrypto legacy_meta_error

type_synonym 'a legacy_auth_op = "legacy_auth \<Rightarrow> (legacy_auth_error + 'a) \<times> legacy_auth"

definition legacy_auth_new :: "string \<Rightarrow> bool \<Rightarrow> legacy_meta_private_key \<Rightarrow> rsa_public_key \<Rightarrow> string \<Rightarrow> int
    \<Rightarrow> u32 \<Rightarrow> byte stream \<Rightarrow> legacy_auth" where
  "legacy_auth_new myself outgoing private_key peer_key port weight options random =
     \<lparr>la_myself = myself, la_peer = None, la_outgoing = outgoing, la_private_key = private_key,
      la_peer_public_key = peer_key, la_local_port = port, la_local_weight = weight,
      la_local_options = options, la_local_protocol_minor = LEGACY_META_PROTOCOL_MINOR,
      la_negotiated_protocol_minor = LEGACY_META_PROTOCOL_MINOR, la_force_protocol_minor_zero = False,
      la_local_upgrade_public_key = None, la_local_cipher_algorithm = Aes256Cfb,
      la_local_mac_length = LEGACY_META_DEFAULT_MAC_LENGTH,
      la_out_digest = the (meta_digest_from_nid LEGACY_META_DEFAULT_DIGEST_NID LEGACY_META_DIGEST_ALGO_SIZE),
      la_in_digest = None, la_out_cipher = None, la_in_cipher = None, la_sent_challenge = None,
      la_received_challenge = None, la_state = LegacyExpectId, la_random = random\<rparr>"

definition with_cipher_algorithm :: "legacy_meta_cipher_algorithm \<Rightarrow> legacy_auth \<Rightarrow> legacy_auth" where
  "with_cipher_algorithm c a = a\<lparr>la_local_cipher_algorithm := c\<rparr>"

definition with_mac_length :: "int \<Rightarrow> legacy_auth \<Rightarrow> legacy_auth" where
  "with_mac_length n a = a\<lparr>la_local_mac_length := n\<rparr>"

definition with_protocol_minor :: "int \<Rightarrow> legacy_auth \<Rightarrow> legacy_auth" where
  "with_protocol_minor n a = a\<lparr>la_local_protocol_minor := n\<rparr>"

definition with_forced_protocol_minor_zero :: "bool \<Rightarrow> legacy_auth \<Rightarrow> legacy_auth" where
  "with_forced_protocol_minor_zero force a =
     (let a = a\<lparr>la_force_protocol_minor_zero := force\<rparr>
      in if force then a\<lparr>la_local_protocol_minor := LEGACY_META_PROTOCOL_MINOR\<rparr> else a)"

definition with_upgrade_public_key :: "string \<Rightarrow> legacy_auth \<Rightarrow> legacy_auth" where
  "with_upgrade_public_key k a = a\<lparr>la_local_upgrade_public_key := Some k\<rparr>"

definition legacy_local_id_message :: "legacy_auth \<Rightarrow> meta_message" where
  "legacy_local_id_message a =
     MsgId \<lparr>id_name = la_myself a, id_protocol_major = PROT_MAJOR, id_protocol_minor = Some (la_local_protocol_minor a)\<rparr>"

definition fill_random :: "nat \<Rightarrow> legacy_auth \<Rightarrow> byte list \<times> legacy_auth" where
  "fill_random n a = (stake n (la_random a), a\<lparr>la_random := sdrop n (la_random a)\<rparr>)"

section \<open>Ciphers of a connection\<close>

definition encrypt_outbound :: "legacy_meta_crypto \<Rightarrow> byte list \<Rightarrow> byte list legacy_auth_op" where
  "encrypt_outbound M plaintext a =
     (case la_out_cipher a of
        None \<Rightarrow> (Inl LaMissingOutCipher, a)
      | Some c \<Rightarrow> (case cfb_encrypt M plaintext c of (r, c) \<Rightarrow> (map_err LaCrypto r, a\<lparr>la_out_cipher := Some c\<rparr>)))"

definition decrypt_inbound :: "legacy_meta_crypto \<Rightarrow> byte list \<Rightarrow> byte list legacy_auth_op" where
  "decrypt_inbound M ciphertext a =
     (case la_in_cipher a of
        None \<Rightarrow> (Inl LaMissingInCipher, a)
      | Some c \<Rightarrow> (case cfb_decrypt M ciphertext c of (r, c) \<Rightarrow> (map_err LaCrypto r, a\<lparr>la_in_cipher := Some c\<rparr>)))"

definition encode_outbound_message :: "legacy_meta_crypto \<Rightarrow> legacy_outbound \<Rightarrow> byte list legacy_auth_op" where
  "encode_outbound_message M m a =
     (let line = encode_meta_line (lo_message m)
      in if lo_encrypted m then encrypt_outbound M line a else (Inr line, a))"

section \<open>Sending\<close>

text \<open>The new key is in use before it is encrypted for the peer.\<close>

definition send_metakey :: "legacy_outbound legacy_auth_op" where
  "send_metakey a =
     (case fill_random (rsa_size (rp_n (la_peer_public_key a))) a of (random, a) \<Rightarrow>
        let key = legacy_meta_generate_rsa_key_material random
        in case cipher_from_rsa_key_material (la_local_cipher_algorithm a) key of
             Inl e \<Rightarrow> (Inl (LaCrypto e), a)
           | Inr c \<Rightarrow>
               let a = a\<lparr>la_out_cipher := Some c\<rparr>
               in (case legacy_meta_public_encrypt (la_peer_public_key a) key of
                     Inl e \<Rightarrow> (Inl (LaCrypto e), a)
                   | Inr encrypted_key \<Rightarrow>
                       (Inr (plaintext_message (MsgMetaKey
                          \<lparr>mk_cipher = cfb_nid (la_local_cipher_algorithm a), mk_digest = meta_digest_nid (la_out_digest a),
                           mk_mac_length = la_local_mac_length a, mk_compression = LEGACY_META_COMPRESS_NONE,
                           mk_key = bin_to_hex encrypted_key\<rparr>)), a)))"

definition send_challenge :: "legacy_auth \<Rightarrow> legacy_outbound \<times> legacy_auth" where
  "send_challenge a =
     (case fill_random (rsa_size (rp_n (la_peer_public_key a))) a of (challenge, a) \<Rightarrow>
        (encrypted_message (MsgChallenge (bin_to_hex challenge)), a\<lparr>la_sent_challenge := Some challenge\<rparr>))"

definition send_challenge_reply :: "legacy_meta_crypto \<Rightarrow> legacy_outbound legacy_auth_op" where
  "send_challenge_reply M a =
     (case la_received_challenge a of
        None \<Rightarrow> (Inl LaMissingReceivedChallenge, a)
      | Some challenge \<Rightarrow>
          let a = a\<lparr>la_received_challenge := None\<rparr>
          in (case la_in_digest a of
                None \<Rightarrow> (Inl LaMissingInDigest, a)
              | Some d \<Rightarrow> (Inr (encrypted_message (MsgChallengeReply (meta_digest_create_hex M d challenge))), a)))"

definition legacy_ack_message :: "legacy_auth \<Rightarrow> legacy_auth_error + meta_message" where
  "legacy_ack_message a =
     (if la_negotiated_protocol_minor a = LEGACY_META_UPGRADE_PROTOCOL_MINOR
      then (case la_local_upgrade_public_key a of
              None \<Rightarrow> Inl LaMissingUpgradePublicKey
            | Some k \<Rightarrow> Inr (MsgAck (AckPayload k)))
      else Inr (MsgAck (AckConnection (la_local_port a) (la_local_weight a) (la_local_options a))))"

section \<open>Receiving\<close>

definition ensure_expected :: "request \<Rightarrow> legacy_auth \<Rightarrow> legacy_auth_error + unit" where
  "ensure_expected actual a =
     (if legacy_expected_request (la_state a) = Some actual then Inr ()
      else Inl (LaUnexpectedMessage (legacy_expected_request (la_state a)) actual))"

definition validate_legacy_peer_id :: "string \<Rightarrow> id_message \<Rightarrow> legacy_auth_error + unit" where
  "validate_legacy_peer_id myself m =
     (if \<not> check_id (id_name m) then Inl (LaInvalidPeerName (id_name m))
      else if id_name m = myself then Inl (LaSelfConnection (id_name m)) else Inr ())"

definition legacy_receive_id :: "id_message \<Rightarrow> legacy_auth_step legacy_auth_op" where
  "legacy_receive_id m a =
     (case and_then (ensure_expected ReqId a) (\<lambda>_. validate_legacy_peer_id (la_myself a) m) of
        Inl e \<Rightarrow> (Inl e, a)
      | Inr _ \<Rightarrow>
        if id_protocol_major m \<noteq> PROT_MAJOR
        then (Inl (LaIncompatibleProtocol PROT_MAJOR (id_protocol_major m)), a)
        else
          let remote_minor = (if la_force_protocol_minor_zero a then LEGACY_META_PROTOCOL_MINOR
                              else case id_protocol_minor m of Some n \<Rightarrow> n | None \<Rightarrow> 0)
          in if remote_minor \<noteq> LEGACY_META_PROTOCOL_MINOR \<and> la_local_upgrade_public_key a = None
             then (Inl (LaUnsupportedProtocolMinor remote_minor), a)
             else
               let a = a\<lparr>la_negotiated_protocol_minor :=
                           (if remote_minor = LEGACY_META_PROTOCOL_MINOR then LEGACY_META_PROTOCOL_MINOR
                            else LEGACY_META_UPGRADE_PROTOCOL_MINOR),
                         la_peer := Some (id_name m)\<rparr>
               in (case send_metakey a of
                     (Inl e, a) \<Rightarrow> (Inl e, a)
                   | (Inr metakey, a) \<Rightarrow>
                       (Inr (sends ((if la_outgoing a then [] else [plaintext_message (legacy_local_id_message a)]) @ [metakey])),
                        a\<lparr>la_state := LegacyExpectMetaKey\<rparr>)))"

definition receive_metakey :: "metakey_message \<Rightarrow> legacy_auth_step legacy_auth_op" where
  "receive_metakey m a =
     (case (and_then (ensure_expected ReqMetaKey a) (\<lambda>_.
            if mk_cipher m = 0 then Inl (LaCrypto (LmUnsupportedCipher (mk_cipher m)))
            else if mk_digest m = 0 then Inl (LaCrypto (LmUnsupportedDigest (mk_digest m)))
            else map_err LaCrypto
              (and_then (ok_or (LmUnsupportedCipher (mk_cipher m)) (cfb_from_nid (mk_cipher m))) (\<lambda>algorithm.
               and_then (ok_or (LmUnsupportedDigest (mk_digest m))
                           (meta_digest_from_nid (mk_digest m) LEGACY_META_DIGEST_ALGO_SIZE)) (\<lambda>digest.
               let len = rsa_size (rp_n (private_public_key (la_private_key a)));
                   encrypted_key = hex_to_bin (mk_key m) len
               in if length encrypted_key \<noteq> len then Inl (LmInvalidRsaBlockLength len (length encrypted_key))
                  else and_then (decrypt_block (la_private_key a) encrypted_key) (\<lambda>key.
                       map_ok (\<lambda>c. (c, digest)) (cipher_from_rsa_key_material algorithm key))))))) of
        Inl e \<Rightarrow> (Inl e, a)
      | Inr (c, digest) \<Rightarrow>
          (case send_challenge (a\<lparr>la_in_cipher := Some c, la_in_digest := Some digest\<rparr>) of
             (challenge, a) \<Rightarrow> (Inr (sends [challenge]), a\<lparr>la_state := LegacyExpectChallenge\<rparr>)))"

definition receive_challenge :: "legacy_meta_crypto \<Rightarrow> string \<Rightarrow> legacy_auth_step legacy_auth_op" where
  "receive_challenge M data a =
     (let len = rsa_size (rp_n (private_public_key (la_private_key a)));
          challenge = hex_to_bin data len
      in case and_then (ensure_expected ReqChallenge a) (\<lambda>_.
             if length data \<noteq> len * 2 \<or> length challenge \<noteq> len
             then Inl (LaInvalidChallengeLength (len * 2) (length data)) else Inr ()) of
           Inl e \<Rightarrow> (Inl e, a)
         | Inr _ \<Rightarrow>
             let a = a\<lparr>la_received_challenge := Some challenge\<rparr>
             in if la_outgoing a
                then (case send_challenge_reply M a of
                        (Inl e, a) \<Rightarrow> (Inl e, a)
                      | (Inr reply, a) \<Rightarrow> (Inr (sends [reply]), a\<lparr>la_state := LegacyExpectChallengeReply\<rparr>))
                else (Inr legacy_step_default, a\<lparr>la_state := LegacyExpectChallengeReply\<rparr>))"

text \<open>The challenge is taken whether or not the reply is right.\<close>

definition receive_challenge_reply :: "legacy_meta_crypto \<Rightarrow> string \<Rightarrow> legacy_auth_step legacy_auth_op" where
  "receive_challenge_reply M digest a =
     (case and_then (ensure_expected ReqChallengeReply a) (\<lambda>_. ok_or LaMissingSentChallenge (la_sent_challenge a)) of
        Inl e \<Rightarrow> (Inl e, a)
      | Inr challenge \<Rightarrow>
          let a = a\<lparr>la_sent_challenge := None\<rparr>
          in (case meta_digest_verify_hex M (la_out_digest a) challenge digest of
                Inl e \<Rightarrow> (Inl (LaCrypto e), a)
              | Inr _ \<Rightarrow>
                  (case (if la_outgoing a then (Inr [], a) else map_prod (map_ok (\<lambda>r. [r])) id (send_challenge_reply M a)) of
                     (Inl e, a) \<Rightarrow> (Inl e, a)
                   | (Inr replies, a) \<Rightarrow>
                       (case legacy_ack_message a of
                          Inl e \<Rightarrow> (Inl e, a)
                        | Inr ack \<Rightarrow> (Inr (sends (replies @ [encrypted_message ack])), a\<lparr>la_state := LegacyExpectAck\<rparr>)))))"

definition legacy_receive_ack :: "ack_message \<Rightarrow> legacy_auth_step legacy_auth_op" where
  "legacy_receive_ack m a =
     (case ensure_expected ReqAck a of
        Inl e \<Rightarrow> (Inl e, a)
      | Inr _ \<Rightarrow>
        if la_negotiated_protocol_minor a = LEGACY_META_UPGRADE_PROTOCOL_MINOR
        then (case m of
                AckPayload public_key \<Rightarrow>
                  (case la_peer a of
                     None \<Rightarrow> (Inl LaMissingPeer, a)
                   | Some peer \<Rightarrow>
                       (Inr \<lparr>ls_outbound = [encrypted_message MsgTerminateRequest],
                             ls_events = [LegacyUpgradeEvent peer public_key]\<rparr>,
                        a\<lparr>la_state := UpgradeTerminating\<rparr>))
              | _ \<Rightarrow> (Inl LaUnexpectedAckShape, a))
        else (case m of
                AckConnection port weight options \<Rightarrow>
                  (case la_peer a of
                     None \<Rightarrow> (Inl LaMissingPeer, a)
                   | Some peer \<Rightarrow>
                       (Inr (legacy_step_default\<lparr>ls_events := [LegacyActivatedEvent peer port
                               (negotiated_weight (la_local_weight a) weight)
                               (negotiated_options (la_local_options a) options)]\<rparr>),
                        a\<lparr>la_state := LegacyActivated\<rparr>))
              | _ \<Rightarrow> (Inl LaUnexpectedAckShape, a)))"

definition receive_terminate_request :: "legacy_auth_step legacy_auth_op" where
  "receive_terminate_request a =
     (if la_state a = UpgradeTerminating then (Inr legacy_step_default, a)
      else (Inl (LaUnexpectedMessage (legacy_expected_request (la_state a)) ReqTerminateRequest), a))"

definition legacy_receive_message :: "legacy_meta_crypto \<Rightarrow> meta_message \<Rightarrow> legacy_auth_step legacy_auth_op" where
  "legacy_receive_message M message a =
     (case message of
        MsgId m \<Rightarrow> legacy_receive_id m a
      | MsgMetaKey m \<Rightarrow> receive_metakey m a
      | MsgChallenge data \<Rightarrow> receive_challenge M data a
      | MsgChallengeReply digest \<Rightarrow> receive_challenge_reply M digest a
      | MsgAck m \<Rightarrow> legacy_receive_ack m a
      | MsgTerminateRequest \<Rightarrow> receive_terminate_request a
      | _ \<Rightarrow> (Inl (LaUnexpectedMessage (legacy_expected_request (la_state a)) (message_request message)), a))"

end
