(* ===== verification/Legacy_Meta_Driver.thy ===== *)
theory Legacy_Meta_Driver
  imports Legacy_Meta_Auth Meta_Driver
begin

text \<open>
  \<^verbatim>\<open>tinc-runtime/src/legacy_meta.rs\<close>, the driver of a legacy meta connection: plain lines
  until the METAKEY of the peer, then one encrypted stream.
\<close>

record legacy_driver =
  lv_auth :: legacy_auth
  lv_raw_buffer :: "byte list"
  lv_decoder :: meta_decoder

datatype legacy_connection_error =
    LvStream meta_stream_error
  | LvParse meta_error
  | LvAuth legacy_auth_error
  | LvNotActivated legacy_auth_state
  | LvPacketTooLarge nat nat
  | UnsupportedSptpsTcpPacket
  | UnexpectedSptpsRecord

type_synonym 'a legacy_op = "legacy_driver \<Rightarrow> (legacy_connection_error + 'a) \<times> legacy_driver"

definition legacy_driver_new :: "legacy_auth \<Rightarrow> legacy_driver" where
  "legacy_driver_new a = \<lparr>lv_auth = a, lv_raw_buffer = [], lv_decoder = meta_decoder_new\<rparr>"

definition legacy_initial_id_bytes :: "legacy_driver \<Rightarrow> byte list" where
  "legacy_initial_id_bytes d = encode_meta_line (legacy_local_id_message (lv_auth d))"

text \<open>An operation of the authentication on the driver.\<close>

definition on_legacy_auth :: "'a legacy_auth_op \<Rightarrow> 'a legacy_op" where
  "on_legacy_auth f d = (case f (lv_auth d) of (r, a) \<Rightarrow> (map_err LvAuth r, d\<lparr>lv_auth := a\<rparr>))"

section \<open>Sending\<close>

definition legacy_send_meta_message :: "legacy_meta_crypto \<Rightarrow> meta_message \<Rightarrow> byte list legacy_op" where
  "legacy_send_meta_message M m d =
     (if message_request m = ReqId then (Inr (encode_meta_line m), d)
      else on_legacy_auth (encrypt_outbound M (encode_meta_line m)) d)"

definition legacy_ensure_activated :: "legacy_driver \<Rightarrow> legacy_connection_error + unit" where
  "legacy_ensure_activated d =
     (if la_state (lv_auth d) = LegacyActivated then Inr () else Inl (LvNotActivated (la_state (lv_auth d))))"

definition legacy_tcp_packet_length :: "nat \<Rightarrow> legacy_connection_error + nat" where
  "legacy_tcp_packet_length n = (if 32767 < n then Inl (LvPacketTooLarge 32767 n) else Inr n)"

definition legacy_send_tcp_packet :: "legacy_meta_crypto \<Rightarrow> byte list \<Rightarrow> byte list list legacy_op" where
  "legacy_send_tcp_packet M packet d =
     (case and_then (legacy_ensure_activated d) (\<lambda>_. legacy_tcp_packet_length (length packet)) of
        Inl e \<Rightarrow> (Inl e, d)
      | Inr n \<Rightarrow>
          (case legacy_send_meta_message M (MsgTcpPacket n) d of
             (Inl e, d) \<Rightarrow> (Inl e, d)
           | (Inr header, d) \<Rightarrow>
               map_prod (map_ok (\<lambda>body. [header, body])) id (on_legacy_auth (encrypt_outbound M packet) d)))"

definition legacy_send_sptps_packet :: "byte list \<Rightarrow> byte list list legacy_op" where
  "legacy_send_sptps_packet packet d = (Inl UnsupportedSptpsTcpPacket, d)"

section \<open>Frames in\<close>

fun encode_all :: "legacy_meta_crypto \<Rightarrow> legacy_outbound list \<Rightarrow> byte list list legacy_op" where
  "encode_all M [] d = (Inr [], d)"
| "encode_all M (m # ms) d =
     (case on_legacy_auth (encode_outbound_message M m) d of
        (Inl e, d) \<Rightarrow> (Inl e, d)
      | (Inr bytes, d) \<Rightarrow> map_prod (map_ok (\<lambda>rest. bytes # rest)) id (encode_all M ms d))"

fun connection_event :: "legacy_auth_event \<Rightarrow> meta_connection_event" where
  "connection_event (LegacyActivatedEvent peer port weight options) = EvAuth (AuthActivated peer port weight options)"
| "connection_event (LegacyUpgradeEvent peer public_key) = EvAuth (LegacyEd25519Upgrade peer public_key)"

definition legacy_apply_auth_step :: "legacy_meta_crypto \<Rightarrow> legacy_auth_step \<Rightarrow> connection_step legacy_op" where
  "legacy_apply_auth_step M st d =
     map_prod (map_ok (\<lambda>sent. \<lparr>cs_outbound = sent, cs_events = map connection_event (ls_events st)\<rparr>)) id
       (encode_all M (ls_outbound st) d)"

definition legacy_handle_line :: "legacy_meta_crypto \<Rightarrow> string \<Rightarrow> connection_step legacy_op" where
  "legacy_handle_line M line d =
     (case parse_meta_message line of
        Inl e \<Rightarrow> (Inl (LvParse e), d)
      | Inr m \<Rightarrow>
          if la_state (lv_auth d) \<noteq> LegacyActivated
          then (case on_legacy_auth (legacy_receive_message M m) d of
                  (Inl e, d) \<Rightarrow> (Inl e, d)
                | (Inr st, d) \<Rightarrow>
                    map_prod (map_ok (add_step (event_step (EvMessage m)))) id (legacy_apply_auth_step M st d))
          else (Inr (event_step (EvMessage m)), d\<lparr>lv_decoder := observe_meta_message m (lv_decoder d)\<rparr>))"

definition legacy_handle_frame :: "legacy_meta_crypto \<Rightarrow> meta_stream_frame \<Rightarrow> connection_step legacy_op" where
  "legacy_handle_frame M frame d =
     (case frame of
        FrameLine line \<Rightarrow> legacy_handle_line M line d
      | FrameBody kind data \<Rightarrow>
          (case kind of
             BodyTcpPacket \<Rightarrow> (Inr (event_step (EvTcpPacket data)), d)
           | BodySptpsPacket \<Rightarrow> (Inr (event_step (EvSptpsPacket data)), d))
      | FrameSptpsRecord _ \<Rightarrow> (Inl UnexpectedSptpsRecord, d))"

section \<open>The loops\<close>

lemma on_legacy_auth_frame:
  "lv_raw_buffer (snd (on_legacy_auth f d)) = lv_raw_buffer d" "lv_decoder (snd (on_legacy_auth f d)) = lv_decoder d"
  by (simp_all add: on_legacy_auth_def case_prod_beta)

lemma encode_all_frame:
  "lv_raw_buffer (snd (encode_all M ms d)) = lv_raw_buffer d \<and> lv_decoder (snd (encode_all M ms d)) = lv_decoder d"
proof (induction M ms d rule: encode_all.induct)
  case (2 M m ms d)
  obtain r d1 where "on_legacy_auth (encode_outbound_message M m) d = (r, d1)" by fastforce
  with 2 on_legacy_auth_frame [of "encode_outbound_message M m" d] show ?case by (cases r) simp_all
qed simp

lemma handle_line_frame:
  "lv_raw_buffer (snd (legacy_handle_line M line d)) = lv_raw_buffer d"
  "ms_buffer (lv_decoder (snd (legacy_handle_line M line d))) = ms_buffer (lv_decoder d)"
proof -
  define r d1 where "r m = fst (on_legacy_auth (legacy_receive_message M m) d)"
    and "d1 m = snd (on_legacy_auth (legacy_receive_message M m) d)" for m
  then have a: "on_legacy_auth (legacy_receive_message M m) d = (r m, d1 m)" for m by simp
  have f: "lv_raw_buffer (d1 m) = lv_raw_buffer d" "lv_decoder (d1 m) = lv_decoder d" for m
    using on_legacy_auth_frame [of "legacy_receive_message M m" d] a by simp_all
  show "lv_raw_buffer (snd (legacy_handle_line M line d)) = lv_raw_buffer d"
    "ms_buffer (lv_decoder (snd (legacy_handle_line M line d))) = ms_buffer (lv_decoder d)"
    by (auto simp: legacy_handle_line_def legacy_apply_auth_step_def a f encode_all_frame observe_meta_message_def
        expect_body_def split: sum.split meta_message.split)
qed

lemma handle_frame_frame:
  "lv_raw_buffer (snd (legacy_handle_frame M f d)) = lv_raw_buffer d"
  "ms_buffer (lv_decoder (snd (legacy_handle_frame M f d))) = ms_buffer (lv_decoder d)"
  by (auto simp: legacy_handle_frame_def handle_line_frame split: meta_stream_frame.split meta_body_kind.split)

definition decoder_measure :: "meta_decoder \<Rightarrow> nat" where
  "decoder_measure dec = 2 * length (ms_buffer dec) + (if ms_pending_body dec = None then 0 else 1)"

lemma plaintext_frame_taken:
  assumes "next_plaintext_frame dec = (Inr (Some f), dec')"
  shows "(\<exists>kind data. f = FrameBody kind data) \<and> decoder_measure dec' < decoder_measure dec
    \<or> length (ms_buffer dec') < length (ms_buffer dec)"
proof (cases "next_body_frame dec")
  case (Some p)
  obtain f0 dec0 where "p = (f0, dec0)" by fastforce
  with Some assms next_body_frame_taken [of dec f0 dec0] show ?thesis
    by (auto simp: next_plaintext_frame_def decoder_measure_def)
next
  case None
  with assms drop_newline [of "ms_buffer dec"] show ?thesis
    by (auto simp: next_plaintext_frame_def Let_def split: if_splits)
qed

lemma frame_measure:
  assumes "next_plaintext_frame (lv_decoder d) = (Inr (Some f), dec)"
    and "legacy_handle_frame M f (d\<lparr>lv_decoder := dec\<rparr>) = (r, d')"
  shows "decoder_measure (lv_decoder d') < decoder_measure (lv_decoder d)"
  using plaintext_frame_taken [OF assms(1)]
proof
  assume "(\<exists>kind data. f = FrameBody kind data) \<and> decoder_measure dec < decoder_measure (lv_decoder d)"
  moreover from this have "lv_decoder d' = dec"
    using assms(2) by (auto simp: legacy_handle_frame_def split: meta_body_kind.splits)
  ultimately show ?thesis by simp
next
  assume "length (ms_buffer dec) < length (ms_buffer (lv_decoder d))"
  with handle_frame_frame(2) [of M f "d\<lparr>lv_decoder := dec\<rparr>"] assms(2) show ?thesis by (simp add: decoder_measure_def)
qed

function drain_frames :: "legacy_meta_crypto \<Rightarrow> connection_step legacy_op" where
  "drain_frames M d =
     (case next_plaintext_frame (lv_decoder d) of
        (Inl e, dec) \<Rightarrow> (Inl (LvStream e), d\<lparr>lv_decoder := dec\<rparr>)
      | (Inr None, dec) \<Rightarrow> (Inr no_step, d\<lparr>lv_decoder := dec\<rparr>)
      | (Inr (Some frame), dec) \<Rightarrow>
          (case legacy_handle_frame M frame (d\<lparr>lv_decoder := dec\<rparr>) of
             (Inl e, d) \<Rightarrow> (Inl e, d)
           | (Inr s, d) \<Rightarrow> (case drain_frames M d of (r, d) \<Rightarrow> (map_ok (add_step s) r, d))))"
  by pat_completeness auto
termination
  by (relation "measure (\<lambda>(M, d). decoder_measure (lv_decoder d))") (auto intro: frame_measure [OF sym sym])

declare drain_frames.simps [simp del]

lemma drain_frames_frame: "lv_raw_buffer (snd (drain_frames M d)) = lv_raw_buffer d"
proof (induction M d rule: drain_frames.induct)
  case (1 M d)
  obtain r dec where n: "next_plaintext_frame (lv_decoder d) = (r, dec)" by fastforce
  show ?case
  proof (cases "\<exists>f. r = Inr (Some f)")
    case False
    with n show ?thesis by (auto simp: drain_frames.simps [of M d] split: sum.split option.split)
  next
    case True
    then obtain f where f: "r = Inr (Some f)" by blast
    obtain r1 d1 where h: "legacy_handle_frame M f (d\<lparr>lv_decoder := dec\<rparr>) = (r1, d1)" by fastforce
    then have "lv_raw_buffer d1 = lv_raw_buffer d" using handle_frame_frame(1) [of M f "d\<lparr>lv_decoder := dec\<rparr>"] by simp
    with 1 n f h show ?thesis
      by (cases r1) (auto simp: drain_frames.simps [of M d] case_prod_beta)
  qed
qed

lemma raw_buffer_smaller:
  "drain_frames M d1 = (r, d') \<Longrightarrow> lv_raw_buffer d1 = [] \<Longrightarrow> lv_raw_buffer d' = []"
  "legacy_handle_line M line d2 = (r2, d'') \<Longrightarrow> lv_raw_buffer d'' = lv_raw_buffer d2"
  using drain_frames_frame [of M d1] handle_line_frame(1) [of M line d2] by simp_all

text \<open>
  Everything that is buffered is decrypted at once when the stream is encrypted; otherwise one line
  is taken, and the line that brings the key switches to the other mode.
\<close>

function receive_buffered :: "legacy_meta_crypto \<Rightarrow> connection_step legacy_op" where
  "receive_buffered M d =
     (if la_in_cipher (lv_auth d) \<noteq> None
      then if lv_raw_buffer d = [] then (Inr no_step, d)
        else (case on_legacy_auth (decrypt_inbound M (lv_raw_buffer d)) d of
               (Inl e, d) \<Rightarrow> (Inl e, d)
             | (Inr plaintext, d) \<Rightarrow>
                 let d = d\<lparr>lv_raw_buffer := []\<rparr>
                 in (case decoder_push plaintext (lv_decoder d) of
                       Inl e \<Rightarrow> (Inl (LvStream e), d)
                     | Inr dec \<Rightarrow>
                         (case drain_frames M (d\<lparr>lv_decoder := dec\<rparr>) of
                            (Inl e, d) \<Rightarrow> (Inl e, d)
                          | (Inr s, d) \<Rightarrow> (case receive_buffered M d of (r, d) \<Rightarrow> (map_ok (add_step s) r, d)))))
      else if 10 \<in> set (lv_raw_buffer d)
      then let n = length (takeWhile (\<lambda>b. b \<noteq> 10) (lv_raw_buffer d)) + 1;
               line = take n (lv_raw_buffer d);
               d = d\<lparr>lv_raw_buffer := drop n (lv_raw_buffer d)\<rparr>
        in (case decode_meta_line line of
              Inl e \<Rightarrow> (Inl (LvStream e), d)
            | Inr line \<Rightarrow>
                (case legacy_handle_line M line d of
                   (Inl e, d) \<Rightarrow> (Inl e, d)
                 | (Inr s, d) \<Rightarrow> (case receive_buffered M d of (r, d) \<Rightarrow> (map_ok (add_step s) r, d))))
      else (Inr no_step, d))"
  by pat_completeness auto

termination
  by (relation "measure (\<lambda>(M, d). length (lv_raw_buffer d))")
    (auto dest!: sym [of "(_, _)"] raw_buffer_smaller simp: drop_newline)

declare receive_buffered.simps [simp del]

definition legacy_receive_bytes :: "legacy_meta_crypto \<Rightarrow> byte list \<Rightarrow> connection_step legacy_op" where
  "legacy_receive_bytes M data d = receive_buffered M (d\<lparr>lv_raw_buffer := lv_raw_buffer d @ data\<rparr>)"

end
