(* ===== verification/Legacy_Meta_Props.thy ===== *)
theory Legacy_Meta_Props
  imports Legacy_Meta_Driver
begin

text \<open>
  Legacy meta connections: an RSA block comes back from its key, the two ends of the cipher stream
  stay together however the stream is cut, and a challenge can be answered once.
\<close>

section \<open>RSA blocks\<close>

lemma nat_bits_bound: "n < 2 ^ nat_bits n"
proof (induction n rule: nat_bits.induct)
  case (1 n)
  show ?case
  proof (cases "n = 0")
    case False
    with 1 have "n div 2 < 2 ^ nat_bits (n div 2)" by simp
    then have "n < 2 * 2 ^ nat_bits (n div 2)" by linarith
    with False show ?thesis by (simp add: nat_bits.simps [of n])
  qed simp
qed

lemma nat_bits_lower: "n \<noteq> 0 \<Longrightarrow> 2 ^ (nat_bits n - 1) \<le> n"
proof (induction n rule: nat_bits.induct)
  case (1 n)
  show ?case
  proof (cases "n = 1")
    case True
    then show ?thesis by (simp add: nat_bits.simps)
  next
    case False
    with 1 have "n div 2 \<noteq> 0" by linarith
    with 1 have h: "2 ^ (nat_bits (n div 2) - 1) \<le> n div 2" "nat_bits (n div 2) \<noteq> 0"
      by (simp_all add: nat_bits.simps [of "n div 2"])
    have "(2::nat) ^ nat_bits (n div 2) = 2 * 2 ^ (nat_bits (n div 2) - 1)" using h(2) by (cases "nat_bits (n div 2)") auto
    with h(1) 1(2) show ?thesis by (simp add: nat_bits.simps [of n])
  qed
qed

lemma size_bound: "n < 256 ^ rsa_size n"
proof -
  have "nat_bits n \<le> 8 * rsa_size n" by (simp add: rsa_size_def)
  then have "(2::nat) ^ nat_bits n \<le> 2 ^ (8 * rsa_size n)" by simp
  also have "\<dots> = 256 ^ rsa_size n" by (simp add: power_mult)
  finally show ?thesis using nat_bits_bound [of n] by simp
qed

lemma byte_bound: "unat (b :: byte) < 256"
  using unsigned_less [of b] by simp

lemma from_bytes_snoc: "nat_from_bytes_be (bs @ [b]) = 256 * nat_from_bytes_be bs + unat b"
  by (simp add: nat_from_bytes_be_def)

lemma from_bytes_zeros: "nat_from_bytes_be (replicate k 0 @ bs) = nat_from_bytes_be bs"
  by (induction k) (simp_all add: nat_from_bytes_be_def)

lemma from_bytes_bound: "nat_from_bytes_be bs < 256 ^ length bs"
proof (induction bs rule: rev_induct)
  case (snoc b bs)
  have "unat b < 256" by (rule byte_bound)
  with snoc have "256 * nat_from_bytes_be bs + unat b < 256 * 256 ^ length bs" by linarith
  then show ?case by (simp add: from_bytes_snoc)
qed (simp add: nat_from_bytes_be_def)

lemma to_from_bytes: "nat_from_bytes_be (nat_to_bytes_be n) = n"
proof (induction n rule: nat_to_bytes_be.induct)
  case (1 n)
  have u: "unat (of_nat n :: byte) = n mod 256" by (simp add: unat_of_nat)
  show ?case
  proof (cases "n < 256")
    case True
    with u show ?thesis by (simp add: nat_to_bytes_be.simps [of n] nat_from_bytes_be_def)
  next
    case False
    with 1 u show ?thesis by (simp add: nat_to_bytes_be.simps [of n] from_bytes_snoc)
  qed
qed

lemma to_bytes_length: "n < 256 ^ k \<Longrightarrow> 0 < k \<Longrightarrow> length (nat_to_bytes_be n) \<le> k"
proof (induction n arbitrary: k rule: nat_to_bytes_be.induct)
  case (1 n)
  show ?case
  proof (cases "n < 256")
    case False
    then obtain j where k: "k = Suc j" "0 < j" using 1(2,3) by (cases k; cases "k - 1") auto
    with 1(2) have "n div 256 < 256 ^ j" by (simp add: less_mult_imp_div_less mult.commute)
    with 1(1) False k show ?thesis by (simp add: nat_to_bytes_be.simps [of n])
  qed (use 1 in \<open>simp add: nat_to_bytes_be.simps [of n]\<close>)
qed

lemma fixed_len:
  "length (biguint_to_fixed_len n k) = k"
  "n < 256 ^ k \<Longrightarrow> nat_from_bytes_be (biguint_to_fixed_len n k) = n"
proof -
  show "length (biguint_to_fixed_len n k) = k" by (simp add: biguint_to_fixed_len_def Let_def)
  assume n: "n < 256 ^ k"
  show "nat_from_bytes_be (biguint_to_fixed_len n k) = n"
  proof (cases "k = 0")
    case True
    with n show ?thesis by (simp add: biguint_to_fixed_len_def nat_from_bytes_be_def Let_def)
  next
    case False
    with to_bytes_length [OF n] show ?thesis
      by (auto simp: biguint_to_fixed_len_def Let_def to_from_bytes from_bytes_zeros)
  qed
qed

lemma last_digit: "x < 256 \<Longrightarrow> y < 256 \<Longrightarrow> 256 * a + x = 256 * b + (y :: nat) \<Longrightarrow> x = y \<and> a = b"
proof -
  assume b: "x < 256" "y < 256" and e: "256 * a + x = 256 * b + y"
  have "a = (256 * a + x) div 256" "b = (256 * b + y) div 256" using b by simp_all
  then have "a = b" using e by metis
  with e show ?thesis by simp
qed

lemma from_bytes_inj: "length xs = length ys \<Longrightarrow> nat_from_bytes_be xs = nat_from_bytes_be ys \<Longrightarrow> xs = ys"
proof (induction xs arbitrary: ys rule: rev_induct)
  case (snoc x xs)
  then obtain y zs where ys: "ys = zs @ [y]" by (cases ys rule: rev_cases) auto
  have b: "unat x < 256" "unat y < 256" by (rule byte_bound)+
  from snoc.prems(2) have e: "256 * nat_from_bytes_be xs + unat x = 256 * nat_from_bytes_be zs + unat y"
    by (simp add: ys from_bytes_snoc)
  then have "unat x = unat y" "nat_from_bytes_be xs = nat_from_bytes_be zs" using last_digit [OF b] by blast+
  with snoc ys show ?case by (simp add: word_unat_eq_iff)
qed simp

definition private_exponent :: "legacy_meta_private_key \<Rightarrow> nat" where
  "private_exponent k = (case k of PemKey key \<Rightarrow> rs_d key | KeyComponents _ d \<Rightarrow> d)"

text \<open>What makes two keys a pair: the exponents undo each other below the modulus.\<close>

definition rsa_pair :: "rsa_public_key \<Rightarrow> legacy_meta_private_key \<Rightarrow> bool" where
  "rsa_pair pub priv \<longleftrightarrow> private_public_key priv = pub \<and> 0 < rp_n pub
     \<and> (\<forall>m < rp_n pub. modpow (modpow m (rp_e pub) (rp_n pub)) (private_exponent priv) (rp_n pub) = m)"

lemma rsa_block:
  assumes "rsa_pair pub priv" "length block = rsa_size (rp_n pub)" "nat_from_bytes_be block < rp_n pub"
  shows "\<exists>c. legacy_meta_public_encrypt pub block = Inr c \<and> length c = rsa_size (rp_n pub) \<and> decrypt_block priv c = Inr block"
proof -
  let ?n = "rp_n pub" and ?s = "rsa_size (rp_n pub)"
  let ?c = "modpow (nat_from_bytes_be block) (rp_e pub) ?n"
  have "?c < 256 ^ ?s" using assms(1) size_bound [of ?n] by (simp add: rsa_pair_def modpow_def) (meson mod_less_divisor order.strict_trans)
  then have c: "length (biguint_to_fixed_len ?c ?s) = ?s" "nat_from_bytes_be (biguint_to_fixed_len ?c ?s) = ?c"
    using fixed_len by simp_all
  have b: "biguint_to_fixed_len (nat_from_bytes_be block) ?s = block"
    using fixed_len [of "nat_from_bytes_be block" ?s] from_bytes_bound [of block] assms(2) by (intro from_bytes_inj) simp_all
  have "decrypt_block priv (biguint_to_fixed_len ?c ?s) = Inr block"
    using assms(1,3) c b
    by (cases priv) (auto simp: rsa_pair_def decrypt_block_def private_public_key_def private_exponent_def
        legacy_meta_private_decrypt_pem_def legacy_meta_private_decrypt_components_def Let_def)
  moreover have "legacy_meta_public_encrypt pub block = Inr (biguint_to_fixed_len ?c ?s)"
    using assms(2,3) by (simp add: legacy_meta_public_encrypt_def Let_def)
  ultimately show ?thesis using c(1) by blast
qed

text \<open>The generated block is below a modulus whose length is a whole number of bytes.\<close>

lemma key_material_fits:
  assumes "length random = rsa_size n" "8 dvd nat_bits n" "n \<noteq> 0"
  shows "length (legacy_meta_generate_rsa_key_material random) = rsa_size n"
    "nat_from_bytes_be (legacy_meta_generate_rsa_key_material random) < n"
proof -
  have bits: "nat_bits n = 8 * rsa_size n" using assms(2) by (auto simp: rsa_size_def elim!: dvdE)
  moreover have "nat_bits n \<noteq> 0" using assms(3) by (simp add: nat_bits.simps [of n])
  ultimately obtain b bs where r: "random = b # bs" using assms(1) by (cases random) auto
  show "length (legacy_meta_generate_rsa_key_material random) = rsa_size n"
    using assms(1) r by (simp add: legacy_meta_generate_rsa_key_material_def)
  have split: "nat_from_bytes_be (x # bs) = unat x * 256 ^ length bs + nat_from_bytes_be bs" for x
  proof (induction bs rule: rev_induct)
    case (snoc y ys)
    have "nat_from_bytes_be (x # ys @ [y]) = 256 * nat_from_bytes_be (x # ys) + unat y"
      using from_bytes_snoc [of "x # ys" y] by simp
    with snoc show ?case by (simp add: from_bytes_snoc algebra_simps)
  qed (simp add: nat_from_bytes_be_def)
  have "b AND 127 \<le> (127 :: byte)" by (rule word_and_le1)
  then have u: "unat (b AND 127) \<le> 127" by (simp add: word_le_nat_alt)
  have "nat_from_bytes_be ((b AND 127) # bs) < (unat (b AND 127) + 1) * 256 ^ length bs"
    using from_bytes_bound [of bs] by (simp add: split)
  also have "\<dots> \<le> 128 * 256 ^ length bs" using u by (intro mult_right_mono) simp_all
  also have "\<dots> = 2 ^ (nat_bits n - 1)"
  proof -
    have "nat_bits n - 1 = 7 + 8 * length bs" using bits assms(1) r by simp
    then show ?thesis by (simp add: power_add power_mult)
  qed
  also have "\<dots> \<le> n" by (rule nat_bits_lower [OF assms(3)])
  finally show "nat_from_bytes_be (legacy_meta_generate_rsa_key_material random) < n"
    by (simp add: r legacy_meta_generate_rsa_key_material_def)
qed

section \<open>The cipher stream\<close>

lemma cfb_inverse: "cfb128_apply E True p c = (x, c') \<Longrightarrow> cfb128_apply E False x c = (p, c')"
proof (induction p arbitrary: c x)
  case (Cons b p)
  then show ?case by (auto simp: Let_def xor.assoc split: prod.splits)
qed simp

lemma cfb_append:
  "cfb128_apply E e (xs @ ys) c =
     (case cfb128_apply E e xs c of (a, c) \<Rightarrow> (case cfb128_apply E e ys c of (b, c) \<Rightarrow> (a @ b, c)))"
  by (induction xs arbitrary: c) (simp_all add: Let_def case_prod_beta)

lemma cfb_length [simp]: "length (fst (cfb128_apply E e xs c)) = length xs"
  by (induction xs arbitrary: c) (simp_all add: Let_def case_prod_beta)

lemma cfb_keeps_key:
  "lc_key (snd (cfb128_apply E e xs c)) = lc_key c" "lc_algorithm (snd (cfb128_apply E e xs c)) = lc_algorithm c"
  by (induction xs arbitrary: c) (simp_all add: Let_def case_prod_beta)

section \<open>What a connection has heard\<close>

lemma mem_eq_equal: "mem_eq xs ys \<longleftrightarrow> xs = ys"
  using fold_diff [of xs ys 0] by (auto simp: mem_eq_def)

text \<open>Messages handled one after the other, those refused skipped, with the list of the accepted.\<close>

primrec legacy_hears :: "legacy_meta_crypto \<Rightarrow> meta_message list \<Rightarrow> legacy_auth \<Rightarrow> meta_message list \<times> legacy_auth" where
  "legacy_hears M [] a = ([], a)"
| "legacy_hears M (m # ms) a =
     (case legacy_receive_message M m a of (r, a) \<Rightarrow>
      (case legacy_hears M ms a of (accepted, a) \<Rightarrow> ((case r of Inl _ \<Rightarrow> accepted | Inr _ \<Rightarrow> m # accepted), a)))"

definition drawn :: "legacy_auth \<Rightarrow> byte list \<Rightarrow> bool" where
  "drawn a0 c \<longleftrightarrow> (\<exists>k. c = stake (rsa_size (rp_n (la_peer_public_key a0))) (sdrop k (la_random a0)))"

text \<open>The reply proves that the peer could read a challenge this connection drew.\<close>

definition answers :: "legacy_meta_crypto \<Rightarrow> legacy_auth \<Rightarrow> string \<Rightarrow> bool" where
  "answers M a0 reply \<longleftrightarrow> (\<exists>c. drawn a0 c
     \<and> hex_to_bin reply (meta_digest_length (la_out_digest a0)) = meta_digest_create M (la_out_digest a0) c)"

definition same_setup :: "legacy_auth \<Rightarrow> legacy_auth \<Rightarrow> bool" where
  "same_setup a0 a \<longleftrightarrow> la_myself a = la_myself a0 \<and> la_outgoing a = la_outgoing a0 \<and> la_out_digest a = la_out_digest a0
     \<and> la_peer_public_key a = la_peer_public_key a0 \<and> la_private_key a = la_private_key a0
     \<and> (\<exists>k. la_random a = sdrop k (la_random a0))"

definition named :: "legacy_auth \<Rightarrow> legacy_auth \<Rightarrow> id_message \<Rightarrow> bool" where
  "named a0 a i \<longleftrightarrow> check_id (id_name i) \<and> id_name i \<noteq> la_myself a0 \<and> id_protocol_major i = PROT_MAJOR
     \<and> la_peer a = Some (id_name i)"

text \<open>What has been accepted on the way to each state.\<close>

definition transcript :: "legacy_meta_crypto \<Rightarrow> legacy_auth \<Rightarrow> meta_message list \<Rightarrow> legacy_auth \<Rightarrow> bool" where
  "transcript M a0 ms a \<longleftrightarrow> same_setup a0 a \<and> (\<forall>c. la_sent_challenge a = Some c \<longrightarrow> drawn a0 c) \<and>
     (case la_state a of
        LegacyExpectId \<Rightarrow> ms = []
      | LegacyExpectMetaKey \<Rightarrow> (\<exists>i. ms = [MsgId i] \<and> named a0 a i)
      | LegacyExpectChallenge \<Rightarrow> (\<exists>i k. ms = [MsgId i, MsgMetaKey k] \<and> named a0 a i)
      | LegacyExpectChallengeReply \<Rightarrow> (\<exists>i k c. ms = [MsgId i, MsgMetaKey k, MsgChallenge c] \<and> named a0 a i)
      | LegacyExpectAck \<Rightarrow> (\<exists>i k c r. ms = [MsgId i, MsgMetaKey k, MsgChallenge c, MsgChallengeReply r] \<and> named a0 a i \<and> answers M a0 r)
      | LegacyActivated \<Rightarrow> (\<exists>i k c r x. ms = [MsgId i, MsgMetaKey k, MsgChallenge c, MsgChallengeReply r, MsgAck x] \<and> named a0 a i \<and> answers M a0 r)
      | UpgradeTerminating \<Rightarrow> True)"

lemma verified_answer:
  assumes "meta_digest_verify_hex M d c reply = Inr u"
  shows "hex_to_bin reply (meta_digest_length d) = meta_digest_create M d c"
  using assms by (auto simp: meta_digest_verify_hex_def Let_def mem_eq_equal split: if_splits)

lemma random_filled:
  assumes "same_setup a0 a" "fill_random (rsa_size (rp_n (la_peer_public_key a))) a = (bs, a')"
  shows "drawn a0 bs" "same_setup a0 a'" "a' = a\<lparr>la_random := la_random a'\<rparr>"
proof -
  from assms obtain k where k: "la_random a = sdrop k (la_random a0)" by (auto simp: same_setup_def)
  with assms show "drawn a0 bs" by (auto simp: fill_random_def drawn_def same_setup_def)
  from assms k show "same_setup a0 a'" by (auto simp: fill_random_def same_setup_def)
  from assms show "a' = a\<lparr>la_random := la_random a'\<rparr>" by (auto simp: fill_random_def)
qed

lemma setup_updates [simp]:
  "same_setup a0 (a\<lparr>la_state := st\<rparr>) = same_setup a0 a" "same_setup a0 (a\<lparr>la_peer := p\<rparr>) = same_setup a0 a"
  "same_setup a0 (a\<lparr>la_sent_challenge := sc\<rparr>) = same_setup a0 a"
  "same_setup a0 (a\<lparr>la_received_challenge := rc\<rparr>) = same_setup a0 a"
  "same_setup a0 (a\<lparr>la_in_cipher := ic\<rparr>) = same_setup a0 a" "same_setup a0 (a\<lparr>la_out_cipher := oc\<rparr>) = same_setup a0 a"
  "same_setup a0 (a\<lparr>la_in_digest := di\<rparr>) = same_setup a0 a"
  "same_setup a0 (a\<lparr>la_negotiated_protocol_minor := n\<rparr>) = same_setup a0 a"
  by (simp_all add: same_setup_def)

lemma metakey_sent:
  assumes "same_setup a0 a" "send_metakey a = (r, a')"
  shows "same_setup a0 a' \<and> la_state a' = la_state a \<and> la_peer a' = la_peer a \<and> la_sent_challenge a' = la_sent_challenge a"
proof -
  obtain bs b where f: "fill_random (rsa_size (rp_n (la_peer_public_key a))) a = (bs, b)" by fastforce
  note b = random_filled [OF assms(1) f]
  from b(3) have "la_state b = la_state a" "la_peer b = la_peer a" "la_sent_challenge b = la_sent_challenge a"
    by (metis legacy_auth.select_convs legacy_auth.surjective legacy_auth.update_convs(22))+
  with b(2) assms(2) f show ?thesis by (auto simp: send_metakey_def Let_def split: sum.splits)
qed

lemma reply_sent:
  assumes "send_challenge_reply M a = (r, a')"
  shows "same_setup a0 a' = same_setup a0 a \<and> la_state a' = la_state a \<and> la_peer a' = la_peer a
    \<and> la_sent_challenge a' = la_sent_challenge a"
  using assms by (auto simp: send_challenge_reply_def Let_def split: option.splits)

lemma refused_keeps:
  assumes "same_setup a0 a \<longrightarrow> same_setup a0 a'" "la_state a' = la_state a" "la_peer a' = la_peer a \<or> la_state a = LegacyExpectId"
    "la_sent_challenge a' = la_sent_challenge a \<or> la_sent_challenge a' = None" "transcript M a0 ms a"
  shows "transcript M a0 ms a'"
  using assms by (auto simp: transcript_def named_def split: legacy_auth_state.splits)

lemma id_transcript:
  assumes t: "transcript M a0 ms a" and r: "legacy_receive_id i a = (r, a')"
  shows "transcript M a0 (case r of Inl _ \<Rightarrow> ms | Inr _ \<Rightarrow> ms @ [MsgId i]) a'"
proof (cases "ensure_expected ReqId a")
  case (Inl e)
  with t r show ?thesis by (auto simp: legacy_receive_id_def)
next
  case (Inr u)
  then have s: "la_state a = LegacyExpectId" by (cases "la_state a") (auto simp: ensure_expected_def)
  with t have ms: "ms = []" "same_setup a0 a" by (simp_all add: transcript_def)
  define rm where "rm = (if la_force_protocol_minor_zero a then LEGACY_META_PROTOCOL_MINOR
      else case id_protocol_minor i of Some n \<Rightarrow> n | None \<Rightarrow> 0)"
  define b where "b = a\<lparr>la_negotiated_protocol_minor := (if rm = LEGACY_META_PROTOCOL_MINOR then LEGACY_META_PROTOCOL_MINOR
      else LEGACY_META_UPGRADE_PROTOCOL_MINOR), la_peer := Some (id_name i)\<rparr>"
  let ?ok = "check_id (id_name i) \<and> id_name i \<noteq> la_myself a \<and> id_protocol_major i = PROT_MAJOR
      \<and> \<not> (rm \<noteq> LEGACY_META_PROTOCOL_MINOR \<and> la_local_upgrade_public_key a = None)"
  obtain x c where x: "send_metakey b = (x, c)" by fastforce
  have "same_setup a0 b" using ms by (simp add: b_def)
  from metakey_sent [OF this x] have k: "same_setup a0 c" "la_state c = LegacyExpectId" "la_peer c = Some (id_name i)"
    "la_sent_challenge c = la_sent_challenge a" by (simp_all add: b_def s)
  have me: "la_myself a = la_myself a0" using ms by (simp add: same_setup_def)
  have u: "legacy_receive_id i a = (if \<not> check_id (id_name i) then (Inl (LaInvalidPeerName (id_name i)), a)
      else if id_name i = la_myself a then (Inl (LaSelfConnection (id_name i)), a)
      else if id_protocol_major i \<noteq> PROT_MAJOR then (Inl (LaIncompatibleProtocol PROT_MAJOR (id_protocol_major i)), a)
      else if rm \<noteq> LEGACY_META_PROTOCOL_MINOR \<and> la_local_upgrade_public_key a = None then (Inl (LaUnsupportedProtocolMinor rm), a)
      else case x of Inl e \<Rightarrow> (Inl e, c)
        | Inr m \<Rightarrow> (Inr (sends ((if la_outgoing c then [] else [plaintext_message (legacy_local_id_message c)]) @ [m])),
            c\<lparr>la_state := LegacyExpectMetaKey\<rparr>))"
    using Inr x unfolding legacy_receive_id_def validate_legacy_peer_id_def rm_def [symmetric] Let_def b_def [symmetric]
    by (simp split: sum.split)
  show ?thesis
  proof (cases ?ok)
    case False
    with u r have "a' = a \<and> (\<exists>e. r = Inl e)" by (auto split: if_splits)
    with t show ?thesis by auto
  next
    case True
    with u r k t ms s me show ?thesis by (cases x) (auto simp: transcript_def named_def)
  qed
qed

lemma challenge_drawn:
  assumes "same_setup a0 a" "send_challenge a = (m, a')"
  shows "same_setup a0 a' \<and> la_state a' = la_state a \<and> la_peer a' = la_peer a \<and> (\<exists>c. la_sent_challenge a' = Some c \<and> drawn a0 c)"
proof -
  obtain bs b where f: "fill_random (rsa_size (rp_n (la_peer_public_key a))) a = (bs, b)" by fastforce
  note b = random_filled [OF assms(1) f]
  from f have "la_state b = la_state a" "la_peer b = la_peer a" by (auto simp: fill_random_def)
  with b(1,2) assms(2) f show ?thesis by (auto simp: send_challenge_def)
qed

lemma metakey_transcript:
  assumes t: "transcript M a0 ms a" and r: "receive_metakey k a = (r, a')"
  shows "transcript M a0 (case r of Inl _ \<Rightarrow> ms | Inr _ \<Rightarrow> ms @ [MsgMetaKey k]) a'"
proof (cases "\<exists>e. r = Inl e")
  case True
  then have "a' = a" using r by (auto simp: receive_metakey_def split: sum.splits prod.splits)
  with True t show ?thesis by auto
next
  case False
  then have s: "la_state a = LegacyExpectMetaKey"
    using r by (cases "la_state a") (auto simp: receive_metakey_def ensure_expected_def and_then_def)
  obtain c digest m b st where b: "send_challenge (a\<lparr>la_in_cipher := Some c, la_in_digest := Some digest\<rparr>) = (m, b)"
      "a' = b\<lparr>la_state := LegacyExpectChallenge\<rparr>" "r = Inr st"
    using r False unfolding receive_metakey_def by (auto split: sum.splits prod.splits)
  have "same_setup a0 (a\<lparr>la_in_cipher := Some c, la_in_digest := Some digest\<rparr>)" using t by (simp add: transcript_def)
  from challenge_drawn [OF this b(1)] t s show ?thesis by (auto simp: b transcript_def named_def)
qed

lemma challenge_transcript:
  assumes t: "transcript M a0 ms a" and r: "receive_challenge M data a = (r, a')"
  shows "transcript M a0 (case r of Inl _ \<Rightarrow> ms | Inr _ \<Rightarrow> ms @ [MsgChallenge data]) a'"
proof (cases "ensure_expected ReqChallenge a")
  case (Inl e)
  with t r show ?thesis by (auto simp: receive_challenge_def Let_def)
next
  case (Inr u)
  then have s: "la_state a = LegacyExpectChallenge" by (cases "la_state a") (auto simp: ensure_expected_def)
  obtain x d where x: "send_challenge_reply M (a\<lparr>la_received_challenge := Some (hex_to_bin data
      (rsa_size (rp_n (private_public_key (la_private_key a)))))\<rparr>) = (x, d)" by fastforce
  from reply_sent [OF x, of a0] have d: "same_setup a0 d = same_setup a0 a" "la_state d = LegacyExpectChallenge" "la_peer d = la_peer a"
    "la_sent_challenge d = la_sent_challenge a" using s by simp_all
  show ?thesis
    using r Inr x t s d
    by (cases x) (auto simp: receive_challenge_def Let_def transcript_def named_def split: if_splits)
qed

lemma challenge_reply_cases:
  assumes "receive_challenge_reply M reply a = (r, a')"
  shows "(\<exists>e. r = Inl e) \<and> a' = a \<and> (la_state a = LegacyExpectChallengeReply \<longrightarrow> la_sent_challenge a = None)
    \<or> la_state a = LegacyExpectChallengeReply \<and> la_sent_challenge a' = None
      \<and> la_peer a' = la_peer a \<and> (\<forall>a0. same_setup a0 a' = same_setup a0 a)
      \<and> (case r of Inl _ \<Rightarrow> la_state a' = LegacyExpectChallengeReply
         | Inr _ \<Rightarrow> la_state a' = LegacyExpectAck \<and> (\<exists>c u. la_sent_challenge a = Some c
             \<and> meta_digest_verify_hex M (la_out_digest a) c reply = Inr u))"
proof (cases "la_state a = LegacyExpectChallengeReply \<and> la_sent_challenge a \<noteq> None")
  case False
  with assms show ?thesis
    by (cases "la_state a") (auto simp: receive_challenge_reply_def ensure_expected_def)
next
  case True
  then obtain c where c: "la_sent_challenge a = Some c" by blast
  let ?a = "a\<lparr>la_sent_challenge := None\<rparr>"
  obtain x b where x: "(if la_outgoing ?a then (Inr [], ?a) else map_prod (map_ok (\<lambda>r. [r])) id (send_challenge_reply M ?a)) = (x, b)"
    by fastforce
  obtain y d where y: "send_challenge_reply M ?a = (y, d)" by fastforce
  have be: "b = ?a \<or> b = d" using x y by (auto split: if_splits)
  have b: "la_state b = LegacyExpectChallengeReply" "la_sent_challenge b = None" "la_peer b = la_peer a"
    "same_setup a0 b = same_setup a0 a" for a0
    using be True reply_sent [OF y, of a0] by auto
  have u: "receive_challenge_reply M reply a = (case meta_digest_verify_hex M (la_out_digest a) c reply of
      Inl e \<Rightarrow> (Inl (LaCrypto e), ?a)
    | Inr _ \<Rightarrow> (case x of Inl e \<Rightarrow> (Inl e, b) | Inr replies \<Rightarrow> (case legacy_ack_message b of Inl e \<Rightarrow> (Inl e, b)
        | Inr ack \<Rightarrow> (Inr (sends (replies @ [encrypted_message ack])), b\<lparr>la_state := LegacyExpectAck\<rparr>))))"
    unfolding receive_challenge_reply_def Let_def x using True c
    by (simp add: ensure_expected_def split: sum.split)
  show ?thesis
  proof (cases "meta_digest_verify_hex M (la_out_digest a) c reply")
    case (Inl e)
    with u assms True show ?thesis by auto
  next
    case (Inr v)
    with u assms True b c show ?thesis by (cases x; cases "legacy_ack_message b") auto
  qed
qed

lemma ack_transcript:
  assumes t: "transcript M a0 ms a" and r: "legacy_receive_ack x a = (r, a')"
  shows "transcript M a0 (case r of Inl _ \<Rightarrow> ms | Inr _ \<Rightarrow> ms @ [MsgAck x]) a'"
proof (cases "la_state a = LegacyExpectAck")
  case False
  then have "a' = a \<and> (\<exists>e. r = Inl e)" using r by (cases "la_state a") (auto simp: legacy_receive_ack_def ensure_expected_def)
  with t show ?thesis by auto
next
  case True
  have "a' = a \<and> (\<exists>e. r = Inl e)
      \<or> (\<exists>st. r = Inr st) \<and> (a' = a\<lparr>la_state := UpgradeTerminating\<rparr> \<or> a' = a\<lparr>la_state := LegacyActivated\<rparr>)"
    using r by (auto simp: legacy_receive_ack_def split: sum.splits if_splits ack_message.splits option.splits)
  with t True show ?thesis by (auto simp: transcript_def named_def)
qed

lemma terminate_transcript:
  assumes t: "transcript M a0 ms a" and r: "receive_terminate_request a = (r, a')"
  shows "transcript M a0 (case r of Inl _ \<Rightarrow> ms | Inr _ \<Rightarrow> ms @ [m]) a'"
proof (cases "la_state a = UpgradeTerminating")
  case True
  with assms show ?thesis by (auto simp: receive_terminate_request_def transcript_def)
next
  case False
  with assms show ?thesis by (auto simp: receive_terminate_request_def)
qed

lemma message_transcript:
  assumes t: "transcript M a0 ms a" and r: "legacy_receive_message M m a = (r, a')"
  shows "transcript M a0 (case r of Inl _ \<Rightarrow> ms | Inr _ \<Rightarrow> ms @ [m]) a'"
proof (cases "\<exists>reply. m = MsgChallengeReply reply")
  case False
  show ?thesis
  proof (cases m)
    case (MsgId i)
    show ?thesis using id_transcript [OF t, of i r a'] r unfolding MsgId by (simp add: legacy_receive_message_def)
  next
    case (MsgMetaKey k)
    show ?thesis using metakey_transcript [OF t, of k r a'] r unfolding MsgMetaKey by (simp add: legacy_receive_message_def)
  next
    case (MsgChallenge c)
    show ?thesis using challenge_transcript [OF t, of c r a'] r unfolding MsgChallenge by (simp add: legacy_receive_message_def)
  next
    case (MsgAck x)
    show ?thesis using ack_transcript [OF t, of x r a'] r unfolding MsgAck by (simp add: legacy_receive_message_def)
  next
    case MsgTerminateRequest
    show ?thesis using terminate_transcript [OF t, of r a' m] r unfolding MsgTerminateRequest by (simp add: legacy_receive_message_def)
  qed (use r t False in \<open>auto simp: legacy_receive_message_def\<close>)
next
  case True
  then obtain reply where m: "m = MsgChallengeReply reply" by blast
  with r have "receive_challenge_reply M reply a = (r, a')" by (simp add: legacy_receive_message_def)
  from challenge_reply_cases [OF this] show ?thesis
  proof (elim disjE conjE exE)
    fix e assume "r = Inl e" "a' = a"
    with t show ?thesis by simp
  next
    assume s: "la_state a = LegacyExpectChallengeReply" "la_sent_challenge a' = None" "la_peer a' = la_peer a"
      "\<forall>a0. same_setup a0 a' = same_setup a0 a"
      and c: "case r of Inl _ \<Rightarrow> la_state a' = LegacyExpectChallengeReply
         | Inr _ \<Rightarrow> la_state a' = LegacyExpectAck \<and> (\<exists>c u. la_sent_challenge a = Some c
             \<and> meta_digest_verify_hex M (la_out_digest a) c reply = Inr u)"
    show ?thesis
    proof (cases r)
      case (Inl e)
      with s c t show ?thesis by (auto simp: transcript_def named_def)
    next
      case (Inr st)
      with c obtain ch u where "la_sent_challenge a = Some ch" "meta_digest_verify_hex M (la_out_digest a) ch reply = Inr u"
        "la_state a' = LegacyExpectAck" by auto
      moreover from this(1) t have "drawn a0 ch" "la_out_digest a = la_out_digest a0" by (simp_all add: transcript_def same_setup_def)
      ultimately have "answers M a0 reply" using verified_answer by (auto simp: answers_def)
      with Inr s c t m show ?thesis by (auto simp: transcript_def named_def)
    qed
  qed
qed

lemma hears_transcript:
  "transcript M a0 before a \<Longrightarrow> legacy_hears M ms a = (accepted, a') \<Longrightarrow> transcript M a0 (before @ accepted) a'"
proof (induction ms arbitrary: a before accepted)
  case (Cons m ms)
  obtain r b where r: "legacy_receive_message M m a = (r, b)" by fastforce
  obtain acc c where h: "legacy_hears M ms b = (acc, c)" by fastforce
  from Cons.IH [OF message_transcript [OF Cons.prems(1) r], of acc] h Cons.prems(2) r show ?case by (cases r) auto
qed simp

lemma fresh_transcript:
  "la_state a = LegacyExpectId \<Longrightarrow> la_sent_challenge a = None \<Longrightarrow> transcript M a [] a"
  by (auto simp: transcript_def same_setup_def intro: exI [of _ 0])

lemma stuck_hears:
  "la_state a = LegacyExpectChallengeReply \<Longrightarrow> la_sent_challenge a = None \<Longrightarrow> legacy_hears M ms a = ([], a)"
proof (induction ms arbitrary: a)
  case (Cons m ms)
  have "\<exists>e. legacy_receive_message M m a = (Inl e, a)"
    using Cons.prems
    by (cases m) (auto simp: legacy_receive_message_def legacy_receive_id_def receive_metakey_def receive_challenge_def
        receive_challenge_reply_def legacy_receive_ack_def receive_terminate_request_def ensure_expected_def Let_def)
  then obtain e where "legacy_receive_message M m a = (Inl e, a)" by blast
  with Cons show ?case by simp
qed simp

end
