(* ===== verification/Legacy_Meta_Activation.thy ===== *)
theory Legacy_Meta_Activation
  imports Legacy_Meta_Props Meta_Activation
begin

text \<open>
  Two honest legacy drivers: from the ID line over the exchange of keys and challenges to the
  acknowledgements, taking turns at reading, both connections are activated after seven turns and
  the two cipher streams are in step.
\<close>

section \<open>A driver is its authentication\<close>

text \<open>What a line does, on the authentication alone.\<close>

primrec encode_on :: "legacy_meta_crypto \<Rightarrow> legacy_outbound list \<Rightarrow> byte list list legacy_auth_op" where
  "encode_on M [] a = (Inr [], a)"
| "encode_on M (m # ms) a =
     (case encode_outbound_message M m a of
        (Inl e, a) \<Rightarrow> (Inl e, a)
      | (Inr bytes, a) \<Rightarrow> (case encode_on M ms a of (r, a) \<Rightarrow> (map_ok (\<lambda>rest. bytes # rest) r, a)))"

definition line_on :: "legacy_meta_crypto \<Rightarrow> meta_message \<Rightarrow> connection_step legacy_auth_op" where
  "line_on M m a =
     (if la_state a = LegacyActivated then (Inr (event_step (EvMessage m)), a)
      else case legacy_receive_message M m a of
        (Inl e, a) \<Rightarrow> (Inl e, a)
      | (Inr st, a) \<Rightarrow> (case encode_on M (ls_outbound st) a of (r, a) \<Rightarrow>
          (map_ok (\<lambda>sent. \<lparr>cs_outbound = sent, cs_events = EvMessage m # map connection_event (ls_events st)\<rparr>) r, a)))"

lemma encode_all_on:
  "encode_all M ms d = (case encode_on M ms (lv_auth d) of (r, a) \<Rightarrow> (map_err LvAuth r, d\<lparr>lv_auth := a\<rparr>))"
proof (induction ms arbitrary: d)
  case (Cons m ms)
  obtain r a where e: "encode_outbound_message M m (lv_auth d) = (r, a)" by fastforce
  obtain r1 a1 where e1: "encode_on M ms a = (r1, a1)" by fastforce
  show ?case
  proof (cases r)
    case (Inl x)
    with e show ?thesis by (simp add: on_legacy_auth_def)
  next
    case (Inr bytes)
    with e e1 Cons.IH [of "d\<lparr>lv_auth := a\<rparr>"] show ?thesis by (cases r1) (simp_all add: on_legacy_auth_def)
  qed
qed simp

definition awaits_body :: "meta_message \<Rightarrow> bool" where
  "awaits_body m \<longleftrightarrow> (case m of MsgTcpPacket _ \<Rightarrow> True | MsgSptpsTcpPacket _ \<Rightarrow> True | _ \<Rightarrow> False)"

lemma handle_line_on:
  assumes "parse_meta_message line = Inr m" "\<not> awaits_body m"
  shows "legacy_handle_line M line d = (case line_on M m (lv_auth d) of (r, a) \<Rightarrow> (map_err LvAuth r, d\<lparr>lv_auth := a\<rparr>))"
proof (cases "la_state (lv_auth d) = LegacyActivated")
  case True
  have "observe_meta_message m dec = dec" for dec
    using assms(2) by (auto simp: observe_meta_message_def awaits_body_def split: meta_message.splits)
  with True assms(1) show ?thesis by (simp add: legacy_handle_line_def line_on_def)
next
  case False
  obtain r a where r: "legacy_receive_message M m (lv_auth d) = (r, a)" by fastforce
  show ?thesis
  proof (cases r)
    case (Inl e)
    with False r assms(1) show ?thesis by (simp add: legacy_handle_line_def line_on_def on_legacy_auth_def)
  next
    case (Inr st)
    obtain r1 a1 where e: "encode_on M (ls_outbound st) a = (r1, a1)" by fastforce
    from False r Inr assms(1) e show ?thesis
      by (cases r1) (simp_all add: legacy_handle_line_def line_on_def on_legacy_auth_def legacy_apply_auth_step_def encode_all_on
          add_step_def event_step_def)
  qed
qed

section \<open>Lines in the stream\<close>

definition good_line :: "meta_message \<Rightarrow> bool" where
  "good_line m \<longleftrightarrow> wf_message m \<and> (\<forall>w \<in> set (message_fields m). printable w) \<and> \<not> awaits_body m"

lemma good_line_read:
  assumes "good_line m"
  shows "decode_meta_line (encode_meta_line m) = Inr (show_meta_message m)" "parse_meta_message (show_meta_message m) = Inr m"
    "takeWhile (\<lambda>b. b \<noteq> 10) (encode_meta_line m @ rest) = map of_char (show_meta_message m)"
    "10 \<in> set (encode_meta_line m @ rest)" "length (encode_meta_line m) = Suc (length (show_meta_message m))"
proof -
  note l = line_read [of m] assms [unfolded good_line_def]
  show "decode_meta_line (encode_meta_line m) = Inr (show_meta_message m)" "parse_meta_message (show_meta_message m) = Inr m"
    using l by simp_all
  have "10 \<notin> set (map of_char (show_meta_message m) :: byte list)" using l by blast
  then show "takeWhile (\<lambda>b. b \<noteq> 10) (encode_meta_line m @ rest) = map of_char (show_meta_message m)"
    unfolding encode_meta_line_def append_assoc by (subst takeWhile_append2) auto
qed (simp_all add: encode_meta_line_def)

lemma nothing_buffered: "lv_raw_buffer d = [] \<Longrightarrow> receive_buffered M d = (Inr no_step, d)"
  by (simp add: receive_buffered.simps)

lemma plain_line_read:
  assumes "good_line m" "la_in_cipher (lv_auth d) = None" "lv_raw_buffer d = encode_meta_line m @ rest"
    and "line_on M m (lv_auth d) = (Inr s, a)"
  shows "receive_buffered M d = (case receive_buffered M (d\<lparr>lv_raw_buffer := rest, lv_auth := a\<rparr>) of (r, d) \<Rightarrow> (map_ok (add_step s) r, d))"
proof -
  note l = good_line_read [OF assms(1)]
  have t: "take (length (show_meta_message m) + 1) (encode_meta_line m @ rest) = encode_meta_line m"
    "drop (length (show_meta_message m) + 1) (encode_meta_line m @ rest) = rest" using l(5) by simp_all
  have h: "legacy_handle_line M (show_meta_message m) (d\<lparr>lv_raw_buffer := rest\<rparr>) = (Inr s, d\<lparr>lv_raw_buffer := rest, lv_auth := a\<rparr>)"
    using handle_line_on [OF l(2)] assms(1,4) by (simp add: good_line_def)
  show ?thesis
    unfolding receive_buffered.simps [of M d] assms(2,3) l(3) Let_def length_map t l(1)
    using l(4) [of rest] h by simp
qed

primrec lines_on :: "legacy_meta_crypto \<Rightarrow> meta_message list \<Rightarrow> connection_step legacy_auth_op" where
  "lines_on M [] a = (Inr no_step, a)"
| "lines_on M (m # ms) a =
     (case line_on M m a of
        (Inl e, a) \<Rightarrow> (Inl e, a)
      | (Inr s, a) \<Rightarrow> (case lines_on M ms a of (r, a) \<Rightarrow> (map_ok (add_step s) r, a)))"

lemma next_good_line:
  assumes "good_line m"
  shows "next_plaintext_frame \<lparr>ms_buffer = encode_meta_line m @ rest, ms_pending_body = None\<rparr>
    = (Inr (Some (FrameLine (show_meta_message m))), \<lparr>ms_buffer = rest, ms_pending_body = None\<rparr>)"
proof -
  note l = good_line_read [OF assms]
  have t: "take (length (show_meta_message m) + 1) (encode_meta_line m @ rest) = encode_meta_line m"
    "drop (length (show_meta_message m) + 1) (encode_meta_line m @ rest) = rest" using l(5) by simp_all
  show ?thesis
    using l(4) [of rest] unfolding next_plaintext_frame_def next_body_frame_def Let_def
    by (simp only: meta_decoder.select_convs meta_decoder.update_convs option.case if_True l(3) length_map t l(1) map_ok_simps)
qed

lemma lines_drained:
  "list_all good_line ms \<Longrightarrow> lv_decoder d = \<lparr>ms_buffer = concat (map encode_meta_line ms), ms_pending_body = None\<rparr>
    \<Longrightarrow> lines_on M ms (lv_auth d) = (Inr s, a) \<Longrightarrow> drain_frames M d = (Inr s, d\<lparr>lv_auth := a, lv_decoder := meta_decoder_new\<rparr>)"
proof (induction ms arbitrary: d s)
  case Nil
  then have "next_plaintext_frame (lv_decoder d) = (Inr None, lv_decoder d)"
    by (simp add: next_plaintext_frame_def next_body_frame_def)
  moreover have "d\<lparr>lv_auth := a, lv_decoder := meta_decoder_new\<rparr> = d" "s = no_step" using Nil by (auto simp: meta_decoder_new_def)
  ultimately show ?case by (simp add: drain_frames.simps [of M d])
next
  case (Cons m ms)
  let ?d = "d\<lparr>lv_decoder := \<lparr>ms_buffer = concat (map encode_meta_line ms), ms_pending_body = None\<rparr>\<rparr>"
  from Cons.prems obtain s1 a1 where l: "line_on M m (lv_auth d) = (Inr s1, a1)"
    by (cases "line_on M m (lv_auth d)"; cases "fst (line_on M m (lv_auth d))") auto
  from Cons.prems l obtain s2 where r: "lines_on M ms a1 = (Inr s2, a)" "s = add_step s1 s2"
    by (cases "lines_on M ms a1"; cases "fst (lines_on M ms a1)") auto
  have g: "good_line m" using Cons.prems(1) by simp
  have n: "next_plaintext_frame (lv_decoder d) = (Inr (Some (FrameLine (show_meta_message m))), lv_decoder ?d)"
    using next_good_line [OF g] Cons.prems(2) by simp
  have h: "legacy_handle_line M (show_meta_message m) ?d = (Inr s1, ?d\<lparr>lv_auth := a1\<rparr>)"
    using handle_line_on [OF good_line_read(2) [OF g], of M ?d] l g by (simp add: good_line_def)
  have "drain_frames M (?d\<lparr>lv_auth := a1\<rparr>) = (Inr s2, ?d\<lparr>lv_auth := a, lv_decoder := meta_decoder_new\<rparr>)"
    using Cons.IH [of "?d\<lparr>lv_auth := a1\<rparr>" s2] Cons.prems(1) r by simp
  with n h r show ?case by (simp add: drain_frames.simps [of M d] legacy_handle_frame_def)
qed

text \<open>A cipher whose key fits its algorithm, and what it makes of bytes.\<close>

definition cipher_ok :: "legacy_meta_cipher \<Rightarrow> bool" where
  "cipher_ok c \<longleftrightarrow> length (lc_key c) = cfb_key_len (lc_algorithm c)"

definition enciphered :: "legacy_meta_crypto \<Rightarrow> byte list \<Rightarrow> legacy_meta_cipher \<Rightarrow> byte list" where
  "enciphered M p c = fst (cfb128_apply (lm_aes M (lc_key c)) True p c)"

definition cipher_after :: "legacy_meta_crypto \<Rightarrow> byte list \<Rightarrow> legacy_meta_cipher \<Rightarrow> legacy_meta_cipher" where
  "cipher_after M p c = snd (cfb128_apply (lm_aes M (lc_key c)) True p c)"

lemma cipher_after_ok [simp]: "cipher_ok (cipher_after M p c) = cipher_ok c"
  by (simp add: cipher_ok_def cipher_after_def cfb_keeps_key)

lemma enciphered_append:
  "enciphered M (p @ q) c = enciphered M p c @ enciphered M q (cipher_after M p c)"
  "cipher_after M (p @ q) c = cipher_after M q (cipher_after M p c)"
  by (simp_all add: enciphered_def cipher_after_def cfb_append cfb_keeps_key case_prod_beta)

lemma enciphered_length [simp]: "length (enciphered M p c) = length p"
  by (simp add: enciphered_def)

lemma encrypted_with:
  "la_out_cipher a = Some c \<Longrightarrow> cipher_ok c
    \<Longrightarrow> encrypt_outbound M p a = (Inr (enciphered M p c), a\<lparr>la_out_cipher := Some (cipher_after M p c)\<rparr>)"
  by (simp add: encrypt_outbound_def cfb_encrypt_def aes_cfb_apply_def cipher_ok_def enciphered_def cipher_after_def map_prod_def
      case_prod_beta)

lemma decrypted_with:
  assumes "cipher_ok c" "la_in_cipher a = Some c"
  shows "decrypt_inbound M (enciphered M p c) a = (Inr p, a\<lparr>la_in_cipher := Some (cipher_after M p c)\<rparr>)"
proof -
  have "cfb128_apply (lm_aes M (lc_key c)) False (enciphered M p c) c = (p, cipher_after M p c)"
    by (rule cfb_inverse) (simp add: enciphered_def cipher_after_def)
  with assms show ?thesis by (simp add: decrypt_inbound_def cfb_decrypt_def aes_cfb_apply_def cipher_ok_def)
qed

lemma stream_read:
  assumes g: "list_all good_line ms" and c: "la_in_cipher (lv_auth d) = Some c" "cipher_ok c"
    and raw: "lv_raw_buffer d = enciphered M p c" "p = concat (map encode_meta_line ms)" "length p \<le> MAX_META_BUFFER_SIZE"
    and dec: "lv_decoder d = meta_decoder_new"
    and l: "lines_on M ms ((lv_auth d)\<lparr>la_in_cipher := Some (cipher_after M p c)\<rparr>) = (Inr s, a)"
  shows "receive_buffered M d = (Inr s, d\<lparr>lv_raw_buffer := [], lv_auth := a\<rparr>)"
proof (cases "p = []")
  case True
  then have "ms = []" using raw(2) by (cases ms) (simp_all add: encode_meta_line_def)
  have "enciphered M p c = []" "cipher_after M p c = c" using True by (simp_all add: enciphered_def cipher_after_def)
  with \<open>ms = []\<close> l c raw show ?thesis using nothing_buffered [of d M] by auto
next
  case False
  then have ne: "lv_raw_buffer d \<noteq> []" using raw(1) enciphered_length [of M p c] by (metis length_0_conv)
  let ?a = "(lv_auth d)\<lparr>la_in_cipher := Some (cipher_after M p c)\<rparr>"
  let ?d = "d\<lparr>lv_auth := ?a, lv_raw_buffer := [], lv_decoder := \<lparr>ms_buffer = p, ms_pending_body = None\<rparr>\<rparr>"
  have x: "on_legacy_auth (decrypt_inbound M (lv_raw_buffer d)) d = (Inr p, d\<lparr>lv_auth := ?a\<rparr>)"
    using decrypted_with [OF c(2,1)] raw(1) by (simp add: on_legacy_auth_def)
  have y: "decoder_push p (lv_decoder d) = Inr \<lparr>ms_buffer = p, ms_pending_body = None\<rparr>"
    using raw(3) by (simp add: decoder_push_def push_limited_def dec meta_decoder_new_def)
  have z: "drain_frames M ?d = (Inr s, ?d\<lparr>lv_auth := a, lv_decoder := meta_decoder_new\<rparr>)"
    by (rule lines_drained [OF g]) (use raw(2) l in simp_all)
  have e: "?d\<lparr>lv_auth := a, lv_decoder := meta_decoder_new\<rparr> = d\<lparr>lv_raw_buffer := [], lv_auth := a\<rparr>"
    using dec by (cases d) simp
  have "add_step s no_step = s" by (simp add: add_step_def no_step_def)
  with ne c(1) x y z e nothing_buffered [of "d\<lparr>lv_raw_buffer := [], lv_auth := a\<rparr>" M] show ?thesis
    by (simp add: receive_buffered.simps [of M d])
qed

section \<open>The steps of the handshake\<close>

lemma hex_graphic: "c \<in> set (bin_to_hex bs) \<Longrightarrow> graphic c"
proof -
  have h: "list_all graphic HEX" by (simp add: HEX_def graphic_def code_def)
  have "graphic (HEX ! n)" if "n < 16" for n
    using h that by (simp add: list_all_length HEX_def)
  then show "c \<in> set (bin_to_hex bs) \<Longrightarrow> graphic c" using hex_nibbles by (auto simp: bin_to_hex_def)
qed

lemma hex_word:
  assumes "bs \<noteq> []"
  shows "token (bin_to_hex bs)" "printable (bin_to_hex bs)"
proof -
  have "bin_to_hex bs \<noteq> []" using assms by (cases bs) (simp_all add: bin_to_hex_def)
  then show "token (bin_to_hex bs)" using hex_graphic by (intro token_graphic) auto
  show "printable (bin_to_hex bs)" using hex_graphic by (auto simp: printable_def)
qed

lemma hex_length [simp]: "length (bin_to_hex bs) = 2 * length bs"
  by (induction bs) (simp_all add: bin_to_hex_def)

definition zero_id :: "string \<Rightarrow> meta_message" where
  "zero_id name = MsgId \<lparr>id_name = name, id_protocol_major = PROT_MAJOR, id_protocol_minor = Some 0\<rparr>"

lemma good_id: "check_id name \<Longrightarrow> good_line (zero_id name)"
  using printable_words by (auto simp: good_line_def awaits_body_def zero_id_def PROT_MAJOR_def in_i32_def i32_min_def i32_max_def)

lemma small_i32: "0 \<le> i \<Longrightarrow> i \<le> 1000 \<Longrightarrow> in_i32 i"
  by (simp add: in_i32_def i32_min_def i32_max_def)

lemma good_handshake:
  "bs \<noteq> [] \<Longrightarrow> 0 \<le> mac \<Longrightarrow> mac \<le> 1000 \<Longrightarrow> good_line (MsgMetaKey \<lparr>mk_cipher = cfb_nid alg, mk_digest = meta_digest_nid dig,
     mk_mac_length = mac, mk_compression = LEGACY_META_COMPRESS_NONE, mk_key = bin_to_hex bs\<rparr>)"
  "bs \<noteq> [] \<Longrightarrow> good_line (MsgChallenge (bin_to_hex bs))" "bs \<noteq> [] \<Longrightarrow> good_line (MsgChallengeReply (bin_to_hex bs))"
  "token port \<Longrightarrow> printable port \<Longrightarrow> in_i32 w \<Longrightarrow> good_line (MsgAck (AckConnection port w opts))"
  using hex_word [of bs] printable_words
  by (cases alg; cases dig; auto simp: good_line_def awaits_body_def small_i32 LEGACY_META_COMPRESS_NONE_def)+

abbreviation peer_size :: "legacy_auth \<Rightarrow> nat" where
  "peer_size a \<equiv> rsa_size (rp_n (la_peer_public_key a))"

lemma step_id:
  assumes "la_state a = LegacyExpectId" "check_id peer" "peer \<noteq> la_myself a"
    and key: "key = legacy_meta_generate_rsa_key_material (stake (peer_size a) (la_random a))"
    and "cipher_from_rsa_key_material (la_local_cipher_algorithm a) key = Inr c"
    and "legacy_meta_public_encrypt (la_peer_public_key a) key = Inr ek"
  shows "line_on M (zero_id peer) a = (Inr \<lparr>cs_outbound = (if la_outgoing a then [] else [encode_meta_line (legacy_local_id_message a)])
        @ [encode_meta_line (MsgMetaKey \<lparr>mk_cipher = cfb_nid (la_local_cipher_algorithm a), mk_digest = meta_digest_nid (la_out_digest a),
             mk_mac_length = la_local_mac_length a, mk_compression = LEGACY_META_COMPRESS_NONE, mk_key = bin_to_hex ek\<rparr>)],
      cs_events = [EvMessage (zero_id peer)]\<rparr>,
    a\<lparr>la_negotiated_protocol_minor := LEGACY_META_PROTOCOL_MINOR, la_peer := Some peer, la_random := sdrop (peer_size a) (la_random a),
      la_out_cipher := Some c, la_state := LegacyExpectMetaKey\<rparr>)"
proof -
  have m: "LEGACY_META_PROTOCOL_MINOR = 0" by (simp add: LEGACY_META_PROTOCOL_MINOR_def)
  have loc: "legacy_local_id_message (a\<lparr>la_negotiated_protocol_minor := n, la_peer := p, la_random := r, la_out_cipher := x\<rparr>)
      = legacy_local_id_message a" for n p r x by (simp add: legacy_local_id_message_def)
  show ?thesis
    using assms by (simp add: line_on_def zero_id_def legacy_receive_message_def legacy_receive_id_def ensure_expected_def
        validate_legacy_peer_id_def send_metakey_def fill_random_def Let_def m sends_def legacy_step_default_def
        plaintext_message_def encode_outbound_message_def loc)
qed

lemma digest_back:
  "meta_digest_from_nid 672 LEGACY_META_DIGEST_ALGO_SIZE = Some (MetaSha256 32)" "cfb_from_nid (cfb_nid alg) = Some alg"
  by (simp add: meta_digest_from_nid_def) (cases alg; simp add: cfb_from_nid_def)

lemma step_metakey:
  fixes mac :: int
  assumes "la_state a = LegacyExpectMetaKey" "la_out_cipher a = Some c" "cipher_ok c"
    and len: "length ek = rsa_size (rp_n (private_public_key (la_private_key a)))"
    and "decrypt_block (la_private_key a) ek = Inr key" "cipher_from_rsa_key_material alg key = Inr ci"
  defines "m \<equiv> MsgMetaKey \<lparr>mk_cipher = cfb_nid alg, mk_digest = 672, mk_mac_length = mac,
      mk_compression = LEGACY_META_COMPRESS_NONE, mk_key = bin_to_hex ek\<rparr>"
    and "ch \<equiv> stake (peer_size a) (la_random a)"
  shows "line_on M m a = (Inr \<lparr>cs_outbound = [enciphered M (encode_meta_line (MsgChallenge (bin_to_hex ch))) c], cs_events = [EvMessage m]\<rparr>,
    a\<lparr>la_in_cipher := Some ci, la_in_digest := Some (MetaSha256 32), la_random := sdrop (peer_size a) (la_random a),
      la_sent_challenge := Some ch, la_state := LegacyExpectChallenge,
      la_out_cipher := Some (cipher_after M (encode_meta_line (MsgChallenge (bin_to_hex ch))) c)\<rparr>)"
proof -
  have nz: "cfb_nid alg \<noteq> 0" by (cases alg) simp_all
  have h: "hex_to_bin (bin_to_hex ek) (length ek) = ek" by (rule hex_to_bin_to_hex) simp
  show ?thesis
    using assms(1-3,5,6) nz len
    by (simp add: line_on_def m_def ch_def legacy_receive_message_def receive_metakey_def ensure_expected_def digest_back
        send_challenge_def fill_random_def h [unfolded len] sends_def legacy_step_default_def encrypted_message_def
        encode_outbound_message_def encrypted_with ok_or_def and_then_def)
qed

lemma step_challenge:
  fixes M :: legacy_meta_crypto
  assumes "la_state a = LegacyExpectChallenge" "length ch = rsa_size (rp_n (private_public_key (la_private_key a)))"
    and "la_in_digest a = Some dig" "la_out_cipher a = Some c" "cipher_ok c"
  defines "reply \<equiv> encode_meta_line (MsgChallengeReply (meta_digest_create_hex M dig ch))"
  shows "line_on M (MsgChallenge (bin_to_hex ch)) a =
     (if la_outgoing a
      then (Inr \<lparr>cs_outbound = [enciphered M reply c], cs_events = [EvMessage (MsgChallenge (bin_to_hex ch))]\<rparr>,
        a\<lparr>la_received_challenge := None, la_state := LegacyExpectChallengeReply, la_out_cipher := Some (cipher_after M reply c)\<rparr>)
      else (Inr \<lparr>cs_outbound = [], cs_events = [EvMessage (MsgChallenge (bin_to_hex ch))]\<rparr>,
        a\<lparr>la_received_challenge := Some ch, la_state := LegacyExpectChallengeReply\<rparr>))"
proof -
  have h: "hex_to_bin (bin_to_hex ch) (length ch) = ch" by (rule hex_to_bin_to_hex) simp
  show ?thesis
    using assms(1-5)
    by (simp add: line_on_def reply_def legacy_receive_message_def receive_challenge_def ensure_expected_def h [unfolded assms(2)]
        send_challenge_reply_def Let_def sends_def legacy_step_default_def encrypted_message_def encode_outbound_message_def
        encrypted_with and_then_def)
qed

lemma step_reply:
  assumes "la_state a = LegacyExpectChallengeReply" "la_sent_challenge a = Some ch" "la_out_digest a = dig"
    and len: "length (meta_digest_create M dig ch) = meta_digest_length dig"
    and "la_out_cipher a = Some c" "cipher_ok c" "la_negotiated_protocol_minor a = LEGACY_META_PROTOCOL_MINOR"
    and rc: "\<not> la_outgoing a \<Longrightarrow> la_received_challenge a = Some rc \<and> la_in_digest a = Some di"
  defines "ack \<equiv> encode_meta_line (MsgAck (AckConnection (la_local_port a) (la_local_weight a) (la_local_options a)))"
    and "m \<equiv> MsgChallengeReply (meta_digest_create_hex M dig ch)"
    and "reply \<equiv> encode_meta_line (MsgChallengeReply (meta_digest_create_hex M di rc))"
  shows "line_on M m a =
     (if la_outgoing a
      then (Inr \<lparr>cs_outbound = [enciphered M ack c], cs_events = [EvMessage m]\<rparr>,
        a\<lparr>la_sent_challenge := None, la_state := LegacyExpectAck, la_out_cipher := Some (cipher_after M ack c)\<rparr>)
      else (Inr \<lparr>cs_outbound = [enciphered M reply c, enciphered M ack (cipher_after M reply c)], cs_events = [EvMessage m]\<rparr>,
        a\<lparr>la_sent_challenge := None, la_received_challenge := None, la_state := LegacyExpectAck,
          la_out_cipher := Some (cipher_after M (reply @ ack) c)\<rparr>))"
proof -
  have v: "meta_digest_verify_hex M dig ch (meta_digest_create_hex M dig ch) = Inr ()"
    using hex_to_bin_to_hex [of "meta_digest_create M dig ch" "meta_digest_length dig"] len
    by (simp add: meta_digest_verify_hex_def meta_digest_create_hex_def Let_def mem_eq_equal)
  have minor: "LEGACY_META_PROTOCOL_MINOR \<noteq> LEGACY_META_UPGRADE_PROTOCOL_MINOR"
    by (simp add: LEGACY_META_PROTOCOL_MINOR_def LEGACY_META_UPGRADE_PROTOCOL_MINOR_def)
  show ?thesis
  proof (cases "la_outgoing a")
    case True
    with assms(1-3,5-7) v minor show ?thesis
      by (simp add: line_on_def m_def ack_def legacy_receive_message_def receive_challenge_reply_def ensure_expected_def Let_def
          legacy_ack_message_def sends_def legacy_step_default_def encrypted_message_def encode_outbound_message_def encrypted_with
          and_then_def ok_or_def)
  next
    case False
    with assms(1-3,5-7) v minor rc [OF False] show ?thesis
      by (simp add: line_on_def m_def ack_def reply_def legacy_receive_message_def receive_challenge_reply_def ensure_expected_def Let_def
          legacy_ack_message_def sends_def legacy_step_default_def encrypted_message_def encode_outbound_message_def encrypted_with
          and_then_def ok_or_def send_challenge_reply_def enciphered_append)
  qed
qed

lemma step_ack:
  fixes port :: string and w :: int and opts :: u32
  assumes "la_state a = LegacyExpectAck" "la_peer a = Some peer" "la_negotiated_protocol_minor a = LEGACY_META_PROTOCOL_MINOR"
  defines "m \<equiv> MsgAck (AckConnection port w opts)"
  shows "line_on M m a = (Inr \<lparr>cs_outbound = [], cs_events = [EvMessage m, EvAuth (AuthActivated peer port
      (negotiated_weight (la_local_weight a) w) (negotiated_options (la_local_options a) opts))]\<rparr>, a\<lparr>la_state := LegacyActivated\<rparr>)"
  using assms(1-3)
  by (simp add: line_on_def m_def legacy_receive_message_def legacy_receive_ack_def ensure_expected_def legacy_step_default_def
      LEGACY_META_PROTOCOL_MINOR_def LEGACY_META_UPGRADE_PROTOCOL_MINOR_def)

section \<open>Two drivers\<close>

definition legacy_end :: "string \<Rightarrow> bool \<Rightarrow> legacy_meta_private_key \<Rightarrow> rsa_public_key \<Rightarrow> string \<Rightarrow> int \<Rightarrow> u32
    \<Rightarrow> legacy_meta_cipher_algorithm \<Rightarrow> byte stream \<Rightarrow> legacy_driver" where
  "legacy_end me outgoing key peer_key port w opts alg random =
     legacy_driver_new (with_cipher_algorithm alg (legacy_auth_new me outgoing key peer_key port w opts random))"

definition legacy_sent :: "legacy_connection_error + connection_step \<Rightarrow> byte list" where
  "legacy_sent r = (case r of Inl _ \<Rightarrow> [] | Inr s \<Rightarrow> concat (cs_outbound s))"

text \<open>The first driver reads, and then the other reads what it answered.\<close>

primrec legacy_turns where
  "legacy_turns M 0 bs a b = ([], a, b)"
| "legacy_turns M (Suc n) bs a b =
     (case legacy_receive_bytes M bs a of (r, a) \<Rightarrow>
      case legacy_turns M n (legacy_sent r) b a of (rs, x, y) \<Rightarrow> (r # rs, x, y))"

lemma legacy_turn:
  "legacy_receive_bytes M bs a = (Inr s, a') \<Longrightarrow> legacy_turns M n (concat (cs_outbound s)) b a' = (rs, x, y)
    \<Longrightarrow> legacy_turns M (Suc n) bs a b = (Inr s # rs, x, y)"
  by (simp add: legacy_sent_def)

lemma seven_turns:
  assumes "legacy_receive_bytes M bs b = (Inr s1, b1)" "legacy_receive_bytes M (concat (cs_outbound s1)) a = (Inr s2, a1)"
    "legacy_receive_bytes M (concat (cs_outbound s2)) b1 = (Inr s3, b2)" "legacy_receive_bytes M (concat (cs_outbound s3)) a1 = (Inr s4, a2)"
    "legacy_receive_bytes M (concat (cs_outbound s4)) b2 = (Inr s5, b3)" "legacy_receive_bytes M (concat (cs_outbound s5)) a2 = (Inr s6, a3)"
    "legacy_receive_bytes M (concat (cs_outbound s6)) b3 = (Inr s7, b4)"
  shows "legacy_turns M 7 bs b a = ([Inr s1, Inr s2, Inr s3, Inr s4, Inr s5, Inr s6, Inr s7], a3, b4)"
proof -
  have "legacy_turns M 0 (concat (cs_outbound s7)) a3 b4 = ([], a3, b4)" by simp
  from legacy_turn [OF assms(1) legacy_turn [OF assms(2) legacy_turn [OF assms(3) legacy_turn [OF assms(4)
    legacy_turn [OF assms(5) legacy_turn [OF assms(6) legacy_turn [OF assms(7) this]]]]]]]
  moreover have "(7::nat) = Suc (Suc (Suc (Suc (Suc (Suc (Suc 0))))))" by simp
  ultimately show ?thesis by (simp only:)
qed

definition at_rest :: "legacy_driver \<Rightarrow> bool" where
  "at_rest d \<longleftrightarrow> lv_raw_buffer d = [] \<and> lv_decoder d = meta_decoder_new"

lemma at_rest_auth [simp]: "at_rest (d\<lparr>lv_auth := a\<rparr>) = at_rest d"
  by (simp add: at_rest_def)

lemma stream_received:
  assumes "at_rest d" "list_all good_line ms" "la_in_cipher (lv_auth d) = Some c" "cipher_ok c"
    and "p = concat (map encode_meta_line ms)" "length p \<le> MAX_META_BUFFER_SIZE"
    and "lines_on M ms ((lv_auth d)\<lparr>la_in_cipher := Some (cipher_after M p c)\<rparr>) = (Inr s, a)"
  shows "legacy_receive_bytes M (enciphered M p c) d = (Inr s, d\<lparr>lv_auth := a\<rparr>)"
proof -
  have e: "d\<lparr>lv_raw_buffer := [], lv_auth := a\<rparr> = d\<lparr>lv_auth := a\<rparr>" using assms(1) by (cases d) (simp add: at_rest_def)
  from stream_read [OF assms(2), of "d\<lparr>lv_raw_buffer := enciphered M p c\<rparr>" c M p s a] assms e show ?thesis
    by (simp add: legacy_receive_bytes_def at_rest_def)
qed

lemma plain_received:
  assumes "at_rest d" "good_line m" "la_in_cipher (lv_auth d) = None" "line_on M m (lv_auth d) = (Inr s, a)"
  shows "legacy_receive_bytes M (encode_meta_line m @ rest) d
    = (case legacy_receive_bytes M rest (d\<lparr>lv_auth := a\<rparr>) of (r, d) \<Rightarrow> (map_ok (add_step s) r, d))"
proof -
  have "d\<lparr>lv_raw_buffer := rest, lv_auth := a\<rparr> = (d\<lparr>lv_auth := a\<rparr>)\<lparr>lv_raw_buffer := rest\<rparr>" by simp
  with plain_line_read [OF assms(2), of "d\<lparr>lv_raw_buffer := encode_meta_line m @ rest\<rparr>" rest M s a] assms show ?thesis
    by (simp add: legacy_receive_bytes_def at_rest_def)
qed

lemma none_received: "at_rest d \<Longrightarrow> legacy_receive_bytes M [] d = (Inr no_step, d)"
  using nothing_buffered [of "d\<lparr>lv_raw_buffer := []\<rparr>" M] by (cases d) (simp add: legacy_receive_bytes_def at_rest_def)

lemma one_line: "line_on M m a = (Inr s, a') \<Longrightarrow> lines_on M [m] a = (Inr s, a')"
  by simp

lemma two_lines: "line_on M m a = (Inr s, a1) \<Longrightarrow> line_on M m2 a1 = (Inr s2, a2) \<Longrightarrow> lines_on M [m, m2] a = (Inr (add_step s s2), a2)"
  by simp

lemma challenge_fits:
  "length bs \<le> 1000 \<Longrightarrow> length (encode_meta_line (MsgChallenge (bin_to_hex bs))) \<le> MAX_META_BUFFER_SIZE"
  "length (encode_meta_line (MsgChallengeReply (bin_to_hex bs))) = 2 * length bs + 3"
proof -
  have s: "show_int 2 = ''2''" "show_int 3 = ''3''" by code_simp+
  have m: "2176 \<le> MAX_META_BUFFER_SIZE" by (simp add: MAX_META_BUFFER_SIZE_def)
  show "length bs \<le> 1000 \<Longrightarrow> length (encode_meta_line (MsgChallenge (bin_to_hex bs))) \<le> MAX_META_BUFFER_SIZE"
    using m by (simp add: encode_meta_line_def show_meta_message_def s)
  show "length (encode_meta_line (MsgChallengeReply (bin_to_hex bs))) = 2 * length bs + 3"
    by (simp add: encode_meta_line_def show_meta_message_def s)
qed

lemma key_made:
  assumes "cfb_key_material_len alg \<le> length key"
  shows "\<exists>c. cipher_from_rsa_key_material alg key = Inr c \<and> cipher_ok c"
  using assms
  by (cases alg) (auto simp: cipher_from_rsa_key_material_def legacy_meta_key_iv_from_rsa_def cfb_key_material_len_def
      cfb_iv_len_def cipher_ok_def Let_def)

text \<open>One end's key: made from its random bytes, read by the other end.\<close>

lemma key_agreed:
  assumes "rsa_pair pub priv" "8 dvd nat_bits (rp_n pub)" "cfb_key_material_len alg \<le> rsa_size (rp_n pub)"
    and "key = legacy_meta_generate_rsa_key_material (stake (rsa_size (rp_n pub)) random)"
  shows "\<exists>c ek. cipher_from_rsa_key_material alg key = Inr c \<and> cipher_ok c \<and> legacy_meta_public_encrypt pub key = Inr ek
    \<and> length ek = rsa_size (rp_n pub) \<and> decrypt_block priv ek = Inr key \<and> ek \<noteq> []"
proof -
  have n: "rp_n pub \<noteq> 0" using assms(1) by (simp add: rsa_pair_def)
  note k = key_material_fits [OF _ assms(2) n, of "stake (rsa_size (rp_n pub)) random", folded assms(4)]
  from rsa_block [OF assms(1)] k obtain ek where
    ek: "legacy_meta_public_encrypt pub key = Inr ek" "length ek = rsa_size (rp_n pub)" "decrypt_block priv ek = Inr key" by auto
  have "0 < cfb_key_material_len alg" by (cases alg) (simp_all add: cfb_key_material_len_def)
  with ek(2) assms(3) have "ek \<noteq> []" by auto
  with key_made [of alg key] k assms(3) ek show ?thesis by auto
qed

text \<open>The seven turns, one read after the other.\<close>

lemma legacy_run:
  fixes ra rb :: "byte stream"
  assumes pairs: "rsa_pair puba ka" "rsa_pair pubb kb"
    and bits: "8 dvd nat_bits (rp_n puba)" "8 dvd nat_bits (rp_n pubb)"
    and fits: "cfb_key_material_len alga \<le> rsa_size (rp_n pubb)" "cfb_key_material_len algb \<le> rsa_size (rp_n puba)"
    and small: "rsa_size (rp_n puba) \<le> 1000" "rsa_size (rp_n pubb) \<le> 1000"
    and hash: "\<And>x. length (lm_sha256 M x) = 32"
    and names: "check_id na" "check_id nb" "na \<noteq> nb"
    and ports: "token pa" "printable pa" "token pb" "printable pb" and weights: "in_i32 wa" "in_i32 wb"
    and acks: "length (encode_meta_line (MsgAck (AckConnection pa wa oa))) \<le> 2000"
      "length (encode_meta_line (MsgAck (AckConnection pb wb ob))) \<le> 2000"
  defines "a \<equiv> legacy_end na True ka pubb pa wa oa alga ra" and "b \<equiv> legacy_end nb False kb puba pb wb ob algb rb"
    and "w \<equiv> negotiated_weight wa wb" and "opts \<equiv> negotiated_options oa ob"
  shows "\<exists>rs a' b' ca cb. legacy_turns M 7 (legacy_initial_id_bytes a) b a = (rs, a', b') \<and> (\<forall>r \<in> set rs. \<exists>s. r = Inr s)
    \<and> (\<exists>s. Inr s \<in> set rs \<and> EvAuth (AuthActivated nb pb w opts) \<in> set (cs_events s))
    \<and> (\<exists>s. Inr s \<in> set rs \<and> EvAuth (AuthActivated na pa w opts) \<in> set (cs_events s))
    \<and> at_rest a' \<and> at_rest b' \<and> la_state (lv_auth a') = LegacyActivated \<and> la_state (lv_auth b') = LegacyActivated
    \<and> cipher_ok ca \<and> la_out_cipher (lv_auth a') = Some ca \<and> la_in_cipher (lv_auth b') = Some ca
    \<and> cipher_ok cb \<and> la_out_cipher (lv_auth b') = Some cb \<and> la_in_cipher (lv_auth a') = Some cb"
proof -
  let ?sa = "rsa_size (rp_n puba)" and ?sb = "rsa_size (rp_n pubb)"
  define keya where "keya = legacy_meta_generate_rsa_key_material (stake ?sb ra)"
  define keyb where "keyb = legacy_meta_generate_rsa_key_material (stake ?sa rb)"
  obtain ca eka where ca: "cipher_from_rsa_key_material alga keya = Inr ca" "cipher_ok ca" "legacy_meta_public_encrypt pubb keya = Inr eka"
      "length eka = ?sb" "decrypt_block kb eka = Inr keya" "eka \<noteq> []"
    using key_agreed [OF pairs(2) bits(2) fits(1) keya_def] by blast
  obtain cb ekb where cb: "cipher_from_rsa_key_material algb keyb = Inr cb" "cipher_ok cb" "legacy_meta_public_encrypt puba keyb = Inr ekb"
      "length ekb = ?sa" "decrypt_block ka ekb = Inr keyb" "ekb \<noteq> []"
    using key_agreed [OF pairs(1) bits(1) fits(2) keyb_def] by blast
  have own: "private_public_key ka = puba" "private_public_key kb = pubb" using pairs by (simp_all add: rsa_pair_def)
  have dig: "the (meta_digest_from_nid LEGACY_META_DEFAULT_DIGEST_NID LEGACY_META_DIGEST_ALGO_SIZE) = MetaSha256 32"
    by (simp add: LEGACY_META_DEFAULT_DIGEST_NID_def digest_back)
  have len: "length (meta_digest_create M (MetaSha256 32) x) = 32" for x by (simp add: meta_digest_create_def hash)
  define cha where "cha = stake ?sb (sdrop ?sb ra)"
  define chb where "chb = stake ?sa (sdrop ?sa rb)"
  define mka where "mka = MsgMetaKey \<lparr>mk_cipher = cfb_nid alga, mk_digest = 672, mk_mac_length = 4,
      mk_compression = LEGACY_META_COMPRESS_NONE, mk_key = bin_to_hex eka\<rparr>"
  define mkb where "mkb = MsgMetaKey \<lparr>mk_cipher = cfb_nid algb, mk_digest = 672, mk_mac_length = 4,
      mk_compression = LEGACY_META_COMPRESS_NONE, mk_key = bin_to_hex ekb\<rparr>"
  define ma where "ma = MsgChallenge (bin_to_hex cha)"
  define mb where "mb = MsgChallenge (bin_to_hex chb)"
  define reply where "reply ch = MsgChallengeReply (meta_digest_create_hex M (MetaSha256 32) ch)" for ch
  define acka where "acka = MsgAck (AckConnection pa wa oa)"
  define ackb where "ackb = MsgAck (AckConnection pb wb ob)"
  let ?e = encode_meta_line
  note msgs = mka_def mkb_def ma_def mb_def reply_def acka_def ackb_def
  have pos: "0 < ?sa" "0 < ?sb" using ca(4,6) cb(4,6) by (metis length_greater_0_conv)+
  have chs: "length cha = ?sb" "length chb = ?sa" "cha \<noteq> []" "chb \<noteq> []" using pos by (auto simp: cha_def chb_def)
  have good: "good_line (zero_id na)" "good_line (zero_id nb)" "good_line mka" "good_line mkb" "good_line ma" "good_line mb"
    "good_line (reply x)" "good_line acka" "good_line ackb" for x
  proof -
    have "good_line (MsgMetaKey \<lparr>mk_cipher = cfb_nid alg, mk_digest = 672, mk_mac_length = 4,
        mk_compression = LEGACY_META_COMPRESS_NONE, mk_key = bin_to_hex bs\<rparr>)" if "bs \<noteq> []" for alg bs
      using good_handshake(1) [OF that, of 4 alg "MetaSha256 32"] by simp
    moreover have "meta_digest_create M (MetaSha256 32) x \<noteq> []" for x using len [of x] by auto
    ultimately show "good_line (zero_id na)" "good_line (zero_id nb)" "good_line mka" "good_line mkb" "good_line ma" "good_line mb"
      "good_line (reply x)" "good_line acka" "good_line ackb"
      using good_id names good_handshake(2,3) good_handshake(4) ports weights chs ca(6) cb(6)
      by (simp_all add: msgs meta_digest_create_hex_def)
  qed
  define a0 where "a0 = lv_auth a"
  define b0 where "b0 = lv_auth b"
  define a1 where "a1 = a0\<lparr>la_negotiated_protocol_minor := LEGACY_META_PROTOCOL_MINOR, la_peer := Some nb,
      la_random := sdrop ?sb ra, la_out_cipher := Some ca, la_state := LegacyExpectMetaKey\<rparr>"
  define b1 where "b1 = b0\<lparr>la_negotiated_protocol_minor := LEGACY_META_PROTOCOL_MINOR, la_peer := Some na,
      la_random := sdrop ?sa rb, la_out_cipher := Some cb, la_state := LegacyExpectMetaKey\<rparr>"
  define ca1 where "ca1 = cipher_after M (?e ma) ca"
  define cb1 where "cb1 = cipher_after M (?e mb) cb"
  define a2 where "a2 = a1\<lparr>la_in_cipher := Some cb, la_in_digest := Some (MetaSha256 32), la_random := sdrop ?sb (sdrop ?sb ra),
      la_sent_challenge := Some cha, la_state := LegacyExpectChallenge, la_out_cipher := Some ca1\<rparr>"
  define b2 where "b2 = b1\<lparr>la_in_cipher := Some ca, la_in_digest := Some (MetaSha256 32), la_random := sdrop ?sa (sdrop ?sa rb),
      la_sent_challenge := Some chb, la_state := LegacyExpectChallenge, la_out_cipher := Some cb1\<rparr>"
  note base = a_def b_def legacy_end_def legacy_driver_new_def with_cipher_algorithm_def legacy_auth_new_def a0_def b0_def dig
    LEGACY_META_DEFAULT_MAC_LENGTH_def
  have T1: "line_on M (zero_id na) b0 = (Inr \<lparr>cs_outbound = [?e (zero_id nb), ?e mkb], cs_events = [EvMessage (zero_id na)]\<rparr>, b1)"
    using step_id [of b0 na keyb cb ekb M] names cb
    by (simp add: base keyb_def b1_def mkb_def zero_id_def legacy_local_id_message_def LEGACY_META_PROTOCOL_MINOR_def)
  have T2a: "line_on M (zero_id nb) a0 = (Inr \<lparr>cs_outbound = [?e mka], cs_events = [EvMessage (zero_id nb)]\<rparr>, a1)"
    using step_id [of a0 nb keya ca eka M] names ca by (simp add: base keya_def a1_def mka_def)
  have T2b: "line_on M mkb a1 = (Inr \<lparr>cs_outbound = [enciphered M (?e ma) ca], cs_events = [EvMessage mkb]\<rparr>, a2)"
    using step_metakey [of a1 ca ekb keyb algb cb M 4] ca cb own by (simp add: base a1_def a2_def ca1_def mkb_def ma_def cha_def)
  have T3a: "line_on M mka b1 = (Inr \<lparr>cs_outbound = [enciphered M (?e mb) cb], cs_events = [EvMessage mka]\<rparr>, b2)"
    using step_metakey [of b1 cb eka keya alga ca M 4] ca cb own by (simp add: base b1_def b2_def cb1_def mka_def mb_def chb_def)
  define b3 where "b3 = b2\<lparr>la_in_cipher := Some ca1, la_received_challenge := Some cha, la_state := LegacyExpectChallengeReply\<rparr>"
  have T3b: "line_on M ma (b2\<lparr>la_in_cipher := Some ca1\<rparr>) = (Inr \<lparr>cs_outbound = [], cs_events = [EvMessage ma]\<rparr>, b3)"
    using step_challenge [of "b2\<lparr>la_in_cipher := Some ca1\<rparr>" cha "MetaSha256 32" cb1 M] cb own chs
    by (simp add: base b1_def b2_def b3_def cb1_def ma_def)
  define ca2 where "ca2 = cipher_after M (?e (reply chb)) ca1"
  define a3 where "a3 = a2\<lparr>la_in_cipher := Some cb1, la_received_challenge := None, la_state := LegacyExpectChallengeReply, la_out_cipher := Some ca2\<rparr>"
  have T4: "line_on M mb (a2\<lparr>la_in_cipher := Some cb1\<rparr>)
      = (Inr \<lparr>cs_outbound = [enciphered M (?e (reply chb)) ca1], cs_events = [EvMessage mb]\<rparr>, a3)"
    using step_challenge [of "a2\<lparr>la_in_cipher := Some cb1\<rparr>" chb "MetaSha256 32" ca1 M] ca own chs
    by (simp add: base a1_def a2_def a3_def ca1_def ca2_def mb_def reply_def)
  define cb2 where "cb2 = cipher_after M (?e (reply cha) @ ?e ackb) cb1"
  define b4 where "b4 = b3\<lparr>la_in_cipher := Some ca2, la_sent_challenge := None, la_received_challenge := None, la_state := LegacyExpectAck,
      la_out_cipher := Some cb2\<rparr>"
  have T5: "line_on M (reply chb) (b3\<lparr>la_in_cipher := Some ca2\<rparr>) = (Inr \<lparr>cs_outbound = [enciphered M (?e (reply cha)) cb1,
      enciphered M (?e ackb) (cipher_after M (?e (reply cha)) cb1)], cs_events = [EvMessage (reply chb)]\<rparr>, b4)"
    using step_reply [of "b3\<lparr>la_in_cipher := Some ca2\<rparr>" chb "MetaSha256 32" M cb1 cha "MetaSha256 32"] cb len
    by (simp add: base b1_def b2_def b3_def b4_def cb1_def cb2_def reply_def ackb_def)
  define ca3 where "ca3 = cipher_after M (?e acka) ca2"
  define a4 where "a4 = a3\<lparr>la_in_cipher := Some cb2, la_sent_challenge := None, la_state := LegacyExpectAck, la_out_cipher := Some ca3\<rparr>"
  have T6a: "line_on M (reply cha) (a3\<lparr>la_in_cipher := Some cb2\<rparr>)
      = (Inr \<lparr>cs_outbound = [enciphered M (?e acka) ca2], cs_events = [EvMessage (reply cha)]\<rparr>, a4)"
    using step_reply [of "a3\<lparr>la_in_cipher := Some cb2\<rparr>" cha "MetaSha256 32" M ca2] ca len
    by (simp add: base a1_def a2_def a3_def a4_def ca1_def ca2_def ca3_def reply_def acka_def)
  define a5 where "a5 = a4\<lparr>la_state := LegacyActivated\<rparr>"
  have wo: "negotiated_weight wa wb = w" "negotiated_options oa ob = opts" "negotiated_weight wb wa = w" "negotiated_options ob oa = opts"
    using negotiated_commutes by (simp_all add: w_def opts_def)
  have T6b: "line_on M ackb a4 = (Inr \<lparr>cs_outbound = [], cs_events = [EvMessage ackb, EvAuth (AuthActivated nb pb w opts)]\<rparr>, a5)"
    using step_ack [of a4 nb M pb wb ob] wo by (simp add: base a1_def a2_def a3_def a4_def a5_def ackb_def)
  define b5 where "b5 = b4\<lparr>la_in_cipher := Some ca3, la_state := LegacyActivated\<rparr>"
  have T7: "line_on M acka (b4\<lparr>la_in_cipher := Some ca3\<rparr>)
      = (Inr \<lparr>cs_outbound = [], cs_events = [EvMessage acka, EvAuth (AuthActivated na pa w opts)]\<rparr>, b5)"
    using step_ack [of "b4\<lparr>la_in_cipher := Some ca3\<rparr>" na M pa wa oa] wo by (simp add: base b1_def b2_def b3_def b4_def b5_def acka_def)
  have oks: "cipher_ok ca1" "cipher_ok ca2" "cipher_ok ca3" "cipher_ok cb1" "cipher_ok cb2"
    using ca(2) cb(2) by (simp_all add: ca1_def ca2_def ca3_def cb1_def cb2_def)
  have max: "2176 \<le> MAX_META_BUFFER_SIZE" by (simp add: MAX_META_BUFFER_SIZE_def)
  have rl: "length (?e (reply x)) = 67" for x
    by (simp add: reply_def meta_digest_create_hex_def challenge_fits(2) len)
  have size: "length (?e ma) \<le> MAX_META_BUFFER_SIZE" "length (?e mb) \<le> MAX_META_BUFFER_SIZE"
    "length (?e (reply x)) \<le> MAX_META_BUFFER_SIZE" "length (?e (reply x) @ ?e ackb) \<le> MAX_META_BUFFER_SIZE"
    "length (?e acka) \<le> MAX_META_BUFFER_SIZE" for x
    using challenge_fits(1) chs small max rl [of x] acks by (simp_all add: ma_def mb_def acka_def ackb_def)
  have rest: "at_rest a" "at_rest b" by (simp_all add: base at_rest_def)
  have in_a: "la_in_cipher (lv_auth a) = None" "la_in_cipher a1 = None" "la_in_cipher a2 = Some cb" "la_in_cipher a3 = Some cb1"
    and in_b: "la_in_cipher (lv_auth b) = None" "la_in_cipher b1 = None" "la_in_cipher b2 = Some ca" "la_in_cipher b3 = Some ca1"
      "la_in_cipher b4 = Some ca2"
    by (simp_all add: a1_def a2_def a3_def b1_def b2_def b3_def b4_def base)
  have R1: "legacy_receive_bytes M (?e (zero_id na)) b
      = (Inr \<lparr>cs_outbound = [?e (zero_id nb), ?e mkb], cs_events = [EvMessage (zero_id na)]\<rparr>, b\<lparr>lv_auth := b1\<rparr>)"
    using plain_received [OF rest(2) good(1) in_b(1) T1 [unfolded b0_def], of "[]"] none_received [of "b\<lparr>lv_auth := b1\<rparr>" M] rest by simp
  have R2: "legacy_receive_bytes M (?e (zero_id nb) @ ?e mkb) a = (Inr (add_step \<lparr>cs_outbound = [?e mka], cs_events = [EvMessage (zero_id nb)]\<rparr>
      \<lparr>cs_outbound = [enciphered M (?e ma) ca], cs_events = [EvMessage mkb]\<rparr>), a\<lparr>lv_auth := a2\<rparr>)"
    using plain_received [OF rest(1) good(2) in_a(1) T2a [unfolded a0_def], of "?e mkb"]
      plain_received [of "a\<lparr>lv_auth := a1\<rparr>" mkb M _ a2 "[]", OF _ good(4)] T2b in_a(2) none_received [of "a\<lparr>lv_auth := a2\<rparr>" M] rest
    by simp
  have S3: "legacy_receive_bytes M (enciphered M (?e ma) ca) (b\<lparr>lv_auth := b2\<rparr>)
      = (Inr \<lparr>cs_outbound = [], cs_events = [EvMessage ma]\<rparr>, b\<lparr>lv_auth := b3\<rparr>)"
    using stream_received [of "b\<lparr>lv_auth := b2\<rparr>" "[ma]" ca "?e ma" M _ b3] rest good in_b ca size one_line [OF T3b] by (simp add: ca1_def)
  have R3: "legacy_receive_bytes M (?e mka @ enciphered M (?e ma) ca) (b\<lparr>lv_auth := b1\<rparr>)
      = (Inr (add_step \<lparr>cs_outbound = [enciphered M (?e mb) cb], cs_events = [EvMessage mka]\<rparr>
          \<lparr>cs_outbound = [], cs_events = [EvMessage ma]\<rparr>), b\<lparr>lv_auth := b3\<rparr>)"
    using plain_received [of "b\<lparr>lv_auth := b1\<rparr>" mka M _ b2 "enciphered M (?e ma) ca", OF _ good(3)] T3a in_b(2) rest S3 by simp
  have R4: "legacy_receive_bytes M (enciphered M (?e mb) cb) (a\<lparr>lv_auth := a2\<rparr>)
      = (Inr \<lparr>cs_outbound = [enciphered M (?e (reply chb)) ca1], cs_events = [EvMessage mb]\<rparr>, a\<lparr>lv_auth := a3\<rparr>)"
    using stream_received [of "a\<lparr>lv_auth := a2\<rparr>" "[mb]" cb "?e mb" M _ a3] rest good in_a cb size one_line [OF T4] by (simp add: cb1_def)
  have R5: "legacy_receive_bytes M (enciphered M (?e (reply chb)) ca1) (b\<lparr>lv_auth := b3\<rparr>)
      = (Inr \<lparr>cs_outbound = [enciphered M (?e (reply cha)) cb1, enciphered M (?e ackb) (cipher_after M (?e (reply cha)) cb1)],
          cs_events = [EvMessage (reply chb)]\<rparr>, b\<lparr>lv_auth := b4\<rparr>)"
    using stream_received [of "b\<lparr>lv_auth := b3\<rparr>" "[reply chb]" ca1 "?e (reply chb)" M _ b4] rest good in_b oks size one_line [OF T5]
    by (simp add: ca2_def)
  have R6: "legacy_receive_bytes M (enciphered M (?e (reply cha)) cb1 @ enciphered M (?e ackb) (cipher_after M (?e (reply cha)) cb1)) (a\<lparr>lv_auth := a3\<rparr>)
      = (Inr (add_step \<lparr>cs_outbound = [enciphered M (?e acka) ca2], cs_events = [EvMessage (reply cha)]\<rparr>
          \<lparr>cs_outbound = [], cs_events = [EvMessage ackb, EvAuth (AuthActivated nb pb w opts)]\<rparr>), a\<lparr>lv_auth := a5\<rparr>)"
    unfolding enciphered_append(1) [symmetric]
    using stream_received [of "a\<lparr>lv_auth := a3\<rparr>" "[reply cha, ackb]" cb1 "?e (reply cha) @ ?e ackb" M _ a5] rest good in_a oks size
      two_lines [OF T6a T6b] by (simp add: cb2_def)
  have R7: "legacy_receive_bytes M (enciphered M (?e acka) ca2) (b\<lparr>lv_auth := b4\<rparr>)
      = (Inr \<lparr>cs_outbound = [], cs_events = [EvMessage acka, EvAuth (AuthActivated na pa w opts)]\<rparr>, b\<lparr>lv_auth := b5\<rparr>)"
    using stream_received [of "b\<lparr>lv_auth := b4\<rparr>" "[acka]" ca2 "?e acka" M _ b5] rest good in_b oks size one_line [OF T7] by (simp add: ca3_def)
  let ?A = "a\<lparr>lv_auth := a5\<rparr>" and ?B = "b\<lparr>lv_auth := b5\<rparr>"
  let ?s6 = "\<lparr>cs_outbound = [enciphered M (?e acka) ca2],
    cs_events = [EvMessage (reply cha), EvMessage ackb, EvAuth (AuthActivated nb pb w opts)]\<rparr>"
  let ?s7 = "\<lparr>cs_outbound = [], cs_events = [EvMessage acka, EvAuth (AuthActivated na pa w opts)]\<rparr>"
  obtain r1 r2 r3 r4 r5 where run: "legacy_turns M 7 (?e (zero_id na)) b a
      = ([Inr r1, Inr r2, Inr r3, Inr r4, Inr r5, Inr ?s6, Inr ?s7], ?A, ?B)"
    using seven_turns [OF R1, of a _ _ _ _ _ _ _ _ ?s6 ?A ?s7 ?B] R2 R3 R4 R5 R6 R7 unfolding add_step_def by auto
  have id: "legacy_initial_id_bytes a = ?e (zero_id na)"
    by (simp add: base legacy_initial_id_bytes_def legacy_local_id_message_def zero_id_def LEGACY_META_PROTOCOL_MINOR_def)
  have fin: "la_state a5 = LegacyActivated" "la_state b5 = LegacyActivated" "la_out_cipher a5 = Some ca3" "la_in_cipher b5 = Some ca3"
    "la_out_cipher b5 = Some cb2" "la_in_cipher a5 = Some cb2"
    by (simp_all add: a5_def a4_def b5_def b4_def)
  show ?thesis
    unfolding id
    by (rule exI, rule exI [of _ ?A], rule exI [of _ ?B], rule exI [of _ ca3], rule exI [of _ cb2])
      (use run rest oks fin in \<open>auto simp: add_step_def\<close>)
qed

section \<open>A concrete pair\<close>

text \<open>Keys whose exponents are one: a pair over the modulus \<open>2 ^ 384 - 1\<close> of 48 bytes.\<close>

lemma bits_of_ones: "nat_bits (2 ^ k - 1) = k"
proof (induction k)
  case (Suc k)
  obtain m where "(2 :: nat) ^ k = Suc m" using not0_implies_Suc [of "2 ^ k"] by auto
  then have "(2 ^ Suc k - 1) div 2 = (2 ^ k - 1 :: nat)" "(2 ^ Suc k - 1 :: nat) \<noteq> 0" by simp_all
  with Suc show ?case by (simp add: nat_bits.simps [of "2 * 2 ^ k - Suc 0"])
qed (simp add: nat_bits.simps)

definition demo_rsa :: rsa_public_key where
  "demo_rsa = \<lparr>rp_n = 2 ^ 384 - 1, rp_e = 1\<rparr>"

lemma demo_rsa_bits: "8 dvd nat_bits (rp_n demo_rsa)" "rsa_size (rp_n demo_rsa) = 48"
  using bits_of_ones [of 384] by (simp_all add: demo_rsa_def rsa_size_def)

definition demo_private :: legacy_meta_private_key where
  "demo_private = KeyComponents demo_rsa 1"

lemma demo_rsa_pair: "rsa_pair demo_rsa demo_private"
  by (simp add: rsa_pair_def demo_private_def demo_rsa_def private_public_key_def private_exponent_def modpow_def)

lemma demo_rsa_sizes: "rsa_size (rp_n demo_rsa) \<le> 1000" "cfb_key_material_len Aes256Cfb \<le> rsa_size (rp_n demo_rsa)"
  by (simp_all add: demo_rsa_bits cfb_key_material_len_def cfb_iv_len_def)

definition demo_legacy_crypto :: legacy_meta_crypto where
  "demo_legacy_crypto = \<lparr>lm_aes = (\<lambda>k b. map2 (XOR) (take 16 k) b), lm_sha1 = (\<lambda>_. replicate 20 0),
     lm_sha256 = (\<lambda>x. replicate 32 (fold (+) x 7)), lm_sha384 = (\<lambda>_. replicate 48 0), lm_sha512 = (\<lambda>_. replicate 64 0)\<rparr>"

lemma demo_sha: "length (lm_sha256 demo_legacy_crypto x) = 32"
  by (simp add: demo_legacy_crypto_def)

definition demo_legacy_end :: "bool \<Rightarrow> legacy_driver" where
  "demo_legacy_end i = (if i
     then legacy_end ''a'' True demo_private demo_rsa ''655'' 5 1 Aes256Cfb (sconst 3)
     else legacy_end ''b'' False demo_private demo_rsa ''655'' 7 2 Aes256Cfb (sconst 4))"

lemma demo_legacy_ends:
  "demo_legacy_end True = legacy_end ''a'' True demo_private demo_rsa ''655'' 5 1 Aes256Cfb (sconst 3)"
  "demo_legacy_end False = legacy_end ''b'' False demo_private demo_rsa ''655'' 7 2 Aes256Cfb (sconst 4)"
  by (simp_all add: demo_legacy_end_def)

lemma demo_legacy_acks: "length (encode_meta_line (MsgAck (AckConnection ''655'' 5 1))) \<le> 2000"
  "length (encode_meta_line (MsgAck (AckConnection ''655'' 7 2))) \<le> 2000"
proof -
  have "show_meta_message (MsgAck (AckConnection ''655'' 5 1)) = ''4 655 5 1''"
    "show_meta_message (MsgAck (AckConnection ''655'' 7 2)) = ''4 655 7 2''" by code_simp+
  then show "length (encode_meta_line (MsgAck (AckConnection ''655'' 5 1))) \<le> 2000"
    "length (encode_meta_line (MsgAck (AckConnection ''655'' 7 2))) \<le> 2000" by (simp_all add: encode_meta_line_def)
qed

text \<open>A responder that hears the five messages.\<close>

lemma demo_heard:
  "\<exists>ms accepted a. legacy_hears demo_legacy_crypto ms (lv_auth (demo_legacy_end False)) = (accepted, a) \<and> la_state a = LegacyActivated"
proof -
  let ?M = demo_legacy_crypto and ?pub = demo_rsa
  define d0 where "d0 = lv_auth (demo_legacy_end False)"
  define key where "key = legacy_meta_generate_rsa_key_material (stake (rsa_size (rp_n ?pub)) (sconst 4))"
  obtain c ek where k: "cipher_from_rsa_key_material Aes256Cfb key = Inr c" "cipher_ok c" "legacy_meta_public_encrypt ?pub key = Inr ek"
      "length ek = rsa_size (rp_n ?pub)" "decrypt_block demo_private ek = Inr key"
    using key_agreed [OF demo_rsa_pair demo_rsa_bits(1) demo_rsa_sizes(2) key_def] by blast
  have dig: "the (meta_digest_from_nid LEGACY_META_DEFAULT_DIGEST_NID LEGACY_META_DIGEST_ALGO_SIZE) = MetaSha256 32"
    by (simp add: LEGACY_META_DEFAULT_DIGEST_NID_def digest_back)
  have pk: "private_public_key demo_private = demo_rsa" by (simp add: private_public_key_def demo_private_def)
  define d1 where "d1 = d0\<lparr>la_negotiated_protocol_minor := LEGACY_META_PROTOCOL_MINOR, la_peer := Some ''a'',
      la_random := sdrop (peer_size d0) (la_random d0), la_out_cipher := Some c, la_state := LegacyExpectMetaKey\<rparr>"
  define ch where "ch = stake 48 (la_random d1)"
  define d2 where "d2 = d1\<lparr>la_in_cipher := Some c, la_in_digest := Some (MetaSha256 32), la_random := sdrop 48 (la_random d1),
      la_sent_challenge := Some ch, la_state := LegacyExpectChallenge\<rparr>"
  define d3 where "d3 = d2\<lparr>la_received_challenge := Some (replicate 48 9), la_state := LegacyExpectChallengeReply\<rparr>"
  define d4 where "d4 = d3\<lparr>la_sent_challenge := None, la_received_challenge := None, la_state := LegacyExpectAck\<rparr>"
  note d = d0_def demo_legacy_end_def legacy_end_def legacy_driver_new_def with_cipher_algorithm_def legacy_auth_new_def dig
  note r = legacy_receive_message_def ensure_expected_def and_then_def ok_or_def fill_random_def
  have m: "LEGACY_META_PROTOCOL_MINOR = 0" "LEGACY_META_UPGRADE_PROTOCOL_MINOR = 1"
    by (simp_all add: LEGACY_META_PROTOCOL_MINOR_def LEGACY_META_UPGRADE_PROTOCOL_MINOR_def)
  have s1: "\<exists>st. legacy_receive_message ?M (zero_id ''a'') d0 = (Inr st, d1)"
    using k key_def demo_names(1) by (simp add: r d d1_def zero_id_def legacy_receive_id_def validate_legacy_peer_id_def send_metakey_def m)
  define mk where "mk = MsgMetaKey \<lparr>mk_cipher = 429, mk_digest = 672, mk_mac_length = 4, mk_compression = 0, mk_key = bin_to_hex ek\<rparr>"
  have h: "hex_to_bin (bin_to_hex ek) 48 = ek" "hex_to_bin (bin_to_hex (replicate 48 9)) 48 = replicate 48 (9 :: byte)"
    using hex_to_bin_to_hex [of ek 48] hex_to_bin_to_hex [of "replicate 48 9" 48] k(4) demo_rsa_bits(2) by simp_all
  have s2: "\<exists>st. legacy_receive_message ?M mk d1 = (Inr st, d2)"
    using k by (simp add: r d d1_def d2_def ch_def mk_def receive_metakey_def cfb_from_nid_def digest_back pk demo_rsa_bits h send_challenge_def Let_def)
  have s3: "\<exists>st. legacy_receive_message ?M (MsgChallenge (bin_to_hex (replicate 48 9))) d2 = (Inr st, d3)"
    by (simp add: r d d1_def d2_def d3_def receive_challenge_def pk demo_rsa_bits h Let_def)
  define x where "x = meta_digest_create_hex ?M (MetaSha256 32) ch"
  have v: "meta_digest_verify_hex ?M (MetaSha256 32) ch x = Inr ()"
    using hex_to_bin_to_hex [of "meta_digest_create ?M (MetaSha256 32) ch" 32] demo_sha [of ch]
    by (simp add: x_def meta_digest_verify_hex_def meta_digest_create_hex_def Let_def mem_eq_equal meta_digest_create_def)
  have s4: "\<exists>st. legacy_receive_message ?M (MsgChallengeReply x) d3 = (Inr st, d4)"
    using v by (simp add: r d d1_def d2_def d3_def d4_def receive_challenge_reply_def send_challenge_reply_def legacy_ack_message_def m Let_def)
  have s5: "\<exists>st. legacy_receive_message ?M (MsgAck (AckConnection ''655'' 5 1)) d4 = (Inr st, d4\<lparr>la_state := LegacyActivated\<rparr>)"
    by (simp add: r d d1_def d2_def d3_def d4_def legacy_receive_ack_def m)
  have "legacy_hears ?M [zero_id ''a'', mk, MsgChallenge (bin_to_hex (replicate 48 9)), MsgChallengeReply x, MsgAck (AckConnection ''655'' 5 1)] d0
      = ([zero_id ''a'', mk, MsgChallenge (bin_to_hex (replicate 48 9)), MsgChallengeReply x, MsgAck (AckConnection ''655'' 5 1)],
         d4\<lparr>la_state := LegacyActivated\<rparr>)"
    using s1 s2 s3 s4 s5 by auto
  from this [unfolded d0_def] show ?thesis by (intro exI conjI) (assumption, simp)
qed

lemma demo_legacy_fresh: "la_state (lv_auth (demo_legacy_end False)) = LegacyExpectId"
  "la_sent_challenge (lv_auth (demo_legacy_end False)) = None"
  by (simp_all add: demo_legacy_end_def legacy_end_def legacy_driver_new_def with_cipher_algorithm_def legacy_auth_new_def)

section \<open>Properties\<close>

text \<open>
  C6: A legacy connection that is activated, whatever messages the peer sent before, has accepted
  exactly ID, METAKEY, CHALLENGE, CHAL\_REPLY and ACK in this order, names the peer of that ID,
  which is a valid name and not its own, and the reply was the digest of a challenge this connection
  drew itself.
\<close>

theorem legacy_activation_transcript:
  assumes "la_state a0 = LegacyExpectId" "la_sent_challenge a0 = None"
    and "legacy_hears M ms a0 = (accepted, a)" "la_state a = LegacyActivated"
  shows "\<exists>i k c r x. accepted = [MsgId i, MsgMetaKey k, MsgChallenge c, MsgChallengeReply r, MsgAck x]
    \<and> named a0 a i \<and> answers M a0 r"
  using hears_transcript [OF fresh_transcript [OF assms(1,2)] assms(3)] assms(4) by (simp add: transcript_def)

theorem legacy_activation_transcript_witness:
  "\<exists>ms a i k c r x. legacy_hears demo_legacy_crypto ms (lv_auth (demo_legacy_end False))
      = ([MsgId i, MsgMetaKey k, MsgChallenge c, MsgChallengeReply r, MsgAck x], a)
    \<and> la_state a = LegacyActivated \<and> answers demo_legacy_crypto (lv_auth (demo_legacy_end False)) r"
proof -
  obtain ms accepted a where h: "legacy_hears demo_legacy_crypto ms (lv_auth (demo_legacy_end False)) = (accepted, a)"
    "la_state a = LegacyActivated" using demo_heard by blast
  from legacy_activation_transcript [OF demo_legacy_fresh h] h show ?thesis by blast
qed

text \<open>
  C38: The challenge of a legacy connection can be answered once: after a wrong reply no message of
  any kind is accepted any more, and the connection is never activated.
\<close>

theorem legacy_challenge_once:
  assumes "la_state a = LegacyExpectChallengeReply"
    and "legacy_receive_message M (MsgChallengeReply reply) a = (Inl e, a')"
    and "legacy_hears M ms a' = (accepted, a'')"
  shows "accepted = [] \<and> la_state a'' = LegacyExpectChallengeReply"
proof -
  have r: "receive_challenge_reply M reply a = (Inl e, a')" using assms(2) by (simp add: legacy_receive_message_def)
  from challenge_reply_cases [OF r] assms(1) have "la_state a' = LegacyExpectChallengeReply" "la_sent_challenge a' = None" by auto
  from stuck_hears [OF this] this(1) assms(3) show ?thesis by simp
qed

theorem legacy_challenge_once_witness:
  "\<exists>e a. legacy_receive_message demo_legacy_crypto (MsgChallengeReply ''00'')
      ((lv_auth (demo_legacy_end False))\<lparr>la_sent_challenge := Some [1], la_state := LegacyExpectChallengeReply\<rparr>) = (Inl e, a)
    \<and> fst (legacy_hears demo_legacy_crypto [MsgChallengeReply ''00'', MsgAck (AckConnection ''655'' 5 1)] a) = []"
proof -
  let ?a = "(lv_auth (demo_legacy_end False))\<lparr>la_sent_challenge := Some [1], la_state := LegacyExpectChallengeReply\<rparr>"
  have s: "la_state ?a = LegacyExpectChallengeReply" by simp
  have "length (hex_to_bin ''00'' 32) = 1" by code_simp
  then have "\<exists>e. meta_digest_verify_hex demo_legacy_crypto (MetaSha256 32) [1] ''00'' = Inl e"
    by (simp add: meta_digest_verify_hex_def Let_def)
  moreover have "la_out_digest ?a = MetaSha256 32"
    by (simp add: demo_legacy_end_def legacy_end_def legacy_driver_new_def with_cipher_algorithm_def legacy_auth_new_def
        LEGACY_META_DEFAULT_DIGEST_NID_def digest_back)
  ultimately obtain e a where r: "legacy_receive_message demo_legacy_crypto (MsgChallengeReply ''00'') ?a = (Inl e, a)"
    by (auto simp: legacy_receive_message_def receive_challenge_reply_def ensure_expected_def Let_def and_then_def ok_or_def)
  obtain acc b where h: "legacy_hears demo_legacy_crypto [MsgChallengeReply ''00'', MsgAck (AckConnection ''655'' 5 1)] a = (acc, b)"
    by fastforce
  from legacy_challenge_once [OF s r h] r h show ?thesis by auto
qed



text \<open>
  An encrypted read is put into the decoder as a whole: with part of a line already there, a read
  that is itself within the limit closes the connection.
\<close>

lemma encrypted_burst_refused:
  assumes "la_in_cipher (lv_auth d) = Some c" "cipher_ok c" "lv_raw_buffer d = []"
    and "data = enciphered M p c" "data \<noteq> []" "MAX_META_BUFFER_SIZE < length (ms_buffer (lv_decoder d)) + length p"
  shows "\<exists>d'. legacy_receive_bytes M data d = (Inl (LvStream (InputBufferFull MAX_META_BUFFER_SIZE
    (length (ms_buffer (lv_decoder d)) + length p))), d')"
proof -
  have x: "on_legacy_auth (decrypt_inbound M data) (d\<lparr>lv_raw_buffer := data\<rparr>)
      = (Inr p, d\<lparr>lv_raw_buffer := data, lv_auth := (lv_auth d)\<lparr>la_in_cipher := Some (cipher_after M p c)\<rparr>\<rparr>)"
    using decrypted_with [OF assms(2,1)] assms(4) by (simp add: on_legacy_auth_def)
  have y: "decoder_push p (lv_decoder d) = Inl (InputBufferFull MAX_META_BUFFER_SIZE (length (ms_buffer (lv_decoder d)) + length p))"
    using assms(6) by (simp add: decoder_push_def push_limited_def)
  show ?thesis
    using assms(1,3,5) x y by (simp add: legacy_receive_bytes_def receive_buffered.simps [of M "d\<lparr>lv_raw_buffer := data\<rparr>"])
qed

text \<open>Before the stream is encrypted, bytes without a newline are kept whatever their number.\<close>

lemma plain_bytes_kept:
  assumes "la_in_cipher (lv_auth d) = None" "10 \<notin> set (lv_raw_buffer d @ data)"
  shows "legacy_receive_bytes M data d = (Inr no_step, d\<lparr>lv_raw_buffer := lv_raw_buffer d @ data\<rparr>)"
  using assms by (simp add: legacy_receive_bytes_def receive_buffered.simps [of M "d\<lparr>lv_raw_buffer := lv_raw_buffer d @ data\<rparr>"])

end
