(* ===== verification/Spec2Isabelle.thy ===== *)
theory Spec2Isabelle
  imports Utils State_Purge Route_Props Sptps_Safety Config_Props Legacy_Link Key_Exchange_Safety Engine_Props Meta_Activation Coordinator_Props Legacy_Meta_Activation
begin

text \<open>
  A verification development of rusty-tinc, a Rust implementation of the tinc VPN daemon.

  \<^bold>\<open>The program.\<close>  Each daemon keeps a picture of the mesh: nodes and directed edges with
  weights and options (\<^verbatim>\<open>tinc-core/src/graph.rs\<close>) and the subnets that nodes own
  (\<^verbatim>\<open>subnet.rs\<close>).  Peers announce changes in the text lines of the meta protocol
  (\<^verbatim>\<open>protocol.rs\<close>); the network state (\<^verbatim>\<open>state.rs\<close>) applies them, recomputes routes,
  reachability and the spanning tree after every change of the mesh, and purges what unreachable
  nodes left behind.  Packets read from the virtual network device are routed by that state and
  rewritten on the way (\<^verbatim>\<open>route.rs\<close>).  Peers talk through SPTPS records, whose keys a
  signed Diffie-Hellman handshake agrees on (\<^verbatim>\<open>tinc-runtime/src/sptps.rs\<close>).  What to connect
  to and what to announce comes from configuration files (\<^verbatim>\<open>config.rs\<close>).

  \<^bold>\<open>Modelling conventions.\<close>  Structs are records, enums are datatypes with the source's
  constructors, machine integers are words where the code wraps or shifts and bounded \<open>int\<close> or
  \<open>nat\<close> with explicit saturation or range checks elsewhere.  Strings are lists of the bytes
  of their UTF-8 encoding.  \<^verbatim>\<open>Result\<close> is a sum with the error on the left, the \<^verbatim>\<open>?\<close>
  operator is \<open>and_then\<close>; a method that mutates \<^verbatim>\<open>self\<close> returns the updated state, and
  one that mutates it before failing returns the state with the error.  Rust's
  \<^verbatim>\<open>BTreeMap\<close> is a key-sorted association list, its stable \<^verbatim>\<open>sort_by\<close> an insertion
  sort.  A panic (an index out of range, arithmetic overflow in an expression the code does not
  guard) is \<open>None\<close> where it can happen; where the code calls \<^verbatim>\<open>unreachable!\<close> or
  indexes within checked bounds the model has a total function and a lemma.

  \<^bold>\<open>Theories and sources.\<close>
  \<^item> Shared: \<open>Tinc_Prelude\<close> (machine types, slices, byte order, the sum monad, hint
    collections), \<open>Rust_Order\<close> (\<^verbatim>\<open>Ordering\<close>, sorting; the interface \<open>comparator\<close>
    with what a sort by a total preorder gives), \<open>Rust_Map\<close> (\<^verbatim>\<open>BTreeMap\<close>),
    \<open>Rust_Text\<close> and \<open>Rust_Lines\<close> (\<^verbatim>\<open>str\<close> and \<^verbatim>\<open>u8\<close> operations, number
    parsing and printing), \<open>Net_Addr\<close> (IPv4, IPv6 and Ethernet addresses: parse and show).
  \<^item> \<open>Utils\<close>: \<^verbatim>\<open>tinc-core/src/utils.rs\<close>, base64 in both alphabets, hexadecimal,
    identifiers.  Round trips and rejected inputs.
  \<^item> \<open>Subnet\<close>: \<^verbatim>\<open>tinc-core/src/subnet.rs\<close>.  The comparison used for sorting is an
    order on owned subnets, tables stay sorted, lookups return a longest matching prefix, printing
    and parsing are inverse.
  \<^item> \<open>Mesh_Graph\<close>, \<open>Graph_Routes\<close>, \<open>Graph_Tree\<close>:
    \<^verbatim>\<open>tinc-core/src/graph.rs\<close>.  The breadth-first search ends, visits exactly the connected
    nodes and leaves next hops that lie on connections; the restarting Kruskal sweep equals growing
    a tree by lightest crossing edges and spans exactly the reachable nodes.
  \<^item> \<open>Protocol\<close>, \<open>Protocol_Props\<close>: \<^verbatim>\<open>tinc-core/src/protocol.rs\<close>.  Every valid
    message is read back from the line it prints, what is parsed is valid, the cache of past
    requests lets a request through once per period.
  \<^item> \<open>Net_State\<close>, \<open>State_Props\<close>, \<open>State_Purge\<close>: \<^verbatim>\<open>tinc-core/src/state.rs\<close>.
    The invariant \<open>state_ok\<close> (well-formed graph and table, routes that agree with the mesh)
    is kept by every parsed message and by the purge, in every reachable state.
  \<^item> \<open>Inet_Checksum\<close>, \<open>Packet\<close>, \<open>Packet_Props\<close>, \<open>Route\<close>,
    \<open>Route_Props\<close>: \<^verbatim>\<open>tinc-core/src/route.rs\<close>.  Checksums against the one's
    complement sum, hop limits, MSS clamping, fragmentation and reassembly, ICMP, ARP and neighbor
    replies; routing decisions never loop back, go to a reachable owner of a covering subnet, and
    keep the state's invariant.
  \<^item> \<open>Sptps_Crypto\<close>, \<open>Sptps_Crypto_Props\<close>, \<open>Replay_Window\<close>,
    \<open>Replay_Props\<close>, \<open>Sptps_Codec\<close>, \<open>Sptps_Handshake\<close>,
    \<open>Sptps_Props\<close>, \<open>Sptps_Session\<close>, \<open>Sptps_Rekey\<close>, \<open>Sptps_Safety\<close>:
    \<^verbatim>\<open>tinc-runtime/src/sptps.rs\<close>.  Keys and PEM files, the replay bitmap as a refinement of
    a set of accepted numbers, records in order and authentic, two sessions that agree on keys on a
    first handshake and on renewal, and the safety of a session against arbitrary input.
  \<^item> \<open>Config\<close>, \<open>Config_Props\<close>: \<^verbatim>\<open>tinc-core/src/config.rs\<close>.  Files are read
    back, the command line wins, integers are exact up to clamping.

  \<^bold>\<open>Interfaces.\<close>  \<open>comparator\<close> (\<open>Rust_Order\<close>) is interpreted on the orders of
  edges, subnets and configuration entries; \<open>anti_replay\<close> (\<open>Replay_Props\<close>), what a
  receiver needs of a replay window, on \<open>replay_accept\<close>; \<open>record_channel\<close>
  (\<open>Sptps_Props\<close>), what the handshake and the users of a session need of a codec, on
  \<open>codec_encode\<close> and \<open>codec_decode\<close>.

  \<^bold>\<open>Loops.\<close>  The route search is a \<open>partial_function\<close> in the option type, and
  \<open>sssp_bfs_reaches\<close> shows that it returns.  The Kruskal sweep ends by a lexicographic
  measure (unvisited nodes, rest of the list), the checksum folding by the value of the sum, the
  fragmentation, option, key-stream and PEM loops by what remains of their input.  No fuel is used.

  \<^bold>\<open>Parameters.\<close>  SHA-512 behind node identifiers (\<open>H\<close>), ChaCha20, Poly1305,
  HMAC-SHA-512 and Curve25519 arithmetic (the record \<open>sptps_crypto\<close>) and the file system
  (\<open>config_fs\<close>) are third-party code.  Their documented laws are the hypotheses
  \<open>hashes_ok\<close> (output lengths) and \<open>curve_ok\<close> (a commutative group action), with a toy
  instance for the witnesses.  Random draws and the clock are arguments.

  \<^bold>\<open>Not modelled.\<close>  The \<^verbatim>\<open>Display\<close> texts of error types; builds with the
  jumbo-frame feature; devices, sockets, timers, logging and command lines, which only do I/O; the
  remaining modules of the runtime and the daemons, which \<^verbatim>\<open>PROJECT.json\<close> lists one by one.
\<close>

end
